(* ===== verification/Prelude.thy ===== *)
theory Prelude
  imports Complex_Main "HOL-Library.AList"
begin

text \<open>
  Shared vocabulary of the development.

  \<^item> A JavaScript \<open>Map\<close> keeps its keys in insertion order, and the code relies on it (the
    first key is the oldest one, loops run in that order). It is modelled by an association
    list: \<open>AList.update\<close> replaces a value in place or appends a new key at the end, exactly as
    \<open>Map.set\<close> does; \<open>AList.delete\<close> is \<open>Map.delete\<close>; \<open>map_of\<close> is \<open>Map.get\<close>.
  \<^item> Time stamps (\<open>Date.now()\<close>) and counters are integers; every operation that reads the
    clock takes the time as an argument \<open>now\<close>.
  \<^item> \<open>js_or\<close> is the \<open>x || d\<close> of the source on an optional number: undefined, null
    and 0 all give the default.
  \<^item> The locale \<open>machine\<close> is the contract all stateful components share: a step function and an
    invariant each step keeps. Its lemmas lift a one-step fact to every run. In a
    \<open>guarded_machine\<close> the events are restricted to those a predicate accepts.
\<close>

named_theorems map_simps \<open>facts on insertion-ordered maps\<close>

section \<open>Numbers\<close>

type_synonym time = int

definition MAX_SAFE_INTEGER :: int where
  "MAX_SAFE_INTEGER = 9007199254740991"

definition js_or :: "int option \<Rightarrow> int \<Rightarrow> int" where
  "js_or x d = (case x of None \<Rightarrow> d | Some n \<Rightarrow> if n = 0 then d else n)"

definition js_falsy :: "int option \<Rightarrow> bool" where
  "js_falsy x = (case x of None \<Rightarrow> True | Some n \<Rightarrow> n = 0)"

definition nullish :: "'a option \<Rightarrow> 'a \<Rightarrow> 'a" where
  "nullish x d = (case x of None \<Rightarrow> d | Some v \<Rightarrow> v)"

lemma js_or_simps [simp]:
  "js_or None d = d" "js_or (Some 0) d = d" "n \<noteq> 0 \<Longrightarrow> js_or (Some n) d = n"
  by (simp_all add: js_or_def)

lemma js_falsy_simps [simp]: "js_falsy None" "js_falsy (Some n) \<longleftrightarrow> n = 0"
  by (simp_all add: js_falsy_def)

lemma nullish_simps [simp]: "nullish None d = d" "nullish (Some v) d = v"
  by (simp_all add: nullish_def)

text \<open>\<open>Math.ceil(a / b)\<close> on integers with a positive divisor.\<close>

definition ceil_div :: "int \<Rightarrow> int \<Rightarrow> int" where
  "ceil_div a b = - ((- a) div b)"

lemma ceil_div_nonneg: "0 \<le> a \<Longrightarrow> 0 < b \<Longrightarrow> 0 \<le> ceil_div a b"
  by (simp add: ceil_div_def div_nonpos_pos_le0)

text \<open>
  A value of unknown type where the code expects a number, by the cases the code tells apart: not given
  (\<open>undefined\<close>, or \<open>null\<close> where it is defaulted by \<open>??\<close>), not a number, a number that is not finite, a
  finite number. A finite number is a rational: arithmetic is exact, so the rounding of IEEE doubles
  is not modelled.
\<close>

datatype jsval = Undefined | Not_number | Not_finite | Num rat

section \<open>Insertion-ordered maps\<close>

abbreviation map_set :: "'k \<Rightarrow> 'v \<Rightarrow> ('k \<times> 'v) list \<Rightarrow> ('k \<times> 'v) list" where
  "map_set \<equiv> AList.update"

abbreviation map_del :: "'k \<Rightarrow> ('k \<times> 'v) list \<Rightarrow> ('k \<times> 'v) list" where
  "map_del \<equiv> AList.delete"

definition map_has :: "'k \<Rightarrow> ('k \<times> 'v) list \<Rightarrow> bool" where
  "map_has k m \<longleftrightarrow> map_of m k \<noteq> None"

definition map_ok :: "('k \<times> 'v) list \<Rightarrow> bool" where
  "map_ok m \<longleftrightarrow> distinct (map fst m)"

lemma map_get_set [map_simps, simp]:
  "map_of (map_set k v m) k' = (if k' = k then Some v else map_of m k')"
  by (simp add: update_conv)

lemma map_get_del [map_simps, simp]:
  "map_of (map_del k m) k' = (if k' = k then None else map_of m k')"
  by (simp add: delete_conv)

lemma map_has_set [map_simps, simp]: "map_has k' (map_set k v m) \<longleftrightarrow> k' = k \<or> map_has k' m"
  by (simp add: map_has_def)

lemma map_has_del [map_simps, simp]: "map_has k' (map_del k m) \<longleftrightarrow> k' \<noteq> k \<and> map_has k' m"
  by (simp add: map_has_def)

lemma map_has_iff: "map_has k m \<longleftrightarrow> k \<in> fst ` set m"
  by (simp add: map_has_def map_of_eq_None_iff)

lemma map_ok_Nil [simp]: "map_ok []"
  by (simp add: map_ok_def)

lemma map_ok_Cons [simp]: "map_ok ((k, v) # m) \<longleftrightarrow> \<not> map_has k m \<and> map_ok m"
  by (auto simp: map_ok_def map_has_iff)

lemma map_ok_set [simp, intro]: "map_ok m \<Longrightarrow> map_ok (map_set k v m)"
  by (simp add: map_ok_def distinct_update)

lemma map_ok_del [simp, intro]: "map_ok m \<Longrightarrow> map_ok (map_del k m)"
  by (simp add: map_ok_def distinct_delete)

lemma map_ok_filter [simp, intro]: "map_ok m \<Longrightarrow> map_ok (filter P m)"
  by (induction m) (auto simp: map_ok_def)

lemma map_ok_nth_unique: "map_ok m \<Longrightarrow> (k, v) \<in> set m \<Longrightarrow> map_of m k = Some v"
  by (simp add: map_ok_def)

lemma length_map_set: "length (map_set k v m) = (if map_has k m then length m else Suc (length m))"
  by (induction m) (auto simp: map_has_def)

lemma length_map_del_le: "length (map_del k m) \<le> length m"
  by (rule length_delete_le)

lemma length_map_del_less: "map_has k m \<Longrightarrow> length (map_del k m) < length m"
  by (induction m) (auto simp: map_has_def le_imp_less_Suc length_map_del_le split: if_splits)

lemma map_del_absent: "\<not> map_has k m \<Longrightarrow> map_del k m = m"
  by (induction m) (auto simp: map_has_def split: if_splits)

text \<open>Dropping the first (oldest) key: \<open>m.delete(m.keys().next().value)\<close>.\<close>

definition map_evict_oldest :: "('k \<times> 'v) list \<Rightarrow> ('k \<times> 'v) list" where
  "map_evict_oldest m = (case m of [] \<Rightarrow> [] | (k, _) # _ \<Rightarrow> map_del k m)"

lemma map_evict_oldest_ok [simp, intro]: "map_ok m \<Longrightarrow> map_ok (map_evict_oldest m)"
  by (cases m) (auto simp: map_evict_oldest_def split: prod.splits)

lemma length_map_evict_oldest: "m \<noteq> [] \<Longrightarrow> length (map_evict_oldest m) < length m"
  by (cases m) (auto simp: map_evict_oldest_def less_Suc_eq_le length_map_del_le)

lemma map_evict_oldest_distinct: "map_ok m \<Longrightarrow> map_evict_oldest m = tl m"
  by (cases m) (auto simp: map_evict_oldest_def map_del_absent)

text \<open>\<open>while (m.size > n) m.delete(oldest)\<close>.\<close>

function map_trim :: "nat \<Rightarrow> ('k \<times> 'v) list \<Rightarrow> ('k \<times> 'v) list" where
  "map_trim n m = (if n < length m then map_trim n (map_evict_oldest m) else m)"
  by pat_completeness auto
termination
  by (relation "measure (\<lambda>(n, m). length m)") (auto intro!: length_map_evict_oldest)

declare map_trim.simps [simp del]

lemma map_trim_le: "length (map_trim n m) \<le> n"
  by (induction n m rule: map_trim.induct) (subst map_trim.simps, simp)

lemma map_trim_id: "length m \<le> n \<Longrightarrow> map_trim n m = m"
  by (subst map_trim.simps) simp

lemma map_trim_ok: "map_ok m \<Longrightarrow> map_ok (map_trim n m)"
  by (induction n m rule: map_trim.induct) (subst map_trim.simps, simp)

lemma map_trim_drop: "map_ok m \<Longrightarrow> map_trim n m = drop (length m - n) m"
proof (induction n m rule: map_trim.induct)
  case (1 n m)
  show ?case
  proof (cases "n < length m")
    case True
    then obtain k where k: "length m - n = Suc k"
      using less_imp_Suc_add by (metis Suc_diff_Suc)
    from True have "map_trim n m = map_trim n (tl m)"
      using 1(2) by (subst map_trim.simps) (simp add: map_evict_oldest_distinct)
    also have "\<dots> = drop (length (tl m) - n) (tl m)"
      using 1 True map_evict_oldest_ok [OF 1(2)] by (simp add: map_evict_oldest_distinct)
    also have "\<dots> = drop (length m - n) m"
      using k True by (cases m) (auto simp: Suc_diff_le)
    finally show ?thesis .
  next
    case False
    then show ?thesis by (simp add: map_trim_id)
  qed
qed

lemma map_get_last: "map_ok m \<Longrightarrow> \<not> map_has k m \<Longrightarrow> 0 < n \<Longrightarrow>
    map_of (map_trim n (m @ [(k, v)])) k = Some v"
proof -
  assume ok: "map_ok m" and new: "\<not> map_has k m" and n: "0 < n"
  have "map_ok (m @ [(k, v)])"
    using ok new by (auto simp: map_ok_def map_has_iff)
  then have "map_trim n (m @ [(k, v)]) = drop (Suc (length m) - n) m @ [(k, v)]"
    using n by (simp add: map_trim_drop Suc_diff_le)
  moreover have "map_of (drop j m) k = None" for j
    using new by (auto simp: map_has_iff map_of_eq_None_iff dest: in_set_dropD)
  ultimately show ?thesis
    by (simp add: map_add_def)
qed

lemma map_set_new: "\<not> map_has k m \<Longrightarrow> map_set k v m = m @ [(k, v)]"
  by (induction m) (auto simp: map_has_def split: if_splits)

text \<open>A map whose values are replaced in place, as a loop that mutates every value does.\<close>

definition map_values :: "('v \<Rightarrow> 'w) \<Rightarrow> ('k \<times> 'v) list \<Rightarrow> ('k \<times> 'w) list" where
  "map_values f m = map (\<lambda>(k, v). (k, f v)) m"

lemma map_get_values [map_simps, simp]: "map_of (map_values f m) k = map_option f (map_of m k)"
  by (induction m) (auto simp: map_values_def)

lemma map_values_keys [simp]: "map fst (map_values f m) = map fst m"
  by (auto simp: map_values_def)

lemma map_ok_values [simp]: "map_ok (map_values f m) = map_ok m"
  by (simp add: map_ok_def)

lemma map_has_values [simp]: "map_has k (map_values f m) = map_has k m"
  by (simp add: map_has_def)

lemma length_map_values [simp]: "length (map_values f m) = length m"
  by (simp add: map_values_def)

text \<open>Deleting several keys, and keeping the entries a test accepts.\<close>

definition map_del_all :: "'k list \<Rightarrow> ('k \<times> 'v) list \<Rightarrow> ('k \<times> 'v) list" where
  "map_del_all ks m = foldl (\<lambda>m k. map_del k m) m ks"

lemma map_get_del_all [map_simps, simp]:
  "map_of (map_del_all ks m) k = (if k \<in> set ks then None else map_of m k)"
  by (induction ks arbitrary: m) (auto simp: map_del_all_def)

lemma map_ok_del_all [simp]: "map_ok m \<Longrightarrow> map_ok (map_del_all ks m)"
  by (induction ks arbitrary: m) (simp_all add: map_del_all_def)

lemma map_get_filter:
  "map_ok m \<Longrightarrow> map_of (filter P m) k
     = (case map_of m k of None \<Rightarrow> None | Some v \<Rightarrow> if P (k, v) then Some v else None)"
  by (induction m) (auto simp: map_has_def split: option.splits)

section \<open>State machines\<close>

locale guarded_machine =
  fixes step :: "'s \<Rightarrow> 'e \<Rightarrow> 's"
    and inv :: "'s \<Rightarrow> bool"
    and ok :: "'e \<Rightarrow> bool"
  assumes step_ok: "inv s \<Longrightarrow> ok e \<Longrightarrow> inv (step s e)"
begin

lemma run_ok: "inv s \<Longrightarrow> list_all ok es \<Longrightarrow> inv (foldl step s es)"
  by (induction es arbitrary: s) (auto intro: step_ok)

end

text \<open>A machine whose invariant bounds what is handed out: slots, leases, hits in a window.\<close>

locale capped_machine = guarded_machine step inv ok
  for step :: "'s \<Rightarrow> 'e \<Rightarrow> 's" and inv :: "'s \<Rightarrow> bool" and ok :: "'e \<Rightarrow> bool" +
  fixes held :: "'s \<Rightarrow> int" and cap :: int
  assumes inv_held: "inv s \<Longrightarrow> held s \<le> cap"
begin

lemma run_held: "inv s \<Longrightarrow> list_all ok es \<Longrightarrow> held (foldl step s es) \<le> cap"
  by (rule inv_held [OF run_ok])

end

locale machine =
  fixes step :: "'s \<Rightarrow> 'e \<Rightarrow> 's"
    and inv :: "'s \<Rightarrow> bool"
  assumes step_inv: "inv s \<Longrightarrow> inv (step s e)"
begin

lemma run_inv: "inv s \<Longrightarrow> inv (foldl step s es)"
  by (induction es arbitrary: s) (auto intro: step_inv)

lemma run_append_inv: "inv (foldl step s es) \<Longrightarrow> inv (foldl step s (es @ fs))"
  by (simp add: run_inv)

end

sublocale machine \<subseteq> guarded_machine step inv "\<lambda>_. True"
  by unfold_locales (rule step_inv)

end
