(* ===== verification/CircuitBreaker.thy ===== *)
theory CircuitBreaker
  imports Prelude
begin

text \<open>
  The provider circuit breaker, \<open>src/src/shared/utils/circuitBreaker.ts\<close>: the class
  \<open>CircuitBreaker\<close> with every method that changes state, and the predicate that keeps local
  stream errors away from it. \<open>execute\<close> awaits the protected call, so it is two definitions:
  \<open>execute_begin\<close> (the guards and the probe decrement before the call) and
  \<open>execute_finish\<close> (the accounting after it); other operations may run in between. The row of
  \<open>domain_circuit_breakers\<close> with the breaker's name is the field \<open>cb_row\<close>; writing it is
  taken to succeed (a failing write is swallowed by the code and leaves the row as it was). The
  listener \<open>onStateChange\<close> only logs and is left out; the functions \<open>isFailure\<close>,
  \<open>classifyError\<close> and \<open>classifyResult\<close> are the caller's, so their verdicts are part of
  the value that says how the protected call ended.
\<close>

section \<open>Data\<close>

datatype cb_state = CLOSED | DEGRADED | OPEN | HALF_OPEN

datatype failure_kind = Rate_limit | Quota_exhausted | Transient

text \<open>The \<open>reason\<close> strings of a transition record, with the numbers they print.\<close>

datatype reason =
    No_reason
  | Timeout_elapsed
  | Manual_reset
  | Success_recovery
  | Probe_success
  | Recovery
  | Probe_failed int
  | Elevated_failures int int
  | Kind_reason failure_kind

record kind_config =
  kc_threshold :: "int option"
  kc_immediateOpen :: bool

record transition_record =
  tr_from :: cb_state
  tr_to :: cb_state
  tr_timestamp :: time
  tr_failureCount :: int
  tr_reason :: reason

record cb_row =
  row_state :: cb_state
  row_failureCount :: int
  row_lastFailureTime :: "time option"
  row_lastFailureKind :: "failure_kind option"
  row_openCycleCount :: int
  row_kindFailureCounts :: "failure_kind \<Rightarrow> int"

record cb_options =
  opt_failureThreshold :: "int option"
  opt_resetTimeout :: "int option"
  opt_halfOpenRequests :: "int option"
  opt_cooldownByKind :: "failure_kind \<Rightarrow> int option"
  opt_kindThresholds :: "failure_kind \<Rightarrow> kind_config option"
  opt_degradationThreshold :: "int option"
  opt_maxBackoffMultiplier :: "int option"
  opt_backoffEscalationCount :: "int option"

text \<open>The options of a call that gives none: \<open>options = {}\<close>.\<close>

definition no_options :: cb_options where
  "no_options = \<lparr>opt_failureThreshold = None, opt_resetTimeout = None,
     opt_halfOpenRequests = None, opt_cooldownByKind = (\<lambda>_. None),
     opt_kindThresholds = (\<lambda>_. None), opt_degradationThreshold = None,
     opt_maxBackoffMultiplier = None, opt_backoffEscalationCount = None\<rparr>"

record cb =
  cb_name :: string
  failureThreshold :: int
  resetTimeout :: int
  halfOpenRequests :: int
  cb_st :: cb_state
  failureCount :: int
  successCount :: int
  lastFailureTime :: "time option"
  halfOpenAllowed :: int
  cooldownByKind :: "failure_kind \<Rightarrow> int option"
  lastFailureKind :: "failure_kind option"
  kindThresholds :: "failure_kind \<Rightarrow> kind_config option"
  degradationThreshold :: int
  maxBackoffMultiplier :: int
  backoffEscalationCount :: int
  kindFailureCounts :: "failure_kind \<Rightarrow> int"
  openCycleCount :: int
  transitionHistory :: "transition_record list"
  maxTransitionHistory :: int
  cb_row :: "cb_row option"

record cb_status =
  sts_name :: string
  sts_state :: cb_state
  sts_failureCount :: int
  sts_lastFailureTime :: "time option"
  sts_retryAfterMs :: int
  sts_lastFailureKind :: "failure_kind option"
  sts_openCycleCount :: int
  sts_kindFailureCounts :: "failure_kind \<Rightarrow> int"
  sts_degradationThreshold :: int
  sts_effectiveResetTimeout :: int
  sts_transitionHistory :: "transition_record list"

section \<open>Persistence\<close>

definition persistToDb :: "cb \<Rightarrow> cb" where
  "persistToDb b = b\<lparr>cb_row := Some \<lparr>row_state = cb_st b, row_failureCount = failureCount b,
     row_lastFailureTime = lastFailureTime b, row_lastFailureKind = lastFailureKind b,
     row_openCycleCount = openCycleCount b, row_kindFailureCounts = kindFailureCounts b\<rparr>\<rparr>"

text \<open>\<open>loadCircuitBreakerState\<close> reads the time as \<open>toNumber(last_failure_time, 0) || null\<close>.\<close>

definition loadCircuitBreakerState :: "cb_row option \<Rightarrow> cb_row option" where
  "loadCircuitBreakerState r = map_option (\<lambda>x. x\<lparr>row_lastFailureTime :=
     (if js_falsy (row_lastFailureTime x) then None else row_lastFailureTime x)\<rparr>) r"

definition restoreFromDb :: "cb \<Rightarrow> cb" where
  "restoreFromDb b = (case loadCircuitBreakerState (cb_row b) of
     None \<Rightarrow> b
   | Some r \<Rightarrow>
       (let b1 = b\<lparr>cb_st := row_state r, failureCount := row_failureCount r,
                   lastFailureTime := row_lastFailureTime r,
                   lastFailureKind := (case row_lastFailureKind r of
                      None \<Rightarrow> lastFailureKind b | Some k \<Rightarrow> Some k),
                   openCycleCount := row_openCycleCount r,
                   kindFailureCounts := row_kindFailureCounts r\<rparr>
        in if cb_st b1 = HALF_OPEN then b1\<lparr>halfOpenAllowed := halfOpenRequests b1\<rparr> else b1))"

text \<open>The constructor, on the row a previous process may have left.\<close>

definition newCircuitBreaker :: "string \<Rightarrow> cb_options \<Rightarrow> cb_row option \<Rightarrow> cb" where
  "newCircuitBreaker n opts r =
     (let ft = nullish (opt_failureThreshold opts) 5
      in restoreFromDb
        \<lparr>cb_name = n, failureThreshold = ft,
         resetTimeout = nullish (opt_resetTimeout opts) 30000,
         halfOpenRequests = nullish (opt_halfOpenRequests opts) 1,
         cb_st = CLOSED, failureCount = 0, successCount = 0, lastFailureTime = None,
         halfOpenAllowed = 0, cooldownByKind = opt_cooldownByKind opts, lastFailureKind = None,
         kindThresholds = opt_kindThresholds opts,
         degradationThreshold = nullish (opt_degradationThreshold opts) (ceil_div (ft * 60) 100),
         maxBackoffMultiplier = nullish (opt_maxBackoffMultiplier opts) 16,
         backoffEscalationCount = nullish (opt_backoffEscalationCount opts) 3,
         kindFailureCounts = (\<lambda>_. 0), openCycleCount = 0, transitionHistory = [],
         maxTransitionHistory = 20, cb_row = r\<rparr>)"

section \<open>Transitions and time outs\<close>

definition transition :: "time \<Rightarrow> cb_state \<Rightarrow> reason \<Rightarrow> cb \<Rightarrow> cb" where
  "transition now newState why b =
     (let b1 = b\<lparr>cb_st := newState\<rparr>;
          b2 = (if newState = HALF_OPEN then b1\<lparr>halfOpenAllowed := halfOpenRequests b1\<rparr> else b1);
          h = transitionHistory b2 @ [\<lparr>tr_from = cb_st b, tr_to = newState, tr_timestamp = now,
                                       tr_failureCount = failureCount b2, tr_reason = why\<rparr>]
      in b2\<lparr>transitionHistory :=
           (if int (length h) > maxTransitionHistory b2 then tl h else h)\<rparr>)"

definition effectiveResetTimeout :: "cb \<Rightarrow> int" where
  "effectiveResetTimeout b =
     (if openCycleCount b \<le> backoffEscalationCount b then resetTimeout b
      else let escalationFactor = 2 ^ nat (openCycleCount b - backoffEscalationCount b)
           in min (resetTimeout b * escalationFactor) (resetTimeout b * maxBackoffMultiplier b))"

definition effectiveCooldown :: "cb \<Rightarrow> int" where
  "effectiveCooldown b =
     (case lastFailureKind b of
        None \<Rightarrow> effectiveResetTimeout b
      | Some k \<Rightarrow> (case cooldownByKind b k of
           None \<Rightarrow> effectiveResetTimeout b
         | Some override \<Rightarrow> if override \<ge> 0 then override else effectiveResetTimeout b))"

definition shouldAttemptReset :: "time \<Rightarrow> cb \<Rightarrow> bool" where
  "shouldAttemptReset now b =
     (case lastFailureTime b of
        None \<Rightarrow> True
      | Some t \<Rightarrow> t = 0 \<or> now - t \<ge> effectiveCooldown b)"

definition timeUntilReset :: "time \<Rightarrow> cb \<Rightarrow> int" where
  "timeUntilReset now b =
     (case lastFailureTime b of
        None \<Rightarrow> 0
      | Some t \<Rightarrow> if t = 0 then 0 else max 0 (effectiveCooldown b - (now - t)))"

definition refreshOpenState :: "time \<Rightarrow> cb \<Rightarrow> cb" where
  "refreshOpenState now b =
     (if cb_st b = OPEN \<and> shouldAttemptReset now b
      then persistToDb (transition now HALF_OPEN Timeout_elapsed b) else b)"

section \<open>Successes and failures\<close>

definition onSuccess :: "time \<Rightarrow> cb \<Rightarrow> cb" where
  "onSuccess now b = persistToDb
     (case cb_st b of
        OPEN \<Rightarrow> (transition now CLOSED Success_recovery b)
            \<lparr>failureCount := 0, successCount := 0, lastFailureTime := None,
             lastFailureKind := None, openCycleCount := 0, kindFailureCounts := (\<lambda>_. 0)\<rparr>
      | HALF_OPEN \<Rightarrow> (transition now CLOSED Probe_success (b\<lparr>successCount := successCount b + 1\<rparr>))
            \<lparr>failureCount := 0, lastFailureKind := None, openCycleCount := 0,
             kindFailureCounts := (\<lambda>_. 0)\<rparr>
      | _ \<Rightarrow>
          (let b1 = b\<lparr>failureCount := max 0 (failureCount b - 1)\<rparr>
           in if cb_st b1 = DEGRADED \<and> failureCount b1 \<le> degradationThreshold b1
              then transition now CLOSED Recovery b1 else b1))"

definition openCircuit :: "time \<Rightarrow> failure_kind option \<Rightarrow> cb \<Rightarrow> cb" where
  "openCircuit now k b =
     transition now OPEN (case k of None \<Rightarrow> No_reason | Some fk \<Rightarrow> Kind_reason fk) b"

text \<open>The counting at the head of \<open>_onFailure\<close>.\<close>

definition countFailure :: "time \<Rightarrow> failure_kind option \<Rightarrow> cb \<Rightarrow> cb" where
  "countFailure now k b =
     (let b1 = b\<lparr>failureCount := failureCount b + 1, lastFailureTime := Some now,
                 lastFailureKind := k\<rparr>
      in case k of
           None \<Rightarrow> b1
         | Some fk \<Rightarrow> b1\<lparr>kindFailureCounts :=
               (kindFailureCounts b1)(fk := kindFailureCounts b1 fk + 1)\<rparr>)"

text \<open>The two kind-specific tests, either of which opens the circuit and returns early.\<close>

definition kindTrips :: "failure_kind option \<Rightarrow> cb \<Rightarrow> bool" where
  "kindTrips k b =
     (case k of
        None \<Rightarrow> False
      | Some fk \<Rightarrow> (case kindThresholds b fk of
           None \<Rightarrow> False
         | Some kc \<Rightarrow>
             (kc_immediateOpen kc \<and> kindFailureCounts b fk \<ge> js_or (kc_threshold kc) 1)
             \<or> kindFailureCounts b fk \<ge> js_or (kc_threshold kc) (failureThreshold b)))"

text \<open>The transitions on the total failure count.\<close>

definition escalate :: "time \<Rightarrow> failure_kind option \<Rightarrow> cb \<Rightarrow> cb" where
  "escalate now k b =
     (case cb_st b of
        OPEN \<Rightarrow> b
      | HALF_OPEN \<Rightarrow>
          (let b1 = b\<lparr>openCycleCount := openCycleCount b + 1\<rparr>
           in transition now OPEN (Probe_failed (openCycleCount b1)) b1)
      | DEGRADED \<Rightarrow> if failureCount b \<ge> failureThreshold b then openCircuit now k b else b
      | CLOSED \<Rightarrow>
          if failureCount b \<ge> failureThreshold b then openCircuit now k b
          else if failureCount b \<ge> degradationThreshold b
          then transition now DEGRADED
                 (Elevated_failures (failureCount b) (failureThreshold b)) b
          else b)"

definition onFailure :: "time \<Rightarrow> failure_kind option \<Rightarrow> cb \<Rightarrow> cb" where
  "onFailure now k b =
     (let b1 = countFailure now k b
      in if kindTrips k b1 then openCircuit now k b1
         else persistToDb (escalate now k b1))"

definition cb_reset :: "time \<Rightarrow> cb \<Rightarrow> cb" where
  "cb_reset now b = persistToDb ((transition now CLOSED Manual_reset b)
     \<lparr>failureCount := 0, successCount := 0, lastFailureTime := None, lastFailureKind := None,
      openCycleCount := 0, kindFailureCounts := (\<lambda>_. 0)\<rparr>)"

section \<open>execute, canExecute, getStatus\<close>

datatype open_error = Open_error int | Half_open_error int

definition execute_begin :: "time \<Rightarrow> cb \<Rightarrow> open_error option \<times> cb" where
  "execute_begin now b0 =
     (let b = refreshOpenState now b0
      in if cb_st b = OPEN then (Some (Open_error (timeUntilReset now b)), b)
         else if cb_st b = HALF_OPEN \<and> halfOpenAllowed b \<le> 0
         then (Some (Half_open_error (timeUntilReset now b)), b)
         else if cb_st b = HALF_OPEN
         then (None, b\<lparr>halfOpenAllowed := halfOpenAllowed b - 1\<rparr>)
         else (None, b))"

datatype result_outcome = Success | Failure | Ignore

text \<open>
  How the awaited call ended. \<open>Resolved c\<close>: it resolved and \<open>classifyResult\<close> (absent or
  throwing: \<open>Success\<close>) gave \<open>c\<close>. \<open>Rejected f k\<close>: it threw, \<open>isFailure\<close> said \<open>f\<close> and
  \<open>classifyError\<close> (absent or throwing: none) gave \<open>k\<close>.
\<close>

datatype call_end = Resolved result_outcome | Rejected bool "failure_kind option"

definition recordResolvedResult :: "time \<Rightarrow> result_outcome \<Rightarrow> cb \<Rightarrow> cb" where
  "recordResolvedResult now outcome b =
     (case outcome of Failure \<Rightarrow> onFailure now None b | Success \<Rightarrow> onSuccess now b | Ignore \<Rightarrow> b)"

definition execute_finish :: "time \<Rightarrow> call_end \<Rightarrow> cb \<Rightarrow> cb" where
  "execute_finish now e b =
     (case e of
        Resolved outcome \<Rightarrow> recordResolvedResult now outcome b
      | Rejected isFail k \<Rightarrow> if isFail then onFailure now k b else b)"

definition canExecute :: "time \<Rightarrow> cb \<Rightarrow> bool \<times> cb" where
  "canExecute now b0 =
     (let b = refreshOpenState now b0
      in (case cb_st b of
            CLOSED \<Rightarrow> True | DEGRADED \<Rightarrow> True | OPEN \<Rightarrow> False
          | HALF_OPEN \<Rightarrow> halfOpenAllowed b > 0, b))"

definition getRetryAfterMs :: "time \<Rightarrow> cb \<Rightarrow> int \<times> cb" where
  "getRetryAfterMs now b0 =
     (let b = refreshOpenState now b0
      in (if cb_st b = CLOSED \<or> cb_st b = DEGRADED then 0 else timeUntilReset now b, b))"

definition getStatus :: "time \<Rightarrow> cb \<Rightarrow> cb_status \<times> cb" where
  "getStatus now b0 =
     (let b = refreshOpenState now b0
      in (\<lparr>sts_name = cb_name b, sts_state = cb_st b, sts_failureCount = failureCount b,
           sts_lastFailureTime = lastFailureTime b,
           sts_retryAfterMs = fst (getRetryAfterMs now b),
           sts_lastFailureKind = lastFailureKind b,
           sts_openCycleCount = openCycleCount b,
           sts_kindFailureCounts = kindFailureCounts b,
           sts_degradationThreshold = degradationThreshold b,
           sts_effectiveResetTimeout = effectiveResetTimeout b,
           sts_transitionHistory = transitionHistory b\<rparr>, snd (getRetryAfterMs now b)))"

text \<open>The options \<open>getCircuitBreaker\<close> applies to a breaker that exists already.\<close>

definition merge_kinds :: "(failure_kind \<Rightarrow> 'a option) \<Rightarrow> (failure_kind \<Rightarrow> 'a option) \<Rightarrow> failure_kind \<Rightarrow> 'a option" where
  "merge_kinds old new k = (case new k of None \<Rightarrow> old k | Some v \<Rightarrow> Some v)"

definition applyOptions :: "cb_options \<Rightarrow> cb \<Rightarrow> cb" where
  "applyOptions opts b =
     (let b1 = b\<lparr>failureThreshold := nullish (opt_failureThreshold opts) (failureThreshold b),
                 resetTimeout := nullish (opt_resetTimeout opts) (resetTimeout b)\<rparr>;
          b2 = (case opt_halfOpenRequests opts of
                  None \<Rightarrow> b1
                | Some n \<Rightarrow>
                    (let b' = b1\<lparr>halfOpenRequests := n\<rparr>
                     in if cb_st b' = HALF_OPEN
                        then b'\<lparr>halfOpenAllowed := min (halfOpenAllowed b') n\<rparr> else b'))
      in persistToDb (b2\<lparr>
           cooldownByKind := merge_kinds (cooldownByKind b2) (opt_cooldownByKind opts),
           kindThresholds := merge_kinds (kindThresholds b2) (opt_kindThresholds opts),
           degradationThreshold := nullish (opt_degradationThreshold opts) (degradationThreshold b2),
           maxBackoffMultiplier := nullish (opt_maxBackoffMultiplier opts) (maxBackoffMultiplier b2),
           backoffEscalationCount :=
             nullish (opt_backoffEscalationCount opts) (backoffEscalationCount b2)\<rparr>))"

section \<open>Runs\<close>

text \<open>Everything that can happen to one breaker object, in any order.\<close>

datatype cb_event =
    Ev_begin time
  | Ev_finish time call_end
  | Ev_success time
  | Ev_failure time "failure_kind option"
  | Ev_query time
  | Ev_options cb_options
  | Ev_reset time

fun cb_step :: "cb \<Rightarrow> cb_event \<Rightarrow> cb" where
  "cb_step b (Ev_begin t) = snd (execute_begin t b)"
| "cb_step b (Ev_finish t e) = execute_finish t e b"
| "cb_step b (Ev_success t) = onSuccess t b"
| "cb_step b (Ev_failure t k) = onFailure t k b"
| "cb_step b (Ev_query t) = snd (canExecute t b)"
| "cb_step b (Ev_options o') = applyOptions o' b"
| "cb_step b (Ev_reset t) = cb_reset t b"

section \<open>Basic facts\<close>

lemmas cb_ops = persistToDb_def transition_def openCircuit_def countFailure_def
  refreshOpenState_def onSuccess_def escalate_def onFailure_def kindTrips_def cb_reset_def
  execute_begin_def execute_finish_def recordResolvedResult_def canExecute_def
  applyOptions_def Let_def

lemma transition_fields [simp]:
  "cb_st (transition t s r b) = s"
  "failureCount (transition t s r b) = failureCount b"
  "openCycleCount (transition t s r b) = openCycleCount b"
  "kindFailureCounts (transition t s r b) = kindFailureCounts b"
  "maxTransitionHistory (transition t s r b) = maxTransitionHistory b"
  "lastFailureTime (transition t s r b) = lastFailureTime b"
  "lastFailureKind (transition t s r b) = lastFailureKind b"
  "failureThreshold (transition t s r b) = failureThreshold b"
  "degradationThreshold (transition t s r b) = degradationThreshold b"
  "halfOpenRequests (transition t s r b) = halfOpenRequests b"
  "kindThresholds (transition t s r b) = kindThresholds b"
  "cooldownByKind (transition t s r b) = cooldownByKind b"
  "resetTimeout (transition t s r b) = resetTimeout b"
  "maxBackoffMultiplier (transition t s r b) = maxBackoffMultiplier b"
  "backoffEscalationCount (transition t s r b) = backoffEscalationCount b"
  "cb_row (transition t s r b) = cb_row b"
  "halfOpenAllowed (transition t s r b) =
     (if s = HALF_OPEN then halfOpenRequests b else halfOpenAllowed b)"
  by (simp_all add: transition_def Let_def)

lemma persist_fields [simp]:
  "cb_st (persistToDb b) = cb_st b"
  "failureCount (persistToDb b) = failureCount b"
  "openCycleCount (persistToDb b) = openCycleCount b"
  "kindFailureCounts (persistToDb b) = kindFailureCounts b"
  "maxTransitionHistory (persistToDb b) = maxTransitionHistory b"
  "transitionHistory (persistToDb b) = transitionHistory b"
  "lastFailureTime (persistToDb b) = lastFailureTime b"
  "lastFailureKind (persistToDb b) = lastFailureKind b"
  "failureThreshold (persistToDb b) = failureThreshold b"
  "degradationThreshold (persistToDb b) = degradationThreshold b"
  "halfOpenRequests (persistToDb b) = halfOpenRequests b"
  "halfOpenAllowed (persistToDb b) = halfOpenAllowed b"
  "kindThresholds (persistToDb b) = kindThresholds b"
  "resetTimeout (persistToDb b) = resetTimeout b"
  by (simp_all add: persistToDb_def)

lemma transition_history_bound:
  "int (length (transitionHistory b)) \<le> maxTransitionHistory b \<Longrightarrow>
   int (length (transitionHistory (transition t s r b))) \<le> maxTransitionHistory b"
  by (auto simp: transition_def Let_def)

section \<open>The invariant\<close>

definition cb_inv :: "cb \<Rightarrow> bool" where
  "cb_inv b \<longleftrightarrow> 0 \<le> failureCount b \<and> 0 \<le> openCycleCount b \<and> (\<forall>k. 0 \<le> kindFailureCounts b k)
     \<and> int (length (transitionHistory b)) \<le> maxTransitionHistory b
     \<and> (cb_st b = HALF_OPEN \<longrightarrow> halfOpenAllowed b \<le> halfOpenRequests b)"

lemma cb_inv_persist [simp]: "cb_inv (persistToDb b) = cb_inv b"
  by (simp add: cb_inv_def)

lemma cb_inv_transition: "cb_inv b \<Longrightarrow> cb_inv (transition t s r b)"
  by (simp add: cb_inv_def transition_history_bound)

lemma cb_inv_refresh: "cb_inv b \<Longrightarrow> cb_inv (refreshOpenState t b)"
  by (simp add: refreshOpenState_def cb_inv_transition)

lemma cb_inv_begin: "cb_inv b \<Longrightarrow> cb_inv (snd (execute_begin t b))"
  using cb_inv_refresh [of b t] by (auto simp: execute_begin_def Let_def cb_inv_def)

lemma cb_inv_clear:
  "cb_inv b \<Longrightarrow> cb_inv (b\<lparr>failureCount := 0, successCount := n, lastFailureTime := x,
     lastFailureKind := y, openCycleCount := 0, kindFailureCounts := (\<lambda>_. 0)\<rparr>)"
  "cb_inv b \<Longrightarrow> cb_inv (b\<lparr>failureCount := 0, lastFailureKind := y, openCycleCount := 0,
     kindFailureCounts := (\<lambda>_. 0)\<rparr>)"
  "cb_inv b \<Longrightarrow> cb_inv (b\<lparr>successCount := n\<rparr>)"
  "cb_inv b \<Longrightarrow> 0 \<le> n \<Longrightarrow> cb_inv (b\<lparr>failureCount := n\<rparr>)"
  "cb_inv b \<Longrightarrow> 0 \<le> n \<Longrightarrow> cb_inv (b\<lparr>openCycleCount := n\<rparr>)"
  by (simp_all add: cb_inv_def)

lemma cb_inv_success: "cb_inv b \<Longrightarrow> cb_inv (onSuccess t b)"
  by (cases "cb_st b") (auto simp: onSuccess_def Let_def intro!: cb_inv_clear cb_inv_transition)

lemma cb_inv_count: "cb_inv b \<Longrightarrow> cb_inv (countFailure t k b)"
  by (cases k) (auto simp: countFailure_def cb_inv_def Let_def)

lemma cb_inv_escalate: "cb_inv b \<Longrightarrow> cb_inv (escalate t k b)"
proof -
  assume inv: "cb_inv b"
  then have "cb_inv (b\<lparr>openCycleCount := openCycleCount b + 1\<rparr>)"
    by (simp add: cb_inv_def)
  with inv show ?thesis
    by (cases "cb_st b") (simp_all add: escalate_def openCircuit_def Let_def cb_inv_transition)
qed

lemma cb_inv_failure: "cb_inv b \<Longrightarrow> cb_inv (onFailure t k b)"
  by (simp add: onFailure_def Let_def openCircuit_def cb_inv_transition cb_inv_count
      cb_inv_escalate)

lemma cb_inv_options: "cb_inv b \<Longrightarrow> cb_inv (applyOptions opts b)"
  by (auto simp: applyOptions_def Let_def cb_inv_def split: option.splits)

lemma cb_inv_reset: "cb_inv b \<Longrightarrow> cb_inv (cb_reset t b)"
  by (simp add: cb_reset_def cb_inv_clear cb_inv_transition)

lemma cb_inv_query: "cb_inv b \<Longrightarrow> cb_inv (snd (canExecute t b))"
  by (simp add: canExecute_def Let_def cb_inv_refresh)

lemma cb_inv_finish: "cb_inv b \<Longrightarrow> cb_inv (execute_finish t e b)"
  by (auto simp: execute_finish_def recordResolvedResult_def cb_inv_success cb_inv_failure
      split: call_end.splits result_outcome.splits)

interpretation cb_machine: machine cb_step cb_inv
proof
  fix b e assume "cb_inv b"
  then show "cb_inv (cb_step b e)"
    by (cases e) (simp_all add: cb_inv_begin cb_inv_finish cb_inv_success cb_inv_failure
        cb_inv_query cb_inv_options cb_inv_reset)
qed

lemma cb_inv_new:
  "cb_inv (newCircuitBreaker n opts None)"
  by (simp add: newCircuitBreaker_def restoreFromDb_def loadCircuitBreakerState_def cb_inv_def Let_def)

section \<open>Properties\<close>

text \<open>
  C5. Whatever happens to a breaker, and in whatever order: its failure count and its cycle count
  never go negative, no per-kind count does, its transition history never holds more than
  \<open>maxTransitionHistory\<close> entries, and while it is half open it never has more probes left than
  \<open>halfOpenRequests\<close>.
\<close>

theorem breaker_invariant:
  "cb_inv (foldl cb_step (newCircuitBreaker n opts None) es)"
  by (rule cb_machine.run_inv [OF cb_inv_new])

subsection \<open>Opening\<close>

definition spec_state :: "int \<Rightarrow> int \<Rightarrow> int \<Rightarrow> cb_state" where
  "spec_state D T c = (if T \<le> c then OPEN else if D \<le> c then DEGRADED else CLOSED)"

lemma onFailure_plain:
  assumes "cb_st b \<noteq> HALF_OPEN" and "cb_st b = spec_state D T (failureCount b)"
    and "failureThreshold b = T" and "degradationThreshold b = D"
  shows "failureCount (onFailure t None b) = failureCount b + 1"
    and "cb_st (onFailure t None b) = spec_state D T (failureCount b + 1)"
    and "failureThreshold (onFailure t None b) = T"
    and "degradationThreshold (onFailure t None b) = D"
  using assms
  by (auto simp: onFailure_def countFailure_def kindTrips_def escalate_def openCircuit_def Let_def
      spec_state_def split: cb_state.splits if_splits)

lemma failures_count:
  assumes "cb_st b = spec_state D T (failureCount b)"
    and "failureThreshold b = T" and "degradationThreshold b = D"
  shows "cb_st (foldl (\<lambda>b t. onFailure t None b) b ts)
      = spec_state D T (failureCount b + int (length ts))"
  using assms
proof (induction ts arbitrary: b)
  case Nil
  then show ?case by simp
next
  case (Cons t ts)
  have "cb_st b \<noteq> HALF_OPEN"
    using Cons.prems(1) by (simp add: spec_state_def split: if_splits)
  note step = onFailure_plain [OF this Cons.prems, of t]
  have "cb_st (onFailure t None b) = spec_state D T (failureCount (onFailure t None b))"
    by (simp add: step)
  from Cons.IH [OF this step(3,4)] show ?case
    by (simp add: step add.assoc)
qed

text \<open>
  C8. Unclassified failures drive the breaker exactly as the documented counter does: from a
  closed breaker that has seen none, after any \<open>k\<close> of them (at any times) it is CLOSED below the
  degradation threshold, DEGRADED from there on, and OPEN from the failure threshold on.
\<close>

theorem failures_refine_counter:
  assumes "cb_st b = CLOSED" and "failureCount b = 0"
    and "0 < degradationThreshold b" and "0 < failureThreshold b"
  shows "cb_st (foldl (\<lambda>b t. onFailure t None b) b ts)
      = spec_state (degradationThreshold b) (failureThreshold b) (int (length ts))"
  using failures_count [of b "degradationThreshold b" "failureThreshold b" ts] assms
  by (simp add: spec_state_def)

theorem failures_refine_counter_witness:
  "cb_st (foldl (\<lambda>b t. onFailure t None b) (newCircuitBreaker ''openai'' no_options None) [10, 20, 30])
     = spec_state 3 5 3
   \<and> cb_st (foldl (\<lambda>b t. onFailure t None b) (newCircuitBreaker ''openai'' no_options None)
        [10, 20, 30, 40, 50]) = OPEN"
  using failures_refine_counter
      [of "newCircuitBreaker ''openai'' no_options None" "[10, 20, 30]"]
    failures_refine_counter
      [of "newCircuitBreaker ''openai'' no_options None" "[10, 20, 30, 40, 50]"]
  by (simp add: newCircuitBreaker_def no_options_def spec_state_def restoreFromDb_def loadCircuitBreakerState_def ceil_div_def)

subsection \<open>Staying open, and probing\<close>

text \<open>
  C16. An OPEN breaker that last failed at \<open>t\<close>: until its cooldown has passed, \<open>execute\<close> is
  refused with the exact time left and the breaker is untouched; from then on it is HALF_OPEN, and
  the call goes through as a probe, using up one of \<open>halfOpenRequests\<close>.
\<close>

theorem open_breaker_execute:
  assumes "cb_st b = OPEN" and "lastFailureTime b = Some t" and "t \<noteq> 0"
    and "0 < halfOpenRequests b"
  shows "if now - t < effectiveCooldown b
      then execute_begin now b = (Some (Open_error (effectiveCooldown b - (now - t))), b)
      else fst (execute_begin now b) = None
        \<and> cb_st (snd (execute_begin now b)) = HALF_OPEN
        \<and> halfOpenAllowed (snd (execute_begin now b)) = halfOpenRequests b - 1"
  using assms
  by (simp add: execute_begin_def refreshOpenState_def shouldAttemptReset_def
      timeUntilReset_def Let_def)

theorem open_breaker_execute_witness:
  "let b = foldl (\<lambda>b t. onFailure t None b) (newCircuitBreaker ''openai'' no_options None)
             [100, 101, 102, 103, 104]
   in fst (execute_begin 200 b) = Some (Open_error 29904)
    \<and> fst (execute_begin 30104 b) = None"
proof -
  define b where "b = foldl (\<lambda>b t. onFailure t None b)
    (newCircuitBreaker ''openai'' no_options None) [100, 101, 102, 103, 104]"
  note eval = newCircuitBreaker_def restoreFromDb_def loadCircuitBreakerState_def no_options_def
    onFailure_def countFailure_def kindTrips_def escalate_def openCircuit_def Let_def
    ceil_div_def b_def
  have "cb_st b = OPEN" "lastFailureTime b = Some 104" "halfOpenRequests b = 1"
    "lastFailureKind b = None" "openCycleCount b = 0" "resetTimeout b = 30000"
    "backoffEscalationCount b = 3"
    by (simp_all add: eval persistToDb_def)
  moreover from this have "effectiveCooldown b = 30000"
    by (simp add: effectiveCooldown_def effectiveResetTimeout_def)
  ultimately show ?thesis
    unfolding Let_def b_def [symmetric]
    using open_breaker_execute [of b 104 200] open_breaker_execute [of b 104 30104]
    by simp
qed

fun all_half_open :: "cb \<Rightarrow> cb_event list \<Rightarrow> bool" where
  "all_half_open b [] = (cb_st b = HALF_OPEN)"
| "all_half_open b (e # es) = (cb_st b = HALF_OPEN \<and> all_half_open (cb_step b e) es)"

fun probes :: "cb \<Rightarrow> cb_event list \<Rightarrow> int" where
  "probes b [] = 0"
| "probes b (e # es) =
     (case e of Ev_begin t \<Rightarrow> if fst (execute_begin t b) = None then 1 else 0 | _ \<Rightarrow> 0)
     + probes (cb_step b e) es"

lemma half_open_step:
  assumes "cb_st b = HALF_OPEN" and "cb_st (cb_step b e) = HALF_OPEN"
  shows "halfOpenAllowed (cb_step b e)
      + (case e of Ev_begin t \<Rightarrow> if fst (execute_begin t b) = None then 1 else 0 | _ \<Rightarrow> 0)
      \<le> halfOpenAllowed b"
    and "0 \<le> halfOpenAllowed b \<Longrightarrow> (case e of Ev_options o' \<Rightarrow> False | _ \<Rightarrow> True) \<Longrightarrow>
      0 \<le> halfOpenAllowed (cb_step b e)"
  using assms
  by (cases e; auto simp: cb_ops
      split: option.splits call_end.splits result_outcome.splits if_splits)+

text \<open>
  However calls, completions, queries and reconfigurations interleave, as long as the breaker
  stays HALF_OPEN it lets at most the probes through that it had left: a provider under probe is
  never hit by more than \<open>halfOpenRequests\<close> requests.
\<close>

theorem half_open_probe_bound:
  assumes "all_half_open b es" and "0 \<le> halfOpenAllowed b"
  shows "probes b es \<le> halfOpenAllowed b"
proof -
  have "probes b es \<le> max 0 (halfOpenAllowed b)" if "all_half_open b es" for b
    using that
  proof (induction es arbitrary: b)
    case Nil
    then show ?case by simp
  next
    case (Cons e es)
    have "cb_st (cb_step b e) = HALF_OPEN"
      using Cons.prems by (cases es) auto
    with Cons.prems half_open_step(1) [of b e]
    have *: "halfOpenAllowed (cb_step b e)
      + (case e of Ev_begin t \<Rightarrow> if fst (execute_begin t b) = None then 1 else 0 | _ \<Rightarrow> 0)
      \<le> halfOpenAllowed b" by simp
    have pos: "0 < halfOpenAllowed b" if "e = Ev_begin t" "fst (execute_begin t b) = None" for t
      using that Cons.prems
      by (auto simp: execute_begin_def refreshOpenState_def Let_def split: if_splits)
    have "probes (cb_step b e) es \<le> max 0 (halfOpenAllowed (cb_step b e))"
      using Cons by simp
    with * show ?case
      by (cases e) (auto simp: execute_begin_def refreshOpenState_def Let_def split: if_splits)
  qed
  with assms show ?thesis by fastforce
qed

theorem half_open_probe_bound_witness:
  "let b = (newCircuitBreaker ''openai'' no_options None)\<lparr>cb_st := HALF_OPEN, halfOpenAllowed := 1\<rparr>
   in probes b [Ev_begin 5, Ev_begin 6] \<le> 1"
  using half_open_probe_bound [of "(newCircuitBreaker ''openai'' no_options None)
      \<lparr>cb_st := HALF_OPEN, halfOpenAllowed := 1\<rparr>" "[Ev_begin 5, Ev_begin 6]"]
  by (simp add: execute_begin_def refreshOpenState_def Let_def)

text \<open>The events that do not account a success or a failure.\<close>

fun unaccounted :: "cb_event \<Rightarrow> bool" where
  "unaccounted (Ev_begin t) = True"
| "unaccounted (Ev_finish t (Resolved Ignore)) = True"
| "unaccounted (Ev_finish t (Rejected False k)) = True"
| "unaccounted (Ev_query t) = True"
| "unaccounted (Ev_options opts) = True"
| "unaccounted _ = False"

definition exhausted :: "cb \<Rightarrow> bool" where
  "exhausted b \<longleftrightarrow> cb_st b = HALF_OPEN \<and> halfOpenAllowed b \<le> 0"

lemma exhausted_step: "exhausted b \<Longrightarrow> unaccounted e \<Longrightarrow> exhausted (cb_step b e)"
  by (induction e rule: unaccounted.induct)
    (auto simp: exhausted_def execute_begin_def execute_finish_def recordResolvedResult_def
      canExecute_def refreshOpenState_def applyOptions_def Let_def split: option.splits)

lemma exhausted_refuses:
  "exhausted b \<Longrightarrow> fst (execute_begin t b) \<noteq> None \<and> \<not> fst (canExecute t b)"
  by (simp add: exhausted_def execute_begin_def canExecute_def refreshOpenState_def Let_def)

text \<open>
  A half-open breaker has no way out of its own: once its probes are spent without a success
  or failure being accounted (a probe that resolves as "ignore" or throws an error that
  \<open>isFailure\<close> waves through), every later call is refused, at whatever time it comes, until some
  caller accounts an outcome directly or resets the breaker. No timer leads out of HALF_OPEN.
\<close>

theorem half_open_wedge:
  assumes "cb_st b = HALF_OPEN" and "halfOpenAllowed b \<le> 0" and "list_all unaccounted es"
  shows "fst (execute_begin t (foldl cb_step b es)) \<noteq> None
      \<and> \<not> fst (canExecute t (foldl cb_step b es))"
proof -
  have "exhausted (foldl cb_step b es)"
    using assms by (induction es arbitrary: b rule: rev_induct)
      (auto simp: exhausted_step, simp add: exhausted_def)
  then show ?thesis by (rule exhausted_refuses)
qed

theorem half_open_wedge_witness:
  "let b = foldl cb_step (newCircuitBreaker ''claude'' no_options None)
       [Ev_failure 1 None, Ev_failure 2 None, Ev_failure 3 None, Ev_failure 4 None,
        Ev_failure 5 None, Ev_begin 40000, Ev_finish 40001 (Resolved Ignore)]
   in \<not> fst (canExecute 90000000 (foldl cb_step b [Ev_query 50000, Ev_begin 60000]))"
proof -
  define b where "b = foldl cb_step (newCircuitBreaker ''claude'' no_options None)
       [Ev_failure 1 None, Ev_failure 2 None, Ev_failure 3 None, Ev_failure 4 None,
        Ev_failure 5 None, Ev_begin 40000, Ev_finish 40001 (Resolved Ignore)]"
  have "cb_st b = HALF_OPEN" "halfOpenAllowed b \<le> 0"
    by (simp_all add: b_def newCircuitBreaker_def restoreFromDb_def loadCircuitBreakerState_def
        no_options_def onFailure_def countFailure_def kindTrips_def escalate_def openCircuit_def
        Let_def ceil_div_def persistToDb_def execute_begin_def refreshOpenState_def
        shouldAttemptReset_def effectiveCooldown_def effectiveResetTimeout_def
        execute_finish_def recordResolvedResult_def)
  then show ?thesis
    unfolding Let_def b_def [symmetric]
    using half_open_wedge [of b "[Ev_query 50000, Ev_begin 60000]" 90000000]
    by simp
qed

subsection \<open>Cooldowns\<close>

text \<open>
  C17. The exponential backoff is bounded and monotone: with a non-negative base and a multiplier of
  at least one, the effective reset time-out lies between the base and \<open>maxBackoffMultiplier\<close>
  times the base, and it never shrinks as failed probe cycles accumulate.
\<close>

theorem backoff_bounds:
  assumes "0 \<le> resetTimeout b" and "1 \<le> maxBackoffMultiplier b" and "m \<le> n"
  shows "resetTimeout b \<le> effectiveResetTimeout (b\<lparr>openCycleCount := m\<rparr>)
    \<and> effectiveResetTimeout (b\<lparr>openCycleCount := m\<rparr>)
        \<le> effectiveResetTimeout (b\<lparr>openCycleCount := n\<rparr>)
    \<and> effectiveResetTimeout (b\<lparr>openCycleCount := n\<rparr>) \<le> resetTimeout b * maxBackoffMultiplier b"
proof -
  have ge: "resetTimeout b \<le> resetTimeout b * k" if "1 \<le> k" for k
    using assms(1) that by (simp add: mult_le_cancel_left1)
  have pow: "resetTimeout b * 2 ^ i \<le> resetTimeout b * 2 ^ j" if "i \<le> j" for i j :: nat
    using assms(1) that by (simp add: mult_left_mono power_increasing)
  let ?i = "nat (m - backoffEscalationCount b)" and ?j = "nat (n - backoffEscalationCount b)"
  have "resetTimeout b * 2 ^ ?i \<le> resetTimeout b * 2 ^ ?j"
    using assms(3) by (intro pow) simp
  moreover have "resetTimeout b \<le> resetTimeout b * 2 ^ ?i" "resetTimeout b \<le> resetTimeout b * 2 ^ ?j"
    by (rule ge, simp)+
  moreover note ge [OF assms(2)]
  ultimately show ?thesis
    using assms(3) by (auto simp: effectiveResetTimeout_def Let_def)
qed

theorem backoff_bounds_witness:
  "effectiveResetTimeout ((newCircuitBreaker ''x'' no_options None)\<lparr>openCycleCount := 5\<rparr>)
    \<le> effectiveResetTimeout ((newCircuitBreaker ''x'' no_options None)\<lparr>openCycleCount := 9\<rparr>)"
  using backoff_bounds [of "newCircuitBreaker ''x'' no_options None" 5 9]
  by (simp add: newCircuitBreaker_def restoreFromDb_def loadCircuitBreakerState_def no_options_def
      Let_def)

subsection \<open>Persistence\<close>

definition durable :: "cb \<Rightarrow> cb_state \<times> int \<times> time option \<times> failure_kind option \<times> int \<times> (failure_kind \<Rightarrow> int)" where
  "durable b = (cb_st b, failureCount b, lastFailureTime b, lastFailureKind b, openCycleCount b,
     kindFailureCounts b)"

text \<open>
  C18. Persisting and restarting loses nothing: a breaker constructed anew on the row written by
  \<open>_persistToDb\<close> has the same state, counts, last failure and cycle count, whatever its options
  (time 0 excepted, which the store reads back as null); a restored HALF_OPEN breaker starts with
  all its probes.
\<close>

theorem persist_restore:
  assumes "lastFailureTime b \<noteq> Some 0"
  shows "durable (newCircuitBreaker n opts (cb_row (persistToDb b))) = durable b
    \<and> (cb_st b = HALF_OPEN \<longrightarrow> halfOpenAllowed (newCircuitBreaker n opts (cb_row (persistToDb b)))
          = nullish (opt_halfOpenRequests opts) 1)"
  using assms
  by (cases "lastFailureTime b"; cases "lastFailureKind b")
    (simp_all add: durable_def newCircuitBreaker_def restoreFromDb_def persistToDb_def
      loadCircuitBreakerState_def Let_def)

theorem persist_restore_witness:
  "durable (newCircuitBreaker ''a'' no_options
      (cb_row (persistToDb (newCircuitBreaker ''a'' no_options None)))) =
   durable (newCircuitBreaker ''a'' no_options None)"
  using persist_restore [of "newCircuitBreaker ''a'' no_options None" "''a''" no_options]
  by (simp add: newCircuitBreaker_def restoreFromDb_def loadCircuitBreakerState_def no_options_def
      Let_def)

text \<open>
  A circuit opened by a kind-specific threshold is not persisted: \<open>_onFailure\<close> returns before
  \<open>_persistToDb\<close>, so the stored row stays what it was and a process restarted on it comes back in
  the state stored earlier, not OPEN.
\<close>

theorem kind_trip_not_persisted:
  assumes "kindTrips (Some k) (countFailure now (Some k) b)"
  shows "cb_st (onFailure now (Some k) b) = OPEN
    \<and> cb_row (onFailure now (Some k) b) = cb_row b"
  using assms by (simp add: onFailure_def openCircuit_def countFailure_def Let_def)

theorem kind_trip_not_persisted_witness:
  "let b = newCircuitBreaker ''a'' (no_options\<lparr>opt_kindThresholds := (\<lambda>_. None)(Quota_exhausted :=
        Some \<lparr>kc_threshold = None, kc_immediateOpen = True\<rparr>)\<rparr>) None;
       b' = onFailure 7 (Some Quota_exhausted) b
   in cb_st b' = OPEN \<and> cb_st (newCircuitBreaker ''a'' no_options (cb_row b')) = CLOSED"
proof -
  define b where "b = newCircuitBreaker ''a'' (no_options\<lparr>opt_kindThresholds :=
      (\<lambda>_. None)(Quota_exhausted := Some \<lparr>kc_threshold = None, kc_immediateOpen = True\<rparr>)\<rparr>) None"
  note eval = b_def newCircuitBreaker_def restoreFromDb_def loadCircuitBreakerState_def
    no_options_def Let_def
  have "kindTrips (Some Quota_exhausted) (countFailure 7 (Some Quota_exhausted) b)"
    by (simp add: eval kindTrips_def countFailure_def)
  moreover have "cb_row b = None" by (simp add: eval)
  ultimately have "cb_st (onFailure 7 (Some Quota_exhausted) b) = OPEN"
    and row: "cb_row (onFailure 7 (Some Quota_exhausted) b) = None"
    using kind_trip_not_persisted [of Quota_exhausted 7 b] by simp_all
  then show ?thesis
    unfolding Let_def b_def [symmetric] by (simp add: row eval)
qed

end
