(* ===== verification/ProviderCooldown.thy ===== *)
theory ProviderCooldown
  imports Prelude
begin

text \<open>
  The cross-request provider cooldown, \<open>src/open-sse/services/providerCooldownTracker.ts\<close>. The
  map \<open>cooldownMap\<close> is keyed by "provider:connection" or "provider". Connection entries cool down
  with exponential backoff; provider entries (no connection) trip only after a threshold of
  failures inside a window. \<open>providerWindowProfile\<close> reads the provider registry and environment
  overrides, so it is the parameter \<open>prof\<close>, total on providers as the code's is.
\<close>

section \<open>Data\<close>

record cooldown_entry =
  lastFailureAt :: time
  ce_failureCount :: int
  retentionMs :: int
  failureTimestamps :: "time list option"

record window_profile =
  wp_failureThreshold :: int
  wp_failureWindowMs :: int
  wp_cooldownMs :: int

record cooldown_settings =
  minRetryCooldownMs :: int
  maxRetryCooldownMs :: int

type_synonym cooldown_map = "(string \<times> cooldown_entry) list"

definition DEFAULT_COOLDOWN_SETTINGS :: cooldown_settings where
  "DEFAULT_COOLDOWN_SETTINGS = \<lparr>minRetryCooldownMs = 5000, maxRetryCooldownMs = 300000\<rparr>"

definition DEFAULT_ENTRY_RETENTION_MS :: int where
  "DEFAULT_ENTRY_RETENTION_MS = 30 * 60 * 1000"

section \<open>Operations\<close>

definition pruneWindow :: "time list \<Rightarrow> int \<Rightarrow> time \<Rightarrow> time list" where
  "pruneWindow timestamps windowMs now =
     (let pruned = filter (\<lambda>t. t \<ge> now - windowMs) timestamps
      in if length pruned > 200 then drop (length pruned - 200) pruned else pruned)"

definition providerWindowCooldownMs :: "window_profile \<Rightarrow> cooldown_entry \<Rightarrow> time \<Rightarrow> int" where
  "providerWindowCooldownMs p e now =
     (let inWindow = pruneWindow (nullish (failureTimestamps e) []) (wp_failureWindowMs p) now
      in if int (length inWindow) < wp_failureThreshold p then 0
         else let remaining = wp_cooldownMs p - (now - lastFailureAt e)
              in if remaining > 0 then remaining else 0)"

definition getEntryRetentionMs :: "cooldown_settings option \<Rightarrow> int" where
  "getEntryRetentionMs s =
     max DEFAULT_ENTRY_RETENTION_MS (maxRetryCooldownMs (nullish s DEFAULT_COOLDOWN_SETTINGS))"

definition cleanupExpiredCooldownEntries :: "time \<Rightarrow> cooldown_map \<Rightarrow> cooldown_map" where
  "cleanupExpiredCooldownEntries now m =
     filter (\<lambda>(k, e). \<not> (now - lastFailureAt e > retentionMs e)) m"

text \<open>A connection id counts when it is given and not empty.\<close>

definition truthy :: "string option \<Rightarrow> bool" where
  "truthy c = (case c of None \<Rightarrow> False | Some s \<Rightarrow> s \<noteq> [])"

definition cooldownKey :: "string \<Rightarrow> string option \<Rightarrow> string" where
  "cooldownKey provider c = (if truthy c then provider @ '':'' @ the c else provider)"

definition ignored_provider :: "string \<Rightarrow> bool" where
  "ignored_provider p \<longleftrightarrow> p = [] \<or> p = ''unknown''"

definition recordProviderCooldown ::
  "(string \<Rightarrow> window_profile) \<Rightarrow> cooldown_settings option \<Rightarrow> time \<Rightarrow> string \<Rightarrow> string option
    \<Rightarrow> cooldown_map \<Rightarrow> cooldown_map" where
  "recordProviderCooldown prof s now provider c m =
     (if ignored_provider provider then m
      else let key = cooldownKey provider c; retention = getEntryRetentionMs s
      in case map_of m key of
           Some existing \<Rightarrow>
             map_set key (existing\<lparr>lastFailureAt := now,
               ce_failureCount := ce_failureCount existing + 1,
               retentionMs := max (retentionMs existing) retention,
               failureTimestamps :=
                 (if truthy c then failureTimestamps existing
                  else Some (pruneWindow (nullish (failureTimestamps existing) [] @ [now])
                               (wp_failureWindowMs (prof provider)) now))\<rparr>) m
         | None \<Rightarrow>
             map_set key \<lparr>lastFailureAt = now, ce_failureCount = 1, retentionMs = retention,
               failureTimestamps = (if truthy c then None else Some [now])\<rparr> m)"

text \<open>The backoff of connection entries.\<close>

definition scaledCooldownMs :: "cooldown_settings option \<Rightarrow> cooldown_entry \<Rightarrow> int" where
  "scaledCooldownMs s e =
     (let cfg = nullish s DEFAULT_COOLDOWN_SETTINGS;
          exponent = min (max 0 (ce_failureCount e - 1)) 10
      in min (minRetryCooldownMs cfg * 2 ^ nat exponent) (maxRetryCooldownMs cfg))"

definition isProviderInCooldown ::
  "(string \<Rightarrow> window_profile) \<Rightarrow> cooldown_settings option \<Rightarrow> time \<Rightarrow> string \<Rightarrow> string option
    \<Rightarrow> cooldown_map \<Rightarrow> bool" where
  "isProviderInCooldown prof s now provider c m =
     (if ignored_provider provider then False
      else case map_of m (cooldownKey provider c) of
        None \<Rightarrow> False
      | Some e \<Rightarrow>
          if ce_failureCount e = 0 then False
          else if \<not> truthy c then providerWindowCooldownMs (prof provider) e now > 0
          else now - lastFailureAt e < scaledCooldownMs s e)"

definition getRemainingCooldownMs ::
  "(string \<Rightarrow> window_profile) \<Rightarrow> cooldown_settings option \<Rightarrow> time \<Rightarrow> string \<Rightarrow> string option
    \<Rightarrow> cooldown_map \<Rightarrow> int" where
  "getRemainingCooldownMs prof s now provider c m =
     (if ignored_provider provider then 0
      else case map_of m (cooldownKey provider c) of
        None \<Rightarrow> 0
      | Some e \<Rightarrow>
          if \<not> truthy c then
            (if ce_failureCount e = 0 then 0
             else providerWindowCooldownMs (prof provider) e now)
          else let remaining = scaledCooldownMs s e - (now - lastFailureAt e)
               in if remaining > 0 then remaining else 0)"

definition resetCooldownFailureCount :: "string \<Rightarrow> string option \<Rightarrow> cooldown_map \<Rightarrow> cooldown_map" where
  "resetCooldownFailureCount provider c m =
     (if ignored_provider provider then m
      else let key = cooldownKey provider c
      in case map_of m key of
           None \<Rightarrow> m
         | Some e \<Rightarrow> map_set key (e\<lparr>ce_failureCount := 0, failureTimestamps := Some []\<rparr>) m)"

section \<open>Window lemmas\<close>

lemma sorted_filter_ge_drop:
  fixes xs :: "int list"
  assumes "sorted xs"
  shows "length (filter (\<lambda>t. c \<le> t) (drop k xs)) = min (length xs - k) (length (filter (\<lambda>t. c \<le> t) xs))"
  using assms
proof (induction xs arbitrary: k)
  case Nil
  then show ?case by simp
next
  case (Cons x xs)
  show ?case
  proof (cases k)
    case 0
    then show ?thesis
      using length_filter_le [of "\<lambda>t. c \<le> t" "x # xs"] by (simp del: filter.simps)
  next
    case (Suc j)
    have IH: "length (filter (\<lambda>t. c \<le> t) (drop j xs))
        = min (length xs - j) (length (filter (\<lambda>t. c \<le> t) xs))"
      using Cons by simp
    have "filter (\<lambda>t. c \<le> t) xs = xs" if "c \<le> x"
      using Cons.prems that by (auto simp: filter_id_conv)
    then show ?thesis
      using IH Suc by auto
  qed
qed

definition seen :: "time \<Rightarrow> time list \<Rightarrow> nat" where
  "seen c ts = length (filter (\<lambda>t. c \<le> t) ts)"

lemma seen_append [simp]: "seen c (xs @ ys) = seen c xs + seen c ys"
  by (simp add: seen_def)

lemma filter_ge_weaker: "d \<le> c \<Longrightarrow> filter (\<lambda>t. c \<le> t) (filter (\<lambda>t. d \<le> t) xs) = filter (\<lambda>t. (c::int) \<le> t) xs"
  by (induction xs) auto

lemma pruneWindow_seen:
  assumes "sorted xs" and "now - w \<le> c"
  shows "min 200 (seen c (pruneWindow xs w now)) = min 200 (seen c xs)"
proof -
  let ?p = "filter (\<lambda>t. now - w \<le> t) xs"
  have s: "sorted ?p" using assms(1) by (rule sorted_wrt_filter)
  have eq: "length (filter (\<lambda>t. c \<le> t) ?p) = seen c xs"
    using assms(2) by (simp only: filter_ge_weaker seen_def)
  show ?thesis
    using sorted_filter_ge_drop [OF s, of c "length ?p - 200"] eq
    by (auto simp: pruneWindow_def Let_def seen_def)
qed

lemma pruneWindow_sorted: "sorted xs \<Longrightarrow> sorted (pruneWindow xs w now)"
  by (simp add: pruneWindow_def Let_def sorted_wrt_filter)

lemma pruneWindow_subset: "set (pruneWindow xs w now) \<subseteq> set xs"
  by (auto simp: pruneWindow_def Let_def dest: in_set_dropD)

lemma pruneWindow_bound: "length (pruneWindow xs w now) \<le> 200"
  by (simp add: pruneWindow_def Let_def)

lemma seen_pruneWindow_self: "seen (now - w) (pruneWindow xs w now) = length (pruneWindow xs w now)"
proof -
  have "\<forall>t \<in> set (pruneWindow xs w now). now - w \<le> t"
    by (auto simp: pruneWindow_def Let_def dest: in_set_dropD)
  then show ?thesis by (simp add: seen_def filter_id_conv)
qed

section \<open>Runs of failures\<close>

definition record_failures ::
  "(string \<Rightarrow> window_profile) \<Rightarrow> cooldown_settings option \<Rightarrow> string \<Rightarrow> string option
    \<Rightarrow> time list \<Rightarrow> cooldown_map" where
  "record_failures prof s provider c ts =
     foldl (\<lambda>m t. recordProviderCooldown prof s t provider c m) [] ts"

lemma record_failures_snoc [simp]:
  "record_failures prof s provider c (ts @ [t])
     = recordProviderCooldown prof s t provider c (record_failures prof s provider c ts)"
  by (simp add: record_failures_def)

lemma record_failures_entry:
  assumes "\<not> ignored_provider provider" and "ts \<noteq> []"
  shows "\<exists>e. map_of (record_failures prof s provider c ts) (cooldownKey provider c) = Some e
    \<and> lastFailureAt e = last ts \<and> ce_failureCount e = int (length ts)
    \<and> retentionMs e = getEntryRetentionMs s"
  using assms(2)
proof (induction ts rule: rev_induct)
  case Nil
  then show ?case by simp
next
  case (snoc t ts)
  show ?case
  proof (cases "ts = []")
    case True
    with assms(1) show ?thesis
      by (simp add: record_failures_def recordProviderCooldown_def Let_def)
  next
    case False
    with snoc.IH obtain e where
      "map_of (record_failures prof s provider c ts) (cooldownKey provider c) = Some e"
      "ce_failureCount e = int (length ts)" "retentionMs e = getEntryRetentionMs s" by blast
    with assms(1) show ?thesis
      by (simp add: recordProviderCooldown_def Let_def)
  qed
qed

text \<open>The invariant of the window gate: the bounded list answers like the full history.\<close>

lemma record_failures_window:
  assumes "\<not> ignored_provider provider" and "\<not> truthy c" and "ts \<noteq> []" and "sorted ts"
    and "0 \<le> wp_failureWindowMs (prof provider)"
  shows "\<exists>e ws. map_of (record_failures prof s provider c ts) (cooldownKey provider c) = Some e
    \<and> failureTimestamps e = Some ws \<and> sorted ws \<and> set ws \<subseteq> set ts
    \<and> (\<forall>d \<ge> last ts - wp_failureWindowMs (prof provider). min 200 (seen d ws) = min 200 (seen d ts))"
  using assms(3,4)
proof (induction ts rule: rev_induct)
  case Nil
  then show ?case by simp
next
  case (snoc t ts)
  let ?w = "wp_failureWindowMs (prof provider)"
  show ?case
  proof (cases "ts = []")
    case True
    with assms show ?thesis
      by (auto simp: record_failures_def recordProviderCooldown_def Let_def)
  next
    case False
    have st: "sorted ts" and last_le: "last ts \<le> t" and all_le: "\<forall>x \<in> set ts. x \<le> t"
      using snoc.prems False by (auto simp: sorted_append)
    from snoc.IH [OF False st] obtain e ws where
      e: "map_of (record_failures prof s provider c ts) (cooldownKey provider c) = Some e"
        "failureTimestamps e = Some ws" and ws: "sorted ws" "set ws \<subseteq> set ts"
      and eq: "\<And>d. d \<ge> last ts - ?w \<Longrightarrow> min 200 (seen d ws) = min 200 (seen d ts)"
      by blast
    have sorted_app: "sorted (ws @ [t])"
      using ws all_le by (auto simp: sorted_append)
    have "min 200 (seen d (pruneWindow (ws @ [t]) ?w t)) = min 200 (seen d (ts @ [t]))"
      if "d \<ge> t - ?w" for d
    proof -
      have "min 200 (seen d (pruneWindow (ws @ [t]) ?w t)) = min 200 (seen d (ws @ [t]))"
        using sorted_app that by (rule pruneWindow_seen)
      also have "min 200 (seen d (ws @ [t])) = min 200 (seen d (ts @ [t]))"
        using eq [of d] that last_le by (auto simp: min_def split: if_splits)
      finally show ?thesis .
    qed
    moreover have "set (pruneWindow (ws @ [t]) ?w t) \<subseteq> set (ts @ [t])"
      using pruneWindow_subset [of "ws @ [t]" ?w t] ws(2) by auto
    moreover have "sorted (pruneWindow (ws @ [t]) ?w t)"
      using sorted_app by (rule pruneWindow_sorted)
    ultimately show ?thesis
      using assms(1,2) e by (simp add: recordProviderCooldown_def Let_def)
  qed
qed

section \<open>Properties\<close>

text \<open>
  C20. The window gate is exact although it keeps at most 200 samples: after any run of provider
  failures at increasing times, and a threshold of at most 200, the provider is cooling at a later
  time \<open>now\<close> if and only if at least \<open>failureThreshold\<close> of all its failures lie in the trailing
  window and the last one is less than the cooldown ago.
\<close>

theorem window_gate_exact:
  assumes "\<not> ignored_provider provider" and "ts \<noteq> []" and "sorted ts" and "last ts \<le> now"
    and "0 \<le> wp_failureWindowMs (prof provider)" and "wp_failureThreshold (prof provider) \<le> 200"
  shows "isProviderInCooldown prof s now provider None (record_failures prof s provider None ts)
    \<longleftrightarrow> int (seen (now - wp_failureWindowMs (prof provider)) ts) \<ge> wp_failureThreshold (prof provider)
      \<and> now - last ts < wp_cooldownMs (prof provider)"
proof -
  let ?w = "wp_failureWindowMs (prof provider)" and ?m = "record_failures prof s provider None ts"
  obtain e where e: "map_of ?m (cooldownKey provider None) = Some e"
    "lastFailureAt e = last ts" "ce_failureCount e = int (length ts)"
    using record_failures_entry [OF assms(1,2)] by blast
  have nt: "\<not> truthy None" by (simp add: truthy_def)
  from record_failures_window [where prof = prof and s = s, OF assms(1) nt assms(2,3,5)] e obtain ws where
    ws: "failureTimestamps e = Some ws" "sorted ws"
    and eq: "\<forall>d \<ge> last ts - ?w. min 200 (seen d ws) = min 200 (seen d ts)"
    by auto
  have "length (pruneWindow ws ?w now) = min 200 (length (pruneWindow ws ?w now))"
    using pruneWindow_bound [of ws ?w now] by simp
  also have "\<dots> = min 200 (seen (now - ?w) (pruneWindow ws ?w now))"
    by (simp only: seen_pruneWindow_self)
  also have "\<dots> = min 200 (seen (now - ?w) ws)"
    using ws(2) by (rule pruneWindow_seen) simp
  also have "\<dots> = min 200 (seen (now - ?w) ts)"
    using eq assms(4) by simp
  finally have len: "length (pruneWindow ws ?w now) = min 200 (seen (now - ?w) ts)" .
  show ?thesis
    using e ws(1) len assms(1,2,6) nt
    by (auto simp: isProviderInCooldown_def providerWindowCooldownMs_def Let_def min_def)
qed

definition oauth_profile :: window_profile where
  "oauth_profile = \<lparr>wp_failureThreshold = 3, wp_failureWindowMs = 900000, wp_cooldownMs = 300000\<rparr>"

theorem window_gate_exact_witness:
  "isProviderInCooldown (\<lambda>_. oauth_profile) None 10 ''codex'' None
     (record_failures (\<lambda>_. oauth_profile) None ''codex'' None [1, 2, 3])"
  using window_gate_exact [of "''codex''" "[1, 2, 3]" 10 "\<lambda>_. oauth_profile" None]
  by (simp add: ignored_provider_def oauth_profile_def seen_def)

text \<open>
  Connection failures back off exponentially and to a cap: after \<open>n\<close> recorded failures (\<open>n\<close> at
  least 1) the connection is cooling exactly until
  \<open>min (minRetryCooldownMs * 2 ^ min (n - 1) 10) maxRetryCooldownMs\<close> after the last one, and the
  remaining time reported is what is left of it.
\<close>

theorem connection_backoff:
  assumes "\<not> ignored_provider provider" and "truthy c" and "ts \<noteq> []"
  shows "let cfg = nullish s DEFAULT_COOLDOWN_SETTINGS; m = record_failures prof s provider c ts;
             cooldown = min (minRetryCooldownMs cfg * 2 ^ min (length ts - 1) 10)
                            (maxRetryCooldownMs cfg)
    in (isProviderInCooldown prof s now provider c m \<longleftrightarrow> now - last ts < cooldown)
     \<and> getRemainingCooldownMs prof s now provider c m = max 0 (cooldown - (now - last ts))"
proof -
  obtain e where e: "map_of (record_failures prof s provider c ts) (cooldownKey provider c) = Some e"
    "lastFailureAt e = last ts" "ce_failureCount e = int (length ts)"
    using record_failures_entry [OF assms(1,3)] by blast
  have "0 < length ts" using assms(3) by simp
  then have exp: "nat (min (max 0 (int (length ts) - 1)) 10) = min (length ts - 1) 10"
    by (auto simp: min_def max_def nat_diff_distrib')
  show ?thesis
    using e assms exp
    by (auto simp: isProviderInCooldown_def getRemainingCooldownMs_def scaledCooldownMs_def Let_def)
qed

theorem connection_backoff_witness:
  "getRemainingCooldownMs (\<lambda>_. oauth_profile) None 2000 ''openai'' (Some ''acc'')
     (record_failures (\<lambda>_. oauth_profile) None ''openai'' (Some ''acc'') [0, 1000]) = 9000"
  using connection_backoff [of "''openai''" "Some ''acc''" "[0, 1000]" None "\<lambda>_. oauth_profile" 2000]
  by (simp add: ignored_provider_def truthy_def DEFAULT_COOLDOWN_SETTINGS_def Let_def)

text \<open>
  The two ways to ask disagree after a success: \<open>recordProviderSuccess\<close> zeroes the failure
  count of a connection, so \<open>isProviderInCooldown\<close> lets it through at once, while
  \<open>getRemainingCooldownMs\<close> (which does not test the count for connections) still reports the
  first-failure cooldown.
\<close>

theorem success_leaves_remaining_time:
  assumes "\<not> ignored_provider provider" and "truthy c"
    and "map_of m (cooldownKey provider c) = Some e"
  shows "let m' = resetCooldownFailureCount provider c m;
             cfg = nullish s DEFAULT_COOLDOWN_SETTINGS
    in \<not> isProviderInCooldown prof s now provider c m'
     \<and> getRemainingCooldownMs prof s now provider c m'
         = max 0 (min (minRetryCooldownMs cfg) (maxRetryCooldownMs cfg) - (now - lastFailureAt e))"
  using assms
  by (auto simp: isProviderInCooldown_def getRemainingCooldownMs_def resetCooldownFailureCount_def
      scaledCooldownMs_def Let_def max_def min_def)

theorem success_leaves_remaining_time_witness:
  "let m = resetCooldownFailureCount ''openai'' (Some ''a'')
             (record_failures (\<lambda>_. oauth_profile) None ''openai'' (Some ''a'') [100])
   in \<not> isProviderInCooldown (\<lambda>_. oauth_profile) None 200 ''openai'' (Some ''a'') m
    \<and> getRemainingCooldownMs (\<lambda>_. oauth_profile) None 200 ''openai'' (Some ''a'') m = 4900"
proof -
  have "map_of (record_failures (\<lambda>_. oauth_profile) None ''openai'' (Some ''a'') [100])
      (cooldownKey ''openai'' (Some ''a'')) =
    Some \<lparr>lastFailureAt = 100, ce_failureCount = 1, retentionMs = 1800000, failureTimestamps = None\<rparr>"
    by (simp add: record_failures_def recordProviderCooldown_def cooldownKey_def truthy_def
        ignored_provider_def getEntryRetentionMs_def DEFAULT_ENTRY_RETENTION_MS_def
        DEFAULT_COOLDOWN_SETTINGS_def Let_def)
  from success_leaves_remaining_time [OF _ _ this, of None "\<lambda>_. oauth_profile" 200] show ?thesis
    by (simp add: ignored_provider_def truthy_def DEFAULT_COOLDOWN_SETTINGS_def Let_def)
qed

text \<open>
  The periodic cleanup never ends a connection's cooldown early: for any connection whose entry
  was recorded under the settings asked about, the verdict is the same before and after it.
\<close>

theorem cleanup_keeps_connection_cooldown:
  assumes "map_ok m" and "truthy c" and "t \<le> now"
    and "\<forall>e. map_of m (cooldownKey provider c) = Some e \<longrightarrow> getEntryRetentionMs s \<le> retentionMs e"
  shows "isProviderInCooldown prof s now provider c (cleanupExpiredCooldownEntries t m)
    = isProviderInCooldown prof s now provider c m"
proof -
  let ?k = "cooldownKey provider c"
  have get: "map_of (cleanupExpiredCooldownEntries t m) ?k
      = (case map_of m ?k of None \<Rightarrow> None
         | Some e \<Rightarrow> if t - lastFailureAt e > retentionMs e then None else Some e)"
    using assms(1) unfolding cleanupExpiredCooldownEntries_def
    by (induction m) (auto simp: map_has_def split: option.splits)
  have "\<not> now - lastFailureAt e < scaledCooldownMs s e"
    if "map_of m ?k = Some e" "t - lastFailureAt e > retentionMs e" for e
  proof -
    have "scaledCooldownMs s e \<le> getEntryRetentionMs s"
      by (auto simp: scaledCooldownMs_def getEntryRetentionMs_def Let_def)
    with that assms(3,4) show ?thesis by fastforce
  qed
  with get assms(2) show ?thesis
    by (auto simp: isProviderInCooldown_def split: option.splits)
qed

theorem cleanup_keeps_connection_cooldown_witness:
  "let m = record_failures prof None ''openai'' (Some ''a'') [100]
   in isProviderInCooldown prof None 300 ''openai'' (Some ''a'') (cleanupExpiredCooldownEntries 200 m)
     = isProviderInCooldown prof None 300 ''openai'' (Some ''a'') m"
proof -
  have "map_ok (record_failures prof None ''openai'' (Some ''a'') [100])"
    and "map_of (record_failures prof None ''openai'' (Some ''a'') [100])
      (cooldownKey ''openai'' (Some ''a'')) =
    Some \<lparr>lastFailureAt = 100, ce_failureCount = 1, retentionMs = 1800000, failureTimestamps = None\<rparr>"
    by (simp_all add: record_failures_def recordProviderCooldown_def cooldownKey_def truthy_def
        ignored_provider_def getEntryRetentionMs_def DEFAULT_ENTRY_RETENTION_MS_def
        DEFAULT_COOLDOWN_SETTINGS_def Let_def map_has_def)
  then show ?thesis
    unfolding Let_def
    by (intro cleanup_keeps_connection_cooldown)
      (simp_all add: truthy_def getEntryRetentionMs_def DEFAULT_ENTRY_RETENTION_MS_def
        DEFAULT_COOLDOWN_SETTINGS_def)
qed

text \<open>
  For a provider entry the cleanup can end a cooldown early: its retention follows
  \<open>maxRetryCooldownMs\<close>, not the profile's \<open>providerCooldownMs\<close>, so a cooldown configured longer
  than 30 minutes is cut to 30.
\<close>

lemma cleanup_cuts_provider_cooldown:
  "let prof = (\<lambda>_. \<lparr>wp_failureThreshold = 1, wp_failureWindowMs = 3600000, wp_cooldownMs = 3600000\<rparr>);
       m = record_failures prof None ''claude'' None [0]
   in isProviderInCooldown prof None 1800001 ''claude'' None m
    \<and> \<not> isProviderInCooldown prof None 1800001 ''claude'' None
          (cleanupExpiredCooldownEntries 1800001 m)"
  by (simp add: record_failures_def recordProviderCooldown_def cooldownKey_def truthy_def
      ignored_provider_def getEntryRetentionMs_def DEFAULT_ENTRY_RETENTION_MS_def
      DEFAULT_COOLDOWN_SETTINGS_def cleanupExpiredCooldownEntries_def isProviderInCooldown_def
      providerWindowCooldownMs_def pruneWindow_def Let_def)

end
