(* ===== verification/BreakerRegistry.thy ===== *)
theory BreakerRegistry
  imports CircuitBreaker ProviderCooldown
begin

text \<open>
  The registry of circuit breakers at the end of \<open>src/src/shared/utils/circuitBreaker.ts\<close>, and
  the wrappers of \<open>src/open-sse/services/accountFallback.ts\<close> that record provider failures and
  successes on it: \<open>recordProviderFailure\<close> with its two de-duplication maps, and
  \<open>recordProviderSuccess\<close>. Rows of \<open>domain_circuit_breakers\<close> left by an earlier process, for
  names not registered yet, are \<open>orphan_rows\<close>. The options \<open>configureProviderBreaker\<close> builds
  from the provider profile (settings, registry) are the argument \<open>opts\<close>.
\<close>

section \<open>The registry\<close>

record breaker_registry =
  breakers :: "(string \<times> cb) list"
  orphan_rows :: "(string \<times> cb_row) list"

definition MAX_REGISTRY_SIZE :: nat where
  "MAX_REGISTRY_SIZE = 500"

definition refreshAll :: "time \<Rightarrow> breaker_registry \<Rightarrow> breaker_registry" where
  "refreshAll now r = r\<lparr>breakers := map_values (\<lambda>b. snd (getStatus now b)) (breakers r)\<rparr>"

text \<open>The idle sweep of the five-minute interval.\<close>

definition registrySweep :: "time \<Rightarrow> breaker_registry \<Rightarrow> breaker_registry" where
  "registrySweep now r0 =
     (let r = refreshAll now r0
      in r\<lparr>breakers := filter (\<lambda>(n, b).
           \<not> (cb_st b = CLOSED \<and> failureCount b = 0
              \<and> (js_falsy (lastFailureTime b)
                 \<or> now - nullish (lastFailureTime b) 0 > 30 * 60 * 1000))) (breakers r)\<rparr>)"

definition coldCandidates :: "breaker_registry \<Rightarrow> (string \<times> time) list" where
  "coldCandidates r = map (\<lambda>(n, b). (n, js_or (lastFailureTime b) 0))
     (filter (\<lambda>(n, b). cb_st b = CLOSED \<and> failureCount b = 0) (breakers r))"

definition evictColdBreakersIfNeeded :: "time \<Rightarrow> breaker_registry \<Rightarrow> breaker_registry" where
  "evictColdBreakersIfNeeded now r0 =
     (if length (breakers r0) < MAX_REGISTRY_SIZE then r0
      else let r = refreshAll now r0;
               candidates = sort_key snd (coldCandidates r);
               target = length (breakers r) - MAX_REGISTRY_SIZE + 1
           in r\<lparr>breakers := map_del_all (map fst (take target candidates)) (breakers r)\<rparr>)"

definition getCircuitBreaker ::
  "time \<Rightarrow> string \<Rightarrow> cb_options option \<Rightarrow> breaker_registry \<Rightarrow> breaker_registry" where
  "getCircuitBreaker now name opts r =
     (let r1 = (if map_has name (breakers r) then r
                else let r' = evictColdBreakersIfNeeded now r
                     in r'\<lparr>breakers := map_set name (newCircuitBreaker name
                            (nullish opts no_options) (map_of (orphan_rows r') name)) (breakers r'),
                          orphan_rows := map_del name (orphan_rows r')\<rparr>)
      in case opts of
           None \<Rightarrow> r1
         | Some opt \<Rightarrow> (case map_of (breakers r1) name of
              None \<Rightarrow> r1
            | Some b \<Rightarrow> r1\<lparr>breakers := map_set name (applyOptions opt b) (breakers r1)\<rparr>))"

text \<open>The breaker \<open>getCircuitBreaker\<close> returns, and an operation on it.\<close>

definition breaker_of :: "string \<Rightarrow> breaker_registry \<Rightarrow> cb" where
  "breaker_of name r =
     (case map_of (breakers r) name of
        None \<Rightarrow> newCircuitBreaker name no_options (map_of (orphan_rows r) name)
      | Some b \<Rightarrow> b)"

definition on_breaker :: "string \<Rightarrow> (cb \<Rightarrow> cb) \<Rightarrow> breaker_registry \<Rightarrow> breaker_registry" where
  "on_breaker name f r = r\<lparr>breakers := map_set name (f (breaker_of name r)) (breakers r)\<rparr>"

definition getAllCircuitBreakerStatuses ::
  "time \<Rightarrow> breaker_registry \<Rightarrow> cb_status list \<times> breaker_registry" where
  "getAllCircuitBreakerStatuses now r0 =
     (let r = foldl (\<lambda>r n. if map_has n (breakers r) then r else getCircuitBreaker now n None r)
                r0 (map fst (orphan_rows r0))
      in (map (\<lambda>(n, b). fst (getStatus now b)) (breakers r), refreshAll now r))"

definition resetAllCircuitBreakers :: "breaker_registry \<Rightarrow> breaker_registry" where
  "resetAllCircuitBreakers r = r\<lparr>breakers := [], orphan_rows := []\<rparr>"

section \<open>Recording provider outcomes\<close>

definition CONNECTION_FAILURE_DEDUP_MS :: int where "CONNECTION_FAILURE_DEDUP_MS = 5000"
definition MAX_CONNECTION_FAILURE_DEDUP_ENTRIES :: nat where
  "MAX_CONNECTION_FAILURE_DEDUP_ENTRIES = 10000"
definition NETWORK_ERROR_DEDUP_MS :: int where "NETWORK_ERROR_DEDUP_MS = 10000"
definition MAX_NETWORK_ERROR_DEDUP_ENTRIES :: nat where "MAX_NETWORK_ERROR_DEDUP_ENTRIES = 1000"

record provider_world =
  registry :: breaker_registry
  lastNetworkErrorByProvider :: "(string \<times> time) list"
  lastConnectionFailure :: "(string \<times> time) list"
  cooldownMap :: cooldown_map

text \<open>The test \<open>last && now - last < window\<close> of the de-duplication maps.\<close>

definition recently :: "time \<Rightarrow> int \<Rightarrow> time option \<Rightarrow> bool" where
  "recently now window prev \<longleftrightarrow> \<not> js_falsy prev \<and> now - nullish prev 0 < window"

text \<open>Moving a key to the end with a new time, and trimming the map to its bound.\<close>

definition touch :: "nat \<Rightarrow> string \<Rightarrow> time \<Rightarrow> (string \<times> time) list \<Rightarrow> (string \<times> time) list" where
  "touch bound k now m = map_trim bound (map_set k now (map_del k m))"

definition connectionFailureSweep :: "time \<Rightarrow> provider_world \<Rightarrow> provider_world" where
  "connectionFailureSweep now w = w\<lparr>lastConnectionFailure :=
     filter (\<lambda>(k, ts). \<not> now - ts > CONNECTION_FAILURE_DEDUP_MS) (lastConnectionFailure w)\<rparr>"

text \<open>The tail of \<open>recordProviderFailure\<close>: configure the breaker, then count unless it is shut.\<close>

definition countProviderFailure ::
  "time \<Rightarrow> string \<Rightarrow> cb_options \<Rightarrow> breaker_registry \<Rightarrow> breaker_registry" where
  "countProviderFailure now provider opts r0 =
     (let r = getCircuitBreaker now provider (Some opts) r0;
          (can, b) = canExecute now (breaker_of provider r)
      in if \<not> can then on_breaker provider (\<lambda>_. b) r
         else on_breaker provider (\<lambda>_. snd (canExecute now (onFailure now None b))) r)"

definition recordProviderFailure ::
  "time \<Rightarrow> string \<Rightarrow> string option \<Rightarrow> cb_options \<Rightarrow> bool \<Rightarrow> bool \<Rightarrow> provider_world \<Rightarrow> provider_world" where
  "recordProviderFailure now provider c opts isQueueTimeout isNetworkError w =
     (if provider = [] \<or> isQueueTimeout then w
      else if isNetworkError
        \<and> recently now NETWORK_ERROR_DEDUP_MS (map_of (lastNetworkErrorByProvider w) provider) then w
      else
        let w1 = (if isNetworkError
                  then w\<lparr>lastNetworkErrorByProvider :=
                         touch MAX_NETWORK_ERROR_DEDUP_ENTRIES provider now
                           (lastNetworkErrorByProvider w)\<rparr>
                  else w);
            dedupKey = provider @ '':'' @ nullish c []
        in if truthy c
             \<and> recently now CONNECTION_FAILURE_DEDUP_MS (map_of (lastConnectionFailure w1) dedupKey)
           then w1
           else let w2 = (if truthy c
                  then w1\<lparr>lastConnectionFailure :=
                          touch MAX_CONNECTION_FAILURE_DEDUP_ENTRIES dedupKey now
                            (lastConnectionFailure w1)\<rparr>
                  else w1)
                in w2\<lparr>registry := countProviderFailure now provider opts (registry w2)\<rparr>)"

definition recordProviderSuccess ::
  "time \<Rightarrow> string \<Rightarrow> string option \<Rightarrow> provider_world \<Rightarrow> provider_world" where
  "recordProviderSuccess now provider c w =
     (if ignored_provider provider then w
      else let r = getCircuitBreaker now provider None (registry w);
               (st, b) = getStatus now (breaker_of provider r);
               w1 = w\<lparr>registry := on_breaker provider (\<lambda>_. b) r\<rparr>
      in if sts_state st = OPEN then w1
         else w1\<lparr>cooldownMap := resetCooldownFailureCount provider c (cooldownMap w1),
                 lastConnectionFailure :=
                   (if truthy c then map_del (provider @ '':'' @ the c) (lastConnectionFailure w1)
                    else lastConnectionFailure w1),
                 registry := on_breaker provider (onSuccess now) (registry w1)\<rparr>)"

definition clearProviderFailure :: "time \<Rightarrow> string \<Rightarrow> provider_world \<Rightarrow> provider_world" where
  "clearProviderFailure now provider w =
     (if provider = [] then w
      else w\<lparr>registry := on_breaker provider (cb_reset now)
                           (getCircuitBreaker now provider None (registry w))\<rparr>)"

section \<open>Lemmas\<close>

lemma breaker_of_on [simp]: "breaker_of p (on_breaker p f r) = f (breaker_of p r)"
  by (simp add: breaker_of_def on_breaker_def)

lemma on_breaker_registered [simp]: "map_has p (breakers (on_breaker p f r))"
  by (simp add: on_breaker_def)

lemma getCircuitBreaker_registered:
  "map_has p (breakers r) \<Longrightarrow> map_has p (breakers (getCircuitBreaker now p (Some opts) r))"
  "map_has p (breakers r) \<Longrightarrow>
     breaker_of p (getCircuitBreaker now p (Some opts) r) = applyOptions opts (breaker_of p r)"
  by (auto simp: getCircuitBreaker_def breaker_of_def map_has_def split: option.splits)

lemma countProviderFailure_breaker:
  assumes "map_has p (breakers r)"
  shows "map_has p (breakers (countProviderFailure now p opts r))"
    and "breaker_of p (countProviderFailure now p opts r) =
      (let b = snd (canExecute now (applyOptions opts (breaker_of p r)))
       in if fst (canExecute now (applyOptions opts (breaker_of p r)))
          then snd (canExecute now (onFailure now None b)) else b)"
  using assms
  by (simp_all add: countProviderFailure_def Let_def getCircuitBreaker_registered split: prod.splits)

lemma exhausted_options: "exhausted b \<Longrightarrow> exhausted (applyOptions opts b)"
  using exhausted_step [of b "Ev_options opts"] by simp

lemma exhausted_query: "exhausted b \<Longrightarrow> exhausted (snd (canExecute now b))"
  using exhausted_step [of b "Ev_query now"] by simp

lemma exhausted_countProviderFailure:
  assumes "map_has p (breakers r)" and "exhausted (breaker_of p r)"
  shows "exhausted (breaker_of p (countProviderFailure now p opts r))"
  using assms exhausted_refuses [OF exhausted_options [OF assms(2)]]
  by (simp add: countProviderFailure_breaker Let_def exhausted_options exhausted_query)

definition wedged :: "string \<Rightarrow> provider_world \<Rightarrow> bool" where
  "wedged p w \<longleftrightarrow> map_has p (breakers (registry w)) \<and> exhausted (breaker_of p (registry w))"

lemma wedged_failure: "wedged p w \<Longrightarrow> wedged p (recordProviderFailure now p c opts q n w)"
  by (auto simp: wedged_def recordProviderFailure_def Let_def exhausted_countProviderFailure
      countProviderFailure_breaker(1))

section \<open>Properties\<close>

text \<open>
  C19. Failures can never bring an exhausted half-open breaker back: once a probe has used up the
  probes and its own outcome was not accounted inside \<open>execute\<close> (the chat path classifies every
  result as "ignore"), \<open>recordProviderFailure\<close> sees \<open>canExecute() = false\<close> and drops the
  failure. After any number of such reports, from any connections, with any flags and at any
  times, the breaker is still HALF_OPEN without probes and refuses every request: the failed probe
  never re-opens the circuit, so no time-out ever starts.
\<close>

theorem failed_probe_wedges_provider:
  assumes "map_has p (breakers (registry w))"
    and "cb_st (breaker_of p (registry w)) = HALF_OPEN"
    and "halfOpenAllowed (breaker_of p (registry w)) \<le> 0"
  shows "let w' = foldl (\<lambda>w (now, c, q, n). recordProviderFailure now p c opts q n w) w reports
    in cb_st (breaker_of p (registry w')) = HALF_OPEN
     \<and> \<not> fst (canExecute later (breaker_of p (registry w')))"
proof -
  have "wedged p w" using assms by (simp add: wedged_def exhausted_def)
  then have "wedged p (foldl (\<lambda>w (now, c, q, n). recordProviderFailure now p c opts q n w) w reports)"
    by (induction reports arbitrary: w) (auto intro: wedged_failure)
  then show ?thesis
    using exhausted_refuses by (auto simp: wedged_def exhausted_def Let_def)
qed

definition probed_world :: provider_world where
  "probed_world =
     (let b = foldl (\<lambda>b t. onFailure t None b) (newCircuitBreaker ''claude'' no_options None)
                [1, 2, 3, 4, 5];
          b' = execute_finish 40001 (Resolved Ignore) (snd (execute_begin 40000 b))
      in \<lparr>registry = \<lparr>breakers = [(''claude'', b')], orphan_rows = []\<rparr>,
         lastNetworkErrorByProvider = [], lastConnectionFailure = [], cooldownMap = []\<rparr>)"

theorem failed_probe_wedges_provider_witness:
  "let w' = recordProviderFailure 40002 ''claude'' (Some ''a'') no_options False False probed_world
   in cb_st (breaker_of ''claude'' (registry w')) = HALF_OPEN
    \<and> \<not> fst (canExecute 999999999 (breaker_of ''claude'' (registry w')))"
proof -
  have "map_has ''claude'' (breakers (registry probed_world))"
    "cb_st (breaker_of ''claude'' (registry probed_world)) = HALF_OPEN"
    "halfOpenAllowed (breaker_of ''claude'' (registry probed_world)) \<le> 0"
    by (simp_all add: probed_world_def map_has_def breaker_of_def newCircuitBreaker_def
        restoreFromDb_def loadCircuitBreakerState_def
        no_options_def onFailure_def countFailure_def kindTrips_def escalate_def openCircuit_def
        Let_def ceil_div_def persistToDb_def execute_begin_def refreshOpenState_def
        shouldAttemptReset_def effectiveCooldown_def effectiveResetTimeout_def
        execute_finish_def recordResolvedResult_def)
  from failed_probe_wedges_provider [OF this, of no_options
      "[(40002, Some ''a'', False, False)]" 999999999]
  show ?thesis by simp
qed

text \<open>
  Failures reported while the circuit is OPEN neither extend the cooldown nor count: the breaker
  is exactly what reconfiguring it with the provider's profile leaves.
\<close>

theorem open_ignores_failures:
  assumes "map_has p (breakers r)" and "cb_st (breaker_of p r) = OPEN"
    and "lastFailureTime (breaker_of p r) = Some t" and "t \<noteq> 0"
    and "now - t < effectiveCooldown (applyOptions opts (breaker_of p r))"
  shows "breaker_of p (countProviderFailure now p opts r) = applyOptions opts (breaker_of p r)"
proof -
  have "cb_st (applyOptions opts (breaker_of p r)) = OPEN"
    "lastFailureTime (applyOptions opts (breaker_of p r)) = Some t"
    using assms(2,3) by (auto simp: applyOptions_def Let_def split: option.splits)
  with assms show ?thesis
    by (simp add: countProviderFailure_breaker Let_def canExecute_def refreshOpenState_def
        shouldAttemptReset_def)
qed

theorem open_ignores_failures_witness:
  "let b = foldl (\<lambda>b t. onFailure t None b) (newCircuitBreaker ''x'' no_options None) [1, 2, 3, 4, 5];
       r = \<lparr>breakers = [(''x'', b)], orphan_rows = []\<rparr>
   in lastFailureTime (breaker_of ''x'' (countProviderFailure 20000 ''x'' no_options r)) = Some 5"
proof -
  define r where "r = \<lparr>breakers = [(''x'', foldl (\<lambda>b t. onFailure t None b)
      (newCircuitBreaker ''x'' no_options None) [1, 2, 3, 4, 5])], orphan_rows = []\<rparr>"
  have "map_has ''x'' (breakers r)" "cb_st (breaker_of ''x'' r) = OPEN"
    "lastFailureTime (breaker_of ''x'' r) = Some 5"
    "20000 - 5 < effectiveCooldown (applyOptions no_options (breaker_of ''x'' r))"
    by (simp_all add: r_def map_has_def breaker_of_def newCircuitBreaker_def restoreFromDb_def
        loadCircuitBreakerState_def applyOptions_def merge_kinds_def
        no_options_def onFailure_def countFailure_def kindTrips_def escalate_def openCircuit_def
        Let_def ceil_div_def persistToDb_def effectiveCooldown_def effectiveResetTimeout_def)
  from open_ignores_failures [OF this(1,2,3) _ this(4)] this(3) show ?thesis
    unfolding Let_def r_def [symmetric] by (simp add: applyOptions_def Let_def no_options_def)
qed

lemma recently_touch:
  assumes "map_ok m" and "0 < bound" and "now \<noteq> 0" and "now' - now < window"
  shows "recently now' window (map_of (touch bound k now m) k)"
proof -
  have "map_of (touch bound k now m) k = Some now"
    using assms(1,2) by (simp add: touch_def map_set_new map_get_last)
  with assms(3,4) show ?thesis by (simp add: recently_def)
qed

text \<open>
  One incident counts once per connection: a second failure reported for the same connection
  less than five seconds after the first changes nothing at all.
\<close>

theorem connection_failures_deduplicated:
  assumes "map_ok (lastConnectionFailure w)" and "truthy c" and "now \<noteq> 0" and "p \<noteq> []"
    and "\<not> recently now CONNECTION_FAILURE_DEDUP_MS (map_of (lastConnectionFailure w)
            (p @ '':'' @ nullish c []))"
    and "now' - now < CONNECTION_FAILURE_DEDUP_MS"
  shows "let w1 = recordProviderFailure now p c opts False False w
    in recordProviderFailure now' p c opts' False False w1 = w1"
  using assms recently_touch [OF assms(1) _ assms(3,6),
      of MAX_CONNECTION_FAILURE_DEDUP_ENTRIES "p @ '':'' @ nullish c []"]
  by (simp add: recordProviderFailure_def Let_def MAX_CONNECTION_FAILURE_DEDUP_ENTRIES_def)

theorem connection_failures_deduplicated_witness:
  "let w = probed_world\<lparr>registry := \<lparr>breakers = [], orphan_rows = []\<rparr>\<rparr>;
       w1 = recordProviderFailure 1000 ''openai'' (Some ''a'') no_options False False w
   in recordProviderFailure 4000 ''openai'' (Some ''a'') no_options False False w1 = w1"
  unfolding Let_def
  by (rule connection_failures_deduplicated [unfolded Let_def])
    (simp_all add: probed_world_def truthy_def recently_def CONNECTION_FAILURE_DEDUP_MS_def Let_def)

text \<open>Eviction takes cold breakers only.\<close>

definition cold :: "cb \<Rightarrow> bool" where
  "cold b \<longleftrightarrow> cb_st b = CLOSED \<and> failureCount b = 0"

lemma evicted_are_cold:
  assumes "map_ok (breakers r)" and "map_of (breakers r) n = Some b"
    and "n \<in> set (map fst (take k (sort_key snd (coldCandidates r))))"
  shows "cold b"
proof -
  from assms(3) have "n \<in> set (map fst (coldCandidates r))"
    by (auto dest!: in_set_takeD)
  then obtain b' where "(n, b') \<in> set (breakers r)" "cold b'"
    by (auto simp: coldCandidates_def cold_def)
  with assms(1,2) show ?thesis
    by (auto dest: map_ok_nth_unique)
qed

lemma evict_keeps_hot:
  assumes "map_ok (breakers r)" and "map_of (breakers r) n = Some b"
    and "\<not> cold (snd (getStatus now b))"
  shows "map_of (breakers (evictColdBreakersIfNeeded now r)) n \<in> {Some b, Some (snd (getStatus now b))}"
proof -
  have ok: "map_ok (breakers (refreshAll now r))"
    and get: "map_of (breakers (refreshAll now r)) n = Some (snd (getStatus now b))"
    using assms by (simp_all add: refreshAll_def)
  then have "n \<notin> set (map fst (take k (sort_key snd (coldCandidates (refreshAll now r)))))" for k
    using evicted_are_cold assms(3) by blast
  with get assms(2) show ?thesis
    by (simp add: evictColdBreakersIfNeeded_def Let_def)
qed

text \<open>
  Making room in the registry never loses a breaker that matters: whatever breaker is looked up
  or created, every other breaker that is not idle (CLOSED without failures, after the lazy
  refresh) is still registered, itself or with just that refresh applied; and the requested
  breaker is registered.
\<close>

theorem registry_keeps_hot_breakers:
  assumes "map_ok (breakers r)" and "map_of (breakers r) n = Some b" and "n \<noteq> name"
    and "\<not> cold (snd (getStatus now b))"
  shows "map_of (breakers (getCircuitBreaker now name opts r)) n
      \<in> {Some b, Some (snd (getStatus now b))}
    \<and> map_has name (breakers (getCircuitBreaker now name opts r))"
  using assms(2,3) evict_keeps_hot [OF assms(1,2,4)]
  by (auto simp: getCircuitBreaker_def Let_def map_has_def split: option.splits)

theorem registry_keeps_hot_breakers_witness:
  "let b = onFailure 1 None (newCircuitBreaker ''x'' no_options None);
       r = \<lparr>breakers = [(''x'', b)], orphan_rows = []\<rparr>
   in map_has ''x'' (breakers (getCircuitBreaker 2 ''y'' None r))"
proof -
  define b where "b = onFailure 1 None (newCircuitBreaker ''x'' no_options None)"
  define r where "r = \<lparr>breakers = [(''x'', b)], orphan_rows = []\<rparr>"
  have "failureCount b = 1" "cb_st b = CLOSED"
    by (simp_all add: b_def newCircuitBreaker_def restoreFromDb_def loadCircuitBreakerState_def
        no_options_def onFailure_def countFailure_def kindTrips_def escalate_def ceil_div_def Let_def)
  then have "\<not> cold (snd (getStatus 2 b))"
    by (simp add: cold_def getStatus_def getRetryAfterMs_def refreshOpenState_def Let_def)
  from registry_keeps_hot_breakers [OF _ _ _ this, of r "''x''" "''y''" None]
  have "map_has ''x'' (breakers (getCircuitBreaker 2 ''y'' None r))"
    by (auto simp: r_def map_has_def)
  then show ?thesis
    unfolding Let_def b_def [symmetric] r_def [symmetric] .
qed

end
