(* ===== verification/AccountSemaphore.thy ===== *)
theory AccountSemaphore
  imports Prelude "HOL-Library.List_Lexorder" "HOL-Library.Char_ord"
begin

text \<open>
  Hierarchical concurrency admission, \<open>src/open-sse/services/accountSemaphore.ts\<close>. A request
  is admitted when every gate it names (global, provider, account) has room; otherwise it waits
  once, in the queue of each of them. Requests are numbers, given in the order of the calls.

  \<^item> \<open>queued\<close> is the set \<open>queuedRequests\<close> in insertion order, with the keys of each request. The
    code sets \<open>settled\<close> exactly when it takes a request out of that set, so the flag is absence
    from \<open>queued\<close>.
  \<^item> \<open>leases\<close> are the release closures handed out and not called yet; \<open>outcomes\<close> logs how each
    waiting promise was settled.
  \<^item> A gate's clean-up timer (delay 0) is the flag \<open>cleanupTimer\<close>; its firing, the wait
    time-out and the abort signal are events the environment chooses.
  \<^item> The code lazily overwrites an expired \<open>blockedUntil\<close> by null when it tests it. The model
    keeps the deadline and compares it with the clock, which gives the same verdicts.
  \<^item> A limit is a number or null; null stands also for the non-finite values.
\<close>

section \<open>Data\<close>

record gate =
  running :: int
  maxConcurrency :: int
  gate_queue :: "nat list"
  blockedUntil :: "time option"
  cleanupTimer :: bool

datatype outcome = Granted | Timed_out | Aborted | Was_reset

type_synonym gates = "(string \<times> gate) list"
type_synonym ticket = "nat \<times> string list"

record sem =
  gates_of :: gates
  queued :: "ticket list"
  leases :: "ticket list"
  next_id :: nat
  outcomes :: "(nat \<times> outcome) list"

definition empty_sem :: sem where
  "empty_sem = \<lparr>gates_of = [], queued = [], leases = [], next_id = 0, outcomes = []\<rparr>"

definition buildAccountSemaphoreKey :: "string \<Rightarrow> string \<Rightarrow> string" where
  "buildAccountSemaphoreKey provider accountKey = provider @ '':'' @ accountKey"

section \<open>Gates\<close>

definition isBypassed :: "rat option \<Rightarrow> bool" where
  "isBypassed m = (case m of None \<Rightarrow> True | Some x \<Rightarrow> x \<le> 0)"

definition ensureGate :: "string \<Rightarrow> int \<Rightarrow> gates \<Rightarrow> gates" where
  "ensureGate key limit gs =
     (case map_of gs key of
        Some g \<Rightarrow> map_set key (g\<lparr>maxConcurrency := limit\<rparr>) gs
      | None \<Rightarrow> map_set key \<lparr>running = 0, maxConcurrency = limit, gate_queue = [],
                  blockedUntil = None, cleanupTimer = False\<rparr> gs)"

definition isBlocked :: "time \<Rightarrow> gate \<Rightarrow> bool" where
  "isBlocked now g = (case blockedUntil g of None \<Rightarrow> False | Some u \<Rightarrow> u \<noteq> 0 \<and> now < u)"

definition upd_gate :: "string \<Rightarrow> (gate \<Rightarrow> gate) \<Rightarrow> gates \<Rightarrow> gates" where
  "upd_gate key f gs = (case map_of gs key of None \<Rightarrow> gs | Some g \<Rightarrow> map_set key (f g) gs)"

definition clearCleanupTimer :: "string \<Rightarrow> gates \<Rightarrow> gates" where
  "clearCleanupTimer key = upd_gate key (\<lambda>g. g\<lparr>cleanupTimer := False\<rparr>)"

definition cleanupGateIfIdle :: "time \<Rightarrow> string \<Rightarrow> gates \<Rightarrow> gates" where
  "cleanupGateIfIdle now key gs =
     (case map_of gs key of
        None \<Rightarrow> gs
      | Some g \<Rightarrow> if running g > 0 \<or> gate_queue g \<noteq> [] \<or> isBlocked now g then gs
                  else map_del key gs)"

definition idle :: "gate \<Rightarrow> bool" where
  "idle g \<longleftrightarrow> running g = 0 \<and> gate_queue g = []"

text \<open>\<open>scheduleCleanup\<close>, guarded as both its callers guard it.\<close>

definition scheduleCleanup :: "gate \<Rightarrow> gate" where
  "scheduleCleanup g = (if idle g then g\<lparr>cleanupTimer := True\<rparr> else g)"

section \<open>Queueing and draining\<close>

definition removeRequest :: "nat \<Rightarrow> string list \<Rightarrow> sem \<Rightarrow> sem" where
  "removeRequest i keys s = s\<lparr>queued := map_del i (queued s),
     gates_of := fold (\<lambda>key. upd_gate key
       (\<lambda>g. scheduleCleanup (g\<lparr>gate_queue := remove1 i (gate_queue g)\<rparr>))) keys (gates_of s)\<rparr>"

definition gate_admits :: "time \<Rightarrow> nat \<Rightarrow> gate \<Rightarrow> bool" where
  "gate_admits now i g \<longleftrightarrow> \<not> isBlocked now g \<and> running g < maxConcurrency g
     \<and> (case gate_queue g of [] \<Rightarrow> False | j # _ \<Rightarrow> j = i)"

definition canAcquire :: "time \<Rightarrow> gates \<Rightarrow> nat \<Rightarrow> string list \<Rightarrow> bool" where
  "canAcquire now gs i keys =
     list_all (\<lambda>key. case map_of gs key of None \<Rightarrow> False | Some g \<Rightarrow> gate_admits now i g) keys"

definition incRunning :: "string \<Rightarrow> gates \<Rightarrow> gates" where
  "incRunning key = upd_gate key (\<lambda>g. g\<lparr>running := running g + 1\<rparr>)"

definition decRunning :: "string \<Rightarrow> gates \<Rightarrow> gates" where
  "decRunning key =
     upd_gate key (\<lambda>g. if running g > 0 then g\<lparr>running := running g - 1\<rparr> else g)"

definition take_slots :: "nat \<Rightarrow> string list \<Rightarrow> sem \<Rightarrow> sem" where
  "take_slots i keys s = s\<lparr>gates_of := fold incRunning keys (gates_of s),
     leases := leases s @ [(i, keys)]\<rparr>"

definition grant :: "nat \<Rightarrow> string list \<Rightarrow> sem \<Rightarrow> sem" where
  "grant i keys s =
     (let s1 = take_slots i keys (removeRequest i keys s)
      in s1\<lparr>outcomes := outcomes s1 @ [(i, Granted)]\<rparr>)"

lemma find_Some_in: "List.find P xs = Some x \<Longrightarrow> x \<in> set xs \<and> P x"
  by (auto simp: find_Some_iff)

function drainQueues :: "time \<Rightarrow> sem \<Rightarrow> sem" where
  "drainQueues now s =
     (case List.find (\<lambda>(i, keys). canAcquire now (gates_of s) i keys) (queued s) of
        None \<Rightarrow> s
      | Some (i, keys) \<Rightarrow> drainQueues now (grant i keys s))"
  by pat_completeness auto
termination
proof (relation "measure (\<lambda>(now, s). length (queued s))")
  fix now :: time and s :: sem and x i keys
  assume "List.find (\<lambda>(i, keys). canAcquire now (gates_of s) i keys) (queued s) = Some x"
    and "(i, keys) = x"
  then have "(i, keys) \<in> set (queued s)" by (auto dest: find_Some_in)
  then have "map_has i (queued s)" by (force simp: map_has_iff)
  then show "((now, grant i keys s), now, s) \<in> measure (\<lambda>(now, s). length (queued s))"
    by (simp add: grant_def take_slots_def removeRequest_def Let_def length_map_del_less)
qed simp

declare drainQueues.simps [simp del]

section \<open>Operations\<close>

text \<open>The enabled requirements: one limit per key, the smallest given.\<close>

definition enabled_limits :: "(string \<times> rat option) list \<Rightarrow> (string \<times> int) list" where
  "enabled_limits reqs = foldl (\<lambda>m (key, mc).
     if isBypassed mc then m
     else let limit = \<lfloor>nullish mc 0\<rfloor>
          in map_set key (min (nullish (map_of m key) limit) limit) m) [] reqs"

text \<open>The loop that readies each gate; it stops at the first full queue.\<close>

fun readyGates :: "int \<Rightarrow> (string \<times> int) list \<Rightarrow> string list \<Rightarrow> gates \<Rightarrow> string option \<times> gates" where
  "readyGates maxQueueSize enabled [] gs = (None, gs)"
| "readyGates maxQueueSize enabled (key # keys) gs =
     (let gs1 = clearCleanupTimer key (ensureGate key (nullish (map_of enabled key) 0) gs);
          len = (case map_of gs1 key of None \<Rightarrow> 0 | Some g \<Rightarrow> int (length (gate_queue g)))
      in if maxQueueSize > 0 \<and> len \<ge> maxQueueSize then (Some key, gs1)
         else readyGates maxQueueSize enabled keys gs1)"

definition free_now :: "time \<Rightarrow> gates \<Rightarrow> string \<Rightarrow> bool" where
  "free_now now gs key = (case map_of gs key of
     None \<Rightarrow> False
   | Some g \<Rightarrow> gate_queue g = [] \<and> running g < maxConcurrency g \<and> \<not> isBlocked now g)"

datatype acquire_result =
  Noop_release | Abort_error | Queue_full int string | Lease nat | Waiting nat

definition enqueue_request :: "nat \<Rightarrow> string list \<Rightarrow> sem \<Rightarrow> sem" where
  "enqueue_request i keys s = s\<lparr>queued := queued s @ [(i, keys)],
     gates_of := fold (\<lambda>key. upd_gate key (\<lambda>g. g\<lparr>gate_queue := gate_queue g @ [i]\<rparr>))
                   keys (gates_of s)\<rparr>"

definition acquireMany ::
  "time \<Rightarrow> (string \<times> rat option) list \<Rightarrow> bool \<Rightarrow> int \<Rightarrow> sem \<Rightarrow> acquire_result \<times> sem" where
  "acquireMany now reqs aborted maxQueueSize s =
     (let enabled = enabled_limits reqs
      in if enabled = [] then (Noop_release, s)
         else if aborted then (Abort_error, s)
         else let keys = sort (map fst enabled);
                  (full, gs) = readyGates maxQueueSize enabled keys (gates_of s);
                  s1 = s\<lparr>gates_of := gs\<rparr>; i = next_id s
              in case full of
                   Some key \<Rightarrow> (Queue_full maxQueueSize key, s1)
                 | None \<Rightarrow>
                     if list_all (free_now now gs) keys
                     then (Lease i, take_slots i keys (s1\<lparr>next_id := Suc i\<rparr>))
                     else (Waiting i,
                           drainQueues now (enqueue_request i keys (s1\<lparr>next_id := Suc i\<rparr>))))"

definition acquire ::
  "time \<Rightarrow> string \<Rightarrow> rat option \<Rightarrow> bool \<Rightarrow> int \<Rightarrow> sem \<Rightarrow> acquire_result \<times> sem" where
  "acquire now key mc aborted maxQueueSize s = acquireMany now [(key, mc)] aborted maxQueueSize s"

text \<open>Calling a release closure; a second call finds it released and does nothing.\<close>

definition release :: "time \<Rightarrow> nat \<Rightarrow> sem \<Rightarrow> sem" where
  "release now i s =
     (case map_of (leases s) i of
        None \<Rightarrow> s
      | Some keys \<Rightarrow>
          (let s1 = s\<lparr>leases := map_del i (leases s),
                      gates_of := fold decRunning keys (gates_of s)\<rparr>;
               s2 = drainQueues now s1
           in s2\<lparr>gates_of := fold (\<lambda>key. upd_gate key scheduleCleanup) keys (gates_of s2)\<rparr>))"

text \<open>The wait time-out and the abort listener of a waiting request.\<close>

definition give_up :: "outcome \<Rightarrow> time \<Rightarrow> nat \<Rightarrow> sem \<Rightarrow> sem" where
  "give_up why now i s =
     (case map_of (queued s) i of
        None \<Rightarrow> s
      | Some keys \<Rightarrow>
          (let s1 = removeRequest i keys s
           in drainQueues now (s1\<lparr>outcomes := outcomes s1 @ [(i, why)]\<rparr>)))"

definition cleanup_fires :: "time \<Rightarrow> string \<Rightarrow> sem \<Rightarrow> sem" where
  "cleanup_fires now key s =
     (case map_of (gates_of s) key of
        None \<Rightarrow> s
      | Some g \<Rightarrow> if cleanupTimer g
                  then s\<lparr>gates_of := cleanupGateIfIdle now key (clearCleanupTimer key (gates_of s))\<rparr>
                  else s)"

text \<open>\<open>until\<close> is the deadline the three forms of the argument come to (None: not finite).\<close>

definition markBlocked :: "time \<Rightarrow> string \<Rightarrow> time option \<Rightarrow> sem \<Rightarrow> sem" where
  "markBlocked now key until s =
     (case until of
        None \<Rightarrow> s
      | Some u \<Rightarrow>
          if u \<le> now then s
          else let limit = (case map_of (gates_of s) key of None \<Rightarrow> 1 | Some g \<Rightarrow> maxConcurrency g)
               in s\<lparr>gates_of := upd_gate key (\<lambda>g. g\<lparr>blockedUntil := Some u\<rparr>)
                      (clearCleanupTimer key (ensureGate key limit (gates_of s)))\<rparr>)"

definition unblock :: "time \<Rightarrow> string \<Rightarrow> sem \<Rightarrow> sem" where
  "unblock now key s =
     (case map_of (gates_of s) key of
        None \<Rightarrow> s
      | Some g \<Rightarrow>
          (let s1 = drainQueues now (s\<lparr>gates_of :=
                 upd_gate key (\<lambda>g. g\<lparr>blockedUntil := None\<rparr>) (gates_of s)\<rparr>)
           in s1\<lparr>gates_of := cleanupGateIfIdle now key (gates_of s1)\<rparr>))"

definition isAccountSemaphoreFull :: "time \<Rightarrow> string \<Rightarrow> string \<Rightarrow> rat option \<Rightarrow> sem \<Rightarrow> bool" where
  "isAccountSemaphoreFull now provider accountKey mc s =
     (if isBypassed mc then False
      else case map_of (gates_of s) (buildAccountSemaphoreKey provider accountKey) of
        None \<Rightarrow> False
      | Some g \<Rightarrow> rat_of_int (running g) \<ge> nullish mc (rat_of_int (maxConcurrency g))
                  \<or> isBlocked now g)"

text \<open>\<open>reset\<close> rejects the waiters of one gate and forgets the gate; leases survive it.\<close>

definition sem_reset :: "time \<Rightarrow> string \<Rightarrow> sem \<Rightarrow> sem" where
  "sem_reset now key s =
     (case map_of (gates_of s) key of
        None \<Rightarrow> s
      | Some g \<Rightarrow>
          (let s1 = foldl (\<lambda>s i. case map_of (queued s) i of
                 None \<Rightarrow> s
               | Some keys \<Rightarrow> (let s' = removeRequest i keys s
                               in s'\<lparr>outcomes := outcomes s' @ [(i, Was_reset)]\<rparr>)) s (gate_queue g)
           in drainQueues now (s1\<lparr>gates_of := map_del key (gates_of s1)\<rparr>)))"

definition sem_resetAll :: "sem \<Rightarrow> sem" where
  "sem_resetAll s = s\<lparr>gates_of := [], queued := [],
     outcomes := outcomes s @ map (\<lambda>(i, _). (i, Was_reset)) (queued s)\<rparr>"

datatype sem_event =
    Acquire time "(string \<times> rat option) list" bool int
  | Release time nat
  | Timeout time nat
  | Abort time nat
  | Cleanup time string
  | Block time string "time option"
  | Unblock time string

fun sem_step :: "sem \<Rightarrow> sem_event \<Rightarrow> sem" where
  "sem_step s (Acquire t reqs ab q) = snd (acquireMany t reqs ab q s)"
| "sem_step s (Release t i) = release t i s"
| "sem_step s (Timeout t i) = give_up Timed_out t i s"
| "sem_step s (Abort t i) = give_up Aborted t i s"
| "sem_step s (Cleanup t k) = cleanup_fires t k s"
| "sem_step s (Block t k u) = markBlocked t k u s"
| "sem_step s (Unblock t k) = unblock t k s"

section \<open>The invariant\<close>

text \<open>
  Every gate queue is the global queue filtered to the gate, so all gates agree on one order;
  \<open>running\<close> counts the outstanding leases that name the gate.
\<close>

definition waiting_at :: "string \<Rightarrow> ticket list \<Rightarrow> nat list" where
  "waiting_at k ts = map fst (filter (\<lambda>(i, ks). k \<in> set ks) ts)"

definition held_at :: "string \<Rightarrow> ticket list \<Rightarrow> int" where
  "held_at k ts = int (length (filter (\<lambda>(i, ks). k \<in> set ks) ts))"

definition tickets_ok :: "gates \<Rightarrow> nat \<Rightarrow> ticket list \<Rightarrow> bool" where
  "tickets_ok gs n ts \<longleftrightarrow> map_ok ts \<and>
     list_all (\<lambda>(i, ks). i < n \<and> ks \<noteq> [] \<and> distinct ks \<and> list_all (\<lambda>k. map_has k gs) ks) ts"

definition gates_ok :: "gates \<Rightarrow> ticket list \<Rightarrow> ticket list \<Rightarrow> bool" where
  "gates_ok gs q l \<longleftrightarrow> (\<forall>k g. map_of gs k = Some g \<longrightarrow>
     gate_queue g = waiting_at k q \<and> running g = held_at k l)"

definition sem_inv :: "sem \<Rightarrow> bool" where
  "sem_inv s \<longleftrightarrow> map_ok (gates_of s)
     \<and> tickets_ok (gates_of s) (next_id s) (queued s @ leases s)
     \<and> gates_ok (gates_of s) (queued s) (leases s)"

lemma map_get_upd_gate [simp]:
  "map_of (upd_gate key f gs) k = (if k = key then map_option f (map_of gs k) else map_of gs k)"
  by (auto simp: upd_gate_def split: option.splits)

lemma map_ok_upd_gate [simp, intro]: "map_ok gs \<Longrightarrow> map_ok (upd_gate key f gs)"
  by (auto simp: upd_gate_def split: option.splits)

lemma map_has_upd_gate [simp]: "map_has k (upd_gate key f gs) = map_has k gs"
  by (simp add: map_has_def)

lemma map_has_fold_upd [simp]:
  "map_has k (fold (\<lambda>key. upd_gate key (f key)) keys gs) = map_has k gs"
  by (induction keys arbitrary: gs) simp_all

lemma map_ok_fold_upd [simp, intro]:
  "map_ok gs \<Longrightarrow> map_ok (fold (\<lambda>key. upd_gate key (f key)) keys gs)"
  by (induction keys arbitrary: gs) simp_all

lemma map_get_fold_upd: "distinct keys \<Longrightarrow>
    map_of (fold (\<lambda>key. upd_gate key (f key)) keys gs) k
      = (if k \<in> set keys then map_option (f k) (map_of gs k) else map_of gs k)"
  by (induction keys arbitrary: gs) auto

lemma scheduleCleanup_fields [simp]:
  "gate_queue (scheduleCleanup g) = gate_queue g" "running (scheduleCleanup g) = running g"
  "maxConcurrency (scheduleCleanup g) = maxConcurrency g"
  "blockedUntil (scheduleCleanup g) = blockedUntil g"
  by (simp_all add: scheduleCleanup_def)

lemma waiting_at_append: "waiting_at k (ts @ us) = waiting_at k ts @ waiting_at k us"
  by (simp add: waiting_at_def)

lemma waiting_at_Cons:
  "waiting_at k ((i, ks) # ts) = (if k \<in> set ks then i # waiting_at k ts else waiting_at k ts)"
  by (simp add: waiting_at_def)

lemma waiting_at_Nil [simp]: "waiting_at k [] = []"
  by (simp add: waiting_at_def)

lemma held_at_simps [simp]: "held_at k [] = 0"
  "held_at k ((i, ks) # ts) = (if k \<in> set ks then 1 else 0) + held_at k ts"
  "held_at k (ts @ us) = held_at k ts + held_at k us"
  by (simp_all add: held_at_def)

lemma held_at_nonneg [simp]: "0 \<le> held_at k ts"
  by (simp add: held_at_def)

lemma set_waiting_at: "set (waiting_at k ts) \<subseteq> fst ` set ts"
  by (auto simp: waiting_at_def)

lemma waiting_at_del: "map_ok ts \<Longrightarrow> map_of ts i = Some ks \<Longrightarrow>
    waiting_at k (map_del i ts)
      = (if k \<in> set ks then remove1 i (waiting_at k ts) else waiting_at k ts)"
proof (induction ts)
  case (Cons t ts)
  obtain j js where t: "t = (j, js)" by (cases t)
  show ?case
  proof (cases "j = i")
    case True
    then show ?thesis
      using Cons.prems t by (simp add: waiting_at_Cons map_del_absent)
  next
    case False
    then show ?thesis
      using Cons t by (simp add: waiting_at_Cons)
  qed
qed simp

lemma held_at_del: "map_ok ts \<Longrightarrow> map_of ts i = Some ks \<Longrightarrow>
    held_at k (map_del i ts) = held_at k ts - (if k \<in> set ks then 1 else 0)"
  by (induction ts) (auto simp: map_del_absent)

lemma tickets_ok_simps [simp]: "tickets_ok gs n []"
  "tickets_ok gs n ((i, ks) # ts) \<longleftrightarrow> \<not> map_has i ts \<and> i < n \<and> ks \<noteq> [] \<and> distinct ks
     \<and> list_all (\<lambda>k. map_has k gs) ks \<and> tickets_ok gs n ts"
  by (auto simp: tickets_ok_def)

lemma map_has_append [simp]: "map_has k (xs @ ys) \<longleftrightarrow> map_has k xs \<or> map_has k ys"
  by (auto simp: map_has_iff)

lemma tickets_ok_append: "tickets_ok gs n (ts @ us) \<longleftrightarrow> tickets_ok gs n ts \<and> tickets_ok gs n us
     \<and> list_all (\<lambda>(i, _). \<not> map_has i us) ts"
  by (induction ts) auto

lemma tickets_ok_del: "tickets_ok gs n ts \<Longrightarrow> tickets_ok gs n (map_del i ts)"
  by (induction ts) auto

lemma tickets_ok_gates: "tickets_ok gs n ts \<Longrightarrow> (\<And>k. map_has k gs \<Longrightarrow> map_has k gs') \<Longrightarrow> n \<le> n' \<Longrightarrow>
    tickets_ok gs' n' ts"
  by (induction ts) (auto simp: list_all_iff)

lemma tickets_ok_get: "tickets_ok gs n ts \<Longrightarrow> map_of ts i = Some ks \<Longrightarrow>
    i < n \<and> ks \<noteq> [] \<and> distinct ks \<and> list_all (\<lambda>k. map_has k gs) ks"
  by (induction ts) (auto split: if_splits)

lemma tickets_ok_fresh: "tickets_ok gs n ts \<Longrightarrow> n \<le> i \<Longrightarrow> \<not> map_has i ts"
  by (induction ts) (auto simp: map_has_def)

lemma tickets_ok_map_ok: "tickets_ok gs n ts \<Longrightarrow> map_ok ts"
  by (simp add: tickets_ok_def)

section \<open>Every operation keeps the invariant\<close>

lemma sem_inv_empty: "sem_inv empty_sem"
  by (simp add: sem_inv_def empty_sem_def gates_ok_def)

lemma sem_inv_iff: "sem_inv s \<longleftrightarrow> map_ok (gates_of s)
     \<and> tickets_ok (gates_of s) (next_id s) (queued s)
     \<and> tickets_ok (gates_of s) (next_id s) (leases s)
     \<and> list_all (\<lambda>(i, _). \<not> map_has i (leases s)) (queued s)
     \<and> gates_ok (gates_of s) (queued s) (leases s)"
  by (auto simp: sem_inv_def tickets_ok_append)

lemma sem_inv_gate: "sem_inv s \<Longrightarrow> map_of (gates_of s) k = Some g \<Longrightarrow>
    gate_queue g = waiting_at k (queued s) \<and> running g = held_at k (leases s)"
  by (simp add: sem_inv_def gates_ok_def)

lemma absent_gate: "tickets_ok gs n ts \<Longrightarrow> \<not> map_has k gs \<Longrightarrow>
    waiting_at k ts = [] \<and> held_at k ts = 0"
  by (induction ts) (auto simp: waiting_at_Cons list_all_iff)

lemma unnamed_key: "waiting_at k ts = [] \<or> held_at k ts = 0 \<Longrightarrow> (i, ks) \<in> set ts \<Longrightarrow> k \<notin> set ks"
  by (auto simp: waiting_at_def held_at_def filter_empty_conv)

lemma sem_inv_regate:
  assumes "sem_inv s" and "map_ok gs'" and "\<And>k. map_has k (gates_of s) \<Longrightarrow> map_has k gs'"
    and "\<And>k g'. map_of gs' k = Some g' \<Longrightarrow>
      (case map_of (gates_of s) k of
         Some g \<Rightarrow> gate_queue g' = gate_queue g \<and> running g' = running g
       | None \<Rightarrow> gate_queue g' = [] \<and> running g' = 0)"
    and "next_id s \<le> n'"
  shows "sem_inv (s\<lparr>gates_of := gs', next_id := n'\<rparr>)"
proof -
  have q: "tickets_ok (gates_of s) (next_id s) (queued s)"
    and l: "tickets_ok (gates_of s) (next_id s) (leases s)"
    using assms(1) by (auto simp: sem_inv_iff)
  have "gates_ok gs' (queued s) (leases s)"
    unfolding gates_ok_def
  proof (intro allI impI)
    fix k g' assume g': "map_of gs' k = Some g'"
    show "gate_queue g' = waiting_at k (queued s) \<and> running g' = held_at k (leases s)"
    proof (cases "map_of (gates_of s) k")
      case None
      then have "\<not> map_has k (gates_of s)" by (simp add: map_has_def)
      then show ?thesis
        using absent_gate [OF q] absent_gate [OF l] assms(4) [OF g'] None by simp
    next
      case (Some g)
      then show ?thesis
        using sem_inv_gate [OF assms(1) Some] assms(4) [OF g'] by simp
    qed
  qed
  then show ?thesis
    using assms tickets_ok_gates [OF q, of gs' n'] tickets_ok_gates [OF l, of gs' n']
    by (simp add: sem_inv_iff)
qed

lemma sem_inv_forget_idle:
  assumes "sem_inv s" and "map_of (gates_of s) key = Some g"
    and "running g \<le> 0" and "gate_queue g = []"
  shows "sem_inv (s\<lparr>gates_of := map_del key (gates_of s)\<rparr>)"
proof -
  have q: "waiting_at key (queued s) = []" and l: "held_at key (leases s) = 0"
    using sem_inv_gate [OF assms(1,2)] assms(3,4) held_at_nonneg [of key "leases s"] by auto
  have "tickets_ok (map_del key (gates_of s)) n ts"
    if "tickets_ok (gates_of s) n ts" and "waiting_at key ts = [] \<or> held_at key ts = 0" for n ts
    using that unnamed_key [OF that(2)] by (fastforce simp: tickets_ok_def list_all_iff)
  then show ?thesis
    using assms(1) q l by (auto simp: sem_inv_iff gates_ok_def)
qed

lemma sem_inv_remove:
  assumes "sem_inv s" and "map_of (queued s) i = Some keys"
  shows "sem_inv (removeRequest i keys s)"
proof -
  have q: "tickets_ok (gates_of s) (next_id s) (queued s)"
    using assms(1) by (simp add: sem_inv_iff)
  then have d: "distinct keys" and ok: "map_ok (queued s)"
    using tickets_ok_get assms(2) tickets_ok_map_ok by blast+
  let ?gs = "gates_of (removeRequest i keys s)"
  have "gates_ok ?gs (map_del i (queued s)) (leases s)"
    using assms d ok
    by (auto simp: gates_ok_def removeRequest_def map_get_fold_upd waiting_at_del
        sem_inv_gate split: if_splits)
  moreover have "list_all (\<lambda>(i, _). \<not> map_has i (leases s)) (map_del i (queued s))"
    using assms(1) by (auto simp: sem_inv_iff list_all_iff AList.delete_eq)
  ultimately show ?thesis
    using assms(1) tickets_ok_gates [of "gates_of s" "next_id s" _ ?gs "next_id s"]
    by (auto simp: sem_inv_iff removeRequest_def tickets_ok_del)
qed

lemma sem_inv_take:
  assumes "sem_inv s" and "i < next_id s" and "\<not> map_has i (queued s)" and "\<not> map_has i (leases s)"
    and "distinct keys" and "keys \<noteq> []" and "list_all (\<lambda>k. map_has k (gates_of s)) keys"
  shows "sem_inv (take_slots i keys s)"
proof -
  let ?gs = "fold incRunning keys (gates_of s)"
  have gs: "?gs = fold (\<lambda>key. upd_gate key (\<lambda>g. g\<lparr>running := running g + 1\<rparr>)) keys (gates_of s)"
    by (simp add: incRunning_def cong: fold_cong)
  have "gates_ok ?gs (queued s) (leases s @ [(i, keys)])"
    using assms(1,5) by (auto simp: gs gates_ok_def map_get_fold_upd sem_inv_gate split: if_splits)
  moreover have "map_ok ?gs" using assms(1) by (simp add: gs sem_inv_iff)
  moreover have "tickets_ok ?gs (next_id s) ts" if "tickets_ok (gates_of s) (next_id s) ts" for ts
    using that by (rule tickets_ok_gates) (simp_all add: gs)
  moreover have "list_all (\<lambda>(j, _). \<not> map_has j (ts @ [(i, keys)])) us"
    if "\<not> map_has i us" and "list_all (\<lambda>(j, _). \<not> map_has j ts) us" for ts us :: "ticket list"
    using that by (force simp: list_all_iff map_has_iff)
  moreover have "list_all (\<lambda>(j, _). \<not> map_has j [(i, keys)]) us" if "\<not> map_has i us"
    for us :: "ticket list"
    using that by (force simp: list_all_iff map_has_iff)
  moreover have "list_all (\<lambda>k. map_has k ?gs) keys" using assms(7) by (simp add: gs)
  ultimately show ?thesis
    using assms by (simp add: sem_inv_iff take_slots_def tickets_ok_append map_has_def)
qed

lemma sem_inv_outcome: "sem_inv (s\<lparr>outcomes := os\<rparr>) = sem_inv s"
  by (simp add: sem_inv_def)

lemma removeRequest_fields [simp]:
  "queued (removeRequest i keys s) = map_del i (queued s)"
  "leases (removeRequest i keys s) = leases s"
  "next_id (removeRequest i keys s) = next_id s"
  "outcomes (removeRequest i keys s) = outcomes s"
  "map_has k (gates_of (removeRequest i keys s)) = map_has k (gates_of s)"
  by (simp_all add: removeRequest_def)

lemma sem_inv_disjoint: "sem_inv s \<Longrightarrow> map_of (queued s) i = Some keys \<Longrightarrow> map_of (leases s) i = None"
  by (auto simp: sem_inv_iff list_all_iff map_has_def dest!: map_of_SomeD)

lemma sem_inv_grant:
  assumes "sem_inv s" and "map_of (queued s) i = Some keys"
  shows "sem_inv (grant i keys s)"
proof -
  have "tickets_ok (gates_of s) (next_id s) (queued s)" using assms by (simp add: sem_inv_iff)
  from tickets_ok_get [OF this assms(2)] show ?thesis
    using sem_inv_take [OF sem_inv_remove [OF assms], of i keys] sem_inv_disjoint [OF assms]
    by (simp add: grant_def Let_def sem_inv_outcome) (simp add: map_has_def)
qed

lemma sem_inv_queued_get: "sem_inv s \<Longrightarrow> (i, keys) \<in> set (queued s) \<Longrightarrow> map_of (queued s) i = Some keys"
  by (meson map_ok_nth_unique sem_inv_iff tickets_ok_map_ok)

text \<open>The induction rule of draining: whatever a grant keeps, a drain keeps.\<close>

lemma drainQueues_preserves:
  assumes "sem_inv s" and "P s"
    and "\<And>s i keys. sem_inv s \<Longrightarrow> P s \<Longrightarrow> map_of (queued s) i = Some keys \<Longrightarrow>
      canAcquire now (gates_of s) i keys \<Longrightarrow> P (grant i keys s)"
  shows "sem_inv (drainQueues now s) \<and> P (drainQueues now s)"
  using assms
proof (induction now s rule: drainQueues.induct)
  case (1 now s)
  show ?case
  proof (cases "List.find (\<lambda>(i, keys). canAcquire now (gates_of s) i keys) (queued s)")
    case None
    then show ?thesis using 1(2,3) by (subst (1 2) drainQueues.simps) simp
  next
    case (Some r)
    obtain i keys where r: "r = (i, keys)" by (cases r)
    then have mem: "(i, keys) \<in> set (queued s)" and can: "canAcquire now (gates_of s) i keys"
      using find_Some_in [OF Some] by auto
    note q = sem_inv_queued_get [OF 1(2) mem]
    have "sem_inv (drainQueues now (grant i keys s)) \<and> P (drainQueues now (grant i keys s))"
      using 1(1) [OF Some r [symmetric] sem_inv_grant [OF 1(2) q] 1(4) [OF 1(2,3) q can]] 1(4)
      by blast
    then show ?thesis using Some r by (subst (1 2) drainQueues.simps) simp
  qed
qed

lemma sem_inv_drain: "sem_inv s \<Longrightarrow> sem_inv (drainQueues now s)"
  using drainQueues_preserves [of s "\<lambda>_. True"] by simp

lemma drainQueues_done:
  "(i, keys) \<in> set (queued (drainQueues now s)) \<Longrightarrow> \<not> canAcquire now (gates_of (drainQueues now s)) i keys"
proof (induction now s rule: drainQueues.induct)
  case (1 now s)
  show ?case
  proof (cases "List.find (\<lambda>(i, keys). canAcquire now (gates_of s) i keys) (queued s)")
    case None
    then have "drainQueues now s = s" by (subst drainQueues.simps) simp
    then show ?thesis using 1(2) None by (auto simp: find_None_iff)
  next
    case (Some r)
    then show ?thesis
      using 1(1) [OF Some, of "fst r" "snd r"] 1(2) drainQueues.simps [of now s]
      by (simp split: prod.splits)
  qed
qed

lemma sem_inv_enqueue:
  assumes "sem_inv s" and "distinct keys" and "keys \<noteq> []"
    and "list_all (\<lambda>k. map_has k (gates_of s)) keys"
  shows "sem_inv (enqueue_request (next_id s) keys (s\<lparr>next_id := Suc (next_id s)\<rparr>))"
proof -
  let ?n = "next_id s"
  let ?gs = "fold (\<lambda>key. upd_gate key (\<lambda>g. g\<lparr>gate_queue := gate_queue g @ [?n]\<rparr>)) keys (gates_of s)"
  have q: "tickets_ok (gates_of s) ?n (queued s)" and l: "tickets_ok (gates_of s) ?n (leases s)"
    using assms(1) by (simp_all add: sem_inv_iff)
  have "gates_ok ?gs (queued s @ [(?n, keys)]) (leases s)"
    using assms(1,2)
    by (auto simp: gates_ok_def map_get_fold_upd sem_inv_gate waiting_at_append waiting_at_Cons
        split: if_splits)
  moreover have "tickets_ok ?gs (Suc ?n) ts" if "tickets_ok (gates_of s) ?n ts" for ts
    using that by (rule tickets_ok_gates) simp_all
  moreover have "\<not> map_has ?n (queued s)" "\<not> map_has ?n (leases s)"
    using tickets_ok_fresh q l by blast+
  moreover have "list_all (\<lambda>(j, _). \<not> map_has j [(?n, keys)]) (queued s)"
    using \<open>\<not> map_has ?n (queued s)\<close> by (force simp: list_all_iff map_has_iff)
  moreover have "list_all (\<lambda>k. map_has k ?gs) keys" using assms(4) by simp
  ultimately show ?thesis
    using assms by (simp add: sem_inv_iff enqueue_request_def tickets_ok_append map_has_def)
qed

lemma sem_inv_release_slots:
  assumes "sem_inv s" and Some: "map_of (leases s) i = Some keys"
  shows "sem_inv (s\<lparr>leases := map_del i (leases s), gates_of := fold decRunning keys (gates_of s)\<rparr>)"
proof -
  let ?gs = "fold decRunning keys (gates_of s)"
  have gs: "?gs = fold (\<lambda>key. upd_gate key
      (\<lambda>g. if running g > 0 then g\<lparr>running := running g - 1\<rparr> else g)) keys (gates_of s)"
    by (simp add: decRunning_def cong: fold_cong)
  have l: "tickets_ok (gates_of s) (next_id s) (leases s)" using assms by (simp add: sem_inv_iff)
  then have ok: "map_ok (leases s)" and d: "distinct keys"
    using tickets_ok_get [OF l Some] tickets_ok_map_ok by blast+
  have "gates_ok ?gs (queued s) (map_del i (leases s))"
    unfolding gates_ok_def
  proof (intro allI impI)
    fix k g' assume g': "map_of ?gs k = Some g'"
    then obtain g where g: "map_of (gates_of s) k = Some g"
      using d by (auto simp: gs map_get_fold_upd split: if_splits)
    then show "gate_queue g' = waiting_at k (queued s) \<and> running g' = held_at k (map_del i (leases s))"
      using sem_inv_gate [OF assms(1) g] held_at_del [OF ok Some, of k] g' d
        held_at_nonneg [of k "map_del i (leases s)"]
      by (auto simp: gs map_get_fold_upd split: if_splits)
  qed
  moreover have "tickets_ok ?gs (next_id s) ts" if "tickets_ok (gates_of s) (next_id s) ts" for ts
    using that by (rule tickets_ok_gates) (simp_all add: gs)
  moreover have "map_ok ?gs" using assms by (simp add: gs sem_inv_iff)
  moreover have "list_all (\<lambda>(j, _). \<not> map_has j (map_del i (leases s))) (queued s)"
    using assms by (auto simp: sem_inv_iff list_all_iff)
  ultimately show ?thesis
    using assms by (simp add: sem_inv_iff tickets_ok_del)
qed

lemma sem_inv_release:
  assumes "sem_inv s" shows "sem_inv (release now i s)"
proof (cases "map_of (leases s) i")
  case (Some keys)
  have d: "distinct keys"
    using assms tickets_ok_get [OF _ Some] by (auto simp: sem_inv_iff)
  have 1: "sem_inv (drainQueues now (s\<lparr>leases := map_del i (leases s),
      gates_of := fold decRunning keys (gates_of s)\<rparr>))" (is "sem_inv ?s")
    by (rule sem_inv_drain [OF sem_inv_release_slots [OF assms Some]])
  have "sem_inv (?s\<lparr>gates_of := fold (\<lambda>key. upd_gate key scheduleCleanup) keys (gates_of ?s),
      next_id := next_id ?s\<rparr>)"
    using 1 d by (intro sem_inv_regate) (auto simp: sem_inv_iff map_get_fold_upd split: option.splits if_splits)
  then show ?thesis using Some by (simp add: release_def Let_def)
qed (use assms in \<open>simp add: release_def\<close>)

lemma sem_inv_give_up:
  assumes "sem_inv s" shows "sem_inv (give_up why now i s)"
  using assms sem_inv_remove [of s i]
  by (auto simp: give_up_def Let_def sem_inv_outcome intro!: sem_inv_drain split: option.splits)

definition regated :: "gates \<Rightarrow> gates \<Rightarrow> bool" where
  "regated gs gs' \<longleftrightarrow> (map_ok gs \<longrightarrow> map_ok gs') \<and> (\<forall>k. case map_of gs' k of
       Some g' \<Rightarrow> (case map_of gs k of
         Some g \<Rightarrow> gate_queue g' = gate_queue g \<and> running g' = running g
       | None \<Rightarrow> gate_queue g' = [] \<and> running g' = 0)
     | None \<Rightarrow> map_of gs k = None)"

lemma regated_refl [simp]: "regated gs gs"
  by (auto simp: regated_def split: option.splits)

lemma regated_trans [trans]: "regated gs gs' \<Longrightarrow> regated gs' gs'' \<Longrightarrow> regated gs gs''"
  unfolding regated_def by (auto split: option.splits) (metis option.distinct(1) option.inject)+

lemma regated_ensureGate: "regated gs (ensureGate key limit gs)"
  by (auto simp: regated_def ensureGate_def split: option.splits)

lemma regated_upd_gate: "(\<And>g. gate_queue (f g) = gate_queue g \<and> running (f g) = running g) \<Longrightarrow>
    regated gs (upd_gate key f gs)"
  by (auto simp: regated_def split: option.splits)

lemma regated_clearCleanupTimer: "regated gs (clearCleanupTimer key gs)"
  by (simp add: clearCleanupTimer_def regated_upd_gate)

lemma sem_inv_regated:
  assumes "sem_inv s" and "regated (gates_of s) gs'" shows "sem_inv (s\<lparr>gates_of := gs'\<rparr>)"
proof -
  have "sem_inv (s\<lparr>gates_of := gs', next_id := next_id s\<rparr>)"
  proof (rule sem_inv_regate [OF assms(1)])
    show "map_ok gs'" using assms by (simp add: regated_def sem_inv_iff)
    show "map_has k gs'" if "map_has k (gates_of s)" for k
      using assms(2) that by (auto simp: regated_def map_has_def split: option.splits)
    show "case map_of (gates_of s) k of None \<Rightarrow> gate_queue g' = [] \<and> running g' = 0
        | Some g \<Rightarrow> gate_queue g' = gate_queue g \<and> running g' = running g"
      if "map_of gs' k = Some g'" for k g'
      using assms(2) that by (force simp: regated_def split: option.splits)
  qed simp
  then show ?thesis by simp
qed

lemma sem_inv_cleanup: "sem_inv s \<Longrightarrow> sem_inv (s\<lparr>gates_of := cleanupGateIfIdle now key (gates_of s)\<rparr>)"
  using sem_inv_forget_idle [of s key] by (auto simp: cleanupGateIfIdle_def split: option.splits)

lemma sem_inv_cleanup_fires: "sem_inv s \<Longrightarrow> sem_inv (cleanup_fires now key s)"
  using sem_inv_cleanup [of "s\<lparr>gates_of := clearCleanupTimer key (gates_of s)\<rparr>" now key]
    sem_inv_regated [OF _ regated_clearCleanupTimer, of s key]
  by (auto simp: cleanup_fires_def split: option.splits)

lemma regated_block: "regated gs (upd_gate key (\<lambda>g. g\<lparr>blockedUntil := b\<rparr>)
    (clearCleanupTimer key (ensureGate key limit gs)))"
  by (rule regated_trans [OF regated_trans [OF regated_ensureGate regated_clearCleanupTimer]
      regated_upd_gate]) simp

lemma sem_inv_markBlocked: "sem_inv s \<Longrightarrow> sem_inv (markBlocked now key until s)"
  by (simp add: markBlocked_def Let_def sem_inv_regated regated_block split: option.splits)

lemma sem_inv_unblock: "sem_inv s \<Longrightarrow> sem_inv (unblock now key s)"
  by (auto simp: unblock_def Let_def split: option.splits
      intro!: sem_inv_cleanup sem_inv_drain sem_inv_regated regated_upd_gate)

lemma readyGates_regated: "regated gs (snd (readyGates mq enabled keys gs))"
proof (induction mq enabled keys gs rule: readyGates.induct)
  case (2 mq enabled key keys gs)
  have "regated gs (clearCleanupTimer key (ensureGate key limit gs))" for limit
    by (rule regated_trans [OF regated_ensureGate regated_clearCleanupTimer])
  then show ?case
    using 2 by (auto simp: Let_def intro: regated_trans)
qed simp

lemma readyGates_keys: "fst (readyGates mq enabled keys gs) = None \<Longrightarrow>
    list_all (\<lambda>k. map_has k (snd (readyGates mq enabled keys gs))) keys
    \<and> (map_has k gs \<longrightarrow> map_has k (snd (readyGates mq enabled keys gs)))"
proof (induction mq enabled keys gs arbitrary: k rule: readyGates.induct)
  case (2 mq enabled key keys gs)
  let ?gs = "clearCleanupTimer key (ensureGate key (nullish (map_of enabled key) 0) gs)"
  have has: "map_has key ?gs" "map_has k gs \<Longrightarrow> map_has k ?gs" for k
    by (auto simp: clearCleanupTimer_def ensureGate_def split: option.splits)
  have "\<not> (mq > 0 \<and> (case map_of ?gs key of None \<Rightarrow> 0 | Some g \<Rightarrow> int (length (gate_queue g))) \<ge> mq)"
    using 2(2) by (auto simp: Let_def)
  from 2(1) [OF refl refl this] 2(2) has show ?case
    by (auto simp: Let_def split: if_splits)
qed simp

lemma enabled_limits_ok: "map_ok (enabled_limits reqs)"
proof -
  have "map_ok (foldl (\<lambda>m (key, mc). if isBypassed mc then m
      else let limit = \<lfloor>nullish mc 0\<rfloor> in map_set key (min (nullish (map_of m key) limit) limit) m) m reqs)"
    if "map_ok m" for m
    using that by (induction reqs arbitrary: m) (auto simp: Let_def)
  then show ?thesis by (simp add: enabled_limits_def)
qed

lemma sem_inv_acquireMany:
  assumes "sem_inv s" shows "sem_inv (snd (acquireMany now reqs aborted mq s))"
proof -
  let ?e = "enabled_limits reqs"
  let ?keys = "sort (map fst ?e)"
  obtain full gs where r: "readyGates mq ?e ?keys (gates_of s) = (full, gs)" by fastforce
  have inv: "sem_inv (s\<lparr>gates_of := gs\<rparr>)"
    using sem_inv_regated [OF assms readyGates_regated, of mq ?e ?keys] r by simp
  have d: "distinct ?keys" using enabled_limits_ok [of reqs] by (simp add: map_ok_def)
  show ?thesis
  proof (cases "?e = [] \<or> aborted \<or> full \<noteq> None")
    case False
    then have keys: "list_all (\<lambda>k. map_has k gs) ?keys" and ne: "?keys \<noteq> []"
      using readyGates_keys [of mq ?e ?keys "gates_of s"] r by (simp_all flip: set_empty)
    let ?s = "s\<lparr>gates_of := gs\<rparr>"
    have inv': "sem_inv (?s\<lparr>gates_of := gs, next_id := Suc (next_id s)\<rparr>)"
      using inv by (intro sem_inv_regate) (auto simp: sem_inv_iff split: option.splits)
    have "\<not> map_has (next_id s) (queued s)" "\<not> map_has (next_id s) (leases s)"
      using assms tickets_ok_fresh by (auto simp: sem_inv_iff)
    then have "sem_inv (take_slots (next_id s) ?keys (?s\<lparr>next_id := Suc (next_id s)\<rparr>))"
      using inv' d ne keys by (intro sem_inv_take) simp_all
    moreover have "sem_inv (enqueue_request (next_id s) ?keys (?s\<lparr>next_id := Suc (next_id s)\<rparr>))"
      using sem_inv_enqueue [OF inv d ne] keys by simp
    ultimately show ?thesis
      using False r by (auto simp: acquireMany_def Let_def sem_inv_drain)
  qed (use assms inv r in \<open>auto simp: acquireMany_def Let_def split: option.splits\<close>)
qed

lemma sem_step_inv: "sem_inv s \<Longrightarrow> sem_inv (sem_step s e)"
  by (cases e) (simp_all add: sem_inv_acquireMany sem_inv_release sem_inv_give_up
      sem_inv_cleanup_fires sem_inv_markBlocked sem_inv_unblock)

interpretation sem_machine: machine sem_step sem_inv
  by unfold_locales (rule sem_step_inv)

section \<open>The capacity bound\<close>

definition gate_cap :: "string \<Rightarrow> int \<Rightarrow> gates \<Rightarrow> bool" where
  "gate_cap k c gs \<longleftrightarrow> (case map_of gs k of
     None \<Rightarrow> True | Some g \<Rightarrow> maxConcurrency g \<le> c \<and> running g \<le> c)"

definition cap_inv :: "string \<Rightarrow> int \<Rightarrow> sem \<Rightarrow> bool" where
  "cap_inv k c s \<longleftrightarrow> sem_inv s \<and> 1 \<le> c \<and> gate_cap k c (gates_of s)"

definition limit_within :: "string \<Rightarrow> int \<Rightarrow> sem_event \<Rightarrow> bool" where
  "limit_within k c e = (case e of
     Acquire _ reqs _ _ \<Rightarrow> nullish (map_of (enabled_limits reqs) k) 0 \<le> c | _ \<Rightarrow> True)"

lemma gate_cap_same:
  assumes "gate_cap k c gs" and "\<And>g'. map_of gs' k = Some g' \<Longrightarrow>
    (\<exists>g. map_of gs k = Some g \<and> maxConcurrency g' \<le> maxConcurrency g \<and> running g' \<le> running g)"
  shows "gate_cap k c gs'"
  using assms by (force simp: gate_cap_def split: option.splits)

lemma gate_cap_fold: "gate_cap k c gs \<Longrightarrow>
    (\<And>g. running (f g) \<le> running g \<and> maxConcurrency (f g) \<le> maxConcurrency g) \<Longrightarrow>
    gate_cap k c (fold (\<lambda>key. upd_gate key f) keys gs)"
proof (induction keys arbitrary: gs)
  case (Cons key keys)
  have "gate_cap k c (upd_gate key f gs)"
    using Cons.prems by (force intro: gate_cap_same [of k c gs] split: if_splits)
  then show ?case using Cons by simp
qed simp

lemma gate_cap_inc:
  assumes "gate_cap k c gs" and "distinct keys"
    and "\<And>g. k \<in> set keys \<Longrightarrow> map_of gs k = Some g \<Longrightarrow> running g < maxConcurrency g"
  shows "gate_cap k c (fold incRunning keys gs)"
proof -
  have "fold incRunning keys gs
      = fold (\<lambda>key. upd_gate key (\<lambda>g. g\<lparr>running := running g + 1\<rparr>)) keys gs"
    by (simp add: incRunning_def cong: fold_cong)
  then show ?thesis
    using assms by (fastforce simp: gate_cap_def map_get_fold_upd split: option.splits)
qed

lemma gate_cap_remove: "gate_cap k c (gates_of s) \<Longrightarrow> gate_cap k c (gates_of (removeRequest i keys s))"
  by (simp add: removeRequest_def gate_cap_fold)

lemma gate_cap_grant:
  assumes "sem_inv s" and "gate_cap k c (gates_of s)" and "map_of (queued s) i = Some keys"
    and "canAcquire now (gates_of s) i keys"
  shows "gate_cap k c (gates_of (grant i keys s))"
proof -
  have d: "distinct keys" using assms(1,3) tickets_ok_get by (fastforce simp: sem_inv_iff)
  have "running g < maxConcurrency g"
    if "k \<in> set keys" and "map_of (gates_of (removeRequest i keys s)) k = Some g" for g
    using that assms(4) d
    by (fastforce simp: removeRequest_def map_get_fold_upd canAcquire_def list_all_iff gate_admits_def
        split: option.splits)
  then show ?thesis
    using gate_cap_inc [OF gate_cap_remove [OF assms(2)] d] by (simp add: grant_def take_slots_def Let_def)
qed

lemma gate_cap_drain:
  assumes "sem_inv s" and "gate_cap k c (gates_of s)"
  shows "gate_cap k c (gates_of (drainQueues now s))"
  using drainQueues_preserves [OF assms(1), of "\<lambda>s. gate_cap k c (gates_of s)" now] assms(2)
    gate_cap_grant by blast

lemma gate_cap_ensure: "gate_cap k c gs \<Longrightarrow> 1 \<le> c \<Longrightarrow> (key = k \<Longrightarrow> limit \<le> c) \<Longrightarrow>
    gate_cap k c (clearCleanupTimer key (ensureGate key limit gs))"
  by (auto simp: gate_cap_def ensureGate_def clearCleanupTimer_def split: option.splits)

lemma gate_cap_ready: "gate_cap k c gs \<Longrightarrow> 1 \<le> c \<Longrightarrow> nullish (map_of enabled k) 0 \<le> c \<Longrightarrow>
    gate_cap k c (snd (readyGates mq enabled keys gs))"
proof (induction mq enabled keys gs rule: readyGates.induct)
  case (2 mq enabled key keys gs)
  then show ?case
    using gate_cap_ensure [of k c gs key "nullish (map_of enabled key) 0"] by (auto simp: Let_def)
qed simp

lemma gate_cap_acquireMany:
  assumes "cap_inv k c s" and "nullish (map_of (enabled_limits reqs) k) 0 \<le> c"
  shows "gate_cap k c (gates_of (snd (acquireMany now reqs aborted mq s)))"
proof -
  let ?e = "enabled_limits reqs"
  let ?keys = "sort (map fst ?e)"
  obtain full gs where r: "readyGates mq ?e ?keys (gates_of s) = (full, gs)" by fastforce
  let ?s = "s\<lparr>gates_of := gs, next_id := Suc (next_id s)\<rparr>"
  have inv: "sem_inv (s\<lparr>gates_of := gs\<rparr>)"
    using sem_inv_regated [OF _ readyGates_regated, of s mq ?e ?keys] r assms(1)
    by (simp add: cap_inv_def)
  have d: "distinct ?keys" using enabled_limits_ok [of reqs] by (simp add: map_ok_def)
  have cap: "gate_cap k c gs"
    using gate_cap_ready [of k c "gates_of s" ?e mq ?keys] assms r by (simp add: cap_inv_def)
  show ?thesis
  proof (cases "?e = [] \<or> aborted \<or> full \<noteq> None")
    case False
    then have has: "list_all (\<lambda>k. map_has k gs) ?keys" and ne: "?keys \<noteq> []"
      using readyGates_keys [of mq ?e ?keys "gates_of s"] r by (simp_all flip: set_empty)
    have "gate_cap k c (gates_of (enqueue_request (next_id s) ?keys ?s))"
      using cap by (simp add: enqueue_request_def gate_cap_fold)
    moreover have "sem_inv (enqueue_request (next_id s) ?keys ?s)"
      using sem_inv_enqueue [OF inv d ne] has by simp
    moreover have "gate_cap k c (fold incRunning ?keys gs)"
      if "list_all (free_now now gs) ?keys"
      using gate_cap_inc [OF cap d] that
      by (force simp: list_all_iff free_now_def split: option.splits)
    ultimately show ?thesis
      using False r by (auto simp: acquireMany_def Let_def gate_cap_drain take_slots_def)
  qed (use assms cap r in \<open>auto simp: acquireMany_def Let_def cap_inv_def split: option.splits\<close>)
qed

lemma gate_cap_release: "cap_inv k c s \<Longrightarrow> gate_cap k c (gates_of (release now i s))"
proof (cases "map_of (leases s) i")
  case (Some keys)
  assume a: "cap_inv k c s"
  let ?s = "s\<lparr>leases := map_del i (leases s), gates_of := fold decRunning keys (gates_of s)\<rparr>"
  have "fold decRunning keys (gates_of s) = fold (\<lambda>key. upd_gate key
      (\<lambda>g. if running g > 0 then g\<lparr>running := running g - 1\<rparr> else g)) keys (gates_of s)"
    by (simp add: decRunning_def cong: fold_cong)
  then have 1: "gate_cap k c (gates_of ?s)"
    using a by (simp add: cap_inv_def gate_cap_fold)
  have "sem_inv ?s" using sem_inv_release_slots a Some by (simp add: cap_inv_def)
  then show ?thesis
    using gate_cap_drain [OF _ 1] Some by (simp add: release_def Let_def gate_cap_fold)
qed (simp add: release_def cap_inv_def)

lemma gate_cap_give_up: "cap_inv k c s \<Longrightarrow> gate_cap k c (gates_of (give_up why now i s))"
  using sem_inv_remove [of s i] gate_cap_remove [of k c s i]
  by (auto simp: give_up_def Let_def cap_inv_def sem_inv_outcome intro!: gate_cap_drain split: option.splits)

lemma gate_cap_cleanup: "gate_cap k c gs \<Longrightarrow> gate_cap k c (cleanupGateIfIdle now key gs)"
  by (auto simp: cleanupGateIfIdle_def gate_cap_def split: option.splits if_splits)

lemma gate_cap_others: assumes "cap_inv k c s"
  shows "gate_cap k c (gates_of (cleanup_fires now key s))"
    and "gate_cap k c (gates_of (markBlocked now key until s))"
    and "gate_cap k c (gates_of (unblock now key s))"
proof -
  have inv: "sem_inv s" and c: "1 \<le> c" and cap: "gate_cap k c (gates_of s)"
    using assms by (simp_all add: cap_inv_def)
  have upd: "gate_cap k c (upd_gate key f gs)"
    if "gate_cap k c gs" and "\<And>g. running (f g) \<le> running g \<and> maxConcurrency (f g) \<le> maxConcurrency g"
    for f gs
    using gate_cap_fold [OF that, of "[key]"] by simp
  show "gate_cap k c (gates_of (cleanup_fires now key s))"
    using cap upd by (auto simp: cleanup_fires_def clearCleanupTimer_def gate_cap_cleanup split: option.splits)
  have "(case map_of (gates_of s) key of None \<Rightarrow> 1 | Some g \<Rightarrow> maxConcurrency g) \<le> c" if "key = k"
    using that cap c by (auto simp: gate_cap_def split: option.splits)
  then show "gate_cap k c (gates_of (markBlocked now key until s))"
    using cap c by (auto simp: markBlocked_def Let_def split: option.splits intro!: upd gate_cap_ensure)
  show "gate_cap k c (gates_of (unblock now key s))"
    using cap inv by (auto simp: unblock_def Let_def gate_cap_cleanup split: option.splits
        intro!: gate_cap_cleanup gate_cap_drain sem_inv_regated regated_upd_gate upd)
qed

lemma cap_inv_held: "cap_inv k c s \<Longrightarrow> held_at k (leases s) \<le> c"
proof (cases "map_of (gates_of s) k")
  case None
  assume "cap_inv k c s"
  then show ?thesis
    using absent_gate [of "gates_of s" _ "leases s" k] None
    by (auto simp: cap_inv_def sem_inv_iff map_has_def)
next
  case (Some g)
  assume "cap_inv k c s"
  then show ?thesis
    using sem_inv_gate [OF _ Some] Some by (auto simp: cap_inv_def gate_cap_def)
qed

interpretation sem_cap: capped_machine sem_step "cap_inv k c" "limit_within k c"
  "\<lambda>s. held_at k (leases s)" c for k c
proof
  fix s e assume s: "cap_inv k c s" and e: "limit_within k c e"
  then have "gate_cap k c (gates_of (sem_step s e))"
    using gate_cap_acquireMany gate_cap_release gate_cap_give_up gate_cap_others
    by (cases e) (simp_all add: limit_within_def)
  then show "cap_inv k c (sem_step s e)"
    using s sem_step_inv by (simp add: cap_inv_def)
qed (rule cap_inv_held)

section \<open>Properties\<close>

definition run_sem :: "sem_event list \<Rightarrow> sem" where
  "run_sem es = foldl sem_step empty_sem es"

lemma run_sem_inv: "sem_inv (run_sem es)"
  unfolding run_sem_def by (rule sem_machine.run_inv [OF sem_inv_empty])

lemma drain_fresh:
  assumes "sem_inv s" and "\<not> map_has i (queued s)" and "\<not> map_has i (leases s)"
  shows "\<not> map_has i (queued (drainQueues now s)) \<and> \<not> map_has i (leases (drainQueues now s))"
proof -
  let ?P = "\<lambda>s. \<not> map_has i (queued s) \<and> \<not> map_has i (leases s)"
  have "?P (grant j keys s)" if "?P s" and "map_of (queued s) j = Some keys" for s j keys
    using that by (auto simp: grant_def take_slots_def Let_def map_has_def)
  then show ?thesis
    using drainQueues_preserves [of s ?P now] assms by blast
qed

lemma release_idempotent:
  assumes "sem_inv s" shows "release now' i (release now i s) = release now i s"
proof (cases "map_of (leases s) i")
  case (Some keys)
  let ?s = "s\<lparr>leases := map_del i (leases s), gates_of := fold decRunning keys (gates_of s)\<rparr>"
  have "map_of (queued s) i = None"
    using sem_inv_disjoint [OF assms, of i] Some by (cases "map_of (queued s) i") auto
  then have "\<not> map_has i (leases (drainQueues now ?s))"
    using drain_fresh [OF sem_inv_release_slots [OF assms Some], of i now] by (simp add: map_has_def)
  then show ?thesis
    using Some by (simp add: release_def Let_def map_has_def)
qed (simp add: release_def)

text \<open>C3. Capacity: if no request names a key with a limit above \<open>c\<close>, then however requests,
  releases, time-outs, aborts, blocks and clean-ups interleave, at most \<open>c\<close> leases that name the
  key are outstanding.\<close>

theorem concurrency_cap:
  assumes "1 \<le> c" and "list_all (limit_within k c) es"
  shows "held_at k (leases (run_sem es)) \<le> c"
proof -
  have "cap_inv k c empty_sem"
    using assms(1) by (simp add: cap_inv_def sem_inv_empty) (simp add: empty_sem_def gate_cap_def)
  from sem_cap.run_held [OF this assms(2)] show ?thesis by (simp add: run_sem_def)
qed

definition two_level_trace :: "sem_event list" where
  "two_level_trace = [Acquire 0 [(''g'', Some 2), (''p'', Some 1)] False 20,
     Acquire 1 [(''g'', Some 2), (''p'', Some 1)] False 20, Acquire 2 [(''g'', Some 2)] False 20]"

lemma concurrency_cap_witness: "held_at ''p'' (leases (run_sem two_level_trace)) \<le> 1"
  by (rule concurrency_cap)
    (simp_all add: two_level_trace_def limit_within_def enabled_limits_def isBypassed_def Let_def)

lemma fifo_heads:
  assumes "sem_inv s" and "queued s = xs @ (i, ks) # ys" and "(j, js) \<in> set ys"
    and "k \<in> set ks" and "k \<in> set js"
  shows "\<not> canAcquire now (gates_of s) j js"
proof -
  have ok: "map_ok (queued s)"
    using assms(1) tickets_ok_map_ok by (auto simp: sem_inv_iff)
  then have "j \<notin> fst ` set (xs @ [(i, ks)])"
    using assms(2,3) by (force simp: map_ok_def)
  then have "hd (waiting_at k (queued s)) \<noteq> j" and "waiting_at k (queued s) \<noteq> []"
    using assms(2,4) set_waiting_at [of k "xs @ [(i, ks)]"]
    by (auto simp: waiting_at_append waiting_at_Cons hd_append dest: hd_in_set)
  then have "\<not> gate_admits now j g" if "map_of (gates_of s) k = Some g" for g
    using sem_inv_gate [OF assms(1) that] by (auto simp: gate_admits_def split: list.splits)
  then show ?thesis
    using assms(5) by (auto simp: canAcquire_def list_all_iff split: option.splits)
qed

text \<open>C9. No overtaking at a shared gate: while a request waits there, no later waiter that shares
  a key with it can be admitted, whatever room the other gates have, and a newcomer that shares
  a key never takes the fast path.\<close>

theorem no_overtaking:
  assumes "queued (run_sem es) = xs @ (i, ks) # ys" and "k \<in> set ks"
  shows "list_all (\<lambda>(j, js). k \<in> set js \<longrightarrow> \<not> canAcquire now (gates_of (run_sem es)) j js) ys
     \<and> (k \<in> set keys \<longrightarrow> \<not> list_all (free_now now (gates_of (run_sem es))) keys)"
proof -
  have "waiting_at k (queued (run_sem es)) \<noteq> []"
    using assms by (simp add: waiting_at_append waiting_at_Cons)
  then have "\<not> free_now now (gates_of (run_sem es)) k"
    using sem_inv_gate [OF run_sem_inv, of es k] by (auto simp: free_now_def split: option.splits)
  then show ?thesis
    using fifo_heads [OF run_sem_inv assms(1) _ assms(2)] by (auto simp: list_all_iff)
qed

lemma no_overtaking_witness:
  "\<not> list_all (free_now 3 (gates_of (run_sem two_level_trace))) [''p'']"
proof -
  have "queued (run_sem two_level_trace) = [] @ (1, [''g'', ''p'']) # [(2, [''g''])]"
    by code_simp
  from no_overtaking [OF this, of "''p''" 3 "[''p'']"] show ?thesis by simp
qed

text \<open>C12. No lost wake-up: when a release has been carried out, no waiting request could be
  admitted, and the oldest one waits only because one of its gates is blocked or has all its
  slots taken by outstanding leases.\<close>

theorem release_wakes_waiters:
  assumes "map_of (leases (run_sem es)) i \<noteq> None"
    and "queued (release now i (run_sem es)) = (j, ks) # rest"
  shows "\<exists>k g. k \<in> set ks \<and> map_of (gates_of (release now i (run_sem es))) k = Some g
    \<and> (isBlocked now g \<or> maxConcurrency g \<le> held_at k (leases (release now i (run_sem es))))"
proof -
  let ?s = "release now i (run_sem es)"
  obtain keys where keys: "map_of (leases (run_sem es)) i = Some keys" using assms(1) by auto
  let ?d = "drainQueues now ((run_sem es)\<lparr>leases := map_del i (leases (run_sem es)),
      gates_of := fold decRunning keys (gates_of (run_sem es))\<rparr>)"
  have s: "?s = ?d\<lparr>gates_of := fold (\<lambda>key. upd_gate key scheduleCleanup) keys (gates_of ?d)\<rparr>"
    using keys by (simp add: release_def Let_def)
  have inv: "sem_inv ?s" by (rule sem_inv_release [OF run_sem_inv])
  have "distinct keys"
    using run_sem_inv [of es] tickets_ok_get [OF _ keys] by (auto simp: sem_inv_iff)
  then have same: "canAcquire now (gates_of ?s) j ks = canAcquire now (gates_of ?d) j ks"
    unfolding canAcquire_def
    by (intro list_all_cong)
      (auto simp: s map_get_fold_upd gate_admits_def isBlocked_def split: option.splits)
  have "(j, ks) \<in> set (queued ?d)" using assms(2) s by simp
  from drainQueues_done [OF this] obtain k where k: "k \<in> set ks"
    and no: "\<not> (case map_of (gates_of ?s) k of None \<Rightarrow> False | Some g \<Rightarrow> gate_admits now j g)"
    using same by (auto simp: canAcquire_def list_all_iff)
  have "tickets_ok (gates_of ?s) (next_id ?s) (queued ?s)" using inv by (simp add: sem_inv_iff)
  then obtain g where g: "map_of (gates_of ?s) k = Some g"
    using assms(2) k by (auto simp: list_all_iff map_has_def)
  moreover have "gate_queue g \<noteq> [] \<and> hd (gate_queue g) = j"
    using sem_inv_gate [OF inv g] assms(2) k by (simp add: waiting_at_Cons)
  ultimately show ?thesis
    using no k sem_inv_gate [OF inv g] by (auto simp: gate_admits_def split: list.splits)
qed

definition one_slot_trace :: "sem_event list" where
  "one_slot_trace = [Acquire 0 [(''p'', Some 1)] False 20, Acquire 1 [(''p'', Some 1)] False 20,
     Acquire 2 [(''p'', Some 1)] False 20]"

lemma release_wakes_waiters_witness:
  "\<exists>k g. k \<in> set [''p''] \<and> map_of (gates_of (release 4 0 (run_sem one_slot_trace))) k = Some g
    \<and> (isBlocked 4 g \<or> maxConcurrency g \<le> held_at k (leases (release 4 0 (run_sem one_slot_trace))))"
proof (rule release_wakes_waiters)
  show "map_of (leases (run_sem one_slot_trace)) 0 \<noteq> None" by code_simp
  show "queued (release 4 0 (run_sem one_slot_trace)) = (2, [''p'']) # []" by code_simp
qed

definition blocked_trace :: "time \<Rightarrow> time \<Rightarrow> string \<Rightarrow> int \<Rightarrow> sem_event list" where
  "blocked_trace t u k mq = [Block t k (Some u), Acquire t [(k, Some 1)] False mq]"

lemma drainQueues_none:
  "List.find (\<lambda>(i, keys). canAcquire now (gates_of s) i keys) (queued s) = None \<Longrightarrow> drainQueues now s = s"
  by (subst drainQueues.simps) simp

lemma drainQueues_nil [simp]: "queued s = [] \<Longrightarrow> drainQueues now s = s"
  by (rule drainQueues_none) simp

lemma run_blocked_trace:
  assumes "t < u" and "u \<noteq> 0" and "0 < mq"
  shows "run_sem (blocked_trace t u k mq) = \<lparr>gates_of = [(k, \<lparr>running = 0, maxConcurrency = 1,
      gate_queue = [0], blockedUntil = Some u, cleanupTimer = False\<rparr>)],
      queued = [(0, [k])], leases = [], next_id = 1, outcomes = []\<rparr>"
proof -
  have e: "enabled_limits [(k, Some 1)] = [(k, 1)]"
    by (simp add: enabled_limits_def isBypassed_def Let_def)
  show ?thesis
    using assms
    by (simp add: run_sem_def blocked_trace_def e acquireMany_def Let_def markBlocked_def
        ensureGate_def clearCleanupTimer_def upd_gate_def empty_sem_def free_now_def isBlocked_def
        enqueue_request_def drainQueues_none canAcquire_def gate_admits_def)
qed

text \<open>A block that runs out wakes nobody: the request queued behind it could be admitted, but no
  event of the module happens at the expiry, and the wait time-out rejects it with all its slots
  free.\<close>

theorem block_expiry_strands_waiter:
  assumes "t < u" and "u \<noteq> 0" and "u \<le> now" and "0 < mq"
  shows "queued (run_sem (blocked_trace t u k mq)) = [(0, [k])]
    \<and> leases (run_sem (blocked_trace t u k mq)) = []
    \<and> canAcquire now (gates_of (run_sem (blocked_trace t u k mq))) 0 [k]
    \<and> outcomes (run_sem (blocked_trace t u k mq @ [Timeout now 0])) = [(0, Timed_out)]"
proof -
  have "run_sem (blocked_trace t u k mq @ [e]) = sem_step (run_sem (blocked_trace t u k mq)) e" for e
    by (simp add: run_sem_def)
  then show ?thesis
    using assms run_blocked_trace [OF assms(1,2,4), of k]
    by (simp add: canAcquire_def gate_admits_def isBlocked_def give_up_def removeRequest_def Let_def)
qed

lemma block_expiry_strands_waiter_witness:
  "outcomes (run_sem (blocked_trace 0 5 ''p'' 20 @ [Timeout 9 0])) = [(0, Timed_out)]"
  using block_expiry_strands_waiter [of 0 5 9 20 "''p''"] by simp

definition after_reset :: "string \<Rightarrow> sem" where
  "after_reset k = foldl sem_step
     (sem_reset 1 k (run_sem [Acquire 0 [(k, Some 1)] False 20]))
     [Acquire 2 [(k, Some 1)] False 20, Release 3 0, Acquire 4 [(k, Some 1)] False 20]"

text \<open>A reset forgets the leases of the gate but not their release closures: when the stale lease
  of an earlier generation is returned, the slot of a live lease is freed, and with limit 1 two
  requests run at once.\<close>

theorem reset_undercounts_leases: "leases (after_reset k) = [(1, [k]), (2, [k])]"
proof -
  have e: "enabled_limits [(k, Some 1)] = [(k, 1)]"
    by (simp add: enabled_limits_def isBypassed_def Let_def)
  show ?thesis
    by (simp add: after_reset_def run_sem_def e acquireMany_def Let_def ensureGate_def
        clearCleanupTimer_def upd_gate_def empty_sem_def free_now_def isBlocked_def take_slots_def
        incRunning_def decRunning_def sem_reset_def release_def scheduleCleanup_def idle_def)
qed

end
