(* ===== verification/RateLimitSemaphore.thy ===== *)
theory RateLimitSemaphore
  imports Prelude
begin

text \<open>
  The per-model concurrency limiter of the round-robin combos,
  \<open>src/open-sse/services/rateLimitSemaphore.ts\<close>.

  \<^item> Gate objects live in \<open>heap\<close> (an object is its index) and \<open>gate_ix\<close> is the \<open>Map\<close> from models
    to objects: the timer closures of a wait or of a cooldown hold the object, not the key, and the
    object may have left the map when they fire.
  \<^item> A waiting request is a number in the queue of its gate. An outstanding release closure is an
    entry of \<open>rl_leases\<close>: closures of one model behave alike, so the model's name is enough.
  \<^item> Timers are events: \<open>Wait_timeout a i\<close> (request \<open>i\<close> queued on object \<open>a\<close>) and \<open>Cooldown_timer a
    key\<close>. The theorems hold whichever way the environment fires them.
  \<^item> As in the account semaphore, an expired deadline is compared with the clock where the code
    overwrites it by null when it tests it.
\<close>

section \<open>Data\<close>

record model_gate =
  mrunning :: int
  mmax :: int
  mqueue :: "nat list"
  rateLimitedUntil :: "time option"

record rl_sem =
  heap :: "model_gate list"
  gate_ix :: "(string \<times> nat) list"
  rl_leases :: "string list"
  rl_next :: nat
  rl_granted :: "nat list"
  rl_timed_out :: "nat list"

definition empty_rl :: rl_sem where
  "empty_rl = \<lparr>heap = [], gate_ix = [], rl_leases = [], rl_next = 0, rl_granted = [], rl_timed_out = []\<rparr>"

section \<open>Operations\<close>

definition getGate :: "string \<Rightarrow> int \<Rightarrow> rl_sem \<Rightarrow> nat \<times> rl_sem" where
  "getGate key mc s =
     (case map_of (gate_ix s) key of
        Some a \<Rightarrow> (a, s\<lparr>heap := (heap s)[a := (heap s ! a)\<lparr>mmax := mc\<rparr>]\<rparr>)
      | None \<Rightarrow> (length (heap s),
          s\<lparr>heap := heap s @ [\<lparr>mrunning = 0, mmax = mc, mqueue = [], rateLimitedUntil = None\<rparr>],
            gate_ix := map_set key (length (heap s)) (gate_ix s)\<rparr>))"

definition isRateLimited :: "time \<Rightarrow> model_gate \<Rightarrow> bool" where
  "isRateLimited now g = (case rateLimitedUntil g of None \<Rightarrow> False | Some u \<Rightarrow> u \<noteq> 0 \<and> now < u)"

text \<open>The \<open>while\<close> loop of \<open>drainQueue\<close>: the requests it admits, and the gate after it.\<close>

fun drain_items :: "time \<Rightarrow> nat list \<Rightarrow> model_gate \<Rightarrow> nat list \<times> model_gate" where
  "drain_items now [] g = ([], g\<lparr>mqueue := []\<rparr>)"
| "drain_items now (i # q) g =
     (if mrunning g < mmax g \<and> \<not> isRateLimited now g
      then (let (adm, g') = drain_items now q (g\<lparr>mrunning := mrunning g + 1, mqueue := q\<rparr>)
            in (i # adm, g'))
      else ([], g\<lparr>mqueue := i # q\<rparr>))"

definition drainQueue :: "time \<Rightarrow> string \<Rightarrow> rl_sem \<Rightarrow> rl_sem" where
  "drainQueue now key s =
     (case map_of (gate_ix s) key of
        None \<Rightarrow> s
      | Some a \<Rightarrow>
          (let (adm, g) = drain_items now (mqueue (heap s ! a)) (heap s ! a)
           in s\<lparr>heap := (heap s)[a := g], rl_leases := map (\<lambda>_. key) adm @ rl_leases s,
                rl_granted := rl_granted s @ adm,
                gate_ix := (if mrunning g = 0 \<and> mqueue g = [] then map_del key (gate_ix s)
                            else gate_ix s)\<rparr>))"

definition rl_release :: "time \<Rightarrow> string \<Rightarrow> rl_sem \<Rightarrow> rl_sem" where
  "rl_release now key s =
     (if key \<notin> set (rl_leases s) then s
      else let s1 = s\<lparr>rl_leases := remove1 key (rl_leases s)\<rparr>
           in case map_of (gate_ix s) key of
                None \<Rightarrow> s1
              | Some a \<Rightarrow>
                  (let g = heap s ! a
                   in if mrunning g > 0
                      then let g1 = g\<lparr>mrunning := mrunning g - 1\<rparr>;
                               s2 = s1\<lparr>heap := (heap s)[a := g1]\<rparr>
                           in if mrunning g1 = 0 \<and> mqueue g1 = []
                              then s2\<lparr>gate_ix := map_del key (gate_ix s)\<rparr>
                              else drainQueue now key s2
                      else s1))"

datatype rl_result = Slot | Queued nat | Rl_queue_full int

definition rl_acquire :: "time \<Rightarrow> string \<Rightarrow> int \<Rightarrow> int option \<Rightarrow> rl_sem \<Rightarrow> rl_result \<times> rl_sem" where
  "rl_acquire now key mc maxQueueSize s =
     (let (a, s1) = getGate key mc s; g = heap s1 ! a
      in if mrunning g < mmax g \<and> \<not> isRateLimited now g
         then (Slot, s1\<lparr>heap := (heap s1)[a := g\<lparr>mrunning := mrunning g + 1\<rparr>],
                        rl_leases := key # rl_leases s1\<rparr>)
         else case maxQueueSize of
           Some m \<Rightarrow>
             if m \<ge> 0 \<and> int (length (mqueue g)) \<ge> m
             then (Rl_queue_full m,
                   if mrunning g = 0 \<and> mqueue g = [] then s1\<lparr>gate_ix := map_del key (gate_ix s1)\<rparr>
                   else s1)
             else (Queued (rl_next s1),
                   s1\<lparr>heap := (heap s1)[a := g\<lparr>mqueue := mqueue g @ [rl_next s1]\<rparr>],
                      rl_next := Suc (rl_next s1)\<rparr>)
         | None \<Rightarrow> (Queued (rl_next s1),
                   s1\<lparr>heap := (heap s1)[a := g\<lparr>mqueue := mqueue g @ [rl_next s1]\<rparr>],
                      rl_next := Suc (rl_next s1)\<rparr>))"

text \<open>The wait time-out: it takes the request out of its queue and rejects it, no more.\<close>

definition wait_timeout :: "nat \<Rightarrow> nat \<Rightarrow> rl_sem \<Rightarrow> rl_sem" where
  "wait_timeout a i s =
     (if a < length (heap s) \<and> i \<in> set (mqueue (heap s ! a))
      then s\<lparr>heap := (heap s)[a := (heap s ! a)\<lparr>mqueue := remove1 i (mqueue (heap s ! a))\<rparr>],
             rl_timed_out := rl_timed_out s @ [i]\<rparr>
      else s)"

definition markRateLimited :: "time \<Rightarrow> string \<Rightarrow> int \<Rightarrow> rl_sem \<Rightarrow> rl_sem" where
  "markRateLimited now key cooldownMs s =
     (let (a, s1) = getGate key 3 s
      in s1\<lparr>heap := (heap s1)[a := (heap s1 ! a)\<lparr>rateLimitedUntil := Some (now + cooldownMs)\<rparr>]\<rparr>)"

definition cooldown_timer :: "time \<Rightarrow> nat \<Rightarrow> string \<Rightarrow> rl_sem \<Rightarrow> rl_sem" where
  "cooldown_timer now a key s =
     (if a < length (heap s)
      then case rateLimitedUntil (heap s ! a) of
             None \<Rightarrow> s
           | Some u \<Rightarrow>
               if u \<noteq> 0 \<and> now \<ge> u
               then drainQueue now key
                      (s\<lparr>heap := (heap s)[a := (heap s ! a)\<lparr>rateLimitedUntil := None\<rparr>]\<rparr>)
               else s
      else s)"

datatype rl_event =
    RlAcquire time string int "int option"
  | RlRelease time string
  | Wait_timeout nat nat
  | MarkRateLimited time string int
  | Cooldown_timer time nat string

fun rl_step :: "rl_sem \<Rightarrow> rl_event \<Rightarrow> rl_sem" where
  "rl_step s (RlAcquire t key mc mq) = snd (rl_acquire t key mc mq s)"
| "rl_step s (RlRelease t key) = rl_release t key s"
| "rl_step s (Wait_timeout a i) = wait_timeout a i s"
| "rl_step s (MarkRateLimited t key d) = markRateLimited t key d s"
| "rl_step s (Cooldown_timer t a key) = cooldown_timer t a key s"

definition gate_at :: "rl_sem \<Rightarrow> string \<Rightarrow> model_gate option" where
  "gate_at s key = map_option (\<lambda>a. heap s ! a) (map_of (gate_ix s) key)"

definition slots :: "rl_sem \<Rightarrow> string \<Rightarrow> int" where
  "slots s key = int (count_list (rl_leases s) key)"

section \<open>The map of gate objects\<close>

text \<open>Distinct models have distinct objects, so an update through one model leaves the others.\<close>

definition ix_ok :: "rl_sem \<Rightarrow> bool" where
  "ix_ok s \<longleftrightarrow> map_ok (gate_ix s) \<and> distinct (map snd (gate_ix s))
     \<and> list_all (\<lambda>(_, a). a < length (heap s)) (gate_ix s)"

lemma ix_ok_unique: "ix_ok s \<Longrightarrow> map_of (gate_ix s) k = Some a \<Longrightarrow> map_of (gate_ix s) k' = Some a \<Longrightarrow> k = k'"
proof -
  assume "ix_ok s" and m: "map_of (gate_ix s) k = Some a" "map_of (gate_ix s) k' = Some a"
  then have "inj_on snd (set (gate_ix s))" by (simp add: ix_ok_def distinct_map)
  from inj_onD [OF this _ map_of_SomeD [OF m(1)] map_of_SomeD [OF m(2)]] show "k = k'" by simp
qed

lemma ix_ok_less: "ix_ok s \<Longrightarrow> map_of (gate_ix s) k = Some a \<Longrightarrow> a < length (heap s)"
  using map_of_SomeD by (fastforce simp: ix_ok_def list_all_iff simp del: map_of_eq_Some_iff)

lemma gate_at_heap_upd:
  assumes "ix_ok s" and "map_of (gate_ix s) key = Some a"
  shows "gate_at (s\<lparr>heap := (heap s)[a := g]\<rparr>) k = (if k = key then Some g else gate_at s k)"
proof (cases "k = key")
  case True
  then show ?thesis using assms(2) ix_ok_less [OF assms] by (simp add: gate_at_def)
next
  case False
  then have "map_of (gate_ix s) k \<noteq> Some a" using ix_ok_unique [OF assms] by blast
  then show ?thesis using False by (cases "map_of (gate_ix s) k") (simp_all add: gate_at_def)
qed

lemma ix_ok_heap_upd: "ix_ok s \<Longrightarrow> ix_ok (s\<lparr>heap := (heap s)[a := g]\<rparr>)"
  by (simp add: ix_ok_def)

lemma ix_ok_del: "ix_ok s \<Longrightarrow> ix_ok (s\<lparr>gate_ix := map_del key (gate_ix s)\<rparr>)"
  by (auto simp: ix_ok_def list_all_iff AList.delete_eq distinct_map_filter)

lemma gate_at_del:
  "gate_at (s\<lparr>gate_ix := map_del key (gate_ix s)\<rparr>) k = (if k = key then None else gate_at s k)"
  by (simp add: gate_at_def)

lemma gate_at_fields [simp]:
  "gate_at (s\<lparr>rl_leases := x\<rparr>) k = gate_at s k" "gate_at (s\<lparr>rl_next := n\<rparr>) k = gate_at s k"
  "gate_at (s\<lparr>rl_granted := y\<rparr>) k = gate_at s k" "gate_at (s\<lparr>rl_timed_out := y\<rparr>) k = gate_at s k"
  "ix_ok (s\<lparr>rl_leases := x\<rparr>) = ix_ok s" "ix_ok (s\<lparr>rl_next := n\<rparr>) = ix_ok s"
  "ix_ok (s\<lparr>rl_granted := y\<rparr>) = ix_ok s" "ix_ok (s\<lparr>rl_timed_out := y\<rparr>) = ix_ok s"
  by (simp_all add: gate_at_def ix_ok_def)

text \<open>The gate \<open>getGate\<close> returns: the one in the map, or a fresh one, with the new limit.\<close>

definition fresh_gate :: model_gate where
  "fresh_gate = \<lparr>mrunning = 0, mmax = 0, mqueue = [], rateLimitedUntil = None\<rparr>"

lemma getGate_spec:
  assumes "ix_ok s" and "getGate key mc s = (a, s')"
  shows "ix_ok s' \<and> map_of (gate_ix s') key = Some a
     \<and> heap s' ! a = (nullish (gate_at s key) fresh_gate)\<lparr>mmax := mc\<rparr>
     \<and> (\<forall>k. gate_at s' k = (if k = key then Some (heap s' ! a) else gate_at s k))
     \<and> rl_leases s' = rl_leases s \<and> rl_next s' = rl_next s"
proof (cases "map_of (gate_ix s) key")
  case None
  then have new: "gate_ix s' = gate_ix s @ [(key, length (heap s))]" and a: "a = length (heap s)"
    and h: "heap s' = heap s @ [\<lparr>mrunning = 0, mmax = mc, mqueue = [], rateLimitedUntil = None\<rparr>]"
    using assms(2) by (auto simp: getGate_def map_set_new map_has_def)
  have "length (heap s) \<notin> snd ` set (gate_ix s)"
    using assms(1) by (force simp: ix_ok_def list_all_iff)
  then have "ix_ok s'"
    using assms(1) None by (auto simp: ix_ok_def new h list_all_iff map_ok_def map_of_eq_None_iff)
  moreover have "gate_at s' k = gate_at s k" if "k \<noteq> key" for k
    using that ix_ok_less [OF assms(1), of k]
    by (cases "map_of (gate_ix s) k") (auto simp: gate_at_def new h nth_append map_add_def)
  moreover have "map_of (gate_ix s') key = Some a"
    using None by (simp add: new a map_add_def)
  ultimately show ?thesis
    using assms(2) None by (auto simp: getGate_def gate_at_def fresh_gate_def h a)
next
  case (Some b)
  then have s': "a = b" "s' = s\<lparr>heap := (heap s)[b := (heap s ! b)\<lparr>mmax := mc\<rparr>]\<rparr>"
    using assms(2) by (auto simp: getGate_def)
  then show ?thesis
    using gate_at_heap_upd [OF assms(1) Some] ix_ok_less [OF assms(1) Some] Some
      ix_ok_heap_upd [OF assms(1)]
    by (simp add: gate_at_def)
qed

section \<open>Slots are leases\<close>

definition rl_inv :: "rl_sem \<Rightarrow> bool" where
  "rl_inv s \<longleftrightarrow> ix_ok s \<and> (\<forall>k. slots s k = (case gate_at s k of None \<Rightarrow> 0 | Some g \<Rightarrow> mrunning g))"

definition rl_cap :: "string \<Rightarrow> int \<Rightarrow> rl_sem \<Rightarrow> bool" where
  "rl_cap k c s \<longleftrightarrow> rl_inv s \<and> 0 \<le> c
     \<and> (case gate_at s k of None \<Rightarrow> True | Some g \<Rightarrow> mmax g \<le> c \<and> mrunning g \<le> c)"

text \<open>A gate's limit seen by the events: \<open>markRateLimited\<close> resets it to the default 3.\<close>

definition rl_within :: "string \<Rightarrow> int \<Rightarrow> rl_event \<Rightarrow> bool" where
  "rl_within k c e = (case e of
     RlAcquire _ key mc _ \<Rightarrow> key = k \<longrightarrow> mc \<le> c
   | MarkRateLimited _ key _ \<Rightarrow> key = k \<longrightarrow> 3 \<le> c
   | _ \<Rightarrow> True)"

lemma slots_fields [simp]: "slots (s\<lparr>heap := h\<rparr>) k = slots s k" "slots (s\<lparr>gate_ix := x\<rparr>) k = slots s k"
  "slots (s\<lparr>rl_next := n\<rparr>) k = slots s k" "slots (s\<lparr>rl_granted := y\<rparr>) k = slots s k"
  "slots (s\<lparr>rl_timed_out := y\<rparr>) k = slots s k"
  by (simp_all add: slots_def)

lemma drain_items_spec: "drain_items now q g = (adm, g') \<Longrightarrow>
    mrunning g' = mrunning g + int (length adm) \<and> q = adm @ mqueue g' \<and> mmax g' = mmax g
    \<and> rateLimitedUntil g' = rateLimitedUntil g
    \<and> (adm = [] \<or> mrunning g' \<le> mmax g \<and> \<not> isRateLimited now g)
    \<and> (mqueue g' = [] \<or> mmax g \<le> mrunning g' \<or> isRateLimited now g)"
proof (induction now q g arbitrary: adm g' rule: drain_items.induct)
  case (2 now i q g)
  show ?case
  proof (cases "mrunning g < mmax g \<and> \<not> isRateLimited now g")
    case True
    obtain adm1 g1 where 1: "drain_items now q (g\<lparr>mrunning := mrunning g + 1, mqueue := q\<rparr>) = (adm1, g1)"
      by fastforce
    have lim: "isRateLimited now (g\<lparr>mrunning := mrunning g + 1, mqueue := q\<rparr>) = isRateLimited now g"
      by (simp add: isRateLimited_def)
    from 2(1) [OF True 1] show ?thesis
      using 2(2) True 1 by (auto simp: lim)
  next
    case False
    then show ?thesis using 2(2) by auto
  qed
qed auto

definition idle_gate :: "model_gate \<Rightarrow> bool" where
  "idle_gate g \<longleftrightarrow> mrunning g = 0 \<and> mqueue g = []"

text \<open>What each operation does to the gates and to the slots, model by model.\<close>

lemma drainQueue_spec:
  assumes "ix_ok s" and "gate_at s key = Some g" and "drain_items now (mqueue g) g = (adm, g')"
  shows "ix_ok (drainQueue now key s)
    \<and> (\<forall>k. gate_at (drainQueue now key s) k
          = (if k = key then if idle_gate g' then None else Some g' else gate_at s k))
    \<and> (\<forall>k. slots (drainQueue now key s) k = slots s k + (if k = key then int (length adm) else 0))"
proof -
  obtain a where a: "map_of (gate_ix s) key = Some a" and g: "heap s ! a = g"
    using assms(2) by (auto simp: gate_at_def)
  let ?s = "s\<lparr>heap := (heap s)[a := g']\<rparr>"
  have up: "gate_at ?s k = (if k = key then Some g' else gate_at s k)" for k
    by (rule gate_at_heap_upd [OF assms(1) a])
  have "drainQueue now key s = (if idle_gate g' then ?s\<lparr>gate_ix := map_del key (gate_ix ?s)\<rparr> else ?s)
      \<lparr>rl_leases := map (\<lambda>_. key) adm @ rl_leases s, rl_granted := rl_granted s @ adm\<rparr>"
    using assms(3) by (simp add: drainQueue_def a g idle_gate_def)
  moreover have "count_list (map (\<lambda>_. key) adm) k = (if k = key then length adm else 0)" for k
    by (induction adm) auto
  ultimately show ?thesis
    using up ix_ok_del [OF ix_ok_heap_upd [OF assms(1)]] ix_ok_heap_upd [OF assms(1)] gate_at_del [of key ?s]
    by (auto simp: slots_def)
qed

lemma drainQueue_absent: "gate_at s key = None \<Longrightarrow> drainQueue now key s = s"
  by (simp add: drainQueue_def gate_at_def)

lemma rl_inv_drain:
  assumes "rl_inv s" shows "rl_inv (drainQueue now key s)"
proof (cases "gate_at s key")
  case (Some g)
  obtain adm g' where d: "drain_items now (mqueue g) g = (adm, g')" by fastforce
  have "slots s key = mrunning g" using assms Some by (simp add: rl_inv_def)
  then show ?thesis
    using drainQueue_spec [OF _ Some d] drain_items_spec [OF d] assms
    by (auto simp: rl_inv_def idle_gate_def)
qed (use assms in \<open>simp add: drainQueue_absent\<close>)

lemma slots_remove: "key \<in> set (rl_leases s) \<Longrightarrow>
    slots (s\<lparr>rl_leases := remove1 key (rl_leases s)\<rparr>) k = slots s k - (if k = key then 1 else 0)"
proof -
  have "x \<in> set xs \<Longrightarrow> int (count_list (remove1 x xs) k) = int (count_list xs k) - (if k = x then 1 else 0)"
    for x :: string and xs by (induction xs) auto
  then show "key \<in> set (rl_leases s) \<Longrightarrow>
    slots (s\<lparr>rl_leases := remove1 key (rl_leases s)\<rparr>) k = slots s k - (if k = key then 1 else 0)"
    by (simp add: slots_def)
qed

lemma slots_pos: "key \<in> set (rl_leases s) \<Longrightarrow> 0 < slots s key"
  using count_list_0_iff [of "rl_leases s" key] by (auto simp: slots_def)

lemma rl_release_cases:
  assumes "rl_inv s" and "key \<in> set (rl_leases s)"
  obtains g a where "gate_at s key = Some g" and "map_of (gate_ix s) key = Some a"
    and "rl_inv (s\<lparr>rl_leases := remove1 key (rl_leases s), heap := (heap s)[a := g\<lparr>mrunning := mrunning g - 1\<rparr>]\<rparr>)"
    and "rl_release now key s =
      (let s' = s\<lparr>rl_leases := remove1 key (rl_leases s), heap := (heap s)[a := g\<lparr>mrunning := mrunning g - 1\<rparr>]\<rparr>
       in if mrunning g = 1 \<and> mqueue g = [] then s'\<lparr>gate_ix := map_del key (gate_ix s)\<rparr>
          else drainQueue now key s')"
proof -
  have pos: "0 < slots s key" by (rule slots_pos [OF assms(2)])
  then obtain g where g: "gate_at s key = Some g"
    using assms(1) by (fastforce simp: rl_inv_def split: option.splits)
  then obtain a where a: "map_of (gate_ix s) key = Some a" and h: "heap s ! a = g"
    by (auto simp: gate_at_def)
  have run: "mrunning g = slots s key" using assms(1) g by (simp add: rl_inv_def)
  let ?s = "s\<lparr>rl_leases := remove1 key (rl_leases s)\<rparr>"
  have "gate_at (?s\<lparr>heap := (heap ?s)[a := g\<lparr>mrunning := mrunning g - 1\<rparr>]\<rparr>) k
      = (if k = key then Some (g\<lparr>mrunning := mrunning g - 1\<rparr>) else gate_at s k)" for k
    using assms(1) a by (subst gate_at_heap_upd) (auto simp: rl_inv_def)
  then have "rl_inv (s\<lparr>rl_leases := remove1 key (rl_leases s),
      heap := (heap s)[a := g\<lparr>mrunning := mrunning g - 1\<rparr>]\<rparr>)"
    using assms run slots_remove [OF assms(2)] by (auto simp: rl_inv_def ix_ok_def)
  moreover have "rl_release now key s =
      (let s' = s\<lparr>rl_leases := remove1 key (rl_leases s), heap := (heap s)[a := g\<lparr>mrunning := mrunning g - 1\<rparr>]\<rparr>
       in if mrunning g = 1 \<and> mqueue g = [] then s'\<lparr>gate_ix := map_del key (gate_ix s)\<rparr>
          else drainQueue now key s')"
    using assms(2) pos by (simp add: rl_release_def a h run Let_def)
  ultimately show thesis using that [OF g a] by blast
qed

lemma rl_inv_del_idle: "rl_inv s \<Longrightarrow> gate_at s key = Some g \<Longrightarrow> mrunning g = 0 \<Longrightarrow>
    rl_inv (s\<lparr>gate_ix := map_del key (gate_ix s)\<rparr>)"
  by (auto simp: rl_inv_def ix_ok_del gate_at_del)

lemma rl_inv_release: assumes "rl_inv s" shows "rl_inv (rl_release now key s)"
proof (cases "key \<in> set (rl_leases s)")
  case True
  show ?thesis
  proof (rule rl_release_cases [OF assms True, of now])
    fix g a
    let ?s = "s\<lparr>rl_leases := remove1 key (rl_leases s), heap := (heap s)[a := g\<lparr>mrunning := mrunning g - 1\<rparr>]\<rparr>"
    assume a: "map_of (gate_ix s) key = Some a" and inv: "rl_inv ?s"
      and eq: "rl_release now key s = (let s' = ?s in if mrunning g = 1 \<and> mqueue g = []
        then s'\<lparr>gate_ix := map_del key (gate_ix s)\<rparr> else drainQueue now key s')"
    have "gate_at ?s key = Some (g\<lparr>mrunning := mrunning g - 1\<rparr>)"
      using a ix_ok_less [of s] assms by (simp add: gate_at_def rl_inv_def)
    then show ?thesis
      using rl_inv_del_idle [OF inv, of key] rl_inv_drain [OF inv, of now key]
      by (cases "mrunning g = 1") (simp_all add: eq Let_def)
  qed
qed (use assms in \<open>simp add: rl_release_def\<close>)

text \<open>An update of an object, in the map or not, that keeps its counter.\<close>

lemma gate_at_heap_any: "a < length (heap s) \<Longrightarrow>
    gate_at (s\<lparr>heap := (heap s)[a := g]\<rparr>) k
      = (if map_of (gate_ix s) k = Some a then Some g else gate_at s k)"
  by (cases "map_of (gate_ix s) k") (auto simp: gate_at_def nth_list_update)

lemma gate_at_ix: "map_of (gate_ix s) k = Some a \<Longrightarrow> gate_at s k = Some (heap s ! a)"
  by (simp add: gate_at_def)

lemma rl_inv_heap:
  assumes "rl_inv s" and "a < length (heap s)" and "mrunning g = mrunning (heap s ! a)"
  shows "rl_inv (s\<lparr>heap := (heap s)[a := g]\<rparr>)"
  using assms by (auto simp: rl_inv_def ix_ok_heap_upd gate_at_heap_any gate_at_ix)

lemma rl_inv_fields [simp]: "rl_inv (s\<lparr>rl_next := n\<rparr>) = rl_inv s"
  "rl_inv (s\<lparr>rl_timed_out := y\<rparr>) = rl_inv s"
  by (simp_all add: rl_inv_def)

lemma rl_inv_getGate:
  assumes "rl_inv s" and "getGate key mc s = (a, s')" shows "rl_inv s'"
proof -
  have "ix_ok s" using assms(1) by (simp add: rl_inv_def)
  from getGate_spec [OF this assms(2)] show ?thesis
    using assms(1) by (auto simp: rl_inv_def slots_def fresh_gate_def split: option.splits)
qed

lemma rl_inv_take:
  assumes "rl_inv s" and "map_of (gate_ix s) key = Some a"
  shows "rl_inv (s\<lparr>heap := (heap s)[a := (heap s ! a)\<lparr>mrunning := mrunning (heap s ! a) + 1\<rparr>],
    rl_leases := key # rl_leases s\<rparr>)"
  using assms gate_at_heap_upd [OF _ assms(2)] gate_at_ix [OF assms(2)]
  by (auto simp: rl_inv_def ix_ok_heap_upd slots_def)

lemma rl_inv_acquire: assumes "rl_inv s" shows "rl_inv (snd (rl_acquire now key mc mq s))"
proof -
  obtain a s1 where g: "getGate key mc s = (a, s1)" by fastforce
  have inv: "rl_inv s1" by (rule rl_inv_getGate [OF assms g])
  then have ix: "ix_ok s1" by (simp add: rl_inv_def)
  have a: "map_of (gate_ix s1) key = Some a"
    using getGate_spec [OF _ g] assms by (simp add: rl_inv_def)
  show ?thesis
    using g inv rl_inv_take [OF inv a] rl_inv_heap [OF inv ix_ok_less [OF ix a]]
      rl_inv_del_idle [OF inv gate_at_ix [OF a]]
    by (auto simp: rl_acquire_def Let_def split: option.splits)
qed

lemma rl_inv_mark: assumes "rl_inv s" shows "rl_inv (markRateLimited now key d s)"
proof -
  obtain a s1 where g: "getGate key 3 s = (a, s1)" by fastforce
  have inv: "rl_inv s1" by (rule rl_inv_getGate [OF assms g])
  then have ix: "ix_ok s1" by (simp add: rl_inv_def)
  have "map_of (gate_ix s1) key = Some a"
    using getGate_spec [OF _ g] assms by (simp add: rl_inv_def)
  from rl_inv_heap [OF inv ix_ok_less [OF ix this]] g show ?thesis
    by (simp add: markRateLimited_def Let_def)
qed

lemma rl_inv_timers: assumes "rl_inv s"
  shows "rl_inv (wait_timeout a i s)" and "rl_inv (cooldown_timer now a key s)"
  using rl_inv_heap [OF assms, of a]
  by (auto simp: wait_timeout_def cooldown_timer_def assms intro!: rl_inv_drain split: option.splits)

lemma rl_step_inv: "rl_inv s \<Longrightarrow> rl_inv (rl_step s e)"
  by (cases e) (simp_all add: rl_inv_acquire rl_inv_release rl_inv_mark rl_inv_timers)

interpretation rl_machine: machine rl_step rl_inv
  by unfold_locales (rule rl_step_inv)

section \<open>The limit\<close>

definition under :: "int \<Rightarrow> model_gate option \<Rightarrow> bool" where
  "under c og = (case og of None \<Rightarrow> True | Some g \<Rightarrow> mmax g \<le> c \<and> mrunning g \<le> c)"

lemma rl_cap_iff: "rl_cap k c s \<longleftrightarrow> rl_inv s \<and> 0 \<le> c \<and> under c (gate_at s k)"
  by (simp add: rl_cap_def under_def)

lemma under_drain:
  assumes "ix_ok s" and "under c (gate_at s k)" shows "under c (gate_at (drainQueue now key s) k)"
proof (cases "gate_at s key")
  case (Some g)
  obtain adm g' where d: "drain_items now (mqueue g) g = (adm, g')" by fastforce
  show ?thesis
    using drainQueue_spec [OF assms(1) Some d] drain_items_spec [OF d] assms(2) Some
    by (auto simp: under_def)
qed (simp add: drainQueue_absent assms)

lemma under_heap:
  assumes "a < length (heap s)" and "under c (gate_at s k)"
    and "mrunning g \<le> mrunning (heap s ! a)" and "mmax g = mmax (heap s ! a)"
  shows "under c (gate_at (s\<lparr>heap := (heap s)[a := g]\<rparr>) k)"
  using assms by (auto simp: gate_at_heap_any under_def gate_at_ix)

lemma under_getGate:
  assumes "ix_ok s" and "getGate key mc s = (a, s')" and "under c (gate_at s k)" and "0 \<le> c"
    and "key = k \<longrightarrow> mc \<le> c"
  shows "under c (gate_at s' k)"
  using getGate_spec [OF assms(1,2)] assms(3-5)
  by (auto simp: under_def fresh_gate_def split: option.splits)

lemma under_acquire:
  assumes "rl_cap k c s" and "key = k \<longrightarrow> mc \<le> c"
  shows "under c (gate_at (snd (rl_acquire now key mc mq s)) k)"
proof -
  obtain a s1 where g: "getGate key mc s = (a, s1)" by fastforce
  have ix: "ix_ok s" using assms by (simp add: rl_cap_iff rl_inv_def)
  have u: "under c (gate_at s1 k)"
    using under_getGate [OF ix g] assms by (simp add: rl_cap_iff)
  have ix1: "ix_ok s1" and a: "map_of (gate_ix s1) key = Some a"
    using getGate_spec [OF ix g] by auto
  note less = ix_ok_less [OF ix1 a]
  have "under c (gate_at (s1\<lparr>heap := (heap s1)[a := (heap s1 ! a)\<lparr>mrunning := mrunning (heap s1 ! a) + 1\<rparr>]\<rparr>) k)"
    if "mrunning (heap s1 ! a) < mmax (heap s1 ! a)"
    using that u gate_at_ix [OF a] by (auto simp: gate_at_heap_upd [OF ix1 a] under_def)
  moreover have "under c (gate_at (s1\<lparr>gate_ix := map_del key (gate_ix s1)\<rparr>) k)"
    using u by (simp add: gate_at_del under_def)
  ultimately show ?thesis
    using g u under_heap [OF less u]
    by (auto simp: rl_acquire_def Let_def simp del: fun_upd_apply split: option.splits)
qed

lemma under_release: assumes "rl_cap k c s" shows "under c (gate_at (rl_release now key s) k)"
proof (cases "key \<in> set (rl_leases s)")
  case True
  have inv: "rl_inv s" and u: "under c (gate_at s k)" using assms by (simp_all add: rl_cap_iff)
  show ?thesis
  proof (rule rl_release_cases [OF inv True, of now])
    fix g a
    let ?s = "s\<lparr>rl_leases := remove1 key (rl_leases s), heap := (heap s)[a := g\<lparr>mrunning := mrunning g - 1\<rparr>]\<rparr>"
    assume g: "gate_at s key = Some g" and a: "map_of (gate_ix s) key = Some a" and ri: "rl_inv ?s"
      and eq: "rl_release now key s = (let s' = ?s in if mrunning g = 1 \<and> mqueue g = []
        then s'\<lparr>gate_ix := map_del key (gate_ix s)\<rparr> else drainQueue now key s')"
    have "heap s ! a = g" using g gate_at_ix [OF a] by simp
    then have 1: "under c (gate_at ?s k)"
      using under_heap [of a "s\<lparr>rl_leases := remove1 key (rl_leases s)\<rparr>" c k] u a inv
        ix_ok_less [of s key a] by (simp add: rl_inv_def)
    have "ix_ok ?s" using ri by (simp add: rl_inv_def)
    note dr = under_drain [OF this 1, of now key]
    have "under c (gate_at (?s\<lparr>gate_ix := map_del key (gate_ix ?s)\<rparr>) k)"
      using 1 unfolding gate_at_del by (simp add: under_def)
    with dr show ?thesis by (cases "mrunning g = 1") (simp_all add: eq Let_def)
  qed
qed (use assms in \<open>simp add: rl_release_def rl_cap_iff\<close>)

lemma under_timers: assumes "rl_cap k c s"
  shows "under c (gate_at (wait_timeout a i s) k)" and "under c (gate_at (cooldown_timer now a key s) k)"
proof -
  have u: "under c (gate_at s k)" and ix: "ix_ok s" using assms by (simp_all add: rl_cap_iff rl_inv_def)
  show "under c (gate_at (wait_timeout a i s) k)"
    using under_heap [OF _ u, of a] u by (auto simp: wait_timeout_def)
  show "under c (gate_at (cooldown_timer now a key s) k)"
    using under_heap [OF _ u, of a] u
    by (auto simp: cooldown_timer_def ix_ok_heap_upd ix intro!: under_drain split: option.splits)
qed

lemma under_mark: assumes "rl_cap k c s" and "key = k \<longrightarrow> 3 \<le> c"
  shows "under c (gate_at (markRateLimited now key d s) k)"
proof -
  obtain a s1 where g: "getGate key 3 s = (a, s1)" by fastforce
  have ix: "ix_ok s" using assms by (simp add: rl_cap_iff rl_inv_def)
  have u: "under c (gate_at s1 k)" using under_getGate [OF ix g] assms by (simp add: rl_cap_iff)
  have "a < length (heap s1)" using getGate_spec [OF ix g] ix_ok_less by blast
  from under_heap [OF this u] g show ?thesis by (simp add: markRateLimited_def Let_def)
qed

interpretation rl_capped: capped_machine rl_step "rl_cap k c" "rl_within k c" "\<lambda>s. slots s k" c for k c
proof
  fix s e assume s: "rl_cap k c s" and e: "rl_within k c e"
  then have "under c (gate_at (rl_step s e) k)"
    using under_acquire under_release under_mark under_timers
    by (cases e) (auto simp: rl_within_def)
  then show "rl_cap k c (rl_step s e)"
    using s rl_step_inv by (simp add: rl_cap_iff)
next
  show "rl_cap k c s \<Longrightarrow> slots s k \<le> c" for s
    by (auto simp: rl_cap_iff rl_inv_def under_def split: option.splits)
qed

section \<open>Properties\<close>

lemma rl_cap_empty: "0 \<le> c \<Longrightarrow> rl_cap k c empty_rl"
  by (simp add: rl_cap_iff rl_inv_def) (simp add: empty_rl_def ix_ok_def gate_at_def slots_def under_def)

text \<open>C25. At most \<open>c\<close> slots of a model are out at any time, over every interleaving of requests,
  releases, wait time-outs and cooldowns, when the requests for it ask for a concurrency of at
  most \<open>c\<close> and, if the model is ever marked rate-limited, \<open>c\<close> is at least 3.\<close>

theorem model_slots_capped:
  assumes "0 \<le> c" and "list_all (rl_within k c) es"
  shows "slots (foldl rl_step empty_rl es) k \<le> c"
  by (rule rl_capped.run_held [OF rl_cap_empty [OF assms(1)] assms(2)])

lemma model_slots_capped_witness:
  "slots (foldl rl_step empty_rl [RlAcquire 0 ''m'' 1 None, RlAcquire 1 ''m'' 1 None]) ''m'' \<le> 1"
  by (rule model_slots_capped) (simp_all add: rl_within_def)

lemma drain_limited: "isRateLimited now g \<Longrightarrow> drain_items now q g = ([], g\<lparr>mqueue := q\<rparr>)"
  by (cases q) simp_all

text \<open>The pause holds while the gate lives: at a time before the deadline of a rate-limited gate,
  a request for the model gets no slot, and a release hands none on.\<close>

theorem pause_holds:
  assumes "gate_at (foldl rl_step empty_rl es) k = Some g" and "isRateLimited now g"
  shows "fst (rl_acquire now k mc mq (foldl rl_step empty_rl es)) \<noteq> Slot
    \<and> rl_granted (rl_release now k (foldl rl_step empty_rl es))
        = rl_granted (foldl rl_step empty_rl es)"
proof -
  let ?s = "foldl rl_step empty_rl es"
  have inv: "rl_inv ?s"
    using rl_machine.run_inv [of empty_rl] rl_cap_empty [of 0] by (simp add: rl_cap_iff)
  then have ix: "ix_ok ?s" by (simp add: rl_inv_def)
  obtain a s1 where g: "getGate k mc ?s = (a, s1)" by fastforce
  have "isRateLimited now (heap s1 ! a)"
    using getGate_spec [OF ix g] assms by (simp add: isRateLimited_def)
  then have 1: "fst (rl_acquire now k mc mq ?s) \<noteq> Slot"
    using g by (auto simp: rl_acquire_def Let_def split: option.splits)
  have "rl_granted (rl_release now k ?s) = rl_granted ?s"
  proof (cases "k \<in> set (rl_leases ?s)")
    case True
    show ?thesis
    proof (rule rl_release_cases [OF inv True, of now])
      fix g' a
      let ?t = "?s\<lparr>rl_leases := remove1 k (rl_leases ?s), heap := (heap ?s)[a := g'\<lparr>mrunning := mrunning g' - 1\<rparr>]\<rparr>"
      assume a: "map_of (gate_ix ?s) k = Some a" and g': "gate_at ?s k = Some g'"
        and eq: "rl_release now k ?s = (let s' = ?t in if mrunning g' = 1 \<and> mqueue g' = []
          then s'\<lparr>gate_ix := map_del k (gate_ix ?s)\<rparr> else drainQueue now k s')"
      have "isRateLimited now (g'\<lparr>mrunning := mrunning g' - 1\<rparr>)"
        using g' assms by (simp add: isRateLimited_def)
      then have "rl_granted (drainQueue now k ?t) = rl_granted ?s"
        using a ix_ok_less [OF ix a] by (simp add: drainQueue_def drain_limited)
      then show ?thesis by (simp add: eq Let_def)
    qed
  qed (simp add: rl_release_def)
  with 1 show ?thesis by simp
qed

definition paused_trace :: "rl_event list" where
  "paused_trace = [RlAcquire 0 ''m'' 2 None, RlAcquire 0 ''m'' 2 None, MarkRateLimited 1 ''m'' 100]"

lemma pause_holds_witness:
  "fst (rl_acquire 50 ''m'' 3 None (foldl rl_step empty_rl paused_trace)) \<noteq> Slot"
proof -
  have "gate_at (foldl rl_step empty_rl paused_trace) ''m''
      = Some \<lparr>mrunning = 2, mmax = 3, mqueue = [], rateLimitedUntil = Some 101\<rparr>" by code_simp
  moreover have "isRateLimited 50 \<lparr>mrunning = 2, mmax = 3, mqueue = [], rateLimitedUntil = Some 101\<rparr>"
    by code_simp
  ultimately show ?thesis
    using pause_holds [of paused_trace "''m''" _ 50 3 None] by blast
qed

text \<open>A cooldown does not outlive the request that set it: a lone request is answered by an error,
  marks the model rate-limited and gives its slot back, and the gate is deleted with its deadline,
  so the next request gets a slot at once, however long the cooldown is.\<close>

theorem release_forgets_cooldown:
  assumes "0 < mc"
  shows "fst (rl_acquire t3 k mc mq (foldl rl_step empty_rl
      [RlAcquire t0 k mc mq, MarkRateLimited t1 k cooldownMs, RlRelease t2 k])) = Slot"
  using assms
  by (simp add: empty_rl_def rl_acquire_def getGate_def isRateLimited_def markRateLimited_def
      rl_release_def Let_def)

lemma release_forgets_cooldown_witness:
  "fst (rl_acquire 3 ''m'' 1 None (foldl rl_step empty_rl
     [RlAcquire 0 ''m'' 1 None, MarkRateLimited 1 ''m'' 60000, RlRelease 2 ''m''])) = Slot"
  using release_forgets_cooldown [of 1 3 "''m''"] by simp

text \<open>Marking a model rate-limited raises its concurrency to the default 3: with every request
  asking for a concurrency of 1 and two of them queued behind the first, the drain that ends the
  cooldown gives slots to both, and three requests run at once.\<close>

theorem mark_raises_limit:
  assumes "0 < t + cooldownMs" and "t + cooldownMs \<le> now"
  shows "slots (foldl rl_step empty_rl [RlAcquire t k 1 None, RlAcquire t k 1 None,
      RlAcquire t k 1 None, MarkRateLimited t k cooldownMs, Cooldown_timer now 0 k]) k = 3"
  using assms
  by (simp add: empty_rl_def rl_acquire_def getGate_def isRateLimited_def markRateLimited_def
      cooldown_timer_def drainQueue_def slots_def Let_def)

lemma mark_raises_limit_witness:
  "slots (foldl rl_step empty_rl [RlAcquire 0 ''m'' 1 None, RlAcquire 0 ''m'' 1 None,
     RlAcquire 0 ''m'' 1 None, MarkRateLimited 0 ''m'' 10, Cooldown_timer 60 0 ''m'']) ''m'' = 3"
  using mark_raises_limit [of 0 10 60 "''m''"] by simp

end
