(* ===== verification/AdmissionConfig.thy ===== *)
theory AdmissionConfig
  imports Prelude
begin

text \<open>
  The configuration and the cost estimate of the adaptive admission controller:
  \<open>src/open-sse/services/admission/types.ts\<close>, \<open>config.ts\<close> and \<open>cost.ts\<close>.

  \<^item> The validators take values of unknown type (\<open>jsval\<close> of the prelude); every bound the code tests
    (\<open>isSafeInteger\<close>, \<open>MAX_SAFE_INTEGER\<close>) is part of the model.
  \<^item> A thrown \<open>RangeError\<close> is \<open>Inl\<close> with the message it is thrown with.
\<close>

section \<open>Values\<close>

datatype range_error =
    Must_be_positive_safe_integer string
  | Must_be_le string int
  | Must_be_in_unit_interval string
  | Must_be_in_open_unit_interval string
  | Bad_mode
  | Bad_order string

type_synonym 'a checked = "range_error + 'a"

definition bind_checked :: "'a checked \<Rightarrow> ('a \<Rightarrow> 'b checked) \<Rightarrow> 'b checked" where
  "bind_checked r f = (case r of Inl e \<Rightarrow> Inl e | Inr x \<Rightarrow> f x)"

lemma bind_checked_simps [simp]: "bind_checked (Inl e) f = Inl e" "bind_checked (Inr x) f = f x"
  by (simp_all add: bind_checked_def)

lemma bind_checked_Inr: "bind_checked r f = Inr y \<longleftrightarrow> (\<exists>x. r = Inr x \<and> f x = Inr y)"
  by (cases r) auto

definition throw_if :: "bool \<Rightarrow> range_error \<Rightarrow> unit checked" where
  "throw_if b e = (if b then Inl e else Inr ())"

lemma throw_if_Inr [simp]: "throw_if b e = Inr x \<longleftrightarrow> \<not> b"
  by (simp add: throw_if_def)

definition MAX_ADMISSION_WINDOW_MS :: int where
  "MAX_ADMISSION_WINDOW_MS = 86400000"

definition MAX_ADMISSION_COST_OR_LIMIT :: int where
  "MAX_ADMISSION_COST_OR_LIMIT = MAX_SAFE_INTEGER div MAX_ADMISSION_WINDOW_MS"

definition safe_integer :: "rat \<Rightarrow> bool" where
  "safe_integer r \<longleftrightarrow> r = of_int \<lfloor>r\<rfloor> \<and> \<bar>\<lfloor>r\<rfloor>\<bar> \<le> MAX_SAFE_INTEGER"

datatype admission_mode = Off | Shadow | Enforce

datatype pressure = Normal | High | Critical

datatype release_outcome = Success | Upstream_error | Timeout_outcome | Local_reject | Cancelled

datatype reject_code =
  Oversized | Queue_full | Deadline | Aborted_code | Lane_evicted | Shutdown_code | Unavailable

text \<open>The severity order of the pressures, \<open>normal < high < critical\<close>.\<close>

fun severity :: "pressure \<Rightarrow> nat" where
  "severity Normal = 0" | "severity High = 1" | "severity Critical = 2"

instantiation pressure :: linorder
begin

definition "less_eq_pressure p q = (severity p \<le> severity q)"

definition "less_pressure p q = (severity p < severity q)"

instance
proof
  fix p q r :: pressure
  show "p \<le> p" "(p < q) = (p \<le> q \<and> \<not> q \<le> p)" "p \<le> q \<or> q \<le> p"
    by (auto simp: less_eq_pressure_def less_pressure_def)
  show "p \<le> q \<Longrightarrow> q \<le> r \<Longrightarrow> p \<le> r"
    by (simp add: less_eq_pressure_def)
  show "p \<le> q \<Longrightarrow> q \<le> p \<Longrightarrow> p = q"
    by (cases p; cases q) (simp_all add: less_eq_pressure_def)
qed

end

section \<open>Validators\<close>

text \<open>\<open>requirePositiveInt\<close> of the configuration and \<open>requirePositiveSafeInteger\<close> of the costs.\<close>

definition requirePositiveInt :: "string \<Rightarrow> jsval \<Rightarrow> int \<Rightarrow> int checked" where
  "requirePositiveInt name v mx =
     (case v of
        Num r \<Rightarrow> if r \<le> 0 \<or> \<not> safe_integer r then Inl (Must_be_positive_safe_integer name)
                 else if r > of_int mx then Inl (Must_be_le name mx)
                 else Inr \<lfloor>r\<rfloor>
      | _ \<Rightarrow> Inl (Must_be_positive_safe_integer name))"

definition requirePositiveSafeInteger :: "string \<Rightarrow> jsval \<Rightarrow> int \<Rightarrow> int checked" where
  "requirePositiveSafeInteger name v mx =
     (case v of
        Num r \<Rightarrow> if \<not> safe_integer r \<or> r \<le> 0 then Inl (Must_be_positive_safe_integer name)
                 else if r > of_int mx then Inl (Must_be_le name mx)
                 else Inr \<lfloor>r\<rfloor>
      | _ \<Rightarrow> Inl (Must_be_positive_safe_integer name))"

definition requireUnitInterval :: "string \<Rightarrow> jsval \<Rightarrow> rat \<Rightarrow> rat checked" where
  "requireUnitInterval name v fallback =
     (case v of
        Undefined \<Rightarrow> Inr fallback
      | Num r \<Rightarrow> if r \<le> 0 \<or> r > 1 then Inl (Must_be_in_unit_interval name) else Inr r
      | _ \<Rightarrow> Inl (Must_be_in_unit_interval name))"

definition requireDecreaseFactor :: "string \<Rightarrow> jsval \<Rightarrow> rat \<Rightarrow> rat checked" where
  "requireDecreaseFactor name v fallback =
     (case v of
        Undefined \<Rightarrow> Inr fallback
      | Num r \<Rightarrow> if r \<le> 0 \<or> r \<ge> 1 then Inl (Must_be_in_open_unit_interval name) else Inr r
      | _ \<Rightarrow> Inl (Must_be_in_open_unit_interval name))"

definition optional_int :: "string \<Rightarrow> jsval \<Rightarrow> int \<Rightarrow> int \<Rightarrow> int checked" where
  "optional_int name v fallback mx =
     (if v = Undefined then Inr fallback else requirePositiveInt name v mx)"

datatype mode_arg = No_mode | Mode admission_mode | Other_mode

definition resolveMode :: "mode_arg \<Rightarrow> admission_mode checked" where
  "resolveMode m = (case m of No_mode \<Rightarrow> Inr Shadow | Mode x \<Rightarrow> Inr x | Other_mode \<Rightarrow> Inl Bad_mode)"

section \<open>Costs\<close>

record cost_config =
  baseCost :: int
  bodyBytesPerUnit :: int
  tokensPerUnit :: int
  messagesPerUnit :: int
  toolsPerUnit :: int
  fanoutPerUnit :: int
  streamingClassCost :: int
  nonStreamingClassCost :: int
  maxRequestCost :: int

text \<open>The caller's partial configuration: a value, or not, for each key.\<close>

record cost_input =
  i_baseCost :: jsval
  i_bodyBytesPerUnit :: jsval
  i_tokensPerUnit :: jsval
  i_messagesPerUnit :: jsval
  i_toolsPerUnit :: jsval
  i_fanoutPerUnit :: jsval
  i_streamingClassCost :: jsval
  i_nonStreamingClassCost :: jsval
  i_maxRequestCost :: jsval

definition DEFAULT_ADMISSION_COST_CONFIG :: cost_config where
  "DEFAULT_ADMISSION_COST_CONFIG = \<lparr>baseCost = 1, bodyBytesPerUnit = 16384, tokensPerUnit = 1024,
     messagesPerUnit = 32, toolsPerUnit = 8, fanoutPerUnit = 1, streamingClassCost = 1,
     nonStreamingClassCost = 2, maxRequestCost = 1000\<rparr>"

definition finiteNonNegative :: "jsval \<Rightarrow> rat" where
  "finiteNonNegative v = (case v of
     Num r \<Rightarrow> if r < 0 then 0 else min r (of_int MAX_SAFE_INTEGER) | _ \<Rightarrow> 0)"

definition cost_key :: "string \<Rightarrow> jsval \<Rightarrow> int \<Rightarrow> int checked" where
  "cost_key name v d =
     requirePositiveSafeInteger name (if v = Undefined then Num (of_int d) else v)
       MAX_ADMISSION_COST_OR_LIMIT"

definition resolveCostConfig :: "cost_input \<Rightarrow> cost_config checked" where
  "resolveCostConfig p =
     (let d = DEFAULT_ADMISSION_COST_CONFIG in
      bind_checked (cost_key ''baseCost'' (i_baseCost p) (baseCost d)) (\<lambda>a.
      bind_checked (cost_key ''bodyBytesPerUnit'' (i_bodyBytesPerUnit p) (bodyBytesPerUnit d)) (\<lambda>b.
      bind_checked (cost_key ''tokensPerUnit'' (i_tokensPerUnit p) (tokensPerUnit d)) (\<lambda>c.
      bind_checked (cost_key ''messagesPerUnit'' (i_messagesPerUnit p) (messagesPerUnit d)) (\<lambda>m.
      bind_checked (cost_key ''toolsPerUnit'' (i_toolsPerUnit p) (toolsPerUnit d)) (\<lambda>t.
      bind_checked (cost_key ''fanoutPerUnit'' (i_fanoutPerUnit p) (fanoutPerUnit d)) (\<lambda>f.
      bind_checked (cost_key ''streamingClassCost'' (i_streamingClassCost p)
                      (streamingClassCost d)) (\<lambda>s.
      bind_checked (cost_key ''nonStreamingClassCost'' (i_nonStreamingClassCost p)
                      (nonStreamingClassCost d)) (\<lambda>n.
      bind_checked (cost_key ''maxRequestCost'' (i_maxRequestCost p) (maxRequestCost d)) (\<lambda>x.
        Inr \<lparr>baseCost = a, bodyBytesPerUnit = b, tokensPerUnit = c, messagesPerUnit = m,
             toolsPerUnit = t, fanoutPerUnit = f, streamingClassCost = s,
             nonStreamingClassCost = n, maxRequestCost = x\<rparr>))))))))))"

definition unitsFrom :: "rat \<Rightarrow> int \<Rightarrow> int" where
  "unitsFrom amount quantum = (if amount \<le> 0 then 0 else \<lceil>amount / of_int quantum\<rceil>)"

definition addBounded :: "int \<Rightarrow> int \<Rightarrow> int \<Rightarrow> int" where
  "addBounded tot contribution maximum =
     (if contribution \<ge> maximum - tot then maximum else tot + contribution)"

record cost_features =
  bodyBytes :: jsval
  estimatedInputTokens :: jsval
  messageCount :: jsval
  toolCount :: jsval
  requestedFanout :: jsval
  streaming :: "bool option"

definition contributions :: "cost_config \<Rightarrow> cost_features \<Rightarrow> int list" where
  "contributions cfg f =
     [unitsFrom (finiteNonNegative (bodyBytes f)) (bodyBytesPerUnit cfg),
      unitsFrom (finiteNonNegative (estimatedInputTokens f)) (tokensPerUnit cfg),
      unitsFrom (finiteNonNegative (messageCount f)) (messagesPerUnit cfg),
      unitsFrom (finiteNonNegative (toolCount f)) (toolsPerUnit cfg),
      unitsFrom (max 1 (finiteNonNegative (requestedFanout f))) (fanoutPerUnit cfg),
      if streaming f \<noteq> Some False then streamingClassCost cfg else nonStreamingClassCost cfg]"

text \<open>The summing loop, left as soon as the maximum is reached.\<close>

fun sum_bounded :: "int \<Rightarrow> int \<Rightarrow> int list \<Rightarrow> int" where
  "sum_bounded maximum tot [] = tot"
| "sum_bounded maximum tot (c # cs) =
     (let t = addBounded tot c maximum in if t = maximum then t else sum_bounded maximum t cs)"

definition estimate_with :: "cost_config \<Rightarrow> cost_features \<Rightarrow> int" where
  "estimate_with cfg f =
     sum_bounded (maxRequestCost cfg) (min (baseCost cfg) (maxRequestCost cfg)) (contributions cfg f)"

definition estimateAdmissionCost :: "cost_features \<Rightarrow> cost_input \<Rightarrow> int checked" where
  "estimateAdmissionCost f p = bind_checked (resolveCostConfig p) (\<lambda>cfg. Inr (estimate_with cfg f))"

definition normalizeRequestCost :: "jsval \<Rightarrow> int \<Rightarrow> int checked" where
  "normalizeRequestCost cost limit =
     bind_checked (requirePositiveSafeInteger ''maxRequestCost'' (Num (of_int limit))
                     MAX_ADMISSION_COST_OR_LIMIT) (\<lambda>mx.
     bind_checked (requirePositiveSafeInteger ''request cost'' cost MAX_ADMISSION_COST_OR_LIMIT) (\<lambda>v.
       Inr (min v mx)))"

section \<open>The validated configuration\<close>

record adaptation_params =
  p_minLimit :: int
  p_maxLimit :: int
  p_windowMs :: int
  shortLatencyAlpha :: rat
  longLatencyAlpha :: rat
  increaseStep :: int
  decreaseFactor :: rat
  criticalDecreaseFactor :: rat
  highUtilizationThreshold :: rat
  lowUtilizationThreshold :: rat
  latencyGradientThreshold :: rat
  maxIncreasePerWindow :: int

record admission_input =
  in_mode :: mode_arg
  in_minLimit :: jsval
  in_maxLimit :: jsval
  in_initialLimit :: jsval
  in_maxQueueCount :: jsval
  in_maxQueueCost :: jsval
  in_defaultMaxWaitMs :: jsval
  in_windowMs :: jsval
  in_shortLatencyAlpha :: jsval
  in_longLatencyAlpha :: jsval
  in_increaseStep :: jsval
  in_decreaseFactor :: jsval
  in_criticalDecreaseFactor :: jsval
  in_highUtilizationThreshold :: jsval
  in_lowUtilizationThreshold :: jsval
  in_latencyGradientThreshold :: jsval
  in_maxIncreasePerWindow :: jsval
  in_cost :: cost_input
  in_virtualLanes :: bool

record valid_config =
  mode :: admission_mode
  minLimit :: int
  maxLimit :: int
  initialLimit :: int
  maxQueueCount :: int
  maxQueueCost :: int
  defaultMaxWaitMs :: int
  windowMs :: int
  c_maxRequestCost :: int
  costConfig :: cost_config
  virtualLanes_on :: bool
  adaptation_cfg :: adaptation_params

definition resolveAdaptationParams ::
  "admission_input \<Rightarrow> int \<Rightarrow> int \<Rightarrow> int \<Rightarrow> adaptation_params checked" where
  "resolveAdaptationParams i minL maxL win =
     bind_checked (requireDecreaseFactor ''decreaseFactor'' (in_decreaseFactor i) (4/5)) (\<lambda>df.
     bind_checked (requireDecreaseFactor ''criticalDecreaseFactor''
                     (in_criticalDecreaseFactor i) (1/2)) (\<lambda>cdf.
     bind_checked (optional_int ''increaseStep'' (in_increaseStep i) 1
                     MAX_ADMISSION_COST_OR_LIMIT) (\<lambda>step.
     bind_checked (optional_int ''maxIncreasePerWindow'' (in_maxIncreasePerWindow i) step
                     MAX_ADMISSION_COST_OR_LIMIT) (\<lambda>maxInc.
     bind_checked (requireUnitInterval ''shortLatencyAlpha'' (in_shortLatencyAlpha i) (1/2)) (\<lambda>sa.
     bind_checked (requireUnitInterval ''longLatencyAlpha'' (in_longLatencyAlpha i) (1/10)) (\<lambda>la.
     bind_checked (requireUnitInterval ''highUtilizationThreshold''
                     (in_highUtilizationThreshold i) (7/10)) (\<lambda>hi.
     bind_checked (requireUnitInterval ''lowUtilizationThreshold''
                     (in_lowUtilizationThreshold i) (3/10)) (\<lambda>lo.
     bind_checked (throw_if (cdf > df) (Bad_order ''criticalDecreaseFactor'')) (\<lambda>_.
     bind_checked (throw_if (lo \<ge> hi) (Bad_order ''lowUtilizationThreshold'')) (\<lambda>_.
     bind_checked (throw_if (sa \<le> la) (Bad_order ''shortLatencyAlpha'')) (\<lambda>_.
     bind_checked (requireUnitInterval ''latencyGradientThreshold''
                     (in_latencyGradientThreshold i) (1/4)) (\<lambda>grad.
       Inr \<lparr>p_minLimit = minL, p_maxLimit = maxL, p_windowMs = win, shortLatencyAlpha = sa,
            longLatencyAlpha = la, increaseStep = step, decreaseFactor = df,
            criticalDecreaseFactor = cdf, highUtilizationThreshold = hi,
            lowUtilizationThreshold = lo, latencyGradientThreshold = grad,
            maxIncreasePerWindow = maxInc\<rparr>))))))))))))"

definition validateConfig :: "admission_input \<Rightarrow> valid_config checked" where
  "validateConfig i =
     (let M = MAX_ADMISSION_COST_OR_LIMIT; W = MAX_ADMISSION_WINDOW_MS in
      bind_checked (requirePositiveInt ''minLimit'' (in_minLimit i) M) (\<lambda>minL.
      bind_checked (requirePositiveInt ''maxLimit'' (in_maxLimit i) M) (\<lambda>maxL.
      bind_checked (throw_if (minL > maxL) (Bad_order ''minLimit'')) (\<lambda>_.
      bind_checked (requirePositiveInt ''initialLimit'' (in_initialLimit i) M) (\<lambda>initL.
      bind_checked (requirePositiveInt ''maxQueueCount'' (in_maxQueueCount i)
                      MAX_SAFE_INTEGER) (\<lambda>qn.
      bind_checked (requirePositiveInt ''maxQueueCost'' (in_maxQueueCost i) M) (\<lambda>qc.
      bind_checked (optional_int ''windowMs'' (in_windowMs i) 1000 W) (\<lambda>win.
      bind_checked (optional_int ''defaultMaxWaitMs'' (in_defaultMaxWaitMs i) 5000 W) (\<lambda>wait.
      bind_checked (resolveCostConfig (in_cost i)) (\<lambda>cc.
      bind_checked (resolveMode (in_mode i)) (\<lambda>m.
      bind_checked (resolveAdaptationParams i minL maxL win) (\<lambda>ap.
        Inr \<lparr>mode = m, minLimit = minL, maxLimit = maxL, initialLimit = initL, maxQueueCount = qn,
             maxQueueCost = qc, defaultMaxWaitMs = wait, windowMs = win,
             c_maxRequestCost = maxRequestCost cc, costConfig = cc,
             virtualLanes_on = in_virtualLanes i, adaptation_cfg = ap\<rparr>))))))))))))"

section \<open>What validation guarantees\<close>

lemma MAX_ADMISSION_COST_OR_LIMIT_val: "MAX_ADMISSION_COST_OR_LIMIT = 104249991"
  by (simp add: MAX_ADMISSION_COST_OR_LIMIT_def MAX_SAFE_INTEGER_def MAX_ADMISSION_WINDOW_MS_def)

lemma safe_integer_of_int [simp]: "safe_integer (of_int n) \<longleftrightarrow> \<bar>n\<bar> \<le> MAX_SAFE_INTEGER"
  by (simp add: safe_integer_def)

lemma requirePositive_same: "requirePositiveSafeInteger = requirePositiveInt"
  by (auto simp: requirePositiveSafeInteger_def requirePositiveInt_def fun_eq_iff split: jsval.splits)

lemma requirePositiveInt_Inr:
  "requirePositiveInt name v mx = Inr n \<longleftrightarrow> v = Num (of_int n) \<and> 0 < n \<and> n \<le> mx \<and> n \<le> MAX_SAFE_INTEGER"
  (is "?l = ?r")
proof
  assume ?l
  then obtain r where r: "v = Num r" "\<not> r \<le> 0" "safe_integer r" "\<not> r > of_int mx" "n = \<lfloor>r\<rfloor>"
    by (auto simp: requirePositiveInt_def split: jsval.splits if_splits)
  then have n: "r = of_int n" and "\<bar>n\<bar> \<le> MAX_SAFE_INTEGER" by (auto simp: safe_integer_def)
  then show ?r using r(1,2,4) by (simp add: n)
qed (auto simp: requirePositiveInt_def)

definition in_range :: "int \<Rightarrow> bool" where
  "in_range n \<longleftrightarrow> 0 < n \<and> n \<le> MAX_ADMISSION_COST_OR_LIMIT"

definition cost_config_ok :: "cost_config \<Rightarrow> bool" where
  "cost_config_ok c \<longleftrightarrow> in_range (baseCost c) \<and> in_range (bodyBytesPerUnit c) \<and> in_range (tokensPerUnit c)
     \<and> in_range (messagesPerUnit c) \<and> in_range (toolsPerUnit c) \<and> in_range (fanoutPerUnit c)
     \<and> in_range (streamingClassCost c) \<and> in_range (nonStreamingClassCost c)
     \<and> in_range (maxRequestCost c)"

lemma cost_key_Inr: "cost_key name v d = Inr n \<Longrightarrow> in_range n"
  by (auto simp: cost_key_def requirePositive_same requirePositiveInt_Inr in_range_def)

lemma resolveCostConfig_ok: "resolveCostConfig p = Inr c \<Longrightarrow> cost_config_ok c"
  by (auto simp: resolveCostConfig_def bind_checked_Inr cost_config_ok_def dest: cost_key_Inr)

text \<open>A validated configuration given back as input, as the controller does for each estimate.\<close>

definition as_input :: "cost_config \<Rightarrow> cost_input" where
  "as_input c = \<lparr>i_baseCost = Num (of_int (baseCost c)),
     i_bodyBytesPerUnit = Num (of_int (bodyBytesPerUnit c)),
     i_tokensPerUnit = Num (of_int (tokensPerUnit c)),
     i_messagesPerUnit = Num (of_int (messagesPerUnit c)),
     i_toolsPerUnit = Num (of_int (toolsPerUnit c)), i_fanoutPerUnit = Num (of_int (fanoutPerUnit c)),
     i_streamingClassCost = Num (of_int (streamingClassCost c)),
     i_nonStreamingClassCost = Num (of_int (nonStreamingClassCost c)),
     i_maxRequestCost = Num (of_int (maxRequestCost c))\<rparr>"

lemma cost_key_again: "in_range n \<Longrightarrow> cost_key name (Num (of_int n)) d = Inr n"
  by (simp add: cost_key_def requirePositive_same requirePositiveInt_Inr in_range_def
      MAX_ADMISSION_COST_OR_LIMIT_val MAX_SAFE_INTEGER_def)

lemma resolveCostConfig_again: "cost_config_ok c \<Longrightarrow> resolveCostConfig (as_input c) = Inr c"
  by (simp add: resolveCostConfig_def as_input_def cost_key_again cost_config_ok_def)

definition adaptation_ok :: "adaptation_params \<Rightarrow> bool" where
  "adaptation_ok p \<longleftrightarrow> 0 < p_minLimit p \<and> p_minLimit p \<le> p_maxLimit p
     \<and> p_maxLimit p \<le> MAX_ADMISSION_COST_OR_LIMIT
     \<and> 0 < p_windowMs p \<and> p_windowMs p \<le> MAX_ADMISSION_WINDOW_MS
     \<and> 0 < longLatencyAlpha p \<and> longLatencyAlpha p < shortLatencyAlpha p \<and> shortLatencyAlpha p \<le> 1
     \<and> in_range (increaseStep p) \<and> in_range (maxIncreasePerWindow p)
     \<and> 0 < criticalDecreaseFactor p \<and> criticalDecreaseFactor p \<le> decreaseFactor p
     \<and> decreaseFactor p < 1
     \<and> 0 < lowUtilizationThreshold p \<and> lowUtilizationThreshold p < highUtilizationThreshold p
     \<and> highUtilizationThreshold p \<le> 1 \<and> 0 < latencyGradientThreshold p"

definition config_ok :: "valid_config \<Rightarrow> bool" where
  "config_ok c \<longleftrightarrow> in_range (minLimit c) \<and> in_range (maxLimit c) \<and> minLimit c \<le> maxLimit c
     \<and> in_range (initialLimit c) \<and> 0 < maxQueueCount c \<and> in_range (maxQueueCost c)
     \<and> 0 < defaultMaxWaitMs c \<and> defaultMaxWaitMs c \<le> MAX_ADMISSION_WINDOW_MS
     \<and> 0 < windowMs c \<and> windowMs c \<le> MAX_ADMISSION_WINDOW_MS
     \<and> cost_config_ok (costConfig c) \<and> c_maxRequestCost c = maxRequestCost (costConfig c)
     \<and> adaptation_ok (adaptation_cfg c)
     \<and> p_minLimit (adaptation_cfg c) = minLimit c \<and> p_maxLimit (adaptation_cfg c) = maxLimit c"

lemma requireUnitInterval_Inr: "requireUnitInterval name v d = Inr r \<Longrightarrow> 0 < d \<Longrightarrow> d \<le> 1 \<Longrightarrow> 0 < r \<and> r \<le> 1"
  by (auto simp: requireUnitInterval_def split: jsval.splits if_splits)

lemma requireDecreaseFactor_Inr: "requireDecreaseFactor name v d = Inr r \<Longrightarrow> 0 < d \<Longrightarrow> d < 1 \<Longrightarrow> 0 < r \<and> r < 1"
  by (auto simp: requireDecreaseFactor_def split: jsval.splits if_splits)

lemma optional_int_Inr: "optional_int name v d mx = Inr n \<Longrightarrow> 0 < d \<Longrightarrow> d \<le> mx \<Longrightarrow> 0 < n \<and> n \<le> mx"
  by (auto simp: optional_int_def requirePositiveInt_Inr split: if_splits)

lemma resolveAdaptationParams_ok:
  assumes "resolveAdaptationParams i minL maxL win = Inr p"
    and "0 < minL" and "minL \<le> maxL" and "maxL \<le> MAX_ADMISSION_COST_OR_LIMIT"
    and "0 < win" and "win \<le> MAX_ADMISSION_WINDOW_MS"
  shows "adaptation_ok p \<and> p_minLimit p = minL \<and> p_maxLimit p = maxL"
proof -
  obtain df cdf step maxInc sa la hi lo grad where
    c: "requireDecreaseFactor ''decreaseFactor'' (in_decreaseFactor i) (4/5) = Inr df"
      "requireDecreaseFactor ''criticalDecreaseFactor'' (in_criticalDecreaseFactor i) (1/2) = Inr cdf"
      "requireUnitInterval ''shortLatencyAlpha'' (in_shortLatencyAlpha i) (1/2) = Inr sa"
      "requireUnitInterval ''longLatencyAlpha'' (in_longLatencyAlpha i) (1/10) = Inr la"
      "requireUnitInterval ''highUtilizationThreshold'' (in_highUtilizationThreshold i) (7/10) = Inr hi"
      "requireUnitInterval ''lowUtilizationThreshold'' (in_lowUtilizationThreshold i) (3/10) = Inr lo"
      "requireUnitInterval ''latencyGradientThreshold'' (in_latencyGradientThreshold i) (1/4) = Inr grad"
    and st: "optional_int ''increaseStep'' (in_increaseStep i) 1 MAX_ADMISSION_COST_OR_LIMIT = Inr step"
    and mi: "optional_int ''maxIncreasePerWindow'' (in_maxIncreasePerWindow i) step
      MAX_ADMISSION_COST_OR_LIMIT = Inr maxInc"
    and ord: "\<not> df < cdf" "\<not> hi \<le> lo" "\<not> sa \<le> la"
    and p: "p = \<lparr>p_minLimit = minL, p_maxLimit = maxL, p_windowMs = win, shortLatencyAlpha = sa,
            longLatencyAlpha = la, increaseStep = step, decreaseFactor = df,
            criticalDecreaseFactor = cdf, highUtilizationThreshold = hi,
            lowUtilizationThreshold = lo, latencyGradientThreshold = grad,
            maxIncreasePerWindow = maxInc\<rparr>"
    using assms(1) by (auto simp: resolveAdaptationParams_def bind_checked_Inr)
  have "in_range step" using optional_int_Inr [OF st] by (simp add: in_range_def MAX_ADMISSION_COST_OR_LIMIT_val)
  moreover from this have "in_range maxInc" using optional_int_Inr [OF mi] by (simp add: in_range_def)
  moreover have "0 < df \<and> df < 1" "0 < cdf \<and> cdf < 1" "0 < sa \<and> sa \<le> 1" "0 < la \<and> la \<le> 1"
    "0 < hi \<and> hi \<le> 1" "0 < lo \<and> lo \<le> 1" "0 < grad \<and> grad \<le> 1"
    using c requireDecreaseFactor_Inr requireUnitInterval_Inr by fastforce+
  ultimately show ?thesis using ord assms(2-) by (simp add: p adaptation_ok_def)
qed

lemma validateConfig_ok: assumes "validateConfig i = Inr c" shows "config_ok c"
proof -
  have "cost_config_ok (costConfig c)" and "c_maxRequestCost c = maxRequestCost (costConfig c)"
    using assms by (auto simp: validateConfig_def bind_checked_Inr resolveCostConfig_ok)
  moreover have "in_range (minLimit c)" "in_range (maxLimit c)" "minLimit c \<le> maxLimit c"
      "in_range (initialLimit c)" "0 < maxQueueCount c" "in_range (maxQueueCost c)"
    using assms by (auto simp: validateConfig_def bind_checked_Inr requirePositiveInt_Inr in_range_def)
  moreover have "0 < defaultMaxWaitMs c \<and> defaultMaxWaitMs c \<le> MAX_ADMISSION_WINDOW_MS"
      "0 < windowMs c \<and> windowMs c \<le> MAX_ADMISSION_WINDOW_MS"
    using assms by (auto simp: validateConfig_def bind_checked_Inr MAX_ADMISSION_WINDOW_MS_def
        dest!: optional_int_Inr)
  moreover have "resolveAdaptationParams i (minLimit c) (maxLimit c) (windowMs c) = Inr (adaptation_cfg c)"
    using assms by (auto simp: validateConfig_def bind_checked_Inr)
  ultimately show ?thesis
    using resolveAdaptationParams_ok by (simp add: config_ok_def in_range_def)
qed

section \<open>The cost estimate\<close>

text \<open>The reference: the sum of all contributions, capped.\<close>

lemma sum_bounded_min:
  "tot \<le> mx \<Longrightarrow> list_all (\<lambda>c. 0 \<le> c) cs \<Longrightarrow> sum_bounded mx tot cs = min mx (tot + sum_list cs)"
proof (induction mx tot cs rule: sum_bounded.induct)
  case (2 mx tot c cs)
  have "0 \<le> sum_list cs" using 2(3) by (auto simp: list_all_iff intro: sum_list_nonneg)
  then show ?case using 2 by (auto simp: addBounded_def Let_def min_def)
qed simp

lemma unitsFrom_nonneg: "0 < q \<Longrightarrow> 0 \<le> unitsFrom a q"
proof -
  assume "0 < q"
  then have "0 \<le> a / of_int q" if "0 \<le> a" using that by simp
  then have "- 1 < a / of_int q" if "0 \<le> a" using that by linarith
  then show ?thesis by (simp add: unitsFrom_def)
qed

lemma unitsFrom_mono: "0 < q \<Longrightarrow> a \<le> b \<Longrightarrow> unitsFrom a q \<le> unitsFrom b q"
  using unitsFrom_nonneg [of q b] divide_right_mono [of a b "of_int q"]
  by (auto simp: unitsFrom_def intro: ceiling_mono)

lemma unitsFrom_pos: "0 < q \<Longrightarrow> 0 < a \<Longrightarrow> 0 < unitsFrom a q"
  by (simp add: unitsFrom_def)

lemma contributions_nonneg: "cost_config_ok cfg \<Longrightarrow> list_all (\<lambda>c. 0 \<le> c) (contributions cfg f)"
  by (simp add: contributions_def cost_config_ok_def in_range_def unitsFrom_nonneg)

lemma estimate_with_min: "cost_config_ok cfg \<Longrightarrow>
    estimate_with cfg f = min (maxRequestCost cfg)
      (min (baseCost cfg) (maxRequestCost cfg) + sum_list (contributions cfg f))"
  by (simp add: estimate_with_def sum_bounded_min contributions_nonneg)

text \<open>One request is at least as big as another in every feature the estimate reads.\<close>

definition features_le :: "cost_features \<Rightarrow> cost_features \<Rightarrow> bool" where
  "features_le f g \<longleftrightarrow> finiteNonNegative (bodyBytes f) \<le> finiteNonNegative (bodyBytes g)
     \<and> finiteNonNegative (estimatedInputTokens f) \<le> finiteNonNegative (estimatedInputTokens g)
     \<and> finiteNonNegative (messageCount f) \<le> finiteNonNegative (messageCount g)
     \<and> finiteNonNegative (toolCount f) \<le> finiteNonNegative (toolCount g)
     \<and> finiteNonNegative (requestedFanout f) \<le> finiteNonNegative (requestedFanout g)
     \<and> (streaming f \<noteq> Some False \<longleftrightarrow> streaming g \<noteq> Some False)"

lemma contributions_mono: "cost_config_ok cfg \<Longrightarrow> features_le f g \<Longrightarrow>
    sum_list (contributions cfg f) \<le> sum_list (contributions cfg g)"
  unfolding contributions_def features_le_def cost_config_ok_def in_range_def
  by (simp, intro add_mono unitsFrom_mono max.mono) simp_all

lemma cost_estimate_bounds: "resolveCostConfig p = Inr cfg \<Longrightarrow> 0 < estimate_with cfg f"
proof -
  assume "resolveCostConfig p = Inr cfg"
  then have ok: "cost_config_ok cfg" by (rule resolveCostConfig_ok)
  have "0 \<le> sum_list (contributions cfg f)"
    using contributions_nonneg [OF ok] by (auto simp: list_all_iff intro: sum_list_nonneg)
  then show ?thesis
    using ok by (auto simp: estimate_with_min cost_config_ok_def in_range_def min_def)
qed

text \<open>C26. The cost estimate equals the capped sum of all contributions although its loop stops early;
  it lies between 1 and \<open>maxRequestCost\<close> whatever the features are, NaN and negative ones included;
  and a request that is bigger in every feature is never cheaper.\<close>

theorem cost_estimate_bounded_monotone:
  assumes "resolveCostConfig p = Inr cfg"
  shows "estimateAdmissionCost f p = Inr (min (maxRequestCost cfg)
       (min (baseCost cfg) (maxRequestCost cfg) + sum_list (contributions cfg f)))
    \<and> 1 \<le> estimate_with cfg f \<and> estimate_with cfg f \<le> maxRequestCost cfg
    \<and> (features_le f g \<longrightarrow> estimate_with cfg f \<le> estimate_with cfg g)"
proof -
  have ok: "cost_config_ok cfg" by (rule resolveCostConfig_ok [OF assms])
  have "0 \<le> sum_list (contributions cfg f)"
    using contributions_nonneg [OF ok] by (auto simp: list_all_iff intro: sum_list_nonneg)
  then show ?thesis
    using ok contributions_mono [OF ok, of f g] assms
    by (auto simp: estimateAdmissionCost_def estimate_with_min cost_config_ok_def in_range_def)
qed

definition no_cost_input :: cost_input where
  "no_cost_input = \<lparr>i_baseCost = Undefined, i_bodyBytesPerUnit = Undefined, i_tokensPerUnit = Undefined,
     i_messagesPerUnit = Undefined, i_toolsPerUnit = Undefined, i_fanoutPerUnit = Undefined,
     i_streamingClassCost = Undefined, i_nonStreamingClassCost = Undefined,
     i_maxRequestCost = Undefined\<rparr>"

definition big_features :: cost_features where
  "big_features = \<lparr>bodyBytes = Num 100000, estimatedInputTokens = Num 5000, messageCount = Not_finite,
     toolCount = Num (-3), requestedFanout = Undefined, streaming = None\<rparr>"

lemma resolve_default: "resolveCostConfig no_cost_input = Inr DEFAULT_ADMISSION_COST_CONFIG"
  by (simp add: resolveCostConfig_def no_cost_input_def cost_key_def requirePositive_same Let_def
      DEFAULT_ADMISSION_COST_CONFIG_def requirePositiveInt_def safe_integer_def MAX_SAFE_INTEGER_def
      MAX_ADMISSION_COST_OR_LIMIT_val)

lemma cost_estimate_witness: "1 \<le> estimate_with DEFAULT_ADMISSION_COST_CONFIG big_features
    \<and> estimate_with DEFAULT_ADMISSION_COST_CONFIG big_features \<le> 1000"
  using cost_estimate_bounded_monotone [OF resolve_default, of big_features big_features]
  by (simp add: DEFAULT_ADMISSION_COST_CONFIG_def)

end
