(* ===== verification/Adaptation.thy ===== *)
theory Adaptation
  imports AdmissionConfig
begin

text \<open>
  The feedback loop that moves the admission limit, \<open>src/open-sse/services/admission/adaptation.ts\<close>:
  latency averages and pressure are noted during a window, and closing the window raises or lowers the
  limit. Averages, factors and utilization are rationals (see \<^verbatim>\<open>AdmissionConfig\<close>), the limit and the
  cost-time integral are integers.
\<close>

section \<open>Data\<close>

record adaptation =
  currentLimit :: int
  recoveryCeiling :: int
  shortLatencyEwma :: rat
  longLatencyEwma :: rat
  a_pressure :: pressure
  windowActiveCostIntegral :: int
  windowCompleted :: int
  windowLatencySamples :: int
  windowStartMs :: time
  freezeGrowth :: bool
  criticalDecreaseConsumed :: bool
  utilization :: rat

section \<open>Operations\<close>

text \<open>\<open>clampLimit\<close> on a finite value; the limits it is given are integers already.\<close>

definition clampLimit :: "int \<Rightarrow> int \<Rightarrow> int \<Rightarrow> int" where
  "clampLimit v minL maxL = min maxL (max minL v)"

definition createAdaptationState :: "int \<Rightarrow> int \<Rightarrow> int \<Rightarrow> time \<Rightarrow> adaptation" where
  "createAdaptationState initL minL maxL now =
     \<lparr>currentLimit = clampLimit initL minL maxL, recoveryCeiling = clampLimit initL minL maxL,
      shortLatencyEwma = 0, longLatencyEwma = 0, a_pressure = Normal, windowActiveCostIntegral = 0,
      windowCompleted = 0, windowLatencySamples = 0, windowStartMs = now, freezeGrowth = False,
      criticalDecreaseConsumed = False, utilization = 0\<rparr>"

definition latency_sample :: "jsval \<Rightarrow> rat" where
  "latency_sample v = (case v of Num r \<Rightarrow> if r \<ge> 0 then r else 0 | _ \<Rightarrow> 0)"

definition noteLatency :: "jsval \<Rightarrow> adaptation_params \<Rightarrow> adaptation \<Rightarrow> adaptation" where
  "noteLatency latencyMs p st =
     (let sample = latency_sample latencyMs; sa = shortLatencyAlpha p; la = longLatencyAlpha p;
          st1 = st\<lparr>windowLatencySamples := windowLatencySamples st + 1\<rparr>
      in if shortLatencyEwma st \<le> 0 \<and> longLatencyEwma st \<le> 0
         then st1\<lparr>shortLatencyEwma := sample, longLatencyEwma := sample\<rparr>
         else st1\<lparr>shortLatencyEwma := sa * sample + (1 - sa) * shortLatencyEwma st,
                  longLatencyEwma := la * sample + (1 - la) * longLatencyEwma st\<rparr>)"

definition noteOutcome :: "release_outcome \<Rightarrow> adaptation \<Rightarrow> adaptation" where
  "noteOutcome oc st =
     (if oc = Upstream_error then st\<lparr>freezeGrowth := True\<rparr>
      else if oc = Timeout_outcome then st\<lparr>freezeGrowth := True\<rparr>
      else st)"

definition setPressure :: "pressure \<Rightarrow> adaptation \<Rightarrow> adaptation" where
  "setPressure p st = (if severity p > severity (a_pressure st) then st\<lparr>a_pressure := p\<rparr> else st)"

definition applyIdleRecovery :: "adaptation_params \<Rightarrow> adaptation \<Rightarrow> int \<Rightarrow> int" where
  "applyIdleRecovery p st nxt =
     (if a_pressure st \<noteq> Critical \<and> \<not> freezeGrowth st \<and> windowCompleted st = 0
         \<and> currentLimit st < recoveryCeiling st
      then min (recoveryCeiling st) (nxt + min (increaseStep p) (maxIncreasePerWindow p))
      else nxt)"

definition window_utilization :: "adaptation_params \<Rightarrow> time \<Rightarrow> adaptation \<Rightarrow> rat" where
  "window_utilization p now st =
     (let elapsed = max 1 (min (p_windowMs p) (now - windowStartMs st));
          avgActive = of_int (windowActiveCostIntegral st) / of_int elapsed;
          util = (if currentLimit st > 0 then avgActive / of_int (currentLimit st) else 0)
      in max 0 (min 1 util))"

definition latency_gradient :: "adaptation \<Rightarrow> rat" where
  "latency_gradient st =
     (if longLatencyEwma st > 0
      then (shortLatencyEwma st - longLatencyEwma st) / longLatencyEwma st else 0)"

text \<open>The branch that picks the next limit, with the utilization of the window already stored.\<close>

definition next_limit :: "adaptation_params \<Rightarrow> adaptation \<Rightarrow> int" where
  "next_limit p st =
     (if a_pressure st = Critical
      then if \<not> criticalDecreaseConsumed st
           then \<lfloor>of_int (currentLimit st) * criticalDecreaseFactor p\<rfloor> else currentLimit st
      else if a_pressure st = High
              \<or> (windowLatencySamples st > 0 \<and> latency_gradient st \<ge> latencyGradientThreshold p)
      then \<lfloor>of_int (currentLimit st) * decreaseFactor p\<rfloor>
      else if \<not> freezeGrowth st \<and> a_pressure st = Normal
              \<and> utilization st \<ge> highUtilizationThreshold p \<and> windowCompleted st > 0
      then currentLimit st + min (increaseStep p) (maxIncreasePerWindow p)
      else currentLimit st)"

definition closeAdaptationWindow :: "adaptation_params \<Rightarrow> time \<Rightarrow> adaptation \<Rightarrow> adaptation" where
  "closeAdaptationWindow p now st =
     (let st1 = st\<lparr>utilization := window_utilization p now st\<rparr>;
          nxt = next_limit p st1;
          low = utilization st1 \<le> lowUtilizationThreshold p;
          st2 = (if low then st1\<lparr>shortLatencyEwma := longLatencyEwma st1\<rparr> else st1);
          nxt2 = (if low then applyIdleRecovery p st2 nxt else nxt)
      in st2\<lparr>currentLimit := clampLimit nxt2 (p_minLimit p) (p_maxLimit p),
             windowActiveCostIntegral := 0, windowCompleted := 0, windowLatencySamples := 0,
             windowStartMs := now, freezeGrowth := False, criticalDecreaseConsumed := False,
             a_pressure := Normal\<rparr>)"

definition sampleActiveIntegral :: "int \<Rightarrow> int \<Rightarrow> adaptation \<Rightarrow> adaptation" where
  "sampleActiveIntegral activeCost dtMs st =
     (if dtMs \<le> 0 \<or> activeCost \<le> 0 then st
      else let b = min activeCost (currentLimit st);
               contribution = (if dtMs > MAX_SAFE_INTEGER div b then MAX_SAFE_INTEGER else b * dtMs)
           in st\<lparr>windowActiveCostIntegral :=
                (if contribution \<ge> MAX_SAFE_INTEGER - windowActiveCostIntegral st
                 then MAX_SAFE_INTEGER else windowActiveCostIntegral st + contribution)\<rparr>)"

text \<open>The immediate decrease of \<open>observePressure\<close> in \<open>controller.ts\<close>, once per window.\<close>

definition critical_decrease :: "int \<Rightarrow> adaptation_params \<Rightarrow> adaptation \<Rightarrow> adaptation" where
  "critical_decrease minL p st =
     st\<lparr>currentLimit := max minL \<lfloor>of_int (currentLimit st) * criticalDecreaseFactor p\<rfloor>,
        criticalDecreaseConsumed := True\<rparr>"

definition observe :: "int \<Rightarrow> adaptation_params \<Rightarrow> pressure \<Rightarrow> adaptation \<Rightarrow> adaptation" where
  "observe minL p pr st =
     (let st1 = setPressure pr st
      in if pr = Critical \<and> \<not> criticalDecreaseConsumed st1 then critical_decrease minL p st1 else st1)"

datatype adapt_event =
    Latency jsval
  | Outcome release_outcome
  | Completed
  | Pressure pressure
  | Sample int int
  | Close time

fun adapt_step :: "adaptation_params \<Rightarrow> adaptation \<Rightarrow> adapt_event \<Rightarrow> adaptation" where
  "adapt_step p st (Latency v) = noteLatency v p st"
| "adapt_step p st (Outcome oc) = noteOutcome oc st"
| "adapt_step p st Completed = st\<lparr>windowCompleted := windowCompleted st + 1\<rparr>"
| "adapt_step p st (Pressure pr) = observe (p_minLimit p) p pr st"
| "adapt_step p st (Sample a dt) = sampleActiveIntegral a dt st"
| "adapt_step p st (Close now) = closeAdaptationWindow p now st"

section \<open>Invariant\<close>

definition adapt_inv :: "adaptation_params \<Rightarrow> adaptation \<Rightarrow> bool" where
  "adapt_inv p st \<longleftrightarrow> adaptation_ok p
     \<and> p_minLimit p \<le> currentLimit st \<and> currentLimit st \<le> p_maxLimit p
     \<and> p_minLimit p \<le> recoveryCeiling st \<and> recoveryCeiling st \<le> p_maxLimit p
     \<and> 0 \<le> shortLatencyEwma st \<and> 0 \<le> longLatencyEwma st
     \<and> 0 \<le> windowActiveCostIntegral st \<and> windowActiveCostIntegral st \<le> MAX_SAFE_INTEGER
     \<and> 0 \<le> windowCompleted st \<and> 0 \<le> windowLatencySamples st
     \<and> 0 \<le> utilization st \<and> utilization st \<le> 1"

lemma clampLimit_bounds: "minL \<le> maxL \<Longrightarrow> minL \<le> clampLimit v minL maxL \<and> clampLimit v minL maxL \<le> maxL"
  by (simp add: clampLimit_def)

lemma clampLimit_id: "minL \<le> v \<Longrightarrow> v \<le> maxL \<Longrightarrow> clampLimit v minL maxL = v"
  by (simp add: clampLimit_def)

lemma createAdaptationState_inv:
  "adaptation_ok p \<Longrightarrow> adapt_inv p (createAdaptationState initL (p_minLimit p) (p_maxLimit p) now)"
  by (simp add: adapt_inv_def createAdaptationState_def clampLimit_bounds adaptation_ok_def
      MAX_SAFE_INTEGER_def)

lemma noteLatency_inv: "adapt_inv p st \<Longrightarrow> adapt_inv p (noteLatency v p st)"
proof -
  assume inv: "adapt_inv p st"
  have s: "0 \<le> latency_sample v" by (simp add: latency_sample_def split: jsval.splits)
  have "0 \<le> a * x + (1 - a) * y" if "0 < a" "a \<le> 1" "0 \<le> x" "0 \<le> y" for a x y :: rat
    using that by simp
  with inv s show ?thesis by (simp add: adapt_inv_def noteLatency_def Let_def adaptation_ok_def)
qed

lemma window_utilization_bounds: "0 \<le> window_utilization p now st \<and> window_utilization p now st \<le> 1"
  by (simp add: window_utilization_def Let_def)

lemma closeAdaptationWindow_inv: "adapt_inv p st \<Longrightarrow> adapt_inv p (closeAdaptationWindow p now st)"
  using window_utilization_bounds [of p now st]
  by (simp add: adapt_inv_def closeAdaptationWindow_def Let_def adaptation_ok_def clampLimit_bounds
      MAX_SAFE_INTEGER_def)

lemma floor_factor_le: "0 \<le> n \<Longrightarrow> 0 < f \<Longrightarrow> f < 1 \<Longrightarrow> \<lfloor>of_int n * f\<rfloor> \<le> n" for f :: rat
proof -
  assume "0 \<le> n" "0 < f" "f < 1"
  then have "of_int n * f \<le> of_int n" by (intro mult_left_le) simp_all
  then have "of_int n * f < of_int n + 1" by linarith
  then show ?thesis by (simp add: floor_le_iff)
qed

lemma critical_decrease_inv: "adapt_inv p st \<Longrightarrow> adapt_inv p (critical_decrease (p_minLimit p) p st)"
  using floor_factor_le [of "currentLimit st" "criticalDecreaseFactor p"]
  by (auto simp: adapt_inv_def critical_decrease_def adaptation_ok_def)

lemma setPressure_fields [simp]: "currentLimit (setPressure pr st) = currentLimit st"
  "recoveryCeiling (setPressure pr st) = recoveryCeiling st"
  "criticalDecreaseConsumed (setPressure pr st) = criticalDecreaseConsumed st"
  by (simp_all add: setPressure_def)

lemma setPressure_inv: "adapt_inv p st \<Longrightarrow> adapt_inv p (setPressure pr st)"
  by (simp add: adapt_inv_def setPressure_def)

lemma sampleActiveIntegral_inv: "adapt_inv p st \<Longrightarrow> adapt_inv p (sampleActiveIntegral a dt st)"
proof (cases "dt \<le> 0 \<or> a \<le> 0")
  case False
  assume inv: "adapt_inv p st"
  then have b: "0 < min a (currentLimit st)" using False by (simp add: adapt_inv_def adaptation_ok_def)
  then have "0 \<le> (if dt > MAX_SAFE_INTEGER div min a (currentLimit st) then MAX_SAFE_INTEGER
      else min a (currentLimit st) * dt)"
    using False by (simp add: MAX_SAFE_INTEGER_def)
  then show ?thesis
    using inv False by (auto simp: adapt_inv_def sampleActiveIntegral_def Let_def MAX_SAFE_INTEGER_def)
qed (simp add: sampleActiveIntegral_def)

lemma adapt_step_inv: "adapt_inv p st \<Longrightarrow> adapt_inv p (adapt_step p st e)"
proof (cases e)
  case (Pressure pr)
  assume "adapt_inv p st"
  then show ?thesis
    using critical_decrease_inv [OF setPressure_inv] setPressure_inv
    by (simp add: Pressure observe_def Let_def)
qed (simp_all add: noteLatency_inv sampleActiveIntegral_inv closeAdaptationWindow_inv,
    auto simp: adapt_inv_def noteOutcome_def)

interpretation adapt_machine: machine "adapt_step p" "adapt_inv p" for p
  by unfold_locales (rule adapt_step_inv)

lemma setPressure_max: "a_pressure (setPressure p st) = max p (a_pressure st)"
  by (cases p; cases "a_pressure st") (simp_all add: setPressure_def max_def less_eq_pressure_def)

section \<open>Properties\<close>

text \<open>C14. Whatever latencies, outcomes, pressures, load samples and window closings happen, in any
  order, the admission limit stays between the configured minimum and maximum, and the utilization
  between 0 and 1.\<close>

theorem limit_stays_in_range:
  assumes "validateConfig i = Inr c"
  shows "minLimit c \<le> currentLimit (foldl (adapt_step (adaptation_cfg c))
            (createAdaptationState (initialLimit c) (minLimit c) (maxLimit c) t) es)
    \<and> currentLimit (foldl (adapt_step (adaptation_cfg c))
            (createAdaptationState (initialLimit c) (minLimit c) (maxLimit c) t) es) \<le> maxLimit c
    \<and> 0 \<le> utilization (foldl (adapt_step (adaptation_cfg c))
            (createAdaptationState (initialLimit c) (minLimit c) (maxLimit c) t) es)
    \<and> utilization (foldl (adapt_step (adaptation_cfg c))
            (createAdaptationState (initialLimit c) (minLimit c) (maxLimit c) t) es) \<le> 1"
proof -
  have ok: "config_ok c" by (rule validateConfig_ok [OF assms])
  then have "adapt_inv (adaptation_cfg c)
      (createAdaptationState (initialLimit c) (minLimit c) (maxLimit c) t)"
    using createAdaptationState_inv [of "adaptation_cfg c" "initialLimit c" t] by (simp add: config_ok_def)
  from adapt_machine.run_inv [OF this, of es] ok show ?thesis
    by (simp add: adapt_inv_def config_ok_def)
qed

definition sample_input :: admission_input where
  "sample_input = \<lparr>in_mode = Mode Enforce, in_minLimit = Num 4, in_maxLimit = Num 100,
     in_initialLimit = Num 50, in_maxQueueCount = Num 10, in_maxQueueCost = Num 200,
     in_defaultMaxWaitMs = Undefined, in_windowMs = Undefined, in_shortLatencyAlpha = Undefined,
     in_longLatencyAlpha = Undefined, in_increaseStep = Num 3, in_decreaseFactor = Undefined,
     in_criticalDecreaseFactor = Undefined, in_highUtilizationThreshold = Undefined,
     in_lowUtilizationThreshold = Undefined, in_latencyGradientThreshold = Undefined,
     in_maxIncreasePerWindow = Undefined, in_cost = no_cost_input, in_virtualLanes = False\<rparr>"

definition sample_config :: valid_config where
  "sample_config = \<lparr>mode = Enforce, minLimit = 4, maxLimit = 100, initialLimit = 50,
     maxQueueCount = 10, maxQueueCost = 200, defaultMaxWaitMs = 5000, windowMs = 1000,
     c_maxRequestCost = 1000, costConfig = DEFAULT_ADMISSION_COST_CONFIG, virtualLanes_on = False,
     adaptation_cfg = \<lparr>p_minLimit = 4, p_maxLimit = 100, p_windowMs = 1000, shortLatencyAlpha = 1/2,
       longLatencyAlpha = 1/10, increaseStep = 3, decreaseFactor = 4/5, criticalDecreaseFactor = 1/2,
       highUtilizationThreshold = 7/10, lowUtilizationThreshold = 3/10,
       latencyGradientThreshold = 1/4, maxIncreasePerWindow = 3\<rparr>\<rparr>"

lemma validate_sample: "validateConfig sample_input = Inr sample_config"
proof -
  have "requirePositiveInt name (Num (of_int n)) mx = Inr n"
    if "0 < n" "n \<le> mx" "n \<le> MAX_SAFE_INTEGER" for name n mx
    using that by (simp add: requirePositiveInt_Inr)
  from this [of 4] this [of 100] this [of 50] this [of 10] this [of 200] this [of 3] show ?thesis
    by (simp add: validateConfig_def sample_input_def sample_config_def resolve_default resolveMode_def
        resolveAdaptationParams_def requireDecreaseFactor_def requireUnitInterval_def optional_int_def
        throw_if_def MAX_ADMISSION_COST_OR_LIMIT_val MAX_SAFE_INTEGER_def Let_def)
      (simp add: DEFAULT_ADMISSION_COST_CONFIG_def)
qed

lemma limit_stays_in_range_witness:
  "4 \<le> currentLimit (foldl (adapt_step (adaptation_cfg sample_config))
     (createAdaptationState 50 4 100 0) [Pressure Critical, Close 1000, Latency (Num 30), Close 2000])"
  using limit_stays_in_range [OF validate_sample, of 0 "[Pressure Critical, Close 1000, Latency (Num 30), Close 2000]"]
  by (simp add: sample_config_def)

text \<open>An idle window: it closes with nothing sampled, completed, measured or observed in it.\<close>

definition idle_window :: "adaptation \<Rightarrow> bool" where
  "idle_window st \<longleftrightarrow> windowActiveCostIntegral st = 0 \<and> windowCompleted st = 0
     \<and> windowLatencySamples st = 0 \<and> a_pressure st = Normal \<and> \<not> freezeGrowth st"

lemma close_idle:
  assumes "adapt_inv p st" and "idle_window st"
  shows "currentLimit (closeAdaptationWindow p now st)
      = (if currentLimit st < recoveryCeiling st
         then min (recoveryCeiling st) (currentLimit st + min (increaseStep p) (maxIncreasePerWindow p))
         else currentLimit st)
    \<and> idle_window (closeAdaptationWindow p now st)
    \<and> recoveryCeiling (closeAdaptationWindow p now st) = recoveryCeiling st"
proof -
  have "window_utilization p now st = 0"
    using assms(2) by (simp add: window_utilization_def idle_window_def)
  moreover have "0 < lowUtilizationThreshold p" "lowUtilizationThreshold p < highUtilizationThreshold p"
    "0 < increaseStep p" "0 < maxIncreasePerWindow p"
    using assms(1) by (auto simp: adapt_inv_def adaptation_ok_def in_range_def)
  ultimately show ?thesis
    using assms
    by (auto simp: closeAdaptationWindow_def Let_def next_limit_def idle_window_def applyIdleRecovery_def
        adapt_inv_def intro!: clampLimit_id)
qed

lemma close_idle_run:
  "adapt_inv p st \<Longrightarrow> idle_window st \<Longrightarrow>
    (let st' = foldl (adapt_step p) st (map Close ts)
     in min (recoveryCeiling st) (currentLimit st + int (length ts) * min (increaseStep p) (maxIncreasePerWindow p))
          \<le> currentLimit st' \<and> recoveryCeiling st' = recoveryCeiling st)"
proof (induction ts arbitrary: st)
  case (Cons t ts)
  let ?st = "closeAdaptationWindow p t st"
  let ?step = "min (increaseStep p) (maxIncreasePerWindow p)"
  have step: "0 < ?step" using Cons.prems(1) by (auto simp: adapt_inv_def adaptation_ok_def in_range_def)
  have c: "min (recoveryCeiling st) (currentLimit st + ?step) \<le> currentLimit ?st" "idle_window ?st"
    "recoveryCeiling ?st = recoveryCeiling st"
    using close_idle [OF Cons.prems, of t] by auto
  define K where "K = int (length ts) * ?step"
  define L where "L = currentLimit (foldl (adapt_step p) ?st (map Close ts))"
  have "0 \<le> K" using step by (simp add: K_def)
  moreover have "min (recoveryCeiling st) (currentLimit ?st + K) \<le> L"
    and r: "recoveryCeiling (foldl (adapt_step p) ?st (map Close ts)) = recoveryCeiling st"
    using Cons.IH [OF closeAdaptationWindow_inv [OF Cons.prems(1)] c(2)] c(3)
    by (simp_all add: Let_def K_def L_def)
  ultimately have "min (recoveryCeiling st) (currentLimit st + (?step + K)) \<le> L"
    using c(1) by linarith
  moreover have "int (length (t # ts)) * ?step = ?step + K" by (simp add: K_def algebra_simps)
  ultimately show ?case using r by (simp add: Let_def L_def)
qed (simp add: Let_def)

text \<open>C15. Idle recovery: however far latency or pressure has lowered the limit, once the system is
  idle each window gives back a step, and after enough windows the limit is at least the recovery
  ceiling again, so a request that fitted the initial limit is not locked out.\<close>

theorem idle_recovery_reaches_ceiling:
  assumes "adapt_inv p st" and "idle_window st"
    and "recoveryCeiling st - currentLimit st \<le> int (length ts) * min (increaseStep p) (maxIncreasePerWindow p)"
  shows "recoveryCeiling st \<le> currentLimit (foldl (adapt_step p) st (map Close ts))"
  using close_idle_run [OF assms(1,2), of ts] assms(3) by (simp add: Let_def)

definition collapsed :: adaptation where
  "collapsed = (createAdaptationState 50 4 100 0)\<lparr>currentLimit := 4\<rparr>"

definition sixteen_ticks :: "time list" where
  "sixteen_ticks = map (\<lambda>k. 1000 * int k) [1..<17]"

lemma idle_recovery_witness:
  "50 \<le> currentLimit (foldl (adapt_step (adaptation_cfg sample_config)) collapsed (map Close sixteen_ticks))"
proof -
  have "config_ok sample_config" by (rule validateConfig_ok [OF validate_sample])
  then have inv: "adapt_inv (adaptation_cfg sample_config) collapsed"
    by (simp add: adapt_inv_def config_ok_def)
      (simp add: collapsed_def createAdaptationState_def clampLimit_def sample_config_def MAX_SAFE_INTEGER_def)
  have idle: "idle_window collapsed" and r: "recoveryCeiling collapsed = 50" "currentLimit collapsed = 4"
    by (simp_all add: idle_window_def collapsed_def createAdaptationState_def clampLimit_def)
  have "recoveryCeiling collapsed - currentLimit collapsed
      \<le> int (length sixteen_ticks) * min (increaseStep (adaptation_cfg sample_config))
          (maxIncreasePerWindow (adaptation_cfg sample_config))"
    by (simp add: r sixteen_ticks_def sample_config_def)
  from idle_recovery_reaches_ceiling [OF inv idle this] show ?thesis unfolding r .
qed

section \<open>The utilization integral\<close>

definition load_area :: "int \<Rightarrow> (int \<times> int) list \<Rightarrow> int" where
  "load_area limit loads = sum_list (map (\<lambda>(a, dt). min a limit * dt) loads)"

lemma sample_exact:
  assumes "0 < dt" and "0 < a" and "0 < currentLimit st" and "0 \<le> windowActiveCostIntegral st"
    and "windowActiveCostIntegral st + min a (currentLimit st) * dt < MAX_SAFE_INTEGER"
  shows "sampleActiveIntegral a dt st
    = st\<lparr>windowActiveCostIntegral := windowActiveCostIntegral st + min a (currentLimit st) * dt\<rparr>"
proof -
  let ?b = "min a (currentLimit st)"
  have b: "0 < ?b" using assms by simp
  have "?b * dt \<le> MAX_SAFE_INTEGER" using assms by linarith
  from zdiv_mono1 [OF this b] have "dt \<le> MAX_SAFE_INTEGER div ?b" using b by simp
  then show ?thesis
    using assms b by (simp add: sampleActiveIntegral_def Let_def)
qed

definition sample_all :: "(int \<times> int) list \<Rightarrow> adaptation \<Rightarrow> adaptation" where
  "sample_all loads st = foldl (\<lambda>st (a, dt). sampleActiveIntegral a dt st) st loads"

lemma load_area_bound: "list_all (\<lambda>(a, dt). 0 \<le> a \<and> 0 < dt) loads \<Longrightarrow> 0 < limit \<Longrightarrow>
    0 \<le> load_area limit loads \<and> load_area limit loads \<le> limit * sum_list (map snd loads)"
proof (induction loads)
  case (Cons x loads)
  obtain a dt where x: "x = (a, dt)" by (cases x)
  have m: "0 \<le> min a limit * dt" "min a limit * dt \<le> limit * dt"
    using Cons.prems x by (auto intro: mult_nonneg_nonneg mult_right_mono)
  have "load_area limit (x # loads) = min a limit * dt + load_area limit loads"
    and "limit * sum_list (map snd (x # loads)) = limit * dt + limit * sum_list (map snd loads)"
    by (simp_all add: load_area_def x distrib_left)
  moreover have "0 \<le> load_area limit loads \<and> load_area limit loads \<le> limit * sum_list (map snd loads)"
    using Cons x by simp
  ultimately show ?case using m by linarith
qed (simp add: load_area_def)

lemma sample_all_exact:
  "list_all (\<lambda>(a, dt). 0 \<le> a \<and> 0 < dt) loads \<Longrightarrow> 0 < currentLimit st \<Longrightarrow>
    0 \<le> windowActiveCostIntegral st \<Longrightarrow>
    windowActiveCostIntegral st + currentLimit st * sum_list (map snd loads) < MAX_SAFE_INTEGER \<Longrightarrow>
    windowActiveCostIntegral (sample_all loads st)
      = windowActiveCostIntegral st + load_area (currentLimit st) loads"
proof (induction loads arbitrary: st)
  case (Cons x loads)
  obtain a dt where x: "x = (a, dt)" by (cases x)
  let ?L = "currentLimit st"
  let ?st = "sampleActiveIntegral a dt st"
  have a: "0 \<le> a" "0 < dt" and rest: "list_all (\<lambda>(a, dt). 0 \<le> a \<and> 0 < dt) loads"
    using Cons.prems(1) x by simp_all
  have le: "min a ?L * dt \<le> ?L * dt" using a by (intro mult_right_mono) simp_all
  have nn: "0 \<le> min a ?L * dt" using a Cons.prems(2) by (intro mult_nonneg_nonneg) simp_all
  have s0: "0 \<le> ?L * sum_list (map snd loads)"
    using load_area_bound [OF rest Cons.prems(2)] by linarith
  have tot: "windowActiveCostIntegral st + (?L * dt + ?L * sum_list (map snd loads)) < MAX_SAFE_INTEGER"
    using Cons.prems(4) x by (simp add: algebra_simps)
  have st: "?st = st\<lparr>windowActiveCostIntegral := windowActiveCostIntegral st + min a ?L * dt\<rparr>"
  proof (cases "a = 0")
    case True
    then show ?thesis using Cons.prems(2) by (simp add: sampleActiveIntegral_def)
  next
    case False
    then show ?thesis using a Cons.prems(2,3) tot le s0 by (intro sample_exact) linarith+
  qed
  have "windowActiveCostIntegral (sample_all loads ?st) = windowActiveCostIntegral ?st + load_area ?L loads"
    using Cons.IH [of ?st] rest Cons.prems(2,3) nn le tot by (simp add: st)
  then show ?case by (simp add: sample_all_def x st load_area_def)
qed (simp add: sample_all_def load_area_def)

text \<open>The bounds of the configuration keep the utilization exact: over a whole window, whatever the
  load, the saturating sum of cost times time never saturates, so the integral is the exact area under
  the load capped at the limit, and at full load it gives utilization 1.\<close>

theorem window_integral_exact:
  assumes "validateConfig i = Inr c" and "0 < currentLimit st" and "currentLimit st \<le> maxLimit c"
    and "windowActiveCostIntegral st = 0" and "list_all (\<lambda>(a, dt). 0 \<le> a \<and> 0 < dt) loads"
    and "sum_list (map snd loads) \<le> windowMs c"
  shows "windowActiveCostIntegral (sample_all loads st) = load_area (currentLimit st) loads
    \<and> windowActiveCostIntegral (sample_all loads st) \<le> currentLimit st * windowMs c"
proof -
  have ok: "config_ok c" by (rule validateConfig_ok [OF assms(1)])
  have "currentLimit st * sum_list (map snd loads) \<le> currentLimit st * windowMs c"
    using assms(2,6) by (intro mult_left_mono) simp_all
  moreover have "currentLimit st * windowMs c \<le> MAX_ADMISSION_COST_OR_LIMIT * MAX_ADMISSION_WINDOW_MS"
    using assms(2,3) ok by (intro mult_mono) (simp_all add: config_ok_def in_range_def)
  moreover have "MAX_ADMISSION_COST_OR_LIMIT * MAX_ADMISSION_WINDOW_MS < MAX_SAFE_INTEGER"
    by (simp add: MAX_ADMISSION_COST_OR_LIMIT_val MAX_ADMISSION_WINDOW_MS_def MAX_SAFE_INTEGER_def)
  ultimately show ?thesis
    using sample_all_exact [OF assms(5,2)] load_area_bound [OF assms(5,2)] assms(4) by simp
qed

lemma window_integral_exact_witness:
  "windowActiveCostIntegral (sample_all [(120, 400), (50, 600)] (createAdaptationState 50 4 100 0))
    = load_area 50 [(120, 400), (50, 600)]"
proof -
  let ?st = "createAdaptationState 50 4 100 0"
  have l: "currentLimit ?st = 50" and z: "windowActiveCostIntegral ?st = 0"
    by (simp_all add: createAdaptationState_def clampLimit_def)
  have "windowActiveCostIntegral (sample_all [(120, 400), (50, 600)] ?st)
      = load_area (currentLimit ?st) [(120, 400), (50, 600)]"
    using window_integral_exact [OF validate_sample, of ?st "[(120, 400), (50, 600)]"] l z
    by (simp add: sample_config_def)
  then show ?thesis by (simp add: l)
qed

end
