(* ===== verification/CostQueue.thy ===== *)
theory CostQueue
  imports Prelude "HOL-Library.Multiset"
begin

text \<open>
  The interface the admission controller uses a queue through: entries go in, come out under a cost
  bound or by identifier, and a drain empties it. A provider keeps an invariant and says what each
  operation does to the multiset of stored entries; the client's conservation law follows.
\<close>

datatype 'e queue_op = Put 'e | Get int | Take nat

text \<open>A run of operations: what was accepted, what came out, and the queue at the end.\<close>

fun queue_run :: "('e \<Rightarrow> 'q \<Rightarrow> bool \<times> 'q) \<Rightarrow> (int \<Rightarrow> 'q \<Rightarrow> 'e option \<times> 'q) \<Rightarrow> (nat \<Rightarrow> 'q \<Rightarrow> 'e option \<times> 'q)
    \<Rightarrow> 'e queue_op list \<Rightarrow> 'q \<Rightarrow> 'e list \<times> 'e list \<times> 'q" where
  "queue_run put get pick [] q = ([], [], q)"
| "queue_run put get pick (Put e # ops) q =
     (let (ok, q1) = put e q; (acc, out, q2) = queue_run put get pick ops q1
      in (if ok then e # acc else acc, out, q2))"
| "queue_run put get pick (Get c # ops) q =
     (let (r, q1) = get c q; (acc, out, q2) = queue_run put get pick ops q1
      in (acc, case r of None \<Rightarrow> out | Some e \<Rightarrow> e # out, q2))"
| "queue_run put get pick (Take i # ops) q =
     (let (r, q1) = pick i q; (acc, out, q2) = queue_run put get pick ops q1
      in (acc, case r of None \<Rightarrow> out | Some e \<Rightarrow> e # out, q2))"

locale cost_queue =
  fixes inv :: "'q \<Rightarrow> bool"
    and contents :: "'q \<Rightarrow> 'e multiset"
    and cost :: "'e \<Rightarrow> int"
    and fresh :: "'e \<Rightarrow> bool"
    and put :: "'e \<Rightarrow> 'q \<Rightarrow> bool \<times> 'q"
    and get :: "int \<Rightarrow> 'q \<Rightarrow> 'e option \<times> 'q"
    and pick :: "nat \<Rightarrow> 'q \<Rightarrow> 'e option \<times> 'q"
  assumes put_accepted: "inv q \<Longrightarrow> fresh e \<Longrightarrow> put e q = (True, q') \<Longrightarrow>
      inv q' \<and> contents q' = add_mset e (contents q)"
    and put_refused: "put e q = (False, q') \<Longrightarrow> q' = q"
    and get_some: "inv q \<Longrightarrow> get c q = (Some e, q') \<Longrightarrow>
      inv q' \<and> contents q = add_mset e (contents q') \<and> cost e \<le> c"
    and get_none: "inv q \<Longrightarrow> get c q = (None, q') \<Longrightarrow> q' = q"
    and pick_some: "inv q \<Longrightarrow> pick i q = (Some e, q') \<Longrightarrow>
      inv q' \<and> contents q = add_mset e (contents q')"
    and pick_none: "inv q \<Longrightarrow> pick i q = (None, q') \<Longrightarrow> q' = q"
begin

lemma conservation:
  "inv q \<Longrightarrow> list_all (\<lambda>p. case p of Put e \<Rightarrow> fresh e | _ \<Rightarrow> True) ops \<Longrightarrow>
    queue_run put get pick ops q = (acc, out, q') \<Longrightarrow>
    inv q' \<and> contents q + mset acc = contents q' + mset out"
proof (induction ops arbitrary: q acc out)
  case (Cons p ops)
  show ?case
  proof (cases p)
    case (Put e)
    obtain ok q1 where p1: "put e q = (ok, q1)" by fastforce
    obtain a o1 q2 where r: "queue_run put get pick ops q1 = (a, o1, q2)" by (metis prod_cases3)
    show ?thesis
      using Cons.prems Cons.IH [of q1 a o1] put_accepted [of q e q1] put_refused [of e q q1] Put p1 r
      by (cases ok) (auto simp: algebra_simps)
  next
    case (Get c)
    obtain x q1 where p1: "get c q = (x, q1)" by fastforce
    obtain a o1 q2 where r: "queue_run put get pick ops q1 = (a, o1, q2)" by (metis prod_cases3)
    show ?thesis
      using Cons.prems Cons.IH [of q1 a o1] get_some [of q c _ q1] get_none [of q c q1] Get p1 r
      by (cases x) auto
  next
    case (Take i)
    obtain x q1 where p1: "pick i q = (x, q1)" by fastforce
    obtain a o1 q2 where r: "queue_run put get pick ops q1 = (a, o1, q2)" by (metis prod_cases3)
    show ?thesis
      using Cons.prems Cons.IH [of q1 a o1] pick_some [of q i _ q1] pick_none [of q i q1] Take p1 r
      by (cases x) auto
  qed
qed simp

end

end
