(* ===== verification/FairCostQueue.thy ===== *)
theory FairCostQueue
  imports Prelude CostQueue
begin

text \<open>
  The bounded multi-tenant fair queue of the admission controller,
  \<open>src/open-sse/services/admission/queue.ts\<close>: one FIFO bucket per tenant, round robin over the
  tenants, a cap on the number of entries and on their total cost, and a reservation for a head that
  has been passed over twice.

  \<^item> \<open>buckets\<close> is the \<open>Map\<close> from tenants to their entries, \<open>order\<close> the rotation, \<open>cursor\<close> the index
    of the tenant to try first. Entry identifiers are numbers; the timer handle of an entry is not
    kept here, its firing is an event of the controller.
  \<^item> An entry object is only reachable through its bucket while it is queued, so the mutation
    \<open>skipCount += 1\<close> is an update of the head of the bucket.
  \<^item> The abstract view of a queue is the rotation starting at the cursor, \<open>rr_view\<close>.
\<close>

section \<open>Data\<close>

record 'p queue_entry =
  eid :: nat
  tenantKey :: string
  ecost :: int
  enqueuedAtMs :: time
  deadlineMs :: time
  payload :: 'p
  skipCount :: nat

record 'p fcq =
  buckets :: "(string \<times> 'p queue_entry list) list"
  order :: "string list"
  cursor :: nat
  qcount :: int
  qcost :: int
  q_maxCount :: int
  q_maxCost :: int

definition MAX_UNFITTABLE_SKIPS :: nat where
  "MAX_UNFITTABLE_SKIPS = 2"

definition newFairCostQueue :: "int \<Rightarrow> int \<Rightarrow> 'p fcq" where
  "newFairCostQueue maxCount maxCost = \<lparr>buckets = [], order = [], cursor = 0, qcount = 0, qcost = 0,
     q_maxCount = maxCount, q_maxCost = maxCost\<rparr>"

section \<open>Operations\<close>

definition bucket_of :: "'p fcq \<Rightarrow> string \<Rightarrow> 'p queue_entry list" where
  "bucket_of q t = nullish (map_of (buckets q) t) []"

definition head_of :: "'p fcq \<Rightarrow> string \<Rightarrow> 'p queue_entry option" where
  "head_of q t = (case bucket_of q t of [] \<Rightarrow> None | e # _ \<Rightarrow> Some e)"

definition canAccept :: "'p fcq \<Rightarrow> int \<Rightarrow> bool" where
  "canAccept q c \<longleftrightarrow> 0 < c \<and> c \<le> MAX_SAFE_INTEGER \<and> qcount q < q_maxCount q \<and> c \<le> q_maxCost q - qcost q"

definition enqueue :: "'p queue_entry \<Rightarrow> 'p fcq \<Rightarrow> bool \<times> 'p fcq" where
  "enqueue e q =
     (if \<not> canAccept q (ecost e) then (False, q)
      else (True, q\<lparr>buckets := map_set (tenantKey e) (bucket_of q (tenantKey e) @ [e]) (buckets q),
                    order := (if map_has (tenantKey e) (buckets q) then order q
                              else order q @ [tenantKey e]),
                    qcount := qcount q + 1, qcost := qcost q + ecost e\<rparr>))"

text \<open>The indices in the order the loops try them: \<open>(cursor + i) % n\<close>.\<close>

definition probe_order :: "'p fcq \<Rightarrow> nat list" where
  "probe_order q = map (\<lambda>i. (cursor q + i) mod length (order q)) [0..<length (order q)]"

text \<open>The oldest head that has been passed over too often, with its index.\<close>

fun find_reserved :: "'p fcq \<Rightarrow> nat list \<Rightarrow> (nat \<times> 'p queue_entry) option
    \<Rightarrow> (nat \<times> 'p queue_entry) option" where
  "find_reserved q [] r = r"
| "find_reserved q (i # js) r =
     (case head_of q (order q ! i) of
        None \<Rightarrow> find_reserved q js r
      | Some e \<Rightarrow>
          if skipCount e \<ge> MAX_UNFITTABLE_SKIPS
             \<and> (case r of None \<Rightarrow> True | Some (_, x) \<Rightarrow> enqueuedAtMs e < enqueuedAtMs x)
          then find_reserved q js (Some (i, e))
          else find_reserved q js r)"

definition takeAt :: "nat \<Rightarrow> 'p fcq \<Rightarrow> 'p queue_entry option \<times> 'p fcq" where
  "takeAt i q =
     (let t = order q ! i in
      case bucket_of q t of
        [] \<Rightarrow> (None, q)
      | e # rest \<Rightarrow>
          let q1 = q\<lparr>qcount := qcount q - 1, qcost := qcost q - ecost e\<rparr>
          in (Some (e\<lparr>skipCount := 0\<rparr>),
              if rest = []
              then let ord = take i (order q) @ drop (Suc i) (order q)
                   in q1\<lparr>buckets := map_del t (buckets q), order := ord,
                         cursor := (if ord = [] then 0 else i mod length ord)\<rparr>
              else q1\<lparr>buckets := map_set t rest (buckets q),
                      cursor := Suc i mod length (order q)\<rparr>))"

definition bump_head :: "string \<Rightarrow> 'p fcq \<Rightarrow> 'p fcq" where
  "bump_head t q = (case bucket_of q t of
     [] \<Rightarrow> q
   | e # rest \<Rightarrow> q\<lparr>buckets := map_set t (e\<lparr>skipCount := skipCount e + 1\<rparr> # rest) (buckets q)\<rparr>)"

text \<open>The second loop: the first head that fits is taken, and the heads passed over are aged.\<close>

fun scan_fit :: "'p fcq \<Rightarrow> int \<Rightarrow> nat list \<Rightarrow> string list \<Rightarrow> 'p queue_entry option \<times> 'p fcq" where
  "scan_fit q maxCost [] bypassed = (None, q)"
| "scan_fit q maxCost (i # js) bypassed =
     (case head_of q (order q ! i) of
        None \<Rightarrow> scan_fit q maxCost js bypassed
      | Some e \<Rightarrow>
          if ecost e > maxCost then scan_fit q maxCost js (bypassed @ [order q ! i])
          else takeAt i (fold bump_head bypassed q))"

definition dequeue :: "int \<Rightarrow> 'p fcq \<Rightarrow> 'p queue_entry option \<times> 'p fcq" where
  "dequeue maxCost q =
     (if qcount q = 0 then (None, q)
      else case find_reserved q (probe_order q) None of
             Some (i, e) \<Rightarrow> if ecost e > maxCost then (None, q) else takeAt i q
           | None \<Rightarrow> scan_fit q maxCost (probe_order q) [])"

definition peek :: "'p fcq \<Rightarrow> 'p queue_entry option" where
  "peek q = (if qcount q = 0 then None
     else case List.find (\<lambda>i. bucket_of q (order q ! i) \<noteq> []) (probe_order q) of
            None \<Rightarrow> None
          | Some i \<Rightarrow> head_of q (order q ! i))"

text \<open>\<open>bucket.splice(idx, 1)\<close> at the index \<open>findIndex\<close> gives.\<close>

fun splice_first :: "('a \<Rightarrow> bool) \<Rightarrow> 'a list \<Rightarrow> 'a list" where
  "splice_first P [] = []"
| "splice_first P (x # xs) = (if P x then xs else x # splice_first P xs)"

text \<open>\<open>removeById\<close>: the first tenant, in rotation order, whose bucket holds the identifier.\<close>

fun remove_from :: "nat \<Rightarrow> nat list \<Rightarrow> 'p fcq \<Rightarrow> 'p queue_entry option \<times> 'p fcq" where
  "remove_from i [] q = (None, q)"
| "remove_from i (ti # js) q =
     (let t = order q ! ti; b = bucket_of q t in
      case List.find (\<lambda>e. eid e = i) b of
        None \<Rightarrow> remove_from i js q
      | Some e \<Rightarrow>
          let b' = splice_first (\<lambda>e. eid e = i) b;
              q1 = q\<lparr>qcount := qcount q - 1, qcost := qcost q - ecost e\<rparr>
          in (Some e,
              if b' = []
              then let ord = take ti (order q) @ drop (Suc ti) (order q)
                   in q1\<lparr>buckets := map_del t (buckets q), order := ord,
                         cursor := (if ord = [] then 0
                                    else if ti < cursor q then cursor q - 1
                                    else if cursor q \<ge> length ord then 0 else cursor q)\<rparr>
              else q1\<lparr>buckets := map_set t b' (buckets q)\<rparr>))"

definition removeById :: "nat \<Rightarrow> 'p fcq \<Rightarrow> 'p queue_entry option \<times> 'p fcq" where
  "removeById i q = remove_from i [0..<length (order q)] q"

section \<open>Contents\<close>

definition all_entries :: "(string \<times> 'p queue_entry list) list \<Rightarrow> 'p queue_entry multiset" where
  "all_entries bs = mset (concat (map snd bs))"

lemma all_entries_simps [simp]: "all_entries [] = {#}"
  "all_entries ((t, b) # bs) = mset b + all_entries bs"
  by (simp_all add: all_entries_def)

lemma all_entries_set: "map_of bs t = Some b \<Longrightarrow>
    all_entries (map_set t b' bs) + mset b = all_entries bs + mset b'"
  by (induction bs) (auto split: if_splits)

lemma all_entries_set_new: "map_of bs t = None \<Longrightarrow> all_entries (map_set t b' bs) = all_entries bs + mset b'"
  by (induction bs) (auto split: if_splits)

lemma all_entries_del: "map_ok bs \<Longrightarrow> map_of bs t = Some b \<Longrightarrow>
    all_entries (map_del t bs) + mset b = all_entries bs"
  by (induction bs) (auto simp: map_del_absent split: if_splits)

lemma all_entries_del_le: "size (all_entries (map_del t bs)) \<le> size (all_entries bs)"
  by (induction bs) auto

lemma all_entries_del_size: "map_of bs t = Some b \<Longrightarrow>
    size (all_entries (map_del t bs)) + length b \<le> size (all_entries bs)"
proof (induction bs)
  case (Cons x bs)
  then show ?case
    using all_entries_del_le [of t bs] by (cases x) (auto split: if_splits)
qed simp

lemma bucket_of_Cons: "bucket_of q t = e # rest \<Longrightarrow> map_of (buckets q) t = Some (e # rest)"
  by (cases "map_of (buckets q) t") (simp_all add: bucket_of_def)

lemma takeAt_size: "takeAt i q = (Some e, q') \<Longrightarrow> size (all_entries (buckets q')) < size (all_entries (buckets q))"
proof -
  assume *: "takeAt i q = (Some e, q')"
  let ?t = "order q ! i"
  obtain e0 rest where b: "bucket_of q ?t = e0 # rest"
    using * by (cases "bucket_of q ?t") (auto simp: takeAt_def)
  note m = bucket_of_Cons [OF b]
  have "size (all_entries (map_set ?t rest (buckets q))) + Suc (length rest)
      = size (all_entries (buckets q)) + length rest"
    using arg_cong [OF all_entries_set [OF m, of rest], of size] by simp
  then show ?thesis
    using * b all_entries_del_size [OF m] by (auto simp: takeAt_def Let_def split: if_splits)
qed

lemma bump_head_size [simp]: "size (all_entries (buckets (bump_head t q))) = size (all_entries (buckets q))"
proof (cases "bucket_of q t")
  case (Cons e rest)
  let ?b = "e\<lparr>skipCount := skipCount e + 1\<rparr> # rest"
  have "size (all_entries (map_set t ?b (buckets q)) + mset (e # rest)) = size (all_entries (buckets q) + mset ?b)"
    using all_entries_set [OF bucket_of_Cons [OF Cons], of ?b] by (rule arg_cong)
  then show ?thesis using Cons by (simp add: bump_head_def)
qed (simp add: bump_head_def)

lemma fold_bump_size [simp]:
  "size (all_entries (buckets (fold bump_head ts q))) = size (all_entries (buckets q))"
  by (induction ts arbitrary: q) simp_all

lemma scan_fit_size: "scan_fit q c js bp = (Some e, q') \<Longrightarrow>
    size (all_entries (buckets q')) < size (all_entries (buckets q))"
proof (induction q c js bp rule: scan_fit.induct)
  case (2 q c i js bp)
  then show ?case
    using takeAt_size [of i "fold bump_head bp q" e q'] by (auto split: option.splits if_splits)
qed simp

lemma dequeue_size: "dequeue c q = (Some e, q') \<Longrightarrow>
    size (all_entries (buckets q')) < size (all_entries (buckets q))"
  by (auto simp: dequeue_def dest: takeAt_size scan_fit_size split: if_splits option.splits prod.splits)

text \<open>\<open>drain\<close>: dequeue without a cost bound until nothing comes.\<close>

function drain_loop :: "'p fcq \<Rightarrow> 'p queue_entry list \<times> 'p fcq" where
  "drain_loop q = (case dequeue MAX_SAFE_INTEGER q of
     (None, q') \<Rightarrow> ([], q')
   | (Some e, q') \<Rightarrow> (let (es, q'') = drain_loop q' in (e # es, q'')))"
  by pat_completeness auto
termination
  by (relation "measure (\<lambda>q. size (all_entries (buckets q)))") (auto dest: dequeue_size [OF sym])

declare drain_loop.simps [simp del]

definition drain :: "'p fcq \<Rightarrow> 'p queue_entry list \<times> 'p fcq" where
  "drain q = (let (es, q') = drain_loop q in (es, q'\<lparr>cursor := 0\<rparr>))"

section \<open>The invariant\<close>

definition entry_ok :: "string \<Rightarrow> 'p queue_entry \<Rightarrow> bool" where
  "entry_ok t e \<longleftrightarrow> tenantKey e = t \<and> 0 < ecost e \<and> ecost e \<le> MAX_SAFE_INTEGER
     \<and> skipCount e \<le> MAX_UNFITTABLE_SKIPS"

definition buckets_ok :: "(string \<times> 'p queue_entry list) list \<Rightarrow> bool" where
  "buckets_ok bs \<longleftrightarrow> map_ok bs \<and> list_all (\<lambda>(t, b). b \<noteq> [] \<and> list_all (entry_ok t) b) bs"

definition total_cost :: "'p queue_entry multiset \<Rightarrow> int" where
  "total_cost M = sum_mset (image_mset ecost M)"

definition q_inv :: "'p fcq \<Rightarrow> bool" where
  "q_inv q \<longleftrightarrow> buckets_ok (buckets q) \<and> distinct (order q) \<and> set (order q) = fst ` set (buckets q)
     \<and> (if order q = [] then cursor q = 0 else cursor q < length (order q))
     \<and> qcount q = int (size (all_entries (buckets q))) \<and> qcost q = total_cost (all_entries (buckets q))
     \<and> qcount q \<le> max 0 (q_maxCount q) \<and> qcost q \<le> max 0 (q_maxCost q)"

text \<open>An entry without its age: what the queue stores and hands back.\<close>

definition strip :: "'p queue_entry \<Rightarrow> 'p queue_entry" where
  "strip e = e\<lparr>skipCount := 0\<rparr>"

definition contents :: "'p fcq \<Rightarrow> 'p queue_entry multiset" where
  "contents q = image_mset strip (all_entries (buckets q))"

lemma strip_simps [simp]: "eid (strip e) = eid e" "tenantKey (strip e) = tenantKey e"
  "ecost (strip e) = ecost e" "enqueuedAtMs (strip e) = enqueuedAtMs e"
  "deadlineMs (strip e) = deadlineMs e" "payload (strip e) = payload e"
  "skipCount (strip e) = 0" "strip (strip e) = strip e" "strip (e\<lparr>skipCount := n\<rparr>) = strip e"
  by (simp_all add: strip_def)

lemma total_cost_simps [simp]: "total_cost {#} = 0" "total_cost (add_mset e M) = ecost e + total_cost M"
  "total_cost (M + N) = total_cost M + total_cost N"
  by (simp_all add: total_cost_def)

lemma total_cost_strip [simp]: "total_cost (image_mset strip M) = total_cost M"
  by (induction M) simp_all

lemma buckets_ok_get: "buckets_ok bs \<Longrightarrow> map_of bs t = Some b \<Longrightarrow> b \<noteq> [] \<and> list_all (entry_ok t) b"
  by (fastforce simp: buckets_ok_def list_all_iff dest: map_of_SomeD simp del: map_of_eq_Some_iff)

lemma buckets_ok_iff: "buckets_ok bs \<longleftrightarrow> map_ok bs \<and>
    (\<forall>t b. map_of bs t = Some b \<longrightarrow> b \<noteq> [] \<and> list_all (entry_ok t) b)"
  (is "_ \<longleftrightarrow> ?r")
proof
  assume ok: "buckets_ok bs"
  then have "map_ok bs" by (simp add: buckets_ok_def)
  with buckets_ok_get [OF ok] show ?r by blast
next
  assume r: ?r
  then have "b \<noteq> [] \<and> list_all (entry_ok t) b" if "(t, b) \<in> set bs" for t b
    using map_ok_nth_unique [OF _ that] by blast
  then show "buckets_ok bs" using r by (auto simp: buckets_ok_def list_all_iff)
qed

lemma buckets_ok_set: "buckets_ok bs \<Longrightarrow> b \<noteq> [] \<Longrightarrow> list_all (entry_ok t) b \<Longrightarrow> buckets_ok (map_set t b bs)"
  by (simp add: buckets_ok_iff)

lemma buckets_ok_del: "buckets_ok bs \<Longrightarrow> buckets_ok (map_del t bs)"
  by (simp add: buckets_ok_iff)

lemma buckets_ok_entries: "buckets_ok bs \<Longrightarrow> e \<in># all_entries bs \<Longrightarrow> entry_ok (tenantKey e) e"
  by (force simp: buckets_ok_def list_all_iff all_entries_def entry_ok_def)

lemma total_cost_nonneg: "(\<And>e. e \<in># M \<Longrightarrow> 0 < ecost e) \<Longrightarrow> 0 \<le> total_cost M \<and> (total_cost M = 0 \<longrightarrow> M = {#})"
proof (induction M)
  case (add e M)
  then have "0 < ecost e" "0 \<le> total_cost M" by auto
  then show ?case by simp
qed simp

lemma bucket_nonempty_iff: "q_inv q \<Longrightarrow> bucket_of q t \<noteq> [] \<longleftrightarrow> t \<in> set (order q)"
proof -
  assume inv: "q_inv q"
  show ?thesis
  proof (cases "map_of (buckets q) t")
    case None
    then have "t \<notin> set (order q)" using inv by (simp add: q_inv_def map_of_eq_None_iff)
    moreover have "bucket_of q t = []" unfolding bucket_of_def None by simp
    ultimately show ?thesis by simp
  next
    case (Some b)
    then have "t \<in> fst ` set (buckets q)" by (metis map_of_SomeD fst_conv imageI)
    then show ?thesis using inv Some buckets_ok_get by (auto simp: q_inv_def bucket_of_def)
  qed
qed

lemma keys_map_set: "fst ` set (map_set t b m) = insert t (fst ` set m)"
  by (rule set_eqI) (simp flip: map_has_iff)

lemma keys_map_del: "fst ` set (map_del t m) = fst ` set m - {t}"
  by (rule set_eqI) (auto simp flip: map_has_iff)

lemma q_inv_new: "q_inv (newFairCostQueue n c)"
  by (simp add: q_inv_def newFairCostQueue_def buckets_ok_def)

lemma q_inv_enqueue:
  assumes "q_inv q" and "skipCount e = 0" and "enqueue e q = (True, q')"
  shows "q_inv q' \<and> contents q' = add_mset (strip e) (contents q)
    \<and> q_maxCount q' = q_maxCount q \<and> q_maxCost q' = q_maxCost q"
proof -
  let ?t = "tenantKey e"
  let ?bs = "map_set ?t (bucket_of q ?t @ [e]) (buckets q)"
  have acc: "canAccept q (ecost e)" and q': "q' = q\<lparr>buckets := ?bs,
      order := (if map_has ?t (buckets q) then order q else order q @ [?t]),
      qcount := qcount q + 1, qcost := qcost q + ecost e\<rparr>"
    using assms(3) by (auto simp: enqueue_def split: if_splits)
  have "list_all (entry_ok ?t) (bucket_of q ?t)"
    using assms(1) buckets_ok_get by (cases "map_of (buckets q) ?t") (auto simp: q_inv_def bucket_of_def)
  then have "buckets_ok ?bs"
    using assms(1,2) acc by (intro buckets_ok_set) (auto simp: q_inv_def entry_ok_def canAccept_def)
  moreover have ents: "all_entries ?bs = add_mset e (all_entries (buckets q))"
    using all_entries_set [of "buckets q" ?t _ "bucket_of q ?t @ [e]"]
    by (cases "map_of (buckets q) ?t") (auto simp: bucket_of_def all_entries_set_new)
  ultimately show ?thesis
    using assms(1) acc by (auto simp: q_inv_def q' contents_def canAccept_def keys_map_set map_has_iff)
qed

lemma enqueue_refused: "enqueue e q = (False, q') \<Longrightarrow> q' = q \<and> \<not> canAccept q (ecost e)"
  by (auto simp: enqueue_def split: if_splits)

section \<open>The rotation\<close>

definition rr_view :: "'p fcq \<Rightarrow> string list" where
  "rr_view q = rotate (cursor q) (order q)"

lemma set_rr_view [simp]: "set (rr_view q) = set (order q)"
  by (simp add: rr_view_def)

lemma probe_order_view: "map (\<lambda>i. order q ! i) (probe_order q) = rr_view q"
  by (rule nth_equalityI) (auto simp: probe_order_def rr_view_def nth_rotate)

lemma probe_order_less: "i \<in> set (probe_order q) \<Longrightarrow> i < length (order q)"
  by (cases "order q") (auto simp: probe_order_def)

lemma rotate_split: "j < length xs \<Longrightarrow> rotate j xs = drop j xs @ take j xs"
  by (simp add: rotate_drop_take)

lemma rotate_at_tenant:
  assumes "rr_view q = xs @ order q ! i # ys" and "distinct (order q)" and "i < length (order q)"
  shows "drop i (order q) @ take i (order q) = order q ! i # ys @ xs"
proof -
  let ?n = "length (order q)"
  let ?j = "length xs"
  have len: "length (rr_view q) = ?n" by (simp add: rr_view_def)
  then have j: "?j < ?n" using assms(1) by simp
  have "rr_view q ! ?j = order q ! i" using assms(1) by simp
  then have "order q ! ((cursor q + ?j) mod ?n) = order q ! i"
    using j by (simp add: rr_view_def nth_rotate add.commute)
  then have i: "(cursor q + ?j) mod ?n = i"
    using assms(2,3) j nth_eq_iff_index_eq mod_less_divisor by (metis gr_implies_not0 not_gr0)
  have "rotate ?j (rr_view q) = rotate i (order q)"
    unfolding rr_view_def rotate_rotate using i by (metis add.commute rotate_conv_mod)
  moreover have "rotate ?j (rr_view q) = order q ! i # ys @ xs"
    unfolding assms(1) by (simp add: rotate_append)
  ultimately show ?thesis using rotate_split [OF assms(3)] by simp
qed

lemma takeAt_spec:
  assumes inv: "q_inv q" and i: "i < length (order q)" and view: "rr_view q = xs @ order q ! i # ys"
  obtains e rest q' where "bucket_of q (order q ! i) = e # rest" and "takeAt i q = (Some (strip e), q')"
    and "q_inv q'" and "contents q = add_mset (strip e) (contents q')"
    and "rr_view q' = ys @ xs @ (if rest = [] then [] else [order q ! i])"
    and "bucket_of q' = (bucket_of q)(order q ! i := rest)"
    and "q_maxCount q' = q_maxCount q" and "q_maxCost q' = q_maxCost q"
proof -
  let ?t = "order q ! i"
  let ?n = "length (order q)"
  have "bucket_of q ?t \<noteq> []" using bucket_nonempty_iff [OF inv] i by simp
  then obtain e rest where b: "bucket_of q ?t = e # rest" by (cases "bucket_of q ?t") auto
  note m = bucket_of_Cons [OF b]
  have ok: "buckets_ok (buckets q)" and d: "distinct (order q)" using inv by (simp_all add: q_inv_def)
  then have mo: "map_ok (buckets q)" by (simp add: buckets_ok_def)
  have all: "list_all (entry_ok ?t) (e # rest)" using buckets_ok_get [OF ok m] by simp
  note rot = rotate_at_tenant [OF view d i]
  define q' where "q' = snd (takeAt i q)"
  have res: "takeAt i q = (Some (strip e), q')"
    by (simp add: takeAt_def q'_def b Let_def strip_def)
  have "q_inv q' \<and> contents q = add_mset (strip e) (contents q')
    \<and> rr_view q' = ys @ xs @ (if rest = [] then [] else [?t])
    \<and> bucket_of q' = (bucket_of q)(?t := rest)"
  proof (cases "rest = []")
    case True
    let ?ord = "take i (order q) @ drop (Suc i) (order q)"
    have q': "q' = q\<lparr>qcount := qcount q - 1, qcost := qcost q - ecost e, buckets := map_del ?t (buckets q),
        order := ?ord, cursor := (if ?ord = [] then 0 else i mod length ?ord)\<rparr>"
      by (simp add: q'_def takeAt_def b Let_def True)
    have ents: "all_entries (buckets q) = add_mset e (all_entries (map_del ?t (buckets q)))"
      using all_entries_del [OF mo m] True by simp
    have set_ord: "set ?ord = set (order q) - {?t}"
    proof -
      have "order q = take i (order q) @ ?t # drop (Suc i) (order q)" by (rule id_take_nth_drop [OF i])
      then show ?thesis using d by (metis (no_types, lifting) Diff_insert_absorb UnE Un_insert_right
          disjoint_insert(2) distinct.simps(2) distinct_append list.simps(15) set_append)
    qed
    have "rr_view q' = drop (Suc i) (order q) @ take i (order q)"
    proof (cases "i < length ?ord")
      case True
      then show ?thesis
        using i by (simp add: q' rr_view_def rotate_split min_def)
    next
      case False
      then have "Suc i = ?n" using i by (simp add: min_def split: if_splits)
      then show ?thesis using i by (auto simp: q' rr_view_def)
    qed
    also have "\<dots> = ys @ xs"
      using rot Cons_nth_drop_Suc [OF i] by (metis append_Cons list.inject)
    finally have v: "rr_view q' = ys @ xs" .
    have "q_inv q'"
      using inv ents set_ord d all
      by (auto simp: q_inv_def q' buckets_ok_del keys_map_del set_take_disj_set_drop_if_distinct
          entry_ok_def simp del: set_append intro: distinct_take distinct_drop)
    moreover have "bucket_of q' = (bucket_of q)(?t := rest)"
      by (rule ext) (simp add: q' bucket_of_def True)
    ultimately show ?thesis using v ents True by (simp add: contents_def q')
  next
    case False
    have q': "q' = q\<lparr>qcount := qcount q - 1, qcost := qcost q - ecost e, buckets := map_set ?t rest (buckets q),
        cursor := Suc i mod ?n\<rparr>"
      by (simp add: q'_def takeAt_def b Let_def False)
    have ents: "all_entries (buckets q) = add_mset e (all_entries (map_set ?t rest (buckets q)))"
      using all_entries_set [OF m, of rest] by simp
    have "rr_view q' = rotate1 (rotate i (order q))"
      by (simp add: q' rr_view_def flip: rotate_conv_mod)
    also have "\<dots> = ys @ xs @ [?t]" using rot rotate_split [OF i] by simp
    finally have v: "rr_view q' = ys @ xs @ [?t]" .
    have "?t \<in> fst ` set (buckets q)" using inv i nth_mem by (fastforce simp: q_inv_def)
    moreover have "Suc i mod ?n < ?n" using i by (metis gr_implies_not0 mod_less_divisor not_gr0)
    ultimately have "q_inv q'"
      using inv ents all False i buckets_ok_set [OF ok False, of ?t]
      by (auto simp: q_inv_def q' keys_map_set insert_absorb entry_ok_def)
    moreover have "bucket_of q' = (bucket_of q)(?t := rest)"
      by (rule ext) (simp add: q' bucket_of_def)
    ultimately show ?thesis using v ents False by (simp add: contents_def q')
  qed
  moreover have "q_maxCount q' = q_maxCount q" "q_maxCost q' = q_maxCost q"
    by (simp_all add: q'_def takeAt_def b Let_def)
  ultimately show thesis using that [OF b res] by blast
qed

section \<open>Ageing\<close>

lemma head_of_order: "q_inv q \<Longrightarrow> t \<in> set (order q) \<Longrightarrow> \<exists>e. head_of q t = Some e"
  using bucket_nonempty_iff [of q t] by (auto simp: head_of_def split: list.splits)

lemma head_of_entry: "q_inv q \<Longrightarrow> head_of q t = Some e \<Longrightarrow> entry_ok t e"
  using buckets_ok_get [of "buckets q" t]
  by (cases "map_of (buckets q) t")
    (auto simp: head_of_def bucket_of_def q_inv_def split: list.splits)

definition young :: "'p fcq \<Rightarrow> string \<Rightarrow> bool" where
  "young q t \<longleftrightarrow> (case head_of q t of None \<Rightarrow> True | Some e \<Rightarrow> skipCount e < MAX_UNFITTABLE_SKIPS)"

lemma bump_head_spec:
  assumes "q_inv q" and "t \<in> set (order q)" and "young q t"
  shows "q_inv (bump_head t q) \<and> contents (bump_head t q) = contents q
    \<and> (\<forall>u. u \<noteq> t \<longrightarrow> bucket_of (bump_head t q) u = bucket_of q u)"
proof -
  obtain e rest where b: "bucket_of q t = e # rest"
    using bucket_nonempty_iff [OF assms(1), of t] assms(2) by (cases "bucket_of q t") auto
  note m = bucket_of_Cons [OF b]
  let ?e = "e\<lparr>skipCount := skipCount e + 1\<rparr>"
  have q': "bump_head t q = q\<lparr>buckets := map_set t (?e # rest) (buckets q)\<rparr>"
    by (simp add: bump_head_def b)
  have ok: "buckets_ok (buckets q)" using assms(1) by (simp add: q_inv_def)
  have "list_all (entry_ok t) (?e # rest)"
    using buckets_ok_get [OF ok m] assms(3) b by (auto simp: entry_ok_def young_def head_of_def)
  note ok' = buckets_ok_set [OF ok _ this]
  have "all_entries (map_set t (?e # rest) (buckets q)) + mset (e # rest)
      = all_entries (buckets q) + mset (?e # rest)"
    by (rule all_entries_set [OF m])
  then have ents: "add_mset e (all_entries (map_set t (?e # rest) (buckets q)))
      = add_mset ?e (all_entries (buckets q))" by simp
  from arg_cong [OF this, of size] arg_cong [OF this, of total_cost]
    arg_cong [OF this, of "image_mset strip"]
  have "size (all_entries (map_set t (?e # rest) (buckets q))) = size (all_entries (buckets q))"
    "total_cost (all_entries (map_set t (?e # rest) (buckets q))) = total_cost (all_entries (buckets q))"
    "image_mset strip (all_entries (map_set t (?e # rest) (buckets q))) = image_mset strip (all_entries (buckets q))"
    by simp_all
  then show ?thesis
    using assms(1,2) ok' by (auto simp: q' q_inv_def keys_map_set insert_absorb contents_def bucket_of_def)
qed

lemma bump_head_order [simp]: "order (bump_head t q) = order q" "cursor (bump_head t q) = cursor q"
  "q_maxCount (bump_head t q) = q_maxCount q" "q_maxCost (bump_head t q) = q_maxCost q"
  by (simp_all add: bump_head_def split: list.splits)

lemma fold_bump_order [simp]: "order (fold bump_head ts q) = order q"
  "cursor (fold bump_head ts q) = cursor q" "q_maxCount (fold bump_head ts q) = q_maxCount q"
  "q_maxCost (fold bump_head ts q) = q_maxCost q" "rr_view (fold bump_head ts q) = rr_view q"
  by (induction ts arbitrary: q) (simp_all add: rr_view_def)

lemma fold_bump_spec: "q_inv q \<Longrightarrow> distinct ts \<Longrightarrow> set ts \<subseteq> set (order q) \<Longrightarrow> list_all (young q) ts \<Longrightarrow>
    q_inv (fold bump_head ts q) \<and> contents (fold bump_head ts q) = contents q
    \<and> (\<forall>u. u \<notin> set ts \<longrightarrow> bucket_of (fold bump_head ts q) u = bucket_of q u)"
proof (induction ts arbitrary: q)
  case (Cons t ts)
  note b = bump_head_spec [of q t]
  have "young (bump_head t q) u" if "u \<in> set ts" for u
    using Cons.prems b that by (auto simp: young_def head_of_def list_all_iff)
  then have "list_all (young (bump_head t q)) ts" by (simp add: list_all_iff)
  with Cons.IH [of "bump_head t q"] Cons.prems b show ?case by auto
qed simp

lemma find_reserved_None: "find_reserved q js r = None \<longleftrightarrow>
    r = None \<and> list_all (\<lambda>i. young q (order q ! i)) js"
  by (induction q js r rule: find_reserved.induct) (auto simp: young_def split: option.splits)

lemma find_reserved_Some: "find_reserved q js r = Some (i, e) \<Longrightarrow>
    r = Some (i, e) \<or> (i \<in> set js \<and> head_of q (order q ! i) = Some e \<and> MAX_UNFITTABLE_SKIPS \<le> skipCount e)"
  by (induction q js r rule: find_reserved.induct) (auto split: option.splits if_splits)

lemma find_reserved_oldest: "find_reserved q js r = Some (i, e) \<Longrightarrow>
    (\<forall>j x. r = Some (j, x) \<longrightarrow> enqueuedAtMs e \<le> enqueuedAtMs x)
    \<and> (\<forall>j x. j \<in> set js \<longrightarrow> head_of q (order q ! j) = Some x \<longrightarrow> MAX_UNFITTABLE_SKIPS \<le> skipCount x
         \<longrightarrow> enqueuedAtMs e \<le> enqueuedAtMs x)"
proof (induction q js r rule: find_reserved.induct)
  case (2 q i' js r)
  show ?case
  proof (cases "head_of q (order q ! i')")
    case None
    then show ?thesis using 2(1) [OF None] 2(4) by auto
  next
    case (Some x)
    show ?thesis
    proof (cases "MAX_UNFITTABLE_SKIPS \<le> skipCount x \<and>
        (case r of None \<Rightarrow> True | Some (_, y) \<Rightarrow> enqueuedAtMs x < enqueuedAtMs y)")
      case True
      then show ?thesis using 2(2) [OF Some True] 2(4) Some by (fastforce split: option.splits)
    next
      case False
      then show ?thesis using 2(3) [OF Some False] 2(4) Some by (fastforce split: option.splits)
    qed
  qed
qed simp

definition fits :: "'p fcq \<Rightarrow> int \<Rightarrow> string \<Rightarrow> bool" where
  "fits q c t \<longleftrightarrow> (case head_of q t of None \<Rightarrow> False | Some e \<Rightarrow> ecost e \<le> c)"

lemma scan_fit_none: "list_all (\<lambda>i. \<not> fits q c (order q ! i)) js \<Longrightarrow> scan_fit q c js bp = (None, q)"
  by (induction q c js bp rule: scan_fit.induct) (auto simp: fits_def split: option.splits)

lemma scan_fit_some: "list_all (\<lambda>i. head_of q (order q ! i) \<noteq> None \<and> \<not> fits q c (order q ! i)) xs \<Longrightarrow>
    fits q c (order q ! i) \<Longrightarrow>
    scan_fit q c (xs @ i # ys) bp = takeAt i (fold bump_head (bp @ map (\<lambda>i. order q ! i) xs) q)"
  by (induction xs arbitrary: bp) (auto simp: fits_def split: option.splits)

section \<open>Dequeueing\<close>

lemma view_of_index: "i \<in> set (probe_order q) \<Longrightarrow> \<exists>xs ys. rr_view q = xs @ order q ! i # ys"
  using split_list [of "order q ! i" "rr_view q"] probe_order_less [of i q] by simp

lemma probe_order_set: "set (map (\<lambda>i. order q ! i) (probe_order q)) = set (order q)"
  unfolding probe_order_view by simp

lemma list_all_probe: "list_all (\<lambda>i. P (order q ! i)) (probe_order q) \<longleftrightarrow> list_all P (rr_view q)"
  by (simp add: list.pred_map comp_def flip: probe_order_view)

lemma scan_fit_none_view:
  "list_all (\<lambda>u. \<not> fits q c u) (rr_view q) \<Longrightarrow> scan_fit q c (probe_order q) bp = (None, q)"
  using scan_fit_none [of q c "probe_order q"] list_all_probe [of "\<lambda>u. \<not> fits q c u" q] by simp

text \<open>Without an aged head: the first tenant of the rotation whose head fits is served.\<close>

lemma dequeue_rotation:
  assumes inv: "q_inv q" and young: "list_all (young q) (rr_view q)"
    and view: "rr_view q = xs @ t # ys" and un: "list_all (\<lambda>u. \<not> fits q c u) xs" and fit: "fits q c t"
  obtains e rest q' where "bucket_of q t = e # rest" and "dequeue c q = (Some (strip e), q')"
    and "q_inv q'" and "contents q = add_mset (strip e) (contents q')"
    and "rr_view q' = ys @ xs @ (if rest = [] then [] else [t])" and "ecost e \<le> c"
    and "q_maxCount q' = q_maxCount q" and "q_maxCost q' = q_maxCost q"
proof -
  obtain ps i js where p: "probe_order q = ps @ i # js" and ps: "map (\<lambda>i. order q ! i) ps = xs"
    and i: "order q ! i = t"
    using view by (auto simp: map_eq_append_conv map_eq_Cons_conv simp flip: probe_order_view)
  have d: "distinct (rr_view q)" using inv by (simp add: rr_view_def q_inv_def)
  have sub: "set xs \<subseteq> set (order q)" and t: "t \<in> set (order q)" and nt: "t \<notin> set xs"
    using view d by (auto simp flip: set_rr_view)
  have "qcount q \<noteq> 0"
  proof
    assume "qcount q = 0"
    then have "all_entries (buckets q) = {#}" using inv by (simp add: q_inv_def)
    moreover have "bucket_of q t \<noteq> []" using bucket_nonempty_iff [OF inv] t by simp
    then obtain e r where "bucket_of q t = e # r" by (cases "bucket_of q t") auto
    ultimately show False
      using all_entries_set [OF bucket_of_Cons, of q t e r "[]"] by simp
  qed
  moreover have "find_reserved q (probe_order q) None = None"
    using young by (simp add: find_reserved_None list_all_probe)
  moreover have "scan_fit q c (ps @ i # js) []
      = takeAt i (fold bump_head ([] @ map (\<lambda>i. order q ! i) ps) q)"
  proof (rule scan_fit_some)
    show "list_all (\<lambda>i. head_of q (order q ! i) \<noteq> None \<and> \<not> fits q c (order q ! i)) ps"
      using un sub head_of_order [OF inv] by (force simp: list_all_iff simp flip: ps)
    show "fits q c (order q ! i)" using fit i by simp
  qed
  ultimately have deq: "dequeue c q = takeAt i (fold bump_head xs q)"
    by (simp add: dequeue_def p ps)
  let ?q = "fold bump_head xs q"
  have b: "q_inv ?q \<and> contents ?q = contents q \<and> (\<forall>u. u \<notin> set xs \<longrightarrow> bucket_of ?q u = bucket_of q u)"
    using inv d view sub young by (intro fold_bump_spec) (auto simp: list_all_iff)
  have il: "i < length (order ?q)" using probe_order_less [of i q] p by simp
  have v: "rr_view ?q = xs @ order ?q ! i # ys" using view i by simp
  have inv': "q_inv ?q" using b by blast
  show thesis
  proof (rule takeAt_spec [OF inv' il v])
    fix e rest q'
    assume "bucket_of ?q (order ?q ! i) = e # rest" and tk: "takeAt i ?q = (Some (strip e), q')"
      and q': "q_inv q'" "contents ?q = add_mset (strip e) (contents q')"
      "rr_view q' = ys @ xs @ (if rest = [] then [] else [order ?q ! i])"
      and caps: "q_maxCount q' = q_maxCount ?q" "q_maxCost q' = q_maxCost ?q"
    then have bt: "bucket_of q t = e # rest" using b nt i by simp
    then have "ecost e \<le> c" using fit by (simp add: fits_def head_of_def)
    then show thesis using that [OF bt] deq tk q' caps b i by simp
  qed
qed

lemma dequeue_Some:
  assumes inv: "q_inv q" and deq: "dequeue c q = (Some e, q')"
  shows "q_inv q' \<and> contents q = add_mset e (contents q') \<and> ecost e \<le> c
    \<and> q_maxCount q' = q_maxCount q \<and> q_maxCost q' = q_maxCost q"
proof (cases "find_reserved q (probe_order q) None")
  case None
  then have y: "list_all (young q) (rr_view q)" by (simp add: find_reserved_None list_all_probe)
  have "\<not> list_all (\<lambda>u. \<not> fits q c u) (rr_view q)"
    using deq None scan_fit_none_view [of q c "[]"] by (auto simp: dequeue_def split: if_splits)
  then have "\<exists>u\<in>set (rr_view q). fits q c u" by (auto simp: list_all_iff)
  from split_list_first_prop [OF this] obtain xs t ys
    where v: "rr_view q = xs @ t # ys" and t: "fits q c t" and xs: "list_all (\<lambda>u. \<not> fits q c u) xs"
    by (auto simp: list_all_iff)
  show ?thesis
    by (rule dequeue_rotation [OF inv y v xs t]) (use deq in auto)
next
  case (Some r)
  obtain i x where r: "r = (i, x)" by (cases r)
  have i: "i \<in> set (probe_order q)" and x: "head_of q (order q ! i) = Some x"
    using find_reserved_Some Some r by fastforce+
  then obtain xs ys where v: "rr_view q = xs @ order q ! i # ys" using view_of_index by blast
  have c: "ecost x \<le> c" and tk: "takeAt i q = (Some e, q')"
    using deq Some r by (auto simp: dequeue_def split: if_splits)
  show ?thesis
    by (rule takeAt_spec [OF inv probe_order_less [OF i] v])
      (use tk c x in \<open>auto simp: head_of_def\<close>)
qed

lemma dequeue_None: "q_inv q \<Longrightarrow> dequeue c q = (None, q') \<Longrightarrow>
    q' = q \<and> (contents q = {#} \<or> (\<exists>t e. head_of q t = Some e \<and> c < ecost e))"
proof -
  assume inv: "q_inv q" and deq: "dequeue c q = (None, q')"
  show ?thesis
  proof (cases "qcount q = 0")
    case True
    then show ?thesis using inv deq by (simp add: dequeue_def q_inv_def contents_def)
  next
    case False
    then have "buckets q \<noteq> []" using inv by (auto simp: q_inv_def)
    then have ne: "order q \<noteq> []" using inv by (auto simp: q_inv_def)
    show ?thesis
    proof (cases "find_reserved q (probe_order q) None")
      case None
      have "list_all (\<lambda>u. \<not> fits q c u) (rr_view q)"
      proof (rule ccontr)
        assume "\<not> ?thesis"
        then have "\<exists>u\<in>set (rr_view q). fits q c u" by (auto simp: list_all_iff)
        from split_list_first_prop [OF this] obtain xs t ys
          where v: "rr_view q = xs @ t # ys" "fits q c t" "list_all (\<lambda>u. \<not> fits q c u) xs"
          by (auto simp: list_all_iff)
        have "list_all (young q) (rr_view q)" using None by (simp add: find_reserved_None list_all_probe)
        from dequeue_rotation [OF inv this v(1,3,2)] deq show False by (metis option.distinct(1) prod.inject)
      qed
      moreover have "hd (order q) \<in> set (rr_view q)" using ne by simp
      ultimately have "\<not> fits q c (hd (order q))" unfolding list_all_iff by blast
      then have "\<exists>e. head_of q (hd (order q)) = Some e \<and> c < ecost e"
        using head_of_order [OF inv, of "hd (order q)"] ne by (auto simp: fits_def)
      moreover have "q' = q" using deq None False scan_fit_none_view [of q c "[]"]
        \<open>list_all (\<lambda>u. \<not> fits q c u) (rr_view q)\<close>
        by (auto simp: dequeue_def)
      ultimately show ?thesis by blast
    next
      case (Some r)
      obtain i x where r: "r = (i, x)" by (cases r)
      have i: "i \<in> set (probe_order q)" and x: "head_of q (order q ! i) = Some x"
        using find_reserved_Some Some r by fastforce+
      then obtain xs ys where v: "rr_view q = xs @ order q ! i # ys" using view_of_index by blast
      have "\<not> ecost x \<le> c"
      proof
        assume "ecost x \<le> c"
        then have "takeAt i q = (None, q')" using deq Some r False by (simp add: dequeue_def)
        with takeAt_spec [OF inv probe_order_less [OF i] v] show False by (metis option.distinct(1) prod.inject)
      qed
      then have "\<exists>t e. head_of q t = Some e \<and> c < ecost e" using x by force
      then show ?thesis using deq Some r \<open>\<not> ecost x \<le> c\<close> by (auto simp: dequeue_def split: if_splits)
    qed
  qed
qed

section \<open>Removal and draining\<close>

lemma splice_first_mset: "List.find P xs = Some e \<Longrightarrow> mset xs = add_mset e (mset (splice_first P xs))"
  by (induction xs) (auto split: if_splits)

lemma splice_first_all: "list_all Q xs \<Longrightarrow> list_all Q (splice_first P xs)"
  by (induction xs) auto

lemma remove_from_None: "remove_from i js q = (None, q') \<Longrightarrow>
    q' = q \<and> list_all (\<lambda>ti. List.find (\<lambda>e. eid e = i) (bucket_of q (order q ! ti)) = None) js"
  by (induction i js q rule: remove_from.induct) (auto simp: Let_def split: option.splits)

definition removed_at :: "nat \<Rightarrow> nat \<Rightarrow> 'p fcq \<Rightarrow> 'p fcq" where
  "removed_at i ti q = snd (remove_from i [ti] q)"

lemma remove_from_Some: "remove_from i js q = (Some e, q') \<Longrightarrow>
    \<exists>ti\<in>set js. List.find (\<lambda>e. eid e = i) (bucket_of q (order q ! ti)) = Some e \<and> q' = removed_at i ti q"
proof (induction js)
  case (Cons ti js)
  show ?case
  proof (cases "List.find (\<lambda>e. eid e = i) (bucket_of q (order q ! ti))")
    case None
    then have "remove_from i (ti # js) q = remove_from i js q" by simp
    then show ?thesis using Cons by auto
  next
    case (Some x)
    then have "remove_from i (ti # js) q = (Some x, removed_at i ti q)"
      by (simp add: Let_def removed_at_def split del: if_split)
    then show ?thesis using Cons.prems Some by simp
  qed
qed simp

text \<open>Taking the tenant at an index out of the rotation, with the cursor moved as the code does.\<close>

lemma rotate_without:
  assumes "ti < length ord" and "c < length ord" and "distinct ord"
    and "ord' = take ti ord @ drop (Suc ti) ord"
  shows "rotate (if ord' = [] then 0 else if ti < c then c - 1 else if c \<ge> length ord' then 0 else c) ord'
      = remove1 (ord ! ti) (rotate c ord)"
proof -
  have view: "rotate c ord = drop c ord @ take c ord" by (rule rotate_split [OF assms(2)])
  have ord: "ord = take ti ord @ ord ! ti # drop (Suc ti) ord" by (rule id_take_nth_drop [OF assms(1)])
  then have "distinct (take ti ord @ ord ! ti # drop (Suc ti) ord)" using assms(3) by simp
  then have out: "ord ! ti \<notin> set (take ti ord)" "ord ! ti \<notin> set (drop (Suc ti) ord)" by simp_all
  show ?thesis
  proof (cases "ti < c")
    case True
    have tc: "take c ord = take ti ord @ ord ! ti # drop (Suc ti) (take c ord)"
      using id_take_nth_drop [of ti "take c ord"] True assms(2) by (simp add: min_def)
    have "remove1 (ord ! ti) (take c ord) = take ti ord @ drop (Suc ti) (take c ord)"
      by (subst tc) (simp add: remove1_append out)
    moreover have "ord ! ti \<notin> set (drop c ord)"
      using out(2) True set_drop_subset_set_drop [of "Suc ti" c ord] by auto
    ultimately have "remove1 (ord ! ti) (rotate c ord)
        = drop c ord @ take ti ord @ drop (Suc ti) (take c ord)"
      using view by (simp add: remove1_append)
    moreover have "rotate (c - 1) ord' = drop c ord @ take ti ord @ drop (Suc ti) (take c ord)"
      using True assms(1,2)
      by (cases "ti = c - 1") (auto simp: assms(4) rotate_drop_take drop_take min_def)
    moreover have "ord' \<noteq> []" using True assms(1,2,4) by auto
    ultimately show ?thesis using True by simp
  next
    case False
    then have c: "c \<le> ti" by simp
    have "drop c ord = drop c (take ti ord) @ ord ! ti # drop (Suc ti) ord"
      using arg_cong [OF ord, of "drop c"] c assms(1) by (simp add: min_def)
    moreover have "ord ! ti \<notin> set (drop c (take ti ord))" using out(1) in_set_dropD by metis
    ultimately have rm: "remove1 (ord ! ti) (rotate c ord)
        = drop c (take ti ord) @ drop (Suc ti) ord @ take c ord"
      using view by (simp add: remove1_append)
    have "drop c ord' @ take c ord' = drop c (take ti ord) @ drop (Suc ti) ord @ take c ord"
      using c assms(1) by (simp add: assms(4) min_def)
    then have eq: "drop c ord' @ take c ord' = remove1 (ord ! ti) (rotate c ord)"
      using rm by simp
    show ?thesis
    proof (cases "c < length ord'")
      case True
      then show ?thesis using False eq rotate_split [OF True] by auto
    next
      case big: False
      then have "ord' = remove1 (ord ! ti) (rotate c ord)" using eq by simp
      then show ?thesis using False big by simp
    qed
  qed
qed

lemma removed_at_spec:
  assumes inv: "q_inv q" and i: "ti < length (order q)"
    and f: "List.find (\<lambda>e. eid e = i) (bucket_of q (order q ! ti)) = Some e"
  shows "q_inv (removed_at i ti q) \<and> contents q = add_mset (strip e) (contents (removed_at i ti q))
    \<and> rr_view (removed_at i ti q)
        = (if splice_first (\<lambda>e. eid e = i) (bucket_of q (order q ! ti)) = []
           then remove1 (order q ! ti) (rr_view q) else rr_view q)
    \<and> q_maxCount (removed_at i ti q) = q_maxCount q \<and> q_maxCost (removed_at i ti q) = q_maxCost q"
proof -
  let ?t = "order q ! ti"
  let ?b = "splice_first (\<lambda>e. eid e = i) (bucket_of q ?t)"
  let ?q1 = "q\<lparr>qcount := qcount q - 1, qcost := qcost q - ecost e\<rparr>"
  obtain x xs where xb: "bucket_of q ?t = x # xs" using f by (cases "bucket_of q ?t") auto
  note m = bucket_of_Cons [OF xb]
  have ok: "buckets_ok (buckets q)" and d: "distinct (order q)" using inv by (simp_all add: q_inv_def)
  then have mo: "map_ok (buckets q)" by (simp add: buckets_ok_def)
  have ms: "mset (x # xs) = add_mset e (mset ?b)" using splice_first_mset [OF f] xb by simp
  have all: "list_all (entry_ok ?t) (bucket_of q ?t)" using buckets_ok_get [OF ok m] xb by simp
  have pos: "0 < ecost e" using find_Some_iff f all by (force simp: find_Some_iff list_all_length entry_ok_def)
  show ?thesis
  proof (cases "?b = []")
    case True
    let ?ord = "take ti (order q) @ drop (Suc ti) (order q)"
    have q': "removed_at i ti q = ?q1\<lparr>buckets := map_del ?t (buckets q), order := ?ord,
        cursor := (if ?ord = [] then 0 else if ti < cursor q then cursor q - 1
                   else if cursor q \<ge> length ?ord then 0 else cursor q)\<rparr>"
      using f True by (simp add: removed_at_def Let_def split del: if_split)
    have ents: "all_entries (buckets q) = add_mset e (all_entries (map_del ?t (buckets q)))"
      using all_entries_del [OF mo m] ms True by simp
    have c: "cursor q < length (order q)" using inv i by (auto simp: q_inv_def split: if_splits)
    have rr: "rr_view (removed_at i ti q) = remove1 ?t (rr_view q)"
      using rotate_without [OF i c d refl] by (simp add: rr_view_def q' split del: if_split)
    have "set ?ord = set (rr_view (removed_at i ti q))" by (simp add: q' split del: if_split)
    also have "\<dots> = set (rr_view q) - {?t}" unfolding rr using d by (simp add: rr_view_def)
    also have "\<dots> = set (order q) - {?t}" by simp
    finally have so: "set ?ord = set (order q) - {?t}" .
    have cur: "cursor (removed_at i ti q) = (if ?ord = [] then 0 else if ti < cursor q then cursor q - 1
        else if cursor q \<ge> length ?ord then 0 else cursor q)"
      by (simp add: q' split del: if_split)
    have "length ?ord = length (order q) - 1" using i by simp
    then have "if ?ord = [] then cursor (removed_at i ti q) = 0
        else cursor (removed_at i ti q) < length ?ord"
      unfolding cur using c by (cases "?ord = []") (simp_all, linarith?)
    moreover have "distinct ?ord"
      using d by (simp add: set_take_disj_set_drop_if_distinct)
    moreover have f: "buckets (removed_at i ti q) = map_del ?t (buckets q)" "order (removed_at i ti q) = ?ord"
        "qcount (removed_at i ti q) = qcount q - 1" "qcost (removed_at i ti q) = qcost q - ecost e"
        "q_maxCount (removed_at i ti q) = q_maxCount q" "q_maxCost (removed_at i ti q) = q_maxCost q"
      by (simp_all add: q' split del: if_split)
    moreover have "fst ` set (map_del ?t (buckets q)) = set ?ord"
      using inv so by (simp add: q_inv_def keys_map_del)
    ultimately have "q_inv (removed_at i ti q)"
      using inv ents pos unfolding q_inv_def f by (simp add: buckets_ok_del split del: if_split)
    then show ?thesis using rr ents True by (simp add: contents_def q' split del: if_split)
  next
    case False
    have q': "removed_at i ti q = ?q1\<lparr>buckets := map_set ?t ?b (buckets q)\<rparr>"
      using f False by (simp add: removed_at_def Let_def split del: if_split)
    have "all_entries (map_set ?t ?b (buckets q)) + mset (x # xs) = all_entries (buckets q) + mset ?b"
      by (rule all_entries_set [OF m])
    then have "all_entries (map_set ?t ?b (buckets q)) + add_mset e (mset ?b)
        = all_entries (buckets q) + mset ?b" by (simp only: ms)
    then have ents: "all_entries (buckets q) = add_mset e (all_entries (map_set ?t ?b (buckets q)))"
      by simp
    have "?t \<in> fst ` set (buckets q)" using inv i nth_mem by (fastforce simp: q_inv_def)
    then have "q_inv (removed_at i ti q)"
      using inv ents buckets_ok_set [OF ok False splice_first_all [OF all]] pos
      by (auto simp: q_inv_def q' keys_map_set insert_absorb)
    then show ?thesis using ents False by (simp add: contents_def q' rr_view_def)
  qed
qed

lemma removeById_Some:
  assumes "q_inv q" and "removeById i q = (Some e, q')"
  shows "q_inv q' \<and> contents q = add_mset (strip e) (contents q') \<and> eid e = i
    \<and> q_maxCount q' = q_maxCount q \<and> q_maxCost q' = q_maxCost q"
proof -
  obtain ti where ti: "ti < length (order q)"
    and f: "List.find (\<lambda>e. eid e = i) (bucket_of q (order q ! ti)) = Some e" and q': "q' = removed_at i ti q"
    using assms(2) remove_from_Some by (fastforce simp: removeById_def)
  then have "eid e = i" by (auto simp: find_Some_iff)
  with removed_at_spec [OF assms(1) ti f] q' show ?thesis by blast
qed

lemma removeById_None:
  assumes "q_inv q" and "removeById i q = (None, q')"
  shows "q' = q \<and> (\<forall>e. e \<in># contents q \<longrightarrow> eid e \<noteq> i)"
proof -
  have q': "q' = q" and no: "\<And>ti. ti < length (order q) \<Longrightarrow>
      List.find (\<lambda>e. eid e = i) (bucket_of q (order q ! ti)) = None"
    using remove_from_None assms(2) by (fastforce simp: removeById_def list_all_iff)+
  have "eid e \<noteq> i" if mem: "e \<in># all_entries (buckets q)" for e
  proof -
    obtain t b where tb: "(t, b) \<in> set (buckets q)" and e: "e \<in> set b"
      using mem by (auto simp: all_entries_def)
    then have "map_of (buckets q) t = Some b" using assms(1)
      by (auto simp: q_inv_def buckets_ok_def intro: map_ok_nth_unique)
    then have "bucket_of q t = b" by (simp add: bucket_of_def)
    moreover have "t \<in> set (order q)" using tb assms(1) by (force simp: q_inv_def)
    ultimately show ?thesis using no e by (auto simp: in_set_conv_nth find_None_iff)
  qed
  moreover have "\<exists>x. x \<in># all_entries (buckets q) \<and> e = strip x" if "e \<in># contents q" for e
    using that by (auto simp: contents_def)
  ultimately show ?thesis using q' by force
qed

lemma drain_loop_spec: "q_inv q \<Longrightarrow> drain_loop q = (es, q') \<Longrightarrow>
    q_inv q' \<and> contents q' = {#} \<and> mset es = contents q
    \<and> q_maxCount q' = q_maxCount q \<and> q_maxCost q' = q_maxCost q"
proof (induction q arbitrary: es q' rule: drain_loop.induct)
  case (1 q)
  obtain r q1 where d: "dequeue MAX_SAFE_INTEGER q = (r, q1)" by fastforce
  show ?case
  proof (cases r)
    case None
    then have "q1 = q \<and> (contents q = {#} \<or> (\<exists>t e. head_of q t = Some e \<and> MAX_SAFE_INTEGER < ecost e))"
      using dequeue_None [OF 1(2)] d by simp
    moreover have "\<not> MAX_SAFE_INTEGER < ecost e" if "head_of q t = Some e" for t e
      using head_of_entry [OF 1(2) that] by (simp add: entry_ok_def)
    ultimately show ?thesis using 1(2,3) d None by (subst (asm) drain_loop.simps) auto
  next
    case (Some e)
    obtain es1 q2 where d1: "drain_loop q1 = (es1, q2)" by fastforce
    note dq = dequeue_Some [OF 1(2), of MAX_SAFE_INTEGER e q1]
    have "es = e # es1 \<and> q' = q2" using 1(3) d d1 Some by (subst (asm) drain_loop.simps) simp
    moreover have "q_inv q1" using dq d Some by simp
    note 1(1) [OF d [symmetric] Some this d1]
    ultimately show ?thesis using dq d Some by auto
  qed
qed

lemma drain_spec:
  assumes "q_inv q" and "drain q = (es, q')"
  shows "q_inv q' \<and> contents q' = {#} \<and> mset es = contents q
    \<and> q_maxCount q' = q_maxCount q \<and> q_maxCost q' = q_maxCost q"
proof -
  obtain q1 where d: "drain_loop q = (es, q1)" and q': "q' = q1\<lparr>cursor := 0\<rparr>"
    using assms(2) by (auto simp: drain_def split: prod.splits)
  from drain_loop_spec [OF assms(1) d] show ?thesis
    by (auto simp: q' q_inv_def contents_def)
qed

section \<open>The interface, and the properties\<close>

definition remove_stripped :: "nat \<Rightarrow> 'p fcq \<Rightarrow> 'p queue_entry option \<times> 'p fcq" where
  "remove_stripped i q = (let (r, q') = removeById i q in (map_option strip r, q'))"

definition fresh_entry :: "'p queue_entry \<Rightarrow> bool" where
  "fresh_entry e \<longleftrightarrow> skipCount e = 0"

lemma strip_fresh: "fresh_entry e \<Longrightarrow> strip e = e"
  by (simp add: fresh_entry_def strip_def)

interpretation fq: cost_queue "q_inv :: 'p fcq \<Rightarrow> bool" contents ecost fresh_entry enqueue dequeue
  remove_stripped
proof
  fix q q' :: "'p fcq" and e i c
  show "q_inv q \<Longrightarrow> fresh_entry e \<Longrightarrow> enqueue e q = (True, q') \<Longrightarrow>
      q_inv q' \<and> contents q' = add_mset e (contents q)"
    using q_inv_enqueue [of q e q'] strip_fresh [of e] by (simp add: fresh_entry_def)
  show "enqueue e q = (False, q') \<Longrightarrow> q' = q"
    using enqueue_refused by blast
  show "q_inv q \<Longrightarrow> dequeue c q = (Some e, q') \<Longrightarrow>
      q_inv q' \<and> contents q = add_mset e (contents q') \<and> ecost e \<le> c"
    using dequeue_Some by blast
  show "q_inv q \<Longrightarrow> dequeue c q = (None, q') \<Longrightarrow> q' = q"
    using dequeue_None by blast
  show "q_inv q \<Longrightarrow> remove_stripped i q = (Some e, q') \<Longrightarrow>
      q_inv q' \<and> contents q = add_mset e (contents q')"
    using removeById_Some by (fastforce simp: remove_stripped_def split: prod.splits)
  show "q_inv q \<Longrightarrow> remove_stripped i q = (None, q') \<Longrightarrow> q' = q"
    using removeById_None by (fastforce simp: remove_stripped_def split: prod.splits)
qed

lemma queue_run_caps: "queue_run enqueue dequeue remove_stripped ops q = (acc, out, q') \<Longrightarrow> q_inv q \<Longrightarrow>
    list_all (\<lambda>p. case p of Put e \<Rightarrow> fresh_entry e | _ \<Rightarrow> True) ops \<Longrightarrow>
    q_maxCount q' = q_maxCount q \<and> q_maxCost q' = q_maxCost q"
proof (induction ops arbitrary: q acc out)
  case (Cons p ops)
  show ?case
  proof (cases p)
    case (Put e)
    obtain ok q1 where p1: "enqueue e q = (ok, q1)" by fastforce
    then show ?thesis
      using Cons q_inv_enqueue [of q e q1] enqueue_refused [of e q q1] Put
      by (cases ok) (auto simp: fresh_entry_def split: prod.splits)
  next
    case (Get c)
    obtain x q1 where p1: "dequeue c q = (x, q1)" by fastforce
    then show ?thesis
      using Cons dequeue_Some [of q c _ q1] dequeue_None [of q c q1] Get
      by (cases x) (auto split: prod.splits)
  next
    case (Take i)
    obtain x q1 where p1: "removeById i q = (x, q1)" by fastforce
    then show ?thesis
      using Cons removeById_Some [of q i _ q1] removeById_None [of q i q1] Take
      by (cases x) (auto simp: remove_stripped_def split: prod.splits)
  qed
qed simp

text \<open>C7. Nothing is lost, duplicated or over-booked: over any sequence of enqueues, dequeues under any
  cost bound and removals by identifier, the accepted entries are exactly those handed out plus those
  still stored, the counters equal the number and the cost of the stored entries, and both stay
  within the caps.\<close>

theorem fair_queue_conserves:
  assumes "queue_run enqueue dequeue remove_stripped ops (newFairCostQueue n c) = (acc, out, q)"
    and "list_all (\<lambda>p. case p of Put e \<Rightarrow> fresh_entry e | _ \<Rightarrow> True) ops" and "0 \<le> n" and "0 \<le> c"
  shows "mset acc = contents q + mset out \<and> qcount q = int (size (contents q))
    \<and> qcost q = total_cost (contents q) \<and> qcount q \<le> n \<and> qcost q \<le> c"
proof -
  have "q_inv q \<and> contents (newFairCostQueue n c) + mset acc = contents q + mset out"
    using fq.conservation [OF q_inv_new assms(2,1)] .
  moreover have "q_maxCount q = n \<and> q_maxCost q = c"
    using queue_run_caps [OF assms(1) q_inv_new assms(2)] by (simp add: newFairCostQueue_def)
  ultimately show ?thesis
    using assms(3,4) by (auto simp: contents_def q_inv_def newFairCostQueue_def)
qed

definition entry :: "nat \<Rightarrow> string \<Rightarrow> int \<Rightarrow> unit queue_entry" where
  "entry i t k = \<lparr>eid = i, tenantKey = t, ecost = k, enqueuedAtMs = int i, deadlineMs = 100,
     payload = (), skipCount = 0\<rparr>"

definition sample_ops :: "unit queue_entry queue_op list" where
  "sample_ops = [Put (entry 1 ''a'' 5), Put (entry 2 ''b'' 1), Put (entry 3 ''b'' 1),
     Put (entry 4 ''c'' 9), Get 2, Take 3]"

lemma fair_queue_conserves_witness:
  "mset [entry 1 ''a'' 5, entry 2 ''b'' 1, entry 3 ''b'' 1]
     = contents (snd (snd (queue_run enqueue dequeue remove_stripped sample_ops (newFairCostQueue 3 8))))
       + mset [entry 2 ''b'' 1, entry 3 ''b'' 1]"
proof -
  let ?r = "queue_run enqueue dequeue remove_stripped sample_ops (newFairCostQueue 3 8)"
  have acc: "fst ?r = [entry 1 ''a'' 5, entry 2 ''b'' 1, entry 3 ''b'' 1]" by code_simp
  have out: "fst (snd ?r) = [entry 2 ''b'' 1, entry 3 ''b'' 1]" by code_simp
  have "?r = (fst ?r, fst (snd ?r), snd (snd ?r))" by simp
  from fair_queue_conserves [OF this] show ?thesis
    unfolding acc out by (simp add: sample_ops_def entry_def fresh_entry_def)
qed

text \<open>The queue a sequence of operations leaves; a newly put entry has not been passed over.\<close>

definition queue_after :: "int \<Rightarrow> int \<Rightarrow> 'p queue_entry queue_op list \<Rightarrow> 'p fcq" where
  "queue_after n c ops = snd (snd (queue_run enqueue dequeue remove_stripped
     (map (\<lambda>p. case p of Put e \<Rightarrow> Put (strip e) | q \<Rightarrow> q) ops) (newFairCostQueue n c)))"

lemma q_inv_queue_after: "q_inv (queue_after n c ops)"
proof -
  let ?ops = "map (\<lambda>p. case p of Put e \<Rightarrow> Put (strip e) | q \<Rightarrow> q) ops"
  obtain acc out q where r: "queue_run enqueue dequeue remove_stripped ?ops (newFairCostQueue n c) = (acc, out, q)"
    by (metis prod_cases3)
  have "list_all (\<lambda>p. case p of Put e \<Rightarrow> fresh_entry e | _ \<Rightarrow> True) ?ops"
    by (auto simp: list_all_iff fresh_entry_def split: queue_op.splits)
  from fq.conservation [OF q_inv_new this r] show ?thesis
    by (simp add: queue_after_def r)
qed

text \<open>C10. Round robin: while no head has been passed over twice, a dequeue serves the first tenant of
  the rotation whose oldest entry fits; the rotation goes on behind it, the tenants passed over keep
  their places, and the tenant served goes to the end, or leaves with its last entry.\<close>

theorem dequeue_round_robin:
  assumes "list_all (young (queue_after n k ops)) (rr_view (queue_after n k ops))"
    and "rr_view (queue_after n k ops) = xs @ t # ys"
    and "list_all (\<lambda>u. \<not> fits (queue_after n k ops) c u) xs" and "fits (queue_after n k ops) c t"
  shows "fst (dequeue c (queue_after n k ops)) = map_option strip (head_of (queue_after n k ops) t)
    \<and> rr_view (snd (dequeue c (queue_after n k ops)))
        = ys @ xs @ (if length (bucket_of (queue_after n k ops) t) = 1 then [] else [t])"
  by (rule dequeue_rotation [OF q_inv_queue_after assms]) (simp add: head_of_def)

definition busy_ops :: "unit queue_entry queue_op list" where
  "busy_ops = [Put (entry 1 ''a'' 5), Put (entry 2 ''b'' 1), Put (entry 3 ''b'' 1), Put (entry 4 ''c'' 2)]"

lemma dequeue_round_robin_witness:
  "rr_view (snd (dequeue 3 (queue_after 9 99 busy_ops))) = [''c'', ''a'', ''b'']"
proof -
  let ?q = "queue_after 9 99 busy_ops"
  have v: "rr_view ?q = [''a''] @ ''b'' # [''c'']" by code_simp
  have y: "list_all (young ?q) (rr_view ?q)" by code_simp
  have f: "list_all (\<lambda>u. \<not> fits ?q 3 u) [''a'']" "fits ?q 3 ''b''" by code_simp+
  have l: "length (bucket_of ?q ''b'') = 2" by code_simp
  from dequeue_round_robin [OF y v f] show ?thesis by (simp add: l)
qed

section \<open>Entries that were passed over twice\<close>

definition aged :: "'p fcq \<Rightarrow> 'p queue_entry multiset" where
  "aged q = filter_mset (\<lambda>x. MAX_UNFITTABLE_SKIPS \<le> skipCount x) (all_entries (buckets q))"

lemma bucket_entries: "x \<in> set (bucket_of q u) \<Longrightarrow> x \<in># all_entries (buckets q)"
proof -
  assume x: "x \<in> set (bucket_of q u)"
  then obtain b where b: "map_of (buckets q) u = Some b" "x \<in> set b"
    by (cases "map_of (buckets q) u") (simp_all add: bucket_of_def)
  have "(u, b) \<in> set bs \<Longrightarrow> x \<in># all_entries bs" for bs using b(2) by (induction bs) auto
  then show ?thesis using map_of_SomeD [OF b(1)] .
qed

lemma head_in_aged: "head_of q u = Some y \<Longrightarrow> MAX_UNFITTABLE_SKIPS \<le> skipCount y \<Longrightarrow> y \<in># aged q"
  using bucket_entries [of y q u] by (cases "bucket_of q u") (auto simp: head_of_def aged_def)

lemma takeAt_entries:
  assumes "map_ok (buckets q)" and "bucket_of q (order q ! i) = y # rest" and "takeAt i q = (r, q')"
  shows "all_entries (buckets q) = add_mset y (all_entries (buckets q'))"
proof -
  note m = bucket_of_Cons [OF assms(2)]
  show ?thesis
    using assms(2,3) all_entries_del [OF assms(1) m] all_entries_set [OF m, of rest]
    by (cases "rest = []") (auto simp: takeAt_def Let_def)
qed

text \<open>The dequeue while some head is aged: the oldest of those heads is served, or nothing is.\<close>

lemma aged_dequeue:
  assumes inv: "q_inv q" and e: "head_of q t = Some e" "MAX_UNFITTABLE_SKIPS \<le> skipCount e"
  obtains y u q' where "head_of q u = Some y" and "skipCount y = 2"
    and "\<forall>v z. head_of q v = Some z \<and> MAX_UNFITTABLE_SKIPS \<le> skipCount z \<longrightarrow> enqueuedAtMs y \<le> enqueuedAtMs z"
    and "dequeue c q = (if ecost y \<le> c then (Some (strip y), q') else (None, q))"
    and "q_inv q'" and "aged q = add_mset y (aged q')" and "y = e \<or> head_of q' t = Some e"
proof -
  have two: "skipCount z = 2" if "head_of q v = Some z" "MAX_UNFITTABLE_SKIPS \<le> skipCount z" for v z
    using head_of_entry [OF inv that(1)] that(2) by (simp add: entry_ok_def MAX_UNFITTABLE_SKIPS_def)
  have idx: "\<exists>j\<in>set (probe_order q). order q ! j = v" if "head_of q v = Some z" for v z
  proof -
    have "bucket_of q v \<noteq> []" using that by (auto simp: head_of_def)
    then have "v \<in> set (map (\<lambda>i. order q ! i) (probe_order q))"
      using bucket_nonempty_iff [OF inv] unfolding probe_order_view by simp
    then show ?thesis by auto
  qed
  obtain j where j: "j \<in> set (probe_order q)" "order q ! j = t" using idx [OF e(1)] by blast
  then have "find_reserved q (probe_order q) None \<noteq> None"
    using e by (auto simp: find_reserved_None list_all_iff young_def intro!: bexI [of _ j])
  then obtain i y where r: "find_reserved q (probe_order q) None = Some (i, y)" by auto
  have y: "head_of q (order q ! i) = Some y" "MAX_UNFITTABLE_SKIPS \<le> skipCount y" and i: "i \<in> set (probe_order q)"
    using find_reserved_Some [OF r] by auto
  have old: "enqueuedAtMs y \<le> enqueuedAtMs z" if "head_of q v = Some z" "MAX_UNFITTABLE_SKIPS \<le> skipCount z" for v z
    using find_reserved_oldest [OF r] idx [OF that(1)] that by blast
  obtain xs ys where v: "rr_view q = xs @ order q ! i # ys" using view_of_index [OF i] by blast
  obtain rest q' where b: "bucket_of q (order q ! i) = y # rest" and tk: "takeAt i q = (Some (strip y), q')"
      and inv': "q_inv q'" and b': "bucket_of q' = (bucket_of q)(order q ! i := rest)"
    by (rule takeAt_spec [OF inv probe_order_less [OF i] v]) (use y in \<open>auto simp: head_of_def\<close>)
  have ents: "all_entries (buckets q) = add_mset y (all_entries (buckets q'))"
    using takeAt_entries [OF _ b tk] inv by (simp add: q_inv_def buckets_ok_def)
  then have "qcount q \<noteq> 0" using inv by (simp add: q_inv_def)
  moreover have "y = e \<or> head_of q' t = Some e"
    using e(1) y(1) by (cases "t = order q ! i") (auto simp: head_of_def b')
  moreover have "aged q = add_mset y (aged q')" using ents y(2) by (simp add: aged_def)
  moreover have "dequeue c q = (if ecost y \<le> c then (Some (strip y), q') else (None, q))"
    using tk \<open>qcount q \<noteq> 0\<close> by (simp add: dequeue_def r)
  moreover have "\<forall>v z. head_of q v = Some z \<and> MAX_UNFITTABLE_SKIPS \<le> skipCount z \<longrightarrow> enqueuedAtMs y \<le> enqueuedAtMs z"
    using old by blast
  ultimately show thesis using that [OF y(1) two [OF y] _ _ inv'] by blast
qed

text \<open>A time in which nothing is removed and every cost bound covers the aged entries, with enough dequeues.\<close>

definition serves_aged :: "'p fcq \<Rightarrow> 'p queue_entry queue_op list \<Rightarrow> bool" where
  "serves_aged q ops \<longleftrightarrow>
     list_all (\<lambda>p. case p of Put x \<Rightarrow> fresh_entry x | Get c \<Rightarrow> \<forall>x\<in>#aged q. ecost x \<le> c | Take i \<Rightarrow> False) ops
     \<and> size (aged q) \<le> length (filter (\<lambda>p. case p of Get c \<Rightarrow> True | _ \<Rightarrow> False) ops)"

lemma put_keeps_aged:
  assumes "q_inv q" and "fresh_entry x" and "enqueue x q = (ok, q')"
  shows "q_inv q' \<and> aged q' = aged q \<and> (head_of q t = Some e \<longrightarrow> head_of q' t = Some e)"
proof (cases ok)
  case False
  then show ?thesis using enqueue_refused [of x q q'] assms by simp
next
  case True
  let ?b = "bucket_of q (tenantKey x)"
  have q': "buckets q' = map_set (tenantKey x) (?b @ [x]) (buckets q)"
    using assms(3) True by (auto simp: enqueue_def split: if_splits)
  have "all_entries (buckets q') = add_mset x (all_entries (buckets q))"
    using all_entries_set [of "buckets q" "tenantKey x" _ "?b @ [x]"] unfolding q'
    by (cases "map_of (buckets q) (tenantKey x)") (auto simp: bucket_of_def all_entries_set_new)
  then have "aged q' = aged q" using assms(2) by (simp add: aged_def fresh_entry_def MAX_UNFITTABLE_SKIPS_def)
  moreover have "head_of q' t = Some e" if "head_of q t = Some e"
    using that by (auto simp: head_of_def bucket_of_def q' split: list.splits)
  ultimately show ?thesis using q_inv_enqueue [of q x q'] assms True by (simp add: fresh_entry_def)
qed

lemma aged_is_served:
  "q_inv q \<Longrightarrow> head_of q t = Some e \<Longrightarrow> MAX_UNFITTABLE_SKIPS \<le> skipCount e \<Longrightarrow> serves_aged q ops \<Longrightarrow>
    queue_run enqueue dequeue remove_stripped ops q = (acc, out, q') \<Longrightarrow> strip e \<in> set out"
proof (induction ops arbitrary: q acc out)
  case Nil
  then show ?case using head_in_aged [of q t e] by (auto simp: serves_aged_def)
next
  case (Cons p ops)
  show ?case
  proof (cases p)
    case (Put x)
    obtain ok q1 where p1: "enqueue x q = (ok, q1)" by fastforce
    have "fresh_entry x" using Cons.prems(4) Put by (simp add: serves_aged_def)
    note k = put_keeps_aged [OF Cons.prems(1) this p1, of t e]
    then have a: "aged q1 = aged q" by simp
    have "serves_aged q1 ops" using Cons.prems(4) Put unfolding serves_aged_def a by simp
    then show ?thesis using Cons.IH [of q1] Cons.prems k Put p1 by (auto split: prod.splits)
  next
    case (Get c)
    obtain y u q1 where y: "head_of q u = Some y" "skipCount y = 2"
        "dequeue c q = (if ecost y \<le> c then (Some (strip y), q1) else (None, q))"
        "q_inv q1" "aged q = add_mset y (aged q1)" "y = e \<or> head_of q1 t = Some e"
      by (rule aged_dequeue [OF Cons.prems(1-3), where c = c])
    have "ecost y \<le> c" using Cons.prems(4) Get y(5) by (simp add: serves_aged_def)
    moreover have "serves_aged q1 ops"
      using Cons.prems(4) Get y(5) by (auto simp: serves_aged_def list_all_iff split: queue_op.splits)
    ultimately show ?thesis using Cons.IH [of q1] Cons.prems y Get by (auto split: prod.splits)
  next
    case (Take i)
    then show ?thesis using Cons.prems(4) by (simp add: serves_aged_def)
  qed
qed

text \<open>C11. No starvation: an entry is passed over at most twice. While a tenant's head has been, a dequeue
  serves the oldest head that has, when it fits the cost bound, and nothing when it does not, so that
  capacity is kept for it. And such a head is served: over any later sequence of arrivals and dequeues whose
  bounds cover the entries passed over twice, it comes out within as many dequeues as there are such entries.\<close>

theorem aged_head_is_reserved:
  assumes "head_of (queue_after n k ops) t = Some e" and "MAX_UNFITTABLE_SKIPS \<le> skipCount e"
  shows "skipCount e = 2
    \<and> (\<exists>u y. head_of (queue_after n k ops) u = Some y \<and> skipCount y = 2
        \<and> (\<forall>v z. head_of (queue_after n k ops) v = Some z \<and> skipCount z = 2 \<longrightarrow> enqueuedAtMs y \<le> enqueuedAtMs z)
        \<and> (if ecost y \<le> c then fst (dequeue c (queue_after n k ops)) = Some (strip y)
           else dequeue c (queue_after n k ops) = (None, queue_after n k ops)))
    \<and> (serves_aged (queue_after n k ops) later \<longrightarrow>
        strip e \<in> set (fst (snd (queue_run enqueue dequeue remove_stripped later (queue_after n k ops)))))"
proof -
  let ?q = "queue_after n k ops"
  note inv = q_inv_queue_after [of n k ops]
  have two: "skipCount e = 2"
    using head_of_entry [OF inv assms(1)] assms(2) by (simp add: entry_ok_def MAX_UNFITTABLE_SKIPS_def)
  obtain y u q' where y: "head_of ?q u = Some y" "skipCount y = 2"
      "\<forall>v z. head_of ?q v = Some z \<and> MAX_UNFITTABLE_SKIPS \<le> skipCount z \<longrightarrow> enqueuedAtMs y \<le> enqueuedAtMs z"
      "dequeue c ?q = (if ecost y \<le> c then (Some (strip y), q') else (None, ?q))"
      "q_inv q'" "aged ?q = add_mset y (aged q')" "y = e \<or> head_of q' t = Some e"
    by (rule aged_dequeue [OF inv assms, where c = c])
  then have "\<exists>u y. head_of ?q u = Some y \<and> skipCount y = 2
        \<and> (\<forall>v z. head_of ?q v = Some z \<and> skipCount z = 2 \<longrightarrow> enqueuedAtMs y \<le> enqueuedAtMs z)
        \<and> (if ecost y \<le> c then fst (dequeue c ?q) = Some (strip y) else dequeue c ?q = (None, ?q))"
    by (intro exI [of _ u] exI [of _ y]) (auto simp: MAX_UNFITTABLE_SKIPS_def)
  moreover obtain acc out q1 where "queue_run enqueue dequeue remove_stripped later ?q = (acc, out, q1)"
    by (metis prod_cases3)
  ultimately show ?thesis using two aged_is_served [OF inv assms, of later acc out q1] by simp
qed

definition starving_ops :: "unit queue_entry queue_op list" where
  "starving_ops = [Put (entry 1 ''a'' 5), Put (entry 2 ''b'' 1), Put (entry 3 ''b'' 1),
     Put (entry 4 ''b'' 1), Get 2, Get 2]"

lemma aged_head_is_reserved_witness: "dequeue 2 (queue_after 9 99 starving_ops) = (None, queue_after 9 99 starving_ops)
    \<and> entry 1 ''a'' 5 \<in> set (fst (snd (queue_run enqueue dequeue remove_stripped [Put (entry 7 ''b'' 1), Get 5]
        (queue_after 9 99 starving_ops))))"
proof -
  let ?q = "queue_after 9 99 starving_ops"
  have h: "head_of ?q ''a'' = Some ((entry 1 ''a'' 5)\<lparr>skipCount := 2\<rparr>)" by code_simp
  have "aged ?q = {#(entry 1 ''a'' 5)\<lparr>skipCount := 2\<rparr>#}" by code_simp
  then have s: "serves_aged ?q [Put (entry 7 ''b'' 1), Get 5]"
    by (simp add: serves_aged_def fresh_entry_def entry_def)
  have n: "fst (dequeue 2 ?q) = None" by code_simp
  have m: "MAX_UNFITTABLE_SKIPS \<le> skipCount ((entry 1 ''a'' 5)\<lparr>skipCount := 2\<rparr>)" by (simp add: MAX_UNFITTABLE_SKIPS_def)
  from aged_head_is_reserved [OF h m, of 2 "[Put (entry 7 ''b'' 1), Get 5]"] n s show ?thesis
    by (auto simp: strip_def entry_def split: if_splits)
qed

end
