(* ===== verification/AdmissionController.thy ===== *)
theory AdmissionController
  imports Adaptation FairCostQueue
begin

text \<open>
  The adaptive admission controller, \<open>src/open-sse/services/admission/controller.ts\<close>: requests are
  admitted while the summed cost of the outstanding leases stays within an adaptive limit, wait in a
  fair queue (or in a lane of their tenant) otherwise, and are refused when they cannot wait.

  \<^item> Lease and queue identifiers come from one counter, \<open>leaseSeq\<close>. A lease record is reachable through
    \<open>active\<close> until it is released, so \<open>released\<close> is absence from \<open>active\<close>. \<open>settled\<close> logs how the promise
    of each queued request ended.
  \<^item> A synchronous operation sees one clock value, its argument \<open>now\<close>; \<open>ab\<close> lists the abort signals that
    have fired. A payload is the signal of the request, if it has one.
  \<^item> Timers and abort listeners are events (\<open>Expire\<close>, \<open>Tick\<close>); whether one is armed is not needed for
    what is proved, since every theorem holds whenever they fire.
  \<^item> The loops over a queue recurse on its number of entries.
\<close>

section \<open>Data\<close>

datatype disposition = V_active | V_queued | V_rejected | V_none

datatype shadow_decision = Would_admit | Would_queue | Would_reject

datatype settlement = Settled_admitted nat | Settled_rejected reject_code

record lease_rec =
  l_cost :: int
  admittedAtMs :: time
  l_disp :: disposition

record lane =
  lane_queue :: "nat option fcq"
  lastUsedMs :: time

record ctl =
  config :: valid_config
  adapt :: adaptation
  queue :: "nat option fcq"
  virtualQueue :: "nat fcq"
  lanes :: "(string \<times> lane) list"
  active :: "(nat \<times> lease_rec) list"
  activeCost :: int
  virtualActiveCost :: int
  virtualActiveCount :: int
  lastSampleMs :: time
  shutDown :: bool
  admittedCount :: int
  rejectedCount :: int
  wouldAdmitCount :: int
  wouldQueueCount :: int
  wouldRejectCount :: int
  leaseSeq :: nat
  settled :: "(nat \<times> settlement) list"

definition ADMISSION_LANE_TTL_MS :: int where
  "ADMISSION_LANE_TTL_MS = 60000"

definition ADMISSION_LANE_MAX_SESSIONS :: nat where
  "ADMISSION_LANE_MAX_SESSIONS = 1000"

definition default_tenant :: string where
  "default_tenant = ''_default''"

definition saturateSnapshotNumber :: "int \<Rightarrow> int" where
  "saturateSnapshotNumber v =
     (if v \<le> 0 then 0 else if v \<ge> MAX_SAFE_INTEGER then MAX_SAFE_INTEGER else v)"

definition addSaturated :: "int \<Rightarrow> int \<Rightarrow> int" where
  "addSaturated tot delta =
     (if delta \<le> 0 then saturateSnapshotNumber tot
      else if tot \<ge> MAX_SAFE_INTEGER - delta then MAX_SAFE_INTEGER else tot + delta)"

definition newController :: "valid_config \<Rightarrow> time \<Rightarrow> ctl" where
  "newController c now =
     \<lparr>config = c, adapt = createAdaptationState (initialLimit c) (minLimit c) (maxLimit c) now,
      queue = newFairCostQueue (maxQueueCount c) (maxQueueCost c),
      virtualQueue = newFairCostQueue (maxQueueCount c) (maxQueueCost c),
      lanes = [], active = [], activeCost = 0, virtualActiveCost = 0, virtualActiveCount = 0,
      lastSampleMs = now, shutDown = False, admittedCount = 0, rejectedCount = 0,
      wouldAdmitCount = 0, wouldQueueCount = 0, wouldRejectCount = 0, leaseSeq = 0, settled = []\<rparr>"

section \<open>Admission and settling\<close>

definition sampleIntegral :: "time \<Rightarrow> ctl \<Rightarrow> ctl" where
  "sampleIntegral now s =
     (let dt = now - lastSampleMs s in
      if dt > 0
      then let limit = currentLimit (adapt s);
               activeForIntegral = (if activeCost s \<ge> limit then limit else activeCost s)
           in s\<lparr>adapt := sampleActiveIntegral activeForIntegral dt (adapt s), lastSampleMs := now\<rparr>
      else s)"

definition admit :: "time \<Rightarrow> int \<Rightarrow> disposition \<Rightarrow> ctl \<Rightarrow> nat \<times> ctl" where
  "admit now cost d s =
     (let s1 = sampleIntegral now s; i = Suc (leaseSeq s1)
      in (i, s1\<lparr>leaseSeq := i,
               active := map_set i \<lparr>l_cost = cost, admittedAtMs = now, l_disp = d\<rparr> (active s1),
               activeCost := activeCost s1 + cost, admittedCount := admittedCount s1 + 1\<rparr>))"

definition settle_rejected :: "reject_code \<Rightarrow> nat option queue_entry \<Rightarrow> ctl \<Rightarrow> ctl" where
  "settle_rejected code e s = s\<lparr>settled := settled s @ [(eid e, Settled_rejected code)],
     rejectedCount := rejectedCount s + 1\<rparr>"

definition settle_admitted :: "time \<Rightarrow> nat option queue_entry \<Rightarrow> ctl \<Rightarrow> ctl" where
  "settle_admitted now e s =
     (let (i, s1) = admit now (ecost e) V_none s
      in s1\<lparr>settled := settled s1 @ [(eid e, Settled_admitted i)]\<rparr>)"

text \<open>What the dispatch loops do with a dequeued entry; the flag tells whether it was admitted.\<close>

definition signal_aborted :: "nat list \<Rightarrow> nat option queue_entry \<Rightarrow> bool" where
  "signal_aborted ab e = (case payload e of None \<Rightarrow> False | Some sg \<Rightarrow> sg \<in> set ab)"

definition settle_entry :: "time \<Rightarrow> nat list \<Rightarrow> nat option queue_entry \<Rightarrow> ctl \<Rightarrow> bool \<times> ctl" where
  "settle_entry now ab e s =
     (if signal_aborted ab e then (False, settle_rejected Aborted_code e s)
      else if now \<ge> deadlineMs e then (False, settle_rejected Deadline e s)
      else (True, settle_admitted now e s))"

lemma sampleIntegral_fields [simp]:
  "config (sampleIntegral now s) = config s" "queue (sampleIntegral now s) = queue s"
  "virtualQueue (sampleIntegral now s) = virtualQueue s" "lanes (sampleIntegral now s) = lanes s"
  "active (sampleIntegral now s) = active s" "activeCost (sampleIntegral now s) = activeCost s"
  "virtualActiveCost (sampleIntegral now s) = virtualActiveCost s"
  "shutDown (sampleIntegral now s) = shutDown s" "leaseSeq (sampleIntegral now s) = leaseSeq s"
  "settled (sampleIntegral now s) = settled s" "rejectedCount (sampleIntegral now s) = rejectedCount s"
  "admittedCount (sampleIntegral now s) = admittedCount s"
  "currentLimit (adapt (sampleIntegral now s)) = currentLimit (adapt s)"
  by (simp_all add: sampleIntegral_def sampleActiveIntegral_def Let_def)

lemma admit_fields [simp]:
  "queue (snd (admit now cost d s)) = queue s" "lanes (snd (admit now cost d s)) = lanes s"
  "config (snd (admit now cost d s)) = config s" "shutDown (snd (admit now cost d s)) = shutDown s"
  "virtualQueue (snd (admit now cost d s)) = virtualQueue s"
  "settled (snd (admit now cost d s)) = settled s"
  "activeCost (snd (admit now cost d s)) = activeCost s + cost"
  "leaseSeq (snd (admit now cost d s)) = Suc (leaseSeq s)"
  "currentLimit (adapt (snd (admit now cost d s))) = currentLimit (adapt s)"
  "fst (admit now cost d s) = Suc (leaseSeq s)"
  by (simp_all add: admit_def Let_def)

lemma settle_entry_fields [simp]:
  "queue (snd (settle_entry now ab e s)) = queue s" "lanes (snd (settle_entry now ab e s)) = lanes s"
  "config (snd (settle_entry now ab e s)) = config s"
  "shutDown (snd (settle_entry now ab e s)) = shutDown s"
  "virtualQueue (snd (settle_entry now ab e s)) = virtualQueue s"
  "currentLimit (adapt (snd (settle_entry now ab e s))) = currentLimit (adapt s)"
  by (simp_all add: settle_entry_def settle_rejected_def settle_admitted_def split_beta Let_def)

section \<open>Lanes\<close>

definition removeEmptyLane :: "string \<Rightarrow> ctl \<Rightarrow> ctl" where
  "removeEmptyLane t s = (case map_of (lanes s) t of
     None \<Rightarrow> s
   | Some l \<Rightarrow> if qcount (lane_queue l) = 0 then s\<lparr>lanes := map_del t (lanes s)\<rparr> else s)"

definition deleteLane :: "string \<Rightarrow> ctl \<Rightarrow> ctl" where
  "deleteLane t s = (case map_of (lanes s) t of
     None \<Rightarrow> s
   | Some l \<Rightarrow>
       (let s1 = fold (settle_rejected Lane_evicted) (fst (drain (lane_queue l))) s
        in s1\<lparr>lanes := map_del t (lanes s1)\<rparr>))"

text \<open>The last lane, in map order, among those used least recently.\<close>

fun oldest_of :: "(string \<times> lane) list \<Rightarrow> (string \<times> time) option \<Rightarrow> string option" where
  "oldest_of [] r = map_option fst r"
| "oldest_of ((t, l) # ls) r =
     (case r of
        None \<Rightarrow> oldest_of ls (Some (t, lastUsedMs l))
      | Some (_, ms) \<Rightarrow> if lastUsedMs l \<le> ms then oldest_of ls (Some (t, lastUsedMs l))
                       else oldest_of ls r)"

definition oldestLaneKey :: "ctl \<Rightarrow> string option" where
  "oldestLaneKey s = oldest_of (lanes s) None"

definition getOrCreateLane :: "time \<Rightarrow> string \<Rightarrow> ctl \<Rightarrow> ctl" where
  "getOrCreateLane now t s =
     (case map_of (lanes s) t of
        Some l \<Rightarrow> s\<lparr>lanes := map_set t (l\<lparr>lastUsedMs := now\<rparr>) (lanes s)\<rparr>
      | None \<Rightarrow>
          (let s1 = (if length (lanes s) \<ge> ADMISSION_LANE_MAX_SESSIONS
                     then case oldestLaneKey s of
                            None \<Rightarrow> s
                          | Some k \<Rightarrow> if k = [] then s else deleteLane k s
                     else s)
           in s1\<lparr>lanes := map_set t \<lparr>lane_queue = newFairCostQueue (maxQueueCount (config s1))
                (maxQueueCost (config s1)), lastUsedMs = now\<rparr> (lanes s1)\<rparr>))"

definition evictIdleLanes :: "time \<Rightarrow> ctl \<Rightarrow> ctl" where
  "evictIdleLanes now s =
     fold deleteLane (map fst (filter (\<lambda>(_, l). now - lastUsedMs l \<ge> ADMISSION_LANE_TTL_MS) (lanes s))) s"

section \<open>Dispatch\<close>

text \<open>The loop over the shared queue; True when it ends with the queue empty, False on a return.\<close>

function dispatch_shared :: "time \<Rightarrow> nat list \<Rightarrow> ctl \<Rightarrow> bool \<times> ctl" where
  "dispatch_shared now ab s =
     (if qcount (queue s) \<le> 0 then (True, s)
      else if currentLimit (adapt s) - activeCost s \<le> 0 then (False, s)
      else case dequeue (currentLimit (adapt s) - activeCost s) (queue s) of
             (None, q) \<Rightarrow> (False, s\<lparr>queue := q\<rparr>)
           | (Some e, q) \<Rightarrow> dispatch_shared now ab (snd (settle_entry now ab e (s\<lparr>queue := q\<rparr>))))"
  by pat_completeness auto
termination
  by (relation "measure (\<lambda>(now, ab, s). size (all_entries (buckets (queue s))))")
    (auto dest: dequeue_size [OF sym])

declare dispatch_shared.simps [simp del]

definition put_lane :: "string \<Rightarrow> nat option fcq \<Rightarrow> ctl \<Rightarrow> ctl" where
  "put_lane t q s = (case map_of (lanes s) t of
     None \<Rightarrow> s | Some l \<Rightarrow> s\<lparr>lanes := map_set t (l\<lparr>lane_queue := q\<rparr>) (lanes s)\<rparr>)"

definition lane_q :: "ctl \<Rightarrow> string \<Rightarrow> nat option fcq option" where
  "lane_q s t = map_option lane_queue (map_of (lanes s) t)"

lemma lane_q_put [simp]: "lane_q (put_lane t q s) t = (case lane_q s t of None \<Rightarrow> None | Some _ \<Rightarrow> Some q)"
  by (auto simp: lane_q_def put_lane_def split: option.splits)

lemma lane_q_settle [simp]: "lane_q (snd (settle_entry now ab e s)) t = lane_q s t"
  by (simp add: lane_q_def)

text \<open>The loop over one lane: rejected entries are skipped, one admission ends it. True on a return.\<close>

function lane_loop :: "time \<Rightarrow> nat list \<Rightarrow> string \<Rightarrow> ctl \<Rightarrow> bool \<times> ctl" where
  "lane_loop now ab t s =
     (case lane_q s t of
        None \<Rightarrow> (False, s)
      | Some q \<Rightarrow>
          if qcount q \<le> 0 then (False, s)
          else if currentLimit (adapt s) - activeCost s \<le> 0 then (True, s)
          else (case dequeue (currentLimit (adapt s) - activeCost s) q of
                 (None, q') \<Rightarrow> (False, put_lane t q' s)
               | (Some e, q') \<Rightarrow>
                   if fst (settle_entry now ab e (put_lane t q' s))
                   then (False, snd (settle_entry now ab e (put_lane t q' s)))
                   else lane_loop now ab t (snd (settle_entry now ab e (put_lane t q' s)))))"
  by pat_completeness auto
termination
  by (relation "measure (\<lambda>(now, ab, t, s). case lane_q s t of None \<Rightarrow> 0
        | Some q \<Rightarrow> size (all_entries (buckets q)))")
    (auto dest: dequeue_size [OF sym])

declare lane_loop.simps [simp del]

fun dispatch_lanes :: "time \<Rightarrow> nat list \<Rightarrow> string list \<Rightarrow> ctl \<Rightarrow> ctl" where
  "dispatch_lanes now ab [] s = s"
| "dispatch_lanes now ab (t # ts) s =
     (if \<not> map_has t (lanes s) then dispatch_lanes now ab ts s
      else let (stop, s1) = lane_loop now ab t s
           in if stop then s1 else dispatch_lanes now ab ts (removeEmptyLane t s1))"

definition dispatchLanes :: "time \<Rightarrow> nat list \<Rightarrow> ctl \<Rightarrow> ctl" where
  "dispatchLanes now ab s =
     (if shutDown s \<or> mode (config s) \<noteq> Enforce then s
      else dispatch_lanes now ab (map fst (lanes s)) s)"

definition dispatch :: "time \<Rightarrow> nat list \<Rightarrow> ctl \<Rightarrow> ctl" where
  "dispatch now ab s =
     (if shutDown s \<or> mode (config s) \<noteq> Enforce then s
      else let (emptied, s1) = dispatch_shared now ab s
           in if emptied then dispatchLanes now ab s1 else s1)"

section \<open>Shadow accounting\<close>

definition set_disp :: "nat \<Rightarrow> disposition \<Rightarrow> ctl \<Rightarrow> ctl" where
  "set_disp i d s = (case map_of (active s) i of
     None \<Rightarrow> s | Some r \<Rightarrow> s\<lparr>active := map_set i (r\<lparr>l_disp := d\<rparr>) (active s)\<rparr>)"

function dispatchVirtual :: "ctl \<Rightarrow> ctl" where
  "dispatchVirtual s =
     (if qcount (virtualQueue s) \<le> 0 then s
      else if currentLimit (adapt s) - virtualActiveCost s \<le> 0 then s
      else case dequeue (currentLimit (adapt s) - virtualActiveCost s) (virtualQueue s) of
             (None, q) \<Rightarrow> s\<lparr>virtualQueue := q\<rparr>
           | (Some e, q) \<Rightarrow>
               dispatchVirtual
                 (case map_of (active s) (payload e) of
                    None \<Rightarrow> s\<lparr>virtualQueue := q\<rparr>
                  | Some r \<Rightarrow> set_disp (payload e) V_active (s\<lparr>virtualQueue := q,
                      virtualActiveCost := addSaturated (virtualActiveCost s) (l_cost r),
                      virtualActiveCount := addSaturated (virtualActiveCount s) 1\<rparr>)))"
  by pat_completeness auto
termination
  by (relation "measure (\<lambda>s. size (all_entries (buckets (virtualQueue s))))")
    (auto simp: set_disp_def dest: dequeue_size [OF sym] split: option.splits)

declare dispatchVirtual.simps [simp del]

text \<open>\<open>record\<close> is the released lease, out of \<open>active\<close> already.\<close>

definition releaseVirtual :: "nat \<Rightarrow> lease_rec \<Rightarrow> ctl \<Rightarrow> ctl" where
  "releaseVirtual i r s =
     dispatchVirtual
       (case l_disp r of
          V_active \<Rightarrow> s\<lparr>virtualActiveCost := virtualActiveCost s - l_cost r,
                        virtualActiveCount := virtualActiveCount s - 1\<rparr>
        | V_queued \<Rightarrow> s\<lparr>virtualQueue := snd (removeById i (virtualQueue s))\<rparr>
        | _ \<Rightarrow> s)"

text \<open>One turn of the loop of \<open>rebuildVirtualState\<close>.\<close>

definition rebuild_one :: "nat \<Rightarrow> ctl \<Rightarrow> ctl" where
  "rebuild_one i s =
     (case map_of (active s) i of
        None \<Rightarrow> s
      | Some r \<Rightarrow>
          if l_cost r > currentLimit (adapt s) then set_disp i V_rejected s
          else if l_cost r \<le> currentLimit (adapt s) - virtualActiveCost s
          then set_disp i V_active (s\<lparr>virtualActiveCost := addSaturated (virtualActiveCost s) (l_cost r),
                 virtualActiveCount := addSaturated (virtualActiveCount s) 1\<rparr>)
          else let (ok, q) = enqueue \<lparr>eid = i, tenantKey = ''_existing'', ecost = l_cost r,
                      enqueuedAtMs = admittedAtMs r, deadlineMs = MAX_SAFE_INTEGER, payload = i,
                      skipCount = 0\<rparr> (virtualQueue s)
               in if ok then set_disp i V_queued (s\<lparr>virtualQueue := q\<rparr>) else set_disp i V_rejected s)"

definition rebuildVirtualState :: "bool \<Rightarrow> ctl \<Rightarrow> ctl" where
  "rebuildVirtualState enable s =
     (let s1 = s\<lparr>virtualQueue := newFairCostQueue (maxQueueCount (config s)) (maxQueueCost (config s)),
                 virtualActiveCost := 0, virtualActiveCount := 0,
                 active := map_values (\<lambda>r. r\<lparr>l_disp := V_none\<rparr>) (active s)\<rparr>
      in if enable then fold rebuild_one (map fst (active s1)) s1 else s1)"

section \<open>Requests\<close>

record request =
  rq_cost :: "jsval option"
  rq_features :: "cost_features option"
  rq_tenantKey :: string
  rq_maxWaitMs :: "jsval option"
  rq_signal :: "nat option"
  rq_pressure :: "pressure option"

datatype acquire_result =
    Admitted nat "shadow_decision option"
  | Queued nat
  | Rejected reject_code
  | Threw range_error

definition reject :: "reject_code \<Rightarrow> ctl \<Rightarrow> acquire_result \<times> ctl" where
  "reject code s = (Rejected code, s\<lparr>rejectedCount := rejectedCount s + 1\<rparr>)"

definition resolveCost :: "request \<Rightarrow> ctl \<Rightarrow> int checked" where
  "resolveCost r s =
     (case rq_cost r of
        Some c \<Rightarrow> normalizeRequestCost c (c_maxRequestCost (config s))
      | None \<Rightarrow>
          (case rq_features r of
             Some f \<Rightarrow> estimateAdmissionCost f (as_input (costConfig (config s)))
           | None \<Rightarrow> Inr 1))"

definition laneTotalQueuedCount :: "ctl \<Rightarrow> int" where
  "laneTotalQueuedCount s = foldl (\<lambda>n (_, l). addSaturated n (qcount (lane_queue l))) 0 (lanes s)"

definition laneTotalQueuedCost :: "ctl \<Rightarrow> int" where
  "laneTotalQueuedCost s = foldl (\<lambda>n (_, l). addSaturated n (qcost (lane_queue l))) 0 (lanes s)"

definition shouldAdmitSolo :: "int \<Rightarrow> ctl \<Rightarrow> bool" where
  "shouldAdmitSolo cost s \<longleftrightarrow> cost \<le> maxLimit (config s) \<and> active s = [] \<and> qcount (queue s) = 0
     \<and> laneTotalQueuedCount s = 0 \<and> a_pressure (adapt s) = Normal"

definition admitVirtual :: "ctl \<Rightarrow> acquire_result \<times> ctl" where
  "admitVirtual s = (Admitted (Suc (leaseSeq s)) None,
     s\<lparr>leaseSeq := Suc (leaseSeq s), admittedCount := admittedCount s + 1\<rparr>)"

definition tenant_of :: "request \<Rightarrow> string" where
  "tenant_of r = (if rq_tenantKey r = [] then default_tenant else rq_tenantKey r)"

definition acquireShadow :: "time \<Rightarrow> request \<Rightarrow> int \<Rightarrow> int \<Rightarrow> ctl \<Rightarrow> acquire_result \<times> ctl" where
  "acquireShadow now r cost limit s =
     (let (dec, d, s1) =
        (if cost > limit then (Would_reject, V_rejected, s\<lparr>wouldRejectCount := wouldRejectCount s + 1\<rparr>)
         else if virtualActiveCost s + cost \<le> limit
         then (Would_admit, V_active, s\<lparr>virtualActiveCost := addSaturated (virtualActiveCost s) cost,
                 virtualActiveCount := addSaturated (virtualActiveCount s) 1,
                 wouldAdmitCount := addSaturated (wouldAdmitCount s) 1\<rparr>)
         else if canAccept (virtualQueue s) cost
         then (Would_queue, V_queued, s\<lparr>wouldQueueCount := wouldQueueCount s + 1\<rparr>)
         else (Would_reject, V_rejected, s\<lparr>wouldRejectCount := wouldRejectCount s + 1\<rparr>));
        (i, s2) = admit now cost d s1
      in (Admitted i (Some dec),
          if d = V_queued
          then s2\<lparr>virtualQueue := snd (enqueue \<lparr>eid = i, tenantKey = tenant_of r, ecost = cost,
                 enqueuedAtMs = now, deadlineMs = MAX_SAFE_INTEGER, payload = i, skipCount = 0\<rparr>
                 (virtualQueue s2))\<rparr>
          else s2))"

definition enqueue_request ::
  "time \<Rightarrow> nat list \<Rightarrow> request \<Rightarrow> int \<Rightarrow> ctl \<Rightarrow> acquire_result \<times> ctl" where
  "enqueue_request now ab r cost s0 =
     (let i = Suc (leaseSeq s0); s = s0\<lparr>leaseSeq := i\<rparr> in
      case normalizeRequestCost (nullish (rq_maxWaitMs r) (Num (of_int (defaultMaxWaitMs (config s)))))
             MAX_ADMISSION_WINDOW_MS of
        Inl err \<Rightarrow> (Threw err, s)
      | Inr maxWait \<Rightarrow>
          (let e = \<lparr>eid = i, tenantKey = tenant_of r, ecost = cost, enqueuedAtMs = now,
                   deadlineMs = min MAX_SAFE_INTEGER (now + maxWait), payload = rq_signal r,
                   skipCount = 0\<rparr>
           in if tenantKey e \<noteq> default_tenant \<and> virtualLanes_on (config s)
              then let s1 = getOrCreateLane now (tenantKey e) s;
                       (ok, q) = enqueue e (nullish (lane_q s1 (tenantKey e))
                         (newFairCostQueue 0 0))
                   in if \<not> ok then reject Queue_full (removeEmptyLane (tenantKey e) s1)
                      else (Queued i, dispatch now ab (dispatch now ab (put_lane (tenantKey e) q s1)))
              else let (ok, q) = enqueue e (queue s)
                   in if \<not> ok then reject Queue_full s
                      else (Queued i, dispatch now ab (dispatch now ab (s\<lparr>queue := q\<rparr>)))))"

definition acquire_enforced ::
  "time \<Rightarrow> nat list \<Rightarrow> request \<Rightarrow> int \<Rightarrow> ctl \<Rightarrow> acquire_result \<times> ctl" where
  "acquire_enforced now ab r cost s =
     (let limit = currentLimit (adapt s) in
      if cost > limit
      then if shouldAdmitSolo cost s
           then let (i, s1) = admit now cost V_none s in (Admitted i None, s1)
           else reject Oversized s
      else if qcount (queue s) = 0 \<and> activeCost s + cost \<le> limit
      then let (i, s1) = admit now cost V_none s in (Admitted i None, s1)
      else if \<not> canAccept (queue s) cost then reject Queue_full s
      else enqueue_request now ab r cost s)"

definition acquire :: "time \<Rightarrow> nat list \<Rightarrow> request \<Rightarrow> ctl \<Rightarrow> acquire_result \<times> ctl" where
  "acquire now ab r s =
     (if shutDown s then reject Shutdown_code s
      else if (case rq_signal r of None \<Rightarrow> False | Some sg \<Rightarrow> sg \<in> set ab) then reject Aborted_code s
      else let s1 = (case rq_pressure r of None \<Rightarrow> s | Some p \<Rightarrow> s\<lparr>adapt := setPressure p (adapt s)\<rparr>)
           in case resolveCost r s1 of
                Inl err \<Rightarrow> (Threw err, s1)
              | Inr cost \<Rightarrow>
                  (case mode (config s1) of
                     Off \<Rightarrow> admitVirtual s1
                   | Shadow \<Rightarrow> acquireShadow now r cost (currentLimit (adapt s1)) s1
                   | Enforce \<Rightarrow> acquire_enforced now ab r cost s1))"

definition releaseLease ::
  "time \<Rightarrow> nat list \<Rightarrow> nat \<Rightarrow> release_outcome \<Rightarrow> jsval \<Rightarrow> pressure option \<Rightarrow> ctl \<Rightarrow> ctl" where
  "releaseLease now ab i oc latencyMs pr s =
     (case map_of (active s) i of
        None \<Rightarrow> s
      | Some r \<Rightarrow>
          (let s1 = sampleIntegral now s;
               latency = (if latencyMs = Undefined then Num (of_int (max 0 (now - admittedAtMs r)))
                          else latencyMs);
               a1 = noteOutcome oc (noteLatency latency (adaptation_cfg (config s)) (adapt s1));
               a2 = a1\<lparr>windowCompleted := windowCompleted a1 + 1\<rparr>;
               a3 = (case pr of None \<Rightarrow> a2 | Some p \<Rightarrow> setPressure p a2);
               s2 = s1\<lparr>active := map_del i (active s1), activeCost := activeCost s1 - l_cost r,
                       adapt := a3\<rparr>
           in dispatch now ab (releaseVirtual i r s2)))"

section \<open>Expiry, ticks, shutdown, reconfiguration\<close>

text \<open>Looking for an entry in the lanes, in map order.\<close>

fun find_lane :: "nat \<Rightarrow> (string \<times> lane) list \<Rightarrow> (string \<times> nat option queue_entry \<times> nat option fcq) option" where
  "find_lane i [] = None"
| "find_lane i ((t, l) # ls) =
     (case removeById i (lane_queue l) of
        (Some e, q) \<Rightarrow> Some (t, e, q)
      | (None, _) \<Rightarrow> find_lane i ls)"

definition expireEntry :: "time \<Rightarrow> nat list \<Rightarrow> nat \<Rightarrow> reject_code \<Rightarrow> ctl \<Rightarrow> ctl" where
  "expireEntry now ab i code s =
     (case removeById i (queue s) of
        (Some e, q) \<Rightarrow> dispatch now ab (settle_rejected code e (s\<lparr>queue := q\<rparr>))
      | (None, _) \<Rightarrow>
          (case find_lane i (lanes s) of
             None \<Rightarrow> s
           | Some (t, e, q) \<Rightarrow>
               dispatch now ab (settle_rejected code e (removeEmptyLane (tenantKey e) (put_lane t q s)))))"

definition observePressure :: "time \<Rightarrow> nat list \<Rightarrow> pressure \<Rightarrow> ctl \<Rightarrow> ctl" where
  "observePressure now ab p s =
     (let a = setPressure p (adapt s)
      in if p = Critical \<and> \<not> criticalDecreaseConsumed a
         then dispatchVirtual (dispatch now ab
                (s\<lparr>adapt := critical_decrease (minLimit (config s)) (adaptation_cfg (config s)) a\<rparr>))
         else s\<lparr>adapt := a\<rparr>)"

definition tick :: "time \<Rightarrow> nat list \<Rightarrow> ctl \<Rightarrow> ctl" where
  "tick now ab s =
     (let s1 = evictIdleLanes now (sampleIntegral now s);
          s2 = s1\<lparr>adapt := closeAdaptationWindow (adaptation_cfg (config s1)) now (adapt s1)\<rparr>
      in dispatchVirtual (dispatch now ab s2))"

definition shutdown :: "ctl \<Rightarrow> ctl" where
  "shutdown s =
     (if shutDown s then s
      else let s1 = s\<lparr>shutDown := True, queue := snd (drain (queue s))\<rparr>;
               s2 = fold (settle_rejected Shutdown_code) (fst (drain (queue s))) s1;
               s3 = fold (settle_rejected Shutdown_code)
                      (concat (map (\<lambda>(_, l). fst (drain (lane_queue l))) (lanes s))) s2
           in s3\<lparr>lanes := []\<rparr>)"

text \<open>One drained entry under the new configuration.\<close>

definition readmit :: "time \<Rightarrow> nat option queue_entry \<Rightarrow> ctl \<Rightarrow> ctl" where
  "readmit now e s =
     (if mode (config s) \<noteq> Enforce then settle_admitted now e s
      else if ecost e > currentLimit (adapt s) then settle_rejected Oversized e s
      else let (ok, q) = enqueue e (queue s)
           in if ok then s\<lparr>queue := q\<rparr> else settle_rejected Queue_full e s)"

definition updateConfig :: "time \<Rightarrow> nat list \<Rightarrow> admission_input \<Rightarrow> ctl \<Rightarrow> range_error option \<times> ctl" where
  "updateConfig now ab i s =
     (case validateConfig i of
        Inl err \<Rightarrow> (Some err, s)
      | Inr c \<Rightarrow>
          (let s1 = sampleIntegral now s; a = adapt s1;
               a1 = a\<lparr>currentLimit := min (maxLimit c) (max (minLimit c) (currentLimit a)),
                      recoveryCeiling := clampLimit (initialLimit c) (minLimit c) (maxLimit c),
                      windowStartMs := now, windowActiveCostIntegral := 0, windowCompleted := 0,
                      windowLatencySamples := 0, freezeGrowth := False,
                      criticalDecreaseConsumed := False, a_pressure := Normal\<rparr>;
               drained = fst (drain (queue s1)) @ concat (map (\<lambda>(_, l). fst (drain (lane_queue l))) (lanes s1));
               s2 = s1\<lparr>config := c, adapt := a1, lastSampleMs := now,
                       queue := newFairCostQueue (maxQueueCount c) (maxQueueCost c), lanes := []\<rparr>;
               s3 = rebuildVirtualState (mode c = Shadow) (fold (readmit now) drained s2)
           in (None, if mode c = Enforce then dispatch now ab s3 else s3)))"

text \<open>
  What happens to a controller. \<open>Idle_lanes\<close> is the timer of the lanes; it can fire at any time, which covers every
  time the code arms it for.
\<close>

datatype ctl_event =
    Acquire time "nat list" request
  | Release time "nat list" nat release_outcome jsval "pressure option"
  | Expire time "nat list" nat reject_code
  | Observe time "nat list" pressure
  | Tick time "nat list"
  | Idle_lanes time
  | Shutdown
  | Update_config time "nat list" admission_input

fun ctl_step :: "ctl \<Rightarrow> ctl_event \<Rightarrow> ctl" where
  "ctl_step s (Acquire t ab r) = snd (acquire t ab r s)"
| "ctl_step s (Release t ab i oc lat p) = releaseLease t ab i oc lat p s"
| "ctl_step s (Expire t ab i code) = expireEntry t ab i code s"
| "ctl_step s (Observe t ab p) = observePressure t ab p s"
| "ctl_step s (Tick t ab) = tick t ab s"
| "ctl_step s (Idle_lanes t) = evictIdleLanes t s"
| "ctl_step s Shutdown = shutdown s"
| "ctl_step s (Update_config t ab i) = snd (updateConfig t ab i s)"

section \<open>The invariant\<close>

definition lane_contents :: "(string \<times> lane) list \<Rightarrow> nat option queue_entry multiset" where
  "lane_contents ls = sum_list (map (\<lambda>(_, l). contents (lane_queue l)) ls)"

definition waiting :: "ctl \<Rightarrow> nat option queue_entry multiset" where
  "waiting s = contents (queue s) + lane_contents (lanes s)"

text \<open>Every promise handed to a queued request: still waiting, or settled.\<close>

definition tickets :: "ctl \<Rightarrow> nat multiset" where
  "tickets s = image_mset eid (waiting s) + mset (map fst (settled s))"

definition queues_ok :: "ctl \<Rightarrow> bool" where
  "queues_ok s \<longleftrightarrow> q_inv (queue s) \<and> q_inv (virtualQueue s) \<and> map_ok (lanes s)
     \<and> list_all (\<lambda>(_, l). q_inv (lane_queue l)) (lanes s)"

definition active_total :: "(nat \<times> lease_rec) list \<Rightarrow> int" where
  "active_total m = sum_list (map (\<lambda>(_, r). l_cost r) m)"

definition ledger_ok :: "ctl \<Rightarrow> bool" where
  "ledger_ok s \<longleftrightarrow> map_ok (active s) \<and> activeCost s = active_total (active s)
     \<and> list_all (\<lambda>(i, r). i \<le> leaseSeq s \<and> 0 < l_cost r) (active s)"

text \<open>\<open>h\<close> holds the identifiers of entries taken out of a queue and not settled yet; \<open>X\<close> are
  identifiers that must not get lost.\<close>

definition tickets_ok :: "nat set \<Rightarrow> nat multiset \<Rightarrow> ctl \<Rightarrow> bool" where
  "tickets_ok X h s \<longleftrightarrow> (\<forall>x. count (h + tickets s) x \<le> (if x \<le> leaseSeq s then 1 else 0))
     \<and> X \<subseteq> set_mset (h + tickets s)"

definition adapt_ok :: "ctl \<Rightarrow> bool" where
  "adapt_ok s \<longleftrightarrow> config_ok (config s) \<and> adapt_inv (adaptation_cfg (config s)) (adapt s)"

definition ctl_inv :: "nat set \<Rightarrow> nat multiset \<Rightarrow> ctl \<Rightarrow> bool" where
  "ctl_inv X h s \<longleftrightarrow> adapt_ok s \<and> queues_ok s \<and> ledger_ok s \<and> tickets_ok X h s"

lemma active_total_set_new: "\<not> map_has i m \<Longrightarrow> active_total (map_set i r m) = active_total m + l_cost r"
  by (simp add: map_set_new active_total_def)

lemma active_total_del: "map_ok m \<Longrightarrow> map_of m i = Some r \<Longrightarrow>
    active_total (map_del i m) = active_total m - l_cost r"
  by (induction m) (auto simp: active_total_def map_del_absent split: if_splits)

lemma active_total_nonneg: "list_all (\<lambda>(i, r). P i \<and> 0 < l_cost r) m \<Longrightarrow> 0 \<le> active_total m"
  by (induction m) (auto simp: active_total_def)

lemma lane_contents_simps [simp]: "lane_contents [] = {#}"
  "lane_contents ((t, l) # ls) = contents (lane_queue l) + lane_contents ls"
  by (simp_all add: lane_contents_def)

lemma lane_contents_set: "map_of ls t = Some l \<Longrightarrow>
    lane_contents (map_set t l' ls) + contents (lane_queue l) = lane_contents ls + contents (lane_queue l')"
  by (induction ls) (auto split: if_splits)

lemma lane_contents_new: "\<not> map_has t ls \<Longrightarrow>
    lane_contents (map_set t l ls) = lane_contents ls + contents (lane_queue l)"
  by (induction ls) (auto simp: map_has_def split: if_splits)

lemma lane_contents_del: "map_ok ls \<Longrightarrow> map_of ls t = Some l \<Longrightarrow>
    lane_contents (map_del t ls) + contents (lane_queue l) = lane_contents ls"
  by (induction ls) (auto simp: map_del_absent split: if_splits)

lemma lanes_q_inv: "queues_ok s \<Longrightarrow> map_of (lanes s) t = Some l \<Longrightarrow> q_inv (lane_queue l)"
  by (fastforce simp: queues_ok_def list_all_iff dest: map_of_SomeD simp del: map_of_eq_Some_iff)

lemma lane_q_inv: "queues_ok s \<Longrightarrow> lane_q s t = Some q \<Longrightarrow> q_inv q"
  using lanes_q_inv by (auto simp: lane_q_def)

lemma list_all_set: "list_all (\<lambda>(_, x). P x) m \<Longrightarrow> P y \<Longrightarrow> list_all (\<lambda>(_, x). P x) (map_set k y m)"
  by (induction m) auto

lemma list_all_del: "list_all P m \<Longrightarrow> list_all P (map_del k m)"
  by (induction m) auto

subsection \<open>Primitive steps\<close>

lemma ctl_inv_adapt: "ctl_inv X h s \<Longrightarrow> adapt_inv (adaptation_cfg (config s)) a \<Longrightarrow> ctl_inv X h (s\<lparr>adapt := a\<rparr>)"
  by (simp add: ctl_inv_def adapt_ok_def queues_ok_def ledger_ok_def tickets_ok_def tickets_def waiting_def)

lemma adapt_of_inv: "ctl_inv X h s \<Longrightarrow> adapt_inv (adaptation_cfg (config s)) (adapt s)"
  by (simp add: ctl_inv_def adapt_ok_def)

lemma ctl_inv_counters [simp]:
  "ctl_inv X h (s\<lparr>rejectedCount := x\<rparr>) = ctl_inv X h s" "ctl_inv X h (s\<lparr>admittedCount := x\<rparr>) = ctl_inv X h s"
  "ctl_inv X h (s\<lparr>wouldAdmitCount := x\<rparr>) = ctl_inv X h s" "ctl_inv X h (s\<lparr>wouldQueueCount := x\<rparr>) = ctl_inv X h s"
  "ctl_inv X h (s\<lparr>wouldRejectCount := x\<rparr>) = ctl_inv X h s" "ctl_inv X h (s\<lparr>virtualActiveCost := x\<rparr>) = ctl_inv X h s"
  "ctl_inv X h (s\<lparr>virtualActiveCount := x\<rparr>) = ctl_inv X h s" "ctl_inv X h (s\<lparr>shutDown := b\<rparr>) = ctl_inv X h s"
  "ctl_inv X h (s\<lparr>lastSampleMs := t\<rparr>) = ctl_inv X h s"
  by (simp_all add: ctl_inv_def adapt_ok_def queues_ok_def ledger_ok_def tickets_ok_def tickets_def waiting_def)

lemma ctl_inv_sample: "ctl_inv X h s \<Longrightarrow> ctl_inv X h (sampleIntegral now s)"
  using ctl_inv_adapt [OF _ sampleActiveIntegral_inv [OF adapt_of_inv]]
  by (simp add: sampleIntegral_def Let_def)

lemma ctl_inv_seq: "ctl_inv X h s \<Longrightarrow> leaseSeq s \<le> n \<Longrightarrow> ctl_inv X h (s\<lparr>leaseSeq := n\<rparr>)"
proof -
  assume inv: "ctl_inv X h s" and n: "leaseSeq s \<le> n"
  have "count (h + tickets s) x \<le> (if x \<le> n then 1 else 0)" for x
  proof -
    have "count (h + tickets s) x \<le> (if x \<le> leaseSeq s then 1 else 0)"
      using inv by (simp add: ctl_inv_def tickets_ok_def)
    then show ?thesis using n by (auto split: if_splits)
  qed
  then show ?thesis
    using inv n
    by (auto simp: ctl_inv_def adapt_ok_def queues_ok_def ledger_ok_def tickets_ok_def tickets_def
        waiting_def list_all_iff)
qed

lemma ctl_inv_admit: "ctl_inv X h s \<Longrightarrow> 0 < cost \<Longrightarrow> ctl_inv X h (snd (admit now cost d s))"
proof -
  assume inv: "ctl_inv X h s" and c: "0 < cost"
  let ?s = "(sampleIntegral now s)\<lparr>leaseSeq := Suc (leaseSeq s)\<rparr>"
  have 1: "ctl_inv X h ?s" by (rule ctl_inv_seq [OF ctl_inv_sample [OF inv]]) simp
  have "\<not> map_has (Suc (leaseSeq s)) (active s)"
    using inv by (fastforce simp: ctl_inv_def ledger_ok_def list_all_iff map_has_iff)
  then have "ledger_ok (snd (admit now cost d s))"
    using 1 c by (auto simp: ctl_inv_def ledger_ok_def admit_def Let_def active_total_set_new map_set_new
        list_all_iff)
      (auto simp: map_ok_def map_has_iff active_total_def)
  then show ?thesis
    using 1 by (simp add: ctl_inv_def adapt_ok_def queues_ok_def tickets_ok_def tickets_def waiting_def
        admit_def Let_def)
qed

lemma ctl_inv_settle_rejected: "ctl_inv X (add_mset (eid e) h) s \<Longrightarrow> ctl_inv X h (settle_rejected code e s)"
  by (simp add: settle_rejected_def ctl_inv_def adapt_ok_def queues_ok_def ledger_ok_def tickets_ok_def
      tickets_def waiting_def)

lemma ctl_inv_settle_admitted:
  "ctl_inv X (add_mset (eid e) h) s \<Longrightarrow> 0 < ecost e \<Longrightarrow> ctl_inv X h (settle_admitted now e s)"
proof -
  assume inv: "ctl_inv X (add_mset (eid e) h) s" and c: "0 < ecost e"
  have "ctl_inv X (add_mset (eid e) h) (snd (admit now (ecost e) V_none s))"
    by (rule ctl_inv_admit [OF inv c])
  then show ?thesis
    by (simp add: settle_admitted_def split_beta Let_def ctl_inv_def adapt_ok_def queues_ok_def
        ledger_ok_def tickets_ok_def tickets_def waiting_def)
qed

lemma ctl_inv_settle_entry:
  "ctl_inv X (add_mset (eid e) h) s \<Longrightarrow> 0 < ecost e \<Longrightarrow> ctl_inv X h (snd (settle_entry now ab e s))"
  by (simp add: settle_entry_def ctl_inv_settle_rejected ctl_inv_settle_admitted)

lemma contents_cost_pos: "q_inv q \<Longrightarrow> e \<in># contents q \<Longrightarrow> 0 < ecost e"
  using buckets_ok_entries [of "buckets q"] by (auto simp: contents_def q_inv_def entry_ok_def)

lemma ctl_inv_take_shared:
  assumes "ctl_inv X h s" and "q_inv q" and "contents (queue s) = add_mset e (contents q)"
  shows "ctl_inv X (add_mset (eid e) h) (s\<lparr>queue := q\<rparr>) \<and> 0 < ecost e"
proof -
  have "0 < ecost e" using assms contents_cost_pos by (force simp: ctl_inv_def queues_ok_def)
  then show ?thesis
    using assms by (simp add: ctl_inv_def adapt_ok_def queues_ok_def ledger_ok_def tickets_ok_def
        tickets_def waiting_def)
qed

lemma queues_ok_put_lane: "queues_ok s \<Longrightarrow> q_inv q \<Longrightarrow> queues_ok (put_lane t q s)"
  by (auto simp: queues_ok_def put_lane_def list_all_set split: option.splits)

lemma put_lane_fields [simp]: "queue (put_lane t q s) = queue s" "config (put_lane t q s) = config s"
  "adapt (put_lane t q s) = adapt s" "active (put_lane t q s) = active s"
  "activeCost (put_lane t q s) = activeCost s" "leaseSeq (put_lane t q s) = leaseSeq s"
  "settled (put_lane t q s) = settled s" "virtualQueue (put_lane t q s) = virtualQueue s"
  "shutDown (put_lane t q s) = shutDown s"
  by (simp_all add: put_lane_def split: option.splits)

lemma put_lane_same: "lane_q s t = Some q \<Longrightarrow> put_lane t q s = s"
  by (auto simp: put_lane_def lane_q_def AList.update_triv split: option.splits)

lemma lane_contents_put: "lane_q s t = Some q \<Longrightarrow>
    lane_contents (lanes (put_lane t q' s)) + contents q = lane_contents (lanes s) + contents q'"
  using lane_contents_set [of "lanes s" t] by (auto simp: put_lane_def lane_q_def)

lemma ctl_inv_take_lane:
  assumes "ctl_inv X h s" and "lane_q s t = Some q" and "q_inv q'" and "contents q = add_mset e (contents q')"
  shows "ctl_inv X (add_mset (eid e) h) (put_lane t q' s) \<and> 0 < ecost e"
proof -
  have "q_inv q" using assms(1,2) lane_q_inv unfolding ctl_inv_def by blast
  then have "0 < ecost e" using assms(4) contents_cost_pos by force
  moreover have "lane_contents (lanes s) = add_mset e (lane_contents (lanes (put_lane t q' s)))"
    using lane_contents_put [OF assms(2), of q'] assms(4) by simp
  ultimately show ?thesis
    using assms(1) queues_ok_put_lane [OF _ assms(3), of s t]
    by (simp add: ctl_inv_def adapt_ok_def ledger_ok_def tickets_ok_def tickets_def waiting_def)
qed

lemma q_inv_empty_iff: "q_inv q \<Longrightarrow> qcount q = 0 \<longleftrightarrow> contents q = {#}"
  by (simp add: q_inv_def contents_def)

lemma ctl_inv_del_lane:
  assumes "ctl_inv X h s" and "map_of (lanes s) t = Some l" and "contents (lane_queue l) = {#}"
  shows "ctl_inv X h (s\<lparr>lanes := map_del t (lanes s)\<rparr>)"
proof -
  have "lane_contents (map_del t (lanes s)) = lane_contents (lanes s)"
    using lane_contents_del [of "lanes s" t l] assms by (simp add: ctl_inv_def queues_ok_def)
  then show ?thesis
    using assms(1) by (simp add: ctl_inv_def adapt_ok_def queues_ok_def ledger_ok_def tickets_ok_def
        tickets_def waiting_def list_all_del)
qed

lemma ctl_inv_removeEmptyLane: "ctl_inv X h s \<Longrightarrow> ctl_inv X h (removeEmptyLane t s)"
proof (cases "map_of (lanes s) t")
  case (Some l)
  assume inv: "ctl_inv X h s"
  then have "q_inv (lane_queue l)" using lanes_q_inv [OF _ Some] by (simp add: ctl_inv_def)
  from q_inv_empty_iff [OF this] show ?thesis
    using inv ctl_inv_del_lane [OF inv Some] Some by (simp add: removeEmptyLane_def)
qed (simp add: removeEmptyLane_def)

lemma removeEmptyLane_fields [simp]: "queue (removeEmptyLane t s) = queue s"
  "config (removeEmptyLane t s) = config s" "adapt (removeEmptyLane t s) = adapt s"
  "active (removeEmptyLane t s) = active s" "activeCost (removeEmptyLane t s) = activeCost s"
  "shutDown (removeEmptyLane t s) = shutDown s" "settled (removeEmptyLane t s) = settled s"
  "virtualQueue (removeEmptyLane t s) = virtualQueue s" "leaseSeq (removeEmptyLane t s) = leaseSeq s"
  by (simp_all add: removeEmptyLane_def split: option.splits)

subsection \<open>The induction rule of dispatching\<close>

text \<open>A property is kept by a dispatch when it is kept by one dequeued entry being settled, from the
  shared queue or from a lane, and by the removal of an empty lane.\<close>

definition available :: "ctl \<Rightarrow> int" where
  "available s = currentLimit (adapt s) - activeCost s"

lemma dispatch_shared_rule:
  "P s \<Longrightarrow> (\<And>s. P s \<Longrightarrow> queues_ok s) \<Longrightarrow>
    (\<And>s e q. P s \<Longrightarrow> dequeue (available s) (queue s) = (Some e, q) \<Longrightarrow>
      P (snd (settle_entry now ab e (s\<lparr>queue := q\<rparr>)))) \<Longrightarrow>
    P (snd (dispatch_shared now ab s))"
proof (induction now ab s rule: dispatch_shared.induct)
  case (1 now ab s)
  note P = 1(2) and q = 1(3) and shared = 1(4)
  obtain r q' where d: "dequeue (available s) (queue s) = (r, q')" by fastforce
  show ?case
  proof (cases "qcount (queue s) \<le> 0 \<or> available s \<le> 0")
    case True
    then show ?thesis using P by (subst dispatch_shared.simps) (auto simp: available_def)
  next
    case go: False
    show ?thesis
    proof (cases r)
      case None
      have "q_inv (queue s)" using q [OF P] by (simp add: queues_ok_def)
      then have "q' = queue s" using dequeue_None d None by blast
      then show ?thesis using go d None P
        by (subst dispatch_shared.simps) (simp add: available_def)
    next
      case (Some e)
      have "P (snd (dispatch_shared now ab (snd (settle_entry now ab e (s\<lparr>queue := q'\<rparr>)))))"
        using go d Some by (intro 1(1) shared [OF P] q) (auto simp: available_def intro: shared)
      then show ?thesis
        using go d Some by (subst dispatch_shared.simps) (simp add: available_def)
    qed
  qed
qed

lemma lane_loop_rule:
  "P s \<Longrightarrow> (\<And>s. P s \<Longrightarrow> queues_ok s) \<Longrightarrow>
    (\<And>s q e q'. P s \<Longrightarrow> lane_q s t = Some q \<Longrightarrow> dequeue (available s) q = (Some e, q') \<Longrightarrow>
      P (snd (settle_entry now ab e (put_lane t q' s)))) \<Longrightarrow>
    P (snd (lane_loop now ab t s))"
proof (induction now ab t s rule: lane_loop.induct)
  case (1 now ab t s)
  note P = 1(2) and q = 1(3) and lane = 1(4)
  show ?case
  proof (cases "lane_q s t")
    case None
    then show ?thesis using P by (subst lane_loop.simps) simp
  next
    case (Some q0)
    obtain r q' where d: "dequeue (available s) q0 = (r, q')" by fastforce
    show ?thesis
    proof (cases "qcount q0 \<le> 0 \<or> available s \<le> 0")
      case True
      then show ?thesis using P Some by (subst lane_loop.simps) (auto simp: available_def)
    next
      case go: False
      show ?thesis
      proof (cases r)
        case None
        have "q_inv q0" using q [OF P] Some lane_q_inv by blast
        then have "q' = q0" using dequeue_None d None by blast
        then show ?thesis using go d None P Some put_lane_same [OF Some]
          by (subst lane_loop.simps) (simp add: available_def)
      next
        case e: (Some e)
        let ?s = "settle_entry now ab e (put_lane t q' s)"
        have P': "P (snd ?s)" using lane [OF P Some] d e by simp
        have "P (snd (lane_loop now ab t (snd ?s)))" if "\<not> fst ?s"
          using go d Some e that by (intro 1(1) P' q) (auto simp: available_def intro: lane)
        then show ?thesis
          using go d Some e P' by (subst lane_loop.simps) (simp add: available_def)
      qed
    qed
  qed
qed

lemma dispatch_rule:
  assumes "P s" and q: "\<And>s. P s \<Longrightarrow> queues_ok s"
    and shared: "\<And>s e q. P s \<Longrightarrow> dequeue (available s) (queue s) = (Some e, q) \<Longrightarrow>
      P (snd (settle_entry now ab e (s\<lparr>queue := q\<rparr>)))"
    and lane: "\<And>s t q e q'. P s \<Longrightarrow> lane_q s t = Some q \<Longrightarrow> dequeue (available s) q = (Some e, q') \<Longrightarrow>
      P (snd (settle_entry now ab e (put_lane t q' s)))"
    and rm: "\<And>s t. P s \<Longrightarrow> P (removeEmptyLane t s)"
  shows "P (dispatch now ab s)"
proof -
  have lanes: "P (dispatch_lanes now ab ts s)" if "P s" for ts s
    using that
  proof (induction ts arbitrary: s)
    case (Cons t ts)
    have "P (snd (lane_loop now ab t s))"
      by (rule lane_loop_rule [of P, OF Cons.prems q lane])
    then show ?case using Cons rm by (auto split: prod.splits)
  qed simp
  have "P (snd (dispatch_shared now ab s))"
    by (rule dispatch_shared_rule [of P, OF assms(1) q shared])
  then show ?thesis
    using assms(1) lanes by (auto simp: dispatch_def dispatchLanes_def split: prod.splits)
qed

lemma ctl_inv_dispatch:
  assumes "ctl_inv X h s" shows "ctl_inv X h (dispatch now ab s)"
proof (rule dispatch_rule [where P = "ctl_inv X h", OF assms])
  show "ctl_inv X h s \<Longrightarrow> queues_ok s" for s by (simp add: ctl_inv_def)
next
  fix s e q
  assume inv: "ctl_inv X h s" and d: "dequeue (available s) (queue s) = (Some e, q)"
  then have "q_inv (queue s)" by (simp add: ctl_inv_def queues_ok_def)
  from dequeue_Some [OF this d] ctl_inv_take_shared [OF inv]
  show "ctl_inv X h (snd (settle_entry now ab e (s\<lparr>queue := q\<rparr>)))" using ctl_inv_settle_entry by blast
next
  fix s t q e q'
  assume inv: "ctl_inv X h s" and l: "lane_q s t = Some q" and d: "dequeue (available s) q = (Some e, q')"
  have "queues_ok s" using inv by (simp add: ctl_inv_def)
  from dequeue_Some [OF lane_q_inv [OF this l] d] ctl_inv_take_lane [OF inv l]
  show "ctl_inv X h (snd (settle_entry now ab e (put_lane t q' s)))" using ctl_inv_settle_entry by blast
next
  show "ctl_inv X h s \<Longrightarrow> ctl_inv X h (removeEmptyLane t s)" for s t by (rule ctl_inv_removeEmptyLane)
qed

subsection \<open>Shadow state\<close>

text \<open>Changes of the shadow bookkeeping: the virtual queue, and the dispositions of the leases.\<close>

lemma ctl_inv_virtualQueue: "ctl_inv X h s \<Longrightarrow> q_inv q \<Longrightarrow> ctl_inv X h (s\<lparr>virtualQueue := q\<rparr>)"
  by (simp add: ctl_inv_def adapt_ok_def queues_ok_def ledger_ok_def tickets_ok_def tickets_def waiting_def)

lemma virtual_q_inv: "ctl_inv X h s \<Longrightarrow> q_inv (virtualQueue s)"
  by (simp add: ctl_inv_def queues_ok_def)

lemma active_total_disp: "map_of m i = Some r \<Longrightarrow> active_total (map_set i (r\<lparr>l_disp := d\<rparr>) m) = active_total m"
  by (induction m) (auto simp: active_total_def split: if_splits)

lemma list_all_disp: "list_all (\<lambda>(i, r). P i \<and> 0 < l_cost r) m \<Longrightarrow> map_of m i = Some r \<Longrightarrow>
    list_all (\<lambda>(i, r). P i \<and> 0 < l_cost r) (map_set i (r\<lparr>l_disp := d\<rparr>) m)"
  by (induction m) (auto split: if_splits)

lemma ctl_inv_same:
  assumes "ctl_inv X h s" and "config s' = config s" and "adapt s' = adapt s" and "queue s' = queue s"
    and "lanes s' = lanes s" and "settled s' = settled s" and "leaseSeq s' = leaseSeq s"
    and "q_inv (virtualQueue s')" and "ledger_ok s'"
  shows "ctl_inv X h s'"
  using assms by (simp add: ctl_inv_def adapt_ok_def queues_ok_def tickets_ok_def tickets_def waiting_def)

lemma ctl_inv_set_disp: assumes "ctl_inv X h s" shows "ctl_inv X h (set_disp i d s)"
proof (cases "map_of (active s) i")
  case (Some r)
  have "ledger_ok s" using assms by (simp add: ctl_inv_def)
  then have "ledger_ok (set_disp i d s)"
    using Some by (simp add: set_disp_def ledger_ok_def active_total_disp list_all_disp)
  then show ?thesis
    by (rule ctl_inv_same [OF assms, rotated -1])
      (simp_all add: set_disp_def virtual_q_inv [OF assms] split: option.splits)
qed (simp add: set_disp_def assms)

lemma set_disp_fields [simp]: "queue (set_disp i d s) = queue s" "lanes (set_disp i d s) = lanes s"
  "activeCost (set_disp i d s) = activeCost s" "config (set_disp i d s) = config s"
  "adapt (set_disp i d s) = adapt s" "settled (set_disp i d s) = settled s"
  "shutDown (set_disp i d s) = shutDown s" "virtualQueue (set_disp i d s) = virtualQueue s"
  "leaseSeq (set_disp i d s) = leaseSeq s"
  by (simp_all add: set_disp_def split: option.splits)

lemma set_disp_keys [simp]: "map fst (active (set_disp i d s)) = map fst (active s)"
proof (cases "map_of (active s) i")
  case (Some r)
  then have "i \<in> set (map fst (active s))" by (metis domI dom_map_of_conv_image_fst list.set_map)
  then show ?thesis using Some by (simp add: set_disp_def update_keys)
qed (simp add: set_disp_def)

lemma dispatchVirtual_rule:
  "P s \<Longrightarrow> (\<And>s c. P s \<Longrightarrow> P (s\<lparr>virtualQueue := snd (dequeue c (virtualQueue s))\<rparr>)) \<Longrightarrow>
    (\<And>s x y. P s \<Longrightarrow> P (s\<lparr>virtualActiveCost := x, virtualActiveCount := y\<rparr>)) \<Longrightarrow>
    (\<And>s i. P s \<Longrightarrow> P (set_disp i V_active s)) \<Longrightarrow> P (dispatchVirtual s)"
proof (induction s rule: dispatchVirtual.induct)
  case (1 s)
  note P = 1(2) and vq = 1(3) and cnt = 1(4) and disp = 1(5)
  obtain r q where d: "dequeue (currentLimit (adapt s) - virtualActiveCost s) (virtualQueue s) = (r, q)"
    by fastforce
  have q: "P (s\<lparr>virtualQueue := q\<rparr>)"
    using vq [OF P, of "currentLimit (adapt s) - virtualActiveCost s"] d by simp
  show ?case
  proof (cases "qcount (virtualQueue s) \<le> 0 \<or> currentLimit (adapt s) - virtualActiveCost s \<le> 0")
    case True
    then show ?thesis using P by (subst dispatchVirtual.simps) auto
  next
    case go: False
    show ?thesis
    proof (cases r)
      case None
      then show ?thesis using go d q by (subst dispatchVirtual.simps) simp
    next
      case (Some e)
      let ?s = "case map_of (active s) (payload e) of
          None \<Rightarrow> s\<lparr>virtualQueue := q\<rparr>
        | Some r \<Rightarrow> set_disp (payload e) V_active (s\<lparr>virtualQueue := q,
            virtualActiveCost := addSaturated (virtualActiveCost s) (l_cost r),
            virtualActiveCount := addSaturated (virtualActiveCount s) 1\<rparr>)"
      have "P ?s"
        using q cnt [OF q] disp by (auto split: option.splits)
      then have "P (dispatchVirtual ?s)"
        using go d Some by (intro 1(1) vq cnt disp) auto
      then show ?thesis
        using go d Some by (subst dispatchVirtual.simps) simp
    qed
  qed
qed

lemma dequeue_inv: "q_inv q \<Longrightarrow> q_inv (snd (dequeue c q))"
  using dequeue_Some [of q c] dequeue_None [of q c] by (cases "dequeue c q"; cases "fst (dequeue c q)") auto

lemma ctl_inv_dispatchVirtual: "ctl_inv X h s \<Longrightarrow> ctl_inv X h (dispatchVirtual s)"
  by (rule dispatchVirtual_rule [where P = "ctl_inv X h"])
    (simp_all add: ctl_inv_set_disp ctl_inv_virtualQueue dequeue_inv virtual_q_inv)

lemma dispatchVirtual_fields [simp]: "queue (dispatchVirtual s) = queue s"
  "lanes (dispatchVirtual s) = lanes s" "activeCost (dispatchVirtual s) = activeCost s"
  "config (dispatchVirtual s) = config s" "adapt (dispatchVirtual s) = adapt s"
  "settled (dispatchVirtual s) = settled s" "shutDown (dispatchVirtual s) = shutDown s"
  "leaseSeq (dispatchVirtual s) = leaseSeq s"
  "map fst (active (dispatchVirtual s)) = map fst (active s)"
proof -
  have "queue (dispatchVirtual s) = queue s \<and> lanes (dispatchVirtual s) = lanes s
    \<and> activeCost (dispatchVirtual s) = activeCost s \<and> config (dispatchVirtual s) = config s
    \<and> adapt (dispatchVirtual s) = adapt s \<and> settled (dispatchVirtual s) = settled s
    \<and> shutDown (dispatchVirtual s) = shutDown s \<and> leaseSeq (dispatchVirtual s) = leaseSeq s
    \<and> map fst (active (dispatchVirtual s)) = map fst (active s)"
    by (rule dispatchVirtual_rule [where P = "\<lambda>s'. queue s' = queue s \<and> lanes s' = lanes s
      \<and> activeCost s' = activeCost s \<and> config s' = config s \<and> adapt s' = adapt s
      \<and> settled s' = settled s \<and> shutDown s' = shutDown s \<and> leaseSeq s' = leaseSeq s
      \<and> map fst (active s') = map fst (active s)"]) simp_all
  then show "queue (dispatchVirtual s) = queue s"
    "lanes (dispatchVirtual s) = lanes s" "activeCost (dispatchVirtual s) = activeCost s"
    "config (dispatchVirtual s) = config s" "adapt (dispatchVirtual s) = adapt s"
    "settled (dispatchVirtual s) = settled s" "shutDown (dispatchVirtual s) = shutDown s"
    "leaseSeq (dispatchVirtual s) = leaseSeq s"
    "map fst (active (dispatchVirtual s)) = map fst (active s)" by blast+
qed

lemma removeById_inv: assumes "q_inv q" shows "q_inv (snd (removeById i q))"
proof -
  obtain r q' where r: "removeById i q = (r, q')" by fastforce
  have "q_inv q'"
  proof (cases r)
    case None
    then have "q' = q" using removeById_None [OF assms, of i q'] r by blast
    then show ?thesis using assms by simp
  next
    case (Some e)
    then show ?thesis using removeById_Some [OF assms, of i e q'] r by blast
  qed
  then show ?thesis by (simp add: r)
qed

lemma ctl_inv_releaseVirtual: assumes "ctl_inv X h s" shows "ctl_inv X h (releaseVirtual i r s)"
  using assms ctl_inv_virtualQueue [OF assms removeById_inv [OF virtual_q_inv [OF assms], of i]]
  by (simp add: releaseVirtual_def ctl_inv_dispatchVirtual split: disposition.splits)

lemma ctl_inv_rebuild_one: "ctl_inv X h s \<Longrightarrow> ctl_inv X h (rebuild_one i s)"
proof (cases "map_of (active s) i")
  case (Some r)
  assume inv: "ctl_inv X h s"
  let ?e = "\<lparr>eid = i, tenantKey = ''_existing'', ecost = l_cost r, enqueuedAtMs = admittedAtMs r,
    deadlineMs = MAX_SAFE_INTEGER, payload = i, skipCount = 0\<rparr>"
  obtain ok q where e: "enqueue ?e (virtualQueue s) = (ok, q)" by fastforce
  have "ok \<Longrightarrow> q_inv q" using q_inv_enqueue [OF virtual_q_inv [OF inv], of ?e q] e by simp
  then show ?thesis
    using inv Some e ctl_inv_virtualQueue [OF inv]
    by (auto simp: rebuild_one_def Let_def intro!: ctl_inv_set_disp)
qed (simp add: rebuild_one_def)

lemma ctl_inv_rebuild: "ctl_inv X h s \<Longrightarrow> ctl_inv X h (rebuildVirtualState enable s)"
proof -
  assume inv: "ctl_inv X h s"
  have tot: "active_total (map_values (\<lambda>r. r\<lparr>l_disp := V_none\<rparr>) m) = active_total m" for m
    by (induction m) (auto simp: active_total_def map_values_def)
  have all: "list_all (\<lambda>(i, r). P i \<and> 0 < l_cost r) (map_values (\<lambda>r. r\<lparr>l_disp := V_none\<rparr>) m)
      = list_all (\<lambda>(i, r). P i \<and> 0 < l_cost r) m" for m P
    by (induction m) (auto simp: map_values_def)
  have "ctl_inv X h (fold rebuild_one is s)" if "ctl_inv X h s" for "is" s
    using that by (induction "is" arbitrary: s) (auto intro: ctl_inv_rebuild_one)
  moreover have "ctl_inv X h (s\<lparr>virtualQueue := newFairCostQueue n c, virtualActiveCost := 0,
      virtualActiveCount := 0, active := map_values (\<lambda>r. r\<lparr>l_disp := V_none\<rparr>) (active s)\<rparr>)" for n c
    using inv q_inv_new [of n c]
    by (simp add: ctl_inv_def adapt_ok_def queues_ok_def ledger_ok_def tickets_ok_def tickets_def
        waiting_def tot all)
  ultimately show ?thesis by (simp add: rebuildVirtualState_def Let_def)
qed

subsection \<open>Draining, lanes and enqueueing\<close>

lemma ctl_inv_settle_all: "ctl_inv X (mset (map eid es) + h) s \<Longrightarrow> ctl_inv X h (fold (settle_rejected code) es s)"
  by (induction es arbitrary: s) (simp_all add: ctl_inv_settle_rejected)

lemma settle_rejected_lanes:
  "settle_rejected code e (s\<lparr>lanes := x\<rparr>) = (settle_rejected code e s)\<lparr>lanes := x\<rparr>"
  by (cases s) (simp add: settle_rejected_def)

lemma settle_all_lanes: "fold (settle_rejected code) es (s\<lparr>lanes := x\<rparr>)
    = (fold (settle_rejected code) es s)\<lparr>lanes := x\<rparr>"
  by (induction es arbitrary: s) (simp_all add: settle_rejected_lanes)

lemma settle_all_fields [simp]: "lanes (fold (settle_rejected code) es s) = lanes s"
  "queue (fold (settle_rejected code) es s) = queue s" "config (fold (settle_rejected code) es s) = config s"
  "adapt (fold (settle_rejected code) es s) = adapt s" "active (fold (settle_rejected code) es s) = active s"
  "activeCost (fold (settle_rejected code) es s) = activeCost s"
  "shutDown (fold (settle_rejected code) es s) = shutDown s"
  "leaseSeq (fold (settle_rejected code) es s) = leaseSeq s"
  by (induction es arbitrary: s) (simp_all add: settle_rejected_def)

lemma drain_mset: "q_inv q \<Longrightarrow> mset (fst (drain q)) = contents q"
  using drain_spec [of q "fst (drain q)" "snd (drain q)"] by simp

lemma drain_empty: "q_inv q \<Longrightarrow> q_inv (snd (drain q)) \<and> contents (snd (drain q)) = {#}"
  using drain_spec [of q "fst (drain q)" "snd (drain q)"] by simp

lemma ctl_inv_hand_lane:
  assumes "ctl_inv X h s" and "map_of (lanes s) t = Some l"
  shows "ctl_inv X (image_mset eid (contents (lane_queue l)) + h) (s\<lparr>lanes := map_del t (lanes s)\<rparr>)"
proof -
  have "lane_contents (lanes s) = lane_contents (map_del t (lanes s)) + contents (lane_queue l)"
    using lane_contents_del [of "lanes s" t l] assms by (simp add: ctl_inv_def queues_ok_def)
  then have "image_mset eid (contents (lane_queue l)) + h + tickets (s\<lparr>lanes := map_del t (lanes s)\<rparr>) = h + tickets s"
    by (simp add: tickets_def waiting_def)
  then have "tickets_ok X (image_mset eid (contents (lane_queue l)) + h) (s\<lparr>lanes := map_del t (lanes s)\<rparr>)"
    using assms(1) by (simp only: ctl_inv_def tickets_ok_def) simp
  then show ?thesis
    using assms(1) by (simp add: ctl_inv_def adapt_ok_def queues_ok_def ledger_ok_def list_all_del)
qed

lemma ctl_inv_deleteLane: assumes "ctl_inv X h s" shows "ctl_inv X h (deleteLane t s)"
proof (cases "map_of (lanes s) t")
  case (Some l)
  have "q_inv (lane_queue l)" using lanes_q_inv Some assms unfolding ctl_inv_def by blast
  then have "mset (map eid (fst (drain (lane_queue l)))) = image_mset eid (contents (lane_queue l))"
    by (simp add: drain_mset)
  with ctl_inv_hand_lane [OF assms Some]
  have "ctl_inv X (mset (map eid (fst (drain (lane_queue l)))) + h) (s\<lparr>lanes := map_del t (lanes s)\<rparr>)"
    by (simp only:)
  from ctl_inv_settle_all [OF this, of Lane_evicted] show ?thesis
    using Some by (simp add: deleteLane_def Let_def settle_all_lanes)
qed (simp add: deleteLane_def assms)

lemma deleteLane_fields [simp]: "queue (deleteLane t s) = queue s" "config (deleteLane t s) = config s"
  "adapt (deleteLane t s) = adapt s" "active (deleteLane t s) = active s"
  "activeCost (deleteLane t s) = activeCost s" "shutDown (deleteLane t s) = shutDown s"
  "leaseSeq (deleteLane t s) = leaseSeq s"
  by (simp_all add: deleteLane_def Let_def split: option.splits)

lemma evictIdle_keeps: "P (s :: ctl) \<Longrightarrow> (\<And>s t. P s \<Longrightarrow> P (deleteLane t s)) \<Longrightarrow> P (evictIdleLanes now s)"
proof -
  assume *: "P s" "\<And>s t. P s \<Longrightarrow> P (deleteLane t s)"
  have "P (fold deleteLane ts s)" if "P s" for ts s
    using that by (induction ts arbitrary: s) (auto intro: *(2))
  with * show ?thesis by (simp add: evictIdleLanes_def)
qed

lemma ctl_inv_evictIdle: "ctl_inv X h s \<Longrightarrow> ctl_inv X h (evictIdleLanes now s)"
  by (rule evictIdle_keeps) (auto intro: ctl_inv_deleteLane)

lemma ctl_inv_subset: "ctl_inv Y h s \<Longrightarrow> X \<subseteq> Y \<Longrightarrow> ctl_inv X h s"
  by (auto simp: ctl_inv_def tickets_ok_def)

lemma ctl_inv_weaken: "ctl_inv Y (add_mset x h) s \<Longrightarrow> X \<subseteq> Y \<Longrightarrow> x \<notin> X \<Longrightarrow> ctl_inv X h s"
proof -
  assume inv: "ctl_inv Y (add_mset x h) s" and X: "X \<subseteq> Y" "x \<notin> X"
  have "count (h + tickets s) y \<le> count (add_mset x h + tickets s) y" for y by simp
  moreover have "count (add_mset x h + tickets s) y \<le> (if y \<le> leaseSeq s then 1 else 0)" for y
    using inv by (simp only: ctl_inv_def tickets_ok_def)
  moreover have "X \<subseteq> set_mset (h + tickets s)"
    using inv X by (auto simp: ctl_inv_def tickets_ok_def)
  ultimately have "tickets_ok X h s" unfolding tickets_ok_def by (meson order_trans)
  then show ?thesis using inv by (simp add: ctl_inv_def)
qed

lemma ctl_inv_fresh: assumes "ctl_inv X h s"
  shows "ctl_inv (insert (Suc (leaseSeq s)) X) (add_mset (Suc (leaseSeq s)) h)
    (s\<lparr>leaseSeq := Suc (leaseSeq s)\<rparr>) \<and> Suc (leaseSeq s) \<notin> X"
proof -
  let ?i = "Suc (leaseSeq s)"
  have ok: "count (h + tickets s) y \<le> (if y \<le> leaseSeq s then 1 else 0)" for y
    using assms by (simp only: ctl_inv_def tickets_ok_def)
  have t: "tickets (s\<lparr>leaseSeq := ?i\<rparr>) = tickets s" by (simp add: tickets_def waiting_def)
  have "count (add_mset ?i h + tickets s) y \<le> (if y \<le> ?i then 1 else 0)" for y
    using ok [of y] by (cases "y = ?i") (auto split: if_splits)
  moreover have X: "X \<subseteq> set_mset (h + tickets s)"
    using assms by (simp add: ctl_inv_def tickets_ok_def)
  ultimately have "tickets_ok (insert ?i X) (add_mset ?i h) (s\<lparr>leaseSeq := ?i\<rparr>)"
    by (auto simp: tickets_ok_def t)
  moreover have "?i \<notin> X"
  proof
    assume "?i \<in> X"
    then have "0 < count (h + tickets s) ?i" using X by (meson count_greater_zero_iff subsetD)
    moreover have "count (h + tickets s) ?i \<le> 0"
      using ok [of ?i] by (simp only: Suc_n_not_le_n if_False)
    ultimately show False by linarith
  qed
  ultimately show ?thesis
    using ctl_inv_seq [OF assms, of ?i] by (simp add: ctl_inv_def)
qed

lemma ctl_inv_enqueue_shared:
  assumes "ctl_inv X (add_mset (eid e) h) s" and "skipCount e = 0" and "enqueue e (queue s) = (True, q)"
  shows "ctl_inv X h (s\<lparr>queue := q\<rparr>)"
proof -
  have "q_inv (queue s)" using assms(1) by (simp add: ctl_inv_def queues_ok_def)
  from q_inv_enqueue [OF this assms(2,3)] assms(1) show ?thesis
    by (simp add: ctl_inv_def adapt_ok_def queues_ok_def ledger_ok_def tickets_ok_def tickets_def waiting_def)
qed

lemma ctl_inv_enqueue_lane:
  assumes "ctl_inv X (add_mset (eid e) h) s" and "skipCount e = 0" and "lane_q s t = Some q0"
    and "enqueue e q0 = (True, q)"
  shows "ctl_inv X h (put_lane t q s)"
proof -
  have "q_inv q0" using assms(1,3) lane_q_inv unfolding ctl_inv_def by blast
  note e = q_inv_enqueue [OF this assms(2,4)]
  then have "lane_contents (lanes (put_lane t q s)) = add_mset (strip e) (lane_contents (lanes s))"
    using lane_contents_put [OF assms(3), of q] by simp
  then show ?thesis
    using assms(1) e queues_ok_put_lane [of s q t]
    by (simp add: ctl_inv_def adapt_ok_def ledger_ok_def tickets_ok_def tickets_def waiting_def)
qed

lemma getOrCreateLane_fields [simp]: "config (getOrCreateLane now t s) = config s"
  "adapt (getOrCreateLane now t s) = adapt s" "queue (getOrCreateLane now t s) = queue s"
  "active (getOrCreateLane now t s) = active s" "activeCost (getOrCreateLane now t s) = activeCost s"
  "shutDown (getOrCreateLane now t s) = shutDown s" "leaseSeq (getOrCreateLane now t s) = leaseSeq s"
  by (auto simp: getOrCreateLane_def Let_def split: option.splits)

lemma ctl_inv_set_lane:
  assumes "ctl_inv X h s" and "q_inv (lane_queue l)" and "lane_contents (map_set t l (lanes s)) = lane_contents (lanes s)"
  shows "ctl_inv X h (s\<lparr>lanes := map_set t l (lanes s)\<rparr>)"
  using assms by (simp add: ctl_inv_def adapt_ok_def queues_ok_def ledger_ok_def tickets_ok_def tickets_def
      waiting_def list_all_set)

lemma ctl_inv_getOrCreateLane: assumes "ctl_inv X h s"
  shows "ctl_inv X h (getOrCreateLane now t s) \<and> (\<exists>q. lane_q (getOrCreateLane now t s) t = Some q)"
proof (cases "map_of (lanes s) t")
  case (Some l)
  have "q_inv (lane_queue l)" using lanes_q_inv Some assms unfolding ctl_inv_def by blast
  moreover have "lane_contents (map_set t (l\<lparr>lastUsedMs := now\<rparr>) (lanes s)) = lane_contents (lanes s)"
    using lane_contents_set [OF Some, of "l\<lparr>lastUsedMs := now\<rparr>"] by simp
  ultimately show ?thesis
    using ctl_inv_set_lane [OF assms, of "l\<lparr>lastUsedMs := now\<rparr>" t] Some
    by (simp add: getOrCreateLane_def lane_q_def)
next
  case None
  let ?s = "if length (lanes s) \<ge> ADMISSION_LANE_MAX_SESSIONS then case oldestLaneKey s of
      None \<Rightarrow> s | Some k \<Rightarrow> if k = [] then s else deleteLane k s else s"
  let ?l = "\<lparr>lane_queue = newFairCostQueue (maxQueueCount (config ?s)) (maxQueueCost (config ?s)), lastUsedMs = now\<rparr>"
  have inv: "ctl_inv X h ?s" using assms ctl_inv_deleteLane by (auto split: option.splits)
  have "\<not> map_has t (lanes (deleteLane k s))" for k
    using None by (simp add: deleteLane_def map_has_def Let_def split: option.splits)
  then have "\<not> map_has t (lanes ?s)" using None by (auto simp: map_has_def split: option.splits)
  then have "lane_contents (map_set t ?l (lanes ?s)) = lane_contents (lanes ?s)"
    by (subst lane_contents_new) (simp_all add: newFairCostQueue_def contents_def)
  then have "ctl_inv X h (?s\<lparr>lanes := map_set t ?l (lanes ?s)\<rparr>)"
    by (intro ctl_inv_set_lane [OF inv]) (simp_all add: q_inv_new)
  moreover have "getOrCreateLane now t s = ?s\<lparr>lanes := map_set t ?l (lanes ?s)\<rparr>"
    unfolding getOrCreateLane_def None Let_def by simp
  ultimately show ?thesis by (simp add: lane_q_def)
qed

subsection \<open>Operations\<close>

lemma normalizeRequestCost_Inr: "normalizeRequestCost v mx = Inr n \<Longrightarrow> 0 < n \<and> n \<le> mx"
  by (auto simp: normalizeRequestCost_def bind_checked_Inr requirePositive_same requirePositiveInt_Inr)

lemma resolveCost_pos: assumes "ctl_inv X h s" and "resolveCost r s = Inr c" shows "0 < c"
proof -
  have ok: "cost_config_ok (costConfig (config s))"
    using assms(1) by (simp add: ctl_inv_def adapt_ok_def config_ok_def)
  show ?thesis
    using assms(2) cost_estimate_bounds [OF resolveCostConfig_again [OF ok]] normalizeRequestCost_Inr
    by (auto simp: resolveCost_def estimateAdmissionCost_def resolveCostConfig_again [OF ok] split: option.splits)
qed

text \<open>The identifiers that a result adds to those that must not get lost.\<close>

definition promised :: "acquire_result \<Rightarrow> nat set" where
  "promised res = (case res of Queued i \<Rightarrow> {i} | _ \<Rightarrow> {})"

lemma promised_simps [simp]: "promised (Queued i) = {i}" "promised (Admitted j d) = {}"
  "promised (Rejected code) = {}" "promised (Threw err) = {}"
  by (simp_all add: promised_def)

lemma ctl_inv_enqueue_request: assumes "ctl_inv X h s0" and "0 < cost"
  shows "ctl_inv (promised (fst (enqueue_request now ab r cost s0)) \<union> X) h
    (snd (enqueue_request now ab r cost s0))"
proof (cases "normalizeRequestCost (nullish (rq_maxWaitMs r) (Num (of_int (defaultMaxWaitMs (config s0)))))
    MAX_ADMISSION_WINDOW_MS")
  case (Inl err)
  then show ?thesis
    using ctl_inv_weaken [of _ _ h _ X] ctl_inv_fresh [OF assms(1)]
    by (simp add: enqueue_request_def Let_def) blast
next
  case (Inr maxWait)
  let ?i = "Suc (leaseSeq s0)"
  let ?s = "s0\<lparr>leaseSeq := ?i\<rparr>"
  let ?X = "insert ?i X"
  let ?e = "\<lparr>eid = ?i, tenantKey = tenant_of r, ecost = cost, enqueuedAtMs = now,
    deadlineMs = min MAX_SAFE_INTEGER (now + maxWait), payload = rq_signal r, skipCount = 0\<rparr>"
  have inv: "ctl_inv ?X (add_mset ?i h) ?s" and new: "?i \<notin> X" using ctl_inv_fresh [OF assms(1)] by blast+
  show ?thesis
  proof (cases "tenant_of r \<noteq> default_tenant \<and> virtualLanes_on (config s0)")
    case True
    let ?s1 = "getOrCreateLane now (tenant_of r) ?s"
    obtain q0 where q0: "lane_q ?s1 (tenant_of r) = Some q0" and inv1: "ctl_inv ?X (add_mset ?i h) ?s1"
      using ctl_inv_getOrCreateLane [OF inv] by blast
    obtain ok q where e: "enqueue ?e q0 = (ok, q)" by fastforce
    have "ctl_inv ?X h (put_lane (tenant_of r) q ?s1)" if ok
      using ctl_inv_enqueue_lane [of ?X ?e h ?s1 "tenant_of r" q0 q] inv1 q0 e that by simp
    moreover have "ctl_inv X h (removeEmptyLane (tenant_of r) ?s1)"
      using ctl_inv_removeEmptyLane [OF ctl_inv_weaken [OF inv1 _ new]] by blast
    ultimately show ?thesis
      using True q0 e Inr by (simp add: enqueue_request_def Let_def ctl_inv_dispatch reject_def)
  next
    case False
    obtain ok q where e: "enqueue ?e (queue ?s) = (ok, q)" by fastforce
    have "ctl_inv ?X h (?s\<lparr>queue := q\<rparr>)" if ok
      using ctl_inv_enqueue_shared [of ?X ?e h ?s q] inv e that by simp
    moreover have "ctl_inv X h ?s" using ctl_inv_weaken [OF inv _ new] by blast
    ultimately show ?thesis
      using False e Inr by (auto simp: enqueue_request_def Let_def reject_def intro!: ctl_inv_dispatch)
  qed
qed

lemma enqueue_inv: assumes "q_inv q" and "skipCount e = 0" shows "q_inv (snd (enqueue e q))"
proof -
  obtain ok q' where e: "enqueue e q = (ok, q')" by fastforce
  then show ?thesis
    using q_inv_enqueue [OF assms, of q'] enqueue_refused [of e q q'] assms by (cases ok) auto
qed

lemma ctl_inv_acquireShadow: assumes "ctl_inv X h s" and "0 < c"
  shows "ctl_inv X h (snd (acquireShadow now r c limit s))"
proof -
  have "ctl_inv X h (snd (admit now c d s'))" if "ctl_inv X h s'" for d s'
    by (rule ctl_inv_admit [OF that assms(2)])
  then show ?thesis
    using assms(1) virtual_q_inv [OF assms(1)]
    by (simp add: acquireShadow_def Let_def split_beta ctl_inv_virtualQueue enqueue_inv)
qed

lemma ctl_inv_acquire_enforced: assumes "ctl_inv X h s" and "0 < c"
  shows "ctl_inv (promised (fst (acquire_enforced now ab r c s)) \<union> X) h (snd (acquire_enforced now ab r c s))"
  using ctl_inv_admit [OF assms] ctl_inv_enqueue_request [OF assms] assms(1)
  by (simp add: acquire_enforced_def Let_def split_beta reject_def)

lemma ctl_inv_acquire_promised: assumes "ctl_inv X h s"
  shows "ctl_inv (promised (fst (acquire now ab r s)) \<union> X) h (snd (acquire now ab r s))"
proof -
  let ?s = "case rq_pressure r of None \<Rightarrow> s | Some p \<Rightarrow> s\<lparr>adapt := setPressure p (adapt s)\<rparr>"
  have inv: "ctl_inv X h ?s"
    using assms ctl_inv_adapt [OF assms setPressure_inv [OF adapt_of_inv [OF assms]]]
    by (simp split: option.splits)
  have off: "ctl_inv X h (snd (admitVirtual ?s))"
    using ctl_inv_seq [OF inv, of "Suc (leaseSeq ?s)"] by (simp add: admitVirtual_def)
  show ?thesis
  proof (cases "resolveCost r ?s")
    case (Inl e)
    then show ?thesis using assms inv by (simp add: acquire_def Let_def reject_def)
  next
    case (Inr c)
    note c = resolveCost_pos [OF inv Inr]
    show ?thesis
      using assms Inr off ctl_inv_acquireShadow [OF inv c, of now r "currentLimit (adapt ?s)"]
        ctl_inv_acquire_enforced [OF inv c, of now ab r]
      by (simp add: acquire_def Let_def reject_def admitVirtual_def acquireShadow_def split_beta
          split: admission_mode.splits)
  qed
qed

lemma ctl_inv_acquire: "ctl_inv X h s \<Longrightarrow> ctl_inv X h (snd (acquire now ab r s))"
  using ctl_inv_acquire_promised [of X h s now ab r] ctl_inv_subset by blast

text \<open>A release in two steps: the lease leaves the ledger, then the freed room is used.\<close>

lemma ctl_inv_release_slot: assumes "ctl_inv X h s" and Some: "map_of (active s) i = Some r"
  shows "\<exists>s1. releaseLease now ab i oc lat pr s = dispatch now ab (releaseVirtual i r s1)
    \<and> config s1 = config s \<and> activeCost s1 = activeCost s - l_cost r \<and> ctl_inv X h s1"
proof -
  let ?s = "sampleIntegral now s"
  have inv: "ctl_inv X h ?s" by (rule ctl_inv_sample [OF assms(1)])
  have adapt: "adapt_inv (adaptation_cfg (config ?s)) (case pr of None \<Rightarrow> a | Some p \<Rightarrow> setPressure p a)"
    if "adapt_inv (adaptation_cfg (config ?s)) a" for a
    using that by (simp add: setPressure_inv split: option.splits)
  have comp: "adapt_inv p (a\<lparr>windowCompleted := windowCompleted a + 1\<rparr>)" if "adapt_inv p a" for p a
    using adapt_step_inv [OF that, of Completed] by simp
  have out: "adapt_inv p (noteOutcome oc a)" if "adapt_inv p a" for p a
    using adapt_step_inv [OF that, of "Outcome oc"] by simp
  have del: "ctl_inv X h (s'\<lparr>active := map_del i (active s'), activeCost := activeCost s' - l_cost r\<rparr>)"
    if "ctl_inv X h s'" "map_of (active s') i = Some r" for s'
    using that by (simp add: ctl_inv_def adapt_ok_def queues_ok_def ledger_ok_def tickets_ok_def
        tickets_def waiting_def active_total_del list_all_del)
  have "ctl_inv X h (?s\<lparr>active := map_del i (active ?s), activeCost := activeCost ?s - l_cost r\<rparr>)"
    using Some by (intro del inv) simp
  from ctl_inv_adapt [OF this] have d: "ctl_inv X h (?s\<lparr>active := map_del i (active ?s),
      activeCost := activeCost ?s - l_cost r, adapt := a\<rparr>)"
    if "adapt_inv (adaptation_cfg (config ?s)) a" for a
    using that by simp
  have ai: "adapt_inv (adaptation_cfg (config s)) (adapt ?s)" using adapt_of_inv [OF inv] by simp
  note fin = d [unfolded sampleIntegral_fields(1), OF adapt [unfolded sampleIntegral_fields(1),
      OF comp [OF out [OF noteLatency_inv [OF ai]]]]]
  show ?thesis
    unfolding releaseLease_def Let_def Some option.case
    by (intro exI conjI, rule refl, simp, simp, rule fin)
qed

lemma ctl_inv_releaseLease: assumes "ctl_inv X h s" shows "ctl_inv X h (releaseLease now ab i oc lat pr s)"
proof (cases "map_of (active s) i")
  case (Some r)
  obtain s1 where "releaseLease now ab i oc lat pr s = dispatch now ab (releaseVirtual i r s1)"
    and "ctl_inv X h s1" using ctl_inv_release_slot [OF assms Some] by blast
  then show ?thesis by (simp add: ctl_inv_dispatch ctl_inv_releaseVirtual)
qed (simp add: releaseLease_def assms)

lemma find_lane_Some: "find_lane i ls = Some (t, e, q) \<Longrightarrow> map_ok ls \<Longrightarrow>
    \<exists>l. map_of ls t = Some l \<and> removeById i (lane_queue l) = (Some e, q)"
proof (induction ls)
  case (Cons x ls)
  obtain u l where x: "x = (u, l)" by (cases x)
  obtain r q1 where rm: "removeById i (lane_queue l) = (r, q1)" by fastforce
  show ?case
  proof (cases r)
    case None
    then have f: "find_lane i ls = Some (t, e, q)" using Cons.prems x rm by simp
    then obtain l' where l': "map_of ls t = Some l'" "removeById i (lane_queue l') = (Some e, q)"
      using Cons x by auto
    then have "t \<noteq> u" using Cons.prems(2) x by (auto simp: map_has_def)
    then show ?thesis using l' x by simp
  next
    case (Some y)
    then show ?thesis using Cons.prems x rm by simp
  qed
qed simp

lemma ctl_inv_strip_hand: "ctl_inv X (add_mset (eid (strip e)) h) s = ctl_inv X (add_mset (eid e) h) s"
  by simp

lemma settle_rejected_fields [simp]: "config (settle_rejected code e s) = config s"
  "activeCost (settle_rejected code e s) = activeCost s" "active (settle_rejected code e s) = active s"
  "queue (settle_rejected code e s) = queue s" "lanes (settle_rejected code e s) = lanes s"
  "shutDown (settle_rejected code e s) = shutDown s"
  by (simp_all add: settle_rejected_def)

lemma ctl_inv_expire_cases: assumes "ctl_inv X h s"
  shows "\<exists>s1. (expireEntry now ab i code s = s \<or> expireEntry now ab i code s = dispatch now ab s1)
    \<and> ctl_inv X h s1 \<and> config s1 = config s \<and> activeCost s1 = activeCost s"
proof -
  have qi: "q_inv (queue s)" and qs: "queues_ok s" using assms by (simp_all add: ctl_inv_def queues_ok_def)
  obtain r q where rm: "removeById i (queue s) = (r, q)" by fastforce
  show ?thesis
  proof (cases r)
    case (Some e)
    note rs = removeById_Some [OF qi, of i e q]
    have "ctl_inv X (add_mset (eid (strip e)) h) (s\<lparr>queue := q\<rparr>)"
      using ctl_inv_take_shared [OF assms, of q "strip e"] rs rm Some by blast
    then have "ctl_inv X h (settle_rejected code e (s\<lparr>queue := q\<rparr>))"
      by (simp add: ctl_inv_settle_rejected)
    then show ?thesis
      using rm Some by (intro exI [of _ "settle_rejected code e (s\<lparr>queue := q\<rparr>)"]) (simp add: expireEntry_def)
  next
    case None
    show ?thesis
    proof (cases "find_lane i (lanes s)")
      case f: (Some x)
      obtain t e q' where x: "x = (t, e, q')" by (cases x)
      obtain l where l: "map_of (lanes s) t = Some l" and rl: "removeById i (lane_queue l) = (Some e, q')"
        using find_lane_Some [of i "lanes s" t e q'] f x qs by (auto simp: queues_ok_def)
      let ?s = "settle_rejected code e (removeEmptyLane (tenantKey e) (put_lane t q' s))"
      have "ctl_inv X (add_mset (eid (strip e)) h) (put_lane t q' s)"
        using ctl_inv_take_lane [OF assms, of t "lane_queue l" q' "strip e"] l
          removeById_Some [OF lanes_q_inv [OF qs l] rl] by (simp add: lane_q_def)
      then have "ctl_inv X h ?s"
        by (simp add: ctl_inv_settle_rejected ctl_inv_removeEmptyLane)
      then show ?thesis
        using rm None f x by (intro exI [of _ ?s]) (simp add: expireEntry_def)
    next
      case none: None
      show ?thesis using assms rm None none by (intro exI [of _ s]) (simp add: expireEntry_def)
    qed
  qed
qed

lemma ctl_inv_expire: "ctl_inv X h s \<Longrightarrow> ctl_inv X h (expireEntry now ab i code s)"
  using ctl_inv_expire_cases [of X h s now ab i code] ctl_inv_dispatch by metis

lemma ctl_inv_observe: assumes "ctl_inv X h s" shows "ctl_inv X h (observePressure now ab p s)"
proof -
  have a: "adapt_inv (adaptation_cfg (config s)) (setPressure p (adapt s))"
    by (rule setPressure_inv [OF adapt_of_inv [OF assms]])
  have "p_minLimit (adaptation_cfg (config s)) = minLimit (config s)"
    using assms by (simp add: ctl_inv_def adapt_ok_def config_ok_def)
  with critical_decrease_inv [OF a] a assms show ?thesis
    by (cases "p = Critical")
      (simp_all add: observePressure_def Let_def ctl_inv_adapt ctl_inv_dispatch ctl_inv_dispatchVirtual)
qed

lemma ctl_inv_tick: assumes "ctl_inv X h s" shows "ctl_inv X h (tick now ab s)"
proof -
  have inv: "ctl_inv X h (evictIdleLanes now (sampleIntegral now s))"
    by (rule ctl_inv_evictIdle [OF ctl_inv_sample [OF assms]])
  from ctl_inv_adapt [OF this closeAdaptationWindow_inv [OF adapt_of_inv [OF this]]] show ?thesis
    by (simp add: tick_def Let_def ctl_inv_dispatch ctl_inv_dispatchVirtual)
qed

text \<open>All entries of all lanes, as the shutdown and the reconfiguration drain them.\<close>

definition drain_lanes :: "(string \<times> lane) list \<Rightarrow> nat option queue_entry list" where
  "drain_lanes ls = concat (map (\<lambda>(_, l). fst (drain (lane_queue l))) ls)"

lemma drain_lanes_mset: "list_all (\<lambda>(_, l). q_inv (lane_queue l)) ls \<Longrightarrow> mset (drain_lanes ls) = lane_contents ls"
  by (induction ls) (auto simp: drain_lanes_def drain_mset)

lemma ctl_inv_drain_all:
  assumes "ctl_inv X h s" and "q_inv q" and "contents q = {#}"
  shows "ctl_inv X (mset (map eid (fst (drain (queue s)) @ drain_lanes (lanes s))) + h)
    (s\<lparr>queue := q, lanes := []\<rparr>)"
proof -
  have qs: "q_inv (queue s)" "list_all (\<lambda>(_, l). q_inv (lane_queue l)) (lanes s)"
    using assms(1) by (simp_all add: ctl_inv_def queues_ok_def)
  have "mset (map eid (fst (drain (queue s)) @ drain_lanes (lanes s))) = image_mset eid (waiting s)"
    using drain_mset [OF qs(1)] drain_lanes_mset [OF qs(2)] by (simp add: waiting_def)
  then have "mset (map eid (fst (drain (queue s)) @ drain_lanes (lanes s))) + h
      + tickets (s\<lparr>queue := q, lanes := []\<rparr>) = h + tickets s"
    using assms(3) by (simp add: tickets_def waiting_def)
  then have "tickets_ok X (mset (map eid (fst (drain (queue s)) @ drain_lanes (lanes s))) + h)
      (s\<lparr>queue := q, lanes := []\<rparr>)"
    using assms(1) by (simp only: ctl_inv_def tickets_ok_def) simp
  then show ?thesis
    using assms by (simp add: ctl_inv_def adapt_ok_def queues_ok_def ledger_ok_def)
qed

lemma shutdown_alt: "\<not> shutDown s \<Longrightarrow> shutdown s =
    fold (settle_rejected Shutdown_code) (fst (drain (queue s)) @ drain_lanes (lanes s))
      (s\<lparr>queue := snd (drain (queue s)), lanes := [], shutDown := True\<rparr>)"
proof -
  assume "\<not> shutDown s"
  then have "shutdown s = (fold (settle_rejected Shutdown_code) (fst (drain (queue s)) @ drain_lanes (lanes s))
      (s\<lparr>shutDown := True, queue := snd (drain (queue s))\<rparr>))\<lparr>lanes := []\<rparr>"
    by (simp add: shutdown_def Let_def drain_lanes_def)
  also have "\<dots> = fold (settle_rejected Shutdown_code) (fst (drain (queue s)) @ drain_lanes (lanes s))
      (s\<lparr>shutDown := True, queue := snd (drain (queue s)), lanes := []\<rparr>)"
    by (rule settle_all_lanes [symmetric])
  also have "s\<lparr>shutDown := True, queue := snd (drain (queue s)), lanes := []\<rparr>
      = s\<lparr>queue := snd (drain (queue s)), lanes := [], shutDown := True\<rparr>"
    by (cases s) simp
  finally show ?thesis .
qed

lemma ctl_inv_shutdown: assumes "ctl_inv X h s" shows "ctl_inv X h (shutdown s)"
proof (cases "shutDown s")
  case False
  have "q_inv (queue s)" using assms by (simp add: ctl_inv_def queues_ok_def)
  from ctl_inv_drain_all [OF assms drain_empty [OF this, THEN conjunct1] drain_empty [OF this, THEN conjunct2]]
  show ?thesis unfolding shutdown_alt [OF False] by (intro ctl_inv_settle_all) simp
qed (simp add: shutdown_def assms)

lemma drained_entries:
  assumes "queues_ok s" and "e \<in> set (fst (drain (queue s)) @ drain_lanes (lanes s))"
  shows "skipCount e = 0 \<and> 0 < ecost e"
proof -
  have "\<exists>q. q_inv q \<and> e \<in># contents q"
  proof (cases "e \<in> set (fst (drain (queue s)))")
    case True
    then have "e \<in># contents (queue s)"
      using assms(1) drain_mset [of "queue s"] by (metis queues_ok_def set_mset_mset)
    then show ?thesis using assms(1) by (auto simp: queues_ok_def)
  next
    case False
    then obtain t l where l: "(t, l) \<in> set (lanes s)" "e \<in> set (fst (drain (lane_queue l)))"
      using assms(2) by (auto simp: drain_lanes_def)
    then have "q_inv (lane_queue l)" using assms(1) by (auto simp: queues_ok_def list_all_iff)
    then show ?thesis using l(2) drain_mset by (metis set_mset_mset)
  qed
  then obtain q where "q_inv q" and e: "e \<in># contents q" by blast
  moreover from e have "skipCount e = 0" by (auto simp: contents_def)
  ultimately show ?thesis using contents_cost_pos by blast
qed

lemma ctl_inv_readmit:
  assumes "ctl_inv X (add_mset (eid e) h) s" and "skipCount e = 0" and "0 < ecost e"
  shows "ctl_inv X h (readmit now e s)"
proof -
  obtain ok q where e: "enqueue e (queue s) = (ok, q)" by fastforce
  have "ctl_inv X h (s\<lparr>queue := q\<rparr>)" if ok
    using ctl_inv_enqueue_shared [OF assms(1,2)] e that by simp
  then show ?thesis
    using assms e by (simp add: readmit_def ctl_inv_settle_admitted ctl_inv_settle_rejected)
qed

lemma ctl_inv_readmit_all: "ctl_inv X (mset (map eid es) + h) s \<Longrightarrow>
    (\<And>e. e \<in> set es \<Longrightarrow> skipCount e = 0 \<and> 0 < ecost e) \<Longrightarrow> ctl_inv X h (fold (readmit now) es s)"
proof (induction es arbitrary: s)
  case (Cons e es)
  then have "ctl_inv X (mset (map eid es) + h) (readmit now e s)"
    by (intro ctl_inv_readmit) simp_all
  then show ?case using Cons by simp
qed simp

lemma ctl_inv_reconfig: "ctl_inv X h s \<Longrightarrow> config_ok c \<Longrightarrow> adapt_inv (adaptation_cfg c) a \<Longrightarrow>
    ctl_inv X h (s\<lparr>config := c, adapt := a\<rparr>)"
  by (simp add: ctl_inv_def adapt_ok_def queues_ok_def ledger_ok_def tickets_ok_def tickets_def waiting_def)

definition reconfigured :: "time \<Rightarrow> valid_config \<Rightarrow> adaptation \<Rightarrow> adaptation" where
  "reconfigured now c a = a\<lparr>currentLimit := min (maxLimit c) (max (minLimit c) (currentLimit a)),
     recoveryCeiling := clampLimit (initialLimit c) (minLimit c) (maxLimit c),
     windowStartMs := now, windowActiveCostIntegral := 0, windowCompleted := 0,
     windowLatencySamples := 0, freezeGrowth := False, criticalDecreaseConsumed := False,
     a_pressure := Normal\<rparr>"

lemma reconfigured_inv: "config_ok c \<Longrightarrow> adapt_inv p a \<Longrightarrow> adapt_inv (adaptation_cfg c) (reconfigured now c a)"
  by (simp add: adapt_inv_def reconfigured_def config_ok_def clampLimit_bounds MAX_SAFE_INTEGER_def)

text \<open>The state in which the drained entries are readmitted.\<close>

definition reconfigured_state :: "time \<Rightarrow> valid_config \<Rightarrow> ctl \<Rightarrow> ctl" where
  "reconfigured_state now c s = (sampleIntegral now s)\<lparr>
     queue := newFairCostQueue (maxQueueCount c) (maxQueueCost c), lanes := [],
     config := c, adapt := reconfigured now c (adapt (sampleIntegral now s)), lastSampleMs := now\<rparr>"

lemma updateConfig_alt: assumes "validateConfig i = Inr c"
  shows "updateConfig now ab i s = (None,
    (let s3 = rebuildVirtualState (mode c = Shadow) (fold (readmit now)
        (fst (drain (queue s)) @ drain_lanes (lanes s)) (reconfigured_state now c s))
     in if mode c = Enforce then dispatch now ab s3 else s3))"
proof -
  let ?s = "sampleIntegral now s"
  have "?s\<lparr>config := c, adapt := reconfigured now c (adapt ?s), lastSampleMs := now,
      queue := newFairCostQueue (maxQueueCount c) (maxQueueCost c), lanes := []\<rparr> = reconfigured_state now c s"
    by (cases ?s) (simp add: reconfigured_state_def)
  then show ?thesis
    using assms unfolding updateConfig_def reconfigured_def drain_lanes_def Let_def by simp
qed

lemma ctl_inv_updateConfig: assumes "ctl_inv X h s" shows "ctl_inv X h (snd (updateConfig now ab i s))"
proof (cases "validateConfig i")
  case (Inr c)
  let ?s = "sampleIntegral now s"
  have ok: "config_ok c" by (rule validateConfig_ok [OF Inr])
  have inv: "ctl_inv X h ?s" by (rule ctl_inv_sample [OF assms])
  let ?es = "fst (drain (queue s)) @ drain_lanes (lanes s)"
  have "ctl_inv X (mset (map eid ?es) + h)
      (?s\<lparr>queue := newFairCostQueue (maxQueueCount c) (maxQueueCost c), lanes := []\<rparr>)"
    using ctl_inv_drain_all [OF inv q_inv_new, of "maxQueueCount c" "maxQueueCost c"]
    by (simp add: newFairCostQueue_def contents_def)
  from ctl_inv_reconfig [OF this ok reconfigured_inv [OF ok adapt_of_inv [OF inv]]]
  have "ctl_inv X (mset (map eid ?es) + h) (reconfigured_state now c s)"
    by (simp add: reconfigured_state_def)
  moreover have "queues_ok s" using assms by (simp add: ctl_inv_def)
  ultimately have "ctl_inv X h (fold (readmit now) ?es (reconfigured_state now c s))"
    by (intro ctl_inv_readmit_all) (simp_all add: drained_entries)
  then show ?thesis
    unfolding updateConfig_alt [OF Inr] Let_def
    by (simp add: ctl_inv_dispatch ctl_inv_rebuild)
qed (simp add: updateConfig_def assms)

lemma ctl_step_inv: "ctl_inv X h s \<Longrightarrow> ctl_inv X h (ctl_step s e)"
  by (cases e) (simp_all add: ctl_inv_acquire ctl_inv_releaseLease ctl_inv_expire ctl_inv_observe
      ctl_inv_tick ctl_inv_evictIdle ctl_inv_shutdown ctl_inv_updateConfig)

interpretation ctl_machine: machine ctl_step "ctl_inv X {#}" for X
  by unfold_locales (rule ctl_step_inv)

lemma ctl_inv_new: "config_ok c \<Longrightarrow> ctl_inv {} {#} (newController c now)"
  using createAdaptationState_inv [of "adaptation_cfg c" "initialLimit c" now]
    q_inv_new [of "maxQueueCount c" "maxQueueCost c"] q_inv_new [of "maxQueueCount c" "maxQueueCost c"]
  by (simp add: ctl_inv_def adapt_ok_def queues_ok_def ledger_ok_def tickets_ok_def tickets_def waiting_def
      newController_def config_ok_def active_total_def contents_def newFairCostQueue_def)

definition run_ctl :: "valid_config \<Rightarrow> time \<Rightarrow> ctl_event list \<Rightarrow> ctl" where
  "run_ctl c t es = foldl ctl_step (newController c t) es"

lemma run_ctl_inv: "config_ok c \<Longrightarrow> ctl_inv {} {#} (run_ctl c t es)"
  unfolding run_ctl_def by (rule ctl_machine.run_inv [OF ctl_inv_new])

section \<open>The budget in enforce mode\<close>

definition budget :: "valid_config \<Rightarrow> ctl \<Rightarrow> bool" where
  "budget c s \<longleftrightarrow> ctl_inv {} {#} s \<and> config s = c \<and> mode c = Enforce \<and> activeCost s \<le> maxLimit c"

definition no_reconfiguration :: "ctl_event \<Rightarrow> bool" where
  "no_reconfiguration e = (case e of Update_config _ _ _ \<Rightarrow> False | _ \<Rightarrow> True)"

lemma limit_le_max: "ctl_inv {} h s \<Longrightarrow> currentLimit (adapt s) \<le> maxLimit (config s)"
  by (simp add: ctl_inv_def adapt_ok_def adapt_inv_def config_ok_def)

lemma settle_entry_cost: "0 < ecost e \<Longrightarrow> activeCost (snd (settle_entry now ab e s)) \<le> activeCost s + ecost e"
  by (simp add: settle_entry_def settle_rejected_def settle_admitted_def split_beta Let_def)

lemma budget_dispatch: assumes "budget c s" shows "budget c (dispatch now ab s)"
proof (rule dispatch_rule [where P = "budget c", OF assms])
  show "budget c s \<Longrightarrow> queues_ok s" for s by (simp add: budget_def ctl_inv_def)
next
  fix s e q
  assume b: "budget c s" and d: "dequeue (available s) (queue s) = (Some e, q)"
  then have inv: "ctl_inv {} {#} s" and qi: "q_inv (queue s)" by (simp_all add: budget_def ctl_inv_def queues_ok_def)
  note dq = dequeue_Some [OF qi d]
  have t: "ctl_inv {} {#eid e#} (s\<lparr>queue := q\<rparr>) \<and> 0 < ecost e" using ctl_inv_take_shared [OF inv] dq by blast
  have "activeCost (snd (settle_entry now ab e (s\<lparr>queue := q\<rparr>))) \<le> maxLimit c"
    using settle_entry_cost [of e now ab "s\<lparr>queue := q\<rparr>"] t dq limit_le_max [OF inv] b
    by (simp add: available_def budget_def)
  then show "budget c (snd (settle_entry now ab e (s\<lparr>queue := q\<rparr>)))"
    using b t ctl_inv_settle_entry [of "{}" e "{#}"] by (simp add: budget_def)
next
  fix s t q e q'
  assume b: "budget c s" and l: "lane_q s t = Some q" and d: "dequeue (available s) q = (Some e, q')"
  then have inv: "ctl_inv {} {#} s" and qs: "queues_ok s" by (simp_all add: budget_def ctl_inv_def)
  note dq = dequeue_Some [OF lane_q_inv [OF qs l] d]
  have t: "ctl_inv {} {#eid e#} (put_lane t q' s) \<and> 0 < ecost e" using ctl_inv_take_lane [OF inv l] dq by blast
  have "activeCost (snd (settle_entry now ab e (put_lane t q' s))) \<le> maxLimit c"
    using settle_entry_cost [of e now ab "put_lane t q' s"] t dq limit_le_max [OF inv] b
    by (simp add: available_def budget_def)
  then show "budget c (snd (settle_entry now ab e (put_lane t q' s)))"
    using b t ctl_inv_settle_entry [of "{}" e "{#}"] by (simp add: budget_def)
next
  show "budget c s \<Longrightarrow> budget c (removeEmptyLane t s)" for s t
    by (simp add: budget_def ctl_inv_removeEmptyLane)
qed

text \<open>A step that keeps the invariant, the configuration and does not raise the active cost.\<close>

lemma budget_le: "budget c s \<Longrightarrow> ctl_inv {} {#} s' \<Longrightarrow> config s' = config s \<Longrightarrow> activeCost s' \<le> activeCost s \<Longrightarrow> budget c s'"
  by (simp add: budget_def)

lemma budget_enqueue: assumes "budget c s" and "0 < cost"
  shows "budget c (snd (enqueue_request now ab r cost s))"
proof -
  have inv: "ctl_inv {} {#} s" using assms by (simp add: budget_def)
  note step = ctl_inv_fresh [OF inv, THEN conjunct1]
  show ?thesis
  proof (cases "normalizeRequestCost (nullish (rq_maxWaitMs r) (Num (of_int (defaultMaxWaitMs (config s)))))
      MAX_ADMISSION_WINDOW_MS")
    case (Inl err)
    then show ?thesis
      using ctl_inv_weaken [OF step, of "{}"] assms(1)
      by (intro budget_le [OF assms(1)]) (simp_all add: enqueue_request_def Let_def)
  next
    case (Inr maxWait)
    let ?i = "Suc (leaseSeq s)"
    let ?s = "s\<lparr>leaseSeq := ?i\<rparr>"
    let ?e = "\<lparr>eid = ?i, tenantKey = tenant_of r, ecost = cost, enqueuedAtMs = now,
      deadlineMs = min MAX_SAFE_INTEGER (now + maxWait), payload = rq_signal r, skipCount = 0\<rparr>"
    show ?thesis
    proof (cases "tenant_of r \<noteq> default_tenant \<and> virtualLanes_on (config s)")
      case True
      let ?s1 = "getOrCreateLane now (tenant_of r) ?s"
      obtain q0 where q0: "lane_q ?s1 (tenant_of r) = Some q0" and inv1: "ctl_inv {?i} {#?i#} ?s1"
        using ctl_inv_getOrCreateLane [OF step] by blast
      obtain ok q where e: "enqueue ?e q0 = (ok, q)" by fastforce
      have "budget c (put_lane (tenant_of r) q ?s1)" if ok
        using ctl_inv_subset [OF ctl_inv_enqueue_lane [of "{?i}" ?e "{#}" ?s1 "tenant_of r" q0 q], of "{}"] inv1 q0 e that
        by (intro budget_le [OF assms(1)]) simp_all
      moreover have "budget c (removeEmptyLane (tenant_of r) ?s1)"
        using ctl_inv_removeEmptyLane [OF ctl_inv_weaken [OF inv1, of "{}"]]
        by (intro budget_le [OF assms(1)]) simp_all
      moreover have "budget c (s'\<lparr>rejectedCount := x\<rparr>)" if "budget c s'" for s' x
        using that by (simp add: budget_def)
      ultimately show ?thesis
        using True q0 e Inr by (simp add: enqueue_request_def Let_def budget_dispatch reject_def)
    next
      case False
      obtain ok q where e: "enqueue ?e (queue ?s) = (ok, q)" by fastforce
      have "budget c (?s\<lparr>queue := q\<rparr>)" if ok
        using ctl_inv_subset [OF ctl_inv_enqueue_shared [of "{?i}" ?e "{#}" ?s q], of "{}"] step e that
        by (intro budget_le [OF assms(1)]) simp_all
      moreover have "budget c (?s\<lparr>rejectedCount := x\<rparr>)" for x
        using ctl_inv_weaken [OF step, of "{}"] by (intro budget_le [OF assms(1)]) simp_all
      ultimately show ?thesis
        using False e Inr by (auto simp: enqueue_request_def Let_def reject_def intro!: budget_dispatch)
    qed
  qed
qed

lemma budget_admit: assumes "budget c s" and "0 < cost" and "activeCost s + cost \<le> maxLimit c"
  shows "budget c (snd (admit now cost d s))"
  using assms ctl_inv_admit [of "{}" "{#}" s cost now d] by (simp add: budget_def)

lemma budget_acquire: assumes "budget c s" shows "budget c (snd (acquire now ab r s))"
proof -
  let ?s = "case rq_pressure r of None \<Rightarrow> s | Some p \<Rightarrow> s\<lparr>adapt := setPressure p (adapt s)\<rparr>"
  have inv: "ctl_inv {} {#} s" using assms by (simp add: budget_def)
  have inv': "ctl_inv {} {#} ?s"
    using inv ctl_inv_adapt [OF inv setPressure_inv [OF adapt_of_inv [OF inv]]] by (simp split: option.splits)
  have b: "budget c ?s" using inv' by (intro budget_le [OF assms]) (simp_all split: option.splits)
  then have m: "mode (config ?s) = Enforce" and c: "config ?s = c" by (simp_all add: budget_def)
  have rej: "budget c (snd (reject code s'))" if "budget c s'" for code s'
    using that by (simp add: reject_def budget_def)
  show ?thesis
  proof (cases "resolveCost r ?s")
    case (Inl e)
    then show ?thesis using rej [OF assms] b by (simp add: acquire_def Let_def)
  next
    case (Inr cost)
    note pos = resolveCost_pos [OF inv' Inr]
    have "activeCost ?s = 0" if "active ?s = []"
      using that inv' by (simp add: ctl_inv_def ledger_ok_def active_total_def)
    then have "budget c (snd (acquire_enforced now ab r cost ?s))"
      using b pos budget_enqueue [OF b pos] rej [OF b] limit_le_max [OF inv'] c
      by (auto simp: acquire_enforced_def Let_def split_beta shouldAdmitSolo_def
          intro!: budget_admit)
    then show ?thesis
      using rej [OF assms] Inr m by (simp add: acquire_def Let_def)
  qed
qed

lemma budget_release: assumes "budget c s" shows "budget c (releaseLease now ab i oc lat pr s)"
proof (cases "map_of (active s) i")
  case (Some r)
  have inv: "ctl_inv {} {#} s" using assms by (simp add: budget_def)
  have "ledger_ok s" using inv by (simp add: ctl_inv_def)
  then have "0 < l_cost r"
    using map_of_SomeD [OF Some] by (auto simp: ledger_ok_def list_all_iff)
  obtain s1 where rel: "releaseLease now ab i oc lat pr s = dispatch now ab (releaseVirtual i r s1)"
    and s1: "config s1 = config s" "activeCost s1 = activeCost s - l_cost r" "ctl_inv {} {#} s1"
    using ctl_inv_release_slot [OF inv Some] by blast
  have "config (releaseVirtual i r s1) = config s1 \<and> activeCost (releaseVirtual i r s1) = activeCost s1"
    by (simp add: releaseVirtual_def split: disposition.splits)
  then have "budget c (releaseVirtual i r s1)"
    using s1 \<open>0 < l_cost r\<close> ctl_inv_releaseVirtual [OF s1(3), of i r]
    by (intro budget_le [OF assms]) simp_all
  then show ?thesis by (simp add: rel budget_dispatch)
qed (simp add: releaseLease_def assms)

lemma budget_expire: assumes "budget c s" shows "budget c (expireEntry now ab i code s)"
proof -
  have inv: "ctl_inv {} {#} s" using assms by (simp add: budget_def)
  obtain s1 where "expireEntry now ab i code s = s \<or> expireEntry now ab i code s = dispatch now ab s1"
    and "ctl_inv {} {#} s1" "config s1 = config s" "activeCost s1 = activeCost s"
    using ctl_inv_expire_cases [OF inv] by blast
  moreover from this have "budget c s1" by (intro budget_le [OF assms]) simp_all
  ultimately show ?thesis using assms budget_dispatch by metis
qed

lemma budget_observe: assumes "budget c s" shows "budget c (observePressure now ab p s)"
proof -
  have inv: "ctl_inv {} {#} s" using assms by (simp add: budget_def)
  have a: "adapt_inv (adaptation_cfg (config s)) (setPressure p (adapt s))"
    by (rule setPressure_inv [OF adapt_of_inv [OF inv]])
  have m: "p_minLimit (adaptation_cfg (config s)) = minLimit (config s)"
    using inv by (simp add: ctl_inv_def adapt_ok_def config_ok_def)
  have b: "budget c (s\<lparr>adapt := a\<rparr>)" if "adapt_inv (adaptation_cfg (config s)) a" for a
    using ctl_inv_adapt [OF inv that] by (intro budget_le [OF assms]) simp_all
  have v: "budget c (dispatchVirtual s')" if "budget c s'" for s'
    using that ctl_inv_dispatchVirtual [of "{}" "{#}" s'] by (simp add: budget_def)
  show ?thesis
    using b [OF a] v budget_dispatch [OF b [OF critical_decrease_inv [OF a]]] m
    by (cases "p = Critical") (simp_all add: observePressure_def Let_def)
qed

lemma budget_tick: assumes "budget c s" shows "budget c (tick now ab s)"
proof -
  have inv: "ctl_inv {} {#} s" using assms by (simp add: budget_def)
  let ?s = "evictIdleLanes now (sampleIntegral now s)"
  have inv1: "ctl_inv {} {#} ?s" by (rule ctl_inv_evictIdle [OF ctl_inv_sample [OF inv]])
  have "config ?s = config s \<and> activeCost ?s = activeCost s"
    by (rule evictIdle_keeps [where P = "\<lambda>s'. config s' = config s \<and> activeCost s' = activeCost s"]) simp_all
  then have "budget c (?s\<lparr>adapt := closeAdaptationWindow (adaptation_cfg (config ?s)) now (adapt ?s)\<rparr>)"
    using ctl_inv_adapt [OF inv1 closeAdaptationWindow_inv [OF adapt_of_inv [OF inv1]]]
    by (intro budget_le [OF assms]) simp_all
  from budget_dispatch [OF this] show ?thesis
    using ctl_inv_dispatchVirtual by (simp add: tick_def Let_def budget_def)
qed

lemma budget_evict: assumes "budget c s" shows "budget c (evictIdleLanes now s)"
proof -
  have "ctl_inv {} {#} (evictIdleLanes now s)" using assms ctl_inv_evictIdle by (simp add: budget_def)
  moreover have "config (evictIdleLanes now s) = config s \<and> activeCost (evictIdleLanes now s) = activeCost s"
    by (rule evictIdle_keeps [where P = "\<lambda>s'. config s' = config s \<and> activeCost s' = activeCost s"]) simp_all
  ultimately show ?thesis by (intro budget_le [OF assms]) simp_all
qed

lemma budget_shutdown: assumes "budget c s" shows "budget c (shutdown s)"
proof (cases "shutDown s")
  case False
  have "ctl_inv {} {#} (shutdown s)" using assms ctl_inv_shutdown by (simp add: budget_def)
  then show ?thesis
    by (intro budget_le [OF assms]) (simp_all add: shutdown_alt [OF False])
qed (simp add: shutdown_def assms)

interpretation ctl_budget: capped_machine ctl_step "budget c" no_reconfiguration
  "\<lambda>s. active_total (active s)" "maxLimit c" for c
proof
  fix s e assume "budget c s" and "no_reconfiguration e"
  then show "budget c (ctl_step s e)"
    by (cases e) (simp_all add: no_reconfiguration_def budget_acquire budget_release budget_expire
        budget_observe budget_tick budget_evict budget_shutdown)
next
  show "budget c s \<Longrightarrow> active_total (active s) \<le> maxLimit c" for s
    by (simp add: budget_def ctl_inv_def ledger_ok_def)
qed

end
