(* ===== verification/AdmissionProps.thy ===== *)
theory AdmissionProps
  imports AdmissionController
begin

text \<open>
  What the adaptive admission controller promises its callers: the cost budget of enforce mode, the
  fate of a queued request, what a shutdown leaves behind, and how lanes share the capacity.
\<close>

section \<open>The budget\<close>

text \<open>
  C1. In enforce mode, whatever sequence of requests, releases, expiries, pressure reports, ticks and
  shutdowns the controller sees under one configuration, the summed cost of the outstanding leases
  stays within \<open>maxLimit\<close>, and the counter \<open>activeCost\<close> that admission compares with the limit is
  exactly that sum.
\<close>

theorem enforce_budget:
  assumes "validateConfig i = Inr c" and "mode c = Enforce" and "list_all no_reconfiguration es"
  shows "active_total (active (run_ctl c t es)) \<le> maxLimit c
    \<and> activeCost (run_ctl c t es) = active_total (active (run_ctl c t es))"
proof -
  have ok: "config_ok c" by (rule validateConfig_ok [OF assms(1)])
  then have "0 \<le> maxLimit c" by (simp add: config_ok_def in_range_def)
  then have "budget c (newController c t)"
    using ctl_inv_new [OF ok] assms(2) by (simp add: budget_def newController_def)
  then have "active_total (active (run_ctl c t es)) \<le> maxLimit c"
    unfolding run_ctl_def by (rule ctl_budget.run_held [OF _ assms(3)])
  moreover have "ledger_ok (run_ctl c t es)" using run_ctl_inv [OF ok, of t es] by (simp add: ctl_inv_def)
  ultimately show ?thesis by (simp add: ledger_ok_def)
qed

definition plain_request :: "int \<Rightarrow> request" where
  "plain_request n = \<lparr>rq_cost = Some (Num (of_int n)), rq_features = None, rq_tenantKey = [],
     rq_maxWaitMs = None, rq_signal = None, rq_pressure = None\<rparr>"

definition arrivals :: "int list \<Rightarrow> ctl_event list" where
  "arrivals = map (\<lambda>n. Acquire 0 [] (plain_request n))"

lemma enforce_budget_witness:
  "active_total (active (run_ctl sample_config 0 (arrivals [30, 30, 10] @ [Tick 5 []]))) \<le> 100"
  using enforce_budget [OF validate_sample, of "arrivals [30, 30, 10] @ [Tick 5 []]" 0]
  by (simp add: sample_config_def arrivals_def no_reconfiguration_def)

section \<open>Queued requests\<close>

text \<open>
  C2. A request that was told to wait gets exactly one answer. From the moment \<open>acquire\<close> returns
  \<open>Queued n\<close>, after any further events (shutdown and reconfiguration included) the entry \<open>n\<close> is
  either still in one queue, once, or its promise has been settled once; it is never dropped, answered
  twice, or left in a queue after it was answered.
\<close>

theorem queued_request_answered_once:
  assumes "validateConfig i = Inr c" and "acquire now ab r (run_ctl c t es) = (Queued n, s)"
  shows "count (image_mset eid (waiting (foldl ctl_step s fs))) n
    + count_list (map fst (settled (foldl ctl_step s fs))) n = 1"
proof -
  have "ctl_inv ({n} \<union> {}) {#} s"
    using ctl_inv_acquire_promised [OF run_ctl_inv [OF validateConfig_ok [OF assms(1)]], of now ab r t es]
    by (simp add: assms(2))
  then have "ctl_inv {n} {#} (foldl ctl_step s fs)" by (intro ctl_machine.run_inv) simp
  then have "tickets_ok {n} {#} (foldl ctl_step s fs)" by (simp add: ctl_inv_def)
  then have "count (tickets (foldl ctl_step s fs)) n \<le> (if n \<le> leaseSeq (foldl ctl_step s fs) then 1 else 0)"
    and "n \<in># tickets (foldl ctl_step s fs)"
    by (simp_all add: tickets_ok_def)
  then have "count (tickets (foldl ctl_step s fs)) n = 1"
    by (simp add: count_greater_zero_iff [symmetric] split: if_splits del: count_greater_zero_iff)
  then show ?thesis by (simp add: tickets_def count_mset del: mset_map)
qed


lemma queued_request_answered_once_witness:
  "fst (acquire 0 [] (plain_request 40) (run_ctl sample_config 0 (arrivals [30]))) = Queued 2
    \<and> count (image_mset eid (waiting (foldl ctl_step
        (snd (acquire 0 [] (plain_request 40) (run_ctl sample_config 0 (arrivals [30]))))
        [Release 7 [] 1 Success Undefined None, Shutdown]))) 2
    + count_list (map fst (settled (foldl ctl_step
        (snd (acquire 0 [] (plain_request 40) (run_ctl sample_config 0 (arrivals [30]))))
        [Release 7 [] 1 Success Undefined None, Shutdown]))) 2 = 1"
proof -
  have q: "fst (acquire 0 [] (plain_request 40) (run_ctl sample_config 0 (arrivals [30]))) = Queued 2"
    by code_simp
  show ?thesis
    using q queued_request_answered_once [OF validate_sample surjective_pairing [THEN trans, OF arg_cong2 [OF q refl, of Pair]]]
    by blast
qed

section \<open>Shutdown\<close>

text \<open>A controller that was shut down: nothing waits, and nothing was admitted since (\<open>n\<close>).\<close>

definition stopped :: "int \<Rightarrow> ctl \<Rightarrow> bool" where
  "stopped n s \<longleftrightarrow> ctl_inv {} {#} s \<and> shutDown s \<and> waiting s = {#} \<and> lanes s = [] \<and> admittedCount s = n"

lemma dispatch_stopped: "shutDown s \<Longrightarrow> dispatch now ab s = s"
  by (simp add: dispatch_def)

lemma dispatchVirtual_admitted [simp]: "admittedCount (dispatchVirtual s) = admittedCount s"
  by (rule dispatchVirtual_rule [where P = "\<lambda>s'. admittedCount s' = admittedCount s"])
    (simp_all add: set_disp_def split: option.splits)

lemma releaseVirtual_fields [simp]: "queue (releaseVirtual i r s) = queue s"
  "lanes (releaseVirtual i r s) = lanes s" "shutDown (releaseVirtual i r s) = shutDown s"
  "admittedCount (releaseVirtual i r s) = admittedCount s"
  by (simp_all add: releaseVirtual_def split: disposition.splits)

lemma rebuild_one_fields: "queue (rebuild_one i s) = queue s \<and> lanes (rebuild_one i s) = lanes s
    \<and> shutDown (rebuild_one i s) = shutDown s \<and> admittedCount (rebuild_one i s) = admittedCount s"
  by (simp add: rebuild_one_def set_disp_def Let_def split: option.splits prod.splits)

lemma rebuild_fields [simp]: "queue (rebuildVirtualState b s) = queue s"
  "lanes (rebuildVirtualState b s) = lanes s" "shutDown (rebuildVirtualState b s) = shutDown s"
  "admittedCount (rebuildVirtualState b s) = admittedCount s"
proof -
  have "queue (fold rebuild_one is s) = queue s \<and> lanes (fold rebuild_one is s) = lanes s
      \<and> shutDown (fold rebuild_one is s) = shutDown s
      \<and> admittedCount (fold rebuild_one is s) = admittedCount s" for "is" s
    by (induction "is" arbitrary: s) (simp_all add: rebuild_one_fields)
  then show "queue (rebuildVirtualState b s) = queue s" "lanes (rebuildVirtualState b s) = lanes s"
    "shutDown (rebuildVirtualState b s) = shutDown s"
    "admittedCount (rebuildVirtualState b s) = admittedCount s"
    by (simp_all add: rebuildVirtualState_def Let_def)
qed

lemma settle_all_admitted [simp]: "admittedCount (fold (settle_rejected code) es s) = admittedCount s"
  by (induction es arbitrary: s) (simp_all add: settle_rejected_def)

lemma settle_all_log: "settled (fold (settle_rejected code) es s)
    = settled s @ map (\<lambda>e. (eid e, Settled_rejected code)) es"
  by (induction es arbitrary: s) (simp_all add: settle_rejected_def)

lemma stopped_contents: "stopped n s \<Longrightarrow> q_inv (queue s) \<and> contents (queue s) = {#}"
  by (simp add: stopped_def waiting_def ctl_inv_def queues_ok_def)

lemma stopped_drain: "stopped n s \<Longrightarrow> fst (drain (queue s)) = []"
  using drain_mset [of "queue s"] stopped_contents [of n s] by simp

lemma stopped_expire: "stopped n s \<Longrightarrow> expireEntry now ab i code s = s"
  using removeById_Some [of "queue s" i] stopped_contents [of n s]
  by (auto simp: expireEntry_def stopped_def split: prod.splits option.splits)

lemma stopped_step: assumes "stopped n s" shows "stopped n (ctl_step s e)"
proof -
  have inv: "ctl_inv {} {#} (ctl_step s e)" using assms by (simp add: stopped_def ctl_step_inv)
  have keep: "stopped n s'" if "ctl_inv {} {#} s'" "queue s' = queue s" "lanes s' = lanes s"
      "shutDown s' = shutDown s" "admittedCount s' = admittedCount s" for s'
    using that assms by (simp add: stopped_def waiting_def)
  have sd: "shutDown s" and l: "lanes s = []" using assms by (simp_all add: stopped_def)
  show ?thesis
  proof (cases e)
    case (Acquire t ab r)
    then show ?thesis using sd inv by (intro keep) (simp_all add: acquire_def reject_def)
  next
    case (Release t ab i oc lat p)
    then show ?thesis using sd inv
      by (intro keep)
        (simp_all add: releaseLease_def Let_def dispatch_stopped sampleIntegral_def split: option.splits)
  next
    case (Expire t ab i code)
    then show ?thesis using stopped_expire [OF assms] assms by simp
  next
    case (Observe t ab p)
    then show ?thesis using sd inv by (intro keep) (simp_all add: observePressure_def Let_def dispatch_stopped)
  next
    case (Tick t ab)
    then show ?thesis using sd l inv
      by (intro keep) (simp_all add: tick_def Let_def dispatch_stopped evictIdleLanes_def sampleIntegral_def)
  next
    case (Idle_lanes t)
    then show ?thesis using l assms by (simp add: evictIdleLanes_def)
  next
    case Shutdown
    then show ?thesis using sd assms by (simp add: shutdown_def)
  next
    case (Update_config t ab i)
    show ?thesis
    proof (cases "validateConfig i")
      case (Inr c)
      have "contents (newFairCostQueue a b) = {#}" for a b by (simp add: newFairCostQueue_def contents_def)
      then show ?thesis
        using Update_config sd l inv assms stopped_drain [OF assms] Inr
        by (auto simp: stopped_def updateConfig_def Let_def dispatch_stopped waiting_def sampleIntegral_def)
    qed (use Update_config assms in \<open>simp add: updateConfig_def\<close>)
  qed
qed

interpretation ctl_stopped: machine ctl_step "stopped n" for n
  by unfold_locales (rule stopped_step)

lemma shutdown_stopped: assumes "ctl_inv {} {#} s" and "\<not> shutDown s"
  shows "stopped (admittedCount s) (shutdown s)"
proof -
  have "q_inv (queue s)" using assms(1) by (simp add: ctl_inv_def queues_ok_def)
  then show ?thesis
    using ctl_inv_shutdown [OF assms(1)] drain_empty [of "queue s"]
    by (simp add: stopped_def shutdown_alt [OF assms(2)] waiting_def)
qed

lemma shutdown_answers: assumes "ctl_inv X h s" and "\<not> shutDown s" and "e \<in># waiting s"
  shows "(eid e, Settled_rejected Shutdown_code) \<in> set (settled (shutdown s))"
proof -
  have q: "queues_ok s" using assms(1) by (simp add: ctl_inv_def)
  then have "set_mset (waiting s) = set (fst (drain (queue s)) @ drain_lanes (lanes s))"
    using drain_mset [of "queue s"] drain_lanes_mset [of "lanes s"]
    by (simp add: queues_ok_def waiting_def flip: set_mset_mset)
  then show ?thesis using assms(3) by (auto simp: shutdown_alt [OF assms(2)] settle_all_log)
qed

text \<open>
  C13. A shutdown is final and leaves nobody hanging: every request that was waiting, in the shared
  queue or in a lane, is answered with \<open>ADMISSION_SHUTDOWN\<close>; and after any further events (releases of
  old leases, late timers, ticks, even a reconfiguration) nothing waits, nothing more has been
  admitted, and a new request is refused with the same code.
\<close>

theorem shutdown_is_final:
  assumes "validateConfig i = Inr c" and "\<not> shutDown (run_ctl c t es)"
  shows "(\<forall>e \<in># waiting (run_ctl c t es).
      (eid e, Settled_rejected Shutdown_code) \<in> set (settled (shutdown (run_ctl c t es))))
    \<and> waiting (foldl ctl_step (shutdown (run_ctl c t es)) fs) = {#}
    \<and> admittedCount (foldl ctl_step (shutdown (run_ctl c t es)) fs) = admittedCount (run_ctl c t es)
    \<and> fst (acquire now ab r (foldl ctl_step (shutdown (run_ctl c t es)) fs)) = Rejected Shutdown_code"
proof -
  have inv: "ctl_inv {} {#} (run_ctl c t es)" by (rule run_ctl_inv [OF validateConfig_ok [OF assms(1)]])
  have "stopped (admittedCount (run_ctl c t es)) (foldl ctl_step (shutdown (run_ctl c t es)) fs)"
    by (rule ctl_stopped.run_inv [OF shutdown_stopped [OF inv assms(2)]])
  then show ?thesis
    using shutdown_answers [OF inv assms(2)] by (simp add: stopped_def acquire_def reject_def)
qed

lemma shutdown_is_final_witness:
  "fst (acquire 9 [] (plain_request 1) (foldl ctl_step (shutdown (run_ctl sample_config 0 (arrivals [30, 40])))
      [Release 7 [] 1 Success Undefined None])) = Rejected Shutdown_code"
proof -
  have "\<not> shutDown (run_ctl sample_config 0 (arrivals [30, 40]))" by code_simp
  from shutdown_is_final [OF validate_sample this] show ?thesis by blast
qed

section \<open>Lanes\<close>

definition lane_config :: valid_config where
  "lane_config = sample_config\<lparr>virtualLanes_on := True\<rparr>"

definition lane_request :: "string \<Rightarrow> int \<Rightarrow> request" where
  "lane_request t n = (plain_request n)\<lparr>rq_tenantKey := t\<rparr>"

lemma settle_entry_admits: "admittedCount (snd (settle_entry now ab e s))
    = admittedCount s + (if fst (settle_entry now ab e s) then 1 else 0)"
  by (simp add: settle_entry_def settle_rejected_def settle_admitted_def admit_def sampleIntegral_def
      split_beta Let_def)

lemma put_lane_admitted [simp]: "admittedCount (put_lane t q s) = admittedCount s"
  by (simp add: put_lane_def split: option.splits)

lemma removeEmptyLane_admitted [simp]: "admittedCount (removeEmptyLane t s) = admittedCount s"
  by (simp add: removeEmptyLane_def split: option.splits)

lemma lane_loop_admits: "admittedCount (snd (lane_loop now ab t s)) \<le> admittedCount s + 1"
proof (induction now ab t s rule: lane_loop.induct)
  case (1 now ab t s)
  have *: "admittedCount (snd (settle_entry now ab e (put_lane t q s)))
      = admittedCount s + (if fst (settle_entry now ab e (put_lane t q s)) then 1 else 0)" for e q
    by (simp add: settle_entry_admits)
  show ?case
    using 1 * by (subst lane_loop.simps) (auto split: option.splits prod.splits)
qed

lemma dispatch_lanes_admits:
  "admittedCount (dispatch_lanes now ab ts s) \<le> admittedCount s + int (length ts)"
proof (induction ts arbitrary: s)
  case (Cons t ts)
  obtain stop s1 where l: "lane_loop now ab t s = (stop, s1)" by fastforce
  have "admittedCount s1 \<le> admittedCount s + 1" using lane_loop_admits [of now ab t s] l by simp
  then show ?case
    using Cons.IH [of s] Cons.IH [of "removeEmptyLane t s1"] l by simp
qed simp

text \<open>
  With the shared queue empty, one dispatch admits at most one waiting request per lane, however
  much capacity is free: the loop over a lane ends at its first admission, although the comment above
  it announces as many entries as capacity allows. In the witness three requests of cost 1 wait in
  one lane, a release frees the whole limit of 50, and two of them keep waiting.
\<close>

theorem dispatch_admits_one_per_lane:
  assumes "qcount (queue s) = 0"
  shows "admittedCount (dispatch now ab s) \<le> admittedCount s + int (length (lanes s))"
  using assms dispatch_lanes_admits [of now ab "map fst (lanes s)" s]
  by (simp add: dispatch_def dispatchLanes_def dispatch_shared.simps)

definition backlog :: ctl where
  "backlog = run_ctl lane_config 0 (Acquire 0 [] (plain_request 50)
     # map (\<lambda>n. Acquire 0 [] (lane_request ''a'' n)) [1, 1, 1])"

lemma dispatch_admits_one_per_lane_witness:
  "let s = sampleIntegral 9 backlog\<lparr>active := [], activeCost := 0\<rparr>
   in currentLimit (adapt s) = 50 \<and> laneTotalQueuedCost s = 3
     \<and> admittedCount (dispatch 9 [] s) \<le> admittedCount s + 1
     \<and> laneTotalQueuedCount (releaseLease 9 [] 1 Success Undefined None backlog) = 2"
proof -
  let ?s = "sampleIntegral 9 backlog\<lparr>active := [], activeCost := 0\<rparr>"
  have "qcount (queue ?s) = 0 \<and> length (lanes ?s) = 1 \<and> currentLimit (adapt ?s) = 50
      \<and> laneTotalQueuedCost ?s = 3
      \<and> laneTotalQueuedCount (releaseLease 9 [] 1 Success Undefined None backlog) = 2"
    by code_simp
  with dispatch_admits_one_per_lane [of ?s 9 "[]"] show ?thesis by (simp add: Let_def)
qed

text \<open>
  Waiting in a lane gives no precedence over later arrivals. In enforce mode a request that fits
  the free capacity is admitted at once whenever the shared queue is empty; the lanes are neither
  consulted nor changed, whatever waits in them and for however long. (A request in the shared queue
  does hold back later arrivals: its queue is then not empty.)
\<close>

theorem arrivals_pass_lanes:
  assumes "\<not> shutDown s" and "mode (config s) = Enforce" and "rq_signal r = None" and "rq_pressure r = None"
    and "resolveCost r s = Inr cost" and "qcount (queue s) = 0"
    and "activeCost s + cost \<le> currentLimit (adapt s)" and "0 \<le> activeCost s"
  shows "fst (acquire now ab r s) = Admitted (Suc (leaseSeq s)) None
    \<and> lanes (snd (acquire now ab r s)) = lanes s
    \<and> activeCost (snd (acquire now ab r s)) = activeCost s + cost"
  using assms by (simp add: acquire_def acquire_enforced_def Let_def split_beta)

definition passed_over :: ctl where
  "passed_over = run_ctl lane_config 0 [Acquire 0 [] (plain_request 30),
     Acquire 0 [] (lane_request ''a'' 40)]"

lemma arrivals_pass_lanes_witness:
  "laneTotalQueuedCount (snd (acquire 9 [] (plain_request 20) passed_over)) = 1
   \<and> fst (acquire 9 [] (plain_request 20) passed_over) = Admitted 3 None"
proof -
  have "\<not> shutDown passed_over \<and> mode (config passed_over) = Enforce \<and> qcount (queue passed_over) = 0
      \<and> resolveCost (plain_request 20) passed_over = Inr 20 \<and> activeCost passed_over = 30
      \<and> currentLimit (adapt passed_over) = 50 \<and> leaseSeq passed_over = 2
      \<and> laneTotalQueuedCount passed_over = 1"
    by code_simp
  moreover have "rq_signal (plain_request 20) = None" "rq_pressure (plain_request 20) = None"
    by (simp_all add: plain_request_def)
  ultimately show ?thesis
    using arrivals_pass_lanes [of passed_over "plain_request 20" 20 9 "[]"]
    by (simp add: laneTotalQueuedCount_def)
qed

section \<open>Requests that do not want to wait\<close>

lemma no_wait_cost: "normalizeRequestCost (Num 0) mx \<noteq> Inr n"
  by (simp add: normalizeRequestCost_def bind_checked_Inr requirePositive_same requirePositiveInt_Inr)

lemma no_wait_throws: assumes "rq_maxWaitMs r = Some (Num 0)"
  shows "\<exists>err. fst (enqueue_request now ab r cost s) = Threw err"
proof (cases "normalizeRequestCost (Num 0) MAX_ADMISSION_WINDOW_MS")
  case (Inl err)
  then show ?thesis using assms by (simp add: enqueue_request_def Let_def nullish_def)
qed (simp add: no_wait_cost)

text \<open>
  A request with \<open>maxWaitMs = 0\<close>, the form the per-target probe of \<open>chatAdmission.ts\<close> sends to
  say ``skip, never queue'', is indeed never queued; but where it would have to wait, \<open>acquire\<close> does
  not refuse it with a code: the wait is validated as a cost unit, which starts at 1, and a
  \<open>RangeError\<close> escapes.
\<close>

theorem zero_wait_throws:
  assumes "rq_maxWaitMs r = Some (Num 0)"
  shows "fst (acquire now ab r s) \<noteq> Queued n
    \<and> (\<not> shutDown s \<and> mode (config s) = Enforce \<and> rq_signal r = None \<and> rq_pressure r = None
       \<and> resolveCost r s = Inr cost \<and> cost \<le> currentLimit (adapt s) \<and> canAccept (queue s) cost
       \<and> (qcount (queue s) \<noteq> 0 \<or> activeCost s + cost > currentLimit (adapt s))
       \<longrightarrow> (\<exists>err. fst (acquire now ab r s) = Threw err))"
proof
  have "fst (enqueue_request now ab r cost s') \<noteq> Queued n" for cost s'
    using no_wait_throws [OF assms, of now ab cost s'] by auto
  then show "fst (acquire now ab r s) \<noteq> Queued n"
    by (simp add: acquire_def acquire_enforced_def acquireShadow_def admitVirtual_def reject_def Let_def
        split_beta split: sum.splits admission_mode.splits option.splits)
next
  show "\<not> shutDown s \<and> mode (config s) = Enforce \<and> rq_signal r = None \<and> rq_pressure r = None
       \<and> resolveCost r s = Inr cost \<and> cost \<le> currentLimit (adapt s) \<and> canAccept (queue s) cost
       \<and> (qcount (queue s) \<noteq> 0 \<or> activeCost s + cost > currentLimit (adapt s))
       \<longrightarrow> (\<exists>err. fst (acquire now ab r s) = Threw err)"
    using no_wait_throws [OF assms, of now ab cost s] by (auto simp: acquire_def acquire_enforced_def Let_def)
qed

definition probe :: request where
  "probe = (plain_request 40)\<lparr>rq_maxWaitMs := Some (Num 0)\<rparr>"

lemma zero_wait_throws_witness:
  "\<exists>err. fst (acquire 9 [] probe passed_over) = Threw err"
proof -
  have "\<not> shutDown passed_over \<and> mode (config passed_over) = Enforce
      \<and> resolveCost probe passed_over = Inr 40 \<and> activeCost passed_over = 30
      \<and> canAccept (queue passed_over) 40 \<and> currentLimit (adapt passed_over) = 50"
    by code_simp
  moreover have "rq_signal probe = None" "rq_pressure probe = None" "rq_maxWaitMs probe = Some (Num 0)"
    by (simp_all add: probe_def plain_request_def)
  ultimately show ?thesis
    using zero_wait_throws [of probe 9 "[]" passed_over 0 40] by simp
qed

end
