(* ===== verification/SlidingWindow.thy ===== *)
theory SlidingWindow
  imports Prelude
begin

text \<open>
  The sliding-window rate limiter, \<open>src/open-sse/services/slidingWindowLimiter.ts\<close>: per key, the hits
  of the trailing window; an acquisition takes one hit in every scope it names, or none.

  The arrays that \<open>tryAcquireMany\<close> prepares are fresh, stored in the map and pushed to before the call
  ends, so a stored list stands for the array. Times are milliseconds, windows and caps integers. A
  lease is the list of its hits \<open>(key, id)\<close>.
\<close>

section \<open>Data\<close>

record rate_window =
  w_requests :: int
  w_windowMs :: int

type_synonym scope = "string \<times> rate_window"

record hit =
  h_id :: nat
  h_at :: time

type_synonym hit_map = "(string \<times> hit list) list"

type_synonym lease = "(string \<times> nat) list"

record swl =
  hits :: hit_map
  nextHitId :: nat

record multi_result =
  allowed :: bool
  retryAfterMs :: int
  lease_of :: "lease option"

definition MAX_KEYS :: nat where
  "MAX_KEYS = 5000"

definition newLimiter :: swl where
  "newLimiter = \<lparr>hits = [], nextHitId = 1\<rparr>"

section \<open>Operations\<close>

definition hget :: "hit_map \<Rightarrow> string \<Rightarrow> hit list" where
  "hget m k = nullish (map_of m k) []"

definition set_hits :: "string \<Rightarrow> hit list \<Rightarrow> hit_map \<Rightarrow> hit_map" where
  "set_hits k live m =
     (if live = [] then map_del k m
      else map_set k live (if \<not> map_has k m \<and> length m \<ge> MAX_KEYS then map_evict_oldest m else m))"

definition active_scopes :: "scope list \<Rightarrow> scope list" where
  "active_scopes = filter (\<lambda>(_, w). w_requests w > 0 \<and> w_windowMs w > 0)"

definition live_hits :: "time \<Rightarrow> hit_map \<Rightarrow> scope \<Rightarrow> hit list" where
  "live_hits now m sc = filter (\<lambda>h. h_at h > now - w_windowMs (snd sc)) (hget m (fst sc))"

definition scope_retry :: "time \<Rightarrow> rate_window \<Rightarrow> hit list \<Rightarrow> int" where
  "scope_retry now w live =
     (if int (length live) \<ge> w_requests w then max 0 (h_at (hd live) + w_windowMs w - now) else 0)"

fun record_hits :: "time \<Rightarrow> (string \<times> hit list) list \<Rightarrow> swl \<Rightarrow> lease \<times> swl" where
  "record_hits now [] s = ([], s)"
| "record_hits now ((k, live) # ps) s =
     (let i = nextHitId s;
          (es, s') = record_hits now ps
            (s\<lparr>nextHitId := i + 1, hits := set_hits k (live @ [\<lparr>h_id = i, h_at = now\<rparr>]) (hits s)\<rparr>)
      in ((k, i) # es, s'))"

definition tryAcquireMany :: "time \<Rightarrow> scope list \<Rightarrow> swl \<Rightarrow> multi_result \<times> swl" where
  "tryAcquireMany now scopes s =
     (let act = active_scopes scopes in
      if act = [] then (\<lparr>allowed = True, retryAfterMs = 0, lease_of = None\<rparr>, s)
      else
        let prepared = map (\<lambda>sc. (fst sc, live_hits now (hits s) sc)) act;
            retry = foldl max 0 (map (\<lambda>sc. scope_retry now (snd sc) (live_hits now (hits s) sc)) act);
            s1 = s\<lparr>hits := fold (\<lambda>(k, live). set_hits k live) prepared (hits s)\<rparr>
        in if retry > 0 then (\<lparr>allowed = False, retryAfterMs = retry, lease_of = None\<rparr>, s1)
           else let (es, s2) = record_hits now prepared s1
                in (\<lparr>allowed = True, retryAfterMs = 0, lease_of = Some es\<rparr>, s2))"

definition tryAcquire :: "time \<Rightarrow> string \<Rightarrow> rate_window \<Rightarrow> swl \<Rightarrow> (bool \<times> int) \<times> swl" where
  "tryAcquire now k w s = (let (r, s') = tryAcquireMany now [(k, w)] s in ((allowed r, retryAfterMs r), s'))"

text \<open>The body of \<open>lease.release\<close>; a second call is cut off by the flag \<open>released\<close> of the closure.\<close>

definition release_hit :: "string \<times> nat \<Rightarrow> hit_map \<Rightarrow> hit_map" where
  "release_hit e m =
     (case map_of m (fst e) of
        None \<Rightarrow> m
      | Some live \<Rightarrow>
          (let remaining = filter (\<lambda>h. h_id h \<noteq> snd e) live
           in if remaining \<noteq> [] then map_set (fst e) remaining m else map_del (fst e) m))"

definition release_lease :: "lease \<Rightarrow> swl \<Rightarrow> swl" where
  "release_lease es s = s\<lparr>hits := fold release_hit es (hits s)\<rparr>"

definition reset_limiter :: "string option \<Rightarrow> swl \<Rightarrow> swl" where
  "reset_limiter k s = (case k of None \<Rightarrow> s\<lparr>hits := []\<rparr> | Some k \<Rightarrow> s\<lparr>hits := map_del k (hits s)\<rparr>)"

section \<open>The decision\<close>

lemma foldl_max: "foldl max (a :: int) xs > 0 \<longleftrightarrow> a > 0 \<or> (\<exists>x \<in> set xs. x > 0)"
  by (induction xs arbitrary: a) auto

lemma live_after: "h \<in> set (live_hits now m sc) \<Longrightarrow> h_at h > now - w_windowMs (snd sc)"
  by (simp add: live_hits_def)

lemma scope_retry_pos: "w_requests (snd sc) > 0 \<Longrightarrow>
    scope_retry now (snd sc) (live_hits now m sc) > 0 \<longleftrightarrow> int (length (live_hits now m sc)) \<ge> w_requests (snd sc)"
  using live_after [of "hd (live_hits now m sc)" now m sc]
  by (cases "live_hits now m sc = []") (auto simp: scope_retry_def)

text \<open>Room in every scope: what the limiter promises to check.\<close>

definition room :: "time \<Rightarrow> hit_map \<Rightarrow> scope list \<Rightarrow> bool" where
  "room now m scopes \<longleftrightarrow>
     list_all (\<lambda>sc. int (length (live_hits now m sc)) < w_requests (snd sc)) (active_scopes scopes)"

lemma allowed_iff: "allowed (fst (tryAcquireMany now scopes s)) \<longleftrightarrow> room now (hits s) scopes"
proof -
  have pos: "sc \<in> set (active_scopes scopes) \<Longrightarrow> w_requests (snd sc) > 0" for sc
    by (auto simp: active_scopes_def)
  show ?thesis
    by (simp add: tryAcquireMany_def room_def Let_def foldl_max scope_retry_pos [OF pos] list_all_iff
        split_beta not_less) (metis list.set_intros(1) not_le equals0D list.set(1))
qed

section \<open>What an acquisition stores\<close>

text \<open>As long as no more than \<open>MAX_KEYS\<close> keys are in use, nothing is evicted.\<close>

definition keys_in :: "string set \<Rightarrow> hit_map \<Rightarrow> bool" where
  "keys_in K m \<longleftrightarrow> map_ok m \<and> finite K \<and> card K \<le> MAX_KEYS \<and> (\<forall>k. map_has k m \<longrightarrow> k \<in> K)"

lemma hget_simps [simp]: "hget [] k = []" "hget (map_del k m) k' = (if k' = k then [] else hget m k')"
  "hget (map_set k l m) k' = (if k' = k then l else hget m k')"
  by (simp_all add: hget_def nullish_def)

lemma no_eviction: assumes "keys_in K m" and "k \<in> K" and "\<not> map_has k m" shows "length m < MAX_KEYS"
proof -
  have "length m = card (fst ` set m)"
    using assms(1) distinct_card [of "map fst m"] by (simp add: keys_in_def map_ok_def)
  also have "\<dots> < card K"
    using assms by (intro psubset_card_mono) (auto simp: keys_in_def map_has_iff)
  finally show ?thesis using assms(1) by (simp add: keys_in_def)
qed

lemma set_hits_spec: assumes "keys_in K m" and "k \<in> K"
  shows "keys_in K (set_hits k l m) \<and> hget (set_hits k l m) k' = (if k' = k then l else hget m k')"
  using assms no_eviction [OF assms] by (auto simp: set_hits_def keys_in_def)

lemma set_all_spec: assumes "keys_in K m" and "fst ` set ps \<subseteq> K" and "distinct (map fst ps)"
  shows "keys_in K (fold (\<lambda>(k, l). set_hits k l) ps m)
    \<and> hget (fold (\<lambda>(k, l). set_hits k l) ps m) k = nullish (map_of ps k) (hget m k)"
  using assms
proof (induction ps arbitrary: m)
  case (Cons p ps)
  obtain k0 l where p: "p = (k0, l)" by fastforce
  have "map_of ps k0 = None" using Cons.prems(3) by (simp add: p map_of_eq_None_iff)
  then show ?case
    using Cons set_hits_spec [of K m k0 l] by (auto simp: p nullish_def split: option.splits)
qed (simp add: nullish_def)

text \<open>\<open>record_hits\<close> appends one fresh hit per scope; the lease names exactly these hits.\<close>

definition fresh_hits :: "nat \<Rightarrow> time \<Rightarrow> string list \<Rightarrow> (string \<times> hit) list" where
  "fresh_hits i now ks = map (\<lambda>(j, k). (k, \<lparr>h_id = j, h_at = now\<rparr>)) (enumerate i ks)"

lemma fresh_hits_simps [simp]: "fresh_hits i now [] = []"
  "fresh_hits i now (k # ks) = (k, \<lparr>h_id = i, h_at = now\<rparr>) # fresh_hits (Suc i) now ks"
  by (simp_all add: fresh_hits_def)

lemma fresh_hits_has: "k \<in> set ks \<Longrightarrow> \<exists>j. (k, \<lparr>h_id = j, h_at = now\<rparr>) \<in> set (fresh_hits i now ks)"
  by (induction ks arbitrary: i) auto

lemma length_fresh_hits [simp]: "length (fresh_hits i now ks) = length ks"
  by (induction ks arbitrary: i) simp_all

lemma fresh_hits_keys: "map fst (fresh_hits i now ks) = ks"
  by (induction ks arbitrary: i) simp_all

lemma fresh_hits_mem: "(k, h) \<in> set (fresh_hits i now ks) \<Longrightarrow>
    k \<in> set ks \<and> h_at h = now \<and> i \<le> h_id h \<and> h_id h < i + length ks"
  by (induction ks arbitrary: i) fastforce+

lemma record_hits_spec:
  assumes "keys_in K (hits s)" and "fst ` set ps \<subseteq> K" and "distinct (map fst ps)"
    and "record_hits now ps s = (es, s')"
  shows "keys_in K (hits s') \<and> nextHitId s' = nextHitId s + length ps
    \<and> es = map (\<lambda>(k, h). (k, h_id h)) (fresh_hits (nextHitId s) now (map fst ps))
    \<and> hget (hits s') k = (case map_of ps k of None \<Rightarrow> hget (hits s) k
        | Some l \<Rightarrow> l @ map snd (filter (\<lambda>(k', _). k' = k) (fresh_hits (nextHitId s) now (map fst ps))))"
  using assms
proof (induction ps arbitrary: s es s')
  case (Cons p ps)
  obtain k0 l where p: "p = (k0, l)" by fastforce
  let ?h = "\<lparr>h_id = nextHitId s, h_at = now\<rparr>"
  let ?s = "s\<lparr>nextHitId := nextHitId s + 1, hits := set_hits k0 (l @ [?h]) (hits s)\<rparr>"
  obtain es1 where r: "record_hits now ps ?s = (es1, s')" and es: "es = (k0, nextHitId s) # es1"
    using Cons.prems(4) by (auto simp: p Let_def split: prod.splits)
  have new: "map_of ps k0 = None" using Cons.prems(3) by (simp add: p map_of_eq_None_iff)
  have none: "filter (\<lambda>(k', _). k' = k0) (fresh_hits i now (map fst ps)) = []" for i
    using Cons.prems(3) fresh_hits_keys [of i now "map fst ps"]
    by (auto simp: p filter_empty_conv) (metis (no_types, lifting) fst_conv image_eqI list.set_map)
  have ok: "keys_in K (hits ?s)" and g: "hget (hits ?s) k = (if k = k0 then l @ [?h] else hget (hits s) k)"
    using set_hits_spec [of K "hits s" k0 "l @ [?h]" k] Cons.prems by (auto simp: p)
  have "fst ` set ps \<subseteq> K" "distinct (map fst ps)" using Cons.prems by (auto simp: p)
  note IH = Cons.IH [OF ok this r]
  show ?case using IH g new none [of "Suc (nextHitId s)"] by (auto simp: p es split: option.splits)
qed simp

text \<open>The hits an acquisition grants: none when it is blocked, or one per active scope.\<close>

definition new_hits :: "time \<Rightarrow> scope list \<Rightarrow> swl \<Rightarrow> (string \<times> hit) list" where
  "new_hits now scopes s =
     (if room now (hits s) scopes then fresh_hits (nextHitId s) now (map fst (active_scopes scopes)) else [])"

definition hits_of :: "string \<Rightarrow> (string \<times> hit) list \<Rightarrow> hit list" where
  "hits_of k gs = map snd (filter (\<lambda>(k', _). k' = k) gs)"

lemma hits_of_simps [simp]: "hits_of k [] = []" "hits_of k (xs @ ys) = hits_of k xs @ hits_of k ys"
  by (simp_all add: hits_of_def)

definition scopes_in :: "string set \<Rightarrow> scope list \<Rightarrow> bool" where
  "scopes_in K scopes \<longleftrightarrow> fst ` set (active_scopes scopes) \<subseteq> K \<and> distinct (map fst (active_scopes scopes))"

lemma map_of_prepared: "map_of (map (\<lambda>sc. (fst sc, f sc)) xs) k = map_option (\<lambda>w. f (k, w)) (map_of xs k)"
  by (induction xs) auto

lemma acquire_spec:
  assumes "keys_in K (hits s)" and "scopes_in K scopes" and "tryAcquireMany now scopes s = (r, s')"
  shows "keys_in K (hits s') \<and> nextHitId s \<le> nextHitId s'
    \<and> nextHitId s + length (new_hits now scopes s) = nextHitId s'
    \<and> nullish (lease_of r) [] = map (\<lambda>(k, h). (k, h_id h)) (new_hits now scopes s)
    \<and> hget (hits s') k = (case map_of (active_scopes scopes) k of None \<Rightarrow> hget (hits s) k
        | Some w \<Rightarrow> live_hits now (hits s) (k, w)) @ hits_of k (new_hits now scopes s)"
proof (cases "active_scopes scopes = []")
  case True
  then show ?thesis using assms by (auto simp: tryAcquireMany_def new_hits_def)
next
  case False
  let ?act = "active_scopes scopes"
  let ?ps = "map (\<lambda>sc. (fst sc, live_hits now (hits s) sc)) ?act"
  let ?s = "s\<lparr>hits := fold (\<lambda>(k, live). set_hits k live) ?ps (hits s)\<rparr>"
  have ps: "fst ` set ?ps \<subseteq> K" "distinct (map fst ?ps)"
    using assms(2) by (auto simp: scopes_in_def comp_def)
  have g1: "hget (hits ?s) k = (case map_of ?act k of None \<Rightarrow> hget (hits s) k
      | Some w \<Rightarrow> live_hits now (hits s) (k, w))" and ok1: "keys_in K (hits ?s)"
    using set_all_spec [OF assms(1) ps, of k] by (auto simp: nullish_def map_of_prepared split: option.splits)
  have fresh: "map_of ?act k = None \<Longrightarrow> hits_of k (fresh_hits i now (map fst ?act)) = []" for i
    using fresh_hits_mem [of _ _ i now "map fst ?act"]
    by (fastforce simp: hits_of_def filter_empty_conv map_of_eq_None_iff)
  have allow: "allowed r \<longleftrightarrow> room now (hits s) scopes"
    using allowed_iff [of now scopes s] assms(3) by simp
  show ?thesis
  proof (cases "room now (hits s) scopes")
    case True
    obtain es s2 where rec: "record_hits now ?ps ?s = (es, s2)" by fastforce
    have "r = \<lparr>allowed = True, retryAfterMs = 0, lease_of = Some es\<rparr> \<and> s' = s2"
      using assms(3) False rec allow True by (auto simp: tryAcquireMany_def Let_def split: if_splits)
    then show ?thesis
      using record_hits_spec [OF ok1 ps rec, of k] g1 True fresh
      by (auto simp: map_of_prepared new_hits_def nullish_def comp_def hits_of_def fresh_hits_def split: option.splits)
  next
    case no: False
    then have "lease_of r = None \<and> s' = ?s"
      using assms(3) False allow by (auto simp: tryAcquireMany_def Let_def split: if_splits prod.splits)
    then show ?thesis using ok1 g1 no by (simp add: new_hits_def)
  qed
qed

lemma release_hit_spec: "keys_in K m \<Longrightarrow> keys_in K (release_hit e m)
    \<and> hget (release_hit e m) k = filter (\<lambda>h. (k, h_id h) \<noteq> e) (hget m k)"
  by (cases e) (auto simp: release_hit_def keys_in_def Let_def hget_def nullish_def map_has_def
      filter_empty_conv split: option.splits intro!: filter_cong filter_True [symmetric])

lemma release_all_spec: "keys_in K m \<Longrightarrow> keys_in K (fold release_hit es m)
    \<and> hget (fold release_hit es m) k = filter (\<lambda>h. (k, h_id h) \<notin> set es) (hget m k)"
proof (induction es arbitrary: m)
  case (Cons e es)
  then show ?case using release_hit_spec [of K m e] by (auto intro: filter_cong)
qed simp

section \<open>Traffic\<close>

text \<open>
  A run of the limiter under a clock that does not go back, with the hits granted and not released or
  forgotten so far.
\<close>

record trace =
  lim :: swl
  clock :: time
  granted :: "(string \<times> hit) list"

datatype sw_event =
    Try nat "scope list"
  | Release_lease lease
  | Forget "string option"

fun sw_step :: "trace \<Rightarrow> sw_event \<Rightarrow> trace" where
  "sw_step tr (Try d scopes) =
     (let now = clock tr + int d; (r, s) = tryAcquireMany now scopes (lim tr)
      in \<lparr>lim = s, clock = now,
          granted = granted tr @ map (\<lambda>(k, i). (k, \<lparr>h_id = i, h_at = now\<rparr>)) (nullish (lease_of r) [])\<rparr>)"
| "sw_step tr (Release_lease es) = tr\<lparr>lim := release_lease es (lim tr),
     granted := filter (\<lambda>(k, h). (k, h_id h) \<notin> set es) (granted tr)\<rparr>"
| "sw_step tr (Forget key) = tr\<lparr>lim := reset_limiter key (lim tr),
     granted := filter (\<lambda>(k, h). key \<noteq> None \<and> key \<noteq> Some k) (granted tr)\<rparr>"

definition sw_start :: "time \<Rightarrow> trace" where
  "sw_start t = \<lparr>lim = newLimiter, clock = t, granted = []\<rparr>"

definition window_load :: "string \<Rightarrow> int \<Rightarrow> time \<Rightarrow> trace \<Rightarrow> int" where
  "window_load k win t tr =
     int (length (filter (\<lambda>h. t - win < h_at h \<and> h_at h \<le> t) (hits_of k (granted tr))))"

text \<open>\<open>W\<close>: the window each key is used with. At most \<open>MAX_KEYS\<close> keys, one window per key.\<close>

definition windows_ok :: "scope list \<Rightarrow> bool" where
  "windows_ok W \<longleftrightarrow> map_ok W \<and> length W \<le> MAX_KEYS"

definition uses_windows :: "scope list \<Rightarrow> sw_event \<Rightarrow> bool" where
  "uses_windows W e = (case e of
     Try d scopes \<Rightarrow> list_all (\<lambda>sc. sc \<in> set W) (active_scopes scopes)
       \<and> distinct (map fst (active_scopes scopes))
   | _ \<Rightarrow> True)"

definition key_inv :: "trace \<Rightarrow> string \<Rightarrow> rate_window \<Rightarrow> bool" where
  "key_inv tr k w \<longleftrightarrow> sorted (map h_at (hget (hits (lim tr)) k))
     \<and> (\<forall>h \<in> set (hget (hits (lim tr)) k). h_at h \<le> clock tr \<and> h_id h < nextHitId (lim tr))
     \<and> int (length (hget (hits (lim tr)) k)) \<le> max 0 (w_requests w)
     \<and> (\<forall>h \<in> set (hits_of k (granted tr)). clock tr - w_windowMs w < h_at h
          \<longrightarrow> h \<in> set (hget (hits (lim tr)) k))
     \<and> (\<forall>t. window_load k (w_windowMs w) t tr \<le> max 0 (w_requests w))"

definition sw_inv :: "scope list \<Rightarrow> trace \<Rightarrow> bool" where
  "sw_inv W tr \<longleftrightarrow> windows_ok W \<and> keys_in (fst ` set W) (hits (lim tr))
     \<and> distinct (map (h_id \<circ> snd) (granted tr))
     \<and> (\<forall>(k, h) \<in> set (granted tr). h_at h \<le> clock tr \<and> h_id h < nextHitId (lim tr))
     \<and> (\<forall>(k, w) \<in> set W. key_inv tr k w)"

lemma sw_inv_start: "windows_ok W \<Longrightarrow> sw_inv W (sw_start t)"
  using distinct_card [of "map fst W"]
  by (auto simp: sw_inv_def sw_start_def newLimiter_def keys_in_def windows_ok_def map_ok_def map_has_def
      window_load_def key_inv_def)

lemma hits_of_filter: "hits_of k (filter P gs) = filter (\<lambda>h. P (k, h)) (hits_of k gs)"
  by (induction gs) (auto simp: hits_of_def)

lemma hits_of_mem: "h \<in> set (hits_of k gs) \<longleftrightarrow> (k, h) \<in> set gs"
  by (auto simp: hits_of_def image_iff)

lemma distinct_hits_of: "distinct (map (h_id \<circ> snd) gs) \<Longrightarrow> distinct (hits_of k gs)"
  by (induction gs) (auto simp: hits_of_def)

lemma length_filter_imp: "(\<And>x. x \<in> set xs \<Longrightarrow> P x \<Longrightarrow> Q x) \<Longrightarrow> length (filter P xs) \<le> length (filter Q xs)"
  by (induction xs) (auto simp: le_Suc_eq)

lemma window_load_filter: "window_load k win t (tr\<lparr>lim := l, granted := filter P (granted tr)\<rparr>) \<le> window_load k win t tr"
  by (auto simp: window_load_def hits_of_filter filter_filter intro!: length_filter_imp)

text \<open>Taking hits back, from the granted ones and from the limiter alike.\<close>

lemma key_inv_remove:
  assumes "key_inv tr k w" and n: "nextHitId l = nextHitId (lim tr)"
    and g: "hget (hits l) k = filter (\<lambda>h. P (k, h)) (hget (hits (lim tr)) k)"
  shows "key_inv (tr\<lparr>lim := l, granted := filter P (granted tr)\<rparr>) k w"
proof -
  have "int (length (hget (hits (lim tr)) k)) \<le> max 0 (w_requests w)" using assms(1) by (simp add: key_inv_def)
  then have "int (length (filter (\<lambda>h. P (k, h)) (hget (hits (lim tr)) k))) \<le> max 0 (w_requests w)"
    using length_filter_le [of "\<lambda>h. P (k, h)" "hget (hits (lim tr)) k"] by linarith
  moreover have "window_load k (w_windowMs w) t (tr\<lparr>lim := l, granted := filter P (granted tr)\<rparr>)
      \<le> max 0 (w_requests w)" for t
    using window_load_filter assms(1) order_trans unfolding key_inv_def by blast
  ultimately show ?thesis
    using assms(1) by (auto simp: key_inv_def hits_of_filter g n sorted_filter)
qed

lemma distinct_map_filter_sub: "distinct (map f xs) \<Longrightarrow> distinct (map f (filter P xs))"
  by (induction xs) auto

lemma sw_inv_remove:
  assumes "sw_inv W tr" and "keys_in (fst ` set W) (hits l)" and "nextHitId l = nextHitId (lim tr)"
    and "\<And>k. hget (hits l) k = filter (\<lambda>h. P (k, h)) (hget (hits (lim tr)) k)"
  shows "sw_inv W (tr\<lparr>lim := l, granted := filter P (granted tr)\<rparr>)"
proof -
  have "key_inv (tr\<lparr>lim := l, granted := filter P (granted tr)\<rparr>) k w" if "(k, w) \<in> set W" for k w
    using assms(1) that by (intro key_inv_remove assms(3,4)) (auto simp: sw_inv_def)
  then show ?thesis using assms(1-3) by (auto simp: sw_inv_def distinct_map_filter_sub)
qed

lemma hits_of_fresh: "distinct ks \<Longrightarrow> length (hits_of k (fresh_hits i now ks)) \<le> 1"
  by (induction ks arbitrary: i) (auto simp: hits_of_def filter_empty_conv dest: fresh_hits_mem)

text \<open>One key of an acquisition.\<close>

lemma key_inv_try:
  assumes inv: "sw_inv W tr" and u: "uses_windows W (Try d scopes)" and W: "(k, w) \<in> set W"
    and acq: "tryAcquireMany (clock tr + int d) scopes (lim tr) = (r, s)"
  shows "key_inv \<lparr>lim = s, clock = clock tr + int d,
    granted = granted tr @ new_hits (clock tr + int d) scopes (lim tr)\<rparr> k w"
proof -
  let ?now = "clock tr + int d"
  let ?new = "new_hits ?now scopes (lim tr)"
  let ?K = "fst ` set W"
  let ?tr = "\<lparr>lim = s, clock = ?now, granted = granted tr @ ?new\<rparr>"
  have K: "keys_in ?K (hits (lim tr))" and ki: "key_inv tr k w" using inv W by (auto simp: sw_inv_def)
  have sc: "scopes_in ?K scopes" using u by (force simp: uses_windows_def scopes_in_def list_all_iff)
  have spec: "hget (hits s) k = (case map_of (active_scopes scopes) k of None \<Rightarrow> hget (hits (lim tr)) k
      | Some w \<Rightarrow> live_hits ?now (hits (lim tr)) (k, w)) @ hits_of k ?new"
    and ids: "nextHitId (lim tr) + length ?new = nextHitId s"
    using acquire_spec [OF K sc acq, of k] by blast+
  show ?thesis
  proof (cases "map_of (active_scopes scopes) k")
    case None
    then have "hits_of k ?new = []"
      using fresh_hits_mem [of k _ "nextHitId (lim tr)" ?now "map fst (active_scopes scopes)"]
      by (force simp: new_hits_def hits_of_def filter_empty_conv map_of_eq_None_iff)
    then show ?thesis
      using ki spec None ids by (force simp: key_inv_def window_load_def)
  next
    case (Some w')
    then have "(k, w') \<in> set (active_scopes scopes)" by (rule map_of_SomeD)
    moreover from this have "(k, w') \<in> set W" using u by (auto simp: uses_windows_def list_all_iff)
    moreover have "map_ok W" using inv by (simp add: sw_inv_def windows_ok_def)
    ultimately have w': "w' = w" and act: "(k, w) \<in> set (active_scopes scopes)"
      using W map_ok_nth_unique [of W k w] map_ok_nth_unique [of W k w'] by simp_all
    let ?live = "live_hits ?now (hits (lim tr)) (k, w)"
    have g: "hget (hits s) k = ?live @ hits_of k ?new" using spec Some w' by simp
    have pos: "0 < w_requests w" using act by (auto simp: active_scopes_def)
    have seen: "h \<in> set ?live" if "h \<in> set (hits_of k (granted tr))" "?now - w_windowMs w < h_at h" for h
      using that ki by (auto simp: key_inv_def live_hits_def)
    have fresh: "h_at h = ?now" if "h \<in> set (hits_of k ?new)" for h
      using that fresh_hits_mem by (auto simp: new_hits_def hits_of_mem split: if_splits)
    have fresh_id: "h_id h < nextHitId s" if "h \<in> set (hits_of k ?new)" for h
      using that ids fresh_hits_mem [of k h "nextHitId (lim tr)" ?now "map fst (active_scopes scopes)"]
      by (auto simp: new_hits_def hits_of_mem split: if_splits)
    have one: "length (hits_of k ?new) \<le> 1"
      using hits_of_fresh sc by (simp add: new_hits_def scopes_in_def)
    have len: "int (length ?live) + int (length (hits_of k ?new)) \<le> w_requests w"
    proof (cases "room ?now (hits (lim tr)) scopes")
      case True
      then have "int (length ?live) < w_requests w" using act by (auto simp: room_def list_all_iff)
      then show ?thesis using one by simp
    next
      case False
      have "length ?live \<le> length (hget (hits (lim tr)) k)" by (simp add: live_hits_def)
      then show ?thesis using False ki pos by (simp add: new_hits_def key_inv_def)
    qed
    have "window_load k (w_windowMs w) t ?tr \<le> w_requests w" for t
    proof (cases "t < ?now")
      case True
      then have "filter (\<lambda>h. t - w_windowMs w < h_at h \<and> h_at h \<le> t) (hits_of k ?new) = []"
        using fresh by (auto simp: filter_empty_conv)
      moreover have "window_load k (w_windowMs w) t tr \<le> w_requests w"
        using ki pos by (auto simp: key_inv_def max_def split: if_splits)
      ultimately show ?thesis by (simp add: window_load_def)
    next
      case False
      let ?in = "filter (\<lambda>h. t - w_windowMs w < h_at h \<and> h_at h \<le> t) (hits_of k (granted tr))"
      have "set ?in \<subseteq> set ?live" using False seen by auto
      moreover have "distinct ?in" using inv by (simp add: sw_inv_def distinct_hits_of)
      ultimately have "length ?in \<le> length ?live"
        by (metis List.finite_set card_length card_mono distinct_card order_trans)
      moreover have "length (filter (\<lambda>h. t - w_windowMs w < h_at h \<and> h_at h \<le> t) (hits_of k ?new))
          \<le> length (hits_of k ?new)" by (rule length_filter_le)
      moreover have "window_load k (w_windowMs w) t ?tr = int (length ?in)
          + int (length (filter (\<lambda>h. t - w_windowMs w < h_at h \<and> h_at h \<le> t) (hits_of k ?new)))"
        by (simp add: window_load_def)
      ultimately show ?thesis using len by linarith
    qed
    moreover have "h \<in> set ?live \<or> h \<in> set (hits_of k ?new)"
      if "h \<in> set (hits_of k (granted tr @ ?new))" "?now - w_windowMs w < h_at h" for h
      using that seen by auto
    moreover have "sorted (map h_at (hget (hits s) k))"
    proof -
      have "sorted (map h_at ?live)" using ki by (simp add: key_inv_def live_hits_def sorted_filter)
      moreover have "sorted (map h_at (hits_of k ?new))" using one by (cases "hits_of k ?new") auto
      moreover have "h_at h \<le> h_at h'" if "h \<in> set ?live" "h' \<in> set (hits_of k ?new)" for h h'
        using that ki fresh by (fastforce simp: key_inv_def live_hits_def)
      ultimately show ?thesis by (auto simp: g sorted_append)
    qed
    moreover have "h_at h \<le> ?now \<and> h_id h < nextHitId s" if "h \<in> set (hget (hits s) k)" for h
      using that ki fresh fresh_id ids by (fastforce simp: g key_inv_def live_hits_def)
    ultimately show ?thesis using len g pos by (auto simp: key_inv_def)
  qed
qed

lemma granted_new: "nullish (lease_of r) [] = map (\<lambda>(k, h). (k, h_id h)) (new_hits now scopes s) \<Longrightarrow>
    map (\<lambda>(k, i). (k, \<lparr>h_id = i, h_at = now\<rparr>)) (nullish (lease_of r) []) = new_hits now scopes s"
  by (auto simp: new_hits_def fresh_hits_def comp_def split: if_splits intro: map_cong)

lemma fresh_hits_ids: "map (h_id \<circ> snd) (fresh_hits i now ks) = [i..<i + length ks]"
  by (induction ks arbitrary: i) (simp_all add: upt_conv_Cons del: upt_Suc)

lemma sw_inv_step: assumes inv: "sw_inv W tr" and u: "uses_windows W e" shows "sw_inv W (sw_step tr e)"
proof (cases e)
  case (Try d scopes)
  let ?now = "clock tr + int d"
  let ?new = "new_hits ?now scopes (lim tr)"
  obtain r s where acq: "tryAcquireMany ?now scopes (lim tr) = (r, s)" by fastforce
  have K: "keys_in (fst ` set W) (hits (lim tr))" using inv by (simp add: sw_inv_def)
  have sc: "scopes_in (fst ` set W) scopes" using u Try by (force simp: uses_windows_def scopes_in_def list_all_iff)
  note spec = acquire_spec [OF K sc acq]
  have step: "sw_step tr e = \<lparr>lim = s, clock = ?now, granted = granted tr @ ?new\<rparr>"
    using granted_new [of r ?now scopes "lim tr"] spec [THEN conjunct2, THEN conjunct2, THEN conjunct2, THEN conjunct1]
    by (simp only: Try acq sw_step.simps Let_def prod.case)
  have bounds: "(k, h) \<in> set ?new \<Longrightarrow> h_at h \<le> ?now \<and> h_id h < nextHitId s \<and> nextHitId (lim tr) \<le> h_id h" for k h
    using spec fresh_hits_mem [of k h "nextHitId (lim tr)" ?now "map fst (active_scopes scopes)"]
    by (auto simp: new_hits_def fresh_hits_def split: if_splits)
  have "distinct (map (h_id \<circ> snd) ?new)" by (simp add: new_hits_def fresh_hits_ids)
  then have "distinct (map (h_id \<circ> snd) (granted tr @ ?new))"
    using inv bounds by (fastforce simp: sw_inv_def)
  moreover have "h_at h \<le> ?now \<and> h_id h < nextHitId s" if "(k, h) \<in> set (granted tr @ ?new)" for k h
    using that inv bounds spec by (fastforce simp: sw_inv_def)
  moreover have "key_inv (sw_step tr e) k w" if "(k, w) \<in> set W" for k w
    using key_inv_try [OF inv _ that acq] u Try step by simp
  ultimately show ?thesis using spec inv by (auto simp: step sw_inv_def)
next
  case (Release_lease es)
  have "keys_in (fst ` set W) (hits (lim tr))" using inv by (simp add: sw_inv_def)
  note rel = release_all_spec [OF this, of es]
  show ?thesis
    using sw_inv_remove [OF inv, of "release_lease es (lim tr)" "\<lambda>(k, h). (k, h_id h) \<notin> set es"] rel Release_lease
    by (simp add: release_lease_def)
next
  case (Forget key)
  have "keys_in (fst ` set W) (hits (lim tr))" using inv by (simp add: sw_inv_def)
  then have "keys_in (fst ` set W) (hits (reset_limiter key (lim tr)))"
    by (auto simp: keys_in_def reset_limiter_def map_has_def split: option.splits)
  then show ?thesis
    using sw_inv_remove [OF inv, of "reset_limiter key (lim tr)" "\<lambda>(k, h). key \<noteq> None \<and> key \<noteq> Some k"] Forget
    by (auto simp: reset_limiter_def split: option.splits)
qed

interpretation sw_machine: guarded_machine sw_step "sw_inv W" "uses_windows W" for W
  by unfold_locales (rule sw_inv_step)

text \<open>
  C4. ``No more than N requests in ANY trailing windowMs'': as long as each key is used with one window
  and at most \<open>MAX_KEYS\<close> keys are in use, in every run (under a clock that does not go back), for every
  key and every instant \<open>t\<close>, the hits granted in the window that ends at \<open>t\<close>, and not given back or
  reset, number at most \<open>requests\<close>; there is no burst at a window boundary.
\<close>

theorem trailing_window_bound:
  assumes "windows_ok W" and "list_all (uses_windows W) es" and "(k, w) \<in> set W"
  shows "window_load k (w_windowMs w) t (foldl sw_step (sw_start t0) es) \<le> max 0 (w_requests w)"
proof -
  have "sw_inv W (foldl sw_step (sw_start t0) es)"
    by (rule sw_machine.run_ok [OF sw_inv_start [OF assms(1)] assms(2)])
  then show ?thesis using assms(3) by (auto simp: sw_inv_def key_inv_def)
qed

definition two_per_second :: rate_window where
  "two_per_second = \<lparr>w_requests = 2, w_windowMs = 1000\<rparr>"

definition sample_traffic :: "sw_event list" where
  "sample_traffic = map (\<lambda>d. Try d [(''global'', two_per_second)]) [900, 50, 100, 849, 1, 50]"

lemma trailing_window_bound_witness:
  "window_load ''global'' 1000 1950 (foldl sw_step (sw_start 0) sample_traffic) \<le> 2
    \<and> window_load ''global'' 1000 1950 (foldl sw_step (sw_start 0) sample_traffic) = 2"
proof -
  have "windows_ok [(''global'', two_per_second)]" by (simp add: windows_ok_def MAX_KEYS_def map_has_def)
  moreover have "list_all (uses_windows [(''global'', two_per_second)]) sample_traffic"
    by (simp add: sample_traffic_def uses_windows_def active_scopes_def)
  ultimately have "window_load ''global'' (w_windowMs two_per_second) 1950 (foldl sw_step (sw_start 0) sample_traffic)
      \<le> max 0 (w_requests two_per_second)"
    by (rule trailing_window_bound) simp
  moreover have "window_load ''global'' 1000 1950 (foldl sw_step (sw_start 0) sample_traffic) = 2"
    by code_simp
  ultimately show ?thesis by (simp add: two_per_second_def)
qed

section \<open>One acquisition\<close>

lemma hits_of_new: assumes "(k, w) \<in> set (active_scopes scopes)" and "distinct (map fst (active_scopes scopes))"
  shows "\<exists>i. hits_of k (fresh_hits n now (map fst (active_scopes scopes))) = [\<lparr>h_id = i, h_at = now\<rparr>]"
proof -
  have "k \<in> set (map fst (active_scopes scopes))" using assms(1) by force
  then obtain j where "(k, \<lparr>h_id = j, h_at = now\<rparr>) \<in> set (fresh_hits n now (map fst (active_scopes scopes)))"
    using fresh_hits_has by blast
  then have "hits_of k (fresh_hits n now (map fst (active_scopes scopes))) \<noteq> []"
    by (metis hits_of_mem empty_iff list.set(1))
  then obtain h where h: "hits_of k (fresh_hits n now (map fst (active_scopes scopes))) = [h]"
    using hits_of_fresh [OF assms(2), of k n now]
    by (cases "hits_of k (fresh_hits n now (map fst (active_scopes scopes)))") auto
  then have "h_at h = now" using hits_of_mem [of h k] fresh_hits_mem by (metis list.set_intros(1))
  then show ?thesis using h by (intro exI [of _ "h_id h"]) simp
qed

text \<open>
  C21. An acquisition over several scopes is atomic. It is allowed exactly when every active scope has
  fewer live hits than its cap; then every scope gets one hit stamped with the present time behind its
  live ones; otherwise no scope gets any (each is only pruned to its window), no identifier is used
  up, there is no lease, and the advised wait is positive.
\<close>

theorem acquire_all_or_nothing:
  assumes "keys_in K (hits s)" and "scopes_in K scopes" and "tryAcquireMany now scopes s = (r, s')"
    and "(k, w) \<in> set (active_scopes scopes)"
  shows "(allowed r \<longleftrightarrow> room now (hits s) scopes)
    \<and> (if allowed r
       then \<exists>i. hget (hits s') k = live_hits now (hits s) (k, w) @ [\<lparr>h_id = i, h_at = now\<rparr>]
       else hget (hits s') k = live_hits now (hits s) (k, w) \<and> nextHitId s' = nextHitId s
            \<and> lease_of r = None \<and> retryAfterMs r > 0)"
proof -
  have d: "distinct (map fst (active_scopes scopes))" using assms(2) by (simp add: scopes_in_def)
  then have "map_of (active_scopes scopes) k = Some w" using assms(4) by simp
  then have spec: "hget (hits s') k = live_hits now (hits s) (k, w) @ hits_of k (new_hits now scopes s)"
    "nextHitId s + length (new_hits now scopes s) = nextHitId s'"
    using acquire_spec [OF assms(1-3), of k] by simp_all
  have a: "allowed r \<longleftrightarrow> room now (hits s) scopes" using allowed_iff [of now scopes s] assms(3) by simp
  moreover have "lease_of r = None \<and> retryAfterMs r > 0" if "\<not> allowed r"
    using that assms(3) by (auto simp: tryAcquireMany_def Let_def split: if_splits prod.splits)
  ultimately show ?thesis using spec hits_of_new [OF assms(4) d] by (auto simp: new_hits_def)
qed

definition two_scopes :: "scope list" where
  "two_scopes = [(''global'', two_per_second), (''account'', \<lparr>w_requests = 1, w_windowMs = 1000\<rparr>)]"

definition one_used :: swl where
  "one_used = snd (tryAcquireMany 0 two_scopes newLimiter)"

lemma acquire_all_or_nothing_witness:
  "\<not> allowed (fst (tryAcquireMany 10 two_scopes one_used))
   \<and> nextHitId (snd (tryAcquireMany 10 two_scopes one_used)) = nextHitId one_used"
proof -
  have "hits one_used = [(''global'', [\<lparr>h_id = 1, h_at = 0\<rparr>]), (''account'', [\<lparr>h_id = 2, h_at = 0\<rparr>])]"
    by code_simp
  then have K: "keys_in {''global'', ''account''} (hits one_used)"
    by (auto simp: keys_in_def map_has_def MAX_KEYS_def card_insert_if split: if_splits)
  have sc: "scopes_in {''global'', ''account''} two_scopes"
    by (simp add: scopes_in_def two_scopes_def active_scopes_def two_per_second_def)
  have act: "(''global'', two_per_second) \<in> set (active_scopes two_scopes)"
    by (simp add: two_scopes_def active_scopes_def two_per_second_def)
  have "\<not> room 10 (hits one_used) two_scopes" by code_simp
  with acquire_all_or_nothing [OF K sc surjective_pairing act, of 10] show ?thesis by (simp split: if_splits)
qed

text \<open>
  C22. The advised wait is exact. In every state that traffic with fixed windows reaches, when a single
  scope is blocked with \<open>retryAfterMs = m\<close>, a second attempt \<open>d\<close> milliseconds later, with nothing in
  between, succeeds if and only if \<open>m \<le> d\<close>.
\<close>

theorem retry_after_exact:
  assumes "windows_ok W" and "list_all (uses_windows W) es" and "(k, w) \<in> set W"
    and "0 < w_requests w" and "0 < w_windowMs w"
    and "tr = foldl sw_step (sw_start t0) es" and "clock tr \<le> now" and "0 \<le> d"
    and "tryAcquire now k w (lim tr) = ((False, m), s)"
  shows "fst (fst (tryAcquire (now + d) k w s)) \<longleftrightarrow> m \<le> d"
proof -
  have "sw_inv W tr" unfolding assms(6) by (rule sw_machine.run_ok [OF sw_inv_start [OF assms(1)] assms(2)])
  then have K: "keys_in (fst ` set W) (hits (lim tr))" and ki: "key_inv tr k w"
    using assms(3) by (auto simp: sw_inv_def)
  have sc: "active_scopes [(k, w)] = [(k, w)]" using assms(4,5) by (simp add: active_scopes_def)
  obtain r where acq: "tryAcquireMany now [(k, w)] (lim tr) = (r, s)" and r: "\<not> allowed r" "retryAfterMs r = m"
    using assms(9) by (auto simp: tryAcquire_def split: prod.splits)
  have sci: "scopes_in (fst ` set W) [(k, w)]" using assms(3) by (force simp: scopes_in_def sc)
  let ?live = "live_hits now (hits (lim tr)) (k, w)"
  have no: "\<not> room now (hits (lim tr)) [(k, w)]" using allowed_iff [of now "[(k, w)]" "lim tr"] acq r by simp
  then have full: "w_requests w \<le> int (length ?live)" by (simp add: room_def sc not_less)
  have "int (length ?live) \<le> int (length (hget (hits (lim tr)) k))" by (simp add: live_hits_def)
  then have len: "int (length ?live) = w_requests w" using full ki assms(4) by (simp add: key_inv_def)
  have g: "hget (hits s) k = ?live"
    using acquire_spec [OF K sci acq, of k] no by (simp add: sc new_hits_def)
  obtain h0 hs where live: "?live = h0 # hs" using len assms(4) by (cases ?live) auto
  have m: "m = h_at h0 + w_windowMs w - now"
    using acq r full live live_after [of h0 now "hits (lim tr)" "(k, w)"]
    by (auto simp: tryAcquireMany_def Let_def sc scope_retry_def split: if_splits prod.splits)
  have "sorted (map h_at ?live)" using ki by (simp add: key_inv_def live_hits_def sorted_filter)
  then have oldest: "\<forall>h \<in> set hs. h_at h0 \<le> h_at h" by (simp add: live)
  let ?later = "filter (\<lambda>h. h_at h > now + d - w_windowMs w) ?live"
  have "room (now + d) (hits s) [(k, w)] \<longleftrightarrow> int (length ?later) < int (length ?live)"
    by (simp add: room_def sc live_hits_def [of "now + d"] g len)
  also have "\<dots> \<longleftrightarrow> (\<exists>h \<in> set ?live. \<not> h_at h > now + d - w_windowMs w)"
    using length_filter_less [of _ ?live "\<lambda>h. h_at h > now + d - w_windowMs w"]
      filter_True [of ?live "\<lambda>h. h_at h > now + d - w_windowMs w"]
    by (metis (mono_tags, lifting) of_nat_less_iff less_irrefl)
  also have "\<dots> \<longleftrightarrow> m \<le> d" using oldest by (auto simp: live m)
  finally show ?thesis using allowed_iff [of "now + d" "[(k, w)]" s] by (simp add: tryAcquire_def split_beta Let_def)
qed

lemma retry_after_exact_witness:
  "fst (fst (tryAcquire 1900 ''global'' two_per_second
      (snd (tryAcquire 1100 ''global'' two_per_second
        (lim (foldl sw_step (sw_start 0) (take 2 sample_traffic)))))))
   \<and> \<not> fst (fst (tryAcquire 1899 ''global'' two_per_second
      (snd (tryAcquire 1100 ''global'' two_per_second
        (lim (foldl sw_step (sw_start 0) (take 2 sample_traffic)))))))"
proof -
  let ?tr = "foldl sw_step (sw_start 0) (take 2 sample_traffic)"
  have W: "windows_ok [(''global'', two_per_second)]" by (simp add: windows_ok_def MAX_KEYS_def map_has_def)
  have u: "list_all (uses_windows [(''global'', two_per_second)]) (take 2 sample_traffic)"
    by (simp add: sample_traffic_def uses_windows_def active_scopes_def)
  have c: "clock ?tr \<le> 1100" and b: "fst (tryAcquire 1100 ''global'' two_per_second (lim ?tr)) = (False, 800)"
    by code_simp+
  have w: "0 < w_requests two_per_second" "0 < w_windowMs two_per_second" by (simp_all add: two_per_second_def)
  have p: "tryAcquire 1100 ''global'' two_per_second (lim ?tr)
      = ((False, 800), snd (tryAcquire 1100 ''global'' two_per_second (lim ?tr)))"
    using b by (metis prod.collapse)
  have "fst (fst (tryAcquire (1100 + d) ''global'' two_per_second
      (snd (tryAcquire 1100 ''global'' two_per_second (lim ?tr))))) \<longleftrightarrow> 800 \<le> d" if "0 \<le> d" for d
    by (rule retry_after_exact [OF W u _ w refl c that p]) simp
  from this [of 800] this [of 799] show ?thesis by simp
qed

text \<open>
  C23. Releasing a lease that was never dispatched is the inverse of acquiring it: every scope is left
  with exactly the hits it had, pruned to its window, so the caps are charged only for what was sent.
\<close>

theorem release_restores:
  assumes "keys_in K (hits s)" and "scopes_in K scopes" and "tryAcquireMany now scopes s = (r, s')"
    and "lease_of r = Some es" and "\<forall>k. \<forall>h \<in> set (hget (hits s) k). h_id h < nextHitId s"
  shows "hget (hits (release_lease es s')) k = (case map_of (active_scopes scopes) k of
      None \<Rightarrow> hget (hits s) k | Some w \<Rightarrow> live_hits now (hits s) (k, w))"
proof -
  let ?new = "new_hits now scopes s"
  let ?old = "case map_of (active_scopes scopes) k of None \<Rightarrow> hget (hits s) k
    | Some w \<Rightarrow> live_hits now (hits s) (k, w)"
  note spec = acquire_spec [OF assms(1-3), of k]
  have es: "es = map (\<lambda>(k, h). (k, h_id h)) ?new" and g: "hget (hits s') k = ?old @ hits_of k ?new"
    and K: "keys_in K (hits s')"
    using spec assms(4) by simp_all
  have "(k, h_id h) \<notin> set es" if "h \<in> set ?old" for h
  proof -
    have "h_id h < nextHitId s" using that assms(5) by (auto simp: live_hits_def split: option.splits)
    then show ?thesis
      using fresh_hits_mem [of k _ "nextHitId s" now "map fst (active_scopes scopes)"]
      by (fastforce simp: es new_hits_def split: if_splits)
  qed
  moreover have "(k, h_id h) \<in> set es" if "h \<in> set (hits_of k ?new)" for h
    using that by (force simp: es hits_of_mem)
  ultimately show ?thesis
    using release_all_spec [OF K, of es] by (simp add: release_lease_def g filter_empty_conv)
qed

lemma release_restores_witness:
  "hget (hits (release_lease [(''global'', 1), (''account'', 2)] one_used)) ''global'' = []"
proof -
  have r: "tryAcquireMany 0 two_scopes newLimiter
      = (\<lparr>allowed = True, retryAfterMs = 0, lease_of = Some [(''global'', 1), (''account'', 2)]\<rparr>, one_used)"
    unfolding one_used_def by code_simp
  have "keys_in {''global'', ''account''} (hits newLimiter)"
    by (simp add: keys_in_def map_has_def newLimiter_def MAX_KEYS_def card_insert_if)
  moreover have "scopes_in {''global'', ''account''} two_scopes"
    by (simp add: scopes_in_def two_scopes_def active_scopes_def two_per_second_def)
  ultimately show ?thesis
    using release_restores [OF _ _ r, of _ "[(''global'', 1), (''account'', 2)]" "''global''"]
    by (simp add: newLimiter_def live_hits_def split: option.splits)
qed

end
