(* ===== verification/QuotaInflight.thy ===== *)
theory QuotaInflight
  imports Prelude "HOL-Library.Multiset"
begin

text \<open>
  The in-flight counter of the quota-share strategy,
  \<open>src/open-sse/services/combo/quotaShareInflight.ts\<close>: per connection, the expiry times of the leases
  of the requests in flight. The count is the number of leases that have not expired.

  A slot object is reachable only through the map, so mutating it is an update of its entry.
\<close>

type_synonym inflight = "(string \<times> time list) list"

definition DEFAULT_LEASE_MS :: int where
  "DEFAULT_LEASE_MS = 120000"

definition MAX_LEASES_PER_CONNECTION :: nat where
  "MAX_LEASES_PER_CONNECTION = 4096"

definition retireExpired :: "time \<Rightarrow> time list \<Rightarrow> time list" where
  "retireExpired now leases = filter (\<lambda>x. x > now) leases"

definition pruneExpired :: "time \<Rightarrow> inflight \<Rightarrow> inflight" where
  "pruneExpired now m = filter (\<lambda>(_, ls). ls \<noteq> []) (map_values (retireExpired now) m)"

definition incrementInflight :: "string \<Rightarrow> int \<Rightarrow> time \<Rightarrow> inflight \<Rightarrow> nat \<times> inflight" where
  "incrementInflight c leaseMs now m =
     (if c = [] then (0, m)
      else let m1 = pruneExpired now m;
               pushed = nullish (map_of m1 c) [] @ [now + leaseMs];
               leases = (if length pushed > MAX_LEASES_PER_CONNECTION then tl pushed else pushed)
           in (length leases, map_set c leases m1))"

fun lastIndexWhere :: "(time \<Rightarrow> bool) \<Rightarrow> time list \<Rightarrow> nat option" where
  "lastIndexWhere p [] = None"
| "lastIndexWhere p (x # xs) =
     (case lastIndexWhere p xs of Some i \<Rightarrow> Some (Suc i) | None \<Rightarrow> if p x then Some 0 else None)"

definition decrementInflight :: "string \<Rightarrow> time \<Rightarrow> inflight \<Rightarrow> inflight" where
  "decrementInflight c now m =
     (if c = [] then m
      else case map_of m c of
             None \<Rightarrow> m
           | Some ls \<Rightarrow>
               (let ls1 = (case lastIndexWhere (\<lambda>x. x \<le> now) ls of
                             Some i \<Rightarrow> take i ls @ drop (Suc i) ls
                           | None \<Rightarrow> butlast ls);
                    ls2 = retireExpired now ls1
                in if ls2 = [] then map_del c m else map_set c ls2 m))"

definition getInflight :: "string \<Rightarrow> time \<Rightarrow> inflight \<Rightarrow> nat \<times> inflight" where
  "getInflight c now m =
     (if c = [] then (0, m)
      else case map_of m c of
             None \<Rightarrow> (0, m)
           | Some ls \<Rightarrow> (length (retireExpired now ls), map_set c (retireExpired now ls) m))"

section \<open>The leases of a connection\<close>

definition leases_of :: "inflight \<Rightarrow> string \<Rightarrow> time list" where
  "leases_of m c = nullish (map_of m c) []"

text \<open>The count as a plain function of time: what the next read returns.\<close>

definition load_at :: "inflight \<Rightarrow> string \<Rightarrow> time \<Rightarrow> nat" where
  "load_at m c t = (if c = [] then 0 else length (retireExpired t (leases_of m c)))"

lemma leases_simps [simp]: "leases_of (map_set c ls m) c' = (if c' = c then ls else leases_of m c')"
  "leases_of (map_del c m) c' = (if c' = c then [] else leases_of m c')"
  by (simp_all add: leases_of_def)

lemma retire_twice [simp]: "t \<le> u \<Longrightarrow> retireExpired u (retireExpired t ls) = retireExpired u ls"
  by (auto simp: retireExpired_def intro: filter_cong)

lemma retire_append [simp]: "retireExpired t (xs @ ys) = retireExpired t xs @ retireExpired t ys"
  by (simp add: retireExpired_def)

lemma leases_prune: "map_ok m \<Longrightarrow> leases_of (pruneExpired now m) c = retireExpired now (leases_of m c)"
  by (auto simp: leases_of_def pruneExpired_def map_get_filter nullish_def retireExpired_def split: option.splits)

lemma prune_ok [simp, intro]: "map_ok m \<Longrightarrow> map_ok (pruneExpired now m)"
  by (simp add: pruneExpired_def)

lemma getInflight_spec: "fst (getInflight c now m) = load_at m c now
    \<and> (now \<le> t \<longrightarrow> load_at (snd (getInflight c now m)) c' t = load_at m c' t)
    \<and> (map_ok m \<longrightarrow> map_ok (snd (getInflight c now m)))"
  by (auto simp: getInflight_def load_at_def leases_of_def split: option.splits)
    (simp_all add: retireExpired_def)

lemma increment_leases: assumes "map_ok m" and "c \<noteq> []"
  shows "leases_of (snd (incrementInflight c l now m)) c' =
    (if c' = c
     then (if length (retireExpired now (leases_of m c)) < MAX_LEASES_PER_CONNECTION
           then retireExpired now (leases_of m c) @ [now + l]
           else tl (retireExpired now (leases_of m c) @ [now + l]))
     else retireExpired now (leases_of m c'))"
  using leases_prune [OF assms(1), of now] assms(2)
  by (simp add: incrementInflight_def Let_def leases_of_def [of _ c, symmetric] leases_of_def [symmetric])

lemma last_index_none: "lastIndexWhere p ls = None \<longleftrightarrow> (\<forall>x \<in> set ls. \<not> p x)"
  by (induction ls) (auto split: option.splits)

lemma decrement_leases: assumes "c \<noteq> []"
  shows "leases_of (decrementInflight c now m) c' =
    (if c' = c \<and> map_has c m
     then (case lastIndexWhere (\<lambda>x. x \<le> now) (leases_of m c) of
             Some i \<Rightarrow> retireExpired now (leases_of m c)
           | None \<Rightarrow> butlast (leases_of m c))
     else leases_of m c')"
proof -
  have drop1: "retireExpired now (take i ls @ drop (Suc i) ls) = retireExpired now ls"
    if "lastIndexWhere (\<lambda>x. x \<le> now) ls = Some i" for i ls
    using that by (induction ls arbitrary: i) (auto simp: retireExpired_def split: option.splits if_splits)
  have live: "retireExpired now (butlast ls) = butlast ls" if "lastIndexWhere (\<lambda>x. x \<le> now) ls = None" for ls
    using that by (fastforce simp: last_index_none retireExpired_def filter_id_conv dest: in_set_butlastD)
  show ?thesis
    using assms drop1 live
    by (auto simp: decrementInflight_def Let_def leases_of_def map_has_def nullish_def split: option.splits)
qed

section \<open>Traffic\<close>

text \<open>A run under a clock that does not go back; \<open>started\<close> logs the reservations.\<close>

record inflight_trace =
  slots :: inflight
  inf_clock :: time
  started :: "(string \<times> time) list"

datatype inflight_event =
    Reserve nat string
  | Settle nat string time
  | Read nat string

fun inflight_step :: "inflight_trace \<Rightarrow> inflight_event \<Rightarrow> inflight_trace" where
  "inflight_step tr (Reserve d c) =
     (let now = inf_clock tr + int d
      in \<lparr>slots = snd (incrementInflight c DEFAULT_LEASE_MS now (slots tr)), inf_clock = now,
          started = started tr @ [(c, now)]\<rparr>)"
| "inflight_step tr (Settle d c u) =
     tr\<lparr>slots := decrementInflight c u (slots tr), inf_clock := inf_clock tr + int d\<rparr>"
| "inflight_step tr (Read d c) =
     (let now = inf_clock tr + int d in tr\<lparr>slots := snd (getInflight c now (slots tr)), inf_clock := now\<rparr>)"

definition idle_start :: "time \<Rightarrow> inflight_trace" where
  "idle_start t = \<lparr>slots = [], inf_clock = t, started = []\<rparr>"

definition expiries :: "string \<Rightarrow> (string \<times> time) list \<Rightarrow> time multiset" where
  "expiries c lg = mset (map (\<lambda>(_, t). t + DEFAULT_LEASE_MS) (filter (\<lambda>(c', _). c' = c) lg))"

definition inflight_inv :: "inflight_trace \<Rightarrow> bool" where
  "inflight_inv tr \<longleftrightarrow> map_ok (slots tr)
     \<and> (\<forall>c. mset (leases_of (slots tr) c) \<subseteq># expiries c (started tr)
          \<and> length (leases_of (slots tr) c) \<le> MAX_LEASES_PER_CONNECTION)"

lemma retire_subset: "mset (retireExpired t ls) \<subseteq># mset ls"
  by (simp add: retireExpired_def)

lemma retire_le: "length (retireExpired t ls) \<le> length ls"
  by (simp add: retireExpired_def)

lemma butlast_subset: "mset (butlast ls) \<subseteq># mset ls"
  by (cases ls rule: rev_cases) simp_all

lemma tl_subset: "mset (tl ls) \<subseteq># mset ls"
  by (cases ls) simp_all

lemma expiries_append: "expiries c (lg @ [(c', t)])
    = expiries c lg + (if c' = c then {#t + DEFAULT_LEASE_MS#} else {#})"
  by (simp add: expiries_def)

lemma subset_add_mset: "A \<subseteq># B \<Longrightarrow> A \<subseteq># add_mset x B"
  by (metis add_mset_add_single mset_subset_eq_add_left subset_mset.order_trans)

lemma size_expiries: "size (filter_mset (\<lambda>x. t < x) (expiries c lg))
    = length (filter (\<lambda>(c', u). c' = c \<and> t < u + DEFAULT_LEASE_MS) lg)"
  by (induction lg) (auto simp: expiries_def)

lemma lease_pos [simp]: "0 < DEFAULT_LEASE_MS"
  by (simp add: DEFAULT_LEASE_MS_def)

lemma inflight_step_inv: assumes inv: "inflight_inv tr" shows "inflight_inv (inflight_step tr e)"
proof -
  have ok: "map_ok (slots tr)" using inv by (simp add: inflight_inv_def)
  have sub: "mset (leases_of (slots tr) c) \<subseteq># expiries c (started tr)"
    and len: "length (leases_of (slots tr) c) \<le> MAX_LEASES_PER_CONNECTION" for c
    using inv by (simp_all add: inflight_inv_def)
  show ?thesis
  proof (cases e)
    case (Reserve d c)
    let ?now = "inf_clock tr + int d"
    let ?m = "snd (incrementInflight c DEFAULT_LEASE_MS ?now (slots tr))"
    have "mset (leases_of ?m k) \<subseteq># expiries k (started tr @ [(c, ?now)])
        \<and> length (leases_of ?m k) \<le> MAX_LEASES_PER_CONNECTION" for k
    proof (cases "c = []")
      case True
      then show ?thesis using sub [of k] len [of k]
        by (auto simp: incrementInflight_def expiries_append
            intro: subset_add_mset)
    next
      case False
      let ?live = "\<lambda>k. retireExpired ?now (leases_of (slots tr) k)"
      have live: "mset (?live k) \<subseteq># expiries k (started tr)" for k
        using retire_subset sub subset_mset.order_trans by blast
      have le: "length (?live k) \<le> MAX_LEASES_PER_CONNECTION" for k using retire_le len order_trans by blast
      have "mset (?live c @ [x]) \<subseteq># add_mset x (expiries c (started tr))" for x
        using live [of c] by simp
      then have "mset (tl (?live c @ [x])) \<subseteq># add_mset x (expiries c (started tr))" for x
        using tl_subset subset_mset.order_trans by blast
      then show ?thesis
        using live [of k] le [of k] increment_leases [OF ok False, of DEFAULT_LEASE_MS ?now k]
        by (auto simp: expiries_append intro: subset_mset.order_trans)
    qed
    moreover have "map_ok ?m" using ok by (simp add: incrementInflight_def Let_def)
    ultimately show ?thesis by (simp add: Reserve inflight_inv_def Let_def)
  next
    case (Settle d c u)
    have "mset (leases_of (decrementInflight c u (slots tr)) k) \<subseteq># mset (leases_of (slots tr) k)
        \<and> length (leases_of (decrementInflight c u (slots tr)) k) \<le> length (leases_of (slots tr) k)" for k
      using decrement_leases [of c u "slots tr" k] retire_subset retire_le butlast_subset
      by (cases "c = []") (auto simp: decrementInflight_def split: option.splits)
    moreover have "map_ok (decrementInflight c u (slots tr))"
      using ok by (auto simp: decrementInflight_def Let_def split: option.splits)
    ultimately show ?thesis
      using sub len by (auto simp: Settle inflight_inv_def intro: subset_mset.order_trans order_trans)
  next
    case (Read d c)
    let ?now = "inf_clock tr + int d"
    have "leases_of (snd (getInflight c ?now (slots tr))) k = leases_of (slots tr) k
        \<or> leases_of (snd (getInflight c ?now (slots tr))) k = retireExpired ?now (leases_of (slots tr) k)" for k
      by (auto simp: getInflight_def leases_of_def [of "slots tr" c] split: option.splits)
    then have "mset (leases_of (snd (getInflight c ?now (slots tr))) k) \<subseteq># mset (leases_of (slots tr) k)
        \<and> length (leases_of (snd (getInflight c ?now (slots tr))) k) \<le> length (leases_of (slots tr) k)" for k
      using retire_subset retire_le by (metis order_refl subset_mset.order_refl)
    moreover have "map_ok (snd (getInflight c ?now (slots tr)))"
      using ok getInflight_spec by blast
    ultimately show ?thesis
      using sub len by (auto simp: Read inflight_inv_def Let_def intro: subset_mset.order_trans order_trans)
  qed
qed

interpretation inflight_machine: machine inflight_step inflight_inv
  by unfold_locales (rule inflight_step_inv)

lemma inflight_inv_start: "inflight_inv (idle_start t)"
  by (simp add: inflight_inv_def idle_start_def leases_of_def)

text \<open>
  A leaked count is bounded. After any sequence of reservations, releases (with whatever clock a
  release passes, including none at all for an aborted request) and reads, the in-flight count of a
  connection at any instant \<open>t\<close> is at most the number of requests that started on it within the lease
  time before \<open>t\<close>; 120 seconds after its last start a connection counts as idle.
\<close>

theorem inflight_counts_recent_starts:
  shows "load_at (slots (foldl inflight_step (idle_start t0) es)) c t
    \<le> length (filter (\<lambda>(c', u). c' = c \<and> t < u + DEFAULT_LEASE_MS) (started (foldl inflight_step (idle_start t0) es)))"
proof -
  let ?tr = "foldl inflight_step (idle_start t0) es"
  have "inflight_inv ?tr" by (rule inflight_machine.run_inv [OF inflight_inv_start])
  then have "mset (leases_of (slots ?tr) c) \<subseteq># expiries c (started ?tr)" by (simp add: inflight_inv_def)
  then have "filter_mset (\<lambda>x. x > t) (mset (leases_of (slots ?tr) c))
      \<subseteq># filter_mset (\<lambda>x. x > t) (expiries c (started ?tr))"
    by (rule multiset_filter_mono)
  from size_mset_mono [OF this]
  have "length (retireExpired t (leases_of (slots ?tr) c))
      \<le> size (filter_mset (\<lambda>x. x > t) (expiries c (started ?tr)))"
    by (simp add: retireExpired_def flip: mset_filter)
  also have "\<dots> = length (filter (\<lambda>(c', u). c' = c \<and> t < u + DEFAULT_LEASE_MS) (started ?tr))"
    by (rule size_expiries)
  finally show ?thesis by (simp add: load_at_def)
qed

lemma filter_live: "\<forall>x \<in> set ls. t < x \<Longrightarrow> retireExpired t ls = ls"
  by (simp add: retireExpired_def)

text \<open>
  A release that passes the clock of its reservation gives the slot back exactly: for every
  connection and every later instant the count is what it was before the reservation, provided the
  connection was below the cap on tracked leases.
\<close>

theorem reserve_release_roundtrip:
  assumes "map_ok m" and "c \<noteq> []" and "load_at m c now < MAX_LEASES_PER_CONNECTION" and "now \<le> t"
  shows "load_at (decrementInflight c now (snd (incrementInflight c DEFAULT_LEASE_MS now m))) c' t = load_at m c' t"
proof -
  let ?m = "snd (incrementInflight c DEFAULT_LEASE_MS now m)"
  have l: "leases_of ?m k = (if k = c then retireExpired now (leases_of m c) @ [now + DEFAULT_LEASE_MS]
      else retireExpired now (leases_of m k))" for k
    using increment_leases [OF assms(1,2), of DEFAULT_LEASE_MS now k] assms(2,3) by (simp add: load_at_def)
  have "lastIndexWhere (\<lambda>x. x \<le> now) (leases_of ?m c) = None"
    unfolding last_index_none by (auto simp: l retireExpired_def not_le)
  moreover have "map_has c ?m" by (simp add: incrementInflight_def Let_def assms(2))
  ultimately have "leases_of (decrementInflight c now ?m) k = retireExpired now (leases_of m k)" for k
    using decrement_leases [OF assms(2), of now ?m k] l [of k] l [of c] by simp
  then show ?thesis using assms(4) by (simp add: load_at_def)
qed

lemma reserve_release_roundtrip_witness:
  "load_at (decrementInflight ''a'' 7 (snd (incrementInflight ''a'' DEFAULT_LEASE_MS 7 [(''a'', [9, 30])]))) ''a'' 10 = 1"
  using reserve_release_roundtrip [of "[(''a'', [9, 30])]" "''a''" 7 10 "''a''"]
  by (simp add: load_at_def leases_of_def retireExpired_def map_has_def MAX_LEASES_PER_CONNECTION_def)

text \<open>
  A request that outlives its lease takes a neighbour's count with it. The strategy releases with
  the clock of the selection, so the rule that first retires a lease which has already expired never
  applies: with a second request started on the connection before the first one's lease ran out, the
  release of the first at any time \<open>t\<close> after that leaves a count of 0 while the second is in flight.
  Released with the clock \<open>t\<close> the count stays 1.
\<close>

theorem late_release_drops_neighbour:
  assumes "c \<noteq> []" and "t1 \<le> t2" and "t2 < t1 + DEFAULT_LEASE_MS"
    and "t1 + DEFAULT_LEASE_MS \<le> t" and "t < t2 + DEFAULT_LEASE_MS"
    and "m = snd (incrementInflight c DEFAULT_LEASE_MS t2 (snd (incrementInflight c DEFAULT_LEASE_MS t1 [])))"
  shows "load_at m c t = 1 \<and> load_at (decrementInflight c t1 m) c t = 0 \<and> load_at (decrementInflight c t m) c t = 1"
proof -
  have ok: "map_ok (snd (incrementInflight c DEFAULT_LEASE_MS t1 []))"
    using assms(1) by (simp add: incrementInflight_def Let_def pruneExpired_def map_values_def map_has_def)
  have l1: "leases_of (snd (incrementInflight c DEFAULT_LEASE_MS t1 [])) c = [t1 + DEFAULT_LEASE_MS]"
    using increment_leases [OF map_ok_Nil assms(1), of DEFAULT_LEASE_MS t1 c]
    by (simp add: leases_of_def retireExpired_def MAX_LEASES_PER_CONNECTION_def)
  have l: "leases_of m c = [t1 + DEFAULT_LEASE_MS, t2 + DEFAULT_LEASE_MS]"
    using increment_leases [OF ok assms(1), of DEFAULT_LEASE_MS t2 c] assms(3)
    by (simp add: assms(6) l1 retireExpired_def MAX_LEASES_PER_CONNECTION_def)
  have has: "map_has c m" using assms(1) by (simp add: assms(6) incrementInflight_def Let_def)
  have "lastIndexWhere (\<lambda>x. x \<le> t1) (leases_of m c) = None" "lastIndexWhere (\<lambda>x. x \<le> t) (leases_of m c) = Some 0"
    using assms(2,4,5) by (simp_all add: l DEFAULT_LEASE_MS_def)
  then show ?thesis
    using decrement_leases [OF assms(1), of t1 m c] decrement_leases [OF assms(1), of t m c] has assms(1-5)
    by (simp add: load_at_def l retireExpired_def)
qed

lemma late_release_drops_neighbour_witness:
  "let m = snd (incrementInflight ''a'' DEFAULT_LEASE_MS 50000 (snd (incrementInflight ''a'' DEFAULT_LEASE_MS 0 [])))
   in load_at (decrementInflight ''a'' 0 m) ''a'' 130000 = 0"
  using late_release_drops_neighbour [of "''a''" 0 50000 130000, OF _ _ _ _ _ refl]
  by (simp add: DEFAULT_LEASE_MS_def Let_def)

end
