(* ===== verification/AccountBuckets.thy ===== *)
theory AccountBuckets
  imports Prelude
begin

text \<open>
  The saturation buckets of plan windows, \<open>src/src/lib/quota/accountBuckets.ts\<close>: which connections
  have used up their 5-hour, 7-day or per-model 7-day window, reset lazily when they are read.

  \<open>Date.parse\<close> is a parameter, \<open>parse\<close>: the instant of a date string, or nothing when it is not one.
  A percentage is a \<open>jsval\<close>, so that values that are not finite or not numbers are told apart.
\<close>

record bucket_entry =
  b_saturated :: bool
  resetsAtMs :: time

type_synonym buckets_map = "(string \<times> bucket_entry) list"

record usage_quota =
  used :: jsval
  resetAt :: "string option"

definition SATURATION_THRESHOLD_PCT :: rat where
  "SATURATION_THRESHOLD_PCT = 100"

definition storeKey :: "string \<Rightarrow> string \<Rightarrow> string" where
  "storeKey c w = c @ ''::'' @ w"

definition parseResetAtMs :: "(string \<Rightarrow> time option) \<Rightarrow> string option \<Rightarrow> time" where
  "parseResetAtMs parse r =
     (case r of
        None \<Rightarrow> 0
      | Some d \<Rightarrow> if d = [] then 0
                  else (case parse d of None \<Rightarrow> 0 | Some ms \<Rightarrow> if ms > 0 then ms else 0))"

definition isBucketSaturated :: "string \<Rightarrow> string \<Rightarrow> time \<Rightarrow> buckets_map \<Rightarrow> bool \<times> buckets_map" where
  "isBucketSaturated c w now m =
     (if c = [] \<or> w = [] then (False, m)
      else case map_of m (storeKey c w) of
             None \<Rightarrow> (False, m)
           | Some e \<Rightarrow>
               if resetsAtMs e > 0 \<and> now \<ge> resetsAtMs e then (False, map_del (storeKey c w) m)
               else (b_saturated e, m))"

definition pct_saturated :: "jsval \<Rightarrow> bool" where
  "pct_saturated v = (case v of Num p \<Rightarrow> p \<ge> SATURATION_THRESHOLD_PCT | _ \<Rightarrow> False)"

definition recordUsage ::
  "(string \<Rightarrow> time option) \<Rightarrow> string \<Rightarrow> string \<Rightarrow> jsval \<Rightarrow> string option \<Rightarrow> time \<Rightarrow> buckets_map \<Rightarrow> buckets_map" where
  "recordUsage parse c w usedPct r now m =
     (if c = [] \<or> w = [] then m
      else let resets = parseResetAtMs parse r
           in if resets > 0 \<and> now \<ge> resets then map_del (storeKey c w) m
              else if \<not> pct_saturated usedPct then map_del (storeKey c w) m
              else map_set (storeKey c w) \<lparr>b_saturated = True, resetsAtMs = resets\<rparr> m)"

definition processQuotaEntry ::
  "(string \<Rightarrow> time option) \<Rightarrow> string \<Rightarrow> string \<Rightarrow> usage_quota option \<Rightarrow> time \<Rightarrow> buckets_map \<Rightarrow> buckets_map" where
  "processQuotaEntry parse c w entry now m =
     (case entry of
        None \<Rightarrow> m
      | Some q \<Rightarrow> if used q = Undefined \<or> used q = Not_number then m
                  else recordUsage parse c w (used q) (resetAt q) now m)"

text \<open>The regular expression \<open>/^weekly (.+) \(7d\)$/\<close>: its group, when it matches.\<close>

definition line_end :: "char \<Rightarrow> bool" where
  "line_end ch \<longleftrightarrow> ch = CHR 0x0A \<or> ch = CHR 0x0D"

definition weekly_model :: "string \<Rightarrow> string option" where
  "weekly_model key =
     (let pre = ''weekly ''; post = '' (7d)''; n = length key;
          model = take (n - length pre - length post) (drop (length pre) key)
      in if n > length pre + length post \<and> take (length pre) key = pre
           \<and> drop (n - length post) key = post \<and> \<not> list_ex line_end model
         then Some model else None)"

definition weekly_window ::
  "(string \<Rightarrow> time option) \<Rightarrow> string \<Rightarrow> time \<Rightarrow> string \<times> usage_quota option \<Rightarrow> buckets_map \<Rightarrow> buckets_map" where
  "weekly_window parse c now kv m =
     (case weekly_model (fst kv) of
        None \<Rightarrow> m
      | Some model \<Rightarrow> processQuotaEntry parse c (''7d:'' @ model) (snd kv) now m)"

definition quota_at :: "(string \<times> usage_quota option) list \<Rightarrow> string \<Rightarrow> usage_quota option" where
  "quota_at qs k = nullish (map_of qs k) None"

definition updateAccountBuckets ::
  "(string \<Rightarrow> time option) \<Rightarrow> string \<Rightarrow> (string \<times> usage_quota option) list option \<Rightarrow> time
   \<Rightarrow> buckets_map \<Rightarrow> buckets_map" where
  "updateAccountBuckets parse c quotas now m =
     (case quotas of
        None \<Rightarrow> m
      | Some qs \<Rightarrow>
          if c = [] then m
          else fold (weekly_window parse c now) qs
                 (processQuotaEntry parse c ''7d'' (quota_at qs ''weekly (7d)'') now
                   (processQuotaEntry parse c ''5h'' (quota_at qs ''session (5h)'') now m)))"

section \<open>Reads\<close>

text \<open>What a bucket means, without the lazy deletion.\<close>

definition saturated_at :: "string \<Rightarrow> string \<Rightarrow> time \<Rightarrow> buckets_map \<Rightarrow> bool" where
  "saturated_at c w now m \<longleftrightarrow> c \<noteq> [] \<and> w \<noteq> [] \<and>
     (case map_of m (storeKey c w) of
        None \<Rightarrow> False | Some e \<Rightarrow> b_saturated e \<and> \<not> (resetsAtMs e > 0 \<and> now \<ge> resetsAtMs e))"

lemma isBucketSaturated_fst: "fst (isBucketSaturated c w now m) = saturated_at c w now m"
  by (auto simp: isBucketSaturated_def saturated_at_def split: option.splits)

text \<open>A read only removes what no later read would have counted.\<close>

lemma read_transparent: "now \<le> t \<Longrightarrow>
    saturated_at c' w' t (snd (isBucketSaturated c w now m)) = saturated_at c' w' t m"
  by (auto simp: isBucketSaturated_def saturated_at_def split: option.splits)

lemma saturated_after_record:
  "saturated_at c w t (recordUsage parse c w p r now m) \<longleftrightarrow> c \<noteq> [] \<and> w \<noteq> [] \<and> pct_saturated p
     \<and> (parseResetAtMs parse r > 0 \<longrightarrow> now < parseResetAtMs parse r \<and> t < parseResetAtMs parse r)"
  by (auto simp: recordUsage_def saturated_at_def Let_def split: option.splits)

lemma record_other: "storeKey c' w' \<noteq> storeKey c w \<Longrightarrow>
    saturated_at c' w' t (recordUsage parse c w p r now m) = saturated_at c' w' t m"
  by (simp add: recordUsage_def saturated_at_def Let_def)

text \<open>
  An observation decides its window until the window resets. After \<open>recordUsage\<close>, whatever other
  buckets are read in between (each read may lazily delete its own expired bucket), the connection
  counts as saturated at a later instant exactly when the observed percentage was a finite number of
  at least 100 and the reported reset, if known, was still ahead both then and now; a reset instant
  that cannot be parsed never expires.
\<close>

theorem saturation_until_reset:
  assumes "list_all (\<lambda>(_, _, u). u \<le> t) reads"
  shows "fst (isBucketSaturated c w t (fold (\<lambda>(c', w', u) m. snd (isBucketSaturated c' w' u m)) reads
      (recordUsage parse c w p r now m))) \<longleftrightarrow> c \<noteq> [] \<and> w \<noteq> [] \<and> pct_saturated p
     \<and> (parseResetAtMs parse r > 0 \<longrightarrow> now < parseResetAtMs parse r \<and> t < parseResetAtMs parse r)"
proof -
  have "saturated_at c w t (fold (\<lambda>(c', w', u) m. snd (isBucketSaturated c' w' u m)) reads m)
      = saturated_at c w t m" for m
    using assms
  proof (induction reads arbitrary: m)
    case (Cons x reads)
    obtain c' w' u where x: "x = (c', w', u)" by (cases x) auto
    then have "u \<le> t" "list_all (\<lambda>(_, _, u). u \<le> t) reads" using Cons.prems by simp_all
    then show ?case using Cons.IH read_transparent x by simp
  qed simp
  then show ?thesis by (simp add: isBucketSaturated_fst saturated_after_record)
qed

lemma saturation_until_reset_witness:
  "fst (isBucketSaturated ''c'' ''5h'' 20 (snd (isBucketSaturated ''c'' ''5h'' 15
     (recordUsage (\<lambda>_. Some 30) ''c'' ''5h'' (Num 100) (Some ''x'') 10 []))))"
  using saturation_until_reset [of 20 "[(''c'', ''5h'', 15)]" "''c''" "''5h''" "\<lambda>_. Some 30" "Num 100" "Some ''x''" 10 "[]"]
  by (simp add: pct_saturated_def SATURATION_THRESHOLD_PCT_def parseResetAtMs_def)

end
