(* ===== verification/QuotaShare.thy ===== *)
theory QuotaShare
  imports QuotaInflight AccountBuckets
begin

text \<open>
  The quota-share selection strategy, \<open>src/open-sse/services/combo/quotaShareStrategy.ts\<close>: saturated
  connections and connections at their concurrency cap are deprioritised, a deficit round robin picks
  by weight among the rest, and the less loaded of the first two candidates gets the request.

  A target is a record of the fields the strategy reads; two references to one target are equal. The
  three module-level maps are the fields of the state. Deficits are exact fractions.
\<close>

section \<open>Data\<close>

record target =
  executionKey :: string
  connectionId :: "string option"
  weight :: jsval

type_synonym deficits = "(string \<times> rat) list"

record quota_state =
  q_buckets :: buckets_map
  q_inflight :: inflight
  drrState :: "(string \<times> deficits) list"

record selection =
  sel_target :: "target option"
  orderedTargets :: "target list"
  sel_release :: "(string \<times> time) option"

definition MAX_DRR_COMBOS :: nat where
  "MAX_DRR_COMBOS = 200"

definition conn_of :: "target \<Rightarrow> string" where
  "conn_of t = nullish (connectionId t) []"

section \<open>Gating\<close>

definition bareModelName :: "string \<Rightarrow> string" where
  "bareModelName s = (if CHR ''/'' \<in> set s then tl (dropWhile (\<lambda>ch. ch \<noteq> CHR ''/'') s) else s)"

definition conn_saturated :: "string \<Rightarrow> string \<Rightarrow> time \<Rightarrow> buckets_map \<Rightarrow> bool \<times> buckets_map" where
  "conn_saturated c model now m =
     (let (a, m1) = isBucketSaturated c ''5h'' now m in
      if a then (True, m1)
      else let (b, m2) = isBucketSaturated c ''7d'' now m1 in
           if b then (True, m2)
           else if model \<noteq> [] then isBucketSaturated c (''7d:'' @ model) now m2
           else (False, m2))"

fun eligible_loop :: "string \<Rightarrow> time \<Rightarrow> target list \<Rightarrow> buckets_map \<Rightarrow> target list \<times> buckets_map" where
  "eligible_loop model now [] m = ([], m)"
| "eligible_loop model now (t # ts) m =
     (let (sat, m1) = (if conn_of t = [] then (False, m) else conn_saturated (conn_of t) model now m);
          (el, m2) = eligible_loop model now ts m1
      in (if sat then el else t # el, m2))"

definition filterEligibleBySaturation ::
  "target list \<Rightarrow> string \<Rightarrow> time \<Rightarrow> buckets_map \<Rightarrow> target list \<times> buckets_map" where
  "filterEligibleBySaturation ts modelStr now m =
     (let (el, m1) = eligible_loop (bareModelName modelStr) now ts m
      in (if el \<noteq> [] then el else ts, m1))"

definition resolveConnectionCap :: "string \<Rightarrow> (string \<times> jsval) list option \<Rightarrow> rat option" where
  "resolveConnectionCap c caps =
     (case caps of
        None \<Rightarrow> None
      | Some cs \<Rightarrow>
          if c = [] then None
          else (case map_of cs c of
                  Some (Num cap) \<Rightarrow> if cap \<le> 0 then None else Some cap
                | _ \<Rightarrow> None))"

fun partition_loop ::
  "(string \<times> jsval) list option \<Rightarrow> time \<Rightarrow> target list \<Rightarrow> inflight \<Rightarrow> target list \<times> target list \<times> inflight" where
  "partition_loop caps now [] m = ([], [], m)"
| "partition_loop caps now (t # ts) m =
     (case resolveConnectionCap (conn_of t) caps of
        None \<Rightarrow> (let (room, full, m') = partition_loop caps now ts m in (t # room, full, m'))
      | Some cap \<Rightarrow>
          (let (n, m1) = getInflight (conn_of t) now m;
               (room, full, m') = partition_loop caps now ts m1
           in if of_nat n \<ge> cap then (room, t # full, m') else (t # room, full, m')))"

definition partitionByConcurrencyCap ::
  "target list \<Rightarrow> (string \<times> jsval) list option \<Rightarrow> time \<Rightarrow> inflight
   \<Rightarrow> target list \<times> target list \<times> inflight" where
  "partitionByConcurrencyCap ts caps now m =
     (if caps = None \<or> caps = Some [] then (ts, [], m)
      else let (room, full, m') = partition_loop caps now ts m
           in if room = [] then (ts, [], m') else (room, full, m'))"

section \<open>Deficit round robin\<close>

definition normalizeWeight :: "jsval \<Rightarrow> rat" where
  "normalizeWeight w = (case w of Num r \<Rightarrow> if r = 0 then 0 else if r > 0 then r else 1 | _ \<Rightarrow> 1)"

definition getDrrDeficits :: "string \<Rightarrow> (string \<times> deficits) list \<Rightarrow> deficits \<times> (string \<times> deficits) list" where
  "getDrrDeficits combo m =
     (case map_of m combo of
        Some d \<Rightarrow> (d, m)
      | None \<Rightarrow> ([], map_set combo [] (if length m \<ge> MAX_DRR_COMBOS then map_evict_oldest m else m)))"

definition deficit :: "deficits \<Rightarrow> string \<Rightarrow> rat" where
  "deficit d k = nullish (map_of d k) 0"

definition add_quanta :: "target list \<Rightarrow> deficits \<Rightarrow> deficits" where
  "add_quanta ts d =
     fold (\<lambda>t d. map_set (executionKey t)
            (deficit d (executionKey t) + normalizeWeight (weight t) / sum_list (map (normalizeWeight \<circ> weight) ts)) d)
       ts d"

fun best_of :: "deficits \<Rightarrow> target \<Rightarrow> rat \<Rightarrow> target list \<Rightarrow> target \<times> rat" where
  "best_of d w best [] = (w, best)"
| "best_of d w best (t # ts) =
     (let x = deficit d (executionKey t)
      in if x > best then best_of d t x ts else best_of d w best ts)"

definition drr_round :: "target list \<Rightarrow> deficits \<Rightarrow> target \<times> deficits" where
  "drr_round ts d =
     (let d1 = add_quanta ts d;
          (w, best) = best_of d1 (hd ts) (deficit d1 (executionKey (hd ts))) (tl ts)
      in (w, map_set (executionKey w) (best - 1) d1))"

definition applyDrr ::
  "target list \<Rightarrow> string \<Rightarrow> (string \<times> deficits) list \<Rightarrow> target list \<times> (string \<times> deficits) list" where
  "applyDrr ts combo m =
     (if length ts \<le> 1 then (ts, m)
      else let (d, m1) = getDrrDeficits combo m in
           if sum_list (map (normalizeWeight \<circ> weight) ts) \<le> 0 then (ts, m1)
           else let (w, d') = drr_round ts d
                in (w # filter (\<lambda>t. executionKey t \<noteq> executionKey w) ts, map_set combo d' m1))"

section \<open>Selection\<close>

definition pickByInflightP2C :: "target \<Rightarrow> target \<Rightarrow> time \<Rightarrow> inflight \<Rightarrow> bool \<times> inflight" where
  "pickByInflightP2C a b now m =
     (let (la, m1) = getInflight (conn_of a) now m; (lb, m2) = getInflight (conn_of b) now m1
      in (lb < la, m2))"

text \<open>The winner first: the runner-up is swapped to the front when it is less loaded.\<close>

definition p2c_order :: "target list \<Rightarrow> time \<Rightarrow> inflight \<Rightarrow> target list \<times> inflight" where
  "p2c_order ordered now m =
     (case ordered of
        a # b # rest \<Rightarrow>
          (let (second, m1) = pickByInflightP2C a b now m
           in (if second then b # a # rest else ordered, m1))
      | _ \<Rightarrow> (ordered, m))"

definition selectQuotaShareTarget ::
  "target list \<Rightarrow> string \<Rightarrow> string \<Rightarrow> time \<Rightarrow> (string \<times> jsval) list option \<Rightarrow> quota_state
   \<Rightarrow> selection \<times> quota_state" where
  "selectQuotaShareTarget ts combo modelStr now caps s =
     (if ts = [] then (\<lparr>sel_target = None, orderedTargets = [], sel_release = None\<rparr>, s)
      else
        let (eligible, bk) = filterEligibleBySaturation ts modelStr now (q_buckets s);
            saturated = filter (\<lambda>t. t \<notin> set eligible) ts;
            (withRoom, atCap, m1) = partitionByConcurrencyCap eligible caps now (q_inflight s);
            (ordered, drr) = applyDrr withRoom combo (drrState s);
            (picked, m2) = p2c_order ordered now m1;
            c = conn_of (hd picked);
            m3 = (if c \<noteq> [] then snd (incrementInflight c DEFAULT_LEASE_MS now m2) else m2)
        in (\<lparr>sel_target = Some (hd picked), orderedTargets = picked @ atCap @ saturated,
             sel_release = (if c \<noteq> [] then Some (c, now) else None)\<rparr>,
            \<lparr>q_buckets = bk, q_inflight = m3, drrState = drr\<rparr>))"

text \<open>The body of the \<open>release\<close> callback.\<close>

definition release_selection :: "selection \<Rightarrow> quota_state \<Rightarrow> quota_state" where
  "release_selection sel s =
     (case sel_release sel of
        None \<Rightarrow> s | Some (c, now) \<Rightarrow> s\<lparr>q_inflight := decrementInflight c now (q_inflight s)\<rparr>)"

section \<open>What the gates compute\<close>

text \<open>Saturated, and at the cap, at the time of the selection.\<close>

definition is_saturated :: "string \<Rightarrow> time \<Rightarrow> buckets_map \<Rightarrow> target \<Rightarrow> bool" where
  "is_saturated model now m t \<longleftrightarrow> conn_of t \<noteq> []
     \<and> (saturated_at (conn_of t) ''5h'' now m \<or> saturated_at (conn_of t) ''7d'' now m
        \<or> (model \<noteq> [] \<and> saturated_at (conn_of t) (''7d:'' @ model) now m))"

definition at_cap :: "(string \<times> jsval) list option \<Rightarrow> time \<Rightarrow> inflight \<Rightarrow> target \<Rightarrow> bool" where
  "at_cap caps now m t \<longleftrightarrow> (case resolveConnectionCap (conn_of t) caps of
     None \<Rightarrow> False | Some cap \<Rightarrow> of_nat (load_at m (conn_of t) now) \<ge> cap)"

lemma read_same: "saturated_at c' w' now (snd (isBucketSaturated c w now m)) = saturated_at c' w' now m"
  by (rule read_transparent) simp

lemma conn_saturated_spec:
  "conn_of t \<noteq> [] \<Longrightarrow> fst (conn_saturated (conn_of t) model now m) = is_saturated model now m t"
  "is_saturated model now (snd (conn_saturated c model now m)) t' = is_saturated model now m t'"
  by (auto simp: conn_saturated_def is_saturated_def split_beta Let_def isBucketSaturated_fst read_same)

lemma eligible_loop_spec: "fst (eligible_loop model now ts m) = filter (\<lambda>t. \<not> is_saturated model now m t) ts"
proof (induction ts arbitrary: m)
  case (Cons t ts)
  show ?case
  proof (cases "conn_of t = []")
    case True
    then show ?thesis using Cons by (simp add: split_beta Let_def is_saturated_def)
  next
    case False
    then show ?thesis using Cons by (simp add: split_beta Let_def conn_saturated_spec)
  qed
qed simp

lemma at_cap_get: "at_cap caps now (snd (getInflight c now m)) = at_cap caps now m"
  using getInflight_spec [of c now m now] by (auto simp: at_cap_def fun_eq_iff split: option.splits)

lemma partition_loop_spec: "partition_loop caps now ts m = (r, f, m') \<Longrightarrow>
    r = filter (\<lambda>t. \<not> at_cap caps now m t) ts \<and> f = filter (at_cap caps now m) ts"
proof (induction ts arbitrary: m r f m')
  case (Cons t ts)
  show ?case
  proof (cases "resolveConnectionCap (conn_of t) caps")
    case None
    obtain r1 f1 m1 where l: "partition_loop caps now ts m = (r1, f1, m1)"
      by (cases "partition_loop caps now ts m") auto
    have "\<not> at_cap caps now m t" using None by (simp add: at_cap_def)
    then show ?thesis using Cons.prems None l Cons.IH [OF l] by (simp add: Let_def)
  next
    case (Some cap)
    obtain r1 f1 m1 where l: "partition_loop caps now ts (snd (getInflight (conn_of t) now m)) = (r1, f1, m1)"
      by (cases "partition_loop caps now ts (snd (getInflight (conn_of t) now m))") auto
    note IH = Cons.IH [OF l, unfolded at_cap_get]
    have "at_cap caps now m t \<longleftrightarrow> of_nat (fst (getInflight (conn_of t) now m)) \<ge> cap"
      using getInflight_spec [of "conn_of t" now m now] Some by (simp add: at_cap_def)
    then show ?thesis using Cons.prems Some l IH by (simp add: split_beta Let_def split: if_splits)
  qed
qed simp

text \<open>The first tier of a list, or all of it: both gates fail open in the same way.\<close>

definition tier :: "('a \<Rightarrow> bool) \<Rightarrow> 'a list \<Rightarrow> 'a list" where
  "tier bad ts = (if \<exists>t \<in> set ts. \<not> bad t then filter (\<lambda>t. \<not> bad t) ts else ts)"

definition rest_tier :: "('a \<Rightarrow> bool) \<Rightarrow> 'a list \<Rightarrow> 'a list" where
  "rest_tier bad ts = (if \<exists>t \<in> set ts. \<not> bad t then filter bad ts else [])"

lemma tier_mset: "mset (tier bad ts) + mset (rest_tier bad ts) = mset ts"
  by (simp add: tier_def rest_tier_def)

lemma tier_Nil [simp]: "tier bad ts = [] \<longleftrightarrow> ts = []"
  by (auto simp: tier_def filter_empty_conv)

lemma tier_good: "t \<in> set (tier bad ts) \<Longrightarrow> t' \<in> set ts \<Longrightarrow> \<not> bad t' \<Longrightarrow> \<not> bad t \<and> t \<in> set ts"
  by (auto simp: tier_def split: if_splits)

lemma tier_subset: "set (tier bad ts) \<subseteq> set ts"
  by (auto simp: tier_def)

lemma eligible_spec: "fst (filterEligibleBySaturation ts modelStr now m)
    = tier (is_saturated (bareModelName modelStr) now m) ts"
  by (auto simp: filterEligibleBySaturation_def split_beta Let_def eligible_loop_spec tier_def filter_empty_conv)

lemma outside_tier: "filter (\<lambda>t. t \<notin> set (tier bad ts)) ts = rest_tier bad ts"
  by (auto simp: tier_def rest_tier_def intro!: filter_cong)

lemma partition_spec: "partitionByConcurrencyCap ts caps now m = (r, f, m') \<Longrightarrow>
    r = tier (at_cap caps now m) ts \<and> f = rest_tier (at_cap caps now m) ts"
proof (cases "caps = None \<or> caps = Some []")
  case True
  then have "\<not> at_cap caps now m t" for t
    by (cases "conn_of t = []") (auto simp: at_cap_def resolveConnectionCap_def)
  moreover assume "partitionByConcurrencyCap ts caps now m = (r, f, m')"
  ultimately show ?thesis using True by (auto simp: partitionByConcurrencyCap_def tier_def rest_tier_def)
next
  case False
  assume p: "partitionByConcurrencyCap ts caps now m = (r, f, m')"
  obtain r1 f1 m1 where l: "partition_loop caps now ts m = (r1, f1, m1)"
    by (cases "partition_loop caps now ts m") auto
  show ?thesis using p False partition_loop_spec [OF l] l
    by (auto simp: partitionByConcurrencyCap_def tier_def rest_tier_def filter_empty_conv split: if_splits)
qed

lemma partition_loads: assumes "partitionByConcurrencyCap ts caps now m = (r, f, m')" and "now \<le> t"
  shows "load_at m' c t = load_at m c t"
proof -
  have loop: "load_at m' c t = load_at m c t" if "partition_loop caps now ts m = (r, f, m')" for r f m' m
    using that
  proof (induction ts arbitrary: m r f m')
    case (Cons x ts)
    have get: "load_at (snd (getInflight (conn_of x) now m)) c t = load_at m c t"
      using getInflight_spec [of "conn_of x" now m t c] assms(2) by blast
    show ?case
    proof (cases "resolveConnectionCap (conn_of x) caps")
      case None
      then show ?thesis using Cons by (auto simp: Let_def split: prod.splits)
    next
      case (Some cap)
      obtain r1 f1 m1 where l: "partition_loop caps now ts (snd (getInflight (conn_of x) now m)) = (r1, f1, m1)"
        by (cases "partition_loop caps now ts (snd (getInflight (conn_of x) now m))") auto
      then show ?thesis
        using Cons.prems Some Cons.IH [OF l] get by (simp add: split_beta Let_def split: if_splits)
    qed
  qed simp
  show ?thesis using assms(1) loop by (auto simp: partitionByConcurrencyCap_def split: if_splits prod.splits)
qed

section \<open>The round robin\<close>

abbreviation keys :: "target list \<Rightarrow> string list" where
  "keys ts \<equiv> map executionKey ts"

abbreviation total_weight :: "target list \<Rightarrow> rat" where
  "total_weight ts \<equiv> sum_list (map (normalizeWeight \<circ> weight) ts)"

definition quantum :: "target list \<Rightarrow> target \<Rightarrow> rat" where
  "quantum ts t = normalizeWeight (weight t) / total_weight ts"

lemma deficit_set [simp]: "deficit (map_set k x d) k' = (if k' = k then x else deficit d k')"
  by (simp add: deficit_def)

lemma normalizeWeight_nonneg [simp]: "0 \<le> normalizeWeight w"
  by (simp add: normalizeWeight_def split: jsval.splits)

lemma add_quanta_spec: assumes "distinct (keys ts)"
  shows "deficit (add_quanta ts d) k = deficit d k
    + (case map_of (map (\<lambda>t. (executionKey t, t)) ts) k of None \<Rightarrow> 0 | Some t \<Rightarrow> quantum ts t)"
proof -
  have "deficit (fold (\<lambda>t d. map_set (executionKey t) (deficit d (executionKey t) + q t) d) us d) k = deficit d k
    + (case map_of (map (\<lambda>t. (executionKey t, t)) us) k of None \<Rightarrow> 0 | Some t \<Rightarrow> q t)"
    if "distinct (keys us)" for us q
    using that
  proof (induction us arbitrary: d)
    case (Cons u us)
    then have "map_of (map (\<lambda>t. (executionKey t, t)) us) (executionKey u) = None"
      by (auto simp: map_of_eq_None_iff)
    then show ?case using Cons by (auto split: option.splits)
  qed simp
  from this [OF assms, of "quantum ts"] show ?thesis by (simp add: add_quanta_def quantum_def)
qed

lemma best_of_spec: "best_of d w b ts = (w', b') \<Longrightarrow> b = deficit d (executionKey w) \<Longrightarrow>
    w' \<in> set (w # ts) \<and> b' = deficit d (executionKey w') \<and> (\<forall>t \<in> set (w # ts). deficit d (executionKey t) \<le> b')"
proof (induction ts arbitrary: w b)
  case (Cons t ts)
  show ?case
  proof (cases "deficit d (executionKey t) > b")
    case True
    then show ?thesis using Cons.IH [of t "deficit d (executionKey t)"] Cons.prems by (auto simp: Let_def)
  next
    case False
    then show ?thesis using Cons.IH [of w b] Cons.prems by (auto simp: Let_def)
  qed
qed simp

lemma drr_round_spec: assumes "ts \<noteq> []" and "drr_round ts d = (w, d')"
  shows "w \<in> set ts
    \<and> (\<forall>t \<in> set ts. deficit (add_quanta ts d) (executionKey t) \<le> deficit (add_quanta ts d) (executionKey w))
    \<and> (\<forall>k. deficit d' k = deficit (add_quanta ts d) k - (if k = executionKey w then 1 else 0))"
proof -
  obtain w1 b where b: "best_of (add_quanta ts d) (hd ts) (deficit (add_quanta ts d) (executionKey (hd ts))) (tl ts) = (w1, b)"
    by fastforce
  have ts: "hd ts # tl ts = ts" using assms(1) by simp
  have "w1 = w" "d' = map_set (executionKey w) (b - 1) (add_quanta ts d)"
    using assms(2) b by (auto simp: drr_round_def Let_def)
  moreover note best_of_spec [OF b refl, unfolded ts]
  ultimately show ?thesis by auto
qed

lemma mset_winner_first: assumes "distinct (keys ts)" and "w \<in> set ts"
  shows "mset (w # filter (\<lambda>t. executionKey t \<noteq> executionKey w) ts) = mset ts"
  using assms
proof (induction ts)
  case (Cons t ts)
  show ?case
  proof (cases "w = t")
    case True
    then have "filter (\<lambda>u. executionKey u \<noteq> executionKey w) ts = ts"
      using Cons.prems by (auto simp: filter_id_conv image_iff)
    then show ?thesis using True by simp
  next
    case False
    then have "w \<in> set ts" "executionKey t \<noteq> executionKey w" using Cons.prems by (auto simp: image_iff)
    then show ?thesis using Cons by simp
  qed
qed simp

lemma applyDrr_mset: assumes "distinct (keys ts)" shows "mset (fst (applyDrr ts combo m)) = mset ts"
proof (cases "length ts \<le> 1 \<or> total_weight ts \<le> 0")
  case False
  obtain w d' where r: "drr_round ts (fst (getDrrDeficits combo m)) = (w, d')" by fastforce
  have "ts \<noteq> []" using False by auto
  from drr_round_spec [OF this r] have "w \<in> set ts" by blast
  from mset_winner_first [OF assms this] show ?thesis
    using False r by (simp add: applyDrr_def split_beta Let_def)
qed (auto simp: applyDrr_def split_beta Let_def)

lemma p2c_mset: "mset (fst (p2c_order ts now m)) = mset ts"
  by (auto simp: p2c_order_def split: list.splits prod.splits)

lemma distinct_keys_tier: "distinct (keys ts) \<Longrightarrow> distinct (keys (tier bad ts))"
  by (induction ts) (auto simp: tier_def distinct_map_filter)

text \<open>The selection, with its gates resolved: \<open>room\<close> are the candidates of the round robin.\<close>

definition room_for :: "target list \<Rightarrow> string \<Rightarrow> time \<Rightarrow> (string \<times> jsval) list option \<Rightarrow> quota_state \<Rightarrow> target list" where
  "room_for ts modelStr now caps s =
     tier (at_cap caps now (q_inflight s)) (tier (is_saturated (bareModelName modelStr) now (q_buckets s)) ts)"

lemma select_spec:
  assumes "ts \<noteq> []"
  obtains picked m1 where "picked = fst (p2c_order (fst (applyDrr (room_for ts modelStr now caps s) combo (drrState s))) now m1)"
    and "\<forall>c t. now \<le> t \<longrightarrow> load_at m1 c t = load_at (q_inflight s) c t"
    and "sel_target (fst (selectQuotaShareTarget ts combo modelStr now caps s)) = Some (hd picked)"
    and "orderedTargets (fst (selectQuotaShareTarget ts combo modelStr now caps s)) = picked
        @ rest_tier (at_cap caps now (q_inflight s)) (tier (is_saturated (bareModelName modelStr) now (q_buckets s)) ts)
        @ rest_tier (is_saturated (bareModelName modelStr) now (q_buckets s)) ts"
    and "drrState (snd (selectQuotaShareTarget ts combo modelStr now caps s))
        = snd (applyDrr (room_for ts modelStr now caps s) combo (drrState s))"
proof -
  let ?el = "tier (is_saturated (bareModelName modelStr) now (q_buckets s)) ts"
  obtain r f m1 where p: "partitionByConcurrencyCap ?el caps now (q_inflight s) = (r, f, m1)"
    by (cases "partitionByConcurrencyCap ?el caps now (q_inflight s)") auto
  obtain bk where e: "filterEligibleBySaturation ts modelStr now (q_buckets s) = (?el, bk)"
    using eligible_spec by (metis prod.collapse)
  obtain ord d where a: "applyDrr r combo (drrState s) = (ord, d)" by fastforce
  obtain pk m2 where q: "p2c_order ord now m1 = (pk, m2)" by fastforce
  have r: "r = room_for ts modelStr now caps s" and f: "f = rest_tier (at_cap caps now (q_inflight s)) ?el"
    using partition_spec [OF p] by (simp_all add: room_for_def)
  have 1: "pk = fst (p2c_order (fst (applyDrr (room_for ts modelStr now caps s) combo (drrState s))) now m1)"
    using a q by (simp flip: r)
  have 2: "\<forall>c t. now \<le> t \<longrightarrow> load_at m1 c t = load_at (q_inflight s) c t"
    using partition_loads [OF p] by blast
  have "selectQuotaShareTarget ts combo modelStr now caps s =
     (\<lparr>sel_target = Some (hd pk), orderedTargets = pk @ f @ rest_tier (is_saturated (bareModelName modelStr) now (q_buckets s)) ts,
       sel_release = (if conn_of (hd pk) \<noteq> [] then Some (conn_of (hd pk), now) else None)\<rparr>,
      \<lparr>q_buckets = bk,
       q_inflight = (if conn_of (hd pk) \<noteq> [] then snd (incrementInflight (conn_of (hd pk)) DEFAULT_LEASE_MS now m2) else m2),
       drrState = d\<rparr>)"
    unfolding selectQuotaShareTarget_def Let_def e p prod.case a q outside_tier using assms by simp
  moreover have "d = snd (applyDrr (room_for ts modelStr now caps s) combo (drrState s))"
    using a by (simp flip: r)
  ultimately show thesis by (intro that [OF 1 2]) (simp_all add: f)
qed

text \<open>
  C24. Selection reorders, it never loses a target: when the execution keys are distinct, the dispatch
  list is a permutation of the targets, headed by the selected one. A saturated or full connection is
  a later fallback, not an excluded one.
\<close>

theorem selection_is_permutation:
  assumes "ts \<noteq> []" and "distinct (keys ts)"
  shows "mset (orderedTargets (fst (selectQuotaShareTarget ts combo modelStr now caps s))) = mset ts
    \<and> sel_target (fst (selectQuotaShareTarget ts combo modelStr now caps s))
      = Some (hd (orderedTargets (fst (selectQuotaShareTarget ts combo modelStr now caps s))))"
proof -
  let ?bad = "is_saturated (bareModelName modelStr) now (q_buckets s)"
  let ?full = "at_cap caps now (q_inflight s)"
  obtain picked m1 where p: "picked = fst (p2c_order (fst (applyDrr (room_for ts modelStr now caps s) combo (drrState s))) now m1)"
    and t: "sel_target (fst (selectQuotaShareTarget ts combo modelStr now caps s)) = Some (hd picked)"
    and o: "orderedTargets (fst (selectQuotaShareTarget ts combo modelStr now caps s))
      = picked @ rest_tier ?full (tier ?bad ts) @ rest_tier ?bad ts"
    by (rule select_spec [OF assms(1)])
  have "distinct (keys (room_for ts modelStr now caps s))"
    unfolding room_for_def by (intro distinct_keys_tier assms(2))
  then have m: "mset picked = mset (room_for ts modelStr now caps s)"
    unfolding p p2c_mset by (rule applyDrr_mset)
  then have "mset (picked @ rest_tier ?full (tier ?bad ts)) = mset (tier ?bad ts)"
    using tier_mset [of ?full "tier ?bad ts"] by (simp add: room_for_def)
  then have "mset (picked @ rest_tier ?full (tier ?bad ts) @ rest_tier ?bad ts) = mset ts"
    using tier_mset [of ?bad ts] by (metis append.assoc mset_append)
  moreover have "picked \<noteq> []"
  proof
    assume "picked = []"
    then have "room_for ts modelStr now caps s = []" using m by simp
    then show False using assms(1) by (simp add: room_for_def)
  qed
  ultimately show ?thesis by (simp add: t o)
qed

definition tgt :: "string \<Rightarrow> rat \<Rightarrow> target" where
  "tgt k w = \<lparr>executionKey = k, connectionId = Some k, weight = Num w\<rparr>"

definition fresh_state :: quota_state where
  "fresh_state = \<lparr>q_buckets = [], q_inflight = [], drrState = []\<rparr>"

lemma selection_is_permutation_witness:
  "mset (orderedTargets (fst (selectQuotaShareTarget [tgt ''a'' 1, tgt ''b'' 2] ''c'' ''p/m'' 5
     (Some [(''a'', Num 1)]) (fresh_state\<lparr>q_inflight := [(''a'', [100])]\<rparr>)))) = mset [tgt ''a'' 1, tgt ''b'' 2]"
  using selection_is_permutation [of "[tgt ''a'' 1, tgt ''b'' 2]" "''c''" "''p/m''" 5 "Some [(''a'', Num 1)]"]
  by (simp add: tgt_def)

text \<open>
  The winner comes from the best tier. While some target is not saturated the selected one is not;
  and while some unsaturated target is below its connection's concurrency cap, the selected one is
  too. (If a whole tier is empty, the gate fails open.)
\<close>

theorem winner_from_best_tier:
  assumes "distinct (keys ts)" and "sel_target (fst (selectQuotaShareTarget ts combo modelStr now caps s)) = Some w"
    and "t \<in> set ts" and "\<not> is_saturated (bareModelName modelStr) now (q_buckets s) t"
  shows "\<not> is_saturated (bareModelName modelStr) now (q_buckets s) w
    \<and> (\<not> at_cap caps now (q_inflight s) t \<longrightarrow> \<not> at_cap caps now (q_inflight s) w)"
proof -
  let ?bad = "is_saturated (bareModelName modelStr) now (q_buckets s)"
  let ?full = "at_cap caps now (q_inflight s)"
  have ne: "ts \<noteq> []" using assms(3) by auto
  obtain picked m1 where p: "picked = fst (p2c_order (fst (applyDrr (room_for ts modelStr now caps s) combo (drrState s))) now m1)"
    and w: "sel_target (fst (selectQuotaShareTarget ts combo modelStr now caps s)) = Some (hd picked)"
    by (rule select_spec [OF ne, of modelStr now caps s combo])
  have "distinct (keys (room_for ts modelStr now caps s))"
    unfolding room_for_def by (intro distinct_keys_tier assms(1))
  then have m: "mset picked = mset (room_for ts modelStr now caps s)"
    unfolding p p2c_mset by (rule applyDrr_mset)
  then have "picked \<noteq> []" using ne by (auto simp: room_for_def)
  then have "w \<in> set picked" using w assms(2) by (cases picked) auto
  then have room: "w \<in> set (tier ?full (tier ?bad ts))"
    using m by (metis mset_eq_setD room_for_def)
  then have el: "w \<in> set (tier ?bad ts)" by (rule subsetD [OF tier_subset])
  have "t \<in> set (tier ?bad ts)" using assms(3,4) by (auto simp: tier_def)
  from tier_good [OF room this] tier_good [OF el assms(3,4)] show ?thesis by simp
qed

lemma winner_from_best_tier_witness:
  "\<not> at_cap (Some [(''a'', Num 1)]) 5 [(''a'', [100])]
     (the (sel_target (fst (selectQuotaShareTarget [tgt ''a'' 3, tgt ''b'' 1] ''c'' ''p/m'' 5
       (Some [(''a'', Num 1)]) (fresh_state\<lparr>q_inflight := [(''a'', [100])]\<rparr>)))))"
proof -
  have "sel_target (fst (selectQuotaShareTarget [tgt ''a'' 3, tgt ''b'' 1] ''c'' ''p/m'' 5
       (Some [(''a'', Num 1)]) (fresh_state\<lparr>q_inflight := [(''a'', [100])]\<rparr>))) = Some (tgt ''b'' 1)"
    and "\<not> is_saturated (bareModelName ''p/m'') 5 (q_buckets (fresh_state\<lparr>q_inflight := [(''a'', [100])]\<rparr>)) (tgt ''b'' 1)"
    and "\<not> at_cap (Some [(''a'', Num 1)]) 5 (q_inflight (fresh_state\<lparr>q_inflight := [(''a'', [100])]\<rparr>)) (tgt ''b'' 1)"
    by code_simp+
  then show ?thesis
    using winner_from_best_tier [of "[tgt ''a'' 3, tgt ''b'' 1]" "''c''" "''p/m''" 5 "Some [(''a'', Num 1)]"
        "fresh_state\<lparr>q_inflight := [(''a'', [100])]\<rparr>" "tgt ''b'' 1" "tgt ''b'' 1"]
    by (simp add: tgt_def)
qed

section \<open>Proportional service\<close>

text \<open>The winners of \<open>n\<close> rounds over the same targets.\<close>

fun drr_serve :: "nat \<Rightarrow> target list \<Rightarrow> string \<Rightarrow> (string \<times> deficits) list \<Rightarrow> target list \<times> (string \<times> deficits) list" where
  "drr_serve 0 ts combo m = ([], m)"
| "drr_serve (Suc n) ts combo m =
     (let (ws, m1) = drr_serve n ts combo m; (ordered, m2) = applyDrr ts combo m1
      in (ws @ [hd ordered], m2))"

definition served :: "target list \<Rightarrow> target \<Rightarrow> rat" where
  "served ws t = of_nat (length (filter (\<lambda>w. executionKey w = executionKey t) ws))"

definition deficit_of :: "(string \<times> deficits) list \<Rightarrow> string \<Rightarrow> target \<Rightarrow> rat" where
  "deficit_of m combo t = deficit (fst (getDrrDeficits combo m)) (executionKey t)"

lemma sum_quantum: "0 < total_weight ts \<Longrightarrow> sum_list (map (quantum ts) ts) = 1"
proof -
  assume "0 < total_weight ts"
  moreover have "sum_list (map (\<lambda>t. normalizeWeight (weight t) / W) us) = sum_list (map (normalizeWeight \<circ> weight) us) / W"
    for us :: "target list" and W :: rat
    by (induction us) (simp_all add: add_divide_distrib)
  ultimately show ?thesis by (simp add: quantum_def [abs_def])
qed

lemma deficit_after_quanta: assumes "distinct (keys ts)" and "t \<in> set ts"
  shows "deficit (add_quanta ts d) (executionKey t) = deficit d (executionKey t) + quantum ts t"
proof -
  have "map_of (map (\<lambda>t. (executionKey t, t)) ts) (executionKey t) = Some t"
    using assms by (intro map_of_is_SomeI) (auto simp: comp_def)
  then show ?thesis using add_quanta_spec [OF assms(1), of d "executionKey t"] by simp
qed

text \<open>One round over a whole list: who is charged, and what it leaves.\<close>

lemma drr_step:
  assumes "distinct (keys ts)" and "1 < length ts" and "0 < total_weight ts" and "applyDrr ts combo m = (ordered, m')"
  shows "hd ordered \<in> set ts
    \<and> (\<forall>t \<in> set ts. deficit_of m' combo t = deficit_of m combo t + quantum ts t - (if t = hd ordered then 1 else 0))
    \<and> (\<forall>t \<in> set ts. deficit_of m combo t + quantum ts t \<le> deficit_of m combo (hd ordered) + quantum ts (hd ordered))"
proof -
  let ?d = "fst (getDrrDeficits combo m)"
  obtain w d' where r: "drr_round ts ?d = (w, d')" by fastforce
  have ne: "ts \<noteq> []" using assms(2) by auto
  have o: "ordered = w # filter (\<lambda>t. executionKey t \<noteq> executionKey w) ts"
    and m': "m' = map_set combo d' (snd (getDrrDeficits combo m))"
    using assms(2-4) r by (auto simp: applyDrr_def split_beta Let_def not_le)
  note spec = drr_round_spec [OF ne r]
  have "deficit_of m' combo t = deficit d' (executionKey t)" for t
    by (simp add: deficit_of_def m' getDrrDeficits_def)
  moreover have "t = w \<longleftrightarrow> executionKey t = executionKey w" if "t \<in> set ts" for t
    using that spec assms(1) by (auto simp: distinct_map inj_on_def)
  moreover have w: "w \<in> set ts" using spec by blast
  moreover have "deficit (add_quanta ts ?d) (executionKey w) = deficit ?d (executionKey w) + quantum ts w"
    by (rule deficit_after_quanta [OF assms(1) w])
  ultimately show ?thesis
    using spec by (auto simp: o deficit_after_quanta [OF assms(1)] deficit_of_def)
qed

definition drr_inv :: "target list \<Rightarrow> string \<Rightarrow> (string \<times> deficits) list \<Rightarrow> bool" where
  "drr_inv ts combo m \<longleftrightarrow> sum_list (map (deficit_of m combo) ts) = 0 \<and> (\<forall>t \<in> set ts. - 1 < deficit_of m combo t)"

lemma sum_list_no_indicator: "w \<notin> set ts \<Longrightarrow> (\<Sum>t\<leftarrow>ts. if t = w then 1 else (0 :: rat)) = 0"
  by (induction ts) auto

lemma sum_list_indicator: "distinct ts \<Longrightarrow> w \<in> set ts \<Longrightarrow>
    sum_list (map (\<lambda>t. f t - (if t = w then 1 else 0)) ts) = sum_list (map f ts) - (1 :: rat)"
  by (induction ts) (auto simp: algebra_simps sum_list_subtractf sum_list_no_indicator)

lemma sum_list_nonpos_rat: "\<forall>x \<in> set xs. x \<le> (0 :: rat) \<Longrightarrow> sum_list xs \<le> 0"
  by (induction xs) auto

lemma drr_inv_step:
  assumes "drr_inv ts combo m" and "distinct (keys ts)" and "1 < length ts" and "0 < total_weight ts"
    and "applyDrr ts combo m = (ordered, m')"
  shows "drr_inv ts combo m'"
proof -
  let ?w = "hd ordered"
  let ?up = "\<lambda>t. deficit_of m combo t + quantum ts t"
  note step = drr_step [OF assms(2-5)]
  have d: "distinct ts" using assms(2) by (simp add: distinct_map)
  have up: "sum_list (map ?up ts) = 1"
    using assms(1) sum_quantum [OF assms(4)] by (simp add: drr_inv_def sum_list_addf)
  have "sum_list (map (deficit_of m' combo) ts) = sum_list (map (\<lambda>t. ?up t - (if t = ?w then 1 else 0)) ts)"
    using step by (intro arg_cong [of _ _ sum_list] map_cong) auto
  also have "\<dots> = 0" using sum_list_indicator [OF d, of ?w ?up] step up by simp
  finally have sum: "sum_list (map (deficit_of m' combo) ts) = 0" .
  have "0 < ?up ?w"
  proof (rule ccontr)
    assume "\<not> 0 < ?up ?w"
    then have "\<forall>t \<in> set ts. ?up t \<le> 0" using step by fastforce
    then have "sum_list (map ?up ts) \<le> 0" by (intro sum_list_nonpos_rat) auto
    then show False using up by simp
  qed
  moreover have "0 \<le> quantum ts t" for t using assms(4) by (simp add: quantum_def)
  ultimately have "- 1 < deficit_of m' combo t" if "t \<in> set ts" for t
    using that step assms(1) by (cases "t = ?w") (auto simp: drr_inv_def intro: less_le_trans)
  then show ?thesis using sum by (simp add: drr_inv_def)
qed

lemma drr_serve_spec:
  assumes "distinct (keys ts)" and "1 < length ts" and "0 < total_weight ts" and "map_of m combo = None"
    and "drr_serve n ts combo m = (ws, m')"
  shows "drr_inv ts combo m' \<and> (\<forall>t \<in> set ts. deficit_of m' combo t = of_nat n * quantum ts t - served ws t)"
  using assms(5)
proof (induction n arbitrary: ws m')
  case 0
  have z: "deficit_of m combo = (\<lambda>_. 0)"
    using assms(4) by (simp add: fun_eq_iff deficit_of_def getDrrDeficits_def deficit_def)
  have "ws = []" "m' = m" using 0 by simp_all
  then show ?case by (simp add: drr_inv_def served_def z)
next
  case (Suc n)
  obtain ws1 m1 where s: "drr_serve n ts combo m = (ws1, m1)" by fastforce
  obtain ordered where a: "applyDrr ts combo m1 = (ordered, m')" and ws: "ws = ws1 @ [hd ordered]"
    using Suc.prems s by (auto simp: Let_def split: prod.splits)
  note IH = Suc.IH [OF s]
  note step = drr_step [OF assms(1-3) a]
  have "deficit_of m' combo t = of_nat (Suc n) * quantum ts t - served ws t" if "t \<in> set ts" for t
  proof -
    have "t = hd ordered \<longleftrightarrow> executionKey (hd ordered) = executionKey t"
      using that step assms(1) by (auto simp: distinct_map inj_on_def)
    then have "served ws t = served ws1 t + (if t = hd ordered then 1 else 0)"
      by (simp add: served_def ws)
    then show ?thesis using IH step that by (simp add: algebra_simps)
  qed
  moreover have "drr_inv ts combo m'" using drr_inv_step [OF _ assms(1-3) a] IH by blast
  ultimately show ?case by blast
qed

lemma sum_list_ge: "\<forall>t \<in> set ts. - 1 < f t \<Longrightarrow> ts \<noteq> [] \<Longrightarrow> - of_nat (length ts) < sum_list (map f ts :: rat list)"
proof (induction ts)
  case (Cons t ts)
  show ?case
  proof (cases "ts = []")
    case False
    then have "- of_nat (length ts) < sum_list (map f ts)" using Cons by simp
    moreover have "- 1 < f t" using Cons.prems by simp
    ultimately show ?thesis by simp
  qed (use Cons.prems in simp)
qed simp

text \<open>
  C6. Service is proportional to weight. Over any number \<open>n\<close> of rounds on the same candidates, starting
  from a combo without history, the round robin picks each target between \<open>n w / W - (N - 1)\<close> and
  \<open>n w / W + 1\<close> times (both bounds strict), \<open>w / W\<close> its share of the total weight and \<open>N\<close> the number
  of candidates: the error never grows with \<open>n\<close>. In particular a target of weight 0 is never picked.
\<close>

theorem drr_proportional:
  assumes "distinct (keys ts)" and "1 < length ts" and "0 < total_weight ts" and "map_of m combo = None"
    and "t \<in> set ts"
  shows "of_nat n * normalizeWeight (weight t) / total_weight ts - (of_nat (length ts) - 1)
      < served (fst (drr_serve n ts combo m)) t
    \<and> served (fst (drr_serve n ts combo m)) t < of_nat n * normalizeWeight (weight t) / total_weight ts + 1"
proof -
  obtain ws m' where s: "drr_serve n ts combo m = (ws, m')" by fastforce
  note spec = drr_serve_spec [OF assms(1-4) s]
  let ?d = "deficit_of m' combo"
  have eq: "?d t = of_nat n * quantum ts t - served ws t" using spec assms(5) by blast
  obtain us vs where ts: "ts = us @ t # vs" using split_list [OF assms(5)] by blast
  have sum: "?d t + sum_list (map ?d (us @ vs)) = 0"
    using spec by (simp add: drr_inv_def ts)
  have low: "\<forall>u \<in> set (us @ vs). - 1 < ?d u" and "- 1 < ?d t"
    using spec by (auto simp: drr_inv_def ts)
  have "us @ vs \<noteq> []" using assms(2) by (auto simp: ts)
  from sum_list_ge [OF low this] have "- of_nat (length (us @ vs)) < sum_list (map ?d (us @ vs))" .
  moreover have "of_nat (length (us @ vs)) = (of_nat (length ts) - 1 :: rat)" by (simp add: ts)
  ultimately have "?d t < of_nat (length ts) - 1" using sum by linarith
  then show ?thesis using eq \<open>- 1 < ?d t\<close> by (simp add: s quantum_def)
qed

lemma drr_proportional_witness:
  "served (fst (drr_serve 100 [tgt ''a'' 3, tgt ''b'' 1] ''c'' [])) (tgt ''a'' 3) > 74
    \<and> served (fst (drr_serve 100 [tgt ''a'' 3, tgt ''b'' 1] ''c'' [])) (tgt ''a'' 3) < 76"
  using drr_proportional [of "[tgt ''a'' 3, tgt ''b'' 1]" "[]" "''c''" "tgt ''a'' 3" 100]
  by (simp add: tgt_def normalizeWeight_def)

definition five_targets :: "target list" where
  "five_targets = [tgt ''z'' 0, tgt ''a'' 1, tgt ''b'' 1, tgt ''c'' 1, tgt ''d'' 1]"

definition two_saturated :: buckets_map where
  "two_saturated = map (\<lambda>c. (storeKey c ''5h'', \<lparr>b_saturated = True, resetsAtMs = 0\<rparr>)) [''c'', ''d'']"

definition serve_two :: quota_state where
  "serve_two = (let
      (x, s1) = selectQuotaShareTarget five_targets ''combo'' ''p/m'' 0 None fresh_state;
      (y, s2) = selectQuotaShareTarget five_targets ''combo'' ''p/m'' 1 None (release_selection x s1)
    in (release_selection y s2)\<lparr>q_buckets := two_saturated\<rparr>)"

text \<open>
  Weight 0 does not disable a target. The deficits of one combo survive a change of the candidate
  set: when the candidates left after the gates are those that were served last, their credit is
  negative, and a target of weight 0, whose deficit stays 0, is picked. Here four targets of weight 1
  and one of weight 0 run two rounds; then two connections saturate, and the next request goes to the
  target of weight 0.
\<close>

theorem zero_weight_target_selected:
  shows "normalizeWeight (weight (tgt ''z'' 0)) = 0
    \<and> sel_target (fst (selectQuotaShareTarget five_targets ''combo'' ''p/m'' 2 None serve_two)) = Some (tgt ''z'' 0)"
  by code_simp

text \<open>
  The round robin charges its own winner, not the target that gets the request. When the less loaded
  runner-up is preferred, the request goes to it, while the deficits move exactly as if the round
  robin's winner had been served.
\<close>

theorem p2c_charges_drr_winner:
  assumes "fst (applyDrr [a, b] combo (drrState s)) = [a, b]" and "room_for [a, b] modelStr now caps s = [a, b]"
    and "load_at (q_inflight s) (conn_of b) now < load_at (q_inflight s) (conn_of a) now"
  shows "sel_target (fst (selectQuotaShareTarget [a, b] combo modelStr now caps s)) = Some b
    \<and> drrState (snd (selectQuotaShareTarget [a, b] combo modelStr now caps s)) = snd (applyDrr [a, b] combo (drrState s))"
proof -
  obtain picked m1 where p: "picked = fst (p2c_order (fst (applyDrr (room_for [a, b] modelStr now caps s) combo (drrState s))) now m1)"
    and l: "\<forall>c t. now \<le> t \<longrightarrow> load_at m1 c t = load_at (q_inflight s) c t"
    and w: "sel_target (fst (selectQuotaShareTarget [a, b] combo modelStr now caps s)) = Some (hd picked)"
    and d: "drrState (snd (selectQuotaShareTarget [a, b] combo modelStr now caps s))
      = snd (applyDrr (room_for [a, b] modelStr now caps s) combo (drrState s))"
    by (rule select_spec [of "[a, b]" modelStr now caps s combo, OF list.distinct(2)])
  have "fst (pickByInflightP2C a b now m1)"
    using assms(3) l getInflight_spec [of "conn_of a" now m1 now "conn_of b"]
      getInflight_spec [of "conn_of b" now "snd (getInflight (conn_of a) now m1)"]
    by (simp add: pickByInflightP2C_def split_beta Let_def)
  then have "hd picked = b" by (simp add: p assms(1,2) p2c_order_def split_beta Let_def)
  then show ?thesis using w d assms(2) by simp
qed

definition a_busy :: quota_state where
  "a_busy = fresh_state\<lparr>q_inflight := [(''a'', [90000, 90001])]\<rparr>"

lemma p2c_charges_drr_winner_witness:
  "sel_target (fst (selectQuotaShareTarget [tgt ''a'' 9, tgt ''b'' 1] ''c'' ''p/m'' 5 None a_busy)) = Some (tgt ''b'' 1)
    \<and> drrState (snd (selectQuotaShareTarget [tgt ''a'' 9, tgt ''b'' 1] ''c'' ''p/m'' 5 None a_busy))
        = [(''c'', [(''a'', - (1/10)), (''b'', 1/10)])]"
proof -
  have "fst (applyDrr [tgt ''a'' 9, tgt ''b'' 1] ''c'' (drrState a_busy)) = [tgt ''a'' 9, tgt ''b'' 1]"
    and "room_for [tgt ''a'' 9, tgt ''b'' 1] ''p/m'' 5 None a_busy = [tgt ''a'' 9, tgt ''b'' 1]"
    and "load_at (q_inflight a_busy) (conn_of (tgt ''b'' 1)) 5 < load_at (q_inflight a_busy) (conn_of (tgt ''a'' 9)) 5"
    and d: "snd (applyDrr [tgt ''a'' 9, tgt ''b'' 1] ''c'' (drrState a_busy)) = [(''c'', [(''a'', - (1/10)), (''b'', 1/10)])]"
    by code_simp+
  from p2c_charges_drr_winner [OF this(1-3)] show ?thesis by (simp add: d)
qed

end
