(* ===== verification/QuotaStore.thy ===== *)
theory QuotaStore
  imports Prelude "HOL-Library.Sublist"
begin

text \<open>
  The consumption counters of the quota-sharing engine: the table \<open>quota_consumption\<close> with its
  primitives (\<open>src/src/lib/db/quotaConsumption.ts\<close>) and the sliding-window store built on them
  (\<open>src/src/lib/quota/sqliteQuotaStore.ts\<close>, keys and windows in \<open>dimensions.ts\<close>).

  The table is an association list from its primary key (API key, dimension key, bucket index) to the
  row; the \<open>INSERT ... ON CONFLICT DO UPDATE\<close> and the \<open>SELECT\<close>s are the corresponding list operations.
  A mutex per key makes every read-modify-write of the store one step. Consumption is rational, so the
  rounding of doubles is not modelled.

  The lemmas give the counter its meaning: what a key has used is the weighted history of its
  consumption, and what the pool has used is the sum over its keys.
\<close>

section \<open>Dimensions\<close>

datatype quota_unit = Percent | Requests | Tokens | Usd

datatype quota_window = FiveHours | Hourly | Daily | Weekly | Monthly

record dim_key =
  dk_pool :: string
  dk_unit :: quota_unit
  dk_window :: quota_window

fun WINDOW_MS :: "quota_window \<Rightarrow> int" where
  "WINDOW_MS Hourly = 60 * 60 * 1000"
| "WINDOW_MS FiveHours = 5 * 60 * 60 * 1000"
| "WINDOW_MS Daily = 24 * 60 * 60 * 1000"
| "WINDOW_MS Weekly = 7 * 24 * 60 * 60 * 1000"
| "WINDOW_MS Monthly = 30 * 24 * 60 * 60 * 1000"

fun unit_name :: "quota_unit \<Rightarrow> string" where
  "unit_name Percent = ''percent''" | "unit_name Requests = ''requests''"
| "unit_name Tokens = ''tokens''" | "unit_name Usd = ''usd''"

fun window_name :: "quota_window \<Rightarrow> string" where
  "window_name FiveHours = ''5h''" | "window_name Hourly = ''hourly''" | "window_name Daily = ''daily''"
| "window_name Weekly = ''weekly''" | "window_name Monthly = ''monthly''"

definition dimensionKeyToString :: "dim_key \<Rightarrow> string" where
  "dimensionKeyToString k = dk_pool k @ '':'' @ unit_name (dk_unit k) @ '':'' @ window_name (dk_window k)"

section \<open>The table\<close>

record bucket_row =
  consumed :: rat
  updated_at :: time

type_synonym consumption = "((string \<times> string \<times> int) \<times> bucket_row) list"

definition getBucket :: "string \<Rightarrow> string \<Rightarrow> int \<Rightarrow> consumption \<Rightarrow> rat" where
  "getBucket api dk b db = nullish (map_option consumed (map_of db (api, dk, b))) 0"

definition incrementBucket :: "string \<Rightarrow> string \<Rightarrow> int \<Rightarrow> rat \<Rightarrow> time \<Rightarrow> consumption \<Rightarrow> consumption" where
  "incrementBucket api dk b delta now db =
     map_set (api, dk, b) \<lparr>consumed = getBucket api dk b db + delta, updated_at = now\<rparr> db"

definition getPair :: "string \<Rightarrow> string \<Rightarrow> int \<Rightarrow> consumption \<Rightarrow> rat \<times> rat" where
  "getPair api dk b db = (getBucket api dk b db, getBucket api dk (b - 1) db)"

definition sum_bucket :: "string \<Rightarrow> int \<Rightarrow> consumption \<Rightarrow> rat" where
  "sum_bucket dk b db =
     sum_list (map (\<lambda>(_, r). consumed r) (filter (\<lambda>((_, d, i), _). d = dk \<and> i = b) db))"

definition sumPoolDimension :: "string \<Rightarrow> int \<Rightarrow> consumption \<Rightarrow> rat \<times> rat" where
  "sumPoolDimension dk b db = (sum_bucket dk b db, sum_bucket dk (b - 1) db)"

definition gcOlderThan :: "time \<Rightarrow> consumption \<Rightarrow> consumption" where
  "gcOlderThan maxUpdatedAt db = filter (\<lambda>(_, r). \<not> updated_at r < maxUpdatedAt) db"

section \<open>The store\<close>

definition slidingWindowEffective :: "rat \<Rightarrow> rat \<Rightarrow> time \<Rightarrow> int \<Rightarrow> rat" where
  "slidingWindowEffective cur prv now window =
     (let currentBucketStart = (now div window) * window;
          elapsed = now - currentBucketStart;
          weight = 1 - of_int elapsed / of_int window
      in prv * weight + cur)"

definition consume :: "time \<Rightarrow> string \<Rightarrow> dim_key \<Rightarrow> rat \<Rightarrow> consumption \<Rightarrow> rat \<times> consumption" where
  "consume now api dn cost db =
     (let dk = dimensionKeyToString dn; w = WINDOW_MS (dk_window dn); b = now div w;
          db1 = incrementBucket api dk b cost now db;
          (cur, prv) = getPair api dk b db1
      in (slidingWindowEffective cur prv now w, db1))"

definition peek :: "time \<Rightarrow> string \<Rightarrow> dim_key \<Rightarrow> consumption \<Rightarrow> rat" where
  "peek now api dn db =
     (let w = WINDOW_MS (dk_window dn);
          (cur, prv) = getPair api (dimensionKeyToString dn) (now div w) db
      in slidingWindowEffective cur prv now w)"

definition poolConsumedTotal :: "time \<Rightarrow> dim_key \<Rightarrow> consumption \<Rightarrow> rat" where
  "poolConsumedTotal now dn db =
     (let w = WINDOW_MS (dk_window dn);
          (cur, prv) = sumPoolDimension (dimensionKeyToString dn) (now div w) db
      in slidingWindowEffective cur prv now w)"

definition zero_bucket :: "string \<Rightarrow> string \<Rightarrow> int \<Rightarrow> time \<Rightarrow> consumption \<Rightarrow> consumption" where
  "zero_bucket api dk b now db =
     (let v = getBucket api dk b db in if v \<noteq> 0 then incrementBucket api dk b (- v) now db else db)"

definition clear_counter :: "time \<Rightarrow> string \<Rightarrow> dim_key \<Rightarrow> consumption \<Rightarrow> consumption" where
  "clear_counter now api dn db =
     (let dk = dimensionKeyToString dn; b = now div WINDOW_MS (dk_window dn)
      in zero_bucket api dk (b - 1) now (zero_bucket api dk b now db))"

section \<open>Keys do not collide\<close>

lemma unit_name_eq [simp]: "unit_name u = unit_name v \<longleftrightarrow> u = v"
  by (cases u; cases v) simp_all

lemma window_name_eq [simp]: "window_name u = window_name v \<longleftrightarrow> u = v"
  by (cases u; cases v) simp_all

lemma no_colon [simp]: "CHR '':'' \<notin> set (unit_name u)" "CHR '':'' \<notin> set (window_name w)"
  by (cases u; simp) (cases w; simp)

lemma last_field_unique:
  assumes "xs @ c # ys = xs' @ c # ys'" and "c \<notin> set ys" and "c \<notin> set ys'"
  shows "xs = xs' \<and> ys = ys'"
proof -
  from assms(1) obtain us where
    "xs = xs' @ us \<and> us @ c # ys = c # ys' \<or> xs @ us = xs' \<and> c # ys = us @ c # ys'"
    by (auto simp: append_eq_append_conv2)
  then show ?thesis
    using assms(2,3) by (cases us) (auto simp: append_eq_Cons_conv Cons_eq_append_conv)
qed

lemma dimensionKeyToString_inj [simp]: "dimensionKeyToString k = dimensionKeyToString k' \<longleftrightarrow> k = k'"
proof
  assume eq: "dimensionKeyToString k = dimensionKeyToString k'"
  have form: "dimensionKeyToString k = (dk_pool k @ '':'' @ unit_name (dk_unit k)) @ CHR '':'' # window_name (dk_window k)"
    for k by (simp add: dimensionKeyToString_def)
  from eq have "dk_pool k @ CHR '':'' # unit_name (dk_unit k) = dk_pool k' @ CHR '':'' # unit_name (dk_unit k')
      \<and> window_name (dk_window k) = window_name (dk_window k')"
    using last_field_unique [OF eq [unfolded form]] by simp
  moreover from this have "dk_pool k = dk_pool k' \<and> unit_name (dk_unit k) = unit_name (dk_unit k')"
    using last_field_unique by (metis no_colon(1))
  ultimately show "k = k'" by (cases k; cases k') simp
qed simp

section \<open>The counter is the weighted history\<close>

lemma getBucket_increment [simp]:
  "getBucket a' dk' b' (incrementBucket a dk b delta now db) =
     getBucket a' dk' b' db + (if a' = a \<and> dk' = dk \<and> b' = b then delta else 0)"
  by (simp add: getBucket_def incrementBucket_def)

lemma sum_bucket_update:
  "sum_bucket dk' b' (map_set (a, dk, b) r db) =
     sum_bucket dk' b' db +
       (if dk' = dk \<and> b' = b then consumed r - getBucket a dk b db else 0)"
  by (induction db) (auto simp: sum_bucket_def getBucket_def)

lemma sum_bucket_increment [simp]:
  "sum_bucket dk' b' (incrementBucket a dk b delta now db) =
     sum_bucket dk' b' db + (if dk' = dk \<and> b' = b then delta else 0)"
  by (simp add: incrementBucket_def sum_bucket_update)

type_synonym usage_event = "time \<times> string \<times> dim_key \<times> rat"

definition record_usage :: "usage_event \<Rightarrow> consumption \<Rightarrow> consumption" where
  "record_usage e db = (case e of (t, a, d, c) \<Rightarrow> snd (consume t a d c db))"

lemma record_usage_bucket [simp]:
  "getBucket a' (dimensionKeyToString d') b' (record_usage (t, a, d, c) db) =
     getBucket a' (dimensionKeyToString d') b' db +
       (if a' = a \<and> d' = d \<and> b' = t div WINDOW_MS (dk_window d) then c else 0)"
  by (simp add: record_usage_def consume_def Let_def getPair_def)

lemma record_usage_sum [simp]:
  "sum_bucket (dimensionKeyToString d') b' (record_usage (t, a, d, c) db) =
     sum_bucket (dimensionKeyToString d') b' db +
       (if d' = d \<and> b' = t div WINDOW_MS (dk_window d) then c else 0)"
  by (simp add: record_usage_def consume_def Let_def getPair_def)

text \<open>
  How much of a unit consumed at \<open>t\<close> still counts at \<open>now\<close>: all of it in the same window of the fixed
  grid, a share that falls linearly to zero during the next window, nothing after that.
\<close>

definition window_weight :: "int \<Rightarrow> time \<Rightarrow> time \<Rightarrow> rat" where
  "window_weight w now t =
     (if t div w = now div w then 1
      else if t div w = now div w - 1 then 1 - of_int (now mod w) / of_int w else 0)"

lemma slidingWindow_mod:
  "slidingWindowEffective c p now w = p * (1 - of_int (now mod w) / of_int w) + c"
  unfolding slidingWindowEffective_def Let_def minus_div_mult_eq_mod ..

lemma peek_record:
  "peek now a' d' (record_usage (t, a, d, c) db) =
     peek now a' d' db + (if a' = a \<and> d' = d then c * window_weight (WINDOW_MS (dk_window d)) now t else 0)"
  by (auto simp: peek_def getPair_def Let_def slidingWindow_mod window_weight_def
      algebra_simps add_divide_distrib)

lemma pool_record:
  "poolConsumedTotal now d' (record_usage (t, a, d, c) db) =
     poolConsumedTotal now d' db + (if d' = d then c * window_weight (WINDOW_MS (dk_window d)) now t else 0)"
  by (auto simp: poolConsumedTotal_def sumPoolDimension_def Let_def slidingWindow_mod window_weight_def
      algebra_simps add_divide_distrib)

lemma peek_Nil [simp]: "peek now a d [] = 0"
  by (simp add: peek_def getPair_def getBucket_def slidingWindow_mod)

lemma pool_Nil [simp]: "poolConsumedTotal now d [] = 0"
  by (simp add: poolConsumedTotal_def sumPoolDimension_def sum_bucket_def slidingWindow_mod)

lemma peek_history:
  "peek now a d (fold record_usage evs [])
     = (\<Sum>(t, a', d', c)\<leftarrow>evs. if a' = a \<and> d' = d then c * window_weight (WINDOW_MS (dk_window d)) now t else 0)"
proof (induction evs rule: rev_induct)
  case (snoc e evs)
  obtain t a' d' c where "e = (t, a', d', c)" by (metis prod_cases4)
  with snoc show ?case by (simp add: peek_record)
qed simp

lemma pool_history:
  "poolConsumedTotal now d (fold record_usage evs [])
     = (\<Sum>(t, a', d', c)\<leftarrow>evs. if d' = d then c * window_weight (WINDOW_MS (dk_window d)) now t else 0)"
proof (induction evs rule: rev_induct)
  case (snoc e evs)
  obtain t a' d' c where "e = (t, a', d', c)" by (metis prod_cases4)
  with snoc show ?case by (simp add: pool_record)
qed simp

text \<open>
  C32. The sliding-window counter means what it should. After any history of consumption, in any order
  and over any keys and dimensions, what a key has used is the sum of its own events of that dimension,
  each weighted by how far its window has slid out; what the pool has used is the same sum over the
  events of all keys.
\<close>

theorem usage_is_weighted_history:
  "peek now a d (fold record_usage evs [])
     = (\<Sum>(t, a', d', c)\<leftarrow>evs. if a' = a \<and> d' = d then c * window_weight (WINDOW_MS (dk_window d)) now t else 0)
   \<and> poolConsumedTotal now d (fold record_usage evs [])
     = (\<Sum>(t, a', d', c)\<leftarrow>evs. if d' = d then c * window_weight (WINDOW_MS (dk_window d)) now t else 0)"
  by (simp add: peek_history pool_history)

text \<open>
  C33. The pool total agrees with the per-key counters: it is the sum of what the distinct keys of the
  history have used, so blocking on the pool limit is blocking on the sum of the keys.
\<close>

theorem pool_total_is_sum_of_keys:
  "poolConsumedTotal now d (fold record_usage evs [])
     = (\<Sum>a\<in>set (map (\<lambda>(t, a, d', c). a) evs). peek now a d (fold record_usage evs []))"
proof -
  define wt where "wt = window_weight (WINDOW_MS (dk_window d)) now"
  have one: "(\<Sum>a\<in>A. if a' = a \<and> d' = d then c * wt t else 0) = (if d' = d then c * wt t else 0)"
    if "a' \<in> A" "finite A" for A :: "string set" and a' d' c t
    using that by simp
  have swap: "(\<Sum>a\<in>A. (\<Sum>(t, a', d', c)\<leftarrow>es. if a' = a \<and> d' = d then c * wt t else 0))
      = (\<Sum>(t, a', d', c)\<leftarrow>es. if d' = d then c * wt t else 0)"
    if "finite A" "set (map (\<lambda>(t, a, d', c). a) es) \<subseteq> A"
    for A and es :: "usage_event list"
    using that
  proof (induction es)
    case (Cons e es)
    then show ?case by (cases e) (simp add: sum.distrib one)
  qed simp
  show ?thesis
    using swap [of "set (map (\<lambda>(t, a, d', c). a) evs)" evs]
    unfolding peek_history pool_history wt_def [symmetric] by simp
qed

text \<open>\<open>clear\<close> empties one counter and leaves the others alone.\<close>

lemma getBucket_zero [simp]:
  "getBucket a' dk' b' (zero_bucket a dk b now db) =
     (if a' = a \<and> dk' = dk \<and> b' = b then 0 else getBucket a' dk' b' db)"
  by (simp add: zero_bucket_def Let_def)

lemma peek_clear: "peek now a d (clear_counter now a d db) = 0"
  by (simp add: peek_def clear_counter_def Let_def getPair_def slidingWindow_mod)

lemma peek_clear_other: "a' \<noteq> a \<or> d' \<noteq> d \<Longrightarrow> peek t a' d' (clear_counter now a d db) = peek t a' d' db"
  by (auto simp: peek_def clear_counter_def Let_def getPair_def)

end
