(* ===== verification/FairShare.thy ===== *)
theory FairShare
  imports QuotaStore
begin

text \<open>
  The quota-sharing engine: the fair-share decision (\<open>src/src/lib/quota/fairShare.ts\<close>), the resolution of
  a connection's plan (\<open>planResolver.ts\<close>, \<open>planRegistry.ts\<close>), and the two entry points of the request
  path (\<open>enforce.ts\<close>): \<open>enforceQuotaShare\<close> before a request, \<open>recordConsumption\<close> after its response.

  What the entry points read from the database and from upstream is the record \<open>quota_env\<close>: the
  allocations of an API key (\<open>None\<close>: the query throws), the pools (a failing lookup and a missing pool
  are both skipped by the code, hence one \<open>None\<close>), the plan overrides, the per-model caps and the
  saturation signal, which is 0 when it cannot be read. The consumption store is an argument; \<open>None\<close> is
  a store whose reads and writes fail, which the code answers with 0 and with doing nothing. The webhook
  notification is not modelled; one clock reading serves a whole decision.

  The lemmas: what an allowed request proves about every dimension, that the pool's budget is a limit,
  failing open, and that the fair share of a percent plan is never enforced.
\<close>

section \<open>The decision\<close>

datatype policy = Hard | Soft | Burst

definition normalizePolicy :: "string \<Rightarrow> policy" where
  "normalizePolicy p = (if p = ''soft'' then Soft else if p = ''burst'' then Burst else Hard)"

record allocation =
  al_apiKey :: string
  weight :: rat
  capValue :: "rat option"
  capUnit :: "quota_unit option"
  al_policy :: string

record fs_dim =
  fd_key :: dim_key
  fd_limit :: rat
  consumedTotal :: rat
  globalUsedPercent :: rat

datatype fs_reason = Fair_share_reason | Cap_absolute | Global_saturated

datatype fs_decision = Allow bool | Block fs_reason

definition fair_share :: "allocation \<Rightarrow> fs_dim \<Rightarrow> rat" where
  "fair_share al d = (weight al / 100) * fd_limit d"

definition cap_reached :: "allocation \<Rightarrow> rat \<Rightarrow> fs_dim \<Rightarrow> bool" where
  "cap_reached al used d \<longleftrightarrow>
     (case capValue al of None \<Rightarrow> False
      | Some cap \<Rightarrow> capUnit al = Some (dk_unit (fd_key d)) \<and> used \<ge> cap)"

text \<open>One pass of the loop: the reason to block, if any, and whether the request is penalised.\<close>

definition check_dim :: "allocation \<Rightarrow> rat \<Rightarrow> rat \<Rightarrow> fs_dim \<Rightarrow> fs_reason option \<times> bool" where
  "check_dim al threshold used d =
     (if cap_reached al used d then (Some Cap_absolute, False)
      else if consumedTotal d \<ge> fd_limit d then (Some Global_saturated, False)
      else if globalUsedPercent d \<ge> threshold
      then (case normalizePolicy (al_policy al) of
              Hard \<Rightarrow> (if used \<ge> fair_share al d then Some Fair_share_reason else None, False)
            | Soft \<Rightarrow> (None, used \<ge> fair_share al d)
            | Burst \<Rightarrow> (None, False))
      else (case normalizePolicy (al_policy al) of
              Hard \<Rightarrow> (if used \<ge> fd_limit d then Some Global_saturated else None, False)
            | Soft \<Rightarrow> (None, used \<ge> fair_share al d)
            | Burst \<Rightarrow> (None, False)))"

definition used_by :: "(string \<times> rat) list \<Rightarrow> fs_dim \<Rightarrow> rat" where
  "used_by consumedByThisKey d = nullish (map_of consumedByThisKey (dimensionKeyToString (fd_key d))) 0"

fun fair_loop :: "allocation \<Rightarrow> rat \<Rightarrow> (string \<times> rat) list \<Rightarrow> fs_dim list \<Rightarrow> bool \<Rightarrow> fs_decision" where
  "fair_loop al threshold m [] anyPenalized = Allow anyPenalized"
| "fair_loop al threshold m (d # ds) anyPenalized =
     (case check_dim al threshold (used_by m d) d of
        (Some r, _) \<Rightarrow> Block r
      | (None, p) \<Rightarrow> fair_loop al threshold m ds (anyPenalized \<or> p))"

definition decideFairShare :: "fs_dim list \<Rightarrow> allocation \<Rightarrow> (string \<times> rat) list \<Rightarrow> rat \<Rightarrow> fs_decision" where
  "decideFairShare dimensions al consumedByThisKey saturationThreshold =
     (if dimensions = [] then Allow False
      else fair_loop al saturationThreshold consumedByThisKey dimensions False)"

section \<open>Plans\<close>

definition EPSILON :: rat where
  "EPSILON = 1 / 2 ^ 52"

record plan_dim =
  pd_unit :: quota_unit
  pd_window :: quota_window
  pd_limit :: rat

definition pdim :: "quota_unit \<Rightarrow> quota_window \<Rightarrow> rat \<Rightarrow> plan_dim" where
  "pdim u w l = \<lparr>pd_unit = u, pd_window = w, pd_limit = l\<rparr>"

definition KNOWN_PLANS :: "(string \<times> plan_dim list) list" where
  "KNOWN_PLANS =
    [(''codex'', [pdim Percent FiveHours 100, pdim Percent Weekly 100]),
     (''claude'', [pdim Percent FiveHours 100, pdim Percent Weekly 100]),
     (''glm'', [pdim Tokens FiveHours EPSILON, pdim Tokens Weekly EPSILON]),
     (''minimax'', [pdim Tokens FiveHours EPSILON, pdim Tokens Weekly EPSILON]),
     (''deepseek'', [pdim Usd Monthly EPSILON]),
     (''bailian'', [pdim Percent FiveHours 100, pdim Percent Weekly 100, pdim Percent Monthly 100]),
     (''kimi'', [pdim Requests Hourly 1500]),
     (''kimi-coding'', [pdim Tokens FiveHours EPSILON, pdim Tokens Weekly EPSILON]),
     (''xiaomi-mimo'', [pdim Tokens Monthly 4100000000]),
     (''xiaomi-mimo-token-plan'', [pdim Tokens Monthly 4100000000]),
     (''alibaba'', [pdim Requests Monthly 90000]),
     (''grok-cli'', [pdim Requests Daily 864, pdim Tokens Daily 18000000,
        pdim Requests Weekly 6048, pdim Tokens Weekly 126000000])]"

definition getKnownPlan :: "string \<Rightarrow> plan_dim list option" where
  "getKnownPlan provider = map_of KNOWN_PLANS provider"

section \<open>Enforcement\<close>

record quota_pool =
  qp_id :: string
  qp_connectionId :: string
  qp_connectionIds :: "string list option"
  qp_allocations :: "allocation list option"

record quota_env =
  allocationsFor :: "string \<Rightarrow> (string \<times> allocation) list option"
  poolOf :: "string \<Rightarrow> quota_pool option"
  dbPlan :: "string \<Rightarrow> plan_dim list option"
  modelCap :: "string \<Rightarrow> string \<Rightarrow> string \<Rightarrow> (rat \<times> quota_unit) option"
  saturation :: "string \<Rightarrow> string \<Rightarrow> plan_dim \<Rightarrow> rat"

definition resolvePlan :: "quota_env \<Rightarrow> string \<Rightarrow> string \<Rightarrow> plan_dim list" where
  "resolvePlan env conn provider =
     (case dbPlan env conn of
        Some (d # ds) \<Rightarrow> d # ds
      | _ \<Rightarrow> nullish (getKnownPlan provider) [])"

definition serves :: "string \<Rightarrow> quota_pool \<Rightarrow> bool" where
  "serves conn p = (case qp_connectionIds p of
     Some cs \<Rightarrow> conn \<in> set cs | None \<Rightarrow> qp_connectionId p = conn)"

fun matching_pool ::
  "quota_env \<Rightarrow> string \<Rightarrow> (string \<times> allocation) list \<Rightarrow> (string \<times> quota_pool \<times> allocation) option" where
  "matching_pool env conn [] = None"
| "matching_pool env conn ((pid, al) # rest) =
     (case poolOf env pid of
        Some p \<Rightarrow> if serves conn p then Some (pid, p, al) else matching_pool env conn rest
      | None \<Rightarrow> matching_pool env conn rest)"

definition peek_or_zero :: "time \<Rightarrow> string \<Rightarrow> dim_key \<Rightarrow> consumption option \<Rightarrow> rat" where
  "peek_or_zero now api k st = (case st of None \<Rightarrow> 0 | Some db \<Rightarrow> peek now api k db)"

definition total_or_zero :: "time \<Rightarrow> dim_key \<Rightarrow> consumption option \<Rightarrow> rat" where
  "total_or_zero now k st = (case st of None \<Rightarrow> 0 | Some db \<Rightarrow> poolConsumedTotal now k db)"

definition COUNTABLE_UNITS :: "quota_unit set" where
  "COUNTABLE_UNITS = {Requests, Tokens, Usd}"

definition accountCount :: "quota_pool \<Rightarrow> rat" where
  "accountCount p = (case qp_connectionIds p of
     Some (c # cs) \<Rightarrow> of_nat (length (c # cs)) | _ \<Rightarrow> 1)"

definition plan_key :: "string \<Rightarrow> plan_dim \<Rightarrow> dim_key" where
  "plan_key pid d = \<lparr>dk_pool = pid, dk_unit = pd_unit d, dk_window = pd_window d\<rparr>"

definition model_key :: "string \<Rightarrow> string \<Rightarrow> quota_unit \<Rightarrow> dim_key" where
  "model_key pid model u = \<lparr>dk_pool = pid @ '':model:'' @ model, dk_unit = u, dk_window = Hourly\<rparr>"

definition dim_info ::
  "quota_env \<Rightarrow> time \<Rightarrow> string \<Rightarrow> string \<Rightarrow> quota_pool \<Rightarrow> consumption option \<Rightarrow> plan_dim \<Rightarrow> fs_dim" where
  "dim_info env now conn provider p st d =
     (let k = plan_key (qp_id p) d;
          g = saturation env conn provider d;
          effectiveLimit = pd_limit d * accountCount p
      in \<lparr>fd_key = k, fd_limit = effectiveLimit,
          consumedTotal = (if pd_unit d \<in> COUNTABLE_UNITS then total_or_zero now k st
                           else g * effectiveLimit),
          globalUsedPercent = g\<rparr>)"

definition effectiveWeight :: "quota_pool \<Rightarrow> allocation \<Rightarrow> rat" where
  "effectiveWeight p al =
     (let als = nullish (qp_allocations p) [] in
      if 0 < sum_list (map weight als) then weight al
      else if als \<noteq> [] then 100 / of_nat (length als) else 0)"

datatype enforce_decision = Allowed "bool option" | Blocked string

definition messageForReason :: "fs_reason \<Rightarrow> string \<Rightarrow> string" where
  "messageForReason r provider = (case r of
     Fair_share_reason \<Rightarrow> ''Quota share limit reached for your API key on '' @ provider
   | Cap_absolute \<Rightarrow> ''Absolute quota cap reached for your API key on '' @ provider
   | Global_saturated \<Rightarrow> ''Provider '' @ provider @
       '' quota window is saturated; no shared capacity available'')"

definition model_cap_reached ::
  "quota_env \<Rightarrow> time \<Rightarrow> string \<Rightarrow> string option \<Rightarrow> quota_pool \<Rightarrow> consumption option \<Rightarrow> bool" where
  "model_cap_reached env now api model p st =
     (case model of None \<Rightarrow> False
      | Some m \<Rightarrow> m \<noteq> [] \<and>
          (case modelCap env (qp_id p) api m of None \<Rightarrow> False
           | Some (cap, u) \<Rightarrow> cap > EPSILON \<and> peek_or_zero now api (model_key (qp_id p) m u) st \<ge> cap))"

definition enforceQuotaShare ::
  "quota_env \<Rightarrow> rat \<Rightarrow> time \<Rightarrow> string \<Rightarrow> string \<Rightarrow> string \<Rightarrow> string option \<Rightarrow> consumption option
   \<Rightarrow> enforce_decision" where
  "enforceQuotaShare env threshold now api conn provider model st =
     (case allocationsFor env api of None \<Rightarrow> Allowed None
      | Some als \<Rightarrow>
        (case matching_pool env conn als of None \<Rightarrow> Allowed None
         | Some (_, p, al) \<Rightarrow>
           let plan = resolvePlan env conn provider in
           if model_cap_reached env now api model p st
           then Blocked (''Model cap reached for your API key on '' @ provider @ ''/'' @ nullish model []
                  @ '' [model-cap]'')
           else if plan = [] then Allowed None
           else
             let ds = filter (\<lambda>d. pd_limit d > EPSILON) plan;
                 consumedByThisKey = fold (\<lambda>d. map_set (dimensionKeyToString (plan_key (qp_id p) d))
                     (peek_or_zero now api (plan_key (qp_id p) d) st)) ds []
             in case decideFairShare (map (dim_info env now conn provider p st) ds)
                       (al\<lparr>weight := effectiveWeight p al\<rparr>) consumedByThisKey threshold of
                  Block r \<Rightarrow> Blocked (messageForReason r provider)
                | Allow penalized \<Rightarrow> Allowed (Some penalized)))"

section \<open>Recording\<close>

record usage_cost =
  tokens :: "rat option"
  usd :: "rat option"
  requests :: "rat option"

definition costForUnit :: "usage_cost \<Rightarrow> quota_unit \<Rightarrow> rat" where
  "costForUnit c u = (case u of
     Tokens \<Rightarrow> nullish (tokens c) 0 | Usd \<Rightarrow> nullish (usd c) 0 | Requests \<Rightarrow> nullish (requests c) 1
   | Percent \<Rightarrow> 0)"

definition record_dim :: "time \<Rightarrow> string \<Rightarrow> dim_key \<Rightarrow> rat \<Rightarrow> consumption \<Rightarrow> consumption" where
  "record_dim now api k cost db = (if cost > 0 then snd (consume now api k cost db) else db)"

definition recordConsumption ::
  "quota_env \<Rightarrow> time \<Rightarrow> string \<Rightarrow> string \<Rightarrow> string \<Rightarrow> string option \<Rightarrow> usage_cost \<Rightarrow> consumption
   \<Rightarrow> consumption" where
  "recordConsumption env now api conn provider model cost db =
     (case allocationsFor env api of None \<Rightarrow> db
      | Some als \<Rightarrow>
        (case matching_pool env conn als of None \<Rightarrow> db
         | Some (pid, _, _) \<Rightarrow>
           let db1 = fold (\<lambda>d. record_dim now api (plan_key pid d) (costForUnit cost (pd_unit d)))
                       (resolvePlan env conn provider) db
           in case model of None \<Rightarrow> db1
              | Some m \<Rightarrow> if m = [] then db1 else
                  (case modelCap env pid api m of None \<Rightarrow> db1
                   | Some (cap, u) \<Rightarrow>
                       if cap > EPSILON
                       then record_dim now api (model_key pid m u) (costForUnit cost u) db1
                       else db1)))"

section \<open>What a decision means\<close>

text \<open>The condition every dimension of an allowed request satisfies, as the policies describe it.\<close>

definition dim_passes :: "allocation \<Rightarrow> rat \<Rightarrow> rat \<Rightarrow> fs_dim \<Rightarrow> bool" where
  "dim_passes al threshold used d \<longleftrightarrow>
     \<not> cap_reached al used d \<and> consumedTotal d < fd_limit d
     \<and> (normalizePolicy (al_policy al) = Hard \<longrightarrow>
          used < (if threshold \<le> globalUsedPercent d then fair_share al d else fd_limit d))"

definition overdrawn :: "allocation \<Rightarrow> rat \<Rightarrow> fs_dim \<Rightarrow> bool" where
  "overdrawn al used d \<longleftrightarrow> normalizePolicy (al_policy al) = Soft \<and> fair_share al d \<le> used"

lemma check_dim_passes: "fst (check_dim al threshold used d) = None \<longleftrightarrow> dim_passes al threshold used d"
  by (auto simp: check_dim_def dim_passes_def split: policy.split)

lemma check_dim_penalty:
  "dim_passes al threshold used d \<Longrightarrow> snd (check_dim al threshold used d) = overdrawn al used d"
  by (auto simp: check_dim_def dim_passes_def overdrawn_def split: policy.split)

lemma fair_loop_Allow:
  "fair_loop al threshold m ds b = Allow p \<longleftrightarrow>
     list_all (\<lambda>d. dim_passes al threshold (used_by m d) d) ds
     \<and> p = (b \<or> list_ex (\<lambda>d. overdrawn al (used_by m d) d) ds)"
proof (induction ds arbitrary: b)
  case (Cons d ds)
  obtain r q where c: "check_dim al threshold (used_by m d) d = (r, q)" by fastforce
  have r: "r = None \<longleftrightarrow> dim_passes al threshold (used_by m d) d"
    using check_dim_passes [of al threshold "used_by m d" d] by (simp add: c)
  show ?case
  proof (cases r)
    case None
    with r have "dim_passes al threshold (used_by m d) d" by simp
    from check_dim_penalty [OF this] None this show ?thesis by (auto simp: c Cons.IH)
  qed (use r in \<open>auto simp: c\<close>)
qed auto

lemma decide_Allow:
  "decideFairShare ds al m threshold = Allow p \<longleftrightarrow>
     list_all (\<lambda>d. dim_passes al threshold (used_by m d) d) ds
     \<and> p = list_ex (\<lambda>d. overdrawn al (used_by m d) d) ds"
  by (auto simp: decideFairShare_def fair_loop_Allow)

lemma fair_loop_Block:
  "fair_loop al threshold m ds b = Block r \<Longrightarrow>
     \<exists>d\<in>set ds. fst (check_dim al threshold (used_by m d) d) = Some r"
  by (induction ds arbitrary: b) (auto split: prod.splits option.splits)

text \<open>
  C34. The fair-share decision, exactly. A request is allowed if and only if in every dimension the key
  is below its absolute cap, the pool is below its limit and, under the hard policy (any unknown policy
  counts as hard), the key is below its fair share once the pool is saturated, below the whole limit
  before that. It is marked as penalised if and only if under the soft policy it is above its fair share
  somewhere.
\<close>

theorem fair_share_decision:
  "decideFairShare ds al m threshold = Allow p \<longleftrightarrow>
     (\<forall>d\<in>set ds.
        \<not> cap_reached al (used_by m d) d \<and> consumedTotal d < fd_limit d
        \<and> (al_policy al \<noteq> ''soft'' \<and> al_policy al \<noteq> ''burst'' \<longrightarrow>
             used_by m d < (if threshold \<le> globalUsedPercent d then fair_share al d else fd_limit d)))
     \<and> p = (al_policy al = ''soft'' \<and> (\<exists>d\<in>set ds. fair_share al d \<le> used_by m d))"
proof -
  have "normalizePolicy (al_policy al) = Hard \<longleftrightarrow> al_policy al \<noteq> ''soft'' \<and> al_policy al \<noteq> ''burst''"
    "normalizePolicy (al_policy al) = Soft \<longleftrightarrow> al_policy al = ''soft''"
    by (simp_all add: normalizePolicy_def)
  then show ?thesis
    by (auto simp: decide_Allow list_all_iff list_ex_iff dim_passes_def overdrawn_def)
qed

definition hourly_requests :: "rat \<Rightarrow> rat \<Rightarrow> fs_dim" where
  "hourly_requests tot g =
     \<lparr>fd_key = \<lparr>dk_pool = ''p'', dk_unit = Requests, dk_window = Hourly\<rparr>, fd_limit = 100,
      consumedTotal = tot, globalUsedPercent = g\<rparr>"

definition quarter :: "string \<Rightarrow> allocation" where
  "quarter pol = \<lparr>al_apiKey = ''k'', weight = 25, capValue = None, capUnit = None, al_policy = pol\<rparr>"

text \<open>A key that used 30 of its 25 requests: free to borrow, then penalised or blocked.\<close>

lemma fair_share_decision_witness:
  "let m = [(''p:requests:hourly'', 30)] in
     decideFairShare [hourly_requests 60 0] (quarter ''hard'') m (1 / 2) = Allow False
   \<and> decideFairShare [hourly_requests 60 (3 / 4)] (quarter ''soft'') m (1 / 2) = Allow True
   \<and> decideFairShare [hourly_requests 60 (3 / 4)] (quarter ''corrupted'') m (1 / 2) \<noteq> Allow False"
  unfolding Let_def fair_share_decision
  by (simp add: hourly_requests_def quarter_def used_by_def dimensionKeyToString_def fair_share_def
      cap_reached_def)

section \<open>The request path\<close>

lemma map_of_fold_set:
  "map_of (fold (\<lambda>d. map_set (f d) (g d)) ds m) k =
     (case find (\<lambda>d. f d = k) (rev ds) of Some d \<Rightarrow> Some (g d) | None \<Rightarrow> map_of m k)"
proof (induction ds rule: rev_induct)
  case (snoc d ds)
  then show ?case by simp
qed simp

text \<open>What the decision sees of a dimension is what the store says of its key.\<close>

lemma used_by_peek:
  assumes "d \<in> set ds" and "pid = qp_id p"
  shows "used_by (fold (\<lambda>d. map_set (dimensionKeyToString (plan_key pid d))
            (peek_or_zero now api (plan_key pid d) st)) ds []) (dim_info env now conn provider p st d)
     = peek_or_zero now api (plan_key pid d) st"
proof -
  have "fd_key (dim_info env now conn provider p st d) = plan_key pid d"
    by (simp add: dim_info_def Let_def assms(2))
  moreover obtain e where "find (\<lambda>e. dimensionKeyToString (plan_key pid e) = dimensionKeyToString (plan_key pid d))
      (rev ds) = Some e" "plan_key pid e = plan_key pid d"
    using assms(1) by (cases "find (\<lambda>e. plan_key pid e = plan_key pid d) (rev ds)")
      (auto simp: find_None_iff find_Some_iff)
  ultimately show ?thesis by (simp add: used_by_def map_of_fold_set)
qed

lemma enforce_allowed:
  assumes "allocationsFor env api = Some als" and "matching_pool env conn als = Some (pid, p, al)"
    and "enforceQuotaShare env threshold now api conn provider model st = Allowed r"
    and "d \<in> set (resolvePlan env conn provider)" and "EPSILON < pd_limit d"
  shows "dim_passes (al\<lparr>weight := effectiveWeight p al\<rparr>) threshold
      (peek_or_zero now api (plan_key (qp_id p) d) st) (dim_info env now conn provider p st d)"
proof -
  let ?ds = "filter (\<lambda>d. pd_limit d > EPSILON) (resolvePlan env conn provider)"
  let ?m = "fold (\<lambda>d. map_set (dimensionKeyToString (plan_key (qp_id p) d))
      (peek_or_zero now api (plan_key (qp_id p) d) st)) ?ds []"
  have "resolvePlan env conn provider \<noteq> []" using assms(4) by auto
  then obtain b where "decideFairShare (map (dim_info env now conn provider p st) ?ds)
      (al\<lparr>weight := effectiveWeight p al\<rparr>) ?m threshold = Allow b"
    using assms(1-3) by (auto simp: enforceQuotaShare_def Let_def split: if_splits fs_decision.splits)
  moreover have "d \<in> set ?ds" using assms(4,5) by simp
  ultimately show ?thesis
    using used_by_peek [OF \<open>d \<in> set ?ds\<close> refl] by (auto simp: decide_Allow list_all_iff)
qed

text \<open>
  C35. The pool budget holds. Whenever a request on a connection of a pool is allowed while the store can
  be read, then for every configured countable dimension of the plan all keys of the pool together have
  used less than the plan's limit times the number of the pool's accounts.
\<close>

theorem pool_budget_enforced:
  assumes "allocationsFor env api = Some als" and "matching_pool env conn als = Some (pid, p, al)"
    and "enforceQuotaShare env threshold now api conn provider model (Some db) = Allowed r"
    and "d \<in> set (resolvePlan env conn provider)" and "EPSILON < pd_limit d"
    and "pd_unit d \<in> COUNTABLE_UNITS"
  shows "poolConsumedTotal now (plan_key (qp_id p) d) db < pd_limit d * accountCount p"
  using enforce_allowed [OF assms(1-5)] assms(6)
  by (simp add: dim_passes_def dim_info_def Let_def total_or_zero_def)

definition demo_pool :: "string \<Rightarrow> quota_pool" where
  "demo_pool pol = \<lparr>qp_id = ''p'', qp_connectionId = ''c1'', qp_connectionIds = Some [''c1'', ''c2''],
     qp_allocations = Some [quarter pol, quarter pol]\<rparr>"

definition demo_env :: "string \<Rightarrow> plan_dim list \<Rightarrow> rat \<Rightarrow> quota_env" where
  "demo_env pol plan sat = \<lparr>allocationsFor = (\<lambda>_. Some [(''p'', quarter pol)]),
     poolOf = (\<lambda>_. Some (demo_pool pol)), dbPlan = (\<lambda>_. Some plan), modelCap = (\<lambda>_ _ _. None),
     saturation = (\<lambda>_ _ _. sat)\<rparr>"

definition demo_db :: consumption where
  "demo_db = [((''k'', ''p:requests:hourly'', 0), \<lparr>consumed = 120, updated_at = 0\<rparr>),
     ((''l'', ''p:requests:hourly'', 0), \<lparr>consumed = 40, updated_at = 0\<rparr>)]"

lemmas demo_defs = demo_pool_def demo_env_def demo_db_def quarter_def pdim_def resolvePlan_def serves_def
  plan_key_def dimensionKeyToString_def accountCount_def effectiveWeight_def

lemma demo_db_usage:
  "peek 1000 ''k'' (plan_key ''p'' (pdim Requests Hourly 100)) demo_db = 120"
  "poolConsumedTotal 1000 (plan_key ''p'' (pdim Requests Hourly 100)) demo_db = 160"
  by (simp_all add: demo_defs peek_def poolConsumedTotal_def getPair_def sumPoolDimension_def
      sum_bucket_def getBucket_def slidingWindow_mod)

text \<open>Two accounts at 100 requests an hour: with 160 used, a request still passes.\<close>

lemma pool_budget_enforced_witness:
  "enforceQuotaShare (demo_env ''hard'' [pdim Requests Hourly 100] 0) (1 / 2) 1000 ''k'' ''c2'' ''kimi''
     None (Some demo_db) = Allowed (Some False)
   \<and> poolConsumedTotal 1000 (plan_key ''p'' (pdim Requests Hourly 100)) demo_db < 100 * 2"
proof -
  let ?env = "demo_env ''hard'' [pdim Requests Hourly 100] 0"
  have k: "map_of [(dimensionKeyToString (plan_key ''p'' (pdim Requests Hourly 100)), x)]
      (dimensionKeyToString (plan_key ''p'' (pdim Requests Hourly 100))) = Some x" for x by simp
  have allowed: "enforceQuotaShare ?env (1 / 2) 1000 ''k'' ''c2'' ''kimi'' None (Some demo_db)
      = Allowed (Some False)"
    using demo_db_usage
    by (simp add: enforceQuotaShare_def demo_env_def demo_pool_def serves_def resolvePlan_def
        model_cap_reached_def pdim_def EPSILON_def decideFairShare_def check_dim_def dim_info_def
        cap_reached_def quarter_def accountCount_def COUNTABLE_UNITS_def total_or_zero_def
        normalizePolicy_def used_by_def peek_or_zero_def plan_key_def)
  then show ?thesis
    using pool_budget_enforced [of ?env "''k''" "[(''p'', quarter ''hard'')]" "''c2''" "''p''"
        "demo_pool ''hard''" "quarter ''hard''" "1 / 2" 1000 "''kimi''" None demo_db "Some False"
        "pdim Requests Hourly 100"]
    by (simp add: demo_env_def demo_pool_def serves_def resolvePlan_def pdim_def EPSILON_def
        accountCount_def COUNTABLE_UNITS_def)
qed

section \<open>Failing open\<close>

text \<open>
  C36. Quota trouble never blocks traffic. When the store cannot be read and the saturation signal is
  missing (both are then 0), a request is allowed whatever its plan, policy and caps, as long as the caps
  are positive numbers, as the schema demands, and so is the threshold.
\<close>

theorem enforcement_fails_open:
  assumes "0 < threshold" and "\<forall>c p d. saturation env c p d = 0"
    and "\<forall>pid al. (pid, al) \<in> set (nullish (allocationsFor env api) []) \<longrightarrow>
          (case capValue al of None \<Rightarrow> True | Some cap \<Rightarrow> 0 < cap)"
  shows "\<exists>r. enforceQuotaShare env threshold now api conn provider model None = Allowed r"
proof (cases "allocationsFor env api")
  case None
  then show ?thesis by (simp add: enforceQuotaShare_def)
next
  case (Some als)
  show ?thesis
  proof (cases "matching_pool env conn als")
    case None
    then show ?thesis by (simp add: enforceQuotaShare_def Some)
  next
    case m: (Some x)
    obtain pid p al where x: "x = (pid, p, al)" by (metis prod_cases3)
    have in_als: "(pid, al) \<in> set als"
      using m unfolding x
      by (induction als) (auto split: option.splits if_splits prod.splits)
    then have cap: "case capValue al of None \<Rightarrow> True | Some cap \<Rightarrow> 0 < cap"
      using assms(3) Some by simp
    have count: "0 < accountCount p" by (auto simp: accountCount_def split: option.split list.split)
    let ?al = "al\<lparr>weight := effectiveWeight p al\<rparr>"
    let ?ds = "filter (\<lambda>d. pd_limit d > EPSILON) (resolvePlan env conn provider)"
    let ?m = "fold (\<lambda>d. map_set (dimensionKeyToString (plan_key (qp_id p) d))
      (peek_or_zero now api (plan_key (qp_id p) d) None)) ?ds []"
    have pass: "dim_passes ?al threshold (used_by ?m (dim_info env now conn provider p None d))
        (dim_info env now conn provider p None d)" if "d \<in> set ?ds" for d
    proof -
      have "0 < pd_limit d" using that by (simp add: EPSILON_def less_trans [of 0 "1 / 4503599627370496"])
      with count have "0 < pd_limit d * accountCount p" by simp
      then show ?thesis
        using used_by_peek [where p = p and now = now and api = api and st = None and env = env
            and conn = conn and provider = provider, OF that refl] cap assms(1,2)
        by (auto simp: dim_passes_def dim_info_def Let_def cap_reached_def peek_or_zero_def
            total_or_zero_def split: option.splits)
    qed
    have "\<exists>b. decideFairShare (map (dim_info env now conn provider p None) ?ds) ?al ?m threshold = Allow b"
      using pass by (auto simp: decide_Allow list_all_iff)
    moreover have "\<not> model_cap_reached env now api model p None"
      by (auto simp: model_cap_reached_def peek_or_zero_def EPSILON_def split: option.split)
    ultimately show ?thesis by (auto simp: enforceQuotaShare_def Some m x Let_def)
  qed
qed

lemma enforcement_fails_open_witness:
  "\<exists>r. enforceQuotaShare (demo_env ''hard'' [pdim Requests Hourly 100] 0) (1 / 2) 1000 ''k'' ''c2''
     ''kimi'' (Some ''k2'') None = Allowed r"
  by (rule enforcement_fails_open) (simp_all add: demo_env_def quarter_def)

section \<open>Percent plans\<close>

text \<open>What one request adds to a counter is never booked on a percent dimension.\<close>

definition percent_free :: "consumption \<Rightarrow> bool" where
  "percent_free db \<longleftrightarrow> (\<forall>api d b. dk_unit d = Percent \<longrightarrow> getBucket api (dimensionKeyToString d) b db = 0)"

record usage_report =
  ur_time :: time
  ur_api :: string
  ur_conn :: string
  ur_provider :: string
  ur_model :: "string option"
  ur_cost :: usage_cost

definition report :: "quota_env \<Rightarrow> consumption \<Rightarrow> usage_report \<Rightarrow> consumption" where
  "report env db u =
     recordConsumption env (ur_time u) (ur_api u) (ur_conn u) (ur_provider u) (ur_model u) (ur_cost u) db"

lemma percent_free_record:
  "percent_free db \<Longrightarrow> dk_unit k = Percent \<longrightarrow> cost \<le> 0 \<Longrightarrow> percent_free (record_dim now api k cost db)"
  by (auto simp: percent_free_def record_dim_def consume_def Let_def getPair_def)

lemma percent_free_fold:
  "percent_free db \<Longrightarrow>
     percent_free (fold (\<lambda>d. record_dim now api (plan_key pid d) (costForUnit cost (pd_unit d))) ds db)"
proof (induction ds arbitrary: db)
  case (Cons d ds)
  have "dk_unit (plan_key pid d) = Percent \<longrightarrow> costForUnit cost (pd_unit d) \<le> 0"
    by (simp add: plan_key_def costForUnit_def)
  with Cons show ?case by (simp add: percent_free_record)
qed simp

lemma percent_cost: "dk_unit (model_key pid m u) = Percent \<longrightarrow> costForUnit cost u \<le> 0"
  by (simp add: model_key_def costForUnit_def)

interpretation percent_ledger: machine "report env" percent_free
proof
  fix db u assume "percent_free db"
  then show "percent_free (report env db u)"
    by (auto simp: report_def recordConsumption_def Let_def
        split: option.split intro!: percent_free_record percent_free_fold percent_cost)
qed

lemma percent_usage_zero:
  "percent_free db \<Longrightarrow> dk_unit k = Percent \<Longrightarrow> peek now api k db = 0"
  by (simp add: percent_free_def peek_def getPair_def slidingWindow_mod)

text \<open>
  The fair share of a percent plan is never enforced. Consumption is never recorded on a percent
  dimension, so after any history of requests every key has used nothing of it, and a key with a positive
  weight is never told that it has reached its share, not even under the hard policy with the pool
  saturated: one key can use up the whole plan.
\<close>

theorem percent_share_never_enforced:
  assumes "allocationsFor env api = Some als" and "matching_pool env conn als = Some (pid, p, al)"
    and "\<forall>d\<in>set (resolvePlan env conn provider). pd_unit d = Percent" and "0 < effectiveWeight p al"
  shows "enforceQuotaShare env threshold now api conn provider model
      (Some (foldl (report env) [] reports)) \<noteq> Blocked (messageForReason Fair_share_reason provider)"
proof
  let ?db = "foldl (report env) [] reports"
  let ?al = "al\<lparr>weight := effectiveWeight p al\<rparr>"
  let ?ds = "filter (\<lambda>d. pd_limit d > EPSILON) (resolvePlan env conn provider)"
  let ?m = "fold (\<lambda>d. map_set (dimensionKeyToString (plan_key (qp_id p) d))
    (peek_or_zero now api (plan_key (qp_id p) d) (Some ?db))) ?ds []"
  have "percent_free []" by (simp add: percent_free_def getBucket_def)
  then have free: "percent_free ?db" by (rule percent_ledger.run_inv)
  assume "enforceQuotaShare env threshold now api conn provider model (Some ?db)
      = Blocked (messageForReason Fair_share_reason provider)"
  then have "decideFairShare (map (dim_info env now conn provider p (Some ?db)) ?ds) ?al ?m threshold
      = Block Fair_share_reason"
    using assms(1,2)
    by (auto simp: enforceQuotaShare_def Let_def messageForReason_def
        split: if_splits fs_decision.splits fs_reason.splits)
  then obtain d where d: "d \<in> set ?ds" and
    block: "fst (check_dim ?al threshold (used_by ?m (dim_info env now conn provider p (Some ?db) d))
        (dim_info env now conn provider p (Some ?db) d)) = Some Fair_share_reason"
    by (auto simp: decideFairShare_def split: if_splits dest!: fair_loop_Block)
  have unused: "peek_or_zero now api (plan_key (qp_id p) d) (Some ?db) = 0"
    using percent_usage_zero [OF free] d assms(3) by (simp add: peek_or_zero_def plan_key_def)
  have "0 < pd_limit d" using d by (simp add: EPSILON_def less_trans [of 0 "1 / 4503599627370496"])
  moreover have "0 < accountCount p" by (auto simp: accountCount_def split: option.split list.split)
  ultimately have "0 < effectiveWeight p al / 100 * (pd_limit d * accountCount p)"
    using assms(4) by simp
  then show False
    using block used_by_peek [where p = p and now = now and api = api and st = "Some ?db" and env = env
          and conn = conn and provider = provider, OF d refl] unused
    by (auto simp: check_dim_def fair_share_def dim_info_def Let_def split: if_splits policy.splits)
qed

text \<open>
  Two keys with a quarter each on a Codex plan that is 90 percent used: the first one may go on, whatever
  it has used.
\<close>

lemma percent_share_never_enforced_witness:
  "let env = demo_env ''hard'' [pdim Percent FiveHours 100] (9 / 10);
       used = \<lparr>ur_time = 0, ur_api = ''k'', ur_conn = ''c1'', ur_provider = ''codex'', ur_model = None,
               ur_cost = \<lparr>tokens = Some 1000000, usd = Some 50, requests = Some 1000\<rparr>\<rparr>
   in enforceQuotaShare env (1 / 2) 1000 ''k'' ''c1'' ''codex'' None (Some (foldl (report env) [] [used]))
      \<noteq> Blocked (messageForReason Fair_share_reason ''codex'')"
  unfolding Let_def
  by (rule percent_share_never_enforced [of _ _ "[(''p'', quarter ''hard'')]" _ "''p''" "demo_pool ''hard''"
        "quarter ''hard''"])
    (simp_all add: demo_env_def demo_pool_def quarter_def serves_def resolvePlan_def pdim_def
      effectiveWeight_def)

end
