(* ===== verification/JsString.thy ===== *)
theory JsString
  imports Prelude "HOL-Library.Sublist"
begin

text \<open>
  The string operations of JavaScript the modelled code uses, on strings as lists of characters:
  \<open>indexOf\<close>, \<open>includes\<close>, \<open>startsWith\<close> / \<open>endsWith\<close> (\<open>prefix\<close> and \<open>suffix\<close>), \<open>slice\<close> with a negative
  argument, \<open>split\<close> at one character, and \<open>trim\<close>. The lemmas say which occurrence \<open>indexOf\<close> finds and
  how it behaves when text is appended, which is what the streaming parsers rest on.
\<close>

section \<open>Searching\<close>

fun indexOf :: "'a list \<Rightarrow> 'a list \<Rightarrow> nat option" where
  "indexOf p [] = (if p = [] then Some 0 else None)"
| "indexOf p (c # s) = (if prefix p (c # s) then Some 0 else map_option Suc (indexOf p s))"

definition str_includes :: "'a list \<Rightarrow> 'a list \<Rightarrow> bool" where
  "str_includes s p \<longleftrightarrow> indexOf p s \<noteq> None"

lemma indexOf_Some_iff:
  "indexOf p s = Some i \<longleftrightarrow>
     i \<le> length s \<and> prefix p (drop i s) \<and> (\<forall>j<i. \<not> prefix p (drop j s))"
proof (induction s arbitrary: i)
  case Nil
  then show ?case by auto
next
  case (Cons c s)
  show ?case
  proof (cases "prefix p (c # s)")
    case True
    then show ?thesis by (auto intro!: Nat.gr0I)
  next
    case False
    have "(\<forall>j<Suc i. \<not> prefix p (drop j (c # s))) \<longleftrightarrow> (\<forall>j<i. \<not> prefix p (drop j s))" for i
      using False by (simp add: All_less_Suc2)
    with False show ?thesis by (cases i) (auto simp: Cons.IH)
  qed
qed

lemma indexOf_None_iff: "indexOf p s = None \<longleftrightarrow> (\<forall>j\<le>length s. \<not> prefix p (drop j s))"
proof (induction s)
  case Nil
  then show ?case by auto
next
  case (Cons c s)
  have "(\<forall>j\<le>length (c # s). \<not> prefix p (drop j (c # s)))
      \<longleftrightarrow> \<not> prefix p (c # s) \<and> (\<forall>j\<le>length s. \<not> prefix p (drop j s))"
    by (simp add: All_less_Suc2 less_Suc_eq_le [symmetric])
  then show ?case using Cons by simp
qed

lemma prefix_drop_append:
  assumes "j + length p \<le> length b"
  shows "prefix p (drop j (b @ t)) \<longleftrightarrow> prefix p (drop j b)"
proof -
  have "drop j (b @ t) = drop j b @ t" and "length p \<le> length (drop j b)"
    using assms by simp_all
  then show ?thesis
    by (metis prefix_append append_Nil2 same_prefix_nil prefixI prefix_order.trans prefix_length_prefix)
qed

text \<open>An occurrence that was found does not move when text is appended.\<close>

lemma indexOf_append:
  assumes "indexOf p b = Some i"
  shows "indexOf p (b @ t) = Some i"
proof -
  from assms have i: "i \<le> length b" "prefix p (drop i b)" "\<forall>j<i. \<not> prefix p (drop j b)"
    by (simp_all add: indexOf_Some_iff)
  then have le: "i + length p \<le> length b" by (auto dest: prefix_length_le)
  have "prefix p (drop j (b @ t)) \<longleftrightarrow> prefix p (drop j b)" if "j \<le> i" for j
    by (rule prefix_drop_append) (use le that in simp)
  then show ?thesis using i by (auto simp: indexOf_Some_iff)
qed

lemma indexOf_le: "indexOf p s = Some i \<Longrightarrow> i + length p \<le> length s"
  by (auto simp: indexOf_Some_iff dest: prefix_length_le)

lemma indexOf_drop:
  assumes "\<forall>j<k. \<not> prefix p (drop j s)" and "k \<le> length s"
  shows "indexOf p s = map_option (\<lambda>i. k + i) (indexOf p (drop k s))"
proof (cases "indexOf p (drop k s)")
  case None
  have "\<not> prefix p (drop j s)" if "j \<le> length s" for j
  proof (cases "j < k")
    case False
    then have "drop j s = drop (j - k) (drop k s)" by simp
    moreover have "j - k \<le> length (drop k s)" using that by simp
    ultimately show ?thesis using None unfolding indexOf_None_iff by metis
  qed (use assms in simp)
  then show ?thesis by (simp add: None indexOf_None_iff)
next
  case (Some i)
  have "\<not> prefix p (drop j s)" if "j < k + i" for j
  proof (cases "j < k")
    case False
    then have "drop j s = drop (j - k) (drop k s)" by simp
    moreover have "j - k < i" using that False by simp
    ultimately show ?thesis using Some unfolding indexOf_Some_iff by metis
  qed (use assms in simp)
  moreover have "i \<le> length s - k" "prefix p (drop (k + i) s)"
    using Some by (simp_all add: indexOf_Some_iff add.commute)
  ultimately have "indexOf p s = Some (k + i)"
    using assms(2) by (simp add: indexOf_Some_iff add.commute)
  then show ?thesis by (simp add: Some)
qed

section \<open>Slices\<close>

text \<open>\<open>s.slice(0, -n)\<close> and \<open>s.slice(-n)\<close> for a positive \<open>n\<close>.\<close>

definition slice_but_last :: "nat \<Rightarrow> 'a list \<Rightarrow> 'a list" where
  "slice_but_last n s = take (length s - n) s"

definition slice_last :: "nat \<Rightarrow> 'a list \<Rightarrow> 'a list" where
  "slice_last n s = drop (length s - n) s"

lemma slice_split: "slice_but_last n s @ slice_last n s = s"
  by (simp add: slice_but_last_def slice_last_def)

lemma length_slice_last [simp]: "length (slice_last n s) = min n (length s)"
  by (simp add: slice_last_def)

lemma slice_last_append:
  "slice_last n (s @ t) = (if n \<le> length t then slice_last n t else slice_last (n - length t) s @ t)"
  by (auto simp: slice_last_def)

lemma slice_last_all: "length s \<le> n \<Longrightarrow> slice_last n s = s"
  by (simp add: slice_last_def)

lemma slice_last_slice_last: "m \<le> n \<Longrightarrow> slice_last m (slice_last n s) = slice_last m s"
  by (auto simp: slice_last_def intro!: arg_cong [of _ _ "\<lambda>k. drop k s"])

section \<open>White space\<close>

text \<open>
  The white space and line terminators \<open>trim\<close> removes, among the characters of this model (the
  first 256 code points): tab, line feed, vertical tab, form feed, carriage return, space, no-break
  space.
\<close>

definition js_space :: "char \<Rightarrow> bool" where
  "js_space c \<longleftrightarrow> (let n = of_char c :: nat in (9 \<le> n \<and> n \<le> 13) \<or> n = 32 \<or> n = 160)"

definition trim :: "string \<Rightarrow> string" where
  "trim s = rev (dropWhile js_space (rev (dropWhile js_space s)))"

section \<open>Case\<close>

text \<open>
  \<open>toLowerCase\<close> on the first 256 code points: A to Z, and the accented capitals 192 to 222 but for the
  multiplication sign 215.
\<close>

definition lower_char :: "char \<Rightarrow> char" where
  "lower_char c = (let n = of_char c :: nat in
     if (65 \<le> n \<and> n \<le> 90) \<or> (192 \<le> n \<and> n \<le> 222 \<and> n \<noteq> 215) then char_of (n + 32) else c)"

definition toLowerCase :: "string \<Rightarrow> string" where
  "toLowerCase s = map lower_char s"

section \<open>Splitting and numbers\<close>

text \<open>\<open>s.split(c)\<close> for a one-character separator: always at least one part.\<close>

fun split_on :: "'a \<Rightarrow> 'a list \<Rightarrow> 'a list list" where
  "split_on c [] = [[]]"
| "split_on c (x # s) =
     (if x = c then [] # split_on c s
      else case split_on c s of [] \<Rightarrow> [[x]] | p # ps \<Rightarrow> (x # p) # ps)"

lemma split_on_nonempty [simp]: "split_on c s \<noteq> []"
  by (induction s) (auto split: list.split)

lemma split_on_plain: "c \<notin> set s \<Longrightarrow> split_on c s = [s]"
  by (induction s) auto

lemma split_on_append: "c \<notin> set s \<Longrightarrow> split_on c (s @ c # t) = s # split_on c t"
  by (induction s) auto

text \<open>
  \<open>parseInt(s, 10)\<close>: white space is skipped, an optional sign and as many digits as follow are read,
  the rest is ignored; no digit at all is \<open>NaN\<close> (\<open>None\<close>).
\<close>

definition digit :: "char \<Rightarrow> int option" where
  "digit c = (let n = of_char c :: nat in if 48 \<le> n \<and> n \<le> 57 then Some (int n - 48) else None)"

fun read_digits :: "int \<Rightarrow> string \<Rightarrow> int" where
  "read_digits acc [] = acc"
| "read_digits acc (c # s) = (case digit c of None \<Rightarrow> acc | Some d \<Rightarrow> read_digits (10 * acc + d) s)"

definition read_nat :: "string \<Rightarrow> int option" where
  "read_nat s = (case s of [] \<Rightarrow> None | c # _ \<Rightarrow> if digit c = None then None else Some (read_digits 0 s))"

definition parseInt :: "string \<Rightarrow> int option" where
  "parseInt s = (case dropWhile js_space s of
     [] \<Rightarrow> None
   | c # t \<Rightarrow> if c = CHR ''-'' then map_option uminus (read_nat t)
              else if c = CHR ''+'' then read_nat t
              else read_nat (c # t))"

text \<open>The decimal digits of a number, as template strings print it.\<close>

fun decimal :: "nat \<Rightarrow> string" where
  "decimal n = (if n < 10 then [char_of (48 + n)] else decimal (n div 10) @ [char_of (48 + n mod 10)])"

declare decimal.simps [simp del]

lemma digit_char_of: "n < 10 \<Longrightarrow> digit (char_of (48 + n)) = Some (int n)"
  by (simp add: digit_def Let_def)

lemma read_digits_append:
  "list_all (\<lambda>c. digit c \<noteq> None) s \<Longrightarrow> read_digits acc (s @ t) = read_digits (read_digits acc s) t"
  by (induction s arbitrary: acc) auto

lemma decimal_digits: "list_all (\<lambda>c. digit c \<noteq> None) (decimal n)"
proof (induction n rule: decimal.induct)
  case (1 n)
  then show ?case
    by (cases "n < 10") (simp_all add: decimal.simps [of n] digit_char_of)
qed

lemma read_decimal: "read_digits 0 (decimal n) = int n"
proof (induction n rule: decimal.induct)
  case (1 n)
  show ?case
  proof (cases "n < 10")
    case False
    have "digit (char_of (48 + n mod 10)) = Some (int (n mod 10))" by (rule digit_char_of) simp
    moreover have "10 * int (n div 10) + int (n mod 10) = int n"
      by (metis mult_div_mod_eq of_nat_add of_nat_mult of_nat_numeral)
    ultimately show ?thesis
      using 1 False by (simp add: decimal.simps [of n] read_digits_append [OF decimal_digits])
  qed (simp add: decimal.simps [of n] digit_char_of)
qed

lemma decimal_nonempty: "decimal n \<noteq> []"
  by (simp add: decimal.simps [of n])

lemma digit_not:
  "digit c \<noteq> None \<Longrightarrow> \<not> js_space c \<and> c \<noteq> CHR ''-'' \<and> c \<noteq> CHR ''+'' \<and> c \<noteq> CHR ''.'' \<and> c \<noteq> CHR ''/'' \<and> c \<noteq> CHR ''*''"
  by (auto simp: digit_def js_space_def Let_def split: if_splits)

lemma parseInt_decimal [simp]: "parseInt (decimal n) = Some (int n)"
proof -
  obtain c t where d: "decimal n = c # t" by (cases "decimal n") (use decimal_nonempty in auto)
  have c: "digit c \<noteq> None" using decimal_digits [of n] by (simp add: d)
  then show ?thesis
    using digit_not [OF c] read_decimal [of n] by (simp add: parseInt_def d read_nat_def)
qed

lemma decimal_no: "CHR ''.'' \<notin> set (decimal n)" "CHR ''/'' \<notin> set (decimal n)" "CHR ''*'' \<notin> set (decimal n)"
  using decimal_digits [of n] digit_not by (force simp: list_all_iff)+

end
