(* ===== verification/ThinkTags.thy ===== *)
theory ThinkTags
  imports JsString
begin

text \<open>
  The reasoning-tag parser, \<open>src/open-sse/utils/thinkTagParser.ts\<close>: \<open>extractThinkTags\<close> for a complete
  text, and the streaming parser, whose context lives as long as one event stream: \<open>applyThinkTag\<close> on
  each delta, \<open>flushThink\<close> at its end. With them, \<open>appendBoundedText\<close> of \<open>streamHelpers.ts\<close>, the
  accumulator the flush feeds.

  Whether a provider and model emit textual tags is decided by regular expressions in
  \<open>responseSanitizer/reasoning.ts\<close>; the verdict is the argument \<open>native\<close> of \<open>initThinkState\<close>. The JSON
  envelope of the synthetic chunk (its id, its creation time, its model) is left out of the result of
  \<open>flushThink\<close>; the delta in it is there.

  The lemmas compare the streaming parser with \<open>think_split\<close>, which sees the whole text at once.
\<close>

section \<open>The parser\<close>

definition THINK_OPEN :: string where
  "THINK_OPEN = ''<think>''"

definition THINK_CLOSE :: string where
  "THINK_CLOSE = ''</think>''"

definition THINK_OPEN_PARTIALS :: "string list" where
  "THINK_OPEN_PARTIALS = map (\<lambda>i. take (i + 1) THINK_OPEN) [0..<length THINK_OPEN - 1]"

record think_ctx =
  t_enabled :: bool
  insideThink :: bool
  t_buffer :: string
  t_active :: bool

definition initThinkState :: "bool \<Rightarrow> bool \<Rightarrow> think_ctx" where
  "initThinkState isPassthroughMode native =
     \<lparr>t_enabled = (isPassthroughMode \<and> native), insideThink = False, t_buffer = [], t_active = False\<rparr>"

definition containsOrMayEndWithThinkOpenTag :: "string \<Rightarrow> bool" where
  "containsOrMayEndWithThinkOpenTag v \<longleftrightarrow>
     str_includes v THINK_OPEN \<or> list_ex (\<lambda>p. suffix p v) THINK_OPEN_PARTIALS"

definition hasThinkTags :: "string \<Rightarrow> bool" where
  "hasThinkTags text \<longleftrightarrow> text \<noteq> [] \<and> str_includes text THINK_OPEN"

text \<open>The loop of \<open>extractThinkTags\<close>; the first argument is what is left of \<open>maxIterations\<close>.\<close>

fun extract_loop :: "nat \<Rightarrow> string \<Rightarrow> string \<Rightarrow> string \<times> string" where
  "extract_loop 0 reasoning content = (reasoning, content)"
| "extract_loop (Suc n) reasoning content =
     (case indexOf THINK_OPEN content of
        None \<Rightarrow> (reasoning, content)
      | Some openIdx \<Rightarrow>
          (case indexOf THINK_CLOSE (drop openIdx content) of
             None \<Rightarrow> (reasoning @ drop (openIdx + length THINK_OPEN) content, take openIdx content)
           | Some d \<Rightarrow>
               let closeIdx = openIdx + d;
                   thinkContent = take (closeIdx - (openIdx + length THINK_OPEN))
                                    (drop (openIdx + length THINK_OPEN) content)
               in extract_loop n
                    (reasoning @ (if reasoning \<noteq> [] then [CHR 0x0A] else []) @ thinkContent)
                    (take openIdx content @ drop (closeIdx + length THINK_CLOSE) content)))"

definition str_or_null :: "string \<Rightarrow> string option" where
  "str_or_null s = (if s = [] then None else Some s)"

definition extractThinkTags :: "string \<Rightarrow> string option \<times> string" where
  "extractThinkTags text =
     (if text = [] \<or> \<not> str_includes text THINK_OPEN then (None, text)
      else let (reasoning, content) = extract_loop 10 [] text
           in (str_or_null (trim reasoning), trim content))"

text \<open>
  The loop of \<open>processStreamingThinkDelta\<close> on the buffer: the reasoning and the content it appends to
  the two deltas, whether the parser is inside a tag afterwards, and the buffer it keeps.
\<close>

function think_loop :: "bool \<Rightarrow> string \<Rightarrow> string \<times> string \<times> bool \<times> string" where
  "think_loop inside buf =
     (if buf = [] then ([], [], inside, buf)
      else if inside then
        (case indexOf THINK_CLOSE buf of
           None \<Rightarrow>
             if length buf > length THINK_CLOSE
             then (slice_but_last (length THINK_CLOSE - 1) buf, [], True,
                   slice_last (length THINK_CLOSE - 1) buf)
             else ([], [], True, buf)
         | Some closeIdx \<Rightarrow>
             let (r, c, i, b) = think_loop False (drop (closeIdx + length THINK_CLOSE) buf)
             in (take closeIdx buf @ r, c, i, b))
      else
        (case indexOf THINK_OPEN buf of
           None \<Rightarrow>
             if length buf > length THINK_OPEN
             then ([], slice_but_last (length THINK_OPEN - 1) buf, False,
                   slice_last (length THINK_OPEN - 1) buf)
             else ([], [], False, buf)
         | Some openIdx \<Rightarrow>
             let (r, c, i, b) = think_loop True (drop (openIdx + length THINK_OPEN) buf)
             in (r, take openIdx buf @ c, i, b)))"
  by pat_completeness auto
termination
  by (relation "measure (\<lambda>(inside, buf). length buf)") (auto simp: THINK_OPEN_def THINK_CLOSE_def)

declare think_loop.simps [simp del]

definition processStreamingThinkDelta ::
  "string \<Rightarrow> think_ctx \<Rightarrow> string option \<times> string option \<times> think_ctx" where
  "processStreamingThinkDelta delta ctx =
     (let (r, c, i, b) = think_loop (insideThink ctx) (t_buffer ctx @ delta)
      in (str_or_null r, str_or_null c, ctx\<lparr>insideThink := i, t_buffer := b\<rparr>))"

text \<open>
  A streaming delta, as far as the parser looks at it: its \<open>content\<close>, which is a string or something
  else, and its \<open>reasoning_content\<close>.
\<close>

datatype delta_content = Text string | Not_text

record delta =
  d_content :: delta_content
  reasoning_content :: "string option"

definition applyThinkTag :: "think_ctx \<Rightarrow> delta \<Rightarrow> bool \<times> delta \<times> think_ctx" where
  "applyThinkTag ctx d =
     (case d_content d of
        Not_text \<Rightarrow> (False, d, ctx)
      | Text s \<Rightarrow>
          if \<not> t_enabled ctx then (False, d, ctx)
          else if \<not> t_active ctx \<and> \<not> containsOrMayEndWithThinkOpenTag s then (False, d, ctx)
          else
            let (r, c, ctx1) = processStreamingThinkDelta s (ctx\<lparr>t_active := True\<rparr>);
                d1 = d\<lparr>d_content := Text (nullish c [])\<rparr>
            in (True, (if r \<noteq> None then d1\<lparr>reasoning_content := r\<rparr> else d1), ctx1))"

definition flushThinkBuffer :: "think_ctx \<Rightarrow> string option \<times> string option \<times> think_ctx" where
  "flushThinkBuffer ctx =
     (if t_buffer ctx = [] then (None, None, ctx)
      else if insideThink ctx
      then (Some (t_buffer ctx), None, ctx\<lparr>t_buffer := []\<rparr>)
      else (None, Some (t_buffer ctx), ctx\<lparr>t_buffer := []\<rparr>))"

definition STREAM_SUMMARY_TEXT_LIMIT :: nat where
  "STREAM_SUMMARY_TEXT_LIMIT = 64 * 1024"

definition appendBoundedText :: "string \<Rightarrow> string \<Rightarrow> string" where
  "appendBoundedText current next =
     (if next = [] then current
      else if length current \<ge> STREAM_SUMMARY_TEXT_LIMIT
      then (if STREAM_SUMMARY_TEXT_LIMIT \<le> length next
            then slice_last STREAM_SUMMARY_TEXT_LIMIT next
            else slice_last (STREAM_SUMMARY_TEXT_LIMIT - length next) current @ next)
      else if length (current @ next) \<le> STREAM_SUMMARY_TEXT_LIMIT then current @ next
      else slice_last STREAM_SUMMARY_TEXT_LIMIT (current @ next))"

record flush_result =
  f_delta_reasoning :: "string option"
  f_delta_content :: "string option"
  f_reasoning :: string
  f_content :: string
  addedLength :: nat

definition flushThink :: "think_ctx \<Rightarrow> string \<Rightarrow> string \<Rightarrow> flush_result option \<times> think_ctx" where
  "flushThink ctx accReasoning accContent =
     (if \<not> t_enabled ctx \<or> \<not> t_active ctx then (None, ctx)
      else let (r, c, ctx1) = flushThinkBuffer ctx in
        if r = None \<and> c = None then (None, ctx1)
        else (Some \<lparr>f_delta_reasoning = r, f_delta_content = c,
                    f_reasoning = appendBoundedText accReasoning (nullish r []),
                    f_content = appendBoundedText accContent (nullish c []),
                    addedLength = length (nullish r []) + length (nullish c [])\<rparr>, ctx1))"

section \<open>The whole text at once\<close>

function think_split :: "bool \<Rightarrow> string \<Rightarrow> string \<times> string" where
  "think_split inside s =
     (if inside then
        (case indexOf THINK_CLOSE s of
           None \<Rightarrow> (s, [])
         | Some i \<Rightarrow> let (r, c) = think_split False (drop (i + length THINK_CLOSE) s)
                    in (take i s @ r, c))
      else
        (case indexOf THINK_OPEN s of
           None \<Rightarrow> ([], s)
         | Some i \<Rightarrow> let (r, c) = think_split True (drop (i + length THINK_OPEN) s)
                    in (r, take i s @ c)))"
  by pat_completeness auto
termination
  by (relation "measure (\<lambda>(inside, s). length s)")
    (auto simp: THINK_OPEN_def THINK_CLOSE_def dest: indexOf_le)

declare think_split.simps [simp del]

definition tag :: "bool \<Rightarrow> string" where
  "tag inside = (if inside then THINK_CLOSE else THINK_OPEN)"

text \<open>Text of the current kind put in front of a result.\<close>

definition emit :: "bool \<Rightarrow> string \<Rightarrow> string \<times> string \<Rightarrow> string \<times> string" where
  "emit inside t p = (if inside then (t @ fst p, snd p) else (fst p, t @ snd p))"

definition joined :: "string \<times> string \<Rightarrow> string \<times> string \<Rightarrow> string \<times> string" where
  "joined p q = (fst p @ fst q, snd p @ snd q)"

lemma tag_nonempty [simp]: "tag i \<noteq> []" "0 < length (tag i)"
  by (simp_all add: tag_def THINK_OPEN_def THINK_CLOSE_def)

lemma emit_joined: "joined (emit i t p) q = emit i t (joined p q)"
  by (simp add: joined_def emit_def)

lemma emit_append [simp]: "emit i (t @ u) p = emit i t (emit i u p)"
  by (simp add: emit_def)

lemma emit_Nil [simp]: "emit i [] p = p"
  by (simp add: emit_def)

lemma joined_Nil [simp]: "joined ([], []) p = p"
  by (simp add: joined_def)

lemma joined_assoc: "joined (joined p q) r = joined p (joined q r)"
  by (simp add: joined_def)

lemma think_split_unfold:
  "think_split inside s =
     (case indexOf (tag inside) s of
        None \<Rightarrow> emit inside s ([], [])
      | Some i \<Rightarrow> emit inside (take i s) (think_split (\<not> inside) (drop (i + length (tag inside)) s)))"
  by (subst think_split.simps) (auto simp: tag_def emit_def split: option.split prod.split)

lemma think_loop_unfold:
  "think_loop inside buf =
     (case indexOf (tag inside) buf of
        None \<Rightarrow>
          (let keep = (if length buf > length (tag inside) then length (tag inside) - 1 else length buf);
               p = emit inside (slice_but_last keep buf) ([], [])
           in (fst p, snd p, inside, slice_last keep buf))
      | Some i \<Rightarrow>
          let (r, c, rest) = think_loop (\<not> inside) (drop (i + length (tag inside)) buf);
              p = emit inside (take i buf) (r, c)
          in (fst p, snd p, rest))"
  by (subst think_loop.simps)
    (auto simp: tag_def emit_def slice_but_last_def slice_last_def Let_def THINK_OPEN_def THINK_CLOSE_def
      split: option.split prod.split)

text \<open>Text in which no tag starts can be emitted before the rest is seen.\<close>

lemma think_split_emit:
  assumes "\<forall>j<k. \<not> prefix (tag i) (drop j s)" and "k \<le> length s"
  shows "think_split i s = emit i (take k s) (think_split i (drop k s))"
proof -
  note at = indexOf_drop [OF assms]
  show ?thesis
  proof (cases "indexOf (tag i) (drop k s)")
    case None
    then show ?thesis
      using at by (simp add: think_split_unfold [of i s] think_split_unfold [of i "drop k s"]
          flip: emit_append)
  next
    case (Some m)
    have "take (k + m) s = take k s @ take m (drop k s)" by (rule take_add)
    moreover have "m + length (tag i) + k = k + m + length (tag i)" by simp
    ultimately show ?thesis
      using at Some by (simp add: think_split_unfold [of i s] think_split_unfold [of i "drop k s"]
          add.assoc add.commute [of _ k])
  qed
qed

lemma no_early_tag:
  assumes "indexOf p buf = None" and "p \<noteq> []"
    and "k = length buf - (if length buf > length p then length p - 1 else length buf)"
  shows "\<forall>j<k. \<not> prefix p (drop j (buf @ t))"
proof (intro allI impI)
  fix j assume "j < k"
  then have "j + length p \<le> length buf" using assms(2,3) by (auto split: if_splits)
  then show "\<not> prefix p (drop j (buf @ t))"
    using assms(1) prefix_drop_append [of j p buf t] by (auto simp: indexOf_None_iff)
qed

lemma think_loop_split:
  "think_loop i buf = (r, c, i', b) \<Longrightarrow>
     think_split i (buf @ t) = joined (r, c) (think_split i' (b @ t)) \<and> indexOf (tag i') b = None"
proof (induction i buf arbitrary: r c rule: think_loop.induct)
  case (1 i buf)
  show ?case
  proof (cases "indexOf (tag i) buf")
    case None
    define keep where
      "keep = (if length buf > length (tag i) then length (tag i) - 1 else length buf)"
    have out: "(r, c) = emit i (slice_but_last keep buf) ([], [])" "i' = i" "b = slice_last keep buf"
      using "1.prems" None
      by (auto simp: think_loop_unfold [of i buf] Let_def keep_def [symmetric])
    have k: "length buf - keep \<le> length (buf @ t)" by simp
    have quiet: "\<forall>j<length buf - keep. \<not> prefix (tag i) (drop j (buf @ t))"
      by (rule no_early_tag [OF None]) (simp_all add: keep_def)
    have "drop (length buf - keep) (buf @ t) = b @ t" and
        "take (length buf - keep) (buf @ t) = slice_but_last keep buf"
      by (simp_all add: out slice_last_def slice_but_last_def)
    then have "think_split i (buf @ t) = joined (r, c) (think_split i' (b @ t))"
      using think_split_emit [OF quiet k] by (simp add: out emit_joined)
    moreover have "indexOf (tag i') b = None"
      using None by (auto simp: out indexOf_None_iff slice_last_def)
    ultimately show ?thesis by simp
  next
    case (Some m)
    obtain r1 c1 where rec: "think_loop (\<not> i) (drop (m + length (tag i)) buf) = (r1, c1, i', b)"
      and out: "(r, c) = emit i (take m buf) (r1, c1)"
      using "1.prems" Some
      by (auto simp: think_loop_unfold [of i buf] Let_def split: prod.splits)
    have "buf \<noteq> []" using Some by auto
    then have ih: "think_split (\<not> i) (drop (m + length (tag i)) buf @ t)
          = joined (r1, c1) (think_split i' (b @ t)) \<and> indexOf (tag i') b = None"
      using "1.IH" rec Some by (cases i) (simp_all add: tag_def)
    have "m + length (tag i) \<le> length buf" by (rule indexOf_le [OF Some])
    then show ?thesis
      using ih indexOf_append [OF Some, of t]
      by (simp add: think_split_unfold [of i "buf @ t"] out emit_joined)
  qed
qed

section \<open>A run of the streaming parser\<close>

definition text_of :: "delta \<Rightarrow> string" where
  "text_of d = (case d_content d of Text s \<Rightarrow> s | Not_text \<Rightarrow> [])"

fun run_deltas :: "think_ctx \<Rightarrow> delta list \<Rightarrow> delta list \<times> think_ctx" where
  "run_deltas ctx [] = ([], ctx)"
| "run_deltas ctx (d # ds) =
     (let (_, d1, ctx1) = applyThinkTag ctx d; (ds1, ctx2) = run_deltas ctx1 ds in (d1 # ds1, ctx2))"

text \<open>What a client that concatenates the two fields of all deltas has at the end of the stream.\<close>

definition streamed :: "think_ctx \<Rightarrow> delta list \<Rightarrow> string \<times> string" where
  "streamed ctx ds =
     (let (out, ctx1) = run_deltas ctx ds;
          flushed = (case fst (flushThink ctx1 [] []) of
                       None \<Rightarrow> ([], [])
                     | Some f \<Rightarrow> (nullish (f_delta_reasoning f) [], nullish (f_delta_content f) []))
      in joined (concat (map (\<lambda>d. nullish (reasoning_content d) []) out), concat (map text_of out))
                flushed)"

definition ctx_ok :: "think_ctx \<Rightarrow> bool" where
  "ctx_ok ctx \<longleftrightarrow> t_enabled ctx \<and> indexOf (tag (insideThink ctx)) (t_buffer ctx) = None
     \<and> (t_active ctx \<or> \<not> insideThink ctx \<and> t_buffer ctx = [])"

lemma nullish_str_or_null [simp]: "nullish (str_or_null s) [] = s"
  by (simp add: str_or_null_def)

lemma streamed_Nil: "ctx_ok ctx \<Longrightarrow> streamed ctx [] = think_split (insideThink ctx) (t_buffer ctx)"
  by (auto simp: streamed_def flushThink_def flushThinkBuffer_def ctx_ok_def joined_def emit_def tag_def
      think_split_unfold [of _ "t_buffer ctx"] think_split_unfold [of _ "[]"] split: option.split)

lemma streamed_Cons:
  assumes "applyThinkTag ctx d = (p, d1, ctx1)"
  shows "streamed ctx (d # ds) = joined (nullish (reasoning_content d1) [], text_of d1) (streamed ctx1 ds)"
  using assms by (auto simp: streamed_def Let_def joined_assoc joined_def split: prod.split)

text \<open>
  A chunk that neither contains an open tag nor ends in the beginning of one: no open tag starts in
  it, whatever follows.
\<close>

lemma partials: "p \<in> set THINK_OPEN_PARTIALS \<longleftrightarrow> (\<exists>n. 0 < n \<and> n < length THINK_OPEN \<and> p = take n THINK_OPEN)"
proof -
  have "p \<in> set THINK_OPEN_PARTIALS \<longleftrightarrow>
      (\<exists>i<length THINK_OPEN - 1. p = take (Suc i) THINK_OPEN)"
    by (auto simp: THINK_OPEN_PARTIALS_def)
  also have "\<dots> \<longleftrightarrow> (\<exists>n. 0 < n \<and> n < length THINK_OPEN \<and> p = take n THINK_OPEN)"
    by (metis Suc_pred' less_diff_conv Suc_eq_plus1 zero_less_Suc)
  finally show ?thesis .
qed

lemma no_tag_starts:
  assumes "\<not> containsOrMayEndWithThinkOpenTag s"
  shows "\<forall>j<length s. \<not> prefix THINK_OPEN (drop j (s @ t))"
proof (intro allI impI notI)
  fix j assume j: "j < length s" and pre: "prefix THINK_OPEN (drop j (s @ t))"
  show False
  proof (cases "j + length THINK_OPEN \<le> length s")
    case True
    then have "prefix THINK_OPEN (drop j s)" using pre prefix_drop_append by blast
    then have "indexOf THINK_OPEN s \<noteq> None" using j by (auto simp: indexOf_None_iff intro!: exI [of _ j])
    with assms show False by (simp add: containsOrMayEndWithThinkOpenTag_def str_includes_def)
  next
    case False
    define n where "n = length s - j"
    have n: "0 < n" "n < length THINK_OPEN" using False j by (simp_all add: n_def)
    obtain z where "drop j (s @ t) = THINK_OPEN @ z" using pre by (auto simp: prefix_def)
    then have "take n (drop j (s @ t)) = take n THINK_OPEN" using n(2) by simp
    then have "drop j s = take n THINK_OPEN" using j by (simp add: n_def)
    then have "take n THINK_OPEN \<in> set THINK_OPEN_PARTIALS" "suffix (take n THINK_OPEN) s"
      using n by (auto simp: partials) (metis suffix_drop)
    with assms show False
      by (auto simp: containsOrMayEndWithThinkOpenTag_def list_ex_iff)
  qed
qed

lemma apply_streamed:
  assumes "ctx_ok ctx" and "reasoning_content d = None" and "applyThinkTag ctx d = (p, d1, ctx1)"
  shows "ctx_ok ctx1 \<and> think_split (insideThink ctx) (t_buffer ctx @ text_of d @ t) =
    joined (nullish (reasoning_content d1) [], text_of d1)
      (think_split (insideThink ctx1) (t_buffer ctx1 @ t))"
proof (cases "d_content d")
  case Not_text
  then have "d1 = d" "ctx1 = ctx" using assms(3) by (simp_all add: applyThinkTag_def)
  then show ?thesis using assms(1,2) Not_text by (simp add: text_of_def)
next
  case (Text s)
  show ?thesis
  proof (cases "t_active ctx \<or> containsOrMayEndWithThinkOpenTag s")
    case True
    obtain r c i b where loop: "think_loop (insideThink ctx) (t_buffer ctx @ s) = (r, c, i, b)"
      by (metis prod_cases4)
    then have d1: "nullish (reasoning_content d1) [] = r" "text_of d1 = c" and
        ctx1: "ctx1 = ctx\<lparr>t_active := True, insideThink := i, t_buffer := b\<rparr>"
      using assms Text True
      by (auto simp: applyThinkTag_def processStreamingThinkDelta_def ctx_ok_def text_of_def
          str_or_null_def split: if_splits)
    moreover have "text_of d = s" by (simp add: text_of_def Text)
    ultimately show ?thesis
      using think_loop_split [OF loop, of t] assms(1) by (simp add: ctx_ok_def)
  next
    case False
    then have same: "d1 = d" "ctx1 = ctx" "\<not> insideThink ctx" "t_buffer ctx = []"
      using assms Text by (auto simp: applyThinkTag_def ctx_ok_def)
    have "think_split False (s @ t) = emit False s (think_split False t)"
      using think_split_emit [of "length s" False "s @ t"] no_tag_starts [of s t] False
      by (simp add: tag_def)
    then show ?thesis using same assms(1,2) by (simp add: text_of_def Text joined_def emit_def)
  qed
qed

lemma streamed_split:
  "ctx_ok ctx \<Longrightarrow> list_all (\<lambda>d. reasoning_content d = None) ds \<Longrightarrow>
     streamed ctx ds = think_split (insideThink ctx) (t_buffer ctx @ concat (map text_of ds))"
proof (induction ds arbitrary: ctx)
  case Nil
  then show ?case by (simp add: streamed_Nil)
next
  case (Cons d ds)
  obtain p d1 ctx1 where a: "applyThinkTag ctx d = (p, d1, ctx1)" by (metis prod_cases3)
  from apply_streamed [OF Cons.prems(1) _ a, of "concat (map text_of ds)"] Cons.prems(2)
  show ?case using Cons.IH [of ctx1] Cons.prems(2) by (simp add: streamed_Cons [OF a])
qed

text \<open>
  C27. Chunking does not matter. However a text is cut into deltas, what the streaming parser has
  delivered at the end of the stream, as reasoning and as content, over all deltas and the final flush,
  is what a parser that sees the whole text delivers: nothing is lost, duplicated or moved to the other
  field, also when a tag is cut in two.
\<close>

theorem streaming_equals_whole:
  assumes "list_all (\<lambda>d. reasoning_content d = None) ds"
  shows "streamed (initThinkState True True) ds = think_split False (concat (map text_of ds))"
  using streamed_split [of "initThinkState True True" ds] assms
  by (simp add: ctx_ok_def initThinkState_def tag_def THINK_OPEN_def)

lemma streaming_equals_whole_witness:
  "streamed (initThinkState True True)
     (map (\<lambda>s. \<lparr>d_content = Text s, reasoning_content = None\<rparr>) [''a<th'', ''ink>b</thi'', ''nk>c''])
   = (''b'', ''ac'')"
proof -
  have "think_split False ''a<think>b</think>c'' = (''b'', ''ac'')"
    by (simp add: think_split_unfold tag_def THINK_OPEN_def THINK_CLOSE_def emit_def)
  then show ?thesis
    using streaming_equals_whole [of "map (\<lambda>s. \<lparr>d_content = Text s, reasoning_content = None\<rparr>)
      [''a<th'', ''ink>b</thi'', ''nk>c'']"]
    by (simp add: text_of_def)
qed

section \<open>The bounded accumulator\<close>

lemma appendBoundedText_last:
  assumes "length current \<le> STREAM_SUMMARY_TEXT_LIMIT"
  shows "appendBoundedText current next = slice_last STREAM_SUMMARY_TEXT_LIMIT (current @ next)"
proof (cases "current = [] \<or> next = []")
  case True
  then show ?thesis
    using assms by (auto simp: appendBoundedText_def slice_last_all STREAM_SUMMARY_TEXT_LIMIT_def slice_last_def)
next
  case False
  then have "0 < length current" "0 < length next" by simp_all
  then show ?thesis
    using assms False
    by (auto simp: appendBoundedText_def slice_last_append slice_last_all simp del: length_greater_0_conv)
qed

text \<open>
  C28. The bounded accumulator is exact: fed chunk by chunk, it holds the last 65536 characters of the
  whole text, neither more nor fewer, wherever the chunks end and however long a single one is.
\<close>

theorem bounded_accumulator_exact:
  "foldl appendBoundedText [] chunks = slice_last STREAM_SUMMARY_TEXT_LIMIT (concat chunks)"
proof (induction chunks rule: rev_induct)
  case Nil
  then show ?case by (simp add: slice_last_def)
next
  case (snoc c cs)
  let ?n = STREAM_SUMMARY_TEXT_LIMIT
  have "slice_last ?n (slice_last ?n (concat cs) @ c) = slice_last ?n (concat cs @ c)"
    by (cases "?n \<le> length c") (auto simp: slice_last_append slice_last_slice_last)
  then show ?case using snoc by (simp add: appendBoundedText_last)
qed

text \<open>
  \<open>extractThinkTags\<close> gives up after ten blocks: the markup of an eleventh one stays in what it returns
  as the cleaned content.
\<close>

lemma extract_leaves_eleventh_block:
  "snd (extractThinkTags (concat (replicate 11 ''<think>a</think>''))) = ''<think>a</think>''"
  by code_simp

end
