(* ===== verification/IPFilter.thy ===== *)
theory IPFilter
  imports JsString "HOL-Library.Word"
begin

text \<open>
  The IP access filter, \<open>src/open-sse/services/ipFilter.ts\<close>: the configuration (kept in memory and in one
  row of the database), temporary bans, the three modes, and the matching of an address against exact
  entries, CIDR blocks and wildcards.

  Bit arithmetic is JavaScript's: operands are 32-bit words, a shift count is taken modulo 32. The row is
  \<open>Row\<close> with the persisted fields, \<open>No_row\<close> before anything was saved, \<open>Unreachable\<close> when the database
  cannot be used (loading then leaves memory as it is and saving does nothing). \<open>isIP\<close> of \<open>node:net\<close> is
  modelled by its grammar: dotted quads without leading zeros, and IPv6 groups with one \<open>::\<close>, an optional
  embedded quad and an optional zone.

  The lemmas: which addresses a CIDR block contains, what each mode decides, and that a saved
  configuration governs the next process. The Express wrapper around \<open>checkIP\<close> is not modelled.
\<close>

unbundle bit_operations_syntax

section \<open>Addresses\<close>

definition mapped_prefix :: string where
  "mapped_prefix = ''::ffff:''"

text \<open>\<open>ip.replace(/^::ffff:/, "").trim()\<close>; a missing address is the empty string.\<close>

definition normalizeIP :: "string \<Rightarrow> string" where
  "normalizeIP ip = trim (if prefix mapped_prefix ip then drop (length mapped_prefix) ip else ip)"

fun ip_step :: "32 word option \<Rightarrow> string \<Rightarrow> 32 word option" where
  "ip_step None p = None"
| "ip_step (Some num) p =
     (case parseInt p of
        None \<Rightarrow> None
      | Some n \<Rightarrow> if n < 0 \<or> n > 255 then None else Some (push_bit 8 num OR of_int n))"

definition ipToNum :: "string \<Rightarrow> 32 word option" where
  "ipToNum ip =
     (let parts = split_on (CHR ''.'') ip in
      if length parts \<noteq> 4 then None else foldl ip_step (Some 0) parts)"

definition shift_left :: "32 word \<Rightarrow> int \<Rightarrow> 32 word" where
  "shift_left w n = push_bit (nat (n mod 32)) w"

definition matchesCIDR :: "string \<Rightarrow> string \<Rightarrow> bool" where
  "matchesCIDR ip cidr =
     (case split_on (CHR ''/'') cidr of
        rng # bits # _ \<Rightarrow>
          (case parseInt bits of
             None \<Rightarrow> False
           | Some m \<Rightarrow>
               if m < 0 \<or> m > 32 then False
               else case (ipToNum ip, ipToNum rng) of
                      (Some ipNum, Some rangeNum) \<Rightarrow>
                        let maskBits = shift_left (-1) (32 - m)
                        in ipNum AND maskBits = rangeNum AND maskBits
                    | _ \<Rightarrow> False)
      | _ \<Rightarrow> False)"

definition matchesWildcard :: "string \<Rightarrow> string \<Rightarrow> bool" where
  "matchesWildcard ip pat =
     (let ipParts = split_on (CHR ''.'') ip; patParts = split_on (CHR ''.'') pat in
      if length ipParts \<noteq> 4 \<or> length patParts \<noteq> 4 then False
      else list_all (\<lambda>(part, q). q = ''*'' \<or> part = q) (zip ipParts patParts))"

definition entry_matches :: "string \<Rightarrow> string \<Rightarrow> bool" where
  "entry_matches ip entry \<longleftrightarrow>
     (CHR ''/'' \<in> set entry \<and> matchesCIDR ip entry)
   \<or> (CHR ''*'' \<in> set entry \<and> matchesWildcard ip entry)"

definition matchesAny :: "string \<Rightarrow> string list \<Rightarrow> bool" where
  "matchesAny ip ipSet \<longleftrightarrow> ip \<in> set ipSet \<or> list_ex (entry_matches ip) ipSet"

section \<open>Configuration\<close>

record ip_settings =
  ip_enabled :: bool
  ip_mode :: string
  blacklist :: "string list"
  whitelist :: "string list"

datatype settings_row = Unreachable | No_row | Row ip_settings

record temp_ban =
  until :: time
  ban_reason :: string

record ip_filter =
  settings :: ip_settings
  tempBans :: "(string \<times> temp_ban) list"
  saved :: settings_row

definition default_settings :: ip_settings where
  "default_settings = \<lparr>ip_enabled = False, ip_mode = ''blacklist'', blacklist = [], whitelist = []\<rparr>"

definition ensureLoaded :: "ip_filter \<Rightarrow> ip_filter" where
  "ensureLoaded f = (case saved f of Row r \<Rightarrow> f\<lparr>settings := r\<rparr> | _ \<Rightarrow> f)"

definition persist :: "ip_filter \<Rightarrow> ip_filter" where
  "persist f = (if saved f = Unreachable then f else f\<lparr>saved := Row (settings f)\<rparr>)"

definition sweepTempBans :: "time \<Rightarrow> ip_filter \<Rightarrow> ip_filter" where
  "sweepTempBans now f = f\<lparr>tempBans := filter (\<lambda>(_, b). \<not> now \<ge> until b) (tempBans f)\<rparr>"

text \<open>\<open>new Set(xs)\<close> on a list, and \<open>Set.add\<close>.\<close>

definition set_add :: "string \<Rightarrow> string list \<Rightarrow> string list" where
  "set_add x xs = (if x \<in> set xs then xs else xs @ [x])"

definition new_set :: "string list \<Rightarrow> string list" where
  "new_set xs = fold set_add xs []"

definition configureIPFilter ::
  "bool option \<Rightarrow> string option \<Rightarrow> string list option \<Rightarrow> string list option \<Rightarrow> ip_filter \<Rightarrow> ip_filter" where
  "configureIPFilter en md bl wl f =
     (let f1 = ensureLoaded f;
          s1 = (case en of None \<Rightarrow> settings f1 | Some b \<Rightarrow> (settings f1)\<lparr>ip_enabled := b\<rparr>);
          s2 = (case md of Some m \<Rightarrow> if m = [] then s1 else s1\<lparr>ip_mode := m\<rparr> | None \<Rightarrow> s1);
          s3 = (case bl of None \<Rightarrow> s2 | Some xs \<Rightarrow> s2\<lparr>blacklist := new_set xs\<rparr>);
          s4 = (case wl of None \<Rightarrow> s3 | Some xs \<Rightarrow> s3\<lparr>whitelist := new_set xs\<rparr>)
      in persist (f1\<lparr>settings := s4\<rparr>))"

definition tempBanIP :: "time \<Rightarrow> string \<Rightarrow> int \<Rightarrow> string \<Rightarrow> ip_filter \<Rightarrow> ip_filter" where
  "tempBanIP now ip durationMs reason f =
     f\<lparr>tempBans := map_set (normalizeIP ip) \<lparr>until = now + durationMs, ban_reason = reason\<rparr> (tempBans f)\<rparr>"

definition removeTempBan :: "string \<Rightarrow> ip_filter \<Rightarrow> ip_filter" where
  "removeTempBan ip f = f\<lparr>tempBans := map_del (normalizeIP ip) (tempBans f)\<rparr>"

definition change_settings :: "(ip_settings \<Rightarrow> ip_settings) \<Rightarrow> ip_filter \<Rightarrow> ip_filter" where
  "change_settings g f = (let f1 = ensureLoaded f in persist (f1\<lparr>settings := g (settings f1)\<rparr>))"

definition addToBlacklist :: "string \<Rightarrow> ip_filter \<Rightarrow> ip_filter" where
  "addToBlacklist ip = change_settings (\<lambda>s. s\<lparr>blacklist := set_add (normalizeIP ip) (blacklist s)\<rparr>)"

definition removeFromBlacklist :: "string \<Rightarrow> ip_filter \<Rightarrow> ip_filter" where
  "removeFromBlacklist ip = change_settings (\<lambda>s. s\<lparr>blacklist := removeAll (normalizeIP ip) (blacklist s)\<rparr>)"

definition addToWhitelist :: "string \<Rightarrow> ip_filter \<Rightarrow> ip_filter" where
  "addToWhitelist ip = change_settings (\<lambda>s. s\<lparr>whitelist := set_add (normalizeIP ip) (whitelist s)\<rparr>)"

definition removeFromWhitelist :: "string \<Rightarrow> ip_filter \<Rightarrow> ip_filter" where
  "removeFromWhitelist ip = change_settings (\<lambda>s. s\<lparr>whitelist := removeAll (normalizeIP ip) (whitelist s)\<rparr>)"

section \<open>Decisions\<close>

datatype ip_decision = Allowed | Denied string

definition decide_mode :: "string \<Rightarrow> ip_settings \<Rightarrow> ip_decision" where
  "decide_mode ip s =
     (if ip_mode s = ''whitelist''
      then (if \<not> matchesAny ip (whitelist s) then Denied ''IP not in whitelist'' else Allowed)
      else if ip_mode s = ''whitelist-priority''
      then (if matchesAny ip (whitelist s) then Allowed
            else if matchesAny ip (blacklist s) then Denied ''IP blacklisted'' else Allowed)
      else (if matchesAny ip (blacklist s) then Denied ''IP blacklisted'' else Allowed))"

definition checkIP :: "time \<Rightarrow> string \<Rightarrow> ip_filter \<Rightarrow> ip_decision \<times> ip_filter" where
  "checkIP now ip f =
     (let f1 = ensureLoaded f; s = settings f1; n = normalizeIP ip in
      if \<not> ip_enabled s \<or> ip = [] then (Allowed, f1)
      else case map_of (tempBans f1) n of
             Some ban \<Rightarrow>
               if now < until ban then (Denied (''Temporarily banned: '' @ ban_reason ban), f1)
               else (decide_mode n s, f1\<lparr>tempBans := map_del n (tempBans f1)\<rparr>)
           | None \<Rightarrow> (decide_mode n s, f1))"

section \<open>Requests\<close>

text \<open>\<open>isIP\<close>: a decimal octet, a dotted quad, an IPv6 group, IPv6 with an optional zone.\<close>

definition v4_octet :: "string \<Rightarrow> bool" where
  "v4_octet s \<longleftrightarrow> s \<noteq> [] \<and> length s \<le> 3 \<and> list_all (\<lambda>c. digit c \<noteq> None) s
     \<and> (length s > 1 \<longrightarrow> hd s \<noteq> CHR ''0'') \<and> read_digits 0 s \<le> 255"

definition isIPv4 :: "string \<Rightarrow> bool" where
  "isIPv4 s \<longleftrightarrow> (let ps = split_on (CHR ''.'') s in length ps = 4 \<and> list_all v4_octet ps)"

definition hex_digit :: "char \<Rightarrow> bool" where
  "hex_digit c \<longleftrightarrow> (let n = of_char c :: nat in
     (48 \<le> n \<and> n \<le> 57) \<or> (65 \<le> n \<and> n \<le> 70) \<or> (97 \<le> n \<and> n \<le> 102))"

definition v6_group :: "string \<Rightarrow> bool" where
  "v6_group s \<longleftrightarrow> s \<noteq> [] \<and> length s \<le> 4 \<and> list_all hex_digit s"

text \<open>The number of 16-bit groups of a sequence; at its end it may embed a quad (two groups).\<close>

definition v6_groups :: "bool \<Rightarrow> string \<Rightarrow> nat option" where
  "v6_groups quad_ok s =
     (if s = [] then Some 0
      else let ps = split_on (CHR '':'') s in
        if list_all v6_group ps then Some (length ps)
        else if quad_ok \<and> list_all v6_group (butlast ps) \<and> isIPv4 (last ps) then Some (length ps + 1)
        else None)"

definition v6_body :: "string \<Rightarrow> bool" where
  "v6_body s \<longleftrightarrow> (case indexOf ''::'' s of
     None \<Rightarrow> s \<noteq> [] \<and> v6_groups True s = Some 8
   | Some i \<Rightarrow> (case (v6_groups False (take i s), v6_groups True (drop (i + 2) s)) of
                (Some m, Some n) \<Rightarrow> m + n \<le> 7 | _ \<Rightarrow> False))"

definition zone_char :: "char \<Rightarrow> bool" where
  "zone_char c \<longleftrightarrow> (let n = of_char c :: nat in
     (48 \<le> n \<and> n \<le> 57) \<or> (65 \<le> n \<and> n \<le> 90) \<or> (97 \<le> n \<and> n \<le> 122)
     \<or> c = CHR ''-'' \<or> c = CHR ''.'' \<or> c = CHR '':'')"

definition isIPv6 :: "string \<Rightarrow> bool" where
  "isIPv6 s \<longleftrightarrow> (case indexOf ''%'' s of
     None \<Rightarrow> v6_body s
   | Some i \<Rightarrow> v6_body (take i s) \<and> drop (Suc i) s \<noteq> [] \<and> list_all zone_char (drop (Suc i) s))"

definition isIP :: "string \<Rightarrow> nat" where
  "isIP s = (if isIPv4 s then 4 else if isIPv6 s then 6 else 0)"

definition pickFirstValidIp :: "string option \<Rightarrow> string option" where
  "pickFirstValidIp raw =
     (case raw of None \<Rightarrow> None
      | Some v \<Rightarrow> if trim v = [] then None
          else find (\<lambda>n. n \<noteq> [] \<and> isIP n \<noteq> 0) (map normalizeIP (split_on (CHR '','') v)))"

record http_request =
  cf_connecting_ip :: "string option"
  x_forwarded_for :: "string option"
  x_real_ip :: "string option"
  req_ip :: "string option"
  remoteAddress :: "string option"

definition first_some :: "string option list \<Rightarrow> string option" where
  "first_some xs = (case filter (\<lambda>x. x \<noteq> None) xs of [] \<Rightarrow> None | x # _ \<Rightarrow> x)"

definition request_ip :: "http_request \<Rightarrow> string option \<Rightarrow> string" where
  "request_ip r trustedPeerIp =
     nullish (first_some
       [pickFirstValidIp trustedPeerIp, pickFirstValidIp (cf_connecting_ip r),
        pickFirstValidIp (x_forwarded_for r), pickFirstValidIp (x_real_ip r),
        (let n = normalizeIP (nullish (req_ip r) []) in if n = [] then None else Some n)]) ''unknown''"

definition checkRequestIP ::
  "time \<Rightarrow> http_request \<Rightarrow> string option \<Rightarrow> ip_filter \<Rightarrow> ip_decision \<times> ip_filter" where
  "checkRequestIP now r trustedPeerIp f = checkIP now (request_ip r trustedPeerIp) f"

definition extractClientIP :: "http_request \<Rightarrow> string" where
  "extractClientIP r =
     nullish (first_some
       [pickFirstValidIp (cf_connecting_ip r), pickFirstValidIp (x_forwarded_for r),
        pickFirstValidIp (x_real_ip r), pickFirstValidIp (remoteAddress r),
        pickFirstValidIp (req_ip r)]) ''unknown''"

section \<open>CIDR blocks\<close>

definition quad :: "nat \<Rightarrow> nat \<Rightarrow> nat \<Rightarrow> nat \<Rightarrow> string" where
  "quad a b c d = decimal a @ ''.'' @ decimal b @ ''.'' @ decimal c @ ''.'' @ decimal d"

lemma split_quad: "split_on (CHR ''.'') (quad a b c d) = [decimal a, decimal b, decimal c, decimal d]"
  by (simp add: quad_def split_on_append decimal_no split_on_plain)

lemma or_octet:
  fixes w :: "32 word"
  assumes "n < 256"
  shows "push_bit 8 w OR of_nat n = w * 256 + of_nat n"
proof -
  have n: "take_bit 8 n = n" using assms by (simp add: take_bit_nat_eq_self_iff)
  have "push_bit 8 w AND (of_nat n :: 32 word) = 0"
    by (rule bit_word_eqI) (use n in \<open>auto simp: bit_simps, metis bit_take_bit_iff leD\<close>)
  then have "push_bit 8 w OR (of_nat n :: 32 word) = push_bit 8 w + of_nat n"
    by (simp add: disjunctive_add_eq_or)
  then show ?thesis by (simp add: push_bit_eq_mult)
qed

lemma ipToNum_quad:
  assumes "a < 256" "b < 256" "c < 256" "d < 256"
  shows "ipToNum (quad a b c d) = Some (of_nat (((a * 256 + b) * 256 + c) * 256 + d))"
  using assms by (simp add: ipToNum_def split_quad or_octet)

definition quad_value :: "nat \<Rightarrow> nat \<Rightarrow> nat \<Rightarrow> nat \<Rightarrow> nat" where
  "quad_value a b c d = ((a * 256 + b) * 256 + c) * 256 + d"

lemma quad_value_less: "a < 256 \<Longrightarrow> b < 256 \<Longrightarrow> c < 256 \<Longrightarrow> d < 256 \<Longrightarrow> quad_value a b c d < 2 ^ 32"
  by (simp add: quad_value_def)

lemma drop_bit_high: "drop_bit k (x AND NOT (mask k)) = drop_bit k x" for x :: "32 word"
  by (rule bit_word_eqI) (auto simp: bit_simps dest: bit_imp_le_length)

lemma and_high_push: "x AND NOT (mask k) = push_bit k (drop_bit k x)" for x :: "32 word"
  by (rule bit_word_eqI) (auto simp: bit_simps dest: bit_imp_le_length)

lemma and_high_mask:
  fixes x y :: "32 word"
  shows "x AND push_bit k (-1) = y AND push_bit k (-1) \<longleftrightarrow> drop_bit k x = drop_bit k y"
  by simp (metis and_high_push drop_bit_high)

lemma drop_bit_of_nat_eq:
  fixes x y :: "32 word"
  assumes "u < 2 ^ 32" and "v < 2 ^ 32"
  shows "drop_bit k (of_nat u :: 32 word) = drop_bit k (of_nat v) \<longleftrightarrow> u div 2 ^ k = v div 2 ^ k"
proof -
  have n: "unat (drop_bit k (of_nat w :: 32 word)) = w div 2 ^ k" if "w < 2 ^ 32" for w
  proof -
    have "unat (of_nat w :: 32 word) = w" using that by (simp add: unsigned_of_nat take_bit_eq_mod)
    then show ?thesis unfolding unat_drop_bit_eq by (simp add: drop_bit_eq_div)
  qed
  show ?thesis using n [OF assms(1)] n [OF assms(2)] by (metis unsigned_word_eqI)
qed

lemma no_slash: "CHR ''/'' \<notin> set (quad a b c d)"
  by (simp add: quad_def decimal_no)

lemma split_cidr:
  "split_on (CHR ''/'') (quad a b c d @ ''/'' @ decimal m) = [quad a b c d, decimal m]"
  using split_on_append [OF no_slash, of a b c d "decimal m"] by (simp add: split_on_plain decimal_no)

lemma matchesCIDR_quads:
  assumes "a < 256" "b < 256" "c < 256" "d < 256" and "a' < 256" "b' < 256" "c' < 256" "d' < 256"
    and "m \<le> 32"
  shows "matchesCIDR (quad a b c d) (quad a' b' c' d' @ ''/'' @ decimal m) \<longleftrightarrow>
    (let k = nat ((32 - int m) mod 32)
     in quad_value a b c d div 2 ^ k = quad_value a' b' c' d' div 2 ^ k)"
proof -
  note n = ipToNum_quad [OF assms(1-4)] ipToNum_quad [OF assms(5-8)]
  have "matchesCIDR (quad a b c d) (quad a' b' c' d' @ ''/'' @ decimal m) \<longleftrightarrow>
      of_nat (quad_value a b c d) AND shift_left (-1) (32 - int m)
    = (of_nat (quad_value a' b' c' d') AND shift_left (-1) (32 - int m) :: 32 word)"
    using assms(9) unfolding matchesCIDR_def split_cidr by (simp add: n quad_value_def Let_def)
  then show ?thesis
    unfolding shift_left_def and_high_mask Let_def
    by (simp add: drop_bit_of_nat_eq [OF quad_value_less quad_value_less] assms)
qed

text \<open>
  C37. A CIDR entry \<open>a.b.c.d/m\<close> with a prefix of 1 to 32 bits contains exactly the addresses that agree
  with it on their first \<open>m\<close> bits: shifting and masking 32-bit words as the code does is dividing the
  addresses by the size of the block.
\<close>

theorem cidr_matches_block:
  assumes "a < 256" "b < 256" "c < 256" "d < 256" and "a' < 256" "b' < 256" "c' < 256" "d' < 256"
    and "1 \<le> m" "m \<le> 32"
  shows "matchesCIDR (quad a b c d) (quad a' b' c' d' @ ''/'' @ decimal m) \<longleftrightarrow>
     quad_value a b c d div 2 ^ (32 - m) = quad_value a' b' c' d' div 2 ^ (32 - m)"
proof -
  have "(32 - int m) mod 32 = 32 - int m"
    by (rule mod_pos_pos_trivial) (use assms(9,10) in auto)
  then have "nat ((32 - int m) mod 32) = 32 - m" using assms(10) by simp
  then show ?thesis unfolding matchesCIDR_quads [OF assms(1-8,10)] Let_def by simp
qed

lemma cidr_matches_block_witness:
  "matchesCIDR (quad 10 1 2 3) (quad 10 1 9 9 @ ''/'' @ decimal 16)
   \<and> \<not> matchesCIDR (quad 10 1 2 3) (quad 10 1 9 9 @ ''/'' @ decimal 24)"
  using cidr_matches_block [of 10 1 2 3 10 1 9 9 16] cidr_matches_block [of 10 1 2 3 10 1 9 9 24]
  by (simp add: quad_value_def)

text \<open>
  The block of all addresses contains one address. A shift by 32 places is a shift by none, so the
  mask of an entry \<open>a.b.c.d/0\<close> has all bits set: the entry matches its own address and no other, where
  it should match every one. Blocking or allowing \<open>0.0.0.0/0\<close> has no effect.
\<close>

theorem slash_zero_matches_itself_only:
  assumes "a < 256" "b < 256" "c < 256" "d < 256" and "a' < 256" "b' < 256" "c' < 256" "d' < 256"
  shows "matchesCIDR (quad a b c d) (quad a' b' c' d' @ ''/'' @ decimal 0)
     \<longleftrightarrow> quad_value a b c d = quad_value a' b' c' d'"
  unfolding matchesCIDR_quads [OF assms zero_le] Let_def by simp

lemma slash_zero_matches_itself_only_witness:
  "\<not> matchesCIDR (quad 203 0 113 7) (quad 0 0 0 0 @ ''/'' @ decimal 0)"
  using slash_zero_matches_itself_only [of 203 0 113 7 0 0 0 0] by (simp add: quad_value_def)

section \<open>Modes, bans and the saved configuration\<close>

text \<open>
  C38. What a check decides, in every mode. With the filter on, an address is allowed if and only if it is
  not under a running ban and, by mode, it is on the whitelist; or it is on the whitelist or off the
  blacklist; or (any other mode) it is off the blacklist.
\<close>

theorem check_decision:
  "fst (checkIP now ip f) = Allowed \<longleftrightarrow>
     (let f1 = ensureLoaded f; s = settings f1; n = normalizeIP ip in
      ip_enabled s \<and> ip \<noteq> [] \<longrightarrow>
        (case map_of (tempBans f1) n of Some ban \<Rightarrow> until ban \<le> now | None \<Rightarrow> True)
      \<and> (if ip_mode s = ''whitelist'' then matchesAny n (whitelist s)
         else if ip_mode s = ''whitelist-priority''
         then matchesAny n (whitelist s) \<or> \<not> matchesAny n (blacklist s)
         else \<not> matchesAny n (blacklist s)))"
  by (auto simp: checkIP_def decide_mode_def Let_def split: option.split)

lemma check_decision_witness:
  "fst (checkIP 0 ''10.0.0.9''
     \<lparr>settings = default_settings\<lparr>ip_enabled := True, blacklist := [''10.0.0.9'']\<rparr>, tempBans = [],
      saved = No_row\<rparr>) \<noteq> Allowed"
  unfolding check_decision
  by (simp add: ensureLoaded_def default_settings_def Let_def normalizeIP_def mapped_prefix_def
      trim_def js_space_def matchesAny_def)

text \<open>
  C39. A block survives a restart. Once an address is added to the blacklist while the database works,
  every process that shares the database, whatever it has in memory, refuses the address in blacklist
  mode with the filter on.
\<close>

theorem blacklisting_is_durable:
  assumes "saved f \<noteq> Unreachable" and "saved g = saved (addToBlacklist ip f)"
    and "ip_enabled (settings (ensureLoaded f))" and "ip_mode (settings (ensureLoaded f)) = ''blacklist''"
    and "ip \<noteq> []"
  shows "fst (checkIP now ip g) \<noteq> Allowed"
proof -
  have "saved (ensureLoaded f) \<noteq> Unreachable"
    using assms(1) by (simp add: ensureLoaded_def split: settings_row.split)
  then have "saved (addToBlacklist ip f) = Row ((settings (ensureLoaded f))
      \<lparr>blacklist := set_add (normalizeIP ip) (blacklist (settings (ensureLoaded f)))\<rparr>)"
    by (simp add: addToBlacklist_def change_settings_def persist_def Let_def)
  then have "settings (ensureLoaded g) = (settings (ensureLoaded f))
      \<lparr>blacklist := set_add (normalizeIP ip) (blacklist (settings (ensureLoaded f)))\<rparr>"
    using assms(2) by (simp add: ensureLoaded_def [of g])
  then show ?thesis
    using assms(3-5)
    by (auto simp: checkIP_def Let_def decide_mode_def matchesAny_def set_add_def
        split: option.split)
qed

lemma blacklisting_is_durable_witness:
  "fst (checkIP 5 ''10.0.0.9'' \<lparr>settings = default_settings, tempBans = [],
     saved = saved (addToBlacklist ''10.0.0.9''
       \<lparr>settings = default_settings\<lparr>ip_enabled := True\<rparr>, tempBans = [], saved = No_row\<rparr>)\<rparr>) \<noteq> Allowed"
  by (rule blacklisting_is_durable [where
        f = "\<lparr>settings = default_settings\<lparr>ip_enabled := True\<rparr>, tempBans = [], saved = No_row\<rparr>"])
    (simp_all add: ensureLoaded_def default_settings_def)

end
