(* ===== verification/JsonSize.thy ===== *)
theory JsonSize
  imports Prelude
begin

text \<open>
  The serialized length of a JSON value without serializing it, \<open>src/open-sse/utils/jsonSize.ts\<close>, and
  the \<open>JSON.stringify\<close> of the ECMAScript standard it is compared with.

  Strings are lists of UTF-16 code units. Objects live in a heap, so that they can be shared or
  circular: plain arrays and objects with their items, and exotic ones (dates, class instances, anything
  with \<open>toJSON\<close>), of which the code only uses what \<open>JSON.stringify\<close> says of them; that answer is part
  of the heap (\<open>None\<close> for undefined) and does not depend on where the object occurs. The printing of
  finite numbers, which both sides share, is the parameter \<open>num_str\<close>. The variant that strips data URIs
  is not modelled.
\<close>

section \<open>Values\<close>

type_synonym ustring = "nat list"

datatype 'n jvalue =
    Null | Bool bool | Number "'n option" | Str ustring | Bigint | Undef | Function | Symbol | Ref nat

datatype 'n object = Arr "'n jvalue list" | Obj "(ustring \<times> 'n jvalue) list" | Exotic "ustring option"

type_synonym 'n heap = "(nat \<times> 'n object) list"

datatype json_error = Circular | No_bigint | Dangling

section \<open>The length\<close>

fun encoded_units :: "ustring \<Rightarrow> nat" where
  "encoded_units [] = 0"
| "encoded_units (c # s) =
     (if c = 0x22 \<or> c = 0x5c then 2 + encoded_units s
      else if c = 0x08 \<or> c = 0x09 \<or> c = 0x0a \<or> c = 0x0c \<or> c = 0x0d then 2 + encoded_units s
      else if c < 0x20 then 6 + encoded_units s
      else if c \<ge> 0xd800 \<and> c \<le> 0xdfff then
        (case s of
           next # t \<Rightarrow> if c \<le> 0xdbff \<and> next \<ge> 0xdc00 \<and> next \<le> 0xdfff then 2 + encoded_units t
                      else 6 + encoded_units s
         | [] \<Rightarrow> 6 + encoded_units s)
      else 1 + encoded_units s)"

definition encodedStringLength :: "ustring \<Rightarrow> nat" where
  "encodedStringLength s = 2 + encoded_units s"

definition isOmitted :: "'n jvalue \<Rightarrow> bool" where
  "isOmitted v \<longleftrightarrow> v = Undef \<or> v = Function \<or> v = Symbol"

text \<open>
  \<open>lengthOf\<close>, with the loops over the items of an array and the entries of an object. The set \<open>seen\<close>
  holds the objects being visited: an object is added before its items and removed after them.
\<close>

lemma unseen_less:
  assumes "map_of h a = Some ob" and "a \<notin> seen"
  shows "card (fst ` set h - insert a seen) < card (fst ` set h - seen)"
proof (rule psubset_card_mono)
  have "a \<in> fst ` set h" using assms(1) by (metis domI dom_map_of_conv_image_fst)
  then show "fst ` set h - insert a seen \<subset> fst ` set h - seen" using assms(2) by auto
qed simp

function (sequential)
  lengthOf :: "('n \<Rightarrow> ustring) \<Rightarrow> 'n heap \<Rightarrow> nat set \<Rightarrow> 'n jvalue \<Rightarrow> json_error + nat" and
  array_length :: "('n \<Rightarrow> ustring) \<Rightarrow> 'n heap \<Rightarrow> nat set \<Rightarrow> 'n jvalue list \<Rightarrow> bool \<Rightarrow> nat \<Rightarrow> json_error + nat" and
  entries_length ::
    "('n \<Rightarrow> ustring) \<Rightarrow> 'n heap \<Rightarrow> nat set \<Rightarrow> (ustring \<times> 'n jvalue) list \<Rightarrow> bool \<Rightarrow> nat \<Rightarrow> json_error + nat"
where
  "lengthOf ns h seen Null = Inr 4"
| "lengthOf ns h seen (Str s) = Inr (encodedStringLength s)"
| "lengthOf ns h seen (Bool b) = Inr (if b then 4 else 5)"
| "lengthOf ns h seen (Number n) = Inr (case n of Some x \<Rightarrow> length (ns x) | None \<Rightarrow> 4)"
| "lengthOf ns h seen Bigint = Inl No_bigint"
| "lengthOf ns h seen (Ref a) =
     (case map_of h a of
        None \<Rightarrow> Inl Dangling
      | Some (Exotic enc) \<Rightarrow> Inr (case enc of None \<Rightarrow> 0 | Some s \<Rightarrow> length s)
      | Some (Arr xs) \<Rightarrow> if a \<in> seen then Inl Circular
                        else array_length ns h (insert a seen) xs True 2
      | Some (Obj kvs) \<Rightarrow> if a \<in> seen then Inl Circular
                        else entries_length ns h (insert a seen) kvs True 2)"
| "lengthOf ns h seen v = Inr 0"
| "array_length ns h seen [] first len = Inr len"
| "array_length ns h seen (x # xs) first len =
     (case (if isOmitted x then Inr 4 else lengthOf ns h seen x) of
        Inl e \<Rightarrow> Inl e
      | Inr n \<Rightarrow> array_length ns h seen xs False (len + (if first then 0 else 1) + n))"
| "entries_length ns h seen [] first len = Inr len"
| "entries_length ns h seen ((k, v) # kvs) first len =
     (if isOmitted v then entries_length ns h seen kvs first len
      else case lengthOf ns h seen v of
             Inl e \<Rightarrow> Inl e
           | Inr n \<Rightarrow> entries_length ns h seen kvs False
                       (len + (if first then 0 else 1) + (encodedStringLength k + 1 + n)))"
  by pat_completeness auto
termination
  by (relation "inv_image (less_than <*lex*> less_than)
      (\<lambda>x. case x of
          Inl (ns, h, seen, v) \<Rightarrow> (card (fst ` set h - seen), 0)
        | Inr (Inl (ns, h, seen, xs, f, n)) \<Rightarrow> (card (fst ` set h - seen), Suc (length xs))
        | Inr (Inr (ns, h, seen, kvs, f, n)) \<Rightarrow> (card (fst ` set h - seen), Suc (length kvs)))")
    (auto simp: unseen_less)

definition jsonLength :: "('n \<Rightarrow> ustring) \<Rightarrow> 'n heap \<Rightarrow> 'n jvalue \<Rightarrow> json_error + nat" where
  "jsonLength ns h v = lengthOf ns h {} v"

section \<open>JSON.stringify\<close>

text \<open>A string is read by code points, a code point being one unit or a surrogate pair; each is escaped.\<close>

fun code_points :: "ustring \<Rightarrow> ustring list" where
  "code_points [] = []"
| "code_points [c] = [[c]]"
| "code_points (c # d # s) =
     (if 0xd800 \<le> c \<and> c \<le> 0xdbff \<and> 0xdc00 \<le> d \<and> d \<le> 0xdfff then [c, d] # code_points s
      else [c] # code_points (d # s))"

definition hex_unit :: "nat \<Rightarrow> nat" where
  "hex_unit n = (if n < 10 then 48 + n else 87 + n)"

definition unicode_escape :: "nat \<Rightarrow> ustring" where
  "unicode_escape c = [0x5c, 0x75, hex_unit (c div 4096 mod 16), hex_unit (c div 256 mod 16),
     hex_unit (c div 16 mod 16), hex_unit (c mod 16)]"

fun escape :: "ustring \<Rightarrow> ustring" where
  "escape [c] =
     (if c = 0x08 then [0x5c, 0x62] else if c = 0x09 then [0x5c, 0x74]
      else if c = 0x0a then [0x5c, 0x6e] else if c = 0x0c then [0x5c, 0x66]
      else if c = 0x0d then [0x5c, 0x72] else if c = 0x22 then [0x5c, 0x22]
      else if c = 0x5c then [0x5c, 0x5c]
      else if c < 0x20 \<or> (0xd800 \<le> c \<and> c \<le> 0xdfff) then unicode_escape c
      else [c])"
| "escape p = p"

definition quote_json :: "ustring \<Rightarrow> ustring" where
  "quote_json s = 0x22 # concat (map escape (code_points s)) @ [0x22]"

fun join :: "'a \<Rightarrow> 'a list list \<Rightarrow> 'a list" where
  "join c [] = []"
| "join c [s] = s"
| "join c (s # ss) = s @ c # join c ss"

definition null_text :: ustring where "null_text = [0x6e, 0x75, 0x6c, 0x6c]"

definition bool_text :: "bool \<Rightarrow> ustring" where
  "bool_text b = (if b then [0x74, 0x72, 0x75, 0x65] else [0x66, 0x61, 0x6c, 0x73, 0x65])"

text \<open>
  Serializing a value gives an error, undefined (\<open>None\<close>) or a text. In an array undefined becomes null;
  in an object its entry is left out. The set \<open>stack\<close> holds the objects being serialized.
\<close>

function (sequential)
  serialize :: "('n \<Rightarrow> ustring) \<Rightarrow> 'n heap \<Rightarrow> nat set \<Rightarrow> 'n jvalue \<Rightarrow> json_error + ustring option" and
  serialize_items :: "('n \<Rightarrow> ustring) \<Rightarrow> 'n heap \<Rightarrow> nat set \<Rightarrow> 'n jvalue list \<Rightarrow> json_error + ustring list" and
  serialize_members ::
    "('n \<Rightarrow> ustring) \<Rightarrow> 'n heap \<Rightarrow> nat set \<Rightarrow> (ustring \<times> 'n jvalue) list \<Rightarrow> json_error + ustring list"
where
  "serialize ns h stack Null = Inr (Some null_text)"
| "serialize ns h stack (Bool b) = Inr (Some (bool_text b))"
| "serialize ns h stack (Str s) = Inr (Some (quote_json s))"
| "serialize ns h stack (Number n) = Inr (Some (case n of Some x \<Rightarrow> ns x | None \<Rightarrow> null_text))"
| "serialize ns h stack Bigint = Inl No_bigint"
| "serialize ns h stack (Ref a) =
     (case map_of h a of
        None \<Rightarrow> Inl Dangling
      | Some (Exotic enc) \<Rightarrow> Inr enc
      | Some (Arr xs) \<Rightarrow>
          if a \<in> stack then Inl Circular
          else (case serialize_items ns h (insert a stack) xs of
                  Inl e \<Rightarrow> Inl e | Inr ss \<Rightarrow> Inr (Some ([0x5b] @ join 0x2c ss @ [0x5d])))
      | Some (Obj kvs) \<Rightarrow>
          if a \<in> stack then Inl Circular
          else (case serialize_members ns h (insert a stack) kvs of
                  Inl e \<Rightarrow> Inl e | Inr ss \<Rightarrow> Inr (Some ([0x7b] @ join 0x2c ss @ [0x7d]))))"
| "serialize ns h stack v = Inr None"
| "serialize_items ns h stack [] = Inr []"
| "serialize_items ns h stack (x # xs) =
     (case serialize ns h stack x of
        Inl e \<Rightarrow> Inl e
      | Inr t \<Rightarrow> (case serialize_items ns h stack xs of
                   Inl e \<Rightarrow> Inl e | Inr ss \<Rightarrow> Inr (nullish t null_text # ss)))"
| "serialize_members ns h stack [] = Inr []"
| "serialize_members ns h stack ((k, v) # kvs) =
     (case serialize ns h stack v of
        Inl e \<Rightarrow> Inl e
      | Inr t \<Rightarrow> (case serialize_members ns h stack kvs of
                   Inl e \<Rightarrow> Inl e
                 | Inr ss \<Rightarrow> Inr (case t of None \<Rightarrow> ss | Some s \<Rightarrow> (quote_json k @ 0x3a # s) # ss)))"
  by pat_completeness auto
termination
  by (relation "inv_image (less_than <*lex*> less_than)
      (\<lambda>x. case x of
          Inl (ns, h, stack, v) \<Rightarrow> (card (fst ` set h - stack), 0)
        | Inr (Inl (ns, h, stack, xs)) \<Rightarrow> (card (fst ` set h - stack), Suc (length xs))
        | Inr (Inr (ns, h, stack, kvs)) \<Rightarrow> (card (fst ` set h - stack), Suc (length kvs)))")
    (auto simp: unseen_less)

definition JSON_stringify :: "('n \<Rightarrow> ustring) \<Rightarrow> 'n heap \<Rightarrow> 'n jvalue \<Rightarrow> json_error + ustring option" where
  "JSON_stringify ns h v = serialize ns h {} v"

section \<open>They agree\<close>

lemma encoded_units_escape: "encoded_units s = length (concat (map escape (code_points s)))"
proof (induction s rule: code_points.induct)
  case (2 c)
  then show ?case by (simp add: unicode_escape_def)
next
  case (3 c d s)
  then show ?case by (auto simp: unicode_escape_def)
qed simp

lemma encodedStringLength_quote: "encodedStringLength s = length (quote_json s)"
  by (simp add: encodedStringLength_def quote_json_def encoded_units_escape)

lemma length_join: "length (join c ss) = sum_list (map length ss) + (length ss - 1)"
  by (induction c ss rule: join.induct) auto

definition commas :: "bool \<Rightarrow> 'a list \<Rightarrow> nat" where
  "commas first ss = (if first then length ss - 1 else length ss)"

lemma commas_Cons: "commas first (s # ss) = (if first then 0 else 1) + commas False ss"
  by (simp add: commas_def)

definition text_length :: "ustring option \<Rightarrow> nat" where
  "text_length t = (case t of None \<Rightarrow> 0 | Some s \<Rightarrow> length s)"

definition list_length :: "nat \<Rightarrow> bool \<Rightarrow> json_error + ustring list \<Rightarrow> json_error + nat" where
  "list_length len first r = map_sum id (\<lambda>ss. len + sum_list (map length ss) + commas first ss) r"

lemma list_length_join:
  "list_length 2 True r = map_sum id (\<lambda>ss. text_length (Some ([b] @ join c ss @ [d]))) r"
  by (cases r) (simp_all add: list_length_def text_length_def length_join commas_def)

text \<open>No exotic object that \<open>JSON.stringify\<close> renders as undefined.\<close>

definition exotics_defined :: "'n heap \<Rightarrow> bool" where
  "exotics_defined h \<longleftrightarrow> (\<forall>a. map_of h a \<noteq> Some (Exotic None))"

lemma serialize_omitted: "isOmitted v \<Longrightarrow> serialize ns h stack v = Inr None"
  by (cases v) (auto simp: isOmitted_def)

lemma serialize_defined:
  "exotics_defined h \<Longrightarrow> serialize ns h stack v = Inr None \<Longrightarrow> isOmitted v"
  by (cases v) (auto simp: isOmitted_def exotics_defined_def split: option.splits object.splits
      if_splits sum.splits)

lemma length_null_text [simp]: "length null_text = 4"
  by (simp add: null_text_def)

lemma lengths_agree:
  fixes ns :: "'n \<Rightarrow> ustring" and h :: "'n heap"
  shows "exotics_defined h \<Longrightarrow> lengthOf ns h seen v = map_sum id text_length (serialize ns h seen v)"
    and "exotics_defined h \<Longrightarrow>
      array_length ns h seen xs first len = list_length len first (serialize_items ns h seen xs)"
    and "exotics_defined h \<Longrightarrow>
      entries_length ns h seen kvs first' len' = list_length len' first' (serialize_members ns h seen kvs)"
proof (induction ns h seen v and ns h seen xs first len and ns h seen kvs first' len'
    rule: lengthOf_array_length_entries_length.induct)
  case (6 ns h seen a)
  show ?case
  proof (cases "map_of h a")
    case (Some ob)
    then show ?thesis
      using 6 list_length_join [of "serialize_items ns h (insert a seen) xs" "0x5b" "0x2c" "0x5d" for xs]
        list_length_join [of "serialize_members ns h (insert a seen) kvs" "0x7b" "0x2c" "0x7d" for kvs]
      by (cases ob) (auto simp: text_length_def split: sum.splits option.splits)
  qed simp
next
  case (9 ns h seen x xs first len)
  show ?case
  proof (cases "isOmitted x")
    case True
    then show ?thesis using 9
      by (auto simp: serialize_omitted list_length_def commas_Cons split: sum.splits)
  next
    case False
    then show ?thesis
      using 9 serialize_defined [OF 9(3), of ns seen x]
      by (cases "serialize ns h seen x")
        (auto simp: list_length_def commas_Cons text_length_def split: sum.splits option.splits)
  qed
next
  case (11 ns h seen k v kvs first len)
  show ?case
  proof (cases "isOmitted v")
    case True
    then show ?thesis using 11
      by (auto simp: serialize_omitted list_length_def split: sum.splits)
  next
    case False
    then show ?thesis
      using 11 serialize_defined [OF 11(4), of ns seen v]
      by (cases "serialize ns h seen v")
        (auto simp: list_length_def commas_Cons text_length_def encodedStringLength_quote
          split: sum.splits option.splits)
  qed
qed (auto simp: text_length_def encodedStringLength_quote bool_text_def list_length_def commas_def
    split: option.split)

text \<open>
  C99. The size computed without serializing is exact: on every value, shared and circular structures included,
  jsonLength returns the length of what JSON.stringify would return (0 where that is undefined), and it
  fails exactly where JSON.stringify throws, with the same error. This holds as long as no exotic object of the
  heap serializes to undefined; what an exotic object serializes to does not depend on where it stands.
\<close>

theorem json_length_exact:
  assumes "exotics_defined h"
  shows "jsonLength ns h v = map_sum id text_length (JSON_stringify ns h v)"
  using lengths_agree(1) [OF assms] by (simp add: jsonLength_def JSON_stringify_def)

definition shared_heap :: "unit heap" where
  "shared_heap = [(1, Obj [([0x61], Ref 2), ([0x62], Ref 2), ([0x63], Undef)]),
     (2, Arr [Null, Function, Str [0xd83d, 0xde00, 0x22]]), (3, Arr [Ref 3])]"

text \<open>One object used twice is fine, one that contains itself is an error.\<close>

lemma json_length_exact_witness:
  "jsonLength (\<lambda>_. []) shared_heap (Ref 1) = Inr 47
   \<and> map_sum id text_length (JSON_stringify (\<lambda>_. []) shared_heap (Ref 1)) = Inr 47
   \<and> JSON_stringify (\<lambda>_. []) shared_heap (Ref 3) = Inl Circular"
proof -
  have "exotics_defined shared_heap" by (simp add: exotics_defined_def shared_heap_def)
  from json_length_exact [OF this, of "\<lambda>_. []" "Ref 1"] show ?thesis
    by (simp add: jsonLength_def JSON_stringify_def shared_heap_def isOmitted_def encodedStringLength_def)
qed

text \<open>
  It is not exact on every value: an exotic object whose \<open>toJSON\<close> gives undefined counts as nothing
  inside an array, where \<open>JSON.stringify\<close> writes \<open>null\<close>, and its entry in an object is counted, which
  \<open>JSON.stringify\<close> leaves out.
\<close>

theorem json_length_of_undefined_exotic:
  "jsonLength ns [(1, Arr [Ref 2]), (2, Exotic None)] (Ref 1) = Inr 2
   \<and> JSON_stringify ns [(1, Arr [Ref 2]), (2, Exotic None)] (Ref 1) = Inr (Some [0x5b, 0x6e, 0x75, 0x6c, 0x6c, 0x5d])
   \<and> jsonLength ns [(1, Obj [([0x61], Ref 2)]), (2, Exotic None)] (Ref 1) = Inr 6
   \<and> JSON_stringify ns [(1, Obj [([0x61], Ref 2)]), (2, Exotic None)] (Ref 1) = Inr (Some [0x7b, 0x7d])"
  by (simp add: jsonLength_def JSON_stringify_def isOmitted_def encodedStringLength_def null_text_def)

end
