(* ===== verification/JsValue.thy ===== *)
theory JsValue
  imports JsString
begin

text \<open>
  JSON values as the code receives them from requests and from the database, and the conversions it
  applies to them: property access, \<open>typeof\<close> tests, trimmed strings, \<open>Number\<close>. A property that is absent
  reads as undefined. Numbers are rationals: the rounding and the overflow of doubles are not modelled.
\<close>

datatype json = JUndef | JNull | JBool bool | JNum rat | JStr string | JArr "json list"
  | JObj "(string \<times> json) list"

definition get_prop :: "string \<Rightarrow> json \<Rightarrow> json" where
  "get_prop k v = (case v of JObj m \<Rightarrow> (case map_of m k of None \<Rightarrow> JUndef | Some x \<Rightarrow> x) | _ \<Rightarrow> JUndef)"

definition isRecord :: "json \<Rightarrow> bool" where
  "isRecord v = (case v of JObj _ \<Rightarrow> True | _ \<Rightarrow> False)"

definition str_of :: "json \<Rightarrow> string option" where
  "str_of v = (case v of JStr s \<Rightarrow> Some s | _ \<Rightarrow> None)"

definition arr_of :: "json \<Rightarrow> json list option" where
  "arr_of v = (case v of JArr xs \<Rightarrow> Some xs | _ \<Rightarrow> None)"

text \<open>\<open>typeof v === "string" && v.trim().length > 0 ? v.trim() : null\<close>, which several modules define.\<close>

definition nonempty :: "string \<Rightarrow> string option" where
  "nonempty s = (if s = [] then None else Some s)"

definition toTrimmedString :: "json \<Rightarrow> string option" where
  "toTrimmedString v = (case v of JStr s \<Rightarrow> nonempty (trim s) | _ \<Rightarrow> None)"

text \<open>\<open>x || y\<close> on strings or null, where the empty string does not occur.\<close>

definition str_or :: "string option \<Rightarrow> string option \<Rightarrow> string option" where
  "str_or x y = (case x of None \<Rightarrow> y | Some s \<Rightarrow> Some s)"

section \<open>Numbers from strings\<close>

definition is_digit :: "char \<Rightarrow> bool" where
  "is_digit c \<longleftrightarrow> digit c \<noteq> None"

definition pow10 :: "int \<Rightarrow> rat" where
  "pow10 e = (if 0 \<le> e then 10 ^ nat e else 1 / 10 ^ nat (- e))"

definition exponent :: "string \<Rightarrow> int option" where
  "exponent s = (let (sg, ds) = (case s of c # t \<Rightarrow> if c = CHR ''-'' then (-1, t) else if c = CHR ''+'' then (1, t) else (1, s)
                                 | [] \<Rightarrow> (1, s))
     in if ds \<noteq> [] \<and> list_all is_digit ds then Some (sg * read_digits 0 ds) else None)"

definition unsigned_decimal :: "string \<Rightarrow> jsval" where
  "unsigned_decimal s =
     (if s = ''Infinity'' then Not_finite
      else let ip = takeWhile is_digit s; r = dropWhile is_digit s;
               (fp, r2) = (case r of c # t \<Rightarrow> if c = CHR ''.'' then (takeWhile is_digit t, dropWhile is_digit t) else ([], r)
                           | [] \<Rightarrow> ([], r));
               m = of_int (read_digits 0 (ip @ fp)) / 10 ^ length fp
           in if ip = [] \<and> fp = [] then Not_number
              else (case r2 of [] \<Rightarrow> Num m
                    | c # t \<Rightarrow> if c = CHR ''e'' \<or> c = CHR ''E''
                               then (case exponent t of None \<Rightarrow> Not_number | Some e \<Rightarrow> Num (m * pow10 e))
                               else Not_number))"

definition negate :: "jsval \<Rightarrow> jsval" where
  "negate v = (case v of Num q \<Rightarrow> Num (- q) | _ \<Rightarrow> v)"

definition radix_digit :: "nat \<Rightarrow> char \<Rightarrow> nat option" where
  "radix_digit b c =
     (let n = of_char c :: nat;
          d = (if 48 \<le> n \<and> n \<le> 57 then n - 48 else if 97 \<le> n \<and> n \<le> 102 then n - 87
               else if 65 \<le> n \<and> n \<le> 70 then n - 55 else b)
      in if d < b then Some d else None)"

fun radix_value :: "nat \<Rightarrow> nat \<Rightarrow> string \<Rightarrow> nat option" where
  "radix_value b acc [] = Some acc"
| "radix_value b acc (c # s) =
     (case radix_digit b c of None \<Rightarrow> None | Some d \<Rightarrow> radix_value b (b * acc + d) s)"

definition radix_literal :: "nat \<Rightarrow> string \<Rightarrow> jsval" where
  "radix_literal b s = (if s = [] then Not_number
     else case radix_value b 0 s of None \<Rightarrow> Not_number | Some n \<Rightarrow> Num (of_nat n))"

text \<open>\<open>Number(s)\<close> on a string; NaN is \<open>Not_number\<close>, the infinities are \<open>Not_finite\<close>.\<close>

definition number_of_string :: "string \<Rightarrow> jsval" where
  "number_of_string s0 =
     (let s = trim s0 in
      if s = [] then Num 0
      else if take 2 s = ''0x'' \<or> take 2 s = ''0X'' then radix_literal 16 (drop 2 s)
      else if take 2 s = ''0o'' \<or> take 2 s = ''0O'' then radix_literal 8 (drop 2 s)
      else if take 2 s = ''0b'' \<or> take 2 s = ''0B'' then radix_literal 2 (drop 2 s)
      else if hd s = CHR ''-'' then negate (unsigned_decimal (tl s))
      else if hd s = CHR ''+'' then unsigned_decimal (tl s)
      else unsigned_decimal s)"

text \<open>
  \<open>Number(v)\<close>. An array reads as its string form, the elements joined by commas: the empty array is 0, an
  array of one element reads as that element (null and undefined as the empty string), and two commas never
  make a number. The string form of an object is not a number either.
\<close>

fun js_number :: "json \<Rightarrow> jsval" where
  "js_number JUndef = Not_number"
| "js_number JNull = Num 0"
| "js_number (JBool b) = Num (if b then 1 else 0)"
| "js_number (JNum q) = Num q"
| "js_number (JStr s) = number_of_string s"
| "js_number (JArr []) = Num 0"
| "js_number (JArr [JUndef]) = Num 0"
| "js_number (JArr [JBool b]) = Not_number"
| "js_number (JArr [x]) = js_number x"
| "js_number (JArr (x # y # xs)) = Not_number"
| "js_number (JObj m) = Not_number"

section \<open>Lemmas\<close>

lemma nonempty_Some [simp]: "nonempty s = Some t \<longleftrightarrow> s = t \<and> t \<noteq> []"
  by (auto simp: nonempty_def)

lemma trim_idem [simp]: "trim (trim s) = trim s"
proof -
  define r where "r = dropWhile js_space s"
  define q where "q = rev (dropWhile js_space (rev r))"
  have r: "r = [] \<or> \<not> js_space (hd r)" unfolding r_def by (metis hd_dropWhile)
  have "suffix (dropWhile js_space (rev r)) (rev r)" by (rule suffix_dropWhile)
  then have "prefix q r" by (simp add: q_def suffix_to_prefix)
  then have "dropWhile js_space q = q"
    using r by (cases q) (auto simp: prefix_def)
  moreover have "dropWhile js_space (rev q) = rev q" by (simp add: q_def dropWhile_idem)
  ultimately show ?thesis by (simp add: trim_def q_def [symmetric] r_def [symmetric])
qed

lemma toTrimmedString_trimmed: "toTrimmedString v = Some s \<Longrightarrow> trim s = s \<and> s \<noteq> []"
  by (auto simp: toTrimmedString_def split: json.splits)

end
