(* ===== verification/ComboSteps.thy ===== *)
theory ComboSteps
  imports JsValue
begin

text \<open>
  The steps of a combo and their normal form, \<open>src/src/lib/combos/steps.ts\<close>. An entry of a combo is any
  JSON value an operator or an older version stored: a string, or an object whose properties are of
  unknown type. It is normalized to a model step, a reference to another combo, or a provider wildcard.

  \<^item> The collection of all combos enters only through \<open>collectComboNames\<close>; the functions that take it as
    an option take its names here.
  \<^item> A property the code leaves out when it is null, undefined or empty is an option or a list; null and
    undefined connection ids, which no reader tells apart, are both \<open>None\<close>.
  \<^item> \<open>json_of_step\<close> is the object a step is stored as.
\<close>

section \<open>Data\<close>

record model_step =
  ms_id :: string
  ms_model :: string
  ms_providerId :: "string option"
  ms_connectionId :: "string option"
  ms_allowed :: "string list"
  ms_weight :: rat
  ms_label :: "string option"
  ms_prompt :: "string option"
  ms_tags :: "string list"
  ms_fallbackOnly :: bool

record ref_step =
  rs_id :: string
  rs_comboName :: string
  rs_weight :: rat
  rs_label :: "string option"
  rs_fallbackOnly :: bool

record wildcard_step =
  ws_id :: string
  ws_providerId :: string
  ws_modelPattern :: string
  ws_connectionId :: "string option"
  ws_allowed :: "string list"
  ws_weight :: rat
  ws_label :: "string option"

datatype combo_step = Model_step model_step | Ref_step ref_step | Wildcard_step wildcard_step

section \<open>Reading fields\<close>

definition toWeight :: "json \<Rightarrow> rat" where
  "toWeight v = (case (case v of JNum q \<Rightarrow> Num q
                         | JStr s \<Rightarrow> if trim s \<noteq> [] then number_of_string s else Num 0
                         | _ \<Rightarrow> Num 0) of
     Num q \<Rightarrow> max 0 (min 100 q) | _ \<Rightarrow> 0)"

definition combo_name_of :: "json \<Rightarrow> string option" where
  "combo_name_of c = (case c of JStr s \<Rightarrow> toTrimmedString c | _ \<Rightarrow> toTrimmedString (get_prop ''name'' c))"

definition collectComboNames :: "json \<Rightarrow> string list" where
  "collectComboNames allCombos =
     List.map_filter combo_name_of
       (case allCombos of JArr xs \<Rightarrow> xs
        | JObj _ \<Rightarrow> nullish (arr_of (get_prop ''combos'' allCombos)) [] | _ \<Rightarrow> [])"

definition parseProviderId :: "string \<Rightarrow> string option" where
  "parseProviderId model =
     (let t = trim model in
      case indexOf ''/'' t of None \<Rightarrow> None
      | Some i \<Rightarrow> if i = 0 then None else nonempty (trim (take i t)))"

definition parseProviderWildcardPattern :: "string \<Rightarrow> (string \<times> string) option" where
  "parseProviderWildcardPattern target =
     (let t = trim target in
      case indexOf ''/'' t of None \<Rightarrow> None
      | Some i \<Rightarrow>
          if i = 0 then None
          else let p = trim (take i t); pat = trim (drop (Suc i) t)
               in if p = [] \<or> CHR ''*'' \<notin> set pat then None else Some (p, pat))"

definition toFullModelString :: "string \<Rightarrow> string option \<Rightarrow> string" where
  "toFullModelString model p =
     (let m = trim model in
      if CHR ''/'' \<in> set m then m
      else case Option.bind p (\<lambda>s. nonempty (trim s)) of None \<Rightarrow> m | Some q \<Rightarrow> q @ ''/'' @ m)"

section \<open>Identifiers\<close>

definition slug_char :: "char \<Rightarrow> bool" where
  "slug_char c \<longleftrightarrow> (let n = of_char c :: nat in (97 \<le> n \<and> n \<le> 122) \<or> (48 \<le> n \<and> n \<le> 57))"

text \<open>Each run of other characters becomes one dash; \<open>prev\<close> says that the run has its dash already.\<close>

fun dash_runs :: "bool \<Rightarrow> string \<Rightarrow> string" where
  "dash_runs prev [] = []"
| "dash_runs prev (c # s) =
     (if slug_char c then c # dash_runs False s
      else if prev then dash_runs True s
      else CHR ''-'' # dash_runs True s)"

definition strip_dashes :: "string \<Rightarrow> string" where
  "strip_dashes s = rev (dropWhile (\<lambda>c. c = CHR ''-'') (rev (dropWhile (\<lambda>c. c = CHR ''-'') s)))"

definition slugify :: "string \<Rightarrow> string" where
  "slugify v = (let s = strip_dashes (dash_runs False (toLowerCase v)) in if s = [] then ''step'' else s)"

definition buildStepId :: "string \<Rightarrow> string option \<Rightarrow> nat \<Rightarrow> string \<Rightarrow> string" where
  "buildStepId kindSlug comboName index seed =
     take 200 (slugify (nullish comboName ''combo'') @ ''-'' @ kindSlug @ ''-'' @ decimal (Suc index)
       @ ''-'' @ slugify seed)"

section \<open>Targets of an entry\<close>

definition shouldTreatAsComboRef :: "string \<Rightarrow> string option \<Rightarrow> string list \<Rightarrow> string option \<Rightarrow> bool" where
  "shouldTreatAsComboRef target providerId names comboName \<longleftrightarrow>
     providerId = None \<and> (target \<in> set names \<or> Some target = comboName)"

definition entry_provider :: "json \<Rightarrow> string \<Rightarrow> string option" where
  "entry_provider v rawModel =
     str_or (toTrimmedString (get_prop ''providerId'' v))
       (str_or (toTrimmedString (get_prop ''provider'' v)) (parseProviderId rawModel))"

definition has_kind :: "string \<Rightarrow> json \<Rightarrow> bool" where
  "has_kind k v \<longleftrightarrow> get_prop ''kind'' v = JStr k"

definition getComboModelString :: "json \<Rightarrow> string option" where
  "getComboModelString v =
     (case v of
        JStr s \<Rightarrow> toTrimmedString v
      | JObj _ \<Rightarrow>
          if has_kind ''combo-ref'' v then None
          else (case toTrimmedString (get_prop ''model'' v) of None \<Rightarrow> None
                | Some raw \<Rightarrow> Some (toFullModelString raw (entry_provider v raw)))
      | _ \<Rightarrow> None)"

definition getComboModelProvider :: "json \<Rightarrow> string option" where
  "getComboModelProvider v =
     (case v of
        JStr s \<Rightarrow> parseProviderId s
      | JObj _ \<Rightarrow>
          if has_kind ''combo-ref'' v then None
          else entry_provider v (nullish (toTrimmedString (get_prop ''model'' v)) '''')
      | _ \<Rightarrow> None)"

definition getComboStepTarget :: "json \<Rightarrow> string list \<Rightarrow> string option \<Rightarrow> string option" where
  "getComboStepTarget v names comboName =
     (case v of
        JStr s \<Rightarrow> toTrimmedString v
      | JObj _ \<Rightarrow>
          if has_kind ''combo-ref'' v then toTrimmedString (get_prop ''comboName'' v)
          else if has_kind ''provider-wildcard'' v then
            (case toTrimmedString (get_prop ''providerId'' v) of None \<Rightarrow> None
             | Some p \<Rightarrow> Some (p @ ''/'' @ nullish (toTrimmedString (get_prop ''modelPattern'' v)) ''*''))
          else (case toTrimmedString (get_prop ''model'' v) of None \<Rightarrow> None
                | Some raw \<Rightarrow>
                    if \<not> has_kind ''model'' v \<and> shouldTreatAsComboRef raw (entry_provider v raw) names comboName
                    then Some raw
                    else Some (toFullModelString raw (entry_provider v raw)))
      | _ \<Rightarrow> None)"

definition getComboStepWeight :: "json \<Rightarrow> rat" where
  "getComboStepWeight v = (if isRecord v then toWeight (get_prop ''weight'' v) else 0)"

definition implicitPinAllowlist :: "string option \<Rightarrow> string list option \<Rightarrow> string list option" where
  "implicitPinAllowlist connectionId allowed =
     (case allowed of
        Some (x # xs) \<Rightarrow> Some (x # xs)
      | _ \<Rightarrow> (case Option.bind connectionId (\<lambda>s. nonempty (trim s)) of
                Some pin \<Rightarrow> Some [pin]
              | None \<Rightarrow> map_option (\<lambda>_. []) allowed))"

definition comboPinAllowlist :: "bool \<Rightarrow> string option \<Rightarrow> string list option \<Rightarrow> string list option" where
  "comboPinAllowlist isCombo forced allowed = (if isCombo then implicitPinAllowlist forced allowed else allowed)"

section \<open>Normalization\<close>

definition trimmed_list :: "json \<Rightarrow> string list" where
  "trimmed_list v = List.map_filter toTrimmedString (nullish (arr_of v) [])"

definition wildcard_of :: "json \<Rightarrow> string option \<Rightarrow> nat \<Rightarrow> string \<Rightarrow> string \<Rightarrow> combo_step" where
  "wildcard_of v comboName index p pat =
     (let conn = toTrimmedString (get_prop ''connectionId'' v);
          seed = p @ ''/'' @ pat @ (case conn of None \<Rightarrow> '''' | Some c \<Rightarrow> '':'' @ c)
      in Wildcard_step
          \<lparr>ws_id = nullish (toTrimmedString (get_prop ''id'' v)) (buildStepId ''wildcard'' comboName index seed),
           ws_providerId = p, ws_modelPattern = pat, ws_connectionId = conn,
           ws_allowed = trimmed_list (get_prop ''allowedConnectionIds'' v),
           ws_weight = toWeight (get_prop ''weight'' v), ws_label = toTrimmedString (get_prop ''label'' v)\<rparr>)"

definition normalize_string :: "string \<Rightarrow> string list \<Rightarrow> string option \<Rightarrow> nat \<Rightarrow> combo_step option" where
  "normalize_string s names comboName index =
     (case nonempty (trim s) of None \<Rightarrow> None
      | Some target \<Rightarrow>
          if shouldTreatAsComboRef target None names comboName then
            Some (Ref_step \<lparr>rs_id = buildStepId ''ref'' comboName index target, rs_comboName = target,
                            rs_weight = 0, rs_label = None, rs_fallbackOnly = False\<rparr>)
          else (case parseProviderWildcardPattern target of
             Some (p, pat) \<Rightarrow>
               Some (Wildcard_step \<lparr>ws_id = buildStepId ''wildcard'' comboName index (p @ ''/'' @ pat),
                 ws_providerId = p, ws_modelPattern = pat, ws_connectionId = None, ws_allowed = [],
                 ws_weight = 0, ws_label = None\<rparr>)
           | None \<Rightarrow>
               Some (Model_step \<lparr>ms_id = buildStepId ''model'' comboName index target, ms_model = target,
                 ms_providerId = parseProviderId target, ms_connectionId = None, ms_allowed = [],
                 ms_weight = 0, ms_label = None, ms_prompt = None, ms_tags = [], ms_fallbackOnly = False\<rparr>)))"

definition normalizeComboStep :: "json \<Rightarrow> string list \<Rightarrow> string option \<Rightarrow> nat \<Rightarrow> combo_step option" where
  "normalizeComboStep v names comboName index =
     (case v of
        JStr s \<Rightarrow> normalize_string s names comboName index
      | JObj _ \<Rightarrow>
        (let explicitId = toTrimmedString (get_prop ''id'' v);
             weight = toWeight (get_prop ''weight'' v);
             label = toTrimmedString (get_prop ''label'' v);
             fallbackOnly = (get_prop ''fallbackOnlyOnQuotaExhaustion'' v = JBool True)
         in if has_kind ''combo-ref'' v then
              (case toTrimmedString (get_prop ''comboName'' v) of None \<Rightarrow> None
               | Some n \<Rightarrow> Some (Ref_step
                   \<lparr>rs_id = nullish explicitId (buildStepId ''ref'' comboName index n), rs_comboName = n,
                    rs_weight = weight, rs_label = label, rs_fallbackOnly = fallbackOnly\<rparr>))
            else if has_kind ''provider-wildcard'' v then
              (case entry_provider v (nullish (toTrimmedString (get_prop ''model'' v)) '''') of None \<Rightarrow> None
               | Some p \<Rightarrow> Some (wildcard_of v comboName index p
                             (nullish (toTrimmedString (get_prop ''modelPattern'' v)) ''*'')))
            else (case toTrimmedString (get_prop ''model'' v) of None \<Rightarrow> None
               | Some raw \<Rightarrow>
                 let providerId = entry_provider v raw in
                 case parseProviderWildcardPattern raw of
                   Some (p, pat) \<Rightarrow> Some (wildcard_of v comboName index p pat)
                 | None \<Rightarrow>
                   if \<not> has_kind ''model'' v \<and> shouldTreatAsComboRef raw providerId names comboName then
                     Some (Ref_step
                       \<lparr>rs_id = nullish explicitId (buildStepId ''ref'' comboName index raw), rs_comboName = raw,
                        rs_weight = weight, rs_label = label, rs_fallbackOnly = False\<rparr>)
                   else
                     (let model = toFullModelString raw providerId;
                          conn = toTrimmedString (get_prop ''connectionId'' v)
                      in Some (Model_step
                        \<lparr>ms_id = nullish explicitId (buildStepId ''model'' comboName index
                                   (case conn of None \<Rightarrow> model | Some c \<Rightarrow> model @ '':'' @ c)),
                         ms_model = model, ms_providerId = providerId, ms_connectionId = conn,
                         ms_allowed = trimmed_list (get_prop ''allowedConnectionIds'' v),
                         ms_weight = weight, ms_label = label,
                         ms_prompt = toTrimmedString (get_prop ''prompt'' v),
                         ms_tags = trimmed_list (get_prop ''tags'' v),
                         ms_fallbackOnly = fallbackOnly\<rparr>))))
      | _ \<Rightarrow> None)"

definition normalizeComboModels :: "json \<Rightarrow> string list \<Rightarrow> string option \<Rightarrow> combo_step list" where
  "normalizeComboModels models names comboName =
     List.map_filter (\<lambda>(i, v). normalizeComboStep v names comboName i)
       (List.enumerate 0 (nullish (arr_of models) []))"

section \<open>The stored form\<close>

definition opt_prop :: "string \<Rightarrow> string option \<Rightarrow> (string \<times> json) list" where
  "opt_prop k x = (case x of None \<Rightarrow> [] | Some s \<Rightarrow> [(k, JStr s)])"

definition list_prop :: "string \<Rightarrow> string list \<Rightarrow> (string \<times> json) list" where
  "list_prop k xs = (if xs = [] then [] else [(k, JArr (map JStr xs))])"

definition flag_prop :: "string \<Rightarrow> bool \<Rightarrow> (string \<times> json) list" where
  "flag_prop k b = (if b then [(k, JBool True)] else [])"

definition json_of_step :: "combo_step \<Rightarrow> json" where
  "json_of_step s = (case s of
     Model_step m \<Rightarrow> JObj ([(''id'', JStr (ms_id m)), (''kind'', JStr ''model''), (''model'', JStr (ms_model m))]
       @ opt_prop ''providerId'' (ms_providerId m) @ opt_prop ''connectionId'' (ms_connectionId m)
       @ [(''weight'', JNum (ms_weight m))] @ opt_prop ''label'' (ms_label m) @ opt_prop ''prompt'' (ms_prompt m)
       @ list_prop ''tags'' (ms_tags m) @ list_prop ''allowedConnectionIds'' (ms_allowed m)
       @ flag_prop ''fallbackOnlyOnQuotaExhaustion'' (ms_fallbackOnly m))
   | Ref_step r \<Rightarrow> JObj ([(''id'', JStr (rs_id r)), (''kind'', JStr ''combo-ref''), (''comboName'', JStr (rs_comboName r)),
       (''weight'', JNum (rs_weight r))] @ opt_prop ''label'' (rs_label r)
       @ flag_prop ''fallbackOnlyOnQuotaExhaustion'' (rs_fallbackOnly r))
   | Wildcard_step w \<Rightarrow> JObj ([(''id'', JStr (ws_id w)), (''kind'', JStr ''provider-wildcard''),
       (''providerId'', JStr (ws_providerId w)), (''modelPattern'', JStr (ws_modelPattern w))]
       @ opt_prop ''connectionId'' (ws_connectionId w) @ [(''weight'', JNum (ws_weight w))]
       @ opt_prop ''label'' (ws_label w) @ list_prop ''allowedConnectionIds'' (ws_allowed w)))"

section \<open>Well-formed steps\<close>

definition trimmed :: "string \<Rightarrow> bool" where
  "trimmed s \<longleftrightarrow> trim s = s \<and> s \<noteq> []"

lemma trimmed_iff: "trimmed s \<longleftrightarrow> s \<noteq> [] \<and> \<not> js_space (hd s) \<and> \<not> js_space (last s)"
proof (cases "s = []")
  case False
  have "trim s = s \<longleftrightarrow> \<not> js_space (hd s) \<and> \<not> js_space (last s)"
  proof
    assume t: "trim s = s"
    have l: "length s \<le> length (dropWhile js_space s)"
      using t by (metis trim_def length_dropWhile_le length_rev)
    have d: "dropWhile js_space s = s"
      using suffix_dropWhile [of js_space s] l by (metis suffix_length_suffix suffix_order.antisym suffix_order.order_refl)
    have r: "dropWhile js_space (rev s) = rev s" using t d by (simp add: trim_def rev_swap)
    show "\<not> js_space (hd s) \<and> \<not> js_space (last s)"
      using False hd_dropWhile [of js_space s] hd_dropWhile [of js_space "rev s"] d r by (simp add: hd_rev)
  next
    assume "\<not> js_space (hd s) \<and> \<not> js_space (last s)"
    then have "dropWhile js_space s = s" "dropWhile js_space (rev s) = rev s"
      using False by (cases s; cases "rev s"; simp add: hd_rev [symmetric])+
    then show "trim s = s" by (simp add: trim_def)
  qed
  then show ?thesis by (simp add: trimmed_def False)
qed (simp add: trimmed_def)

lemma trimmed_no_space: "s \<noteq> [] \<Longrightarrow> list_all (\<lambda>c. \<not> js_space c) s \<Longrightarrow> trimmed s"
  by (simp add: trimmed_iff list_all_iff)

lemma trimmed_append: "trimmed a \<Longrightarrow> trimmed b \<Longrightarrow> trimmed (a @ c @ b)"
  by (simp add: trimmed_iff)

lemma trimmed_trim: "trim s \<noteq> [] \<Longrightarrow> trimmed (trim s)"
  by (simp add: trimmed_def)

lemma toTrimmedString_trimmed': "toTrimmedString v = Some s \<Longrightarrow> trimmed s"
  by (simp add: toTrimmedString_trimmed trimmed_def)

lemma toTrimmedString_JStr [simp]: "trimmed s \<Longrightarrow> toTrimmedString (JStr s) = Some s"
  by (simp add: toTrimmedString_def trimmed_def)

lemma pred_option_trimmed: "pred_option trimmed (toTrimmedString v)"
  by (cases "toTrimmedString v") (auto dest: toTrimmedString_trimmed')

lemma list_all_trimmed: "list_all trimmed (trimmed_list v)"
proof -
  have "list_all trimmed (List.map_filter toTrimmedString xs)" for xs
    by (induction xs) (auto simp: List.map_filter_simps dest: toTrimmedString_trimmed' split: option.split)
  then show ?thesis by (simp add: trimmed_list_def)
qed

lemma map_filter_trimmed: "list_all trimmed xs \<Longrightarrow> List.map_filter toTrimmedString (map JStr xs) = xs"
  by (induction xs) (simp_all add: List.map_filter_simps)

definition step_ok :: "combo_step \<Rightarrow> bool" where
  "step_ok s = (case s of
     Model_step m \<Rightarrow> trimmed (ms_id m) \<and> trimmed (ms_model m) \<and> pred_option trimmed (ms_providerId m)
       \<and> pred_option trimmed (ms_connectionId m) \<and> list_all trimmed (ms_allowed m) \<and> list_all trimmed (ms_tags m)
       \<and> pred_option trimmed (ms_label m) \<and> pred_option trimmed (ms_prompt m)
       \<and> 0 \<le> ms_weight m \<and> ms_weight m \<le> 100
       \<and> toFullModelString (ms_model m) (ms_providerId m) = ms_model m
       \<and> (ms_providerId m = None \<longrightarrow> parseProviderId (ms_model m) = None)
   | Ref_step r \<Rightarrow> trimmed (rs_id r) \<and> trimmed (rs_comboName r) \<and> pred_option trimmed (rs_label r)
       \<and> 0 \<le> rs_weight r \<and> rs_weight r \<le> 100
   | Wildcard_step w \<Rightarrow> trimmed (ws_id w) \<and> trimmed (ws_providerId w) \<and> trimmed (ws_modelPattern w)
       \<and> pred_option trimmed (ws_connectionId w) \<and> list_all trimmed (ws_allowed w)
       \<and> pred_option trimmed (ws_label w) \<and> 0 \<le> ws_weight w \<and> ws_weight w \<le> 100)"

lemma weight_range [simp]: "0 \<le> toWeight v" "toWeight v \<le> 100"
  by (simp_all add: toWeight_def split: jsval.split)

lemma weight_JNum: "0 \<le> q \<Longrightarrow> q \<le> 100 \<Longrightarrow> toWeight (JNum q) = q"
  by (simp add: toWeight_def)

lemma slug_char_space: "slug_char c \<Longrightarrow> \<not> js_space c"
  by (auto simp: slug_char_def js_space_def Let_def)

lemma dash_not_space: "\<not> js_space (CHR ''-'')"
  by code_simp

lemma dash_runs_chars: "c \<in> set (dash_runs b s) \<Longrightarrow> slug_char c \<or> c = CHR ''-''"
  by (induction b s rule: dash_runs.induct) (auto split: if_splits)

lemma slugify_ok: "slugify v \<noteq> [] \<and> list_all (\<lambda>c. \<not> js_space c) (slugify v)"
proof -
  have "\<not> js_space c" if "c \<in> set (strip_dashes (dash_runs False (toLowerCase v)))" for c
  proof -
    have "c \<in> set (dash_runs False (toLowerCase v))"
      using that by (auto simp: strip_dashes_def dest!: set_dropWhileD)
    then show ?thesis using dash_runs_chars slug_char_space dash_not_space by blast
  qed
  moreover have "list_all (\<lambda>c. \<not> js_space c) ''step''" by code_simp
  ultimately show ?thesis by (simp add: slugify_def Let_def list_all_iff)
qed

lemma decimal_no_space: "list_all (\<lambda>c. \<not> js_space c) (decimal n)"
  using decimal_digits [of n] digit_not unfolding list_all_iff by blast

lemma buildStepId_trimmed:
  assumes "k \<in> {''model'', ''ref'', ''wildcard''}"
  shows "trimmed (buildStepId k c i seed)"
proof (rule trimmed_no_space)
  have "list_all (\<lambda>c. \<not> js_space c) k" using assms by (elim insertE) (code_simp | simp)+
  then have "list_all (\<lambda>c. \<not> js_space c) (slugify (nullish c ''combo'') @ ''-'' @ k @ ''-'' @ decimal (Suc i)
       @ ''-'' @ slugify seed)"
    using slugify_ok [of seed] slugify_ok [of "nullish c ''combo''"] decimal_no_space [of "Suc i"] dash_not_space
    by simp
  then show "list_all (\<lambda>c. \<not> js_space c) (buildStepId k c i seed)"
    unfolding buildStepId_def by (metis in_set_takeD list_all_iff)
  show "buildStepId k c i seed \<noteq> []"
    using slugify_ok [of "nullish c ''combo''"] by (cases "slugify (nullish c ''combo'')") (auto simp: buildStepId_def)
qed

lemma parseProviderId_slash: "parseProviderId t = Some p \<Longrightarrow> CHR ''/'' \<in> set (trim t) \<and> trimmed p"
proof -
  assume a: "parseProviderId t = Some p"
  then obtain i where i: "indexOf ''/'' (trim t) = Some i" and p: "p = trim (take i (trim t))" "p \<noteq> []"
    by (auto simp: parseProviderId_def Let_def split: option.splits if_splits)
  have "prefix ''/'' (drop i (trim t))" using i by (simp add: indexOf_Some_iff)
  then have "CHR ''/'' \<in> set (drop i (trim t))" by (auto simp: prefix_def)
  then show ?thesis using p by (auto simp: trimmed_def dest: in_set_dropD)
qed

lemma wildcard_pattern_ok:
  "parseProviderWildcardPattern t = Some (p, pat) \<Longrightarrow> trimmed p \<and> trimmed pat \<and> CHR ''*'' \<in> set (trim t)"
proof -
  assume a: "parseProviderWildcardPattern t = Some (p, pat)"
  then obtain i where p: "p = trim (take i (trim t))" "p \<noteq> []"
      and pat: "pat = trim (drop (Suc i) (trim t))" "CHR ''*'' \<in> set pat"
    by (auto simp: parseProviderWildcardPattern_def Let_def split: option.splits if_splits)
  have "set (trim x) \<subseteq> set x" for x :: string
    by (auto simp: trim_def dest!: set_dropWhileD)
  then have "CHR ''*'' \<in> set (trim t)" using pat by (auto dest: in_set_dropD)
  then show ?thesis using p pat by (auto simp: trimmed_def)
qed

lemma full_model_ok:
  assumes "trimmed m" and "pred_option trimmed p"
  shows "trimmed (toFullModelString m p)" and "toFullModelString (toFullModelString m p) p = toFullModelString m p"
proof -
  have a: "trim (q @ CHR ''/'' # m) = q @ CHR ''/'' # m" if "trimmed q" for q
    using trimmed_append [OF that assms(1), of "''/''"] by (simp add: trimmed_def)
  show t: "trimmed (toFullModelString m p)"
    using assms a by (cases p) (auto simp: toFullModelString_def Let_def nonempty_def trimmed_def split: option.split)
  show "toFullModelString (toFullModelString m p) p = toFullModelString m p"
    using assms t by (cases p) (auto simp: toFullModelString_def Let_def trimmed_def nonempty_def split: option.split)
qed

lemma entry_provider_ok: "pred_option trimmed (entry_provider v raw)"
  using pred_option_trimmed [of "get_prop ''providerId'' v"] pred_option_trimmed [of "get_prop ''provider'' v"]
    parseProviderId_slash [of raw]
  by (cases "parseProviderId raw") (auto simp: entry_provider_def str_or_def split: option.split)

lemma entry_provider_None: "entry_provider v raw = None \<Longrightarrow> parseProviderId raw = None"
  by (auto simp: entry_provider_def str_or_def split: option.splits)

lemma explicit_id_ok:
  "k \<in> {''model'', ''ref'', ''wildcard''} \<Longrightarrow> trimmed (nullish (toTrimmedString v) (buildStepId k c i seed))"
  by (cases "toTrimmedString v") (auto dest: toTrimmedString_trimmed' intro!: buildStepId_trimmed)

lemma wildcard_of_ok: "trimmed p \<Longrightarrow> trimmed pat \<Longrightarrow> step_ok (wildcard_of v c i p pat)"
  by (simp add: wildcard_of_def step_ok_def Let_def explicit_id_ok pred_option_trimmed list_all_trimmed)

lemma normalize_string_ok: "normalize_string s names c i = Some st \<Longrightarrow> step_ok st"
proof -
  assume n: "normalize_string s names c i = Some st"
  then have t: "trimmed (trim s)"
    by (auto simp: normalize_string_def nonempty_def trimmed_def split: option.splits if_splits)
  have p: "pred_option trimmed (parseProviderId (trim s))"
    using parseProviderId_slash [of "trim s"] by (cases "parseProviderId (trim s)") auto
  have f: "toFullModelString (trim s) (parseProviderId (trim s)) = trim s"
    using parseProviderId_slash [of "trim s"]
    by (cases "parseProviderId (trim s)") (auto simp: toFullModelString_def Let_def)
  show ?thesis
    using n t p f wildcard_pattern_ok [of "trim s"] buildStepId_trimmed
    by (auto simp: normalize_string_def step_ok_def nonempty_def split: option.splits if_splits)
qed

lemma normalize_ok: "normalizeComboStep v names c i = Some st \<Longrightarrow> step_ok st"
proof (cases v)
  case (JObj m)
  assume n: "normalizeComboStep v names c i = Some st"
  consider (ref) "has_kind ''combo-ref'' v" | (wild) "\<not> has_kind ''combo-ref'' v" "has_kind ''provider-wildcard'' v"
    | (model) "\<not> has_kind ''combo-ref'' v" "\<not> has_kind ''provider-wildcard'' v" by blast
  then show ?thesis
  proof cases
    case ref
    then show ?thesis
      using n by (auto simp: JObj normalizeComboStep_def step_ok_def Let_def pred_option_trimmed explicit_id_ok
          dest: toTrimmedString_trimmed' split: option.splits)
  next
    case wild
    have "trimmed (nullish (toTrimmedString (get_prop ''modelPattern'' v)) ''*'')"
      by (cases "toTrimmedString (get_prop ''modelPattern'' v)")
        (auto dest: toTrimmedString_trimmed' simp: trimmed_iff js_space_def Let_def)
    then show ?thesis
      using n wild entry_provider_ok [of v "nullish (toTrimmedString (get_prop ''model'' v)) ''''"]
      by (auto simp: JObj normalizeComboStep_def Let_def wildcard_of_ok split: option.splits)
  next
    case model
    then obtain raw where raw: "toTrimmedString (get_prop ''model'' v) = Some raw"
      using n by (auto simp: JObj normalizeComboStep_def Let_def split: option.splits)
    note t = toTrimmedString_trimmed' [OF raw]
    have pn: "entry_provider v raw = None \<Longrightarrow> parseProviderId (toFullModelString raw (entry_provider v raw)) = None"
      using entry_provider_None [of v raw] t by (simp add: toFullModelString_def Let_def trimmed_def)
    show ?thesis
      using n model raw t wildcard_pattern_ok [of raw] full_model_ok [OF t entry_provider_ok] entry_provider_ok [of v raw] pn
      by (auto simp: JObj normalizeComboStep_def Let_def step_ok_def wildcard_of_ok [unfolded step_ok_def]
          explicit_id_ok pred_option_trimmed list_all_trimmed dest: toTrimmedString_trimmed'
          split: option.splits if_splits)
  qed
qed (auto simp: normalizeComboStep_def dest: normalize_string_ok)

section \<open>Normalizing again\<close>

text \<open>A property that may be there, before the rest of the object.\<close>

definition opt_json :: "string option \<Rightarrow> json \<Rightarrow> json" where
  "opt_json x d = (case x of None \<Rightarrow> d | Some s \<Rightarrow> JStr s)"

definition list_json :: "string list \<Rightarrow> json \<Rightarrow> json" where
  "list_json xs d = (if xs = [] then d else JArr (map JStr xs))"

lemma get_prop_simps [simp]:
  "get_prop k (JObj []) = JUndef"
  "get_prop k (JObj ((k', v) # m)) = (if k = k' then v else get_prop k (JObj m))"
  "get_prop k (JObj (opt_prop k' x @ m)) = (if k = k' then opt_json x (get_prop k (JObj m)) else get_prop k (JObj m))"
  "get_prop k (JObj (opt_prop k' x)) = (if k = k' then opt_json x JUndef else JUndef)"
  "get_prop k (JObj (list_prop k' xs @ m)) =
     (if k = k' then list_json xs (get_prop k (JObj m)) else get_prop k (JObj m))"
  "get_prop k (JObj (list_prop k' xs)) = (if k = k' then list_json xs JUndef else JUndef)"
  "get_prop k (JObj (flag_prop k' b)) = (if k = k' \<and> b then JBool True else JUndef)"
  by (auto simp: get_prop_def opt_prop_def list_prop_def flag_prop_def opt_json_def list_json_def split: option.splits)

lemma read_opt [simp]: "pred_option trimmed x \<Longrightarrow> toTrimmedString (opt_json x JUndef) = x"
  by (cases x) (auto simp: opt_json_def toTrimmedString_def trimmed_def)

lemma read_list [simp]: "list_all trimmed xs \<Longrightarrow> trimmed_list (list_json xs JUndef) = xs"
  by (simp add: list_json_def trimmed_list_def arr_of_def map_filter_trimmed map_filter_simps)

lemma read_flag [simp]: "((if b then JBool True else JUndef) = JBool True) = b"
  by simp

lemma trimmed_undef [simp]: "toTrimmedString JUndef = None"
  by (simp add: toTrimmedString_def)

lemmas step_json = step_ok_def json_of_step_def normalizeComboStep_def has_kind_def Let_def weight_JNum

lemma normalize_ref:
  assumes "step_ok (Ref_step r)"
  shows "normalizeComboStep (json_of_step (Ref_step r)) names c i = Some (Ref_step r)"
  using assms by (simp add: step_json split del: if_split)

lemma normalize_wildcard:
  assumes "step_ok (Wildcard_step w)"
  shows "normalizeComboStep (json_of_step (Wildcard_step w)) names c i = Some (Wildcard_step w)"
  using assms by (simp add: step_json wildcard_of_def entry_provider_def str_or_def split del: if_split)

lemma normalize_model:
  assumes "step_ok (Model_step m)" and "parseProviderWildcardPattern (ms_model m) = None"
  shows "normalizeComboStep (json_of_step (Model_step m)) names c i = Some (Model_step m)"
proof -
  have p: "str_or (ms_providerId m) (str_or None (parseProviderId (ms_model m))) = ms_providerId m"
    using assms(1) by (auto simp: step_ok_def str_or_def split: option.splits)
  show ?thesis
    using assms p by (simp add: step_json entry_provider_def split del: if_split)
qed

text \<open>
  C99. Normalizing is stable. A combo is normalized when it is saved and again whenever it is read; the
  second pass, from the stored object and with whatever combos exist by then, gives the step back with its
  identifier, kind, target, weight and pins, provided that a model step does not name a model with a star
  behind a slash.
\<close>

theorem normalization_is_stable:
  assumes "normalizeComboStep v names comboName index = Some s"
    and "case s of Model_step m \<Rightarrow> parseProviderWildcardPattern (ms_model m) = None | _ \<Rightarrow> True"
  shows "normalizeComboStep (json_of_step s) names' comboName' index' = Some s"
  using normalize_ok [OF assms(1)] assms(2) normalize_ref normalize_wildcard normalize_model
  by (cases s) auto

definition sample_entry :: json where
  "sample_entry = JObj [(''model'', JStr '' gpt-4o ''), (''provider'', JStr ''openai''), (''weight'', JStr ''250''),
     (''tags'', JArr [JStr ''a'', JNum 1])]"

theorem normalization_is_stable_witness:
  "\<exists>s. normalizeComboStep sample_entry [] (Some ''My Combo'') 0 = Some s
    \<and> normalizeComboStep (json_of_step s) [''gpt-4o''] None 7 = Some s"
proof -
  obtain m where m: "normalizeComboStep sample_entry [] (Some ''My Combo'') 0 = Some (Model_step m)"
    and "parseProviderWildcardPattern (ms_model m) = None"
  proof
    let ?m = "\<lparr>ms_id = ''my-combo-model-1-openai-gpt-4o'', ms_model = ''openai/gpt-4o'', ms_providerId = Some ''openai'',
      ms_connectionId = None, ms_allowed = [], ms_weight = 100, ms_label = None, ms_prompt = None, ms_tags = [''a''],
      ms_fallbackOnly = False\<rparr>"
    show "normalizeComboStep sample_entry [] (Some ''My Combo'') 0 = Some (Model_step ?m)" by code_simp
    show "parseProviderWildcardPattern (ms_model ?m) = None" by code_simp
  qed
  then show ?thesis using normalization_is_stable [OF m] by auto
qed

text \<open>
  With a star it is not: a model step whose model names its provider in another property is a model the
  first time and a wildcard over the provider's models the second.
\<close>

theorem starred_model_becomes_wildcard:
  "\<exists>m w. normalizeComboStep (JObj [(''model'', JStr ''gpt-*''), (''provider'', JStr ''openai'')]) [] None 0
       = Some (Model_step m)
    \<and> normalizeComboStep (json_of_step (Model_step m)) [] None 0 = Some (Wildcard_step w)
    \<and> ms_model m = ''openai/gpt-*'' \<and> ws_modelPattern w = ''gpt-*''"
proof -
  let ?e = "JObj [(''model'', JStr ''gpt-*''), (''provider'', JStr ''openai'')]"
  let ?m = "\<lparr>ms_id = ''combo-model-1-openai-gpt'', ms_model = ''openai/gpt-*'', ms_providerId = Some ''openai'',
      ms_connectionId = None, ms_allowed = [], ms_weight = 0, ms_label = None, ms_prompt = None, ms_tags = [],
      ms_fallbackOnly = False\<rparr>"
  let ?w = "\<lparr>ws_id = ''combo-model-1-openai-gpt'', ws_providerId = ''openai'', ws_modelPattern = ''gpt-*'',
      ws_connectionId = None, ws_allowed = [], ws_weight = 0, ws_label = None\<rparr>"
  have "normalizeComboStep ?e [] None 0 = Some (Model_step ?m)" by code_simp
  moreover have "normalizeComboStep (json_of_step (Model_step ?m)) [] None 0 = Some (Wildcard_step ?w)" by code_simp
  ultimately show ?thesis by (intro exI [of _ ?m] exI [of _ ?w]) simp
qed

end
