(* ===== verification/ComboStructure.thy ===== *)
theory ComboStructure
  imports ComboSteps
begin

text \<open>
  The structure of combos, \<open>src/open-sse/services/combo/comboStructure.ts\<close>: entries become runtime steps,
  references to other combos are expanded, nesting is validated, and the targets of a weighted combo are
  ordered; with the helpers of \<open>targetSorters.ts\<close>, \<open>comboData.ts\<close> and \<open>comboPredicates.ts\<close> it uses.

  \<^item> Combos are records after \<open>toComboLike\<close>; \<open>allCombos\<close> is \<open>None\<close> when it is null or undefined. The names
    of the combos, which step normalization asks for, are \<open>combo_names\<close>.
  \<^item> The field \<open>provider\<close> of a target, which needs the model parser, and the visibility of models, which
    is a table of the database, are not part of a target; \<open>visible\<close> is the filter by that table.
  \<^item> The random numbers of the weighted selection are arguments: \<open>u\<close> for \<open>secureRandomFloat()\<close>, a
    fraction of at least 0 and below 1, and \<open>k\<close> for \<open>secureRandomInt(n)\<close>.

  The lemmas: what validation accepts, that validated combos are expanded completely, and how weights
  decide.
\<close>

section \<open>Data\<close>

record combo =
  c_name :: string
  c_models :: "json list"
  c_config :: json

record target =
  t_stepId :: string
  t_executionKey :: string
  t_modelStr :: string
  t_providerId :: "string option"
  t_connectionId :: "string option"
  t_allowed :: "string list"
  t_weight :: rat
  t_label :: "string option"
  t_prompt :: "string option"
  t_fallbackOnly :: bool

record combo_unit =
  u_stepId :: string
  u_executionKey :: string
  u_comboName :: string
  u_weight :: rat
  u_label :: "string option"
  u_fallbackOnly :: bool

datatype runtime_step = Target target | Combo_ref combo_unit

primrec stepId :: "runtime_step \<Rightarrow> string" where
  "stepId (Target t) = t_stepId t"
| "stepId (Combo_ref u) = u_stepId u"

primrec executionKey :: "runtime_step \<Rightarrow> string" where
  "executionKey (Target t) = t_executionKey t"
| "executionKey (Combo_ref u) = u_executionKey u"

primrec step_weight :: "runtime_step \<Rightarrow> rat" where
  "step_weight (Target t) = t_weight t"
| "step_weight (Combo_ref u) = u_weight u"

definition MAX_COMBO_DEPTH :: nat where
  "MAX_COMBO_DEPTH = 3"

definition MAX_COMBO_DEPTH_HARD_CAP :: nat where
  "MAX_COMBO_DEPTH_HARD_CAP = 10"

definition clampComboDepth :: "json \<Rightarrow> nat" where
  "clampComboDepth value = (case js_number value of
     Num q \<Rightarrow> if floor q < 1 then MAX_COMBO_DEPTH else min (nat (floor q)) MAX_COMBO_DEPTH_HARD_CAP
   | _ \<Rightarrow> MAX_COMBO_DEPTH)"

section \<open>Combos and their steps\<close>

definition toComboLike :: "json \<Rightarrow> combo" where
  "toComboLike v = \<lparr>c_name = nullish (toTrimmedString (get_prop ''name'' v)) '''',
     c_models = nullish (arr_of (get_prop ''models'' v)) [],
     c_config = (if isRecord (get_prop ''config'' v) then get_prop ''config'' v else JNull)\<rparr>"

definition getCombosArray :: "json \<Rightarrow> combo list" where
  "getCombosArray allCombos = map toComboLike
     (case allCombos of JArr xs \<Rightarrow> xs | _ \<Rightarrow> nullish (arr_of (get_prop ''combos'' allCombos)) [])"

definition combo_names :: "combo list \<Rightarrow> string list" where
  "combo_names cs = filter (\<lambda>n. n \<noteq> []) (map (trim \<circ> c_name) cs)"

definition find_combo :: "string \<Rightarrow> combo list \<Rightarrow> combo option" where
  "find_combo n cs = find (\<lambda>c. c_name c = n) cs"

definition buildExecutionKey :: "string list \<Rightarrow> string \<Rightarrow> string" where
  "buildExecutionKey path sid = concat (map (\<lambda>p. p @ ''>'') path) @ sid"

text \<open>
  A wildcard that was not expanded before has no model string, and is dropped
  (\<open>wildcard_has_no_model\<close> below).
\<close>

definition normalizeRuntimeStep :: "json \<Rightarrow> string \<Rightarrow> nat \<Rightarrow> combo list option \<Rightarrow> string list \<Rightarrow> runtime_step option" where
  "normalizeRuntimeStep entry comboName index allCombos path =
     (case normalizeComboStep entry (combo_names (nullish allCombos [])) (nonempty (trim comboName)) index of
        None \<Rightarrow> None
      | Some (Ref_step r) \<Rightarrow>
          Some (Combo_ref \<lparr>u_stepId = rs_id r, u_executionKey = buildExecutionKey path (rs_id r),
            u_comboName = rs_comboName r, u_weight = rs_weight r, u_label = rs_label r,
            u_fallbackOnly = rs_fallbackOnly r\<rparr>)
      | Some (Wildcard_step w) \<Rightarrow> None
      | Some (Model_step m) \<Rightarrow>
          (case getComboModelString (json_of_step (Model_step m)) of
             None \<Rightarrow> None
           | Some modelStr \<Rightarrow>
               let conn = Option.bind (ms_connectionId m) (\<lambda>s. nonempty (trim s)) in
               Some (Target \<lparr>t_stepId = ms_id m, t_executionKey = buildExecutionKey path (ms_id m),
                 t_modelStr = modelStr, t_providerId = ms_providerId m, t_connectionId = conn,
                 t_allowed = nullish (implicitPinAllowlist conn
                     (if ms_allowed m = [] then None else Some (ms_allowed m))) [],
                 t_weight = ms_weight m, t_label = ms_label m, t_prompt = ms_prompt m,
                 t_fallbackOnly = ms_fallbackOnly m\<rparr>)))"

lemma wildcard_has_no_model: "getComboModelString (json_of_step (Wildcard_step w)) = None"
  by (simp add: json_of_step_def getComboModelString_def has_kind_def opt_json_def list_json_def toTrimmedString_def
      split: option.split)

definition getTopLevelRuntimeSteps :: "combo \<Rightarrow> combo list option \<Rightarrow> string list \<Rightarrow> runtime_step list" where
  "getTopLevelRuntimeSteps c allCombos path =
     List.map_filter (\<lambda>(i, e). normalizeRuntimeStep e (c_name c) i allCombos path) (List.enumerate 0 (c_models c))"

section \<open>Composite tiers\<close>

record tier_entry =
  te_stepId :: string
  te_fallbackTier :: "string option"

definition tier_entries :: "json \<Rightarrow> (string \<times> tier_entry) list" where
  "tier_entries tiers =
     (case tiers of
        JObj m \<Rightarrow> foldl (\<lambda>acc (name, raw).
            if isRecord raw then
              (case (nonempty (trim name), toTrimmedString (get_prop ''stepId'' raw)) of
                 (Some n, Some sid) \<Rightarrow>
                   map_set n \<lparr>te_stepId = sid, te_fallbackTier = toTrimmedString (get_prop ''fallbackTier'' raw)\<rparr> acc
               | _ \<Rightarrow> acc)
            else acc) [] m
      | _ \<Rightarrow> [])"

lemma map_del_shorter: "map_of m k = Some v \<Longrightarrow> length (map_del k m) < length m"
  by (induction m) (auto simp: less_Suc_eq_le length_map_del_le split: if_splits)

text \<open>The loop over the fallback tiers: a tier that has been visited is not in \<open>rest\<close> any more.\<close>

function tier_chain :: "(string \<times> tier_entry) list \<Rightarrow> string option \<Rightarrow> string list" where
  "tier_chain rest None = []"
| "tier_chain rest (Some t) =
     (case map_of rest t of None \<Rightarrow> []
      | Some e \<Rightarrow> te_stepId e # tier_chain (map_del t rest) (te_fallbackTier e))"
  by pat_completeness auto

termination
  by (relation "measure (\<lambda>(rest, t). length rest)") (auto simp: map_del_shorter)

text \<open>The first occurrence of each element: a list pushed to behind a set of what was seen.\<close>

definition keep_first :: "'a list \<Rightarrow> 'a list" where
  "keep_first xs = rev (remdups (rev xs))"

definition getCompositeTierStepOrder :: "combo \<Rightarrow> string list" where
  "getCompositeTierStepOrder c =
     (let ct = get_prop ''compositeTiers'' (c_config c);
          tiers = get_prop ''tiers'' ct
      in case toTrimmedString (get_prop ''defaultTier'' ct) of
           None \<Rightarrow> []
         | Some dt \<Rightarrow>
             if isRecord tiers
             then keep_first (tier_chain (tier_entries tiers) (Some dt) @ map (te_stepId \<circ> snd) (tier_entries tiers))
             else [])"

definition orderRuntimeStepsByCompositeTiers :: "runtime_step list \<Rightarrow> combo \<Rightarrow> runtime_step list" where
  "orderRuntimeStepsByCompositeTiers steps c =
     (let ids = getCompositeTierStepOrder c;
          byStepId = map_of (rev (map (\<lambda>s. (stepId s, s)) steps));
          ordered = List.map_filter byStepId ids
      in if ids = [] then steps
         else foldl (\<lambda>acc s. if stepId s \<in> set (map stepId acc) then acc else acc @ [s]) ordered steps)"

definition getOrderedTopLevelRuntimeSteps :: "combo \<Rightarrow> combo list option \<Rightarrow> string list \<Rightarrow> runtime_step list" where
  "getOrderedTopLevelRuntimeSteps c allCombos path =
     orderRuntimeStepsByCompositeTiers (getTopLevelRuntimeSteps c allCombos path) c"

section \<open>Expansion\<close>

definition target_of :: "runtime_step \<Rightarrow> target option" where
  "target_of s = (case s of Target t \<Rightarrow> Some t | Combo_ref _ \<Rightarrow> None)"

text \<open>
  \<open>resolveNestedComboTargets\<close>, \<open>expandRuntimeStep\<close> and the loop of the former over the steps. Beyond the
  depth limit only the direct model steps are kept; a combo on the path contributes nothing.
\<close>

function resolveNestedComboTargets ::
      "combo \<Rightarrow> combo list option \<Rightarrow> string list \<Rightarrow> nat \<Rightarrow> string list \<Rightarrow> nat \<Rightarrow> target list"
    and expandRuntimeStep ::
      "runtime_step \<Rightarrow> combo list option \<Rightarrow> string list \<Rightarrow> nat \<Rightarrow> string list \<Rightarrow> nat \<Rightarrow> target list"
    and expand_steps ::
      "runtime_step list \<Rightarrow> combo list option \<Rightarrow> string list \<Rightarrow> nat \<Rightarrow> string list \<Rightarrow> nat \<Rightarrow> target list" where
  "resolveNestedComboTargets c allCombos visited depth path maxDepth =
     (if depth > maxDepth then List.map_filter target_of (getTopLevelRuntimeSteps c None path)
      else if c_name c \<in> set visited then []
      else expand_steps (getOrderedTopLevelRuntimeSteps c allCombos path) allCombos (c_name c # visited)
             depth path maxDepth)"
| "expandRuntimeStep (Target t) allCombos visited depth path maxDepth = [t]"
| "expandRuntimeStep (Combo_ref u) allCombos visited depth path maxDepth =
     (if depth > maxDepth then []
      else case find_combo (u_comboName u) (nullish allCombos []) of
             None \<Rightarrow> []
           | Some c \<Rightarrow>
               if u_comboName u \<in> set visited then []
               else resolveNestedComboTargets c (Some (nullish allCombos [])) visited (Suc depth)
                      (path @ [u_stepId u]) maxDepth)"
| "expand_steps [] allCombos visited depth path maxDepth = []"
| "expand_steps (s # ss) allCombos visited depth path maxDepth =
     expandRuntimeStep s allCombos visited depth path maxDepth
     @ expand_steps ss allCombos visited depth path maxDepth"
  by pat_completeness auto
termination
  by (relation "inv_image (less_than <*lex*> less_than <*lex*> less_than)
      (\<lambda>x. case x of Inl (c, a, v, d, p, m) \<Rightarrow> (Suc m - d, 2, 0)
        | Inr (Inl (s, a, v, d, p, m)) \<Rightarrow> (Suc m - d, 0, 0)
        | Inr (Inr (ss, a, v, d, p, m)) \<Rightarrow> (Suc m - d, Suc 0, length ss))") auto

declare resolveNestedComboTargets.simps [simp del]

definition normalizeModelEntry :: "json \<Rightarrow> string" where
  "normalizeModelEntry entry = nullish (getComboStepTarget entry [] None) ''''"

function resolveNestedComboModels :: "combo \<Rightarrow> combo list \<Rightarrow> string list \<Rightarrow> nat \<Rightarrow> nat \<Rightarrow> string list" where
  "resolveNestedComboModels c cs visited depth maxDepth =
     (if depth > maxDepth then map normalizeModelEntry (c_models c)
      else if c_name c \<in> set visited then []
      else concat (map (\<lambda>e. case find_combo (normalizeModelEntry e) cs of
             Some c' \<Rightarrow> resolveNestedComboModels c' cs (c_name c # visited) (Suc depth) maxDepth
           | None \<Rightarrow> [normalizeModelEntry e]) (c_models c)))"
  by pat_completeness auto
termination
  by (relation "measure (\<lambda>(c, a, v, d, m). Suc m - d)") auto

declare resolveNestedComboModels.simps [simp del]

section \<open>Validation\<close>

datatype dag_error = Too_deep nat string | Circular string

fun each :: "('a \<Rightarrow> 'e + unit) \<Rightarrow> 'a list \<Rightarrow> 'e + unit" where
  "each f [] = Inr ()"
| "each f (x # xs) = (case f x of Inl e \<Rightarrow> Inl e | Inr _ \<Rightarrow> each f xs)"

lemma each_cong [fundef_cong]: "xs = ys \<Longrightarrow> (\<And>x. x \<in> set ys \<Longrightarrow> f x = g x) \<Longrightarrow> each f xs = each g ys"
  by (induction xs arbitrary: ys) (auto split: sum.split)

lemma each_Inr: "each f xs = Inr () \<longleftrightarrow> (\<forall>x\<in>set xs. f x = Inr ())"
  by (induction xs) (auto split: sum.splits)

function validateComboDAG :: "string \<Rightarrow> combo list \<Rightarrow> string list \<Rightarrow> nat \<Rightarrow> nat \<Rightarrow> dag_error + unit" where
  "validateComboDAG n cs visited depth maxDepth =
     (if depth > maxDepth then Inl (Too_deep maxDepth n)
      else if n \<in> set visited then Inl (Circular n)
      else (case find_combo n cs of
              None \<Rightarrow> Inr ()
            | Some c \<Rightarrow> each (\<lambda>e. if find_combo (normalizeModelEntry e) cs = None then Inr ()
                else validateComboDAG (normalizeModelEntry e) cs (n # visited) (Suc depth) maxDepth) (c_models c)))"
  by pat_completeness auto
termination
  by (relation "measure (\<lambda>(n, cs, v, d, m). Suc m - d)") auto

declare validateComboDAG.simps [simp del]

section \<open>Resolution\<close>

definition resolveComboTargets :: "combo \<Rightarrow> combo list option \<Rightarrow> nat \<Rightarrow> (target \<Rightarrow> bool) \<Rightarrow> target list" where
  "resolveComboTargets c allCombos maxDepth visible =
     filter visible
       (case allCombos of
          Some cs \<Rightarrow> resolveNestedComboTargets c allCombos [] 0 [] maxDepth
        | None \<Rightarrow> List.map_filter target_of (getOrderedTopLevelRuntimeSteps c None []))"

definition unit_visible :: "(target \<Rightarrow> bool) \<Rightarrow> runtime_step \<Rightarrow> bool" where
  "unit_visible visible s = (case s of Combo_ref _ \<Rightarrow> True | Target t \<Rightarrow> visible t)"

definition resolveComboRuntimeUnits ::
    "combo \<Rightarrow> combo list option \<Rightarrow> bool \<Rightarrow> nat \<Rightarrow> (target \<Rightarrow> bool) \<Rightarrow> dag_error + runtime_step list" where
  "resolveComboRuntimeUnits c allCombos flatten maxDepth visible =
     (case allCombos of
        None \<Rightarrow> Inr (map Target (resolveComboTargets c None maxDepth visible))
      | Some cs \<Rightarrow>
          if flatten then Inr (map Target (resolveComboTargets c allCombos maxDepth visible))
          else (case validateComboDAG (c_name c) cs [] 0 maxDepth of
                  Inl e \<Rightarrow> Inl e
                | Inr _ \<Rightarrow> Inr (filter (unit_visible visible) (getOrderedTopLevelRuntimeSteps c allCombos []))))"

section \<open>Weighted selection\<close>

fun pick_weighted :: "rat \<Rightarrow> runtime_step list \<Rightarrow> runtime_step option" where
  "pick_weighted r [] = None"
| "pick_weighted r (s # ss) = (if r - step_weight s \<le> 0 then Some s else pick_weighted (r - step_weight s) ss)"

definition selectWeightedTarget :: "rat \<Rightarrow> nat \<Rightarrow> runtime_step list \<Rightarrow> runtime_step option" where
  "selectWeightedTarget u k steps =
     (if steps = [] then None
      else let total = sum_list (map step_weight steps)
           in if total \<le> 0 then Some (steps ! k)
              else (case pick_weighted (u * total) steps of Some s \<Rightarrow> Some s | None \<Rightarrow> Some (last steps)))"

definition orderTargetsForWeightedFallback :: "runtime_step list \<Rightarrow> string \<Rightarrow> bool \<Rightarrow> runtime_step list" where
  "orderTargetsForWeightedFallback steps key preserve =
     (let rest = filter (\<lambda>s. executionKey s \<noteq> key) steps;
          rest' = (if preserve then rest else sort_key (\<lambda>s. - step_weight s) rest)
      in case find (\<lambda>s. executionKey s = key) steps of None \<Rightarrow> rest' | Some s \<Rightarrow> s # rest')"

fun dedupe_from :: "string set \<Rightarrow> target list \<Rightarrow> target list" where
  "dedupe_from seen [] = []"
| "dedupe_from seen (t # ts) =
     (if t_executionKey t \<in> seen then dedupe_from seen ts
      else t # dedupe_from (insert (t_executionKey t) seen) ts)"

definition dedupeTargetsByExecutionKey :: "target list \<Rightarrow> target list" where
  "dedupeTargetsByExecutionKey ts = dedupe_from {} ts"

definition step_targets :: "combo \<Rightarrow> combo list option \<Rightarrow> (target \<Rightarrow> bool) \<Rightarrow> runtime_step \<Rightarrow> target list" where
  "step_targets c allCombos visible s =
     filter visible
       (case allCombos of
          None \<Rightarrow> (case s of Target t \<Rightarrow> [t] | Combo_ref _ \<Rightarrow> [])
        | Some cs \<Rightarrow> expandRuntimeStep s allCombos [c_name c] 0 [] MAX_COMBO_DEPTH)"

definition resolveWeightedStepGroups ::
    "combo \<Rightarrow> combo list option \<Rightarrow> (target \<Rightarrow> bool) \<Rightarrow> (runtime_step \<times> target list) list" where
  "resolveWeightedStepGroups c allCombos visible =
     filter (\<lambda>(s, ts). ts \<noteq> [])
       (map (\<lambda>s. (s, step_targets c allCombos visible s)) (getOrderedTopLevelRuntimeSteps c allCombos []))"

record weighted_resolution =
  w_orderedTargets :: "target list"
  w_selectedStep :: "runtime_step option"
  w_orderedSteps :: "runtime_step list"

definition resolveWeightedTargets ::
    "combo \<Rightarrow> combo list option \<Rightarrow> string option \<Rightarrow> string list option
      \<Rightarrow> (runtime_step \<times> target list) list \<Rightarrow> rat \<Rightarrow> nat \<Rightarrow> weighted_resolution" where
  "resolveWeightedTargets c allCombos preferredKey eligible groups u k =
     (let none = \<lparr>w_orderedTargets = [], w_selectedStep = None, w_orderedSteps = []\<rparr>;
          steps = filter (\<lambda>s. case eligible of None \<Rightarrow> True | Some keys \<Rightarrow> executionKey s \<in> set keys)
                    (getOrderedTopLevelRuntimeSteps c allCombos [])
      in if steps = [] then none
         else let preferred = (case preferredKey of None \<Rightarrow> None | Some key \<Rightarrow> find (\<lambda>s. executionKey s = key) steps)
              in case (case preferred of Some s \<Rightarrow> Some s | None \<Rightarrow> selectWeightedTarget u k steps) of
                   None \<Rightarrow> none
                 | Some s \<Rightarrow>
                     let ordered = orderTargetsForWeightedFallback steps (executionKey s)
                                     (getCompositeTierStepOrder c \<noteq> []);
                         targetsByStep = map_of (rev (map (\<lambda>(s, ts). (executionKey s, ts)) groups))
                     in \<lparr>w_orderedTargets = dedupeTargetsByExecutionKey
                           (concat (map (\<lambda>s. nullish (targetsByStep (executionKey s)) []) ordered)),
                         w_selectedStep = Some s, w_orderedSteps = ordered\<rparr>)"

section \<open>What validation accepts\<close>

text \<open>The combos a combo refers to, and the chains of references.\<close>

definition refs :: "combo list \<Rightarrow> string \<Rightarrow> string list" where
  "refs cs n = (case find_combo n cs of None \<Rightarrow> []
     | Some c \<Rightarrow> filter (\<lambda>m. find_combo m cs \<noteq> None) (map normalizeModelEntry (c_models c)))"

fun chain :: "('a \<Rightarrow> 'a list) \<Rightarrow> 'a list \<Rightarrow> bool" where
  "chain succ (a # b # p) \<longleftrightarrow> b \<in> set (succ a) \<and> chain succ (b # p)"
| "chain succ p \<longleftrightarrow> True"

text \<open>
  The contract of a check that walks a graph depth first, carrying the nodes of its path and its depth:
  it fails where it is too deep or meets a node of its path, and asks the same of every successor.
\<close>

locale path_check =
  fixes check :: "'a list \<Rightarrow> nat \<Rightarrow> 'a \<Rightarrow> bool"
    and succ :: "'a \<Rightarrow> 'a list"
    and bound :: nat
  assumes check_iff: "check vs d a \<longleftrightarrow> d \<le> bound \<and> a \<notin> set vs \<and> (\<forall>b\<in>set (succ a). check (a # vs) (Suc d) b)"
begin

lemma check_chain:
  "check vs d a \<Longrightarrow> chain succ (a # p) \<Longrightarrow>
    distinct (a # p) \<and> set (a # p) \<inter> set vs = {} \<and> d + length p \<le> bound"
proof (induction p arbitrary: vs d a)
  case Nil
  then show ?case using check_iff [of vs d a] by simp
next
  case (Cons b p)
  then have "check (a # vs) (Suc d) b" "a \<notin> set vs" using check_iff [of vs d a] by auto
  then show ?case using Cons.IH [of "a # vs" "Suc d" b] Cons.prems(2) by auto
qed

lemma chain_check:
  "(\<And>p. chain succ (a # p) \<Longrightarrow> distinct (a # p) \<and> set (a # p) \<inter> set vs = {} \<and> d + length p \<le> bound)
    \<Longrightarrow> check vs d a"
proof (induction "Suc bound - d" arbitrary: vs d a)
  case 0
  then show ?case using 0(2) [of "[]"] by simp
next
  case (Suc n)
  have "check (a # vs) (Suc d) b" if b: "b \<in> set (succ a)" for b
  proof (rule Suc.hyps(1))
    show "n = Suc bound - Suc d" using Suc.hyps(2) by simp
    show "distinct (b # p) \<and> set (b # p) \<inter> set (a # vs) = {} \<and> Suc d + length p \<le> bound"
      if "chain succ (b # p)" for p
      using Suc.prems [of "b # p"] that b by auto
  qed
  then show ?case using Suc.prems [of "[]"] check_iff [of vs d a] by simp
qed

lemma check_exact:
  "check [] 0 a \<longleftrightarrow> (\<forall>p. chain succ (a # p) \<longrightarrow> distinct (a # p) \<and> length p \<le> bound)"
  using check_chain [of "[]" 0 a] chain_check [of a "[]" 0] by (metis add_0 inf_bot_right list.set(1))

end

lemma validate_step:
  "validateComboDAG n cs vs d m = Inr () \<longleftrightarrow>
     d \<le> m \<and> n \<notin> set vs \<and> (\<forall>b\<in>set (refs cs n). validateComboDAG b cs (n # vs) (Suc d) m = Inr ())"
  by (subst validateComboDAG.simps) (auto simp: refs_def each_Inr split: option.split)

interpretation dag: path_check "\<lambda>vs d n. validateComboDAG n cs vs d m = Inr ()" "refs cs" m for cs m
  by unfold_locales (rule validate_step)

text \<open>
  C99. Validation is exact. A combo passes \<open>validateComboDAG\<close> exactly when every chain of references that
  starts at it, a combo naming the next one in one of its entries, visits no combo twice and has at most
  \<open>maxDepth\<close> references. So a cycle anywhere below the combo is found, and a shared sub-combo that is
  reached along two branches is not mistaken for one.
\<close>

theorem dag_validation_exact:
  "validateComboDAG n cs [] 0 maxDepth = Inr () \<longleftrightarrow>
     (\<forall>p. chain (refs cs) (n # p) \<longrightarrow> distinct (n # p) \<and> length p \<le> maxDepth)"
  by (rule dag.check_exact)

text \<open>The steps the runtime refers through are references validation has seen.\<close>

lemma find_combo_name: "find_combo n cs = Some c \<Longrightarrow> c_name c = n"
  by (auto simp: find_combo_def find_Some_iff)

lemma ref_step_entry:
  assumes "normalizeComboStep e names cn i = Some (Ref_step r)"
  shows "normalizeModelEntry e = rs_comboName r"
proof (cases e)
  case (JStr s)
  then show ?thesis
    using assms(1) by (auto simp: normalizeComboStep_def normalize_string_def normalizeModelEntry_def
        getComboStepTarget_def toTrimmedString_def nonempty_def split: option.splits if_splits)
next
  case (JObj m)
  then have k: "\<not> has_kind ''provider-wildcard'' e" if "\<not> has_kind ''combo-ref'' e"
    using assms(1) that by (auto simp: normalizeComboStep_def Let_def wildcard_of_def split: option.splits if_splits)
  show ?thesis
  proof (cases "has_kind ''combo-ref'' e")
    case True
    then show ?thesis
      using assms(1) JObj by (auto simp: normalizeComboStep_def Let_def normalizeModelEntry_def
          getComboStepTarget_def split: option.splits)
  next
    case False
    then obtain raw where raw: "toTrimmedString (get_prop ''model'' e) = Some raw"
      and r: "rs_comboName r = raw" "entry_provider e raw = None"
      using assms(1) JObj k by (auto simp: normalizeComboStep_def Let_def wildcard_of_def shouldTreatAsComboRef_def
          split: option.splits if_splits)
    have "trim raw = raw" using toTrimmedString_trimmed' [OF raw] by (simp add: trimmed_def)
    then show ?thesis
      using False k raw r JObj by (simp add: normalizeModelEntry_def getComboStepTarget_def toFullModelString_def Let_def)
  qed
qed (use assms(1) in \<open>auto simp: normalizeComboStep_def\<close>)

lemma runtime_ref_entry:
  "normalizeRuntimeStep e n i allCombos path = Some (Combo_ref u) \<Longrightarrow> normalizeModelEntry e = u_comboName u"
  by (auto simp: normalizeRuntimeStep_def Let_def dest!: ref_step_entry split: option.splits combo_step.splits)

lemma top_level_ref:
  assumes "Combo_ref u \<in> set (getTopLevelRuntimeSteps c allCombos path)"
  shows "\<exists>e\<in>set (c_models c). normalizeModelEntry e = u_comboName u"
proof -
  have "b \<in> set xs" if "(a, b) \<in> set (List.enumerate 0 xs)" for a b and xs :: "json list"
    using that map_snd_enumerate [of 0 xs] by (metis image_eqI list.set_map snd_conv)
  then show ?thesis
    using assms by (fastforce simp: getTopLevelRuntimeSteps_def map_filter_def dest!: runtime_ref_entry)
qed

lemma foldl_new_set:
  "set (foldl (\<lambda>acc s. if stepId s \<in> set (map stepId acc) then acc else acc @ [s]) acc ss) \<subseteq> set acc \<union> set ss"
proof (induction ss arbitrary: acc)
  case (Cons a ss)
  then show ?case using Cons.IH [of acc] Cons.IH [of "acc @ [a]"] by auto
qed simp

lemma ordered_by_tiers_subset: "set (orderRuntimeStepsByCompositeTiers ss c) \<subseteq> set ss"
proof -
  let ?m = "map_of (rev (map (\<lambda>s. (stepId s, s)) ss))" and ?ids = "getCompositeTierStepOrder c"
  have "set (List.map_filter ?m ?ids) \<subseteq> set ss"
    by (force simp: map_filter_def dest: map_of_SomeD)
  then show ?thesis
    using foldl_new_set [of "List.map_filter ?m ?ids" ss]
    unfolding orderRuntimeStepsByCompositeTiers_def Let_def by auto
qed

lemma ordered_steps_subset:
  "set (getOrderedTopLevelRuntimeSteps c allCombos path) \<subseteq> set (getTopLevelRuntimeSteps c allCombos path)"
  by (simp add: getOrderedTopLevelRuntimeSteps_def ordered_by_tiers_subset)

lemma runtime_ref_in_refs:
  assumes "find_combo (c_name c) cs = Some c" and "Combo_ref u \<in> set (getOrderedTopLevelRuntimeSteps c allCombos path)"
    and "find_combo (u_comboName u) cs = Some c'"
  shows "u_comboName u \<in> set (refs cs (c_name c))"
proof -
  obtain e where "e \<in> set (c_models c)" "normalizeModelEntry e = u_comboName u"
    using assms(2) ordered_steps_subset top_level_ref by blast
  then show ?thesis using assms(1,3) by (force simp: refs_def)
qed

section \<open>Validated combos are expanded completely\<close>

text \<open>
  The expansion of a combo, with no limit of depth and no record of what was visited: each reference is
  replaced by the expansion of the combo it names, and one that names no combo by nothing.
\<close>

inductive expands :: "combo list \<Rightarrow> string list \<Rightarrow> combo \<Rightarrow> target list \<Rightarrow> bool"
    and expands_steps :: "combo list \<Rightarrow> string list \<Rightarrow> runtime_step list \<Rightarrow> target list \<Rightarrow> bool" for cs where
  "expands_steps cs path (getOrderedTopLevelRuntimeSteps c (Some cs) path) ts \<Longrightarrow> expands cs path c ts"
| "expands_steps cs path [] []"
| "expands_steps cs path ss ts \<Longrightarrow> expands_steps cs path (Target t # ss) (t # ts)"
| "find_combo (u_comboName u) cs = None \<Longrightarrow> expands_steps cs path ss ts
    \<Longrightarrow> expands_steps cs path (Combo_ref u # ss) ts"
| "find_combo (u_comboName u) cs = Some c \<Longrightarrow> expands cs (path @ [u_stepId u]) c us \<Longrightarrow> expands_steps cs path ss ts
    \<Longrightarrow> expands_steps cs path (Combo_ref u # ss) (us @ ts)"

inductive_cases expandsE: "expands cs path c ts"
inductive_cases expands_NilE: "expands_steps cs path [] ts"
inductive_cases expands_TargetE: "expands_steps cs path (Target t # ss) ts"
inductive_cases expands_refE: "expands_steps cs path (Combo_ref u # ss) ts"

lemma expands_unique:
  "expands cs path c ts \<Longrightarrow> expands cs path c ts' \<Longrightarrow> ts' = ts"
  "expands_steps cs path ss ts \<Longrightarrow> expands_steps cs path ss ts' \<Longrightarrow> ts' = ts"
proof (induction arbitrary: ts' and ts' rule: expands_expands_steps.inducts)
  case (1 path c ts)
  then show ?case by (blast elim: expandsE)
next
  case (2 path)
  then show ?case by (blast elim: expands_NilE)
next
  case (3 path ss ts t)
  then show ?case by (blast elim: expands_TargetE)
next
  case (4 u path ss ts)
  have "expands_steps cs path ss ts'" by (rule expands_refE [OF 4(4)]) (simp_all add: 4(1))
  then show ?case by (rule 4(3))
next
  case (5 u c path us ss ts)
  obtain us' ts'' where "ts' = us' @ ts''" "expands cs (path @ [u_stepId u]) c us'" "expands_steps cs path ss ts''"
    by (rule expands_refE [OF 5(6)]) (simp_all add: 5(1))
  then show ?case using 5(3) 5(5) by blast
qed

lemma expands_steps_expand:
  assumes "d \<le> m"
    and "\<And>u c. Combo_ref u \<in> set ss \<Longrightarrow> find_combo (u_comboName u) cs = Some c \<Longrightarrow> u_comboName u \<notin> set vs
      \<and> expands cs (path @ [u_stepId u]) c
          (resolveNestedComboTargets c (Some cs) vs (Suc d) (path @ [u_stepId u]) m)"
  shows "expands_steps cs path ss (expand_steps ss (Some cs) vs d path m)"
  using assms
proof (induction ss)
  case (Cons s ss)
  then have ss: "expands_steps cs path ss (expand_steps ss (Some cs) vs d path m)" by simp
  show ?case
  proof (cases s)
    case (Target t)
    then show ?thesis using ss by (simp add: expands_expands_steps.intros(3))
  next
    case (Combo_ref u)
    then show ?thesis
      using ss Cons.prems expands_expands_steps.intros(4) expands_expands_steps.intros(5)
      by (cases "find_combo (u_comboName u) cs") auto
  qed
qed (simp add: expands_expands_steps.intros(2))

lemma resolve_expands:
  assumes "validateComboDAG (c_name c) cs vs d m = Inr ()" and "find_combo (c_name c) cs = Some c"
  shows "expands cs path c (resolveNestedComboTargets c (Some cs) vs d path m)"
  using assms
proof (induction "Suc m - d" arbitrary: c vs d path)
  case 0
  then show ?case using validate_step [of "c_name c" cs vs d m] by simp
next
  case (Suc k)
  let ?n = "c_name c"
  have v: "d \<le> m" "?n \<notin> set vs" "\<And>b. b \<in> set (refs cs ?n) \<Longrightarrow> validateComboDAG b cs (?n # vs) (Suc d) m = Inr ()"
    using Suc.prems(1) validate_step [of ?n cs vs d m] by auto
  have nested: "u_comboName u \<noteq> ?n \<and> u_comboName u \<notin> set vs
      \<and> expands cs (path @ [u_stepId u]) c' (resolveNestedComboTargets c' (Some cs) (?n # vs) (Suc d) (path @ [u_stepId u]) m)"
    if "Combo_ref u \<in> set (getOrderedTopLevelRuntimeSteps c (Some cs) path)" and f: "find_combo (u_comboName u) cs = Some c'"
    for u c'
  proof -
    note c' = find_combo_name [OF f]
    have val: "validateComboDAG (c_name c') cs (?n # vs) (Suc d) m = Inr ()"
      using v(3) runtime_ref_in_refs [OF Suc.prems(2) that] c' by simp
    have "expands cs (path @ [u_stepId u]) c' (resolveNestedComboTargets c' (Some cs) (?n # vs) (Suc d) (path @ [u_stepId u]) m)"
      using Suc.hyps(1) [of "Suc d" c' "?n # vs"] Suc.hyps(2) val f c' by simp
    then show ?thesis using val validate_step [of "c_name c'" cs "?n # vs" "Suc d" m] c' by auto
  qed
  have "expands_steps cs path (getOrderedTopLevelRuntimeSteps c (Some cs) path)
      (resolveNestedComboTargets c (Some cs) vs d path m)"
    using v(1,2) expands_steps_expand [of d m "getOrderedTopLevelRuntimeSteps c (Some cs) path" cs "?n # vs" path] nested
    by (subst resolveNestedComboTargets.simps) auto
  then show ?case by (rule expands_expands_steps.intros(1))
qed

text \<open>
  C99. What validation accepts is expanded completely. For a combo that passes \<open>validateComboDAG\<close> with a
  depth limit, the targets the runtime resolves under that limit are exactly its unlimited expansion: the
  guards against depth and cycles cut nothing off, and every target keeps its place and its execution key.
\<close>

theorem validated_combo_expands:
  assumes "validateComboDAG (c_name c) cs [] 0 maxDepth = Inr ()" and "find_combo (c_name c) cs = Some c"
  shows "expands cs [] c ts \<longleftrightarrow> ts = resolveNestedComboTargets c (Some cs) [] 0 [] maxDepth"
  using resolve_expands [OF assms] expands_unique(1) by blast

definition mk_combo :: "string \<Rightarrow> string list \<Rightarrow> combo" where
  "mk_combo n ms = \<lparr>c_name = n, c_models = map JStr ms, c_config = JNull\<rparr>"

definition diamond :: "combo list" where
  "diamond = [mk_combo ''main'' [''left'', ''right''], mk_combo ''left'' [''base''], mk_combo ''right'' [''base''],
     mk_combo ''base'' [''openai/gpt-4o'']]"

theorem dag_validation_exact_witness:
  "validateComboDAG ''main'' diamond [] 0 2 = Inr () \<and> \<not> chain (refs diamond) [''main'', ''left'', ''main'']"
proof -
  have v: "validateComboDAG ''main'' diamond [] 0 2 = Inr ()" by code_simp
  then show ?thesis using dag_validation_exact [of "''main''" diamond 2] by (metis distinct_length_2_or_more)
qed

theorem validated_combo_expands_witness:
  "\<exists>ts. expands diamond [] (hd diamond) ts \<and> map t_modelStr ts = [''openai/gpt-4o'', ''openai/gpt-4o'']
    \<and> distinct (map t_executionKey ts)"
proof -
  let ?ts = "resolveNestedComboTargets (hd diamond) (Some diamond) [] 0 [] 2"
  have "validateComboDAG (c_name (hd diamond)) diamond [] 0 2 = Inr ()" by code_simp
  moreover have "find_combo (c_name (hd diamond)) diamond = Some (hd diamond)" by code_simp
  moreover have "map t_modelStr ?ts = [''openai/gpt-4o'', ''openai/gpt-4o'']" by code_simp
  moreover have "distinct (map t_executionKey ?ts)" by code_simp
  ultimately show ?thesis
    using validated_combo_expands [of "hd diamond" diamond 2 ?ts] by (intro exI [of _ ?ts] conjI) simp_all
qed

text \<open>
  A combo whose configuration raises \<open>maxComboDepth\<close> to 5 passes the validation, and its targets resolve,
  but not under the weighted strategy, which expands with the default limit of 3: there the innermost
  reference is taken for a model, and the name of a combo is dispatched to a provider.
\<close>

definition tower :: "combo list" where
  "tower = map (\<lambda>(a, b). mk_combo a [b])
     [(''c0'', ''c1''), (''c1'', ''c2''), (''c2'', ''c3''), (''c3'', ''c4''), (''c4'', ''c5''), (''c5'', ''openai/gpt-4o'')]"

lemma clamp_five: "clampComboDepth (JNum 5) = 5"
  by (simp add: clampComboDepth_def MAX_COMBO_DEPTH_HARD_CAP_def)

theorem weighted_ignores_configured_depth:
  "validateComboDAG ''c0'' tower [] 0 (clampComboDepth (JNum 5)) = Inr ()
   \<and> map t_modelStr (resolveComboTargets (hd tower) (Some tower) (clampComboDepth (JNum 5)) (\<lambda>_. True))
       = [''openai/gpt-4o'']
   \<and> map t_modelStr (concat (map snd (resolveWeightedStepGroups (hd tower) (Some tower) (\<lambda>_. True)))) = [''c5'']"
proof (intro conjI)
  show "validateComboDAG ''c0'' tower [] 0 (clampComboDepth (JNum 5)) = Inr ()"
    unfolding clamp_five by code_simp
  show "map t_modelStr (resolveComboTargets (hd tower) (Some tower) (clampComboDepth (JNum 5)) (\<lambda>_. True))
      = [''openai/gpt-4o'']"
    unfolding clamp_five by code_simp
  show "map t_modelStr (concat (map snd (resolveWeightedStepGroups (hd tower) (Some tower) (\<lambda>_. True)))) = [''c5'']"
    by code_simp
qed

section \<open>Weights\<close>

lemma pick_weighted_split:
  assumes "list_all (\<lambda>s. 0 \<le> step_weight s) ss1" and "sum_list (map step_weight ss1) < r"
    and "r \<le> sum_list (map step_weight ss1) + step_weight s"
  shows "pick_weighted r (ss1 @ s # ss2) = Some s"
  using assms
proof (induction ss1 arbitrary: r)
  case (Cons a ss1)
  have "0 \<le> sum_list (map step_weight ss1)"
    using Cons.prems(1) by (intro sum_list_nonneg) (auto simp: list_all_iff)
  then show ?case using Cons.prems Cons.IH [of "r - step_weight a"] by (simp add: algebra_simps)
qed simp

text \<open>
  C99. Weights are shares. With a random number \<open>u\<close> above 0 and at most 1, a weighted combo selects the step
  whose interval of the cumulative weights holds \<open>u\<close> times their sum: the intervals are as long as the
  weights and follow one another, so a step is selected for exactly its share of the random numbers, and a
  step of weight 0 for none.
\<close>

theorem weighted_share:
  assumes "list_all (\<lambda>s. 0 \<le> step_weight s) (ss1 @ s # ss2)"
    and "W = sum_list (map step_weight (ss1 @ s # ss2))" and "0 < u" and "u \<le> 1"
    and "sum_list (map step_weight ss1) < u * W"
    and "u * W \<le> sum_list (map step_weight ss1) + step_weight s"
  shows "selectWeightedTarget u k (ss1 @ s # ss2) = Some s"
proof -
  have "0 \<le> sum_list (map step_weight ss1)"
    using assms(1) by (intro sum_list_nonneg) (auto simp: list_all_iff)
  then have "0 < W" using assms(3,5) by (metis le_less_trans zero_less_mult_pos)
  then show ?thesis
    using pick_weighted_split [of ss1 "u * W" s ss2] assms(1,2,5,6)
    by (simp add: selectWeightedTarget_def Let_def)
qed

definition weighted_step :: "string \<Rightarrow> rat \<Rightarrow> runtime_step" where
  "weighted_step i w = Combo_ref \<lparr>u_stepId = i, u_executionKey = i, u_comboName = i, u_weight = w, u_label = None,
     u_fallbackOnly = False\<rparr>"

theorem weighted_share_witness:
  "selectWeightedTarget (1 / 2) 0 [weighted_step ''a'' 10, weighted_step ''b'' 0, weighted_step ''c'' 30]
    = Some (weighted_step ''c'' 30)"
  using weighted_share [of "[weighted_step ''a'' 10, weighted_step ''b'' 0]" "weighted_step ''c'' 30" "[]" 40 "1 / 2" 0]
  by (simp add: weighted_step_def)

lemma dedupe_props:
  "t_executionKey ` set (dedupe_from seen ts) = t_executionKey ` set ts - seen
    \<and> distinct (map t_executionKey (dedupe_from seen ts)) \<and> set (dedupe_from seen ts) \<subseteq> set ts"
  by (induction seen ts rule: dedupe_from.induct) auto

lemma order_steps_set:
  assumes "distinct (map executionKey ss)" and "s \<in> set ss"
  shows "set (orderTargetsForWeightedFallback ss (executionKey s) b) = set ss"
    and "hd (orderTargetsForWeightedFallback ss (executionKey s) b) = s"
proof -
  have "find (\<lambda>t. executionKey t = executionKey s) ss = Some s"
    using assms by (induction ss) auto
  moreover have "t = s" if "t \<in> set ss" "executionKey t = executionKey s" for t
    using assms that by (metis distinct_map inj_onD)
  ultimately show "set (orderTargetsForWeightedFallback ss (executionKey s) b) = set ss"
    and "hd (orderTargetsForWeightedFallback ss (executionKey s) b) = s"
    using assms(2) by (auto simp: orderTargetsForWeightedFallback_def Let_def)
qed

lemma pick_in: "pick_weighted r ss = Some s \<Longrightarrow> s \<in> set ss"
  by (induction r ss rule: pick_weighted.induct) (auto split: if_splits)

lemma selected_in: "selectWeightedTarget u k ss = Some s \<Longrightarrow> k < length ss \<Longrightarrow> s \<in> set ss"
  by (auto simp: selectWeightedTarget_def Let_def split: if_splits option.splits dest: pick_in)

definition eligible_steps :: "combo \<Rightarrow> combo list option \<Rightarrow> string list option \<Rightarrow> runtime_step list" where
  "eligible_steps c allCombos eligible =
     filter (\<lambda>s. case eligible of None \<Rightarrow> True | Some keys \<Rightarrow> executionKey s \<in> set keys)
       (getOrderedTopLevelRuntimeSteps c allCombos [])"

lemma groups_of_key:
  assumes "distinct (map executionKey ss)" and "s \<in> set ss"
  shows "nullish (map_of (rev (map (\<lambda>(s, ts). (executionKey s, ts)) (filter (\<lambda>(s, ts). ts \<noteq> [])
      (map (\<lambda>s. (s, f s)) ss)))) (executionKey s)) [] = f s"
proof -
  let ?m = "map (\<lambda>(s, ts). (executionKey s, ts)) (filter (\<lambda>(s, ts). ts \<noteq> []) (map (\<lambda>s. (s, f s)) ss))"
  have m: "?m = map (\<lambda>s. (executionKey s, f s)) (filter (\<lambda>s. f s \<noteq> []) ss)"
    by (induction ss) auto
  have "map fst (rev ?m) = rev (map executionKey (filter (\<lambda>s. f s \<noteq> []) ss))"
    unfolding m by (simp add: rev_map)
  then have d: "distinct (map fst (rev ?m))" using assms(1) by (simp add: distinct_map_filter)
  show ?thesis
  proof (cases "f s = []")
    case True
    have "executionKey s \<notin> fst ` set (rev ?m)"
      using assms True unfolding m by (auto simp: distinct_map dest: inj_onD)
    then have "map_of (rev ?m) (executionKey s) = None" by (subst map_of_eq_None_iff)
    then show ?thesis unfolding True by (rule ssubst) simp
  next
    case False
    then have "(executionKey s, f s) \<in> set (rev ?m)" using assms(2) unfolding m by auto
    then have "map_of (rev ?m) (executionKey s) = Some (f s)" by (rule map_of_is_SomeI [OF d])
    then show ?thesis by (rule ssubst) simp
  qed
qed

lemma hd_dedupe: "ts \<noteq> [] \<Longrightarrow> hd (dedupeTargetsByExecutionKey (ts @ us)) = hd ts"
  by (cases ts) (simp_all add: dedupeTargetsByExecutionKey_def)

text \<open>
  C99. The fallback order of a weighted combo loses no target and repeats none. When its steps have different
  execution keys, the ordered targets are, by execution key, exactly those of the eligible steps, each once;
  the selected step is eligible, and its targets come first.
\<close>

theorem weighted_order_complete:
  assumes "r = resolveWeightedTargets c allCombos preferredKey eligible (resolveWeightedStepGroups c allCombos visible) u k"
    and "distinct (map executionKey (getOrderedTopLevelRuntimeSteps c allCombos []))"
    and "k < length (eligible_steps c allCombos eligible)"
  shows "\<exists>s\<in>set (eligible_steps c allCombos eligible).
      w_selectedStep r = Some s
      \<and> distinct (map t_executionKey (w_orderedTargets r))
      \<and> t_executionKey ` set (w_orderedTargets r)
          = (\<Union>s'\<in>set (eligible_steps c allCombos eligible). t_executionKey ` set (step_targets c allCombos visible s'))
      \<and> (step_targets c allCombos visible s \<noteq> [] \<longrightarrow>
           hd (w_orderedTargets r) = hd (step_targets c allCombos visible s))"
proof -
  let ?ss = "getOrderedTopLevelRuntimeSteps c allCombos []" and ?es = "eligible_steps c allCombos eligible"
    and ?f = "step_targets c allCombos visible"
  let ?g = "map_of (rev (map (\<lambda>(s, ts). (executionKey s, ts)) (resolveWeightedStepGroups c allCombos visible)))"
  have sub: "set ?es \<subseteq> set ?ss" and d: "distinct (map executionKey ?es)"
    using assms(2) by (auto simp: eligible_steps_def distinct_map_filter)
  have ne: "?es \<noteq> []" using assms(3) by auto
  define pref where "pref = (case preferredKey of None \<Rightarrow> None | Some key \<Rightarrow> find (\<lambda>s. executionKey s = key) ?es)"
  obtain s where s: "(case pref of Some s \<Rightarrow> Some s | None \<Rightarrow> selectWeightedTarget u k ?es) = Some s"
  proof (cases pref)
    case None
    then show ?thesis using that ne by (fastforce simp: selectWeightedTarget_def Let_def split: option.split)
  qed (use that in auto)
  have s_in: "s \<in> set ?es"
  proof (cases pref)
    case None
    then show ?thesis using s selected_in assms(3) by auto
  next
    case (Some p)
    then show ?thesis using s by (auto simp: pref_def find_Some_iff split: option.splits)
  qed
  let ?o = "orderTargetsForWeightedFallback ?es (executionKey s) (getCompositeTierStepOrder c \<noteq> [])"
  note o = order_steps_set [OF d s_in, of "getCompositeTierStepOrder c \<noteq> []"]
  have g: "nullish (?g (executionKey s')) [] = ?f s'" if "s' \<in> set ?es" for s'
    using groups_of_key [OF assms(2), of s' ?f] that sub by (auto simp: resolveWeightedStepGroups_def)
  have r: "w_selectedStep r = Some s"
      "w_orderedTargets r = dedupeTargetsByExecutionKey (concat (map (\<lambda>s. nullish (?g (executionKey s)) []) ?o))"
    using s ne unfolding assms(1) resolveWeightedTargets_def Let_def pref_def eligible_steps_def by simp_all
  have m: "map (\<lambda>s. nullish (?g (executionKey s)) []) ?o = map ?f ?o" using g o(1) by simp
  have t: "w_orderedTargets r = dedupeTargetsByExecutionKey (concat (map ?f ?o))" unfolding r(2) m ..
  obtain o' where o': "?o = s # o'" using o s_in by (metis empty_iff empty_set list.collapse)
  have "hd (w_orderedTargets r) = hd (?f s)" if "?f s \<noteq> []"
    unfolding t o' using that by (simp add: hd_dedupe)
  moreover have "t_executionKey ` set (w_orderedTargets r) = (\<Union>s'\<in>set ?es. t_executionKey ` set (?f s'))"
    using dedupe_props [of "{}" "concat (map ?f ?o)"] o(1) by (auto simp: t dedupeTargetsByExecutionKey_def)
  moreover have "distinct (map t_executionKey (w_orderedTargets r))"
    using dedupe_props [of "{}" "concat (map ?f ?o)"] by (simp add: t dedupeTargetsByExecutionKey_def)
  ultimately show ?thesis using r(1) s_in by blast
qed

definition two_weights :: combo where
  "two_weights = \<lparr>c_name = ''w'', c_models =
     [JObj [(''model'', JStr ''a/x''), (''weight'', JNum 10)], JObj [(''model'', JStr ''b/y''), (''weight'', JNum 30)]],
     c_config = JNull\<rparr>"

theorem weighted_order_complete_witness:
  "\<exists>s. w_selectedStep (resolveWeightedTargets two_weights None None None
       (resolveWeightedStepGroups two_weights None (\<lambda>_. True)) (1 / 2) 0) = Some s
     \<and> distinct (map t_executionKey (w_orderedTargets (resolveWeightedTargets two_weights None None None
       (resolveWeightedStepGroups two_weights None (\<lambda>_. True)) (1 / 2) 0)))"
proof -
  have "distinct (map executionKey (getOrderedTopLevelRuntimeSteps two_weights None []))" by code_simp
  moreover have "0 < length (eligible_steps two_weights None None)" by code_simp
  ultimately show ?thesis
    using weighted_order_complete [OF refl, of two_weights None 0 None None "\<lambda>_. True" "1 / 2"] by blast
qed

end
