(* ===== verification/ComboCompat.thy ===== *)
theory ComboCompat
  imports JsValue
begin

text \<open>
  Which targets of a combo may serve a request: the compatibility filter of
  \<open>src/open-sse/services/combo/comboStructure.ts\<close> with the context check of \<open>contextOverrideGate.ts\<close>.

  What the model catalogue and the database say of a target is a record \<open>caps\<close>, given by a function
  \<open>facts\<close> on targets: its resolved capabilities, whether its provider emulates tool calls, and the context
  override that applies to it (inherited or not). The token estimate of a request and whether it carries
  an image are arguments. Two targets are the same object exactly when they are equal here. Logging is
  left out.

  The lemmas: what the filter keeps, what it never lets through, and a case in which it does not fail
  closed.
\<close>

section \<open>Requests and capabilities\<close>

record requirements =
  requiresTools :: bool
  requiresVision :: bool
  requiresStructuredOutput :: bool
  estimatedInputTokens :: int
  requestedOutputTokens :: int
  requiredContextTokens :: int

record caps =
  supportsTools :: "bool option"
  toolCalling :: bool
  emulatedTools :: bool
  supportsVision :: "bool option"
  structuredOutput :: "bool option"
  maxOutputTokens :: "int option"
  maxInputTokens :: "int option"
  contextWindow :: "int option"
  contextOverride :: "int option"

definition getPositiveTokenCount :: "json \<Rightarrow> int" where
  "getPositiveTokenCount v = (case js_number v of Num q \<Rightarrow> if 0 < q then \<lceil>q\<rceil> else 0 | _ \<Rightarrow> 0)"

definition nonempty_array :: "json \<Rightarrow> bool" where
  "nonempty_array v \<longleftrightarrow> (case v of JArr (x # xs) \<Rightarrow> True | _ \<Rightarrow> False)"

definition requestRequiresTools :: "json \<Rightarrow> bool" where
  "requestRequiresTools body \<longleftrightarrow>
     nonempty_array (get_prop ''tools'' body) \<or> nonempty_array (get_prop ''functions'' body)"

definition requestRequiresStructuredOutput :: "json \<Rightarrow> bool" where
  "requestRequiresStructuredOutput body \<longleftrightarrow>
     get_prop ''type'' (get_prop ''response_format'' body) \<in> {JStr ''json_object'', JStr ''json_schema''}"

definition deriveRequestCompatibilityRequirements :: "int \<Rightarrow> bool \<Rightarrow> json \<Rightarrow> requirements" where
  "deriveRequestCompatibilityRequirements estimate hasImage body =
     (let out = max (getPositiveTokenCount (get_prop ''max_tokens'' body))
                    (getPositiveTokenCount (get_prop ''max_completion_tokens'' body))
      in \<lparr>requiresTools = requestRequiresTools body, requiresVision = hasImage,
          requiresStructuredOutput = requestRequiresStructuredOutput body,
          estimatedInputTokens = estimate, requestedOutputTokens = out,
          requiredContextTokens = estimate + out\<rparr>)"

text \<open>\<open>Some True\<close> when a known limit fits, \<open>Some False\<close> when it is too small, \<open>None\<close> when none is known.\<close>

definition evaluateContextLimit :: "caps \<Rightarrow> requirements \<Rightarrow> bool option" where
  "evaluateContextLimit c rq =
     (case contextOverride c of
        Some w \<Rightarrow> Some (w \<ge> requiredContextTokens rq)
      | None \<Rightarrow>
          if maxInputTokens c = None \<and> contextWindow c = None then None
          else Some ((case maxInputTokens c of None \<Rightarrow> True | Some m \<Rightarrow> m \<ge> estimatedInputTokens rq)
                   \<and> (case contextWindow c of None \<Rightarrow> True | Some w \<Rightarrow> w \<ge> requiredContextTokens rq)))"

definition exceedsKnownOutputLimit :: "int \<Rightarrow> int option \<Rightarrow> bool" where
  "exceedsKnownOutputLimit requested limit =
     (if requested \<le> 0 then False else case limit of None \<Rightarrow> False | Some m \<Rightarrow> m < requested)"

definition hasKnownCompatibleContextLimit :: "caps \<Rightarrow> requirements \<Rightarrow> bool" where
  "hasKnownCompatibleContextLimit c rq \<longleftrightarrow>
     requiredContextTokens rq > 0 \<and> evaluateContextLimit c rq = Some True"

datatype failure = F_tools | F_vision | F_structured_output | F_output_tokens | F_context_window

definition hard :: "failure \<Rightarrow> bool" where
  "hard f \<longleftrightarrow> f \<in> {F_tools, F_vision, F_structured_output, F_output_tokens}"

definition isVisionIncompatibleTarget :: "caps \<Rightarrow> requirements \<Rightarrow> bool" where
  "isVisionIncompatibleTarget c rq \<longleftrightarrow> requiresVision rq \<and> supportsVision c \<noteq> Some True"

definition getTargetCompatibilityFailures :: "caps \<Rightarrow> requirements \<Rightarrow> failure list" where
  "getTargetCompatibilityFailures c rq =
     (if requiresTools rq \<and> (supportsTools c = Some False \<or> \<not> toolCalling c) \<and> \<not> emulatedTools c
      then [F_tools] else [])
     @ (if requiresVision rq \<and> supportsVision c \<noteq> Some True then [F_vision] else [])
     @ (if requiresStructuredOutput rq \<and> structuredOutput c = Some False then [F_structured_output] else [])
     @ (if exceedsKnownOutputLimit (requestedOutputTokens rq) (maxOutputTokens c) then [F_output_tokens] else [])
     @ (if requiredContextTokens rq > 0 \<and> evaluateContextLimit c rq = Some False then [F_context_window] else [])"

definition hasHardCapabilityFailure :: "failure list \<Rightarrow> bool" where
  "hasHardCapabilityFailure = list_ex hard"

definition computeCompatRejectedTargets :: "('t \<Rightarrow> caps) \<Rightarrow> requirements \<Rightarrow> 't list \<Rightarrow> 't list \<Rightarrow> 't list" where
  "computeCompatRejectedTargets facts rq ranked kept =
     filter (\<lambda>t. t \<notin> set kept \<and> \<not> isVisionIncompatibleTarget (facts t) rq) ranked"

section \<open>The filter\<close>

definition compatible_targets :: "('t \<Rightarrow> caps) \<Rightarrow> requirements \<Rightarrow> 't list \<Rightarrow> 't list" where
  "compatible_targets facts rq ts =
     filter (\<lambda>t. \<not> hasHardCapabilityFailure (getTargetCompatibilityFailures (facts t) rq)) ts"

text \<open>Known-fitting targets first, when some compatible target is known to be too small.\<close>

definition prefer_known_fits :: "('t \<Rightarrow> caps) \<Rightarrow> requirements \<Rightarrow> 't list \<Rightarrow> 't list \<Rightarrow> 't list option" where
  "prefer_known_fits facts rq ts compatible =
     (let known = filter (\<lambda>t. hasKnownCompatibleContextLimit (facts t) rq) compatible
      in if requiredContextTokens rq > 0
           \<and> list_ex (\<lambda>t. F_context_window \<in> set (getTargetCompatibilityFailures (facts t) rq)) ts
           \<and> length compatible > 1 \<and> known \<noteq> [] \<and> length known < length compatible
         then Some (known @ filter (\<lambda>t. t \<notin> set known) compatible)
         else None)"

definition filterTargetsByRequestCompatibility ::
    "('t \<Rightarrow> caps) \<Rightarrow> requirements \<Rightarrow> bool \<Rightarrow> 't list \<Rightarrow> 't list" where
  "filterTargetsByRequestCompatibility facts rq failOpen ts =
     (if ts = [] then ts
      else if \<not> (requiresTools rq \<or> requiresVision rq \<or> requiresStructuredOutput rq \<or> requiredContextTokens rq > 0)
      then ts
      else let compatible = compatible_targets facts rq ts;
               visionSafe = filter (\<lambda>t. \<not> isVisionIncompatibleTarget (facts t) rq) ts;
               hardRejected = list_ex (\<lambda>t. hasHardCapabilityFailure (getTargetCompatibilityFailures (facts t) rq)) ts
           in case prefer_known_fits facts rq ts compatible of
                Some r \<Rightarrow> r
              | None \<Rightarrow>
                  if length compatible = length ts then ts
                  else if compatible = [] then
                    (if requiresVision rq then visionSafe
                     else if \<not> hardRejected \<or> failOpen then ts
                     else [])
                  else if length compatible = 1
                      \<and> F_context_window \<in> set (getTargetCompatibilityFailures (facts (hd compatible)) rq)
                      \<and> length (if requiresVision rq then visionSafe else ts) > length compatible
                  then (if requiresVision rq then visionSafe else ts)
                  else compatible)"

section \<open>What the filter promises\<close>

definition serves :: "caps \<Rightarrow> requirements \<Rightarrow> bool" where
  "serves c rq \<longleftrightarrow> \<not> hasHardCapabilityFailure (getTargetCompatibilityFailures c rq)"

lemma serves_iff:
  "serves c rq \<longleftrightarrow>
     (requiresTools rq \<longrightarrow> (supportsTools c \<noteq> Some False \<and> toolCalling c) \<or> emulatedTools c)
   \<and> (requiresVision rq \<longrightarrow> supportsVision c = Some True)
   \<and> (requiresStructuredOutput rq \<longrightarrow> structuredOutput c \<noteq> Some False)
   \<and> \<not> exceedsKnownOutputLimit (requestedOutputTokens rq) (maxOutputTokens c)"
  by (auto simp: serves_def hasHardCapabilityFailure_def getTargetCompatibilityFailures_def hard_def)

lemma serves_vision: "serves c rq \<Longrightarrow> requiresVision rq \<Longrightarrow> supportsVision c = Some True"
  by (simp add: serves_iff)

lemma compatible_serve: "set (compatible_targets facts rq ts) = {t \<in> set ts. serves (facts t) rq}"
  by (auto simp: compatible_targets_def serves_def)

lemma prefer_set:
  "prefer_known_fits facts rq ts compatible = Some r \<Longrightarrow> set r = set compatible \<and> length r = length compatible"
proof -
  let ?P = "\<lambda>t. hasKnownCompatibleContextLimit (facts t) rq"
  assume "prefer_known_fits facts rq ts compatible = Some r"
  then have r: "r = filter ?P compatible @ filter (\<lambda>t. t \<notin> set (filter ?P compatible)) compatible"
    by (auto simp: prefer_known_fits_def Let_def split: if_splits)
  have "filter (\<lambda>t. t \<notin> set (filter ?P compatible)) compatible = filter (\<lambda>t. \<not> ?P t) compatible"
    by (rule filter_cong) auto
  then show ?thesis
    using r sum_length_filter_compl [of ?P compatible] by auto
qed

definition filtered_request :: "requirements \<Rightarrow> bool" where
  "filtered_request rq \<longleftrightarrow>
     requiresTools rq \<or> requiresVision rq \<or> requiresStructuredOutput rq \<or> requiredContextTokens rq > 0"

lemma filter_unfold:
  assumes "filtered_request rq" and "ts \<noteq> []"
  shows "filterTargetsByRequestCompatibility facts rq failOpen ts =
    (case prefer_known_fits facts rq ts (compatible_targets facts rq ts) of
       Some r \<Rightarrow> r
     | None \<Rightarrow>
         if length (compatible_targets facts rq ts) = length ts then ts
         else if compatible_targets facts rq ts = [] then
           (if requiresVision rq then filter (\<lambda>t. \<not> isVisionIncompatibleTarget (facts t) rq) ts
            else if \<not> list_ex (\<lambda>t. hasHardCapabilityFailure (getTargetCompatibilityFailures (facts t) rq)) ts \<or> failOpen
            then ts else [])
         else if length (compatible_targets facts rq ts) = 1
             \<and> F_context_window \<in> set (getTargetCompatibilityFailures (facts (hd (compatible_targets facts rq ts))) rq)
             \<and> length (if requiresVision rq then filter (\<lambda>t. \<not> isVisionIncompatibleTarget (facts t) rq) ts else ts)
                > length (compatible_targets facts rq ts)
         then (if requiresVision rq then filter (\<lambda>t. \<not> isVisionIncompatibleTarget (facts t) rq) ts else ts)
         else compatible_targets facts rq ts)"
  using assms by (simp add: filterTargetsByRequestCompatibility_def filtered_request_def Let_def)

lemma compatible_whole: "length (compatible_targets facts rq ts) = length ts \<Longrightarrow> compatible_targets facts rq ts = ts"
  unfolding compatible_targets_def by (metis length_filter_less filter_id_conv less_irrefl)

lemma one_small:
  assumes "length (compatible_targets facts rq ts) = 1"
    and "F_context_window \<in> set (getTargetCompatibilityFailures (facts (hd (compatible_targets facts rq ts))) rq)"
  shows "\<exists>t. {t \<in> set ts. serves (facts t) rq} = {t} \<and> evaluateContextLimit (facts t) rq = Some False"
proof -
  obtain t where t: "compatible_targets facts rq ts = [t]" using assms(1) by (cases "compatible_targets facts rq ts") auto
  then have "evaluateContextLimit (facts t) rq = Some False"
    using assms(2) by (auto simp: getTargetCompatibilityFailures_def split: if_splits)
  moreover have "{t \<in> set ts. serves (facts t) rq} = {t}" unfolding compatible_serve [symmetric] t by simp
  ultimately show ?thesis by blast
qed

abbreviation vision_targets :: "('t \<Rightarrow> caps) \<Rightarrow> requirements \<Rightarrow> 't list \<Rightarrow> 't list" where
  "vision_targets facts rq ts \<equiv> filter (\<lambda>t. \<not> isVisionIncompatibleTarget (facts t) rq) ts"

lemma vision_targets_serve:
  "{t \<in> set ts. serves (facts t) rq} \<subseteq> set (vision_targets facts rq ts)"
  "t \<in> set (vision_targets facts rq ts) \<Longrightarrow> requiresVision rq \<Longrightarrow> supportsVision (facts t) = Some True"
  by (auto simp: isVisionIncompatibleTarget_def dest: serves_vision)

lemma filter_outcomes:
  fixes facts :: "'t \<Rightarrow> caps" and rq :: requirements and ts :: "'t list" and failOpen :: bool
  assumes "filtered_request rq"
    and c_def: "c = compatible_targets facts rq ts" and v_def: "v = vision_targets facts rq ts"
    and r_def: "r = filterTargetsByRequestCompatibility facts rq failOpen ts"
  obtains (empty) "ts = []" | (same) "ts \<noteq> []" "set r = set c"
    | (all) "c = ts" "r = ts" | (none) "c = []" "r \<in> {v, ts, []}" "requiresVision rq \<longrightarrow> r = v"
    | (one) "length c = 1" "F_context_window \<in> set (getTargetCompatibilityFailures (facts (hd c)) rq)"
        "r = (if requiresVision rq then v else ts)"
proof (cases "ts = []")
  case False
  note u = filter_unfold [OF assms(1) False, of facts failOpen, folded c_def v_def r_def]
  show ?thesis
  proof (cases "prefer_known_fits facts rq ts c")
    case (Some q)
    then show ?thesis using that(2) False u prefer_set [OF Some] by simp
  next
    case None
    note u = u [unfolded None option.case]
    let ?small = "length c = 1 \<and> F_context_window \<in> set (getTargetCompatibilityFailures (facts (hd c)) rq)
        \<and> length (if requiresVision rq then v else ts) > length c"
    consider "length c = length ts" | "length c \<noteq> length ts" "c = []"
      | "length c \<noteq> length ts" "c \<noteq> []" ?small | "length c \<noteq> length ts" "c \<noteq> []" "\<not> ?small"
      by blast
    then show ?thesis
    proof cases
      case 1
      have "r = ts" using u unfolding if_P [OF 1] .
      then show ?thesis using that(3) compatible_whole [of facts rq ts] 1 unfolding c_def by blast
    next
      case 2
      have "r = (if requiresVision rq then v else if \<not> list_ex (\<lambda>t. hasHardCapabilityFailure
          (getTargetCompatibilityFailures (facts t) rq)) ts \<or> failOpen then ts else [])"
        using u unfolding if_not_P [OF 2(1)] if_P [OF 2(2)] .
      then show ?thesis using 2 by (intro that(4)) auto
    next
      case 3
      have "r = (if requiresVision rq then v else ts)"
        using u unfolding if_not_P [OF 3(1)] if_not_P [OF 3(2)] if_P [OF 3(3)] .
      then show ?thesis using 3 that(5) by blast
    next
      case 4
      have "r = c" using u unfolding if_not_P [OF 4(1)] if_not_P [OF 4(2)] if_not_P [OF 4(3)] .
      then show ?thesis using that(2) False by simp
    qed
  qed
qed (use that(1) in simp)

text \<open>
  C99. What the compatibility filter keeps. For a request that requires anything, a target that serves it is
  never dropped; a target that does not serve it is only kept when no target serves it, or when the single
  one that does is known to be too small for its context. And no image is sent on a guess: every kept target
  of a request with an image has confirmed vision.
\<close>

theorem compat_filter_spec:
  assumes "filtered_request rq"
    and kept_def: "kept = set (filterTargetsByRequestCompatibility facts rq failOpen ts)"
  shows "{t \<in> set ts. serves (facts t) rq} \<subseteq> kept \<and> kept \<subseteq> set ts
    \<and> (kept \<subseteq> {t \<in> set ts. serves (facts t) rq}
        \<or> {t \<in> set ts. serves (facts t) rq} = {}
        \<or> (\<exists>t. {t \<in> set ts. serves (facts t) rq} = {t} \<and> evaluateContextLimit (facts t) rq = Some False))
    \<and> (requiresVision rq \<longrightarrow> (\<forall>t\<in>kept. supportsVision (facts t) = Some True))"
proof -
  note c = compatible_serve [of facts rq ts]
    and v = vision_targets_serve(1) [of ts facts rq] vision_targets_serve(2) [of _ facts rq ts] and sv = serves_vision [of _ rq]
  show ?thesis
  proof (cases rule: filter_outcomes [OF assms(1) refl refl refl [of "filterTargetsByRequestCompatibility facts rq failOpen ts"], case_names empty same all none one])
    case empty
    then show ?thesis by (simp add: kept_def filterTargetsByRequestCompatibility_def)
  next
    case same
    then show ?thesis using c sv unfolding kept_def by auto
  next
    case all
    then show ?thesis using c sv unfolding kept_def by auto
  next
    case none
    then have "{t \<in> set ts. serves (facts t) rq} = {}" using c by simp
    then show ?thesis using none v unfolding kept_def by auto
  next
    case one
    then show ?thesis using one_small [OF one(1,2)] v unfolding kept_def by (auto split: if_splits)
  qed
qed

definition able :: caps where
  "able = \<lparr>supportsTools = Some True, toolCalling = True, emulatedTools = False, supportsVision = Some True,
     structuredOutput = Some True, maxOutputTokens = None, maxInputTokens = None, contextWindow = None,
     contextOverride = None\<rparr>"

definition demo_facts :: "string \<Rightarrow> caps" where
  "demo_facts t = (if t = ''blind'' then able\<lparr>supportsVision := None\<rparr>
     else if t = ''mute'' then able\<lparr>supportsTools := Some False\<rparr> else able)"

definition demo_request :: requirements where
  "demo_request = \<lparr>requiresTools = True, requiresVision = True, requiresStructuredOutput = False,
     estimatedInputTokens = 100, requestedOutputTokens = 0, requiredContextTokens = 100\<rparr>"

theorem compat_filter_spec_witness:
  "''good'' \<in> set (filterTargetsByRequestCompatibility demo_facts demo_request False [''blind'', ''mute'', ''good''])
   \<and> ''blind'' \<notin> set (filterTargetsByRequestCompatibility demo_facts demo_request False [''blind'', ''mute'', ''good''])"
  using compat_filter_spec [of demo_request _ demo_facts False "[''blind'', ''mute'', ''good'']", OF _ refl]
  by (auto simp: filtered_request_def demo_request_def serves_iff demo_facts_def able_def exceedsKnownOutputLimit_def)

text \<open>
  With an image in the request the filter does not fail closed on tools: when no target serves the request,
  the targets with vision are returned whether or not failing open was configured, those without tools
  included.
\<close>

theorem tools_fail_open_with_image:
  "\<not> serves (demo_facts ''mute'') demo_request
   \<and> filterTargetsByRequestCompatibility demo_facts demo_request False [''blind'', ''mute''] = [''mute'']"
  by code_simp

end
