(* ===== verification/ComboDispatch.thy ===== *)
theory ComboDispatch
  imports Prelude
begin

text \<open>
  What a combo does when all its targets have failed: \<open>dispatchWithCooldownRetry\<close> of
  \<open>src/open-sse/services/combo/comboAttemptLoop.ts\<close> around the passes over the targets (one pass is
  \<^verbatim>\<open>ComboLoop\<close>), the waiting policy of \<open>comboCooldownRetry.ts\<close>, the terminal status of
  \<open>comboErrorAggregation.ts\<close> and the retry-after gate of \<open>unavailableRetryGate.ts\<close>.

  \<^item> A pass is a record \<open>pass\<close> of what it leaves in the loop's state, and what is true when it ends: the
    locks of the targets, and whether the client is still there. \<open>env k\<close> is the \<open>k\<close>-th pass of a request.
  \<^item> Millisecond values of unknown type are \<open>None\<close> when they are not finite numbers; reasons are \<open>None\<close>
    when they are not strings.
  \<^item> A response is its status with what distinguishes it; \<open>Answer\<close> is a response of a target. Messages,
    diagnostics, traces, metrics and webhooks are left out.

  The lemmas: what a wait is bounded by, how many passes and waits a request can take, and which
  failures reach the client as its own fault.
\<close>

section \<open>Waiting out a cooldown\<close>

record wait_settings =
  ws_enabled :: bool
  maxWaitMs :: int
  maxAttempts :: int
  budgetMs :: int

record lock_info =
  lk_reason :: "string option"
  remainingMs :: "int option"

record wait_decision =
  d_wait :: bool
  d_waitMs :: int
  d_reason :: "string option"

definition COMBO_COOLDOWN_NON_RETRYABLE_REASONS :: "string set" where
  "COMBO_COOLDOWN_NON_RETRYABLE_REASONS = {''quota_exhausted'', ''auth_error'', ''not_found'', ''not_found_local''}"

definition COMBO_COOLDOWN_RETRYABLE_REASONS :: "string set" where
  "COMBO_COOLDOWN_RETRYABLE_REASONS =
     {''rate_limit'', ''rate_limited'', ''transient'', ''overloaded'', ''server_error'', ''circuit_open''}"

definition COMBO_COOLDOWN_WAIT_MARGIN_MS :: int where
  "COMBO_COOLDOWN_WAIT_MARGIN_MS = 50"

definition toFiniteWaitMs :: "int option \<Rightarrow> int" where
  "toFiniteWaitMs v = (case v of Some n \<Rightarrow> if 0 < n then n else 0 | None \<Rightarrow> 0)"

definition isRetryableComboCooldownReason :: "string option \<Rightarrow> bool" where
  "isRetryableComboCooldownReason reason = (case reason of None \<Rightarrow> False
     | Some r \<Rightarrow> r \<noteq> [] \<and> r \<notin> COMBO_COOLDOWN_NON_RETRYABLE_REASONS \<and> r \<in> COMBO_COOLDOWN_RETRYABLE_REASONS)"

definition shouldWaitForComboCooldown :: "string option \<Rightarrow> int option \<Rightarrow> int \<Rightarrow> int \<Rightarrow> wait_settings \<Rightarrow> bool \<times> int" where
  "shouldWaitForComboCooldown reason waitMs attempt budgetLeft st =
     (let w = toFiniteWaitMs waitMs
      in (ws_enabled st \<and> isRetryableComboCooldownReason reason \<and> 0 < w \<and> w \<le> maxWaitMs st
          \<and> attempt < maxAttempts st \<and> w \<le> budgetLeft, w))"

text \<open>The locked target with the smallest positive remaining time, the first of them.\<close>

definition better_lock :: "(string option \<times> int) option \<Rightarrow> lock_info option \<Rightarrow> (string option \<times> int) option" where
  "better_lock best info =
     (case info of None \<Rightarrow> best
      | Some l \<Rightarrow>
          let r = nullish (remainingMs l) 0
          in if r \<le> 0 then best
             else (case best of None \<Rightarrow> Some (lk_reason l, r)
                   | Some (_, b) \<Rightarrow> if r < b then Some (lk_reason l, r) else best))"

definition no_wait :: wait_decision where
  "no_wait = \<lparr>d_wait = False, d_waitMs = 0, d_reason = None\<rparr>"

text \<open>
  A target is its provider, if it has one, with its connection and model; \<open>lookup\<close> is the lock lookup the
  caller passes in, and \<open>hint\<close> the wait it derives from the retry-after value.
\<close>

definition resolveComboCooldownWaitDecision ::
    "(string option \<times> 't) list \<Rightarrow> int option \<Rightarrow> int \<Rightarrow> int \<Rightarrow> wait_settings
      \<Rightarrow> (string \<Rightarrow> 't \<Rightarrow> lock_info option) \<Rightarrow> wait_decision" where
  "resolveComboCooldownWaitDecision targets hint attempt budgetLeft st lookup =
     (if \<not> ws_enabled st then no_wait
      else case foldl better_lock None (map (\<lambda>(p, t). case p of None \<Rightarrow> None
               | Some name \<Rightarrow> if name = [] then None else lookup name t) targets) of
             None \<Rightarrow> no_wait
           | Some (reason, remaining) \<Rightarrow>
               let w = max remaining (toFiniteWaitMs hint) + COMBO_COOLDOWN_WAIT_MARGIN_MS;
                   (yes, ms) = shouldWaitForComboCooldown reason (Some w) attempt budgetLeft st
               in \<lparr>d_wait = yes, d_waitMs = ms, d_reason = reason\<rparr>)"

definition resolveCircuitOpenWaitDecision ::
    "bool \<Rightarrow> int option \<Rightarrow> int \<Rightarrow> int \<Rightarrow> wait_settings \<Rightarrow> wait_decision" where
  "resolveCircuitOpenWaitDecision skipped retryAfterMs attempt budgetLeft st =
     (if \<not> ws_enabled st \<or> \<not> skipped then no_wait
      else let r = toFiniteWaitMs retryAfterMs
           in if r \<le> 0 then no_wait
              else let (yes, ms) = shouldWaitForComboCooldown (Some ''circuit_open'')
                          (Some (r + COMBO_COOLDOWN_WAIT_MARGIN_MS)) attempt budgetLeft st
                   in \<lparr>d_wait = yes, d_waitMs = ms, d_reason = Some ''circuit_open''\<rparr>)"

section \<open>The terminal status\<close>

datatype outcome_kind = Quality | Auth | Rate_limit | Model | Provider | Timeout | Skipped | Upstream

record combo_error =
  e_status :: int
  e_kind :: outcome_kind

text \<open>\<open>auth_text\<close> says whether the error text matches the pattern of authentication failures.\<close>

definition classifyComboOutcome :: "int \<Rightarrow> bool \<Rightarrow> outcome_kind" where
  "classifyComboOutcome status auth_text =
     (if status = 401 \<or> status = 403 \<or> auth_text then Auth
      else if status = 429 then Rate_limit
      else if status = 408 \<or> status = 499 then Timeout
      else if status \<ge> 500 then Provider
      else Model)"

definition resolveComboTerminalStatus :: "combo_error list \<Rightarrow> int \<Rightarrow> int" where
  "resolveComboTerminalStatus entries fallback =
     (if entries = [] then fallback
      else if list_all (\<lambda>e. e_kind e = Model \<and> e_status e \<ge> 400 \<and> e_status e < 500) entries
      then e_status (last entries)
      else if length (remdups (map e_kind entries)) = 1 then e_status (last entries)
      else if list_ex (\<lambda>e. e_kind e = Timeout) entries then 504 else 502)"

definition isRetryAfterEligibleStatus :: "int \<Rightarrow> bool" where
  "isRetryAfterEligibleStatus status \<longleftrightarrow> status = 429 \<or> status = 503"

section \<open>Passes and retries\<close>

datatype response = Answer nat | Client_gone | Safety_timeout | Combo_timeout | All_skipped | All_inactive
  | Unavailable_until int | Failed int

datatype pass_end = Answered nat | Safety | Expired | Exhausted

record 't pass =
  p_gone :: bool
  p_end :: pass_end
  p_lastStatus :: "int option"
  p_recorded :: nat
  p_errors :: "combo_error list"
  p_retryAfter :: bool
  p_hint :: "int option"
  p_circuitSkip :: bool
  p_circuitMs :: "int option"
  p_targets :: "(string option \<times> 't) list"
  p_lookup :: "string \<Rightarrow> 't \<Rightarrow> lock_info option"
  p_staysConnected :: bool

record retry_state =
  setTry :: nat
  attempt :: int
  budgetLeft :: int
  lastStatus :: "int option"
  earliestRetryAfter :: bool

record dispatch_config =
  maxSetRetries :: nat
  waitEnabled :: bool
  dc_settings :: wait_settings

definition fresh_retry :: "int \<Rightarrow> int \<Rightarrow> retry_state" where
  "fresh_retry a b = \<lparr>setTry = 0, attempt = a, budgetLeft = b, lastStatus = None, earliestRetryAfter = False\<rparr>"

text \<open>What a pass that found no answer leads to: a response, another pass of this dispatch, or a wait.\<close>

datatype verdict = Respond response | Next_set | Wait_for int

definition note_pass :: "'t pass \<Rightarrow> retry_state \<Rightarrow> retry_state" where
  "note_pass p s = s\<lparr>lastStatus := (case p_lastStatus p of None \<Rightarrow> lastStatus s | Some x \<Rightarrow> Some x),
     earliestRetryAfter := (earliestRetryAfter s \<or> p_retryAfter p)\<rparr>"

definition after_failed_wait_check :: "dispatch_config \<Rightarrow> 't pass \<Rightarrow> retry_state \<Rightarrow> verdict" where
  "after_failed_wait_check dc p s =
     (if js_falsy (lastStatus s) then Respond (if p_recorded p = 0 then All_skipped else All_inactive)
      else let status = resolveComboTerminalStatus (p_errors p) (the (lastStatus s));
               d = resolveComboCooldownWaitDecision (p_targets p) (p_hint p) (attempt s) (budgetLeft s)
                     (dc_settings dc) (p_lookup p)
           in if waitEnabled dc \<and> earliestRetryAfter s \<and> d_wait d then Wait_for (d_waitMs d)
              else if earliestRetryAfter s \<and> isRetryAfterEligibleStatus status
              then Respond (Unavailable_until status)
              else Respond (Failed status))"

definition after_exhausted :: "dispatch_config \<Rightarrow> 't pass \<Rightarrow> retry_state \<Rightarrow> verdict" where
  "after_exhausted dc p s =
     (if setTry s < maxSetRetries dc then Next_set
      else let d = resolveCircuitOpenWaitDecision (p_circuitSkip p) (p_circuitMs p) (attempt s) (budgetLeft s)
                     (dc_settings dc)
           in if js_falsy (lastStatus s) \<and> p_recorded p = 0 \<and> waitEnabled dc \<and> d_wait d
              then Wait_for (d_waitMs d)
              else after_failed_wait_check dc p s)"

definition pass_verdict :: "dispatch_config \<Rightarrow> 't pass \<Rightarrow> retry_state \<Rightarrow> verdict" where
  "pass_verdict dc p s =
     (if setTry s > 0 \<and> p_gone p then Respond Client_gone
      else case p_end p of
             Safety \<Rightarrow> Respond Safety_timeout
           | Answered r \<Rightarrow> Respond (Answer r)
           | Expired \<Rightarrow> Respond Combo_timeout
           | Exhausted \<Rightarrow> after_exhausted dc p (note_pass p s))"

lemma wait_bounds:
  "d_wait (resolveComboCooldownWaitDecision ts hint a b st lookup) \<Longrightarrow>
    0 < d_waitMs (resolveComboCooldownWaitDecision ts hint a b st lookup)
    \<and> d_waitMs (resolveComboCooldownWaitDecision ts hint a b st lookup) \<le> min (maxWaitMs st) b
    \<and> a < maxAttempts st"
  "d_wait (resolveCircuitOpenWaitDecision sk r a b st) \<Longrightarrow>
    0 < d_waitMs (resolveCircuitOpenWaitDecision sk r a b st)
    \<and> d_waitMs (resolveCircuitOpenWaitDecision sk r a b st) \<le> min (maxWaitMs st) b
    \<and> a < maxAttempts st"
  by (auto simp: resolveComboCooldownWaitDecision_def resolveCircuitOpenWaitDecision_def no_wait_def
      shouldWaitForComboCooldown_def Let_def split: if_splits option.splits prod.splits)

lemma verdict_wait:
  assumes "pass_verdict dc p s = Wait_for w"
  shows "0 < w \<and> w \<le> min (maxWaitMs (dc_settings dc)) (budgetLeft s) \<and> attempt s < maxAttempts (dc_settings dc)"
  using assms
  by (auto simp: pass_verdict_def after_exhausted_def after_failed_wait_check_def note_pass_def Let_def
      dest: wait_bounds split: if_splits pass_end.splits)

lemma verdict_next: "pass_verdict dc p s = Next_set \<Longrightarrow> setTry s < maxSetRetries dc"
  by (auto simp: pass_verdict_def after_exhausted_def after_failed_wait_check_def note_pass_def Let_def
      split: if_splits pass_end.splits)

text \<open>
  \<open>dispatchWithCooldownRetry\<close>: the response, the waits it made and the number of passes. After a wait it
  dispatches afresh, with one attempt more and the wait taken from the budget.
\<close>

function dispatchWithCooldownRetry ::
    "(nat \<Rightarrow> 't pass) \<Rightarrow> dispatch_config \<Rightarrow> nat \<Rightarrow> retry_state \<Rightarrow> response \<times> int list \<times> nat" where
  "dispatchWithCooldownRetry env dc k s =
     (case pass_verdict dc (env k) s of
        Respond r \<Rightarrow> (r, [], 1)
      | Next_set \<Rightarrow>
          let (r, ws, n) = dispatchWithCooldownRetry env dc (Suc k)
                 ((note_pass (env k) s)\<lparr>setTry := Suc (setTry s)\<rparr>)
          in (r, ws, Suc n)
      | Wait_for w \<Rightarrow>
          if \<not> p_staysConnected (env k) then (Client_gone, [w], 1)
          else let (r, ws, n) = dispatchWithCooldownRetry env dc (Suc k)
                     (fresh_retry (attempt s + 1) (max 0 (budgetLeft s - w)))
               in (r, w # ws, Suc n))"
  by pat_completeness auto
termination
  by (relation "inv_image (less_than <*lex*> less_than)
      (\<lambda>(env, dc, k, s). (nat (maxAttempts (dc_settings dc) - attempt s), maxSetRetries dc - setTry s))")
    (auto simp: note_pass_def fresh_retry_def dest: verdict_wait verdict_next)

declare dispatchWithCooldownRetry.simps [simp del]

section \<open>Bounds\<close>

lemma dispatch_bounds:
  assumes "dispatchWithCooldownRetry env dc k s = (r, ws, n)" and "setTry s \<le> maxSetRetries dc"
  shows "(\<forall>w\<in>set ws. 0 < w \<and> w \<le> maxWaitMs (dc_settings dc))
    \<and> int (length ws) \<le> max 0 (maxAttempts (dc_settings dc) - attempt s)
    \<and> sum_list ws \<le> max 0 (budgetLeft s)
    \<and> n + setTry s \<le> Suc (maxSetRetries dc) * Suc (length ws)"
  using assms
proof (induction env dc k s arbitrary: r ws n rule: dispatchWithCooldownRetry.induct)
  case (1 env dc k s)
  show ?case
  proof (cases "pass_verdict dc (env k) s")
    case (Respond x)
    then show ?thesis using 1(3,4) by (subst (asm) dispatchWithCooldownRetry.simps) auto
  next
    case Next_set
    let ?s = "(note_pass (env k) s)\<lparr>setTry := Suc (setTry s)\<rparr>"
    obtain r' ws' n' where d: "dispatchWithCooldownRetry env dc (Suc k) ?s = (r', ws', n')" by (metis prod_cases3)
    then have "ws = ws'" "n = Suc n'"
      using 1(3) Next_set by (subst (asm) (2) dispatchWithCooldownRetry.simps; simp)+
    then show ?thesis
      using 1(1) [OF Next_set d] verdict_next [OF Next_set] by (simp add: note_pass_def)
  next
    case (Wait_for w)
    note w = verdict_wait [OF Wait_for]
    let ?s = "fresh_retry (attempt s + 1) (max 0 (budgetLeft s - w))"
    show ?thesis
    proof (cases "p_staysConnected (env k)")
      case False
      then have "ws = [w]" "n = 1"
        using 1(3) Wait_for by (subst (asm) dispatchWithCooldownRetry.simps; simp)+
      then show ?thesis using w 1(4) by simp
    next
      case True
      obtain r' ws' n' where d: "dispatchWithCooldownRetry env dc (Suc k) ?s = (r', ws', n')" by (metis prod_cases3)
      then have "ws = w # ws'" "n = Suc n'"
        using 1(3) Wait_for True by (subst (asm) (2) dispatchWithCooldownRetry.simps; simp)+
      then show ?thesis
        using 1(2) [OF Wait_for _ d] True w 1(4) by (auto simp: fresh_retry_def)
    qed
  qed
qed

text \<open>
  C99. A request to a combo ends within its bounds. Whatever the passes over its targets do, the dispatch
  loop responds; it waits at most \<open>maxAttempts\<close> times, each wait is positive and at most \<open>maxWaitMs\<close>, all
  waits together stay within the budget, and it runs at most \<open>maxSetRetries + 1\<close> passes for each wait and
  for the first dispatch.
\<close>

theorem combo_dispatch_bounded:
  assumes "dispatchWithCooldownRetry env dc 0 (fresh_retry 0 (budgetMs (dc_settings dc))) = (r, ws, n)"
  shows "int (length ws) \<le> max 0 (maxAttempts (dc_settings dc))
    \<and> (\<forall>w\<in>set ws. 0 < w \<and> w \<le> maxWaitMs (dc_settings dc))
    \<and> sum_list ws \<le> max 0 (budgetMs (dc_settings dc))
    \<and> n \<le> Suc (maxSetRetries dc) * Suc (length ws)"
  using dispatch_bounds [OF assms] by (simp add: fresh_retry_def)

text \<open>A combo whose only target is rate limited for three seconds, then answers.\<close>

definition limited_pass :: "unit pass" where
  "limited_pass = \<lparr>p_gone = False, p_end = Exhausted, p_lastStatus = Some 429, p_recorded = 1,
     p_errors = [\<lparr>e_status = 429, e_kind = Rate_limit\<rparr>], p_retryAfter = True, p_hint = Some 3000,
     p_circuitSkip = False, p_circuitMs = None, p_targets = [(Some ''openai'', ())],
     p_lookup = (\<lambda>_ _. Some \<lparr>lk_reason = Some ''rate_limit'', remainingMs = Some 2500\<rparr>), p_staysConnected = True\<rparr>"

definition demo_dispatch :: dispatch_config where
  "demo_dispatch = \<lparr>maxSetRetries = 0, waitEnabled = True,
     dc_settings = \<lparr>ws_enabled = True, maxWaitMs = 5000, maxAttempts = 2, budgetMs = 8000\<rparr>\<rparr>"

definition demo_passes :: "nat \<Rightarrow> unit pass" where
  "demo_passes k = (if k = 0 then limited_pass else limited_pass\<lparr>p_end := Answered 7\<rparr>)"

lemma demo_run:
  "dispatchWithCooldownRetry demo_passes demo_dispatch 0 (fresh_retry 0 (budgetMs (dc_settings demo_dispatch)))
    = (Answer 7, [3050], 2)"
  by code_simp

theorem combo_dispatch_bounded_witness:
  "sum_list [3050] \<le> max 0 (budgetMs (dc_settings demo_dispatch)) \<and> (2::nat) \<le> 1 * Suc (length [3050::int])"
  using combo_dispatch_bounded [OF demo_run] by (simp add: demo_dispatch_def)

section \<open>Whose fault it is\<close>

lemma one_kind: "es \<noteq> [] \<Longrightarrow> length (remdups (map e_kind es)) = 1 \<longleftrightarrow> (\<forall>a\<in>set es. \<forall>b\<in>set es. e_kind a = e_kind b)"
proof -
  assume ne: "es \<noteq> []"
  have "length (remdups (map e_kind es)) = card (e_kind ` set es)" by (simp add: length_remdups_card_conv)
  moreover have "card (e_kind ` set es) = 1 \<longleftrightarrow> (\<forall>a\<in>set es. \<forall>b\<in>set es. e_kind a = e_kind b)"
  proof
    assume "card (e_kind ` set es) = 1"
    then obtain x where x: "e_kind ` set es = {x}" by (auto simp: card_1_singleton_iff)
    have "e_kind a = x" if "a \<in> set es" for a using imageI [OF that, of e_kind] unfolding x by simp
    then show "\<forall>a\<in>set es. \<forall>b\<in>set es. e_kind a = e_kind b" by simp
  next
    assume "\<forall>a\<in>set es. \<forall>b\<in>set es. e_kind a = e_kind b"
    then have "e_kind a = e_kind (hd es)" if "a \<in> set es" for a using that hd_in_set [OF ne] by blast
    then have "e_kind ` set es = (\<lambda>_. e_kind (hd es)) ` set es" by (intro image_cong) simp_all
    then show "card (e_kind ` set es) = 1" using ne by (simp add: image_constant_conv)
  qed
  ultimately show ?thesis by simp
qed

text \<open>
  C99. The status of a failed combo is that of its last target exactly when all its targets failed for the
  same kind of reason. Otherwise it is a gateway error, 504 when one of them timed out and 502 when not: a
  client error of one target never stands for a mix of failures.
\<close>

theorem terminal_status_exact:
  assumes "es \<noteq> []"
  shows "resolveComboTerminalStatus es fallback =
    (if \<forall>a\<in>set es. \<forall>b\<in>set es. e_kind a = e_kind b then e_status (last es)
     else if \<exists>e\<in>set es. e_kind e = Timeout then 504 else 502)"
proof -
  have "\<forall>a\<in>set es. \<forall>b\<in>set es. e_kind a = e_kind b"
    if "list_all (\<lambda>e. e_kind e = Model \<and> e_status e \<ge> 400 \<and> e_status e < 500) es"
    using that by (simp add: list_all_iff)
  then show ?thesis
    unfolding resolveComboTerminalStatus_def one_kind [OF assms] list_ex_iff using assms by presburger
qed

theorem terminal_status_exact_witness:
  "resolveComboTerminalStatus [\<lparr>e_status = 500, e_kind = Provider\<rparr>, \<lparr>e_status = 401, e_kind = Auth\<rparr>] 401 = 502"
  using terminal_status_exact [of "[\<lparr>e_status = 500, e_kind = Provider\<rparr>, \<lparr>e_status = 401, e_kind = Auth\<rparr>]" 401]
  by simp

end
