(* ===== verification/ComboLoop.thy ===== *)
theory ComboLoop
  imports Prelude
begin

text \<open>
  The interleavings of one pass of \<open>dispatchWithCooldownRetry\<close>
  (\<open>src/open-sse/services/combo/comboAttemptLoop.ts\<close>): the loop that launches the targets, the tasks it
  has launched, hedging, and the safety timer, as one machine.

  \<^item> The loop is at one of its awaits: \<open>Racing i\<close> at the race after the launch of target \<open>i\<close>, in its
    \<open>Final_race\<close>, \<open>Draining\<close> after the safety timer; or it has \<open>Ended\<close>. \<open>Continue\<close> is one step of it, up to
    the next await; it does nothing while no promise of the race has settled.
  \<^item> A task settles with an answer that is good or fatal, with nothing, or by throwing. The first decisive
    outcome is \<open>answer\<close>; \<open>anySuccess\<close> of the code says that there is one.
  \<^item> Timers are events: \<open>Hedge_timer\<close> for the current race, \<open>Safety_timer\<close>, \<open>Drain_timer\<close>. The test of the
    combo's own timeout is an argument of \<open>Continue\<close>.

  What a task does is \<^verbatim>\<open>ComboAttempt\<close>; here it is only its outcome. Messages and traces are left out.
\<close>

section \<open>State and events\<close>

datatype outcome = Ok_response | Fatal_response | Nothing | Throws

datatype loop_end = Answer_of nat outcome | Safety_504 | Timeout_504 | None_left

datatype phase = Racing nat | Final_race | Draining | Ended loop_end

record loop_state =
  next_index :: nat
  runningTasks :: "nat set"
  answer :: "(nat \<times> outcome) option"
  comboExpired :: bool
  loopSafetyFired :: bool
  hedgeFired :: bool
  drained :: bool
  abortedTasks :: "nat set"
  phase :: phase

record loop_config =
  poolSize :: nat
  hedging :: bool

definition empty_loop :: loop_state where
  "empty_loop = \<lparr>next_index = 0, runningTasks = {}, answer = None, comboExpired = False, loopSafetyFired = False,
     hedgeFired = False, drained = False, abortedTasks = {}, phase = Final_race\<rparr>"

datatype event = Continue bool | Settle nat outcome | Hedge_timer | Safety_timer | Drain_timer

text \<open>Everything launched has an abort controller, the tasks that have settled included.\<close>

definition controllers :: "loop_state \<Rightarrow> nat set" where
  "controllers s = {..<next_index s}"

section \<open>The tasks\<close>

definition settle :: "nat \<Rightarrow> outcome \<Rightarrow> loop_state \<Rightarrow> loop_state" where
  "settle i oc s =
     (if i \<notin> runningTasks s then s
      else let s1 = s\<lparr>runningTasks := runningTasks s - {i}\<rparr>
           in if oc = Nothing \<or> answer s \<noteq> None then s1
              else let s2 = s1\<lparr>answer := Some (i, oc)\<rparr>
                   in if oc = Ok_response
                      then s2\<lparr>abortedTasks := abortedTasks s \<union> (controllers s - {i})\<rparr>
                      else s2)"

section \<open>The loop\<close>

definition markLoopExpiredIfSafetyFired :: "loop_state \<Rightarrow> loop_state" where
  "markLoopExpiredIfSafetyFired s =
     (if loopSafetyFired s then s\<lparr>comboExpired := True, abortedTasks := abortedTasks s \<union> controllers s\<rparr> else s)"

text \<open>After the loop and its last race.\<close>

definition conclude :: "loop_state \<Rightarrow> loop_state" where
  "conclude s =
     (if loopSafetyFired s \<and> answer s = None
      then (if runningTasks s \<noteq> {} then s\<lparr>phase := Draining\<rparr> else s\<lparr>phase := Ended Safety_504\<rparr>)
      else case answer s of
             Some (i, oc) \<Rightarrow> s\<lparr>phase := Ended (Answer_of i oc)\<rparr>
           | None \<Rightarrow> s\<lparr>phase := Ended (if comboExpired s then Timeout_504 else None_left)\<rparr>)"

definition launch :: "loop_config \<Rightarrow> loop_state \<Rightarrow> loop_state" where
  "launch cfg s =
     (if next_index s < poolSize cfg \<and> answer s = None \<and> \<not> comboExpired s
      then s\<lparr>next_index := Suc (next_index s), runningTasks := insert (next_index s) (runningTasks s),
             hedgeFired := False, phase := Racing (next_index s)\<rparr>
      else if answer s = None \<and> runningTasks s \<noteq> {} then s\<lparr>phase := Final_race\<rparr>
      else conclude s)"

definition start_loop :: "loop_config \<Rightarrow> loop_state" where
  "start_loop cfg = launch cfg empty_loop"

definition race_over :: "nat \<Rightarrow> loop_state \<Rightarrow> bool" where
  "race_over i s \<longleftrightarrow> i \<notin> runningTasks s \<or> answer s \<noteq> None \<or> hedgeFired s \<or> loopSafetyFired s"

definition after_race :: "bool \<Rightarrow> loop_state \<Rightarrow> loop_state" where
  "after_race late s =
     (let s1 = markLoopExpiredIfSafetyFired s
      in if answer s1 = None \<and> late then s1\<lparr>comboExpired := True\<rparr> else s1)"

definition continue :: "loop_config \<Rightarrow> bool \<Rightarrow> loop_state \<Rightarrow> loop_state" where
  "continue cfg late s =
     (case phase s of
        Racing i \<Rightarrow> if race_over i s then launch cfg (after_race late s) else s
      | Final_race \<Rightarrow> if answer s \<noteq> None \<or> runningTasks s = {} \<or> loopSafetyFired s
                     then conclude (markLoopExpiredIfSafetyFired s) else s
      | Draining \<Rightarrow> if runningTasks s = {} \<or> drained s then s\<lparr>phase := Ended Safety_504\<rparr> else s
      | Ended _ \<Rightarrow> s)"

definition hedges :: "loop_config \<Rightarrow> loop_state \<Rightarrow> bool" where
  "hedges cfg s \<longleftrightarrow> hedging cfg \<and> next_index s < poolSize cfg \<and> (case phase s of Racing i \<Rightarrow> True | _ \<Rightarrow> False)"

definition has_ended :: "loop_state \<Rightarrow> bool" where
  "has_ended s \<longleftrightarrow> (case phase s of Ended r \<Rightarrow> True | _ \<Rightarrow> False)"

fun loop_step :: "loop_config \<Rightarrow> loop_state \<Rightarrow> event \<Rightarrow> loop_state" where
  "loop_step cfg s (Continue late) = continue cfg late s"
| "loop_step cfg s (Settle i oc) = settle i oc s"
| "loop_step cfg s Hedge_timer = (if hedges cfg s then s\<lparr>hedgeFired := True\<rparr> else s)"
| "loop_step cfg s Safety_timer =
     (if has_ended s then s else s\<lparr>loopSafetyFired := True\<rparr>)"
| "loop_step cfg s Drain_timer = (if phase s = Draining then s\<lparr>drained := True\<rparr> else s)"

section \<open>Invariant\<close>

text \<open>
  Tasks are launched in order; an answer comes from a task that was launched and has settled; a good one has
  aborted every other task; and a loop that ended with an answer ended with that one.
\<close>

definition loop_inv :: "loop_config \<Rightarrow> loop_state \<Rightarrow> bool" where
  "loop_inv cfg s \<longleftrightarrow>
     next_index s \<le> poolSize cfg \<and> runningTasks s \<subseteq> controllers s
     \<and> (\<forall>i oc. answer s = Some (i, oc) \<longrightarrow> i \<in> controllers s \<and> i \<notin> runningTasks s \<and> oc \<noteq> Nothing)
     \<and> (\<forall>i. answer s = Some (i, Ok_response) \<longrightarrow> controllers s - {i} \<subseteq> abortedTasks s)
     \<and> (\<forall>i. phase s = Racing i \<longrightarrow> next_index s = Suc i)
     \<and> (\<forall>i oc. phase s = Ended (Answer_of i oc) \<longrightarrow> answer s = Some (i, oc))"

lemma inv_conclude: "loop_inv cfg s \<Longrightarrow> loop_inv cfg (conclude s)"
  by (auto simp: loop_inv_def conclude_def controllers_def split: option.splits)

lemma inv_mark: "loop_inv cfg s \<Longrightarrow> loop_inv cfg (markLoopExpiredIfSafetyFired s)"
  by (auto simp: loop_inv_def markLoopExpiredIfSafetyFired_def controllers_def)

lemma inv_settle: "loop_inv cfg s \<Longrightarrow> loop_inv cfg (settle i oc s)"
  by (auto simp: loop_inv_def settle_def controllers_def Let_def)

lemma inv_launch: "loop_inv cfg s \<Longrightarrow> loop_inv cfg (launch cfg s)"
  using inv_conclude [of cfg s] by (simp add: launch_def) (auto simp: loop_inv_def controllers_def)

lemma inv_after_race: "loop_inv cfg s \<Longrightarrow> loop_inv cfg (after_race late s)"
  using inv_mark [of cfg s] by (auto simp: after_race_def Let_def loop_inv_def controllers_def)

lemma inv_continue:
  assumes "loop_inv cfg s"
  shows "loop_inv cfg (continue cfg late s)"
proof (cases "phase s")
  case Draining
  then show ?thesis using assms by (auto simp: continue_def loop_inv_def controllers_def)
qed (use assms inv_launch [OF inv_after_race] inv_conclude [OF inv_mark] in \<open>auto simp: continue_def\<close>)

interpretation loops: machine "loop_step cfg" "loop_inv cfg" for cfg
proof
  fix s e
  assume "loop_inv cfg s"
  then show "loop_inv cfg (loop_step cfg s e)"
    by (cases e) (simp_all add: inv_continue inv_settle, simp_all add: loop_inv_def controllers_def)
qed

lemma inv_start: "loop_inv cfg (start_loop cfg)"
  unfolding start_loop_def by (rule inv_launch) (simp add: loop_inv_def empty_loop_def controllers_def)

abbreviation run :: "loop_config \<Rightarrow> event list \<Rightarrow> loop_state" where
  "run cfg es \<equiv> foldl (loop_step cfg) (start_loop cfg) es"

section \<open>The first decisive outcome\<close>

lemma mark_keeps [simp]:
  "answer (markLoopExpiredIfSafetyFired s) = answer s"
  "next_index (markLoopExpiredIfSafetyFired s) = next_index s"
  "runningTasks (markLoopExpiredIfSafetyFired s) = runningTasks s"
  "loopSafetyFired (markLoopExpiredIfSafetyFired s) = loopSafetyFired s"
  "hedgeFired (markLoopExpiredIfSafetyFired s) = hedgeFired s"
  "phase (markLoopExpiredIfSafetyFired s) = phase s"
  by (simp_all add: markLoopExpiredIfSafetyFired_def)

lemma conclude_keeps [simp]:
  "answer (conclude s) = answer s" "next_index (conclude s) = next_index s"
  "runningTasks (conclude s) = runningTasks s" "loopSafetyFired (conclude s) = loopSafetyFired s"
  "hedgeFired (conclude s) = hedgeFired s" "comboExpired (conclude s) = comboExpired s"
  by (auto simp: conclude_def split: option.splits)

lemma after_race_keeps [simp]:
  "answer (after_race late s) = answer s" "next_index (after_race late s) = next_index s"
  "runningTasks (after_race late s) = runningTasks s" "loopSafetyFired (after_race late s) = loopSafetyFired s"
  "hedgeFired (after_race late s) = hedgeFired s"
  by (simp_all add: after_race_def Let_def)

lemma answered_step:
  "answer s = Some a \<Longrightarrow> answer (loop_step cfg s e) = Some a \<and> next_index (loop_step cfg s e) = next_index s"
  by (cases e) (auto simp: continue_def launch_def settle_def Let_def split: phase.splits)

lemma answered_run:
  "answer s = Some a \<Longrightarrow>
    answer (foldl (loop_step cfg) s es) = Some a \<and> next_index (foldl (loop_step cfg) s es) = next_index s"
proof (induction es arbitrary: s)
  case (Cons e es)
  then show ?case using answered_step [OF Cons.prems, of cfg e] by simp
qed simp

text \<open>
  C99. The first decisive outcome wins. In every interleaving of the loop, its tasks and its timers: once a
  target has answered, no other answer replaces its own and no further target is launched; when the answer
  is good, every other task that was launched has been aborted; and a pass that ends with an answer ends
  with that one.
\<close>

theorem first_answer_wins:
  assumes "answer (run cfg es) = Some (i, oc)"
  shows "answer (run cfg (es @ fs)) = Some (i, oc)
    \<and> next_index (run cfg (es @ fs)) = next_index (run cfg es)
    \<and> i < next_index (run cfg es)
    \<and> (oc = Ok_response \<longrightarrow> (\<forall>j<next_index (run cfg es). j \<noteq> i \<longrightarrow> j \<in> abortedTasks (run cfg es)))
    \<and> (\<forall>j out. phase (run cfg (es @ fs)) = Ended (Answer_of j out) \<longrightarrow> (j, out) = (i, oc))"
proof -
  have "loop_inv cfg (run cfg es)" "loop_inv cfg (run cfg (es @ fs))" by (intro loops.run_inv inv_start)+
  then show ?thesis
    using answered_run [OF assms, of cfg fs] assms by (auto simp: loop_inv_def controllers_def)
qed

section \<open>Without hedging\<close>

definition one_at_a_time :: "loop_state \<Rightarrow> bool" where
  "one_at_a_time s \<longleftrightarrow> \<not> hedgeFired s \<and> runningTasks s \<subseteq> {next_index s - 1}
     \<and> (\<forall>i oc. answer s = Some (i, oc) \<longrightarrow> Suc i = next_index s)
     \<and> (\<forall>i. phase s = Racing i \<longrightarrow> Suc i = next_index s)
     \<and> (runningTasks s \<noteq> {} \<longrightarrow> 0 < next_index s)"

lemma sequential_launch:
  "one_at_a_time s \<Longrightarrow> answer s \<noteq> None \<or> comboExpired s \<or> runningTasks s = {} \<Longrightarrow> one_at_a_time (launch cfg s)"
  by (auto simp: one_at_a_time_def launch_def conclude_def split: option.splits)

lemma sequential_after_race:
  assumes "one_at_a_time s" and "phase s = Racing i" and "race_over i s"
  shows "one_at_a_time (launch cfg (after_race late s))"
proof (rule sequential_launch)
  show "one_at_a_time (after_race late s)"
    using assms(1) by (auto simp: one_at_a_time_def after_race_def Let_def)
  have "runningTasks s \<subseteq> {i}" using assms(1,2) by (auto simp: one_at_a_time_def)
  then show "answer (after_race late s) \<noteq> None \<or> comboExpired (after_race late s) \<or> runningTasks (after_race late s) = {}"
    using assms(1,3)
    by (auto simp: race_over_def one_at_a_time_def after_race_def Let_def markLoopExpiredIfSafetyFired_def)
qed

lemma sequential_step:
  assumes "\<not> hedging cfg" and "one_at_a_time s"
  shows "one_at_a_time (loop_step cfg s e)"
proof (cases e)
  case (Continue late)
  show ?thesis
  proof (cases "phase s")
    case (Racing i)
    then show ?thesis
      using assms(2) Continue sequential_after_race [OF assms(2) Racing, of cfg late] by (simp add: continue_def)
  next
    case Final_race
    have "one_at_a_time (conclude (markLoopExpiredIfSafetyFired s))"
      using assms(2) Final_race by (simp add: one_at_a_time_def conclude_def split: option.splits)
    then show ?thesis using assms(2) Continue Final_race by (simp add: continue_def)
  next
    case Draining
    then show ?thesis using assms(2) Continue by (simp add: continue_def one_at_a_time_def)
  next
    case (Ended r)
    then show ?thesis using assms(2) Continue by (simp add: continue_def)
  qed
next
  case (Settle i oc)
  have "Suc i = next_index s" if "i \<in> runningTasks s"
    using assms(2) that by (force simp: one_at_a_time_def)
  then show ?thesis using assms(2) Settle by (auto simp: settle_def one_at_a_time_def Let_def)
qed (use assms in \<open>auto simp: one_at_a_time_def hedges_def\<close>)

interpretation unhedged: machine "loop_step (cfg\<lparr>hedging := False\<rparr>)" one_at_a_time for cfg
  by unfold_locales (simp add: sequential_step)

text \<open>
  C99. Without hedging the targets are tried one after the other. In every interleaving at most one task
  runs; whenever a target has answered it is the last one launched, so that all before it had settled
  without an answer and none after it was tried.
\<close>

theorem unhedged_is_sequential:
  assumes "\<not> hedging cfg"
  shows "card (runningTasks (run cfg es)) \<le> 1
    \<and> (\<forall>i oc. answer (run cfg es) = Some (i, oc) \<longrightarrow> next_index (run cfg es) = Suc i \<and> runningTasks (run cfg es) = {})"
proof -
  have "one_at_a_time (start_loop cfg)"
    unfolding start_loop_def by (rule sequential_launch) (auto simp: one_at_a_time_def empty_loop_def)
  moreover have "cfg\<lparr>hedging := False\<rparr> = cfg" using assms by simp
  ultimately have "one_at_a_time (run cfg es)" using unhedged.run_inv [of "start_loop cfg" cfg es] by simp
  moreover have "loop_inv cfg (run cfg es)" by (intro loops.run_inv inv_start)
  ultimately have sub: "runningTasks (run cfg es) \<subseteq> {next_index (run cfg es) - 1}"
    and last: "\<And>i oc. answer (run cfg es) = Some (i, oc) \<Longrightarrow> Suc i = next_index (run cfg es) \<and> i \<notin> runningTasks (run cfg es)"
    unfolding one_at_a_time_def loop_inv_def by blast+
  have "next_index (run cfg es) = Suc i \<and> runningTasks (run cfg es) = {}"
    if "answer (run cfg es) = Some (i, oc)" for i oc
  proof -
    have n: "next_index (run cfg es) = Suc i" using last [OF that] by simp
    show ?thesis using sub last [OF that] unfolding n by auto
  qed
  then show ?thesis using card_mono [OF _ sub] by simp
qed

section \<open>Progress\<close>

text \<open>How far the loop is from its end once the safety timer has fired, in steps of its own.\<close>

fun steps_left :: "phase \<Rightarrow> nat" where
  "steps_left (Racing i) = 3"
| "steps_left Final_race = 2"
| "steps_left Draining = 1"
| "steps_left (Ended r) = 0"

lemma conclude_steps: "steps_left (phase (conclude s)) \<le> 1"
  by (auto simp: conclude_def split: option.splits)

lemma launch_steps: "comboExpired s \<Longrightarrow> steps_left (phase (launch cfg s)) \<le> 2"
  using conclude_steps [of s] by (simp add: launch_def)

lemma safety_expires: "loopSafetyFired s \<Longrightarrow> comboExpired (after_race late s)"
  by (auto simp: after_race_def Let_def markLoopExpiredIfSafetyFired_def)

lemma safety_continue:
  assumes "loopSafetyFired s"
  shows "loopSafetyFired (continue cfg late s)
    \<and> (steps_left (phase (continue cfg late s)) < steps_left (phase s)
       \<or> phase s = Draining \<and> \<not> drained s \<or> steps_left (phase s) = 0)"
proof (cases "phase s")
  case (Racing i)
  have "steps_left (phase (launch cfg (after_race late s))) < 3"
    using launch_steps [OF safety_expires [OF assms], of cfg late] by simp
  moreover have "loopSafetyFired (launch cfg (after_race late s))" using assms by (simp add: launch_def)
  ultimately show ?thesis using Racing assms by (simp add: continue_def race_over_def)
next
  case Final_race
  then show ?thesis
    using assms conclude_steps [of "markLoopExpiredIfSafetyFired s"] by (simp add: continue_def)
qed (use assms in \<open>auto simp: continue_def\<close>)

lemma other_events_keep:
  assumes "\<forall>late. e \<noteq> Continue late"
  shows "phase (loop_step cfg s e) = phase s" "drained s \<Longrightarrow> drained (loop_step cfg s e)"
    "loopSafetyFired s \<Longrightarrow> loopSafetyFired (loop_step cfg s e)"
  using assms by (cases e; auto simp: settle_def Let_def)+

fun continues :: "event list \<Rightarrow> nat" where
  "continues [] = 0"
| "continues (Continue late # es) = Suc (continues es)"
| "continues (_ # es) = continues es"

lemma safety_run:
  assumes "loopSafetyFired s"
  shows "loopSafetyFired (foldl (loop_step cfg) s es)
    \<and> steps_left (phase (foldl (loop_step cfg) s es)) \<le> max 1 (steps_left (phase s) - continues es)
    \<and> (steps_left (phase s) = 0 \<longrightarrow> steps_left (phase (foldl (loop_step cfg) s es)) = 0)"
  using assms
proof (induction es arbitrary: s)
  case (Cons e es)
  show ?case
  proof (cases "\<exists>late. e = Continue late")
    case True
    then obtain late where e: "e = Continue late" ..
    have one: "steps_left (phase (continue cfg late s)) \<le> max 1 (steps_left (phase s) - 1)"
        "steps_left (phase s) = 0 \<longrightarrow> steps_left (phase (continue cfg late s)) = 0"
      using safety_continue [OF Cons.prems, of cfg late] by (cases "phase s"; auto simp: continue_def)+
    show ?thesis using Cons.IH [of "continue cfg late s"] safety_continue [OF Cons.prems, of cfg late] one e by auto
  next
    case False
    then have "continues (e # es) = continues es" by (cases e) auto
    then show ?thesis using Cons.IH [of "loop_step cfg s e"] other_events_keep [where e = e and cfg = cfg and s = s] False Cons.prems by auto
  qed
qed auto

lemma ended_step: "phase s = Ended r \<Longrightarrow> phase (loop_step cfg s e) = Ended r"
  by (cases e) (auto simp: continue_def settle_def has_ended_def Let_def)

lemma drain_run:
  assumes "phase s = Draining \<and> drained s \<or> (\<exists>r. phase s = Ended r)" and "1 \<le> continues es"
  shows "\<exists>r. phase (foldl (loop_step cfg) s es) = Ended r"
  using assms
proof (induction es arbitrary: s)
  case (Cons e es)
  show ?case
  proof (cases "\<exists>late. e = Continue late")
    case True
    then obtain r where "phase (loop_step cfg s e) = Ended r"
      using Cons.prems(1) by (auto simp: continue_def)
    then have "phase (foldl (loop_step cfg) (loop_step cfg s e) fs) = Ended r" for fs
      by (induction fs rule: rev_induct) (auto simp: ended_step)
    then show ?thesis by simp
  next
    case False
    then have "continues (e # es) = continues es" by (cases e) auto
    then show ?thesis using Cons other_events_keep [where e = e and cfg = cfg and s = s] False by auto
  qed
qed simp

text \<open>
  C99. The safety timer ends every pass. When it has fired, whatever hangs, whatever still settles and
  whatever the other timers do, the loop ends within two steps of its own, the end of the drain window and
  one step more; from then on it launches nothing.
\<close>

theorem safety_timer_ends_pass:
  assumes "loopSafetyFired (run cfg es)" and "2 \<le> continues fs" and "1 \<le> continues gs"
  shows "\<exists>r. phase (run cfg (es @ fs @ Drain_timer # gs)) = Ended r"
proof -
  let ?s = "run cfg (es @ fs)"
  have "steps_left (phase (run cfg es)) \<le> 3" by (cases "phase (run cfg es)") auto
  then have "steps_left (phase ?s) \<le> 1" using safety_run [OF assms(1), of cfg fs] assms(2) by auto
  then have "phase ?s = Draining \<or> (\<exists>r. phase ?s = Ended r)" by (cases "phase ?s") auto
  then show ?thesis
    using drain_run [OF _ assms(3), of "loop_step cfg ?s Drain_timer" cfg] by auto
qed

text \<open>
  C99. A pass with nothing running makes progress. Whenever no task is running and the pass has not ended,
  the next step of the loop ends it or launches the next target: no wakeup is lost.
\<close>

theorem idle_pass_progresses:
  assumes "runningTasks (run cfg es) = {}" and "\<forall>r. phase (run cfg es) \<noteq> Ended r"
  shows "(\<exists>r. phase (run cfg (es @ [Continue late])) = Ended r)
    \<or> next_index (run cfg (es @ [Continue late])) = Suc (next_index (run cfg es))"
proof (cases "phase (run cfg es)")
  case (Racing i)
  then have "race_over i (run cfg es)" using assms(1) by (simp add: race_over_def)
  then show ?thesis
    using Racing assms(1) by (auto simp: continue_def launch_def conclude_def split: option.splits)
next
  case Final_race
  then show ?thesis using assms(1) by (auto simp: continue_def conclude_def split: option.splits)
next
  case Draining
  then show ?thesis using assms(1) by (simp add: continue_def)
qed (use assms(2) in blast)

section \<open>Examples\<close>

definition hedged_pair :: loop_config where
  "hedged_pair = \<lparr>poolSize = 2, hedging = True\<rparr>"

definition second_wins :: "outcome \<Rightarrow> event list" where
  "second_wins oc = [Hedge_timer, Continue False, Settle 1 oc]"

theorem first_answer_wins_witness:
  "0 \<in> abortedTasks (run hedged_pair (second_wins Ok_response))
   \<and> answer (run hedged_pair (second_wins Ok_response @ [Settle 0 Ok_response])) = Some (1, Ok_response)"
proof -
  have "answer (run hedged_pair (second_wins Ok_response)) = Some (1, Ok_response)" by code_simp
  moreover have "next_index (run hedged_pair (second_wins Ok_response)) = 2" by code_simp
  ultimately show ?thesis
    using first_answer_wins [of hedged_pair "second_wins Ok_response" 1 Ok_response "[Settle 0 Ok_response]"] by simp
qed

text \<open>
  C99. A fatal response does not abort the others. When a hedged target answers with a response that ends
  the combo, the pass ends with it while the other target's upstream call goes on, neither aborted nor
  awaited; a good answer aborts it.
\<close>

theorem fatal_answer_leaves_task_running:
  "phase (run hedged_pair (second_wins Fatal_response @ [Continue False])) = Ended (Answer_of 1 Fatal_response)
   \<and> 0 \<in> runningTasks (run hedged_pair (second_wins Fatal_response @ [Continue False]))
   \<and> abortedTasks (run hedged_pair (second_wins Fatal_response @ [Continue False])) = {}
   \<and> abortedTasks (run hedged_pair (second_wins Ok_response @ [Continue False])) = {0}"
  by code_simp

theorem unhedged_is_sequential_witness:
  "card (runningTasks (run \<lparr>poolSize = 2, hedging = False\<rparr> (second_wins Nothing))) \<le> 1"
  using unhedged_is_sequential [of "\<lparr>poolSize = 2, hedging = False\<rparr>" "second_wins Nothing"] by simp

theorem safety_timer_ends_pass_witness:
  "\<exists>r. phase (run hedged_pair ([Safety_timer] @ [Continue False, Continue False] @ [Drain_timer, Continue False])) = Ended r"
proof -
  have "loopSafetyFired (run hedged_pair [Safety_timer])" by code_simp
  from safety_timer_ends_pass [OF this, of "[Continue False, Continue False]" "[Continue False]"] show ?thesis by simp
qed

theorem idle_pass_progresses_witness:
  "next_index (run hedged_pair ([Settle 0 Nothing] @ [Continue False])) = 2"
proof -
  have "runningTasks (run hedged_pair [Settle 0 Nothing]) = {}" by code_simp
  moreover have "phase (run hedged_pair [Settle 0 Nothing]) = Racing 0" by code_simp
  moreover have "phase (run hedged_pair ([Settle 0 Nothing] @ [Continue False])) = Racing 1" by code_simp
  moreover have "next_index (run hedged_pair [Settle 0 Nothing]) = 1" by code_simp
  ultimately show ?thesis
    using idle_pass_progresses [of hedged_pair "[Settle 0 Nothing]" False] by auto
qed

end
