(* ===== verification/ComboExhaustion.thy ===== *)
theory ComboExhaustion
  imports Prelude JsString
begin

text \<open>
  What the failure of one combo target means for the others of the same request:
  \<open>src/open-sse/services/combo/targetExhaustion.ts\<close> and the predicates of \<open>comboPredicates.ts\<close> around it
  (the skip check, the persisted cooldown of a connection, the provider breaker, retries and fallback).

  \<^item> A \<open>dispatch_target\<close> has the fields of a resolved target that dispatching reads. \<open>connectionId\<close> is \<open>None\<close>
    when null or undefined, and the empty string is as good as none.
  \<^item> A \<open>failure\<close> is the response of a target as the code sees it: status, the structured error, the result of
    \<open>checkFallbackError\<close>, and one boolean for each regular expression or provider table that is consulted on
    it.
  \<^item> The three sets of a request are a record of sets; a connection is in them under its provider and its
    id, joined by a colon.

  The lemmas: which targets a failure excludes, exactly, and for how long the label of a connection does.
\<close>

section \<open>Targets\<close>

record dispatch_target =
  dt_key :: string
  dt_modelStr :: string
  dt_provider :: string
  dt_connection :: "string option"
  dt_fallbackOnly :: bool
  dt_authType :: "string option"
  dt_allowed :: "string list option"

definition truthy :: "string option \<Rightarrow> bool" where
  "truthy s \<longleftrightarrow> s \<noteq> None \<and> s \<noteq> Some []"

definition real_provider :: "string \<Rightarrow> bool" where
  "real_provider p \<longleftrightarrow> p \<noteq> [] \<and> p \<noteq> ''unknown''"

definition connection_key :: "string \<Rightarrow> string \<Rightarrow> string" where
  "connection_key p c = p @ '':'' @ c"

record exhaustion_sets =
  exhaustedProviders :: "string set"
  exhaustedConnections :: "string set"
  transientRateLimitedProviders :: "string set"

definition no_exhaustion :: exhaustion_sets where
  "no_exhaustion = \<lparr>exhaustedProviders = {}, exhaustedConnections = {}, transientRateLimitedProviders = {}\<rparr>"

datatype skip_reason = Connection_had_error | Provider_marked_exhausted

definition getExhaustedTargetSkipReason :: "dispatch_target \<Rightarrow> exhaustion_sets \<Rightarrow> skip_reason option" where
  "getExhaustedTargetSkipReason t S =
     (if dt_provider t \<noteq> [] \<and> truthy (dt_connection t)
         \<and> connection_key (dt_provider t) (the (dt_connection t)) \<in> exhaustedConnections S
      then Some Connection_had_error
      else if dt_provider t \<noteq> [] \<and> dt_provider t \<in> exhaustedProviders S
      then Some Provider_marked_exhausted
      else None)"

section \<open>Failures\<close>

record structured_error =
  se_code :: "string option"
  se_type :: "string option"
  se_message :: "string option"

record fallback_result =
  shouldFallback :: bool
  cooldownMs :: int
  fr_reason :: "string option"
  ruleScope :: "string option"
  permanent :: bool
  creditsExhausted :: bool
  dailyQuotaExhausted :: bool
  skipProviderBreaker :: bool

record failure =
  f_status :: int
  f_error :: structured_error
  f_fallback :: fallback_result
  f_breakerHeader :: "string option"
  f_circuitOpenText :: bool
  f_emptyText :: bool
  f_fingerprintText :: bool
  f_quotaOrCredits :: bool
  f_alibabaFree :: bool
  f_quotaText :: bool
  f_perModelQuota :: bool
  f_operatorRule :: bool
  f_overloadText :: bool
  f_localError :: bool

definition CONNECTION_LEVEL_ERROR_STATUSES :: "int list" where
  "CONNECTION_LEVEL_ERROR_STATUSES = [408, 500, 502, 503, 504, 524]"

definition AUTH_LEVEL_ERROR_STATUSES :: "int list" where
  "AUTH_LEVEL_ERROR_STATUSES = [401, 403]"

definition PROVIDER_BREAKER_FAILURE_STATUSES :: "int list" where
  "PROVIDER_BREAKER_FAILURE_STATUSES = [408, 500, 502, 503, 504]"

definition REQUEST_SCOPED_UPSTREAM_ERROR_CODES :: "string list" where
  "REQUEST_SCOPED_UPSTREAM_ERROR_CODES =
     [''context_length_exceeded'', ''upstream_empty_response'', ''upstream_response_failed'',
      ''combo_target_timeout'', ''rate_limit_queue_timeout'', ''rate_limit_queue_full'',
      ''rate_limit_queue_wedged'', ''executor_contract_violation'']"

definition lower_or_empty :: "string option \<Rightarrow> string" where
  "lower_or_empty s = (case s of None \<Rightarrow> [] | Some x \<Rightarrow> toLowerCase x)"

definition isRequestScopedUpstreamFailure :: "structured_error \<Rightarrow> bool" where
  "isRequestScopedUpstreamFailure e \<longleftrightarrow>
     lower_or_empty (se_code e) \<in> set REQUEST_SCOPED_UPSTREAM_ERROR_CODES
     \<or> lower_or_empty (se_type e) = ''context_length_exceeded''
     \<or> lower_or_empty (se_type e) = ''local_queue_capacity''"

definition isInputBoundRequestFailure :: "structured_error \<Rightarrow> bool" where
  "isInputBoundRequestFailure e \<longleftrightarrow>
     lower_or_empty (se_code e) \<in> {''context_length_exceeded'', ''context_window_exceeded''}
     \<or> lower_or_empty (se_type e) = ''context_length_exceeded''"

definition isProviderCircuitOpenResult :: "failure \<Rightarrow> bool" where
  "isProviderCircuitOpenResult f \<longleftrightarrow>
     (case f_breakerHeader f of None \<Rightarrow> False | Some h \<Rightarrow> toLowerCase h = ''open'') \<or> f_circuitOpenText f"

definition isEmptyContentFailure :: "failure \<Rightarrow> bool" where
  "isEmptyContentFailure f \<longleftrightarrow> f_status f = 502 \<and> f_emptyText f"

definition honorsRuleLockScope :: "string \<Rightarrow> bool \<Rightarrow> bool" where
  "honorsRuleLockScope p operator_rule \<longleftrightarrow> p \<noteq> [] \<and> (toLowerCase p = ''agentrouter'' \<or> operator_rule)"

definition isAgentrouterConnectionQuotaScope :: "string \<Rightarrow> failure \<Rightarrow> bool" where
  "isAgentrouterConnectionQuotaScope p f \<longleftrightarrow>
     honorsRuleLockScope p (f_operatorRule f)
     \<and> ruleScope (f_fallback f) = Some ''connection''
     \<and> fr_reason (f_fallback f) = Some ''quota_exhausted''
     \<and> \<not> permanent (f_fallback f) \<and> \<not> creditsExhausted (f_fallback f)"

definition isProviderExhaustedReason :: "fallback_result \<Rightarrow> bool" where
  "isProviderExhaustedReason r \<longleftrightarrow>
     creditsExhausted r \<or> dailyQuotaExhausted r \<or> fr_reason r = Some ''quota_exhausted''"

definition fingerprint_token :: "structured_error \<Rightarrow> bool" where
  "fingerprint_token e \<longleftrightarrow>
     list_ex (\<lambda>v. lower_or_empty v \<in> {''1010'', ''browser_signature_banned'', ''fingerprint_rejection''})
       [se_code e, se_type e]"

section \<open>Marking\<close>

definition add_connection :: "dispatch_target \<Rightarrow> exhaustion_sets \<Rightarrow> exhaustion_sets" where
  "add_connection t S =
     (if truthy (dt_connection t)
      then S\<lparr>exhaustedConnections := insert (connection_key (dt_provider t) (the (dt_connection t)))
               (exhaustedConnections S)\<rparr>
      else S\<lparr>exhaustedProviders := insert (dt_provider t) (exhaustedProviders S)\<rparr>)"

definition isProviderQuotaExhausted :: "string \<Rightarrow> failure \<Rightarrow> bool \<Rightarrow> bool \<Rightarrow> bool" where
  "isProviderQuotaExhausted p f allAccountsRateLimited requestScoped \<longleftrightarrow>
     real_provider p
     \<and> \<not> (requestScoped \<or> isRequestScopedUpstreamFailure (f_error f))
     \<and> \<not> f_perModelQuota f
     \<and> (isProviderExhaustedReason (f_fallback f) \<or> f_quotaText f \<or> allAccountsRateLimited)"

definition markConnectionLevelExhaustion ::
    "dispatch_target \<Rightarrow> failure \<Rightarrow> bool \<Rightarrow> exhaustion_sets \<Rightarrow> exhaustion_sets" where
  "markConnectionLevelExhaustion t f requestScoped S =
     (if \<not> real_provider (dt_provider t)
         \<or> f_status f \<notin> set CONNECTION_LEVEL_ERROR_STATUSES
         \<or> isProviderCircuitOpenResult f
         \<or> requestScoped \<or> isRequestScopedUpstreamFailure (f_error f)
         \<or> isEmptyContentFailure f
         \<or> (f_status f = 500 \<and> f_perModelQuota f)
      then S else add_connection t S)"

definition markTransientOrConnectionLevel ::
    "dispatch_target \<Rightarrow> failure \<Rightarrow> bool \<Rightarrow> bool \<Rightarrow> exhaustion_sets \<Rightarrow> exhaustion_sets" where
  "markTransientOrConnectionLevel t f tokenLimit requestScoped S =
     markConnectionLevelExhaustion t f requestScoped
       (if f_status f = 429 \<and> \<not> tokenLimit \<and> real_provider (dt_provider t)
        then S\<lparr>transientRateLimitedProviders := insert (dt_provider t) (transientRateLimitedProviders S)\<rparr>
        else S)"

definition auth_failure :: "dispatch_target \<Rightarrow> failure \<Rightarrow> bool" where
  "auth_failure t f \<longleftrightarrow>
     f_status f \<in> set AUTH_LEVEL_ERROR_STATUSES
     \<and> \<not> (f_status f = 403 \<and> (fingerprint_token (f_error f) \<or> f_fingerprintText f))
     \<and> \<not> f_quotaOrCredits f
     \<and> real_provider (dt_provider t)"

text \<open>The result says whether the provider, or the connection for good, is exhausted.\<close>

definition applyComboTargetExhaustion ::
    "dispatch_target \<Rightarrow> failure \<Rightarrow> bool \<Rightarrow> bool \<Rightarrow> bool \<Rightarrow> exhaustion_sets \<Rightarrow> bool \<times> exhaustion_sets" where
  "applyComboTargetExhaustion t f tokenLimit allAccountsRateLimited requestScoped S =
     (if isAgentrouterConnectionQuotaScope (dt_provider t) f then (True, add_connection t S)
      else if auth_failure t f
      then (if f_status f = 403 \<and> f_alibabaFree f then (False, S) else (True, add_connection t S))
      else if isProviderQuotaExhausted (dt_provider t) f allAccountsRateLimited requestScoped
      then (True, S\<lparr>exhaustedProviders := insert (dt_provider t) (exhaustedProviders S)\<rparr>)
      else (False, markTransientOrConnectionLevel t f tokenLimit requestScoped S))"

definition shouldRecordProviderBreakerFailure ::
    "failure \<Rightarrow> bool \<Rightarrow> bool \<Rightarrow> bool \<Rightarrow> bool \<Rightarrow> bool \<Rightarrow> bool" where
  "shouldRecordProviderBreakerFailure f streamReadiness earlyEof sameProviderNext requestScoped proxyUnreachable \<longleftrightarrow>
     (\<not> streamReadiness \<or> earlyEof)
     \<and> \<not> f_overloadText f \<and> f_status f \<noteq> 529
     \<and> f_status f \<in> set PROVIDER_BREAKER_FAILURE_STATUSES
     \<and> (\<not> sameProviderNext \<or> proxyUnreachable)
     \<and> \<not> skipProviderBreaker (f_fallback f)
     \<and> \<not> requestScoped
     \<and> \<not> f_localError f"

section \<open>The exclusion of other targets\<close>

text \<open>What a failure says about the other targets, read off the documented policy.\<close>

datatype failure_scope = Target_only | Same_connection | Same_provider

definition connection_or_provider :: "dispatch_target \<Rightarrow> failure_scope" where
  "connection_or_provider t = (if truthy (dt_connection t) then Same_connection else Same_provider)"

definition connection_failure :: "dispatch_target \<Rightarrow> failure \<Rightarrow> bool \<Rightarrow> bool" where
  "connection_failure t f requestScoped \<longleftrightarrow>
     real_provider (dt_provider t) \<and> f_status f \<in> {408, 500, 502, 503, 504, 524}
     \<and> \<not> requestScoped \<and> \<not> isRequestScopedUpstreamFailure (f_error f)
     \<and> \<not> isProviderCircuitOpenResult f \<and> \<not> isEmptyContentFailure f
     \<and> (f_status f = 500 \<longrightarrow> \<not> f_perModelQuota f)"

definition failure_scope :: "dispatch_target \<Rightarrow> failure \<Rightarrow> bool \<Rightarrow> bool \<Rightarrow> failure_scope" where
  "failure_scope t f allAccountsRateLimited requestScoped =
     (if isAgentrouterConnectionQuotaScope (dt_provider t) f then connection_or_provider t
      else if auth_failure t f
      then (if f_status f = 403 \<and> f_alibabaFree f then Target_only else connection_or_provider t)
      else if isProviderQuotaExhausted (dt_provider t) f allAccountsRateLimited requestScoped then Same_provider
      else if connection_failure t f requestScoped then connection_or_provider t
      else Target_only)"

fun in_scope :: "failure_scope \<Rightarrow> dispatch_target \<Rightarrow> dispatch_target \<Rightarrow> bool" where
  "in_scope Target_only t u = False"
| "in_scope Same_connection t u = (dt_provider u = dt_provider t \<and> dt_connection u = dt_connection t)"
| "in_scope Same_provider t u = (dt_provider u = dt_provider t)"

lemma connection_key_eq:
  assumes "CHR '':'' \<notin> set p" and "CHR '':'' \<notin> set q"
  shows "connection_key p c = connection_key q d \<longleftrightarrow> p = q \<and> c = d"
proof -
  have "takeWhile (\<lambda>x. x \<noteq> CHR '':'') (connection_key r e) = r" if "CHR '':'' \<notin> set r" for r e
    using that by (induction r) (auto simp: connection_key_def)
  then have "connection_key p c = connection_key q d \<Longrightarrow> p = q" using assms by metis
  then show ?thesis by (auto simp: connection_key_def)
qed

lemma scope_named: "failure_scope t f al rs \<noteq> Target_only \<Longrightarrow> dt_provider t \<noteq> []"
  by (auto simp: failure_scope_def isAgentrouterConnectionQuotaScope_def honorsRuleLockScope_def auth_failure_def
      real_provider_def isProviderQuotaExhausted_def connection_failure_def split: if_splits)

lemma scope_connection: "failure_scope t f al rs = Same_connection \<Longrightarrow> truthy (dt_connection t)"
  by (auto simp: failure_scope_def connection_or_provider_def split: if_splits)

lemma mark_connection_level:
  "markConnectionLevelExhaustion t f rs S = (if connection_failure t f rs then add_connection t S else S)"
  by (auto simp: markConnectionLevelExhaustion_def connection_failure_def CONNECTION_LEVEL_ERROR_STATUSES_def)

lemma marked_sets:
  "exhaustedConnections (snd (applyComboTargetExhaustion t f tk al rs S)) =
     (if failure_scope t f al rs = Same_connection
      then insert (connection_key (dt_provider t) (the (dt_connection t))) (exhaustedConnections S)
      else exhaustedConnections S)"
  "exhaustedProviders (snd (applyComboTargetExhaustion t f tk al rs S)) =
     (if failure_scope t f al rs = Same_provider then insert (dt_provider t) (exhaustedProviders S)
      else exhaustedProviders S)"
  by (simp_all add: applyComboTargetExhaustion_def failure_scope_def markTransientOrConnectionLevel_def
      mark_connection_level connection_or_provider_def add_connection_def)

lemma skip_iff:
  "getExhaustedTargetSkipReason u S \<noteq> None \<longleftrightarrow> dt_provider u \<noteq> []
     \<and> (truthy (dt_connection u) \<and> connection_key (dt_provider u) (the (dt_connection u)) \<in> exhaustedConnections S
        \<or> dt_provider u \<in> exhaustedProviders S)"
  by (auto simp: getExhaustedTargetSkipReason_def)

text \<open>
  C99. A failed target takes exactly the right others with it, given provider ids without a colon. After a
  failure a target is skipped when it was skipped before or lies in the scope of the failure. That is the same
  connection, or the provider where the target names no connection, for an exhausted quota that a rule of
  agentrouter or of the operator scopes to connections, for rejected credentials (except the 403 of a used-up
  Alibaba free tier), and for errors of the connection itself; the same provider for any other exhausted
  quota of the provider; and nobody else for every other failure. Sibling connections and other providers
  stay eligible.
\<close>

theorem exhaustion_scope_exact:
  assumes "CHR '':'' \<notin> set (dt_provider t)" and "CHR '':'' \<notin> set (dt_provider u)"
    and "S' = snd (applyComboTargetExhaustion t f tokenLimit allRateLimited requestScoped S)"
  shows "getExhaustedTargetSkipReason u S' \<noteq> None
    \<longleftrightarrow> getExhaustedTargetSkipReason u S \<noteq> None
       \<or> in_scope (failure_scope t f allRateLimited requestScoped) t u"
proof (cases "failure_scope t f allRateLimited requestScoped")
  case Target_only
  then show ?thesis unfolding assms(3) skip_iff marked_sets by simp
next
  case Same_connection
  then have "truthy (dt_connection t)" and p: "dt_provider t \<noteq> []"
    using scope_connection scope_named [of t f allRateLimited requestScoped] by simp_all
  then obtain c where c: "dt_connection t = Some c" "c \<noteq> []" by (auto simp: truthy_def)
  have e: "dt_provider u = dt_provider t \<and> dt_connection u = dt_connection t \<longleftrightarrow>
      dt_provider u \<noteq> [] \<and> truthy (dt_connection u)
      \<and> connection_key (dt_provider u) (the (dt_connection u)) = connection_key (dt_provider t) c"
    unfolding connection_key_eq [OF assms(2,1)] using c p by (auto simp: truthy_def)
  then show ?thesis unfolding assms(3) skip_iff marked_sets Same_connection in_scope.simps e by (auto simp: c(1))
next
  case Same_provider
  then have "dt_provider t \<noteq> []" using scope_named [of t f allRateLimited requestScoped] by simp
  then show ?thesis using Same_provider unfolding assms(3) skip_iff marked_sets by auto
qed

definition plain_fallback :: fallback_result where
  "plain_fallback = \<lparr>shouldFallback = True, cooldownMs = 0, fr_reason = None, ruleScope = None, permanent = False,
     creditsExhausted = False, dailyQuotaExhausted = False, skipProviderBreaker = False\<rparr>"

definition plain_failure :: "int \<Rightarrow> failure" where
  "plain_failure status = \<lparr>f_status = status, f_error = \<lparr>se_code = None, se_type = None, se_message = None\<rparr>,
     f_fallback = plain_fallback, f_breakerHeader = None, f_circuitOpenText = False, f_emptyText = False,
     f_fingerprintText = False, f_quotaOrCredits = False, f_alibabaFree = False, f_quotaText = False,
     f_perModelQuota = False, f_operatorRule = False, f_overloadText = False, f_localError = False\<rparr>"

definition on_connection :: "string \<Rightarrow> dispatch_target" where
  "on_connection c = \<lparr>dt_key = c, dt_modelStr = ''m'', dt_provider = ''openai'', dt_connection = Some c,
     dt_fallbackOnly = False, dt_authType = None, dt_allowed = None\<rparr>"

theorem exhaustion_scope_exact_witness:
  "getExhaustedTargetSkipReason (on_connection ''c1'')
      (snd (applyComboTargetExhaustion (on_connection ''c1'') (plain_failure 401) False False False no_exhaustion)) \<noteq> None
   \<and> getExhaustedTargetSkipReason (on_connection ''c2'')
      (snd (applyComboTargetExhaustion (on_connection ''c1'') (plain_failure 401) False False False no_exhaustion)) = None"
proof -
  have colon: "CHR '':'' \<notin> set (dt_provider (on_connection c))" for c by (simp add: on_connection_def)
  note spec = exhaustion_scope_exact [OF colon colon refl, where f = "plain_failure 401"
      and tokenLimit = False and allRateLimited = False and requestScoped = False and S = no_exhaustion]
  have "failure_scope (on_connection ''c1'') (plain_failure 401) False False = Same_connection" by code_simp
  moreover have "getExhaustedTargetSkipReason u no_exhaustion = None" for u
    by (simp add: getExhaustedTargetSkipReason_def no_exhaustion_def)
  moreover have "in_scope Same_connection (on_connection ''c1'') (on_connection c) \<longleftrightarrow> c = ''c1''" for c
    by (simp add: on_connection_def)
  ultimately show ?thesis using spec [of "''c1''" "''c1''"] spec [of "''c2''" "''c1''"] by simp
qed

section \<open>The persisted cooldown of a connection\<close>

text \<open>
  The row of a connection, with its times parsed: \<open>None\<close> when there is none or it is not a date.
\<close>

record connection_row =
  rateLimitedUntil :: "time option"
  testStatus :: "string option"
  lastErrorAt :: "time option"

definition QUOTA_BLOCKING_CONNECTION_STATUSES :: "string list" where
  "QUOTA_BLOCKING_CONNECTION_STATUSES =
     [''banned'', ''credits_exhausted'', ''deactivated'', ''expired'', ''rate_limited'']"

definition UNAVAILABLE_LABEL_GRACE_MS :: int where
  "UNAVAILABLE_LABEL_GRACE_MS = 60 * 1000"

definition normalizeConnectionStatus :: "string option \<Rightarrow> string" where
  "normalizeConnectionStatus s = (case s of None \<Rightarrow> [] | Some x \<Rightarrow> toLowerCase (trim x))"

definition hasFutureRateLimitUntil :: "time \<Rightarrow> time option \<Rightarrow> bool" where
  "hasFutureRateLimitUntil now v = (case v of None \<Rightarrow> False | Some t \<Rightarrow> t > now)"

definition isWithinUnavailableGrace :: "time \<Rightarrow> time option \<Rightarrow> bool" where
  "isWithinUnavailableGrace now v = (case v of None \<Rightarrow> False | Some t \<Rightarrow> now - t < UNAVAILABLE_LABEL_GRACE_MS)"

definition getPersistedConnectionCooldownSkipReason ::
    "time \<Rightarrow> string option \<Rightarrow> connection_row option \<Rightarrow> bool \<Rightarrow> bool" where
  "getPersistedConnectionCooldownSkipReason now connectionId row allowRateLimited =
     (if allowRateLimited then False
      else case row of None \<Rightarrow> False
      | Some r \<Rightarrow>
          if \<not> truthy connectionId then False
          else if hasFutureRateLimitUntil now (rateLimitedUntil r) then True
          else let status = normalizeConnectionStatus (testStatus r)
               in status \<in> set QUOTA_BLOCKING_CONNECTION_STATUSES
                  \<or> status = ''unavailable'' \<and> isWithinUnavailableGrace now (lastErrorAt r))"

text \<open>
  C99. The label of a connection blocks it for a bounded time. A connection that is not in one of the five
  terminal states is dispatched again from the later of its cooldown's end and one minute after its last
  error, and blocked before its cooldown's end, whatever else the row says.
\<close>

theorem connection_label_expires:
  assumes "normalizeConnectionStatus (testStatus r) \<notin> set QUOTA_BLOCKING_CONNECTION_STATUSES"
  shows "((\<forall>t. rateLimitedUntil r = Some t \<longrightarrow> t \<le> now) \<and> (\<forall>t. lastErrorAt r = Some t \<longrightarrow> t + 60000 \<le> now)
      \<longrightarrow> \<not> getPersistedConnectionCooldownSkipReason now c (Some r) allow)
    \<and> (\<forall>u. rateLimitedUntil r = Some u \<and> now < u \<and> truthy c
      \<longrightarrow> getPersistedConnectionCooldownSkipReason now c (Some r) False)"
  using assms
  by (auto simp: getPersistedConnectionCooldownSkipReason_def hasFutureRateLimitUntil_def Let_def
      isWithinUnavailableGrace_def UNAVAILABLE_LABEL_GRACE_MS_def split: option.splits)

end
