(* ===== verification/ComboAttempt.thy ===== *)
theory ComboAttempt
  imports ComboExhaustion ComboDispatch JsValue
begin

text \<open>
  One pass over the targets of a combo: the gates before a target is dispatched (\<open>executeTargetGates.ts\<close>),
  the attempts on a target (\<open>executeTargetAttempt.ts\<close>, \<open>executeTargetClassify.ts\<close>) and the loop over the
  targets (\<open>comboAttemptLoop.ts\<close>), all under \<open>src/open-sse/services/combo\<close>. The loop waits for a target
  until the target has ended, the hedge timer has fired (when hedging is on, and there is a next target) or
  the safety timer has. What was first is an argument, the \<open>race\<close> of the target. When a timer is, the target
  is left running and the pass is from then on the interleaving of \<^verbatim>\<open>ComboLoop\<close>: the result here is
  \<open>Left_running\<close>, with the state the target was launched in.

  \<^item> \<open>attempt_state\<close> has the fields of \<open>AttemptLoopState\<close>; \<open>comboAttemptOrder\<close> holds the index of the target
    instead of its provider and model, and so is the list of the calls to upstreams. \<open>effects\<close> is the list
    of the calls into other components, latest first.
  \<^item> \<open>gate_env\<close> is what the gates of a target find when they ask the other components; \<open>attempt_env\<close> is what
    the attempt with a given number meets: whether the client is gone, the fresh row of the connection,
    the reply. In each an exception can take the place of the answers; nothing below the loop catches it, and
    the loop turns it into a 502 that ends the combo.
  \<^item> A \<open>reply\<close> carries the response as the code sees it: a \<open>failure\<close> when it is not ok, and booleans for what
    regular expressions find in its text. The code and type of a structured error are strings or absent.
  \<^item> The request body, its compression, handoffs between models, webhooks, events and logs are left out;
    none of them decides what is called next.
\<close>

section \<open>State\<close>

datatype effect = Combo_request nat bool | Model_lockout nat "string option" string int
  | Scoped_lockout nat "string option" | Provider_failure nat "string option"
  | Provider_cooldown nat "string option" | Provider_success nat "string option"
  | Model_recovery nat string | Clear_lkgp nat | Set_lkgp nat "string option" | Release_pin "string option"
  | Bind_sticky string | Combo_failure | Clear_failures | Slot_cooldown nat int

record attempt_state =
  fallbackCount :: nat
  recordedAttempts :: nat
  comboErrors :: "combo_error list"
  a_lastStatus :: "int option"
  a_retryAfter :: "time option"
  sets :: exhaustion_sets
  dispatchedTargets :: "string set"
  targetFailureTrust :: "(string \<times> bool \<times> bool) list"
  comboAttemptOrder :: "nat list"
  skippedForCircuitOpen :: bool
  earliestCircuitOpenRetryMs :: int
  globalAttempts :: nat
  observedFailure :: bool
  allObservedFailuresQuota :: bool
  effects :: "effect list"

definition new_attempt_state :: attempt_state where
  "new_attempt_state = \<lparr>fallbackCount = 0, recordedAttempts = 0, comboErrors = [], a_lastStatus = None,
     a_retryAfter = None, sets = no_exhaustion, dispatchedTargets = {}, targetFailureTrust = [],
     comboAttemptOrder = [], skippedForCircuitOpen = False, earliestCircuitOpenRetryMs = 0, globalAttempts = 0,
     observedFailure = False, allObservedFailuresQuota = True, effects = []\<rparr>"

definition trust_of :: "string \<Rightarrow> attempt_state \<Rightarrow> bool \<times> bool" where
  "trust_of key s = nullish (map_of (targetFailureTrust s) key) (False, True)"

definition observeFailure :: "bool \<Rightarrow> string \<Rightarrow> attempt_state \<Rightarrow> attempt_state" where
  "observeFailure quota key s =
     (let s1 = s\<lparr>observedFailure := True, allObservedFailuresQuota := (allObservedFailuresQuota s \<and> quota)\<rparr>
      in if key = [] then s1
         else s1\<lparr>targetFailureTrust :=
                map_set key (True, snd (trust_of key s) \<and> quota) (targetFailureTrust s)\<rparr>)"

definition emit :: "effect \<Rightarrow> attempt_state \<Rightarrow> attempt_state" where
  "emit e s = s\<lparr>effects := e # effects s\<rparr>"

definition bumpFallback :: "nat \<Rightarrow> attempt_state \<Rightarrow> attempt_state" where
  "bumpFallback i s = (if i > 0 then s\<lparr>fallbackCount := Suc (fallbackCount s)\<rparr> else s)"

definition record_failed :: "nat \<Rightarrow> attempt_state \<Rightarrow> attempt_state" where
  "record_failed i s = (emit (Combo_request i False) s)\<lparr>recordedAttempts := Suc (recordedAttempts s)\<rparr>"

definition push_error :: "int \<Rightarrow> outcome_kind \<Rightarrow> attempt_state \<Rightarrow> attempt_state" where
  "push_error status kind s =
     s\<lparr>comboErrors := comboErrors s @ [\<lparr>e_status = status, e_kind = kind\<rparr>], a_lastStatus := Some status\<rparr>"

text \<open>
  A target ends with no result, with the answer of an attempt, or with a response that ends the combo: an
  upstream response handed on, or one made here. \<open>Unexpected_error\<close> is the 502 for a target that has thrown.
\<close>

datatype fatal = Handed_on nat | Client_disconnected | Attempts_exceeded | Stopped_protected | Unexpected_error

datatype target_result = No_result | Good nat | Fatal fatal

text \<open>\<open>stopProtectedPriorityTarget\<close>.\<close>

definition stopProtectedPriorityTarget ::
    "bool \<Rightarrow> nat \<Rightarrow> dispatch_target \<Rightarrow> attempt_state \<Rightarrow> target_result \<times> attempt_state" where
  "stopProtectedPriorityTarget isProtected i t s =
     (if isProtected then Fatal Stopped_protected else No_result, emit (Clear_lkgp i) (observeFailure False (dt_key t) s))"

section \<open>Configuration\<close>

record attempt_config =
  c_priority :: bool
  c_auto :: bool
  c_maxRetries :: nat
  c_maxGlobalAttempts :: json
  c_predictive :: bool
  c_failoverExplicit :: bool
  c_fallbackDelayMs :: int
  c_session :: bool
  c_stickyHash :: bool
  c_cooldownEnabled :: bool
  c_lockoutEnabled :: bool
  c_lockoutCodes :: "int list"
  c_zeroLatency :: bool
  c_hedging :: bool

definition MAX_GLOBAL_ATTEMPTS :: nat where "MAX_GLOBAL_ATTEMPTS = 30"
definition MAX_GLOBAL_ATTEMPTS_HARD_CAP :: nat where "MAX_GLOBAL_ATTEMPTS_HARD_CAP = 200"
definition MAX_FALLBACK_WAIT_MS :: int where "MAX_FALLBACK_WAIT_MS = 5000"

definition clampGlobalAttempts :: "json \<Rightarrow> nat" where
  "clampGlobalAttempts v = (case js_number v of
       Num q \<Rightarrow> if \<lfloor>q\<rfloor> < 1 then MAX_GLOBAL_ATTEMPTS else min (nat \<lfloor>q\<rfloor>) MAX_GLOBAL_ATTEMPTS_HARD_CAP
     | _ \<Rightarrow> MAX_GLOBAL_ATTEMPTS)"

definition is_protected :: "attempt_config \<Rightarrow> dispatch_target \<Rightarrow> bool" where
  "is_protected cfg t \<longleftrightarrow> c_priority cfg \<and> dt_fallbackOnly t"

definition locks_out :: "attempt_config \<Rightarrow> int \<Rightarrow> bool" where
  "locks_out cfg status \<longleftrightarrow> c_lockoutEnabled cfg \<and> status \<in> set (c_lockoutCodes cfg)"

section \<open>Gates\<close>

record gate_env =
  ge_breakerOpen :: bool
  ge_breakerRetryMs :: int
  ge_connectionCooldown :: bool
  ge_providerCooldown :: bool
  ge_now :: time
  ge_row :: "connection_row option"
  ge_locked :: bool
  ge_cutoff :: bool
  ge_affordable :: bool
  ge_available :: bool
  ge_credential :: bool
  ge_full :: bool
  ge_admitted :: bool
  ge_throws :: bool

datatype gate_decision = Skip target_result | Proceed

definition allow_rate_limited :: "dispatch_target \<Rightarrow> attempt_state \<Rightarrow> bool" where
  "allow_rate_limited t s \<longleftrightarrow>
     real_provider (dt_provider t) \<and> dt_provider t \<in> transientRateLimitedProviders (sets s)"

definition note_circuit :: "gate_env \<Rightarrow> attempt_state \<Rightarrow> attempt_state" where
  "note_circuit ge s = s\<lparr>skippedForCircuitOpen := True,
     earliestCircuitOpenRetryMs :=
       (if ge_breakerRetryMs ge > 0
           \<and> (earliestCircuitOpenRetryMs s = 0 \<or> ge_breakerRetryMs ge < earliestCircuitOpenRetryMs s)
        then ge_breakerRetryMs ge else earliestCircuitOpenRetryMs s)\<rparr>"

text \<open>The skip of most gates: count the fallback, observe a failure, and stop a protected target.\<close>

definition skip_gate :: "attempt_config \<Rightarrow> nat \<Rightarrow> dispatch_target \<Rightarrow> attempt_state \<Rightarrow> gate_decision \<times> attempt_state" where
  "skip_gate cfg i t s =
     (case stopProtectedPriorityTarget (is_protected cfg t) i t (bumpFallback i s) of (r, s') \<Rightarrow> (Skip r, s'))"

definition silent_skip :: "nat \<Rightarrow> attempt_state \<Rightarrow> gate_decision \<times> attempt_state" where
  "silent_skip i s = (Skip No_result, bumpFallback i (emit (Clear_lkgp i) s))"

definition cutoff_gate :: "attempt_config \<Rightarrow> nat \<Rightarrow> dispatch_target \<Rightarrow> attempt_state \<Rightarrow> gate_decision \<times> attempt_state" where
  "cutoff_gate cfg i t s =
     (let s1 = observeFailure True (dt_key t) (bumpFallback i (emit (Clear_lkgp i) s))
      in (Skip (if is_protected cfg t \<and> trust_of (dt_key t) s1 \<noteq> (True, True) then Fatal Stopped_protected else No_result), s1))"

definition evaluateExecuteTargetGates ::
    "attempt_config \<Rightarrow> gate_env \<Rightarrow> nat \<Rightarrow> dispatch_target \<Rightarrow> attempt_state \<Rightarrow> gate_decision \<times> attempt_state" where
  "evaluateExecuteTargetGates cfg ge i t s =
     (let p = dt_provider t; conn = truthy (dt_connection t); allow = allow_rate_limited t s in
      if ge_breakerOpen ge then skip_gate cfg i t (note_circuit ge s)
      else if c_cooldownEnabled cfg \<and> real_provider p \<and> (ge_connectionCooldown ge \<or> ge_providerCooldown ge)
      then skip_gate cfg i t s
      else if conn \<and> \<not> allow
              \<and> getPersistedConnectionCooldownSkipReason (ge_now ge) (dt_connection t) (ge_row ge) allow
      then silent_skip i s
      else if getExhaustedTargetSkipReason t (sets s) \<noteq> None then skip_gate cfg i t s
      else if p \<noteq> [] \<and> dt_modelStr t \<noteq> [] \<and> ge_locked ge then skip_gate cfg i t s
      else if \<not> c_auto cfg \<and> p \<noteq> [] \<and> conn \<and> ge_cutoff ge then cutoff_gate cfg i t s
      else if p \<noteq> [] \<and> conn \<and> \<not> ge_affordable ge then silent_skip i s
      else if \<not> ge_available ge then skip_gate cfg i t (emit (Clear_lkgp i) s)
      else if conn \<and> \<not> ge_credential ge then skip_gate cfg i t s
      else if conn \<and> ge_full ge then skip_gate cfg i t s
      else if \<not> ge_admitted ge then (Skip No_result, bumpFallback i s)
      else (Proceed, s))"

section \<open>Replies\<close>

record reply =
  r_ok :: bool
  r_quality :: bool
  r_selected :: "string option"
  r_failure :: failure
  r_retryAfter :: "time option"
  r_text :: string
  r_overflow400 :: bool
  r_param400 :: bool
  r_modelScoped400 :: bool
  r_trustedLocal :: bool
  r_notFoundText :: bool
  r_authText :: bool
  r_quotaExhausted :: bool

datatype exception_at = Nowhere | Before_call | In_call

record attempt_env =
  ae_throws :: exception_at
  ae_aborted :: bool
  ae_slow :: bool
  ae_abortedInDelay :: bool
  ae_now :: time
  ae_row :: "connection_row option"
  ae_reply :: reply
  ae_locked :: bool
  ae_abortedInWait :: bool

definition has_code :: "string \<Rightarrow> failure \<Rightarrow> bool" where
  "has_code c f \<longleftrightarrow> se_code (f_error f) = Some c"

definition isStreamReadinessFailure :: "failure \<Rightarrow> bool" where
  "isStreamReadinessFailure f \<longleftrightarrow> (f_status f = 502 \<or> f_status f = 504)
     \<and> (has_code ''STREAM_READINESS_TIMEOUT'' f \<or> has_code ''STREAM_EARLY_EOF'' f)"

definition isStreamEarlyEof :: "failure \<Rightarrow> bool" where
  "isStreamEarlyEof f \<longleftrightarrow> (f_status f = 502 \<or> f_status f = 504) \<and> has_code ''STREAM_EARLY_EOF'' f"

definition isTokenLimitBreach :: "failure \<Rightarrow> bool" where
  "isTokenLimitBreach f \<longleftrightarrow> f_status f = 429 \<and> has_code ''TOKEN_LIMIT_EXCEEDED'' f"

text \<open>The code compares in upper case; on these names lower case is the same test.\<close>

definition isLocalQueueCapacityErrorBody :: "failure \<Rightarrow> bool" where
  "isLocalQueueCapacityErrorBody f \<longleftrightarrow>
     lower_or_empty (se_code (f_error f))
       \<in> {''rate_limit_queue_timeout'', ''rate_limit_queue_full'', ''rate_limit_queue_wedged''}
     \<or> lower_or_empty (se_type (f_error f)) = ''local_queue_capacity''"

definition isComboRequestScopedFailure :: "reply \<Rightarrow> bool" where
  "isComboRequestScopedFailure r \<longleftrightarrow> r_trustedLocal r \<or> isRequestScopedUpstreamFailure (f_error (r_failure r))
     \<or> (f_status (r_failure r) = 404 \<and> r_notFoundText r)"

definition shouldSurfaceBodySpecific400 :: "reply \<Rightarrow> bool" where
  "shouldSurfaceBodySpecific400 r \<longleftrightarrow>
     f_status (r_failure r) = 400 \<and> shouldFallback (f_fallback (r_failure r))
     \<and> \<not> r_overflow400 r \<and> \<not> r_param400 r \<and> \<not> r_modelScoped400 r
     \<and> list_ex (\<lambda>w. str_includes (toLowerCase (r_text r)) w)
         [''context'', ''prompt'', ''token'', ''malformed'', ''invalid'', ''bad request'']"

definition remainderIsHomogeneous :: "dispatch_target list \<Rightarrow> nat \<Rightarrow> string \<Rightarrow> bool" where
  "remainderIsHomogeneous targets i m = list_all (\<lambda>u. dt_modelStr u = m) (drop (Suc i) targets)"

definition shouldAbortOnInputBoundFailure :: "failure \<Rightarrow> bool \<Rightarrow> bool" where
  "shouldAbortOnInputBoundFailure f homogeneous \<longleftrightarrow> isInputBoundRequestFailure (f_error f) \<and> homogeneous"

definition classifyLockoutReason :: "int \<Rightarrow> string" where
  "classifyLockoutReason status =
     (if status = 429 then ''rate_limit'' else if status = 403 then ''quota_exhausted'' else ''unknown'')"

definition with_selected :: "dispatch_target \<Rightarrow> reply \<Rightarrow> dispatch_target" where
  "with_selected t r = (if truthy (r_selected r) then t\<lparr>dt_connection := r_selected r\<rparr> else t)"

definition note_retry_after :: "reply \<Rightarrow> attempt_state \<Rightarrow> attempt_state" where
  "note_retry_after r s = (case r_retryAfter r of None \<Rightarrow> s
     | Some x \<Rightarrow> if (case a_retryAfter s of None \<Rightarrow> True | Some y \<Rightarrow> x < y)
                then s\<lparr>a_retryAfter := Some x\<rparr> else s)"

section \<open>Attempts\<close>

datatype step = Done target_result | Retry

definition has_model :: "dispatch_target \<Rightarrow> bool" where
  "has_model t \<longleftrightarrow> dt_provider t \<noteq> [] \<and> dt_modelStr t \<noteq> []"

definition when_emit :: "bool \<Rightarrow> effect \<Rightarrow> attempt_state \<Rightarrow> attempt_state" where
  "when_emit b e s = (if b then emit e s else s)"

definition effective_connection :: "dispatch_target \<Rightarrow> reply \<Rightarrow> string" where
  "effective_connection t r =
     (if truthy (r_selected r) then the (r_selected r) else nullish (dt_connection t) [])"

definition on_good ::
    "attempt_config \<Rightarrow> nat \<Rightarrow> dispatch_target \<Rightarrow> nat \<Rightarrow> reply \<Rightarrow> attempt_state \<Rightarrow> step \<times> attempt_state" where
  "on_good cfg i t k r s =
     (let conn = effective_connection t r in
      if \<not> r_quality r
      then (Done (if is_protected cfg t then Fatal Stopped_protected else No_result),
            observeFailure False (dt_key t)
              (when_emit (has_model t \<and> locks_out cfg 502) (Model_lockout i (dt_connection t) ''quality_failure'' 502)
                (bumpFallback i (push_error 502 Quality
                  (record_failed i (emit (Release_pin (Some conn)) s))))))
      else (Done (Good k),
            when_emit (dt_provider t \<noteq> []) (Set_lkgp i (if conn = [] then None else Some conn))
              (when_emit (c_stickyHash cfg \<and> truthy (dt_connection t)) (Bind_sticky (nullish (dt_connection t) []))
                (when_emit (c_session cfg) Clear_failures
                  (when_emit (real_provider (dt_provider t)) (Provider_success i (if conn = [] then None else Some conn))
                    ((emit (Combo_request i True) (when_emit (has_model t) (Model_recovery i conn) s))
                      \<lparr>recordedAttempts := Suc (recordedAttempts s)\<rparr>))))))"

definition finish_error ::
    "attempt_config \<Rightarrow> nat \<Rightarrow> dispatch_target \<Rightarrow> string option \<Rightarrow> nat \<Rightarrow> attempt_env \<Rightarrow> attempt_state
      \<Rightarrow> step \<times> attempt_state" where
  "finish_error cfg i t conn k e s =
     (let r = ae_reply e; f = r_failure r; status = f_status f; scoped = isComboRequestScopedFailure r in
      if is_protected cfg t \<and> trust_of (dt_key t) s \<noteq> (True, True)
      then (Done (Fatal (Handed_on k)), record_failed i s)
      else let s1 = bumpFallback i (push_error status (classifyComboOutcome status (r_authText r))
                      (emit (Clear_lkgp i) (record_failed i s)));
               s2 = when_emit (has_model t \<and> \<not> scoped \<and> locks_out cfg status)
                      (Model_lockout i conn (classifyLockoutReason status) status) s1;
               s3 = when_emit (c_cooldownEnabled cfg \<and> real_provider (dt_provider t) \<and> \<not> scoped
                               \<and> \<not> ((status = 500 \<or> status = 429) \<and> f_perModelQuota f))
                      (Provider_cooldown i conn) s2;
               cool = cooldownMs (f_fallback f);
               waits = c_fallbackDelayMs cfg > 0 \<and> cool > 0 \<and> cool \<le> MAX_FALLBACK_WAIT_MS
           in (Done (if status \<in> {502, 503, 504} \<and> waits \<and> ae_abortedInWait e
                     then Fatal Client_disconnected else No_result), s3))"

definition isTransient :: "reply \<Rightarrow> bool" where
  "isTransient r \<longleftrightarrow> \<not> isStreamReadinessFailure (r_failure r) \<and> \<not> isTokenLimitBreach (r_failure r)
     \<and> \<not> isComboRequestScopedFailure r \<and> f_status (r_failure r) \<in> {408, 429, 500, 502, 503, 504}"

text \<open>What is known once the sets, the breaker and the trust of the target have been updated.\<close>

definition retry_or_finish ::
    "attempt_config \<Rightarrow> dispatch_target list \<Rightarrow> nat \<Rightarrow> dispatch_target \<Rightarrow> string option \<Rightarrow> bool \<Rightarrow> nat \<Rightarrow> attempt_env
      \<Rightarrow> nat \<Rightarrow> attempt_state \<Rightarrow> step \<times> attempt_state" where
  "retry_or_finish cfg targets i t conn providerExhausted k e retry s =
     (let r = ae_reply e; status = f_status (r_failure r); free = \<not> is_protected cfg t in
      if retry < c_maxRetries cfg \<and> isTransient r \<and> \<not> providerExhausted
         \<and> (\<not> c_failoverExplicit cfg \<or> Suc i \<ge> length targets)
      then (if free \<and> has_model t \<and> ae_locked e
            then (Done No_result, bumpFallback i (s\<lparr>a_lastStatus := Some status\<rparr>))
            else if free \<and> has_model t \<and> retry = 0 \<and> \<not> isComboRequestScopedFailure r \<and> locks_out cfg status
            then (Done No_result, bumpFallback i
                    ((emit (Model_lockout i conn (classifyLockoutReason status) status) s)\<lparr>a_lastStatus := Some status\<rparr>))
            else (Retry, s))
      else finish_error cfg i t conn k e s)"

definition on_upstream_error ::
    "attempt_config \<Rightarrow> dispatch_target list \<Rightarrow> nat \<Rightarrow> dispatch_target \<Rightarrow> nat \<Rightarrow> attempt_env \<Rightarrow> nat \<Rightarrow> attempt_state
      \<Rightarrow> step \<times> attempt_state" where
  "on_upstream_error cfg targets i t k e retry s =
     (let r = ae_reply e; f = r_failure r; status = f_status f; scoped = isComboRequestScopedFailure r;
          tc = with_selected t r; conn = dt_connection tc; p = dt_provider t;
          (providerExhausted, S) = applyComboTargetExhaustion tc f (isTokenLimitBreach f) False scoped (sets s);
          stale = providerExhausted
            \<or> (conn \<noteq> None \<and> connection_key p (the conn) \<in> exhaustedConnections S)
            \<or> (p \<noteq> [] \<and> p \<in> exhaustedProviders S);
          s1 = when_emit stale (Clear_lkgp i) (emit (Release_pin conn) (s\<lparr>sets := S\<rparr>))
      in if shouldSurfaceBodySpecific400 r
         then (Done (Fatal (Handed_on k)),
               emit (Clear_lkgp i) (bumpFallback i
                 (push_error status (classifyComboOutcome status (r_authText r)) (record_failed i s1))))
         else let s2 = when_emit (status = 400 \<and> r_modelScoped400 r \<and> has_model t) (Scoped_lockout i conn) s1;
                  next_same = Suc i < length targets \<and> dt_provider (targets ! Suc i) = p;
                  s3 = when_emit (shouldRecordProviderBreakerFailure f (isStreamReadinessFailure f)
                           (isStreamEarlyEof f) next_same scoped (has_code ''proxy_unreachable'' f))
                         (Provider_failure i conn) s2
              in retry_or_finish cfg targets i t conn providerExhausted k e retry
                   (observeFailure (r_quotaExhausted r) (dt_key t) s3))"

definition on_error ::
    "attempt_config \<Rightarrow> dispatch_target list \<Rightarrow> nat \<Rightarrow> dispatch_target \<Rightarrow> nat \<Rightarrow> attempt_env \<Rightarrow> nat \<Rightarrow> attempt_state
      \<Rightarrow> step \<times> attempt_state" where
  "on_error cfg targets i t k e retry s =
     (let r = ae_reply e; f = r_failure r; s0 = note_retry_after r s in
      if f_status f = 499 then (Done (Fatal (Handed_on k)), record_failed i s0)
      else if isLocalQueueCapacityErrorBody f
              \<or> shouldAbortOnInputBoundFailure f (remainderIsHomogeneous targets i (dt_modelStr t))
      then (Done (Fatal (Handed_on k)), bumpFallback i (record_failed i s0))
      else on_upstream_error cfg targets i t k e retry s0)"

text \<open>
  The retry loop. \<open>env k\<close> is what attempt number \<open>k\<close> of the request meets; \<open>n\<close> attempts on this target are
  left; \<open>allow\<close> was decided when the target was entered.
\<close>

primrec attempts ::
    "nat \<Rightarrow> attempt_config \<Rightarrow> dispatch_target list \<Rightarrow> (nat \<Rightarrow> attempt_env) \<Rightarrow> nat \<Rightarrow> dispatch_target \<Rightarrow> bool
      \<Rightarrow> attempt_state \<Rightarrow> target_result \<times> attempt_state" where
  "attempts 0 cfg targets env i t allow s = (No_result, s)"
| "attempts (Suc n) cfg targets env i t allow s =
     (let retry = c_maxRetries cfg - n; k = Suc (globalAttempts s); e = env k; s1 = s\<lparr>globalAttempts := k\<rparr> in
      if ae_aborted e then (Fatal Client_disconnected, s)
      else if k > clampGlobalAttempts (c_maxGlobalAttempts cfg) then (Fatal Attempts_exceeded, emit Combo_failure s1)
      else if c_predictive cfg \<and> retry = 0 \<and> ae_slow e
      then stopProtectedPriorityTarget (is_protected cfg t) i t s1
      else if retry > 0 \<and> ae_abortedInDelay e then (Fatal Client_disconnected, s1)
      else if retry > 0 \<and> getPersistedConnectionCooldownSkipReason (ae_now e) (dt_connection t) (ae_row e) allow
      then (No_result, bumpFallback i s1)
      else if ae_throws e = Before_call then (Fatal Unexpected_error, s1)
      else let s2 = s1\<lparr>comboAttemptOrder := comboAttemptOrder s @ [i],
                       dispatchedTargets := insert (dt_key t) (dispatchedTargets s)\<rparr>
           in if ae_throws e = In_call then (Fatal Unexpected_error, s2)
              else case (if r_ok (ae_reply e) then on_good cfg i t k (ae_reply e) s2
                         else on_error cfg targets i t k e retry s2) of
                     (Done r, s') \<Rightarrow> (r, s')
                   | (Retry, s') \<Rightarrow> attempts n cfg targets env i t allow s')"

definition executeTargetAttempt ::
    "attempt_config \<Rightarrow> dispatch_target list \<Rightarrow> (nat \<Rightarrow> attempt_env) \<Rightarrow> nat \<Rightarrow> attempt_state
      \<Rightarrow> target_result \<times> attempt_state" where
  "executeTargetAttempt cfg targets env i s =
     attempts (Suc (c_maxRetries cfg)) cfg targets env i (targets ! i) (allow_rate_limited (targets ! i) s) s"

section \<open>A pass\<close>

definition executeTarget ::
    "attempt_config \<Rightarrow> dispatch_target list \<Rightarrow> (nat \<Rightarrow> gate_env) \<Rightarrow> (nat \<Rightarrow> attempt_env) \<Rightarrow> nat \<Rightarrow> attempt_state
      \<Rightarrow> target_result \<times> attempt_state" where
  "executeTarget cfg targets genv env i s =
     (if ge_throws (genv i) then (Fatal Unexpected_error, s)
      else case evaluateExecuteTargetGates cfg (genv i) i (targets ! i) s of
             (Skip r, s') \<Rightarrow> (r, s')
           | (Proceed, s') \<Rightarrow> executeTargetAttempt cfg targets env i s')"

text \<open>
  The loop over the targets from index \<open>i\<close> on; \<open>race i\<close> says what the wait for target \<open>i\<close> ends with: the
  target is done (\<open>Late\<close>: and the combo's time is used up by then), or a timer fires first. The hedge timer is
  armed only under hedging and before a next target, and never when a target of the combo is protected.
  The result is the answer and the index of the target it came from.
\<close>

datatype race = In_time | Late | Hedge_timer | Safety_timer

datatype pass_result = Answer_from nat target_result | Out_of_time | All_failed | Left_running nat

definition hedges :: "attempt_config \<Rightarrow> dispatch_target list \<Rightarrow> bool" where
  "hedges cfg targets \<longleftrightarrow> c_zeroLatency cfg \<and> c_hedging cfg \<and> \<not> list_ex (is_protected cfg) targets"

definition left_running :: "attempt_config \<Rightarrow> dispatch_target list \<Rightarrow> race \<Rightarrow> nat \<Rightarrow> bool" where
  "left_running cfg targets x i \<longleftrightarrow>
     x = Safety_timer \<or> (x = Hedge_timer \<and> hedges cfg targets \<and> Suc i < length targets)"

primrec run_targets ::
    "nat \<Rightarrow> attempt_config \<Rightarrow> dispatch_target list \<Rightarrow> (nat \<Rightarrow> gate_env) \<Rightarrow> (nat \<Rightarrow> attempt_env) \<Rightarrow> (nat \<Rightarrow> race)
      \<Rightarrow> attempt_state \<Rightarrow> pass_result \<times> attempt_state" where
  "run_targets 0 cfg targets genv env race s = (All_failed, s)"
| "run_targets (Suc n) cfg targets genv env race s =
     (let i = length targets - Suc n in
      if left_running cfg targets (race i) i then (Left_running i, s)
      else case executeTarget cfg targets genv env i s of
             (No_result, s') \<Rightarrow> if race i = Late then (Out_of_time, s')
                                else run_targets n cfg targets genv env race s'
           | (r, s') \<Rightarrow> (Answer_from i r, s'))"

definition start_pass :: "attempt_state \<Rightarrow> attempt_state" where
  "start_pass s = s\<lparr>sets := no_exhaustion, skippedForCircuitOpen := False, earliestCircuitOpenRetryMs := 0,
     fallbackCount := 0, recordedAttempts := 0, comboErrors := [], dispatchedTargets := {}\<rparr>"

definition run_pass ::
    "attempt_config \<Rightarrow> dispatch_target list \<Rightarrow> (nat \<Rightarrow> gate_env) \<Rightarrow> (nat \<Rightarrow> attempt_env) \<Rightarrow> (nat \<Rightarrow> race)
      \<Rightarrow> attempt_state \<Rightarrow> pass_result \<times> attempt_state" where
  "run_pass cfg targets genv env race s =
     run_targets (length targets) cfg targets genv env race (start_pass s)"

section \<open>What the steps leave alone\<close>

named_theorems kept \<open>fields that a step of an attempt does not change\<close>

lemma kept_basic [kept]:
  "comboAttemptOrder (observeFailure q key s) = comboAttemptOrder s"
  "globalAttempts (observeFailure q key s) = globalAttempts s"
  "sets (observeFailure q key s) = sets s"
  "effects (observeFailure q key s) = effects s"
  "comboAttemptOrder (emit e s) = comboAttemptOrder s"
  "globalAttempts (emit e s) = globalAttempts s"
  "sets (emit e s) = sets s"
  "effects (emit e s) = e # effects s"
  "comboAttemptOrder (bumpFallback i s) = comboAttemptOrder s"
  "globalAttempts (bumpFallback i s) = globalAttempts s"
  "sets (bumpFallback i s) = sets s"
  "effects (bumpFallback i s) = effects s"
  "comboAttemptOrder (record_failed i s) = comboAttemptOrder s"
  "globalAttempts (record_failed i s) = globalAttempts s"
  "sets (record_failed i s) = sets s"
  "effects (record_failed i s) = Combo_request i False # effects s"
  "comboAttemptOrder (push_error st kd s) = comboAttemptOrder s"
  "globalAttempts (push_error st kd s) = globalAttempts s"
  "sets (push_error st kd s) = sets s"
  "effects (push_error st kd s) = effects s"
  "comboAttemptOrder (when_emit b e s) = comboAttemptOrder s"
  "globalAttempts (when_emit b e s) = globalAttempts s"
  "sets (when_emit b e s) = sets s"
  "effects (when_emit b e s) = (if b then e # effects s else effects s)"
  by (simp_all add: observeFailure_def Let_def emit_def bumpFallback_def record_failed_def push_error_def when_emit_def)

lemma kept_retry_after [kept]:
  "comboAttemptOrder (note_retry_after r s) = comboAttemptOrder s"
  "globalAttempts (note_retry_after r s) = globalAttempts s"
  "sets (note_retry_after r s) = sets s"
  "effects (note_retry_after r s) = effects s"
  by (auto simp: note_retry_after_def split: option.splits)

lemma kept_circuit [kept]:
  "comboAttemptOrder (note_circuit ge s) = comboAttemptOrder s"
  "globalAttempts (note_circuit ge s) = globalAttempts s"
  "sets (note_circuit ge s) = sets s"
  by (simp_all add: note_circuit_def)

lemma kept_trust [kept]:
  "trust_of key (emit e s) = trust_of key s"
  "trust_of key (bumpFallback i s) = trust_of key s"
  "trust_of key (record_failed i s) = trust_of key s"
  "trust_of key (push_error st kd s) = trust_of key s"
  "trust_of key (when_emit b e s) = trust_of key s"
  "trust_of key (s\<lparr>a_lastStatus := x\<rparr>) = trust_of key s"
  by (simp_all add: trust_of_def emit_def bumpFallback_def record_failed_def push_error_def when_emit_def)

text \<open>The sets of a pass only grow.\<close>

definition sets_le :: "exhaustion_sets \<Rightarrow> exhaustion_sets \<Rightarrow> bool" where
  "sets_le S S' \<longleftrightarrow> exhaustedProviders S \<subseteq> exhaustedProviders S' \<and> exhaustedConnections S \<subseteq> exhaustedConnections S'"

lemma sets_le_refl [simp]: "sets_le S S"
  by (simp add: sets_le_def)

lemma sets_le_trans: "sets_le S T \<Longrightarrow> sets_le T U \<Longrightarrow> sets_le S U"
  by (auto simp: sets_le_def)

lemma sets_le_apply: "applyComboTargetExhaustion t f tk al rs S = (b, S') \<Longrightarrow> sets_le S S'"
  using marked_sets [of t f tk al rs S] by (auto simp: sets_le_def)

lemma sets_le_skip:
  assumes "sets_le S S'" and "getExhaustedTargetSkipReason t S' = None"
  shows "getExhaustedTargetSkipReason t S = None"
proof (rule ccontr)
  assume "getExhaustedTargetSkipReason t S \<noteq> None"
  then have "getExhaustedTargetSkipReason t S' \<noteq> None" using assms(1) unfolding skip_iff sets_le_def by blast
  then show False using assms(2) by blast
qed

text \<open>A step after a reply: no call is made, no attempt is counted, and the sets grow.\<close>

definition quiet :: "attempt_state \<Rightarrow> attempt_state \<Rightarrow> bool" where
  "quiet s s' \<longleftrightarrow> comboAttemptOrder s' = comboAttemptOrder s \<and> globalAttempts s' = globalAttempts s
     \<and> sets_le (sets s) (sets s')"

lemma quiet_trans: "quiet s t \<Longrightarrow> quiet t u \<Longrightarrow> quiet s u"
  by (auto simp: quiet_def intro: sets_le_trans)

lemma quiet_finish: "quiet s (snd (finish_error cfg i t conn k e s))"
  by (simp add: finish_error_def Let_def quiet_def kept)

lemma quiet_retry: "quiet s (snd (retry_or_finish cfg targets i t conn pe k e retry s))"
  using quiet_finish [of s cfg i t conn k e] by (simp add: retry_or_finish_def Let_def quiet_def kept)

lemma quiet_upstream: "quiet s (snd (on_upstream_error cfg targets i t k e retry s))"
proof -
  obtain pe S where a: "applyComboTargetExhaustion (with_selected t (ae_reply e)) (r_failure (ae_reply e))
      (isTokenLimitBreach (r_failure (ae_reply e))) False (isComboRequestScopedFailure (ae_reply e)) (sets s) = (pe, S)"
    by fastforce
  show ?thesis
    using sets_le_apply [OF a]
    by (auto simp: on_upstream_error_def Let_def a intro!: quiet_trans [OF _ quiet_retry]) (simp_all add: quiet_def kept)
qed

lemma quiet_error: "quiet s (snd (on_error cfg targets i t k e retry s))"
proof -
  have "quiet s (note_retry_after (ae_reply e) s)" by (simp add: quiet_def kept)
  from quiet_trans [OF this quiet_upstream] show ?thesis
    by (auto simp: on_error_def Let_def quiet_def kept)
qed

lemma quiet_good: "quiet s (snd (on_good cfg i t k r s))"
  by (simp add: on_good_def Let_def quiet_def kept)

section \<open>The calls of a target and of a pass\<close>

text \<open>
  From \<open>s\<close> to \<open>s'\<close> the calls \<open>cs\<close> were made: each took an attempt, and none was made beyond the limit \<open>m\<close>.
\<close>

definition calls :: "nat \<Rightarrow> attempt_state \<Rightarrow> nat list \<Rightarrow> attempt_state \<Rightarrow> bool" where
  "calls m s cs s' \<longleftrightarrow> comboAttemptOrder s' = comboAttemptOrder s @ cs
     \<and> globalAttempts s + length cs \<le> globalAttempts s'
     \<and> (cs \<noteq> [] \<longrightarrow> globalAttempts s + length cs \<le> m)
     \<and> sets_le (sets s) (sets s')"

lemma calls_quiet: "quiet s s' \<Longrightarrow> calls m s [] s'"
  by (simp add: quiet_def calls_def)

lemma calls_append: "calls m s cs t \<Longrightarrow> calls m t ds u \<Longrightarrow> calls m s (cs @ ds) u"
  by (cases "ds = []") (auto simp: calls_def intro: sets_le_trans)

declare attempts.simps [simp del] run_targets.simps [simp del]

abbreviation limit_of :: "attempt_config \<Rightarrow> nat" where
  "limit_of cfg \<equiv> clampGlobalAttempts (c_maxGlobalAttempts cfg)"

lemma attempts_calls:
  "attempts n cfg targets env i t allow s = (r, s') \<Longrightarrow>
    \<exists>m\<le>n. calls (limit_of cfg) s (replicate m i) s' \<and> (\<forall>k. r = Good k \<longrightarrow> 0 < m)"
proof (induction n arbitrary: s)
  case 0
  then show ?case by (auto simp: calls_def attempts.simps)
next
  case (Suc n)
  define k where "k = Suc (globalAttempts s)"
  define e where "e = env k"
  define s1 where "s1 = s\<lparr>globalAttempts := k\<rparr>"
  define s2 where "s2 = s1\<lparr>comboAttemptOrder := comboAttemptOrder s @ [i],
      dispatchedTargets := insert (dt_key t) (dispatchedTargets s)\<rparr>"
  define retry where "retry = c_maxRetries cfg - n"
  let ?out = "if r_ok (ae_reply e) then on_good cfg i t k (ae_reply e) s2 else on_error cfg targets i t k e retry s2"
  note step = Suc.prems [unfolded attempts.simps Let_def, folded k_def retry_def, folded e_def s1_def, folded s2_def]
  consider (none) "calls (limit_of cfg) s [] s'" "\<forall>k. r \<noteq> Good k"
    | (thrown) "k \<le> limit_of cfg" "s' = s2" "\<forall>k. r \<noteq> Good k"
    | (call) out s3 where "k \<le> limit_of cfg" "?out = (out, s3)"
        "case out of Done r' \<Rightarrow> r = r' \<and> s' = s3 | Retry \<Rightarrow> attempts n cfg targets env i t allow s3 = (r, s')"
  proof -
    have q: "calls m s [] (emit x s1)" "calls m s [] s1" "calls m s [] (bumpFallback j s1)"
        "calls m s [] (emit x (observeFailure q key s1))" for m x j q key
      by (simp_all add: calls_def kept s1_def k_def)
    show ?thesis
      using step that q
      by (cases ?out)
        (auto simp: stopProtectedPriorityTarget_def calls_def not_less split: if_splits step.splits)
  qed
  then show ?case
  proof cases
    case none
    then show ?thesis by (intro exI [of _ 0]) auto
  next
    case thrown
    then have "calls (limit_of cfg) s [i] s'" by (simp add: calls_def s2_def s1_def k_def)
    then show ?thesis using thrown(3) by (intro exI [of _ 1]) simp
  next
    case (call out s3)
    have "quiet s2 s3" using call(2) quiet_good [of s2 cfg i t k "ae_reply e"]
        quiet_error [of s2 cfg targets i t k e retry] by (auto split: if_splits)
    then have one: "calls (limit_of cfg) s [i] s3"
      using call(1) by (simp add: quiet_def calls_def s2_def s1_def k_def)
    show ?thesis
    proof (cases out)
      case (Done r')
      then show ?thesis using call(3) one by (intro exI [of _ 1]) simp
    next
      case Retry
      then obtain m where "m \<le> n" "calls (limit_of cfg) s3 (replicate m i) s'"
        using Suc.IH call(3) by auto
      then show ?thesis
        using calls_append [OF one] by (intro exI [of _ "Suc m"]) simp
    qed
  qed
qed

lemma gates_quiet: "quiet s (snd (evaluateExecuteTargetGates cfg ge i t s))"
  by (simp add: evaluateExecuteTargetGates_def Let_def quiet_def skip_gate_def silent_skip_def cutoff_gate_def
      stopProtectedPriorityTarget_def kept)

lemma gates_result: "evaluateExecuteTargetGates cfg ge i t s = (Skip r, s') \<Longrightarrow> r = No_result \<or> r = Fatal Stopped_protected"
  by (auto simp: evaluateExecuteTargetGates_def Let_def skip_gate_def silent_skip_def cutoff_gate_def
      stopProtectedPriorityTarget_def split: if_splits prod.splits)

lemma gates_exhausted:
  "getExhaustedTargetSkipReason t (sets s) \<noteq> None \<Longrightarrow> evaluateExecuteTargetGates cfg ge i t s \<noteq> (Proceed, s')"
  by (simp add: evaluateExecuteTargetGates_def Let_def skip_gate_def silent_skip_def cutoff_gate_def
      stopProtectedPriorityTarget_def del: not_None_eq)

lemma executeTarget_calls:
  assumes "executeTarget cfg targets genv env i s = (r, s')"
  shows "\<exists>m\<le>Suc (c_maxRetries cfg). calls (limit_of cfg) s (replicate m i) s' \<and> (\<forall>k. r = Good k \<longrightarrow> 0 < m)
    \<and> (getExhaustedTargetSkipReason (targets ! i) (sets s) \<noteq> None \<longrightarrow> m = 0)"
proof (cases "ge_throws (genv i)")
  case True
  then show ?thesis using assms by (intro exI [of _ 0]) (auto simp: executeTarget_def calls_def)
next
  case False
  note asked = assms [unfolded executeTarget_def if_not_P [OF False]]
  obtain d s1 where Pair: "evaluateExecuteTargetGates cfg (genv i) i (targets ! i) s = (d, s1)" by fastforce
  have q: "quiet s s1" using gates_quiet [of s cfg "genv i" i "targets ! i"] Pair by simp
  show ?thesis
  proof (cases d)
    case (Skip x)
    then show ?thesis
      using asked Pair q gates_result [of cfg "genv i" i "targets ! i" s x s1]
      by (intro exI [of _ 0]) (auto simp: calls_quiet)
  next
    case Proceed
    then have "attempts (Suc (c_maxRetries cfg)) cfg targets env i (targets ! i)
        (allow_rate_limited (targets ! i) s1) s1 = (r, s')"
      using asked Pair by (simp add: executeTargetAttempt_def)
    from attempts_calls [OF this] obtain m where m: "m \<le> Suc (c_maxRetries cfg)"
        "calls (limit_of cfg) s1 (replicate m i) s'" "\<forall>k. r = Good k \<longrightarrow> 0 < m"
      by blast
    moreover have "calls (limit_of cfg) s (replicate m i) s'"
      using calls_append [OF calls_quiet [OF q] m(2)] by simp
    moreover have "getExhaustedTargetSkipReason (targets ! i) (sets s) = None"
      using gates_exhausted Pair Proceed by blast
    ultimately show ?thesis by auto
  qed
qed

lemma count_list_replicate: "count_list (replicate m i) j = (if i = j then m else 0)"
  by (induction m) auto

lemma sorted_replicate_append:
  "sorted cs \<Longrightarrow> \<forall>j\<in>set cs. (i::nat) \<le> j \<Longrightarrow> sorted (replicate m i @ cs)"
  by (auto simp: sorted_append)

lemma run_targets_calls:
  assumes "run_targets n cfg targets genv env race s = (r, s')" and "n \<le> length targets"
  shows "\<exists>cs. calls (limit_of cfg) s cs s' \<and> sorted cs
    \<and> (\<forall>j\<in>set cs. length targets - n \<le> j \<and> j < length targets
          \<and> getExhaustedTargetSkipReason (targets ! j) (sets s) = None)
    \<and> (\<forall>j. count_list cs j \<le> Suc (c_maxRetries cfg))
    \<and> (\<forall>i a. r = Answer_from i a \<longrightarrow> length targets - n \<le> i \<and> i < length targets \<and> a \<noteq> No_result
          \<and> (\<forall>j\<in>set cs. j \<le> i))
    \<and> (\<forall>i k. r = Answer_from i (Good k) \<longrightarrow> cs \<noteq> [] \<and> last cs = i)
    \<and> (\<forall>i. r = Left_running i \<longrightarrow> length targets - n \<le> i \<and> i < length targets
          \<and> left_running cfg targets (race i) i \<and> (\<forall>j\<in>set cs. j < i))"
  using assms
proof (induction n arbitrary: s)
  case 0
  then show ?case by (intro exI [of _ "[]"]) (auto simp: calls_def run_targets.simps)
next
  case (Suc n)
  define i where "i = length targets - Suc n"
  have i: "i < length targets" "length targets - n = Suc i" using Suc.prems(2) by (auto simp: i_def)
  obtain x s1 where x: "executeTarget cfg targets genv env i s = (x, s1)" by fastforce
  from executeTarget_calls [OF x] obtain m where m: "m \<le> Suc (c_maxRetries cfg)"
      "calls (limit_of cfg) s (replicate m i) s1" "\<forall>k. x = Good k \<longrightarrow> 0 < m"
      "getExhaustedTargetSkipReason (targets ! i) (sets s) \<noteq> None \<longrightarrow> m = 0"
    by blast
  have one: "\<exists>cs. calls (limit_of cfg) s cs s1 \<and> sorted cs
    \<and> (\<forall>j\<in>set cs. i \<le> j \<and> j < length targets \<and> getExhaustedTargetSkipReason (targets ! j) (sets s) = None)
    \<and> (\<forall>j. count_list cs j \<le> Suc (c_maxRetries cfg))
    \<and> (\<forall>j\<in>set cs. j \<le> i) \<and> (\<forall>k. x = Good k \<longrightarrow> cs \<noteq> [] \<and> last cs = i)"
    using m i by (intro exI [of _ "replicate m i"]) (auto simp: count_list_replicate)
  show ?case
  proof (cases "left_running cfg targets (race i) i \<or> x \<noteq> No_result \<or> race i = Late")
    case True
    then consider "s' = s" "r = Left_running i" "left_running cfg targets (race i) i"
      | "s' = s1" "r = Answer_from i x \<and> x \<noteq> No_result \<or> r = Out_of_time"
      using Suc.prems(1) x unfolding run_targets.simps Let_def i_def [symmetric]
      by (auto split: target_result.splits if_splits)
    then show ?thesis
    proof cases
      case 1
      then show ?thesis using i(1) by (intro exI [of _ "[]"]) (simp add: calls_def i_def)
    next
      case 2
      then show ?thesis using one i(1) unfolding i_def [symmetric] by auto
    qed
  next
    case False
    then have run: "run_targets n cfg targets genv env race s1 = (r, s')"
      using Suc.prems(1) x unfolding run_targets.simps Let_def i_def [symmetric] by simp
    from Suc.IH [OF run Suc_leD [OF Suc.prems(2)]] obtain cs where cs: "calls (limit_of cfg) s1 cs s'" "sorted cs"
        "\<forall>j\<in>set cs. Suc i \<le> j \<and> j < length targets \<and> getExhaustedTargetSkipReason (targets ! j) (sets s1) = None"
        "\<forall>j. count_list cs j \<le> Suc (c_maxRetries cfg)"
        "\<forall>j a. r = Answer_from j a \<longrightarrow> Suc i \<le> j \<and> j < length targets \<and> a \<noteq> No_result \<and> (\<forall>j'\<in>set cs. j' \<le> j)"
        "\<forall>i k. r = Answer_from i (Good k) \<longrightarrow> cs \<noteq> [] \<and> last cs = i"
        "\<forall>j. r = Left_running j \<longrightarrow> Suc i \<le> j \<and> j < length targets
          \<and> left_running cfg targets (race j) j \<and> (\<forall>j'\<in>set cs. j' < j)"
      unfolding i(2) by (elim exE conjE) (rule that; assumption)
    have skip: "getExhaustedTargetSkipReason (targets ! j) (sets s) = None"
      if "getExhaustedTargetSkipReason (targets ! j) (sets s1) = None" for j
      using sets_le_skip m(2) that unfolding calls_def by blast
    have "i \<notin> set cs" using cs(3) by auto
    then have "count_list (replicate m i @ cs) j \<le> Suc (c_maxRetries cfg)" for j
      using cs(4) [rule_format, of j] m(1)
      by (cases "i = j") (simp_all add: count_list_append count_list_replicate count_notin)
    moreover have "sorted (replicate m i @ cs)" using cs(2,3) by (intro sorted_replicate_append) auto
    ultimately show ?thesis
      using calls_append [OF m(2) cs(1)] cs(3,5,6,7) m(4) i(1) skip unfolding i_def [symmetric]
      by (intro exI [of _ "replicate m i @ cs"]) (auto simp del: not_None_eq)
  qed
qed

section \<open>Fallback order and attempts\<close>

text \<open>
  C99. Fallback goes down the list and ends at the first answer. As long as the loop waits for every target
  it launches, the upstream calls of a pass go to the targets in their order, each at most maxRetries + 1
  times; when a target ends the pass, no later one has been called; and when it ends it with a good answer,
  the last call was its own. The loop leaves a target running only when the safety timer has fired, or when
  the hedge timer has, zero-latency hedging is on, a next target exists and, in a priority combo, no target
  is protected; the claim then covers the calls of the targets before the one left running.
\<close>

theorem fallback_order:
  assumes "run_pass cfg targets genv env race s = (r, s')"
  shows "\<exists>cs. comboAttemptOrder s' = comboAttemptOrder s @ cs \<and> sorted cs
    \<and> (\<forall>j\<in>set cs. j < length targets) \<and> (\<forall>j. count_list cs j \<le> Suc (c_maxRetries cfg))
    \<and> (\<forall>i a. r = Answer_from i a \<longrightarrow> (\<forall>j\<in>set cs. j \<le> i))
    \<and> (\<forall>i k. r = Answer_from i (Good k) \<longrightarrow> cs \<noteq> [] \<and> last cs = i)
    \<and> (\<forall>i. r = Left_running i \<longrightarrow> (\<forall>j\<in>set cs. j < i) \<and> i < length targets
          \<and> (race i = Safety_timer
              \<or> race i = Hedge_timer \<and> c_zeroLatency cfg \<and> c_hedging cfg \<and> Suc i < length targets
                \<and> (\<forall>t\<in>set targets. \<not> is_protected cfg t)))"
proof -
  have "comboAttemptOrder (start_pass s) = comboAttemptOrder s" by (simp add: start_pass_def)
  then show ?thesis
    using run_targets_calls [OF assms [unfolded run_pass_def] order.refl]
    unfolding calls_def left_running_def hedges_def list_ex_iff by (elim exE) (rule exI, auto)
qed

text \<open>
  C99. A target that was excluded is not called. From any point of a pass on, a target that the exhaustion
  sets of that point exclude, because of its connection or its provider, gets no call in the rest of the
  pass.
\<close>

theorem excluded_targets_not_called:
  assumes "run_targets n cfg targets genv env race s = (r, s')" and "n \<le> length targets"
    and "getExhaustedTargetSkipReason (targets ! j) (sets s) \<noteq> None"
  shows "j \<notin> set (drop (length (comboAttemptOrder s)) (comboAttemptOrder s'))"
  using run_targets_calls [OF assms(1,2)] assms(3) unfolding calls_def by (auto simp del: not_None_eq)

text \<open>The passes of a request, with what happens to each, as a machine whose invariant counts the calls.\<close>

type_synonym pass_env = "(nat \<Rightarrow> gate_env) \<times> (nat \<Rightarrow> race)"

definition next_pass ::
    "attempt_config \<Rightarrow> dispatch_target list \<Rightarrow> (nat \<Rightarrow> attempt_env) \<Rightarrow> attempt_state \<Rightarrow> pass_env \<Rightarrow> attempt_state" where
  "next_pass cfg targets env s p = snd (run_pass cfg targets (fst p) env (snd p) s)"

definition within_limit :: "attempt_config \<Rightarrow> attempt_state \<Rightarrow> bool" where
  "within_limit cfg s \<longleftrightarrow> length (comboAttemptOrder s) \<le> min (globalAttempts s) (limit_of cfg)"

lemma within_limit_calls: "calls (limit_of cfg) s cs s' \<Longrightarrow> within_limit cfg s \<Longrightarrow> within_limit cfg s'"
  by (cases "cs = []") (auto simp: calls_def within_limit_def)

interpretation passes: machine "next_pass cfg targets env" "within_limit cfg" for cfg targets env
proof
  fix s p
  assume "within_limit cfg s"
  then have "within_limit cfg (start_pass s)" by (simp add: within_limit_def start_pass_def)
  then show "within_limit cfg (next_pass cfg targets env s p)"
    using run_targets_calls [OF surjective_pairing order.refl] within_limit_calls
    unfolding next_pass_def run_pass_def by blast
qed

text \<open>
  C99. A request cannot run away. However many passes over its targets a request makes, whatever fails and
  whoever retries, the number of its upstream calls stays within the attempts configured for it, clamped to
  the range from 1 to 200.
\<close>

theorem upstream_calls_bounded:
  "length (comboAttemptOrder (foldl (next_pass cfg targets env) new_attempt_state ps))
      \<le> clampGlobalAttempts (c_maxGlobalAttempts cfg)
    \<and> clampGlobalAttempts (c_maxGlobalAttempts cfg) \<in> {1..200}"
proof
  have "within_limit cfg new_attempt_state" by (simp add: within_limit_def new_attempt_state_def)
  then show "length (comboAttemptOrder (foldl (next_pass cfg targets env) new_attempt_state ps))
      \<le> clampGlobalAttempts (c_maxGlobalAttempts cfg)"
    using passes.run_inv [of cfg new_attempt_state targets env ps] by (simp add: within_limit_def)
  show "clampGlobalAttempts (c_maxGlobalAttempts cfg) \<in> {1..200}"
    by (auto simp: clampGlobalAttempts_def MAX_GLOBAL_ATTEMPTS_def MAX_GLOBAL_ATTEMPTS_HARD_CAP_def not_less
        le_nat_iff split: jsval.splits)
qed

section \<open>What a failure does to the other components\<close>

text \<open>The calls that make other requests avoid a model, a connection or a provider.\<close>

fun penalises :: "effect \<Rightarrow> bool" where
  "penalises (Model_lockout i c r st) = True"
| "penalises (Scoped_lockout i c) = True"
| "penalises (Provider_failure i c) = True"
| "penalises (Provider_cooldown i c) = True"
| "penalises _ = False"

lemma scoped_marks_nothing:
  assumes "applyComboTargetExhaustion t f tk False True S = (b, S')"
    and "\<not> isAgentrouterConnectionQuotaScope (dt_provider t) f" and "f_status f \<notin> {401, 403}"
  shows "exhaustedProviders S' = exhaustedProviders S \<and> exhaustedConnections S' = exhaustedConnections S"
proof -
  have "failure_scope t f False True = Target_only"
    using assms(2,3) by (auto simp: failure_scope_def auth_failure_def AUTH_LEVEL_ERROR_STATUSES_def
        isProviderQuotaExhausted_def connection_failure_def)
  then show ?thesis using marked_sets [of t f tk False True S] assms(1) by simp
qed

lemma scoped_finish:
  assumes "isComboRequestScopedFailure (ae_reply e)"
  shows "filter penalises (effects (snd (finish_error cfg i t conn k e s))) = filter penalises (effects s)"
  using assms by (simp add: finish_error_def Let_def kept)

lemma scoped_retry:
  assumes "isComboRequestScopedFailure (ae_reply e)"
  shows "filter penalises (effects (snd (retry_or_finish cfg targets i t conn pe k e retry s))) = filter penalises (effects s)"
  using scoped_finish [OF assms] assms by (simp add: retry_or_finish_def Let_def isTransient_def)

lemma sets_retry: "sets (snd (retry_or_finish cfg targets i t conn pe k e retry s)) = sets s"
  by (simp add: retry_or_finish_def finish_error_def Let_def kept)

lemma scoped_upstream:
  assumes "isComboRequestScopedFailure (ae_reply e)"
    and "f_status (r_failure (ae_reply e)) = 400 \<longrightarrow> \<not> r_modelScoped400 (ae_reply e)"
    and "applyComboTargetExhaustion (with_selected t (ae_reply e)) (r_failure (ae_reply e))
      (isTokenLimitBreach (r_failure (ae_reply e))) False True (sets s) = (b, S)"
  shows "filter penalises (effects (snd (on_upstream_error cfg targets i t k e retry s))) = filter penalises (effects s)
    \<and> sets (snd (on_upstream_error cfg targets i t k e retry s)) = S"
  using assms(1,3)
  by (cases "f_status (r_failure (ae_reply e)) = 400"; use assms(2) in
      \<open>simp add: on_upstream_error_def Let_def kept shouldRecordProviderBreakerFailure_def sets_retry scoped_retry\<close>)

text \<open>
  C99. The client's own mistake costs nobody else. When the failure of a target is the fault of the request
  (too long a context, a resource that does not exist, a limit of this gateway), no model is locked, no
  failure or cooldown of the provider is recorded, and no other target is excluded from this request. Not
  covered are the statuses 401 and 403, an account-wide quota rule, and a 400 that denies access to the model.
\<close>

theorem request_faults_are_harmless:
  assumes "isComboRequestScopedFailure (ae_reply e)"
    and "\<not> isAgentrouterConnectionQuotaScope (dt_provider t) (r_failure (ae_reply e))"
    and "f_status (r_failure (ae_reply e)) \<notin> {401, 403}"
    and "f_status (r_failure (ae_reply e)) = 400 \<longrightarrow> \<not> r_modelScoped400 (ae_reply e)"
    and "s' = snd (on_error cfg targets i t k e retry s)"
  shows "filter penalises (effects s') = filter penalises (effects s)
    \<and> exhaustedProviders (sets s') = exhaustedProviders (sets s)
    \<and> exhaustedConnections (sets s') = exhaustedConnections (sets s)"
proof -
  let ?r = "ae_reply e" and ?tc = "with_selected t (ae_reply e)"
  obtain b S where a: "applyComboTargetExhaustion ?tc (r_failure ?r) (isTokenLimitBreach (r_failure ?r)) False True
      (sets s) = (b, S)" by fastforce
  have "dt_provider ?tc = dt_provider t" by (simp add: with_selected_def)
  then have S: "exhaustedProviders S = exhaustedProviders (sets s)" "exhaustedConnections S = exhaustedConnections (sets s)"
    using scoped_marks_nothing [OF a] assms(2,3) by simp_all
  have u: "filter penalises (effects (snd (on_upstream_error cfg targets i t k e retry s0))) = filter penalises (effects s0)
      \<and> sets (snd (on_upstream_error cfg targets i t k e retry s0)) = S" if "sets s0 = sets s" for s0
    by (rule scoped_upstream [OF assms(1,4)]) (simp add: that a)
  show ?thesis using S u [of "note_retry_after ?r s"] unfolding assms(5) by (simp add: on_error_def Let_def kept)
qed

section \<open>Fallback only when the quota is exhausted\<close>

lemma protected_finish:
  "is_protected cfg t \<Longrightarrow> finish_error cfg i t conn k e s = (Done No_result, s') \<Longrightarrow> trust_of (dt_key t) s' = (True, True)"
  by (auto simp: finish_error_def Let_def kept split: if_splits)

lemma protected_retry:
  "is_protected cfg t \<Longrightarrow> retry_or_finish cfg targets i t conn pe k e retry s = (Done No_result, s') \<Longrightarrow>
    trust_of (dt_key t) s' = (True, True)"
  by (auto simp: retry_or_finish_def Let_def dest: protected_finish split: if_splits)

lemma protected_error:
  "is_protected cfg t \<Longrightarrow> on_error cfg targets i t k e retry s = (Done No_result, s') \<Longrightarrow>
    trust_of (dt_key t) s' = (True, True)"
  by (auto simp: on_error_def on_upstream_error_def Let_def dest: protected_retry split: if_splits prod.splits)

lemma protected_good: "is_protected cfg t \<Longrightarrow> on_good cfg i t k r s \<noteq> (Done No_result, s')"
  by (simp add: on_good_def Let_def)

lemma retries_left: "retry_or_finish cfg targets i t conn pe k e retry s = (Retry, s') \<Longrightarrow> retry < c_maxRetries cfg"
  by (auto simp: retry_or_finish_def finish_error_def Let_def split: if_splits)

lemma error_retries_left: "on_error cfg targets i t k e retry s = (Retry, s') \<Longrightarrow> retry < c_maxRetries cfg"
  by (auto simp: on_error_def on_upstream_error_def Let_def dest: retries_left split: if_splits prod.splits)

lemma no_retry_at_limit: "c_maxRetries cfg \<le> retry \<Longrightarrow> on_error cfg targets i t k e retry s \<noteq> (Retry, s')"
  using error_retries_left leD by blast

lemma good_no_retry: "on_good cfg i t k r s \<noteq> (Retry, s')"
  by (simp add: on_good_def Let_def)

text \<open>
  Nothing that skips a target without looking at its protection happens to it: no row of its connection that
  is read holds a cooldown, a blocking state or a fresh error label.
\<close>

definition no_silent_skip :: "dispatch_target \<Rightarrow> gate_env \<Rightarrow> (nat \<Rightarrow> attempt_env) \<Rightarrow> bool" where
  "no_silent_skip t ge env \<longleftrightarrow>
     \<not> getPersistedConnectionCooldownSkipReason (ge_now ge) (dt_connection t) (ge_row ge) False
     \<and> ge_affordable ge \<and> ge_admitted ge
     \<and> (\<forall>k. \<not> getPersistedConnectionCooldownSkipReason (ae_now (env k)) (dt_connection t) (ae_row (env k)) False)"

lemma no_skip_reason:
  "\<not> getPersistedConnectionCooldownSkipReason now c row False \<Longrightarrow>
    \<not> getPersistedConnectionCooldownSkipReason now c row allow"
  by (cases allow) (simp_all add: getPersistedConnectionCooldownSkipReason_def)

lemma protected_attempts:
  assumes "is_protected cfg t"
    and "\<forall>k. \<not> getPersistedConnectionCooldownSkipReason (ae_now (env k)) (dt_connection t) (ae_row (env k)) allow"
  shows "attempts (Suc n) cfg targets env i t allow s = (No_result, s') \<Longrightarrow> trust_of (dt_key t) s' = (True, True)"
proof (induction n arbitrary: s)
  case (0 s)
  then show ?case
    using assms
    by (auto simp: attempts.simps Let_def stopProtectedPriorityTarget_def protected_good protected_error
        good_no_retry no_retry_at_limit split: if_splits prod.splits step.splits)
next
  case (Suc n)
  show ?case
    using Suc.prems Suc.IH assms
    by (subst (asm) attempts.simps)
      (auto simp: Let_def stopProtectedPriorityTarget_def protected_good protected_error good_no_retry
        split: if_splits prod.splits step.splits)
qed

text \<open>
  C99. A protected target gives way to the next one only when its quota is exhausted. In a priority combo,
  when a target marked with \<open>fallbackOnlyOnQuotaExhaustion\<close> ends without an answer and the pass goes on,
  failures of it were observed and every one of them was classified as quota exhaustion; provided no row of
  its connection that the pass reads blocks it (a cooldown still running, a blocking state or an unavailable
  label less than a minute old) and neither the quota budget nor its admission lane refuses it.
\<close>

theorem protected_falls_back_on_quota_only:
  assumes "is_protected cfg (targets ! i)" and "no_silent_skip (targets ! i) (genv i) env"
    and "executeTarget cfg targets genv env i s = (No_result, s')"
  shows "trust_of (dt_key (targets ! i)) s' = (True, True)"
proof (cases "evaluateExecuteTargetGates cfg (genv i) i (targets ! i) s")
  case (Pair d s1)
  show ?thesis
  proof (cases d)
    case (Skip x)
    then have "evaluateExecuteTargetGates cfg (genv i) i (targets ! i) s = (Skip No_result, s')"
      using assms(3) Pair by (simp add: executeTarget_def split: if_splits)
    then show ?thesis
      using assms(1,2)
      by (auto simp: evaluateExecuteTargetGates_def Let_def skip_gate_def silent_skip_def cutoff_gate_def
          no_silent_skip_def stopProtectedPriorityTarget_def dest: no_skip_reason split: if_splits)
  next
    case Proceed
    then show ?thesis
      using assms Pair protected_attempts [OF assms(1), of env _ "c_maxRetries cfg"]
      by (auto simp: executeTarget_def executeTargetAttempt_def no_silent_skip_def no_skip_reason split: if_splits)
  qed
qed

section \<open>Examples\<close>

definition demo_config :: attempt_config where
  "demo_config = \<lparr>c_priority = True, c_auto = False, c_maxRetries = 1, c_maxGlobalAttempts = JUndef,
     c_predictive = False, c_failoverExplicit = False, c_fallbackDelayMs = 0, c_session = True, c_stickyHash = False,
     c_cooldownEnabled = True, c_lockoutEnabled = False, c_lockoutCodes = [],
     c_zeroLatency = False, c_hedging = False\<rparr>"

definition open_gate :: gate_env where
  "open_gate = \<lparr>ge_breakerOpen = False, ge_breakerRetryMs = 0, ge_connectionCooldown = False,
     ge_providerCooldown = False, ge_now = 0, ge_row = None, ge_locked = False, ge_cutoff = False,
     ge_affordable = True, ge_available = True, ge_credential = True, ge_full = False, ge_admitted = True, ge_throws = False\<rparr>"

definition demo_reply :: "int \<Rightarrow> reply" where
  "demo_reply status = \<lparr>r_ok = status = 200, r_quality = True, r_selected = None, r_failure = plain_failure status,
     r_retryAfter = None, r_text = [], r_overflow400 = False, r_param400 = False, r_modelScoped400 = False,
     r_trustedLocal = False, r_notFoundText = False, r_authText = False, r_quotaExhausted = False\<rparr>"

definition meets :: "reply \<Rightarrow> connection_row option \<Rightarrow> attempt_env" where
  "meets r row = \<lparr>ae_throws = Nowhere, ae_aborted = False, ae_slow = False, ae_abortedInDelay = False, ae_now = 0, ae_row = row,
     ae_reply = r, ae_locked = False, ae_abortedInWait = False\<rparr>"

definition demo_targets :: "dispatch_target list" where
  "demo_targets = [(on_connection ''c1'')\<lparr>dt_fallbackOnly := True\<rparr>, on_connection ''c2'']"

text \<open>The first target answers 503 with its quota left; then, while the retry waits, its connection is put on cooldown.\<close>

definition cooled_during_retry :: "nat \<Rightarrow> attempt_env" where
  "cooled_during_retry k =
     (if k = 1 then meets (demo_reply 503) None
      else if k = 2 then meets (demo_reply 503)
        (Some \<lparr>rateLimitedUntil = Some 1000, testStatus = Some ''unavailable'', lastErrorAt = None\<rparr>)
      else meets (demo_reply 200) None)"

definition demo_pass :: "(nat \<Rightarrow> attempt_env) \<Rightarrow> pass_result \<times> attempt_state" where
  "demo_pass env = run_pass demo_config demo_targets (\<lambda>_. open_gate) env (\<lambda>_. In_time) new_attempt_state"

theorem fallback_order_witness:
  "\<exists>cs. comboAttemptOrder (snd (demo_pass cooled_during_retry)) = cs \<and> sorted cs \<and> last cs = 1"
proof -
  have "demo_pass cooled_during_retry = (Answer_from 1 (Good 3), snd (demo_pass cooled_during_retry))" by code_simp
  from fallback_order [OF this [unfolded demo_pass_def [of cooled_during_retry]]] show ?thesis
    by (auto simp: demo_pass_def new_attempt_state_def)
qed

text \<open>
  C99. The retry path forgets the protection of a target. A target that may only fall back on quota
  exhaustion answers 503, which is not, and is to be retried. When its connection is put on a cooldown
  during the delay of the retry, the pass goes on to the next target, although the only failure observed
  was no quota exhaustion.
\<close>

theorem protection_lost_in_retry:
  "is_protected demo_config (demo_targets ! 0)
   \<and> fst (demo_pass cooled_during_retry) = Answer_from 1 (Good 3)
   \<and> trust_of (dt_key (demo_targets ! 0)) (snd (demo_pass cooled_during_retry)) = (True, False)"
  by code_simp

definition one_401 :: "nat \<Rightarrow> attempt_env" where
  "one_401 k = (if k = 1 then meets (demo_reply 401) None else meets (demo_reply 200) None)"

definition twins :: "dispatch_target list" where
  "twins = [on_connection ''c1'', (on_connection ''c1'')\<lparr>dt_modelStr := ''n''\<rparr>, on_connection ''c2'']"

definition after_401 :: "target_result \<times> attempt_state" where
  "after_401 = executeTarget demo_config twins (\<lambda>_. open_gate) one_401 0 (start_pass new_attempt_state)"

theorem excluded_targets_not_called_witness:
  "1 \<notin> set (drop 1 (comboAttemptOrder (snd (run_targets 2 demo_config twins (\<lambda>_. open_gate) one_401 (\<lambda>_. In_time)
       (snd after_401)))))"
proof -
  have "getExhaustedTargetSkipReason (twins ! 1) (sets (snd after_401)) \<noteq> None" by code_simp
  moreover have "length (comboAttemptOrder (snd after_401)) = 1" by code_simp
  ultimately show ?thesis
    using excluded_targets_not_called [OF surjective_pairing, of 2 twins 1 "snd after_401"] by (simp add: twins_def)
qed

definition too_long :: reply where
  "too_long = (demo_reply 400)\<lparr>r_failure := (plain_failure 400)\<lparr>f_error :=
     \<lparr>se_code = Some ''context_length_exceeded'', se_type = None, se_message = None\<rparr>\<rparr>\<rparr>"

theorem request_faults_are_harmless_witness:
  "filter penalises (effects (snd (on_error demo_config twins 0 (twins ! 0) 1 (meets too_long None) 0 new_attempt_state))) = []"
proof -
  have "isComboRequestScopedFailure (ae_reply (meets too_long None))" by code_simp
  moreover have "\<not> isAgentrouterConnectionQuotaScope (dt_provider (twins ! 0)) (r_failure (ae_reply (meets too_long None)))"
    by code_simp
  moreover have "f_status (r_failure (ae_reply (meets too_long None))) = 400" by code_simp
  moreover have "\<not> r_modelScoped400 (ae_reply (meets too_long None))" by code_simp
  ultimately show ?thesis
    using request_faults_are_harmless [OF _ _ _ _ refl, of "meets too_long None" "twins ! 0" demo_config twins 0 1 0
        new_attempt_state]
    by (simp add: new_attempt_state_def)
qed

definition out_of_quota :: reply where
  "out_of_quota = (demo_reply 429)\<lparr>r_quotaExhausted := True, r_failure := (plain_failure 429)\<lparr>f_quotaText := True\<rparr>\<rparr>"

definition healthy_row :: "connection_row option" where
  "healthy_row = Some \<lparr>rateLimitedUntil = None, testStatus = Some ''active'', lastErrorAt = None\<rparr>"

definition healthy_gate :: gate_env where
  "healthy_gate = open_gate\<lparr>ge_row := healthy_row\<rparr>"

definition quota_result :: "target_result \<times> attempt_state" where
  "quota_result = executeTarget demo_config demo_targets (\<lambda>_. healthy_gate) (\<lambda>_. meets out_of_quota healthy_row) 0
     (start_pass new_attempt_state)"

theorem protected_falls_back_on_quota_only_witness:
  "fst quota_result = No_result \<and> trust_of ''c1'' (snd quota_result) = (True, True)"
proof -
  have r: "fst quota_result = No_result" by code_simp
  have "is_protected demo_config (demo_targets ! 0)" by code_simp
  moreover have "\<not> getPersistedConnectionCooldownSkipReason 0 (dt_connection (demo_targets ! 0)) healthy_row False"
    by code_simp
  then have "no_silent_skip (demo_targets ! 0) healthy_gate (\<lambda>_. meets out_of_quota healthy_row)"
    by (simp add: no_silent_skip_def healthy_gate_def open_gate_def meets_def)
  moreover have "executeTarget demo_config demo_targets (\<lambda>_. healthy_gate) (\<lambda>_. meets out_of_quota healthy_row) 0
      (start_pass new_attempt_state) = (No_result, snd quota_result)"
    unfolding quota_result_def [symmetric] using r by (metis surjective_pairing)
  ultimately have "trust_of (dt_key (demo_targets ! 0)) (snd quota_result) = (True, True)"
    by (rule protected_falls_back_on_quota_only)
  then show ?thesis using r by (simp add: demo_targets_def on_connection_def)
qed

end
