(* ===== verification/RoundRobin.thy ===== *)
theory RoundRobin
  imports Prelude
begin

text \<open>
  The rotation of round-robin combos and the batches of sticky ones:
  \<open>src/open-sse/services/combo/rrState.ts\<close>, the start of a request in \<open>roundRobinCombo.ts\<close> (lines 298-363)
  and its success branch, and the other users of the three maps: \<open>orderRuntimeUnits\<close> of \<open>dispatchPrelude.ts\<close>,
  \<open>rotateLeadingTies\<close> of \<open>quotaStrategies.ts\<close> and the sticky pin of weighted combos in \<open>targetResolution.ts\<close>.

  \<^item> \<open>rr_state\<close> is the three module-level maps. A list of targets is the list of their execution keys.
  \<^item> What \<open>Number\<close> makes of a limit is \<open>None\<close> when it is not finite.
  \<^item> Whether the sticky target can be used (breaker, cooldown, lockout, availability) is an argument.

  The lemmas: the rotation with any batch size, for any number of combos; the state stays well-formed; and
  what requests that overlap do to the rotation.
\<close>

section \<open>State\<close>

record sticky =
  executionKey :: string
  successCount :: nat

record rr_state =
  rrCounters :: "(string \<times> nat) list"
  rrStickyTargets :: "(string \<times> sticky) list"
  weightedStickyTargets :: "(string \<times> sticky) list"

definition MAX_RR_COUNTERS :: nat where "MAX_RR_COUNTERS = 500"

definition rr_empty :: rr_state where
  "rr_empty = \<lparr>rrCounters = [], rrStickyTargets = [], weightedStickyTargets = []\<rparr>"

definition counter_of :: "string \<Rightarrow> rr_state \<Rightarrow> nat" where
  "counter_of name s = nullish (map_of (rrCounters s) name) 0"

definition set_counter :: "string \<Rightarrow> nat \<Rightarrow> rr_state \<Rightarrow> rr_state" where
  "set_counter name n s = s\<lparr>rrCounters := map_set name n (rrCounters s)\<rparr>"

fun findIndex :: "string \<Rightarrow> string list \<Rightarrow> nat option" where
  "findIndex k [] = None"
| "findIndex k (x # xs) = (if x = k then Some 0 else map_option Suc (findIndex k xs))"

section \<open>Limits\<close>

definition clampStickyRoundRobinTargetLimit :: "rat option \<Rightarrow> nat" where
  "clampStickyRoundRobinTargetLimit v =
     (case v of None \<Rightarrow> 1 | Some q \<Rightarrow> nat (min (max \<lfloor>q\<rfloor> 1) 1000))"

text \<open>\<open>None\<close> is an absent limit; of a limit that is there, \<open>None\<close> is one that is no finite number.\<close>

definition resolveComboStickyRoundRobinLimit ::
    "rat option option \<Rightarrow> rat option option \<Rightarrow> rat option option \<Rightarrow> nat" where
  "resolveComboStickyRoundRobinLimit perCombo comboSetting globalSetting =
     (case perCombo of Some v \<Rightarrow> clampStickyRoundRobinTargetLimit v
      | None \<Rightarrow> (case comboSetting of Some v \<Rightarrow> clampStickyRoundRobinTargetLimit v
                | None \<Rightarrow> clampStickyRoundRobinTargetLimit (nullish globalSetting None)))"

section \<open>Sticky targets\<close>

text \<open>The start index and the counter it was read from.\<close>

definition getStickyRoundRobinStartIndex :: "string \<Rightarrow> string list \<Rightarrow> nat \<Rightarrow> rr_state \<Rightarrow> nat \<times> nat" where
  "getStickyRoundRobinStartIndex name keys limit s =
     (let c = counter_of name s
      in case map_of (rrStickyTargets s) name of
           None \<Rightarrow> (c mod length keys, c)
         | Some st \<Rightarrow>
             (case findIndex (executionKey st) keys of
                None \<Rightarrow> (c mod length keys, c)
              | Some i \<Rightarrow> if limit > 1 \<and> successCount st < limit then (i, c) else (c mod length keys, c)))"

definition next_count :: "sticky option \<Rightarrow> string \<Rightarrow> nat" where
  "next_count st key = (case st of None \<Rightarrow> 1 | Some x \<Rightarrow> if executionKey x = key then Suc (successCount x) else 1)"

definition recordStickyRoundRobinSuccess :: "string \<Rightarrow> string \<Rightarrow> nat \<Rightarrow> string list \<Rightarrow> rr_state \<Rightarrow> rr_state" where
  "recordStickyRoundRobinSuccess name key limit keys s =
     (let n = next_count (map_of (rrStickyTargets s) name) key
      in if n \<ge> limit
         then (set_counter name (case findIndex key keys of Some i \<Rightarrow> Suc i | None \<Rightarrow> Suc (counter_of name s)) s)
                \<lparr>rrStickyTargets := map_del name (rrStickyTargets s)\<rparr>
         else s\<lparr>rrStickyTargets := map_set name \<lparr>executionKey = key, successCount = n\<rparr> (rrStickyTargets s)\<rparr>)"

definition getStickyWeightedExecutionKey :: "string \<Rightarrow> nat \<Rightarrow> rr_state \<Rightarrow> string option" where
  "getStickyWeightedExecutionKey name limit s =
     (case map_of (weightedStickyTargets s) name of
        None \<Rightarrow> None
      | Some st \<Rightarrow> if limit \<le> 1 \<or> successCount st \<ge> limit then None else Some (executionKey st))"

definition recordStickyWeightedSuccess :: "string \<Rightarrow> string \<Rightarrow> nat \<Rightarrow> rr_state \<Rightarrow> rr_state" where
  "recordStickyWeightedSuccess name key limit s =
     (let n = next_count (map_of (weightedStickyTargets s) name) key
      in s\<lparr>weightedStickyTargets :=
             (if n \<ge> limit then map_del name (weightedStickyTargets s)
              else map_set name \<lparr>executionKey = key, successCount = n\<rparr> (weightedStickyTargets s))\<rparr>)"

section \<open>A request\<close>

definition clear_stale_sticky :: "string \<Rightarrow> string list \<Rightarrow> nat \<Rightarrow> (string \<Rightarrow> bool) \<Rightarrow> rr_state \<Rightarrow> rr_state" where
  "clear_stale_sticky name keys limit usable s =
     (case map_of (rrStickyTargets s) name of
        Some st \<Rightarrow> if limit > 1 \<and> executionKey st \<in> set keys \<and> \<not> usable (executionKey st)
                   then s\<lparr>rrStickyTargets := map_del name (rrStickyTargets s)\<rparr> else s
      | None \<Rightarrow> s)"

definition evict_counters :: "string \<Rightarrow> rr_state \<Rightarrow> rr_state" where
  "evict_counters name s =
     (if \<not> map_has name (rrCounters s) \<and> \<not> map_has name (rrStickyTargets s)
         \<and> length (rrCounters s) \<ge> MAX_RR_COUNTERS
      then case rrCounters s of
             [] \<Rightarrow> s
           | (oldest, _) # _ \<Rightarrow> s\<lparr>rrCounters := map_del oldest (rrCounters s),
                                 rrStickyTargets := map_del oldest (rrStickyTargets s)\<rparr>
      else s)"

text \<open>The index of the first target to try, and the maps as the request leaves them when it starts.\<close>

definition rr_begin ::
    "string \<Rightarrow> string list \<Rightarrow> nat \<Rightarrow> (string \<Rightarrow> bool) \<Rightarrow> rr_state \<Rightarrow> nat \<times> rr_state" where
  "rr_begin name keys limit usable s =
     (let s1 = evict_counters name (clear_stale_sticky name keys limit usable s);
          s2 = (if map_has name (rrCounters s1) then s1 else set_counter name 0 s1)
      in case getStickyRoundRobinStartIndex name keys limit s2 of
           (startIndex, counter) \<Rightarrow> (startIndex, if limit > 1 then s2 else set_counter name (Suc counter) s2))"

definition rr_success :: "string \<Rightarrow> string list \<Rightarrow> nat \<Rightarrow> nat \<Rightarrow> rr_state \<Rightarrow> rr_state" where
  "rr_success name keys limit modelIndex s =
     (if limit > 1 then recordStickyRoundRobinSuccess name (keys ! modelIndex) limit keys s
      else set_counter name (Suc modelIndex) s)"

section \<open>Other users of the maps\<close>

definition rotate_from :: "nat \<Rightarrow> 'a list \<Rightarrow> 'a list" where
  "rotate_from i xs = map (\<lambda>offset. xs ! ((i + offset) mod length xs)) [0..<length xs]"

definition order_round_robin_units :: "string \<Rightarrow> string list \<Rightarrow> nat \<Rightarrow> rr_state \<Rightarrow> string list \<times> rr_state" where
  "order_round_robin_units name keys limit s =
     (case getStickyRoundRobinStartIndex name keys limit s of
        (startIndex, counter) \<Rightarrow>
          (rotate_from startIndex keys, if limit \<le> 1 then set_counter name (Suc counter) s else s))"

definition order_weighted_units :: "string \<Rightarrow> string list \<Rightarrow> nat \<Rightarrow> rr_state \<Rightarrow> string list" where
  "order_weighted_units name keys limit s =
     (case getStickyWeightedExecutionKey name limit s of
        Some k \<Rightarrow> if k \<noteq> [] \<and> k \<in> set keys then k # filter (\<lambda>x. x \<noteq> k) keys else keys
      | None \<Rightarrow> keys)"

text \<open>\<open>key\<close> is the key of the rotation, \<open>tied\<close> the targets that tie for the first place.\<close>

definition rotateLeadingTies :: "string list \<Rightarrow> string list \<Rightarrow> string \<Rightarrow> rr_state \<Rightarrow> string list \<times> rr_state" where
  "rotateLeadingTies sorted_keys tied key s =
     (if length tied > 1
      then let counter = counter_of key s;
               s1 = (if \<not> map_has key (rrCounters s) \<and> length (rrCounters s) \<ge> MAX_RR_COUNTERS
                     then s\<lparr>rrCounters := map_evict_oldest (rrCounters s)\<rparr> else s);
               i = counter mod length tied;
               ordered = drop i tied @ take i tied
           in (ordered @ filter (\<lambda>k. k \<notin> set ordered) sorted_keys, set_counter key (Suc counter) s1)
      else (tied @ filter (\<lambda>k. k \<notin> set tied) sorted_keys, s))"

definition evictOldestWeightedSticky :: "bool \<Rightarrow> string \<Rightarrow> rr_state \<Rightarrow> rr_state" where
  "evictOldestWeightedSticky weighted name s =
     (if weighted \<and> \<not> map_has name (weightedStickyTargets s) \<and> length (weightedStickyTargets s) \<ge> MAX_RR_COUNTERS
      then s\<lparr>weightedStickyTargets := map_evict_oldest (weightedStickyTargets s)\<rparr> else s)"

definition resolveStickyWeightedKey ::
    "bool \<Rightarrow> string \<Rightarrow> nat \<Rightarrow> string set \<Rightarrow> rr_state \<Rightarrow> string option \<times> rr_state" where
  "resolveStickyWeightedKey weighted name limit eligible s =
     (let raw = (if weighted then getStickyWeightedExecutionKey name limit s else None);
          pin = (case raw of Some k \<Rightarrow> if k \<noteq> [] \<and> k \<in> eligible then Some k else None | None \<Rightarrow> None);
          drop_pin = (\<not> weighted \<or> limit \<le> 1 \<or> (raw \<noteq> None \<and> raw \<noteq> Some [] \<and> pin = None))
      in (pin, if drop_pin then s\<lparr>weightedStickyTargets := map_del name (weightedStickyTargets s)\<rparr> else s))"

section \<open>Well-formed state\<close>

lemma findIndex_Some: "findIndex k ks = Some i \<Longrightarrow> i < length ks \<and> ks ! i = k"
  by (induction ks arbitrary: i) (auto split: if_splits)

lemma findIndex_nth: "distinct ks \<Longrightarrow> i < length ks \<Longrightarrow> findIndex (ks ! i) ks = Some i"
  by (induction ks arbitrary: i) (auto simp: nth_Cons split: nat.split)

lemma start_in_range: "keys \<noteq> [] \<Longrightarrow> fst (getStickyRoundRobinStartIndex name keys limit s) < length keys"
  by (auto simp: getStickyRoundRobinStartIndex_def Let_def dest: findIndex_Some split: option.splits)

definition counts_ok :: "(string \<times> sticky) list \<Rightarrow> bool" where
  "counts_ok m \<longleftrightarrow> map_ok m \<and> (\<forall>k st. map_of m k = Some st \<longrightarrow> 0 < successCount st \<and> successCount st < 1000)"

definition rr_wf :: "rr_state \<Rightarrow> bool" where
  "rr_wf s \<longleftrightarrow> map_ok (rrCounters s) \<and> counts_ok (rrStickyTargets s) \<and> counts_ok (weightedStickyTargets s)"

lemma counts_ok_del: "counts_ok m \<Longrightarrow> counts_ok (map_del k m)"
  by (simp add: counts_ok_def)

lemma counts_ok_set: "counts_ok m \<Longrightarrow> 0 < n \<Longrightarrow> n < 1000 \<Longrightarrow> counts_ok (map_set k \<lparr>executionKey = x, successCount = n\<rparr> m)"
  by (simp add: counts_ok_def)

lemma evict_is_del: "m \<noteq> [] \<Longrightarrow> map_evict_oldest m = map_del (fst (hd m)) m"
  by (simp add: map_evict_oldest_def split: list.split prod.split)

lemma counts_ok_evict: "counts_ok m \<Longrightarrow> counts_ok (map_evict_oldest m)"
  by (cases "m = []") (simp add: map_evict_oldest_def, simp add: evict_is_del counts_ok_del)

lemma next_count_pos: "0 < next_count st key"
  by (simp add: next_count_def split: option.split)

lemma clamp_range: "clampStickyRoundRobinTargetLimit v \<in> {1..1000}"
  by (auto simp: clampStickyRoundRobinTargetLimit_def split: option.split)

lemma wf_set_counter: "rr_wf s \<Longrightarrow> rr_wf (set_counter name n s)"
  by (simp add: rr_wf_def set_counter_def map_ok_set)

lemma wf_sticky: "rr_wf s \<Longrightarrow> counts_ok m \<Longrightarrow> rr_wf (s\<lparr>rrStickyTargets := m\<rparr>)"
  by (simp add: rr_wf_def)

lemma wf_weighted: "rr_wf s \<Longrightarrow> counts_ok m \<Longrightarrow> rr_wf (s\<lparr>weightedStickyTargets := m\<rparr>)"
  by (simp add: rr_wf_def)

lemma wf_parts: "rr_wf s \<Longrightarrow> counts_ok (rrStickyTargets s)" "rr_wf s \<Longrightarrow> counts_ok (weightedStickyTargets s)"
  by (simp_all add: rr_wf_def)

lemma wf_clear: "rr_wf s \<Longrightarrow> rr_wf (clear_stale_sticky name keys limit usable s)"
  by (simp add: clear_stale_sticky_def wf_sticky counts_ok_del wf_parts split: option.split)

lemma wf_evict: "rr_wf s \<Longrightarrow> rr_wf (evict_counters name s)"
  by (auto simp: evict_counters_def rr_wf_def counts_ok_del map_ok_del split: list.split)

lemma wf_begin: "rr_wf s \<Longrightarrow> rr_wf (snd (rr_begin name keys limit usable s))"
  by (simp add: rr_begin_def Let_def wf_set_counter wf_evict wf_clear split: prod.split)

lemma wf_record: "rr_wf s \<Longrightarrow> limit \<le> 1000 \<Longrightarrow> rr_wf (recordStickyRoundRobinSuccess name key limit keys s)"
  by (auto simp: recordStickyRoundRobinSuccess_def Let_def next_count_pos not_le set_counter_def
      intro!: wf_sticky wf_set_counter [unfolded set_counter_def] counts_ok_del counts_ok_set wf_parts(1))

lemma wf_success: "rr_wf s \<Longrightarrow> limit \<le> 1000 \<Longrightarrow> rr_wf (rr_success name keys limit i s)"
  by (simp add: rr_success_def wf_record wf_set_counter)

lemma wf_weighted_success: "rr_wf s \<Longrightarrow> limit \<le> 1000 \<Longrightarrow> rr_wf (recordStickyWeightedSuccess name key limit s)"
  by (auto simp: recordStickyWeightedSuccess_def Let_def next_count_pos not_le
      intro!: wf_weighted counts_ok_del counts_ok_set wf_parts(2))

lemma wf_ties: "rr_wf s \<Longrightarrow> rr_wf (snd (rotateLeadingTies ks tied key s))"
  by (auto simp: rotateLeadingTies_def Let_def intro!: wf_set_counter) (simp add: rr_wf_def)

lemma wf_units: "rr_wf s \<Longrightarrow> rr_wf (snd (order_round_robin_units name keys limit s))"
  by (simp add: order_round_robin_units_def wf_set_counter split: prod.split)

lemma wf_resolve:
  "rr_wf s \<Longrightarrow> rr_wf (snd (resolveStickyWeightedKey w name limit el (evictOldestWeightedSticky w name s)))"
  by (auto simp: resolveStickyWeightedKey_def evictOldestWeightedSticky_def Let_def
      intro!: wf_weighted counts_ok_del counts_ok_evict wf_parts(2))

text \<open>Everything that uses the maps; the limits are what the configuration says.\<close>

datatype rr_event =
    Begin string "string list" "rat option" "string \<Rightarrow> bool"
  | Served string "string list" "rat option" nat
  | Units string "string list" "rat option"
  | Ties "string list" "string list" string
  | Pick_weighted bool string "rat option" "string set"
  | Served_weighted string string "rat option"

fun rr_step :: "rr_state \<Rightarrow> rr_event \<Rightarrow> rr_state" where
  "rr_step s (Begin name keys v usable) = snd (rr_begin name keys (clampStickyRoundRobinTargetLimit v) usable s)"
| "rr_step s (Served name keys v i) = rr_success name keys (clampStickyRoundRobinTargetLimit v) i s"
| "rr_step s (Units name keys v) = snd (order_round_robin_units name keys (clampStickyRoundRobinTargetLimit v) s)"
| "rr_step s (Ties ks tied key) = snd (rotateLeadingTies ks tied key s)"
| "rr_step s (Pick_weighted w name v el) =
     snd (resolveStickyWeightedKey w name (clampStickyRoundRobinTargetLimit v) el (evictOldestWeightedSticky w name s))"
| "rr_step s (Served_weighted name key v) = recordStickyWeightedSuccess name key (clampStickyRoundRobinTargetLimit v) s"

interpretation rotation: machine rr_step rr_wf
proof
  fix s e
  assume "rr_wf s"
  moreover have "clampStickyRoundRobinTargetLimit v \<le> 1000" for v using clamp_range [of v] by simp
  ultimately show "rr_wf (rr_step s e)"
    by (cases "(s, e)" rule: rr_step.cases)
      (auto simp: wf_begin wf_success wf_weighted_success wf_ties wf_units wf_resolve)
qed

text \<open>
  C99. The maps of the rotation stay well-typed. Whatever round-robin, weighted and tie-breaking requests do,
  in any order and with any configured limits, a sticky target has served at least one request and fewer than
  the largest limit, no key occurs twice, and the index a request over a non-empty list starts at is an index
  of that list.
\<close>

theorem rotation_well_typed:
  assumes "s = foldl rr_step rr_empty es"
  shows "rr_wf s \<and> (keys \<noteq> [] \<longrightarrow> fst (rr_begin name keys limit usable s) < length keys)"
proof -
  have "rr_wf rr_empty" by (simp add: rr_wf_def rr_empty_def counts_ok_def)
  then have "rr_wf s" unfolding assms by (rule rotation.run_inv)
  moreover have "keys \<noteq> [] \<longrightarrow> fst (rr_begin name keys limit usable s) < length keys"
    using start_in_range by (simp add: rr_begin_def Let_def split: prod.split) (metis fst_conv)
  ultimately show ?thesis by simp
qed

section \<open>Rotation\<close>

text \<open>
  A request of a combo that the first target it tries answers, where neither session stickiness nor
  prompt-cache affinity sets another start (they do in \<^verbatim>\<open>RoundRobinLoop\<close>); \<open>cfg\<close> gives the targets and the
  batch size of each combo. The run answers for every request which combo it was and which target served it.
\<close>

definition serve :: "(string \<Rightarrow> string list \<times> nat) \<Rightarrow> string \<Rightarrow> rr_state \<Rightarrow> nat \<times> rr_state" where
  "serve cfg name s =
     (case cfg name of (keys, limit) \<Rightarrow>
      case rr_begin name keys limit (\<lambda>_. True) s of (i, s1) \<Rightarrow> (i, rr_success name keys limit i s1))"

fun serve_all :: "(string \<Rightarrow> string list \<times> nat) \<Rightarrow> string list \<Rightarrow> rr_state \<Rightarrow> (string \<times> nat) list" where
  "serve_all cfg [] s = []"
| "serve_all cfg (name # names) s = (case serve cfg name s of (i, s1) \<Rightarrow> (name, i) # serve_all cfg names s1)"

text \<open>Where combo \<open>a\<close> is after \<open>j\<close> requests, when its counter was \<open>c\<close> before the first.\<close>

definition at_request :: "string list \<Rightarrow> nat \<Rightarrow> nat \<Rightarrow> nat \<Rightarrow> string \<Rightarrow> rr_state \<Rightarrow> bool" where
  "at_request keys limit c j a s \<longleftrightarrow>
     counter_of a s mod length keys = (c + j div limit) mod length keys
     \<and> map_of (rrStickyTargets s) a =
         (if j mod limit = 0 then None
          else Some \<lparr>executionKey = keys ! ((c + j div limit) mod length keys), successCount = j mod limit\<rparr>)"

lemma counter_set [simp]: "counter_of a (set_counter b n s) = (if a = b then n else counter_of a s)"
  by (simp add: counter_of_def set_counter_def)

lemma sticky_set_counter [simp]: "rrStickyTargets (set_counter b n s) = rrStickyTargets s"
  by (simp add: set_counter_def)

lemma counter_sticky [simp]: "counter_of a (s\<lparr>rrStickyTargets := m\<rparr>) = counter_of a s"
  by (simp add: counter_of_def)

lemma start_at_request:
  assumes "distinct keys" and "keys \<noteq> []" and "0 < limit" and "at_request keys limit c j a s"
  shows "fst (getStickyRoundRobinStartIndex a keys limit s) = (c + j div limit) mod length keys
    \<and> snd (getStickyRoundRobinStartIndex a keys limit s) = counter_of a s"
proof -
  have "findIndex (keys ! ((c + j div limit) mod length keys)) keys = Some ((c + j div limit) mod length keys)"
    using assms(1,2) by (intro findIndex_nth) auto
  then show ?thesis
    using assms by (auto simp: at_request_def getStickyRoundRobinStartIndex_def Let_def)
qed

lemma begin_room:
  assumes "map_has a (rrCounters s) \<or> length (rrCounters s) < MAX_RR_COUNTERS"
  shows "rr_begin a keys limit (\<lambda>_. True) s =
    (let s2 = (if map_has a (rrCounters s) then s else set_counter a 0 s);
         (i, c) = getStickyRoundRobinStartIndex a keys limit s2
     in (i, if limit > 1 then s2 else set_counter a (Suc c) s2))"
proof -
  have "clear_stale_sticky a keys limit (\<lambda>_. True) s = s" by (simp add: clear_stale_sticky_def split: option.split)
  moreover have "evict_counters a s = s" using assms by (auto simp: evict_counters_def)
  ultimately show ?thesis by (simp add: rr_begin_def Let_def)
qed

lemma serve_step:
  assumes keys: "distinct keys" "keys \<noteq> []" and cfg: "cfg a = (keys, limit)" and limit: "0 < limit"
    and room: "map_has a (rrCounters s) \<or> length (rrCounters s) < MAX_RR_COUNTERS"
    and at: "at_request keys limit c j a s" and r: "serve cfg a s = (i, s')"
  shows "i = (c + j div limit) mod length keys" and "at_request keys limit c (Suc j) a s'"
proof -
  define s2 where "s2 = (if map_has a (rrCounters s) then s else set_counter a 0 s)"
  have "counter_of a s2 = counter_of a s" by (simp add: s2_def counter_of_def map_has_def set_counter_def)
  then have at2: "at_request keys limit c j a s2" using at by (simp add: at_request_def) (simp add: s2_def)
  note start = start_at_request [OF keys limit at2]
  obtain s1 where b: "rr_begin a keys limit (\<lambda>_. True) s = (i, s1)" and s': "s' = rr_success a keys limit i s1"
    using r cfg by (auto simp: serve_def split: prod.splits)
  show i: "i = (c + j div limit) mod length keys"
    using b start by (auto simp: begin_room [OF room] Let_def s2_def [symmetric] split: prod.splits)
  then have lt: "i < length keys" using keys by simp
  show "at_request keys limit c (Suc j) a s'"
  proof (cases "limit > 1")
    case False
    then have one: "limit = 1" using limit by simp
    then show ?thesis using at2 b i
      by (auto simp: at_request_def s' rr_success_def begin_room [OF room] Let_def s2_def [symmetric] mod_Suc_eq
          split: prod.splits)
  next
    case True
    then have s1: "s1 = s2"
      using b by (auto simp: begin_room [OF room] Let_def s2_def [symmetric] split: prod.splits)
    have n: "next_count (map_of (rrStickyTargets s2) a) (keys ! i) = Suc (j mod limit)"
      using at2 i by (simp add: at_request_def next_count_def)
    have f: "findIndex (keys ! i) keys = Some i" using keys(1) lt by (rule findIndex_nth)
    show ?thesis
    proof (cases "Suc (j mod limit) = limit")
      case full: True
      then have "Suc j mod limit = 0" "Suc j div limit = Suc (j div limit)" by (simp_all add: mod_Suc div_Suc)
      then show ?thesis using True full n f i
        by (simp add: at_request_def s' s1 rr_success_def recordStickyRoundRobinSuccess_def Let_def mod_Suc_eq)
    next
      case room: False
      then have "Suc j mod limit = Suc (j mod limit)" "Suc j div limit = j div limit" by (simp_all add: mod_Suc div_Suc)
      moreover have "Suc (j mod limit) < limit" using room limit mod_less_divisor [OF limit, of j] by linarith
      ultimately show ?thesis using True n i at2
        by (simp add: at_request_def s' s1 rr_success_def recordStickyRoundRobinSuccess_def Let_def)
    qed
  qed
qed

text \<open>The counters belong to the combos \<open>N\<close>, of which there are no more than the map has room for.\<close>

definition roomy :: "string set \<Rightarrow> rr_state \<Rightarrow> bool" where
  "roomy N s \<longleftrightarrow> finite N \<and> card N \<le> MAX_RR_COUNTERS \<and> map_ok (rrCounters s) \<and> fst ` set (rrCounters s) \<subseteq> N"

lemma roomy_room:
  assumes "roomy N s" and "a \<in> N"
  shows "map_has a (rrCounters s) \<or> length (rrCounters s) < MAX_RR_COUNTERS"
proof (cases "map_has a (rrCounters s)")
  case False
  then have "fst ` set (rrCounters s) \<subset> N" using assms by (auto simp: roomy_def map_has_iff)
  then have "card (fst ` set (rrCounters s)) < card N" using assms(1) by (simp add: roomy_def psubset_card_mono)
  moreover have "card (fst ` set (rrCounters s)) = length (rrCounters s)"
    using assms(1) by (simp add: roomy_def map_ok_def flip: set_map add: distinct_card)
  ultimately show ?thesis using assms(1) by (simp add: roomy_def)
qed simp

lemma roomy_set: "roomy N s \<Longrightarrow> a \<in> N \<Longrightarrow> roomy N (set_counter a n s)"
proof -
  assume s: "roomy N s" "a \<in> N"
  have "fst ` set (map_set a n (rrCounters s)) = insert a (fst ` set (rrCounters s))"
    using map_has_set [of _ a n "rrCounters s"] unfolding map_has_iff by auto
  then show ?thesis using s by (simp add: roomy_def set_counter_def map_ok_set)
qed

lemma roomy_sticky [simp]: "roomy N (s\<lparr>rrStickyTargets := m\<rparr>) = roomy N s"
  by (simp add: roomy_def)

text \<open>A request of \<open>b\<close> keeps to \<open>b\<close>.\<close>

definition same_for :: "string \<Rightarrow> rr_state \<Rightarrow> rr_state \<Rightarrow> bool" where
  "same_for a s s' \<longleftrightarrow> counter_of a s' = counter_of a s
     \<and> map_of (rrStickyTargets s') a = map_of (rrStickyTargets s) a"

lemma serve_keeps:
  assumes room: "roomy N s" and b: "b \<in> N" and r: "serve cfg b s = (i, s')"
  shows "roomy N s' \<and> (a \<noteq> b \<longrightarrow> same_for a s s')"
proof -
  obtain keys limit where cfg: "cfg b = (keys, limit)" by fastforce
  obtain s1 where s1: "rr_begin b keys limit (\<lambda>_. True) s = (i, s1)" and s': "s' = rr_success b keys limit i s1"
    using r cfg by (auto simp: serve_def split: prod.splits)
  have "roomy N s1 \<and> (a \<noteq> b \<longrightarrow> same_for a s s1)"
    using s1 room roomy_set [OF _ b]
    by (auto simp: begin_room [OF roomy_room [OF room b]] Let_def same_for_def split: prod.splits if_splits)
  then show ?thesis
    using roomy_set [OF _ b]
    by (auto simp: s' rr_success_def recordStickyRoundRobinSuccess_def Let_def same_for_def)
qed

lemma at_request_same: "same_for a s s' \<Longrightarrow> at_request keys limit c j a s \<Longrightarrow> at_request keys limit c j a s'"
  by (simp add: at_request_def same_for_def)

lemma serve_all_rotates:
  assumes "distinct keys" and "keys \<noteq> []" and "cfg a = (keys, limit)" and "0 < limit"
  shows "roomy N s \<Longrightarrow> set reqs \<subseteq> N \<Longrightarrow> at_request keys limit c j a s \<Longrightarrow>
    map snd (filter (\<lambda>(b, _). b = a) (serve_all cfg reqs s))
      = map (\<lambda>k. (c + k div limit) mod length keys) [j..<j + count_list reqs a]"
proof (induction reqs arbitrary: s j)
  case (Cons b reqs)
  obtain i s1 where r: "serve cfg b s = (i, s1)" by fastforce
  have b: "b \<in> N" using Cons.prems(2) by simp
  note keep = serve_keeps [OF Cons.prems(1) b r, of a]
  show ?case
  proof (cases "b = a")
    case True
    have room: "map_has a (rrCounters s) \<or> length (rrCounters s) < MAX_RR_COUNTERS"
      using roomy_room [OF Cons.prems(1) b] True by simp
    have "i = (c + j div limit) mod length keys" "at_request keys limit c (Suc j) a s1"
      using serve_step [where cfg = cfg and a = a, OF assms room Cons.prems(3)] r True by auto
    then show ?thesis
      using Cons.IH [of s1 "Suc j"] keep Cons.prems(2) r True by (simp add: upt_conv_Cons del: upt_Suc)
  next
    case False
    then show ?thesis
      using Cons.IH [of s1 j] keep Cons.prems r at_request_same by auto
  qed
qed simp

text \<open>
  The rotation alone is fair. Over any sequence of requests of any combos, at most 500 of them, whose first
  target answers, the \<open>k\<close>-th request of a combo goes to the target \<open>k div limit\<close> places after the one its
  counter stands at, around the list: each target serves a batch of \<open>limit\<close> requests, then the next one does.
\<close>

theorem round_robin_rotates:
  assumes "cfg a = (keys, limit)" and "distinct keys" and "keys \<noteq> []" and "0 < limit"
    and "map_ok (rrCounters s)" and "card (fst ` set (rrCounters s) \<union> set reqs) \<le> 500"
    and "map_of (rrStickyTargets s) a = None"
  shows "map snd (filter (\<lambda>(b, _). b = a) (serve_all cfg reqs s))
    = map (\<lambda>k. (counter_of a s + k div limit) mod length keys) [0..<count_list reqs a]"
proof -
  let ?N = "fst ` set (rrCounters s) \<union> set reqs"
  have "roomy ?N s" using assms(5,6) by (simp add: roomy_def MAX_RR_COUNTERS_def)
  moreover have "at_request keys limit (counter_of a s) 0 a s" using assms(7) by (simp add: at_request_def)
  ultimately show ?thesis using serve_all_rotates [where cfg = cfg and a = a, OF assms(2,3,1,4), of ?N s reqs] by simp
qed

lemma round_robin_rotates_witness:
  "map snd (filter (\<lambda>(b, _). b = ''x'')
     (serve_all (\<lambda>b. if b = ''x'' then ([''p'', ''q'', ''r''], 2) else ([''u'', ''v''], 1))
       [''x'', ''y'', ''x'', ''x'', ''y'', ''x'', ''x'', ''x'', ''x''] rr_empty)) = [0, 0, 1, 1, 2, 2, 0]"
  by (subst round_robin_rotates [where keys = "[''p'', ''q'', ''r'']" and limit = 2])
    (simp_all add: rr_empty_def counter_of_def upt_rec card_insert_if)

lemma rotation_well_typed_witness:
  "rr_wf (foldl rr_step rr_empty [Begin ''x'' [''p'', ''q''] None (\<lambda>_. True), Served ''x'' [''p'', ''q''] None 0])"
  using rotation_well_typed [OF refl] by blast

text \<open>
  A sticky weighted combo pins the step that served last until it has served as many requests as the limit.
\<close>

lemma weighted_batch:
  assumes "1 < limit" and "map_of (weightedStickyTargets s) name = None"
  shows "m < limit \<Longrightarrow>
    getStickyWeightedExecutionKey name limit ((recordStickyWeightedSuccess name key limit ^^ m) s)
      = (if m = 0 then None else Some key)"
    and "getStickyWeightedExecutionKey name limit ((recordStickyWeightedSuccess name key limit ^^ limit) s) = None"
proof -
  let ?r = "\<lambda>m. (recordStickyWeightedSuccess name key limit ^^ m) s"
  have run: "m < limit \<Longrightarrow> map_of (weightedStickyTargets (?r m)) name
      = (if m = 0 then None else Some \<lparr>executionKey = key, successCount = m\<rparr>)" for m
    using assms by (induction m) (simp_all add: recordStickyWeightedSuccess_def Let_def next_count_def)
  show "m < limit \<Longrightarrow> getStickyWeightedExecutionKey name limit (?r m) = (if m = 0 then None else Some key)"
    using run [of m] assms(1) by (simp add: getStickyWeightedExecutionKey_def)
  obtain l where l: "limit = Suc l" using assms(1) by (cases limit) auto
  show "getStickyWeightedExecutionKey name limit (?r limit) = None"
    using run [of l] assms(1) l
    by (simp add: getStickyWeightedExecutionKey_def recordStickyWeightedSuccess_def Let_def next_count_def)
qed

section \<open>What modelling showed\<close>

text \<open>
  C99. Requests that overlap undo the rotation. The first of two requests starts at target 0, the second at
  target 1; the second is answered first. When the first is answered the counter is set back to 1, so that
  the next request goes to target 1 again and target 2 is passed over.
\<close>

theorem overlap_rewinds_rotation:
  "let keys = [''p'', ''q'', ''r'']; up = (\<lambda>_. True);
       (i, s1) = rr_begin ''x'' keys 1 up rr_empty;
       (j, s2) = rr_begin ''x'' keys 1 up s1;
       s3 = rr_success ''x'' keys 1 i (rr_success ''x'' keys 1 j s2)
   in (i, j, fst (rr_begin ''x'' keys 1 up s2), fst (rr_begin ''x'' keys 1 up s3)) = (0, 1, 2, 1)"
  by code_simp

end
