(* ===== verification/Connections.thy ===== *)
theory Connections
  imports JsValue "HOL-Library.Multiset"
begin

text \<open>
  Provider connections as selection sees them: the view of a row (\<open>src/src/lib/db/providers/lazyConnectionView.ts\<close>),
  the reading of its cooldown (\<open>open-sse/services/accountFallback.ts\<close>), and \<open>Array.prototype.sort\<close> with a
  comparator.

  \<^item> \<open>date\<close>, a parameter, reads a text as \<open>Date\<close> does: the instant, or \<open>None\<close> for an invalid date; \<open>toISO\<close> is
    \<open>toISOString\<close>. Where a theorem needs it, a date it wrote reads back.
  \<^item> The credential fields are the decrypted ones.
  \<^item> A comparator gives an integer or a fraction; the locale \<open>comparator\<close> holds its laws on the elements that
    occur. Where they fail, the order that \<open>sort\<close> gives is up to the engine.
\<close>

section \<open>Sorting\<close>

fun place :: "('a \<Rightarrow> 'a \<Rightarrow> rat) \<Rightarrow> 'a \<Rightarrow> 'a list \<Rightarrow> 'a list" where
  "place cmp x [] = [x]"
| "place cmp x (y # ys) = (if cmp x y < 0 then x # y # ys else y # place cmp x ys)"

definition js_sort :: "('a \<Rightarrow> 'a \<Rightarrow> rat) \<Rightarrow> 'a list \<Rightarrow> 'a list" where
  "js_sort cmp xs = foldl (\<lambda>ys x. place cmp x ys) [] xs"

definition first_of :: "'a list \<Rightarrow> 'a option" where
  "first_of xs = (case xs of [] \<Rightarrow> None | x # _ \<Rightarrow> Some x)"

lemma first_of_simps [simp]: "first_of [] = None" "first_of (x # xs) = Some x"
  by (simp_all add: first_of_def)

lemma first_of_None [simp]: "first_of xs = None \<longleftrightarrow> xs = []"
  by (cases xs) simp_all

lemma mset_place [simp]: "mset (place cmp x ys) = add_mset x (mset ys)"
  by (induction ys) auto

lemma mset_js_sort [simp]: "mset (js_sort cmp xs) = mset xs"
proof -
  have "mset (foldl (\<lambda>ys x. place cmp x ys) ys xs) = mset ys + mset xs" for ys
    by (induction xs arbitrary: ys) simp_all
  then show ?thesis by (simp add: js_sort_def)
qed

lemma set_js_sort [simp]: "set (js_sort cmp xs) = set xs"
  by (metis mset_js_sort set_mset_mset)

lemma set_place [simp]: "set (place cmp x ys) = insert x (set ys)"
  by (induction ys) auto

lemma js_sort_Nil_iff [simp]: "js_sort cmp xs = [] \<longleftrightarrow> xs = []"
  by (metis mset_js_sort mset_zero_iff)

lemma first_of_sort_mem: "first_of (js_sort cmp xs) = Some x \<Longrightarrow> x \<in> set xs"
  by (metis first_of_def list.case_eq_if list.set_sel(1) option.discI option.inject set_js_sort)

lemma mem_map_filter: "x \<in> set (List.map_filter f xs) \<longleftrightarrow> (\<exists>y \<in> set xs. f y = Some x)"
  by (induction xs) (auto simp: map_filter_simps split: option.split)

lemma map_filter_Nil_iff: "List.map_filter f xs = [] \<longleftrightarrow> (\<forall>y \<in> set xs. f y = None)"
  by (induction xs) (auto simp: map_filter_simps split: option.split)

text \<open>The laws of a comparator on the elements that satisfy \<open>ok\<close>.\<close>

locale comparator =
  fixes cmp :: "'a \<Rightarrow> 'a \<Rightarrow> rat" and ok :: "'a \<Rightarrow> bool"
  assumes turn: "ok a \<Longrightarrow> ok b \<Longrightarrow> \<not> cmp a b < 0 \<Longrightarrow> cmp b a \<le> 0"
    and trans: "ok a \<Longrightarrow> ok b \<Longrightarrow> ok c \<Longrightarrow> cmp a b \<le> 0 \<Longrightarrow> cmp b c \<le> 0 \<Longrightarrow> cmp a c \<le> 0"
begin

lemma place_sorted:
  "ok x \<Longrightarrow> \<forall>y \<in> set ys. ok y \<Longrightarrow> sorted_wrt (\<lambda>a b. cmp a b \<le> 0) ys \<Longrightarrow> sorted_wrt (\<lambda>a b. cmp a b \<le> 0) (place cmp x ys)"
proof (induction ys)
  case (Cons y ys)
  show ?case
  proof (cases "cmp x y < 0")
    case True
    then have "cmp x z \<le> 0" if "z \<in> set ys" for z using Cons.prems that by (meson less_imp_le list.set_intros sorted_wrt.simps(2) trans)
    then show ?thesis using True Cons.prems by simp
  next
    case False
    then have "cmp y x \<le> 0" using turn Cons.prems by simp
    then show ?thesis using False Cons by simp
  qed
qed simp

lemma sort_sorted: "\<forall>y \<in> set xs. ok y \<Longrightarrow> sorted_wrt (\<lambda>a b. cmp a b \<le> 0) (js_sort cmp xs)"
proof -
  assume a: "\<forall>y \<in> set xs. ok y"
  have "\<forall>y \<in> set xs. ok y \<Longrightarrow> \<forall>y \<in> set ys. ok y \<Longrightarrow> sorted_wrt (\<lambda>a b. cmp a b \<le> 0) ys \<Longrightarrow>
      sorted_wrt (\<lambda>a b. cmp a b \<le> 0) (foldl (\<lambda>ys x. place cmp x ys) ys xs)" for ys
    by (induction xs arbitrary: ys) (simp_all add: place_sorted)
  then show ?thesis using a by (simp add: js_sort_def)
qed

lemma first_is_least: "\<forall>y \<in> set xs. ok y \<Longrightarrow> first_of (js_sort cmp xs) = Some x \<Longrightarrow> y \<in> set xs \<Longrightarrow> cmp x y \<le> 0"
proof -
  assume a: "\<forall>y \<in> set xs. ok y" "first_of (js_sort cmp xs) = Some x" "y \<in> set xs"
  then obtain ys where ys: "js_sort cmp xs = x # ys" by (auto simp: first_of_def split: list.splits)
  have "y \<in> set (x # ys)" using a(3) ys by (metis set_js_sort)
  moreover have "x \<in> set xs" using ys by (metis list.set_intros(1) set_js_sort)
  then have "cmp x x \<le> 0" using a(1) turn [of x x] by (meson less_imp_le)
  ultimately show ?thesis using sort_sorted [OF a(1)] ys by auto
qed

end

text \<open>A comparator that subtracts keys, or compares a key and then another.\<close>

interpretation by_key: comparator "\<lambda>a b. f a - f b" "\<lambda>_. True" for f :: "'a \<Rightarrow> rat"
  by unfold_locales auto

lemma comparator_then:
  fixes f :: "'a \<Rightarrow> rat"
  assumes "comparator cmp ok"
  shows "comparator (\<lambda>a b. if f a \<noteq> f b then f a - f b else cmp a b) ok"
proof
  fix a b assume "ok a" "ok b" "\<not> (if f a \<noteq> f b then f a - f b else cmp a b) < 0"
  then show "(if f b \<noteq> f a then f b - f a else cmp b a) \<le> 0"
    using comparator.turn [OF assms, of a b] by (auto split: if_splits)
next
  fix a b c assume ok: "ok a" "ok b" "ok c"
    and le: "(if f a \<noteq> f b then f a - f b else cmp a b) \<le> 0" "(if f b \<noteq> f c then f b - f c else cmp b c) \<le> 0"
  then show "(if f a \<noteq> f c then f a - f c else cmp a c) \<le> 0"
    using comparator.trans [OF assms ok] by (auto split: if_splits)
qed

section \<open>The view of a row\<close>

definition toStringOrNull :: "json \<Rightarrow> string option" where
  "toStringOrNull v = (case v of JStr s \<Rightarrow> if trim s = [] then None else Some s | _ \<Rightarrow> None)"

definition toNumber :: "json \<Rightarrow> rat \<Rightarrow> rat" where
  "toNumber v fallback =
     (case v of JNum q \<Rightarrow> q
      | JStr s \<Rightarrow> if trim s = [] then fallback else (case number_of_string s of Num q \<Rightarrow> q | _ \<Rightarrow> fallback)
      | _ \<Rightarrow> fallback)"

definition toNullableNumber :: "json \<Rightarrow> rat option" where
  "toNullableNumber v =
     (case v of JNum q \<Rightarrow> Some q
      | JStr s \<Rightarrow> if trim s = [] then None else (case number_of_string s of Num q \<Rightarrow> Some q | _ \<Rightarrow> None)
      | _ \<Rightarrow> None)"

record connection =
  c_id :: string
  c_provider :: string
  c_authType :: "string option"
  c_email :: "string option"
  c_isActive :: bool
  c_rateLimitedUntil :: "string option"
  c_testStatus :: "string option"
  c_apiKey :: "string option"
  c_accessToken :: "string option"
  c_refreshToken :: "string option"
  c_tokenExpiresAt :: "string option"
  c_expiresAt :: "string option"
  c_projectId :: "string option"
  c_defaultModel :: "string option"
  c_providerSpecificData :: json
  c_lastUsedAt :: "string option"
  c_consecutiveUseCount :: rat
  c_priority :: rat
  c_lastError :: "string option"
  c_lastErrorType :: "string option"
  c_lastErrorSource :: "string option"
  c_errorCode :: json
  c_backoffLevel :: rat
  c_maxConcurrent :: "rat option"
  c_quotaWindowThresholds :: json

definition asRecord :: "json \<Rightarrow> json" where
  "asRecord v = (if isRecord v then v else JObj [])"

definition toProviderConnection :: "json \<Rightarrow> connection" where
  "toProviderConnection value =
     (let row = asRecord value; get = (\<lambda>k. get_prop k row) in
      \<lparr>c_id = nullish (toStringOrNull (get ''id'')) [],
       c_provider = nullish (toStringOrNull (get ''provider'')) [],
       c_authType = toStringOrNull (get ''authType''),
       c_email = toStringOrNull (get ''email''),
       c_isActive = (get ''isActive'' = JBool True),
       c_rateLimitedUntil = toStringOrNull (get ''rateLimitedUntil''),
       c_testStatus = toStringOrNull (get ''testStatus''),
       c_apiKey = toStringOrNull (get ''apiKey''),
       c_accessToken = toStringOrNull (get ''accessToken''),
       c_refreshToken = toStringOrNull (get ''refreshToken''),
       c_tokenExpiresAt = toStringOrNull (get ''tokenExpiresAt''),
       c_expiresAt = toStringOrNull (get ''expiresAt''),
       c_projectId = toStringOrNull (get ''projectId''),
       c_defaultModel = toStringOrNull (get ''defaultModel''),
       c_providerSpecificData = asRecord (get ''providerSpecificData''),
       c_lastUsedAt = toStringOrNull (get ''lastUsedAt''),
       c_consecutiveUseCount = toNumber (get ''consecutiveUseCount'') 0,
       c_priority = toNumber (get ''priority'') 999,
       c_lastError = toStringOrNull (get ''lastError''),
       c_lastErrorType = toStringOrNull (get ''lastErrorType''),
       c_lastErrorSource = toStringOrNull (get ''lastErrorSource''),
       c_errorCode = (case get ''errorCode'' of JStr s \<Rightarrow> JStr s | JNum q \<Rightarrow> JNum q | _ \<Rightarrow> JNull),
       c_backoffLevel = toNumber (get ''backoffLevel'') 0,
       c_maxConcurrent = toNullableNumber (get ''maxConcurrent''),
       c_quotaWindowThresholds = (if isRecord (get ''quotaWindowThresholds'') then get ''quotaWindowThresholds'' else JNull)\<rparr>)"

text \<open>\<open>x || d\<close> on numbers.\<close>

definition num_or :: "rat \<Rightarrow> rat \<Rightarrow> rat" where
  "num_or x d = (if x = 0 then d else x)"

section \<open>Cooldowns\<close>

text \<open>The pattern \<open>^\d+(\.\d+)?$\<close>.\<close>

definition COOLDOWN_NUMERIC_RE :: "string \<Rightarrow> bool" where
  "COOLDOWN_NUMERIC_RE s =
     (case dropWhile is_digit s of
        [] \<Rightarrow> s \<noteq> []
      | c # t \<Rightarrow> takeWhile is_digit s \<noteq> [] \<and> c = CHR ''.'' \<and> t \<noteq> [] \<and> list_all is_digit t)"

text \<open>\<open>None\<close> is NaN.\<close>

definition cooldownUntilMs :: "(string \<Rightarrow> time option) \<Rightarrow> string option \<Rightarrow> rat option" where
  "cooldownUntilMs date value =
     (case value of None \<Rightarrow> None
      | Some s \<Rightarrow> if s = [] then None
                  else let raw = trim s
                       in if COOLDOWN_NUMERIC_RE raw then (case number_of_string raw of Num q \<Rightarrow> Some q | _ \<Rightarrow> None)
                          else map_option of_int (date raw))"

definition isAccountUnavailable :: "(string \<Rightarrow> time option) \<Rightarrow> time \<Rightarrow> string option \<Rightarrow> bool" where
  "isAccountUnavailable date now value = (case cooldownUntilMs date value of Some ms \<Rightarrow> ms > of_int now | None \<Rightarrow> False)"

text \<open>The earliest cooldown among several accounts that is not over; its ISO text is the instant.\<close>

fun earliest_until :: "(string \<Rightarrow> time option) \<Rightarrow> time \<Rightarrow> rat option \<Rightarrow> connection list \<Rightarrow> rat option" where
  "earliest_until date now earliest [] = earliest"
| "earliest_until date now earliest (c # cs) =
     (case cooldownUntilMs date (c_rateLimitedUntil c) of
        None \<Rightarrow> earliest_until date now earliest cs
      | Some t \<Rightarrow> if t \<le> of_int now then earliest_until date now earliest cs
                  else earliest_until date now
                    (case earliest of None \<Rightarrow> Some t | Some e \<Rightarrow> if e = 0 \<or> t < e then Some t else earliest) cs)"

definition getEarliestRateLimitedUntil :: "(string \<Rightarrow> time option) \<Rightarrow> time \<Rightarrow> connection list \<Rightarrow> rat option" where
  "getEarliestRateLimitedUntil date now cs =
     (case earliest_until date now None cs of Some e \<Rightarrow> if e = 0 then None else Some e | None \<Rightarrow> None)"

text \<open>A pair of readable dates, for the witnesses: the milliseconds in decimal, with a sign.\<close>

definition plain_iso :: "time \<Rightarrow> string" where
  "plain_iso t = (if t < 0 then CHR ''-'' else CHR ''+'') # decimal (nat \<bar>t\<bar>)"

definition plain_date :: "string \<Rightarrow> time option" where
  "plain_date s = (case s of c # t \<Rightarrow> map_option (\<lambda>n. if c = CHR ''-'' then - n else n) (parseInt t) | [] \<Rightarrow> None)"

definition readable :: "(string \<Rightarrow> time option) \<Rightarrow> (time \<Rightarrow> string) \<Rightarrow> bool" where
  "readable date toISO \<longleftrightarrow> (\<forall>t. date (toISO t) = Some t)"

lemma plain_readable: "readable plain_date plain_iso"
  by (simp add: readable_def plain_iso_def plain_date_def)

lemma earliest_until_bound:
  "earliest_until date now e cs = Some m \<Longrightarrow> 0 \<le> now \<Longrightarrow> (\<forall>x. e = Some x \<longrightarrow> of_int now < x) \<Longrightarrow>
   of_int now < m \<and> (\<forall>x. e = Some x \<longrightarrow> m \<le> x)
   \<and> (\<forall>c \<in> set cs. \<forall>t. cooldownUntilMs date (c_rateLimitedUntil c) = Some t \<longrightarrow> of_int now < t \<longrightarrow> m \<le> t)"
proof (induction cs arbitrary: e)
  case (Cons c cs)
  show ?case
  proof (cases "cooldownUntilMs date (c_rateLimitedUntil c)")
    case None
    then show ?thesis using Cons by simp
  next
    case (Some t)
    show ?thesis
    proof (cases "t \<le> of_int now")
      case True
      then show ?thesis using Cons Some by auto
    next
      case False
      let ?e = "case e of None \<Rightarrow> Some t | Some e' \<Rightarrow> if e' = 0 \<or> t < e' then Some t else e"
      have pos: "0 < t" using False Cons.prems(2) by (simp add: not_le le_less_trans [of 0 "of_int now :: rat"])
      have "\<forall>x. ?e = Some x \<longrightarrow> of_int now < x" using False Cons.prems(3) by (auto split: option.splits)
      moreover have "earliest_until date now ?e cs = Some m" using Cons.prems(1) Some False by simp
      ultimately have ih: "of_int now < m \<and> (\<forall>x. ?e = Some x \<longrightarrow> m \<le> x)
          \<and> (\<forall>c \<in> set cs. \<forall>t. cooldownUntilMs date (c_rateLimitedUntil c) = Some t \<longrightarrow> of_int now < t \<longrightarrow> m \<le> t)"
        using Cons.IH Cons.prems(2) by blast
      have "x \<noteq> 0" if "e = Some x" for x using Cons.prems(2,3) that by (metis le_less_trans of_int_0_le_iff less_irrefl)
      then have "m \<le> t" "\<forall>x. e = Some x \<longrightarrow> m \<le> x" using ih pos by (auto split: option.splits if_splits)
      then show ?thesis using ih Some by auto
    qed
  qed
qed simp

end
