(* ===== verification/TargetAffinity.thy ===== *)
theory TargetAffinity
  imports ComboExhaustion Connections
begin

text \<open>
  Which connection a conversation is kept on: session stickiness
  (\<open>src/open-sse/services/combo/sessionStickiness.ts\<close>, with \<open>computeHeadroom\<close> of \<open>headroomRanking.ts\<close>) and the
  prompt-cache affinity of combo targets (\<open>promptCacheAffinity.ts\<close>).

  \<^item> \<open>binding_map\<close> is the map of sticky bindings, in the order of their insertion.
  \<^item> \<open>sha\<close> is the hexadecimal digest of \<open>createHash("sha256")\<close>; \<open>score\<close> is the rendezvous score that the
    affinity takes from it, \<open>collate\<close> is \<open>localeCompare\<close>, \<open>availability\<close> the share that \<^verbatim>\<open>OAuthOccupancy\<close> computes
    for a connection, \<open>parsed\<close> the provider that \<open>parseModel\<close> reads off a model. The affinity key of a request
    (its own key, or the hash of its prompt prefix) is an argument.
  \<^item> A \<open>sticky_probe\<close> is what the three look-ups about the bound connection answer; each answers as if the
    connection were healthy when it fails. Nothing else runs between the look-ups and their use.
  \<^item> The override hooks of the tests are left out.

  The lemmas: a bound conversation finds its connection first until the binding expires or the connection is
  unhealthy; the map is bounded; the orderings are permutations that put the best score first.
\<close>

section \<open>Bindings\<close>

definition STICKINESS_HEADROOM_THRESHOLD :: rat where "STICKINESS_HEADROOM_THRESHOLD = 15 / 100"
definition TTL_MS :: int where "TTL_MS = 15 * 60 * 1000"
definition MAX_ENTRIES :: nat where "MAX_ENTRIES = 500"

record session_binding =
  sb_connection :: string
  sb_createdAt :: time
  sb_lastUsedAt :: time
  sb_namespace :: "string option"

type_synonym binding_map = "(string \<times> session_binding) list"

text \<open>The content of a message: a text, the texts of its object parts (empty where there is none), or neither.\<close>

datatype content = Text string | Parts "string list" | Other_content

definition deriveMessageHash :: "(string \<Rightarrow> string) \<Rightarrow> (string option \<times> content) list option \<Rightarrow> string option" where
  "deriveMessageHash sha messages =
     (case find (\<lambda>m. fst m = Some ''user'') (nullish messages []) of
        None \<Rightarrow> None
      | Some (_, c) \<Rightarrow>
          (case c of Other_content \<Rightarrow> None
           | Text s \<Rightarrow> if s = [] then None else Some (take 16 (sha s))
           | Parts ts \<Rightarrow> if concat ts = [] then None else Some (take 16 (sha (concat ts)))))"

definition scopeMessageHash :: "(string \<Rightarrow> string) \<Rightarrow> string \<Rightarrow> string \<Rightarrow> string" where
  "scopeMessageHash sha messageHash namespace =
     (if namespace = [] then messageHash else take 16 (sha (namespace @ [CHR 0x00] @ messageHash)))"

text \<open>The first entry with the earliest last use.\<close>

fun oldest_of :: "(string \<times> session_binding) \<Rightarrow> binding_map \<Rightarrow> string" where
  "oldest_of best [] = fst best"
| "oldest_of best (x # xs) = oldest_of (if sb_lastUsedAt (snd x) < sb_lastUsedAt (snd best) then x else best) xs"

definition drop_oldest :: "binding_map \<Rightarrow> binding_map" where
  "drop_oldest m = (case m of [] \<Rightarrow> [] | x # xs \<Rightarrow> map_del (oldest_of x xs) m)"

definition evict :: "time \<Rightarrow> binding_map \<Rightarrow> binding_map" where
  "evict now m = (let m1 = filter (\<lambda>(k, e). \<not> now - sb_lastUsedAt e > TTL_MS) m
     in (drop_oldest ^^ (length m1 - MAX_ENTRIES)) m1)"

definition recordStickyBinding :: "string \<Rightarrow> string \<Rightarrow> string option \<Rightarrow> time \<Rightarrow> binding_map \<Rightarrow> binding_map" where
  "recordStickyBinding messageHash connectionId namespace now m =
     (case map_of m messageHash of
        Some e \<Rightarrow> map_set messageHash
          (e\<lparr>sb_connection := connectionId, sb_lastUsedAt := now,
             sb_namespace := (if truthy namespace then namespace else sb_namespace e)\<rparr>) m
      | None \<Rightarrow> map_set messageHash
          \<lparr>sb_connection = connectionId, sb_createdAt = now, sb_lastUsedAt = now,
           sb_namespace = (if truthy namespace then namespace else None)\<rparr> (evict now m))"

definition clearStickyBinding :: "string \<Rightarrow> binding_map \<Rightarrow> binding_map" where
  "clearStickyBinding messageHash m = map_del messageHash m"

definition clearStickyBindingsForCombo :: "string \<Rightarrow> binding_map \<Rightarrow> binding_map" where
  "clearStickyBindingsForCombo namespace m =
     (if namespace = [] then m else filter (\<lambda>(k, e). sb_namespace e \<noteq> Some namespace) m)"

definition peekStickyConnectionId :: "string \<Rightarrow> binding_map \<Rightarrow> string option" where
  "peekStickyConnectionId messageHash m = map_option sb_connection (map_of m messageHash)"

definition releaseStickyPinOnFailure :: "string option \<Rightarrow> string option \<Rightarrow> binding_map \<Rightarrow> binding_map" where
  "releaseStickyPinOnFailure messageHash failed m =
     (if \<not> truthy messageHash \<or> \<not> truthy failed then m
      else if peekStickyConnectionId (the messageHash) m \<noteq> failed then m
      else clearStickyBinding (the messageHash) m)"

definition resolveDisableSessionStickiness :: "json \<Rightarrow> json \<Rightarrow> bool" where
  "resolveDisableSessionStickiness config settings =
     (case get_prop ''disableSessionStickiness'' config of
        JBool b \<Rightarrow> b
      | _ \<Rightarrow> get_prop ''disableSessionStickiness'' settings = JBool True)"

section \<open>Session stickiness\<close>

definition clampUtil :: "rat option \<Rightarrow> rat" where
  "clampUtil v = (case v of None \<Rightarrow> 0 | Some q \<Rightarrow> if q \<le> 0 then 0 else if q \<ge> 1 then 1 else q)"

definition computeHeadroom :: "(rat option \<times> rat option) option \<Rightarrow> rat" where
  "computeHeadroom sat = 1 - max (clampUtil (Option.bind sat fst)) (clampUtil (Option.bind sat snd))"

record connection_health =
  ch_testStatus :: "string option"
  ch_rateLimitedUntil :: "time option"

definition TERMINAL_STICKY_STATUSES :: "string list" where
  "TERMINAL_STICKY_STATUSES = [''credits_exhausted'', ''banned'', ''expired'']"

text \<open>A date that cannot be read is no date.\<close>

definition isStickyConnectionTerminallyUnhealthy :: "connection_health option \<Rightarrow> time \<Rightarrow> bool" where
  "isStickyConnectionTerminallyUnhealthy conn now =
     (case conn of None \<Rightarrow> False
      | Some c \<Rightarrow> nullish (ch_testStatus c) [] \<in> set TERMINAL_STICKY_STATUSES
                  \<or> nullish (ch_rateLimitedUntil c) 0 > now)"

record sticky_probe =
  sp_saturation :: "(rat option \<times> rat option) option"
  sp_health :: "connection_health option"
  sp_quotaExhausted :: bool

definition reusable :: "time \<Rightarrow> sticky_probe \<Rightarrow> bool" where
  "reusable now p \<longleftrightarrow> \<not> (computeHeadroom (sp_saturation p) \<le> STICKINESS_HEADROOM_THRESHOLD
     \<or> isStickyConnectionTerminallyUnhealthy (sp_health p) now \<or> sp_quotaExhausted p)"

fun target_index :: "string option \<Rightarrow> dispatch_target list \<Rightarrow> nat option" where
  "target_index c [] = None"
| "target_index c (t # ts) = (if dt_connection t = c then Some 0 else map_option Suc (target_index c ts))"

record stickiness =
  sk_targets :: "dispatch_target list"
  sk_messageHash :: "string option"
  sk_stuck :: bool

definition applySessionStickiness ::
    "(string \<Rightarrow> string) \<Rightarrow> (string \<Rightarrow> string \<Rightarrow> sticky_probe) \<Rightarrow> time \<Rightarrow> dispatch_target list \<Rightarrow> string option \<Rightarrow> string
      \<Rightarrow> binding_map \<Rightarrow> stickiness \<times> binding_map" where
  "applySessionStickiness sha probe now targets raw namespace m =
     (if length targets \<le> 1 then (\<lparr>sk_targets = targets, sk_messageHash = None, sk_stuck = False\<rparr>, m)
      else case raw of
        None \<Rightarrow> (\<lparr>sk_targets = targets, sk_messageHash = None, sk_stuck = False\<rparr>, m)
      | Some h0 \<Rightarrow>
          let h = scopeMessageHash sha h0 namespace;
              free = \<lparr>sk_targets = targets, sk_messageHash = Some h, sk_stuck = False\<rparr>
          in case map_of m h of
               None \<Rightarrow> (free, m)
             | Some e0 \<Rightarrow>
                 let e = (if namespace \<noteq> [] then e0\<lparr>sb_namespace := Some namespace\<rparr> else e0);
                     m1 = map_set h e m
                 in if now - sb_lastUsedAt e > TTL_MS then (free, clearStickyBinding h m1)
                    else case target_index (Some (sb_connection e)) targets of
                           None \<Rightarrow> (free, clearStickyBinding h m1)
                         | Some i \<Rightarrow>
                             if \<not> reusable now (probe (sb_connection e) (dt_provider (targets ! i)))
                             then (free, clearStickyBinding h m1)
                             else (\<lparr>sk_targets = targets ! i # take i targets @ drop (Suc i) targets,
                                    sk_messageHash = Some h, sk_stuck = True\<rparr>,
                                   map_set h (e\<lparr>sb_lastUsedAt := now\<rparr>) m1))"

section \<open>Prompt-cache affinity\<close>

record affinity_row =
  ar_id :: "string option"
  ar_authType :: "string option"

definition promptCacheTargetIdentity :: "dispatch_target \<Rightarrow> string" where
  "promptCacheTargetIdentity t =
     (let c = trim (nullish (dt_connection t) [])
      in if c \<noteq> [] then ''connection:'' @ c else ''execution:'' @ dt_key t)"

definition combinedAffinityScore ::
    "(string \<Rightarrow> string \<Rightarrow> rat) \<Rightarrow> (string option \<Rightarrow> rat) \<Rightarrow> string \<Rightarrow> dispatch_target \<Rightarrow> rat" where
  "combinedAffinityScore score availability key t =
     score key (promptCacheTargetIdentity t) * (75 / 100)
     + (if dt_authType t = Some ''oauth'' then availability (dt_connection t) else 1) * (25 / 100)"

definition affinity_provider :: "(string \<Rightarrow> string) \<Rightarrow> dispatch_target \<Rightarrow> string" where
  "affinity_provider parsed t =
     (if dt_provider t \<noteq> [] then dt_provider t
      else if parsed (dt_modelStr t) \<noteq> [] then parsed (dt_modelStr t) else ''unknown'')"

definition row_of :: "string \<Rightarrow> affinity_row list \<Rightarrow> affinity_row option" where
  "row_of c rows = find (\<lambda>r. ar_id r = Some c) rows"

definition expand_target :: "(string \<Rightarrow> string) \<Rightarrow> (string \<Rightarrow> affinity_row list) \<Rightarrow> dispatch_target \<Rightarrow> dispatch_target list" where
  "expand_target parsed rows_of t =
     (let rows = rows_of (affinity_provider parsed t) in
      if truthy (dt_connection t)
      then [t\<lparr>dt_authType := (case Option.bind (row_of (the (dt_connection t)) rows) ar_authType of
                                Some a \<Rightarrow> Some a | None \<Rightarrow> dt_authType t)\<rparr>]
      else let ids = filter (\<lambda>c. c \<noteq> []) (map (\<lambda>r. trim (nullish (ar_id r) [])) rows);
               scoped = (case dt_allowed t of None \<Rightarrow> ids
                         | Some cs \<Rightarrow> filter (\<lambda>c. c \<in> set (filter (\<lambda>c. trim c \<noteq> []) cs)) ids)
           in if scoped = [] then [t]
              else map (\<lambda>c. t\<lparr>dt_connection := Some c, dt_authType := Option.bind (row_of c rows) ar_authType,
                              dt_key := dt_key t @ ''@'' @ c\<rparr>) scoped)"

definition expandPromptCacheAffinityTargets ::
    "(string \<Rightarrow> string) \<Rightarrow> (string \<Rightarrow> affinity_row list) \<Rightarrow> dispatch_target list \<Rightarrow> dispatch_target list" where
  "expandPromptCacheAffinityTargets parsed rows_of targets = concat (map (expand_target parsed rows_of) targets)"

text \<open>The comparator; the index decides last.\<close>

definition affinity_order ::
    "(dispatch_target \<Rightarrow> rat) \<Rightarrow> (string \<Rightarrow> string \<Rightarrow> rat) \<Rightarrow> nat \<times> dispatch_target \<Rightarrow> nat \<times> dispatch_target \<Rightarrow> rat" where
  "affinity_order rank collate a b =
     (if rank (snd a) > rank (snd b) then -1
      else if rank (snd a) < rank (snd b) then 1
      else let c = collate (promptCacheTargetIdentity (snd a)) (promptCacheTargetIdentity (snd b))
           in if c \<noteq> 0 then c else of_nat (fst a) - of_nat (fst b))"

definition rank_targets ::
    "(dispatch_target \<Rightarrow> rat) \<Rightarrow> (string \<Rightarrow> string \<Rightarrow> rat) \<Rightarrow> (nat \<times> dispatch_target) list
      \<Rightarrow> (nat \<times> dispatch_target) list" where
  "rank_targets rank collate entries = js_sort (affinity_order rank collate) entries"

definition getBaseModelIdentity :: "dispatch_target \<Rightarrow> string" where
  "getBaseModelIdentity t =
     (let b = takeWhile (\<lambda>c. c \<noteq> CHR ''@'') (dt_key t) in if b \<noteq> [] then b else dt_modelStr t)"

definition in_group :: "string \<Rightarrow> nat \<times> dispatch_target \<Rightarrow> bool" where
  "in_group b e \<longleftrightarrow> getBaseModelIdentity (snd e) = b"

text \<open>
  The order of the targets and whether the affinity was applied; \<open>key\<close> is absent when the affinity is off or
  the request has none. Within models, an order is applied when it changes the position of a target.
\<close>

definition applyPromptCacheAffinity ::
    "(string \<Rightarrow> dispatch_target \<Rightarrow> rat) \<Rightarrow> (string \<Rightarrow> string \<Rightarrow> rat) \<Rightarrow> bool \<Rightarrow> string option \<Rightarrow> dispatch_target list
      \<Rightarrow> dispatch_target list \<times> bool" where
  "applyPromptCacheAffinity rank collate per_model key targets =
     (case key of None \<Rightarrow> (targets, False)
      | Some k \<Rightarrow>
          if length targets \<le> 1 then (targets, False)
          else let entries = zip [0..<length targets] targets
               in if per_model
                  then let groups = rev (remdups (rev (map getBaseModelIdentity targets)));
                           ranked = concat (map (\<lambda>b. rank_targets (rank k) collate (filter (in_group b) entries)) groups)
                       in (map snd ranked, map fst ranked \<noteq> [0..<length targets])
                  else (map snd (rank_targets (rank k) collate entries), True))"

section \<open>The map of bindings\<close>

lemma oldest_of_mem: "oldest_of b xs \<in> insert (fst b) (fst ` set xs)"
  by (induction xs arbitrary: b) auto

lemma oldest_of_has: "map_has (oldest_of x xs) (x # xs)"
  using oldest_of_mem [of x xs] by (auto simp: map_has_iff)

lemma drop_oldest_less: "m \<noteq> [] \<Longrightarrow> length (drop_oldest m) < length m"
  using length_map_del_less [OF oldest_of_has] by (cases m) (simp_all add: drop_oldest_def)

lemma drop_oldest_length: "length ((drop_oldest ^^ n) m) \<le> length m - n"
proof (induction n)
  case (Suc n)
  show ?case
  proof (cases "(drop_oldest ^^ n) m = []")
    case True
    have "drop_oldest [] = []" by (simp add: drop_oldest_def)
    then show ?thesis using True by simp
  next
    case False
    then show ?thesis using drop_oldest_less [OF False] Suc.IH by simp
  qed
qed simp

lemma evict_bounded: "length (evict now m) \<le> MAX_ENTRIES"
  using drop_oldest_length [of "length ms - MAX_ENTRIES" ms for ms] unfolding evict_def Let_def
  by (metis (no_types, lifting) diff_diff_cancel diff_is_0_eq' le_cases le_trans)

lemma drop_oldest_map: "map_of (drop_oldest m) k = None \<or> map_of (drop_oldest m) k = map_of m k"
  by (cases m) (simp_all add: drop_oldest_def)

lemma length_set_le: "length (map_set k v m) \<le> Suc (length m)"
  by (simp add: length_map_set)

text \<open>What can happen to the bindings.\<close>

datatype binding_event = Bind string string "string option" time | Clear string | Clear_combo string
  | Release "string option" "string option"
  | Apply "string \<Rightarrow> string" "string \<Rightarrow> string \<Rightarrow> sticky_probe" time "dispatch_target list" "string option" string

fun binding_step :: "binding_map \<Rightarrow> binding_event \<Rightarrow> binding_map" where
  "binding_step m (Bind h c ns now) = recordStickyBinding h c ns now m"
| "binding_step m (Clear h) = clearStickyBinding h m"
| "binding_step m (Clear_combo ns) = clearStickyBindingsForCombo ns m"
| "binding_step m (Release h c) = releaseStickyPinOnFailure h c m"
| "binding_step m (Apply sha probe now ts raw ns) = snd (applySessionStickiness sha probe now ts raw ns m)"

lemma record_length: "length m \<le> Suc MAX_ENTRIES \<Longrightarrow> length (recordStickyBinding h c ns now m) \<le> Suc MAX_ENTRIES"
  using le_trans [OF length_set_le Suc_le_mono [THEN iffD2, OF evict_bounded]]
  by (auto simp: recordStickyBinding_def length_map_set map_has_def split: option.split)

lemma apply_length: "length (snd (applySessionStickiness sha probe now ts raw ns m)) \<le> length m"
proof -
  have set: "length (map_set h e m) = length m" if "map_of m h = Some e0" for h e e0
    using that by (simp add: length_map_set map_has_def)
  have "length (map_del h (map_set h e m)) \<le> length m" if "map_of m h = Some e0" for h e e0
    using length_map_del_le [of h "map_set h e m"] set [OF that] by simp
  then show ?thesis
    using set by (auto simp: applySessionStickiness_def Let_def clearStickyBinding_def length_map_set map_has_def
        split: option.split)
qed

interpretation bindings: machine binding_step "\<lambda>m. length m \<le> Suc MAX_ENTRIES"
proof
  fix m :: binding_map and e
  assume m: "length m \<le> Suc MAX_ENTRIES"
  then show "length (binding_step m e) \<le> Suc MAX_ENTRIES"
    using le_trans [OF length_map_del_le m] le_trans [OF length_filter_le m] le_trans [OF apply_length m]
    by (cases e) (simp_all add: record_length clearStickyBinding_def clearStickyBindingsForCombo_def
        releaseStickyPinOnFailure_def)
qed

text \<open>
  The bindings take bounded room: whatever is recorded, read, released and cleared, the map never holds more
  than 501 of them. It can hold 501, since the room is made before the new binding is added.
\<close>

theorem bindings_bounded: "length (foldl binding_step [] es) \<le> 501"
  using bindings.run_inv [of "[]" es] by (simp add: MAX_ENTRIES_def)

lemma full_map_overflows:
  assumes "length m = MAX_ENTRIES" and "\<forall>(k, e) \<in> set m. now - sb_lastUsedAt e \<le> TTL_MS" and "map_of m h = None"
  shows "length (recordStickyBinding h c ns now m) = 501"
proof -
  have "filter (\<lambda>(k, e). \<not> TTL_MS < now - sb_lastUsedAt e) m = m" using assms(2) by (auto simp: filter_id_conv)
  then have "evict now m = m" using assms(1) by (simp add: evict_def Let_def not_less)
  then show ?thesis using assms by (simp add: recordStickyBinding_def length_map_set map_has_def MAX_ENTRIES_def)
qed

section \<open>Stickiness\<close>

lemma target_index_Some: "target_index c ts = Some i \<Longrightarrow> i < length ts \<and> dt_connection (ts ! i) = c
    \<and> (\<forall>j<i. dt_connection (ts ! j) \<noteq> c)"
  by (induction ts arbitrary: i) (fastforce simp: less_Suc_eq_0_disj split: if_splits)+

lemma target_index_None: "target_index c ts = None \<longleftrightarrow> (\<forall>t\<in>set ts. dt_connection t \<noteq> c)"
  by (induction ts) auto

lemma mset_to_front: "i < length ts \<Longrightarrow> mset (ts ! i # take i ts @ drop (Suc i) ts) = mset ts"
  by (metis Cons_nth_drop_Suc append_take_drop_id mset.simps(2) mset_append union_mset_add_mset_right)

text \<open>Stickiness moves at most one target, and only to a connection that is bound, fresh and reusable.\<close>

theorem sticks_only_when_bound:
  assumes "applySessionStickiness sha probe now ts raw ns m = (k, m')" and "raw = Some h0"
  defines "h \<equiv> scopeMessageHash sha h0 ns"
  shows "mset (sk_targets k) = mset ts
    \<and> (sk_stuck k \<longleftrightarrow> length ts > 1 \<and> (\<exists>e i. map_of m h = Some e \<and> now - sb_lastUsedAt e \<le> TTL_MS
          \<and> target_index (Some (sb_connection e)) ts = Some i
          \<and> reusable now (probe (sb_connection e) (dt_provider (ts ! i)))))
    \<and> (sk_stuck k \<longrightarrow> sk_targets k \<noteq> [] \<and> dt_connection (hd (sk_targets k)) = peekStickyConnectionId h m
          \<and> peekStickyConnectionId h m' = peekStickyConnectionId h m)
    \<and> (\<not> sk_stuck k \<longrightarrow> sk_targets k = ts \<and> (length ts > 1 \<longrightarrow> map_of m' h = None))"
proof -
  have "mset (ts ! i # take i ts @ drop (Suc i) ts) = mset ts \<and> dt_connection (ts ! i) = c"
    if "target_index c ts = Some i" for c i
    using target_index_Some [OF that] mset_to_front by auto
  then show ?thesis
    using assms(1) unfolding assms(2) h_def [symmetric]
    by (auto simp: applySessionStickiness_def Let_def peekStickyConnectionId_def clearStickyBinding_def h_def [symmetric]
        split: if_splits option.splits)
qed

text \<open>Stickiness for a conversation that is bound: the next turn starts where the last one was served.\<close>

lemma bound_conversation_sticks:
  assumes "peekStickyConnectionId (scopeMessageHash sha h0 ns) m = Some c" and "length ts > 1"
    and "map_of m (scopeMessageHash sha h0 ns) = Some e" and "now - sb_lastUsedAt e \<le> TTL_MS"
    and "\<exists>t\<in>set ts. dt_connection t = Some c" and "\<And>p. reusable now (probe c p)"
  shows "sk_stuck (fst (applySessionStickiness sha probe now ts (Some h0) ns m))
    \<and> dt_connection (hd (sk_targets (fst (applySessionStickiness sha probe now ts (Some h0) ns m)))) = Some c"
proof -
  obtain k m' where k: "applySessionStickiness sha probe now ts (Some h0) ns m = (k, m')" by fastforce
  obtain i where "target_index (Some c) ts = Some i" using assms(5) target_index_None [of "Some c" ts] by auto
  moreover have "sb_connection e = c" using assms(1,3) by (simp add: peekStickyConnectionId_def)
  ultimately have "sk_stuck k" using sticks_only_when_bound [OF k refl] assms(2-4,6) by simp
  then show ?thesis using sticks_only_when_bound [OF k refl] assms(1) by (simp add: k)
qed

section \<open>Affinity\<close>

lemma affinity_comparator:
  assumes "comparator collate (\<lambda>_. True)" and anti: "\<And>x y. collate x y < 0 \<longleftrightarrow> collate y x > 0"
  shows "comparator (affinity_order rank collate) (\<lambda>_. True)"
proof
  fix a b assume "\<not> affinity_order rank collate a b < 0"
  then show "affinity_order rank collate b a \<le> 0"
    using anti [of "promptCacheTargetIdentity (snd a)" "promptCacheTargetIdentity (snd b)"]
      anti [of "promptCacheTargetIdentity (snd b)" "promptCacheTargetIdentity (snd a)"]
    by (auto simp: affinity_order_def Let_def split: if_splits)
next
  fix a b c assume le: "affinity_order rank collate a b \<le> 0" "affinity_order rank collate b c \<le> 0"
  let ?i = "\<lambda>x. promptCacheTargetIdentity (snd x)"
  have t: "collate x z \<le> 0" if "collate x y \<le> 0" "collate y z \<le> 0" for x y z
    using comparator.trans [OF assms(1)] that by blast
  have "collate (?i a) (?i b) = 0 \<and> collate (?i b) (?i c) = 0"
    if "collate (?i a) (?i b) \<le> 0" "collate (?i b) (?i c) \<le> 0" "collate (?i a) (?i c) = 0"
  proof -
    have "\<not> collate (?i c) (?i a) > 0" using anti [of "?i a" "?i c"] that(3) by simp
    then have "collate (?i b) (?i a) \<le> 0" "collate (?i c) (?i b) \<le> 0"
      using t [of "?i b" "?i c" "?i a"] t [of "?i c" "?i a" "?i b"] that by (simp_all add: not_less)
    then show ?thesis using anti [of "?i a" "?i b"] anti [of "?i b" "?i c"] that by linarith
  qed
  then show "affinity_order rank collate a c \<le> 0"
    using le t [of "?i a" "?i b" "?i c"] unfolding affinity_order_def Let_def by (auto split: if_splits)
qed

lemma mset_rank [simp]: "mset (rank_targets rank collate entries) = mset entries"
  by (simp add: rank_targets_def)

text \<open>
  The affinity reorders the targets: it drops and repeats none, and the target it puts first has the best
  score, so that a request with the same key comes back to the same account. \<open>collate\<close> is a total preorder.
\<close>

theorem affinity_ranks_best_first:
  assumes "comparator collate (\<lambda>_. True)" and "\<And>x y. collate x y < 0 \<longleftrightarrow> collate y x > 0"
    and "applyPromptCacheAffinity rank collate False (Some k) ts = (ts', True)"
  shows "mset ts' = mset ts \<and> ts' \<noteq> [] \<and> (\<forall>t\<in>set ts. rank k t \<le> rank k (hd ts'))"
proof -
  let ?es = "zip [0..<length ts] ts" and ?cmp = "affinity_order (rank k) collate"
  have ts': "ts' = map snd (js_sort ?cmp ?es)" and "ts \<noteq> []"
    using assms(3) by (auto simp: applyPromptCacheAffinity_def rank_targets_def split: if_splits)
  have "mset (map snd ?es) = mset ts" by simp
  then have perm: "mset ts' = mset ts" unfolding ts' by (metis mset_js_sort mset_map)
  then have ne: "ts' \<noteq> []" using \<open>ts \<noteq> []\<close> by auto
  then obtain x where x: "first_of (js_sort ?cmp ?es) = Some x" by (cases "js_sort ?cmp ?es") (auto simp: ts')
  then have hd: "hd ts' = snd x" by (cases "js_sort ?cmp ?es") (simp_all add: ts')
  have "rank k t \<le> rank k (hd ts')" if "t \<in> set ts" for t
  proof -
    have "t \<in> snd ` set ?es" using that by (metis length_map length_upt list.set_map map_snd_zip minus_nat.diff_0)
    then obtain y where y: "y \<in> set ?es" "snd y = t" by auto
    have "?cmp x y \<le> 0"
      by (rule comparator.first_is_least [OF affinity_comparator [OF assms(1,2)] _ x y(1)]) simp
    then show ?thesis by (auto simp: hd y(2) affinity_order_def split: if_splits)
  qed
  then show ?thesis using perm ne by simp
qed

section \<open>What modelling showed\<close>

lemma map_of_filter: "map_of m k = Some v \<Longrightarrow> P (k, v) \<Longrightarrow> map_of (filter P m) k = Some v"
  by (induction m) (auto split: if_splits)

lemma evict_absent: "map_of m h = None \<Longrightarrow> map_of (evict now m) h = None"
proof -
  assume m: "map_of m h = None"
  have "map_of (filter P m) h = None" for P using m by (auto simp: map_of_eq_None_iff)
  moreover have "map_of ((drop_oldest ^^ n) m') h = None" if "map_of m' h = None" for n m'
    using that drop_oldest_map [of _ h] by (induction n) (auto, metis)
  ultimately show ?thesis by (simp add: evict_def Let_def)
qed

text \<open>
  Disabling stickiness forgets the bindings of the combo, but not one that was recorded and never read back:
  both callers of \<open>recordStickyBinding\<close> leave out the combo, which only a later turn fills in. When
  stickiness is enabled again within a quarter of an hour, that binding is in force.
\<close>

lemma fresh_binding_survives_disabling:
  assumes "map_of m h = None"
  shows "peekStickyConnectionId h (clearStickyBindingsForCombo ns (recordStickyBinding h c None now m)) = Some c"
proof -
  have "map_of (recordStickyBinding h c None now m) h
      = Some \<lparr>sb_connection = c, sb_createdAt = now, sb_lastUsedAt = now, sb_namespace = None\<rparr>"
    using assms by (simp add: recordStickyBinding_def truthy_def)
  then show ?thesis
    using map_of_filter [of "recordStickyBinding h c None now m" h _ "\<lambda>(k, e). sb_namespace e \<noteq> Some ns"]
    by (auto simp: clearStickyBindingsForCombo_def peekStickyConnectionId_def)
qed

end
