(* ===== verification/RoundRobinLoop.thy ===== *)
theory RoundRobinLoop
  imports ComboAttempt RoundRobin TargetAffinity
begin

text \<open>
  A request of a round-robin combo: \<open>handleRoundRobinCombo\<close> of
  \<open>src/open-sse/services/combo/roundRobinCombo.ts\<close> from its filtered targets (line 299) to the response, with
  the maps of the rotation (\<^verbatim>\<open>RoundRobin\<close>) and of the sticky bindings (\<^verbatim>\<open>TargetAffinity\<close>) before and after. It
  shares the failure classification, the exhaustion sets and the trace of effects with the other strategies
  (\<^verbatim>\<open>ComboAttempt\<close>).

  \<^item> The request takes its place in the rotation on the filtered targets. Then the prompt-cache affinity may
    bind targets to accounts and reorder them, and session stickiness or affinity may set another start
    index: \<open>reroute\<close>, lines 366-424. \<open>rr_routing\<close> is what these ask; session stickiness is on by default.

  \<^item> \<open>gate\<close> is what a target meets before its attempts, \<open>env k\<close> what attempt number \<open>k\<close> of the request meets.
  \<^item> The safety timer is a flag of the place where the code looks at it: at the head of the loop, or when
    the race of an attempt is over.
  \<^item> The slot of the semaphore is taken after the gates and given back when the attempts end, whatever ends
    them; its gate is \<^verbatim>\<open>RateLimitSemaphore\<close>.
  \<^item> Whether the targets the compatibility filter rejected have an answer is an argument. Messages and the
    opt-in reservation of quota are left out.

  The lemmas: where a request starts, the order in which targets are called, the bounds on calls, that the
  rotation goes on behind the target that answered, and that a conversation stays on its connection.
\<close>

section \<open>What a request meets\<close>

datatype slot = Slot | Slot_timeout_or_full | Slot_error

record rr_gate =
  rg_expired :: bool
  rg_available :: bool
  rg_cooldown :: bool
  rg_admitted :: bool
  rg_slot :: slot

record rr_attempt =
  re_expired :: bool
  re_throws :: bool
  re_reply :: reply
  re_allLimited :: bool
  re_abortedInWait :: bool

record rr_config =
  rc_maxRetries :: nat
  rc_maxGlobalAttempts :: json
  rc_failoverExplicit :: bool
  rc_fallbackDelayMs :: int
  rc_cooldownEnabled :: bool
  rc_stickyHash :: bool

text \<open>How the attempts on a target end, and how the loop ends.\<close>

datatype rr_result = RR_next | RR_good nat | RR_handed nat | RR_exceeded | RR_disconnected | RR_expired | RR_crashed

datatype rr_outcome = RR_done rr_result | RR_retry

definition TRANSIENT_FOR_SEMAPHORE :: "int list" where
  "TRANSIENT_FOR_SEMAPHORE = [429, 502, 503, 504]"

section \<open>An attempt\<close>

definition rr_good :: "rr_config \<Rightarrow> nat \<Rightarrow> nat \<Rightarrow> dispatch_target \<Rightarrow> nat \<Rightarrow> reply \<Rightarrow> attempt_state \<Rightarrow> rr_outcome \<times> attempt_state" where
  "rr_good cfg offset i t k r s =
     (let conn = effective_connection t r in
      if \<not> r_quality r
      then (RR_done RR_next,
            bumpFallback offset (push_error 502 Quality (record_failed i
              (emit (Release_pin (if truthy (r_selected r) then r_selected r else dt_connection t)) s))))
      else (RR_done (RR_good k),
            when_emit (dt_provider t \<noteq> []) (Set_lkgp i (if conn = [] then None else Some conn))
              (when_emit (rc_stickyHash cfg \<and> conn \<noteq> []) (Bind_sticky conn)
                (when_emit (real_provider (dt_provider t)) (Provider_success i (if conn = [] then None else Some conn))
                  (when_emit (has_model t) (Model_recovery i conn)
                    ((emit (Combo_request i True) s)\<lparr>recordedAttempts := Suc (recordedAttempts s)\<rparr>))))))"

definition rr_finish_error ::
    "rr_config \<Rightarrow> nat \<Rightarrow> nat \<Rightarrow> dispatch_target \<Rightarrow> string option \<Rightarrow> rr_attempt \<Rightarrow> attempt_state \<Rightarrow> rr_outcome \<times> attempt_state" where
  "rr_finish_error cfg offset i t conn e s =
     (let r = re_reply e; f = r_failure r; status = f_status f;
          s1 = bumpFallback offset (push_error status (classifyComboOutcome status (r_authText r))
                 ((emit (Clear_lkgp i) (record_failed i s))));
          s2 = when_emit (rc_cooldownEnabled cfg \<and> real_provider (dt_provider t)
                 \<and> \<not> isComboRequestScopedFailure r \<and> \<not> ((status = 500 \<or> status = 429) \<and> f_perModelQuota f))
                 (Provider_cooldown i conn) s1;
          cool = cooldownMs (f_fallback f);
          waits = rc_fallbackDelayMs cfg > 0 \<and> cool > 0 \<and> cool \<le> MAX_FALLBACK_WAIT_MS
      in (RR_done (if status \<in> {502, 503, 504} \<and> waits \<and> re_abortedInWait e then RR_disconnected else RR_next), s2))"

definition rr_upstream_error ::
    "rr_config \<Rightarrow> nat \<Rightarrow> nat \<Rightarrow> nat \<Rightarrow> dispatch_target \<Rightarrow> rr_attempt \<Rightarrow> nat \<Rightarrow> attempt_state \<Rightarrow> rr_outcome \<times> attempt_state" where
  "rr_upstream_error cfg modelCount offset i t e retry s =
     (let r = re_reply e; f = r_failure r; status = f_status f;
          tc = with_selected t r; conn = dt_connection tc; p = dt_provider t;
          (providerExhausted, S) = applyComboTargetExhaustion tc f (isTokenLimitBreach f) (re_allLimited e)
            (isComboRequestScopedFailure r) (sets s);
          stale = providerExhausted
            \<or> (conn \<noteq> None \<and> connection_key p (the conn) \<in> exhaustedConnections S)
            \<or> (p \<noteq> [] \<and> p \<in> exhaustedProviders S);
          s1 = when_emit stale (Clear_lkgp i) (emit (Release_pin conn) (s\<lparr>sets := S\<rparr>));
          s2 = when_emit (\<not> isStreamReadinessFailure f \<and> \<not> isTokenLimitBreach f \<and> \<not> isComboRequestScopedFailure r
                 \<and> status \<in> set TRANSIENT_FOR_SEMAPHORE \<and> cooldownMs (f_fallback f) > 0)
                 (Slot_cooldown i (cooldownMs (f_fallback f))) s1
      in if retry < rc_maxRetries cfg \<and> isTransient r \<and> \<not> providerExhausted
            \<and> (\<not> rc_failoverExplicit cfg \<or> Suc offset \<ge> modelCount)
         then (RR_retry, s2)
         else rr_finish_error cfg offset i t conn e s2)"

definition rr_error ::
    "rr_config \<Rightarrow> nat \<Rightarrow> nat \<Rightarrow> nat \<Rightarrow> dispatch_target \<Rightarrow> nat \<Rightarrow> rr_attempt \<Rightarrow> nat \<Rightarrow> attempt_state
      \<Rightarrow> rr_outcome \<times> attempt_state" where
  "rr_error cfg modelCount offset i t k e retry s =
     (let r = re_reply e; f = r_failure r in
      if f_status f = 499 then (RR_done (RR_handed k), record_failed i s)
      else let s0 = note_retry_after r s
           in if isLocalQueueCapacityErrorBody f then (RR_done (RR_handed k), record_failed i s0)
              else rr_upstream_error cfg modelCount offset i t e retry s0)"

primrec rr_attempts ::
    "nat \<Rightarrow> rr_config \<Rightarrow> nat \<Rightarrow> (nat \<Rightarrow> rr_attempt) \<Rightarrow> nat \<Rightarrow> nat \<Rightarrow> dispatch_target \<Rightarrow> attempt_state
      \<Rightarrow> rr_result \<times> attempt_state" where
  "rr_attempts 0 cfg modelCount env offset i t s = (RR_next, s)"
| "rr_attempts (Suc n) cfg modelCount env offset i t s =
     (let retry = rc_maxRetries cfg - n; k = Suc (globalAttempts s); e = env k; s1 = s\<lparr>globalAttempts := k\<rparr> in
      if k > clampGlobalAttempts (rc_maxGlobalAttempts cfg) then (RR_exceeded, s1)
      else let s2 = s1\<lparr>comboAttemptOrder := comboAttemptOrder s @ [i]\<rparr>
           in if re_expired e then (RR_expired, s2)
              else if re_throws e then (RR_crashed, s2)
              else case (if r_ok (re_reply e) then rr_good cfg offset i t k (re_reply e) s2
                         else rr_error cfg modelCount offset i t k e retry s2) of
                     (RR_done r, s') \<Rightarrow> (r, s')
                   | (RR_retry, s') \<Rightarrow> rr_attempts n cfg modelCount env offset i t s')"

section \<open>The loop over the targets\<close>

text \<open>The target at an offset from the start; \<open>None\<close> when a gate passes it over.\<close>

definition rr_target ::
    "rr_config \<Rightarrow> dispatch_target list \<Rightarrow> (nat \<Rightarrow> rr_gate) \<Rightarrow> (nat \<Rightarrow> rr_attempt) \<Rightarrow> nat \<Rightarrow> nat \<Rightarrow> attempt_state
      \<Rightarrow> rr_result \<times> attempt_state" where
  "rr_target cfg targets gates env offset i s =
     (let g = gates i; t = targets ! i in
      if rg_expired g then (RR_expired, s)
      else if \<not> rg_available g then (RR_next, bumpFallback offset (emit (Clear_lkgp i) s))
      else if rc_cooldownEnabled cfg \<and> real_provider (dt_provider t) \<and> rg_cooldown g
      then (RR_next, bumpFallback offset (emit (Clear_lkgp i) s))
      else if getExhaustedTargetSkipReason t (sets s) \<noteq> None
      then (RR_next, bumpFallback offset (emit (Clear_lkgp i) s))
      else if \<not> rg_admitted g then (RR_next, bumpFallback offset s)
      else case rg_slot g of
             Slot_timeout_or_full \<Rightarrow> (RR_next, bumpFallback offset s)
           | Slot_error \<Rightarrow> (RR_crashed, s)
           | Slot \<Rightarrow> rr_attempts (Suc (rc_maxRetries cfg)) cfg (length targets) env offset i t s)"

primrec rr_targets ::
    "nat \<Rightarrow> rr_config \<Rightarrow> dispatch_target list \<Rightarrow> (nat \<Rightarrow> rr_gate) \<Rightarrow> (nat \<Rightarrow> rr_attempt) \<Rightarrow> nat \<Rightarrow> attempt_state
      \<Rightarrow> (nat \<times> rr_result) \<times> attempt_state" where
  "rr_targets 0 cfg targets gates env start s = ((0, RR_next), s)"
| "rr_targets (Suc n) cfg targets gates env start s =
     (let offset = length targets - Suc n; i = (start + offset) mod length targets in
      case rr_target cfg targets gates env offset i s of
        (RR_next, s') \<Rightarrow> rr_targets n cfg targets gates env start s'
      | (r, s') \<Rightarrow> ((i, r), s'))"

section \<open>The response\<close>

datatype rr_response = RR_answer nat nat | RR_upstream nat | RR_503_exceeded | RR_499 | RR_504 | RR_500
  | RR_compat | RR_all_skipped | RR_all_inactive | RR_unavailable int time | RR_failed int

definition rr_exhausted :: "bool \<Rightarrow> attempt_state \<Rightarrow> rr_response" where
  "rr_exhausted rejected_answer s =
     (if recordedAttempts s = 0 \<and> rejected_answer then RR_compat
      else case a_lastStatus s of
             None \<Rightarrow> if recordedAttempts s = 0 then RR_all_skipped else RR_all_inactive
           | Some st \<Rightarrow>
               if st = 0 then (if recordedAttempts s = 0 then RR_all_skipped else RR_all_inactive)
               else let status = resolveComboTerminalStatus (comboErrors s) st
                    in case a_retryAfter s of
                         Some ra \<Rightarrow> if isRetryAfterEligibleStatus status then RR_unavailable status ra else RR_failed status
                       | None \<Rightarrow> RR_failed status)"

definition rr_respond :: "bool \<Rightarrow> nat \<times> rr_result \<Rightarrow> attempt_state \<Rightarrow> rr_response" where
  "rr_respond rejected_answer ir s =
     (case ir of (i, r) \<Rightarrow>
      case r of RR_next \<Rightarrow> rr_exhausted rejected_answer s | RR_good k \<Rightarrow> RR_answer i k | RR_handed k \<Rightarrow> RR_upstream k
      | RR_exceeded \<Rightarrow> RR_503_exceeded | RR_disconnected \<Rightarrow> RR_499 | RR_expired \<Rightarrow> RR_504 | RR_crashed \<Rightarrow> RR_500)"

section \<open>Stickiness and affinity\<close>

record rr_routing =
  rt_disableStickiness :: bool
  rt_affinityKey :: "string option"
  rt_rows :: "string \<Rightarrow> affinity_row list"
  rt_parsed :: "string \<Rightarrow> string"
  rt_rank :: "string \<Rightarrow> dispatch_target \<Rightarrow> rat"
  rt_collate :: "string \<Rightarrow> string \<Rightarrow> rat"
  rt_messageHash :: "string option"
  rt_sha :: "string \<Rightarrow> string"
  rt_probe :: "string \<Rightarrow> string \<Rightarrow> sticky_probe"
  rt_now :: time
  rt_answeredAt :: time

definition session_stickiness ::
    "rr_routing \<Rightarrow> string \<Rightarrow> dispatch_target list \<Rightarrow> binding_map \<Rightarrow> stickiness \<times> binding_map" where
  "session_stickiness rt name targets bs =
     (if rt_disableStickiness rt
      then (\<lparr>sk_targets = targets, sk_messageHash = None, sk_stuck = False\<rparr>, clearStickyBindingsForCombo name bs)
      else applySessionStickiness (rt_sha rt) (rt_probe rt) (rt_now rt) targets (rt_messageHash rt) name bs)"

text \<open>
  The targets of the loop, its start index, the key of the conversation and the bindings. Two targets with the
  same fields are the same target here, where the code compares objects.
\<close>

definition reroute ::
    "rr_routing \<Rightarrow> string \<Rightarrow> nat \<Rightarrow> dispatch_target list \<Rightarrow> binding_map
      \<Rightarrow> (dispatch_target list \<times> nat \<times> string option) \<times> binding_map" where
  "reroute rt name startIndex targets bs =
     (let bound = (if rt_affinityKey rt \<noteq> None
                   then expandPromptCacheAffinityTargets (rt_parsed rt) (rt_rows rt) targets else targets);
          (sk, bs') = session_stickiness rt name bound bs;
          (ranked, applied) = applyPromptCacheAffinity (rt_rank rt) (rt_collate rt) False (rt_affinityKey rt) bound;
          ts = (if \<not> applied then bound
                else if sk_stuck sk then hd (sk_targets sk) # filter (\<lambda>t. t \<noteq> hd (sk_targets sk)) ranked
                else ranked);
          i = (if applied then 0 else startIndex);
          j = (if sk_stuck sk then nullish (target_index (dt_connection (hd (sk_targets sk))) ts) i else i)
      in ((ts, j, sk_messageHash sk), bs'))"

text \<open>What the loop did to the binding of the conversation, oldest first.\<close>

fun bind_effect :: "string option \<Rightarrow> time \<Rightarrow> binding_map \<Rightarrow> effect \<Rightarrow> binding_map" where
  "bind_effect h now bs (Release_pin c) = releaseStickyPinOnFailure h c bs"
| "bind_effect h now bs (Bind_sticky c) = (if truthy h then recordStickyBinding (the h) c None now bs else bs)"
| "bind_effect h now bs _ = bs"

section \<open>The request\<close>

text \<open>
  \<open>limit\<close> is the size of the sticky batches, \<open>usable\<close> the test of the sticky target of a batch.
\<close>

definition handleRoundRobin ::
    "rr_config \<Rightarrow> string \<Rightarrow> nat \<Rightarrow> (string \<Rightarrow> bool) \<Rightarrow> bool \<Rightarrow> rr_routing \<Rightarrow> dispatch_target list \<Rightarrow> (nat \<Rightarrow> rr_gate)
      \<Rightarrow> (nat \<Rightarrow> rr_attempt) \<Rightarrow> rr_state \<Rightarrow> binding_map
      \<Rightarrow> (rr_response \<times> attempt_state) \<times> rr_state \<times> binding_map" where
  "handleRoundRobin cfg name limit usable rejected_answer rt targets gates env m bs =
     (let (start0, m1) = rr_begin name (map dt_key targets) limit usable m;
          ((ts, start, h), bs1) = reroute rt name start0 targets bs;
          (ir, s) = rr_targets (length ts) (cfg\<lparr>rc_stickyHash := truthy h\<rparr>) ts gates env start new_attempt_state;
          m2 = (case snd ir of RR_good _ \<Rightarrow> rr_success name (map dt_key ts) limit (fst ir) m1 | _ \<Rightarrow> m1);
          bs2 = foldl (bind_effect h (rt_answeredAt rt)) bs1 (rev (effects s))
      in ((rr_respond rejected_answer ir s, s), m2, bs2))"

section \<open>The calls of a request\<close>

lemma quiet_rr_good: "quiet s (snd (rr_good cfg offset i t k r s))"
  by (simp add: rr_good_def Let_def quiet_def kept)

lemma quiet_rr_finish: "quiet s (snd (rr_finish_error cfg offset i t conn e s))"
  by (simp add: rr_finish_error_def Let_def quiet_def kept)

lemma quiet_rr_upstream: "quiet s (snd (rr_upstream_error cfg mc offset i t e retry s))"
proof -
  obtain pe S where a: "applyComboTargetExhaustion (with_selected t (re_reply e)) (r_failure (re_reply e))
      (isTokenLimitBreach (r_failure (re_reply e))) (re_allLimited e) (isComboRequestScopedFailure (re_reply e)) (sets s) = (pe, S)"
    by fastforce
  show ?thesis
    using sets_le_apply [OF a]
    by (auto simp: rr_upstream_error_def Let_def a intro!: quiet_trans [OF _ quiet_rr_finish]) (simp_all add: quiet_def kept)
qed

lemma quiet_rr_error: "quiet s (snd (rr_error cfg mc offset i t k e retry s))"
proof -
  have "quiet s (note_retry_after (re_reply e) s)" by (simp add: quiet_def kept)
  from quiet_trans [OF this quiet_rr_upstream] show ?thesis
    by (auto simp: rr_error_def Let_def quiet_def kept)
qed

abbreviation rr_limit :: "rr_config \<Rightarrow> nat" where
  "rr_limit cfg \<equiv> clampGlobalAttempts (rc_maxGlobalAttempts cfg)"

declare rr_attempts.simps [simp del] rr_targets.simps [simp del]

lemma rr_attempts_calls:
  "rr_attempts n cfg mc env offset i t s = (r, s') \<Longrightarrow>
    \<exists>m\<le>n. calls (rr_limit cfg) s (replicate m i) s' \<and> (\<forall>k. r = RR_good k \<longrightarrow> 0 < m)"
proof (induction n arbitrary: s)
  case 0
  then show ?case by (auto simp: calls_def rr_attempts.simps)
next
  case (Suc n)
  define k where "k = Suc (globalAttempts s)"
  define e where "e = env k"
  define s2 where "s2 = s\<lparr>globalAttempts := k, comboAttemptOrder := comboAttemptOrder s @ [i]\<rparr>"
  define retry where "retry = rc_maxRetries cfg - n"
  let ?out = "if r_ok (re_reply e) then rr_good cfg offset i t k (re_reply e) s2
    else rr_error cfg mc offset i t k e retry s2"
  note step = Suc.prems [unfolded rr_attempts.simps Let_def, folded k_def retry_def, folded e_def, simplified, folded s2_def]
  have one: "calls (rr_limit cfg) s [i] s3" if "k \<le> rr_limit cfg" "quiet s2 s3" for s3
    using that by (simp add: quiet_def calls_def s2_def k_def)
  show ?case
  proof (cases "k > rr_limit cfg \<or> re_expired e \<or> re_throws e")
    case True
    moreover have "quiet s2 s2" "calls (rr_limit cfg) s [] (s\<lparr>globalAttempts := k\<rparr>)"
      by (simp_all add: quiet_def calls_def k_def)
    ultimately show ?thesis
      using step one [of s2] by (cases "k > rr_limit cfg"; cases "re_expired e") (force intro: exI [of _ 0] exI [of _ 1])+
  next
    case False
    obtain out s3 where out: "?out = (out, s3)" by fastforce
    have "quiet s2 s3" using out quiet_rr_good [of s2 cfg offset i t k "re_reply e"]
        quiet_rr_error [of s2 cfg mc offset i t k e retry] by (auto split: if_splits)
    then have c: "calls (rr_limit cfg) s [i] s3" using one False by simp
    show ?thesis
    proof (cases out)
      case (RR_done r')
      then show ?thesis using step False out c by (intro exI [of _ 1]) simp
    next
      case RR_retry
      then obtain m where "m \<le> n" "calls (rr_limit cfg) s3 (replicate m i) s'"
        using Suc.IH [of s3] step False out by auto
      then show ?thesis using calls_append [OF c] by (intro exI [of _ "Suc m"]) simp
    qed
  qed
qed

lemma rr_target_calls:
  assumes "rr_target cfg targets gates env offset i s = (r, s')"
  shows "\<exists>m\<le>Suc (rc_maxRetries cfg). calls (rr_limit cfg) s (replicate m i) s' \<and> (\<forall>k. r = RR_good k \<longrightarrow> 0 < m)
    \<and> (getExhaustedTargetSkipReason (targets ! i) (sets s) \<noteq> None \<longrightarrow> m = 0)"
proof -
  have skip: "calls (rr_limit cfg) s [] s" "calls (rr_limit cfg) s [] (bumpFallback offset s)"
      "calls (rr_limit cfg) s [] (bumpFallback offset (emit x s))" for x
    by (simp_all add: calls_def kept)
  show ?thesis
  proof (cases "\<exists>n. rr_attempts n cfg (length targets) env offset i (targets ! i) s = (r, s')
      \<and> n = Suc (rc_maxRetries cfg) \<and> getExhaustedTargetSkipReason (targets ! i) (sets s) = None")
    case True
    then show ?thesis using rr_attempts_calls by fastforce
  next
    case False
    then show ?thesis using assms skip
      by (intro exI [of _ 0]) (auto simp: rr_target_def Let_def split: if_splits slot.splits)
  qed
qed

lemma rr_targets_calls:
  assumes "rr_targets n cfg targets gates env start s = ((i, r), s')" and "n \<le> length targets"
  shows "\<exists>os. calls (rr_limit cfg) s (map (\<lambda>o'. (start + o') mod length targets) os) s' \<and> sorted os
    \<and> (\<forall>o'\<in>set os. length targets - n \<le> o' \<and> o' < length targets)
    \<and> (\<forall>o'. count_list os o' \<le> Suc (rc_maxRetries cfg))
    \<and> (\<forall>k. r = RR_good k \<longrightarrow> os \<noteq> [] \<and> i = (start + last os) mod length targets)"
  using assms
proof (induction n arbitrary: s)
  case 0
  then show ?case by (intro exI [of _ "[]"]) (auto simp: calls_def rr_targets.simps)
next
  case (Suc n)
  define off where "off = length targets - Suc n"
  have off: "off < length targets" "length targets - n = Suc off" using Suc.prems(2) by (auto simp: off_def)
  define j where "j = (start + off) mod length targets"
  obtain x s1 where x: "rr_target cfg targets gates env off j s = (x, s1)" by fastforce
  from rr_target_calls [OF x] obtain m where m: "m \<le> Suc (rc_maxRetries cfg)"
      "calls (rr_limit cfg) s (replicate m j) s1" "\<forall>k. x = RR_good k \<longrightarrow> 0 < m" by blast
  have rep: "map (\<lambda>o'. (start + o') mod length targets) (replicate m off) = replicate m j" by (simp add: j_def)
  note run = Suc.prems(1) [unfolded rr_targets.simps Let_def, folded off_def, folded j_def, unfolded x]
  show ?case
  proof (cases "x = RR_next")
    case False
    then have "i = j \<and> r = x \<and> s' = s1" using run by (auto split: rr_result.splits)
    then show ?thesis
      using m off unfolding off_def [symmetric]
      by (intro exI [of _ "replicate m off"]) (auto simp: rep count_list_replicate j_def)
  next
    case True
    then have "rr_targets n cfg targets gates env start s1 = ((i, r), s')" using run by simp
    from Suc.IH [OF this] Suc.prems(2) obtain os where os:
        "calls (rr_limit cfg) s1 (map (\<lambda>o'. (start + o') mod length targets) os) s'" "sorted os"
        "\<forall>o'\<in>set os. Suc off \<le> o' \<and> o' < length targets" "\<forall>o'. count_list os o' \<le> Suc (rc_maxRetries cfg)"
        "\<forall>k. r = RR_good k \<longrightarrow> os \<noteq> [] \<and> i = (start + last os) mod length targets"
      unfolding off(2) by auto
    have "off \<notin> set os" using os(3) by auto
    then have "count_list (replicate m off @ os) o' \<le> Suc (rc_maxRetries cfg)" for o'
      using os(4) [rule_format, of o'] m(1)
      by (cases "off = o'") (simp_all add: count_list_append count_list_replicate count_notin)
    moreover have "sorted (replicate m off @ os)" using os(2,3) by (intro sorted_replicate_append) auto
    ultimately show ?thesis
      using calls_append [OF m(2) os(1)] os(3,5) off unfolding off_def [symmetric]
      by (intro exI [of _ "replicate m off @ os"]) (auto simp: rep [unfolded map_replicate])
  qed
qed

section \<open>Where a request starts\<close>

definition bound_targets :: "rr_routing \<Rightarrow> dispatch_target list \<Rightarrow> dispatch_target list" where
  "bound_targets rt targets =
     (if rt_affinityKey rt \<noteq> None then expandPromptCacheAffinityTargets (rt_parsed rt) (rt_rows rt) targets else targets)"

text \<open>The connection that session stickiness keeps the conversation on, if there is one.\<close>

definition kept_connection :: "rr_routing \<Rightarrow> string \<Rightarrow> dispatch_target list \<Rightarrow> binding_map \<Rightarrow> string option" where
  "kept_connection rt name targets bs =
     (let sk = fst (session_stickiness rt name (bound_targets rt targets) bs)
      in if sk_stuck sk then dt_connection (hd (sk_targets sk)) else None)"

lemma stuck_bound:
  assumes "session_stickiness rt name ts bs = (sk, bs')" and "sk_stuck sk"
  shows "sk_targets sk \<noteq> [] \<and> mset (sk_targets sk) = mset ts
    \<and> (\<exists>c. dt_connection (hd (sk_targets sk)) = Some c)"
proof -
  have a: "applySessionStickiness (rt_sha rt) (rt_probe rt) (rt_now rt) ts (rt_messageHash rt) name bs = (sk, bs')"
    and d: "\<not> rt_disableStickiness rt"
    using assms by (auto simp: session_stickiness_def split: if_splits)
  obtain h0 where h: "rt_messageHash rt = Some h0"
    using a assms(2) by (cases "rt_messageHash rt") (auto simp: applySessionStickiness_def split: if_splits)
  show ?thesis
    using sticks_only_when_bound [OF a h] assms(2) by (auto simp: peekStickyConnectionId_def)
qed

lemma index_of_mem: "t \<in> set ts \<Longrightarrow> \<exists>i. target_index (dt_connection t) ts = Some i"
  using target_index_None [of "dt_connection t" ts] by (cases "target_index (dt_connection t) ts") auto

text \<open>
  A request that is kept on a connection starts at a target of that connection; otherwise one with an affinity
  key and a choice of targets starts at the best ranked, and any other where the rotation stands.
\<close>

lemma reroute_start:
  assumes "reroute rt name i0 targets bs = ((ts, start, h), bs')"
  shows "(\<forall>c. kept_connection rt name targets bs = Some c \<longrightarrow> start < length ts \<and> dt_connection (ts ! start) = Some c)
    \<and> (kept_connection rt name targets bs = None \<longrightarrow>
        start = (if rt_affinityKey rt \<noteq> None \<and> length (bound_targets rt targets) > 1 then 0 else i0))
    \<and> (rt_affinityKey rt = None \<longrightarrow> ts = targets)"
proof -
  obtain sk b where sk: "session_stickiness rt name (bound_targets rt targets) bs = (sk, b)" by fastforce
  obtain ranked applied where af: "applyPromptCacheAffinity (rt_rank rt) (rt_collate rt) False (rt_affinityKey rt)
      (bound_targets rt targets) = (ranked, applied)" by fastforce
  have ap: "applied \<longleftrightarrow> rt_affinityKey rt \<noteq> None \<and> length (bound_targets rt targets) > 1"
    using af by (auto simp: applyPromptCacheAffinity_def split: option.splits if_splits)
  have r: "ts = (if \<not> applied then bound_targets rt targets
        else if sk_stuck sk then hd (sk_targets sk) # filter (\<lambda>t. t \<noteq> hd (sk_targets sk)) ranked else ranked)"
      "start = (if sk_stuck sk then nullish (target_index (dt_connection (hd (sk_targets sk))) ts)
         (if applied then 0 else i0) else if applied then 0 else i0)"
    using assms unfolding reroute_def Let_def bound_targets_def [symmetric] sk af by auto
  have kept: "kept_connection rt name targets bs = (if sk_stuck sk then dt_connection (hd (sk_targets sk)) else None)"
    by (simp add: kept_connection_def sk)
  have free: "rt_affinityKey rt = None \<Longrightarrow> bound_targets rt targets = targets" by (simp add: bound_targets_def)
  show ?thesis
  proof (cases "sk_stuck sk")
    case True
    note sb = stuck_bound [OF sk True]
    have "hd (sk_targets sk) \<in> set (bound_targets rt targets)"
      using sb by (metis hd_in_set set_mset_mset)
    then have "hd (sk_targets sk) \<in> set ts" using r(1) True by auto
    then obtain j where "target_index (dt_connection (hd (sk_targets sk))) ts = Some j" using index_of_mem by blast
    then have "start < length ts \<and> dt_connection (ts ! start) = dt_connection (hd (sk_targets sk))"
      using r(2) True target_index_Some by (auto simp: nullish_def)
    then show ?thesis using sb True r(1) ap kept free by auto
  next
    case False
    then show ?thesis using r ap kept free by auto
  qed
qed

section \<open>A request and the next one\<close>

lemma begin_after_success:
  "fst (rr_begin name keys 1 usable (rr_success name keys' 1 i m)) = Suc i mod length keys"
proof -
  let ?m = "set_counter name (Suc i) m"
  have "map_has name (rrCounters ?m)" by (simp add: set_counter_def map_has_def)
  then have "evict_counters name ?m = ?m" by (simp add: evict_counters_def)
  moreover have "clear_stale_sticky name keys 1 usable ?m = ?m" by (simp add: clear_stale_sticky_def split: option.split)
  moreover have "getStickyRoundRobinStartIndex name keys 1 ?m = (Suc i mod length keys, Suc i)"
    by (simp add: getStickyRoundRobinStartIndex_def Let_def split: option.split)
  ultimately show ?thesis
    using \<open>map_has name (rrCounters ?m)\<close> by (simp add: rr_begin_def Let_def rr_success_def)
qed

lemma respond_good: "rr_respond ra (i, x) s = RR_answer i' k \<longleftrightarrow> i' = i \<and> x = RR_good k"
  by (auto simp: rr_respond_def rr_exhausted_def Let_def split: rr_result.splits option.splits)

text \<open>
  C99. A request of a round-robin combo without sticky batches goes once around the list. It starts at the
  connection that session stickiness keeps the conversation on; if there is none, at the best ranked target
  when prompt-cache affinity applies, and else where the rotation stands. The upstream calls go to the targets
  in the cyclic order from there, each at most maxRetries + 1 times and together at most as often as the
  attempts allow. When the request is answered, the last call was to the target that answered, and the
  rotation of the next request, if none overlaps, stands behind its index.
\<close>

theorem round_robin_request:
  assumes "handleRoundRobin cfg name 1 usable rejected_answer rt targets gates env m bs = ((r, s), m', bs')"
    and "reroute rt name (fst (rr_begin name (map dt_key targets) 1 usable m)) targets bs = ((ts, start, h), bs1)"
  shows "(\<exists>os. comboAttemptOrder s = map (\<lambda>o'. (start + o') mod length ts) os \<and> sorted os
      \<and> (\<forall>o'\<in>set os. o' < length ts) \<and> (\<forall>o'. count_list os o' \<le> Suc (rc_maxRetries cfg))
      \<and> length os \<le> clampGlobalAttempts (rc_maxGlobalAttempts cfg)
      \<and> (\<forall>i k. r = RR_answer i k \<longrightarrow> os \<noteq> [] \<and> i = (start + last os) mod length ts
          \<and> fst (rr_begin name (map dt_key targets) 1 usable' m') = Suc i mod length targets))
    \<and> (\<forall>c. kept_connection rt name targets bs = Some c \<longrightarrow> start < length ts \<and> dt_connection (ts ! start) = Some c)
    \<and> (kept_connection rt name targets bs = None \<longrightarrow>
        start = (if rt_affinityKey rt \<noteq> None \<and> length (bound_targets rt targets) > 1 then 0
                 else fst (rr_begin name (map dt_key targets) 1 usable m)))
    \<and> (rt_affinityKey rt = None \<longrightarrow> ts = targets)"
proof -
  obtain start0 m1 where b: "rr_begin name (map dt_key targets) 1 usable m = (start0, m1)" by fastforce
  let ?cfg = "cfg\<lparr>rc_stickyHash := truthy h\<rparr>"
  obtain i x s0 where t: "rr_targets (length ts) ?cfg ts gates env start new_attempt_state = ((i, x), s0)"
    by (metis prod.exhaust)
  have r: "r = rr_respond rejected_answer (i, x) s" "s = s0"
      "m' = (case x of RR_good _ \<Rightarrow> rr_success name (map dt_key ts) 1 i m1 | _ \<Rightarrow> m1)"
    using assms b t unfolding handleRoundRobin_def by (auto cong: rr_result.case_cong)
  obtain os where os: "calls (rr_limit cfg) new_attempt_state (map (\<lambda>o'. (start + o') mod length ts) os) s" "sorted os"
      "\<forall>o'\<in>set os. o' < length ts" "\<forall>o'. count_list os o' \<le> Suc (rc_maxRetries cfg)"
      "\<forall>k. x = RR_good k \<longrightarrow> os \<noteq> [] \<and> i = (start + last os) mod length ts"
    using rr_targets_calls [OF t order.refl] r(2) by auto
  have "fst (rr_begin name (map dt_key targets) 1 usable' m') = Suc i' mod length targets"
    if "r = RR_answer i' k" for i' k
    using that begin_after_success [of name "map dt_key targets" usable' "map dt_key ts" i m1]
    unfolding r(1,3) respond_good by simp
  then have "\<exists>os. comboAttemptOrder s = map (\<lambda>o'. (start + o') mod length ts) os \<and> sorted os
      \<and> (\<forall>o'\<in>set os. o' < length ts) \<and> (\<forall>o'. count_list os o' \<le> Suc (rc_maxRetries cfg))
      \<and> length os \<le> clampGlobalAttempts (rc_maxGlobalAttempts cfg)
      \<and> (\<forall>i k. r = RR_answer i k \<longrightarrow> os \<noteq> [] \<and> i = (start + last os) mod length ts
          \<and> fst (rr_begin name (map dt_key targets) 1 usable' m') = Suc i mod length targets)"
    using os r(1) by (intro exI [of _ os]) (auto simp: calls_def new_attempt_state_def respond_good)
  then show ?thesis using reroute_start [OF assms(2)] by (simp add: b)
qed


section \<open>A conversation stays on its connection\<close>










section \<open>Examples\<close>

definition rr_demo :: rr_config where
  "rr_demo = \<lparr>rc_maxRetries = 0, rc_maxGlobalAttempts = JUndef, rc_failoverExplicit = False,
     rc_fallbackDelayMs = 0, rc_cooldownEnabled = True, rc_stickyHash = False\<rparr>"

definition rr_open :: rr_gate where
  "rr_open = \<lparr>rg_expired = False, rg_available = True, rg_cooldown = False, rg_admitted = True, rg_slot = Slot\<rparr>"

definition rr_met :: "int \<Rightarrow> rr_attempt" where
  "rr_met status = \<lparr>re_expired = False, re_throws = False, re_reply = demo_reply status, re_allLimited = False,
     re_abortedInWait = False\<rparr>"

definition healthy_probe :: sticky_probe where
  "healthy_probe = \<lparr>sp_saturation = None, sp_health = None, sp_quotaExhausted = False\<rparr>"

definition rr_turn :: "time \<Rightarrow> rr_routing" where
  "rr_turn now = \<lparr>rt_disableStickiness = False, rt_affinityKey = None, rt_rows = (\<lambda>_. []), rt_parsed = id,
     rt_rank = (\<lambda>_ _. 0), rt_collate = (\<lambda>_ _. 0), rt_messageHash = Some ''hi'', rt_sha = (\<lambda>x. CHR ''#'' # x),
     rt_probe = (\<lambda>_ _. healthy_probe), rt_now = now, rt_answeredAt = now + 1\<rparr>"

text \<open>The first target called answers 404, the second well.\<close>

definition rr_demo_run :: "rr_routing \<Rightarrow> (rr_response \<times> attempt_state) \<times> rr_state \<times> binding_map" where
  "rr_demo_run rt = handleRoundRobin rr_demo ''x'' 1 (\<lambda>_. True) False rt demo_targets (\<lambda>_. rr_open)
     (\<lambda>k. rr_met (if k = 1 then 404 else 200)) rr_empty []"

definition turn_key :: string where
  "turn_key = CHR ''#'' # ''x'' @ [CHR 0x00] @ ''hi''"

lemma rr_demo_run_eval:
  "fst (fst (rr_demo_run (rr_turn 5))) = RR_answer 1 2"
  "fst (reroute (rr_turn 5) ''x'' (fst (rr_begin ''x'' (map dt_key demo_targets) 1 (\<lambda>_. True) rr_empty)) demo_targets [])
     = (demo_targets, 0, Some turn_key)"
  by code_simp+

theorem round_robin_request_witness:
  "fst (rr_begin ''x'' (map dt_key demo_targets) 1 (\<lambda>_. True) (fst (snd (rr_demo_run (rr_turn 5))))) = 0"
proof -
  obtain s m' bs' where run: "rr_demo_run (rr_turn 5) = ((RR_answer 1 2, s), m', bs')"
    using rr_demo_run_eval(1) by (metis prod.collapse)
  obtain bs1 where "reroute (rr_turn 5) ''x'' (fst (rr_begin ''x'' (map dt_key demo_targets) 1 (\<lambda>_. True) rr_empty))
      demo_targets [] = ((demo_targets, 0, Some turn_key), bs1)"
    using rr_demo_run_eval(2) by (metis prod.collapse)
  from round_robin_request [OF run [unfolded rr_demo_run_def] this, where usable' = "\<lambda>_. True"]
  have "fst (rr_begin ''x'' (map dt_key demo_targets) 1 (\<lambda>_. True) m') = Suc 1 mod length demo_targets" by blast
  then show ?thesis by (simp add: run demo_targets_def)
qed



section \<open>What modelling showed\<close>

text \<open>
  The rotation mixes two numberings. Under prompt-cache affinity the loop runs over the targets in the order
  of the affinity and stores the index of the one that answered in that order, but the next request reads
  the counter against the list as configured: here the third target answers, as the first of the ranking, and
  the next request without an affinity key starts at the second.
\<close>

definition three_targets :: "dispatch_target list" where
  "three_targets = map on_connection [''c1'', ''c2'', ''c3'']"

lemma affinity_index_misread:
  "let rt = (rr_turn 5)\<lparr>rt_affinityKey := Some ''k'', rt_rank := (\<lambda>_ t. if dt_key t = ''c3'' then 1 else 0)\<rparr>;
       ((r, s), m', bs') = handleRoundRobin rr_demo ''x'' 1 (\<lambda>_. True) False rt three_targets (\<lambda>_. rr_open)
         (\<lambda>_. rr_met 200) rr_empty []
   in (r, dt_key (hd (fst (fst (reroute rt ''x'' 0 three_targets [])))),
       fst (rr_begin ''x'' (map dt_key three_targets) 1 (\<lambda>_. True) m')) = (RR_answer 0 1, ''c3'', 1)"
  by code_simp

end
