(* ===== verification/QuotaScopes.thy ===== *)
theory QuotaScopes
  imports Connections
begin

text \<open>
  Which quota windows a model draws on: \<open>src/open-sse/config/codexQuotaScopes.ts\<close> for Codex, whose Spark models have
  windows of their own, and \<open>src/open-sse/services/antigravityQuotaFamily.ts\<close> for Antigravity, whose models share the
  quota of their family.

  The lemmas: the window that stands for a base window of a model is one of the windows of that model, and goes back to
  the base window.
\<close>

section \<open>Codex\<close>

datatype codex_scope = Codex | Spark

definition CODEX_SPARK_QUOTA_SESSION :: string where "CODEX_SPARK_QUOTA_SESSION = ''gpt_5_3_codex_spark_session''"
definition CODEX_SPARK_QUOTA_WEEKLY :: string where "CODEX_SPARK_QUOTA_WEEKLY = ''gpt_5_3_codex_spark_weekly''"
definition CODEX_SPARK_METERED_FEATURE :: string where "CODEX_SPARK_METERED_FEATURE = ''gpt_5_3_codex_spark''"

definition CODEX_SCOPE_PATTERNS :: "(string \<times> codex_scope) list" where
  "CODEX_SCOPE_PATTERNS = [(''codex-spark'', Spark), (''spark'', Spark), (''bengalfox'', Spark), (''codex'', Codex), (''gpt-5'', Codex)]"

definition getCodexModelScope :: "string option \<Rightarrow> codex_scope" where
  "getCodexModelScope model =
     (let lower = toLowerCase (nullish model [])
      in case find (\<lambda>(p, s). str_includes lower p) CODEX_SCOPE_PATTERNS of Some (p, s) \<Rightarrow> s | None \<Rightarrow> Codex)"

definition scope_name :: "codex_scope \<Rightarrow> string" where
  "scope_name s = (case s of Codex \<Rightarrow> ''codex'' | Spark \<Rightarrow> ''spark'')"

definition getCodexRateLimitKey :: "string \<Rightarrow> string \<Rightarrow> string" where
  "getCodexRateLimitKey accountId model = accountId @ '':'' @ scope_name (getCodexModelScope (Some model))"

definition isCodexSparkQuotaKey :: "string option \<Rightarrow> bool" where
  "isCodexSparkQuotaKey key =
     (let n = toLowerCase (trim (nullish key []))
      in n \<noteq> [] \<and> (n = CODEX_SPARK_QUOTA_SESSION \<or> n = CODEX_SPARK_QUOTA_WEEKLY \<or> n = ''codex-spark'' \<or> n = ''codex-spark-weekly''
           \<or> str_includes n ''codex-spark'' \<or> str_includes n ''codex_spark'' \<or> str_includes n CODEX_SPARK_METERED_FEATURE))"

definition isCodexSparkLimitDescriptor :: "json list \<Rightarrow> bool" where
  "isCodexSparkLimitDescriptor values =
     list_ex (\<lambda>v. case v of JStr s \<Rightarrow>
         (let n = toLowerCase (trim s) in str_includes n ''spark'' \<or> str_includes n ''bengalfox'' \<or> str_includes n CODEX_SPARK_METERED_FEATURE)
       | _ \<Rightarrow> False) values"

definition getCodexQuotaWindowFilterForModel :: "string option \<Rightarrow> (string \<Rightarrow> bool) option" where
  "getCodexQuotaWindowFilterForModel model =
     (if nullish model [] = [] then None
      else Some (\<lambda>windowName. if getCodexModelScope model = Spark then isCodexSparkQuotaKey (Some windowName)
                              else \<not> isCodexSparkQuotaKey (Some windowName)))"

definition toCodexScopedQuotaWindowName :: "string \<Rightarrow> string option \<Rightarrow> string" where
  "toCodexScopedQuotaWindowName baseWindowName model =
     (if nullish model [] = [] \<or> getCodexModelScope model \<noteq> Spark then baseWindowName
      else let n = toLowerCase (trim baseWindowName)
           in if n = ''session'' then CODEX_SPARK_QUOTA_SESSION
              else if n = ''weekly'' then CODEX_SPARK_QUOTA_WEEKLY else baseWindowName)"

definition toCodexBaseQuotaWindowName :: "string \<Rightarrow> string" where
  "toCodexBaseQuotaWindowName windowName =
     (if windowName = [] then windowName
      else let n = toLowerCase (trim windowName)
           in if n = CODEX_SPARK_QUOTA_SESSION \<or> n = ''codex-spark'' then ''session''
              else if n = CODEX_SPARK_QUOTA_WEEKLY \<or> n = ''codex-spark-weekly'' then ''weekly'' else windowName)"

section \<open>Antigravity\<close>

datatype family = Gemini | Claude | Other

text \<open>\<open>replace(/^(antigravity|agy)\//, "")\<close>.\<close>

definition strip_provider :: "string \<Rightarrow> string" where
  "strip_provider s = (if prefix ''antigravity/'' s then drop 12 s else if prefix ''agy/'' s then drop 4 s else s)"

definition after_first_slash :: "string \<Rightarrow> string" where
  "after_first_slash s = (case dropWhile (\<lambda>c. c \<noteq> CHR ''/'') s of [] \<Rightarrow> s | _ # t \<Rightarrow> t)"

definition after_last_slash :: "string \<Rightarrow> string" where
  "after_last_slash s = rev (takeWhile (\<lambda>c. c \<noteq> CHR ''/'') (rev s))"

definition getAntigravityQuotaFamily :: "string option \<Rightarrow> family" where
  "getAntigravityQuotaFamily model =
     (let bare = after_first_slash (strip_provider (toLowerCase (trim (nullish model []))))
      in if prefix ''gemini-'' bare \<or> str_includes bare ''/gemini-'' \<or> str_includes bare ''gemini'' then Gemini
         else if prefix ''claude-'' bare \<or> prefix ''cloud-'' bare \<or> str_includes bare ''/claude-'' \<or> str_includes bare ''/cloud-''
                 \<or> str_includes bare ''anthropic'' then Claude
         else Other)"

definition family_name :: "family \<Rightarrow> string" where
  "family_name f = (case f of Gemini \<Rightarrow> ''gemini'' | Claude \<Rightarrow> ''claude'' | Other \<Rightarrow> ''other'')"

definition isAntigravityQuotaProvider :: "string option \<Rightarrow> bool" where
  "isAntigravityQuotaProvider provider \<longleftrightarrow> provider = Some ''antigravity'' \<or> provider = Some ''agy''"

definition getQuotaScopedModelForProvider :: "string option \<Rightarrow> string option \<Rightarrow> string option" where
  "getQuotaScopedModelForProvider provider model =
     (if nullish model [] = [] then None
      else if \<not> isAntigravityQuotaProvider provider then model
      else let f = getAntigravityQuotaFamily model in if f = Other then model else Some (''family:'' @ family_name f))"

definition getQuotaScopeLabelForProvider :: "string option \<Rightarrow> string option \<Rightarrow> string" where
  "getQuotaScopeLabelForProvider provider model =
     (if \<not> isAntigravityQuotaProvider provider then ''model''
      else if getAntigravityQuotaFamily model = Other then ''model'' else ''family'')"

definition getQuotaFetchScope :: "string option \<Rightarrow> string option \<Rightarrow> string" where
  "getQuotaFetchScope provider model =
     (if \<not> isAntigravityQuotaProvider provider then ''*'' else nullish (getQuotaScopedModelForProvider provider model) ''*'')"

definition selectAntigravityQuotaWindowNames :: "string list \<Rightarrow> string option \<Rightarrow> string list" where
  "selectAntigravityQuotaWindowNames quotaNames requestedModel =
     (if nullish requestedModel [] = [] then quotaNames
      else let fam = getAntigravityQuotaFamily requestedModel; clean = strip_provider (nullish requestedModel []);
               bareModel = (if CHR ''/'' \<in> set clean then after_last_slash clean else clean)
           in if fam = Other then filter (\<lambda>w. strip_provider w = bareModel \<or> strip_provider w = clean) quotaNames
              else let aggregates = (if fam = Gemini then [''gemini_weekly''] else if fam = Claude then [''claude_gpt_weekly''] else []);
                       scoped = filter (\<lambda>w. strip_provider w = bareModel) quotaNames @ filter (\<lambda>k. k \<in> set quotaNames) aggregates
                   in if scoped \<noteq> [] then scoped else filter (\<lambda>w. getAntigravityQuotaFamily (Some w) = fam) quotaNames)"

definition quotaWindowNamesForScope :: "string list \<Rightarrow> (string option \<times> string option) option \<Rightarrow> string list" where
  "quotaWindowNamesForScope names scope =
     (case scope of
        None \<Rightarrow> names
      | Some (provider, model) \<Rightarrow>
          if nullish model [] = [] \<or> \<not> isAntigravityQuotaProvider provider then names
          else let scoped = selectAntigravityQuotaWindowNames names model in if scoped \<noteq> [] then scoped else names)"

definition window_remaining :: "json \<Rightarrow> rat option" where
  "window_remaining w =
     (case w of
        JObj m \<Rightarrow> (case js_number (get_prop ''percentUsed'' w) of Num p \<Rightarrow> Some (max 0 (min 100 ((1 - p) * 100))) | _ \<Rightarrow> None)
      | _ \<Rightarrow> None)"

text \<open>\<open>namesToScan !== names\<close> compares the arrays as objects: the scan is scoped when a selection replaced the list.\<close>

definition scan_replaced :: "string list \<Rightarrow> (string option \<times> string option) option \<Rightarrow> bool" where
  "scan_replaced names scope =
     (case scope of None \<Rightarrow> False
      | Some (provider, model) \<Rightarrow> nullish model [] \<noteq> [] \<and> isAntigravityQuotaProvider provider \<and> selectAntigravityQuotaWindowNames names model \<noteq> [])"

definition remainingPercentFromQuotaWindows :: "(string \<times> json) list \<Rightarrow> (string option \<times> string option) option \<Rightarrow> rat option" where
  "remainingPercentFromQuotaWindows rawWindows scope =
     (let names = map fst rawWindows; scan = quotaWindowNamesForScope names scope;
          rs = List.map_filter (\<lambda>n. case map_of rawWindows n of Some w \<Rightarrow> window_remaining w | None \<Rightarrow> None) scan
      in case rs of
           r # t \<Rightarrow> Some (fold min t r)
         | [] \<Rightarrow> if scan_replaced names scope then Some 100 else None)"

section \<open>Lemmas\<close>

lemma spark_keys [simp]:
  "isCodexSparkQuotaKey (Some CODEX_SPARK_QUOTA_SESSION)" "isCodexSparkQuotaKey (Some CODEX_SPARK_QUOTA_WEEKLY)"
  "\<not> isCodexSparkQuotaKey (Some ''session'')" "\<not> isCodexSparkQuotaKey (Some ''weekly'')"
  by code_simp+

text \<open>For a model, the window that stands for a base window is one of the model, and names the same base window.\<close>

lemma scoped_window_in_scope:
  assumes "w = ''session'' \<or> w = ''weekly''" and "getCodexQuotaWindowFilterForModel model = Some f"
  shows "f (toCodexScopedQuotaWindowName w model) \<and> toCodexBaseQuotaWindowName (toCodexScopedQuotaWindowName w model) = w"
proof -
  have "toLowerCase (trim ''session'') = ''session''" "toLowerCase (trim ''weekly'') = ''weekly''" by code_simp+
  moreover have "toCodexBaseQuotaWindowName CODEX_SPARK_QUOTA_SESSION = ''session''" "toCodexBaseQuotaWindowName CODEX_SPARK_QUOTA_WEEKLY = ''weekly''"
    "toCodexBaseQuotaWindowName ''session'' = ''session''" "toCodexBaseQuotaWindowName ''weekly'' = ''weekly''" by code_simp+
  ultimately show ?thesis
    using assms by (auto simp: getCodexQuotaWindowFilterForModel_def toCodexScopedQuotaWindowName_def Let_def split: if_splits)
qed

lemma selected_windows: "set (selectAntigravityQuotaWindowNames names model) \<subseteq> set names"
  by (auto simp: selectAntigravityQuotaWindowNames_def Let_def)

end
