(* ===== verification/UtcCalendar.thy ===== *)
theory UtcCalendar
  imports Prelude
begin

text \<open>
  The calendar behind \<open>Date.UTC\<close> and the \<open>getUTC\<close> methods, as ECMAScript defines it: days and months of the
  proleptic Gregorian calendar, counted from 1 January 1970. Times are integral milliseconds; months count
  from 0, days of the month from 1, days of the week from Sunday.

  The lemmas: the date of a day is the one \<open>Date.UTC\<close> maps back to it; and grids of instants, whose cells
  partition time.
\<close>

section \<open>Days, years and months\<close>

definition msPerDay :: int where "msPerDay = 86400000"

definition Day :: "time \<Rightarrow> int" where "Day t = t div msPerDay"

definition DayFromYear :: "int \<Rightarrow> int" where
  "DayFromYear y = 365 * (y - 1970) + (y - 1969) div 4 - (y - 1901) div 100 + (y - 1601) div 400"

definition leap :: "int \<Rightarrow> bool" where
  "leap y \<longleftrightarrow> y mod 4 = 0 \<and> (y mod 100 \<noteq> 0 \<or> y mod 400 = 0)"

definition MonthStart :: "int \<Rightarrow> int \<Rightarrow> int" where
  "MonthStart y m =
     [0, 31, 59, 90, 120, 151, 181, 212, 243, 273, 304, 334, 365] ! nat m + (if m \<ge> 2 \<and> leap y then 1 else 0)"

text \<open>The year of a day: an estimate by the mean length of a year, off by at most one.\<close>

definition YearFromDay :: "int \<Rightarrow> int" where
  "YearFromDay d =
     (let y = 1970 + (400 * d) div 146097
      in if d < DayFromYear y then y - 1 else if DayFromYear (y + 1) \<le> d then y + 1 else y)"

fun month_from :: "int \<Rightarrow> int \<Rightarrow> nat \<Rightarrow> int" where
  "month_from y day 0 = 0"
| "month_from y day (Suc m) = (if MonthStart y (int (Suc m)) \<le> day then int (Suc m) else month_from y day m)"

definition MonthFromDay :: "int \<Rightarrow> int" where
  "MonthFromDay d = month_from (YearFromDay d) (d - DayFromYear (YearFromDay d)) 11"

definition DateFromDay :: "int \<Rightarrow> int" where
  "DateFromDay d = d - DayFromYear (YearFromDay d) - MonthStart (YearFromDay d) (MonthFromDay d) + 1"

definition WeekDay :: "int \<Rightarrow> int" where
  "WeekDay d = (d + 4) mod 7"

definition MakeDay :: "int \<Rightarrow> int \<Rightarrow> int \<Rightarrow> int" where
  "MakeDay year month date =
     (let y = year + month div 12; m = month mod 12 in DayFromYear y + MonthStart y m + date - 1)"

text \<open>\<open>Date.UTC\<close> takes the years 0 to 99 for 1900 to 1999.\<close>

definition Date_UTC :: "int \<Rightarrow> int \<Rightarrow> int \<Rightarrow> int \<Rightarrow> int \<Rightarrow> time" where
  "Date_UTC year month day hours minutes =
     MakeDay (if 0 \<le> year \<and> year \<le> 99 then 1900 + year else year) month day * msPerDay + (hours * 3600000 + minutes * 60000)"

definition getUTCFullYear :: "time \<Rightarrow> int" where "getUTCFullYear t = YearFromDay (Day t)"
definition getUTCMonth :: "time \<Rightarrow> int" where "getUTCMonth t = MonthFromDay (Day t)"
definition getUTCDate :: "time \<Rightarrow> int" where "getUTCDate t = DateFromDay (Day t)"
definition getUTCDay :: "time \<Rightarrow> int" where "getUTCDay t = WeekDay (Day t)"

section \<open>Years\<close>

lemma div_step: "0 < k \<Longrightarrow> (z + 1) div k = z div k + (if (z + 1) mod k = 0 then 1 else 0)" for z k :: int
proof -
  assume k: "0 < k"
  define q r where "q = z div k" and "r = z mod k"
  have r: "0 \<le> r" "r < k" and z: "z = k * q + r" using k by (simp_all add: q_def r_def)
  show ?thesis
  proof (cases "r + 1 = k")
    case True
    then have "z + 1 = k * (q + 1)" using z by (simp add: algebra_simps)
    then show ?thesis using k by (simp add: q_def [symmetric])
  next
    case False
    then have "(z + 1) div k = q" "(z + 1) mod k = r + 1"
      using r z by (auto intro!: int_div_pos_eq [where r = "r + 1"] int_mod_pos_eq [where q = q])
    then show ?thesis using r by (simp add: q_def)
  qed
qed

lemma multiple_of_divisor: "y mod n = 0 \<Longrightarrow> k dvd n \<Longrightarrow> y mod k = 0" for y :: int
  by (metis dvd_eq_mod_eq_0 dvd_trans)

lemma mod_shift: "n dvd c \<Longrightarrow> (y - c) mod n = y mod n" for y :: int
  by (metis dvd_eq_mod_eq_0 diff_0_right mod_diff_right_eq)

lemma leap_days:
  "(365 :: int) + (if y mod 4 = 0 then 1 else 0) - (if y mod 100 = 0 then 1 else 0) + (if y mod 400 = 0 then 1 else 0)
     = (if leap y then 366 else 365)"
proof -
  have "y mod 400 = 0 \<longrightarrow> y mod 100 = 0" "y mod 100 = 0 \<longrightarrow> y mod 4 = 0"
    using multiple_of_divisor [of y 400 100] multiple_of_divisor [of y 100 4] by simp_all
  then show ?thesis unfolding leap_def by (simp only: split: if_split) force
qed

lemma sum_of_steps: "a' = a + i \<Longrightarrow> b' = b + j \<Longrightarrow> c' = c + k \<Longrightarrow>
    365 * (y + 1 - z) + a' - b' + c' = 365 * (y - z) + a - b + c + (365 + i - j + k)" for a :: int
  by (simp add: algebra_simps)

lemma DayFromYear_Suc: "DayFromYear (y + 1) = DayFromYear y + (if leap y then 366 else 365)"
proof -
  have c: "y + 1 - 1969 = y - 1969 + 1" "y + 1 - 1901 = y - 1901 + 1" "y + 1 - 1601 = y - 1601 + 1" by simp_all
  have m: "(y - 1968) mod 4 = y mod 4" "(y - 1900) mod 100 = y mod 100" "(y - 1600) mod 400 = y mod 400"
    by (intro mod_shift; simp)+
  have s: "y - 1969 + 1 = y - 1968" "y - 1901 + 1 = y - 1900" "y - 1601 + 1 = y - 1600" by simp_all
  have "(y - 1968) div 4 = (y - 1969) div 4 + (if y mod 4 = 0 then 1 else 0)"
      "(y - 1900) div 100 = (y - 1901) div 100 + (if y mod 100 = 0 then 1 else 0)"
      "(y - 1600) div 400 = (y - 1601) div 400 + (if y mod 400 = 0 then 1 else 0)"
    using div_step [of 4 "y - 1969", OF zero_less_numeral] div_step [of 100 "y - 1901", OF zero_less_numeral]
      div_step [of 400 "y - 1601", OF zero_less_numeral] unfolding s m .
  then have "DayFromYear (y + 1) = DayFromYear y + (365 + (if y mod 4 = 0 then 1 else 0)
      - (if y mod 100 = 0 then 1 else 0) + (if y mod 400 = 0 then 1 else 0))"
    unfolding DayFromYear_def c s by (intro sum_of_steps)
  then show ?thesis using leap_days [of y] by simp
qed

lemma div_bounds: "0 < k \<Longrightarrow> k * (z div k) \<le> z \<and> z - k < k * (z div k)" for z k :: int
  using pos_mod_bound [of k z] pos_mod_sign [of k z] mult_div_mod_eq [of k z] by linarith

lemma DayFromYear_lower: "146097 * (y - 1970) - 506 \<le> 400 * DayFromYear y"
  and DayFromYear_upper: "400 * DayFromYear y \<le> 146097 * (y - 1970) + 589"
  using div_bounds [of 4 "y - 1969"] div_bounds [of 100 "y - 1901"] div_bounds [of 400 "y - 1601"]
  unfolding DayFromYear_def by (simp_all add: algebra_simps)

lemma YearFromDay_correct: "DayFromYear (YearFromDay d) \<le> d \<and> d < DayFromYear (YearFromDay d + 1)"
proof -
  define q where "q = (400 * d) div 146097"
  have q: "146097 * q \<le> 400 * d" "400 * d < 146097 * q + 146097"
    using div_bounds [of 146097 "400 * d"] by (simp_all add: q_def)
  have "400 * DayFromYear (1969 + q) < 400 * d" using DayFromYear_upper [of "1969 + q"] q by simp
  then have lo: "DayFromYear (1970 + q - 1) \<le> d" by (simp add: algebra_simps)
  have "400 * d < 400 * DayFromYear (1970 + q + 2)" using DayFromYear_lower [of "1970 + q + 2"] q by simp
  then have hi: "d < DayFromYear (1970 + q + 1 + 1)" by (simp add: algebra_simps)
  have s: "1970 + q - 1 + 1 = 1970 + q" by simp
  have "YearFromDay d = (if d < DayFromYear (1970 + q) then 1970 + q - 1
      else if DayFromYear (1970 + q + 1) \<le> d then 1970 + q + 1 else 1970 + q)"
    by (simp add: YearFromDay_def Let_def q_def [symmetric])
  then show ?thesis using lo hi s by (smt (verit))
qed

lemma YearFromDay_from_1970:
  assumes "0 \<le> d" shows "1970 \<le> YearFromDay d"
proof (rule ccontr)
  assume "\<not> 1970 \<le> YearFromDay d"
  then have y: "YearFromDay d + 1 \<le> 1970" by simp
  have "DayFromYear (YearFromDay d + 1) \<le> 0"
  proof (cases "YearFromDay d + 1 = 1970")
    case True
    then show ?thesis by (simp add: DayFromYear_def)
  next
    case False
    then show ?thesis using y DayFromYear_upper [of "YearFromDay d + 1"] by simp
  qed
  then show False using YearFromDay_correct [of d] assms by linarith
qed

section \<open>Months\<close>

lemma month_cases: "0 \<le> (m::int) \<Longrightarrow> m < 12 \<Longrightarrow> m \<in> {0, 1, 2, 3, 4, 5, 6, 7, 8, 9, 10, 11}"
  unfolding insert_iff empty_iff by presburger

lemma MonthStart_Suc: "0 \<le> m \<Longrightarrow> m < 12 \<Longrightarrow> MonthStart y m + 28 \<le> MonthStart y (m + 1)"
  using month_cases [of m] by (auto simp: MonthStart_def)

lemma MonthStart_0 [simp]: "MonthStart y 0 = 0"
  by (simp add: MonthStart_def)

lemma MonthStart_12: "MonthStart y 12 = (if leap y then 366 else 365)"
  by (simp add: MonthStart_def)

lemma month_from_correct:
  "0 \<le> day \<Longrightarrow> day < MonthStart y (int n + 1) \<Longrightarrow>
    0 \<le> month_from y day n \<and> month_from y day n \<le> int n
    \<and> MonthStart y (month_from y day n) \<le> day \<and> day < MonthStart y (month_from y day n + 1)"
  by (induction n) (auto simp: add.commute)

lemma MonthFromDay_correct:
  "0 \<le> MonthFromDay d \<and> MonthFromDay d < 12
    \<and> DayFromYear (YearFromDay d) + MonthStart (YearFromDay d) (MonthFromDay d) \<le> d
    \<and> d < DayFromYear (YearFromDay d) + MonthStart (YearFromDay d) (MonthFromDay d + 1)"
proof -
  have "d - DayFromYear (YearFromDay d) < MonthStart (YearFromDay d) (int 11 + 1)"
    using YearFromDay_correct [of d] by (simp add: DayFromYear_Suc MonthStart_12)
  from month_from_correct [OF _ this] YearFromDay_correct [of d] show ?thesis
    by (auto simp: MonthFromDay_def)
qed

text \<open>The number of a month, counted from January of the year 0, and the day it starts on.\<close>

definition month_day :: "int \<Rightarrow> int" where
  "month_day k = DayFromYear (k div 12) + MonthStart (k div 12) (k mod 12)"

lemma MakeDay_month: "MakeDay y m date = month_day (12 * y + m) + date - 1"
  by (simp add: MakeDay_def month_day_def Let_def)

lemma month_day_Suc: "month_day (k + 1) = DayFromYear (k div 12) + MonthStart (k div 12) (k mod 12 + 1)"
proof -
  have m: "(k + 1) mod 12 = (if k mod 12 = 11 then 0 else k mod 12 + 1)"
  proof -
    have "0 \<le> k mod 12" "k mod 12 < 12" "(k + 1) mod 12 = (k mod 12 + 1) mod 12" by (simp_all add: mod_add_left_eq)
    then show ?thesis by (cases "k mod 12 = 11") auto
  qed
  have "(k + 1) div 12 = k div 12 + (if k mod 12 = 11 then 1 else 0)"
    using div_step [of 12 k] pos_mod_sign [of 12 k] by (simp add: m split: if_splits)
  then show ?thesis
    by (cases "k mod 12 = 11") (simp_all only: month_day_def m DayFromYear_Suc MonthStart_0 if_True if_False, simp_all add: MonthStart_12 DayFromYear_Suc)
qed

lemma month_day_mono: "month_day k < month_day (k + 1)"
  using MonthStart_Suc [of "k mod 12" "k div 12"] unfolding month_day_Suc unfolding month_day_def by simp

text \<open>The date of a day is mapped back to it.\<close>

lemma MakeDay_date: "MakeDay (YearFromDay d) (MonthFromDay d) (DateFromDay d + n) = d + n"
  using MonthFromDay_correct [of d] by (simp add: MakeDay_def DateFromDay_def Let_def)

lemma month_of_day: "month_day (12 * YearFromDay d + MonthFromDay d) \<le> d
    \<and> d < month_day (12 * YearFromDay d + MonthFromDay d + 1)"
  unfolding month_day_Suc unfolding month_day_def using MonthFromDay_correct [of d] by simp

section \<open>Grids\<close>

text \<open>A sequence of instants in both directions, whose cells partition time.\<close>

locale grid =
  fixes G :: "int \<Rightarrow> time"
  assumes next_later: "G j < G (j + 1)"
begin

lemma later: "i < j \<Longrightarrow> G i < G j"
proof (induction "nat (j - i)" arbitrary: j)
  case (Suc n)
  show ?case
  proof (cases "i = j - 1")
    case True
    then show ?thesis using next_later [of i] by simp
  next
    case False
    then have "G i < G (j - 1)" using Suc by (intro Suc.hyps(1)) auto
    also have "\<dots> < G j" using next_later [of "j - 1"] by simp
    finally show ?thesis .
  qed
qed simp

lemma cell_unique:
  assumes "G i \<le> t" and "t < G (i + 1)" and "G j \<le> t" and "t < G (j + 1)"
  shows "i = j"
proof (rule ccontr)
  assume "i \<noteq> j"
  then consider "i + 1 \<le> j" | "j + 1 \<le> i" by linarith
  then show False
    by cases (use later [of "i + 1" j] later [of "j + 1" i] assms in force)+
qed

end

text \<open>Days of a grid, at a fixed time of the day: the instants form a grid too.\<close>

locale day_grid = grid D for D :: "int \<Rightarrow> int" +
  fixes off :: time
  assumes time_of_day: "0 \<le> off" "off < msPerDay"
begin

abbreviation instant :: "int \<Rightarrow> time" where "instant j \<equiv> D j * msPerDay + off"

lemma instants_later: "instant j < instant (j + 1)"
  using next_later [of j] by (simp add: msPerDay_def)

text \<open>The instant on the last grid day up to today, or else the one before, opens the cell of \<open>t\<close>.\<close>

lemma cell_of_day:
  assumes "D j \<le> Day t" and "Day t < D (j + 1)"
  shows "t < instant (j + 1)" and "instant (j - 1) \<le> t"
proof -
  have t: "Day t * msPerDay \<le> t" "t < (Day t + 1) * msPerDay"
    using div_bounds [of msPerDay t] by (simp_all add: Day_def msPerDay_def algebra_simps)
  have "D (j - 1) + 1 \<le> Day t" using next_later [of "j - 1"] assms by simp
  then have "(D (j - 1) + 1) * msPerDay \<le> Day t * msPerDay" "(Day t + 1) * msPerDay \<le> D (j + 1) * msPerDay"
    using assms by (auto simp: msPerDay_def)
  then show "t < instant (j + 1)" "instant (j - 1) \<le> t"
    using t time_of_day by (auto simp: algebra_simps)
qed

end

sublocale day_grid \<subseteq> instants: grid instant
  by unfold_locales (rule instants_later)

text \<open>A function from instants to the cell around them.\<close>

locale windows = grid G for G :: "int \<Rightarrow> time" +
  fixes W :: "time \<Rightarrow> time \<times> time" and valid :: "time \<Rightarrow> bool"
  assumes cell: "valid t \<Longrightarrow> \<exists>j. W t = (G j, G (j + 1)) \<and> G j \<le> t \<and> t < G (j + 1)"
begin

lemma contains: "valid t \<Longrightarrow> fst (W t) \<le> t \<and> t < snd (W t)"
  using cell by fastforce

lemma same_window: "valid t \<Longrightarrow> valid u \<Longrightarrow> fst (W t) \<le> u \<Longrightarrow> u < snd (W t) \<Longrightarrow> W u = W t"
  using cell [of t] cell [of u] cell_unique by fastforce

lemma next_window: "valid t \<Longrightarrow> valid (snd (W t)) \<Longrightarrow> fst (W (snd (W t))) = snd (W t)"
proof -
  assume v: "valid t" "valid (snd (W t))"
  then obtain j k where j: "W t = (G j, G (j + 1))" and k: "W (snd (W t)) = (G k, G (k + 1))"
      "G k \<le> snd (W t)" "snd (W t) < G (k + 1)" using cell by blast
  have "k = j + 1" using cell_unique [of k "G (j + 1)" "j + 1"] k j next_later [of "j + 1"] by simp
  then show ?thesis using j k by simp
qed

lemma ordered: "valid t \<Longrightarrow> valid u \<Longrightarrow> t \<le> u \<Longrightarrow> fst (W t) \<le> fst (W u)"
proof -
  assume v: "valid t" "valid u" "t \<le> u"
  then obtain j k where j: "W t = (G j, G (j + 1))" "G j \<le> t" and k: "W u = (G k, G (k + 1))" "u < G (k + 1)"
    using cell by blast
  have "\<not> k + 1 \<le> j" using later [of "k + 1" j] v j k by (cases "k + 1 = j") auto
  then have "j \<le> k" by simp
  then show ?thesis using later [of j k] j k by (cases "j = k") auto
qed

end

end
