(* ===== verification/BudgetWindow.thy ===== *)
theory BudgetWindow
  imports UtcCalendar JsString
begin

text \<open>
  Budgets of API keys, first part: configurations and the window of time a budget applies to
  (\<open>src/src/domain/costRules.ts\<close>).

  \<^item> \<open>budget_config\<close> is a configuration as it comes in: a number is what \<open>toNumber\<close> reads, \<open>None\<close> where it
    falls back to the default. \<open>budget\<close> is a normalised one.
  \<^item> Amounts are rationals, times integral milliseconds since 1970.

  The lemmas: normalisation is idempotent; the windows of a budget partition time, and begin on the day and at
  the time they should.
\<close>

section \<open>Configurations\<close>

datatype reset_interval = Daily | Weekly | Monthly

record budget_config =
  cfg_dailyLimitUsd :: "rat option"
  cfg_weeklyLimitUsd :: "rat option"
  cfg_monthlyLimitUsd :: "rat option"
  cfg_warningThreshold :: "rat option"
  cfg_resetInterval :: "string option"
  cfg_resetTime :: "string option"
  cfg_budgetResetAt :: "time option"
  cfg_lastBudgetResetAt :: "time option"
  cfg_warningEmittedAt :: "time option"
  cfg_warningPeriodStart :: "time option"

record budget =
  dailyLimitUsd :: rat
  weeklyLimitUsd :: rat
  monthlyLimitUsd :: rat
  warningThreshold :: rat
  resetInterval :: reset_interval
  resetTime :: string
  budgetResetAt :: "time option"
  lastBudgetResetAt :: "time option"
  warningEmittedAt :: "time option"
  warningPeriodStart :: "time option"

definition normalizeResetInterval :: "string option \<Rightarrow> reset_interval" where
  "normalizeResetInterval v =
     (case v of None \<Rightarrow> Daily
      | Some s \<Rightarrow> let normalized = toLowerCase (trim s)
                 in if normalized = ''weekly'' then Weekly else if normalized = ''monthly'' then Monthly else Daily)"

text \<open>\<open>RESET_TIME_REGEX\<close>: two digits, a colon, two digits.\<close>

fun reset_time_match :: "string \<Rightarrow> (int \<times> int) option" where
  "reset_time_match [a, b, c, d, e] =
     (case (digit a, digit b, digit d, digit e) of
        (Some h1, Some h2, Some m1, Some m2) \<Rightarrow> if c = CHR '':'' then Some (10 * h1 + h2, 10 * m1 + m2) else None
      | _ \<Rightarrow> None)"
| "reset_time_match _ = None"

definition pad2 :: "int \<Rightarrow> string" where
  "pad2 n = (if n < 10 then ''0'' @ decimal (nat n) else decimal (nat n))"

definition normalizeResetTime :: "string option \<Rightarrow> string" where
  "normalizeResetTime v =
     (case Option.bind v (\<lambda>s. reset_time_match (trim s)) of
        Some (h, m) \<Rightarrow> pad2 (min (max h 0) 23) @ '':'' @ pad2 (min (max m 0) 59)
      | None \<Rightarrow> ''00:00'')"

definition normalizeTimestamp :: "time option \<Rightarrow> time option" where
  "normalizeTimestamp v = (case v of Some t \<Rightarrow> if t > 0 then Some t else None | None \<Rightarrow> None)"

definition normalizeBudgetConfig :: "budget_config \<Rightarrow> budget" where
  "normalizeBudgetConfig c =
     \<lparr>dailyLimitUsd = max 0 (nullish (cfg_dailyLimitUsd c) 0),
      weeklyLimitUsd = max 0 (nullish (cfg_weeklyLimitUsd c) 0),
      monthlyLimitUsd = max 0 (nullish (cfg_monthlyLimitUsd c) 0),
      warningThreshold = min (max (nullish (cfg_warningThreshold c) (8 / 10)) 0) 1,
      resetInterval = normalizeResetInterval (cfg_resetInterval c),
      resetTime = normalizeResetTime (cfg_resetTime c),
      budgetResetAt = normalizeTimestamp (cfg_budgetResetAt c),
      lastBudgetResetAt = normalizeTimestamp (cfg_lastBudgetResetAt c),
      warningEmittedAt = normalizeTimestamp (cfg_warningEmittedAt c),
      warningPeriodStart = normalizeTimestamp (cfg_warningPeriodStart c)\<rparr>"

fun interval_name :: "reset_interval \<Rightarrow> string" where
  "interval_name Daily = ''daily''"
| "interval_name Weekly = ''weekly''"
| "interval_name Monthly = ''monthly''"

text \<open>A normalised budget where a configuration is expected.\<close>

definition config_of :: "budget \<Rightarrow> budget_config" where
  "config_of b =
     \<lparr>cfg_dailyLimitUsd = Some (dailyLimitUsd b), cfg_weeklyLimitUsd = Some (weeklyLimitUsd b),
      cfg_monthlyLimitUsd = Some (monthlyLimitUsd b), cfg_warningThreshold = Some (warningThreshold b),
      cfg_resetInterval = Some (interval_name (resetInterval b)), cfg_resetTime = Some (resetTime b),
      cfg_budgetResetAt = budgetResetAt b, cfg_lastBudgetResetAt = lastBudgetResetAt b,
      cfg_warningEmittedAt = warningEmittedAt b, cfg_warningPeriodStart = warningPeriodStart b\<rparr>"

section \<open>Windows\<close>

definition getResetTimeParts :: "string \<Rightarrow> int \<times> int" where
  "getResetTimeParts rt = nullish (reset_time_match rt) (0, 0)"

definition getBudgetWindow :: "reset_interval \<Rightarrow> string \<Rightarrow> time \<Rightarrow> time \<times> time" where
  "getBudgetWindow interval time now =
     (let (hours, minutes) = getResetTimeParts (normalizeResetTime (Some time));
          year = getUTCFullYear now; month = getUTCMonth now; day = getUTCDate now
      in case interval of
           Weekly \<Rightarrow>
             let daysSinceMonday = (getUTCDay now + 6) mod 7;
                 thisWeekReset = Date_UTC year month (day - daysSinceMonday) hours minutes
             in if now \<ge> thisWeekReset then (thisWeekReset, Date_UTC year month (day - daysSinceMonday + 7) hours minutes)
                else (Date_UTC year month (day - daysSinceMonday - 7) hours minutes, thisWeekReset)
         | Monthly \<Rightarrow>
             let thisMonthReset = Date_UTC year month 1 hours minutes
             in if now \<ge> thisMonthReset then (thisMonthReset, Date_UTC year (month + 1) 1 hours minutes)
                else (Date_UTC year (month - 1) 1 hours minutes, thisMonthReset)
         | Daily \<Rightarrow>
             let todayReset = Date_UTC year month day hours minutes
             in if now \<ge> todayReset then (todayReset, Date_UTC year month (day + 1) hours minutes)
                else (Date_UTC year month (day - 1) hours minutes, todayReset))"

definition getActiveBudgetLimit :: "budget \<Rightarrow> rat" where
  "getActiveBudgetLimit b =
     (case resetInterval b of
        Monthly \<Rightarrow> if monthlyLimitUsd b > 0 then monthlyLimitUsd b else dailyLimitUsd b
      | Weekly \<Rightarrow> if weeklyLimitUsd b > 0 then weeklyLimitUsd b else dailyLimitUsd b
      | Daily \<Rightarrow> dailyLimitUsd b)"

section \<open>The windows partition time\<close>

fun reset_day :: "reset_interval \<Rightarrow> int \<Rightarrow> int" where
  "reset_day Daily j = j"
| "reset_day Weekly j = 7 * j + 4"
| "reset_day Monthly j = month_day j"

definition reset_offset :: "string \<Rightarrow> time" where
  "reset_offset time = (let (h, m) = getResetTimeParts (normalizeResetTime (Some time)) in h * 3600000 + m * 60000)"

lemma char_zero: "char_of (48 :: nat) = CHR ''0''"
  by code_simp

lemma pad2_digits: "0 \<le> n \<Longrightarrow> n < 100 \<Longrightarrow> pad2 n = [char_of (48 + nat n div 10), char_of (48 + nat n mod 10)]"
proof -
  assume n: "0 \<le> n" "n < 100"
  then have "nat n div 10 < 10" by linarith
  then show ?thesis
    using n decimal.simps [of "nat n"] decimal.simps [of "nat n div 10"] by (auto simp: pad2_def nat_less_iff char_zero)
qed

lemma digits_value: "n < 100 \<Longrightarrow> 10 * int (n div 10) + int (n mod 10) = int n"
  by presburger

lemma reset_time_match_padded:
  "0 \<le> h \<Longrightarrow> h < 100 \<Longrightarrow> 0 \<le> m \<Longrightarrow> m < 100 \<Longrightarrow> reset_time_match (pad2 h @ '':'' @ pad2 m) = Some (h, m)"
  using digits_value [of "nat h"] digits_value [of "nat m"]
  by (simp add: pad2_digits digit_char_of nat_less_iff div_less_iff_less_mult)

lemma reset_parts:
  "\<exists>h m. getResetTimeParts (normalizeResetTime v) = (h, m) \<and> 0 \<le> h \<and> h \<le> 23 \<and> 0 \<le> m \<and> m \<le> 59"
proof (cases "Option.bind v (\<lambda>s. reset_time_match (trim s))")
  case None
  then have "getResetTimeParts (normalizeResetTime v) = (0, 0)"
    using reset_time_match_padded [of 0 0] by (simp add: normalizeResetTime_def getResetTimeParts_def digit_def)
  then show ?thesis by simp
next
  case (Some p)
  then show ?thesis
    using reset_time_match_padded [of "min (max (fst p) 0) 23" "min (max (snd p) 0) 59"]
    by (cases p) (auto simp: normalizeResetTime_def getResetTimeParts_def)
qed

interpretation resets: day_grid "reset_day i" "reset_offset time" for i time
proof
  show "reset_day i j < reset_day i (j + 1)" for j
    by (cases i) (simp_all add: month_day_mono)
  show "0 \<le> reset_offset time" "reset_offset time < msPerDay"
    using reset_parts [of "Some time"] by (auto simp: reset_offset_def msPerDay_def)
qed

lemma Date_UTC_at:
  assumes "getResetTimeParts (normalizeResetTime (Some rt)) = (h, m)" and "1970 \<le> y"
  shows "Date_UTC y mo d h m = MakeDay y mo d * msPerDay + reset_offset rt"
  using assms by (simp add: Date_UTC_def reset_offset_def)

text \<open>The number of the grid day at or before a day.\<close>

fun day_number :: "reset_interval \<Rightarrow> int \<Rightarrow> int" where
  "day_number Daily d = d"
| "day_number Weekly d = (d - 4) div 7"
| "day_number Monthly d = 12 * YearFromDay d + MonthFromDay d"

lemma day_number_correct: "reset_day i (day_number i d) \<le> d \<and> d < reset_day i (day_number i d + 1)"
  using month_of_day [of d] div_bounds [of 7 "d - 4"] by (cases i) auto

lemma monday: "d - (WeekDay d + 6) mod 7 = 7 * ((d - 4) div 7) + 4"
proof -
  have "(WeekDay d + 6) mod 7 = (d - 4 + 14) mod 7" by (simp add: WeekDay_def mod_add_left_eq)
  also have "\<dots> = (d - 4) mod 7" using mod_mult_self1 [of "d - 4" 2 7] by simp
  finally show ?thesis using mult_div_mod_eq [of 7 "d - 4"] by linarith
qed

lemma getBudgetWindow_cell:
  fixes i :: reset_interval
  assumes "0 \<le> now"
  defines "j \<equiv> day_number i (Day now)"
  shows "getBudgetWindow i rt now =
    (if resets.instant i rt j \<le> now then (resets.instant i rt j, resets.instant i rt (j + 1))
     else (resets.instant i rt (j - 1), resets.instant i rt j))"
proof -
  obtain h m where hm: "getResetTimeParts (normalizeResetTime (Some rt)) = (h, m)" by (cases "getResetTimeParts (normalizeResetTime (Some rt))")
  have y: "1970 \<le> YearFromDay (Day now)"
    using assms by (intro YearFromDay_from_1970) (simp add: Day_def msPerDay_def)
  note D = Date_UTC_at [OF hm y]
  have date: "MakeDay (YearFromDay (Day now)) (MonthFromDay (Day now)) (DateFromDay (Day now) + n) = Day now + n" for n
    by (rule MakeDay_date)
  show ?thesis
  proof (cases i)
    case Daily
    then show ?thesis using date [of 0] date [of 1] date [of "- 1"]
      by (simp add: getBudgetWindow_def Let_def hm getUTCFullYear_def getUTCMonth_def getUTCDate_def D j_def)
  next
    case Weekly
    define k where "k = (WeekDay (Day now) + 6) mod 7"
    define q where "q = (Day now - 4) div 7"
    let ?M = "MakeDay (YearFromDay (Day now)) (MonthFromDay (Day now))"
    have k: "Day now - k = 7 * q + 4" unfolding k_def q_def by (rule monday)
    have "?M (DateFromDay (Day now) - k) = 7 * q + 4" using date [of "- k"] k by simp
    moreover have "?M (DateFromDay (Day now) - k + 7) = 7 * q + 11" using date [of "7 - k"] k by (simp add: algebra_simps)
    moreover have "?M (DateFromDay (Day now) - k - 7) = 7 * q - 3" using date [of "- 7 - k"] k by (simp add: algebra_simps)
    ultimately show ?thesis using Weekly
      by (simp add: getBudgetWindow_def Let_def hm getUTCFullYear_def getUTCMonth_def getUTCDate_def getUTCDay_def D j_def
          k_def [symmetric] q_def [symmetric])
  next
    case Monthly
    then show ?thesis
      by (simp add: getBudgetWindow_def Let_def hm getUTCFullYear_def getUTCMonth_def getUTCDate_def D j_def MakeDay_month
          algebra_simps)
  qed
qed

interpretation budget_windows: windows "resets.instant i rt" "getBudgetWindow i rt" "\<lambda>now. 0 \<le> now" for i rt
proof
  fix now :: time
  assume now: "0 \<le> now"
  let ?j = "day_number i (Day now)"
  have c: "now < resets.instant i rt (?j + 1)" "resets.instant i rt (?j - 1) \<le> now"
    using day_number_correct [of i "Day now"] by (intro resets.cell_of_day; simp)+
  show "\<exists>j. getBudgetWindow i rt now = (resets.instant i rt j, resets.instant i rt (j + 1))
      \<and> resets.instant i rt j \<le> now \<and> now < resets.instant i rt (j + 1)"
  proof (cases "resets.instant i rt ?j \<le> now")
    case True
    then show ?thesis using c getBudgetWindow_cell [OF now, of i rt] by auto
  next
    case False
    then show ?thesis using c getBudgetWindow_cell [OF now, of i rt] by (intro exI [of _ "?j - 1"]) auto
  qed
qed

text \<open>Where the instants of a grid lie.\<close>

interpretation months: grid month_day
  by unfold_locales (rule month_day_mono)

fun opening_day :: "reset_interval \<Rightarrow> int \<Rightarrow> bool" where
  "opening_day Daily d = True"
| "opening_day Weekly d = (WeekDay d = 1)"
| "opening_day Monthly d = (DateFromDay d = 1)"

lemma opening_reset_day: "opening_day i (reset_day i j)"
proof (cases i)
  case Weekly
  have "(7 * j + 8) mod 7 = 1" using mod_mult_self2 [of 8 7 j] by (simp add: add.commute)
  then show ?thesis using Weekly by (simp add: WeekDay_def)
next
  case Monthly
  let ?d = "month_day j"
  have k: "12 * YearFromDay ?d + MonthFromDay ?d = j"
    using months.cell_unique month_of_day [of ?d] month_day_mono [of j] by blast
  have "MakeDay (YearFromDay ?d) (MonthFromDay ?d) (DateFromDay ?d + 0) = ?d + 0" by (rule MakeDay_date)
  then show ?thesis using Monthly k by (simp add: MakeDay_month)
qed simp

lemma instant_split: "Day (resets.instant i rt j) = reset_day i j \<and> resets.instant i rt j mod msPerDay = reset_offset rt"
  using resets.time_of_day [of rt] by (simp add: Day_def)

text \<open>
  C99. The window of a budget. At any time, the window computed for it contains it, opens at the configured
  time of the day, on a Monday when it is weekly and on the first of a month when it is monthly; every other
  moment of the window is given the same window, and the next window opens where it closes.
\<close>

theorem budget_windows_tile_time:
  assumes "0 \<le> now" and "0 \<le> fst (getBudgetWindow i rt now)" and "fst (getBudgetWindow i rt now) \<le> u" and "u < snd (getBudgetWindow i rt now)"
  shows "fst (getBudgetWindow i rt now) \<le> now \<and> now < snd (getBudgetWindow i rt now)
    \<and> getBudgetWindow i rt u = getBudgetWindow i rt now
    \<and> fst (getBudgetWindow i rt (snd (getBudgetWindow i rt now))) = snd (getBudgetWindow i rt now)
    \<and> fst (getBudgetWindow i rt now) mod msPerDay = reset_offset rt \<and> opening_day i (Day (fst (getBudgetWindow i rt now)))"
proof -
  obtain j where "getBudgetWindow i rt now = (resets.instant i rt j, resets.instant i rt (j + 1))"
    using budget_windows.cell [OF assms(1)] by blast
  then show ?thesis
    using assms budget_windows.contains [of now i rt] budget_windows.same_window [of now u i rt]
      budget_windows.next_window [of now i rt] opening_reset_day [of i j] instant_split [of i j rt] by simp
qed

lemma budget_windows_tile_time_witness:
  "getBudgetWindow Monthly ''09:30'' 1709251200000 = (1706779800000, 1709285400000)
   \<and> getBudgetWindow Monthly ''09:30'' 1709285399999 = (1706779800000, 1709285400000)
   \<and> fst (getBudgetWindow Monthly ''09:30'' 1709285400000) = 1709285400000"
proof -
  have w: "getBudgetWindow Monthly ''09:30'' 1709251200000 = (1706779800000, 1709285400000)" by code_simp
  show ?thesis using budget_windows_tile_time [of 1709251200000 Monthly "''09:30''" 1709285399999] by (simp add: w)
qed

section \<open>Normalisation is idempotent\<close>

lemma digit_padded: "(n :: nat) < 10 \<Longrightarrow> \<not> js_space (char_of (48 + n))"
  using digit_not [of "char_of (48 + n)"] by (simp add: digit_char_of)

lemma trim_padded: "0 \<le> h \<Longrightarrow> h < 100 \<Longrightarrow> 0 \<le> m \<Longrightarrow> m < 100 \<Longrightarrow> trim (pad2 h @ '':'' @ pad2 m) = pad2 h @ '':'' @ pad2 m"
  using digit_padded [of "nat h div 10"] digit_padded [of "nat m mod 10"]
  by (simp add: pad2_digits trim_def nat_less_iff div_less_iff_less_mult)

lemma normalizeResetTime_padded:
  "0 \<le> h \<Longrightarrow> h \<le> 23 \<Longrightarrow> 0 \<le> m \<Longrightarrow> m \<le> 59 \<Longrightarrow>
    normalizeResetTime (Some (pad2 h @ '':'' @ pad2 m)) = pad2 h @ '':'' @ pad2 m"
  using trim_padded [of h m] reset_time_match_padded [of h m] by (simp add: normalizeResetTime_def)

lemma normalizeResetTime_idem: "normalizeResetTime (Some (normalizeResetTime v)) = normalizeResetTime v"
proof (cases "Option.bind v (\<lambda>s. reset_time_match (trim s))")
  case None
  then have "normalizeResetTime v = ''00:00''" by (simp add: normalizeResetTime_def)
  moreover have "normalizeResetTime (Some ''00:00'') = ''00:00''" by code_simp
  ultimately show ?thesis by simp
next
  case (Some p)
  then obtain h m where "normalizeResetTime v = pad2 h @ '':'' @ pad2 m" "0 \<le> h" "h \<le> 23" "0 \<le> m" "m \<le> 59"
    by (cases p) (auto simp: normalizeResetTime_def intro!: that)
  then show ?thesis using normalizeResetTime_padded [of h m] by simp
qed

lemma interval_name_read: "normalizeResetInterval (Some (interval_name i)) = i"
proof -
  have "normalizeResetInterval (Some ''daily'') = Daily" "normalizeResetInterval (Some ''weekly'') = Weekly"
      "normalizeResetInterval (Some ''monthly'') = Monthly"
    by code_simp+
  then show ?thesis by (cases i) simp_all
qed

lemma normalizeTimestamp_idem [simp]: "normalizeTimestamp (normalizeTimestamp t) = normalizeTimestamp t"
  by (simp add: normalizeTimestamp_def split: option.split)

text \<open>A normalised budget is one that normalisation does not change.\<close>

definition normal :: "budget \<Rightarrow> bool" where
  "normal b \<longleftrightarrow> normalizeBudgetConfig (config_of b) = b"

lemma normalize_normal: "normal (normalizeBudgetConfig c)"
  by (simp add: normal_def normalizeBudgetConfig_def config_of_def interval_name_read normalizeResetTime_idem)

end
