(* ===== verification/SpendWriter.thy ===== *)
theory SpendWriter
  imports Prelude
begin

text \<open>
  The writer that batches what API keys spend: \<open>src/src/lib/spend/batchWriter.ts\<close>, with the table it writes
  to (\<open>domain_cost_history\<close> in \<open>src/src/lib/db/domainState.ts\<close>).

  \<^item> \<open>spend\<close> has the fields of the class and the rows of the table. The flush that is under way is in
    \<open>flushing\<close>: the value of \<open>flushPromise\<close> together with where the function behind it stands.
  \<^item> A flush runs up to its \<open>await\<close> at once. What the call of \<open>persistEntries\<close> does there is a
    \<open>persist_call\<close>: it throws, it returns (the rows are written, as \<open>batchSaveCostEntries\<close> does), or it
    returns a promise that is settled later, when the flush resumes; it writes all rows or none.
  \<^item> A cost that is not a finite number is \<open>None\<close>. The timer is an event.

  The lemmas: nothing that is spent is forgotten or counted twice; and what stops the writer for good.
\<close>

section \<open>State\<close>

record cost_entry =
  ce_key :: string
  ce_cost :: rat
  ce_time :: time

text \<open>\<open>Awaiting es written\<close>: the flush of \<open>es\<close> is at its await. \<open>Stale\<close>: a promise that has settled.\<close>

datatype flush_promise = No_flush | Awaiting "cost_entry list" bool | Stale

record spend =
  buffer :: "cost_entry list"
  inFlightEntries :: "cost_entry list"
  discardedApiKeyIds :: "string set"
  flushing :: flush_promise
  cost_rows :: "cost_entry list"

datatype persist_call = Throws | Returns | Pends

definition DEFAULT_FLUSH_INTERVAL_MS :: int where "DEFAULT_FLUSH_INTERVAL_MS = 60000"
definition DEFAULT_MAX_BUFFER_SIZE :: nat where "DEFAULT_MAX_BUFFER_SIZE = 1000"

text \<open>What \<open>parseInt\<close> reads from the environment, when it reads a number.\<close>

definition getFlushIntervalMs :: "int option \<Rightarrow> int" where
  "getFlushIntervalMs v = (case v of Some n \<Rightarrow> if n > 0 then n else DEFAULT_FLUSH_INTERVAL_MS | None \<Rightarrow> DEFAULT_FLUSH_INTERVAL_MS)"

definition getMaxBufferSize :: "int option \<Rightarrow> nat" where
  "getMaxBufferSize v = (case v of Some n \<Rightarrow> if n > 0 then nat n else DEFAULT_MAX_BUFFER_SIZE | None \<Rightarrow> DEFAULT_MAX_BUFFER_SIZE)"

definition no_spend :: spend where
  "no_spend = \<lparr>buffer = [], inFlightEntries = [], discardedApiKeyIds = {}, flushing = No_flush, cost_rows = []\<rparr>"

section \<open>Operations\<close>

definition normalizeEntry :: "string \<Rightarrow> rat option \<Rightarrow> time \<Rightarrow> cost_entry option" where
  "normalizeEntry key cost timestamp =
     (case cost of None \<Rightarrow> None
      | Some c \<Rightarrow> if key = [] \<or> c \<le> 0 then None
                 else Some \<lparr>ce_key = key, ce_cost = c, ce_time = timestamp\<rparr>)"

definition flush :: "persist_call \<Rightarrow> spend \<Rightarrow> spend" where
  "flush p s =
     (if flushing s \<noteq> No_flush then s
      else if buffer s = [] then s
      else let entriesToFlush = buffer s;
               s1 = s\<lparr>buffer := [], inFlightEntries := entriesToFlush\<rparr>;
               entriesToPersist = filter (\<lambda>e. ce_key e \<notin> discardedApiKeyIds s) entriesToFlush
           in if entriesToPersist = [] then s1\<lparr>inFlightEntries := [], flushing := Stale\<rparr>
              else case p of
                     Throws \<Rightarrow> s1\<lparr>buffer := entriesToPersist, inFlightEntries := [], flushing := Stale\<rparr>
                   | Returns \<Rightarrow> s1\<lparr>cost_rows := cost_rows s @ entriesToPersist, flushing := Awaiting entriesToPersist True\<rparr>
                   | Pends \<Rightarrow> s1\<lparr>flushing := Awaiting entriesToPersist False\<rparr>)"

text \<open>
  The part of a flush behind the await; \<open>ok\<close> says whether the promise of \<open>persistEntries\<close> was fulfilled. When
  the function ends before its promise is stored, in the two cases above, its last statement has set
  \<open>flushPromise\<close> to null before the assignment stores the settled promise.
\<close>

definition resume :: "bool \<Rightarrow> spend \<Rightarrow> spend" where
  "resume ok s =
     (case flushing s of
        Awaiting es written \<Rightarrow>
          if written then s\<lparr>inFlightEntries := [], flushing := No_flush\<rparr>
          else if ok then s\<lparr>cost_rows := cost_rows s @ es, inFlightEntries := [], flushing := No_flush\<rparr>
          else s\<lparr>buffer := es @ buffer s, inFlightEntries := [], flushing := No_flush\<rparr>
      | _ \<Rightarrow> s)"

definition increment :: "nat \<Rightarrow> string \<Rightarrow> rat option \<Rightarrow> time \<Rightarrow> persist_call \<Rightarrow> spend \<Rightarrow> spend" where
  "increment maxBufferSize key cost timestamp p s =
     (case normalizeEntry key cost timestamp of
        None \<Rightarrow> s
      | Some e \<Rightarrow>
          let s1 = s\<lparr>discardedApiKeyIds := discardedApiKeyIds s - {key}, buffer := buffer s @ [e]\<rparr>
          in if length (buffer s1) \<ge> maxBufferSize then flush p s1 else s1)"

definition discardEntries :: "string \<Rightarrow> spend \<Rightarrow> spend" where
  "discardEntries key s = s\<lparr>discardedApiKeyIds := insert key (discardedApiKeyIds s),
     buffer := filter (\<lambda>e. ce_key e \<noteq> key) (buffer s),
     inFlightEntries := filter (\<lambda>e. ce_key e \<noteq> key) (inFlightEntries s)\<rparr>"

text \<open>\<open>None\<close> as the upper end is infinity.\<close>

definition in_window :: "string \<Rightarrow> time \<Rightarrow> time option \<Rightarrow> cost_entry \<Rightarrow> bool" where
  "in_window key since until e \<longleftrightarrow> ce_key e = key \<and> ce_time e \<ge> since \<and> (case until of None \<Rightarrow> True | Some u \<Rightarrow> ce_time e < u)"

definition getBufferedEntries :: "string \<Rightarrow> time \<Rightarrow> time option \<Rightarrow> spend \<Rightarrow> cost_entry list" where
  "getBufferedEntries key since until s = filter (in_window key since until) (inFlightEntries s @ buffer s)"

definition sum_costs :: "cost_entry list \<Rightarrow> rat" where
  "sum_costs es = sum_list (map ce_cost es)"

definition getPendingCostTotal :: "string \<Rightarrow> time \<Rightarrow> time option \<Rightarrow> spend \<Rightarrow> rat" where
  "getPendingCostTotal key since until s = sum_costs (getBufferedEntries key since until s)"

section \<open>The table\<close>

definition loadCostTotal :: "string \<Rightarrow> time \<Rightarrow> spend \<Rightarrow> rat" where
  "loadCostTotal key since s = sum_costs (filter (in_window key since None) (cost_rows s))"

definition loadCostEntries :: "string \<Rightarrow> time \<Rightarrow> spend \<Rightarrow> cost_entry list" where
  "loadCostEntries key since s = sort_key ce_time (filter (in_window key since None) (cost_rows s))"

definition loadCostEntriesInRange :: "string \<Rightarrow> time \<Rightarrow> time \<Rightarrow> spend \<Rightarrow> cost_entry list" where
  "loadCostEntriesInRange key since until s =
     sort_key ce_time (filter (in_window key since (Some until)) (cost_rows s))"

definition cleanOldCostEntries :: "time \<Rightarrow> spend \<Rightarrow> spend" where
  "cleanOldCostEntries older s = s\<lparr>cost_rows := filter (\<lambda>e. \<not> ce_time e < older) (cost_rows s)\<rparr>"

definition deleteCostEntries :: "string \<Rightarrow> spend \<Rightarrow> spend" where
  "deleteCostEntries key s = s\<lparr>cost_rows := filter (\<lambda>e. ce_key e \<noteq> key) (cost_rows s)\<rparr>"

section \<open>Runs\<close>

datatype spend_event = Increment string "rat option" time persist_call | Flush persist_call | Resume bool | Delete string

inductive spend_run :: "nat \<Rightarrow> spend_event list \<Rightarrow> spend \<Rightarrow> bool" for limit :: nat where
  run_start: "spend_run limit [] no_spend"
| run_increment: "spend_run limit es s \<Longrightarrow> spend_run limit (es @ [Increment k c t p]) (increment limit k c t p s)"
| run_flush: "spend_run limit es s \<Longrightarrow> spend_run limit (es @ [Flush p]) (flush p s)"
| run_resume: "spend_run limit es s \<Longrightarrow> flushing s = Awaiting ws w \<Longrightarrow> spend_run limit (es @ [Resume ok]) (resume ok s)"
| run_delete: "spend_run limit es s \<Longrightarrow> spend_run limit (es @ [Delete k]) (deleteCostEntries k (discardEntries k s))"

inductive_cases spend_runE: "spend_run limit es s"

text \<open>What the events of a run spend.\<close>

fun spent_by :: "spend_event \<Rightarrow> cost_entry list" where
  "spent_by (Increment k c t p) = (case normalizeEntry k c t of None \<Rightarrow> [] | Some e \<Rightarrow> [e])"
| "spent_by _ = []"

definition spent :: "string \<Rightarrow> time \<Rightarrow> spend_event list \<Rightarrow> rat" where
  "spent key since es = sum_costs (filter (in_window key since None) (concat (map spent_by es)))"

fun writes_twice :: "flush_promise \<Rightarrow> bool" where
  "writes_twice (Awaiting es w) = w"
| "writes_twice _ = False"

section \<open>Conservation\<close>

lemma sum_costs_simps [simp]:
  "sum_costs [] = 0" "sum_costs (es @ fs) = sum_costs es + sum_costs fs" "sum_costs (e # es) = ce_cost e + sum_costs es"
  by (simp_all add: sum_costs_def)

abbreviation cost_of :: "string \<Rightarrow> time \<Rightarrow> cost_entry list \<Rightarrow> rat" where
  "cost_of key since es \<equiv> sum_costs (filter (in_window key since None) es)"

text \<open>
  For a key that was not deleted: its entries in flight are those of the flush under way, and rows, buffer and
  what that flush still has to write make up what was spent.
\<close>

definition accounted :: "string \<Rightarrow> time \<Rightarrow> rat \<Rightarrow> spend \<Rightarrow> bool" where
  "accounted key since amount s \<longleftrightarrow> key \<notin> discardedApiKeyIds s
     \<and> cost_of key since (inFlightEntries s) = (case flushing s of Awaiting es w \<Rightarrow> cost_of key since es | _ \<Rightarrow> 0)
     \<and> cost_of key since (cost_rows s) + cost_of key since (buffer s)
         + (case flushing s of Awaiting es w \<Rightarrow> if w then 0 else cost_of key since es | _ \<Rightarrow> 0) = amount"

lemma kept_entries:
  "key \<notin> D \<Longrightarrow> filter (in_window key since u) (filter (\<lambda>e. ce_key e \<notin> D) es) = filter (in_window key since u) es"
  by (induction es) (auto simp: in_window_def)

lemma nothing_kept: "key \<notin> D \<Longrightarrow> filter (\<lambda>e. ce_key e \<notin> D) es = [] \<Longrightarrow> cost_of key since es = 0"
  using kept_entries [of key D since None es] by simp

lemma accounted_flush: "accounted key since amount s \<Longrightarrow> accounted key since amount (flush p s)"
  using kept_entries [of key "discardedApiKeyIds s" since None "buffer s"]
    nothing_kept [of key "discardedApiKeyIds s" "buffer s" since]
  by (auto simp: accounted_def flush_def Let_def split: flush_promise.splits persist_call.split)

lemma accounted_resume: "accounted key since amount s \<Longrightarrow> accounted key since amount (resume ok s)"
  by (auto simp: accounted_def resume_def split: flush_promise.splits)

lemma accounted_append:
  "accounted key since amount s \<Longrightarrow>
    accounted key since (amount + cost_of key since [e]) (s\<lparr>discardedApiKeyIds := discardedApiKeyIds s - D, buffer := buffer s @ [e]\<rparr>)"
  by (auto simp: accounted_def)

lemma accounted_increment:
  "accounted key since amount s \<Longrightarrow>
    accounted key since (amount + cost_of key since (spent_by (Increment k c t p))) (increment limit k c t p s)"
  using accounted_append [of key since amount s _ "{k}"]
  by (cases "normalizeEntry k c t") (auto simp: increment_def Let_def intro!: accounted_flush simp del: filter.simps)

lemma accounted_other:
  "accounted key since amount s \<Longrightarrow> k \<noteq> key \<Longrightarrow> accounted key since amount (deleteCostEntries k (discardEntries k s))"
proof -
  assume k: "k \<noteq> key"
  have "filter (in_window key since None) (filter (\<lambda>e. ce_key e \<noteq> k) es) = filter (in_window key since None) es" for es
    using k by (induction es) (auto simp: in_window_def)
  then show "accounted key since amount s \<Longrightarrow> ?thesis"
    using k by (simp add: accounted_def discardEntries_def deleteCostEntries_def)
qed

lemma run_accounted:
  "spend_run limit es s \<Longrightarrow> Delete key \<notin> set es \<Longrightarrow> accounted key since (spent key since es) s"
proof (induction rule: spend_run.induct)
  case run_start
  then show ?case by (simp add: accounted_def no_spend_def spent_def)
next
  case (run_increment es s k c t p)
  then show ?case using accounted_increment by (simp add: spent_def del: spent_by.simps)
qed (auto simp: spent_def accounted_flush accounted_resume accounted_other)

lemma normalize_pos: "normalizeEntry k c t = Some e \<Longrightarrow> ce_key e = k \<and> ce_time e = t \<and> 0 < ce_cost e"
  by (auto simp: normalizeEntry_def split: option.splits if_splits)

lemma run_positive:
  "spend_run limit es s \<Longrightarrow> \<forall>e \<in> set (inFlightEntries s) \<union> set (buffer s)
      \<union> (case flushing s of Awaiting ws w \<Rightarrow> set ws | _ \<Rightarrow> {}). 0 < ce_cost e"
  by (induction rule: spend_run.induct)
    (auto simp: no_spend_def increment_def flush_def resume_def Let_def discardEntries_def deleteCostEntries_def
      dest!: normalize_pos split: option.splits flush_promise.splits persist_call.splits if_splits)

lemma reported_spend:
  assumes "spend_run limit es s" and "Delete key \<notin> set es"
  shows "spent key since es \<le> loadCostTotal key since s + getPendingCostTotal key since None s
    \<and> (\<not> writes_twice (flushing s) \<longrightarrow>
         loadCostTotal key since s + getPendingCostTotal key since None s = spent key since es)"
proof -
  have pos: "0 \<le> cost_of key since (inFlightEntries s)"
    unfolding sum_costs_def using run_positive [OF assms(1)] by (intro sum_list_nonneg) (auto intro: less_imp_le)
  have "accounted key since (spent key since es) s" using assms by (rule run_accounted)
  then show ?thesis
    using pos by (auto simp: accounted_def loadCostTotal_def getPendingCostTotal_def getBufferedEntries_def
        split: flush_promise.splits if_splits)
qed

text \<open>
  C99. Nothing an API key spends is forgotten. Whatever is recorded, however flushes fail, overlap or are
  retried, and whatever other keys are deleted: what the rows and the writer together report for a key since
  any time is at least what was recorded since then, and exactly that, except between the write of a flush
  and its resumption, when the entries of that flush are reported twice.
\<close>

theorem no_spend_lost:
  assumes "spend_run limit es s" and "Delete key \<notin> set es"
  shows "spent key since es \<le> loadCostTotal key since s + getPendingCostTotal key since None s
    \<and> (\<not> writes_twice (flushing s) \<longrightarrow>
         loadCostTotal key since s + getPendingCostTotal key since None s = spent key since es)"
  using assms by (rule reported_spend)

lemma no_spend_lost_witness:
  "spent ''k'' 0 [Increment ''k'' (Some 2) 5 Pends, Flush Pends, Increment ''k'' (Some 3) 6 Pends, Resume False] = 5
   \<and> (\<exists>s. loadCostTotal ''k'' 0 s + getPendingCostTotal ''k'' 0 None s = (5::rat) \<and> cost_rows s = [])"
proof -
  let ?es = "[Increment ''k'' (Some 2) 5 Pends, Flush Pends, Increment ''k'' (Some 3) 6 Pends, Resume False]"
  define s3 where "s3 = increment 10 ''k'' (Some 3) 6 Pends (flush Pends (increment 10 ''k'' (Some 2) 5 Pends no_spend))"
  have run: "spend_run 10 ([] @ [Increment ''k'' (Some 2) 5 Pends] @ [Flush Pends] @ [Increment ''k'' (Some 3) 6 Pends]) s3"
    unfolding s3_def append_assoc [symmetric] by (intro run_increment run_flush run_start)
  have s3: "flushing s3 = Awaiting [\<lparr>ce_key = ''k'', ce_cost = 2, ce_time = 5\<rparr>] False"
    unfolding s3_def by code_simp
  have "spend_run 10 ?es (resume False s3)" using run_resume [OF run s3, of False] by simp
  moreover have "spent ''k'' 0 ?es = 5" by (simp add: spent_def normalizeEntry_def in_window_def)
  moreover have "cost_rows (resume False s3) = []" "\<not> writes_twice (flushing (resume False s3))"
    unfolding s3_def by code_simp+
  ultimately show ?thesis using no_spend_lost [of 10 ?es "resume False s3" "''k''" 0] by auto
qed

section \<open>What modelling showed\<close>

text \<open>The operations, on a state alone.\<close>

fun spend_apply :: "nat \<Rightarrow> spend \<Rightarrow> spend_event \<Rightarrow> spend" where
  "spend_apply limit s (Increment k c t p) = increment limit k c t p s"
| "spend_apply limit s (Flush p) = flush p s"
| "spend_apply limit s (Resume ok) = resume ok s"
| "spend_apply limit s (Delete k) = deleteCostEntries k (discardEntries k s)"

interpretation wedged: machine "spend_apply limit" "\<lambda>s :: spend. flushing s = Stale \<and> set (cost_rows s) \<subseteq> R" for limit R
proof
  fix s :: spend and e
  assume "flushing s = Stale \<and> set (cost_rows s) \<subseteq> R"
  then show "flushing (spend_apply limit s e) = Stale \<and> set (cost_rows (spend_apply limit s e)) \<subseteq> R"
    by (cases "(limit, s, e)" rule: spend_apply.cases)
      (auto simp: increment_def flush_def resume_def deleteCostEntries_def discardEntries_def Let_def split: option.split)
qed

text \<open>
  C99. One error of the database stops the writer for good. When \<open>persistEntries\<close> throws, as the default one
  does on any database error, the flush has ended before its promise is stored, and the settled promise is
  taken for a flush under way ever after: whatever happens then, no row is written any more.
\<close>

theorem throwing_persist_wedges:
  assumes "flushing s = No_flush" and "buffer s \<noteq> []"
  shows "set (cost_rows (foldl (spend_apply limit) (flush Throws s) es)) \<subseteq> set (cost_rows s)"
proof -
  have "flushing (flush Throws s) = Stale \<and> set (cost_rows (flush Throws s)) \<subseteq> set (cost_rows s)"
    using assms by (simp add: flush_def Let_def)
  then show ?thesis using wedged.run_inv by blast
qed

lemma throwing_persist_wedges_witness:
  "cost_rows (foldl (spend_apply 10) (flush Throws (increment 10 ''k'' (Some 2) 5 Returns no_spend))
     [Increment ''k'' (Some 3) 6 Returns, Flush Returns, Resume True, Flush Returns]) = []"
  using throwing_persist_wedges [of "increment 10 ''k'' (Some 2) 5 Returns no_spend" 10
      "[Increment ''k'' (Some 3) 6 Returns, Flush Returns, Resume True, Flush Returns]"]
  by (simp add: increment_def normalizeEntry_def no_spend_def flush_def)

text \<open>
  A key deleted while its entries are being written comes back when the write fails: they are put back into
  the buffer, and the next cost of the key takes it off the list of discarded keys.
\<close>

theorem deleted_spend_returns:
  "let s = foldl (spend_apply 10) no_spend [Increment ''k'' (Some 2) 5 Pends, Flush Pends, Delete ''k'', Resume False,
             Increment ''k'' (Some 3) 6 Pends, Flush Pends, Resume True]
   in map ce_cost (cost_rows s) = [2, 3]"
  by code_simp

text \<open>A stop while a flush is under way waits for that flush only: what came in since stays unwritten.\<close>

theorem stop_leaves_buffer:
  "let s = foldl (spend_apply 10) no_spend [Increment ''k'' (Some 2) 5 Pends, Flush Pends, Increment ''k'' (Some 3) 6 Pends,
             Flush Pends, Resume True]
   in map ce_cost (cost_rows s) = [2] \<and> map ce_cost (buffer s) = [3] \<and> flushing s = No_flush"
  by code_simp

end
