(* ===== verification/Budget.thy ===== *)
theory Budget
  imports BudgetWindow SpendWriter "HOL-Library.Multiset" "HOL-Library.List_Lexorder" "HOL-Library.Char_ord"
begin

text \<open>
  Budgets of API keys, second part: the store and the check (\<open>src/src/domain/costRules.ts\<close>, with the rows it
  keeps in \<open>src/src/lib/db/domainState.ts\<close> and, for what is spent, the batch writer of \<open>SpendWriter\<close>).

  \<^item> \<open>budgets\<close> holds the cache in memory, the rows of \<open>domain_budgets\<close>, those of \<open>domain_budget_reset_logs\<close>
    and the warnings that were printed (key, projected total, limit, next reset).
  \<^item> The flag \<open>db\<close> of an operation says whether the database answers during it; every call of it is in a
    \<open>try\<close> of its own whose \<open>catch\<close> is modelled. The clock is read once more between the budget and its window,
    hence two times.

  The lemmas: what a check decides, with what the writer holds back; how far concurrent requests can overshoot
  a limit; a closed period is logged once.
\<close>

section \<open>State\<close>

record reset_log =
  log_key :: string
  log_interval :: reset_interval
  previousSpend :: rat
  log_resetAt :: time
  log_nextResetAt :: time

record budgets =
  budget_cache :: "(string \<times> budget) list"
  budget_rows :: "(string \<times> budget) list"
  reset_logs :: "reset_log list"
  warnings :: "(string \<times> rat \<times> rat \<times> time) list"

definition no_budgets :: budgets where
  "no_budgets = \<lparr>budget_cache = [], budget_rows = [], reset_logs = [], warnings = []\<rparr>"

text \<open>\<open>toNumber(\<dots>, 0) || null\<close> on a column.\<close>

definition nonzero :: "time option \<Rightarrow> time option" where
  "nonzero t = (if t = Some 0 then None else t)"

definition row_config :: "budget \<Rightarrow> budget_config" where
  "row_config r = (let c = config_of r in
     c\<lparr>cfg_budgetResetAt := nonzero (cfg_budgetResetAt c), cfg_lastBudgetResetAt := nonzero (cfg_lastBudgetResetAt c),
       cfg_warningEmittedAt := nonzero (cfg_warningEmittedAt c), cfg_warningPeriodStart := nonzero (cfg_warningPeriodStart c)\<rparr>)"

definition saveBudget :: "string \<Rightarrow> budget \<Rightarrow> budgets \<Rightarrow> budgets" where
  "saveBudget key x b = b\<lparr>budget_rows := map_set key x (budget_rows b)\<rparr>"

definition loadBudget :: "string \<Rightarrow> budgets \<Rightarrow> budget_config option" where
  "loadBudget key b = map_option row_config (map_of (budget_rows b) key)"

definition saveBudgetResetLog :: "reset_log \<Rightarrow> budgets \<Rightarrow> budgets" where
  "saveBudgetResetLog l b = b\<lparr>reset_logs := reset_logs b @ [l]\<rparr>"

definition dbDeleteBudget :: "string \<Rightarrow> budgets \<Rightarrow> budgets" where
  "dbDeleteBudget key b = b\<lparr>budget_rows := map_del key (budget_rows b),
     reset_logs := filter (\<lambda>l. log_key l \<noteq> key) (reset_logs b)\<rparr>"

section \<open>Spending in a window\<close>

definition getBudgetWindowTotal :: "bool \<Rightarrow> string \<Rightarrow> time \<Rightarrow> spend \<Rightarrow> rat" where
  "getBudgetWindowTotal db key start s =
     (if db then loadCostTotal key start s + getPendingCostTotal key start None s else 0)"

definition getBudgetWindowRangeTotal :: "bool \<Rightarrow> string \<Rightarrow> time \<Rightarrow> time \<Rightarrow> spend \<Rightarrow> rat" where
  "getBudgetWindowRangeTotal db key start until s =
     (if db then sum_costs (loadCostEntriesInRange key start until s) + getPendingCostTotal key start (Some until) s else 0)"

section \<open>Operations\<close>

definition syncBudgetSchedule ::
  "bool \<Rightarrow> bool \<Rightarrow> bool \<Rightarrow> string \<Rightarrow> budget_config \<Rightarrow> time \<Rightarrow> spend \<Rightarrow> budgets \<Rightarrow> budget \<times> budgets" where
  "syncBudgetSchedule db logReset persist key config now s b =
     (let n = normalizeBudgetConfig config;
          (start, next) = getBudgetWindow (resetInterval n) (resetTime n) now;
          rolled = (case lastBudgetResetAt n of None \<Rightarrow> False | Some since \<Rightarrow> start > since);
          b1 = (if rolled \<and> logReset \<and> db
                then saveBudgetResetLog
                       \<lparr>log_key = key, log_interval = resetInterval n,
                        previousSpend = getBudgetWindowRangeTotal db key (the (lastBudgetResetAt n)) start s,
                        log_resetAt = start, log_nextResetAt = next\<rparr> b
                else b);
          updated = n\<lparr>budgetResetAt := Some next, lastBudgetResetAt := Some start,
                       warningEmittedAt := (if rolled then None else warningEmittedAt n),
                       warningPeriodStart := (if rolled then None else warningPeriodStart n)\<rparr>;
          b2 = (if n \<noteq> updated \<and> persist \<and> db then saveBudget key updated b1 else b1)
      in (updated, b2\<lparr>budget_cache := map_set key updated (budget_cache b2)\<rparr>))"

definition setBudget :: "bool \<Rightarrow> string \<Rightarrow> budget_config \<Rightarrow> time \<Rightarrow> spend \<Rightarrow> budgets \<Rightarrow> budget \<times> budgets" where
  "setBudget db key config now s b = syncBudgetSchedule db False True key config now s b"

definition getBudget :: "bool \<Rightarrow> string \<Rightarrow> time \<Rightarrow> spend \<Rightarrow> budgets \<Rightarrow> budget option \<times> budgets" where
  "getBudget db key now s b =
     (case map_of (budget_cache b) key of
        Some x \<Rightarrow> apfst Some (syncBudgetSchedule db True True key (config_of x) now s b)
      | None \<Rightarrow>
          (case (if db then loadBudget key b else None) of
             Some c \<Rightarrow> apfst Some (syncBudgetSchedule db True True key c now s b)
           | None \<Rightarrow> (None, b)))"

definition deleteBudget :: "bool \<Rightarrow> string \<Rightarrow> spend \<Rightarrow> budgets \<Rightarrow> spend \<times> budgets" where
  "deleteBudget db key s b =
     (let b1 = b\<lparr>budget_cache := map_del key (budget_cache b)\<rparr>; s1 = discardEntries key s
      in if db then (deleteCostEntries key s1, dbDeleteBudget key b1) else (s1, b1))"

definition recordCost :: "nat \<Rightarrow> string \<Rightarrow> rat option \<Rightarrow> time \<Rightarrow> persist_call \<Rightarrow> spend \<Rightarrow> spend" where
  "recordCost maxBufferSize key cost now p s = increment maxBufferSize key cost now p s"

text \<open>The rows in the order of their keys; how many there are, and how many rolled.\<close>

definition syncAllBudgetSchedules :: "bool \<Rightarrow> time \<Rightarrow> spend \<Rightarrow> budgets \<Rightarrow> (nat \<times> nat) \<times> budgets" where
  "syncAllBudgetSchedules db now s b =
     (if \<not> db then ((0, 0), b)
      else foldl (\<lambda>((processed, resets), c) (key, row).
                    let (synced, c') = syncBudgetSchedule db True True key (row_config row) now s c
                    in ((Suc processed, if cfg_lastBudgetResetAt (row_config row) \<noteq> lastBudgetResetAt synced then Suc resets else resets), c'))
             ((0, 0), b) (sort_key fst (filter (\<lambda>(key, row). key \<noteq> []) (budget_rows b))))"

section \<open>The check\<close>

record verdict =
  v_allowed :: bool
  v_exceeded :: "(reset_interval \<times> rat \<times> rat) option"
  v_warningReached :: bool
  v_remaining :: rat
  v_periodUsed :: rat
  v_activeLimitUsd :: rat
  v_window :: "(time \<times> time) option"

definition no_budget :: verdict where
  "no_budget = \<lparr>v_allowed = True, v_exceeded = None, v_warningReached = False, v_remaining = 0, v_periodUsed = 0,
     v_activeLimitUsd = 0, v_window = None\<rparr>"

definition emitBudgetWarning :: "string \<Rightarrow> rat \<Rightarrow> rat \<Rightarrow> time \<Rightarrow> budgets \<Rightarrow> budgets" where
  "emitBudgetWarning key projected limit next b = b\<lparr>warnings := warnings b @ [(key, projected, limit, next)]\<rparr>"

text \<open>The warning of a check: marked in the cache first, then saved, and printed only when that worked.\<close>

definition warn_once :: "bool \<Rightarrow> string \<Rightarrow> budget \<Rightarrow> rat \<Rightarrow> rat \<Rightarrow> time \<times> time \<Rightarrow> time \<Rightarrow> budgets \<Rightarrow> budgets" where
  "warn_once db key x projected limit w now b =
     (if warningPeriodStart x = Some (fst w) then b
      else let y = x\<lparr>warningEmittedAt := Some now, warningPeriodStart := Some (fst w)\<rparr>;
               b1 = b\<lparr>budget_cache := map_set key y (budget_cache b)\<rparr>
           in if db then emitBudgetWarning key projected limit (snd w) (saveBudget key y b1) else b1)"

definition checkBudget :: "bool \<Rightarrow> string \<Rightarrow> rat \<Rightarrow> time \<Rightarrow> time \<Rightarrow> spend \<Rightarrow> budgets \<Rightarrow> verdict \<times> budgets" where
  "checkBudget db key additionalCost now now' s b =
     (case getBudget db key now s b of
        (None, b1) \<Rightarrow> (no_budget, b1)
      | (Some x, b1) \<Rightarrow>
          let w = getBudgetWindow (resetInterval x) (resetTime x) now';
              periodUsed = getBudgetWindowTotal db key (fst w) s;
              projected = periodUsed + additionalCost;
              limit = getActiveBudgetLimit x;
              warningReached = (limit > 0 \<and> projected \<ge> limit * warningThreshold x);
              remaining = max (limit - projected) 0;
              b2 = (if warningReached then warn_once db key x projected limit w now' b1 else b1)
          in (if limit > 0 \<and> projected > limit
              then \<lparr>v_allowed = False, v_exceeded = Some (resetInterval x, projected, limit), v_warningReached = True,
                    v_remaining = remaining, v_periodUsed = periodUsed, v_activeLimitUsd = limit, v_window = Some w\<rparr>
              else \<lparr>v_allowed = True, v_exceeded = None, v_warningReached = warningReached,
                    v_remaining = remaining, v_periodUsed = periodUsed, v_activeLimitUsd = limit, v_window = Some w\<rparr>, b2))"

section \<open>Summaries\<close>

text \<open>Midnight and the first of the month are those of the machine's time zone: arguments.\<close>

definition getDailyTotal :: "bool \<Rightarrow> string \<Rightarrow> time \<Rightarrow> spend \<Rightarrow> rat" where
  "getDailyTotal db key todayStart s =
     (if db then sum_costs (loadCostEntries key todayStart s) + getPendingCostTotal key todayStart None s else 0)"

record cost_summary =
  dailyTotal :: rat
  monthlyTotal :: rat
  totalEntries :: nat
  totalCostPeriod :: rat
  summary_budget :: "budget option"
  summary_limit :: rat

definition getCostSummary :: "bool \<Rightarrow> string \<Rightarrow> time \<Rightarrow> time \<Rightarrow> time \<Rightarrow> spend \<Rightarrow> budgets \<Rightarrow> cost_summary \<times> budgets" where
  "getCostSummary db key todayStart monthStart now s b =
     (let (budget, b1) = getBudget db key now s b;
          entries = (\<lambda>since. loadCostEntries key since s @ getBufferedEntries key since None s);
          limit = (case budget of None \<Rightarrow> 0 | Some x \<Rightarrow> getActiveBudgetLimit x)
      in (if db
          then \<lparr>dailyTotal = sum_costs (entries todayStart), monthlyTotal = sum_costs (entries monthStart),
                totalEntries = length (entries monthStart),
                totalCostPeriod = (case budget of None \<Rightarrow> 0
                                   | Some x \<Rightarrow> sum_costs (entries (fst (getBudgetWindow (resetInterval x) (resetTime x) now)))),
                summary_budget = budget, summary_limit = limit\<rparr>
          else \<lparr>dailyTotal = 0, monthlyTotal = 0, totalEntries = 0, totalCostPeriod = 0, summary_budget = budget, summary_limit = limit\<rparr>, b1))"

lemma sum_costs_sort: "sum_costs (sort_key f es) = sum_costs es"
  unfolding sum_costs_def by (metis mset_map mset_sort sum_mset_sum_list)

text \<open>A summary and a check read the same spending, by two queries.\<close>

lemma daily_total_is_window_total: "getDailyTotal db key since s = getBudgetWindowTotal db key since s"
  by (simp add: getDailyTotal_def getBudgetWindowTotal_def loadCostEntries_def loadCostTotal_def sum_costs_sort)

lemma summary_period:
  "db \<Longrightarrow> fst (getBudget db key now s b) = Some x \<Longrightarrow>
    totalCostPeriod (fst (getCostSummary db key d m now s b))
      = getBudgetWindowTotal db key (fst (getBudgetWindow (resetInterval x) (resetTime x) now)) s"
  by (cases "getBudget db key now s b")
    (simp add: getCostSummary_def Let_def getBudgetWindowTotal_def loadCostEntries_def loadCostTotal_def sum_costs_sort
      getPendingCostTotal_def)

section \<open>What a check decides\<close>

lemma checkBudget_allowed:
  assumes "checkBudget db key add now now' s b = (v, b')" and "0 < v_activeLimitUsd v" and "v_window v = Some w"
  shows "v_allowed v \<longleftrightarrow> getBudgetWindowTotal db key (fst w) s + add \<le> v_activeLimitUsd v"
  using assms by (auto simp: checkBudget_def no_budget_def Let_def split: prod.splits option.splits if_splits)

text \<open>
  C99. A check against a limit is right about what was really spent, wherever the costs are: in rows, in the
  buffer, or in a flush that is under way, failed or was retried. For a key whose budget was never deleted and a
  check whose queries the database answers: a key that passes has, with the additional cost, spent no more
  than its limit since the window opened; and a key that does not pass has spent more, unless a flush has
  written its rows and not resumed yet, when its entries count twice. Without the database a check lets the
  key pass, and this says nothing.
\<close>

theorem check_is_exact:
  assumes "spend_run bufsize es s" and "Delete key \<notin> set es"
    and "checkBudget True key add now now' s b = (v, b')" and "0 < v_activeLimitUsd v" and "v_window v = Some w"
  shows "(v_allowed v \<longrightarrow> spent key (fst w) es + add \<le> v_activeLimitUsd v)
    \<and> (\<not> v_allowed v \<and> \<not> writes_twice (flushing s) \<longrightarrow> v_activeLimitUsd v < spent key (fst w) es + add)"
  using checkBudget_allowed [OF assms(3,4,5)] reported_spend [OF assms(1,2), of "fst w"]
  by (auto simp: getBudgetWindowTotal_def)

text \<open>A key with a limit of 4 a day.\<close>

definition four_a_day :: budget_config where
  "four_a_day = \<lparr>cfg_dailyLimitUsd = Some 4, cfg_weeklyLimitUsd = None, cfg_monthlyLimitUsd = None,
     cfg_warningThreshold = None, cfg_resetInterval = Some ''Daily '', cfg_resetTime = Some ''09:30'', cfg_budgetResetAt = None,
     cfg_lastBudgetResetAt = None, cfg_warningEmittedAt = None, cfg_warningPeriodStart = None\<rparr>"

definition day_one :: time where "day_one = 1709251200000"

definition four_set :: budgets where
  "four_set = snd (setBudget True ''k'' four_a_day day_one no_spend no_budgets)"

definition four_budget :: budget where
  "four_budget = \<lparr>dailyLimitUsd = 4, weeklyLimitUsd = 0, monthlyLimitUsd = 0, warningThreshold = 8 / 10, resetInterval = Daily,
     resetTime = ''09:30'', budgetResetAt = Some 1709285400000, lastBudgetResetAt = Some 1709199000000,
     warningEmittedAt = None, warningPeriodStart = None\<rparr>"

lemma four_window: "getBudgetWindow Daily ''09:30'' day_one = (1709199000000, 1709285400000)"
  by code_simp

lemma four_normal: "normalizeBudgetConfig (config_of four_budget) = four_budget"
  by code_simp

lemma four_normalized: "normalizeBudgetConfig four_a_day = four_budget\<lparr>budgetResetAt := None, lastBudgetResetAt := None\<rparr>"
  by code_simp

lemma four_fields:
  "resetInterval four_budget = Daily" "resetTime four_budget = ''09:30''" "lastBudgetResetAt four_budget = Some 1709199000000"
  "warningEmittedAt four_budget = None" "warningPeriodStart four_budget = None" "getActiveBudgetLimit four_budget = 4"
  by (simp_all add: four_budget_def getActiveBudgetLimit_def)

lemma four_again:
  "four_budget\<lparr>budgetResetAt := Some 1709285400000, lastBudgetResetAt := Some 1709199000000\<rparr> = four_budget"
  "four_budget\<lparr>budgetResetAt := None, lastBudgetResetAt := None\<rparr> \<noteq> four_budget"
  "four_budget\<lparr>budgetResetAt := Some 1709285400000, lastBudgetResetAt := Some 1709199000000, warningEmittedAt := None,
     warningPeriodStart := None\<rparr> = four_budget"
  "four_budget\<lparr>warningEmittedAt := None, warningPeriodStart := None\<rparr> = four_budget"
  by (simp_all add: four_budget_def)

lemmas four_defs = syncBudgetSchedule_def Let_def four_normal four_normalized four_window four_fields four_again saveBudget_def

lemma four_set_value:
  "four_set = \<lparr>budget_cache = [(''k'', four_budget)], budget_rows = [(''k'', four_budget)], reset_logs = [], warnings = []\<rparr>"
  by (simp add: four_set_def setBudget_def four_defs no_budgets_def)

lemma four_sync: "syncBudgetSchedule True lg True ''k'' four_a_day day_one no_spend no_budgets = (four_budget, four_set)"
  by (simp add: four_set_value four_defs no_budgets_def)

lemma four_cached: "map_of (budget_cache four_set) ''k'' = Some four_budget" "reset_logs four_set = []"
  by (simp_all add: four_set_value)

lemma four_check:
  defines "v \<equiv> \<lambda>s. fst (checkBudget True ''k'' 0 day_one day_one s four_set)"
  shows "v_activeLimitUsd (v s) = 4" "v_window (v s) = Some (1709199000000, 1709285400000)"
    "v_allowed (v s) \<longleftrightarrow> getBudgetWindowTotal True ''k'' 1709199000000 s \<le> 4"
proof -
  have "fst (getBudget True ''k'' day_one s four_set) = Some four_budget"
    by (simp add: getBudget_def four_cached four_defs)
  then obtain b where "getBudget True ''k'' day_one s four_set = (Some four_budget, b)" by (metis prod.collapse)
  then show "v_activeLimitUsd (v s) = 4" "v_window (v s) = Some (1709199000000, 1709285400000)"
      "v_allowed (v s) \<longleftrightarrow> getBudgetWindowTotal True ''k'' 1709199000000 s \<le> 4"
    by (simp_all add: v_def checkBudget_def Let_def four_fields four_window)
qed

lemma check_is_exact_witness:
  "let s = increment 10 ''k'' (Some 3) day_one Pends (flush Pends (increment 10 ''k'' (Some 2) day_one Pends no_spend));
       v = fst (checkBudget True ''k'' 0 day_one day_one s four_set)
   in \<not> v_allowed v \<and> spent ''k'' 1709199000000 [Increment ''k'' (Some 2) day_one Pends, Flush Pends, Increment ''k'' (Some 3) day_one Pends] > 4"
proof -
  let ?es = "[Increment ''k'' (Some 2) day_one Pends, Flush Pends, Increment ''k'' (Some 3) day_one Pends]"
  define s where "s = increment 10 ''k'' (Some 3) day_one Pends (flush Pends (increment 10 ''k'' (Some 2) day_one Pends no_spend))"
  have "spend_run 10 ([] @ [Increment ''k'' (Some 2) day_one Pends] @ [Flush Pends] @ [Increment ''k'' (Some 3) day_one Pends]) s"
    unfolding s_def append_assoc [symmetric] by (intro run_increment run_flush run_start)
  then have run: "spend_run 10 ?es s" by simp
  obtain v b' where c: "checkBudget True ''k'' 0 day_one day_one s four_set = (v, b')" by fastforce
  have "\<not> getBudgetWindowTotal True ''k'' 1709199000000 s \<le> 4 \<and> \<not> writes_twice (flushing s)"
    unfolding s_def by code_simp
  then show ?thesis
    using check_is_exact [OF run _ c, of "(1709199000000, 1709285400000)"] four_check [of s] by (simp add: c s_def [symmetric])
qed

text \<open>
  The check is made before a request runs, for the cost so far; the cost is recorded afterwards. \<open>gated\<close>: the
  runs in which every cost of the key comes from a request that passed a check in this window, with at most
  \<open>N\<close> of them under way at a time; the last argument counts those.
\<close>

inductive gated :: "nat \<Rightarrow> nat \<Rightarrow> rat \<Rightarrow> string \<Rightarrow> rat \<Rightarrow> time \<Rightarrow> spend_event list \<Rightarrow> spend \<Rightarrow> nat \<Rightarrow> bool"
  for bufsize N :: nat and C :: rat and key :: string and L :: rat and start :: time where
  gated_start: "spend_run bufsize es s \<Longrightarrow> Delete key \<notin> set es \<Longrightarrow> spent key start es \<le> L \<Longrightarrow>
      gated bufsize N C key L start es s 0"
| gated_admit: "gated bufsize N C key L start es s k \<Longrightarrow> k < N \<Longrightarrow> checkBudget True key 0 now now' s b = (v, b') \<Longrightarrow>
      v_allowed v \<Longrightarrow> v_activeLimitUsd v = L \<Longrightarrow> v_window v = Some (start, close) \<Longrightarrow>
      gated bufsize N C key L start es s (Suc k)"
| gated_record: "gated bufsize N C key L start es s (Suc k) \<Longrightarrow> 0 < c \<Longrightarrow> c \<le> C \<Longrightarrow>
      gated bufsize N C key L start (es @ [Increment key (Some c) t p]) (recordCost bufsize key (Some c) t p s) k"
| gated_free: "gated bufsize N C key L start es s (Suc k) \<Longrightarrow> gated bufsize N C key L start es s k"
| gated_other: "gated bufsize N C key L start es s k \<Longrightarrow> spend_run bufsize (es @ [e]) s' \<Longrightarrow> Delete key \<noteq> e \<Longrightarrow>
      (\<forall>c t p. e \<noteq> Increment key c t p) \<Longrightarrow> gated bufsize N C key L start (es @ [e]) s' k"

lemma spent_append: "spent key since (es @ [e]) = spent key since es + cost_of key since (spent_by e)"
  by (simp add: spent_def)

lemma spent_by_key: "\<forall>c t p. e \<noteq> Increment key c t p \<Longrightarrow> cost_of key since (spent_by e) = 0"
  by (cases e) (auto simp: normalizeEntry_def in_window_def split: option.split)

lemma spent_by_record: "0 < c \<Longrightarrow> cost_of key since (spent_by (Increment key (Some c) t p)) \<le> c"
  by (auto simp: normalizeEntry_def split: option.split)

lemma gated_bound:
  assumes "0 < L" and "0 \<le> C"
  shows "gated bufsize N C key L start es s k \<Longrightarrow>
    spend_run bufsize es s \<and> Delete key \<notin> set es \<and> k \<le> N \<and> spent key start es + of_nat k * C \<le> L + of_nat N * C"
proof (induction rule: gated.induct)
  case (gated_start es s)
  then show ?case using assms by (simp add: add_increasing2)
next
  case (gated_admit es s k now now' b v b' close)
  then have "spent key start es \<le> L"
    using check_is_exact [of bufsize es s key 0 now now' b v b' "(start, close)"] assms by simp
  moreover have "of_nat (Suc k) * C \<le> of_nat N * C"
    using gated_admit assms by (intro mult_right_mono) (simp_all only: of_nat_le_iff Suc_le_eq)
  ultimately show ?case using gated_admit by (simp add: Suc_le_eq)
next
  case (gated_record es s k c t p)
  then show ?case
    using spent_by_record [of c key start t p] spend_run.run_increment [of bufsize es s key "Some c" t p]
    by (simp add: spent_append recordCost_def algebra_simps del: spent_by.simps)
next
  case (gated_free es s k)
  then show ?case using assms by (simp add: algebra_simps)
next
  case (gated_other es s k e s')
  then show ?case using spent_by_key [of e key start] by (simp add: spent_append)
qed

text \<open>
  C99. How far a limit can be overshot. The check is made with the cost so far, so the requests that passed it
  and are still running are not in it. Take one window and one positive limit that is not changed in it, a key
  whose budget is not deleted and that starts at or below the limit, and let the database answer every
  check: with at most \<open>N\<close> requests of the key under way at a time, each admitted by a check in this window and
  none costing more than \<open>C\<close>, the key spends at most the limit and \<open>N * C\<close> in the window, however its requests
  interleave with each other, with other keys and with the flushes of the writer.
\<close>

theorem budget_overshoot_bounded:
  assumes "0 < L" and "0 \<le> C" and "gated bufsize N C key L start es s k"
  shows "spent key start es \<le> L + of_nat N * C"
proof -
  have "0 \<le> of_nat k * C" using assms(2) by simp
  then show ?thesis using gated_bound [OF assms] by linarith
qed

text \<open>Two requests of 3 against a limit of 4, one at a time.\<close>

lemma budget_overshoot_bounded_witness:
  "\<exists>s. gated 10 1 3 ''k'' 4 1709199000000 [Increment ''k'' (Some 3) day_one Pends, Increment ''k'' (Some 3) day_one Pends] s 0
     \<and> spent ''k'' 1709199000000 [Increment ''k'' (Some 3) day_one Pends, Increment ''k'' (Some 3) day_one Pends] = 6 \<and> (6 :: rat) \<le> 4 + of_nat 1 * 3"
proof -
  let ?e = "Increment ''k'' (Some 3) day_one Pends"
  define s1 where "s1 = recordCost 10 ''k'' (Some 3) day_one Pends no_spend"
  have pass: "getBudgetWindowTotal True ''k'' 1709199000000 no_spend \<le> 4" "getBudgetWindowTotal True ''k'' 1709199000000 s1 \<le> 4"
    unfolding s1_def by code_simp+
  have "gated 10 1 3 ''k'' 4 1709199000000 [] no_spend 0" by (rule gated_start) (simp_all add: run_start spent_def)
  then have "gated 10 1 3 ''k'' 4 1709199000000 [] no_spend (Suc 0)"
    using pass four_check by (intro gated_admit [where now = day_one and now' = day_one and b = four_set, OF _ _ prod.collapse [symmetric]]) auto
  then have "gated 10 1 3 ''k'' 4 1709199000000 ([] @ [?e]) s1 0" unfolding s1_def by (rule gated_record) simp_all
  then have "gated 10 1 3 ''k'' 4 1709199000000 ([] @ [?e]) s1 (Suc 0)"
    using pass four_check by (intro gated_admit [where now = day_one and now' = day_one and b = four_set, OF _ _ prod.collapse [symmetric]]) auto
  then have "gated 10 1 3 ''k'' 4 1709199000000 (([] @ [?e]) @ [?e]) (recordCost 10 ''k'' (Some 3) day_one Pends s1) 0"
    by (rule gated_record) simp_all
  then have g: "gated 10 1 3 ''k'' 4 1709199000000 [?e, ?e] (recordCost 10 ''k'' (Some 3) day_one Pends s1) 0" by simp
  moreover have "spent ''k'' 1709199000000 [?e, ?e] = 6" by (simp add: spent_def normalizeEntry_def in_window_def day_one_def)
  ultimately show ?thesis using budget_overshoot_bounded [OF _ _ g] by auto
qed

text \<open>
  C99. The budget check fails open. When the database does not answer, what was spent counts as nothing, the
  costs the writer still holds included, and every key passes the check that is made before a request, however
  much it has spent.
\<close>

theorem check_fails_open: "v_allowed (fst (checkBudget False key 0 now now' s b))"
  by (auto simp: checkBudget_def no_budget_def getBudgetWindowTotal_def Let_def split: prod.split option.split)

section \<open>The schedule\<close>

lemma synced_normal:
  assumes "normal n" and "0 < start" and "start < close"
  shows "normalizeBudgetConfig (config_of (n\<lparr>budgetResetAt := Some close, lastBudgetResetAt := Some start,
      warningEmittedAt := (if r then None else warningEmittedAt n), warningPeriodStart := (if r then None else warningPeriodStart n)\<rparr>))
    = n\<lparr>budgetResetAt := Some close, lastBudgetResetAt := Some start,
      warningEmittedAt := (if r then None else warningEmittedAt n), warningPeriodStart := (if r then None else warningPeriodStart n)\<rparr>"
  using assms by (cases n) (auto simp: normal_def normalizeBudgetConfig_def config_of_def normalizeTimestamp_def)

lemma sync_value:
  "\<exists>r. fst (syncBudgetSchedule db lg persist key config now s b) =
    (let n = normalizeBudgetConfig config; w = getBudgetWindow (resetInterval n) (resetTime n) now
     in n\<lparr>budgetResetAt := Some (snd w), lastBudgetResetAt := Some (fst w),
          warningEmittedAt := (if r then None else warningEmittedAt n), warningPeriodStart := (if r then None else warningPeriodStart n)\<rparr>)"
  unfolding syncBudgetSchedule_def Let_def
  by (cases "getBudgetWindow (resetInterval (normalizeBudgetConfig config)) (resetTime (normalizeBudgetConfig config)) now")
    (simp only: prod.case fst_conv snd_conv, rule exI, rule refl)

lemma sync_logs:
  "reset_logs (snd (syncBudgetSchedule True True persist key config now s b)) = reset_logs b @
    (let n = normalizeBudgetConfig config; w = getBudgetWindow (resetInterval n) (resetTime n) now
     in if \<exists>t. lastBudgetResetAt n = Some t \<and> t < fst w
        then [\<lparr>log_key = key, log_interval = resetInterval n,
               previousSpend = getBudgetWindowRangeTotal True key (the (lastBudgetResetAt n)) (fst w) s,
               log_resetAt = fst w, log_nextResetAt = snd w\<rparr>] else [])"
  by (cases "getBudgetWindow (resetInterval (normalizeBudgetConfig config)) (resetTime (normalizeBudgetConfig config)) now";
      cases "lastBudgetResetAt (normalizeBudgetConfig config)")
    (simp_all add: syncBudgetSchedule_def saveBudgetResetLog_def saveBudget_def Let_def)

lemma sync_result:
  assumes "syncBudgetSchedule db lg persist key config now s b = (x, b1)"
    and "0 \<le> now" and "0 < fst (getBudgetWindow (resetInterval x) (resetTime x) now)"
  shows "normalizeBudgetConfig (config_of x) = x"
    and "lastBudgetResetAt x = Some (fst (getBudgetWindow (resetInterval x) (resetTime x) now))"
proof -
  define n where "n = normalizeBudgetConfig config"
  define w where "w = getBudgetWindow (resetInterval n) (resetTime n) now"
  obtain r where x: "x = n\<lparr>budgetResetAt := Some (snd w), lastBudgetResetAt := Some (fst w),
      warningEmittedAt := (if r then None else warningEmittedAt n), warningPeriodStart := (if r then None else warningPeriodStart n)\<rparr>"
    using sync_value [of db lg persist key config now s b] unfolding assms(1) Let_def n_def [symmetric] w_def [symmetric] fst_conv by blast
  have w': "getBudgetWindow (resetInterval x) (resetTime x) now = w" by (simp add: x w_def)
  have "fst w < snd w"
    using budget_windows.contains [OF assms(2), of "resetInterval n" "resetTime n"] by (simp add: w_def)
  moreover have "0 < fst w" using assms(3) by (simp add: w')
  ultimately show "normalizeBudgetConfig (config_of x) = x"
    unfolding x n_def by (intro synced_normal normalize_normal)
  show "lastBudgetResetAt x = Some (fst (getBudgetWindow (resetInterval x) (resetTime x) now))"
    unfolding w' by (simp add: x)
qed

text \<open>
  C99. A period that has ended is closed once. After a synchronisation, another one at any later time writes no
  log entry while the same window lasts, and exactly one when the window is over, with what was spent from the
  window's opening to the opening of the present one.
\<close>

theorem closed_period_logged_once:
  assumes "syncBudgetSchedule True True True key config now s b = (x, b1)"
    and "syncBudgetSchedule True True True key (config_of x) u s' b1 = (y, b2)"
    and "0 \<le> now" and "now \<le> u" and "0 < fst (getBudgetWindow (resetInterval x) (resetTime x) now)"
  shows "reset_logs b2 = reset_logs b1 @
    (let w = getBudgetWindow (resetInterval x) (resetTime x) now; w' = getBudgetWindow (resetInterval x) (resetTime x) u
     in if u < snd w then []
        else [\<lparr>log_key = key, log_interval = resetInterval x, previousSpend = getBudgetWindowRangeTotal True key (fst w) (fst w') s',
               log_resetAt = fst w', log_nextResetAt = snd w'\<rparr>])"
proof -
  let ?W = "getBudgetWindow (resetInterval x) (resetTime x)"
  note n = sync_result [OF assms(1,3,5)]
  have "u < snd (?W now) \<Longrightarrow> ?W u = ?W now"
    using budget_windows.same_window [of now u "resetInterval x" "resetTime x"]
      budget_windows.contains [of now "resetInterval x" "resetTime x"] assms by simp
  moreover have "\<not> u < snd (?W now) \<Longrightarrow> fst (?W now) < fst (?W u)"
    using budget_windows.ordered [of "snd (?W now)" u "resetInterval x" "resetTime x"]
      budget_windows.next_window [of now "resetInterval x" "resetTime x"]
      budget_windows.contains [of now "resetInterval x" "resetTime x"] assms by simp
  ultimately show ?thesis
    using sync_logs [of True key "config_of x" u s' b1] n by (auto simp: assms(2) Let_def)
qed

lemma closed_period_logged_once_witness:
  "reset_logs (snd (getBudget True ''k'' (day_one + 86400000) (increment 10 ''k'' (Some 3) day_one Pends no_spend) four_set)) =
     [\<lparr>log_key = ''k'', log_interval = Daily, previousSpend = 3, log_resetAt = 1709285400000, log_nextResetAt = 1709371800000\<rparr>]"
proof -
  let ?s' = "increment 10 ''k'' (Some 3) day_one Pends no_spend" and ?u = "day_one + 86400000"
  obtain y b2 where two: "syncBudgetSchedule True True True ''k'' (config_of four_budget) ?u ?s' four_set = (y, b2)" by fastforce
  have w: "getBudgetWindow Daily ''09:30'' ?u = (1709285400000, 1709371800000)" by code_simp
  have spend: "getBudgetWindowRangeTotal True ''k'' 1709199000000 1709285400000 ?s' = 3" by code_simp
  have d: "0 \<le> day_one" "\<not> day_one + 86400000 < 1709285400000" by (simp_all add: day_one_def)
  have "reset_logs b2 = [\<lparr>log_key = ''k'', log_interval = Daily, previousSpend = 3, log_resetAt = 1709285400000, log_nextResetAt = 1709371800000\<rparr>]"
    using closed_period_logged_once [OF four_sync two] d by (simp add: four_fields w four_window spend four_cached)
  then show ?thesis by (simp add: getBudget_def four_cached two)
qed

end
