(* ===== verification/SessionKeys.thy ===== *)
theory SessionKeys
  imports Connections
begin

text \<open>
  The affinity key of a request: \<open>src/src/sse/services/headerReader.ts\<close> and the first part of
  \<open>src/src/sse/services/sessionAffinityPin.ts\<close>.

  \<^item> Headers: none, an object with a \<open>get\<close> method, or a plain object whose values are strings or arrays.
  \<^item> The body is a JSON value. \<open>sha256\<close> is the digest in hexadecimal.

  The lemmas: the text that is hashed is bounded and not blank, and every key is short and says where it comes from.
\<close>

section \<open>Headers\<close>

datatype headers = No_headers | Getter "string \<Rightarrow> string option" | Plain "(string \<times> json) list"

definition upper_char :: "char \<Rightarrow> char" where
  "upper_char c = (let n = of_char c :: nat in if 97 \<le> n \<and> n \<le> 122 then char_of (n - 32) else c)"

definition truthy_json :: "json \<Rightarrow> bool" where
  "truthy_json v = (case v of JUndef \<Rightarrow> False | JNull \<Rightarrow> False | JBool b \<Rightarrow> b | JNum q \<Rightarrow> q \<noteq> 0 | JStr s \<Rightarrow> s \<noteq> [] | _ \<Rightarrow> True)"

definition own_prop :: "(string \<times> json) list \<Rightarrow> string \<Rightarrow> json" where
  "own_prop m k = get_prop k (JObj m)"

text \<open>Header names are in ASCII.\<close>

definition readHeaderValue :: "headers \<Rightarrow> string \<Rightarrow> string option" where
  "readHeaderValue h name =
     (case h of
        No_headers \<Rightarrow> None
      | Getter g \<Rightarrow> toTrimmedString (JStr (case g name of
            Some v \<Rightarrow> if v \<noteq> [] then v else nullish (g (toLowerCase name)) []
          | None \<Rightarrow> nullish (g (toLowerCase name)) []))
      | Plain m \<Rightarrow>
          (let a = own_prop m name; b = own_prop m (toLowerCase name); c = own_prop m (map upper_char name);
               v = (if truthy_json a then a else if truthy_json b then b else c)
           in case v of JArr xs \<Rightarrow> (case xs of [] \<Rightarrow> None | x # _ \<Rightarrow> toTrimmedString x) | _ \<Rightarrow> toTrimmedString v))"

section \<open>Keys\<close>

definition SESSION_KEY_MAX_INPUT_LEN :: nat where "SESSION_KEY_MAX_INPUT_LEN = 4096"

definition key_char :: "char \<Rightarrow> bool" where
  "key_char c \<longleftrightarrow> (let n = of_char c :: nat in
     (65 \<le> n \<and> n \<le> 90) \<or> (97 \<le> n \<and> n \<le> 122) \<or> (48 \<le> n \<and> n \<le> 57) \<or> c \<in> set ''._:-'')"

definition normalizeSessionKey :: "(string \<Rightarrow> string) \<Rightarrow> json \<Rightarrow> string \<Rightarrow> string option" where
  "normalizeSessionKey sha256 value pre =
     (case value of
        JStr s \<Rightarrow>
          if length s > SESSION_KEY_MAX_INPUT_LEN then None
          else if trim s = [] then None
          else if length (trim s) \<le> 180 \<and> list_all key_char (trim s) then Some (pre @ '':'' @ trim s)
          else Some (pre @ '':sha256:'' @ sha256 (trim s))
      | _ \<Rightarrow> None)"

definition SESSION_HASH_TEXT_LIMIT :: int where "SESSION_HASH_TEXT_LIMIT = 4096"

definition extractBoundedNonEmptyText :: "json \<Rightarrow> int \<Rightarrow> string option" where
  "extractBoundedNonEmptyText value limit =
     (case value of
        JStr s \<Rightarrow> if limit \<le> 0 then None
                  else let bounded = take (nat limit) s in if trim bounded \<noteq> [] then Some bounded else None
      | _ \<Rightarrow> None)"

definition item_candidate :: "json \<Rightarrow> json" where
  "item_candidate item =
     (case item of
        JStr s \<Rightarrow> JStr s
      | _ \<Rightarrow> (let r = asRecord item in
                case get_prop ''text'' r of JStr s \<Rightarrow> JStr s
                | _ \<Rightarrow> (case get_prop ''content'' r of JStr s \<Rightarrow> JStr s | _ \<Rightarrow> JNull)))"

fun collect_parts :: "json list \<Rightarrow> string list \<Rightarrow> int \<Rightarrow> string list" where
  "collect_parts [] parts totalLen = parts"
| "collect_parts (item # items) parts totalLen =
     (if totalLen \<ge> SESSION_HASH_TEXT_LIMIT then parts
      else let separatorLength = (if parts \<noteq> [] then 1 else 0)
           in case extractBoundedNonEmptyText (item_candidate item) (SESSION_HASH_TEXT_LIMIT - totalLen - separatorLength) of
                Some t \<Rightarrow> collect_parts items (parts @ [t]) (totalLen + separatorLength + int (length t))
              | None \<Rightarrow> collect_parts items parts totalLen)"

fun join_lines :: "string list \<Rightarrow> string" where
  "join_lines [] = []"
| "join_lines [s] = s"
| "join_lines (s # t # ss) = s @ [CHR 0x0A] @ join_lines (t # ss)"

definition extract_array :: "json list \<Rightarrow> string option" where
  "extract_array xs = (let parts = collect_parts xs [] 0 in if parts \<noteq> [] then Some (join_lines parts) else None)"

definition orelse :: "'a option \<Rightarrow> 'a option \<Rightarrow> 'a option" where
  "orelse x y = (case x of Some v \<Rightarrow> Some v | None \<Rightarrow> y)"

definition extractTextForSessionHash :: "json \<Rightarrow> string option" where
  "extractTextForSessionHash value =
     (case value of
        JStr s \<Rightarrow> extractBoundedNonEmptyText value SESSION_HASH_TEXT_LIMIT
      | JArr xs \<Rightarrow> extract_array xs
      | JObj m \<Rightarrow>
          (let text = (\<lambda>k. extractBoundedNonEmptyText (get_prop k value) SESSION_HASH_TEXT_LIMIT)
           in orelse (orelse (orelse (text ''text'') (text ''content'')) (text ''prompt''))
                (case get_prop ''parts'' value of JArr xs \<Rightarrow> extract_array xs | _ \<Rightarrow> None))
      | _ \<Rightarrow> None)"

definition js_nullish :: "json \<Rightarrow> json \<Rightarrow> json" where
  "js_nullish v d = (if v = JUndef \<or> v = JNull then d else v)"

definition first_item_text :: "json list \<Rightarrow> string option" where
  "first_item_text xs =
     first_of (List.map_filter (\<lambda>item. extractTextForSessionHash (js_nullish (get_prop ''content'' (asRecord item)) item)) xs)"

text \<open>The first message of the user, or the first of all; of it, the given field, or the message itself.\<close>

definition user_text :: "string \<Rightarrow> json list \<Rightarrow> string option" where
  "user_text field xs =
     (let first = (case find (\<lambda>m. get_prop ''role'' (asRecord m) = JStr ''user'') xs of
                     Some m \<Rightarrow> m | None \<Rightarrow> nullish (first_of xs) JUndef)
      in extractTextForSessionHash (js_nullish (get_prop field (asRecord first)) first))"

definition root_text :: "string \<Rightarrow> json \<Rightarrow> string option" where
  "root_text k record = extractBoundedNonEmptyText (get_prop k record) SESSION_HASH_TEXT_LIMIT"

definition conversation_text :: "json \<Rightarrow> string option" where
  "conversation_text record =
     orelse (case get_prop ''messages'' record of JArr xs \<Rightarrow> user_text ''content'' xs | _ \<Rightarrow> None)
    (orelse (case get_prop ''contents'' record of JArr xs \<Rightarrow> user_text ''parts'' xs | _ \<Rightarrow> None)
    (orelse (root_text ''prompt'' record) (orelse (root_text ''query'' record) (root_text ''instruction'' record))))"

definition getFirstInputText :: "json \<Rightarrow> string option" where
  "getFirstInputText body =
     (let record = asRecord body; input = get_prop ''input'' record
      in case input of
           JUndef \<Rightarrow> conversation_text record
         | JStr s \<Rightarrow> extractBoundedNonEmptyText input SESSION_HASH_TEXT_LIMIT
         | JArr xs \<Rightarrow> orelse (first_item_text xs) (orelse (extractTextForSessionHash input) (conversation_text record))
         | _ \<Rightarrow> orelse (extractTextForSessionHash input) (conversation_text record))"

definition str_json :: "string option \<Rightarrow> json" where
  "str_json x = (case x of Some s \<Rightarrow> JStr s | None \<Rightarrow> JNull)"

definition extractSessionAffinityKey :: "(string \<Rightarrow> string) \<Rightarrow> json \<Rightarrow> headers \<Rightarrow> string option" where
  "extractSessionAffinityKey sha256 body h =
     (let headerKey = normalizeSessionKey sha256 (str_json (orelse (readHeaderValue h ''x-codex-session-id'')
                        (orelse (readHeaderValue h ''x-session-id'') (readHeaderValue h ''x-omniroute-session'')))) ''header'';
          record = asRecord body; metadata = asRecord (get_prop ''metadata'' record);
          explicitKey =
            orelse (normalizeSessionKey sha256 (get_prop ''session_id'' metadata) ''metadata'')
           (orelse (normalizeSessionKey sha256 (get_prop ''sessionId'' metadata) ''metadata'')
           (orelse (normalizeSessionKey sha256 (get_prop ''conversation_id'' record) ''conversation'')
           (orelse (normalizeSessionKey sha256 (get_prop ''session_id'' record) ''session'')
                   (normalizeSessionKey sha256 (get_prop ''prompt_cache_key'' record) ''prompt-cache''))))
      in orelse headerKey (orelse explicitKey
           (map_option (\<lambda>t. ''input:sha256:'' @ sha256 t) (getFirstInputText body))))"

definition formatSessionKeyForLog :: "string \<Rightarrow> string" where
  "formatSessionKeyForLog k = take 18 k @ ''...''"

section \<open>Bounded text\<close>

definition good_text :: "string \<Rightarrow> bool" where
  "good_text t \<longleftrightarrow> int (length t) \<le> SESSION_HASH_TEXT_LIMIT \<and> trim t \<noteq> []"

lemma trim_blank: "trim s = [] \<longleftrightarrow> list_all js_space s"
proof -
  have "trim s = [] \<longleftrightarrow> (\<forall>c \<in> set (rev (dropWhile js_space s)). js_space c)" by (simp add: trim_def)
  also have "\<dots> \<longleftrightarrow> (\<forall>c \<in> set s. js_space c)"
    by (metis dropWhile_eq_Nil_conv empty_iff hd_dropWhile hd_in_set list.set(1) set_rev)
  finally show ?thesis by (simp add: list_all_iff)
qed

lemma bounded_text: "extractBoundedNonEmptyText v n = Some t \<Longrightarrow> int (length t) \<le> n \<and> trim t \<noteq> []"
  by (auto simp: extractBoundedNonEmptyText_def Let_def split: json.splits if_splits)

lemma length_join_lines: "parts \<noteq> [] \<Longrightarrow> int (length (join_lines parts)) = sum_list (map (\<lambda>t. int (length t)) parts) + int (length parts) - 1"
  by (induction parts rule: join_lines.induct) auto

lemma join_not_blank: "parts \<noteq> [] \<Longrightarrow> \<forall>t \<in> set parts. \<not> list_all js_space t \<Longrightarrow> \<not> list_all js_space (join_lines parts)"
  by (induction parts rule: join_lines.induct) auto

definition parts_ok :: "string list \<Rightarrow> int \<Rightarrow> bool" where
  "parts_ok parts n \<longleftrightarrow> n = (if parts = [] then 0 else int (length (join_lines parts))) \<and> n \<le> SESSION_HASH_TEXT_LIMIT
     \<and> (\<forall>t \<in> set parts. trim t \<noteq> [])"

lemma parts_ok_snoc:
  "parts_ok parts n \<Longrightarrow> extractBoundedNonEmptyText v (SESSION_HASH_TEXT_LIMIT - n - (if parts \<noteq> [] then 1 else 0)) = Some t \<Longrightarrow>
   parts_ok (parts @ [t]) (n + (if parts \<noteq> [] then 1 else 0) + int (length t))"
  using bounded_text [of v "SESSION_HASH_TEXT_LIMIT - n - (if parts \<noteq> [] then 1 else 0)" t] length_join_lines [of "parts @ [t]"] length_join_lines [of parts]
  by (auto simp: parts_ok_def)

lemma collect_ok: "parts_ok parts n \<Longrightarrow> \<exists>m. parts_ok (collect_parts xs parts n) m"
proof (induction xs arbitrary: parts n)
  case (Cons x xs)
  then show ?case using parts_ok_snoc [OF Cons.prems, of "item_candidate x"] by (auto simp: Let_def split: option.splits)
qed auto

lemma extract_array_good: "extract_array xs = Some t \<Longrightarrow> good_text t"
proof -
  assume a: "extract_array xs = Some t"
  have "parts_ok [] 0" by (simp add: parts_ok_def SESSION_HASH_TEXT_LIMIT_def)
  from collect_ok [OF this] obtain m where "parts_ok (collect_parts xs [] 0) m" by blast
  then show ?thesis
    using a join_not_blank [of "collect_parts xs [] 0"]
    by (auto simp: extract_array_def Let_def good_text_def parts_ok_def trim_blank split: if_splits)
qed

lemma orelse_Some: "orelse x y = Some v \<longleftrightarrow> x = Some v \<or> x = None \<and> y = Some v"
  by (cases x) (auto simp: orelse_def)

lemma bounded_good: "extractBoundedNonEmptyText v SESSION_HASH_TEXT_LIMIT = Some t \<Longrightarrow> good_text t"
  using bounded_text [of v SESSION_HASH_TEXT_LIMIT t] by (simp add: good_text_def)

lemma extract_good: "extractTextForSessionHash v = Some t \<Longrightarrow> good_text t"
  by (auto simp: extractTextForSessionHash_def Let_def orelse_Some intro: bounded_good extract_array_good split: json.splits)

lemma first_item_good: "first_item_text xs = Some t \<Longrightarrow> good_text t"
proof -
  assume "first_item_text xs = Some t"
  then have "t \<in> set (List.map_filter (\<lambda>item. extractTextForSessionHash (js_nullish (get_prop ''content'' (asRecord item)) item)) xs)"
    by (auto simp: first_item_text_def first_of_def split: list.splits)
  then show ?thesis by (auto simp: List.map_filter_def intro: extract_good)
qed

lemma user_text_good: "user_text f xs = Some t \<Longrightarrow> good_text t"
  by (auto simp: user_text_def Let_def intro: extract_good)

lemma conversation_good: "conversation_text r = Some t \<Longrightarrow> good_text t"
  unfolding conversation_text_def orelse_Some root_text_def
  by (elim disjE conjE) (auto intro: bounded_good user_text_good split: json.splits)

lemma input_text_good: "getFirstInputText body = Some t \<Longrightarrow> good_text t"
  by (cases "get_prop ''input'' (asRecord body)")
    (auto simp: getFirstInputText_def orelse_Some intro: bounded_good extract_good first_item_good conversation_good)

section \<open>Keys\<close>

text \<open>A key from the place \<open>pre\<close>: an id that is kept, short and of safe characters, or the digest of one that is not.\<close>

definition id_key :: "(string \<Rightarrow> string) \<Rightarrow> string \<Rightarrow> string \<Rightarrow> bool" where
  "id_key sha pre k \<longleftrightarrow> (\<exists>i. trim i = i \<and> i \<noteq> [] \<and> (k = pre @ '':'' @ i \<and> length i \<le> 180 \<and> list_all key_char i \<or> k = pre @ '':sha256:'' @ sha i))"

definition ID_PLACES :: "string list" where
  "ID_PLACES = [''header'', ''metadata'', ''conversation'', ''session'', ''prompt-cache'']"

lemma normalize_key: "normalizeSessionKey sha v pre = Some k \<Longrightarrow> id_key sha pre k"
  unfolding id_key_def
  by (rule exI [of _ "trim (nullish (str_of v) [])"]) (auto simp: normalizeSessionKey_def str_of_def split: json.splits if_splits)

lemma key_shape:
  assumes "extractSessionAffinityKey sha body h = Some k"
  shows "(\<exists>pre \<in> set ID_PLACES. id_key sha pre k) \<or> (\<exists>t. k = ''input:sha256:'' @ sha t \<and> good_text t)"
  using assms unfolding extractSessionAffinityKey_def Let_def orelse_Some
  by (elim disjE conjE) (auto simp: ID_PLACES_def dest!: normalize_key input_text_good)

text \<open>
  C99. Every session key is short and says where it comes from: a key of \<open>extractSessionAffinityKey\<close> is an explicit id
  under one of five prefixes, kept as it is when it has at most 180 harmless characters and replaced by its digest
  otherwise, or, under a sixth, the digest of a text of at most 4096 characters that is not blank. With a digest of 64
  digits no key is longer than 193 characters, whatever the size of the request.
\<close>

theorem session_key_bounded:
  assumes "extractSessionAffinityKey sha body h = Some k" and "\<forall>t. length (sha t) = 64"
  shows "length k \<le> 193 \<and> ((\<exists>pre \<in> set ID_PLACES. id_key sha pre k) \<or> (\<exists>t. k = ''input:sha256:'' @ sha t \<and> good_text t))"
  using key_shape [OF assms(1)] assms(2) by (auto simp: ID_PLACES_def id_key_def)

theorem session_key_bounded_witness:
  "length (the (extractSessionAffinityKey (\<lambda>t. replicate 64 CHR ''0'')
     (JObj [(''messages'', JArr [JObj [(''role'', JStr ''user''), (''content'', JStr ''hello'')]])]) No_headers)) \<le> 193"
proof -
  let ?b = "JObj [(''messages'', JArr [JObj [(''role'', JStr ''user''), (''content'', JStr ''hello'')]])]"
  have "extractSessionAffinityKey (\<lambda>t. replicate 64 CHR ''0'') ?b No_headers \<noteq> None" by code_simp
  then obtain k where k: "extractSessionAffinityKey (\<lambda>t. replicate 64 CHR ''0'') ?b No_headers = Some k" by blast
  have "\<forall>t. length ((\<lambda>t :: string. replicate 64 CHR ''0'') t) = 64" by simp
  from session_key_bounded [OF k this] show ?thesis using k by simp
qed

text \<open>An explicit id in a header decides, whatever the body holds.\<close>

lemma header_key_decides:
  assumes "normalizeSessionKey sha (str_json (orelse (readHeaderValue h ''x-codex-session-id'')
     (orelse (readHeaderValue h ''x-session-id'') (readHeaderValue h ''x-omniroute-session'')))) ''header'' = Some k"
  shows "extractSessionAffinityKey sha body h = Some k"
  using assms by (simp add: extractSessionAffinityKey_def Let_def orelse_def)

end
