(* ===== verification/SessionAffinity.thy ===== *)
theory SessionAffinity
  imports Connections
begin

text \<open>
  Session affinity: the pins of \<open>src/src/lib/db/sessionAccountAffinity.ts\<close> and what selection does with them,
  \<open>src/src/sse/services/sessionAffinityPin.ts\<close>.

  \<^item> The store is one namespace of the key-value table: from keys to JSON texts, given by their parsed value
    (\<open>None\<close> for a text that is not JSON). \<open>sha256\<close> is the digest in hexadecimal.
  \<^item> \<open>date\<close> and \<open>toISO\<close> read and write dates. Times stay within the range of \<open>Date\<close>.
  \<^item> A selection also writes the last use of the connection to its row: the writes are returned.
  \<^item> What other modules say of a connection (locked model, exhausted quota, ...) is a record of verdicts.

  The lemmas: a pin lasts until it expires, a session stays with its account, planning and committing is
  selecting, and a pin overrides a forced connection only when the pinned one is eligible.
\<close>

section \<open>The store of pins\<close>

record affinity =
  af_connectionId :: string
  af_createdAt :: string
  af_lastUsedAt :: string
  af_expiresAt :: string

type_synonym pins = "(string \<times> json option) list"

definition normalizePositiveTtl :: "rat option \<Rightarrow> rat" where
  "normalizePositiveTtl ttlMs = (case ttlMs of Some t \<Rightarrow> if t > 0 then t else 0 | None \<Rightarrow> 0)"

definition affinityKey :: "(string \<Rightarrow> string) \<Rightarrow> string \<Rightarrow> string \<Rightarrow> string" where
  "affinityKey sha256 sessionKey provider = provider @ '':'' @ sha256 (provider @ '':'' @ sessionKey)"

text \<open>\<open>new Date(ms)\<close> drops the fraction.\<close>

definition whole :: "rat \<Rightarrow> time" where
  "whole ms = (if 0 \<le> ms then \<lfloor>ms\<rfloor> else \<lceil>ms\<rceil>)"

definition isoFromMs :: "(time \<Rightarrow> string) \<Rightarrow> rat \<Rightarrow> string" where
  "isoFromMs toISO ms = toISO (whole ms)"

definition stamp_or :: "(string \<Rightarrow> time option) \<Rightarrow> json \<Rightarrow> string \<Rightarrow> string" where
  "stamp_or date v d = (case v of JStr s \<Rightarrow> if date s = None then d else s | _ \<Rightarrow> d)"

definition parseRecord :: "(string \<Rightarrow> time option) \<Rightarrow> json option \<Rightarrow> affinity option" where
  "parseRecord date value =
     (case value of
        None \<Rightarrow> None
      | Some parsed \<Rightarrow>
          (case str_of (get_prop ''connectionId'' parsed) of
             None \<Rightarrow> None
           | Some c \<Rightarrow>
               if trim c = [] then None
               else (case str_of (get_prop ''expiresAt'' parsed) of
                       None \<Rightarrow> None
                     | Some e \<Rightarrow>
                         if date e = None then None
                         else Some \<lparr>af_connectionId = c,
                                    af_createdAt = stamp_or date (get_prop ''createdAt'' parsed) e,
                                    af_lastUsedAt = stamp_or date (get_prop ''lastUsedAt'' parsed) e,
                                    af_expiresAt = e\<rparr>)))"

definition record_json :: "affinity \<Rightarrow> json" where
  "record_json r = JObj [(''connectionId'', JStr (af_connectionId r)), (''createdAt'', JStr (af_createdAt r)),
                         (''lastUsedAt'', JStr (af_lastUsedAt r)), (''expiresAt'', JStr (af_expiresAt r))]"

definition read_pin :: "(string \<Rightarrow> time option) \<Rightarrow> string \<Rightarrow> pins \<Rightarrow> affinity option" where
  "read_pin date key pins = (case map_of pins key of None \<Rightarrow> None | Some v \<Rightarrow> parseRecord date v)"

definition getSessionAccountAffinity ::
  "(string \<Rightarrow> time option) \<Rightarrow> (string \<Rightarrow> string) \<Rightarrow> string \<Rightarrow> string \<Rightarrow> rat option \<Rightarrow> time \<Rightarrow> pins \<Rightarrow> affinity option \<times> pins" where
  "getSessionAccountAffinity date sha256 sessionKey provider ttlMs now pins =
     (if sessionKey = [] \<or> provider = [] \<or> normalizePositiveTtl ttlMs \<le> 0 then (None, pins)
      else let key = affinityKey sha256 sessionKey provider
           in case read_pin date key pins of
                None \<Rightarrow> (None, pins)
              | Some r \<Rightarrow> if (case date (af_expiresAt r) of Some t \<Rightarrow> t \<le> now | None \<Rightarrow> False)
                          then (None, map_del key pins) else (Some r, pins))"

definition upsertSessionAccountAffinity ::
  "(string \<Rightarrow> time option) \<Rightarrow> (time \<Rightarrow> string) \<Rightarrow> (string \<Rightarrow> string) \<Rightarrow> string \<Rightarrow> string \<Rightarrow> string \<Rightarrow> time \<Rightarrow> rat option \<Rightarrow> pins \<Rightarrow> pins" where
  "upsertSessionAccountAffinity date toISO sha256 sessionKey provider connectionId now ttlMs pins =
     (let ttl = normalizePositiveTtl ttlMs
      in if sessionKey = [] \<or> provider = [] \<or> connectionId = [] \<or> ttl \<le> 0 then pins
         else let key = affinityKey sha256 sessionKey provider;
                  (existing, pins1) = getSessionAccountAffinity date sha256 sessionKey provider (Some ttl) now pins;
                  timestamp = isoFromMs toISO (of_int now);
                  r = \<lparr>af_connectionId = connectionId,
                       af_createdAt = (case existing of Some e \<Rightarrow> af_createdAt e | None \<Rightarrow> timestamp),
                       af_lastUsedAt = timestamp,
                       af_expiresAt = isoFromMs toISO (of_int now + ttl)\<rparr>
              in map_set key (Some (record_json r)) pins1)"

definition touchSessionAccountAffinity ::
  "(string \<Rightarrow> time option) \<Rightarrow> (time \<Rightarrow> string) \<Rightarrow> (string \<Rightarrow> string) \<Rightarrow> string \<Rightarrow> string \<Rightarrow> time \<Rightarrow> rat option \<Rightarrow> pins \<Rightarrow> pins" where
  "touchSessionAccountAffinity date toISO sha256 sessionKey provider now ttlMs pins =
     (let ttl = normalizePositiveTtl ttlMs
      in if ttl \<le> 0 then pins
         else let (existing, pins1) = getSessionAccountAffinity date sha256 sessionKey provider (Some ttl) now pins
              in case existing of
                   None \<Rightarrow> pins1
                 | Some r \<Rightarrow> upsertSessionAccountAffinity date toISO sha256 sessionKey provider (af_connectionId r) now (Some ttl) pins1)"

definition deleteSessionAccountAffinity :: "(string \<Rightarrow> string) \<Rightarrow> string \<Rightarrow> string \<Rightarrow> pins \<Rightarrow> pins" where
  "deleteSessionAccountAffinity sha256 sessionKey provider pins =
     (if sessionKey = [] \<or> provider = [] then pins else map_del (affinityKey sha256 sessionKey provider) pins)"

definition evictSessionAccountAffinityForConnection ::
  "(string \<Rightarrow> time option) \<Rightarrow> (string \<Rightarrow> string) \<Rightarrow> string \<Rightarrow> string \<Rightarrow> string \<Rightarrow> pins \<Rightarrow> bool \<times> pins" where
  "evictSessionAccountAffinityForConnection date sha256 sessionKey provider connectionId pins =
     (if sessionKey = [] \<or> provider = [] \<or> connectionId = [] then (False, pins)
      else let key = affinityKey sha256 sessionKey provider
           in case read_pin date key pins of
                None \<Rightarrow> (False, pins)
              | Some r \<Rightarrow> if af_connectionId r \<noteq> connectionId then (False, pins) else (True, map_del key pins))"

definition stale_pin :: "(string \<Rightarrow> time option) \<Rightarrow> time \<Rightarrow> json option \<Rightarrow> bool" where
  "stale_pin date now v = (case parseRecord date v of
     None \<Rightarrow> True | Some r \<Rightarrow> (case date (af_expiresAt r) of Some t \<Rightarrow> t \<le> now | None \<Rightarrow> False))"

definition cleanupStaleSessionAccountAffinities :: "(string \<Rightarrow> time option) \<Rightarrow> time \<Rightarrow> pins \<Rightarrow> nat \<times> pins" where
  "cleanupStaleSessionAccountAffinities date now pins =
     (length (filter (\<lambda>(k, v). stale_pin date now v) pins), filter (\<lambda>(k, v). \<not> stale_pin date now v) pins)"

section \<open>Selection with affinity\<close>

definition unused :: "connection \<Rightarrow> bool" where
  "unused c \<longleftrightarrow> nullish (c_lastUsedAt c) [] = []"

definition used_at :: "(string \<Rightarrow> time option) \<Rightarrow> connection \<Rightarrow> time option" where
  "used_at date c = date (nullish (c_lastUsedAt c) [])"

text \<open>A difference that is NaN orders like 0.\<close>

definition compareLruConnections :: "(string \<Rightarrow> time option) \<Rightarrow> connection \<Rightarrow> connection \<Rightarrow> rat" where
  "compareLruConnections date a b =
     (if unused a \<and> unused b then num_or (c_priority a) 999 - num_or (c_priority b) 999
      else if unused a then -1
      else if unused b then 1
      else case (used_at date a, used_at date b) of
             (Some x, Some y) \<Rightarrow>
               if x \<noteq> y then of_int (x - y)
               else if num_or (c_consecutiveUseCount a) 0 \<noteq> num_or (c_consecutiveUseCount b) 0
                    then num_or (c_consecutiveUseCount a) 0 - num_or (c_consecutiveUseCount b) 0
                    else num_or (c_priority a) 999 - num_or (c_priority b) 999
           | _ \<Rightarrow> 0)"

fun syncSessionAffinityRuntimeFields :: "connection list \<Rightarrow> connection \<Rightarrow> connection list" where
  "syncSessionAffinityRuntimeFields [] selected = []"
| "syncSessionAffinityRuntimeFields (c # cs) selected =
     (if c_id c = c_id selected
      then c\<lparr>c_lastUsedAt := c_lastUsedAt selected, c_consecutiveUseCount := c_consecutiveUseCount selected\<rparr> # cs
      else c # syncSessionAffinityRuntimeFields cs selected)"

definition used_now :: "(time \<Rightarrow> string) \<Rightarrow> time \<Rightarrow> rat \<Rightarrow> connection \<Rightarrow> connection" where
  "used_now toISO now n c = c\<lparr>c_lastUsedAt := Some (toISO now), c_consecutiveUseCount := n\<rparr>"

text \<open>The selected connection, the pins, and the last uses written to the rows.\<close>

definition selectSessionAffinityConnection ::
  "(string \<Rightarrow> time option) \<Rightarrow> (time \<Rightarrow> string) \<Rightarrow> (string \<Rightarrow> string) \<Rightarrow> string \<Rightarrow> string option \<Rightarrow> connection list \<Rightarrow> rat \<Rightarrow> time \<Rightarrow> pins
    \<Rightarrow> connection option \<times> pins \<times> (string \<times> rat) list" where
  "selectSessionAffinityConnection date toISO sha256 provider sessionKey connections ttlMs now pins =
     (let s = nullish sessionKey [] in
      if s = [] \<or> connections = [] \<or> ttlMs \<le> 0 then (None, pins, [])
      else let (existing, pins1) = getSessionAccountAffinity date sha256 s provider (Some ttlMs) now pins;
               pinned = Option.bind existing (\<lambda>r. find (\<lambda>c. c_id c = af_connectionId r) connections)
           in case pinned of
                Some c \<Rightarrow>
                  let n = num_or (c_consecutiveUseCount c) 0 + 1
                  in (Some (used_now toISO now n c), touchSessionAccountAffinity date toISO sha256 s provider now (Some ttlMs) pins1, [(c_id c, n)])
              | None \<Rightarrow>
                  let pins2 = (if existing = None then pins1 else deleteSessionAccountAffinity sha256 s provider pins1)
                  in case first_of (js_sort (compareLruConnections date) connections) of
                       None \<Rightarrow> (None, pins2, [])
                     | Some c \<Rightarrow> (Some (used_now toISO now 1 c),
                                  upsertSessionAccountAffinity date toISO sha256 s provider (c_id c) now (Some ttlMs) pins2, [(c_id c, 1)]))"

text \<open>A plan: the connection, and what its commit does at a later time. Reading the pin drops it when it is expired.\<close>

definition planSessionAffinityConnection ::
  "(string \<Rightarrow> time option) \<Rightarrow> (time \<Rightarrow> string) \<Rightarrow> (string \<Rightarrow> string) \<Rightarrow> string \<Rightarrow> string option \<Rightarrow> connection list \<Rightarrow> rat \<Rightarrow> time \<Rightarrow> pins
    \<Rightarrow> (connection \<times> (time \<Rightarrow> pins \<Rightarrow> connection \<times> pins \<times> (string \<times> rat) list)) option \<times> pins" where
  "planSessionAffinityConnection date toISO sha256 provider sessionKey connections ttlMs now pins =
     (let s = nullish sessionKey [] in
      if s = [] \<or> connections = [] \<or> ttlMs \<le> 0 then (None, pins)
      else let (existing, pins1) = getSessionAccountAffinity date sha256 s provider (Some ttlMs) now pins;
               existingConnection = Option.bind existing (\<lambda>r. find (\<lambda>c. c_id c = af_connectionId r) connections);
               connection = (case existingConnection of Some c \<Rightarrow> Some c
                             | None \<Rightarrow> first_of (js_sort (compareLruConnections date) connections))
           in case connection of
                None \<Rightarrow> (None, pins1)
              | Some c \<Rightarrow>
                  (Some (c, \<lambda>later ps.
                     if existingConnection \<noteq> None
                     then let n = num_or (c_consecutiveUseCount c) 0 + 1
                          in (used_now toISO later n c, touchSessionAccountAffinity date toISO sha256 s provider later (Some ttlMs) ps, [(c_id c, n)])
                     else let ps1 = (if existing \<noteq> None then deleteSessionAccountAffinity sha256 s provider ps else ps)
                          in (used_now toISO later 1 c,
                              upsertSessionAccountAffinity date toISO sha256 s provider (c_id c) later (Some ttlMs) ps1, [(c_id c, 1)])), pins1))"

section \<open>Eviction on a time-out of a combo\<close>

definition COMBO_PER_MODEL_TIMEOUT_REASON :: string where
  "COMBO_PER_MODEL_TIMEOUT_REASON = ''combo-per-model-timeout''"

definition abortReasonMessage :: "json \<Rightarrow> string" where
  "abortReasonMessage reason = (case reason of JStr s \<Rightarrow> s
     | _ \<Rightarrow> (case get_prop ''message'' reason of JStr m \<Rightarrow> m | _ \<Rightarrow> []))"

text \<open>A signal: whether it is aborted, and its reason.\<close>

definition isComboPerModelTimeoutAbort :: "(bool \<times> json) option \<Rightarrow> bool" where
  "isComboPerModelTimeoutAbort signal =
     (case signal of Some (aborted, reason) \<Rightarrow> aborted \<and> abortReasonMessage reason = COMBO_PER_MODEL_TIMEOUT_REASON | None \<Rightarrow> False)"

definition evictSessionAffinityOnComboTimeout ::
  "(string \<Rightarrow> time option) \<Rightarrow> (string \<Rightarrow> string) \<Rightarrow> string option \<Rightarrow> string \<Rightarrow> string option \<Rightarrow> (bool \<times> json) option \<Rightarrow> pins \<Rightarrow> bool \<times> pins" where
  "evictSessionAffinityOnComboTimeout date sha256 sessionKey provider connectionId signal pins =
     (if nullish sessionKey [] = [] \<or> provider = [] \<or> nullish connectionId [] = [] then (False, pins)
      else if \<not> isComboPerModelTimeoutAbort signal then (False, pins)
      else evictSessionAccountAffinityForConnection date sha256 (nullish sessionKey []) provider (nullish connectionId []) pins)"

section \<open>Forced connections\<close>

record affinity_options =
  ao_sessionKey :: "string option"
  ao_allowSuppressed :: bool
  ao_allowRateLimited :: bool
  ao_bypassQuotaPolicy :: bool
  ao_ttlMs :: json

definition positive_number :: "json \<Rightarrow> rat option" where
  "positive_number v = (case js_number v of Num q \<Rightarrow> if q > 0 then Some q else None | _ \<Rightarrow> None)"

definition resolveSessionAffinityTtlMs :: "affinity_options \<Rightarrow> json \<Rightarrow> rat" where
  "resolveSessionAffinityTtlMs options settings =
     (case positive_number (ao_ttlMs options) of
        Some t \<Rightarrow> t
      | None \<Rightarrow>
          (let generic = get_prop ''sessionAffinityTtlMs'' settings;
               v = (if generic = JUndef \<or> generic = JNull then get_prop ''codexSessionAffinityTtlMs'' settings else generic)
           in case positive_number v of Some t \<Rightarrow> t | None \<Rightarrow> 0))"

record verdicts =
  v_modelExcluded :: "string \<Rightarrow> json \<Rightarrow> bool"
  v_terminal :: "connection \<Rightarrow> bool"
  v_codexScope :: "connection \<Rightarrow> string option \<Rightarrow> bool"
  v_modelLocked :: "string \<Rightarrow> string \<Rightarrow> string \<Rightarrow> bool"
  v_quotaExhausted :: "string \<Rightarrow> bool"
  v_policyBlocked :: "connection \<Rightarrow> bool"

definition isConnectionEligibleForAffinityPin ::
  "(string \<Rightarrow> time option) \<Rightarrow> time \<Rightarrow> verdicts \<Rightarrow> string \<Rightarrow> string option \<Rightarrow> affinity_options \<Rightarrow> string set \<Rightarrow> connection \<Rightarrow> bool" where
  "isConnectionEligibleForAffinityPin date now v provider requestedModel options excluded c =
     (let m = nullish requestedModel [] in
      if c_id c \<in> excluded then False
      else if m \<noteq> [] \<and> v_modelExcluded v m (c_providerSpecificData c) then False
      else if \<not> ao_allowSuppressed options \<and>
              ((\<not> (ao_allowSuppressed options \<or> ao_allowRateLimited options) \<and> isAccountUnavailable date now (c_rateLimitedUntil c))
               \<or> v_terminal v c
               \<or> (provider = ''codex'' \<and> v_codexScope v c requestedModel)
               \<or> (m \<noteq> [] \<and> v_modelLocked v provider (c_id c) m)) then False
      else if v_quotaExhausted v (c_id c) then False
      else if \<not> ao_bypassQuotaPolicy options \<and> v_policyBlocked v c then False
      else True)"

definition applySessionAffinityPin ::
  "(string \<Rightarrow> time option) \<Rightarrow> (string \<Rightarrow> string) \<Rightarrow> time \<Rightarrow> verdicts \<Rightarrow> string option \<Rightarrow> affinity_options \<Rightarrow> rat \<Rightarrow> connection list \<Rightarrow> string
    \<Rightarrow> string option \<Rightarrow> string set \<Rightarrow> pins \<Rightarrow> string option \<times> pins" where
  "applySessionAffinityPin date sha256 now v forced options ttlMs connections provider requestedModel excluded pins =
     (let s = nullish (ao_sessionKey options) [] in
      if nullish forced [] = [] \<or> s = [] \<or> ttlMs \<le> 0 then (None, pins)
      else let (pinned, pins1) = getSessionAccountAffinity date sha256 s provider (Some ttlMs) now pins
           in case pinned of
                None \<Rightarrow> (None, pins1)
              | Some r \<Rightarrow>
                  if Some (af_connectionId r) = forced then (None, pins1)
                  else (case find (\<lambda>c. c_id c = af_connectionId r) connections of
                          None \<Rightarrow> (None, pins1)
                        | Some c \<Rightarrow> if isConnectionEligibleForAffinityPin date now v provider requestedModel options excluded c
                                    then (Some (af_connectionId r), pins1) else (None, pins1)))"

definition resolveForcedConnectionForCredentialPool ::
  "(string \<Rightarrow> time option) \<Rightarrow> time \<Rightarrow> string option \<Rightarrow> string set \<Rightarrow> connection list \<Rightarrow> bool \<Rightarrow> bool \<Rightarrow> (string \<Rightarrow> bool) \<Rightarrow> (connection \<Rightarrow> bool)
    \<Rightarrow> string option" where
  "resolveForcedConnectionForCredentialPool date now forcedId excluded connections allowRateLimited bypass isExhausted isBlocked =
     (let forced = trim (nullish forcedId []) in
      if forced = [] \<or> forced \<in> excluded then None
      else if connections = [] then Some forced
      else case find (\<lambda>c. c_id c = forced) connections of
             None \<Rightarrow> None
           | Some c \<Rightarrow>
               if \<not> allowRateLimited \<and> isAccountUnavailable date now (c_rateLimitedUntil c) then None
               else if isExhausted forced then None
               else if \<not> bypass \<and> isBlocked c then None
               else Some forced)"

definition isForcedConnectionMissingFromPool :: "string option \<Rightarrow> string set \<Rightarrow> connection list \<Rightarrow> bool" where
  "isForcedConnectionMissingFromPool forced excluded connections =
     (case forced of None \<Rightarrow> False | Some f \<Rightarrow> f \<notin> excluded \<and> \<not> list_ex (\<lambda>c. c_id c = f) connections)"

section \<open>Reading what was written\<close>

lemma stamp_or_reads: "date d = Some t \<Longrightarrow> \<exists>u. date (stamp_or date v d) = Some u"
  by (auto simp: stamp_or_def split: json.splits)

lemma parseRecord_dates:
  assumes "parseRecord date v = Some r"
  shows "trim (af_connectionId r) \<noteq> []" "date (af_createdAt r) \<noteq> None" "date (af_lastUsedAt r) \<noteq> None" "date (af_expiresAt r) \<noteq> None"
  using assms by (auto simp: parseRecord_def stamp_or_reads split: option.splits if_splits)

lemma parse_record_json:
  assumes "trim (af_connectionId r) \<noteq> []" and "date (af_createdAt r) \<noteq> None" and "date (af_lastUsedAt r) \<noteq> None"
    and "date (af_expiresAt r) \<noteq> None"
  shows "parseRecord date (Some (record_json r)) = Some r"
  using assms by (cases r) (auto simp: parseRecord_def record_json_def get_prop_def str_of_def stamp_or_def)

lemma readableD: "readable date toISO \<Longrightarrow> date (toISO t) = Some t"
  by (simp add: readable_def)

lemma whole_int [simp]: "whole (of_int t) = t"
  by (simp add: whole_def)

lemma ttl_simps [simp]: "0 < t \<Longrightarrow> normalizePositiveTtl (Some t) = t" "0 \<le> normalizePositiveTtl x"
    "normalizePositiveTtl (Some (normalizePositiveTtl x)) = normalizePositiveTtl x"
  by (auto simp: normalizePositiveTtl_def split: option.splits)

lemma get_pins:
  "snd (getSessionAccountAffinity date sha s p ttl now pins) = pins \<or>
   fst (getSessionAccountAffinity date sha s p ttl now pins) = None \<and>
   snd (getSessionAccountAffinity date sha s p ttl now pins) = map_del (affinityKey sha s p) pins \<and>
   (\<exists>r t. read_pin date (affinityKey sha s p) pins = Some r \<and> date (af_expiresAt r) = Some t \<and> t \<le> now)"
  by (auto simp: getSessionAccountAffinity_def Let_def split: option.splits)

lemma get_reads:
  "fst (getSessionAccountAffinity date sha s p ttl now pins) = Some r \<Longrightarrow> read_pin date (affinityKey sha s p) pins = Some r"
  by (auto simp: getSessionAccountAffinity_def Let_def split: option.splits if_splits)

lemma read_pin_set: "read_pin date k (map_set k' v pins) = (if k = k' then parseRecord date v else read_pin date k pins)"
  by (simp add: read_pin_def)

lemma read_pin_del: "read_pin date k (map_del k' pins) = (if k = k' then None else read_pin date k pins)"
  by (simp add: read_pin_def)

lemma read_get_other: "k \<noteq> affinityKey sha s p \<Longrightarrow> read_pin date k (snd (getSessionAccountAffinity date sha s p ttl now pins)) = read_pin date k pins"
  using get_pins [of date sha s p ttl now pins] by (auto simp: read_pin_del)

text \<open>What an upsert leaves under its own key.\<close>

lemma read_upsert:
  assumes "readable date toISO" and "s \<noteq> []" and "p \<noteq> []" and "trim c \<noteq> []" and "0 < normalizePositiveTtl ttl"
  shows "\<exists>r. read_pin date (affinityKey sha s p) (upsertSessionAccountAffinity date toISO sha s p c now ttl pins) = Some r
    \<and> af_connectionId r = c \<and> date (af_expiresAt r) = Some (whole (of_int now + normalizePositiveTtl ttl))"
proof -
  let ?t = "normalizePositiveTtl ttl"
  let ?g = "getSessionAccountAffinity date sha s p (Some ?t) now pins"
  define r where "r = \<lparr>af_connectionId = c, af_createdAt = (case fst ?g of Some e \<Rightarrow> af_createdAt e | None \<Rightarrow> toISO now),
     af_lastUsedAt = toISO now, af_expiresAt = toISO (whole (of_int now + ?t))\<rparr>"
  have "c \<noteq> []" using assms(4) by (auto simp: trim_def)
  then have u: "upsertSessionAccountAffinity date toISO sha s p c now ttl pins = map_set (affinityKey sha s p) (Some (record_json r)) (snd ?g)"
    using assms by (simp add: upsertSessionAccountAffinity_def Let_def r_def isoFromMs_def split: prod.split)
  have "date (af_createdAt r) \<noteq> None"
    using readableD [OF assms(1)] get_reads [of date sha s p "Some ?t" now pins]
    by (auto simp: r_def read_pin_def split: option.splits dest: parseRecord_dates(2))
  then have "parseRecord date (Some (record_json r)) = Some r"
    using readableD [OF assms(1)] assms(4) by (intro parse_record_json) (simp_all add: r_def)
  then show ?thesis using readableD [OF assms(1)] unfolding u read_pin_set by (simp add: r_def)
qed

lemma upsert_other:
  "k \<noteq> affinityKey sha s p \<Longrightarrow> read_pin date k (upsertSessionAccountAffinity date toISO sha s p c now ttl pins) = read_pin date k pins"
  by (auto simp: upsertSessionAccountAffinity_def Let_def read_pin_set split: prod.split)
    (metis read_get_other snd_conv)

lemma touch_other:
  "k \<noteq> affinityKey sha s p \<Longrightarrow> read_pin date k (touchSessionAccountAffinity date toISO sha s p now ttl pins) = read_pin date k pins"
  by (auto simp: touchSessionAccountAffinity_def Let_def upsert_other split: prod.split option.split)
    (metis read_get_other snd_conv)+

section \<open>A pin lasts\<close>

definition pinned ::
  "(string \<Rightarrow> time option) \<Rightarrow> string \<Rightarrow> string \<Rightarrow> time \<Rightarrow> pins \<Rightarrow> bool" where
  "pinned date key c u pins \<longleftrightarrow> (\<exists>r e. read_pin date key pins = Some r \<and> af_connectionId r = c \<and> date (af_expiresAt r) = Some e \<and> u \<le> e)"

lemma pinned_get:
  assumes "pinned date (affinityKey sha s p) c u pins" and "now < u" and "s \<noteq> []" and "p \<noteq> []" and "0 < normalizePositiveTtl ttl"
  shows "\<exists>r. getSessionAccountAffinity date sha s p ttl now pins = (Some r, pins) \<and> af_connectionId r = c"
  using assms by (auto simp: pinned_def getSessionAccountAffinity_def Let_def)

lemma pinned_get_keeps:
  assumes "pinned date k c u pins" and "now < u"
  shows "pinned date k c u (snd (getSessionAccountAffinity date sha s p ttl now pins))"
  using assms get_pins [of date sha s p ttl now pins] by (auto simp: pinned_def read_pin_del)

lemma pinned_id: "pinned date k c u pins \<Longrightarrow> trim c \<noteq> []"
  by (auto simp: pinned_def read_pin_def split: option.splits dest: parseRecord_dates(1))

lemma pinned_upsert:
  assumes "readable date toISO" and "s \<noteq> []" and "p \<noteq> []" and "trim c \<noteq> []" and "0 < normalizePositiveTtl ttl"
    and "u \<le> whole (of_int now + normalizePositiveTtl ttl)"
  shows "pinned date (affinityKey sha s p) c u (upsertSessionAccountAffinity date toISO sha s p c now ttl pins)"
  using read_upsert [OF assms(1-5), of sha now pins] assms(6) unfolding pinned_def by blast

lemma pinned_touch:
  assumes "readable date toISO" and "s \<noteq> []" and "p \<noteq> []" and "pinned date (affinityKey sha s p) c u pins" and "now < u"
    and "0 < normalizePositiveTtl ttl" and "v \<le> whole (of_int now + normalizePositiveTtl ttl)"
  shows "pinned date (affinityKey sha s p) c v (touchSessionAccountAffinity date toISO sha s p now ttl pins)"
proof -
  have "0 < normalizePositiveTtl (Some (normalizePositiveTtl ttl))" using assms(6) by simp
  from pinned_get [OF assms(4,5,2,3) this] obtain r
    where r: "getSessionAccountAffinity date sha s p (Some (normalizePositiveTtl ttl)) now pins = (Some r, pins)" "af_connectionId r = c"
    by blast
  then show ?thesis
    using assms pinned_id [OF assms(4)] by (simp add: touchSessionAccountAffinity_def Let_def pinned_upsert)
qed

text \<open>Everything that reads or writes pins, at its time.\<close>

datatype pin_op =
    Upserts string string string "rat option"
  | Touches string string "rat option"
  | Reads string string "rat option"
  | Deletes string string
  | Evicts string string string
  | Cleans

fun pin_step :: "(string \<Rightarrow> time option) \<Rightarrow> (time \<Rightarrow> string) \<Rightarrow> (string \<Rightarrow> string) \<Rightarrow> pins \<Rightarrow> time \<times> pin_op \<Rightarrow> pins" where
  "pin_step date toISO sha ps (now, Upserts s p c ttl) = upsertSessionAccountAffinity date toISO sha s p c now ttl ps"
| "pin_step date toISO sha ps (now, Touches s p ttl) = touchSessionAccountAffinity date toISO sha s p now ttl ps"
| "pin_step date toISO sha ps (now, Reads s p ttl) = snd (getSessionAccountAffinity date sha s p ttl now ps)"
| "pin_step date toISO sha ps (now, Deletes s p) = deleteSessionAccountAffinity sha s p ps"
| "pin_step date toISO sha ps (now, Evicts s p c) = snd (evictSessionAccountAffinityForConnection date sha s p c ps)"
| "pin_step date toISO sha ps (now, Cleans) = snd (cleanupStaleSessionAccountAffinities date now ps)"

text \<open>
  The operations that leave a pin on \<open>c\<close> until \<open>u\<close>: before \<open>u\<close>, those on other keys, reads and the clean-up, a renewal that
  reaches \<open>u\<close>, and the eviction of another connection.
\<close>

fun spares :: "(string \<Rightarrow> string) \<Rightarrow> string \<Rightarrow> string \<Rightarrow> time \<Rightarrow> time \<times> pin_op \<Rightarrow> bool" where
  "spares sha key c u (now, Upserts s p c' ttl) \<longleftrightarrow> now < u \<and>
     (affinityKey sha s p \<noteq> key \<or> normalizePositiveTtl ttl = 0 \<or> c' = c \<and> u \<le> whole (of_int now + normalizePositiveTtl ttl))"
| "spares sha key c u (now, Touches s p ttl) \<longleftrightarrow> now < u \<and>
     (affinityKey sha s p \<noteq> key \<or> normalizePositiveTtl ttl = 0 \<or> u \<le> whole (of_int now + normalizePositiveTtl ttl))"
| "spares sha key c u (now, Reads s p ttl) \<longleftrightarrow> now < u"
| "spares sha key c u (now, Deletes s p) \<longleftrightarrow> affinityKey sha s p \<noteq> key"
| "spares sha key c u (now, Evicts s p c') \<longleftrightarrow> affinityKey sha s p \<noteq> key \<or> c' \<noteq> c"
| "spares sha key c u (now, Cleans) \<longleftrightarrow> now < u"

lemma pinned_read: "read_pin date k ps' = read_pin date k ps \<Longrightarrow> pinned date k c u ps' = pinned date k c u ps"
  by (simp add: pinned_def)

lemma noop_upsert: "s = [] \<or> p = [] \<or> c = [] \<or> normalizePositiveTtl ttl = 0 \<Longrightarrow> upsertSessionAccountAffinity date toISO sha s p c now ttl ps = ps"
  by (auto simp: upsertSessionAccountAffinity_def Let_def)

lemma noop_touch: "normalizePositiveTtl ttl = 0 \<or> s = [] \<or> p = [] \<Longrightarrow> touchSessionAccountAffinity date toISO sha s p now ttl ps = ps"
  by (auto simp: touchSessionAccountAffinity_def getSessionAccountAffinity_def Let_def)

lemma pinned_after_upsert:
  assumes "readable date toISO" and "pinned date key c u ps" and "spares sha key c u (now, Upserts s p c' ttl)"
  shows "pinned date key c u (upsertSessionAccountAffinity date toISO sha s p c' now ttl ps)"
proof (cases "affinityKey sha s p = key \<and> normalizePositiveTtl ttl \<noteq> 0 \<and> s \<noteq> [] \<and> p \<noteq> []")
  case True
  then have "0 < normalizePositiveTtl ttl" using ttl_simps(2) [of ttl] by linarith
  then show ?thesis using assms True pinned_upsert [OF assms(1), of s p c ttl u now sha ps] pinned_id [OF assms(2)] by auto
next
  case False
  then show ?thesis using assms(2) pinned_read [OF upsert_other, of key sha s p] noop_upsert [of s p c' ttl] by metis
qed

lemma pinned_after_touch:
  assumes "readable date toISO" and "pinned date key c u ps" and "spares sha key c u (now, Touches s p ttl)"
  shows "pinned date key c u (touchSessionAccountAffinity date toISO sha s p now ttl ps)"
proof (cases "affinityKey sha s p = key \<and> normalizePositiveTtl ttl \<noteq> 0 \<and> s \<noteq> [] \<and> p \<noteq> []")
  case True
  then have "0 < normalizePositiveTtl ttl" using ttl_simps(2) [of ttl] by linarith
  then show ?thesis using assms True pinned_touch [OF assms(1), of s p sha c u ps now ttl u] by auto
next
  case False
  then show ?thesis using assms(2) pinned_read [OF touch_other, of key sha s p] noop_touch [of ttl s p] by metis
qed

lemma pinned_after_evict:
  "pinned date key c u ps \<Longrightarrow> affinityKey sha s p \<noteq> key \<or> c' \<noteq> c \<Longrightarrow>
   pinned date key c u (snd (evictSessionAccountAffinityForConnection date sha s p c' ps))"
  by (auto simp: pinned_def evictSessionAccountAffinityForConnection_def Let_def read_pin_del split: option.splits)

lemma pinned_after_cleanup:
  assumes "pinned date key c u ps" and "now < u"
  shows "pinned date key c u (snd (cleanupStaleSessionAccountAffinities date now ps))"
proof -
  obtain r e v where v: "map_of ps key = Some v" "parseRecord date v = Some r" "af_connectionId r = c"
      "date (af_expiresAt r) = Some e" "u \<le> e"
    using assms(1) by (auto simp: pinned_def read_pin_def split: option.splits)
  have keep: "\<not> stale_pin date now v" using v(2,4,5) assms(2) by (simp add: stale_pin_def)
  have "map_of ps k = Some w \<Longrightarrow> \<not> stale_pin date now w \<Longrightarrow> map_of (filter (\<lambda>(k, v). \<not> stale_pin date now v) ps) k = Some w" for k w
    by (induction ps) (auto split: if_splits)
  then have "map_of (filter (\<lambda>(k, v). \<not> stale_pin date now v) ps) key = Some v" using v(1) keep by blast
  then show ?thesis using v by (simp add: pinned_def read_pin_def cleanupStaleSessionAccountAffinities_def)
qed

lemma pin_step_ok:
  assumes "readable date toISO" and "pinned date key c u ps" and "spares sha key c u e"
  shows "pinned date key c u (pin_step date toISO sha ps e)"
proof (cases e)
  case (Pair now op)
  show ?thesis
  proof (cases op)
    case (Upserts s p c' ttl)
    then show ?thesis using pinned_after_upsert [OF assms(1,2)] assms(3) Pair by simp
  next
    case (Touches s p ttl)
    then show ?thesis using pinned_after_touch [OF assms(1,2)] assms(3) Pair by simp
  next
    case (Reads s p ttl)
    then show ?thesis using pinned_get_keeps [OF assms(2)] assms(3) Pair by simp
  next
    case (Deletes s p)
    then show ?thesis using assms(2,3) Pair by (auto simp: deleteSessionAccountAffinity_def pinned_def read_pin_del)
  next
    case (Evicts s p c')
    then show ?thesis using pinned_after_evict [OF assms(2)] assms(3) Pair by simp
  next
    case Cleans
    then show ?thesis using pinned_after_cleanup [OF assms(2)] assms(3) Pair by simp
  qed
qed

interpretation pin_machine: guarded_machine "pin_step date toISO sha"
  "\<lambda>ps. readable date toISO \<and> pinned date key c u ps" "spares sha key c u" for date toISO sha key c u
  by unfold_locales (use pin_step_ok in blast)

text \<open>A pin that was written is read back until its time has come, whatever spares it in between.\<close>

lemma pin_lasts:
  assumes "readable date toISO" and "s \<noteq> []" and "p \<noteq> []" and "trim c \<noteq> []" and "0 < normalizePositiveTtl ttl"
    and "u = whole (of_int now + normalizePositiveTtl ttl)"
    and "list_all (spares sha (affinityKey sha s p) c u) ops" and "later < u" and "0 < normalizePositiveTtl ttl'"
  shows "map_option af_connectionId (fst (getSessionAccountAffinity date sha s p ttl' later
     (foldl (pin_step date toISO sha) (upsertSessionAccountAffinity date toISO sha s p c now ttl pins) ops))) = Some c"
proof -
  have "readable date toISO \<and> pinned date (affinityKey sha s p) c u (upsertSessionAccountAffinity date toISO sha s p c now ttl pins)"
    using pinned_upsert [OF assms(1-5), of u now] assms(1,6) by simp
  from pin_machine.run_ok [OF this assms(7)] show ?thesis
    using pinned_get [OF _ assms(8,2,3,9)] by fastforce
qed

section \<open>Selection\<close>

definition dated :: "(string \<Rightarrow> time option) \<Rightarrow> connection \<Rightarrow> bool" where
  "dated date c \<longleftrightarrow> unused c \<or> used_at date c \<noteq> None"

interpretation lru: comparator "compareLruConnections date" "dated date" for date
proof
  fix a b assume "dated date a" "dated date b" "\<not> compareLruConnections date a b < 0"
  then show "compareLruConnections date b a \<le> 0"
    by (cases "unused a"; cases "unused b") (auto simp: compareLruConnections_def dated_def split: if_splits)
next
  fix a b c assume "dated date a" "dated date b" "dated date c" "compareLruConnections date a b \<le> 0" "compareLruConnections date b c \<le> 0"
  then show "compareLruConnections date a c \<le> 0"
    by (cases "unused a"; cases "unused b"; cases "unused c") (auto simp: compareLruConnections_def dated_def split: if_splits)
qed

lemma get_found:
  assumes "getSessionAccountAffinity date sha s p ttl now pins = (Some r, pins1)"
  shows "pins1 = pins \<and> (\<exists>e. now < e \<and> pinned date (affinityKey sha s p) (af_connectionId r) e pins)"
proof -
  have read: "read_pin date (affinityKey sha s p) pins = Some r" using get_reads [of date sha s p ttl now pins] assms by simp
  then obtain e where e: "date (af_expiresAt r) = Some e"
    by (auto simp: read_pin_def split: option.splits dest: parseRecord_dates(4))
  then show ?thesis
    using assms read by (auto simp: getSessionAccountAffinity_def Let_def pinned_def not_le split: if_splits option.splits)
qed

lemma find_id: "find (\<lambda>c. c_id c = x) cs = Some c \<Longrightarrow> c_id c = x \<and> c \<in> set cs"
  by (auto simp: find_Some_iff)

lemma used_now_id [simp]: "c_id (used_now toISO now n c) = c_id c"
  by (simp add: used_now_def)

text \<open>Whatever is selected is in the pool, and is pinned for the time to live.\<close>

lemma select_pins:
  assumes "readable date toISO" and "\<forall>c \<in> set pool. trim (c_id c) \<noteq> []" and "p \<noteq> []"
    and "selectSessionAffinityConnection date toISO sha p sk pool ttl now pins = (Some c, pins', w)"
  shows "c_id c \<in> c_id ` set pool \<and> nullish sk [] \<noteq> [] \<and> 0 < ttl
    \<and> pinned date (affinityKey sha (nullish sk []) p) (c_id c) (whole (of_int now + ttl)) pins'"
proof -
  let ?s = "nullish sk []"
  obtain existing pins1 where g: "getSessionAccountAffinity date sha ?s p (Some ttl) now pins = (existing, pins1)" by fastforce
  let ?f = "Option.bind existing (\<lambda>r. find (\<lambda>c. c_id c = af_connectionId r) pool)"
  have nt: "?s \<noteq> []" "0 < ttl" "pool \<noteq> []"
    using assms(4) by (auto simp: selectSessionAffinityConnection_def Let_def split: if_splits)
  have ttl: "0 < normalizePositiveTtl (Some ttl)" "normalizePositiveTtl (Some ttl) = ttl" using nt(2) by simp_all
  show ?thesis
  proof (cases ?f)
    case (Some d)
    then obtain r where r: "existing = Some r" "find (\<lambda>c. c_id c = af_connectionId r) pool = Some d" by (auto simp: bind_eq_Some_conv)
    have d: "c_id d = af_connectionId r" "d \<in> set pool" using find_id [OF r(2)] by auto
    obtain e where e: "pins1 = pins" "now < e" "pinned date (affinityKey sha ?s p) (c_id d) e pins"
      using get_found [OF g [unfolded r(1)]] d by auto
    have c: "c_id c = c_id d" "pins' = touchSessionAccountAffinity date toISO sha ?s p now (Some ttl) pins1"
      using assms(4) Some nt g by (auto simp: selectSessionAffinityConnection_def Let_def)
    show ?thesis
      unfolding c e(1)
      using pinned_touch [OF assms(1) nt(1) assms(3) e(3,2) ttl(1), of "whole (of_int now + ttl)"] d(2) nt ttl by auto
  next
    case None
    then obtain d where d: "first_of (js_sort (compareLruConnections date) pool) = Some d" using nt(3) by fastforce
    then have mem: "d \<in> set pool" by (rule first_of_sort_mem)
    obtain ps where c: "c_id c = c_id d" "pins' = upsertSessionAccountAffinity date toISO sha ?s p (c_id d) now (Some ttl) ps"
      using assms(4) None nt g d by (auto simp: selectSessionAffinityConnection_def Let_def)
    have "trim (c_id d) \<noteq> []" using assms(2) mem by blast
    then show ?thesis
      unfolding c
      using pinned_upsert [OF assms(1) nt(1) assms(3) _ ttl(1), of "c_id d" "whole (of_int now + ttl)" now sha ps] mem nt ttl by auto
  qed
qed

text \<open>A pinned connection that is in the pool is selected.\<close>

lemma select_pinned:
  assumes "pinned date (affinityKey sha (nullish sk []) p) x u pins" and "now < u" and "nullish sk [] \<noteq> []" and "p \<noteq> []" and "0 < ttl"
    and "x \<in> c_id ` set pool"
  shows "\<exists>c pins' w. selectSessionAffinityConnection date toISO sha p sk pool ttl now pins = (Some c, pins', w) \<and> c_id c = x"
proof -
  have "0 < normalizePositiveTtl (Some ttl)" using assms(5) by simp
  from pinned_get [OF assms(1-4) this] obtain r
    where r: "getSessionAccountAffinity date sha (nullish sk []) p (Some ttl) now pins = (Some r, pins)" "af_connectionId r = x" by blast
  obtain d where d: "find (\<lambda>c. c_id c = x) pool = Some d"
    using assms(6) by (cases "find (\<lambda>c. c_id c = x) pool") (auto simp: find_None_iff)
  then show ?thesis
    using r find_id [OF d] assms(3,5,6) by (auto simp: selectSessionAffinityConnection_def Let_def)
qed

text \<open>Further requests of a session: each at its time, over the accounts that are available then.\<close>

fun follow :: "(string \<Rightarrow> time option) \<Rightarrow> (time \<Rightarrow> string) \<Rightarrow> (string \<Rightarrow> string) \<Rightarrow> string \<Rightarrow> string option \<Rightarrow> rat
    \<Rightarrow> (time \<times> connection list) list \<Rightarrow> pins \<Rightarrow> connection option list" where
  "follow date toISO sha p sk ttl [] pins = []"
| "follow date toISO sha p sk ttl ((now, pool) # rs) pins =
     (let (c, pins', w) = selectSessionAffinityConnection date toISO sha p sk pool ttl now pins
      in c # follow date toISO sha p sk ttl rs pins')"

text \<open>Each comes before the time to live of the one before has passed, and finds the connection \<open>x\<close> available.\<close>

fun keeps_up :: "rat \<Rightarrow> string \<Rightarrow> time \<Rightarrow> (time \<times> connection list) list \<Rightarrow> bool" where
  "keeps_up ttl x t [] \<longleftrightarrow> True"
| "keeps_up ttl x t ((now, pool) # rs) \<longleftrightarrow>
     now < whole (of_int t + ttl) \<and> x \<in> c_id ` set pool \<and> (\<forall>c \<in> set pool. trim (c_id c) \<noteq> []) \<and> keeps_up ttl x now rs"

lemma follow_pinned:
  assumes "readable date toISO" and "nullish sk [] \<noteq> []" and "p \<noteq> []" and "0 < ttl"
  shows "pinned date (affinityKey sha (nullish sk []) p) x (whole (of_int t + ttl)) pins \<Longrightarrow> keeps_up ttl x t rs \<Longrightarrow>
    map (map_option c_id) (follow date toISO sha p sk ttl rs pins) = replicate (length rs) (Some x)"
proof (induction rs arbitrary: t pins)
  case (Cons r rs)
  obtain now pool where r: "r = (now, pool)" by fastforce
  have k: "now < whole (of_int t + ttl)" "x \<in> c_id ` set pool" "\<forall>c \<in> set pool. trim (c_id c) \<noteq> []" "keeps_up ttl x now rs"
    using Cons.prems(2) by (simp_all add: r)
  obtain c pins' w where c: "selectSessionAffinityConnection date toISO sha p sk pool ttl now pins = (Some c, pins', w)" "c_id c = x"
    using select_pinned [OF Cons.prems(1) k(1) assms(2-4) k(2)] by blast
  have "pinned date (affinityKey sha (nullish sk []) p) x (whole (of_int now + ttl)) pins'"
    using select_pins [OF assms(1) k(3) assms(3) c(1)] c(2) by blast
  then show ?case using Cons.IH [OF _ k(4)] c by (simp add: r)
qed simp

text \<open>
  C99. A session stays with its account: once \<open>selectSessionAffinityConnection\<close> has chosen a connection for a session key,
  every further request of that session for the provider is given the same connection, as long as each request comes
  before the time to live counted from the one before has passed and the connection is among those available then,
  whatever else is in the pool and however its order by last use changes.
\<close>

theorem session_sticks:
  assumes "readable date toISO" and "\<forall>c \<in> set pool. trim (c_id c) \<noteq> []" and "p \<noteq> []"
    and "selectSessionAffinityConnection date toISO sha p sk pool ttl now pins = (Some c, pins', w)"
    and "keeps_up ttl (c_id c) now rs"
  shows "map (map_option c_id) (follow date toISO sha p sk ttl rs pins') = replicate (length rs) (Some (c_id c))"
proof -
  note s = select_pins [OF assms(1-4)]
  then have "nullish sk [] \<noteq> []" "0 < ttl" by simp_all
  from follow_pinned [OF assms(1) this(1) assms(3) this(2) _ assms(5)] show ?thesis using s by blast
qed

definition conn_of :: "string \<Rightarrow> rat \<Rightarrow> connection" where
  "conn_of i prio = (toProviderConnection (JObj [(''id'', JStr i), (''priority'', JNum prio)]))"

theorem session_sticks_witness:
  "map (map_option c_id) (follow plain_date plain_iso (\<lambda>s. s) ''codex'' (Some ''s'') 1000
     [(500, [conn_of ''a'' 1, conn_of ''b'' 2]), (1400, [conn_of ''b'' 2])]
     (fst (snd (selectSessionAffinityConnection plain_date plain_iso (\<lambda>s. s) ''codex'' (Some ''s'') [conn_of ''b'' 2] 1000 0 []))))
   = [Some ''b'', Some ''b'']"
proof -
  let ?sel = "selectSessionAffinityConnection plain_date plain_iso (\<lambda>s. s) ''codex'' (Some ''s'') [conn_of ''b'' 2] 1000 0 []"
  have c: "map_option c_id (fst ?sel) = Some ''b''" by code_simp
  obtain d ps w where sel: "?sel = (Some d, ps, w)" "c_id d = ''b''" using c by (cases ?sel) auto
  let ?rs = "[(500, [conn_of ''a'' 1, conn_of ''b'' 2]), (1400, [conn_of ''b'' 2])]"
  have pool: "\<forall>c \<in> set [conn_of ''b'' 2]. trim (c_id c) \<noteq> []" and p: "''codex'' \<noteq> []" by code_simp+
  have "keeps_up 1000 (c_id d) 0 ?rs" unfolding sel(2) by code_simp
  from session_sticks [OF plain_readable pool p sel(1) this] show ?thesis by (simp add: sel del: follow.simps)
qed

text \<open>
  C99. Planning and committing is selecting: when the commit of \<open>planSessionAffinityConnection\<close> runs at once, the connection
  with its new use, the pins and the writes to the row are exactly those of \<open>selectSessionAffinityConnection\<close>, in each of
  its cases: a live pin in the pool, a pin outside the pool, no pin, no session.
\<close>

theorem plan_commit_is_select:
  "selectSessionAffinityConnection date toISO sha p sk pool ttl now pins =
    (case planSessionAffinityConnection date toISO sha p sk pool ttl now pins of
       (None, pins1) \<Rightarrow> (None, pins1, [])
     | (Some (c, commit), pins1) \<Rightarrow> (let (c', pins2, w) = commit now pins1 in (Some c', pins2, w)))"
proof (cases "nullish sk [] = [] \<or> pool = [] \<or> ttl \<le> 0")
  case True
  then show ?thesis by (auto simp: selectSessionAffinityConnection_def planSessionAffinityConnection_def Let_def)
next
  case False
  obtain existing pins1 where g: "getSessionAccountAffinity date sha (nullish sk []) p (Some ttl) now pins = (existing, pins1)" by fastforce
  obtain d where "first_of (js_sort (compareLruConnections date) pool) = Some d" using False by fastforce
  then show ?thesis
    using False g by (auto simp: selectSessionAffinityConnection_def planSessionAffinityConnection_def Let_def split: option.split)
qed

text \<open>A pin takes the place of a forced connection only for an available, eligible one.\<close>

lemma pin_overrides_eligible:
  assumes "fst (applySessionAffinityPin date sha now v forced opts ttl pool p m excluded pins) = Some x"
  shows "forced \<noteq> Some x \<and> (\<exists>c \<in> set pool. c_id c = x \<and> isConnectionEligibleForAffinityPin date now v p m opts excluded c)"
  using assms
  by (auto simp: applySessionAffinityPin_def Let_def find_Some_iff split: if_splits option.splits prod.splits)

text \<open>A forced connection that stays forced is in a pool that is not empty, is not excluded, and is not cooling down unless
  that is allowed.\<close>

lemma forced_stays:
  assumes "resolveForcedConnectionForCredentialPool date now forced excluded pool allow bypass ex bl = Some x" and "pool \<noteq> []"
  shows "x = trim (nullish forced []) \<and> x \<notin> excluded \<and> \<not> ex x \<and> (\<exists>c \<in> set pool. c_id c = x
    \<and> (allow \<or> \<not> isAccountUnavailable date now (c_rateLimitedUntil c)) \<and> (bypass \<or> \<not> bl c))"
  using assms by (auto simp: resolveForcedConnectionForCredentialPool_def Let_def find_Some_iff split: if_splits option.splits)

end
