(* ===== verification/OAuthOccupancy.thy ===== *)
theory OAuthOccupancy
  imports Prelude
begin

text \<open>
  The occupancy of OAuth accounts by sessions: \<open>src/open-sse/services/oauthSessionOccupancy.ts\<close>.

  \<^item> \<open>occupancy\<close> maps connections to the sessions that use them, with the number of their requests and the time
    their lease ends. A release closure is a position in the list of reservations, with its \<open>released\<close> flag.
  \<^item> A response body whose release is wrapped is the sequence of its events.

  The lemmas: a session is counted only while it has a reservation that is not released, and nothing stays behind.
\<close>

definition DEFAULT_LEASE_MS :: int where "DEFAULT_LEASE_MS = 600000"

record session_lease =
  sl_requests :: nat
  sl_expiresAt :: time

type_synonym occupancy_map = "(string \<times> (string \<times> session_lease) list) list"

record reservation =
  rv_conn :: string
  rv_key :: string
  rv_released :: bool

record oauth_state =
  occupancy :: occupancy_map
  reservations :: "reservation list"

definition prune_map :: "time \<Rightarrow> occupancy_map \<Rightarrow> occupancy_map" where
  "prune_map now m = filter (\<lambda>(c, ss). ss \<noteq> []) (map_values (filter (\<lambda>(k, l). sl_expiresAt l > now)) m)"

definition getForeignOAuthSessionCount :: "string option \<Rightarrow> string option \<Rightarrow> time \<Rightarrow> oauth_state \<Rightarrow> nat \<times> oauth_state" where
  "getForeignOAuthSessionCount connectionId sessionKey now st =
     (if nullish connectionId [] = [] then (0, st)
      else let m = prune_map now (occupancy st); st1 = st\<lparr>occupancy := m\<rparr>
           in case map_of m (nullish connectionId []) of
                None \<Rightarrow> (0, st1)
              | Some ss \<Rightarrow> (length (filter (\<lambda>(k, l). nullish sessionKey [] = [] \<or> Some k \<noteq> sessionKey) ss), st1))"

definition getOAuthSessionAvailability :: "string option \<Rightarrow> string option \<Rightarrow> time \<Rightarrow> oauth_state \<Rightarrow> rat \<times> oauth_state" where
  "getOAuthSessionAvailability connectionId sessionKey now st =
     apfst (\<lambda>n. 1 / (1 + of_nat n)) (getForeignOAuthSessionCount connectionId sessionKey now st)"

text \<open>The closure it returns; \<open>None\<close> for the one that does nothing.\<close>

definition reserveOAuthSession :: "string \<Rightarrow> string \<Rightarrow> int \<Rightarrow> time \<Rightarrow> oauth_state \<Rightarrow> nat option \<times> oauth_state" where
  "reserveOAuthSession connectionId sessionKey leaseMs now st =
     (if connectionId = [] \<or> sessionKey = [] then (None, st)
      else let m = prune_map now (occupancy st);
               sessions = nullish (map_of m connectionId) [];
               n = (case map_of sessions sessionKey of Some l \<Rightarrow> sl_requests l | None \<Rightarrow> 0);
               sessions' = map_set sessionKey \<lparr>sl_requests = n + 1, sl_expiresAt = now + max 1 leaseMs\<rparr> sessions
           in (Some (length (reservations st)),
               \<lparr>occupancy = map_set connectionId sessions' m,
                reservations = reservations st @ [\<lparr>rv_conn = connectionId, rv_key = sessionKey, rv_released = False\<rparr>]\<rparr>))"

definition drop_request :: "string \<Rightarrow> string \<Rightarrow> occupancy_map \<Rightarrow> occupancy_map" where
  "drop_request c k m =
     (case map_of m c of
        None \<Rightarrow> m
      | Some ss \<Rightarrow>
          (case map_of ss k of
             None \<Rightarrow> m
           | Some l \<Rightarrow>
               let ss' = (if sl_requests l \<le> 1 then map_del k ss else map_set k (l\<lparr>sl_requests := sl_requests l - 1\<rparr>) ss)
               in if ss' = [] then map_del c m else map_set c ss' m))"

definition release_reservation :: "nat \<Rightarrow> oauth_state \<Rightarrow> oauth_state" where
  "release_reservation i st =
     (if i \<ge> length (reservations st) then st
      else let r = reservations st ! i
           in if rv_released r then st
              else \<lparr>occupancy = drop_request (rv_conn r) (rv_key r) (occupancy st),
                    reservations = (reservations st)[i := r\<lparr>rv_released := True\<rparr>]\<rparr>)"

datatype body_event = Chunk | Done | Read_error | Cancelled

text \<open>\<open>wrapResponseWithOAuthSessionRelease\<close>: a response without a body releases at once.\<close>

fun body_events :: "nat \<Rightarrow> body_event list \<Rightarrow> oauth_state \<Rightarrow> oauth_state" where
  "body_events i [] st = st"
| "body_events i (e # es) st = body_events i es (if e = Chunk then st else release_reservation i st)"

definition wrapResponseWithOAuthSessionRelease :: "bool \<Rightarrow> nat \<Rightarrow> body_event list \<Rightarrow> oauth_state \<Rightarrow> oauth_state" where
  "wrapResponseWithOAuthSessionRelease hasBody i es st = (if hasBody then body_events i es st else release_reservation i st)"

section \<open>Reservations that are held\<close>

definition held_count :: "string \<Rightarrow> string \<Rightarrow> reservation list \<Rightarrow> nat" where
  "held_count c k rs = length (filter (\<lambda>r. rv_conn r = c \<and> rv_key r = k \<and> \<not> rv_released r) rs)"

text \<open>Every entry has between one and as many requests as there are reservations held for it.\<close>

definition occ_inv :: "oauth_state \<Rightarrow> bool" where
  "occ_inv st \<longleftrightarrow> map_ok (occupancy st) \<and> (\<forall>c ss. map_of (occupancy st) c = Some ss \<longrightarrow> ss \<noteq> [] \<and> map_ok ss
     \<and> (\<forall>k l. map_of ss k = Some l \<longrightarrow> 1 \<le> sl_requests l \<and> sl_requests l \<le> held_count c k (reservations st)))"

lemma held_append: "held_count c k (rs @ [r]) = held_count c k rs + (if rv_conn r = c \<and> rv_key r = k \<and> \<not> rv_released r then 1 else 0)"
  by (simp add: held_count_def)

lemma held_release:
  "i < length rs \<Longrightarrow> \<not> rv_released (rs ! i) \<Longrightarrow>
   held_count c k (rs[i := (rs ! i)\<lparr>rv_released := True\<rparr>])
     = held_count c k rs - (if rv_conn (rs ! i) = c \<and> rv_key (rs ! i) = k then 1 else 0)"
proof (induction rs arbitrary: i)
  case (Cons r rs)
  show ?case
  proof (cases i)
    case (Suc j)
    have "0 < held_count c k rs" if "j < length rs" "\<not> rv_released (rs ! j)" "rv_conn (rs ! j) = c" "rv_key (rs ! j) = k"
      using that nth_mem [of j rs] by (auto simp: held_count_def filter_empty_conv)
    then show ?thesis using Cons Suc by (auto simp: held_count_def)
  qed (use Cons.prems in \<open>auto simp: held_count_def\<close>)
qed simp

lemma prune_get:
  "map_ok m \<Longrightarrow> map_of (prune_map now m) c = (case map_of m c of None \<Rightarrow> None
     | Some ss \<Rightarrow> (let ss' = filter (\<lambda>(k, l). sl_expiresAt l > now) ss in if ss' = [] then None else Some ss'))"
  by (simp add: prune_map_def map_get_filter Let_def split: option.splits)

lemma inv_prune: assumes "occ_inv st" shows "occ_inv (st\<lparr>occupancy := prune_map now (occupancy st)\<rparr>)"
proof -
  have ok: "map_ok (occupancy st)" using assms by (simp add: occ_inv_def)
  then have "map_ok (prune_map now (occupancy st))" by (simp add: prune_map_def)
  then show ?thesis
    using assms prune_get [OF ok, of now] by (auto simp: occ_inv_def Let_def map_get_filter split: option.splits if_splits)
qed

lemma inv_foreign: "occ_inv st \<Longrightarrow> occ_inv (snd (getForeignOAuthSessionCount c k now st))"
  using inv_prune [of st now] by (auto simp: getForeignOAuthSessionCount_def Let_def split: option.splits)

lemma inv_reserve: assumes "occ_inv st" shows "occ_inv (snd (reserveOAuthSession c k ms now st))"
proof (cases "c = [] \<or> k = []")
  case False
  let ?m = "prune_map now (occupancy st)"
  let ?ss = "nullish (map_of ?m c) []"
  have i: "occ_inv (st\<lparr>occupancy := ?m\<rparr>)" using assms by (rule inv_prune)
  have ss: "map_ok ?ss" "map_of ?ss k' = Some l \<Longrightarrow> 1 \<le> sl_requests l \<and> sl_requests l \<le> held_count c k' (reservations st)" for k' l
    using i by (auto simp: occ_inv_def nullish_def split: option.splits)
  have "AList.update k l ?ss \<noteq> []" for l by (cases ?ss) auto
  then show ?thesis
    using False i ss by (auto simp: reserveOAuthSession_def Let_def occ_inv_def held_append split: option.splits)
qed (use assms in \<open>auto simp: reserveOAuthSession_def\<close>)

lemma drop_get:
  "map_of (drop_request c k m) c' =
    (if c' \<noteq> c then map_of m c'
     else case map_of m c of None \<Rightarrow> None
       | Some ss \<Rightarrow> (case map_of ss k of None \<Rightarrow> Some ss
           | Some l \<Rightarrow> (let ss' = (if sl_requests l \<le> 1 then map_del k ss else map_set k (l\<lparr>sl_requests := sl_requests l - 1\<rparr>) ss)
                       in if ss' = [] then None else Some ss')))"
  by (auto simp: drop_request_def Let_def split: option.splits)

lemma drop_ok: "map_ok m \<Longrightarrow> map_ok (drop_request c k m)"
  by (auto simp: drop_request_def Let_def split: option.splits)

lemma inv_drop:
  assumes "occ_inv st" and "\<And>c' k'. held_count c' k' rs = held_count c' k' (reservations st) - (if c = c' \<and> k = k' then 1 else 0)"
  shows "occ_inv \<lparr>occupancy = drop_request c k (occupancy st), reservations = rs\<rparr>"
  unfolding occ_inv_def
proof (simp add: drop_ok assms(1) [unfolded occ_inv_def], intro allI impI)
  fix c' ss assume d: "map_of (drop_request c k (occupancy st)) c' = Some ss"
  have i: "ss0 \<noteq> [] \<and> map_ok ss0 \<and> (\<forall>k l. map_of ss0 k = Some l \<longrightarrow> 1 \<le> sl_requests l \<and> sl_requests l \<le> held_count c k (reservations st))"
    if "map_of (occupancy st) c = Some ss0" for c ss0
    using assms(1) that by (auto simp: occ_inv_def)
  show "ss \<noteq> [] \<and> map_ok ss \<and> (\<forall>k' l. map_of ss k' = Some l \<longrightarrow> Suc 0 \<le> sl_requests l \<and> sl_requests l \<le> held_count c' k' rs)"
  proof (cases "c' = c")
    case False
    then show ?thesis using d i [of c' ss] assms(2) by (auto simp: drop_get)
  next
    case True
    then obtain ss0 where ss0: "map_of (occupancy st) c = Some ss0" using d by (auto simp: drop_get split: option.splits)
    note j = i [OF ss0]
    show ?thesis
    proof (cases "map_of ss0 k")
      case None
      then show ?thesis using d ss0 j True assms(2) by (auto simp: drop_get)
    next
      case (Some l)
      then have h: "sl_requests l \<le> held_count c k (reservations st)" using j by blast
      let ?ss = "if sl_requests l \<le> 1 then map_del k ss0 else map_set k (l\<lparr>sl_requests := sl_requests l - 1\<rparr>) ss0"
      have "ss = ?ss" "ss \<noteq> []" using d ss0 Some True by (auto simp: drop_get Let_def split: if_splits)
      moreover have "map_ok ?ss" using j by simp
      moreover have "1 \<le> sl_requests x \<and> sl_requests x \<le> held_count c k' rs" if "map_of ?ss k' = Some x" for k' x
        using that j diff_le_mono [OF h, of 1] Some assms(2) [of c k'] by (auto split: if_splits)
      ultimately show ?thesis using True by auto
    qed
  qed
qed

lemma inv_release: "occ_inv st \<Longrightarrow> occ_inv (release_reservation i st)"
  by (auto simp: release_reservation_def Let_def not_le held_release intro!: inv_drop)

lemma inv_body: "occ_inv st \<Longrightarrow> occ_inv (body_events i es st)"
  by (induction es arbitrary: st) (simp_all add: inv_release)

section \<open>Runs\<close>

datatype occ_event = Ask "string option" "string option" time | Reserve string string int time | Release_one nat
  | Respond bool nat "body_event list"

fun occ_step :: "oauth_state \<Rightarrow> occ_event \<Rightarrow> oauth_state" where
  "occ_step st (Ask c k now) = snd (getForeignOAuthSessionCount c k now st)"
| "occ_step st (Reserve c k ms now) = snd (reserveOAuthSession c k ms now st)"
| "occ_step st (Release_one i) = release_reservation i st"
| "occ_step st (Respond b i es) = wrapResponseWithOAuthSessionRelease b i es st"

definition no_sessions :: oauth_state where "no_sessions = \<lparr>occupancy = [], reservations = []\<rparr>"

interpretation occ: machine occ_step occ_inv
proof
  fix st e assume "occ_inv st"
  then show "occ_inv (occ_step st e)"
    by (cases e) (simp_all add: inv_foreign inv_reserve inv_release inv_body wrapResponseWithOAuthSessionRelease_def)
qed

lemma inv_no_sessions: "occ_inv no_sessions"
  by (simp add: occ_inv_def no_sessions_def)

text \<open>The sessions, other than \<open>k\<close>, that hold a reservation of a connection.\<close>

definition holders :: "string \<Rightarrow> string \<Rightarrow> reservation list \<Rightarrow> string set" where
  "holders c k rs = set (map rv_key (filter (\<lambda>r. rv_conn r = c \<and> \<not> rv_released r \<and> rv_key r \<noteq> k) rs))"

lemma finite_holders: "finite (holders c k rs)"
  by (simp add: holders_def)

lemma holders_iff: "x \<in> holders c k rs \<longleftrightarrow> x \<noteq> k \<and> (\<exists>r \<in> set rs. rv_conn r = c \<and> rv_key r = x \<and> \<not> rv_released r)"
  by (auto simp: holders_def)

lemma held_pos: "0 < held_count c k rs \<longleftrightarrow> (\<exists>r \<in> set rs. rv_conn r = c \<and> rv_key r = k \<and> \<not> rv_released r)"
  by (auto simp: held_count_def filter_empty_conv)

lemma foreign_counts_holders:
  assumes "occ_inv st" and "k \<noteq> []"
  shows "fst (getForeignOAuthSessionCount (Some c) (Some k) now st) \<le> card (holders c k (reservations st))"
proof (cases "c = [] \<or> map_of (prune_map now (occupancy st)) c = None")
  case False
  then obtain ss where ss: "map_of (prune_map now (occupancy st)) c = Some ss" "c \<noteq> []" by auto
  have j: "map_ok ss \<and> (\<forall>k l. map_of ss k = Some l \<longrightarrow> 1 \<le> sl_requests l \<and> sl_requests l \<le> held_count c k (reservations st))"
    using inv_prune [OF assms(1), of now] ss by (simp add: occ_inv_def)
  then have i: "map_ok ss" "map_of ss k' = Some l \<Longrightarrow> 0 < held_count c k' (reservations st)" for k' l
    by (blast, meson less_le_trans zero_less_one order_trans)
  let ?f = "filter (\<lambda>(k', l). k' \<noteq> k) ss"
  have "set (map fst ?f) \<subseteq> holders c k (reservations st)"
  proof
    fix x assume "x \<in> set (map fst ?f)"
    then obtain l where "(x, l) \<in> set ss" "x \<noteq> k" by auto
    then show "x \<in> holders c k (reservations st)"
      using i(2) map_ok_nth_unique [OF i(1)] unfolding holders_iff held_pos by blast
  qed
  then have "card (set (map fst ?f)) \<le> card (holders c k (reservations st))" by (rule card_mono [OF finite_holders])
  moreover have "distinct (map fst ?f)" using map_ok_filter [OF i(1)] unfolding map_ok_def .
  then have "card (set (map fst ?f)) = length ?f" using distinct_card [of "map fst ?f"] by simp
  moreover have "fst (getForeignOAuthSessionCount (Some c) (Some k) now st) = length ?f"
    using ss assms(2) by (simp add: getForeignOAuthSessionCount_def Let_def)
  ultimately show ?thesis by simp
qed (auto simp: getForeignOAuthSessionCount_def Let_def)

text \<open>
  C99. No session is counted that has gone: after any sequence of reservations, releases, responses and queries, the
  number of foreign sessions that an account is charged with is at most the number of other session keys that have a
  reservation of it not yet released; and when every reservation has been released, the occupancy is empty.
\<close>

theorem only_holders_are_counted:
  assumes "st = foldl occ_step no_sessions es" and "k \<noteq> []"
  shows "fst (getForeignOAuthSessionCount (Some c) (Some k) now st) \<le> card (holders c k (reservations st)) \<and>
    (list_all rv_released (reservations st) \<longrightarrow> occupancy st = [])"
proof (intro conjI impI)
  have i: "occ_inv st" unfolding assms(1) by (rule occ.run_inv [OF inv_no_sessions])
  then show "fst (getForeignOAuthSessionCount (Some c) (Some k) now st) \<le> card (holders c k (reservations st))"
    using assms(2) by (rule foreign_counts_holders)
  assume released: "list_all rv_released (reservations st)"
  have none: "held_count c k (reservations st) = 0" for c k using released by (auto simp: held_count_def filter_empty_conv list_all_iff)
  show "occupancy st = []"
  proof (rule ccontr)
    assume "occupancy st \<noteq> []"
    then obtain c ss m where "occupancy st = (c, ss) # m" by (cases "occupancy st") auto
    then have "map_of (occupancy st) c = Some ss" by simp
    then have ss: "ss \<noteq> []" "\<And>k l. map_of ss k = Some l \<Longrightarrow> 1 \<le> sl_requests l \<and> sl_requests l \<le> held_count c k (reservations st)"
      using i by (auto simp: occ_inv_def)
    obtain k l ss' where "ss = (k, l) # ss'" using ss(1) by (cases ss) auto
    then show False using ss(2) [of k l] unfolding none by auto
  qed
qed

theorem only_holders_are_counted_witness:
  "occupancy (foldl occ_step no_sessions [Reserve ''acc'' ''s1'' 60000 0, Reserve ''acc'' ''s1'' 60000 5, Respond True 0 [Chunk, Done],
     Release_one 1]) = []"
  using only_holders_are_counted [OF refl, of "''s2''" "''acc''" 10
      "[Reserve ''acc'' ''s1'' 60000 0, Reserve ''acc'' ''s1'' 60000 5, Respond True 0 [Chunk, Done], Release_one 1]"]
  by code_simp

text \<open>
  A lease that ran out is not told from the next one: a request that outlives its lease (ten minutes, if nothing
  is said) releases the reservation of a later request of the same session, whose account then looks unused.
\<close>

lemma late_release_frees_another:
  "fst (getForeignOAuthSessionCount (Some ''acc'') (Some ''other'') 700001
     (foldl occ_step no_sessions [Reserve ''acc'' ''s'' 600000 0, Reserve ''acc'' ''s'' 600000 700000, Release_one 0])) = 0"
  by code_simp

end
