(* ===== verification/QuotaCache.thy ===== *)
theory QuotaCache
  imports QuotaScopes
begin

text \<open>
  The cache of provider quotas: \<open>src/src/domain/quotaCache.ts\<close>, with the snapshots it saves and reads back
  (\<open>src/src/lib/db/quotaSnapshots.ts\<close>).

  \<^item> An entry is known by its connection. \<open>qi_reported\<close> is false where \<open>fractionReported\<close> is. Counts of a window are
    numbers or absent; percentages are rationals.
  \<^item> \<open>date\<close> reads a date; \<open>collate\<close> is \<open>localeCompare\<close>. The order in which the latest snapshots come is not
    specified by the query.
  \<^item> A refresh is split at its await: what the provider answered is an argument. The reset events, the lifting of Codex
    cooldowns and the overlay of the state of Codex children are other components.

  The lemmas: what keeps an account out of selection is recent and true of all its windows, and what a refresh writes.
\<close>

section \<open>Entries\<close>

record quota_info =
  qi_remaining :: rat
  qi_resetAt :: "string option"
  qi_reported :: bool
  qi_displayName :: "string option"
  qi_windowSeconds :: "rat option"

type_synonym quotas = "(string \<times> quota_info) list"

record quota_entry =
  qe_provider :: string
  qe_quotas :: quotas
  qe_fetchedAt :: time
  qe_exhausted :: bool
  qe_nextResetAt :: "string option"

record quota_snapshot =
  sn_provider :: string
  sn_connection :: string
  sn_window :: string
  sn_remaining :: rat
  sn_exhausted :: bool
  sn_resetAt :: "string option"
  sn_createdAt :: time

record quota_cache =
  qc_entries :: "(string \<times> quota_entry) list"
  qc_snapshots :: "quota_snapshot list"
  qc_refreshing :: "string list"
  qc_tickRunning :: bool

definition ACTIVE_TTL_MS :: int where "ACTIVE_TTL_MS = 300000"
definition EXHAUSTED_TTL_MS :: int where "EXHAUSTED_TTL_MS = 300000"
definition EXHAUSTED_REFRESH_MS :: int where "EXHAUSTED_REFRESH_MS = 300000"
definition DEFAULT_QUOTA_THRESHOLD_PERCENT :: rat where "DEFAULT_QUOTA_THRESHOLD_PERCENT = 99"
definition MAX_CONCURRENT_REFRESHES :: nat where "MAX_CONCURRENT_REFRESHES = 5"

definition quotas_exhausted :: "quotas \<Rightarrow> bool" where
  "quotas_exhausted qs \<longleftrightarrow> qs \<noteq> [] \<and> list_all (\<lambda>(k, q). qi_reported q \<and> qi_remaining q \<le> 0) qs"

text \<open>Whether the reset of the entry has passed.\<close>

definition advancedWindowResetAt :: "(string \<Rightarrow> time option) \<Rightarrow> quota_entry \<Rightarrow> time \<Rightarrow> bool" where
  "advancedWindowResetAt date e now =
     (let r = nullish (qe_nextResetAt e) [] in if r = [] then False else case date r of Some ms \<Rightarrow> ms \<le> now | None \<Rightarrow> False)"

definition clampPercent :: "rat \<Rightarrow> rat" where
  "clampPercent v = max 0 (min 100 v)"

definition window_char :: "char \<Rightarrow> bool" where
  "window_char c \<longleftrightarrow> (let n = of_char c :: nat in (97 \<le> n \<and> n \<le> 122) \<or> (48 \<le> n \<and> n \<le> 57))"

text \<open>Runs of other characters become one space.\<close>

fun squeeze :: "bool \<Rightarrow> string \<Rightarrow> string" where
  "squeeze gap [] = []"
| "squeeze gap (c # s) = (if window_char c then c # squeeze False s else if gap then squeeze True s else CHR '' '' # squeeze True s)"

definition normalizeWindowKey :: "string \<Rightarrow> string" where
  "normalizeWindowKey s = trim (squeeze False (toLowerCase s))"

definition resolveQuotaWindow :: "(string \<Rightarrow> string \<Rightarrow> rat) \<Rightarrow> quotas \<Rightarrow> string \<Rightarrow> quota_info option" where
  "resolveQuotaWindow collate qs windowName =
     (case map_of qs windowName of
        Some q \<Rightarrow> Some q
      | None \<Rightarrow>
          (let target = normalizeWindowKey windowName in
           if target = [] then None
           else case find (\<lambda>(k, q). normalizeWindowKey k = target) qs of
                  Some (k, q) \<Rightarrow> Some q
                | None \<Rightarrow> map_option snd (first_of (js_sort (\<lambda>a b. collate (fst a) (fst b))
                            (filter (\<lambda>(k, q). normalizeWindowKey k \<noteq> [] \<and> prefix (target @ '' '') (normalizeWindowKey k)) qs)))))"

fun earliest_reset :: "(string \<Rightarrow> time option) \<Rightarrow> (string \<times> time) option \<Rightarrow> quotas \<Rightarrow> string option" where
  "earliest_reset date acc [] = map_option fst acc"
| "earliest_reset date acc ((k, q) # qs) =
     (let r = nullish (qi_resetAt q) [] in
      if r = [] then earliest_reset date acc qs
      else case date r of
             None \<Rightarrow> earliest_reset date acc qs
           | Some ms \<Rightarrow> earliest_reset date (if (case acc of None \<Rightarrow> True | Some (_, e) \<Rightarrow> ms < e) then Some (r, ms) else acc) qs)"

definition earliestResetAt :: "(string \<Rightarrow> time option) \<Rightarrow> quotas \<Rightarrow> string option" where
  "earliestResetAt date qs = earliest_reset date None qs"

definition quotaSnapshotChanged :: "quota_entry option \<Rightarrow> string \<Rightarrow> rat \<Rightarrow> bool \<Rightarrow> bool" where
  "quotaSnapshotChanged prior windowKey remaining exhausted =
     (case prior of
        None \<Rightarrow> True
      | Some e \<Rightarrow> (case map_of (qe_quotas e) windowKey of
                    None \<Rightarrow> True
                  | Some q \<Rightarrow> qi_remaining q \<noteq> remaining \<or> qe_exhausted e \<noteq> exhausted))"

section \<open>Raw quotas\<close>

definition raw_object :: "json \<Rightarrow> bool" where
  "raw_object q = (case q of JObj _ \<Rightarrow> True | JArr _ \<Rightarrow> True | _ \<Rightarrow> False)"

definition num_field :: "string \<Rightarrow> json \<Rightarrow> rat option" where
  "num_field k q = (case get_prop k q of JNum r \<Rightarrow> Some r | _ \<Rightarrow> None)"

text \<open>\<open>Math.round\<close>.\<close>

definition js_round :: "rat \<Rightarrow> rat" where
  "js_round x = of_int \<lfloor>x + 1 / 2\<rfloor>"

definition raw_remaining :: "json \<Rightarrow> rat" where
  "raw_remaining q =
     (case num_field ''remainingPercentage'' q of
        Some r \<Rightarrow> r
      | None \<Rightarrow> (case num_field ''total'' q of
                   Some tot \<Rightarrow> if tot > 0 then js_round ((tot - nullish (num_field ''used'' q) 0) / tot * 100) else 0
                 | None \<Rightarrow> 0))"

definition raw_reset :: "json \<Rightarrow> string option" where
  "raw_reset q = (case get_prop ''resetAt'' q of JStr s \<Rightarrow> Some s | _ \<Rightarrow> None)"

definition normalizeQuota :: "json \<Rightarrow> quota_info" where
  "normalizeQuota q =
     \<lparr>qi_remaining = raw_remaining q,
      qi_resetAt = Option.bind (raw_reset q) nonempty,
      qi_reported = (get_prop ''fractionReported'' q \<noteq> JBool False),
      qi_displayName = toTrimmedString (get_prop ''displayName'' q),
      qi_windowSeconds = (case num_field ''windowSeconds'' q of Some w \<Rightarrow> Some w | None \<Rightarrow> num_field ''window_seconds'' q)\<rparr>"

definition raw_windows :: "(string \<times> json) list \<Rightarrow> (string \<times> json) list" where
  "raw_windows raw = filter (\<lambda>(k, q). raw_object q) raw"

definition normalizeQuotas :: "(string \<times> json) list \<Rightarrow> quotas" where
  "normalizeQuotas raw = map_values normalizeQuota (raw_windows raw)"

section \<open>Operations\<close>

definition snapshot_of :: "string \<Rightarrow> string \<Rightarrow> time \<Rightarrow> string \<Rightarrow> json \<Rightarrow> quota_snapshot" where
  "snapshot_of connectionId provider now k q =
     \<lparr>sn_provider = provider, sn_connection = connectionId, sn_window = k, sn_remaining = raw_remaining q,
      sn_exhausted = (raw_remaining q \<le> 0), sn_resetAt = raw_reset q, sn_createdAt = now\<rparr>"

definition setQuotaCache ::
  "(string \<Rightarrow> time option) \<Rightarrow> string \<Rightarrow> string \<Rightarrow> (string \<times> json) list \<Rightarrow> time \<Rightarrow> quota_cache \<Rightarrow> quota_cache" where
  "setQuotaCache date connectionId provider raw now st =
     (let qs = normalizeQuotas raw; exhausted = quotas_exhausted qs; prior = map_of (qc_entries st) connectionId;
          entry = \<lparr>qe_provider = provider, qe_quotas = qs, qe_fetchedAt = now, qe_exhausted = exhausted,
                   qe_nextResetAt = (if exhausted then earliestResetAt date qs else None)\<rparr>;
          rows = map (\<lambda>(k, q). snapshot_of connectionId provider now k q)
                   (filter (\<lambda>(k, q). quotaSnapshotChanged prior k (raw_remaining q) (raw_remaining q \<le> 0)) (raw_windows raw))
      in st\<lparr>qc_entries := map_set connectionId entry (qc_entries st), qc_snapshots := qc_snapshots st @ rows\<rparr>)"

definition getQuotaCache :: "string \<Rightarrow> quota_cache \<Rightarrow> quota_entry option" where
  "getQuotaCache connectionId st = map_of (qc_entries st) connectionId"

text \<open>Of each window of a connection the latest row, by the time of its creation and then by its id.\<close>

definition getLatestQuotaSnapshotsForConnection :: "string \<Rightarrow> quota_snapshot list \<Rightarrow> quota_snapshot list" where
  "getLatestQuotaSnapshotsForConnection connectionId rows =
     (let mine = filter (\<lambda>r. sn_connection r = connectionId) rows
      in map (\<lambda>w. last (sort_key sn_createdAt (filter (\<lambda>r. sn_window r = w) mine))) (remdups (map sn_window mine)))"

definition snapshot_quotas :: "quota_snapshot list \<Rightarrow> quotas" where
  "snapshot_quotas rows =
     foldl (\<lambda>m r. map_set (sn_window r)
              \<lparr>qi_remaining = clampPercent (sn_remaining r), qi_resetAt = sn_resetAt r, qi_reported = True,
               qi_displayName = None, qi_windowSeconds = None\<rparr> m) [] rows"

definition first_nonempty :: "string list \<Rightarrow> string" where
  "first_nonempty xs = nullish (find (\<lambda>s. s \<noteq> []) xs) []"

definition hydrateQuotaCacheFromSnapshots ::
  "(string \<Rightarrow> time option) \<Rightarrow> string \<Rightarrow> time \<Rightarrow> quota_cache \<Rightarrow> quota_entry option \<times> quota_cache" where
  "hydrateQuotaCacheFromSnapshots date connectionId now st =
     (case map_of (qc_entries st) connectionId of
        Some e \<Rightarrow> (Some e, st)
      | None \<Rightarrow>
          (let rows = filter (\<lambda>r. sn_window r \<noteq> []) (getLatestQuotaSnapshotsForConnection connectionId (qc_snapshots st)) in
           if rows = [] then (None, st)
           else let qs = snapshot_quotas rows; exhausted = quotas_exhausted qs; fetched = fold max (map sn_createdAt rows) 0;
                    entry = \<lparr>qe_provider = first_nonempty (map sn_provider rows), qe_quotas = qs,
                             qe_fetchedAt = (if fetched = 0 then now else fetched), qe_exhausted = exhausted,
                             qe_nextResetAt = (if exhausted then earliestResetAt date qs else None)\<rparr>
                in (Some entry, st\<lparr>qc_entries := map_set connectionId entry (qc_entries st)\<rparr>)))"

definition isAccountQuotaExhausted :: "(string \<Rightarrow> time option) \<Rightarrow> string \<Rightarrow> time \<Rightarrow> quota_cache \<Rightarrow> bool \<times> quota_cache" where
  "isAccountQuotaExhausted date connectionId now st =
     (case hydrateQuotaCacheFromSnapshots date connectionId now st of
        (None, st1) \<Rightarrow> (False, st1)
      | (Some e, st1) \<Rightarrow>
          if \<not> qe_exhausted e then (False, st1)
          else if advancedWindowResetAt date e now
               then (False, st1\<lparr>qc_entries := map_set connectionId (e\<lparr>qe_exhausted := False\<rparr>) (qc_entries st1)\<rparr>)
          else if nullish (qe_nextResetAt e) [] = [] \<and> now - qe_fetchedAt e > EXHAUSTED_TTL_MS then (False, st1)
          else (True, st1))"

record window_status =
  ws_remaining :: rat
  ws_used :: rat
  ws_resetAt :: "string option"
  ws_reached :: bool
  ws_displayName :: "string option"
  ws_windowSeconds :: "rat option"

definition window_status_of :: "(string \<Rightarrow> time option) \<Rightarrow> time \<Rightarrow> rat \<Rightarrow> quota_info \<Rightarrow> window_status" where
  "window_status_of date now threshold w =
     (let remaining = clampPercent (qi_remaining w); used = clampPercent (100 - remaining);
          reset = Option.bind (qi_resetAt w) nonempty;
          expired = (case Option.bind reset date of Some ms \<Rightarrow> ms \<le> now | None \<Rightarrow> False)
      in \<lparr>ws_remaining = remaining, ws_used = used, ws_resetAt = (if expired then None else reset),
          ws_reached = (if expired \<or> \<not> qi_reported w then False else if remaining \<le> 0 then True else used \<ge> threshold),
          ws_displayName = qi_displayName w, ws_windowSeconds = qi_windowSeconds w\<rparr>)"

definition getQuotaWindowStatus ::
  "(string \<Rightarrow> time option) \<Rightarrow> (string \<Rightarrow> string \<Rightarrow> rat) \<Rightarrow> string \<Rightarrow> string \<Rightarrow> rat \<Rightarrow> time \<Rightarrow> quota_cache \<Rightarrow> window_status option \<times> quota_cache" where
  "getQuotaWindowStatus date collate connectionId windowName threshold now st =
     (case hydrateQuotaCacheFromSnapshots date connectionId now st of
        (None, st1) \<Rightarrow> (None, st1)
      | (Some e, st1) \<Rightarrow> (map_option (window_status_of date now threshold) (resolveQuotaWindow collate (qe_quotas e) windowName), st1))"

definition window_reached :: "(string \<Rightarrow> time option) \<Rightarrow> (string \<Rightarrow> string \<Rightarrow> rat) \<Rightarrow> time \<Rightarrow> quotas \<Rightarrow> string \<Rightarrow> bool" where
  "window_reached date collate now qs w =
     (case resolveQuotaWindow collate qs w of
        Some q \<Rightarrow> ws_reached (window_status_of date now DEFAULT_QUOTA_THRESHOLD_PERCENT q) | None \<Rightarrow> False)"

text \<open>The scoped answer for a model: the windows it draws on are there, and all of them have reached the threshold.\<close>

definition scoped_exhausted ::
  "(string \<Rightarrow> time option) \<Rightarrow> (string \<Rightarrow> string \<Rightarrow> rat) \<Rightarrow> time \<Rightarrow> quota_entry \<Rightarrow> string option \<Rightarrow> (string list \<Rightarrow> string list) \<Rightarrow> bool" where
  "scoped_exhausted date collate now e model select =
     (if nullish model [] = [] then qe_exhausted e
      else let names = map fst (qe_quotas e)
           in if names = [] then qe_exhausted e
              else let ws = select names in ws \<noteq> [] \<and> list_all (window_reached date collate now (qe_quotas e)) ws)"

definition isAntigravityQuotaExhausted :: "(string \<Rightarrow> time option) \<Rightarrow> (string \<Rightarrow> string \<Rightarrow> rat) \<Rightarrow> time \<Rightarrow> quota_entry \<Rightarrow> string option \<Rightarrow> bool" where
  "isAntigravityQuotaExhausted date collate now e model =
     scoped_exhausted date collate now e model (\<lambda>names. selectAntigravityQuotaWindowNames names model)"

definition isCodexQuotaExhausted :: "(string \<Rightarrow> time option) \<Rightarrow> (string \<Rightarrow> string \<Rightarrow> rat) \<Rightarrow> time \<Rightarrow> quota_entry \<Rightarrow> string option \<Rightarrow> bool" where
  "isCodexQuotaExhausted date collate now e model =
     scoped_exhausted date collate now e model
       (filter (\<lambda>w. case getCodexQuotaWindowFilterForModel model of Some f \<Rightarrow> f w | None \<Rightarrow> False))"

definition isStandardQuotaExhausted :: "quota_entry \<Rightarrow> time \<Rightarrow> bool" where
  "isStandardQuotaExhausted e now =
     (if \<not> qe_exhausted e then False
      else if nullish (qe_nextResetAt e) [] = [] \<and> now - qe_fetchedAt e > EXHAUSTED_TTL_MS then False else True)"

definition isClaudeExtraUsageAllowed :: "string \<Rightarrow> json \<Rightarrow> bool" where
  "isClaudeExtraUsageAllowed provider psd \<longleftrightarrow> provider = ''claude'' \<and> get_prop ''blockExtraUsage'' (asRecord psd) = JBool False"

definition isQuotaExhaustedForRequest ::
  "(string \<Rightarrow> time option) \<Rightarrow> (string \<Rightarrow> string \<Rightarrow> rat) \<Rightarrow> string \<Rightarrow> string \<Rightarrow> string option \<Rightarrow> json \<Rightarrow> time \<Rightarrow> quota_cache \<Rightarrow> bool \<times> quota_cache" where
  "isQuotaExhaustedForRequest date collate connectionId provider model psd now st =
     (if isClaudeExtraUsageAllowed provider psd then (False, st)
      else case hydrateQuotaCacheFromSnapshots date connectionId now st of
             (None, st1) \<Rightarrow> (False, st1)
           | (Some e, st1) \<Rightarrow>
               if advancedWindowResetAt date e now
               then (False, st1\<lparr>qc_entries := map_set connectionId (e\<lparr>qe_exhausted := False\<rparr>) (qc_entries st1)\<rparr>)
               else if provider = ''antigravity'' \<or> provider = ''agy'' then (isAntigravityQuotaExhausted date collate now e model, st1)
               else if provider = ''codex'' then (isCodexQuotaExhausted date collate now e model, st1)
               else (isStandardQuotaExhausted e now, st1))"

definition markAccountExhaustedFrom429 :: "string \<Rightarrow> string \<Rightarrow> time \<Rightarrow> quota_cache \<Rightarrow> quota_cache" where
  "markAccountExhaustedFrom429 connectionId provider now st =
     st\<lparr>qc_entries := map_set connectionId
          \<lparr>qe_provider = provider, qe_quotas = [], qe_fetchedAt = now, qe_exhausted = True, qe_nextResetAt = None\<rparr> (qc_entries st)\<rparr>"

section \<open>Background refresh\<close>

definition needsRefresh :: "(string \<Rightarrow> time option) \<Rightarrow> quota_entry \<Rightarrow> time \<Rightarrow> bool" where
  "needsRefresh date e now =
     (let age = now - qe_fetchedAt e in
      if qe_exhausted e then (if advancedWindowResetAt date e now then True else age \<ge> EXHAUSTED_REFRESH_MS)
      else age \<ge> ACTIVE_TTL_MS)"

definition refresh_begin :: "string \<Rightarrow> quota_cache \<Rightarrow> quota_cache option" where
  "refresh_begin connectionId st =
     (if connectionId \<in> set (qc_refreshing st) then None
      else Some (st\<lparr>qc_refreshing := connectionId # qc_refreshing st\<rparr>))"

datatype refresh_outcome = No_longer_oauth | Usage "(string \<times> json) list" | No_quotas | Refresh_failed

definition refresh_end ::
  "(string \<Rightarrow> time option) \<Rightarrow> string \<Rightarrow> string \<Rightarrow> refresh_outcome \<Rightarrow> time \<Rightarrow> quota_cache \<Rightarrow> quota_cache" where
  "refresh_end date connectionId provider out now st =
     (let st1 = (case out of
            No_longer_oauth \<Rightarrow> st\<lparr>qc_entries := map_del connectionId (qc_entries st)\<rparr>
          | Usage raw \<Rightarrow> setQuotaCache date connectionId provider raw now st
          | _ \<Rightarrow> st)
      in st1\<lparr>qc_refreshing := removeAll connectionId (qc_refreshing st1)\<rparr>)"

function batches :: "nat \<Rightarrow> 'a list \<Rightarrow> 'a list list" where
  "batches n xs = (if xs = [] \<or> n = 0 then [] else take n xs # batches n (drop n xs))"
  by pat_completeness auto
termination
  by (relation "measure (\<lambda>(n, xs). length xs)") auto

declare batches.simps [simp del]

text \<open>The refreshes of a tick, batch after batch; nothing while another tick runs.\<close>

definition backgroundRefreshTick :: "(string \<Rightarrow> time option) \<Rightarrow> time \<Rightarrow> quota_cache \<Rightarrow> string list list \<times> quota_cache" where
  "backgroundRefreshTick date now st =
     (if qc_tickRunning st then ([], st)
      else (batches MAX_CONCURRENT_REFRESHES (map fst (filter (\<lambda>(c, e). needsRefresh date e now) (qc_entries st))), st\<lparr>qc_tickRunning := True\<rparr>))"

definition tick_end :: "quota_cache \<Rightarrow> quota_cache" where
  "tick_end st = st\<lparr>qc_tickRunning := False\<rparr>"

section \<open>Bounds\<close>

lemma clamp_percent_range [simp]: "0 \<le> clampPercent v" "clampPercent v \<le> 100"
  by (simp_all add: clampPercent_def)

lemma status_percent: "ws_remaining (window_status_of date now th w) + ws_used (window_status_of date now th w) = 100"
  by (simp add: window_status_of_def Let_def clampPercent_def min_def max_def)

text \<open>A window whose share was never reported, or whose reset has passed, does not reach any threshold.\<close>

lemma unknown_window_open: "\<not> qi_reported w \<Longrightarrow> \<not> ws_reached (window_status_of date now th w)"
  by (simp add: window_status_of_def Let_def)

lemma batches_concat: "0 < n \<Longrightarrow> concat (batches n xs) = xs \<and> (\<forall>b \<in> set (batches n xs). length b \<le> n)"
proof (induction n xs rule: batches.induct)
  case (1 n xs)
  then show ?case by (cases "xs = []") (simp_all add: batches.simps [of n "[]"] batches.simps [of n xs])
qed

section \<open>What keeps an account out\<close>

text \<open>An exhausted entry knows the earliest reset of its windows, and is empty or exhausted in all of them.\<close>

definition entry_ok :: "(string \<Rightarrow> time option) \<Rightarrow> quota_entry \<Rightarrow> bool" where
  "entry_ok date e \<longleftrightarrow> (qe_exhausted e \<longrightarrow> qe_nextResetAt e = earliestResetAt date (qe_quotas e)
     \<and> (qe_quotas e = [] \<or> quotas_exhausted (qe_quotas e)))"

definition cache_ok :: "(string \<Rightarrow> time option) \<Rightarrow> quota_cache \<Rightarrow> bool" where
  "cache_ok date st \<longleftrightarrow> (\<forall>c e. map_of (qc_entries st) c = Some e \<longrightarrow> entry_ok date e)"

lemma cache_ok_set: "cache_ok date st \<Longrightarrow> entry_ok date e \<Longrightarrow> cache_ok date (st\<lparr>qc_entries := map_set c e (qc_entries st)\<rparr>)"
  by (simp add: cache_ok_def)

lemma cache_ok_entries: "qc_entries st' = qc_entries st \<Longrightarrow> cache_ok date st \<Longrightarrow> cache_ok date st'"
  by (simp add: cache_ok_def)

lemma entry_new:
  "entry_ok date \<lparr>qe_provider = p, qe_quotas = qs, qe_fetchedAt = t, qe_exhausted = quotas_exhausted qs,
     qe_nextResetAt = (if quotas_exhausted qs then earliestResetAt date qs else None)\<rparr>"
  by (simp add: entry_ok_def)

lemma hydrate_ok:
  assumes "cache_ok date st" and "hydrateQuotaCacheFromSnapshots date c now st = (r, st1)"
  shows "cache_ok date st1 \<and> (\<forall>e. r = Some e \<longrightarrow> entry_ok date e \<and> map_of (qc_entries st1) c = Some e)"
proof (cases "map_of (qc_entries st) c")
  case None
  let ?rows = "filter (\<lambda>r. sn_window r \<noteq> []) (getLatestQuotaSnapshotsForConnection c (qc_snapshots st))"
  show ?thesis
  proof (cases "?rows = []")
    case True
    then show ?thesis using assms None by (simp add: hydrateQuotaCacheFromSnapshots_def Let_def)
  next
    case False
    then obtain e where "r = Some e" "entry_ok date e" "st1 = st\<lparr>qc_entries := map_set c e (qc_entries st)\<rparr>"
      using assms(2) None by (auto simp: hydrateQuotaCacheFromSnapshots_def Let_def entry_new)
    then show ?thesis using assms(1) by (simp add: cache_ok_set)
  qed
qed (use assms in \<open>auto simp: hydrateQuotaCacheFromSnapshots_def cache_ok_def\<close>)

lemma set_ok: "cache_ok date st \<Longrightarrow> cache_ok date (setQuotaCache date c p raw now st)"
  by (auto simp: setQuotaCache_def Let_def cache_ok_def entry_ok_def)

lemma mark_ok: "cache_ok date st \<Longrightarrow> cache_ok date (markAccountExhaustedFrom429 c p now st)"
  by (auto simp: markAccountExhaustedFrom429_def cache_ok_def entry_ok_def earliestResetAt_def)

lemma account_ok: "cache_ok date st \<Longrightarrow> cache_ok date (snd (isAccountQuotaExhausted date c now st))"
  using hydrate_ok [of date st c now]
  by (auto simp: isAccountQuotaExhausted_def cache_ok_set entry_ok_def split: prod.splits option.splits)

lemma request_ok: "cache_ok date st \<Longrightarrow> cache_ok date (snd (isQuotaExhaustedForRequest date collate c p m psd now st))"
  using hydrate_ok [of date st c now]
  by (auto simp: isQuotaExhaustedForRequest_def cache_ok_set entry_ok_def split: prod.splits option.splits)

lemma status_ok: "cache_ok date st \<Longrightarrow> cache_ok date (snd (getQuotaWindowStatus date collate c w th now st))"
  using hydrate_ok [of date st c now] by (auto simp: getQuotaWindowStatus_def split: prod.splits option.splits)

lemma refresh_ok: "cache_ok date st \<Longrightarrow> cache_ok date (refresh_end date c p out now st)"
  using set_ok [of date st c p _ now] by (cases out) (auto simp: refresh_end_def Let_def cache_ok_def)

datatype quota_op =
    Set_quota string string "(string \<times> json) list" | Mark429 string string | Asked string | Asked_for string string "string option" json
  | Status string string rat | Refresh_begins string | Refresh_ends string string refresh_outcome | Tick | Tick_ends

fun quota_step :: "(string \<Rightarrow> time option) \<Rightarrow> (string \<Rightarrow> string \<Rightarrow> rat) \<Rightarrow> quota_cache \<Rightarrow> time \<times> quota_op \<Rightarrow> quota_cache" where
  "quota_step date collate st (now, Set_quota c p raw) = setQuotaCache date c p raw now st"
| "quota_step date collate st (now, Mark429 c p) = markAccountExhaustedFrom429 c p now st"
| "quota_step date collate st (now, Asked c) = snd (isAccountQuotaExhausted date c now st)"
| "quota_step date collate st (now, Asked_for c p m psd) = snd (isQuotaExhaustedForRequest date collate c p m psd now st)"
| "quota_step date collate st (now, Status c w th) = snd (getQuotaWindowStatus date collate c w th now st)"
| "quota_step date collate st (now, Refresh_begins c) = nullish (refresh_begin c st) st"
| "quota_step date collate st (now, Refresh_ends c p out) = refresh_end date c p out now st"
| "quota_step date collate st (now, Tick) = snd (backgroundRefreshTick date now st)"
| "quota_step date collate st (now, Tick_ends) = tick_end st"

interpretation quota_machine: machine "quota_step date collate" "cache_ok date" for date collate
proof
  fix st e assume ok: "cache_ok date st"
  show "cache_ok date (quota_step date collate st e)"
    by (cases "(date, collate, st, e)" rule: quota_step.cases)
      (use ok in \<open>auto simp: set_ok mark_ok account_ok request_ok status_ok refresh_ok refresh_begin_def tick_end_def
        backgroundRefreshTick_def nullish_def intro: cache_ok_entries [of _ st] split: option.splits\<close>)
qed

definition empty_cache :: quota_cache where
  "empty_cache = \<lparr>qc_entries = [], qc_snapshots = [], qc_refreshing = [], qc_tickRunning = False\<rparr>"

text \<open>The text and the instant of the reset of a window, where it has one that reads.\<close>

definition reset_of :: "(string \<Rightarrow> time option) \<Rightarrow> quota_info \<Rightarrow> (string \<times> time) option" where
  "reset_of date q = (let r = nullish (qi_resetAt q) [] in if r = [] then None else map_option (Pair r) (date r))"

definition sooner :: "'a \<times> time \<Rightarrow> ('a \<times> time) option \<Rightarrow> ('a \<times> time) option" where
  "sooner x acc = (if (case acc of None \<Rightarrow> True | Some (_, e) \<Rightarrow> snd x < e) then Some x else acc)"

lemma earliest_fold:
  "earliest_reset date acc qs = map_option fst (fold sooner (List.map_filter (\<lambda>(k, q). reset_of date q) qs) acc)"
proof (induction date acc qs rule: earliest_reset.induct)
  case (2 date acc k q qs)
  show ?case
  proof (cases "reset_of date q")
    case None
    then have "earliest_reset date acc ((k, q) # qs) = earliest_reset date acc qs"
      by (auto simp: reset_of_def Let_def split: if_splits)
    moreover have "nullish (qi_resetAt q) [] = [] \<or> date (nullish (qi_resetAt q) []) = None"
      using None by (auto simp: reset_of_def Let_def split: if_splits)
    then have "earliest_reset date acc qs = map_option fst (fold sooner (List.map_filter (\<lambda>(k, q). reset_of date q) qs) acc)"
      using 2(1) [OF refl] 2(2) [OF refl] by blast
    ultimately show ?thesis using None by (simp add: map_filter_simps del: earliest_reset.simps)
  next
    case (Some x)
    then have x: "nullish (qi_resetAt q) [] \<noteq> []" "date (fst x) = Some (snd x)" "fst x = nullish (qi_resetAt q) []"
      by (auto simp: reset_of_def Let_def split: if_splits)
    have e: "(if case acc of None \<Rightarrow> True | Some (_, e) \<Rightarrow> snd x < e then Some (nullish (qi_resetAt q) [], snd x) else acc) = sooner x acc"
      using x(3) [symmetric] by (simp add: sooner_def)
    have "earliest_reset date acc ((k, q) # qs) = earliest_reset date (sooner x acc) qs"
      unfolding e [symmetric] using x by (simp add: Let_def)
    moreover have "earliest_reset date (sooner x acc) qs = map_option fst (fold sooner (List.map_filter (\<lambda>(k, q). reset_of date q) qs) (sooner x acc))"
      unfolding e [symmetric] using x by (intro 2(3)) simp_all
    ultimately show ?thesis using Some by (simp add: map_filter_simps)
  qed
qed (simp add: map_filter_simps)

lemma fold_sooner:
  "case fold sooner xs acc of
     None \<Rightarrow> xs = [] \<and> acc = None
   | Some y \<Rightarrow> (y \<in> set xs \<or> acc = Some y) \<and> (\<forall>x \<in> set xs. snd y \<le> snd x) \<and> (\<forall>x. acc = Some x \<longrightarrow> snd y \<le> snd x)"
proof (induction xs arbitrary: acc)
  case (Cons x xs)
  have "sooner x acc \<noteq> None" by (auto simp: sooner_def split: option.splits)
  then obtain z where z: "sooner x acc = Some z" by auto
  then have "z = x \<and> (\<forall>y. acc = Some y \<longrightarrow> snd x \<le> snd y) \<or> acc = Some z \<and> snd z \<le> snd x"
    by (auto simp: sooner_def split: option.splits if_splits)
  then show ?case using Cons [of "Some z"] z by (auto split: option.splits)
qed (simp split: option.split)

lemma earliest_is_least:
  "case earliestResetAt date qs of
     None \<Rightarrow> \<forall>(k, q) \<in> set qs. reset_of date q = None
   | Some s \<Rightarrow> s \<noteq> [] \<and> (\<exists>ms. date s = Some ms \<and> (\<forall>(k, q) \<in> set qs. \<forall>x t. reset_of date q = Some (x, t) \<longrightarrow> ms \<le> t))"
proof -
  let ?xs = "List.map_filter (\<lambda>(k, q). reset_of date q) qs"
  have mem: "(k, q) \<in> set qs \<Longrightarrow> reset_of date q = Some x \<Longrightarrow> x \<in> set ?xs" for k q x by (force simp: List.map_filter_def)
  have r: "x \<in> set ?xs \<Longrightarrow> fst x \<noteq> [] \<and> date (fst x) = Some (snd x)" for x
    by (auto simp: List.map_filter_def reset_of_def Let_def split: if_splits)
  show ?thesis
  proof (cases "fold sooner ?xs None")
    case None
    then have "?xs = []" using fold_sooner [of ?xs None] by simp
    then have "reset_of date q = None" if "(k, q) \<in> set qs" for k q using mem [OF that] by (cases "reset_of date q") auto
    then have "\<forall>(k, q) \<in> set qs. reset_of date q = None" by blast
    then show ?thesis using None by (simp add: earliestResetAt_def earliest_fold)
  next
    case (Some y)
    then have y: "y \<in> set ?xs" "\<forall>x \<in> set ?xs. snd y \<le> snd x" using fold_sooner [of ?xs None] by auto
    have "snd y \<le> t" if "(k, q) \<in> set qs" "reset_of date q = Some (x, t)" for k q x t
      using bspec [OF y(2) mem [OF that]] by simp
    then have "\<forall>(k, q) \<in> set qs. \<forall>x t. reset_of date q = Some (x, t) \<longrightarrow> snd y \<le> t" by blast
    then show ?thesis using Some r [OF y(1)] by (simp add: earliestResetAt_def earliest_fold)
  qed
qed

text \<open>Why an account counts as exhausted at a time.\<close>

definition exhausted_now :: "(string \<Rightarrow> time option) \<Rightarrow> time \<Rightarrow> quota_entry \<Rightarrow> bool" where
  "exhausted_now date now e \<longleftrightarrow>
     (\<forall>(k, q) \<in> set (qe_quotas e). qi_reported q \<and> qi_remaining q \<le> 0 \<and> (\<forall>x t. reset_of date q = Some (x, t) \<longrightarrow> now < t))
     \<and> ((\<forall>(k, q) \<in> set (qe_quotas e). reset_of date q = None) \<longrightarrow> now \<le> qe_fetchedAt e + EXHAUSTED_TTL_MS)"

lemma exhausted_reason:
  assumes "entry_ok date e" and "qe_exhausted e" and "\<not> advancedWindowResetAt date e now"
    and "nullish (qe_nextResetAt e) [] = [] \<longrightarrow> now - qe_fetchedAt e \<le> EXHAUSTED_TTL_MS"
  shows "exhausted_now date now e"
proof -
  have e: "qe_nextResetAt e = earliestResetAt date (qe_quotas e)" "qe_quotas e = [] \<or> quotas_exhausted (qe_quotas e)"
    using assms(1,2) by (simp_all add: entry_ok_def)
  have zero: "\<forall>(k, q) \<in> set (qe_quotas e). qi_reported q \<and> qi_remaining q \<le> 0"
    using e(2) by (auto simp: quotas_exhausted_def list_all_iff)
  note least = earliest_is_least [of "qe_quotas e" date]
  show ?thesis
  proof (cases "earliestResetAt date (qe_quotas e)")
    case None
    then have "\<forall>(k, q) \<in> set (qe_quotas e). reset_of date q = None" "now \<le> qe_fetchedAt e + EXHAUSTED_TTL_MS"
      using least e(1) assms(4) by simp_all
    then show ?thesis using zero by (fastforce simp: exhausted_now_def)
  next
    case (Some s)
    then obtain ms where ms: "s \<noteq> []" "date s = Some ms"
        "\<forall>(k, q) \<in> set (qe_quotas e). \<forall>x t. reset_of date q = Some (x, t) \<longrightarrow> ms \<le> t" using least by auto
    have "now < ms" using assms(3) Some ms(1,2) e(1) by (simp add: advancedWindowResetAt_def Let_def)
    then have "now < t" if "(k, q) \<in> set (qe_quotas e)" "reset_of date q = Some (x, t)" for k q x t
      using bspec [OF ms(3) that(1)] that(2) by fastforce
    then have a: "\<forall>(k, q) \<in> set (qe_quotas e). qi_reported q \<and> qi_remaining q \<le> 0 \<and> (\<forall>x t. reset_of date q = Some (x, t) \<longrightarrow> now < t)"
      using zero by blast
    have b: "\<not> (\<forall>(k, q) \<in> set (qe_quotas e). reset_of date q = None)"
    proof
      assume "\<forall>(k, q) \<in> set (qe_quotas e). reset_of date q = None"
      then have "List.map_filter (\<lambda>(k, q). reset_of date q) (qe_quotas e) = []"
        by (auto simp: List.map_filter_def filter_empty_conv)
      then show False using Some by (simp add: earliestResetAt_def earliest_fold)
    qed
    show ?thesis unfolding exhausted_now_def using a b by blast
  qed
qed

text \<open>
  C99. No account is held exhausted past its time: whatever quotas were stored, whatever 429 answers, queries and
  refreshes came before, when \<open>isAccountQuotaExhausted\<close> says that an account is exhausted, then every window of its
  entry was reported to be at zero and has not been reset yet, and if no reset is known, the entry is at most five
  minutes old.
\<close>

theorem exhaustion_is_current:
  assumes "st = foldl (quota_step date collate) empty_cache ops" and "isAccountQuotaExhausted date c now st = (True, st')"
  shows "\<exists>e. getQuotaCache c st' = Some e \<and> exhausted_now date now e"
proof -
  have "cache_ok date empty_cache" by (simp add: cache_ok_def empty_cache_def)
  then have ok: "cache_ok date st" unfolding assms(1) by (rule quota_machine.run_inv)
  obtain r st1 where h: "hydrateQuotaCacheFromSnapshots date c now st = (r, st1)" by fastforce
  then obtain e where e: "r = Some e" "qe_exhausted e" "\<not> advancedWindowResetAt date e now"
      "nullish (qe_nextResetAt e) [] = [] \<longrightarrow> now - qe_fetchedAt e \<le> EXHAUSTED_TTL_MS" "st' = st1"
    using assms(2) by (auto simp: isAccountQuotaExhausted_def split: option.splits if_splits)
  have k: "entry_ok date e" "map_of (qc_entries st1) c = Some e" using hydrate_ok [OF ok h] e(1) by auto
  show ?thesis using exhausted_reason [OF k(1) e(2,3,4)] k(2) e(5) by (auto simp: getQuotaCache_def)
qed

theorem exhaustion_is_current_witness:
  "\<exists>e. getQuotaCache ''acc'' (snd (isAccountQuotaExhausted plain_date ''acc'' 200000
      (foldl (quota_step plain_date (\<lambda>a b. 0)) empty_cache [(1000, Mark429 ''acc'' ''kiro'')]))) = Some e
    \<and> exhausted_now plain_date 200000 e"
proof -
  let ?st = "foldl (quota_step plain_date (\<lambda>a b. 0)) empty_cache [(1000, Mark429 ''acc'' ''kiro'')]"
  have "fst (isAccountQuotaExhausted plain_date ''acc'' 200000 ?st)" by code_simp
  then have "isAccountQuotaExhausted plain_date ''acc'' 200000 ?st = (True, snd (isAccountQuotaExhausted plain_date ''acc'' 200000 ?st))"
    by (cases "isAccountQuotaExhausted plain_date ''acc'' 200000 ?st") simp
  from exhaustion_is_current [OF refl this] show ?thesis .
qed

section \<open>What a refresh writes\<close>

text \<open>
  When a connection reports the very quotas of its last report again, a row is written for exactly the windows whose own
  exhaustion differs from the exhaustion of the connection as a whole.
\<close>

lemma unchanged_report_writes:
  assumes "distinct (map fst raw)" and "map_of (qc_entries st) c = Some e" and "qe_quotas e = normalizeQuotas raw"
    and "qe_exhausted e = quotas_exhausted (normalizeQuotas raw)"
  shows "map sn_window (drop (length (qc_snapshots st)) (qc_snapshots (setQuotaCache date c p raw now st)))
     = map fst (filter (\<lambda>(k, q). (raw_remaining q \<le> 0) \<noteq> qe_exhausted e) (raw_windows raw))"
proof -
  have ok: "map_ok (raw_windows raw)" using assms(1) by (auto simp: raw_windows_def map_ok_def distinct_map_filter)
  have "quotaSnapshotChanged (Some e) k (raw_remaining q) (raw_remaining q \<le> 0) \<longleftrightarrow> (raw_remaining q \<le> 0) \<noteq> qe_exhausted e"
    if "(k, q) \<in> set (raw_windows raw)" for k q
    using that assms(3) map_ok_nth_unique [OF ok that]
    by (auto simp: quotaSnapshotChanged_def normalizeQuotas_def normalizeQuota_def)
  then have "filter (\<lambda>(k, q). quotaSnapshotChanged (Some e) k (raw_remaining q) (raw_remaining q \<le> 0)) (raw_windows raw)
      = filter (\<lambda>(k, q). (raw_remaining q \<le> 0) \<noteq> qe_exhausted e) (raw_windows raw)"
    by (intro filter_cong) auto
  then show ?thesis using assms(2) by (simp add: setQuotaCache_def Let_def snapshot_of_def case_prod_beta comp_def)
qed

definition pct :: "rat \<Rightarrow> json" where
  "pct r = JObj [(''remainingPercentage'', JNum r)]"

text \<open>
  So an account with one exhausted window and another that is not writes a row at every refresh, though nothing changes.
\<close>

lemma idle_account_keeps_writing:
  "map sn_window (qc_snapshots (foldl (quota_step plain_date (\<lambda>a b. 0)) empty_cache
     [(0, Set_quota ''acc'' ''codex'' [(''session'', pct 0), (''weekly'', pct 60)]),
      (300000, Set_quota ''acc'' ''codex'' [(''session'', pct 0), (''weekly'', pct 60)]),
      (600000, Set_quota ''acc'' ''codex'' [(''session'', pct 0), (''weekly'', pct 60)])]))
   = [''session'', ''weekly'', ''session'', ''session'']"
  by code_simp

text \<open>
  A window whose share was never reported does not exhaust an account; but its snapshot says that it is at zero, and
  after a restart the account read back from the snapshots is exhausted.
\<close>

definition unreported :: json where
  "unreported = JObj [(''remainingPercentage'', JNum 0), (''fractionReported'', JBool False)]"

lemma unreported_window_exhausts_after_restart:
  "let st = setQuotaCache plain_date ''acc'' ''antigravity'' [(''gemini_weekly'', unreported)] 1000 empty_cache;
       restarted = empty_cache\<lparr>qc_snapshots := qc_snapshots st\<rparr>
   in \<not> fst (isAccountQuotaExhausted plain_date ''acc'' 2000 st) \<and> fst (isAccountQuotaExhausted plain_date ''acc'' 2000 restarted)"
  by code_simp

end
