(* ===== verification/QuotaPolicy.thy ===== *)
theory QuotaPolicy
  imports QuotaCache
begin

text \<open>
  The quota policy of a connection and the score of the power of two choices: \<open>src/src/sse/services/auth.ts\<close>, lines 172
  to 560.

  \<^item> The quota cache is read as it is at the time of the selection; what a read leaves in it (an entry taken from the
    snapshots, a cleared flag) does not change what later reads at that time answer, and is not threaded here.
  \<^item> The reasons of a block are the windows with their percentages; the messages are not modelled.

  The lemmas: the policy only looks at windows that count, the time to retry is the earliest that lies ahead, and an
  exhausted account never wins against another.
\<close>

section \<open>Status\<close>

definition normalizeStatus :: "string option \<Rightarrow> string" where
  "normalizeStatus value = toLowerCase (trim (nullish value []))"

definition isTerminalConnectionStatus :: "connection \<Rightarrow> bool" where
  "isTerminalConnectionStatus c =
     (let status = normalizeStatus (c_testStatus c)
      in status = ''credits_exhausted'' \<or> status = ''banned'' \<or> status = ''expired'')"

text \<open>\<open>isFree\<close> is \<open>isFreeModel\<close> for OpenRouter.\<close>

definition isTerminalConnectionStatusForModel :: "(string \<Rightarrow> bool) \<Rightarrow> connection \<Rightarrow> string \<Rightarrow> string option \<Rightarrow> bool" where
  "isTerminalConnectionStatusForModel isFree c provider requestedModel =
     (if \<not> isTerminalConnectionStatus c then False
      else if provider = ''openrouter'' \<and> normalizeStatus (c_testStatus c) = ''credits_exhausted''
              \<and> nullish requestedModel [] \<noteq> [] \<and> isFree (nullish requestedModel []) then False
      else True)"

section \<open>Quota policy\<close>

definition toBooleanOrDefault :: "json \<Rightarrow> bool \<Rightarrow> bool" where
  "toBooleanOrDefault value fallback = (case value of JBool b \<Rightarrow> b | _ \<Rightarrow> fallback)"

text \<open>\<open>use5h\<close> and \<open>useWeekly\<close>.\<close>

definition getCodexLimitPolicy :: "json \<Rightarrow> bool \<times> bool" where
  "getCodexLimitPolicy psd =
     (let policy = asRecord (get_prop ''codexLimitPolicy'' psd)
      in (toBooleanOrDefault (get_prop ''use5h'' policy) True, toBooleanOrDefault (get_prop ''useWeekly'' policy) True))"

record quota_limit_policy =
  lp_enabled :: bool
  lp_threshold :: rat
  lp_windows :: "string list"

definition normalizeQuotaThreshold :: "json \<Rightarrow> rat" where
  "normalizeQuotaThreshold value = min 100 (max 1 (toNumber value DEFAULT_QUOTA_THRESHOLD_PERCENT))"

definition normalizeWindowName :: "json \<Rightarrow> string option" where
  "normalizeWindowName w = (case w of JStr s \<Rightarrow> nonempty (toLowerCase (trim s)) | _ \<Rightarrow> None)"

definition uniqueWindows :: "string list \<Rightarrow> string list" where
  "uniqueWindows ws = rev (remdups (rev ws))"

definition normalizeCodexWindowName :: "string \<Rightarrow> string" where
  "normalizeCodexWindowName windowName =
     (let n = toLowerCase (trim windowName)
      in if n = ''session (5h)'' \<or> n = ''5h'' \<or> n = ''five_hour'' then ''session''
         else if n = ''weekly (7d)'' \<or> n = ''7d'' \<or> n = ''seven_day'' then ''weekly''
         else toCodexBaseQuotaWindowName n)"

definition applyCodexWindowPolicy :: "string list \<Rightarrow> json \<Rightarrow> string list" where
  "applyCodexWindowPolicy rawWindows psd =
     (let (use5h, useWeekly) = getCodexLimitPolicy psd;
          normalizedRaw = filter (\<lambda>w. w \<noteq> []) (map normalizeCodexWindowName rawWindows);
          windows1 = filter (\<lambda>w. if w = ''session'' then use5h else if w = ''weekly'' then useWeekly else True) normalizedRaw
      in uniqueWindows (windows1 @ (if use5h then [''session''] else []) @ (if useWeekly then [''weekly''] else [])))"

definition resolveQuotaLimitPolicy :: "string \<Rightarrow> json \<Rightarrow> quota_limit_policy" where
  "resolveQuotaLimitPolicy provider psd =
     (let rawPolicy = asRecord (get_prop ''limitPolicy'' psd);
          rawWindows = (case get_prop ''windows'' rawPolicy of JArr xs \<Rightarrow> xs | _ \<Rightarrow> []);
          ws = List.map_filter normalizeWindowName rawWindows;
          threshold = normalizeQuotaThreshold (get_prop ''thresholdPercent'' rawPolicy)
      in if provider = ''codex''
         then let ws' = applyCodexWindowPolicy ws psd
              in \<lparr>lp_enabled = toBooleanOrDefault (get_prop ''enabled'' rawPolicy) (ws' \<noteq> []), lp_threshold = threshold, lp_windows = ws'\<rparr>
         else \<lparr>lp_enabled = toBooleanOrDefault (get_prop ''enabled'' rawPolicy) False, lp_threshold = threshold, lp_windows = ws\<rparr>)"

definition parseFutureDateMs :: "(string \<Rightarrow> time option) \<Rightarrow> time \<Rightarrow> string option \<Rightarrow> rat option" where
  "parseFutureDateMs date now value =
     (if nullish value [] = [] then None
      else case cooldownUntilMs date value of Some ms \<Rightarrow> if ms \<le> of_int now then None else Some ms | None \<Rightarrow> None)"

definition future_dates :: "(string \<Rightarrow> time option) \<Rightarrow> time \<Rightarrow> string option list \<Rightarrow> (string \<times> rat) list" where
  "future_dates date now candidates =
     List.map_filter (\<lambda>v. map_option (Pair (nullish v [])) (parseFutureDateMs date now v)) candidates"

definition getEarliestFutureDate :: "(string \<Rightarrow> time option) \<Rightarrow> time \<Rightarrow> string option list \<Rightarrow> string option" where
  "getEarliestFutureDate date now candidates =
     map_option fst (first_of (js_sort (\<lambda>a b. snd a - snd b) (future_dates date now candidates)))"

record policy_verdict =
  pv_blocked :: bool
  pv_reasons :: "(string \<times> rat) list"
  pv_resetAt :: "string option"

definition quota_status ::
  "(string \<Rightarrow> time option) \<Rightarrow> (string \<Rightarrow> string \<Rightarrow> rat) \<Rightarrow> time \<Rightarrow> quota_cache \<Rightarrow> string \<Rightarrow> string \<Rightarrow> rat \<Rightarrow> window_status option" where
  "quota_status date collate now qc c w threshold = fst (getQuotaWindowStatus date collate c w threshold now qc)"

definition effective_window :: "string \<Rightarrow> string option \<Rightarrow> string \<Rightarrow> string" where
  "effective_window provider model w = (if provider = ''codex'' then toCodexScopedQuotaWindowName w model else w)"

definition evaluateQuotaLimitPolicy ::
  "(string \<Rightarrow> time option) \<Rightarrow> (string \<Rightarrow> string \<Rightarrow> rat) \<Rightarrow> time \<Rightarrow> quota_cache \<Rightarrow> string \<Rightarrow> connection \<Rightarrow> string option \<Rightarrow> policy_verdict" where
  "evaluateQuotaLimitPolicy date collate now qc provider c model =
     (let open_verdict = \<lparr>pv_blocked = False, pv_reasons = [], pv_resetAt = None\<rparr> in
      if isClaudeExtraUsageAllowed provider (c_providerSpecificData c) then open_verdict
      else let policy = resolveQuotaLimitPolicy provider (c_providerSpecificData c)
           in if \<not> lp_enabled policy \<or> lp_windows policy = [] then open_verdict
              else let hits = List.map_filter (\<lambda>w. let e = effective_window provider model w in
                                case quota_status date collate now qc (c_id c) e (lp_threshold policy) of
                                  Some s \<Rightarrow> if ws_reached s then Some (e, s) else None
                                | None \<Rightarrow> None) (lp_windows policy)
                   in \<lparr>pv_blocked = (hits \<noteq> []), pv_reasons = map (\<lambda>(w, s). (w, ws_used s)) hits,
                       pv_resetAt = getEarliestFutureDate date now (map (\<lambda>(w, s). ws_resetAt s) hits)\<rparr>)"

section \<open>Headroom\<close>

definition isResetAtInPast :: "(string \<Rightarrow> time option) \<Rightarrow> time \<Rightarrow> string option \<Rightarrow> bool" where
  "isResetAtInPast date now r = (if nullish r [] = [] then False else case date (nullish r []) of Some ms \<Rightarrow> ms \<le> now | None \<Rightarrow> False)"

fun policy_percentages ::
  "(string \<Rightarrow> time option) \<Rightarrow> (string \<Rightarrow> string \<Rightarrow> rat) \<Rightarrow> time \<Rightarrow> quota_cache \<Rightarrow> string \<Rightarrow> string \<Rightarrow> rat \<Rightarrow> string option \<Rightarrow> string list \<Rightarrow> string list \<Rightarrow> rat list" where
  "policy_percentages date collate now qc provider c threshold model seen [] = []"
| "policy_percentages date collate now qc provider c threshold model seen (w # ws) =
     (case normalizeWindowName (JStr (effective_window provider model w)) of
        None \<Rightarrow> policy_percentages date collate now qc provider c threshold model seen ws
      | Some n \<Rightarrow>
          if n \<in> set seen then policy_percentages date collate now qc provider c threshold model seen ws
          else (case quota_status date collate now qc c n threshold of Some s \<Rightarrow> [clampPercent (ws_remaining s)] | None \<Rightarrow> [])
               @ policy_percentages date collate now qc provider c threshold model (n # seen) ws)"

definition collectPolicyQuotaHeadroomPercentages ::
  "(string \<Rightarrow> time option) \<Rightarrow> (string \<Rightarrow> string \<Rightarrow> rat) \<Rightarrow> time \<Rightarrow> quota_cache \<Rightarrow> string \<Rightarrow> connection \<Rightarrow> quota_limit_policy \<Rightarrow> string option \<Rightarrow> rat list" where
  "collectPolicyQuotaHeadroomPercentages date collate now qc provider c policy model =
     policy_percentages date collate now qc provider (c_id c) (lp_threshold policy) model [] (lp_windows policy)"

definition collectCachedQuotaHeadroomPercentages ::
  "(string \<Rightarrow> time option) \<Rightarrow> time \<Rightarrow> quota_cache \<Rightarrow> string \<Rightarrow> connection \<Rightarrow> string option \<Rightarrow> rat list" where
  "collectCachedQuotaHeadroomPercentages date now qc provider c model =
     (let qs = (case getQuotaCache (c_id c) qc of Some e \<Rightarrow> qe_quotas e | None \<Rightarrow> []);
          keep = (if provider = ''codex'' then nullish (getCodexQuotaWindowFilterForModel model) (\<lambda>_. True) else (\<lambda>_. True))
      in map (\<lambda>(k, q). clampPercent (qi_remaining q))
           (filter (\<lambda>(k, q). keep k \<and> \<not> isResetAtInPast date now (if trim (nullish (qi_resetAt q) []) = [] then None else qi_resetAt q)) qs))"

definition getConnectionQuotaHeadroomPercent ::
  "(string \<Rightarrow> time option) \<Rightarrow> (string \<Rightarrow> string \<Rightarrow> rat) \<Rightarrow> time \<Rightarrow> quota_cache \<Rightarrow> string \<Rightarrow> connection \<Rightarrow> string option \<Rightarrow> rat option" where
  "getConnectionQuotaHeadroomPercent date collate now qc provider c model =
     (let policy = resolveQuotaLimitPolicy provider (c_providerSpecificData c);
          p = collectPolicyQuotaHeadroomPercentages date collate now qc provider c policy model;
          ps = (if p \<noteq> [] then p else collectCachedQuotaHeadroomPercentages date now qc provider c model)
      in case ps of [] \<Rightarrow> None | x # xs \<Rightarrow> Some (fold min xs x))"

section \<open>The power of two choices\<close>

definition getConnectionErrorPenalty :: "connection \<Rightarrow> rat" where
  "getConnectionErrorPenalty c =
     (let errorType = normalizeStatus (c_lastErrorType c); errorSource = normalizeStatus (c_lastErrorSource c);
          code = toNumber (c_errorCode c) 0
      in (if nullish (c_lastError c) [] \<noteq> [] then 6 else 0)
         + (if errorType = ''rate_limited'' \<or> errorType = ''quota_exhausted'' \<or> errorType = ''quota'' \<or> code = 429 then 24
            else if code = 401 \<or> code = 403 \<or> errorSource = ''oauth'' then 18
            else if code \<ge> 500 then 10 else 0))"

definition getConnectionRecencyPenalty :: "(string \<Rightarrow> time option) \<Rightarrow> time \<Rightarrow> connection \<Rightarrow> rat" where
  "getConnectionRecencyPenalty date now c =
     (if nullish (c_lastUsedAt c) [] = [] then 0
      else case date (nullish (c_lastUsedAt c) []) of
             None \<Rightarrow> 0
           | Some t \<Rightarrow> (let age = now - t in if age < 15000 then 3 else if age < 60000 then 2 else if age < 300000 then 1 else 0))"

definition quota_penalty :: "bool \<Rightarrow> bool \<Rightarrow> rat option \<Rightarrow> rat" where
  "quota_penalty blocked exhausted headroom =
     (case headroom of
        Some h \<Rightarrow> js_round ((100 - h) / 8) + (if h \<le> 10 then 10 else if h \<le> 25 then 4 else 0)
      | None \<Rightarrow> if \<not> blocked \<and> \<not> exhausted then 4 else 0)"

text \<open>The two verdicts, from the results of this selection or evaluated anew.\<close>

definition quota_verdicts ::
  "(string \<Rightarrow> time option) \<Rightarrow> (string \<Rightarrow> string \<Rightarrow> rat) \<Rightarrow> time \<Rightarrow> quota_cache \<Rightarrow> string \<Rightarrow> connection \<Rightarrow> string option
    \<Rightarrow> (string \<times> bool \<times> bool) list \<Rightarrow> bool \<times> bool" where
  "quota_verdicts date collate now qc provider c model results =
     (case (if c_id c = [] then None else map_of results (c_id c)) of
        Some v \<Rightarrow> v
      | None \<Rightarrow> (pv_blocked (evaluateQuotaLimitPolicy date collate now qc provider c model),
                 fst (isQuotaExhaustedForRequest date collate (c_id c) provider model (c_providerSpecificData c) now qc)))"

definition p2c_score :: "(string \<Rightarrow> time option) \<Rightarrow> time \<Rightarrow> connection \<Rightarrow> bool \<Rightarrow> bool \<Rightarrow> rat option \<Rightarrow> rat" where
  "p2c_score date now c blocked exhausted headroom =
     (if exhausted then 200 else 0) + (if blocked then 80 else 0) + getConnectionErrorPenalty c
     + min 40 (c_backoffLevel c * 8) + quota_penalty blocked exhausted headroom + min 12 (c_consecutiveUseCount c * 2)
     + getConnectionRecencyPenalty date now c + min 6 (max 0 (c_priority c) - 1)"

definition getP2CConnectionScore ::
  "(string \<Rightarrow> time option) \<Rightarrow> (string \<Rightarrow> string \<Rightarrow> rat) \<Rightarrow> time \<Rightarrow> quota_cache \<Rightarrow> string \<Rightarrow> connection \<Rightarrow> string option
    \<Rightarrow> (string \<times> bool \<times> bool) list \<Rightarrow> rat \<times> rat option" where
  "getP2CConnectionScore date collate now qc provider c model results =
     (let (blocked, exhausted) = quota_verdicts date collate now qc provider c model results;
          headroom = getConnectionQuotaHeadroomPercent date collate now qc provider c model
      in (p2c_score date now c blocked exhausted headroom, headroom))"

definition compareP2CConnections ::
  "(string \<Rightarrow> time option) \<Rightarrow> (string \<Rightarrow> string \<Rightarrow> rat) \<Rightarrow> time \<Rightarrow> quota_cache \<Rightarrow> string \<Rightarrow> string option
    \<Rightarrow> (string \<times> bool \<times> bool) list \<Rightarrow> connection \<Rightarrow> connection \<Rightarrow> rat" where
  "compareP2CConnections date collate now qc provider model results a b =
     (let (aScore, aHead) = getP2CConnectionScore date collate now qc provider a model results;
          (bScore, bHead) = getP2CConnectionScore date collate now qc provider b model results
      in if aScore \<noteq> bScore then aScore - bScore
         else if nullish aHead (- 1) \<noteq> nullish bHead (- 1) then nullish bHead (- 1) - nullish aHead (- 1)
         else if num_or (c_priority a) 999 \<noteq> num_or (c_priority b) 999 then num_or (c_priority a) 999 - num_or (c_priority b) 999
         else collate (c_id a) (c_id b))"

section \<open>Lemmas\<close>

lemma parse_future: "parseFutureDateMs date now v = Some m \<Longrightarrow> of_int now < m"
  by (simp add: parseFutureDateMs_def split: if_splits option.splits)

text \<open>The earliest date lies ahead, and no candidate that lies ahead comes before it.\<close>

lemma earliest_future_date:
  assumes "getEarliestFutureDate date now cs = Some r"
  shows "Some r \<in> set cs \<and> (\<exists>m. parseFutureDateMs date now (Some r) = Some m \<and> of_int now < m
    \<and> (\<forall>v \<in> set cs. \<forall>n. parseFutureDateMs date now v = Some n \<longrightarrow> m \<le> n))"
proof -
  obtain x where x: "first_of (js_sort (\<lambda>a b. snd a - snd b) (future_dates date now cs)) = Some x" "r = fst x"
    using assms by (auto simp: getEarliestFutureDate_def)
  then have mem: "x \<in> set (future_dates date now cs)" by (intro first_of_sort_mem)
  then obtain v where v: "v \<in> set cs" "parseFutureDateMs date now v = Some (snd x)" "r = nullish v []"
    using x(2) by (auto simp: future_dates_def mem_map_filter)
  have s: "v = Some r" using v(2,3) by (cases v) (auto simp: parseFutureDateMs_def)
  have "snd x \<le> n" if "w \<in> set cs" "parseFutureDateMs date now w = Some n" for w n
  proof -
    have m: "(nullish w [], n) \<in> set (future_dates date now cs)"
      unfolding future_dates_def mem_map_filter using that by (intro bexI [of _ w]) simp_all
    have "snd x - snd (nullish w [], n) \<le> 0" by (rule by_key.first_is_least [OF _ x(1) m]) simp
    then show ?thesis by (simp only: snd_conv diff_le_0_iff_le)
  qed
  moreover have "of_int now < snd x" using v(2) by (rule parse_future)
  ultimately show ?thesis using v(1,2) unfolding s by blast
qed

lemma fold_min_range: "set (x # xs) \<subseteq> {0..100} \<Longrightarrow> 0 \<le> fold min xs x \<and> fold min xs x \<le> (100 :: rat)"
  by (induction xs arbitrary: x) (auto simp: min_def)

lemma headroom_range:
  assumes "getConnectionQuotaHeadroomPercent date collate now qc provider c model = Some h" shows "0 \<le> h \<and> h \<le> 100"
proof -
  let ?p = "collectPolicyQuotaHeadroomPercentages date collate now qc provider c (resolveQuotaLimitPolicy provider (c_providerSpecificData c)) model"
  let ?ps = "if ?p \<noteq> [] then ?p else collectCachedQuotaHeadroomPercentages date now qc provider c model"
  have "set (policy_percentages date collate now qc provider c' th model seen ws) \<subseteq> {0..100}" for c' th seen ws
    by (induction ws arbitrary: seen) (auto split: option.splits)
  moreover have "set (collectCachedQuotaHeadroomPercentages date now qc provider c model) \<subseteq> {0..100}"
    by (auto simp: collectCachedQuotaHeadroomPercentages_def Let_def)
  ultimately have "set ?ps \<subseteq> {0..100}" by (simp add: collectPolicyQuotaHeadroomPercentages_def)
  moreover have "(case ?ps of [] \<Rightarrow> None | x # xs \<Rightarrow> Some (fold min xs x)) = Some h"
    using assms by (simp only: getConnectionQuotaHeadroomPercent_def Let_def)
  ultimately show ?thesis using fold_min_range by (cases ?ps) auto
qed

lemma js_round_mono: "x \<le> y \<Longrightarrow> js_round x \<le> js_round y"
  by (simp add: js_round_def floor_mono)

lemma quota_penalty_range:
  assumes "\<And>h. headroom = Some h \<Longrightarrow> 0 \<le> h \<and> h \<le> 100"
  shows "0 \<le> quota_penalty b e headroom \<and> quota_penalty b e headroom \<le> 23"
proof (cases headroom)
  case (Some h)
  have r: "js_round 0 = 0" "js_round (25 / 2) = 13" by code_simp+
  have "js_round 0 \<le> js_round ((100 - h) / 8)" "js_round ((100 - h) / 8) \<le> js_round (25 / 2)"
    using assms [OF Some] by (intro js_round_mono; simp)+
  then show ?thesis using Some r by (simp add: quota_penalty_def)
qed (simp add: quota_penalty_def)

text \<open>The score without the two verdicts lies between -1 and 114.\<close>

lemma score_range:
  assumes "0 \<le> c_backoffLevel c" and "0 \<le> c_consecutiveUseCount c" and "\<And>h. headroom = Some h \<Longrightarrow> 0 \<le> h \<and> h \<le> 100"
  shows "(if e then 200 else 0) + (if b then 80 else 0) - 1 \<le> p2c_score date now c b e headroom
    \<and> p2c_score date now c b e headroom \<le> (if e then 200 else 0) + (if b then 80 else 0) + 114"
proof -
  have "0 \<le> getConnectionErrorPenalty c \<and> getConnectionErrorPenalty c \<le> 30" by (simp add: getConnectionErrorPenalty_def Let_def)
  moreover have "0 \<le> getConnectionRecencyPenalty date now c \<and> getConnectionRecencyPenalty date now c \<le> 3"
    by (simp add: getConnectionRecencyPenalty_def Let_def split: option.split)
  moreover have "0 \<le> quota_penalty b e headroom \<and> quota_penalty b e headroom \<le> 23" using assms(3) by (rule quota_penalty_range)
  ultimately show ?thesis using assms(1,2) unfolding p2c_score_def by (auto simp: min_def max_def)
qed

text \<open>
  C99. An exhausted account never wins the comparison: in \<open>compareP2CConnections\<close> a connection whose quota is not exhausted
  comes before one whose quota is, whatever the errors, the backoff, the use, the headroom and the priority of the two,
  and even when the first is blocked by its policy. The weights of the other parts never add up to the 200 of the
  exhaustion.
\<close>

theorem exhausted_never_wins:
  assumes "0 \<le> c_backoffLevel a" and "0 \<le> c_consecutiveUseCount a" and "0 \<le> c_backoffLevel b" and "0 \<le> c_consecutiveUseCount b"
    and "\<not> snd (quota_verdicts date collate now qc provider a model results)"
    and "snd (quota_verdicts date collate now qc provider b model results)"
  shows "compareP2CConnections date collate now qc provider model results a b < 0"
proof -
  let ?v = "\<lambda>c. quota_verdicts date collate now qc provider c model results"
  let ?h = "\<lambda>c. getConnectionQuotaHeadroomPercent date collate now qc provider c model"
  let ?s = "\<lambda>c. p2c_score date now c (fst (?v c)) (snd (?v c)) (?h c)"
  have "?s a \<le> (if snd (?v a) then 200 else 0) + (if fst (?v a) then 80 else 0) + 114"
    using score_range [OF assms(1,2), of "?h a"] headroom_range by blast
  then have a: "?s a \<le> 194" using assms(5) by (simp split: if_splits)
  have "(if snd (?v b) then 200 else 0) + (if fst (?v b) then 80 else 0) - 1 \<le> ?s b"
    using score_range [OF assms(3,4), of "?h b"] headroom_range by blast
  then have b: "199 \<le> ?s b" using assms(6) by (simp split: if_splits)
  have "fst (getP2CConnectionScore date collate now qc provider c model results) = ?s c" for c
    by (simp add: getP2CConnectionScore_def Let_def split: prod.split)
  then have "fst (getP2CConnectionScore date collate now qc provider a model results) < fst (getP2CConnectionScore date collate now qc provider b model results)"
    using a b by simp
  then show ?thesis by (auto simp: compareP2CConnections_def split: prod.split)
qed

theorem exhausted_never_wins_witness:
  "compareP2CConnections plain_date (\<lambda>a b. 0) 0 empty_cache ''kiro'' None [(''a'', True, False), (''b'', False, True)]
     (toProviderConnection (JObj [(''id'', JStr ''a''), (''backoffLevel'', JNum 9), (''errorCode'', JNum 429)]))
     (toProviderConnection (JObj [(''id'', JStr ''b''), (''priority'', JNum 1)])) < 0"
proof -
  let ?a = "toProviderConnection (JObj [(''id'', JStr ''a''), (''backoffLevel'', JNum 9), (''errorCode'', JNum 429)])"
  let ?b = "toProviderConnection (JObj [(''id'', JStr ''b''), (''priority'', JNum 1)])"
  let ?r = "[(''a'', True, False), (''b'', False, True)]"
  have "0 \<le> c_backoffLevel ?a" "0 \<le> c_consecutiveUseCount ?a" "0 \<le> c_backoffLevel ?b" "0 \<le> c_consecutiveUseCount ?b" by code_simp+
  moreover have "\<not> snd (quota_verdicts plain_date (\<lambda>a b. 0) 0 empty_cache ''kiro'' ?a None ?r)"
    "snd (quota_verdicts plain_date (\<lambda>a b. 0) 0 empty_cache ''kiro'' ?b None ?r)" by code_simp+
  ultimately show ?thesis by (rule exhausted_never_wins)
qed

end
