(* ===== verification/PeakHour.thy ===== *)
theory PeakHour
  imports Connections UtcCalendar
begin

text \<open>
  Peak-hour protection: \<open>src/src/lib/providers/peakHourProtection.ts\<close>, windows of the UTC day in which an account is
  left alone.

  \<^item> The text of the end of the protection is the instant it denotes.

  The lemmas: a window that is active stays so until the end that is computed for it, and is over then.
\<close>

section \<open>Configuration\<close>

datatype peak_mode = Block | Avoid

definition PEAK_HOUR_PROTECTION_DAYS :: "string list" where
  "PEAK_HOUR_PROTECTION_DAYS = [''mon'', ''tue'', ''wed'', ''thu'', ''fri'', ''sat'', ''sun'']"

record peak_window =
  pw_id :: "string option"
  pw_name :: "string option"
  pw_days :: "string list option"
  pw_startUtc :: string
  pw_endUtc :: string

record peak_config =
  pc_enabled :: bool
  pc_mode :: peak_mode
  pc_windows :: "peak_window list"

definition DAY_BY_UTC_INDEX :: "string list" where
  "DAY_BY_UTC_INDEX = [''sun'', ''mon'', ''tue'', ''wed'', ''thu'', ''fri'', ''sat'']"

definition MAX_WINDOWS :: nat where "MAX_WINDOWS = 16"

text \<open>The pattern \<open>^(\d{1,2}):(\d{2})$\<close>, and the range of its numbers.\<close>

definition parse_time :: "string \<Rightarrow> int option" where
  "parse_time s =
     (let h = takeWhile is_digit s; rest = dropWhile is_digit s in
      if (length h = 1 \<or> length h = 2) \<and> length rest = 3 \<and> hd rest = CHR '':'' \<and> list_all is_digit (tl rest)
      then let hour = read_digits 0 h; minute = read_digits 0 (tl rest)
           in if hour > 23 \<or> minute > 59 then None else Some (hour * 60 + minute)
      else None)"

definition parseUtcTimeMinutes :: "json \<Rightarrow> int option" where
  "parseUtcTimeMinutes value = (case value of JStr s \<Rightarrow> parse_time (trim s) | _ \<Rightarrow> None)"

definition pad2 :: "int \<Rightarrow> string" where
  "pad2 n = (let d = decimal (nat n) in if length d < 2 then CHR ''0'' # d else d)"

definition formatUtcTimeMinutes :: "int \<Rightarrow> string" where
  "formatUtcTimeMinutes minutes = (let n = minutes mod 1440 in pad2 (n div 60) @ '':'' @ pad2 (n mod 60))"

definition normalizeDays :: "json \<Rightarrow> string list option" where
  "normalizeDays value =
     (case value of
        JArr xs \<Rightarrow>
          (let days = filter (\<lambda>d. d \<in> set PEAK_HOUR_PROTECTION_DAYS) (map (\<lambda>d. case d of JStr s \<Rightarrow> toLowerCase (trim s) | _ \<Rightarrow> []) xs);
               unique = rev (remdups (rev days))
           in if unique \<noteq> [] then Some unique else None)
      | _ \<Rightarrow> None)"

definition normalize_window :: "json \<Rightarrow> peak_window option" where
  "normalize_window entry =
     (let w = asRecord entry in
      case (parseUtcTimeMinutes (get_prop ''startUtc'' w), parseUtcTimeMinutes (get_prop ''endUtc'' w)) of
        (Some s, Some e) \<Rightarrow>
          if s = e then None
          else Some \<lparr>pw_id = map_option (take 80) (toTrimmedString (get_prop ''id'' w)),
                     pw_name = map_option (take 120) (toTrimmedString (get_prop ''name'' w)),
                     pw_days = normalizeDays (get_prop ''days'' w),
                     pw_startUtc = formatUtcTimeMinutes s, pw_endUtc = formatUtcTimeMinutes e\<rparr>
      | _ \<Rightarrow> None)"

definition normalizePeakHourProtection :: "json \<Rightarrow> peak_config option" where
  "normalizePeakHourProtection value =
     (let r = asRecord value; raw = (case get_prop ''windows'' r of JArr xs \<Rightarrow> xs | _ \<Rightarrow> []);
          windows = List.map_filter normalize_window (take MAX_WINDOWS raw);
          enabled = (get_prop ''enabled'' r = JBool True);
          mode = (if get_prop ''mode'' r = JStr ''avoid'' then Avoid else Block)
      in if \<not> enabled \<and> windows = [] then None else Some \<lparr>pc_enabled = enabled, pc_mode = mode, pc_windows = windows\<rparr>)"

definition getPeakHourProtectionConfig :: "json \<Rightarrow> peak_config option" where
  "getPeakHourProtectionConfig psd = normalizePeakHourProtection (get_prop ''peakHourProtection'' (asRecord psd))"

section \<open>Windows\<close>

definition minute_of_day :: "time \<Rightarrow> int" where
  "minute_of_day t = (t mod msPerDay) div 60000"

definition isDayAllowed :: "peak_window \<Rightarrow> time \<Rightarrow> bool" where
  "isDayAllowed w t = (case pw_days w of None \<Rightarrow> True
     | Some ds \<Rightarrow> if ds = [] then True else DAY_BY_UTC_INDEX ! nat (getUTCDay t) \<in> set ds)"

definition windowActiveAt :: "peak_window \<Rightarrow> time \<Rightarrow> bool" where
  "windowActiveAt w t =
     (case (parseUtcTimeMinutes (JStr (pw_startUtc w)), parseUtcTimeMinutes (JStr (pw_endUtc w))) of
        (Some s, Some e) \<Rightarrow>
          if s = e then False
          else let now = minute_of_day t; effectiveDay = (if s > e \<and> now < e then t - 1440 * 60000 else t)
               in if \<not> isDayAllowed w effectiveDay then False
                  else if s < e then now \<ge> s \<and> now < e else now \<ge> s \<or> now < e
      | _ \<Rightarrow> False)"

definition nextWindowEndMs :: "peak_window \<Rightarrow> time \<Rightarrow> time option" where
  "nextWindowEndMs w t =
     (case (parseUtcTimeMinutes (JStr (pw_startUtc w)), parseUtcTimeMinutes (JStr (pw_endUtc w))) of
        (Some s, Some e) \<Rightarrow>
          if s = e then None
          else let midnight = Date_UTC (getUTCFullYear t) (getUTCMonth t) (getUTCDate t) 0 0; now = minute_of_day t;
                   endDayOffset = (if s > e \<and> now \<ge> s then 1 else 0)
               in Some (midnight + (endDayOffset * 1440 + e) * 60000)
      | _ \<Rightarrow> None)"

record peak_state =
  ps_mode :: peak_mode
  ps_retryAfter :: time
  ps_retryAfterSeconds :: int
  ps_window :: peak_window

text \<open>The active windows with their ends.\<close>

definition active_ends :: "peak_window list \<Rightarrow> time \<Rightarrow> (peak_window \<times> time) list" where
  "active_ends ws now =
     List.map_filter (\<lambda>w. case nextWindowEndMs w now of Some e \<Rightarrow> if e > now then Some (w, e) else None | None \<Rightarrow> None)
       (filter (\<lambda>w. windowActiveAt w now) ws)"

text \<open>\<open>None\<close>: the protection is not active.\<close>

definition evaluatePeakHourProtection :: "json \<Rightarrow> time \<Rightarrow> peak_state option" where
  "evaluatePeakHourProtection psd now =
     (case getPeakHourProtectionConfig psd of
        None \<Rightarrow> None
      | Some config \<Rightarrow>
          if \<not> pc_enabled config \<or> pc_windows config = [] then None
          else map_option (\<lambda>(w, e). \<lparr>ps_mode = pc_mode config, ps_retryAfter = e,
                                       ps_retryAfterSeconds = max 1 (ceil_div (e - now) 1000), ps_window = w\<rparr>)
                 (first_of (js_sort (\<lambda>a b. of_int (snd a - snd b)) (active_ends (pc_windows config) now))))"

section \<open>The end of a window\<close>

lemma parse_time_range: "parse_time s = Some m \<Longrightarrow> 0 \<le> m \<and> m < 1440"
proof -
  assume a: "parse_time s = Some m"
  have nonneg: "0 \<le> acc \<Longrightarrow> 0 \<le> read_digits acc s" for acc s
    by (induction s arbitrary: acc) (auto simp: digit_def Let_def split: option.splits if_splits)
  show ?thesis using a nonneg [of 0 "takeWhile is_digit s"] nonneg [of 0 "tl (dropWhile is_digit s)"]
    by (auto simp: parse_time_def Let_def split: if_splits)
qed

lemma parse_range: "parseUtcTimeMinutes v = Some m \<Longrightarrow> 0 \<le> m \<and> m < 1440"
  by (auto simp: parseUtcTimeMinutes_def dest: parse_time_range split: json.splits)

lemma midnight: "0 \<le> t \<Longrightarrow> Date_UTC (getUTCFullYear t) (getUTCMonth t) (getUTCDate t) 0 0 = Day t * msPerDay"
proof -
  assume t: "0 \<le> t"
  then have "0 \<le> Day t" by (simp add: Day_def msPerDay_def pos_imp_zdiv_nonneg_iff)
  from YearFromDay_from_1970 [OF this] have "\<not> getUTCFullYear t \<le> 99" by (simp add: getUTCFullYear_def)
  then show ?thesis
    using MakeDay_date [of "Day t" 0] by (simp add: Date_UTC_def getUTCFullYear_def getUTCMonth_def getUTCDate_def)
qed

lemma day_split: "t = Day t * msPerDay + t mod msPerDay" "0 \<le> t mod msPerDay" "t mod msPerDay < msPerDay"
  by (simp_all add: Day_def msPerDay_def)

lemma parts_of_day:
  assumes "0 \<le> q" and "q < msPerDay"
  shows "Day (d * msPerDay + q) = d" "(d * msPerDay + q) mod msPerDay = q"
  using assms by (simp_all add: Day_def msPerDay_def)

lemma minute_less: "q div 60000 < e \<longleftrightarrow> q < e * 60000" for q e :: int
  using div_bounds [of 60000 q] by auto

lemma isDayAllowed_day: "isDayAllowed w t = isDayAllowed w (Day t * msPerDay)"
proof -
  have "Day (Day t * msPerDay) = Day t" by (simp add: Day_def msPerDay_def)
  then show ?thesis by (simp add: isDayAllowed_def getUTCDay_def split: option.split)
qed

text \<open>Whether a window with the times \<open>s\<close> and \<open>e\<close> is active at the offset \<open>q\<close> of a day.\<close>

lemma active_at:
  assumes p: "parseUtcTimeMinutes (JStr (pw_startUtc w)) = Some s" "parseUtcTimeMinutes (JStr (pw_endUtc w)) = Some e" "s \<noteq> e"
    and q: "0 \<le> q" "q < msPerDay"
  shows "windowActiveAt w (d * msPerDay + q) \<longleftrightarrow>
    isDayAllowed w ((if s > e \<and> q < e * 60000 then d - 1 else d) * msPerDay)
    \<and> (if s < e then s * 60000 \<le> q \<and> q < e * 60000 else s * 60000 \<le> q \<or> q < e * 60000)"
proof -
  have m: "minute_of_day (d * msPerDay + q) = q div 60000" using parts_of_day [OF q] by (simp add: minute_of_day_def)
  have before: "d * msPerDay + q - 1440 * 60000 = (d - 1) * msPerDay + q" by (simp add: msPerDay_def algebra_simps)
  have "isDayAllowed w (x * msPerDay + q) = isDayAllowed w (x * msPerDay)" for x
    using isDayAllowed_day [of w "x * msPerDay + q"] parts_of_day [OF q] by simp
  moreover have "q div 60000 \<ge> s \<longleftrightarrow> s * 60000 \<le> q" using minute_less [of q s] by linarith
  ultimately show ?thesis
    unfolding windowActiveAt_def p Let_def m before using p(3) minute_less [of q e] by simp
qed

text \<open>Of the cases, the active ones with the end that belongs to them.\<close>

lemma window_end_exact:
  assumes "0 \<le> t" and "windowActiveAt w t"
  shows "\<exists>f. nextWindowEndMs w t = Some f \<and> t < f \<and> f \<le> t + msPerDay
    \<and> (\<forall>u. t \<le> u \<and> u < f \<longrightarrow> windowActiveAt w u) \<and> \<not> windowActiveAt w f"
proof -
  obtain s e where p: "parseUtcTimeMinutes (JStr (pw_startUtc w)) = Some s" "parseUtcTimeMinutes (JStr (pw_endUtc w)) = Some e" "s \<noteq> e"
    using assms(2) by (auto simp: windowActiveAt_def split: option.splits if_splits)
  note at = active_at [OF p]
  have r: "0 \<le> s" "s < 1440" "0 \<le> e" "e < 1440" using parse_range p by blast+
  define d q where "d = Day t" and "q = t mod msPerDay"
  have t: "t = d * msPerDay + q" "0 \<le> q" "q < msPerDay" using day_split [of t] by (simp_all add: d_def q_def)
  have m: "minute_of_day t = q div 60000" by (simp add: minute_of_day_def q_def)
  have act: "isDayAllowed w ((if s > e \<and> q < e * 60000 then d - 1 else d) * msPerDay)"
      "if s < e then s * 60000 \<le> q \<and> q < e * 60000 else s * 60000 \<le> q \<or> q < e * 60000"
    using assms(2) at [OF t(2,3), of d] t(1) by simp_all
  have mid: "Date_UTC (getUTCFullYear t) (getUTCMonth t) (getUTCDate t) 0 0 = d * msPerDay" using midnight [OF assms(1)] by (simp add: d_def)
  have e: "0 \<le> e * 60000" "e * 60000 < msPerDay" using r by (simp_all add: msPerDay_def)
  show ?thesis
  proof (cases "s > e \<and> s * 60000 \<le> q")
    case False
    then have q: "q < e * 60000" using act(2) p(3) by (auto split: if_splits)
    have f: "nextWindowEndMs w t = Some (d * msPerDay + e * 60000)"
      using False p minute_less [of q s] by (auto simp: nextWindowEndMs_def Let_def mid m)
    have on: "windowActiveAt w u" if u: "t \<le> u" "u < d * msPerDay + e * 60000" for u
    proof -
      have "u = d * msPerDay + (u - d * msPerDay)" "0 \<le> u - d * msPerDay" "u - d * msPerDay < msPerDay" using u t e by simp_all
      then show ?thesis using at [of "u - d * msPerDay" d] act q u t p(3) by (auto split: if_splits)
    qed
    have "\<not> windowActiveAt w (d * msPerDay + e * 60000)" using at [OF e, of d] p(3) by auto
    then show ?thesis using f on q t e by (intro exI [of _ "d * msPerDay + e * 60000"]) (simp add: msPerDay_def)
  next
    case True
    then have f: "nextWindowEndMs w t = Some ((d + 1) * msPerDay + e * 60000)"
      using p minute_less [of q s] by (auto simp: nextWindowEndMs_def Let_def mid m msPerDay_def algebra_simps)
    have "\<not> q < e * 60000" using True by linarith
    then have day: "isDayAllowed w (d * msPerDay)" using act(1) by simp
    have on: "windowActiveAt w u" if u: "t \<le> u" "u < (d + 1) * msPerDay + e * 60000" for u
    proof (cases "u < (d + 1) * msPerDay")
      case same: True
      have "u = d * msPerDay + (u - d * msPerDay)" "0 \<le> u - d * msPerDay" "u - d * msPerDay < msPerDay"
        using u t same by (simp_all add: algebra_simps)
      moreover have "\<not> u - d * msPerDay < e * 60000" "s * 60000 \<le> u - d * msPerDay" using True u t by linarith+
      ultimately show ?thesis using at [of "u - d * msPerDay" d] True day by auto
    next
      case False
      have "u = (d + 1) * msPerDay + (u - (d + 1) * msPerDay)" "0 \<le> u - (d + 1) * msPerDay" "u - (d + 1) * msPerDay < msPerDay"
        using u False e by simp_all
      moreover have "u - (d + 1) * msPerDay < e * 60000" using u by simp
      ultimately show ?thesis using at [of "u - (d + 1) * msPerDay" "d + 1"] True day by auto
    qed
    have "\<not> windowActiveAt w ((d + 1) * msPerDay + e * 60000)" using at [OF e, of "d + 1"] True by auto
    moreover have "t < (d + 1) * msPerDay + e * 60000" "(d + 1) * msPerDay + e * 60000 \<le> t + msPerDay"
      using t e True by (simp_all add: algebra_simps) 
    ultimately show ?thesis using f on by blast
  qed
qed

section \<open>The protection\<close>

lemma active_ends_Nil: assumes "0 \<le> t" shows "active_ends ws t = [] \<longleftrightarrow> (\<forall>w \<in> set ws. \<not> windowActiveAt w t)"
proof -
  let ?f = "\<lambda>w. case nextWindowEndMs w t of Some e \<Rightarrow> if e > t then Some (w, e) else None | None \<Rightarrow> None"
  have n: "windowActiveAt w t \<Longrightarrow> ?f w \<noteq> None" for w using window_end_exact [OF assms, of w] by auto
  show ?thesis unfolding active_ends_def map_filter_Nil_iff set_filter using n by blast
qed

lemma evaluate_active:
  assumes "0 \<le> t"
  shows "evaluatePeakHourProtection psd t \<noteq> None \<longleftrightarrow>
    (\<exists>c. getPeakHourProtectionConfig psd = Some c \<and> pc_enabled c \<and> (\<exists>w \<in> set (pc_windows c). windowActiveAt w t))"
proof (cases "getPeakHourProtectionConfig psd")
  case (Some c)
  then show ?thesis
    using active_ends_Nil [OF assms, of "pc_windows c"]
    by (cases "pc_windows c = []") (auto simp: evaluatePeakHourProtection_def simp del: not_None_eq)
qed (simp add: evaluatePeakHourProtection_def)

lemma evaluate_found:
  assumes "0 \<le> t" and "evaluatePeakHourProtection psd t = Some st"
  shows "\<exists>c w. getPeakHourProtectionConfig psd = Some c \<and> pc_enabled c \<and> w \<in> set (pc_windows c) \<and> windowActiveAt w t
    \<and> nextWindowEndMs w t = Some (ps_retryAfter st) \<and> ps_retryAfterSeconds st = max 1 (ceil_div (ps_retryAfter st - t) 1000)"
proof -
  obtain c where c: "getPeakHourProtectionConfig psd = Some c" "pc_enabled c" using evaluate_active [OF assms(1), of psd] assms(2) by auto
  obtain w e where w: "first_of (js_sort (\<lambda>a b. of_int (snd a - snd b)) (active_ends (pc_windows c) t)) = Some (w, e)"
      "ps_retryAfter st = e" "ps_retryAfterSeconds st = max 1 (ceil_div (e - t) 1000)"
    using assms(2) c by (auto simp: evaluatePeakHourProtection_def split: if_splits)
  have "(w, e) \<in> set (active_ends (pc_windows c) t)" by (rule first_of_sort_mem [OF w(1)])
  then show ?thesis using c w by (auto simp: active_ends_def mem_map_filter split: option.splits if_splits)
qed

lemma ceil_seconds: "0 < x \<Longrightarrow> 1000 * (max 1 (ceil_div x 1000) - 1) < x \<and> x \<le> 1000 * max 1 (ceil_div x 1000)"
  using div_bounds [of 1000 "- x"] by (simp add: ceil_div_def max_def)

text \<open>
  C99. The end of a protection is exact: when \<open>evaluatePeakHourProtection\<close> protects an account, the time to retry lies
  ahead, at most a day, the protection lasts without a gap until then, the window that gave it is over at that very
  time, and the seconds to wait are that time rounded up. Windows over midnight and windows of some days included.
\<close>

theorem peak_protection_end:
  assumes "0 \<le> now" and "evaluatePeakHourProtection psd now = Some st"
  shows "now < ps_retryAfter st \<and> ps_retryAfter st \<le> now + msPerDay
    \<and> (\<forall>u. now \<le> u \<and> u < ps_retryAfter st \<longrightarrow> evaluatePeakHourProtection psd u \<noteq> None)
    \<and> 1000 * (ps_retryAfterSeconds st - 1) < ps_retryAfter st - now \<and> ps_retryAfter st - now \<le> 1000 * ps_retryAfterSeconds st"
proof -
  obtain c w where c: "getPeakHourProtectionConfig psd = Some c" "pc_enabled c" "w \<in> set (pc_windows c)" "windowActiveAt w now"
      "nextWindowEndMs w now = Some (ps_retryAfter st)" "ps_retryAfterSeconds st = max 1 (ceil_div (ps_retryAfter st - now) 1000)"
    using evaluate_found [OF assms] by blast
  have e: "now < ps_retryAfter st" "ps_retryAfter st \<le> now + msPerDay" "\<forall>u. now \<le> u \<and> u < ps_retryAfter st \<longrightarrow> windowActiveAt w u"
    using window_end_exact [OF assms(1) c(4)] c(5) by auto
  then have "\<forall>u. now \<le> u \<and> u < ps_retryAfter st \<longrightarrow> evaluatePeakHourProtection psd u \<noteq> None"
    using evaluate_active c(1-3) assms(1) by (metis order_trans)
  then show ?thesis using e ceil_seconds [of "ps_retryAfter st - now"] c(6) by simp
qed

definition peak_json :: "(string \<times> string) list \<Rightarrow> json" where
  "peak_json ws = JObj [(''peakHourProtection'', JObj [(''enabled'', JBool True),
     (''windows'', JArr (map (\<lambda>(s, e). JObj [(''startUtc'', JStr s), (''endUtc'', JStr e)]) ws))])]"

theorem peak_protection_end_witness:
  "map_option ps_retryAfter (evaluatePeakHourProtection (peak_json [(''22:00'', ''06:30'')]) 82800000) = Some 109800000
   \<and> evaluatePeakHourProtection (peak_json [(''22:00'', ''06:30'')]) 109799999 \<noteq> None"
proof -
  have r: "map_option ps_retryAfter (evaluatePeakHourProtection (peak_json [(''22:00'', ''06:30'')]) 82800000) = Some 109800000" by code_simp
  then obtain st where st: "evaluatePeakHourProtection (peak_json [(''22:00'', ''06:30'')]) 82800000 = Some st" "ps_retryAfter st = 109800000" by auto
  have "(0 :: int) \<le> 82800000" by simp
  from peak_protection_end [OF this st(1)] show ?thesis using r st(2) by simp
qed

text \<open>
  Of several active windows the one that ends first gives the time to retry, at which the others still protect the
  account.
\<close>

lemma overlapping_windows_retry_too_early:
  "map_option ps_retryAfter (evaluatePeakHourProtection (peak_json [(''08:00'', ''12:00''), (''09:00'', ''17:00'')]) 36000000) = Some 43200000"
  "map_option ps_retryAfter (evaluatePeakHourProtection (peak_json [(''08:00'', ''12:00''), (''09:00'', ''17:00'')]) 43200000) = Some 61200000"
  by code_simp+

end
