(* ===== verification/Wildcard.thy ===== *)
theory Wildcard
  imports Connections
begin

text \<open>
  Model patterns with wildcards, \<open>src/open-sse/services/wildcardRouter.ts\<close>, and the rules of a connection about
  models, \<open>src/src/domain/connectionModelRules.ts\<close>.

  \<^item> Regular expressions: the fragment that the translated patterns lie in, a sequence of characters, escaped
    characters and dots, each possibly starred. Upper and lower case are those of ASCII.
  \<^item> An alias is its six optional fields; further fields are only passed on.

  The lemmas: the regular expression matches exactly what the pattern describes, with its special characters taken
  literally.
\<close>

section \<open>Regular expressions\<close>

datatype re_atom = Dot | Lit char

datatype re_token = Atom re_atom | Star

fun re_tokens :: "string \<Rightarrow> re_token list" where
  "re_tokens [] = []"
| "re_tokens (c # s) =
     (if c = CHR 0x5C then (case s of [] \<Rightarrow> [] | d # t \<Rightarrow> Atom (Lit d) # re_tokens t)
      else (if c = CHR ''*'' then Star else if c = CHR ''.'' then Atom Dot else Atom (Lit c)) # re_tokens s)"

text \<open>Each atom, and whether it is starred. A star with nothing before it does not occur.\<close>

fun re_items :: "re_token list \<Rightarrow> (re_atom \<times> bool) list" where
  "re_items [] = []"
| "re_items (Star # r) = re_items r"
| "re_items (Atom a # Star # r) = (a, True) # re_items r"
| "re_items (Atom a # r) = (a, False) # re_items r"

definition re_parse :: "string \<Rightarrow> (re_atom \<times> bool) list" where
  "re_parse s = re_items (re_tokens s)"

definition line_end :: "char \<Rightarrow> bool" where
  "line_end c \<longleftrightarrow> c = CHR 0x0A \<or> c = CHR 0x0D"

fun atom_matches :: "re_atom \<Rightarrow> char \<Rightarrow> bool" where
  "atom_matches Dot c \<longleftrightarrow> \<not> line_end c"
| "atom_matches (Lit d) c \<longleftrightarrow> lower_char d = lower_char c"

text \<open>\<open>^...$\<close> with the flag \<open>i\<close>.\<close>

function re_match :: "(re_atom \<times> bool) list \<Rightarrow> string \<Rightarrow> bool" where
  "re_match [] s \<longleftrightarrow> s = []"
| "re_match ((a, False) # r) s \<longleftrightarrow> (case s of [] \<Rightarrow> False | c # t \<Rightarrow> atom_matches a c \<and> re_match r t)"
| "re_match ((a, True) # r) s \<longleftrightarrow> re_match r s \<or> (case s of [] \<Rightarrow> False | c # t \<Rightarrow> atom_matches a c \<and> re_match ((a, True) # r) t)"
  by pat_completeness auto
termination
  by (relation "measure (\<lambda>(r, s). length r + length s)") auto

section \<open>Patterns\<close>

definition special :: "char \<Rightarrow> bool" where
  "special c \<longleftrightarrow> c \<in> set ''.+^${}()|[]'' \<or> c = CHR 0x5C"

definition escape_specials :: "string \<Rightarrow> string" where
  "escape_specials s = concat (map (\<lambda>c. if special c then [CHR 0x5C, c] else [c]) s)"

definition replace_char :: "char \<Rightarrow> string \<Rightarrow> string \<Rightarrow> string" where
  "replace_char c by s = concat (map (\<lambda>d. if d = c then by else [d]) s)"

definition regexStr :: "string \<Rightarrow> string" where
  "regexStr pattern = replace_char CHR ''?'' ''.'' (replace_char CHR ''*'' ''.*'' (escape_specials pattern))"

definition wildcardMatch :: "string \<Rightarrow> string \<Rightarrow> bool" where
  "wildcardMatch model pattern =
     (if model = [] \<or> pattern = [] then False
      else if pattern = ''*'' then True
      else if pattern = model then True
      else re_match (re_parse (regexStr pattern)) model)"

text \<open>\<open>split\<close> at a slash, a star or a question mark.\<close>

fun split_wild :: "string \<Rightarrow> string list" where
  "split_wild [] = [[]]"
| "split_wild (c # s) = (let r = split_wild s in if c \<in> {CHR ''/'', CHR ''*'', CHR ''?''} then [] # r else (c # hd r) # tl r)"

definition getSpecificity :: "string \<Rightarrow> int" where
  "getSpecificity pattern =
     (if pattern = [] then 0
      else sum_list (map (\<lambda>seg. int (length seg) * 10) (split_wild pattern))
           - int (count_list pattern CHR ''*'') * 50 - int (count_list pattern CHR ''?'') * 5 + int (length pattern))"

record wildcard_alias =
  wa_pattern :: "string option"
  wa_alias :: "string option"
  wa_from :: "string option"
  wa_target :: "string option"
  wa_model :: "string option"
  wa_to :: "string option"

definition first_truthy :: "string option list \<Rightarrow> string" where
  "first_truthy xs = (case filter (\<lambda>x. nullish x [] \<noteq> []) xs of Some s # _ \<Rightarrow> s | _ \<Rightarrow> [])"

record resolved_alias =
  ra_pattern :: string
  ra_target :: string
  ra_specificity :: int

text \<open>The fields of the alias are spread over the computed ones.\<close>

definition resolve_one :: "string \<Rightarrow> wildcard_alias \<Rightarrow> resolved_alias option" where
  "resolve_one model a =
     (let pattern = first_truthy [wa_pattern a, wa_alias a, wa_from a]; target = first_truthy [wa_target a, wa_model a, wa_to a]
      in if pattern = [] \<or> target = [] \<or> \<not> wildcardMatch model pattern then None
         else Some \<lparr>ra_pattern = nullish (wa_pattern a) pattern, ra_target = nullish (wa_target a) target,
                    ra_specificity = getSpecificity pattern\<rparr>)"

definition resolveWildcardAlias :: "string \<Rightarrow> wildcard_alias list \<Rightarrow> resolved_alias option" where
  "resolveWildcardAlias model aliases =
     (if model = [] then None
      else first_of (js_sort (\<lambda>a b. of_int (ra_specificity b - ra_specificity a)) (List.map_filter (resolve_one model) aliases)))"

text \<open>Exact aliases: a \<open>Map\<close>, or the own properties of an object.\<close>

datatype exact_aliases = Alias_map "(string \<times> string) list" | Alias_object "(string \<times> string) list"

definition exact_alias :: "exact_aliases \<Rightarrow> string \<Rightarrow> string option" where
  "exact_alias ex model = (case ex of Alias_map m \<Rightarrow> map_of m model
     | Alias_object m \<Rightarrow> (case map_of m model of Some t \<Rightarrow> nonempty t | None \<Rightarrow> None))"

definition resolveModel :: "string \<Rightarrow> exact_aliases \<Rightarrow> wildcard_alias list \<Rightarrow> string" where
  "resolveModel model ex wild =
     (if model = [] then model
      else case exact_alias ex model of
             Some t \<Rightarrow> t
           | None \<Rightarrow> (case resolveWildcardAlias model wild of Some m \<Rightarrow> ra_target m | None \<Rightarrow> model))"

section \<open>Model rules of a connection\<close>

definition normalizePattern :: "json \<Rightarrow> string option" where
  "normalizePattern value =
     (case value of JStr s \<Rightarrow> if trim s = [] \<or> trim s = ''**'' then None else Some (trim s) | _ \<Rightarrow> None)"

definition toPatternList :: "json \<Rightarrow> string list" where
  "toPatternList value =
     (case value of
        JArr xs \<Rightarrow> List.map_filter normalizePattern xs
      | JStr s \<Rightarrow> List.map_filter normalizePattern (map JStr (split_on CHR '','' s))
      | _ \<Rightarrow> [])"

definition remdups_first :: "'a list \<Rightarrow> 'a list" where
  "remdups_first xs = rev (remdups (rev xs))"

definition getModelMatchCandidates :: "string \<Rightarrow> string list" where
  "getModelMatchCandidates modelId =
     (let normalized = trim modelId in
      if normalized = [] then []
      else let ctx = (if drop (length normalized - 4) normalized = ''[1m]'' then take (length normalized - 4) normalized else normalized);
               raw = rev (takeWhile (\<lambda>c. c \<noteq> CHR ''/'') (rev ctx))
           in remdups_first (filter (\<lambda>s. s \<noteq> []) [normalized, ctx, raw]))"

definition normalizeExcludedModelPatterns :: "json \<Rightarrow> string list" where
  "normalizeExcludedModelPatterns value = remdups_first (toPatternList value)"

definition getConnectionExcludedModels :: "json \<Rightarrow> string list" where
  "getConnectionExcludedModels providerSpecificData =
     (let data = asRecord providerSpecificData; v = get_prop ''excludedModels'' data
      in normalizeExcludedModelPatterns (if v = JUndef \<or> v = JNull then get_prop ''excluded_models'' data else v))"

definition isModelExcludedByConnection :: "json \<Rightarrow> json \<Rightarrow> bool" where
  "isModelExcludedByConnection modelId providerSpecificData =
     (case modelId of
        JStr m \<Rightarrow>
          if trim m = [] then False
          else let candidates = getModelMatchCandidates m; excluded = getConnectionExcludedModels providerSpecificData
               in if candidates = [] \<or> excluded = [] then False
                  else list_ex (\<lambda>pattern. list_ex (\<lambda>candidate. wildcardMatch candidate pattern) candidates) excluded
      | _ \<Rightarrow> False)"

text \<open>The connections by their provider data; no list at all is \<open>None\<close>.\<close>

definition hasEligibleConnectionForModel :: "json list option \<Rightarrow> json \<Rightarrow> bool" where
  "hasEligibleConnectionForModel connections modelId =
     (case connections of None \<Rightarrow> False | Some cs \<Rightarrow> list_ex (\<lambda>psd. \<not> isModelExcludedByConnection modelId psd) cs)"

definition isModelAdvertisedByConnection :: "json \<Rightarrow> string list option \<Rightarrow> bool" where
  "isModelAdvertisedByConnection modelId advertised =
     (case advertised of
        None \<Rightarrow> True
      | Some ids \<Rightarrow>
          if ids = [] then True
          else case modelId of
                 JStr m \<Rightarrow> if trim m = [] then True else list_ex (\<lambda>candidate. candidate \<in> set ids) (getModelMatchCandidates m)
               | _ \<Rightarrow> True)"

section \<open>What a pattern describes\<close>

text \<open>A star stands for any characters of a line, a question mark for one, and every other character for itself.\<close>

fun glob :: "string \<Rightarrow> string \<Rightarrow> bool" where
  "glob [] s \<longleftrightarrow> s = []"
| "glob (c # p) s \<longleftrightarrow>
     (if c = CHR ''*'' then \<exists>i \<in> {..length s}. list_all (\<lambda>d. \<not> line_end d) (take i s) \<and> glob p (drop i s)
      else case s of [] \<Rightarrow> False
           | d # t \<Rightarrow> (if c = CHR ''?'' then \<not> line_end d else lower_char c = lower_char d) \<and> glob p t)"

definition glob_item :: "char \<Rightarrow> re_atom \<times> bool" where
  "glob_item c = (if c = CHR ''*'' then (Dot, True) else if c = CHR ''?'' then (Dot, False) else (Lit c, False))"

lemma regexStr_Nil [simp]: "regexStr [] = []"
  by (simp add: regexStr_def replace_char_def escape_specials_def)

lemma regexStr_Cons:
  "regexStr (c # p) = (if c = CHR ''*'' then ''.*'' else if c = CHR ''?'' then ''.'' else if special c then [CHR 0x5C, c] else [c]) @ regexStr p"
  by (auto simp: regexStr_def replace_char_def escape_specials_def special_def)

definition glob_tokens :: "char \<Rightarrow> re_token list" where
  "glob_tokens c = (if c = CHR ''*'' then [Atom Dot, Star] else if c = CHR ''?'' then [Atom Dot] else [Atom (Lit c)])"

lemma glob_tokens_simps:
  "glob_tokens CHR ''*'' = [Atom Dot, Star]" "glob_tokens CHR ''?'' = [Atom Dot]"
  "c \<noteq> CHR ''*'' \<Longrightarrow> c \<noteq> CHR ''?'' \<Longrightarrow> glob_tokens c = [Atom (Lit c)]"
  by (simp_all add: glob_tokens_def)

lemma glob_item_simps:
  "glob_item CHR ''*'' = (Dot, True)" "glob_item CHR ''?'' = (Dot, False)"
  "c \<noteq> CHR ''*'' \<Longrightarrow> c \<noteq> CHR ''?'' \<Longrightarrow> glob_item c = (Lit c, False)"
  by (simp_all add: glob_item_def)

lemma tokens_regex: "re_tokens (regexStr p) = concat (map glob_tokens p)"
proof (induction p)
  case (Cons c p)
  then show ?case by (auto simp: regexStr_Cons glob_tokens_def special_def)
qed (simp add: regexStr_def replace_char_def escape_specials_def)

lemma items_atom: "r = [] \<or> hd r \<noteq> Star \<Longrightarrow> re_items (Atom a # r) = (a, False) # re_items r"
proof (cases r)
  case (Cons x xs)
  assume "r = [] \<or> hd r \<noteq> Star"
  then show ?thesis using Cons by (cases x) auto
qed simp

lemma glob_tokens_head: "concat (map glob_tokens p) = [] \<or> hd (concat (map glob_tokens p)) \<noteq> Star"
  by (cases p) (auto simp: glob_tokens_def)

lemma parse_regex: "re_parse (regexStr p) = map glob_item p"
  unfolding re_parse_def tokens_regex
proof (induction p)
  case (Cons c p)
  note at = items_atom [OF glob_tokens_head [of p]]
  show ?case
    using Cons at by (cases "c = CHR ''*''"; cases "c = CHR ''?''") (simp_all add: glob_tokens_simps glob_item_simps)
qed simp

lemma match_star:
  "re_match ((Dot, True) # r) s \<longleftrightarrow> (\<exists>i \<in> {..length s}. list_all (\<lambda>d. \<not> line_end d) (take i s) \<and> re_match r (drop i s))"
proof (induction s)
  case (Cons c s)
  have split: "(\<exists>i \<in> {..length (c # s)}. P i) \<longleftrightarrow> P 0 \<or> (\<exists>i \<in> {..length s}. P (Suc i))" for P :: "nat \<Rightarrow> bool"
    by (simp add: atMost_Suc_eq_insert_0)
  show ?case unfolding split using Cons by auto
qed simp

lemma match_glob: "re_match (map glob_item p) s = glob p s"
proof (induction p arbitrary: s)
  case (Cons c p)
  show ?case
  proof (cases "c = CHR ''*''")
    case True
    then have "map glob_item (c # p) = (Dot, True) # map glob_item p" by (simp add: glob_item_simps)
    then show ?thesis using True by (simp only: match_star Cons.IH glob.simps simp_thms if_True)
  next
    case False
    then show ?thesis using Cons by (cases "c = CHR ''?''"; cases s) (simp_all add: glob_item_simps)
  qed
qed simp

text \<open>
  C99. A wildcard is a glob: \<open>wildcardMatch\<close>, which translates the pattern into a regular expression, accepts a
  model exactly when neither is empty and the pattern is the star, is the model itself, or describes it letter by
  letter: a star for any run of characters of a line, a question mark for one, every other character for itself up to
  case. In particular no special character of regular expressions keeps its meaning.
\<close>

theorem wildcard_is_glob:
  "wildcardMatch model pattern \<longleftrightarrow> model \<noteq> [] \<and> pattern \<noteq> [] \<and> (pattern = ''*'' \<or> pattern = model \<or> glob pattern model)"
  by (auto simp: wildcardMatch_def parse_regex match_glob)

text \<open>The alias that is taken has the highest specificity of those that match, the first of them in the list.\<close>

interpretation specificity: comparator "\<lambda>a b. of_int (ra_specificity b - ra_specificity a)" "\<lambda>_. True"
  by unfold_locales auto

lemma resolved_is_most_specific:
  assumes "resolveWildcardAlias model aliases = Some r" and "a \<in> set aliases" and "resolve_one model a = Some x"
  shows "ra_specificity x \<le> ra_specificity r"
proof -
  have "x \<in> set (List.map_filter (resolve_one model) aliases)" using assms(2,3) by (force simp: List.map_filter_def)
  then show ?thesis
    using assms(1) specificity.first_is_least [of "List.map_filter (resolve_one model) aliases" r x]
    by (auto simp: resolveWildcardAlias_def split: if_splits)
qed

text \<open>The empty string in \<open>target\<close>, which the choice of the target passes over, comes back with the spread of the alias.\<close>

lemma spread_restores_empty_target:
  "resolveModel ''gpt-5'' (Alias_map [])
     [\<lparr>wa_pattern = Some ''gpt-*'', wa_alias = None, wa_from = None, wa_target = Some [], wa_model = Some ''o3'', wa_to = None\<rparr>] = []"
  by code_simp

end
