(* ===== verification/ConnectionLease.thy ===== *)
theory ConnectionLease
  imports Prelude
begin

text \<open>
  Exclusive leases of connections: \<open>src/src/lib/db/exclusiveConnectionLeases.ts\<close>, over the table of migration
  157, and the policy \<open>src/src/sse/services/exclusiveConnectionLeasePolicy.ts\<close> that selection applies.

  \<^item> The table is the list of its rows in the order of their ids; rows are never deleted. A time stamp, a string
    in ISO format which SQL compares as text, is the millisecond it denotes.
  \<^item> Every operation is one transaction that first expires the leases whose time has passed. A violated unique
    index, or a generation beyond the safe integers, throws and rolls the transaction back.
  \<^item> An owner is known by the hash of its id. \<open>sha256\<close> is the digest of the standard library.

  The lemmas: a connection has one holder; a holder keeps it until its end; an old generation is fenced off for
  ever; the index is never violated; the past does not change.
\<close>

section \<open>The table\<close>

datatype lease_state = ACTIVE | RELEASED | EXPIRED | INVALIDATED

datatype end_reason = AUTHORIZATION_CHANGED | CLIENT_CANCELLED | CONNECTION_INELIGIBLE | HEALTH_OR_COOLDOWN
  | MANAGED_KEY_REVOKED | MODEL_INELIGIBLE | OWNER_EXIT | QUOTA_UNAVAILABLE | TTL_EXPIRED

record lease =
  l_id :: nat
  l_owner :: string
  l_key :: string
  l_provider :: string
  l_conn :: string
  l_generation :: int
  l_state :: lease_state
  l_acquired :: time
  l_renewed :: time
  l_expires :: time
  l_ended :: "time option"
  l_reason :: "end_reason option"

definition DEFAULT_EXCLUSIVE_LEASE_TTL_MS :: int where "DEFAULT_EXCLUSIVE_LEASE_TTL_MS = 120000"
definition MIN_EXCLUSIVE_LEASE_TTL_MS :: int where "MIN_EXCLUSIVE_LEASE_TTL_MS = 1000"
definition MAX_EXCLUSIVE_LEASE_TTL_MS :: int where "MAX_EXCLUSIVE_LEASE_TTL_MS = 1800000"

definition expiry :: "time \<Rightarrow> int option \<Rightarrow> time" where
  "expiry now ttlMs =
     now + min MAX_EXCLUSIVE_LEASE_TTL_MS (max MIN_EXCLUSIVE_LEASE_TTL_MS (nullish ttlMs DEFAULT_EXCLUSIVE_LEASE_TTL_MS))"

definition base64url :: "char \<Rightarrow> bool" where
  "base64url c = (let n = of_char c :: nat in
     (65 \<le> n \<and> n \<le> 90) \<or> (97 \<le> n \<and> n \<le> 122) \<or> (48 \<le> n \<and> n \<le> 57) \<or> n = 95 \<or> n = 45)"

definition LEASE_OWNER_PATTERN :: "string \<Rightarrow> bool" where
  "LEASE_OWNER_PATTERN s \<longleftrightarrow> take 4 s = ''vlo_'' \<and> length s = 47 \<and> list_all base64url (drop 4 s)"

text \<open>\<open>None\<close> is the error it throws.\<close>

definition hashLeaseOwnerId :: "(string \<Rightarrow> string) \<Rightarrow> string \<Rightarrow> string option" where
  "hashLeaseOwnerId sha256 s = (if LEASE_OWNER_PATTERN s then Some (sha256 s) else None)"

definition expire_row :: "time \<Rightarrow> lease \<Rightarrow> lease" where
  "expire_row now r = (if l_state r = ACTIVE \<and> l_expires r \<le> now
     then r\<lparr>l_state := EXPIRED, l_ended := Some now, l_reason := Some TTL_EXPIRED\<rparr> else r)"

definition expire :: "time \<Rightarrow> lease list \<Rightarrow> lease list" where
  "expire now = map (expire_row now)"

definition active_owner :: "string \<Rightarrow> lease list \<Rightarrow> lease option" where
  "active_owner h = find (\<lambda>r. l_state r = ACTIVE \<and> l_owner r = h)"

definition active_conn :: "string \<Rightarrow> lease list \<Rightarrow> lease option" where
  "active_conn c = find (\<lambda>r. l_state r = ACTIVE \<and> l_conn r = c)"

definition historical :: "string \<Rightarrow> int \<Rightarrow> lease list \<Rightarrow> lease option" where
  "historical h g rs = find (\<lambda>r. l_owner r = h \<and> l_generation r = g) (rev rs)"

definition nextGeneration :: "string \<Rightarrow> lease list \<Rightarrow> int option" where
  "nextGeneration h rs =
     (let g = fold max (map l_generation (filter (\<lambda>r. l_owner r = h) rs)) 0 + 1
      in if g > MAX_SAFE_INTEGER \<or> g \<le> 0 then None else Some g)"

definition new_lease :: "string \<Rightarrow> string \<Rightarrow> string \<Rightarrow> string \<Rightarrow> int \<Rightarrow> time \<Rightarrow> int option \<Rightarrow> lease list \<Rightarrow> lease" where
  "new_lease h key prov conn g now ttlMs rs =
     \<lparr>l_id = Suc (length rs), l_owner = h, l_key = key, l_provider = prov, l_conn = conn, l_generation = g, l_state = ACTIVE,
      l_acquired = now, l_renewed = now, l_expires = expiry now ttlMs, l_ended = None, l_reason = None\<rparr>"

text \<open>\<open>None\<close>: a unique index of the active leases is violated.\<close>

definition insert_lease :: "lease \<Rightarrow> lease list \<Rightarrow> lease list option" where
  "insert_lease r rs = (if active_owner (l_owner r) rs = None \<and> active_conn (l_conn r) rs = None then Some (rs @ [r]) else None)"

section \<open>Operations\<close>

datatype lease_result =
    Acquired lease | Reused lease | Transitioned lease | Connection_busy "time option" | Owner_already_active lease
  | Stale_lease | Generation_exhausted

definition conflict :: "string \<Rightarrow> string \<Rightarrow> lease list \<Rightarrow> lease_result" where
  "conflict h conn rs =
     (case active_owner h rs of Some r \<Rightarrow> Owner_already_active r
      | None \<Rightarrow> Connection_busy (map_option l_expires (active_conn conn rs)))"

definition acquire_lease ::
  "string \<Rightarrow> string \<Rightarrow> string \<Rightarrow> string \<Rightarrow> time \<Rightarrow> int option \<Rightarrow> lease list \<Rightarrow> lease_result \<times> lease list" where
  "acquire_lease h key prov conn now ttlMs rs =
     (let rs1 = expire now rs
      in case active_owner h rs1 of
           Some r \<Rightarrow>
             if l_key r \<noteq> key \<or> l_conn r \<noteq> conn then (Owner_already_active r, rs1)
             else let f = (\<lambda>x. if l_id x = l_id r \<and> l_state x = ACTIVE \<and> l_key x = key
                               then x\<lparr>l_renewed := now, l_expires := expiry now ttlMs, l_provider := prov\<rparr> else x)
                  in (Reused (f r), map f rs1)
         | None \<Rightarrow>
             (case active_conn conn rs1 of
                Some r \<Rightarrow> (Connection_busy (Some (l_expires r)), rs1)
              | None \<Rightarrow>
                  (case nextGeneration h rs1 of
                     None \<Rightarrow> (Generation_exhausted, rs)
                   | Some g \<Rightarrow>
                       let r = new_lease h key prov conn g now ttlMs rs1
                       in case insert_lease r rs1 of
                            None \<Rightarrow> (conflict h conn rs, rs)
                          | Some rs2 \<Rightarrow> (Acquired r, rs2))))"

definition transition_lease ::
  "string \<Rightarrow> int \<Rightarrow> string \<Rightarrow> string \<Rightarrow> string \<Rightarrow> end_reason \<Rightarrow> time \<Rightarrow> int option \<Rightarrow> lease list \<Rightarrow> lease_result \<times> lease list" where
  "transition_lease h g key prov conn reason now ttlMs rs =
     (let rs1 = expire now rs
      in case active_owner h rs1 of
           None \<Rightarrow> (Stale_lease, rs1)
         | Some r \<Rightarrow>
             if l_generation r \<noteq> g \<or> l_key r \<noteq> key then (Stale_lease, rs1)
             else if l_conn r = conn then (Reused r, rs1)
             else (case active_conn conn rs1 of
                     Some r' \<Rightarrow> (Connection_busy (Some (l_expires r')), rs1)
                   | None \<Rightarrow>
                       let rs2 = map (\<lambda>x. if l_id x = l_id r \<and> l_state x = ACTIVE
                                         then x\<lparr>l_state := INVALIDATED, l_ended := Some now, l_reason := Some reason\<rparr> else x) rs1;
                           n = new_lease h key prov conn g now ttlMs rs2
                       in case insert_lease n rs2 of
                            None \<Rightarrow> (conflict h conn rs, rs)
                          | Some rs3 \<Rightarrow> (Transitioned n, rs3)))"

text \<open>The common shape of the three updates; the answer is the lease, or \<open>None\<close> for STALE.\<close>

definition update_lease ::
  "string \<Rightarrow> int \<Rightarrow> string \<Rightarrow> time \<Rightarrow> (lease \<Rightarrow> lease) \<Rightarrow> (lease option \<Rightarrow> bool) \<Rightarrow> lease list \<Rightarrow> lease option \<times> lease list" where
  "update_lease h g key now f accept rs =
     (let rs1 = expire now rs;
          hit = (\<lambda>r. l_owner r = h \<and> l_generation r = g \<and> l_key r = key \<and> l_state r = ACTIVE \<and> l_expires r > now);
          changed = (length (filter hit rs1) = 1);
          rs2 = map (\<lambda>r. if hit r then f r else r) rs1;
          row = historical h g rs2
      in (if changed \<or> accept row then row else None, rs2))"

definition invalidate_lease :: "string \<Rightarrow> int \<Rightarrow> string \<Rightarrow> end_reason \<Rightarrow> time \<Rightarrow> lease list \<Rightarrow> lease option \<times> lease list" where
  "invalidate_lease h g key reason now =
     update_lease h g key now (\<lambda>r. r\<lparr>l_state := INVALIDATED, l_ended := Some now, l_reason := Some reason\<rparr>) (\<lambda>_. False)"

definition renew_lease :: "string \<Rightarrow> int \<Rightarrow> string \<Rightarrow> time \<Rightarrow> int option \<Rightarrow> lease list \<Rightarrow> lease option \<times> lease list" where
  "renew_lease h g key now ttlMs =
     update_lease h g key now (\<lambda>r. r\<lparr>l_renewed := now, l_expires := expiry now ttlMs\<rparr>) (\<lambda>_. False)"

definition release_exclusive :: "string \<Rightarrow> int \<Rightarrow> string \<Rightarrow> end_reason option \<Rightarrow> time \<Rightarrow> lease list \<Rightarrow> lease option \<times> lease list" where
  "release_exclusive h g key reason now =
     update_lease h g key now (\<lambda>r. r\<lparr>l_state := RELEASED, l_ended := Some now, l_reason := Some (nullish reason OWNER_EXIT)\<rparr>)
       (\<lambda>row. case row of Some r \<Rightarrow> l_state r = RELEASED \<and> l_key r = key | None \<Rightarrow> False)"

datatype fence = Valid lease | Authorization_mismatch lease | Connection_mismatch lease | Required | Stale_fence

definition assert_fence :: "string \<Rightarrow> int \<Rightarrow> string \<Rightarrow> string \<Rightarrow> time \<Rightarrow> lease list \<Rightarrow> fence \<times> lease list" where
  "assert_fence h g key conn now rs =
     (let rs1 = expire now rs
      in (case active_owner h rs1 of
            None \<Rightarrow> Required
          | Some r \<Rightarrow> if l_generation r \<noteq> g then Stale_fence
                      else if l_key r \<noteq> key then Authorization_mismatch r
                      else if l_conn r = conn then Valid r else Connection_mismatch r, rs1))"

definition active_lease :: "string \<Rightarrow> time \<Rightarrow> lease list \<Rightarrow> lease option \<times> lease list" where
  "active_lease h now rs = (active_owner h (expire now rs), expire now rs)"

definition lease_status :: "string \<Rightarrow> int \<Rightarrow> string \<Rightarrow> time \<Rightarrow> lease list \<Rightarrow> lease option \<times> lease list" where
  "lease_status h g key now rs =
     (let rs1 = expire now rs
      in (find (\<lambda>r. l_owner r = h \<and> l_key r = key \<and> l_generation r = g \<and> l_state r = ACTIVE \<and> l_expires r > now) rs1, rs1))"

text \<open>Owner and expiry of the active leases among some connections, as a \<open>Map\<close> by connection.\<close>

definition lease_occupancy :: "string list \<Rightarrow> time \<Rightarrow> lease list \<Rightarrow> (string \<times> (string \<times> time)) list \<times> lease list" where
  "lease_occupancy conns now rs =
     (let rs1 = expire now rs
      in (foldl (\<lambda>m r. map_set (l_conn r) (l_owner r, l_expires r) m) []
            (filter (\<lambda>r. l_state r = ACTIVE \<and> l_conn r \<in> set conns) rs1), rs1))"

definition isActivelyLeased :: "string \<Rightarrow> time \<Rightarrow> lease list \<Rightarrow> bool \<times> lease list" where
  "isActivelyLeased conn now rs =
     (if conn = [] then (False, rs) else (active_conn conn (expire now rs) \<noteq> None, expire now rs))"

section \<open>The policy of selection\<close>

record lease_context =
  lc_key :: string
  lc_owner :: string
  lc_generation :: int
  lc_acquire :: bool

datatype lease_error = LeaseConnectionMismatch | LeaseFenceStale | LeaseRequired

record 'c lease_policy =
  pol_connections :: "'c list"
  pol_active :: "lease option"
  pol_retryAfter :: "time option"
  pol_error :: "lease_error option"

text \<open>\<open>cid\<close> is the id of a candidate.\<close>

definition applyExclusiveConnectionLeasePolicy ::
  "('c \<Rightarrow> string) \<Rightarrow> 'c list \<Rightarrow> lease_context option \<Rightarrow> string option \<Rightarrow> time \<Rightarrow> lease list \<Rightarrow> 'c lease_policy \<times> lease list" where
  "applyExclusiveConnectionLeasePolicy cid cs ctx forced now rs =
     (let (occ, rs1) = lease_occupancy (map cid cs) now rs
      in case ctx of
           None \<Rightarrow> (\<lparr>pol_connections = filter (\<lambda>c. \<not> map_has (cid c) occ) cs, pol_active = None, pol_retryAfter = None, pol_error = None\<rparr>, rs1)
         | Some l \<Rightarrow>
             let (active, rs2) = active_lease (lc_owner l) now rs1;
                 refuse = (\<lambda>e. (\<lparr>pol_connections = [], pol_active = active, pol_retryAfter = None, pol_error = Some e\<rparr>, rs2))
             in if \<not> lc_acquire l \<and> active = None then refuse LeaseRequired
                else if \<not> lc_acquire l \<and> (case active of Some a \<Rightarrow> l_generation a \<noteq> lc_generation l | None \<Rightarrow> False) then refuse LeaseFenceStale
                else if case active of Some a \<Rightarrow> l_key a \<noteq> lc_key l | None \<Rightarrow> False then refuse LeaseFenceStale
                else let binding = Option.bind active (\<lambda>a. find (\<lambda>c. cid c = l_conn a) cs)
                     in if binding = None \<and> \<not> lc_acquire l \<and> active \<noteq> None \<and> forced \<noteq> None then refuse LeaseConnectionMismatch
                        else let free = filter (\<lambda>c. case map_of occ (cid c) of
                                                      Some (h, t) \<Rightarrow> if h \<noteq> lc_owner l then False else map_option cid binding \<noteq> Some (cid c)
                                                    | None \<Rightarrow> map_option cid binding \<noteq> Some (cid c)) cs;
                                 others = map (\<lambda>(c, h, t). t) (filter (\<lambda>(c, h, t). h \<noteq> lc_owner l) occ)
                             in (\<lparr>pol_connections = (case binding of Some c \<Rightarrow> c # free | None \<Rightarrow> free), pol_active = active,
                                  pol_retryAfter = (case sort others of [] \<Rightarrow> None | t # _ \<Rightarrow> Some t), pol_error = None\<rparr>, rs2))"

text \<open>\<open>Claim_throws\<close>: the error of an exhausted generation.\<close>

datatype claim = Lost "time option" | Stale_claim | Claimed lease | Claim_throws

definition mutateExclusiveConnectionLease ::
  "string \<Rightarrow> string \<Rightarrow> lease option \<Rightarrow> lease_context \<Rightarrow> end_reason \<Rightarrow> time \<Rightarrow> lease list \<Rightarrow> claim \<times> lease list" where
  "mutateExclusiveConnectionLease prov conn active l reason now rs =
     apfst (\<lambda>res. case res of
              Connection_busy t \<Rightarrow> Lost t
            | Stale_lease \<Rightarrow> Stale_claim
            | Owner_already_active r \<Rightarrow> Stale_claim
            | Acquired r \<Rightarrow> Claimed r | Reused r \<Rightarrow> Claimed r | Transitioned r \<Rightarrow> Claimed r
            | Generation_exhausted \<Rightarrow> Claim_throws)
       (case active of
          Some a \<Rightarrow> transition_lease (lc_owner l) (if lc_acquire l then l_generation a else lc_generation l) (lc_key l) prov conn reason now None rs
        | None \<Rightarrow> acquire_lease (lc_owner l) (lc_key l) prov conn now None rs)"

definition invalidateManagedConnectionLease :: "lease_context option \<Rightarrow> end_reason \<Rightarrow> time \<Rightarrow> lease list \<Rightarrow> lease list" where
  "invalidateManagedConnectionLease ctx reason now rs =
     (case ctx of
        Some l \<Rightarrow> if lc_acquire l then rs else snd (invalidate_lease (lc_owner l) (lc_generation l) (lc_key l) reason now rs)
      | None \<Rightarrow> rs)"

section \<open>Runs\<close>

datatype lease_event =
    Acquire string string string string time "int option"
  | Transition string int string string string end_reason time "int option"
  | Renew string int string time "int option"
  | Release string int string "end_reason option" time
  | Invalidate string int string end_reason time
  | Reconcile time

fun lease_step :: "lease list \<Rightarrow> lease_event \<Rightarrow> lease list" where
  "lease_step rs (Acquire h key prov conn now ttl) = snd (acquire_lease h key prov conn now ttl rs)"
| "lease_step rs (Transition h g key prov conn reason now ttl) = snd (transition_lease h g key prov conn reason now ttl rs)"
| "lease_step rs (Renew h g key now ttl) = snd (renew_lease h g key now ttl rs)"
| "lease_step rs (Release h g key reason now) = snd (release_exclusive h g key reason now rs)"
| "lease_step rs (Invalidate h g key reason now) = snd (invalidate_lease h g key reason now rs)"
| "lease_step rs (Reconcile now) = expire now rs"

fun event_owner :: "lease_event \<Rightarrow> string option" where
  "event_owner (Acquire h key prov conn now ttl) = Some h"
| "event_owner (Transition h g key prov conn reason now ttl) = Some h"
| "event_owner (Renew h g key now ttl) = Some h"
| "event_owner (Release h g key reason now) = Some h"
| "event_owner (Invalidate h g key reason now) = Some h"
| "event_owner (Reconcile now) = None"

fun event_time :: "lease_event \<Rightarrow> time" where
  "event_time (Acquire h key prov conn now ttl) = now"
| "event_time (Transition h g key prov conn reason now ttl) = now"
| "event_time (Renew h g key now ttl) = now"
| "event_time (Release h g key reason now) = now"
| "event_time (Invalidate h g key reason now) = now"
| "event_time (Reconcile now) = now"

section \<open>The invariant\<close>

text \<open>
  Ids are distinct; two active leases share neither owner nor connection; and the active lease of an owner has
  its highest generation.
\<close>

definition lease_inv :: "lease list \<Rightarrow> bool" where
  "lease_inv rs \<longleftrightarrow> distinct (map l_id rs) \<and> (\<forall>r \<in> set rs. l_id r \<le> length rs)
     \<and> (\<forall>r \<in> set rs. \<forall>x \<in> set rs. l_state r = ACTIVE \<and> l_state x = ACTIVE \<and> (l_owner r = l_owner x \<or> l_conn r = l_conn x) \<longrightarrow> r = x)
     \<and> (\<forall>r \<in> set rs. \<forall>x \<in> set rs. l_state r = ACTIVE \<and> l_owner x = l_owner r \<longrightarrow> l_generation x \<le> l_generation r)"

text \<open>What every update does to a row: it changes active rows only, and neither who nor what.\<close>

definition upkeep :: "(lease \<Rightarrow> lease) \<Rightarrow> bool" where
  "upkeep f \<longleftrightarrow> (\<forall>r. l_id (f r) = l_id r \<and> l_owner (f r) = l_owner r \<and> l_conn (f r) = l_conn r \<and> l_key (f r) = l_key r
     \<and> l_generation (f r) = l_generation r \<and> (l_state r \<noteq> ACTIVE \<longrightarrow> f r = r))"

lemma upkeep_active: "upkeep f \<Longrightarrow> l_state (f r) = ACTIVE \<Longrightarrow> l_state r = ACTIVE"
  by (metis upkeep_def)

lemma upkeep_if: "upkeep f \<Longrightarrow> upkeep (\<lambda>r. if P r then f r else r)"
  by (simp add: upkeep_def)

lemma upkeep_expire: "upkeep (expire_row now)"
  by (simp add: upkeep_def expire_row_def)

lemma upkeep_comp: "upkeep f \<Longrightarrow> upkeep g \<Longrightarrow> upkeep (f \<circ> g)"
  by (simp add: upkeep_def)

lemma inv_upkeep: assumes f: "upkeep f" and i: "lease_inv rs" shows "lease_inv (map f rs)"
proof -
  have "map l_id (map f rs) = map l_id rs" using f by (simp add: upkeep_def)
  moreover have "f r = f x" if "r \<in> set rs" "x \<in> set rs" "l_state (f r) = ACTIVE" "l_state (f x) = ACTIVE"
      "l_owner (f r) = l_owner (f x) \<or> l_conn (f r) = l_conn (f x)" for r x
  proof -
    have "l_owner r = l_owner x \<or> l_conn r = l_conn x" using that(5) f by (simp add: upkeep_def)
    then have "r = x" using i that upkeep_active [OF f] unfolding lease_inv_def by blast
    then show ?thesis by simp
  qed
  moreover have "l_generation (f x) \<le> l_generation (f r)" if "r \<in> set rs" "x \<in> set rs" "l_state (f r) = ACTIVE"
      "l_owner (f x) = l_owner (f r)" for r x
    using that i f upkeep_active [OF f, of r] unfolding lease_inv_def upkeep_def by auto
  moreover have "l_id \<circ> f = l_id" using f by (auto simp: upkeep_def)
  ultimately show ?thesis using i f unfolding lease_inv_def by (auto simp: upkeep_def)
qed

lemma active_owner_Some: "active_owner h rs = Some r \<Longrightarrow> r \<in> set rs \<and> l_state r = ACTIVE \<and> l_owner r = h"
  unfolding active_owner_def by (auto simp: find_Some_iff)

lemma active_owner_None: "active_owner h rs = None \<longleftrightarrow> (\<forall>r \<in> set rs. l_state r = ACTIVE \<longrightarrow> l_owner r \<noteq> h)"
  unfolding active_owner_def by (auto simp: find_None_iff)

lemma active_conn_Some: "active_conn c rs = Some r \<Longrightarrow> r \<in> set rs \<and> l_state r = ACTIVE \<and> l_conn r = c"
  unfolding active_conn_def by (auto simp: find_Some_iff)

lemma active_conn_None: "active_conn c rs = None \<longleftrightarrow> (\<forall>r \<in> set rs. l_state r = ACTIVE \<longrightarrow> l_conn r \<noteq> c)"
  unfolding active_conn_def by (auto simp: find_None_iff)

lemma inv_unique:
  "lease_inv rs \<Longrightarrow> r \<in> set rs \<Longrightarrow> x \<in> set rs \<Longrightarrow> l_state r = ACTIVE \<Longrightarrow> l_state x = ACTIVE \<Longrightarrow>
    l_owner r = l_owner x \<or> l_conn r = l_conn x \<Longrightarrow> r = x"
  unfolding lease_inv_def by blast

lemma active_owner_unique:
  assumes "lease_inv rs" and "r \<in> set rs" and "l_state r = ACTIVE" shows "active_owner (l_owner r) rs = Some r"
proof (cases "active_owner (l_owner r) rs")
  case None
  then show ?thesis using assms by (auto simp: active_owner_None)
next
  case (Some x)
  from active_owner_Some [OF this] have "r = x" using assms by (intro inv_unique [OF assms(1)]) simp_all
  then show ?thesis using Some by simp
qed

lemma active_conn_unique:
  assumes "lease_inv rs" and "r \<in> set rs" and "l_state r = ACTIVE" shows "active_conn (l_conn r) rs = Some r"
proof (cases "active_conn (l_conn r) rs")
  case None
  then show ?thesis using assms by (auto simp: active_conn_None)
next
  case (Some x)
  from active_conn_Some [OF this] have "r = x" using assms by (intro inv_unique [OF assms(1)]) simp_all
  then show ?thesis using Some by simp
qed

lemma inv_insert:
  assumes "lease_inv rs" and "active_owner (l_owner n) rs = None" and "active_conn (l_conn n) rs = None"
    and "\<forall>r \<in> set rs. l_owner r = l_owner n \<longrightarrow> l_generation r \<le> l_generation n" and n: "l_id n = Suc (length rs)"
  shows "lease_inv (rs @ [n])"
proof -
  have "Suc (length rs) \<notin> l_id ` set rs" using assms(1) by (auto simp: lease_inv_def)
  then have "distinct (map l_id (rs @ [n]))" using assms(1) by (auto simp: lease_inv_def n)
  moreover have "\<forall>r \<in> set (rs @ [n]). l_id r \<le> length (rs @ [n])" using assms(1) by (auto simp: lease_inv_def n)
  moreover note calculation
  have free: "l_owner r \<noteq> l_owner n \<and> l_conn r \<noteq> l_conn n" if "r \<in> set rs" "l_state r = ACTIVE" for r
    using assms(2,3) that by (simp add: active_owner_None active_conn_None)
  have "r = x" if "r \<in> set (rs @ [n])" "x \<in> set (rs @ [n])" "l_state r = ACTIVE" "l_state x = ACTIVE"
      "l_owner r = l_owner x \<or> l_conn r = l_conn x" for r x
  proof -
    from that(1,2) consider "r \<in> set rs" "x \<in> set rs" | "r \<in> set rs" "x = n" | "r = n" "x \<in> set rs" | "r = x" by fastforce
    then show ?thesis
      using that(3-5) inv_unique [OF assms(1), of r x] free [of r] free [of x] by cases (auto simp: n)
  qed
  moreover have "l_generation x \<le> l_generation r" if "r \<in> set (rs @ [n])" "x \<in> set (rs @ [n])" "l_state r = ACTIVE"
      "l_owner x = l_owner r" for r x
    using that assms(1,4) free [of r] unfolding lease_inv_def by (auto simp: n)
  ultimately show ?thesis unfolding lease_inv_def by blast
qed

text \<open>The index of the active leases is never violated: the checks before an insertion suffice.\<close>

lemma insert_succeeds: "active_owner (l_owner r) rs = None \<Longrightarrow> active_conn (l_conn r) rs = None \<Longrightarrow> insert_lease r rs = Some (rs @ [r])"
  by (simp add: insert_lease_def)

lemma fold_max_ge: "(a :: int) \<le> fold max xs a \<and> (\<forall>x \<in> set xs. x \<le> fold max xs a)"
proof (induction xs arbitrary: a)
  case (Cons x xs)
  show ?case using Cons [of "max x a"] by simp
qed simp

lemma fold_max_less: "(a :: int) < m \<Longrightarrow> \<forall>g \<in> set gs. g < m \<Longrightarrow> fold max gs a < m"
  by (induction gs arbitrary: a) auto

lemma nextGeneration_above: "nextGeneration h rs = Some g \<Longrightarrow> 0 < g \<and> (\<forall>r \<in> set rs. l_owner r = h \<longrightarrow> l_generation r < g)"
  using fold_max_ge [of 0 "map l_generation (filter (\<lambda>r. l_owner r = h) rs)"]
  by (fastforce simp: nextGeneration_def Let_def split: if_splits)

text \<open>How a step changes the table: it updates active rows, those of others only once they are over, and may add one.\<close>

definition touches :: "lease_event \<Rightarrow> (lease \<Rightarrow> lease) \<Rightarrow> lease list \<Rightarrow> bool" where
  "touches e f rs \<longleftrightarrow> upkeep f
     \<and> (\<forall>r \<in> set rs. event_owner e \<noteq> Some (l_owner r) \<and> event_time e < l_expires r \<longrightarrow> f r = r)"

definition adds :: "lease_event \<Rightarrow> lease list \<Rightarrow> lease \<Rightarrow> bool" where
  "adds e rs n \<longleftrightarrow> event_owner e = Some (l_owner n) \<and> l_state n = ACTIVE \<and> active_owner (l_owner n) rs = None
     \<and> active_conn (l_conn n) rs = None \<and> (\<forall>r \<in> set rs. l_owner r = l_owner n \<longrightarrow> l_generation r \<le> l_generation n)
     \<and> l_id n = Suc (length rs)"

lemma inv_ids: "lease_inv rs \<Longrightarrow> r \<in> set rs \<Longrightarrow> x \<in> set rs \<Longrightarrow> l_id r = l_id x \<Longrightarrow> r = x"
  unfolding lease_inv_def distinct_map inj_on_def by blast

lemma touches_expire: "event_time e = now \<Longrightarrow> touches e (expire_row now) rs"
  by (auto simp: touches_def upkeep_expire expire_row_def)

lemma touches_own:
  assumes "event_time e = now" and "event_owner e = Some h" and "upkeep f"
    and "\<And>r. r \<in> set (expire now rs) \<Longrightarrow> l_owner r \<noteq> h \<Longrightarrow> f r = r"
  shows "touches e (f \<circ> expire_row now) rs"
  using assms by (fastforce simp: touches_def upkeep_expire upkeep_comp expire_row_def expire_def)

lemma adds_new:
  assumes "event_owner e = Some h" and "active_owner h rs = None" and "active_conn conn rs = None"
    and "\<forall>r \<in> set rs. l_owner r = h \<longrightarrow> l_generation r \<le> g"
  shows "adds e rs (new_lease h key prov conn g now ttl rs)"
    and "insert_lease (new_lease h key prov conn g now ttl rs) rs = Some (rs @ [new_lease h key prov conn g now ttl rs])"
  using assms by (simp_all add: adds_def new_lease_def insert_lease_def)

text \<open>The two shapes of a step.\<close>

definition step_shape :: "lease_event \<Rightarrow> lease list \<Rightarrow> lease list \<Rightarrow> bool" where
  "step_shape e rs rs' \<longleftrightarrow> (\<exists>f. touches e f rs \<and> (rs' = map f rs \<or> (\<exists>n. adds e (map f rs) n \<and> rs' = map f rs @ [n])))"

lemma shape_map: "touches e f rs \<Longrightarrow> step_shape e rs (map f rs)"
  unfolding step_shape_def by blast

lemma shape_same: "step_shape e rs rs"
  using shape_map [of e id rs] by (simp add: touches_def upkeep_def)

lemma shape_expire: "event_time e = now \<Longrightarrow> step_shape e rs (expire now rs)"
  unfolding expire_def by (intro shape_map touches_expire)

lemma shape_own:
  assumes "event_time e = now" and "event_owner e = Some h" and "upkeep f"
    and "\<And>r. r \<in> set (expire now rs) \<Longrightarrow> l_owner r \<noteq> h \<Longrightarrow> f r = r"
  shows "step_shape e rs (map f (expire now rs))"
  using shape_map [OF touches_own [OF assms]] by (simp add: expire_def)

lemma shape_add:
  assumes "event_time e = now" and "event_owner e = Some h" and "upkeep f"
    and "\<And>r. r \<in> set (expire now rs) \<Longrightarrow> l_owner r \<noteq> h \<Longrightarrow> f r = r" and "adds e (map f (expire now rs)) n"
  shows "step_shape e rs (map f (expire now rs) @ [n])"
  using touches_own [OF assms(1-4)] assms(5) unfolding step_shape_def expire_def by (intro exI conjI) auto

lemma shape_update:
  assumes "event_time e = now" and "event_owner e = Some h"
    and "\<And>r. l_id (f r) = l_id r \<and> l_owner (f r) = l_owner r \<and> l_conn (f r) = l_conn r \<and> l_key (f r) = l_key r \<and> l_generation (f r) = l_generation r"
  shows "step_shape e rs (snd (update_lease h g key now f accept rs))"
proof -
  let ?f = "\<lambda>r. if l_owner r = h \<and> l_generation r = g \<and> l_key r = key \<and> l_state r = ACTIVE \<and> now < l_expires r then f r else r"
  have "upkeep ?f" using assms(3) by (simp add: upkeep_def)
  then have "step_shape e rs (map ?f (expire now rs))" by (intro shape_own [OF assms(1,2)]) auto
  then show ?thesis by (simp add: update_lease_def Let_def)
qed

lemma inv_expire: "lease_inv rs \<Longrightarrow> lease_inv (expire now rs)"
  unfolding expire_def by (rule inv_upkeep [OF upkeep_expire])

text \<open>An update of the one active row of an owner.\<close>

lemma own_row:
  assumes "lease_inv rs" and "active_owner h rs = Some r" and "x \<in> set rs" and "l_owner x \<noteq> h"
  shows "l_id x \<noteq> l_id r"
  using inv_ids [OF assms(1,3)] active_owner_Some [OF assms(2)] assms(4) by blast

lemma shape_acquire:
  assumes "lease_inv rs"
  shows "step_shape (Acquire h key prov conn now ttl) rs (lease_step rs (Acquire h key prov conn now ttl))"
proof (cases "active_owner h (expire now rs)")
  case None
  show ?thesis
  proof (cases "active_conn conn (expire now rs) = None \<and> nextGeneration h (expire now rs) \<noteq> None")
    case True
    then obtain g where g: "nextGeneration h (expire now rs) = Some g" by blast
    have m: "\<forall>r \<in> set (expire now rs). l_owner r = h \<longrightarrow> l_generation r \<le> g"
      using nextGeneration_above [OF g] by fastforce
    note n = adds_new [OF _ None _ m, of "Acquire h key prov conn now ttl" conn key prov now ttl]
    show ?thesis
      using shape_add [of "Acquire h key prov conn now ttl" now h id rs] n True None g
      by (simp add: acquire_lease_def Let_def upkeep_def)
  next
    case False
    then show ?thesis using None by (auto simp: acquire_lease_def Let_def shape_expire shape_same split: option.split)
  qed
next
  case (Some r)
  show ?thesis
  proof (cases "l_key r \<noteq> key \<or> l_conn r \<noteq> conn")
    case True
    then show ?thesis using Some by (simp add: acquire_lease_def Let_def shape_expire)
  next
    case False
    let ?f = "\<lambda>x. if l_id x = l_id r \<and> l_state x = ACTIVE \<and> l_key x = key
                  then x\<lparr>l_renewed := now, l_expires := expiry now ttl, l_provider := prov\<rparr> else x"
    have "step_shape (Acquire h key prov conn now ttl) rs (map ?f (expire now rs))"
      using own_row [OF inv_expire [OF assms] Some]
      by (intro shape_own [where h = h]) (auto simp: upkeep_def)
    then show ?thesis using Some False by (simp add: acquire_lease_def Let_def)
  qed
qed

lemma shape_transition:
  assumes "lease_inv rs"
  shows "step_shape (Transition h g key prov conn reason now ttl) rs (lease_step rs (Transition h g key prov conn reason now ttl))"
proof (cases "active_owner h (expire now rs)")
  case None
  then show ?thesis by (simp add: transition_lease_def Let_def shape_expire)
next
  case (Some r)
  let ?rs = "expire now rs" and ?e = "Transition h g key prov conn reason now ttl"
  let ?f = "\<lambda>x. if l_id x = l_id r \<and> l_state x = ACTIVE then x\<lparr>l_state := INVALIDATED, l_ended := Some now, l_reason := Some reason\<rparr> else x"
  note i = inv_expire [OF assms, of now]
  note r = active_owner_Some [OF Some]
  show ?thesis
  proof (cases "l_generation r \<noteq> g \<or> l_key r \<noteq> key \<or> l_conn r = conn \<or> active_conn conn ?rs \<noteq> None")
    case True
    then show ?thesis using Some by (auto simp: transition_lease_def Let_def shape_expire split: option.split)
  next
    case False
    have f: "upkeep ?f" by (simp add: upkeep_def)
    have one: "x = r" if "x \<in> set ?rs" "l_state x = ACTIVE" "l_owner x = h" for x
      using inv_unique [OF i that(1), of r] r that by simp
    have own: "active_owner h (map ?f ?rs) = None" unfolding active_owner_None using one f by (auto simp: upkeep_def split: if_splits)
    have con: "active_conn conn (map ?f ?rs) = None" using False by (auto simp: active_conn_None split: if_splits)
    have gen: "\<forall>x \<in> set (map ?f ?rs). l_owner x = h \<longrightarrow> l_generation x \<le> g"
      using i r False unfolding lease_inv_def by auto
    note n = adds_new [OF _ own con gen, of ?e key prov now ttl]
    have "step_shape ?e rs (map ?f ?rs @ [new_lease h key prov conn g now ttl (map ?f ?rs)])"
      using own_row [OF i Some] n(1) by (intro shape_add [where h = h] f) auto
    then show ?thesis using Some False n(2) by (simp add: transition_lease_def Let_def)
  qed
qed

lemma step_shape: "lease_inv rs \<Longrightarrow> step_shape e rs (lease_step rs e)"
proof (cases e)
  case (Acquire h key prov conn now ttl)
  then show "lease_inv rs \<Longrightarrow> ?thesis" using shape_acquire by blast
next
  case (Transition h g key prov conn reason now ttl)
  then show "lease_inv rs \<Longrightarrow> ?thesis" using shape_transition by blast
qed (auto simp: renew_lease_def release_exclusive_def invalidate_lease_def shape_expire intro!: shape_update)

lemma shape_inv: "lease_inv rs \<Longrightarrow> step_shape e rs rs' \<Longrightarrow> lease_inv rs'"
proof -
  assume i: "lease_inv rs" and "step_shape e rs rs'"
  then obtain f where f: "touches e f rs" and d: "rs' = map f rs \<or> (\<exists>n. adds e (map f rs) n \<and> rs' = map f rs @ [n])"
    by (auto simp: step_shape_def)
  have m: "lease_inv (map f rs)" using f i by (intro inv_upkeep) (simp_all add: touches_def)
  from d show ?thesis
  proof
    assume "\<exists>n. adds e (map f rs) n \<and> rs' = map f rs @ [n]"
    then obtain n where "adds e (map f rs) n" "rs' = map f rs @ [n]" by blast
    then show ?thesis using inv_insert [OF m, of n] by (simp add: adds_def)
  qed (use m in simp)
qed

interpretation leases: machine lease_step lease_inv
  by unfold_locales (rule shape_inv [OF _ step_shape])

lemma inv_run: "lease_inv (foldl lease_step [] es)"
  by (rule leases.run_inv) (simp add: lease_inv_def)

section \<open>One holder\<close>

lemma fence_row:
  assumes "lease_inv rs" and "fst (assert_fence h g key conn now rs) = Valid r"
  shows "r \<in> set rs \<and> l_state r = ACTIVE \<and> now < l_expires r \<and> l_owner r = h \<and> l_generation r = g \<and> l_key r = key \<and> l_conn r = conn"
proof -
  have r: "active_owner h (expire now rs) = Some r" "l_generation r = g" "l_key r = key" "l_conn r = conn"
    using assms(2) by (auto simp: assert_fence_def Let_def split: option.splits if_splits)
  have a: "r \<in> set (expire now rs)" "l_state r = ACTIVE" "l_owner r = h" using active_owner_Some [OF r(1)] by auto
  obtain x where x: "x \<in> set rs" "r = expire_row now x" using a(1) by (auto simp: expire_def)
  then have "r = x" "now < l_expires x" using a(2) by (auto simp: expire_row_def split: if_splits)
  then show ?thesis using x a r by simp
qed

lemma row_fence:
  assumes "lease_inv rs" and "r \<in> set rs" and "l_state r = ACTIVE" and "now < l_expires r"
  shows "fst (assert_fence (l_owner r) (l_generation r) (l_key r) (l_conn r) now rs) = Valid r"
proof -
  have "expire_row now r = r" using assms(4) by (simp add: expire_row_def)
  then have "r \<in> set (expire now rs)" using assms(2) unfolding expire_def by force
  then have "active_owner (l_owner r) (expire now rs) = Some r"
    using active_owner_unique [OF inv_expire [OF assms(1)]] assms(3) by blast
  then show ?thesis by (simp add: assert_fence_def Let_def)
qed

lemma one_holder:
  assumes "lease_inv rs" and "fst (assert_fence h g key conn now rs) = Valid r" and "fst (assert_fence h' g' key' conn now' rs) = Valid r'"
  shows "h = h' \<and> g = g' \<and> key = key' \<and> r = r'"
proof -
  note a = fence_row [OF assms(1,2)] and b = fence_row [OF assms(1,3)]
  have "r = r'" using a b by (intro inv_unique [OF assms(1)]) auto
  then show ?thesis using a b by auto
qed

text \<open>
  C99. A connection has one holder. Whatever leases are taken, moved, renewed, released and revoked, in any order
  and with any clocks, the fence that guards a dispatch lets at most one owner through for a connection, with
  one generation and one API key.
\<close>

theorem connection_has_one_holder:
  assumes "fst (assert_fence h g key conn now (foldl lease_step [] es)) = Valid r"
    and "fst (assert_fence h' g' key' conn now' (foldl lease_step [] es)) = Valid r'"
  shows "h = h' \<and> g = g' \<and> key = key' \<and> r = r'"
  using inv_run assms by (rule one_holder)

definition two_owners :: "lease_event list" where
  "two_owners = [Acquire ''a'' ''k'' ''p'' ''c'' 0 None, Acquire ''b'' ''k'' ''p'' ''c'' 5 None, Acquire ''b'' ''k'' ''p'' ''c'' 120000 None]"

lemma connection_has_one_holder_witness:
  "\<exists>r. fst (assert_fence ''b'' 1 ''k'' ''c'' 120001 (foldl lease_step [] two_owners)) = Valid r \<and> l_id r = 2"
proof -
  obtain r where r: "fst (assert_fence ''b'' 1 ''k'' ''c'' 120001 (foldl lease_step [] two_owners)) = Valid r" "l_id r = 2"
  proof
    show "fst (assert_fence ''b'' 1 ''k'' ''c'' 120001 (foldl lease_step [] two_owners)) =
      Valid \<lparr>l_id = 2, l_owner = ''b'', l_key = ''k'', l_provider = ''p'', l_conn = ''c'', l_generation = 1, l_state = ACTIVE,
        l_acquired = 120000, l_renewed = 120000, l_expires = 240000, l_ended = None, l_reason = None\<rparr>" by code_simp
  qed simp
  then show ?thesis using connection_has_one_holder [OF r(1) r(1)] by auto
qed

section \<open>A lease lasts\<close>

lemma shape_keeps:
  assumes "step_shape e rs rs'" and "r \<in> set rs" and "event_owner e \<noteq> Some (l_owner r)" and "event_time e < l_expires r"
  shows "r \<in> set rs'"
proof -
  obtain f where f: "touches e f rs" and d: "rs' = map f rs \<or> (\<exists>n. adds e (map f rs) n \<and> rs' = map f rs @ [n])"
    using assms(1) by (auto simp: step_shape_def)
  have "f r = r" using f assms(2-4) by (simp add: touches_def)
  then have "r \<in> set (map f rs)" using assms(2) by force
  then show ?thesis using d by auto
qed

interpretation held: guarded_machine lease_step "\<lambda>rs. lease_inv rs \<and> r \<in> set rs"
  "\<lambda>e. event_owner e \<noteq> Some (l_owner r) \<and> event_time e < l_expires r" for r
  by unfold_locales (use leases.step_inv shape_keeps step_shape in blast)

text \<open>
  C99. A lease lasts until its end. As long as the holder itself does nothing and the expiry is not reached, no
  sequence of operations of others takes the connection away or moves the expiry: the holder still passes the
  fence, and nobody else does.
\<close>

theorem lease_lasts:
  assumes "r \<in> set (foldl lease_step [] es)" and "l_state r = ACTIVE" and "now < l_expires r"
    and "list_all (\<lambda>e. event_owner e \<noteq> Some (l_owner r) \<and> event_time e < l_expires r) fs"
  shows "fst (assert_fence (l_owner r) (l_generation r) (l_key r) (l_conn r) now (foldl lease_step [] (es @ fs))) = Valid r
    \<and> (\<forall>h g key x. fst (assert_fence h g key (l_conn r) now (foldl lease_step [] (es @ fs))) = Valid x \<longrightarrow> h = l_owner r)"
proof -
  have "r \<in> set (foldl lease_step [] (es @ fs))"
    using held.run_ok [of "foldl lease_step [] es" r fs] assms inv_run [of es] by simp
  from row_fence [OF inv_run this assms(2,3)] show ?thesis
    using one_holder [OF inv_run] by blast
qed

lemma lease_lasts_witness:
  "\<exists>r. l_owner r = ''a'' \<and> fst (assert_fence ''a'' 1 ''k'' ''c'' 119999
      (foldl lease_step [] ([Acquire ''a'' ''k'' ''p'' ''c'' 0 None] @ [Acquire ''b'' ''k'' ''p'' ''c'' 5 None, Reconcile 119999]))) = Valid r"
proof -
  define r where "r = \<lparr>l_id = 1, l_owner = ''a'', l_key = ''k'', l_provider = ''p'', l_conn = ''c'', l_generation = 1, l_state = ACTIVE,
      l_acquired = 0, l_renewed = 0, l_expires = 120000, l_ended = None, l_reason = None\<rparr>"
  have "foldl lease_step [] [Acquire ''a'' ''k'' ''p'' ''c'' 0 None] = [r]" unfolding r_def by code_simp
  then have "r \<in> set (foldl lease_step [] [Acquire ''a'' ''k'' ''p'' ''c'' 0 None])" by simp
  from lease_lasts [OF this, of 119999 "[Acquire ''b'' ''k'' ''p'' ''c'' 5 None, Reconcile 119999]"]
  show ?thesis by (intro exI [of _ r]) (simp add: r_def)
qed

section \<open>Fencing\<close>

text \<open>A generation of an owner is old when the table has a later one.\<close>

definition superseded :: "string \<Rightarrow> int \<Rightarrow> lease list \<Rightarrow> bool" where
  "superseded h g rs \<longleftrightarrow> (\<exists>x \<in> set rs. l_owner x = h \<and> g < l_generation x)"

lemma upkeep_superseded: "upkeep f \<Longrightarrow> superseded h g rs \<Longrightarrow> superseded h g (map f rs)"
  unfolding superseded_def upkeep_def by (metis (no_types) image_eqI list.set_map)

lemma shape_superseded: "step_shape e rs rs' \<Longrightarrow> superseded h g rs \<Longrightarrow> superseded h g rs'"
proof -
  assume "step_shape e rs rs'" and s: "superseded h g rs"
  then obtain f where f: "upkeep f" and d: "rs' = map f rs \<or> (\<exists>n. rs' = map f rs @ [n])"
    by (auto simp: step_shape_def touches_def)
  show ?thesis using d upkeep_superseded [OF f s] by (auto simp: superseded_def)
qed

interpretation fenced: machine lease_step "\<lambda>rs. lease_inv rs \<and> superseded h g rs" for h g
  by unfold_locales (use leases.step_inv shape_superseded step_shape in blast)

lemma inv_top: "lease_inv rs \<Longrightarrow> r \<in> set rs \<Longrightarrow> x \<in> set rs \<Longrightarrow> l_state r = ACTIVE \<Longrightarrow> l_owner x = l_owner r \<Longrightarrow> l_generation x \<le> l_generation r"
  unfolding lease_inv_def by blast

lemma superseded_inactive:
  assumes "lease_inv rs" and "superseded h g rs" and "r \<in> set rs" and "l_state r = ACTIVE" and "l_owner r = h"
  shows "g < l_generation r"
proof -
  obtain x where "x \<in> set rs" "l_owner x = h" "g < l_generation x" using assms(2) by (auto simp: superseded_def)
  then show ?thesis using inv_top [OF assms(1,3) _ assms(4), of x] assms(5) by simp
qed

lemma superseded_expire: "superseded h g rs \<Longrightarrow> superseded h g (expire now rs)"
  using shape_superseded [OF shape_expire [of "Reconcile now"]] by simp

lemma superseded_refused:
  assumes "lease_inv rs" and "superseded h g rs"
  shows "(\<forall>r. fst (assert_fence h g key conn now rs) \<noteq> Valid r) \<and> fst (renew_lease h g key now ttl rs) = None
    \<and> fst (transition_lease h g key prov conn reason now ttl rs) = Stale_lease"
proof -
  have s: "g < l_generation r" if "r \<in> set (expire now rs)" "l_state r = ACTIVE" "l_owner r = h" for r
    using superseded_inactive [OF inv_expire [OF assms(1)] superseded_expire [OF assms(2)] that] .
  have a: "l_generation r \<noteq> g" if "active_owner h (expire now rs) = Some r" for r
    using s active_owner_Some [OF that] by fastforce
  have "filter (\<lambda>r. l_owner r = h \<and> l_generation r = g \<and> l_key r = key \<and> l_state r = ACTIVE \<and> now < l_expires r) (expire now rs) = []"
    using s by (fastforce simp: filter_empty_conv)
  then show ?thesis
    using a by (auto simp: assert_fence_def renew_lease_def update_lease_def transition_lease_def Let_def split: option.splits)
qed

text \<open>
  C99. An old holder is fenced off for ever. A lease that is taken has a generation above all earlier ones of its
  owner; and from then on, whatever happens, a request or a renewal that still carries an earlier generation is
  refused, and so is a move to another connection.
\<close>

theorem old_generation_is_fenced:
  assumes "fst (acquire_lease h key prov conn now ttl (foldl lease_step [] es)) = Acquired r"
    and "x \<in> set (foldl lease_step [] es)" and "l_owner x = h"
  shows "l_generation x < l_generation r
    \<and> (let rs = foldl lease_step [] (es @ Acquire h key prov conn now ttl # fs); g = l_generation x
       in (\<forall>y. fst (assert_fence h g key' conn' now' rs) \<noteq> Valid y) \<and> fst (renew_lease h g key' now' ttl' rs) = None
          \<and> fst (transition_lease h g key' prov' conn' reason now' ttl' rs) = Stale_lease)"
proof -
  let ?rs = "foldl lease_step [] es"
  let ?rs' = "lease_step ?rs (Acquire h key prov conn now ttl)"
  obtain g where g: "nextGeneration h (expire now ?rs) = Some g" "l_generation r = g" "l_owner r = h" "r \<in> set ?rs'"
    using assms(1) by (auto simp: acquire_lease_def Let_def new_lease_def conflict_def insert_lease_def split: option.splits if_splits)
  have "expire_row now x \<in> set (expire now ?rs)" "l_owner (expire_row now x) = h" "l_generation (expire_row now x) = l_generation x"
    using assms(2,3) by (auto simp: expire_def expire_row_def)
  then have lt: "l_generation x < l_generation r" using nextGeneration_above [OF g(1)] g(2) by fastforce
  then have "superseded h (l_generation x) ?rs'" using g by (auto simp: superseded_def)
  then have "lease_inv (foldl lease_step ?rs' fs) \<and> superseded h (l_generation x) (foldl lease_step ?rs' fs)"
    using inv_run [of "es @ [Acquire h key prov conn now ttl]"] by (intro fenced.run_inv) simp
  then show ?thesis using lt superseded_refused by (simp add: Let_def)
qed

lemma old_generation_is_fenced_witness:
  "fst (renew_lease ''a'' 1 ''k'' 200000 None
      (foldl lease_step [] [Acquire ''a'' ''k'' ''p'' ''c'' 0 None, Acquire ''a'' ''k'' ''p'' ''c'' 150000 None])) = None"
proof -
  define x where "x = \<lparr>l_id = 1, l_owner = ''a'', l_key = ''k'', l_provider = ''p'', l_conn = ''c'', l_generation = 1, l_state = ACTIVE,
      l_acquired = 0, l_renewed = 0, l_expires = 120000, l_ended = None, l_reason = None\<rparr>"
  have x: "foldl lease_step [] [Acquire ''a'' ''k'' ''p'' ''c'' 0 None] = [x]" unfolding x_def by code_simp
  obtain r where r: "fst (acquire_lease ''a'' ''k'' ''p'' ''c'' 150000 None [x]) = Acquired r"
    unfolding x_def by (simp add: acquire_lease_def expire_def expire_row_def active_owner_def active_conn_def nextGeneration_def
        insert_lease_def MAX_SAFE_INTEGER_def Let_def new_lease_def)
  show ?thesis
    using old_generation_is_fenced [of "''a''" "''k''" "''p''" "''c''" 150000 None "[Acquire ''a'' ''k'' ''p'' ''c'' 0 None]" r x "[]"] r x
    by (simp add: x_def Let_def)
qed

section \<open>History and liveness\<close>

text \<open>What is over stays as it is.\<close>

lemma shape_history: "step_shape e rs rs' \<Longrightarrow> r \<in> set rs \<Longrightarrow> l_state r \<noteq> ACTIVE \<Longrightarrow> r \<in> set rs'"
proof -
  assume "step_shape e rs rs'" and r: "r \<in> set rs" "l_state r \<noteq> ACTIVE"
  then obtain f where f: "upkeep f" and d: "rs' = map f rs \<or> (\<exists>n. rs' = map f rs @ [n])"
    by (auto simp: step_shape_def touches_def)
  have "f r = r" using f r(2) by (simp add: upkeep_def)
  then have "r \<in> set (map f rs)" using r(1) by force
  then show ?thesis using d by auto
qed

interpretation history: machine lease_step "\<lambda>rs. lease_inv rs \<and> (l_state r \<noteq> ACTIVE \<longrightarrow> r \<in> set rs)" for r
  by unfold_locales (use leases.step_inv shape_history step_shape in blast)

lemma ended_lease_immutable:
  "r \<in> set (foldl lease_step [] es) \<Longrightarrow> l_state r \<noteq> ACTIVE \<Longrightarrow> r \<in> set (foldl lease_step [] (es @ fs))"
  using history.run_inv [of "foldl lease_step [] es" r fs] inv_run [of es] by simp

text \<open>A connection whose lease is over can be taken by an owner without a lease.\<close>

lemma free_connection_acquired:
  assumes "\<forall>r \<in> set rs. l_state r = ACTIVE \<and> (l_owner r = h \<or> l_conn r = conn) \<longrightarrow> l_expires r \<le> now"
    and "\<forall>r \<in> set rs. l_owner r = h \<longrightarrow> l_generation r < MAX_SAFE_INTEGER"
  shows "\<exists>r. fst (acquire_lease h key prov conn now ttl rs) = Acquired r \<and> l_conn r = conn
    \<and> now + MIN_EXCLUSIVE_LEASE_TTL_MS \<le> l_expires r \<and> l_expires r \<le> now + MAX_EXCLUSIVE_LEASE_TTL_MS"
proof -
  have o: "active_owner h (expire now rs) = None" and c: "active_conn conn (expire now rs) = None"
    using assms(1) by (auto simp: active_owner_None active_conn_None expire_def expire_row_def)
  have "\<forall>g \<in> set (map l_generation (filter (\<lambda>r. l_owner r = h) (expire now rs))). g < MAX_SAFE_INTEGER"
    using assms(2) by (auto simp: expire_def expire_row_def)
  then have "fold max (map l_generation (filter (\<lambda>r. l_owner r = h) (expire now rs))) 0 < MAX_SAFE_INTEGER"
    by (intro fold_max_less) (simp_all add: MAX_SAFE_INTEGER_def)
  then have "nextGeneration h (expire now rs) \<noteq> None"
    using fold_max_ge [of 0] by (auto simp: nextGeneration_def Let_def not_le intro: order_less_le_trans add_nonneg_pos)
  then show ?thesis
    using o c by (auto simp: acquire_lease_def Let_def insert_lease_def new_lease_def expiry_def
        MIN_EXCLUSIVE_LEASE_TTL_MS_def MAX_EXCLUSIVE_LEASE_TTL_MS_def)
qed

section \<open>The policy\<close>

lemma occupancy_has:
  "map_has c (foldl (\<lambda>m r. map_set (l_conn r) (l_owner r, l_expires r) m) m0 rows) \<longleftrightarrow> map_has c m0 \<or> c \<in> l_conn ` set rows"
  by (induction rows arbitrary: m0) auto

text \<open>A request without a lease is never sent to a connection somebody holds.\<close>

lemma unmanaged_avoids_leases:
  assumes "c \<in> set (pol_connections (fst (applyExclusiveConnectionLeasePolicy cid cs None forced now rs)))" and "lease_inv rs"
  shows "c \<in> set cs \<and> (\<forall>h g key x. fst (assert_fence h g key (cid c) now rs) \<noteq> Valid x)"
proof -
  let ?rows = "filter (\<lambda>r. l_state r = ACTIVE \<and> l_conn r \<in> cid ` set cs) (expire now rs)"
  have c: "c \<in> set cs" "cid c \<notin> l_conn ` set ?rows"
    using assms(1) by (auto simp: applyExclusiveConnectionLeasePolicy_def lease_occupancy_def Let_def occupancy_has map_has_def [of _ "[]"])
  have False if "fst (assert_fence h g key (cid c) now rs) = Valid x" for h g key x
  proof -
    note x = fence_row [OF assms(2) that]
    then have "expire_row now x = x" by (simp add: expire_row_def)
    then have "x \<in> set (expire now rs)" using x unfolding expire_def by force
    then show False using c x by force
  qed
  then show ?thesis using c by blast
qed

text \<open>
  What modelling showed: an owner that acquires again while it holds the connection is answered with its lease, but
  the lease is not renewed, since the claim goes through the transition.
\<close>

lemma reacquire_does_not_renew:
  assumes "lease_inv rs" and "r \<in> set rs" and "l_state r = ACTIVE" and "now < l_expires r" and "lc_acquire l"
    and "l_owner r = lc_owner l" and "l_key r = lc_key l"
  shows "fst (mutateExclusiveConnectionLease prov (l_conn r) (Some r) l reason now rs) = Claimed r"
proof -
  have "expire_row now r = r" using assms(4) by (simp add: expire_row_def)
  then have "r \<in> set (expire now rs)" using assms(2) unfolding expire_def by force
  then have "active_owner (lc_owner l) (expire now rs) = Some r"
    using active_owner_unique [OF inv_expire [OF assms(1)]] assms(3,6) by metis
  then show ?thesis using assms by (simp add: mutateExclusiveConnectionLease_def transition_lease_def Let_def)
qed

end
