(* ===== verification/ShuffleDeck.thy ===== *)
theory ShuffleDeck
  imports Prelude "HOL-Library.Multiset" "HOL-Library.List_Lexorder" "HOL-Library.Char_ord"
begin

text \<open>
  Shuffle decks: \<open>src/src/shared/utils/shuffleDeck.ts\<close>, which deals the accounts of a provider, and the models of a
  combo, in random order, each once per round.

  \<^item> What \<open>secureRandomInt\<close> returns is an argument: \<open>rnd i\<close> for position \<open>i\<close> of the shuffle, \<open>pick\<close> for the
    exchange that avoids a repetition; the theorems assume the documented range.
  \<^item> The three variants of the function share their body; the asynchronous one runs it under a lock, and the
    planned one stores the deck when it is committed.

  The lemmas: each round deals every item exactly once, and no item is dealt twice in a row.
\<close>

record shuffle_deck =
  deck_order :: "string list"
  deck_index :: nat
  idsKey :: string

definition swap :: "nat \<Rightarrow> nat \<Rightarrow> 'a list \<Rightarrow> 'a list" where
  "swap i j xs = xs[i := xs ! j, j := xs ! i]"

fun shuffle_from :: "(nat \<Rightarrow> nat) \<Rightarrow> nat \<Rightarrow> 'a list \<Rightarrow> 'a list" where
  "shuffle_from rnd 0 xs = xs"
| "shuffle_from rnd (Suc i) xs = shuffle_from rnd i (swap (Suc i) (rnd (Suc i)) xs)"

definition fisherYatesShuffle :: "(nat \<Rightarrow> nat) \<Rightarrow> 'a list \<Rightarrow> 'a list" where
  "fisherYatesShuffle rnd xs = shuffle_from rnd (length xs - 1) xs"

fun join_comma :: "string list \<Rightarrow> string" where
  "join_comma [] = ''''"
| "join_comma [s] = s"
| "join_comma (s # t # ss) = s @ '','' @ join_comma (t # ss)"

definition ids_key :: "string list \<Rightarrow> string" where
  "ids_key ids = join_comma (sort ids)"

definition reshuffle :: "(nat \<Rightarrow> nat) \<Rightarrow> nat \<Rightarrow> string option \<Rightarrow> string list \<Rightarrow> string list" where
  "reshuffle rnd pick lastUsed ids =
     (let newOrder = fisherYatesShuffle rnd ids
      in if lastUsed = Some (newOrder ! 0) \<and> length newOrder > 1 then swap 0 (1 + pick) newOrder else newOrder)"

definition getNextFromDeckSync ::
  "(nat \<Rightarrow> nat) \<Rightarrow> nat \<Rightarrow> string \<Rightarrow> string list \<Rightarrow> (string \<times> shuffle_deck) list \<Rightarrow> string \<times> (string \<times> shuffle_deck) list" where
  "getNextFromDeckSync rnd pick ns ids decks =
     (if ids = [] then ('''', decks)
      else if length ids = 1 then (ids ! 0, decks)
      else let key = ids_key ids; existing = map_of decks ns;
               same = (case existing of Some d \<Rightarrow> idsKey d = key | None \<Rightarrow> False)
           in case existing of
                Some d \<Rightarrow>
                  if idsKey d = key \<and> deck_index d < length (deck_order d)
                  then (deck_order d ! deck_index d, map_set ns (d\<lparr>deck_index := deck_index d + 1\<rparr>) decks)
                  else let lastUsed = (if idsKey d = key \<and> deck_order d \<noteq> [] then Some (deck_order d ! (length (deck_order d) - 1)) else None);
                           newOrder = reshuffle rnd pick lastUsed ids
                       in (newOrder ! 0, map_set ns \<lparr>deck_order = newOrder, deck_index = 1, idsKey = key\<rparr> decks)
              | None \<Rightarrow>
                  let newOrder = reshuffle rnd pick None ids
                  in (newOrder ! 0, map_set ns \<lparr>deck_order = newOrder, deck_index = 1, idsKey = key\<rparr> decks))"

text \<open>A plan: the selected item, and the decks once it is committed.\<close>

definition planNextFromDeckSync ::
  "(nat \<Rightarrow> nat) \<Rightarrow> nat \<Rightarrow> string \<Rightarrow> string list \<Rightarrow> (string \<times> shuffle_deck) list \<Rightarrow> string \<times> ((string \<times> shuffle_deck) list \<Rightarrow> (string \<times> shuffle_deck) list)" where
  "planNextFromDeckSync rnd pick ns ids decks =
     (let (item, decks') = getNextFromDeckSync rnd pick ns ids decks
      in (item, \<lambda>now. if length ids \<le> 1 then now else map_set ns (the (map_of decks' ns)) now))"

section \<open>Shuffling\<close>

lemma mset_swap: "i < length xs \<Longrightarrow> j < length xs \<Longrightarrow> mset (swap i j xs) = mset xs"
  unfolding swap_def by (rule Multiset.mset_swap)

lemma length_swap [simp]: "length (swap i j xs) = length xs"
  by (simp add: swap_def)

text \<open>The documented range of \<open>secureRandomInt(i + 1)\<close>.\<close>

definition in_range :: "(nat \<Rightarrow> nat) \<Rightarrow> bool" where
  "in_range rnd \<longleftrightarrow> (\<forall>i. rnd i \<le> i)"

lemma mset_shuffle_from: "in_range rnd \<Longrightarrow> i < length xs \<Longrightarrow> mset (shuffle_from rnd i xs) = mset xs"
proof (induction i arbitrary: xs)
  case (Suc i)
  have "rnd (Suc i) \<le> Suc i" using Suc.prems by (simp add: in_range_def)
  then show ?case using Suc by (simp add: mset_swap)
qed simp

lemma mset_shuffle: "in_range rnd \<Longrightarrow> mset (fisherYatesShuffle rnd xs) = mset xs"
  by (cases xs) (simp_all add: fisherYatesShuffle_def mset_shuffle_from)

lemma length_shuffle: "in_range rnd \<Longrightarrow> length (fisherYatesShuffle rnd xs) = length xs"
  using mset_shuffle [of rnd xs] by (metis size_mset)

lemma mset_reshuffle:
  assumes "in_range rnd" and "Suc pick < length ids" shows "mset (reshuffle rnd pick lastUsed ids) = mset ids"
proof -
  have "0 < length (fisherYatesShuffle rnd ids)" "1 + pick < length (fisherYatesShuffle rnd ids)"
    using assms by (auto simp: length_shuffle)
  then have "mset (swap 0 (1 + pick) (fisherYatesShuffle rnd ids)) = mset ids"
    using mset_swap mset_shuffle [OF assms(1)] by metis
  then show ?thesis by (simp add: reshuffle_def Let_def mset_shuffle [OF assms(1), of ids])
qed

lemma swap_first: "distinct xs \<Longrightarrow> Suc p < length xs \<Longrightarrow> swap 0 (Suc p) xs ! 0 \<noteq> xs ! 0"
  by (cases xs) (auto simp: swap_def)

lemma reshuffle_first:
  assumes "in_range rnd" and "Suc pick < length ids" and "distinct ids"
  shows "reshuffle rnd pick (Some x) ids ! 0 \<noteq> x"
proof -
  have "distinct (fisherYatesShuffle rnd ids)" using assms(1,3) by (metis mset_shuffle mset_eq_imp_distinct_iff)
  then show ?thesis
    using swap_first [of "fisherYatesShuffle rnd ids" pick] assms(1,2)
    by (auto simp: reshuffle_def Let_def length_shuffle)
qed

lemma distinct_imp_distinct_adj: "distinct xs \<Longrightarrow> distinct_adj xs"
  by (induction xs) (auto simp: distinct_adj_Cons hd_in_set)

section \<open>Dealing\<close>

text \<open>A sequence of calls for the same items, each with its random numbers, and what they return.\<close>

fun deal :: "string \<Rightarrow> string list \<Rightarrow> ((nat \<Rightarrow> nat) \<times> nat) list \<Rightarrow> (string \<times> shuffle_deck) list \<Rightarrow> string list \<times> (string \<times> shuffle_deck) list" where
  "deal ns ids [] decks = ([], decks)"
| "deal ns ids ((rnd, pick) # rs) decks =
     (let (x, decks1) = getNextFromDeckSync rnd pick ns ids decks; (xs, decks2) = deal ns ids rs decks1 in (x # xs, decks2))"

lemma deal_append:
  "deal ns ids (rs @ [(rnd, pick)]) decks =
    (let (xs, decks1) = deal ns ids rs decks; (x, decks2) = getNextFromDeckSync rnd pick ns ids decks1 in (xs @ [x], decks2))"
  by (induction rs arbitrary: decks) (auto simp: Let_def split: prod.split)

text \<open>What was dealt so far is full rounds and the beginning of the present deck.\<close>

definition dealt :: "string \<Rightarrow> string list \<Rightarrow> string list \<Rightarrow> (string \<times> shuffle_deck) list \<Rightarrow> bool" where
  "dealt ns ids xs decks \<longleftrightarrow> (\<exists>rounds d. map_of decks ns = Some d \<and> idsKey d = ids_key ids \<and> mset (deck_order d) = mset ids
     \<and> 0 < deck_index d \<and> deck_index d \<le> length ids \<and> (\<forall>r \<in> set rounds. mset r = mset ids)
     \<and> xs = concat rounds @ take (deck_index d) (deck_order d) \<and> distinct_adj (concat rounds @ deck_order d))"

lemma next_deals:
  assumes "1 < length ids" and "map_of decks ns = Some d" and "idsKey d = ids_key ids" and "deck_index d < length (deck_order d)"
  shows "getNextFromDeckSync rnd pick ns ids decks = (deck_order d ! deck_index d, map_set ns (d\<lparr>deck_index := deck_index d + 1\<rparr>) decks)"
proof -
  have "ids \<noteq> []" "length ids \<noteq> 1" using assms(1) by auto
  then show ?thesis using assms(2-) by (simp add: getNextFromDeckSync_def Let_def)
qed

lemma next_shuffles:
  fixes rnd :: "nat \<Rightarrow> nat" and pick :: nat
  assumes "1 < length ids" and "map_of decks ns = Some d" and "idsKey d = ids_key ids" and "length (deck_order d) \<le> deck_index d"
    and "deck_order d \<noteq> []"
  defines "ord \<equiv> reshuffle rnd pick (Some (last (deck_order d))) ids"
  shows "getNextFromDeckSync rnd pick ns ids decks = (ord ! 0, map_set ns \<lparr>deck_order = ord, deck_index = 1, idsKey = ids_key ids\<rparr> decks)"
proof -
  have "ids \<noteq> []" "length ids \<noteq> 1" using assms(1) by auto
  then show ?thesis using assms(2-5) by (simp add: getNextFromDeckSync_def Let_def ord_def last_conv_nth)
qed

lemma next_starts:
  fixes rnd :: "nat \<Rightarrow> nat" and pick :: nat
  assumes "1 < length ids" and "map_of decks ns = None"
  defines "ord \<equiv> reshuffle rnd pick None ids"
  shows "getNextFromDeckSync rnd pick ns ids decks = (ord ! 0, map_set ns \<lparr>deck_order = ord, deck_index = 1, idsKey = ids_key ids\<rparr> decks)"
proof -
  have "ids \<noteq> []" "length ids \<noteq> 1" using assms(1) by auto
  then show ?thesis using assms(2) by (simp add: getNextFromDeckSync_def Let_def ord_def)
qed

lemma dealtI:
  assumes "map_of decks ns = Some d" and "idsKey d = ids_key ids" and "mset (deck_order d) = mset ids"
    and "0 < deck_index d" and "deck_index d \<le> length ids" and "\<forall>r \<in> set rounds. mset r = mset ids"
    and "xs = concat rounds @ take (deck_index d) (deck_order d)" and "distinct_adj (concat rounds @ deck_order d)"
  shows "dealt ns ids xs decks"
  using assms unfolding dealt_def by blast

text \<open>A new deck, behind full rounds.\<close>

lemma dealt_new_deck:
  assumes "0 < length ids" and "mset ord = mset ids" and "\<forall>r \<in> set rounds. mset r = mset ids" and "distinct ids"
    and "distinct_adj (concat rounds)" and "concat rounds = [] \<or> last (concat rounds) \<noteq> ord ! 0"
  shows "dealt ns ids (concat rounds @ [ord ! 0]) (map_set ns \<lparr>deck_order = ord, deck_index = 1, idsKey = ids_key ids\<rparr> decks)"
proof -
  have "length ord = length ids" using assms(2) by (metis size_mset)
  then have o: "ord \<noteq> []" "distinct ord" using assms(1) mset_eq_imp_distinct_iff [OF assms(2)] assms(4) by auto
  have adj: "distinct_adj (concat rounds @ ord)"
  proof (cases "concat rounds = []")
    case True
    then show ?thesis using o(2) by (simp only: append_Nil distinct_imp_distinct_adj)
  next
    case False
    then have "last (concat rounds) \<noteq> hd ord" using assms(6) o(1) by (simp add: hd_conv_nth del: concat_eq_Nil_conv)
    then show ?thesis using assms(5) distinct_imp_distinct_adj [OF o(2)] by (simp add: distinct_adj_append_iff)
  qed
  let ?d = "\<lparr>deck_order = ord, deck_index = 1, idsKey = ids_key ids\<rparr>"
  have t: "take 1 ord = [ord ! 0]" using o(1) by (cases ord) auto
  show ?thesis
  proof (rule dealtI [where rounds = rounds and d = ?d])
    show "concat rounds @ [ord ! 0] = concat rounds @ take (deck_index ?d) (deck_order ?d)" using t by simp
    show "deck_index ?d \<le> length ids" using assms(1) by (simp add: Suc_le_eq)
  qed (use assms(2,3) adj in simp_all)
qed

lemma dealt_next:
  assumes "1 < length ids" and "distinct ids" and "in_range rnd" and "Suc pick < length ids" and "dealt ns ids xs decks"
  shows "dealt ns ids (xs @ [fst (getNextFromDeckSync rnd pick ns ids decks)]) (snd (getNextFromDeckSync rnd pick ns ids decks))"
proof -
  obtain rounds d where d: "map_of decks ns = Some d" "idsKey d = ids_key ids" "mset (deck_order d) = mset ids"
      "0 < deck_index d" "deck_index d \<le> length ids" "\<forall>r \<in> set rounds. mset r = mset ids"
      "xs = concat rounds @ take (deck_index d) (deck_order d)" "distinct_adj (concat rounds @ deck_order d)"
    using assms(5) by (auto simp: dealt_def)
  have len: "length (deck_order d) = length ids" using d(3) by (metis size_mset)
  show ?thesis
  proof (cases "deck_index d < length (deck_order d)")
    case True
    then have "take (Suc (deck_index d)) (deck_order d) = take (deck_index d) (deck_order d) @ [deck_order d ! deck_index d]"
      by (rule take_Suc_conv_app_nth)
    then show ?thesis
      unfolding next_deals [OF assms(1) d(1,2) True]
      by (intro dealtI [where rounds = rounds and d = "d\<lparr>deck_index := deck_index d + 1\<rparr>"]) (use d True len in auto)
  next
    case False
    let ?o = "reshuffle rnd pick (Some (last (deck_order d))) ids"
    have ne: "deck_order d \<noteq> []" using len assms(1) by auto
    have xs: "xs = concat (rounds @ [deck_order d])" using d False len by simp
    have m: "mset ?o = mset ids" using assms by (intro mset_reshuffle)
    have l: "last (concat (rounds @ [deck_order d])) \<noteq> ?o ! 0"
      using reshuffle_first [OF assms(3,4,2), of "last (deck_order d)"] ne by simp
    have all: "\<forall>r \<in> set (rounds @ [deck_order d]). mset r = mset ids" and adj: "distinct_adj (concat (rounds @ [deck_order d]))"
      using d by simp_all
    have "0 < length ids" using assms(1) by linarith
    from dealt_new_deck [OF this m all assms(2) adj disjI2 [OF l], of ns decks]
    have "dealt ns ids (xs @ [?o ! 0]) (map_set ns \<lparr>deck_order = ?o, deck_index = 1, idsKey = ids_key ids\<rparr> decks)"
      unfolding xs .
    moreover have "length (deck_order d) \<le> deck_index d" using False by simp
    ultimately show ?thesis using next_shuffles [OF assms(1) d(1,2) _ ne, of rnd pick] by (simp only: fst_conv snd_conv)
  qed
qed

text \<open>The documented ranges of the random numbers of a sequence of calls.\<close>

definition fair_draws :: "string list \<Rightarrow> ((nat \<Rightarrow> nat) \<times> nat) list \<Rightarrow> bool" where
  "fair_draws ids rs \<longleftrightarrow> (\<forall>(rnd, pick) \<in> set rs. in_range rnd \<and> Suc pick < length ids)"

lemma deal_dealt:
  assumes "1 < length ids" and "distinct ids" and "map_of decks ns = None"
  shows "rs \<noteq> [] \<Longrightarrow> fair_draws ids rs \<Longrightarrow> dealt ns ids (fst (deal ns ids rs decks)) (snd (deal ns ids rs decks))"
proof (induction rs rule: rev_induct)
  case (snoc r rs)
  obtain rnd pick where r: "r = (rnd, pick)" by fastforce
  have f: "in_range rnd" "Suc pick < length ids" "fair_draws ids rs" using snoc.prems by (auto simp: fair_draws_def r)
  show ?case
  proof (cases "rs = []")
    case True
    have "mset (reshuffle rnd pick None ids) = mset ids" using f by (intro mset_reshuffle)
    moreover have "0 < length ids" using assms(1) by linarith
    ultimately have "dealt ns ids ([] @ [reshuffle rnd pick None ids ! 0])
        (map_set ns \<lparr>deck_order = reshuffle rnd pick None ids, deck_index = 1, idsKey = ids_key ids\<rparr> decks)"
      using dealt_new_deck [of ids "reshuffle rnd pick None ids" "[]" ns decks] assms(2) by simp
    then show ?thesis using next_starts [OF assms(1,3), of rnd pick] True by (simp add: r)
  next
    case False
    then show ?thesis
      using dealt_next [OF assms(1,2) f(1,2) snoc.IH [OF False f(3)]] by (auto simp: r deal_append Let_def split: prod.split)
  qed
qed simp

text \<open>Full rounds of equal length are read off by their number.\<close>

lemma concat_block:
  "\<forall>r \<in> set rounds. length r = n \<Longrightarrow> k < length rounds \<Longrightarrow> take n (drop (k * n) (concat rounds @ ys)) = rounds ! k"
proof (induction rounds arbitrary: k)
  case (Cons r rounds)
  then show ?case by (cases k) simp_all
qed simp

lemma length_concat_blocks: "\<forall>r \<in> set rounds. length r = n \<Longrightarrow> length (concat rounds) = length rounds * n"
  by (induction rounds) simp_all

lemma dealt_rounds:
  assumes "dealt ns ids xs decks" and "Suc k * length ids \<le> length xs" and "0 < length ids"
  shows "mset (take (length ids) (drop (k * length ids) xs)) = mset ids"
proof -
  obtain rounds d where e: "map_of decks ns = Some d" "idsKey d = ids_key ids" "mset (deck_order d) = mset ids"
      "0 < deck_index d" "deck_index d \<le> length ids" "\<forall>r \<in> set rounds. mset r = mset ids"
      "xs = concat rounds @ take (deck_index d) (deck_order d)" "distinct_adj (concat rounds @ deck_order d)"
    using assms(1) by (auto simp: dealt_def)
  note d = e(3,5,6,7)
  have len: "\<forall>r \<in> set rounds. length r = length ids" "length (deck_order d) = length ids" using d by (metis size_mset)+
  have c: "length (concat rounds) = length rounds * length ids" by (rule length_concat_blocks [OF len(1)])
  show ?thesis
  proof (cases "k < length rounds")
    case True
    then show ?thesis using d(3,4) concat_block [OF len(1) True] by simp
  next
    case False
    have "length xs = length rounds * length ids + deck_index d" using d(2,4) len(2) c by simp
    then have "Suc k * length ids \<le> length rounds * length ids + length ids" using assms(2) d(2) by linarith
    also have "\<dots> = Suc (length rounds) * length ids" by simp
    finally have "Suc k \<le> Suc (length rounds)" using assms(3) by (simp only: mult_le_cancel2)
    then have k: "k = length rounds" using False by simp
    then have "deck_index d = length ids" using assms(2) d(2) \<open>length xs = _\<close> by simp
    then show ?thesis using d(1,4) len(2) c k by simp
  qed
qed

lemma length_deal: "length (fst (deal ns ids rs decks)) = length rs"
proof (induction rs arbitrary: decks)
  case (Cons r rs)
  then show ?case by (cases r) (simp add: Let_def split: prod.split, metis fst_conv)
qed simp

lemma dealt_adj: "dealt ns ids xs decks \<Longrightarrow> distinct_adj xs"
  unfolding dealt_def
  by (metis append.assoc append_take_drop_id distinct_adj_append_iff)

text \<open>
  C99. A deck deals fairly: for distinct ids (two or more) and a namespace without a deck, however the random numbers
  fall within their documented ranges, every \<open>n\<close>-th block of \<open>n\<close> calls of \<open>getNextFromDeckSync\<close> returns each of the
  \<open>n\<close> ids exactly once, and no two consecutive calls return the same id, also across the reshuffle.
\<close>

theorem deck_deals_evenly:
  assumes "1 < length ids" and "distinct ids" and "map_of decks ns = None" and "fair_draws ids rs"
    and "Suc k * length ids \<le> length rs"
  shows "distinct_adj (fst (deal ns ids rs decks)) \<and>
    mset (take (length ids) (drop (k * length ids) (fst (deal ns ids rs decks)))) = mset ids"
proof -
  have n: "0 < length ids" using assms(1) by linarith
  then have "rs \<noteq> []" using assms(5) by auto
  note d = deal_dealt [OF assms(1-3) this assms(4)]
  show ?thesis using dealt_adj [OF d] dealt_rounds [OF d _ n, of k] assms(5) by (simp add: length_deal)
qed

theorem deck_deals_evenly_witness:
  "mset (take 3 (drop 3 (fst (deal ''conn'' [''a'', ''b'', ''c''] (replicate 7 (\<lambda>i. i div 2, 0)) [])))) = {#''a'', ''b'', ''c''#}"
proof -
  have "fair_draws [''a'', ''b'', ''c''] (replicate 7 (\<lambda>i. i div 2, 0))" by (auto simp: fair_draws_def in_range_def)
  from deck_deals_evenly [OF _ _ _ this, of "[]" "''conn''" 1] show ?thesis by (simp add: eval_nat_numeral)
qed

text \<open>The key of a deck joins the ids with commas, so that the ids of two lists can run into one another: the deck of one list
  then answers for the other, with an item that list does not have.\<close>

lemma deck_keys_collide:
  "ids_key [''a,b'', ''c''] = ids_key [''a'', ''b,c'']"
  "fst (deal ''combo'' [''a'', ''b,c''] [(\<lambda>i. i, 0)] (snd (deal ''combo'' [''a,b'', ''c''] [(\<lambda>i. i, 0)] []))) = [''c'']"
  by code_simp+

end
