(* ===== verification/CodexAccounts.thy ===== *)
theory CodexAccounts
  imports QuotaCache
begin

text \<open>
  The virtual accounts of a Codex connection: \<open>src/open-sse/services/codexAccount/\<close>, the headers it learns from
  (\<open>open-sse/executors/codex/quota.ts\<close>), the rows it writes (\<open>src/lib/db/providers/codexAccountState.ts\<close>), and the
  overlay of the quota cache (\<open>src/domain/quotaCache.ts\<close>).

  \<^item> One connection stands for a parent and two children, the scopes \<open>codex\<close> and \<open>spark\<close>; the state of the children
    is kept in \<open>providerSpecificData\<close>, a JSON object, under keys by scope and under older keys without one.
  \<^item> A row of the database is its provider, that object, and the cooldown of the parent. A transaction is one step;
    \<open>date\<close> reads a date. What is stored went through \<open>JSON.stringify\<close>, which writes NaN and the infinities as null.
  \<^item> Records in the object are objects, never arrays.

  The lemmas: what a response reports reads back; a deadline that upstream gave holds against guesses, against
  headroom in a local snapshot, and against everything that concerns the other child.
\<close>

section \<open>Headers\<close>

text \<open>\<open>parseFloat\<close>: the longest prefix that is a decimal literal.\<close>

definition signed_decimal :: "string \<Rightarrow> jsval" where
  "signed_decimal s = (case s of
     c # t \<Rightarrow> if c = CHR ''-'' then negate (unsigned_decimal t) else if c = CHR ''+'' then unsigned_decimal t else unsigned_decimal s
   | [] \<Rightarrow> Not_number)"

definition parseFloat :: "string \<Rightarrow> jsval" where
  "parseFloat s = (let t = trim s in
     case find (\<lambda>n. signed_decimal (take n t) \<noteq> Not_number) (rev [0..<Suc (length t)]) of
       Some n \<Rightarrow> signed_decimal (take n t) | None \<Rightarrow> Not_number)"

record codex_quota =
  usage5h :: jsval
  limit5h :: jsval
  resetAt5h :: "string option"
  usage7d :: jsval
  limit7d :: jsval
  resetAt7d :: "string option"

text \<open>The headers are a map; an empty header counts as absent where it is tested for truth.\<close>

definition header :: "string \<Rightarrow> (string \<times> string) list \<Rightarrow> string" where
  "header k hs = nullish (map_of hs k) []"

definition float_header :: "string \<Rightarrow> jsval \<Rightarrow> (string \<times> string) list \<Rightarrow> jsval" where
  "float_header k d hs = (if header k hs = [] then d else parseFloat (header k hs))"

definition parseCodexQuotaHeaders :: "(string \<times> string) list \<Rightarrow> codex_quota option" where
  "parseCodexQuotaHeaders hs =
     (if list_all (\<lambda>k. header k hs = [])
           [''x-codex-5h-usage'', ''x-codex-5h-limit'', ''x-codex-5h-reset-at'', ''x-codex-7d-usage'', ''x-codex-7d-limit'', ''x-codex-7d-reset-at'']
      then None
      else Some \<lparr>usage5h = float_header ''x-codex-5h-usage'' (Num 0) hs, limit5h = float_header ''x-codex-5h-limit'' Not_finite hs,
                 resetAt5h = map_of hs ''x-codex-5h-reset-at'',
                 usage7d = float_header ''x-codex-7d-usage'' (Num 0) hs, limit7d = float_header ''x-codex-7d-limit'' Not_finite hs,
                 resetAt7d = map_of hs ''x-codex-7d-reset-at''\<rparr>)"

definition future_ms :: "(string \<Rightarrow> time option) \<Rightarrow> time \<Rightarrow> string option \<Rightarrow> time option" where
  "future_ms date now v =
     (if nullish v [] = [] then None else case date (nullish v []) of Some t \<Rightarrow> if t > now then Some t else None | None \<Rightarrow> None)"

definition getCodexResetTime :: "(string \<Rightarrow> time option) \<Rightarrow> time \<Rightarrow> codex_quota \<Rightarrow> time option" where
  "getCodexResetTime date now q =
     (case List.map_filter (future_ms date now) [resetAt7d q, resetAt5h q] of [] \<Rightarrow> None | t # ts \<Rightarrow> Some (fold max ts t))"

datatype codex_window = Five_hours | Seven_days

text \<open>A usage of Infinity is full; one that is not a number is not.\<close>

definition usage_full :: "rat \<Rightarrow> jsval \<Rightarrow> jsval \<Rightarrow> bool" where
  "usage_full threshold usage cap =
     (case cap of
        Num l \<Rightarrow> if l > 0 then (case usage of Num u \<Rightarrow> u / l \<ge> threshold | Not_finite \<Rightarrow> True | _ \<Rightarrow> False) else 0 \<ge> threshold
      | _ \<Rightarrow> 0 \<ge> threshold)"

definition window_full :: "(string \<Rightarrow> time option) \<Rightarrow> time \<Rightarrow> rat \<Rightarrow> jsval \<Rightarrow> jsval \<Rightarrow> string option \<Rightarrow> time option" where
  "window_full date now threshold usage cap reset = (if usage_full threshold usage cap then future_ms date now reset else None)"

text \<open>The cooldown, and the window that calls for it; \<open>None\<close> for \<open>none\<close>, whose cooldown is 0.\<close>

definition getCodexDualWindowCooldownMs :: "(string \<Rightarrow> time option) \<Rightarrow> time \<Rightarrow> codex_quota \<Rightarrow> rat \<Rightarrow> (int \<times> codex_window) option" where
  "getCodexDualWindowCooldownMs date now q threshold =
     (case window_full date now threshold (usage7d q) (limit7d q) (resetAt7d q) of
        Some t \<Rightarrow> Some (t - now, Seven_days)
      | None \<Rightarrow> map_option (\<lambda>t. (t - now, Five_hours)) (window_full date now threshold (usage5h q) (limit5h q) (resetAt5h q)))"

section \<open>The stored state\<close>

definition window_json :: "codex_window \<Rightarrow> json" where
  "window_json w = JStr (case w of Five_hours \<Rightarrow> ''5h'' | Seven_days \<Rightarrow> ''7d'')"

definition stored_num :: "jsval \<Rightarrow> json" where
  "stored_num v = (case v of Num q \<Rightarrow> JNum q | _ \<Rightarrow> JNull)"

definition stored_str :: "string option \<Rightarrow> json" where
  "stored_str v = (case v of Some s \<Rightarrow> JStr s | None \<Rightarrow> JNull)"

fun set_prop :: "string \<Rightarrow> json \<Rightarrow> json \<Rightarrow> json" where
  "set_prop k v (JObj m) = JObj (map_set k v m)"
| "set_prop k v x = x"

fun del_prop :: "string \<Rightarrow> json \<Rightarrow> json" where
  "del_prop k (JObj m) = JObj (map_del k m)"
| "del_prop k x = x"

definition sub_record :: "string \<Rightarrow> json \<Rightarrow> json" where
  "sub_record k psd = asRecord (get_prop k psd)"

definition omitEmptyRecord :: "json \<Rightarrow> json option" where
  "omitEmptyRecord r = (if r = JObj [] then None else Some r)"

definition put_or_drop :: "string \<Rightarrow> json option \<Rightarrow> json \<Rightarrow> json" where
  "put_or_drop k v psd = (case v of Some r \<Rightarrow> set_prop k r psd | None \<Rightarrow> del_prop k psd)"

record codex_patch =
  pt_quotaState :: "json option"
  pt_exhaustedWindow :: "codex_window option option"
  pt_rateLimitedUntil :: "string option option"
  pt_source :: "string option"

definition patch_quota :: "string \<Rightarrow> json option \<Rightarrow> json \<Rightarrow> json" where
  "patch_quota scope q psd =
     (case q of None \<Rightarrow> psd
      | Some s \<Rightarrow> set_prop ''codexQuotaState'' (set_prop ''updatedAt'' (get_prop ''observedAt'' s) (set_prop ''scope'' (JStr scope) s))
                    (set_prop ''codexQuotaStateByScope'' (set_prop scope s (sub_record ''codexQuotaStateByScope'' psd)) psd))"

definition patch_exhausted :: "string \<Rightarrow> codex_window option option \<Rightarrow> json \<Rightarrow> json" where
  "patch_exhausted scope w psd =
     (case w of None \<Rightarrow> psd
      | Some (Some x) \<Rightarrow> set_prop ''codexExhaustedWindow'' (window_json x)
          (set_prop ''codexExhaustedWindowByScope'' (set_prop scope (window_json x) (sub_record ''codexExhaustedWindowByScope'' psd)) psd)
      | Some None \<Rightarrow> del_prop ''codexExhaustedWindow''
          (set_prop ''codexExhaustedWindowByScope'' (del_prop scope (sub_record ''codexExhaustedWindowByScope'' psd)) psd))"

text \<open>A deadline from a quota reset that lies ahead stays, unless another quota reset comes.\<close>

definition authoritative :: "(string \<Rightarrow> time option) \<Rightarrow> time \<Rightarrow> string \<Rightarrow> string option \<Rightarrow> json \<Rightarrow> bool" where
  "authoritative date now scope source psd \<longleftrightarrow>
     get_prop scope (sub_record ''codexScopeRateLimitSource'' psd) = JStr ''quota_reset'' \<and> source \<noteq> Some ''quota_reset''
     \<and> (case str_of (get_prop scope (sub_record ''codexScopeRateLimitedUntil'' psd)) of
          Some s \<Rightarrow> (case date s of Some t \<Rightarrow> t > now | None \<Rightarrow> False) | None \<Rightarrow> False)"

definition patch_cooldown :: "(string \<Rightarrow> time option) \<Rightarrow> time \<Rightarrow> string \<Rightarrow> string option option \<Rightarrow> string option \<Rightarrow> json \<Rightarrow> json" where
  "patch_cooldown date now scope limited source psd =
     (case limited of None \<Rightarrow> psd
      | Some u \<Rightarrow>
          let cooldowns = sub_record ''codexScopeRateLimitedUntil'' psd; sources = sub_record ''codexScopeRateLimitSource'' psd;
              keep = authoritative date now scope source psd;
              (cooldowns', sources') =
                (if nullish u [] \<noteq> []
                 then (set_prop scope (if keep then get_prop scope cooldowns else JStr (nullish u [])) cooldowns,
                       set_prop scope (if keep then get_prop scope sources else JStr (nullish source ''fallback'')) sources)
                 else (del_prop scope cooldowns, del_prop scope sources))
          in put_or_drop ''codexScopeRateLimitSource'' (omitEmptyRecord sources')
               (put_or_drop ''codexScopeRateLimitedUntil'' (omitEmptyRecord cooldowns') psd))"

definition patched :: "(string \<Rightarrow> time option) \<Rightarrow> time \<Rightarrow> string \<Rightarrow> codex_patch \<Rightarrow> json \<Rightarrow> json" where
  "patched date now scope p psd =
     patch_cooldown date now scope (pt_rateLimitedUntil p) (pt_source p)
       (patch_exhausted scope (pt_exhaustedWindow p) (patch_quota scope (pt_quotaState p) psd))"

record codex_row =
  cr_provider :: string
  cr_psd :: json
  cr_rateLimitedUntil :: "string option"

type_synonym codex_rows = "(string \<times> codex_row) list"

definition updateCodexScopedQuotaState ::
  "(string \<Rightarrow> time option) \<Rightarrow> time \<Rightarrow> string \<Rightarrow> codex_scope \<Rightarrow> codex_patch \<Rightarrow> codex_rows \<Rightarrow> json option \<times> codex_rows" where
  "updateCodexScopedQuotaState date now i scope p rows =
     (case map_of rows i of
        None \<Rightarrow> (None, rows)
      | Some r \<Rightarrow>
          if cr_provider r \<noteq> ''codex'' then (None, rows)
          else let psd = patched date now (scope_name scope) p (asRecord (cr_psd r)) in (Some psd, map_set i (r\<lparr>cr_psd := psd\<rparr>) rows))"

definition updateCodexScopeCooldown ::
  "(string \<Rightarrow> time option) \<Rightarrow> time \<Rightarrow> string \<Rightarrow> codex_scope \<Rightarrow> string \<Rightarrow> codex_rows \<Rightarrow> json option \<times> codex_rows" where
  "updateCodexScopeCooldown date now i scope until rows =
     updateCodexScopedQuotaState date now i scope
       \<lparr>pt_quotaState = None, pt_exhaustedWindow = None, pt_rateLimitedUntil = Some (Some until), pt_source = Some ''fallback''\<rparr> rows"

definition persistCodexChildCooldown ::
  "(string \<Rightarrow> time option) \<Rightarrow> time \<Rightarrow> string \<Rightarrow> string \<Rightarrow> string \<Rightarrow> codex_rows \<Rightarrow> (codex_scope \<times> json) option \<times> codex_rows" where
  "persistCodexChildCooldown date now i model until rows =
     (if trim model = [] then (None, rows)
      else let scope = getCodexModelScope (Some model); (psd, rows1) = updateCodexScopeCooldown date now i scope until rows
           in (map_option (Pair scope) psd, rows1))"

section \<open>Learning from a response\<close>

definition quota_state_json :: "(time \<Rightarrow> string) \<Rightarrow> time \<Rightarrow> codex_quota \<Rightarrow> json" where
  "quota_state_json toISO now q =
     JObj [(''usage5h'', stored_num (usage5h q)), (''limit5h'', stored_num (limit5h q)), (''resetAt5h'', stored_str (resetAt5h q)),
           (''usage7d'', stored_num (usage7d q)), (''limit7d'', stored_num (limit7d q)), (''resetAt7d'', stored_str (resetAt7d q)),
           (''observedAt'', JStr (toISO now))]"

text \<open>On a 429: the exhausted window with its reset, or the fallback.\<close>

definition response_limit ::
  "(string \<Rightarrow> time option) \<Rightarrow> time \<Rightarrow> codex_quota \<Rightarrow> int \<Rightarrow> string option \<Rightarrow> codex_window option \<times> string option" where
  "response_limit date now q status fallback =
     (if status \<noteq> 429 then (None, None)
      else case getCodexDualWindowCooldownMs date now q (95 / 100) of
             Some (ms, w) \<Rightarrow> (Some w, case w of Seven_days \<Rightarrow> resetAt7d q | Five_hours \<Rightarrow> resetAt5h q)
           | None \<Rightarrow> (None, Option.bind fallback nonempty))"

definition response_patch ::
  "(string \<Rightarrow> time option) \<Rightarrow> (time \<Rightarrow> string) \<Rightarrow> time \<Rightarrow> codex_quota \<Rightarrow> int \<Rightarrow> string option \<Rightarrow> codex_patch" where
  "response_patch date toISO now q status fallback =
     (let (w, limited) = response_limit date now q status fallback
      in \<lparr>pt_quotaState = Some (quota_state_json toISO now q), pt_exhaustedWindow = Some w,
          pt_rateLimitedUntil = (if nullish limited [] \<noteq> [] then Some limited else if status = 200 then Some None else None),
          pt_source = (if nullish limited [] = [] then None else Some (if w \<noteq> None then ''quota_reset'' else ''fallback''))\<rparr>)"

definition persistCodexChildQuotaResponse ::
  "(string \<Rightarrow> time option) \<Rightarrow> (time \<Rightarrow> string) \<Rightarrow> time \<Rightarrow> string \<Rightarrow> string \<Rightarrow> (string \<times> string) list \<Rightarrow> int \<Rightarrow> string option \<Rightarrow> codex_rows
    \<Rightarrow> (codex_scope \<times> json) option \<times> codex_rows" where
  "persistCodexChildQuotaResponse date toISO now i model hs status fallback rows =
     (if trim model = [] then (None, rows)
      else case parseCodexQuotaHeaders hs of
             None \<Rightarrow> (None, rows)
           | Some q \<Rightarrow>
               let scope = getCodexModelScope (Some model);
                   (psd, rows1) = updateCodexScopedQuotaState date now i scope (response_patch date toISO now q status fallback) rows
               in (map_option (Pair scope) psd, rows1))"

section \<open>Lifting a cooldown\<close>

definition QUOTA_RESET_CLOCK_SKEW_GRACE_MS :: int where "QUOTA_RESET_CLOCK_SKEW_GRACE_MS = 30000"

definition json_truthy :: "json \<Rightarrow> bool" where
  "json_truthy v \<longleftrightarrow> v \<noteq> JUndef \<and> v \<noteq> JNull \<and> v \<noteq> JBool False \<and> v \<noteq> JNum 0 \<and> v \<noteq> JStr []"

definition hasCodexScopeCooldown :: "string \<Rightarrow> codex_scope \<Rightarrow> codex_rows \<Rightarrow> bool" where
  "hasCodexScopeCooldown i scope rows \<longleftrightarrow> i \<noteq> [] \<and>
     (case map_of rows i of
        Some r \<Rightarrow> cr_provider r = ''codex'' \<and> json_truthy (get_prop (scope_name scope) (sub_record ''codexScopeRateLimitedUntil'' (asRecord (cr_psd r))))
      | None \<Rightarrow> False)"

definition still_authoritative :: "(string \<Rightarrow> time option) \<Rightarrow> time \<Rightarrow> string \<Rightarrow> json \<Rightarrow> bool" where
  "still_authoritative date now scope psd \<longleftrightarrow>
     get_prop scope (sub_record ''codexScopeRateLimitSource'' psd) = JStr ''quota_reset''
     \<and> (case str_of (get_prop scope (sub_record ''codexScopeRateLimitedUntil'' psd)) of
          Some s \<Rightarrow> (case date s of Some t \<Rightarrow> t > now - QUOTA_RESET_CLOCK_SKEW_GRACE_MS | None \<Rightarrow> False) | None \<Rightarrow> False)"

definition lift_exhausted :: "string \<Rightarrow> json \<Rightarrow> json \<Rightarrow> json" where
  "lift_exhausted scope byScope psd =
     (if \<not> json_truthy (get_prop scope byScope) then psd
      else case omitEmptyRecord (del_prop scope byScope) of
             Some r \<Rightarrow> set_prop ''codexExhaustedWindowByScope'' r psd
           | None \<Rightarrow> del_prop ''codexExhaustedWindow'' (del_prop ''codexExhaustedWindowByScope'' psd))"

definition lifted :: "string \<Rightarrow> json \<Rightarrow> json" where
  "lifted scope psd =
     lift_exhausted scope (sub_record ''codexExhaustedWindowByScope'' psd)
       (put_or_drop ''codexScopeRateLimitSource'' (omitEmptyRecord (del_prop scope (sub_record ''codexScopeRateLimitSource'' psd)))
          (put_or_drop ''codexScopeRateLimitedUntil'' (omitEmptyRecord (del_prop scope (sub_record ''codexScopeRateLimitedUntil'' psd))) psd))"

definition liftCodexScopeCooldownOnHeadroom :: "(string \<Rightarrow> time option) \<Rightarrow> time \<Rightarrow> string \<Rightarrow> codex_scope \<Rightarrow> codex_rows \<Rightarrow> bool \<times> codex_rows" where
  "liftCodexScopeCooldownOnHeadroom date now i scope rows =
     (if \<not> hasCodexScopeCooldown i scope rows then (False, rows)
      else case map_of rows i of
             None \<Rightarrow> (False, rows)
           | Some r \<Rightarrow> if still_authoritative date now (scope_name scope) (asRecord (cr_psd r)) then (False, rows)
                       else (True, map_set i (r\<lparr>cr_psd := lifted (scope_name scope) (asRecord (cr_psd r))\<rparr>) rows))"

definition connectionHasCodexChildCooldown :: "json \<Rightarrow> bool" where
  "connectionHasCodexChildCooldown psd \<longleftrightarrow>
     get_prop ''codexScopeRateLimitedUntil'' psd \<noteq> JUndef \<or> get_prop ''codexScopeRateLimitSource'' psd \<noteq> JUndef"

definition stripCodexChildCooldownFields :: "json \<Rightarrow> json" where
  "stripCodexChildCooldownFields psd =
     (if connectionHasCodexChildCooldown psd then del_prop ''codexScopeRateLimitSource'' (del_prop ''codexScopeRateLimitedUntil'' psd) else psd)"

text \<open>\<open>data\<close> is the payload of an update; \<open>None\<close> is a null object.\<close>

definition applyCodexChildCooldownClearOnUpdate :: "(string \<times> json) list \<Rightarrow> json option \<Rightarrow> json option" where
  "applyCodexChildCooldownClearOnUpdate data psd =
     (case map_of data ''rateLimitedUntil'' of
        None \<Rightarrow> psd
      | Some v \<Rightarrow> if v \<noteq> JNull \<and> v \<noteq> JUndef \<and> v \<noteq> JStr [] then psd else map_option stripCodexChildCooldownFields psd)"

definition stripCodexChildCooldownsFromConnection :: "string \<Rightarrow> bool \<Rightarrow> codex_rows \<Rightarrow> codex_rows" where
  "stripCodexChildCooldownsFromConnection i alsoClearTopLevel rows =
     (if i = [] then rows
      else case map_of rows i of
             None \<Rightarrow> rows
           | Some r \<Rightarrow>
               let psd = asRecord (cr_psd r); stripNested = (cr_provider r = ''codex'' \<and> connectionHasCodexChildCooldown psd);
                   r1 = (if alsoClearTopLevel then r\<lparr>cr_rateLimitedUntil := None\<rparr> else r)
               in if stripNested then map_set i (r1\<lparr>cr_psd := stripCodexChildCooldownFields psd\<rparr>) rows
                  else if alsoClearTopLevel then map_set i r1 rows else rows)"

section \<open>Reading the accounts\<close>

record codex_connection =
  cc_id :: string
  cc_psd :: json

datatype codex_account = Parent codex_connection | Child codex_scope codex_connection

fun account_connection :: "codex_account \<Rightarrow> codex_connection" where
  "account_connection (Parent c) = c"
| "account_connection (Child s c) = c"

definition CODEX_SCOPES :: "codex_scope list" where "CODEX_SCOPES = [Codex, Spark]"

text \<open>A pool is its connection; these are its accounts.\<close>

definition createCodexAccountPool :: "codex_connection \<Rightarrow> codex_account list" where
  "createCodexAccountPool c = [Parent c, Child Codex c, Child Spark c]"

definition resolveCodexAccount :: "codex_connection \<Rightarrow> string option \<Rightarrow> codex_account" where
  "resolveCodexAccount c model = (if trim (nullish model []) = [] then Parent c else Child (getCodexModelScope model) c)"

definition getLegacyCooldown :: "codex_scope \<Rightarrow> json \<Rightarrow> string option" where
  "getLegacyCooldown scope psd =
     (case get_prop (scope_name scope) (sub_record ''codexScopeRateLimitedUntil'' psd) of
        JStr s \<Rightarrow> if trim s = [] then None else Some s | _ \<Rightarrow> None)"

definition asQuotaState :: "json \<Rightarrow> json option" where
  "asQuotaState v = omitEmptyRecord (asRecord v)"

definition asExhaustedWindow :: "json \<Rightarrow> codex_window option" where
  "asExhaustedWindow v = (if v = JStr ''5h'' then Some Five_hours else if v = JStr ''7d'' then Some Seven_days else None)"

record codex_hydration =
  hy_quotaState :: "json option"
  hy_exhaustedWindow :: "codex_window option"
  hy_rateLimitedUntil :: "string option"

definition getCodexChildQuotaHydration :: "codex_scope \<Rightarrow> json \<Rightarrow> codex_hydration" where
  "getCodexChildQuotaHydration scope psd =
     (let scopedQuota = asQuotaState (get_prop (scope_name scope) (sub_record ''codexQuotaStateByScope'' psd));
          legacy = sub_record ''codexQuotaState'' psd;
          matching = (if get_prop ''scope'' legacy = JStr (scope_name scope) then asQuotaState legacy else None);
          scopedWindow = asExhaustedWindow (get_prop (scope_name scope) (sub_record ''codexExhaustedWindowByScope'' psd));
          legacyWindow = (if matching \<noteq> None then asExhaustedWindow (get_prop ''codexExhaustedWindow'' psd) else None)
      in \<lparr>hy_quotaState = (if scopedQuota = None then matching else scopedQuota),
          hy_exhaustedWindow = (if scopedWindow = None then legacyWindow else scopedWindow),
          hy_rateLimitedUntil = getLegacyCooldown scope psd\<rparr>)"

definition child_limited :: "(string \<Rightarrow> time option) \<Rightarrow> time \<Rightarrow> json \<Rightarrow> codex_scope \<Rightarrow> bool" where
  "child_limited date now psd scope \<longleftrightarrow> future_ms date now (getLegacyCooldown scope psd) \<noteq> None"

datatype pool_status = Pool_available | Partially_limited | Fully_limited

definition pool_status_of :: "nat \<Rightarrow> pool_status" where
  "pool_status_of n = (if n = 0 then Pool_available else if n = length CODEX_SCOPES then Fully_limited else Partially_limited)"

definition getCodexAccountPoolState :: "(string \<Rightarrow> time option) \<Rightarrow> time \<Rightarrow> json \<Rightarrow> pool_status \<times> codex_scope list" where
  "getCodexAccountPoolState date now psd =
     (let limited = filter (child_limited date now psd) CODEX_SCOPES in (pool_status_of (length limited), limited))"

text \<open>\<open>None\<close>: the account does not belong to the pool.\<close>

datatype account_state = Pool_state pool_status "codex_scope list" | Child_state codex_scope "string option" bool

definition inspectCodexAccount :: "(string \<Rightarrow> time option) \<Rightarrow> time \<Rightarrow> codex_connection \<Rightarrow> codex_account \<Rightarrow> account_state option" where
  "inspectCodexAccount date now pool a =
     (if cc_id (account_connection a) \<noteq> cc_id pool then None
      else case a of
             Parent c \<Rightarrow> Some (case getCodexAccountPoolState date now (cc_psd pool) of (s, l) \<Rightarrow> Pool_state s l)
           | Child s c \<Rightarrow> Some (Child_state s (getLegacyCooldown s (cc_psd c)) (child_limited date now (cc_psd c) s)))"

definition inspectResolvedCodexChild :: "(string \<Rightarrow> time option) \<Rightarrow> time \<Rightarrow> codex_connection \<Rightarrow> string option \<Rightarrow> (string option \<times> bool) option" where
  "inspectResolvedCodexChild date now c model =
     (case inspectCodexAccount date now c (resolveCodexAccount c model) of
        Some (Child_state s until limited) \<Rightarrow> Some (until, limited) | _ \<Rightarrow> None)"

definition isCodexChildUnavailable :: "(string \<Rightarrow> time option) \<Rightarrow> time \<Rightarrow> codex_connection \<Rightarrow> string option \<Rightarrow> bool" where
  "isCodexChildUnavailable date now c model = (case inspectResolvedCodexChild date now c model of Some (u, limited) \<Rightarrow> limited | None \<Rightarrow> False)"

definition getCodexChildCooldown :: "(string \<Rightarrow> time option) \<Rightarrow> time \<Rightarrow> codex_connection \<Rightarrow> string option \<Rightarrow> string option" where
  "getCodexChildCooldown date now c model = (case inspectResolvedCodexChild date now c model of Some (u, limited) \<Rightarrow> u | None \<Rightarrow> None)"

fun earliest_child :: "(string \<Rightarrow> time option) \<Rightarrow> time \<Rightarrow> codex_scope \<Rightarrow> (codex_connection \<times> string \<times> time) option \<Rightarrow> codex_connection list
    \<Rightarrow> (codex_connection \<times> string \<times> time) option" where
  "earliest_child date now scope best [] = best"
| "earliest_child date now scope best (c # cs) =
     (let until = getLegacyCooldown scope (cc_psd c)
      in earliest_child date now scope
           (case future_ms date now until of
              Some t \<Rightarrow> if (case best of Some (b, u, m) \<Rightarrow> t < m | None \<Rightarrow> True) then Some (c, nullish until [], t) else best
            | None \<Rightarrow> best) cs)"

definition getEarliestCodexChildCooldown ::
  "(string \<Rightarrow> time option) \<Rightarrow> time \<Rightarrow> codex_connection list \<Rightarrow> string option \<Rightarrow> (codex_account \<times> string) option" where
  "getEarliestCodexChildCooldown date now pools model =
     (if trim (nullish model []) = [] then None
      else let scope = getCodexModelScope model
           in map_option (\<lambda>(c, u, t). (Child scope c, u)) (earliest_child date now scope None pools))"

record codex_diagnostic =
  dg_status :: pool_status
  dg_limited :: nat
  dg_coolingDown :: bool
  dg_soonest :: int
  dg_observed :: nat

definition getCodexParentAccountDiagnostic :: "(string \<Rightarrow> time option) \<Rightarrow> time \<Rightarrow> json \<Rightarrow> codex_diagnostic" where
  "getCodexParentAccountDiagnostic date now psd =
     (let (status, limited) = getCodexAccountPoolState date now psd;
          times = List.map_filter (\<lambda>s. future_ms date now (getLegacyCooldown s psd)) CODEX_SCOPES
      in \<lparr>dg_status = status, dg_limited = length limited, dg_coolingDown = (status = Fully_limited),
          dg_soonest = (case times of [] \<Rightarrow> 0 | t # ts \<Rightarrow> max 0 (fold min ts t - now)),
          dg_observed = length (filter (\<lambda>s. hy_quotaState (getCodexChildQuotaHydration s psd) \<noteq> None) CODEX_SCOPES)\<rparr>)"

record window_view =
  wv_usage :: "rat option"
  wv_limit :: "rat option"
  wv_resetAt :: "string option"
  wv_used :: "rat option"

definition num_of :: "json \<Rightarrow> rat option" where
  "num_of v = (case v of JNum q \<Rightarrow> Some q | _ \<Rightarrow> None)"

definition window_field :: "string \<Rightarrow> codex_window \<Rightarrow> json \<Rightarrow> json" where
  "window_field k w quota = get_prop (k @ (case w of Five_hours \<Rightarrow> ''5h'' | Seven_days \<Rightarrow> ''7d'')) quota"

definition quotaWindow :: "json option \<Rightarrow> codex_window \<Rightarrow> window_view option" where
  "quotaWindow quota w =
     (case quota of None \<Rightarrow> None
      | Some q \<Rightarrow>
          let usage = num_of (window_field ''usage'' w q); cap = num_of (window_field ''limit'' w q); reset = str_of (window_field ''resetAt'' w q)
          in if usage = None \<and> cap = None \<and> nullish reset [] = [] then None
             else Some \<lparr>wv_usage = usage, wv_limit = cap, wv_resetAt = reset,
                        wv_used = (case (usage, cap) of (Some u, Some l) \<Rightarrow> if l > 0 then Some (u / l * 100) else None | _ \<Rightarrow> None)\<rparr>)"

record child_projection =
  cp_scope :: codex_scope
  cp_unavailable :: bool
  cp_until :: "string option"
  cp_exhaustedWindow :: "codex_window option"
  cp_observedAt :: "string option"
  cp_five :: "window_view option"
  cp_seven :: "window_view option"

definition project_child :: "(string \<Rightarrow> time option) \<Rightarrow> time \<Rightarrow> json \<Rightarrow> codex_scope \<Rightarrow> child_projection" where
  "project_child date now psd scope =
     (let h = getCodexChildQuotaHydration scope psd; until = getLegacyCooldown scope psd;
          cooling = (future_ms date now until \<noteq> None);
          exhaustedResetAt = Option.bind (hy_exhaustedWindow h)
            (\<lambda>w. Option.bind (hy_quotaState h) (\<lambda>q. str_of (window_field ''resetAt'' w q)));
          exhausted = (future_ms date now exhaustedResetAt \<noteq> None)
      in \<lparr>cp_scope = scope, cp_unavailable = (cooling \<or> exhausted), cp_until = (if cooling then until else None),
          cp_exhaustedWindow = (if exhausted then hy_exhaustedWindow h else None),
          cp_observedAt = Option.bind (hy_quotaState h) (\<lambda>q. str_of (get_prop ''observedAt'' q)),
          cp_five = quotaWindow (hy_quotaState h) Five_hours, cp_seven = quotaWindow (hy_quotaState h) Seven_days\<rparr>)"

definition projectCodexAccountPool :: "(string \<Rightarrow> time option) \<Rightarrow> time \<Rightarrow> json \<Rightarrow> pool_status \<times> nat \<times> child_projection list" where
  "projectCodexAccountPool date now psd =
     (let children = map (project_child date now psd) CODEX_SCOPES; n = length (filter cp_unavailable children)
      in (pool_status_of n, n, children))"

section \<open>The quota cache of a request\<close>

definition remainingPercent :: "json \<Rightarrow> json \<Rightarrow> rat option" where
  "remainingPercent usage cap =
     (case (js_number usage, js_number cap) of
        (Num u, Num l) \<Rightarrow> if l \<le> 0 then None else Some (clampPercent ((l - u) / l * 100))
      | _ \<Rightarrow> None)"

definition codex_window_name :: "codex_scope \<Rightarrow> codex_window \<Rightarrow> string" where
  "codex_window_name scope w =
     (case (scope, w) of (Spark, Five_hours) \<Rightarrow> CODEX_SPARK_QUOTA_SESSION | (Spark, Seven_days) \<Rightarrow> CODEX_SPARK_QUOTA_WEEKLY
        | (Codex, Five_hours) \<Rightarrow> ''session'' | (Codex, Seven_days) \<Rightarrow> ''weekly'')"

definition merge_window :: "codex_scope \<Rightarrow> json \<Rightarrow> codex_window \<Rightarrow> quotas \<Rightarrow> quotas" where
  "merge_window scope q w qs =
     (case remainingPercent (window_field ''usage'' w q) (window_field ''limit'' w q) of
        None \<Rightarrow> qs
      | Some r \<Rightarrow> map_set (codex_window_name scope w)
                    \<lparr>qi_remaining = r, qi_resetAt = str_of (window_field ''resetAt'' w q), qi_reported = True,
                     qi_displayName = None, qi_windowSeconds = None\<rparr> qs)"

definition mergeCodexPersistedQuota :: "codex_scope \<Rightarrow> json \<Rightarrow> quotas \<Rightarrow> quotas" where
  "mergeCodexPersistedQuota scope q qs = merge_window scope q Seven_days (merge_window scope q Five_hours qs)"

definition hydrateCodexQuotaCacheForRequest ::
  "(string \<Rightarrow> time option) \<Rightarrow> time \<Rightarrow> connection \<Rightarrow> string option \<Rightarrow> quota_cache \<Rightarrow> quota_cache" where
  "hydrateCodexQuotaCacheForRequest date now c model st =
     (if c_provider c \<noteq> ''codex'' \<or> trim (nullish model []) = [] then st
      else let scope = getCodexModelScope model; h = getCodexChildQuotaHydration scope (c_providerSpecificData c)
           in case hy_quotaState h of
                None \<Rightarrow> st
              | Some q \<Rightarrow>
                  let (found, st1) = hydrateQuotaCacheFromSnapshots date (c_id c) now st;
                      e = nullish found \<lparr>qe_provider = c_provider c, qe_quotas = [], qe_fetchedAt = now, qe_exhausted = False, qe_nextResetAt = None\<rparr>;
                      qs = mergeCodexPersistedQuota scope q (qe_quotas e);
                      win = Option.bind (hy_exhaustedWindow h)
                              (\<lambda>w. map_option (Pair (codex_window_name scope w)) (map_of qs (codex_window_name scope w)));
                      qs' = (case win of Some (n, x) \<Rightarrow> map_set n (x\<lparr>qi_remaining := 0\<rparr>) qs | None \<Rightarrow> qs);
                      reset = Option.bind win (\<lambda>(n, x). Option.bind (qi_resetAt x) nonempty)
                  in st1\<lparr>qc_entries := map_set (c_id c)
                       (e\<lparr>qe_quotas := qs', qe_exhausted := quotas_exhausted qs',
                          qe_nextResetAt := (if reset = None then qe_nextResetAt e else reset)\<rparr>) (qc_entries st1)\<rparr>)"

section \<open>Lemmas\<close>

lemma isRecord_simps [simp]: "isRecord (JObj m)" "isRecord (asRecord v)" "isRecord (set_prop k v x) = isRecord x"
    "isRecord (del_prop k x) = isRecord x" "isRecord (sub_record k v)"
  by (auto simp: isRecord_def asRecord_def sub_record_def split: json.splits; cases x; simp)+

lemma asRecord_id [simp]: "isRecord x \<Longrightarrow> asRecord x = x"
  by (simp add: asRecord_def)

lemma get_set [simp]: "isRecord x \<Longrightarrow> get_prop k (set_prop k' v x) = (if k = k' then v else get_prop k x)"
  by (cases x) (auto simp: get_prop_def isRecord_def)

lemma get_del [simp]: "get_prop k (del_prop k' x) = (if k = k' then JUndef else get_prop k x)"
  by (cases x) (auto simp: get_prop_def)

lemma sub_set [simp]: "isRecord x \<Longrightarrow> sub_record k (set_prop k' v x) = (if k = k' then asRecord v else sub_record k x)"
  by (simp add: sub_record_def)

lemma sub_del [simp]: "sub_record k (del_prop k' x) = (if k = k' then JObj [] else sub_record k x)"
  by (simp add: sub_record_def asRecord_def isRecord_def)

lemma isRecord_put [simp]: "isRecord (put_or_drop k v psd) = isRecord psd"
  by (simp add: put_or_drop_def split: option.split)

lemma sub_put [simp]:
  "isRecord psd \<Longrightarrow> isRecord r \<Longrightarrow> sub_record k (put_or_drop k' (omitEmptyRecord r) psd) = (if k = k' then r else sub_record k psd)"
  by (auto simp: put_or_drop_def omitEmptyRecord_def)

lemma isRecord_patches [simp]: "isRecord (patch_quota s q psd) = isRecord psd" "isRecord (patch_exhausted s w psd) = isRecord psd"
    "isRecord (patch_cooldown date now s l src psd) = isRecord psd" "isRecord (lift_exhausted s b psd) = isRecord psd"
  by (auto simp: patch_quota_def patch_exhausted_def patch_cooldown_def lift_exhausted_def Let_def split: option.splits prod.splits)

text \<open>The other patches leave the cooldowns alone.\<close>

lemma patch_other:
  assumes "isRecord psd" and "k = ''codexScopeRateLimitedUntil'' \<or> k = ''codexScopeRateLimitSource''"
  shows "sub_record k (patch_exhausted s w (patch_quota s q psd)) = sub_record k psd"
    "sub_record k (lift_exhausted s b psd) = sub_record k psd"
  using assms by (auto simp: patch_quota_def patch_exhausted_def lift_exhausted_def split: option.splits)

section \<open>A deadline holds\<close>

definition reset_until :: "codex_scope \<Rightarrow> string \<Rightarrow> json \<Rightarrow> bool" where
  "reset_until scope u psd \<longleftrightarrow> get_prop (scope_name scope) (sub_record ''codexScopeRateLimitedUntil'' psd) = JStr u
     \<and> get_prop (scope_name scope) (sub_record ''codexScopeRateLimitSource'' psd) = JStr ''quota_reset''"

lemma scope_name_inj [simp]: "scope_name s = scope_name s' \<longleftrightarrow> s = s'"
  by (cases s; cases s') (auto simp: scope_name_def)

lemma patched_keeps:
  assumes "isRecord psd" and "reset_until scope u psd" and "date u = Some d" and "now < d"
    and "s = scope \<Longrightarrow> (\<forall>l. pt_rateLimitedUntil p = Some l \<longrightarrow> nullish l [] \<noteq> []) \<and> pt_source p \<noteq> Some ''quota_reset''"
  shows "reset_until scope u (patched date now (scope_name s) p psd)"
  using assms
  by (auto simp: patched_def patch_cooldown_def reset_until_def authoritative_def patch_other str_of_def Let_def split: option.split prod.split)

lemma lifted_keeps: "isRecord psd \<Longrightarrow> reset_until scope u psd \<Longrightarrow> s \<noteq> scope \<Longrightarrow> reset_until scope u (lifted (scope_name s) psd)"
  by (auto simp: lifted_def reset_until_def patch_other)

lemma authority: "reset_until scope u psd \<Longrightarrow> date u = Some d \<Longrightarrow> now < d \<Longrightarrow> still_authoritative date now (scope_name scope) psd"
  by (auto simp: reset_until_def still_authoritative_def str_of_def QUOTA_RESET_CLOCK_SKEW_GRACE_MS_def)

datatype codex_event = Response string "(string \<times> string) list" int "string option" | Guess string string | Headroom codex_scope

fun codex_step :: "(string \<Rightarrow> time option) \<Rightarrow> (time \<Rightarrow> string) \<Rightarrow> string \<Rightarrow> codex_rows \<Rightarrow> time \<times> codex_event \<Rightarrow> codex_rows" where
  "codex_step date toISO i rows (now, Response model hs status fallback) =
     snd (persistCodexChildQuotaResponse date toISO now i model hs status fallback rows)"
| "codex_step date toISO i rows (now, Guess model until) = snd (persistCodexChildCooldown date now i model until rows)"
| "codex_step date toISO i rows (now, Headroom scope) = snd (liftCodexScopeCooldownOnHeadroom date now i scope rows)"

text \<open>A response about the scope that succeeds, or that gives another deadline, decides anew; an empty guess is none.\<close>

fun decides :: "(string \<Rightarrow> time option) \<Rightarrow> codex_scope \<Rightarrow> time \<times> codex_event \<Rightarrow> bool" where
  "decides date scope (now, Response model hs status fallback) =
     (getCodexModelScope (Some model) = scope \<and> (status = 200 \<or>
        (\<exists>q. parseCodexQuotaHeaders hs = Some q \<and> fst (response_limit date now q status fallback) \<noteq> None)))"
| "decides date scope (now, Guess model until) = (getCodexModelScope (Some model) = scope \<and> until = [])"
| "decides date scope (now, Headroom s) = False"

definition row_until :: "string \<Rightarrow> codex_scope \<Rightarrow> string \<Rightarrow> codex_rows \<Rightarrow> bool" where
  "row_until i scope u rows \<longleftrightarrow> (\<exists>r. map_of rows i = Some r \<and> cr_provider r = ''codex'' \<and> reset_until scope u (asRecord (cr_psd r)))"

lemma update_keeps:
  assumes "row_until i scope u rows" and "date u = Some d" and "now < d"
    and "s = scope \<Longrightarrow> (\<forall>l. pt_rateLimitedUntil p = Some l \<longrightarrow> nullish l [] \<noteq> []) \<and> pt_source p \<noteq> Some ''quota_reset''"
  shows "row_until i scope u (snd (updateCodexScopedQuotaState date now i s p rows))"
proof -
  obtain r where r: "map_of rows i = Some r" "cr_provider r = ''codex''" "reset_until scope u (asRecord (cr_psd r))"
    using assms(1) by (auto simp: row_until_def)
  have k: "reset_until scope u (patched date now (scope_name s) p (asRecord (cr_psd r)))"
    using assms(2-4) by (intro patched_keeps [OF _ r(3)]) simp_all
  have "isRecord (patched date now (scope_name s) p (asRecord (cr_psd r)))" by (simp add: patched_def)
  then show ?thesis using r k by (auto simp: updateCodexScopedQuotaState_def row_until_def Let_def)
qed

lemma codex_step_keeps:
  assumes "row_until i scope u rows" and "date u = Some d" and "fst e < d" and "\<not> decides date scope e"
  shows "row_until i scope u (codex_step date toISO i rows e)"
proof -
  obtain now x where e: "e = (now, x)" by (cases e)
  show ?thesis
  proof (cases x)
    case (Response model hs status fallback)
    let ?s = "getCodexModelScope (Some model)"
    have "row_until i scope u (snd (updateCodexScopedQuotaState date now i ?s (response_patch date toISO now q status fallback) rows))"
      if "parseCodexQuotaHeaders hs = Some q" for q
      using assms that unfolding e Response
      by (intro update_keeps [where d = d]) (auto simp: response_patch_def split: prod.splits if_splits)
    then show ?thesis
      using assms(1) by (auto simp: e Response persistCodexChildQuotaResponse_def Let_def split: option.split prod.splits)
  next
    case (Guess model until)
    have "row_until i scope u (snd (updateCodexScopeCooldown date now i (getCodexModelScope (Some model)) until rows))"
      using assms unfolding e Guess updateCodexScopeCooldown_def by (intro update_keeps [where d = d]) auto
    then show ?thesis using assms(1) by (auto simp: e Guess persistCodexChildCooldown_def Let_def split: prod.splits)
  next
    case (Headroom s)
    obtain r where r: "map_of rows i = Some r" "cr_provider r = ''codex''" "reset_until scope u (asRecord (cr_psd r))"
      using assms(1) by (auto simp: row_until_def)
    have "isRecord (lifted (scope_name s) (asRecord (cr_psd r)))" by (simp add: lifted_def)
    then show ?thesis
      using assms r authority [where date = date and d = d and now = now, OF r(3)] lifted_keeps [OF _ r(3), of s]
      by (auto simp: e Headroom liftCodexScopeCooldownOnHeadroom_def row_until_def)
  qed
qed

lemma codex_run_keeps:
  assumes "row_until i scope u rows" and "date u = Some d" and "\<forall>e \<in> set es. fst e < d \<and> \<not> decides date scope e"
  shows "row_until i scope u (foldl (codex_step date toISO i) rows es)"
  using assms(1,3)
proof (induction es arbitrary: rows)
  case (Cons e es)
  have "row_until i scope u (codex_step date toISO i rows e)"
    using Cons.prems by (intro codex_step_keeps [where d = d] assms(2)) simp_all
  then show ?case using Cons by simp
qed simp

text \<open>
  C99. A deadline that upstream gave holds: once a child carries a cooldown from a quota reset, it stays unavailable
  until that time through any sequence of responses, guessed cooldowns and headroom snapshots, on either child of the
  connection, as long as no response about this child succeeds or brings another deadline. So a shorter guess does
  not replace it, a local snapshot with headroom does not lift it, and what concerns the sibling does not touch it.
\<close>

theorem deadline_holds:
  assumes "map_of rows i = Some r" and "cr_provider r = ''codex''" and "reset_until scope u (asRecord (cr_psd r))"
    and "date u = Some d" and "trim u \<noteq> []" and "\<forall>e \<in> set es. fst e < d \<and> \<not> decides date scope e"
    and "getCodexModelScope (Some model) = scope" and "trim model \<noteq> []" and "now < d"
  shows "\<exists>r'. map_of (foldl (codex_step date toISO i) rows es) i = Some r'
    \<and> isCodexChildUnavailable date now \<lparr>cc_id = i, cc_psd = asRecord (cr_psd r')\<rparr> (Some model)"
proof -
  have "row_until i scope u rows" using assms(1-3) by (simp add: row_until_def)
  from codex_run_keeps [where date = date, OF this assms(4,6)] obtain r' where
    r': "map_of (foldl (codex_step date toISO i) rows es) i = Some r'" "reset_until scope u (asRecord (cr_psd r'))"
    by (auto simp: row_until_def)
  have "u \<noteq> []" using assms(5) by (auto simp: trim_def)
  then have "future_ms date now (getLegacyCooldown scope (asRecord (cr_psd r'))) = Some d"
    using r'(2) assms(4,5,9) by (simp add: getLegacyCooldown_def reset_until_def future_ms_def)
  then have "isCodexChildUnavailable date now \<lparr>cc_id = i, cc_psd = asRecord (cr_psd r')\<rparr> (Some model)"
    using assms(7,8) by (simp add: isCodexChildUnavailable_def inspectResolvedCodexChild_def resolveCodexAccount_def
        inspectCodexAccount_def child_limited_def)
  then show ?thesis using r'(1) by blast
qed

definition full_headers :: "string \<Rightarrow> (string \<times> string) list" where
  "full_headers reset = [(''x-codex-5h-usage'', ''99''), (''x-codex-5h-limit'', ''100''), (''x-codex-5h-reset-at'', reset)]"

definition codex_rows0 :: codex_rows where
  "codex_rows0 = [(''c'', \<lparr>cr_provider = ''codex'', cr_psd = JObj [], cr_rateLimitedUntil = None\<rparr>)]"

definition limited_rows :: codex_rows where
  "limited_rows = codex_step plain_date plain_iso ''c'' codex_rows0 (0, Response ''gpt-5'' (full_headers ''+900'') 429 None)"

lemma deadline_holds_witness:
  "\<exists>r'. map_of (foldl (codex_step plain_date plain_iso ''c'') limited_rows [(1, Guess ''gpt-5'' ''+100''), (2, Headroom Codex), (3, Response ''spark'' (full_headers ''+50'') 200 None)]) ''c''
       = Some r' \<and> isCodexChildUnavailable plain_date 700 \<lparr>cc_id = ''c'', cc_psd = asRecord (cr_psd r')\<rparr> (Some ''gpt-5'')"
proof -
  let ?r = "the (map_of limited_rows ''c'')"
  have r: "map_of limited_rows ''c'' = Some ?r" "cr_provider ?r = ''codex''" "reset_until Codex ''+900'' (asRecord (cr_psd ?r))" by code_simp+
  have m: "plain_date ''+900'' = Some 900" "trim ''+900'' \<noteq> []" "getCodexModelScope (Some ''gpt-5'') = Codex" "trim ''gpt-5'' \<noteq> []"
    by code_simp+
  have "getCodexModelScope (Some ''spark'') = Spark" by code_simp
  then have e: "\<forall>e \<in> set [(1, Guess ''gpt-5'' ''+100''), (2, Headroom Codex), (3, Response ''spark'' (full_headers ''+50'') 200 None)].
      fst e < 900 \<and> \<not> decides plain_date Codex e" by simp
  show ?thesis using deadline_holds [OF r m(1,2) e m(3,4), of 700 plain_iso] by simp
qed

section \<open>What a response reports reads back\<close>

lemma get_put [simp]: "isRecord psd \<Longrightarrow> k \<noteq> k' \<Longrightarrow> get_prop k (put_or_drop k' v psd) = get_prop k psd"
  by (simp add: put_or_drop_def split: option.split)

lemma sub_cooldown:
  "isRecord psd \<Longrightarrow> k \<noteq> ''codexScopeRateLimitedUntil'' \<Longrightarrow> k \<noteq> ''codexScopeRateLimitSource'' \<Longrightarrow>
    get_prop k (patch_cooldown date now s l src psd) = get_prop k psd"
  by (simp add: patch_cooldown_def Let_def split: option.split prod.split)

lemma patched_quota:
  assumes "isRecord psd" and "pt_quotaState p = Some q"
  shows "sub_record ''codexQuotaStateByScope'' (patched date now s p psd) = set_prop s q (sub_record ''codexQuotaStateByScope'' psd)"
  using assms by (simp add: patched_def sub_record_def sub_cooldown patch_exhausted_def patch_quota_def split: option.split)

lemma patched_exhausted:
  assumes "isRecord psd" and "pt_exhaustedWindow p = Some w"
  shows "get_prop s (sub_record ''codexExhaustedWindowByScope'' (patched date now s p psd)) = (case w of Some x \<Rightarrow> window_json x | None \<Rightarrow> JUndef)"
    "w = None \<Longrightarrow> get_prop ''codexExhaustedWindow'' (patched date now s p psd) = JUndef"
  using assms by (simp_all add: patched_def sub_record_def sub_cooldown patch_exhausted_def patch_quota_def split: option.split)

text \<open>
  C99. A response reads back: after the quota headers of a response to a model are stored, the child that owns the
  model reads the same quota state and the same exhausted window, none where the response reported none, whatever
  the row held before under the keys by scope and under the older keys without one.
\<close>

theorem response_reads_back:
  assumes "map_of rows i = Some r" and "cr_provider r = ''codex''" and "trim model \<noteq> []" and "parseCodexQuotaHeaders hs = Some q"
    and "getCodexModelScope (Some model) = scope"
    and "persistCodexChildQuotaResponse date toISO now i model hs status fallback rows = (res, rows')"
  shows "\<exists>psd. res = Some (scope, psd) \<and> map_of rows' i = Some (r\<lparr>cr_psd := psd\<rparr>)
    \<and> hy_quotaState (getCodexChildQuotaHydration scope psd) = Some (quota_state_json toISO now q)
    \<and> hy_exhaustedWindow (getCodexChildQuotaHydration scope psd) = fst (response_limit date now q status fallback)"
proof -
  let ?p = "response_patch date toISO now q status fallback"
  let ?psd = "patched date now (scope_name scope) ?p (asRecord (cr_psd r))"
  have res: "res = Some (scope, ?psd)" "map_of rows' i = Some (r\<lparr>cr_psd := ?psd\<rparr>)"
    using assms by (auto simp: persistCodexChildQuotaResponse_def updateCodexScopedQuotaState_def Let_def)
  have p: "pt_quotaState ?p = Some (quota_state_json toISO now q)" "pt_exhaustedWindow ?p = Some (fst (response_limit date now q status fallback))"
    by (simp_all add: response_patch_def split: prod.split)
  have "asQuotaState (quota_state_json toISO now q) = Some (quota_state_json toISO now q)"
    by (simp add: asQuotaState_def quota_state_json_def omitEmptyRecord_def)
  then have "hy_quotaState (getCodexChildQuotaHydration scope ?psd) = Some (quota_state_json toISO now q)"
    by (simp add: getCodexChildQuotaHydration_def Let_def patched_quota [OF _ p(1)])
  moreover have "asExhaustedWindow (window_json w) = Some w" for w by (cases w) (simp_all add: asExhaustedWindow_def window_json_def)
  moreover have "asExhaustedWindow JUndef = None" by (simp add: asExhaustedWindow_def)
  ultimately have "hy_exhaustedWindow (getCodexChildQuotaHydration scope ?psd) = fst (response_limit date now q status fallback)"
    using patched_exhausted(2) [OF _ p(2)]
    by (simp add: getCodexChildQuotaHydration_def Let_def patched_exhausted(1) [OF _ p(2)] split: option.split)
  with \<open>hy_quotaState (getCodexChildQuotaHydration scope ?psd) = Some (quota_state_json toISO now q)\<close> show ?thesis using res by blast
qed

lemma response_reads_back_witness:
  "\<exists>psd. fst (persistCodexChildQuotaResponse plain_date plain_iso 0 ''c'' ''gpt-5'' (full_headers ''+900'') 429 None codex_rows0) = Some (Codex, psd)
     \<and> hy_exhaustedWindow (getCodexChildQuotaHydration Codex psd) = Some Five_hours"
proof -
  let ?h = "full_headers ''+900''"
  let ?r = "\<lparr>cr_provider = ''codex'', cr_psd = JObj [], cr_rateLimitedUntil = None\<rparr>"
  let ?q = "the (parseCodexQuotaHeaders ?h)"
  have "map_of codex_rows0 ''c'' = Some ?r" "cr_provider ?r = ''codex''" "trim ''gpt-5'' \<noteq> []" "parseCodexQuotaHeaders ?h = Some ?q"
    "getCodexModelScope (Some ''gpt-5'') = Codex" by code_simp+
  from response_reads_back [OF this prod.collapse [symmetric], of plain_date plain_iso 0 429 None]
  obtain psd where "fst (persistCodexChildQuotaResponse plain_date plain_iso 0 ''c'' ''gpt-5'' ?h 429 None codex_rows0) = Some (Codex, psd)"
    "hy_exhaustedWindow (getCodexChildQuotaHydration Codex psd) = fst (response_limit plain_date 0 ?q 429 None)" by auto
  moreover have "fst (response_limit plain_date 0 ?q 429 None) = Some Five_hours" by code_simp
  ultimately show ?thesis by auto
qed

section \<open>What modelling showed\<close>

text \<open>
  Where both windows are full and the weekly one resets first, the cooldown ends with the weekly reset, while the
  window of five hours is still full.
\<close>

lemma weekly_reset_hides_five_hours:
  "let q = \<lparr>usage5h = Num 100, limit5h = Num 100, resetAt5h = Some ''+9000'', usage7d = Num 100, limit7d = Num 100, resetAt7d = Some ''+1000''\<rparr>
   in getCodexDualWindowCooldownMs plain_date 0 q (95 / 100) = Some (1000, Seven_days) \<and> getCodexResetTime plain_date 0 q = Some 9000"
  by code_simp

text \<open>
  Where both children are exhausted, the lift of one leaves the older key without a scope, so the lifted child still
  reads as exhausted.
\<close>

lemma lift_leaves_older_key:
  "let rows = foldl (codex_step plain_date plain_iso ''c'') codex_rows0
       [(0, Response ''spark'' (full_headers ''+900000'') 429 None), (1, Response ''gpt-5'' (full_headers ''+900'') 429 None), (60000, Headroom Codex)];
       psd = cr_psd (the (map_of rows ''c''))
   in getLegacyCooldown Codex psd = None \<and> get_prop ''codex'' (sub_record ''codexExhaustedWindowByScope'' psd) = JUndef
    \<and> hy_exhaustedWindow (getCodexChildQuotaHydration Codex psd) = Some Five_hours"
  by code_simp

end
