(* ===== verification/AccountSelection.thy ===== *)
theory AccountSelection
  imports SessionAffinity OAuthOccupancy QuotaPolicy PeakHour Wildcard ConnectionLease ShuffleDeck ModelLockout CodexAccounts
begin

text \<open>
  The selection of an account: \<open>getProviderCredentials\<close> of \<open>src/src/sse/services/auth.ts\<close>, from the pool of connections to
  the claimed one.

  \<^item> A run is atomic, as the lock of the selection makes it for one provider and owner; \<open>now\<close> is its time.
  \<^item> The environment gives what other modules say: free models, drained Alibaba models, synced inventories,
    and whether a synthetic or an environment credential would take over. A provider that needs no credential, whose
    request is answered before the selection, is left out; the locks that are rebuilt from the rows are in the state.
  \<^item> The state holds the cached rows, as views, and the states of the modules that take part. Writes of the last use
    and of the backoff to the rows in the database are returned as lists.
  \<^item> What the queries tidy on the way is not written back: rows rehydrated into the quota cache, marks lifted there whose
    window has ended, expired locks and occupancies dropped. Every later query treats such entries in the same way.
  \<^item> The retry after a lost claim is answered as \<open>Retry_excluding\<close>: the same call again, without that account and
    with the candidates frozen.
  \<^item> Where accounts of different kinds are mixed, the comparator of the order is not consistent, and the order is up to
    the engine; the theorems do not depend on it there.

  The lemmas: what is selected has passed every filter; the rotation by least use serves every account.
\<close>

section \<open>Environment and state\<close>

record selection_env =
  se_date :: "string \<Rightarrow> time option"
  se_toISO :: "time \<Rightarrow> string"
  se_sha256 :: "string \<Rightarrow> string"
  se_collate :: "string \<Rightarrow> string \<Rightarrow> rat"
  se_canonical :: "string \<Rightarrow> string"
  se_isFree :: "string \<Rightarrow> bool"
  se_drained :: "string \<Rightarrow> json \<Rightarrow> string \<Rightarrow> bool"
  se_advertised :: "string \<Rightarrow> string list option"
  se_synthetic :: bool
  se_envCredentials :: bool

record selection_options =
  so_affinity :: affinity_options
  so_forced :: "string option"
  so_lease :: "lease_context option"
  so_reserveOAuth :: bool
  so_materialize :: bool
  so_deferClaim :: bool
  so_candidateIds :: "string list option"

record selection_request =
  sr_provider :: string
  sr_exclude :: "string option"
  sr_excludeMore :: "string list"
  sr_allowed :: "string list option"
  sr_model :: "string option"
  sr_options :: selection_options
  sr_resolvedId :: string
  sr_settings :: json
  sr_draws :: "nat \<times> nat"
  sr_shuffle :: "nat \<Rightarrow> nat"
  sr_exchange :: nat

record selection_state =
  ss_rows :: "connection list"
  ss_allRows :: "connection list"
  ss_pins :: pins
  ss_quota :: quota_cache
  ss_leases :: "lease list"
  ss_oauth :: oauth_state
  ss_decks :: "(string \<times> shuffle_deck) list"
  ss_locks :: lockouts
  ss_uses :: "(string \<times> rat) list"
  ss_backoffResets :: "string list"

datatype selection =
    Selected connection "lease option" "nat option"
  | Deferred connection "nat option" "selection_state \<Rightarrow> selection_state"
  | Lease_only lease string
  | All_rate_limited string json "string option"
  | All_expired nat
  | Synthetic
  | Env_credentials
  | No_credentials
  | Waiting_for_capacity "time option" nat
  | Lease_refused lease_error
  | Retry_excluding string
  | Selection_throws

section \<open>The pool\<close>

definition normalizeExcludedConnectionIds :: "string option \<Rightarrow> string list \<Rightarrow> string set" where
  "normalizeExcludedConnectionIds exclude extras = set (filter (\<lambda>s. s \<noteq> []) (map trim (nullish exclude [] # extras)))"

definition allowed_only :: "string list option \<Rightarrow> connection list \<Rightarrow> connection list" where
  "allowed_only allowed cs = (case allowed of Some ids \<Rightarrow> if ids = [] then cs else filter (\<lambda>c. c_id c \<in> set ids) cs | None \<Rightarrow> cs)"

definition forced_id :: "selection_options \<Rightarrow> string option" where
  "forced_id opts = nonempty (trim (nullish (so_forced opts) []))"

definition is_excluded :: "selection_request \<Rightarrow> string set" where
  "is_excluded rq = normalizeExcludedConnectionIds (sr_exclude rq) (sr_excludeMore rq)"

definition allow_suppressed :: "selection_request \<Rightarrow> bool" where
  "allow_suppressed rq = ao_allowSuppressed (so_affinity (sr_options rq))"

definition allow_rate_limited :: "selection_request \<Rightarrow> bool" where
  "allow_rate_limited rq = (allow_suppressed rq \<or> ao_allowRateLimited (so_affinity (sr_options rq)))"

definition bypass_policy :: "selection_request \<Rightarrow> bool" where
  "bypass_policy rq = ao_bypassQuotaPolicy (so_affinity (sr_options rq))"

definition model_of :: "selection_request \<Rightarrow> string" where
  "model_of rq = nullish (sr_model rq) []"

definition policy_blocked :: "selection_env \<Rightarrow> time \<Rightarrow> quota_cache \<Rightarrow> selection_request \<Rightarrow> connection \<Rightarrow> bool" where
  "policy_blocked env now qc rq c =
     pv_blocked (evaluateQuotaLimitPolicy (se_date env) (se_collate env) now qc (sr_provider rq) c (sr_model rq))"

definition request_exhausted :: "selection_env \<Rightarrow> time \<Rightarrow> quota_cache \<Rightarrow> selection_request \<Rightarrow> string \<Rightarrow> json \<Rightarrow> bool" where
  "request_exhausted env now qc rq i psd =
     fst (isQuotaExhaustedForRequest (se_date env) (se_collate env) i (sr_provider rq) (sr_model rq) psd now qc)"

definition codex_of :: "connection \<Rightarrow> codex_connection" where
  "codex_of c = \<lparr>cc_id = c_id c, cc_psd = c_providerSpecificData c\<rparr>"

definition codex_unavailable :: "selection_env \<Rightarrow> time \<Rightarrow> selection_request \<Rightarrow> connection \<Rightarrow> string option \<Rightarrow> bool" where
  "codex_unavailable env now rq c m \<longleftrightarrow> sr_provider rq = ''codex'' \<and> isCodexChildUnavailable (se_date env) now (codex_of c) m"

definition model_locked :: "selection_env \<Rightarrow> time \<Rightarrow> lockouts \<Rightarrow> string \<Rightarrow> string \<Rightarrow> string \<Rightarrow> bool" where
  "model_locked env now locks provider i model = fst (isModelLocked (se_canonical env) now provider i model locks)"

definition pin_verdicts :: "selection_env \<Rightarrow> time \<Rightarrow> selection_state \<Rightarrow> selection_request \<Rightarrow> verdicts" where
  "pin_verdicts env now st rq =
     \<lparr>v_modelExcluded = (\<lambda>m psd. isModelExcludedByConnection (JStr m) psd),
      v_terminal = isTerminalConnectionStatus,
      v_codexScope = codex_unavailable env now rq,
      v_modelLocked = (\<lambda>p i m. model_locked env now (ss_locks st) p i m),
      v_quotaExhausted = (\<lambda>i. fst (isAccountQuotaExhausted (se_date env) i now (ss_quota st))),
      v_policyBlocked = policy_blocked env now (ss_quota st) rq\<rparr>"

definition psd_of :: "string \<Rightarrow> connection list \<Rightarrow> json" where
  "psd_of i cs = (case find (\<lambda>c. c_id c = i) cs of Some c \<Rightarrow> c_providerSpecificData c | None \<Rightarrow> JUndef)"

definition allowed_rows :: "selection_request \<Rightarrow> selection_state \<Rightarrow> connection list" where
  "allowed_rows rq st = allowed_only (sr_allowed rq) (filter (\<lambda>c. c_id c \<noteq> []) (ss_rows st))"

text \<open>A pin outranks the forced connection.\<close>

definition pin_stage ::
  "selection_env \<Rightarrow> time \<Rightarrow> selection_request \<Rightarrow> rat \<Rightarrow> connection list \<Rightarrow> selection_state \<Rightarrow> string option \<times> pins" where
  "pin_stage env now rq ttl cs st =
     (if so_lease (sr_options rq) \<noteq> None then (forced_id (sr_options rq), ss_pins st)
      else let (pin, pins1) = applySessionAffinityPin (se_date env) (se_sha256 env) now (pin_verdicts env now st rq) (forced_id (sr_options rq))
                                (so_affinity (sr_options rq)) ttl cs (sr_provider rq) (sr_model rq) (is_excluded rq) (ss_pins st)
           in (case pin of Some p \<Rightarrow> Some p | None \<Rightarrow> forced_id (sr_options rq), pins1))"

text \<open>The connections that are left, and the forced connection that stays.\<close>

definition forced_pool ::
  "selection_env \<Rightarrow> time \<Rightarrow> selection_request \<Rightarrow> selection_state \<Rightarrow> string option \<Rightarrow> connection list \<Rightarrow> connection list \<times> string option" where
  "forced_pool env now rq st forced cs =
     (if isForcedConnectionMissingFromPool forced (is_excluded rq) cs then ([], forced)
      else let kept = resolveForcedConnectionForCredentialPool (se_date env) now forced (is_excluded rq) cs (allow_rate_limited rq)
                        (bypass_policy rq) (\<lambda>i. request_exhausted env now (ss_quota st) rq i (psd_of i cs))
                        (policy_blocked env now (ss_quota st) rq)
           in (case kept of Some f \<Rightarrow> filter (\<lambda>c. c_id c = f) cs | None \<Rightarrow> cs, kept))"

definition invalidate_managed :: "selection_request \<Rightarrow> end_reason \<Rightarrow> time \<Rightarrow> selection_state \<Rightarrow> selection_state" where
  "invalidate_managed rq reason now st =
     st\<lparr>ss_leases := invalidateManagedConnectionLease (so_lease (sr_options rq)) reason now (ss_leases st)\<rparr>"

text \<open>No connection in the pool.\<close>

definition all_rows :: "selection_request \<Rightarrow> string option \<Rightarrow> selection_state \<Rightarrow> connection list" where
  "all_rows rq forced st =
     (let rows = allowed_only (sr_allowed rq) (filter (\<lambda>c. c_id c \<noteq> []) (ss_allRows st))
      in case forced of Some f \<Rightarrow> filter (\<lambda>c. c_id c = f) rows | None \<Rightarrow> rows)"

definition no_credentials :: "selection_env \<Rightarrow> time \<Rightarrow> selection_request \<Rightarrow> selection_state \<Rightarrow> selection \<times> selection_state" where
  "no_credentials env now rq st =
     (if se_synthetic env then (Synthetic, st)
      else if se_envCredentials env then (Env_credentials, st)
      else (No_credentials, invalidate_managed rq CONNECTION_INELIGIBLE now st))"

definition all_expired :: "selection_env \<Rightarrow> time \<Rightarrow> selection_request \<Rightarrow> connection list \<Rightarrow> selection_state \<Rightarrow> selection \<times> selection_state" where
  "all_expired env now rq cs st =
     (if se_synthetic env then Synthetic else All_expired (length cs), invalidate_managed rq AUTHORIZATION_CHANGED now st)"

definition empty_pool_result ::
  "selection_env \<Rightarrow> time \<Rightarrow> selection_request \<Rightarrow> string option \<Rightarrow> selection_state \<Rightarrow> selection \<times> selection_state" where
  "empty_pool_result env now rq forced st =
     (let cs = all_rows rq forced st
      in if cs = [] then no_credentials env now rq st
         else case getEarliestRateLimitedUntil (se_date env) now cs of
                Some ms \<Rightarrow> (All_rate_limited (isoFromMs (se_toISO env) ms) JUndef None, invalidate_managed rq HEALTH_OR_COOLDOWN now st)
              | None \<Rightarrow> if list_all isTerminalConnectionStatus cs then all_expired env now rq cs st else no_credentials env now rq st)"

section \<open>Filters\<close>

definition decays :: "selection_env \<Rightarrow> time \<Rightarrow> connection \<Rightarrow> bool" where
  "decays env now c \<longleftrightarrow> c_backoffLevel c > 0 \<and> \<not> isTerminalConnectionStatus c
     \<and> \<not> isAccountUnavailable (se_date env) now (c_rateLimitedUntil c)"

definition decay_backoff :: "selection_env \<Rightarrow> time \<Rightarrow> connection \<Rightarrow> connection" where
  "decay_backoff env now c = (if decays env now c then c\<lparr>c_backoffLevel := 0\<rparr> else c)"

datatype filter_status = Excluded | Model_excluded | Model_not_advertised | Rate_limited | Terminal_status | Codex_scope_limited
  | Model_locked | Available

definition connection_status :: "selection_env \<Rightarrow> time \<Rightarrow> selection_request \<Rightarrow> selection_state \<Rightarrow> connection \<Rightarrow> filter_status" where
  "connection_status env now rq st c =
     (let m = model_of rq in
      if c_id c \<in> is_excluded rq then Excluded
      else if m \<noteq> [] \<and> isModelExcludedByConnection (JStr m) (c_providerSpecificData c) then Model_excluded
      else if m \<noteq> [] \<and> \<not> isModelAdvertisedByConnection (JStr m) (se_advertised env (c_id c)) then Model_not_advertised
      else if allow_suppressed rq then Available
      else if \<not> allow_rate_limited rq \<and> isAccountUnavailable (se_date env) now (c_rateLimitedUntil c) then Rate_limited
      else if isTerminalConnectionStatusForModel (se_isFree env) c (sr_provider rq) (sr_model rq) then Terminal_status
      else if codex_unavailable env now rq c (sr_model rq) then Codex_scope_limited
      else if m \<noteq> [] \<and> (model_locked env now (ss_locks st) (sr_provider rq) (c_id c) m
                         \<or> se_drained env (sr_provider rq) (c_providerSpecificData c) m) then Model_locked
      else Available)"

definition stored_project :: "connection \<Rightarrow> bool" where
  "stored_project c \<longleftrightarrow> trim (nullish (c_projectId c) []) \<noteq> []
     \<or> (case get_prop ''projectId'' (c_providerSpecificData c) of JStr s \<Rightarrow> trim s \<noteq> [] | _ \<Rightarrow> False)"

definition preferAntigravityConnectionsWithStoredProject :: "connection list \<Rightarrow> connection list" where
  "preferAntigravityConnectionsWithStoredProject cs =
     (if length cs \<le> 1 then cs
      else let known = filter (\<lambda>c. c_errorCode c \<noteq> JStr ''missing_project_id'' \<or> stored_project c) cs;
               pool = (if known \<noteq> [] then known else cs);
               withStored = filter stored_project pool
           in if withStored \<noteq> [] \<and> length withStored < length pool then withStored else pool)"

definition prefer_project :: "selection_request \<Rightarrow> connection list \<Rightarrow> connection list" where
  "prefer_project rq cs =
     (if sr_provider rq = ''antigravity'' \<or> sr_provider rq = ''agy''
      then let p = preferAntigravityConnectionsWithStoredProject cs in if p \<noteq> [] then p else cs
      else cs)"

definition NON_RETRYABLE_MODEL_LOCKOUT_REASONS :: "string list" where
  "NON_RETRYABLE_MODEL_LOCKOUT_REASONS = [''not_found'', ''not_found_local'']"

section \<open>Why there is none\<close>

definition isRetryableModelLockoutReason :: "string \<Rightarrow> bool" where
  "isRetryableModelLockoutReason reason \<longleftrightarrow> reason \<noteq> [] \<and> reason \<notin> set NON_RETRYABLE_MODEL_LOCKOUT_REASONS"

record cooldown_state =
  cs_connection :: connection
  cs_connectionMs :: "rat option"
  cs_codexMs :: "rat option"
  cs_modelMs :: "rat option"

definition cooldown_of :: "selection_env \<Rightarrow> time \<Rightarrow> selection_request \<Rightarrow> lockouts \<Rightarrow> connection \<Rightarrow> cooldown_state" where
  "cooldown_of env now rq locks c =
     \<lparr>cs_connection = c, cs_connectionMs = parseFutureDateMs (se_date env) now (c_rateLimitedUntil c),
      cs_codexMs = (if sr_provider rq = ''codex''
                    then parseFutureDateMs (se_date env) now (getCodexChildCooldown (se_date env) now (codex_of c) (sr_model rq)) else None),
      cs_modelMs = (if model_of rq = [] then None
                    else case fst (getModelLockoutInfo (se_canonical env) now (sr_provider rq) (c_id c) (model_of rq) locks) of
                           Some info \<Rightarrow> if remainingMs info > 0 \<and> isRetryableModelLockoutReason (i_reason info)
                                        then Some (of_int (now + remainingMs info)) else None
                         | None \<Rightarrow> None)\<rparr>"

definition cooldown_times :: "cooldown_state \<Rightarrow> (rat \<times> connection) list" where
  "cooldown_times s = map (\<lambda>ms. (ms, cs_connection s)) (List.map_filter id [cs_connectionMs s, cs_codexMs s, cs_modelMs s])"

definition blocked_by_model :: "cooldown_state \<Rightarrow> bool" where
  "blocked_by_model s \<longleftrightarrow> (cs_codexMs s \<noteq> None \<or> cs_modelMs s \<noteq> None) \<and> cs_connectionMs s = None"

definition json_or :: "json \<Rightarrow> json \<Rightarrow> json" where
  "json_or a b = (if json_truthy a then a else b)"

text \<open>None of the connections of the pool is available.\<close>

definition unavailable_result ::
  "selection_env \<Rightarrow> time \<Rightarrow> selection_request \<Rightarrow> connection list \<Rightarrow> selection_state \<Rightarrow> selection \<times> selection_state" where
  "unavailable_result env now rq cs st =
     (let states = map (cooldown_of env now rq (ss_locks st)) cs;
          allModel = (model_of rq \<noteq> [] \<and> states \<noteq> [] \<and> list_all blocked_by_model states)
      in case first_of (js_sort (\<lambda>a b. fst a - fst b) (concat (map cooldown_times states))) of
           Some (ms, c) \<Rightarrow>
             if ms \<noteq> 0
             then (All_rate_limited (isoFromMs (se_toISO env) ms) (if allModel then JNum 429 else json_or (c_errorCode c) JNull)
                     (if allModel then sr_model rq else None),
                   invalidate_managed rq (if allModel then MODEL_INELIGIBLE else HEALTH_OR_COOLDOWN) now st)
             else (No_credentials, st)
         | None \<Rightarrow> if se_synthetic env then (Synthetic, st)
                   else if list_all isTerminalConnectionStatus cs then (All_expired (length cs), st)
                   else (No_credentials, invalidate_managed rq CONNECTION_INELIGIBLE now st))"

section \<open>Peak hours and quota\<close>

definition peak_eligible :: "time \<Rightarrow> selection_request \<Rightarrow> connection list \<Rightarrow> connection list" where
  "peak_eligible now rq cs =
     (if allow_suppressed rq then cs else filter (\<lambda>c. evaluatePeakHourProtection (c_providerSpecificData c) now = None) cs)"

definition FALLBACK_RETRY_MS :: int where "FALLBACK_RETRY_MS = 300000"

definition buildPeakHourProtectionRateLimitedResult :: "selection_env \<Rightarrow> time \<Rightarrow> connection list \<Rightarrow> selection" where
  "buildPeakHourProtectionRateLimitedResult env now cs =
     All_rate_limited
       (nullish (getEarliestFutureDate (se_date env) now
          (List.map_filter (\<lambda>c. map_option (\<lambda>p. Some (se_toISO env (ps_retryAfter p))) (evaluatePeakHourProtection (c_providerSpecificData c) now)) cs))
          (se_toISO env (now + FALLBACK_RETRY_MS)))
       (JNum 429) None"

definition hydrated :: "selection_env \<Rightarrow> time \<Rightarrow> selection_request \<Rightarrow> connection list \<Rightarrow> quota_cache \<Rightarrow> quota_cache" where
  "hydrated env now rq cs qc =
     (if sr_provider rq = ''codex''
      then foldl (\<lambda>q c. hydrateCodexQuotaCacheForRequest (se_date env) now c (sr_model rq) q) qc cs else qc)"

text \<open>The verdicts by connection, and those that the policy lets pass.\<close>

definition policy_verdicts :: "selection_env \<Rightarrow> time \<Rightarrow> selection_request \<Rightarrow> quota_cache \<Rightarrow> connection list \<Rightarrow> (connection \<times> policy_verdict) list" where
  "policy_verdicts env now rq qc cs =
     map (\<lambda>c. (c, evaluateQuotaLimitPolicy (se_date env) (se_collate env) now qc (sr_provider rq) c (sr_model rq))) cs"

definition policy_eligible :: "selection_env \<Rightarrow> time \<Rightarrow> selection_request \<Rightarrow> quota_cache \<Rightarrow> connection list \<Rightarrow> connection list" where
  "policy_eligible env now rq qc cs =
     (if bypass_policy rq then cs else filter (\<lambda>c. \<not> policy_blocked env now qc rq c) cs)"

definition isTransportCooldownErrorCode :: "json \<Rightarrow> bool" where
  "isTransportCooldownErrorCode code = (case js_number code of Num n \<Rightarrow> n \<in> {502, 503, 504, 507} | _ \<Rightarrow> False)"

definition reset_or_fallback :: "selection_env \<Rightarrow> time \<Rightarrow> string option list \<Rightarrow> string" where
  "reset_or_fallback env now resets =
     (case parseFutureDateMs (se_date env) now (getEarliestFutureDate (se_date env) now resets) of
        Some ms \<Rightarrow> if ms \<noteq> 0 then isoFromMs (se_toISO env) ms else se_toISO env (now + FALLBACK_RETRY_MS)
      | None \<Rightarrow> se_toISO env (now + FALLBACK_RETRY_MS))"

text \<open>\<open>cs\<close> is the pool with the status of each connection, \<open>peak\<close> those the policy looked at.\<close>

definition policy_result ::
  "selection_env \<Rightarrow> time \<Rightarrow> selection_request \<Rightarrow> connection list \<Rightarrow> connection list \<Rightarrow> selection_state \<Rightarrow> selection \<times> selection_state" where
  "policy_result env now rq cs peak st =
     (let transport = filter (\<lambda>c. connection_status env now rq st c = Rate_limited \<and> isTransportCooldownErrorCode (c_errorCode c)) cs
      in if transport \<noteq> []
         then (All_rate_limited
                 (nullish (getEarliestFutureDate (se_date env) now (map (\<lambda>c. Option.bind (c_rateLimitedUntil c) nonempty) transport))
                    (se_toISO env (now + 3000)))
                 (JNum 503) None, invalidate_managed rq HEALTH_OR_COOLDOWN now st)
         else (All_rate_limited (reset_or_fallback env now (map (\<lambda>(c, v). pv_resetAt v) (filter (\<lambda>(c, v). pv_blocked v) (policy_verdicts env now rq (ss_quota st) peak))))
                 (JNum 429) None, invalidate_managed rq QUOTA_UNAVAILABLE now st))"

definition with_quota :: "selection_env \<Rightarrow> time \<Rightarrow> selection_request \<Rightarrow> quota_cache \<Rightarrow> connection list \<Rightarrow> connection list" where
  "with_quota env now rq qc cs = filter (\<lambda>c. \<not> request_exhausted env now qc rq (c_id c) (c_providerSpecificData c)) cs"

definition exhausted_result ::
  "selection_env \<Rightarrow> time \<Rightarrow> selection_request \<Rightarrow> connection list \<Rightarrow> selection_state \<Rightarrow> selection \<times> selection_state" where
  "exhausted_result env now rq cs st =
     (All_rate_limited (reset_or_fallback env now
         (map (\<lambda>c. Option.bind (getQuotaCache (c_id c) (ss_quota st)) (\<lambda>e. Option.bind (qe_nextResetAt e) nonempty)) cs)) (JNum 429) None,
      invalidate_managed rq QUOTA_UNAVAILABLE now st)"

definition lease_candidates :: "selection_request \<Rightarrow> connection list \<Rightarrow> connection list" where
  "lease_candidates rq cs = (case so_candidateIds (sr_options rq) of Some ids \<Rightarrow> filter (\<lambda>c. c_id c \<in> set ids) cs | None \<Rightarrow> cs)"

section \<open>The order\<close>

definition session_of :: "selection_request \<Rightarrow> string option" where
  "session_of rq = ao_sessionKey (so_affinity (sr_options rq))"

definition availability :: "selection_request \<Rightarrow> time \<Rightarrow> oauth_state \<Rightarrow> connection \<Rightarrow> rat" where
  "availability rq now oauth c = fst (getOAuthSessionAvailability (Some (c_id c)) (session_of rq) now oauth)"

definition is_oauth :: "connection \<Rightarrow> bool" where
  "is_oauth c \<longleftrightarrow> c_authType c = Some ''oauth''"

definition order_cmp :: "(connection \<Rightarrow> rat) \<Rightarrow> connection \<Rightarrow> connection \<Rightarrow> rat" where
  "order_cmp avail a b =
     (if \<not> is_oauth a \<or> \<not> is_oauth b then 0
      else if num_or (c_priority a) 999 - num_or (c_priority b) 999 \<noteq> 0 then num_or (c_priority a) 999 - num_or (c_priority b) 999
      else avail b - avail a)"

definition orderedConnections :: "selection_request \<Rightarrow> time \<Rightarrow> oauth_state \<Rightarrow> connection list \<Rightarrow> connection list" where
  "orderedConnections rq now oauth cs = js_sort (order_cmp (availability rq now oauth)) cs"

definition provider_override :: "selection_request \<Rightarrow> json" where
  "provider_override rq = get_prop (sr_resolvedId rq) (get_prop ''providerStrategies'' (sr_settings rq))"

definition selection_strategy :: "selection_request \<Rightarrow> json" where
  "selection_strategy rq =
     json_or (get_prop ''fallbackStrategy'' (provider_override rq)) (json_or (get_prop ''fallbackStrategy'' (sr_settings rq)) (JStr ''fill-first''))"

definition sticky_limit :: "selection_request \<Rightarrow> rat" where
  "sticky_limit rq =
     (let v = get_prop ''stickyRoundRobinLimit'' (provider_override rq)
      in toNumber (if v = JUndef \<or> v = JNull then get_prop ''stickyRoundRobinLimit'' (sr_settings rq) else v) 3)"

section \<open>The strategies\<close>

text \<open>A difference that is NaN orders like 0.\<close>

definition least_recent :: "(string \<Rightarrow> time option) \<Rightarrow> connection \<Rightarrow> connection \<Rightarrow> rat" where
  "least_recent date a b =
     (if unused a \<and> unused b then num_or (c_priority a) 999 - num_or (c_priority b) 999
      else if unused a then -1
      else if unused b then 1
      else case (used_at date a, used_at date b) of (Some x, Some y) \<Rightarrow> of_int (x - y) | _ \<Rightarrow> 0)"

definition backoff_lru :: "(string \<Rightarrow> time option) \<Rightarrow> connection \<Rightarrow> connection \<Rightarrow> rat" where
  "backoff_lru date a b =
     (if num_or (c_backoffLevel a) 0 \<noteq> num_or (c_backoffLevel b) 0 then num_or (c_backoffLevel a) 0 - num_or (c_backoffLevel b) 0
      else least_recent date a b)"

definition by_recency :: "(string \<Rightarrow> time option) \<Rightarrow> connection \<Rightarrow> connection \<Rightarrow> rat" where
  "by_recency date a b =
     (if unused a \<and> unused b then num_or (c_priority a) 999 - num_or (c_priority b) 999
      else if unused a then 1
      else if unused b then -1
      else case (used_at date a, used_at date b) of (Some x, Some y) \<Rightarrow> of_int (y - x) | _ \<Rightarrow> 0)"

text \<open>\<open>planLastUsedCommit\<close>; the write to the database, and the cached row.\<close>

definition planLastUsedCommit :: "selection_env \<Rightarrow> time \<Rightarrow> connection \<Rightarrow> rat \<Rightarrow> selection_state \<Rightarrow> selection_state" where
  "planLastUsedCommit env now c n st =
     st\<lparr>ss_uses := ss_uses st @ [(c_id c, n)], ss_rows := syncSessionAffinityRuntimeFields (ss_rows st) (used_now (se_toISO env) now n c)\<rparr>"

type_synonym pick = "connection \<times> (selection_state \<Rightarrow> selection_state)"

definition head_by :: "(connection \<Rightarrow> connection \<Rightarrow> rat) \<Rightarrow> connection list \<Rightarrow> connection" where
  "head_by cmp cs = hd (js_sort cmp cs)"

definition pick_lru :: "selection_env \<Rightarrow> time \<Rightarrow> connection list \<Rightarrow> pick" where
  "pick_lru env now cs = (let c = head_by (backoff_lru (se_date env)) cs in (c, planLastUsedCommit env now c 1))"

definition pick_round_robin :: "selection_env \<Rightarrow> time \<Rightarrow> selection_request \<Rightarrow> connection list \<Rightarrow> pick" where
  "pick_round_robin env now rq cs =
     (let current = head_by (by_recency (se_date env)) cs; n = num_or (c_consecutiveUseCount current) 0;
          isFallbackScenario = (sr_exclude rq \<noteq> None \<or> is_excluded rq \<noteq> {})
      in if \<not> isFallbackScenario \<and> \<not> unused current \<and> n < sticky_limit rq
         then (current, planLastUsedCommit env now current (n + 1)) else pick_lru env now cs)"

definition pick_p2c :: "selection_env \<Rightarrow> time \<Rightarrow> selection_request \<Rightarrow> quota_cache \<Rightarrow> (string \<times> bool \<times> bool) list \<Rightarrow> connection list \<Rightarrow> connection" where
  "pick_p2c env now rq qc results cs =
     (let cmp = compareP2CConnections (se_date env) (se_collate env) now qc (sr_provider rq) (sr_model rq) results; n = length cs
      in if n \<le> 2 then head_by cmp cs
         else let i = fst (sr_draws rq) mod n; j0 = snd (sr_draws rq) mod (n - 1); j = (if j0 \<ge> i then j0 + 1 else j0)
              in if cmp (cs ! i) (cs ! j) \<le> 0 then cs ! i else cs ! j)"

definition find_or_first :: "string \<Rightarrow> connection list \<Rightarrow> connection" where
  "find_or_first i cs = (case find (\<lambda>c. c_id c = i) cs of Some c \<Rightarrow> c | None \<Rightarrow> hd cs)"

text \<open>Without a lease the deck is advanced at once, with one when it is committed.\<close>

definition pick_deck :: "selection_request \<Rightarrow> (string \<times> shuffle_deck) list \<Rightarrow> connection list \<Rightarrow> pick" where
  "pick_deck rq decks cs =
     (let ids = map c_id cs; ns = ''conn:'' @ sr_provider rq
      in if so_lease (sr_options rq) \<noteq> None
         then let (i, commit) = planNextFromDeckSync (sr_shuffle rq) (sr_exchange rq) ns ids decks
              in (find_or_first i cs, \<lambda>st. st\<lparr>ss_decks := commit (ss_decks st)\<rparr>)
         else let (i, decks') = getNextFromDeckSync (sr_shuffle rq) (sr_exchange rq) ns ids decks
              in (find_or_first i cs, \<lambda>st. st\<lparr>ss_decks := decks'\<rparr>))"

definition choose_by_strategy ::
  "selection_env \<Rightarrow> time \<Rightarrow> selection_request \<Rightarrow> (string \<times> bool \<times> bool) list \<Rightarrow> selection_state \<Rightarrow> connection list \<Rightarrow> pick" where
  "choose_by_strategy env now rq results st cs =
     (let s = selection_strategy rq in
      if s = JStr ''round-robin'' then pick_round_robin env now rq cs
      else if s = JStr ''p2c'' then (pick_p2c env now rq (ss_quota st) results cs, id)
      else if s = JStr ''random'' then (cs ! (fst (sr_draws rq) mod length cs), id)
      else if s = JStr ''least-used'' then pick_lru env now cs
      else if s = JStr ''cost-optimized'' then (head_by (\<lambda>a b. num_or (c_priority a) 999 - num_or (c_priority b) 999) cs, id)
      else if s = JStr ''strict-random'' then pick_deck rq (ss_decks st) cs
      else (hd cs, id))"

text \<open>
  The affinity of the session comes first. Without a lease its writes are done at once, and the cached row is
  brought up to date; with one, they wait for the claim, and the cached row is not.
\<close>

definition pick_affinity ::
  "selection_env \<Rightarrow> time \<Rightarrow> selection_request \<Rightarrow> rat \<Rightarrow> connection list \<Rightarrow> selection_state \<Rightarrow> pick option \<times> selection_state" where
  "pick_affinity env now rq ttl cs st =
     (if so_lease (sr_options rq) \<noteq> None
      then let (plan, pins1) = planSessionAffinityConnection (se_date env) (se_toISO env) (se_sha256 env) (sr_provider rq) (session_of rq) cs ttl now (ss_pins st)
           in (map_option (\<lambda>(c, commit). (c, \<lambda>s. case commit now (ss_pins s) of
                 (c', pins', uses) \<Rightarrow> s\<lparr>ss_pins := pins', ss_uses := ss_uses s @ uses\<rparr>)) plan, st\<lparr>ss_pins := pins1\<rparr>)
      else case selectSessionAffinityConnection (se_date env) (se_toISO env) (se_sha256 env) (sr_provider rq) (session_of rq) cs ttl now (ss_pins st) of
             (None, pins1, uses) \<Rightarrow> (None, st\<lparr>ss_pins := pins1\<rparr>)
           | (Some c, pins1, uses) \<Rightarrow>
               (Some (c, \<lambda>s. s\<lparr>ss_uses := ss_uses s @ uses, ss_rows := syncSessionAffinityRuntimeFields (ss_rows s) c\<rparr>), st\<lparr>ss_pins := pins1\<rparr>))"

definition pick_connection ::
  "selection_env \<Rightarrow> time \<Rightarrow> selection_request \<Rightarrow> rat \<Rightarrow> (string \<times> bool \<times> bool) list \<Rightarrow> lease option \<Rightarrow> connection list \<Rightarrow> selection_state
    \<Rightarrow> pick \<times> selection_state" where
  "pick_connection env now rq ttl results active cs st =
     (case Option.bind active (\<lambda>a. find (\<lambda>c. c_id c = l_conn a) cs) of
        Some c \<Rightarrow> ((c, id), st)
      | None \<Rightarrow> (case pick_affinity env now rq ttl cs st of
                  (Some p, st1) \<Rightarrow> (p, st1)
                | (None, st1) \<Rightarrow> (choose_by_strategy env now rq results st1 cs, st1)))"

text \<open>A peer that has more room takes over.\<close>

definition oauth_peer :: "selection_request \<Rightarrow> time \<Rightarrow> oauth_state \<Rightarrow> connection list \<Rightarrow> connection \<Rightarrow> connection" where
  "oauth_peer rq now oauth cs c =
     (if \<not> so_reserveOAuth (sr_options rq) \<or> \<not> is_oauth c then c
      else let avail = availability rq now oauth;
               peers = js_sort (\<lambda>a b. avail b - avail a) (filter (\<lambda>p. is_oauth p \<and> num_or (c_priority p) 999 \<le> num_or (c_priority c) 999 + 1) cs)
           in nullish (find (\<lambda>p. avail p > avail c) peers) c)"

text \<open>The answer's handle to release the reserved session.\<close>

definition materializeConnection :: "time \<Rightarrow> selection_request \<Rightarrow> connection \<Rightarrow> selection_state \<Rightarrow> nat option \<times> selection_state" where
  "materializeConnection now rq c st =
     (if so_reserveOAuth (sr_options rq) \<and> is_oauth c \<and> nullish (session_of rq) [] \<noteq> []
      then let (h, oauth) = reserveOAuthSession (c_id c) (nullish (session_of rq) []) DEFAULT_LEASE_MS now (ss_oauth st)
           in (h, st\<lparr>ss_oauth := oauth\<rparr>)
      else (None, st))"

section \<open>Selection\<close>

text \<open>With a lease: deferred, or claimed with the side effects of the choice behind it.\<close>

definition finish ::
  "time \<Rightarrow> selection_request \<Rightarrow> lease option \<Rightarrow> pick \<Rightarrow> connection \<Rightarrow> selection_state \<Rightarrow> selection \<times> selection_state" where
  "finish now rq active p c st =
     (case so_lease (sr_options rq) of
        None \<Rightarrow> (case materializeConnection now rq c st of (h, st1) \<Rightarrow> (Selected c None h, st1))
      | Some l \<Rightarrow>
          if so_deferClaim (sr_options rq)
          then (case materializeConnection now rq c st of (h, st1) \<Rightarrow> (Deferred c h (snd p), st1))
          else (case mutateExclusiveConnectionLease (c_provider c) (c_id c) active l CONNECTION_INELIGIBLE now (ss_leases st) of
                  (Lost t, ls) \<Rightarrow> (Retry_excluding (c_id c), st\<lparr>ss_leases := ls\<rparr>)
                | (Stale_claim, ls) \<Rightarrow> (Lease_refused LeaseFenceStale, st\<lparr>ss_leases := ls\<rparr>)
                | (Claim_throws, ls) \<Rightarrow> (Selection_throws, st\<lparr>ss_leases := ls\<rparr>)
                | (Claimed x, ls) \<Rightarrow>
                    let st1 = snd p (st\<lparr>ss_leases := ls\<rparr>)
                    in if \<not> so_materialize (sr_options rq) then (Lease_only x (c_id c), st1)
                       else (case materializeConnection now rq c st1 of (h, st2) \<Rightarrow> (Selected c (Some x) h, st2))))"

text \<open>From the connections with quota on.\<close>

definition select_from ::
  "selection_env \<Rightarrow> time \<Rightarrow> selection_request \<Rightarrow> rat \<Rightarrow> (string \<times> bool \<times> bool) list \<Rightarrow> connection list \<Rightarrow> selection_state
    \<Rightarrow> selection \<times> selection_state" where
  "select_from env now rq ttl results cs st =
     (if cs = [] then (No_credentials, st)
      else let (pol, ls) = applyExclusiveConnectionLeasePolicy c_id cs (so_lease (sr_options rq)) (Option.bind (so_forced (sr_options rq)) nonempty) now (ss_leases st);
               st1 = st\<lparr>ss_leases := ls\<rparr>
           in case pol_error pol of
                Some e \<Rightarrow> (Lease_refused e, st1)
              | None \<Rightarrow>
                  if pol_connections pol = []
                  then (if so_lease (sr_options rq) = None then No_credentials else Waiting_for_capacity (pol_retryAfter pol) (length cs),
                        if pol_active pol \<noteq> None then invalidate_managed rq CONNECTION_INELIGIBLE now st1 else st1)
                  else let ordered = orderedConnections rq now (ss_oauth st1) (pol_connections pol);
                           (p, st2) = pick_connection env now rq ttl results (pol_active pol) ordered st1;
                           st3 = (if so_lease (sr_options rq) = None then snd p st2 else st2)
                       in finish now rq (pol_active pol) p (oauth_peer rq now (ss_oauth st3) ordered (fst p)) st3)"

text \<open>A managed request that is forced to a connection.\<close>

definition forced_lease_check :: "time \<Rightarrow> selection_request \<Rightarrow> connection list \<Rightarrow> selection_state \<Rightarrow> selection option \<times> selection_state" where
  "forced_lease_check now rq cs st =
     (case (so_lease (sr_options rq), forced_id (sr_options rq)) of
        (Some l, Some f) \<Rightarrow>
          if f \<notin> c_id ` set cs then (Some No_credentials, st)
          else if lc_acquire l then (None, st)
          else let (a, ls) = active_lease (lc_owner l) now (ss_leases st)
               in (if map_option l_conn a \<in> {None, Some f} then None else Some (Lease_refused LeaseConnectionMismatch), st\<lparr>ss_leases := ls\<rparr>)
      | _ \<Rightarrow> (None, st))"

definition available_of :: "selection_env \<Rightarrow> time \<Rightarrow> selection_request \<Rightarrow> selection_state \<Rightarrow> connection list \<Rightarrow> connection list" where
  "available_of env now rq st cs = prefer_project rq (filter (\<lambda>c. connection_status env now rq st c = Available) cs)"

definition quota_results ::
  "selection_env \<Rightarrow> time \<Rightarrow> selection_request \<Rightarrow> quota_cache \<Rightarrow> connection list \<Rightarrow> (string \<times> bool \<times> bool) list" where
  "quota_results env now rq qc cs =
     (if bypass_policy rq then []
      else map (\<lambda>c. let b = policy_blocked env now qc rq c
                    in (c_id c, b, \<not> b \<and> request_exhausted env now qc rq (c_id c) (c_providerSpecificData c))) cs)"

text \<open>The stages, last first.\<close>

definition quota_stage ::
  "selection_env \<Rightarrow> time \<Rightarrow> selection_request \<Rightarrow> rat \<Rightarrow> connection list \<Rightarrow> connection list \<Rightarrow> selection_state \<Rightarrow> selection \<times> selection_state" where
  "quota_stage env now rq ttl peak policy st =
     (let open_cs = with_quota env now rq (ss_quota st) policy
      in if open_cs = [] then exhausted_result env now rq policy st
         else select_from env now rq ttl (quota_results env now rq (ss_quota st) peak) (lease_candidates rq open_cs) st)"

definition policy_stage ::
  "selection_env \<Rightarrow> time \<Rightarrow> selection_request \<Rightarrow> rat \<Rightarrow> connection list \<Rightarrow> connection list \<Rightarrow> selection_state \<Rightarrow> selection \<times> selection_state" where
  "policy_stage env now rq ttl cs peak st0 =
     (let st = st0\<lparr>ss_quota := hydrated env now rq peak (ss_quota st0)\<rparr>; policy = policy_eligible env now rq (ss_quota st) peak
      in if policy = [] then policy_result env now rq cs peak st else quota_stage env now rq ttl peak policy st)"

definition peak_stage ::
  "selection_env \<Rightarrow> time \<Rightarrow> selection_request \<Rightarrow> rat \<Rightarrow> connection list \<Rightarrow> connection list \<Rightarrow> selection_state \<Rightarrow> selection \<times> selection_state" where
  "peak_stage env now rq ttl cs available st =
     (let peak = peak_eligible now rq available
      in if peak = [] then (buildPeakHourProtectionRateLimitedResult env now available, invalidate_managed rq QUOTA_UNAVAILABLE now st)
         else policy_stage env now rq ttl cs peak st)"

definition pool_stage ::
  "selection_env \<Rightarrow> time \<Rightarrow> selection_request \<Rightarrow> rat \<Rightarrow> connection list \<Rightarrow> string option \<Rightarrow> selection_state \<Rightarrow> selection \<times> selection_state" where
  "pool_stage env now rq ttl cs0 forced st0 =
     (if cs0 = [] then empty_pool_result env now rq forced st0
      else let st = st0\<lparr>ss_backoffResets := ss_backoffResets st0 @ map c_id (filter (decays env now) cs0)\<rparr>;
               cs = map (decay_backoff env now) cs0; available = available_of env now rq st cs
           in if available = [] then unavailable_result env now rq cs st else peak_stage env now rq ttl cs available st)"

definition getProviderCredentials ::
  "selection_env \<Rightarrow> time \<Rightarrow> selection_request \<Rightarrow> selection_state \<Rightarrow> selection \<times> selection_state" where
  "getProviderCredentials env now rq st =
     (case forced_lease_check now rq (allowed_rows rq st) st of
        (Some answer, st1) \<Rightarrow> (answer, st1)
      | (None, st1) \<Rightarrow>
          let ttl = resolveSessionAffinityTtlMs (so_affinity (sr_options rq)) (sr_settings rq);
              (forced, pins1) = pin_stage env now rq ttl (allowed_rows rq st1) st1;
              (cs, kept) = forced_pool env now rq st1 forced (allowed_rows rq st1)
          in pool_stage env now rq ttl cs kept (st1\<lparr>ss_pins := pins1\<rparr>))"

end
