(* ===== verification/SelectionProps.thy ===== *)
theory SelectionProps
  imports AccountSelection
begin

text \<open>
  The properties of the selection of an account (\<open>AccountSelection\<close>).

  \<^item> What is selected comes from the pool and has passed every filter; the parts are the strategies, the affinity, the
    peers and the claim, each of which stays among the connections it is given.
  \<^item> The rotation by least use: the locale \<open>comparator\<close> gives that the first of the sorted accounts is a least one.
  \<^item> The time to retry is never in the past.
\<close>

section \<open>What is selected comes from the pool\<close>

lemma head_by_mem: "cs \<noteq> [] \<Longrightarrow> head_by cmp cs \<in> set cs"
  unfolding head_by_def by (metis hd_in_set js_sort_Nil_iff set_js_sort)






















text \<open>The filters do not look at the backoff.\<close>

lemma decay_simps [simp]: "c_id (decay_backoff env now c) = c_id c" "c_providerSpecificData (decay_backoff env now c) = c_providerSpecificData c"
    "c_rateLimitedUntil (decay_backoff env now c) = c_rateLimitedUntil c" "c_testStatus (decay_backoff env now c) = c_testStatus c"
  by (simp_all add: decay_backoff_def)

lemma decay_terminal [simp]:
  "isTerminalConnectionStatusForModel f (decay_backoff env now c) p m = isTerminalConnectionStatusForModel f c p m"
  "codex_unavailable env t rq (decay_backoff env now c) m = codex_unavailable env t rq c m"
  by (simp_all add: isTerminalConnectionStatusForModel_def isTerminalConnectionStatus_def codex_unavailable_def codex_of_def)

lemma decay_status [simp]: "connection_status env now rq st (decay_backoff env now c) = connection_status env now rq st c"
  unfolding connection_status_def decay_simps decay_terminal by (rule refl)

lemma decay_policy [simp]: "policy_blocked env now qc rq (decay_backoff env now c) = policy_blocked env now qc rq c"
  unfolding policy_blocked_def evaluateQuotaLimitPolicy_def decay_simps by (rule refl)










lemma forced_answer:
  assumes "forced_lease_check now rq cs st = (r, st1)"
  shows "r \<in> {None, Some No_credentials, Some (Lease_refused LeaseConnectionMismatch)}" "ss_rows st1 = ss_rows st" "ss_locks st1 = ss_locks st"
    "so_lease (sr_options rq) = None \<Longrightarrow> st1 = st"
  using assms by (auto simp: forced_lease_check_def split: option.splits prod.splits if_splits)




text \<open>A concrete pool, for the witnesses.\<close>

definition sample_env :: selection_env where
  "sample_env = \<lparr>se_date = plain_date, se_toISO = plain_iso, se_sha256 = id, se_collate = (\<lambda>a b. 0), se_canonical = id,
     se_isFree = (\<lambda>m. False), se_drained = (\<lambda>p psd m. False), se_advertised = (\<lambda>i. None), se_synthetic = False, se_envCredentials = False\<rparr>"

definition sample_request :: "string \<Rightarrow> selection_request" where
  "sample_request strategy =
     \<lparr>sr_provider = ''openai'', sr_exclude = Some ''c'', sr_excludeMore = [], sr_allowed = None, sr_model = Some ''gpt'',
      sr_options = \<lparr>so_affinity = \<lparr>ao_sessionKey = None, ao_allowSuppressed = False, ao_allowRateLimited = False, ao_bypassQuotaPolicy = False, ao_ttlMs = JUndef\<rparr>,
                    so_forced = None, so_lease = None, so_reserveOAuth = False, so_materialize = True, so_deferClaim = False, so_candidateIds = None\<rparr>,
      sr_resolvedId = ''openai'', sr_settings = JObj [(''fallbackStrategy'', JStr strategy)], sr_draws = (0, 0), sr_shuffle = id, sr_exchange = 0\<rparr>"

definition sample_row :: "string \<Rightarrow> (string \<times> json) list \<Rightarrow> connection" where
  "sample_row i extra = toProviderConnection (JObj ([(''id'', JStr i), (''provider'', JStr ''openai'')] @ extra))"

definition sample_state :: "connection list \<Rightarrow> selection_state" where
  "sample_state rows = \<lparr>ss_rows = rows, ss_allRows = rows, ss_pins = [], ss_quota = empty_cache, ss_leases = [],
     ss_oauth = \<lparr>occupancy = [], reservations = []\<rparr>, ss_decks = [], ss_locks = no_lockouts, ss_uses = [], ss_backoffResets = []\<rparr>"

definition three_rows :: "connection list" where
  "three_rows = [sample_row ''a'' [(''rateLimitedUntil'', JStr ''+50'')], sample_row ''b'' [], sample_row ''c'' []]"


section \<open>Rotation\<close>

lemma least_recent_comparator: "comparator (least_recent date) (dated date)"
  by unfold_locales (auto simp: least_recent_def dated_def split: if_splits option.splits)

interpretation backoff: comparator "backoff_lru date" "dated date" for date
  using comparator_then [OF least_recent_comparator [of date], of "\<lambda>c. num_or (c_backoffLevel c) 0"]
  by (simp add: backoff_lru_def [abs_def])

text \<open>Selections one after another from all rows, at the given times.\<close>

fun selections :: "selection_env \<Rightarrow> selection_request \<Rightarrow> time list \<Rightarrow> selection_state \<Rightarrow> selection list" where
  "selections env rq [] st = []"
| "selections env rq (t # ts) st = (let (r, st') = select_from env t rq 0 [] (ss_rows st) st in r # selections env rq ts st')"

definition rested :: "(string \<Rightarrow> time option) \<Rightarrow> time \<Rightarrow> connection \<Rightarrow> bool" where
  "rested date start c \<longleftrightarrow> unused c \<or> (case used_at date c of Some d \<Rightarrow> d < start | None \<Rightarrow> False)"

lemma sync_split:
  "c_id c \<notin> c_id ` set xs \<Longrightarrow> c_id r = c_id c \<Longrightarrow>
   syncSessionAffinityRuntimeFields (xs @ r # ys) c = xs @ r\<lparr>c_lastUsedAt := c_lastUsedAt c, c_consecutiveUseCount := c_consecutiveUseCount c\<rparr> # ys"
  by (induction xs) auto

lemma lru_takes_rested:
  assumes "c = head_by (backoff_lru date) cs" and "\<forall>x \<in> set cs. dated date x \<and> c_backoffLevel x = 0" and "y \<in> set cs" and "rested date start y"
  shows "c \<in> set cs \<and> rested date start c"
proof -
  have c: "c \<in> set cs" using assms(3) by (auto simp: assms(1) intro: head_by_mem)
  have "js_sort (backoff_lru date) cs \<noteq> []" using assms(3) by auto
  then have "first_of (js_sort (backoff_lru date) cs) = Some c" by (cases "js_sort (backoff_lru date) cs") (simp_all add: assms(1) head_by_def)
  then have "backoff_lru date c y \<le> 0" using backoff.first_is_least assms(2,3) by blast
  then show ?thesis
    using c assms(2-4) by (auto simp: backoff_lru_def least_recent_def rested_def dated_def split: if_splits option.splits)
qed

definition plain_least_used :: "selection_request \<Rightarrow> bool" where
  "plain_least_used rq \<longleftrightarrow> so_lease (sr_options rq) = None \<and> \<not> so_reserveOAuth (sr_options rq) \<and> session_of rq = None
     \<and> selection_strategy rq = JStr ''least-used''"

lemma select_lru:
  assumes "plain_least_used rq" and "ss_leases st = []" and "cs \<noteq> []"
    and "c = head_by (backoff_lru (se_date env)) (orderedConnections rq now (ss_oauth st) cs)"
  shows "select_from env now rq ttl results cs st = (Selected c None None, planLastUsedCommit env now c 1 st)"
proof -
  have pol: "applyExclusiveConnectionLeasePolicy c_id cs None f now [] = (\<lparr>pol_connections = cs, pol_active = None, pol_retryAfter = None, pol_error = None\<rparr>, [])" for f
    by (simp add: applyExclusiveConnectionLeasePolicy_def lease_occupancy_def expire_def map_has_def)
  have st: "st\<lparr>ss_leases := []\<rparr> = st" "st\<lparr>ss_pins := ss_pins st\<rparr> = st" using assms(2) by simp_all
  have aff: "pick_affinity env now rq ttl os st = (None, st)" for os
    using assms(1) by (simp add: pick_affinity_def selectSessionAffinityConnection_def plain_least_used_def)
  have "pick_connection env now rq ttl results None (orderedConnections rq now (ss_oauth st) cs) st = ((c, planLastUsedCommit env now c 1), st)"
    using assms(1,4) by (simp add: pick_connection_def aff choose_by_strategy_def plain_least_used_def pick_lru_def Let_def)
  then show ?thesis
    using assms(1,2,3)
    by (simp add: select_from_def plain_least_used_def pol st(1) Let_def oauth_peer_def finish_def materializeConnection_def orderedConnections_def)
qed

definition rotation_ready :: "selection_env \<Rightarrow> time \<Rightarrow> selection_state \<Rightarrow> bool" where
  "rotation_ready env start st \<longleftrightarrow> ss_leases st = [] \<and> distinct (map c_id (ss_rows st))
     \<and> (\<forall>c \<in> set (ss_rows st). dated (se_date env) c \<and> c_backoffLevel c = 0)"

definition rested_ids :: "selection_env \<Rightarrow> time \<Rightarrow> selection_state \<Rightarrow> string multiset" where
  "rested_ids env start st = mset (map c_id (filter (rested (se_date env) start) (ss_rows st)))"

text \<open>A selection takes an account that has rested, and it has rested no more.\<close>

lemma lru_step:
  assumes "plain_least_used rq" and "rotation_ready env start st" and "rested_ids env start st \<noteq> {#}" and "start \<le> t"
    and "readable (se_date env) (se_toISO env)" and "\<forall>t. se_toISO env t \<noteq> []"
  shows "\<exists>c st'. select_from env t rq 0 [] (ss_rows st) st = (Selected c None None, st') \<and> rotation_ready env start st'
    \<and> rested_ids env start st = add_mset (c_id c) (rested_ids env start st')"
proof -
  let ?date = "se_date env"
  let ?cs = "orderedConnections rq t (ss_oauth st) (ss_rows st)"
  have set: "set ?cs = set (ss_rows st)" by (simp add: orderedConnections_def)
  obtain y where y: "y \<in> set ?cs" "rested ?date start y" using assms(3) by (auto simp: rested_ids_def set filter_empty_conv)
  define c where "c = head_by (backoff_lru ?date) ?cs"
  have c: "c \<in> set (ss_rows st)" "rested ?date start c"
    using lru_takes_rested [OF c_def _ y] assms(2) by (auto simp: rotation_ready_def set)
  define u where "u = used_now (se_toISO env) t 1 c"
  obtain xs ys where rows: "ss_rows st = xs @ c # ys" using c(1) by (auto dest: split_list)
  have "c_id u \<notin> c_id ` set xs" "c_id c = c_id u" using assms(2) by (auto simp: rotation_ready_def rows u_def used_now_def)
  from sync_split [OF this] have sync: "syncSessionAffinityRuntimeFields (ss_rows st) u = xs @ u # ys"
    by (simp add: rows u_def used_now_def)
  let ?st = "planLastUsedCommit env t c 1 st"
  have st: "ss_rows ?st = xs @ u # ys" "ss_leases ?st = ss_leases st" by (simp_all add: planLastUsedCommit_def sync [unfolded u_def] u_def)
  have u: "dated ?date u" "c_backoffLevel u = c_backoffLevel c" "c_id u = c_id c" "\<not> rested ?date start u"
    using assms(4-6) readableD [OF assms(5)] by (auto simp: u_def used_now_def dated_def used_at_def rested_def unused_def)
  have "rotation_ready env start ?st" using assms(2) u(1-3) by (auto simp: rotation_ready_def st rows)
  moreover have "rested_ids env start st = add_mset (c_id c) (rested_ids env start ?st)"
    using c(2) u(4) by (simp add: rested_ids_def st rows)
  moreover have "select_from env t rq 0 [] (ss_rows st) st = (Selected c None None, ?st)"
    using assms(1,2) rows by (intro select_lru c_def) (simp_all add: rotation_ready_def)
  ultimately show ?thesis by blast
qed

definition selected_ids :: "selection list \<Rightarrow> string list" where
  "selected_ids rs = List.map_filter (\<lambda>r. case r of Selected c l h \<Rightarrow> Some (c_id c) | _ \<Rightarrow> None) rs"

lemma selected_ids_Cons [simp]: "selected_ids (Selected c l h # rs) = c_id c # selected_ids rs" "selected_ids [] = []"
  by (simp_all add: selected_ids_def map_filter_simps)

lemma lru_run:
  assumes "plain_least_used rq" and "readable (se_date env) (se_toISO env)" and "\<forall>t. se_toISO env t \<noteq> []"
    and "rotation_ready env start st" and "\<forall>t \<in> set ts. start \<le> t" and "length ts = size (rested_ids env start st)"
  shows "mset (selected_ids (selections env rq ts st)) = rested_ids env start st"
  using assms(4-6)
proof (induction ts arbitrary: st)
  case (Cons t ts)
  then have "rested_ids env start st \<noteq> {#}" by auto
  then obtain c st' where s: "select_from env t rq 0 [] (ss_rows st) st = (Selected c None None, st')" "rotation_ready env start st'"
    "rested_ids env start st = add_mset (c_id c) (rested_ids env start st')"
    using lru_step [OF assms(1) Cons.prems(1)] Cons.prems(2) assms(2,3) by (meson list.set_intros(1))
  then show ?case using Cons by simp
qed simp

text \<open>
  C99. The strategy least-used serves every account: from a pool without backoff and without leases, whose last uses lie
  before the first selection or are absent, as many selections as there are accounts, at whatever later times,
  take every account exactly once. Each commits its use, which the next one reads.
\<close>

theorem least_used_cycles:
  assumes "plain_least_used rq" and "readable (se_date env) (se_toISO env)" and "\<forall>t. se_toISO env t \<noteq> []"
    and "ss_leases st = []" and "distinct (map c_id (ss_rows st))"
    and "\<forall>c \<in> set (ss_rows st). rested (se_date env) start c \<and> c_backoffLevel c = 0"
    and "\<forall>t \<in> set ts. start \<le> t" and "length ts = length (ss_rows st)"
  shows "mset (selected_ids (selections env rq ts st)) = mset (map c_id (ss_rows st))"
proof -
  have all: "filter (rested (se_date env) start) (ss_rows st) = ss_rows st" using assms(6) by simp
  have "rotation_ready env start st" using assms(4-6) by (auto simp: rotation_ready_def rested_def dated_def split: option.splits)
  moreover have "length ts = size (rested_ids env start st)" using assms(8) by (simp add: rested_ids_def all)
  ultimately have "mset (selected_ids (selections env rq ts st)) = rested_ids env start st" by (intro lru_run assms(1-3,7))
  then show ?thesis by (simp add: rested_ids_def all)
qed

lemma least_used_cycles_witness:
  "mset (selected_ids (selections sample_env (sample_request ''least-used'') [100, 200, 300] (sample_state three_rows))) = {#''a'', ''b'', ''c''#}"
proof -
  let ?st = "sample_state three_rows"
  have "plain_least_used (sample_request ''least-used'')" "ss_leases ?st = []" "distinct (map c_id (ss_rows ?st))"
    "\<forall>c \<in> set (ss_rows ?st). rested (se_date sample_env) 100 c \<and> c_backoffLevel c = 0" by code_simp+
  moreover have "readable (se_date sample_env) (se_toISO sample_env)" "\<forall>t. se_toISO sample_env t \<noteq> []"
    using plain_readable by (simp_all add: sample_env_def plain_iso_def)
  ultimately have "mset (selected_ids (selections sample_env (sample_request ''least-used'') [100, 200, 300] ?st)) = mset (map c_id (ss_rows ?st))"
    by (intro least_used_cycles [where start = 100]) (simp_all add: sample_state_def three_rows_def)
  moreover have "map c_id (ss_rows ?st) = [''a'', ''b'', ''c'']" by code_simp
  ultimately show ?thesis by simp
qed

section \<open>When to retry\<close>

definition retry_ahead :: "selection_env \<Rightarrow> time \<Rightarrow> string \<Rightarrow> bool" where
  "retry_ahead env now r \<longleftrightarrow> (\<exists>t. now \<le> t \<and> r = se_toISO env t) \<or> (\<exists>m. of_int now < m \<and> parseFutureDateMs (se_date env) now (Some r) = Some m)"

lemma retry_whole: "of_int now < m \<Longrightarrow> 0 \<le> now \<Longrightarrow> retry_ahead env now (isoFromMs (se_toISO env) m)"
proof -
  assume a: "of_int now < m" "0 \<le> now"
  then have "0 \<le> m" by (simp add: order.trans [of 0 "of_int now"])
  moreover have "now \<le> \<lfloor>m\<rfloor>" using a(1) by (simp add: le_floor_iff)
  ultimately show ?thesis by (auto simp: retry_ahead_def isoFromMs_def whole_def)
qed

lemma retry_date: "getEarliestFutureDate (se_date env) now vs = Some r \<Longrightarrow> retry_ahead env now r"
  using earliest_future_date by (fastforce simp: retry_ahead_def)

lemma retry_later: "0 \<le> d \<Longrightarrow> retry_ahead env now (se_toISO env (now + d))"
  unfolding retry_ahead_def by (rule disjI1, rule exI [of _ "now + d"]) simp

lemma retry_reset: "0 \<le> now \<Longrightarrow> retry_ahead env now (reset_or_fallback env now vs)"
  by (auto simp: reset_or_fallback_def FALLBACK_RETRY_MS_def intro: retry_whole retry_later dest: parse_future split: option.split)

lemma retry_nullish: "0 \<le> d \<Longrightarrow> retry_ahead env now (nullish (getEarliestFutureDate (se_date env) now vs) (se_toISO env (now + d)))"
  by (cases "getEarliestFutureDate (se_date env) now vs") (auto intro: retry_later retry_date)

lemma cooldown_ahead: "(ms, c) \<in> set (cooldown_times (cooldown_of env now rq locks x)) \<Longrightarrow> of_int now < ms"
  by (auto simp: cooldown_times_def cooldown_of_def mem_map_filter dest: parse_future split: if_splits option.splits)

lemma retry_unavailable:
  assumes "unavailable_result env now rq cs st = (All_rate_limited r code m, st')" and "0 \<le> now" shows "retry_ahead env now r"
proof -
  obtain ms c where f: "first_of (js_sort (\<lambda>a b. fst a - fst b) (concat (map cooldown_times (map (cooldown_of env now rq (ss_locks st)) cs)))) = Some (ms, c)"
    and r: "r = isoFromMs (se_toISO env) ms"
    using assms(1) by (auto simp: unavailable_result_def Let_def split: option.splits prod.splits if_splits)
  from first_of_sort_mem [OF f] have "of_int now < ms" by (auto dest: cooldown_ahead)
  then show ?thesis unfolding r using assms(2) by (rule retry_whole)
qed

lemma retry_empty:
  assumes "empty_pool_result env now rq kept st = (All_rate_limited r code m, st')" and "0 \<le> now" shows "retry_ahead env now r"
proof -
  obtain cs ms where m: "getEarliestRateLimitedUntil (se_date env) now cs = Some ms" and r: "r = isoFromMs (se_toISO env) ms"
    using assms(1) by (auto simp: empty_pool_result_def all_expired_def no_credentials_def Let_def split: option.splits if_splits)
  then have "of_int now < ms"
    using earliest_until_bound [of "se_date env" now None cs ms] assms(2) by (auto simp: getEarliestRateLimitedUntil_def split: option.splits if_splits)
  then show ?thesis unfolding r using assms(2) by (rule retry_whole)
qed

lemma retry_policy_stage:
  assumes "policy_stage env now rq ttl cs peak st = (All_rate_limited r code m, st')" and "0 \<le> now" shows "retry_ahead env now r"
proof -
  have s: "select_from env now rq ttl results os s \<noteq> (All_rate_limited r code m, s')" for results os s s'
    by (auto simp: select_from_def finish_def Let_def split: prod.split option.split claim.split)
  show ?thesis
    using assms by (auto simp: policy_stage_def policy_result_def quota_stage_def exhausted_result_def Let_def s
        intro: retry_reset retry_nullish split: if_splits)
qed

text \<open>
  C99. The time to retry never lies in the past: whenever the selection answers that all accounts are limited, whether the
  pool was empty, cooling down, protected at this hour, over its policy or exhausted, the time it gives is the ISO
  text of an instant that is not before now, or a date from the data that reads as an instant after now.
\<close>

theorem retry_lies_ahead:
  assumes "getProviderCredentials env now rq st = (All_rate_limited r code m, st')" and "0 \<le> now"
  shows "retry_ahead env now r"
proof -
  let ?ttl = "resolveSessionAffinityTtlMs (so_affinity (sr_options rq)) (sr_settings rq)"
  obtain r0 st1 where f: "forced_lease_check now rq (allowed_rows rq st) st = (r0, st1)" by fastforce
  have r0: "r0 = None" using assms(1) f forced_answer(1) [OF f] by (cases r0) (auto simp: getProviderCredentials_def)
  obtain forced pins where p: "pin_stage env now rq ?ttl (allowed_rows rq st1) st1 = (forced, pins)" by fastforce
  obtain cs kept where n: "forced_pool env now rq st1 forced (allowed_rows rq st1) = (cs, kept)" by fastforce
  let ?st = "st1\<lparr>ss_pins := pins\<rparr>"
  have "pool_stage env now rq ?ttl cs kept ?st = (All_rate_limited r code m, st')"
    using assms f r0 p n by (simp add: getProviderCredentials_def Let_def)
  then show ?thesis
    using assms(2) retry_nullish [of FALLBACK_RETRY_MS env now]
    by (auto simp: pool_stage_def peak_stage_def buildPeakHourProtectionRateLimitedResult_def FALLBACK_RETRY_MS_def Let_def
        intro: retry_empty retry_unavailable retry_policy_stage split: if_splits)
qed

lemma retry_lies_ahead_witness:
  "\<exists>r code m st'. getProviderCredentials sample_env 10 (sample_request ''fill-first'') (sample_state [hd three_rows]) = (All_rate_limited r code m, st')
     \<and> retry_ahead sample_env 10 r"
proof -
  let ?r = "getProviderCredentials sample_env 10 (sample_request ''fill-first'') (sample_state [hd three_rows])"
  have "case fst ?r of All_rate_limited r code m \<Rightarrow> r = ''+50'' | _ \<Rightarrow> False" by code_simp
  then obtain r code m st' where r: "?r = (All_rate_limited r code m, st')" by (cases ?r) (auto split: selection.splits)
  then show ?thesis using retry_lies_ahead [OF r] by simp
qed

section \<open>What modelling showed\<close>

text \<open>
  An OAuth peer that takes over leaves the writes of the choice behind: the session is pinned to the account it was
  not sent to, and the use is counted there.
\<close>

definition busy_oauth :: oauth_state where
  "busy_oauth = \<lparr>occupancy = [(''a'', [(''other'', \<lparr>sl_requests = 1, sl_expiresAt = 90\<rparr>)])], reservations = []\<rparr>"

definition oauth_rows :: "connection list" where
  "oauth_rows = [sample_row ''a'' [(''authType'', JStr ''oauth''), (''priority'', JNum 1)], sample_row ''b'' [(''authType'', JStr ''oauth''), (''priority'', JNum 2)]]"

definition peer_request :: selection_request where
  "peer_request = (sample_request ''fill-first'')\<lparr>sr_options :=
     \<lparr>so_affinity = \<lparr>ao_sessionKey = Some ''s'', ao_allowSuppressed = False, ao_allowRateLimited = False, ao_bypassQuotaPolicy = False, ao_ttlMs = JNum 20\<rparr>,
      so_forced = None, so_lease = None, so_reserveOAuth = True, so_materialize = True, so_deferClaim = False, so_candidateIds = None\<rparr>\<rparr>"

lemma peer_leaves_pin_behind:
  "ss_uses (snd (the (fst (pick_affinity sample_env 10 peer_request 20 oauth_rows (sample_state oauth_rows)))) (sample_state [])) = [(''a'', 1)]"
  "map (\<lambda>(k, v). map_option af_connectionId (parseRecord plain_date v))
     (ss_pins (snd (pick_affinity sample_env 10 peer_request 20 oauth_rows (sample_state oauth_rows)))) = [Some ''a'']"
  "c_id (oauth_peer peer_request 10 busy_oauth oauth_rows (hd oauth_rows)) = ''b''"
  by code_simp+

text \<open>
  The comparator of the order calls accounts equal as soon as one of them does not use OAuth, so it is not transitive:
  two OAuth accounts are told apart, and both are equal to an account with a key between them.
\<close>

lemma order_not_transitive:
  "let x = sample_row ''x'' [(''authType'', JStr ''oauth''), (''priority'', JNum 9)]; y = sample_row ''y'' [(''authType'', JStr ''apikey'')];
       z = sample_row ''z'' [(''authType'', JStr ''oauth''), (''priority'', JNum 1)]
   in order_cmp (\<lambda>c. 1) x y = 0 \<and> order_cmp (\<lambda>c. 1) y z = 0 \<and> order_cmp (\<lambda>c. 1) x z > 0"
  by code_simp

end
