(* ===== verification/SelectionLock.thy ===== *)
theory SelectionLock
  imports Prelude
begin

text \<open>
  The lock of the selection of an account: \<open>getSelectionMutexKey\<close> and \<open>createSelectionLock\<close> of
  \<open>src/src/sse/services/auth.ts\<close>, lines 856 to 886.

  \<^item> A lock is a promise; its number is its position in the list of all locks. It keeps the promise it waits for, the
    last of its key when it was created, and whether it was released, which resolves its promise.
  \<^item> \<open>getProviderCredentials\<close> releases in its \<open>finally\<close>, after the wait: a lock is released only when it was granted.

  The lemmas: of the locks of a key that are not released the oldest is granted and no other; a key with none is gone.
\<close>

definition getSelectionMutexKey :: "(string \<Rightarrow> string) \<Rightarrow> (string \<Rightarrow> string) \<Rightarrow> string \<Rightarrow> string option \<Rightarrow> string option \<Rightarrow> string" where
  "getSelectionMutexKey resolveProviderId hash provider forced owner =
     (if resolveProviderId provider = [] then provider else resolveProviderId provider) @ '':'' @
     (if nullish forced [] = [] then ''pool'' else ''forced:'' @ nullish forced []) @ '':'' @
     (case owner of Some h \<Rightarrow> ''lease:'' @ hash h | None \<Rightarrow> ''unmanaged'')"

record selection_lock =
  lk_key :: string
  lk_wait :: "nat option"
  lk_released :: bool

record mutexes =
  selectionMutexes :: "(string \<times> nat) list"
  promises :: "selection_lock list"

definition createSelectionLock :: "string \<Rightarrow> mutexes \<Rightarrow> mutexes" where
  "createSelectionLock key st =
     \<lparr>selectionMutexes = map_set key (length (promises st)) (selectionMutexes st),
      promises = promises st @ [\<lparr>lk_key = key, lk_wait = map_of (selectionMutexes st) key, lk_released = False\<rparr>]\<rparr>"

definition lock_granted :: "mutexes \<Rightarrow> nat \<Rightarrow> bool" where
  "lock_granted st i = (case lk_wait (promises st ! i) of None \<Rightarrow> True | Some j \<Rightarrow> lk_released (promises st ! j))"

definition release_lock :: "nat \<Rightarrow> mutexes \<Rightarrow> mutexes" where
  "release_lock i st =
     (let l = promises st ! i
      in \<lparr>selectionMutexes = (if map_of (selectionMutexes st) (lk_key l) = Some i then map_del (lk_key l) (selectionMutexes st) else selectionMutexes st),
          promises = (promises st)[i := l\<lparr>lk_released := True\<rparr>]\<rparr>)"

datatype lock_event = Create string | Release nat

text \<open>A lock that is not granted is not released.\<close>

fun mutex_step :: "mutexes \<Rightarrow> lock_event \<Rightarrow> mutexes" where
  "mutex_step st (Create key) = createSelectionLock key st"
| "mutex_step st (Release i) = (if i < length (promises st) \<and> lock_granted st i \<and> \<not> lk_released (promises st ! i) then release_lock i st else st)"

definition no_locks :: mutexes where "no_locks = \<lparr>selectionMutexes = [], promises = []\<rparr>"

definition waiting :: "string \<Rightarrow> selection_lock list \<Rightarrow> nat list" where
  "waiting key ls = filter (\<lambda>i. lk_key (ls ! i) = key \<and> \<not> lk_released (ls ! i)) [0..<length ls]"

text \<open>Each lock waits for the one before it among those that are not released, and the map holds the last of them.\<close>

fun chained :: "selection_lock list \<Rightarrow> nat list \<Rightarrow> bool" where
  "chained ls [] = True"
| "chained ls [i] = True"
| "chained ls (i # j # js) = (lk_wait (ls ! j) = Some i \<and> chained ls (j # js))"

definition lock_inv :: "mutexes \<Rightarrow> bool" where
  "lock_inv st \<longleftrightarrow> (\<forall>key. let w = waiting key (promises st) in
     map_of (selectionMutexes st) key = (if w = [] then None else Some (last w))
     \<and> (w \<noteq> [] \<longrightarrow> lock_granted st (hd w)) \<and> chained (promises st) w)
   \<and> (\<forall>i < length (promises st). \<forall>j. lk_wait (promises st ! i) = Some j \<longrightarrow> j < i)"

lemma waiting_snoc:
  "waiting key (ls @ [l]) = waiting key ls @ (if lk_key l = key \<and> \<not> lk_released l then [length ls] else [])"
proof -
  have "filter (\<lambda>i. lk_key ((ls @ [l]) ! i) = key \<and> \<not> lk_released ((ls @ [l]) ! i)) [0..<length ls] = waiting key ls"
    unfolding waiting_def by (intro filter_cong) (simp_all add: nth_append)
  then show ?thesis by (simp add: waiting_def nth_append)
qed

lemma waiting_lt: "i \<in> set (waiting key ls) \<Longrightarrow> i < length ls"
  by (simp add: waiting_def)

lemma waiting_release:
  assumes "i < length ls" shows "waiting key (ls[i := (ls ! i)\<lparr>lk_released := True\<rparr>]) = filter (\<lambda>j. j \<noteq> i) (waiting key ls)"
  unfolding waiting_def filter_filter using assms by (intro filter_cong) (auto simp: nth_list_update)

lemma chained_cong: "\<forall>i \<in> set js. lk_wait (ls ! i) = lk_wait (ls' ! i) \<Longrightarrow> chained ls js = chained ls' js"
  by (induction ls js rule: chained.induct) auto

lemma chained_snoc: "chained ls (js @ [i]) \<longleftrightarrow> chained ls js \<and> (js \<noteq> [] \<longrightarrow> lk_wait (ls ! i) = Some (last js))"
  by (induction ls js rule: chained.induct) auto

text \<open>Only the first is granted.\<close>

lemma chained_granted:
  "chained (promises st) w \<Longrightarrow> \<forall>j \<in> set w. \<not> lk_released (promises st ! j) \<Longrightarrow> distinct w \<Longrightarrow> i \<in> set w \<Longrightarrow> lock_granted st i \<Longrightarrow> i = hd w"
  by (induction "promises st" w rule: chained.induct) (auto simp: lock_granted_def)

lemma distinct_waiting [simp]: "distinct (waiting key ls)"
  by (simp add: waiting_def)

lemma waiting_open: "i \<in> set (waiting key ls) \<longleftrightarrow> i < length ls \<and> lk_key (ls ! i) = key \<and> \<not> lk_released (ls ! i)"
  by (auto simp: waiting_def)

lemma granted_first:
  assumes "lock_inv st" and "i < length (promises st)" and "\<not> lk_released (promises st ! i)"
  shows "lock_granted st i \<longleftrightarrow> i = hd (waiting (lk_key (promises st ! i)) (promises st))"
proof -
  let ?w = "waiting (lk_key (promises st ! i)) (promises st)"
  have i: "i \<in> set ?w" using assms(2,3) by (simp add: waiting_open)
  then have "?w \<noteq> []" by auto
  then have "lock_granted st (hd ?w)" "chained (promises st) ?w" using assms(1) by (simp_all add: lock_inv_def Let_def)
  then show ?thesis using chained_granted [of st ?w i] i by (auto simp: waiting_open)
qed

lemma inv_create: assumes "lock_inv st" shows "lock_inv (createSelectionLock key st)"
proof -
  let ?n = "length (promises st)" and ?st = "createSelectionLock key st"
  note inv = assms [unfolded lock_inv_def Let_def]
  have old: "lk_wait (promises ?st ! j) = lk_wait (promises st ! j)" "lk_released (promises ?st ! j) = lk_released (promises st ! j)"
    if "j < ?n" for j using that by (simp_all add: createSelectionLock_def nth_append)
  have g: "lock_granted ?st i = lock_granted st i" if "i < ?n" for i
  proof (cases "lk_wait (promises st ! i)")
    case (Some j)
    then have "j < ?n" using inv that by (meson less_trans)
    then show ?thesis using that Some old by (simp add: lock_granted_def)
  qed (use that old in \<open>simp add: lock_granted_def\<close>)
  have last: "lk_wait (promises ?st ! ?n) = map_of (selectionMutexes st) key" by (simp add: createSelectionLock_def)
  have w: "waiting k (promises ?st) = waiting k (promises st) @ (if k = key then [?n] else [])" for k
    by (simp add: createSelectionLock_def waiting_snoc)
  have hd: "w \<noteq> [] \<Longrightarrow> w = waiting k (promises st) \<Longrightarrow> hd w < ?n" for k w by (metis hd_in_set waiting_lt)
  have c: "chained (promises ?st) (waiting k (promises st)) = chained (promises st) (waiting k (promises st))" for k
    using old by (intro chained_cong) (auto dest: waiting_lt)
  show ?thesis
    unfolding lock_inv_def Let_def
  proof (intro conjI allI impI)
    fix k
    show "map_of (selectionMutexes ?st) k = (if waiting k (promises ?st) = [] then None else Some (last (waiting k (promises ?st))))"
      using inv unfolding w by (simp add: createSelectionLock_def)
    show "chained (promises ?st) (waiting k (promises ?st))"
      using inv unfolding w by (auto simp: chained_snoc c last)
    assume ne: "waiting k (promises ?st) \<noteq> []"
    show "lock_granted ?st (hd (waiting k (promises ?st)))"
    proof (cases "waiting k (promises st) = []")
      case True
      then have "k = key" using ne unfolding w by (simp split: if_splits)
      then show ?thesis using True inv unfolding w by (simp add: lock_granted_def last)
    next
      case False
      then show ?thesis using inv g hd unfolding w by simp
    qed
  next
    fix i j assume i: "i < length (promises ?st)" "lk_wait (promises ?st ! i) = Some j"
    show "j < i"
    proof (cases "i < ?n")
      case True then show ?thesis using inv old i by metis
    next
      case False
      then have "i = ?n" using i by (simp add: createSelectionLock_def)
      then show ?thesis using i inv last by (auto split: if_splits dest: last_in_set waiting_lt)
    qed
  qed
qed

lemma chained_tl: "chained ls w \<Longrightarrow> chained ls (tl w) \<and> (tl w \<noteq> [] \<longrightarrow> lk_wait (ls ! hd (tl w)) = Some (hd w))"
  by (cases "(ls, w)" rule: chained.cases) auto

lemma filter_hd: "distinct w \<Longrightarrow> w \<noteq> [] \<Longrightarrow> filter (\<lambda>j. j \<noteq> hd w) w = tl w"
  by (cases w) (auto simp: filter_id_conv)

lemma inv_release_lock:
  assumes "lock_inv st" and "i < length (promises st)" and "lock_granted st i" and "\<not> lk_released (promises st ! i)"
  shows "lock_inv (release_lock i st)"
proof -
  let ?st = "release_lock i st" and ?key = "lk_key (promises st ! i)"
  note inv = assms(1) [unfolded lock_inv_def Let_def]
  define w where "w k = waiting k (promises st)" for k
  have i: "i = hd (w ?key)" "i \<in> set (w ?key)" using granted_first assms by (auto simp: w_def waiting_open)
  have p: "promises ?st = (promises st)[i := (promises st ! i)\<lparr>lk_released := True\<rparr>]" by (simp add: release_lock_def Let_def)
  have wait: "lk_wait (promises ?st ! j) = lk_wait (promises st ! j)" for j
    using assms(2) by (cases "j = i") (simp_all add: p)
  have stays: "lk_released (promises st ! j) \<Longrightarrow> lk_released (promises ?st ! j)" "lk_released (promises ?st ! i)" for j
    using assms(2) by (cases "j = i"; simp add: p)+
  have tl: "waiting ?key (promises ?st) = tl (w ?key)"
    using i filter_hd [of "w ?key"] unfolding p waiting_release [OF assms(2)] w_def by fastforce
  have other: "waiting k (promises ?st) = w k" if "k \<noteq> ?key" for k
    unfolding p waiting_release [OF assms(2)] w_def using that by (auto simp: filter_id_conv waiting_open)
  have g: "lock_granted st j \<Longrightarrow> lock_granted ?st j" for j
    using stays by (auto simp: lock_granted_def wait split: option.splits)
  have c: "chained (promises ?st) js = chained (promises st) js" for js using wait by (intro chained_cong) simp
  have map: "map_of (selectionMutexes ?st) k = (if k = ?key \<and> map_of (selectionMutexes st) ?key = Some i then None else map_of (selectionMutexes st) k)" for k
    by (simp add: release_lock_def Let_def)
  have fin: "last (w ?key) = i \<longleftrightarrow> tl (w ?key) = []"
  proof (cases "w ?key")
    case (Cons a js)
    then have "a \<notin> set js" using distinct_waiting [of ?key "promises st"] by (simp add: w_def)
    then show ?thesis using Cons i(1) last_in_set [of js] by (cases "js = []") auto
  qed (use i in simp)
  show ?thesis
    unfolding lock_inv_def Let_def
  proof (intro conjI allI impI)
    fix k
    show "map_of (selectionMutexes ?st) k = (if waiting k (promises ?st) = [] then None else Some (last (waiting k (promises ?st))))"
      using inv fin i(2) by (cases "k = ?key") (auto simp: map tl other last_tl w_def)
    show "chained (promises ?st) (waiting k (promises ?st))"
      using inv chained_tl [of "promises st" "w ?key"] by (cases "k = ?key") (auto simp: c tl other w_def)
    show "lock_granted ?st (hd (waiting k (promises ?st)))" if "waiting k (promises ?st) \<noteq> []"
    proof (cases "k = ?key")
      case True
      then have "lk_wait (promises st ! hd (tl (w ?key))) = Some i"
        using that inv chained_tl [of "promises st" "w ?key"] i(1) by (auto simp: tl w_def)
      then show ?thesis using True stays(2) by (simp add: tl lock_granted_def wait)
    qed (use that inv g other in \<open>auto simp: w_def\<close>)
  next
    fix a j assume "a < length (promises ?st)" "lk_wait (promises ?st ! a) = Some j"
    then show "j < a" using inv by (simp add: p wait [unfolded p])
  qed
qed

lemma inv_lock_step: "lock_inv st \<Longrightarrow> lock_inv (mutex_step st e)"
  by (cases e) (auto simp: inv_create inv_release_lock)

lemma inv_locks: "lock_inv (foldl mutex_step no_locks es)"
proof -
  have "lock_inv st \<Longrightarrow> lock_inv (foldl mutex_step st es)" for st
    by (induction es arbitrary: st) (simp_all add: inv_lock_step)
  moreover have "lock_inv no_locks" by (simp add: lock_inv_def no_locks_def waiting_def)
  ultimately show ?thesis by blast
qed

text \<open>
  C99. The lock of the selection is exclusive, fair and leaves nothing behind: after any sequence of requests for locks
  and releases, a lock that is not released is granted exactly when it is the oldest such lock of its key, so no two
  selections for one provider and owner run at once and the next in line always runs; and the map holds a key exactly
  while somebody has or waits for its lock.
\<close>

theorem selection_lock_fair:
  "let st = foldl mutex_step no_locks es; ls = promises st
   in (\<forall>i < length ls. \<not> lk_released (ls ! i) \<longrightarrow>
         (lock_granted st i \<longleftrightarrow> \<not> (\<exists>j < i. lk_key (ls ! j) = lk_key (ls ! i) \<and> \<not> lk_released (ls ! j))))
    \<and> (\<forall>key. map_has key (selectionMutexes st) \<longleftrightarrow> (\<exists>i < length ls. lk_key (ls ! i) = key \<and> \<not> lk_released (ls ! i)))"
proof -
  define st where "st = foldl mutex_step no_locks es"
  have inv: "lock_inv st" unfolding st_def by (rule inv_locks)
  have "lock_granted st i \<longleftrightarrow> \<not> (\<exists>j < i. lk_key (promises st ! j) = lk_key (promises st ! i) \<and> \<not> lk_released (promises st ! j))"
    if "i < length (promises st)" "\<not> lk_released (promises st ! i)" for i
  proof -
    let ?w = "waiting (lk_key (promises st ! i)) (promises st)"
    have i: "i \<in> set ?w" using that by (simp add: waiting_open)
    have "sorted ?w" by (simp add: waiting_def sorted_wrt_filter)
    then have "hd ?w \<le> j" if "j \<in> set ?w" for j using that by (cases ?w) auto
    moreover have "hd ?w \<in> set ?w" using i by (metis hd_in_set list.set(1) empty_iff)
    ultimately have "i = hd ?w \<longleftrightarrow> \<not> (\<exists>j < i. j \<in> set ?w)" using i by (metis leD le_neq_implies_less)
    then show ?thesis using granted_first [OF inv that] that by (auto simp: waiting_open)
  qed
  moreover have "map_has key (selectionMutexes st) \<longleftrightarrow> (\<exists>i < length (promises st). lk_key (promises st ! i) = key \<and> \<not> lk_released (promises st ! i))" for key
  proof -
    have "map_has key (selectionMutexes st) \<longleftrightarrow> waiting key (promises st) \<noteq> []"
      using inv by (simp add: lock_inv_def Let_def map_has_def)
    then show ?thesis by (auto simp: waiting_def filter_empty_conv)
  qed
  ultimately show ?thesis by (simp add: st_def [symmetric] Let_def)
qed

theorem selection_lock_fair_witness:
  "\<exists>st. st = foldl mutex_step no_locks [Create ''p'', Create ''p'', Release 1, Release 0]
     \<and> lock_granted st 1 \<and> \<not> lk_released (promises st ! 1) \<and> map_has ''p'' (selectionMutexes st)"
proof -
  let ?es = "[Create ''p'', Create ''p'', Release 1, Release 0]"
  let ?st = "foldl mutex_step no_locks ?es"
  have "1 < length (promises ?st)" "\<not> lk_released (promises ?st ! 1)" "\<not> (\<exists>j < 1. \<not> lk_released (promises ?st ! j))" "lk_key (promises ?st ! 1) = ''p''"
    by code_simp+
  then show ?thesis using selection_lock_fair [of ?es] unfolding Let_def by blast
qed

end
