(* ===== verification/Spec2Isabelle.thy ===== *)
theory Spec2Isabelle
  imports BreakerRegistry AccountSemaphore RateLimitSemaphore AdmissionProps SlidingWindow QuotaShare
    FairShare ThinkTags WorkflowFSM IPFilter JsonSize ComboStructure ComboCompat ComboDispatch ComboLoop
    RoundRobinLoop ModelLockout Budget SessionKeys SelectionProps SelectionLock
begin

text \<open>
  OmniRoute is a gateway that routes chat requests over many provider accounts. This library models
  the parts of it that decide: whether a request may start, which account takes it, what it is charged,
  and how text and configuration are read on the way. The code is TypeScript, under \<open>src/open-sse\<close> (the
  streaming engine) and \<open>src/src\<close> (the application).

  How the parts interact. A request passes the IP filter, the budget check of its API key, then the admission controller, which bounds the
  cost in flight; the router expands the combo it names into targets, filters and orders them, and tries
  them, consulting the circuit breaker and the cooldowns of each provider, the lockouts of each model, the
  quota-sharing engine, the budget of the API key, and, for quota-share combos, the deficit round robin; for
  each target it selects an account of the provider; before the call it takes its
  places in the semaphores and rate limiters of provider and account; the response stream goes through the
  reasoning-tag parser; afterwards the outcome is recorded on breaker, cooldown, lockout and quota store,
  its cost on the spend writer, and every lease is returned.

  Shared theories.
  \<^item> \<^verbatim>\<open>Prelude\<close>: insertion-ordered maps, optional numbers and values of unknown type, and the locales
    \<open>machine\<close>, \<open>guarded_machine\<close>, \<open>capped_machine\<close>: a step function with an invariant, whose lemmas lift a
    fact about one step to every run. Each stateful component interprets one of them on its own step
    function.
  \<^item> \<^verbatim>\<open>JsString\<close>: the string operations of JavaScript; \<^verbatim>\<open>JsValue\<close>: JSON values of unknown shape.
  \<^item> \<^verbatim>\<open>CostQueue\<close>: the interface the admission controller uses a queue through, as a locale; interpreted
    in \<^verbatim>\<open>FairCostQueue\<close>.

  Failures of a provider.
  \<^item> \<^verbatim>\<open>CircuitBreaker\<close> (\<open>src/src/shared/utils/circuitBreaker.ts\<close>): the record \<open>cb\<close> has the fields of
    the class, and each method is a definition; \<open>execute\<close> is split at its \<open>await\<close>. Lemmas: the invariant
    of the class, the refinement of a counter of consecutive failures, the bounds of the backoff, the
    round trip through the database, and what an open breaker answers.
  \<^item> \<^verbatim>\<open>BreakerRegistry\<close> (same file, and \<open>accountFallback.ts\<close>): the registry and the functions that record
    failures and successes of providers.
  \<^item> \<^verbatim>\<open>ProviderCooldown\<close> (\<open>providerCooldownTracker.ts\<close>): cooldowns of connections and providers; the
    window gate is compared with the number of failures in the window.
  \<^item> \<^verbatim>\<open>ModelLockout\<close> (\<open>accountFallback.ts\<close> and its two leaves): the lockout of single models. Lemmas: a lock
    lasts until its end or an unlock, which every successful request is for its model, repeated failures
    without an exact cooldown lock for exponentially longer up to the cap, and the two queries agree.

  Combos (\<open>src/open-sse/services/combo\<close>), in the order a request meets them.
  \<^item> \<^verbatim>\<open>ComboSteps\<close> (\<open>src/src/lib/combos/steps.ts\<close>): the steps of a combo read from untyped JSON;
    normalising twice is normalising once, up to the exception a lemma shows.
  \<^item> \<^verbatim>\<open>ComboStructure\<close> (\<open>comboStructure.ts\<close>, \<open>targetSorters.ts\<close>, \<open>comboData.ts\<close>): expansion of nested combos
    into targets, DAG validation, weighted selection. Validation refuses exactly the combos with a cycle or
    too deep, and what it accepts expands without loss.
  \<^item> \<^verbatim>\<open>ComboCompat\<close> (\<open>comboStructure.ts\<close>, \<open>contextOverrideGate.ts\<close>): which targets can serve a request.
  \<^item> \<^verbatim>\<open>ComboExhaustion\<close> (\<open>targetExhaustion.ts\<close>, \<open>comboPredicates.ts\<close>): what a failure excludes for the rest of
    the request: exactly its connection, its provider or nothing.
  \<^item> \<^verbatim>\<open>TargetAffinity\<close> (\<open>sessionStickiness.ts\<close>, \<open>promptCacheAffinity.ts\<close>, \<open>headroomRanking.ts\<close>): the bindings of
    conversations to connections and the ranking of targets by prompt cache. A bound conversation finds its
    connection first; the map is bounded; the ranking puts the best target first and loses none.
  \<^item> \<^verbatim>\<open>ComboAttempt\<close> (\<open>executeTargetGates.ts\<close>, \<open>executeTargetAttempt.ts\<close>, \<open>executeTargetClassify.ts\<close>): one
    target, its gates, retries and failures, with the calls to the components above as a trace of effects,
    and the pass over the targets while the loop waits for each; where the hedge timer or the safety timer
    makes it leave one running, \<^verbatim>\<open>ComboLoop\<close> goes on.
    Lemmas: the order of fallback, the bound on upstream calls, which failures leave others alone, and what
    a protected target falls back on.
  \<^item> \<^verbatim>\<open>ComboLoop\<close> (\<open>comboAttemptLoop.ts\<close>): the interleavings of one pass, with hedging and the safety timer:
    the first answer wins, and every pass ends.
  \<^item> \<^verbatim>\<open>ComboDispatch\<close> (\<open>comboAttemptLoop.ts\<close>, \<open>comboCooldownRetry.ts\<close>, \<open>comboErrorAggregation.ts\<close>): the passes
    of a request, the waits between them and its terminal status; it terminates.
  \<^item> \<^verbatim>\<open>RoundRobin\<close> and \<^verbatim>\<open>RoundRobinLoop\<close> (\<open>rrState.ts\<close>, \<open>roundRobinCombo.ts\<close>): the rotation and the handler of
    round-robin combos, with stickiness and affinity: where a request starts, that it goes around the list
    and on behind the target that answered, and that a conversation stays on its connection.

  Accounts: which connection of a provider a request gets.
  \<^item> \<^verbatim>\<open>Connections\<close> (\<open>lazyConnectionView.ts\<close> and \<open>accountFallback.ts\<close>): a connection as selection sees it, and
    sorting with a comparator. \<^verbatim>\<open>Wildcard\<close> (\<open>wildcardRouter.ts\<close> and the connection model rules): model patterns.
  \<^item> \<^verbatim>\<open>SessionKeys\<close>, \<^verbatim>\<open>SessionAffinity\<close>, \<^verbatim>\<open>OAuthOccupancy\<close>, \<^verbatim>\<open>ShuffleDeck\<close>: the key of a session, the account it is
    pinned to, the sessions that occupy an OAuth account, and the decks of the random strategy.
  \<^item> \<^verbatim>\<open>QuotaScopes\<close>, \<^verbatim>\<open>QuotaCache\<close>, \<^verbatim>\<open>QuotaPolicy\<close>, \<^verbatim>\<open>PeakHour\<close>, \<^verbatim>\<open>CodexAccounts\<close>: what is known of the quota of
    an account, per family of models and per window, what it excludes, and until when.
  \<^item> \<^verbatim>\<open>AccountSelection\<close> and \<^verbatim>\<open>SelectionProps\<close> (\<open>src/src/sse/services/auth.ts\<close>): the selection itself. What it
    returns has passed every filter; least-used selection goes around; the retry time lies ahead.
    \<^verbatim>\<open>SelectionLock\<close>: the promise chain that makes selections of a provider exclusive, which is fair.
  \<^item> \<^verbatim>\<open>ConnectionLease\<close>: exclusive leases of connections, with generations; one holder at a time.

  Bounding concurrency and rate.
  \<^item> \<^verbatim>\<open>AccountSemaphore\<close> (\<open>accountSemaphore.ts\<close>): hierarchical gates. Lemmas: the cap on running requests,
    no overtaking among waiting requests that want the same gates, and that a release wakes whom it can.
  \<^item> \<^verbatim>\<open>RateLimitSemaphore\<close> (\<open>rateLimitSemaphore.ts\<close>): the limiter of round-robin combos.
  \<^item> \<^verbatim>\<open>SlidingWindow\<close> (\<open>slidingWindowLimiter.ts\<close>): at most the allowed hits in every trailing window, an
    acquisition in all scopes or in none, an exact retry time, and the release as the inverse of the
    acquisition.

  Admission (\<open>src/open-sse/services/admission\<close>).
  \<^item> \<^verbatim>\<open>AdmissionConfig\<close> (\<open>types.ts\<close>, \<open>config.ts\<close>, \<open>cost.ts\<close>), \<^verbatim>\<open>Adaptation\<close> (\<open>adaptation.ts\<close>),
    \<^verbatim>\<open>FairCostQueue\<close> (\<open>queue.ts\<close>), \<^verbatim>\<open>AdmissionController\<close> (\<open>controller.ts\<close>): the controller composes the
    other three. \<^verbatim>\<open>AdmissionProps\<close> has its promises: the cost budget, that each queued request is answered
    once, and that a shutdown is final; the queue's are conservation, round robin over the tenants and the
    reservation for an aged head; the adaptive limit stays in its range and recovers when idle.

  Quotas.
  \<^item> \<^verbatim>\<open>QuotaStore\<close> (\<open>dimensions.ts\<close>, \<open>quotaConsumption.ts\<close>, \<open>sqliteQuotaStore.ts\<close>): sliding-window
    counters; what is read is the weighted history of what was consumed.
  \<^item> \<^verbatim>\<open>FairShare\<close> (\<open>fairShare.ts\<close>, \<open>planResolver.ts\<close>, \<open>planRegistry.ts\<close>, \<open>enforce.ts\<close>): the decision before a
    request and the recording after it, over the store.
  \<^item> \<^verbatim>\<open>AccountBuckets\<close> (\<open>accountBuckets.ts\<close>), \<^verbatim>\<open>QuotaInflight\<close> (\<open>quotaShareInflight.ts\<close>) and
    \<^verbatim>\<open>QuotaShare\<close> (\<open>quotaShareStrategy.ts\<close>): selection by deficit round robin, with the proportionality of
    the shares and what happens to saturated or full connections.

  Spending and budgets.
  \<^item> \<^verbatim>\<open>SpendWriter\<close> (\<open>batchWriter.ts\<close>, \<open>domainState.ts\<close>): the buffered writer of costs and its table;
    no cost is lost or, outside one moment, counted twice, whatever flushes do; and what stops it for good.
  \<^item> \<^verbatim>\<open>UtcCalendar\<close>: the calendar of \<open>Date.UTC\<close>, and the locales \<open>grid\<close>, \<open>day_grid\<close> and \<open>windows\<close> of instants
    that partition time; interpreted in \<^verbatim>\<open>BudgetWindow\<close> (\<open>costRules.ts\<close>) on the reset times of budgets.
  \<^item> \<^verbatim>\<open>Budget\<close> (\<open>costRules.ts\<close>, \<open>domainState.ts\<close>): the store of budgets and the check before a request. It
    is exact for what was spent, overshoots by the requests in flight and no more, fails open without a
    database, and every period that ends is logged once.

  Text, workflows and access.
  \<^item> \<^verbatim>\<open>ThinkTags\<close> (\<open>thinkTagParser.ts\<close>, \<open>streamHelpers.ts\<close>): the streaming parser computes what a parser
    of the whole text would.
  \<^item> \<^verbatim>\<open>JsonSize\<close> (\<open>jsonSize.ts\<close>): the counted length is that of \<open>JSON.stringify\<close>.
  \<^item> \<^verbatim>\<open>WorkflowFSM\<close> (\<open>workflowFSM.ts\<close>): the phases a workflow visits, when it is stuck, and a bound on
    the steps it can take.
  \<^item> \<^verbatim>\<open>IPFilter\<close> (\<open>ipFilter.ts\<close>): the modes of the filter, CIDR blocks on 32-bit words, and persistence.

  Conventions. A JavaScript \<open>Map\<close> is an association list in insertion order. The clock is an argument
  \<open>now\<close>; timers, aborts and \<open>await\<close> points are events or separate definitions, so that any interleaving is
  a sequence of steps. Errors are \<open>Inl\<close> values. Numbers that are counters or times are integers, doubles
  that are averages or weights are exact rationals (rounding is not modelled), and bit operations are on
  \<open>32 word\<close>.

  Bounds and fuel. The loops over an admission queue recurse on its number of entries, which each pass
  lowers; the JSON length enters each heap object at most once on a path, so it terminates, and answers
  with the code's error on a cycle; the expansion of combos recurses on the depth the code limits, the
  attempts on a target on \<open>maxRetries\<close>, a pass on the targets left, the dispatch on the attempts and the
  waits the configuration allows; extraction of reasoning tags stops after ten blocks because the code does.

  Not modelled: everything whose work is input and output or the format of a third party: the HTTP
  handlers and the chat pipeline, the executors and translators of the providers, OAuth, the usage
  fetchers, prompt compression (heuristics over text), the dashboard, the MCP and A2A servers, the
  command line. Of the modelled files, the reports assembled for the dashboard are left out, and of combos
  the rewriting of the request body for a target (compression, handoffs, templates), the derivation of the
  prompt-cache key, traces, webhooks and metrics. Regular expressions that classify models and errors are arguments where a
  modelled function consults them.
\<close>

end
